(* ===== verification/Prelude.thy ===== *)
theory Prelude
  imports Complex_Main "HOL-Library.Multiset" "HOL-Library.Signed_Division"
begin

text \<open>
  The prelude of the development: the errors that the Python code raises, the result type
  in which every operation that can raise returns, Python's and torch's indexing rules,
  the conversion to 32-bit integers that a store into an int32 tensor performs, and the
  generic lemmas on lists, multisets and results that the component theories share.

  The collection \<open>res\<close> holds the inversion rules of the result type: with
  \<open>simp add: res\<close> a hypothesis that a chain of fallible calls returned is taken
  apart into the intermediate results.
\<close>

named_theorems res "inversion rules for results"

section \<open>Errors and results\<close>

datatype py_error =
    KeyError
  | IndexError
  | ValueError
  | AssertionError
  | RuntimeError
  | TypeError
  | ZeroDivisionError
  | NotImplementedError
  | AttributeError
  | ImportError
  | CppAssertion
  | NoReturn

text \<open>
  \<open>NoReturn\<close> is not an exception: it is the value of a loop that has used up its fuel, which
  the lemmas show not to happen where the code returns.
\<close>

type_synonym 'a result = "py_error + 'a"

definition bindR :: "'a result \<Rightarrow> ('a \<Rightarrow> 'b result) \<Rightarrow> 'b result" where
  "bindR r f = (case r of Inl e \<Rightarrow> Inl e | Inr x \<Rightarrow> f x)"

definition assertR :: "bool \<Rightarrow> unit result" where
  "assertR b = (if b then Inr () else Inl AssertionError)"

definition lookupR :: "('k \<Rightarrow> 'v option) \<Rightarrow> 'k \<Rightarrow> 'v result" where
  "lookupR m k = (case m k of None \<Rightarrow> Inl KeyError | Some v \<Rightarrow> Inr v)"

lemma bindR_simps [simp]:
  "bindR (Inl e) f = Inl e"
  "bindR (Inr x) f = f x"
  by (simp_all add: bindR_def)

lemma bindR_Inr_iff [res]: "bindR r f = Inr y \<longleftrightarrow> (\<exists>x. r = Inr x \<and> f x = Inr y)"
  by (cases r) simp_all

lemma bindR_Inl_iff: "bindR r f = Inl e \<longleftrightarrow> r = Inl e \<or> (\<exists>x. r = Inr x \<and> f x = Inl e)"
  by (cases r) auto

lemma bindR_assoc: "bindR (bindR r f) g = bindR r (\<lambda>x. bindR (f x) g)"
  by (cases r) simp_all

lemma bindR_cong [fundef_cong]:
  "r = r' \<Longrightarrow> (\<And>x. r' = Inr x \<Longrightarrow> f x = f' x) \<Longrightarrow> bindR r f = bindR r' f'"
  by (cases r') auto

lemma assertR_simps [simp]:
  "assertR True = Inr ()"
  "assertR False = Inl AssertionError"
  by (simp_all add: assertR_def)

lemma assertR_Inr_iff [res]: "assertR b = Inr u \<longleftrightarrow> b"
  by (simp add: assertR_def)

lemma lookupR_simps [simp]:
  "m k = None \<Longrightarrow> lookupR m k = Inl KeyError"
  "m k = Some v \<Longrightarrow> lookupR m k = Inr v"
  by (simp_all add: lookupR_def)

lemma lookupR_Inr_iff [res]: "lookupR m k = Inr v \<longleftrightarrow> m k = Some v"
  by (simp add: lookupR_def split: option.split)

lemma lookupR_Inl_iff: "lookupR m k = Inl e \<longleftrightarrow> m k = None \<and> e = KeyError"
  by (auto simp: lookupR_def split: option.split)

text \<open>An attribute that is still None has no item or method: the access raises.\<close>

definition not_None :: "py_error \<Rightarrow> 'a option \<Rightarrow> 'a result" where
  "not_None e x = (case x of None \<Rightarrow> Inl e | Some v \<Rightarrow> Inr v)"

lemma not_None_simps [simp]: "not_None e (Some v) = Inr v" "not_None e None = Inl e"
  by (simp_all add: not_None_def)

lemma not_None_Inr_iff [res]: "not_None e x = Inr v \<longleftrightarrow> x = Some v"
  by (cases x) simp_all

text \<open>The request ids that a router is called with come as a tensor or as a Python list.\<close>

datatype id_arg = PyList "int list" | Tensor "int list"

text \<open>A loop whose body can raise: it stops at the first error.\<close>

fun foldR :: "('a \<Rightarrow> 's \<Rightarrow> 's result) \<Rightarrow> 'a list \<Rightarrow> 's \<Rightarrow> 's result" where
  "foldR f [] s = Inr s"
| "foldR f (x # xs) s = bindR (f x s) (foldR f xs)"

fun mapR :: "('a \<Rightarrow> 'b result) \<Rightarrow> 'a list \<Rightarrow> 'b list result" where
  "mapR f [] = Inr []"
| "mapR f (x # xs) = bindR (f x) (\<lambda>y. bindR (mapR f xs) (\<lambda>ys. Inr (y # ys)))"

lemma foldR_append: "foldR f (xs @ ys) s = bindR (foldR f xs s) (foldR f ys)"
proof (induction xs arbitrary: s)
  case (Cons x xs)
  then show ?case by (cases "f x s") simp_all
qed simp

lemma foldR_invariant:
  assumes "foldR f xs s = Inr t" and "I s"
    and "\<And>x s s'. x \<in> set xs \<Longrightarrow> I s \<Longrightarrow> f x s = Inr s' \<Longrightarrow> I s'"
  shows "I t"
  using assms
proof (induction xs arbitrary: s)
  case (Cons x xs)
  from Cons.prems(1) obtain s' where s': "f x s = Inr s'" and rest: "foldR f xs s' = Inr t"
    by (auto simp: res)
  have "I s'" by (rule Cons.prems(3) [OF _ Cons.prems(2) s']) simp
  then show ?case by (rule Cons.IH [OF rest]) (use Cons.prems(3) in auto)
qed simp

lemma foldR_total:
  assumes "I s" and "\<And>x s. x \<in> set xs \<Longrightarrow> I s \<Longrightarrow> \<exists>s'. f x s = Inr s' \<and> I s'"
  shows "\<exists>t. foldR f xs s = Inr t \<and> I t"
  using assms
proof (induction xs arbitrary: s)
  case (Cons x xs)
  then obtain s' where "f x s = Inr s'" "I s'" by fastforce
  then show ?case using Cons.IH [of s'] Cons.prems(2) by simp
qed simp

lemma foldR_pure: "foldR (\<lambda>x s. Inr (f x s)) xs s = Inr (fold f xs s)"
  by (induction xs arbitrary: s) simp_all

lemma mapR_Inr_length: "mapR f xs = Inr ys \<Longrightarrow> length ys = length xs"
  by (induction xs arbitrary: ys) (auto simp: res)

lemma mapR_Inr_nth: "mapR f xs = Inr ys \<Longrightarrow> i < length xs \<Longrightarrow> f (xs ! i) = Inr (ys ! i)"
proof (induction xs arbitrary: ys i)
  case (Cons x xs)
  then show ?case by (cases i) (auto simp: res)
qed simp

lemma mapR_all_Inr: "(\<And>x. x \<in> set xs \<Longrightarrow> f x = Inr (g x)) \<Longrightarrow> mapR f xs = Inr (map g xs)"
  by (induction xs) simp_all

section \<open>Python and torch indexing\<close>

text \<open>
  An index below zero counts from the end, an index out of range raises. The same rule
  holds for a Python list and for one dimension of a torch tensor.
\<close>

definition py_pos :: "nat \<Rightarrow> int \<Rightarrow> nat option" where
  "py_pos n i =
     (let j = (if i < 0 then int n + i else i)
      in if 0 \<le> j \<and> j < int n then Some (nat j) else None)"

definition py_get :: "'a list \<Rightarrow> int \<Rightarrow> 'a result" where
  "py_get xs i = (case py_pos (length xs) i of None \<Rightarrow> Inl IndexError | Some j \<Rightarrow> Inr (xs ! j))"

definition py_set :: "'a list \<Rightarrow> int \<Rightarrow> 'a \<Rightarrow> 'a list result" where
  "py_set xs i x =
     (case py_pos (length xs) i of None \<Rightarrow> Inl IndexError | Some j \<Rightarrow> Inr (xs[j := x]))"

lemma py_pos_nat: "py_pos n (int i) = (if i < n then Some i else None)"
  by (simp add: py_pos_def Let_def)

lemma py_pos_bound: "py_pos n i = Some j \<Longrightarrow> j < n"
  by (auto simp: py_pos_def Let_def split: if_splits)

lemma py_get_nat [simp]: "i < length xs \<Longrightarrow> py_get xs (int i) = Inr (xs ! i)"
  by (simp add: py_get_def py_pos_nat)

lemma py_set_nat [simp]: "i < length xs \<Longrightarrow> py_set xs (int i) x = Inr (xs[i := x])"
  by (simp add: py_set_def py_pos_nat)

lemma py_get_nonneg: "0 \<le> i \<Longrightarrow> nat i < length xs \<Longrightarrow> py_get xs i = Inr (xs ! nat i)"
  by (auto simp: py_get_def py_pos_def Let_def)

lemma py_set_length: "py_set xs i x = Inr ys \<Longrightarrow> length ys = length xs"
  by (auto simp: py_set_def split: option.splits)

text \<open>Storing an int64 value into an int32 tensor keeps the low 32 bits, as two's complement.\<close>

definition to_i32 :: "int \<Rightarrow> int" where
  "to_i32 x = (x + 2 ^ 31) mod 2 ^ 32 - 2 ^ 31"

lemma to_i32_id: "- (2 ^ 31) \<le> x \<Longrightarrow> x < 2 ^ 31 \<Longrightarrow> to_i32 x = x"
  by (simp add: to_i32_def)

lemma to_i32_bounds: "- (2 ^ 31) \<le> to_i32 x \<and> to_i32 x < 2 ^ 31"
  using pos_mod_bound [of "2 ^ 32 :: int" "x + 2 ^ 31"]
  by (simp add: to_i32_def)

section \<open>Rounding up\<close>

definition ceil_div :: "int \<Rightarrow> int \<Rightarrow> int" where
  "ceil_div a b = (a + b - 1) div b"

lemma ceil_div_ge: "0 < b \<Longrightarrow> a \<le> b * ceil_div a b"
proof -
  assume b: "0 < b"
  have "b * ((a + b - 1) div b) = (a + b - 1) - (a + b - 1) mod b"
    by (simp add: minus_mod_eq_mult_div)
  moreover have "(a + b - 1) mod b \<le> b - 1"
    using pos_mod_bound [OF b, of "a + b - 1"] by simp
  ultimately show ?thesis by (simp add: ceil_div_def)
qed

lemma ceil_div_least:
  assumes b: "0 < b" and ab: "a \<le> b * k"
  shows "ceil_div a b \<le> k"
proof -
  have "a + b - 1 \<le> (k + 1) * b - 1" using ab by (simp add: algebra_simps)
  then have "(a + b - 1) div b \<le> ((k + 1) * b - 1) div b"
    using b by (intro zdiv_mono1) simp_all
  also have "((k + 1) * b - 1) div b = k"
    using b by (intro int_div_pos_eq [where r = "b - 1"]) (simp_all add: algebra_simps)
  finally show ?thesis by (simp add: ceil_div_def)
qed

lemma ceil_div_nonneg: "0 < b \<Longrightarrow> 0 \<le> a \<Longrightarrow> 0 \<le> ceil_div a b"
  by (simp add: ceil_div_def pos_imp_zdiv_nonneg_iff)

lemma ceil_div_mono: "0 < b \<Longrightarrow> a \<le> a' \<Longrightarrow> ceil_div a b \<le> ceil_div a' b"
  by (simp add: ceil_div_def zdiv_mono1)

lemma ceil_div_add_le:
  assumes "0 < b"
  shows "ceil_div (x + y) b \<le> ceil_div x b + ceil_div y b"
proof (rule ceil_div_least [OF assms])
  show "x + y \<le> b * (ceil_div x b + ceil_div y b)"
    using ceil_div_ge [OF assms, of x] ceil_div_ge [OF assms, of y]
    by (simp add: algebra_simps)
qed

lemma ceil_div_step:
  assumes "0 < b"
  shows "ceil_div (n + 1) b = ceil_div n b + (if n mod b = 0 then 1 else 0)"
proof -
  define q r where "q = n div b" and "r = n mod b"
  have n: "n = b * q + r" and r: "0 \<le> r" "r < b"
    using assms by (simp_all add: q_def r_def)
  have 1: "ceil_div (n + 1) b = q + 1"
    unfolding ceil_div_def
    using n r by (intro int_div_pos_eq [where r = r]) (simp_all add: algebra_simps)
  have 2: "ceil_div n b = q + (if r = 0 then 0 else 1)"
    unfolding ceil_div_def
    using n r assms
    by (intro int_div_pos_eq [where r = "if r = 0 then b - 1 else r - 1"])
      (auto simp: algebra_simps)
  show ?thesis using 1 2 by (simp add: r_def)
qed

section \<open>Lists and multisets\<close>

lemma sum_list_update_eq:
  fixes xs :: "int list"
  assumes "i < length xs"
  shows "sum_list (xs[i := v]) = sum_list xs - xs ! i + v"
  using assms
proof (induction xs arbitrary: i)
  case (Cons x xs)
  then show ?case by (cases i) simp_all
qed simp

lemma mset_map_split: "mset xs = mset (map f ys) \<Longrightarrow> \<exists>zs. xs = map f zs \<and> mset zs = mset ys"
proof (induction xs arbitrary: ys)
  case (Cons x xs)
  have "x \<in># mset (map f ys)" using Cons.prems by (metis list.set_intros(1) set_mset_mset)
  then obtain y where y: "y \<in> set ys" "x = f y" by auto
  then obtain us vs where ys: "ys = us @ y # vs" by (metis split_list)
  have "mset xs = mset (map f (us @ vs))" using Cons.prems y(2) ys by simp
  then obtain zs where "xs = map f zs" "mset zs = mset (us @ vs)" using Cons.IH by blast
  then show ?case using y(2) ys by (intro exI [of _ "y # zs"]) simp
qed simp

lemma mset_take_drop: "mset (take n xs) + mset (drop n xs) = mset xs"
  by (metis append_take_drop_id mset_append)

end
