(* ===== verification/Pools.thy ===== *)
theory Pools
  imports Prelude
begin

text \<open>
  The contract that every free list of the program promises to the code that draws from it:
  request slots (\<open>ReqToTokenPool\<close>), KV-cache token locations
  (\<open>TokenToKVPoolAllocator\<close>) and KV-cache blocks (the C++ \<open>BlockManager\<close>). A pool holds a
  bag of free indices; an allocation takes indices out of the bag or fails and changes
  nothing that a client can see, a release puts indices back.

  The clients' lemmas are proved here once, against the contract: a ledger of what is
  handed out never loses an index, and when the pool starts with distinct indices no
  index is ever handed out to two owners.
\<close>

text \<open>What a client does to a pool. A client that frees what it does not own is stopped.\<close>

datatype 'a pool_op = PAlloc nat | PFree "'a list"

fun ledger_run ::
  "('s \<Rightarrow> nat \<Rightarrow> 'a list option \<times> 's) \<Rightarrow> ('s \<Rightarrow> 'a list \<Rightarrow> 's) \<Rightarrow>
   'a pool_op list \<Rightarrow> 's \<times> 'a multiset \<Rightarrow> ('s \<times> 'a multiset) option" where
  "ledger_run alloc free [] (s, own) = Some (s, own)"
| "ledger_run alloc free (PAlloc n # ops) (s, own) =
     (case alloc s n of
        (None, s') \<Rightarrow> ledger_run alloc free ops (s', own)
      | (Some xs, s') \<Rightarrow> ledger_run alloc free ops (s', own + mset xs))"
| "ledger_run alloc free (PFree xs # ops) (s, own) =
     (if mset xs \<subseteq># own then ledger_run alloc free ops (free s xs, own - mset xs) else None)"

locale index_pool =
  fixes alloc :: "'s \<Rightarrow> nat \<Rightarrow> 'a list option \<times> 's"
    and free :: "'s \<Rightarrow> 'a list \<Rightarrow> 's"
    and bag :: "'s \<Rightarrow> 'a multiset"
    and ok :: "'s \<Rightarrow> bool"
  assumes alloc_Some: "ok s \<Longrightarrow> alloc s n = (Some xs, s') \<Longrightarrow>
      length xs = n \<and> bag s = mset xs + bag s' \<and> ok s'"
    and alloc_None: "ok s \<Longrightarrow> alloc s n = (None, s') \<Longrightarrow>
      size (bag s) < n \<and> bag s' = bag s \<and> ok s'"
    and free_bag: "ok s \<Longrightarrow> bag (free s xs) = bag s + mset xs \<and> ok (free s xs)"
begin

lemma alloc_fails_iff:
  assumes "ok s"
  shows "fst (alloc s n) = None \<longleftrightarrow> size (bag s) < n"
proof (cases "alloc s n")
  case (Pair r s')
  show ?thesis
  proof (cases r)
    case None
    then show ?thesis using alloc_None [OF assms] Pair by simp
  next
    case (Some xs)
    with alloc_Some [OF assms, of n xs s'] Pair have "length xs = n" "bag s = mset xs + bag s'"
      by simp_all
    then show ?thesis using Some Pair by auto
  qed
qed

lemma alloc_free_bag:
  "ok s \<Longrightarrow> alloc s n = (Some xs, s') \<Longrightarrow> bag (free s' xs) = bag s"
  using alloc_Some [of s n xs s'] free_bag [of s' xs] by simp

lemma ledger_conserves:
  assumes "ledger_run alloc free ops (s, own) = Some (t, own')" and "ok s"
  shows "bag t + own' = bag s + own \<and> ok t"
  using assms
proof (induction ops arbitrary: s own)
  case Nil
  then show ?case by simp
next
  case (Cons opn ops)
  show ?case
  proof (cases opn)
    case (PAlloc n)
    obtain r s' where al: "alloc s n = (r, s')" by (cases "alloc s n")
    show ?thesis
    proof (cases r)
      case None
      then have "bag s' = bag s \<and> ok s'" using alloc_None [OF Cons.prems(2)] al by simp
      moreover have "ledger_run alloc free ops (s', own) = Some (t, own')"
        using Cons.prems(1) PAlloc al None by simp
      ultimately show ?thesis using Cons.IH [of s' own] by simp
    next
      case (Some xs)
      then have 1: "bag s = mset xs + bag s'" "ok s'"
        using alloc_Some [OF Cons.prems(2)] al by simp_all
      have "ledger_run alloc free ops (s', own + mset xs) = Some (t, own')"
        using Cons.prems(1) PAlloc al Some by simp
      with Cons.IH [of s' "own + mset xs"] 1 show ?thesis by (simp add: ac_simps)
    qed
  next
    case (PFree xs)
    then have sub: "mset xs \<subseteq># own"
      and run: "ledger_run alloc free ops (free s xs, own - mset xs) = Some (t, own')"
      using Cons.prems(1) by (simp_all split: if_splits)
    have fb: "bag (free s xs) = bag s + mset xs" "ok (free s xs)"
      using free_bag [OF Cons.prems(2)] by simp_all
    have "bag (free s xs) + (own - mset xs) = bag s + (mset xs + (own - mset xs))"
      by (simp only: fb(1) add.assoc)
    also have "mset xs + (own - mset xs) = own"
      using sub by (rule subset_mset.add_diff_inverse)
    finally show ?thesis using Cons.IH [OF run fb(2)] by simp
  qed
qed

lemma ledger_exclusive:
  assumes run: "ledger_run alloc free ops (s, {#}) = Some (t, own)"
    and "ok s" and once: "\<And>x. count (bag s) x \<le> 1"
  shows "count (bag t) x + count own x \<le> 1"
proof -
  have "bag t + own = bag s" using ledger_conserves [OF run \<open>ok s\<close>] by simp
  then have "count (bag t) x + count own x = count (bag s) x" by (metis count_union)
  then show ?thesis using once [of x] by simp
qed

lemma ledger_next_alloc_fresh:
  assumes run: "ledger_run alloc free ops (s, {#}) = Some (t, own)"
    and "ok s" and once: "\<And>x. count (bag s) x \<le> 1"
    and al: "alloc t n = (Some xs, t')"
  shows "distinct xs \<and> set xs \<inter> set_mset own = {} \<and> set xs \<subseteq> set_mset (bag s)"
proof -
  have cons: "bag t + own = bag s" and okt: "ok t"
    using ledger_conserves [OF run \<open>ok s\<close>] by simp_all
  have bt: "bag t = mset xs + bag t'" using alloc_Some [OF okt al] by simp
  have le: "count (mset xs) x + count own x \<le> 1" for x
    using ledger_exclusive [OF run \<open>ok s\<close> once, of x] bt by simp
  have "distinct xs"
  proof (subst distinct_count_atmost_1, rule allI)
    fix x
    have "count (mset xs) x \<le> 1" using le [of x] by simp
    then show "count (mset xs) x = (if x \<in> set xs then 1 else 0)"
      by (metis One_nat_def Suc_leI count_eq_zero_iff le_antisym not_gr_zero set_mset_mset)
  qed
  moreover have "set xs \<inter> set_mset own = {}"
  proof (rule ccontr)
    assume "set xs \<inter> set_mset own \<noteq> {}"
    then obtain x where "x \<in># mset xs" "x \<in># own" by auto
    then have "1 \<le> count (mset xs) x" "1 \<le> count own x" by simp_all
    with le [of x] show False by simp
  qed
  moreover have "set xs \<subseteq> set_mset (bag s)"
    using cons bt by (metis set_mset_mset set_mset_union sup.coboundedI1 sup_ge1)
  ultimately show ?thesis by simp
qed

end

end
