(* ===== verification/Utils.thy ===== *)
theory Utils
  imports Prelude
begin

text \<open>
  The model of the helpers of \<open>disagmoe/utils/utils.py\<close>: the request-id counter, the port hash,
  prefix sums of sequence lengths and the choice of a graph batch size.
\<close>

section \<open>The id counter\<close>

record counter =
  cn_start :: int
  cn_counter :: int
  cn_end :: int
  cn_step :: int

definition counter_init :: "int \<Rightarrow> int \<Rightarrow> int \<Rightarrow> counter" where
  "counter_init start stop step =
     \<lparr>cn_start = start, cn_counter = start, cn_end = stop, cn_step = step\<rparr>"

definition counter_default :: "int \<Rightarrow> counter" where
  "counter_default start = counter_init start 2000000000 1"

definition counter_next :: "counter \<Rightarrow> int \<times> counter" where
  "counter_next c =
     (let i = cn_counter c;
          c = c\<lparr>cn_counter := cn_counter c + cn_step c\<rparr>;
          c = (if cn_counter c \<ge> cn_end c then c\<lparr>cn_counter := 0\<rparr> else c)
      in (i, c))"

definition counter_reset :: "counter \<Rightarrow> counter" where
  "counter_reset c = c\<lparr>cn_counter := cn_start c\<rparr>"

fun counter_draw :: "nat \<Rightarrow> counter \<Rightarrow> int list \<times> counter" where
  "counter_draw 0 c = ([], c)"
| "counter_draw (Suc n) c =
     (let (i, c') = counter_next c
      in (i # fst (counter_draw n c'), snd (counter_draw n c')))"

lemma counter_draw_length: "length (fst (counter_draw n c)) = n"
  by (induction n arbitrary: c) (auto simp: Let_def split: prod.split)

text \<open>As long as the end is not reached, the ids drawn are the arithmetic progression.\<close>

lemma counter_draw_progression:
  assumes "cn_counter c + int n * cn_step c \<le> cn_end c" and "0 < cn_step c"
  shows "fst (counter_draw n c) = map (\<lambda>k. cn_counter c + int k * cn_step c) [0..<n]"
  using assms
proof (induction n arbitrary: c)
  case 0
  then show ?case by simp
next
  case (Suc n)
  obtain i c' where nx: "counter_next c = (i, c')" by (cases "counter_next c")
  have i: "i = cn_counter c" using nx by (auto simp: counter_next_def Let_def)
  show ?case
  proof (cases n)
    case 0
    then show ?thesis using nx i by simp
  next
    case (Suc m)
    have "cn_step c \<le> int n * cn_step c"
      using Suc Suc.prems(2) mult_right_mono [of 1 "int n" "cn_step c"] by simp
    moreover have "cn_counter c + (cn_step c + int n * cn_step c) \<le> cn_end c"
      using Suc.prems(1) by (simp add: algebra_simps)
    ultimately have "cn_counter c + cn_step c < cn_end c"
      using Suc.prems(2) by linarith
    then have c': "cn_counter c' = cn_counter c + cn_step c" "cn_step c' = cn_step c"
      "cn_end c' = cn_end c"
      using nx by (auto simp: counter_next_def Let_def split: if_splits)
    have IH: "fst (counter_draw n c')
        = map (\<lambda>k. cn_counter c' + int k * cn_step c') [0..<n]"
      using Suc.IH [of c'] Suc.prems c' by (simp add: algebra_simps)
    have "fst (counter_draw (Suc n) c) = i # fst (counter_draw n c')"
      using nx by (simp split: prod.split)
    also have "\<dots> = map (\<lambda>k. cn_counter c + int k * cn_step c) [0..<Suc n]"
      unfolding IH by (rule nth_equalityI) (auto simp: i c' nth_Cons algebra_simps
          simp del: upt_Suc split: nat.split)
    finally show ?thesis .
  qed
qed

lemma counter_draw_distinct:
  assumes "cn_counter c + int n * cn_step c \<le> cn_end c" and "0 < cn_step c"
  shows "distinct (fst (counter_draw n c))"
  unfolding counter_draw_progression [OF assms]
  using assms(2) by (simp add: distinct_map inj_on_def)

section \<open>The hash of a NCCL id\<close>

definition nccl_hash :: "int list \<Rightarrow> int" where
  "nccl_hash uid = fold (\<lambda>i h. (h * 256 + i) mod 10007) uid 0"

text \<open>The URL needs both environment variables; \<open>int(master_port)\<close> is done by the caller.\<close>

definition get_nccl_url_from_uid ::
  "string option \<Rightarrow> int option \<Rightarrow> int list \<Rightarrow> (string \<times> int) result" where
  "get_nccl_url_from_uid master_addr master_port uid =
     (case (master_addr, master_port) of
        (Some a, Some p) \<Rightarrow> Inr (a, p + nccl_hash uid)
      | _ \<Rightarrow> Inl RuntimeError)"

lemma nccl_hash_value:
  "fold (\<lambda>i h. (h * 256 + i) mod 10007) uid h mod 10007
   = (fold (\<lambda>i n. n * 256 + i) uid h) mod 10007" for h :: int
proof (induction uid arbitrary: h)
  case Nil
  then show ?case by simp
next
  case (Cons i uid)
  have step: "(fold (\<lambda>i n. n * 256 + i) uid (a mod 10007)) mod 10007
      = (fold (\<lambda>i n. n * 256 + i) uid a) mod 10007" for a :: int
  proof (induction uid arbitrary: a)
    case (Cons j uid)
    have e: "(a mod 10007 * 256 + j) mod 10007 = (a * 256 + j) mod 10007"
      by (metis mod_add_left_eq mod_mult_left_eq)
    have "fold (\<lambda>i n. n * 256 + i) (j # uid) (a mod 10007) mod 10007
        = fold (\<lambda>i n. n * 256 + i) uid (a mod 10007 * 256 + j) mod 10007" by simp
    also have "\<dots> = fold (\<lambda>i n. n * 256 + i) uid ((a mod 10007 * 256 + j) mod 10007) mod 10007"
      by (rule Cons.IH [symmetric])
    also have "\<dots> = fold (\<lambda>i n. n * 256 + i) uid ((a * 256 + j) mod 10007) mod 10007"
      by (simp only: e)
    also have "\<dots> = fold (\<lambda>i n. n * 256 + i) uid (a * 256 + j) mod 10007"
      by (rule Cons.IH)
    finally show ?case by simp
  qed simp
  show ?case using Cons.IH [of "(h * 256 + i) mod 10007"] step [of "h * 256 + i"] by simp
qed

lemma nccl_hash_range: "0 \<le> nccl_hash uid \<and> nccl_hash uid < 10007"
proof (cases uid rule: rev_cases)
  case Nil
  then show ?thesis by (simp add: nccl_hash_def)
next
  case (snoc ys y)
  then show ?thesis by (simp add: nccl_hash_def)
qed

section \<open>Prefix sums of sequence lengths\<close>

fun prefix_sums :: "int \<Rightarrow> int list \<Rightarrow> int list" where
  "prefix_sums a [] = [a]"
| "prefix_sums a (l # ls) = a # prefix_sums (a + l) ls"

lemma prefix_sums_length: "length (prefix_sums a ls) = Suc (length ls)"
  by (induction ls arbitrary: a) simp_all

lemma prefix_sums_nth:
  "i \<le> length ls \<Longrightarrow> prefix_sums a ls ! i = a + sum_list (take i ls)"
proof (induction ls arbitrary: a i)
  case (Cons l ls)
  then show ?case by (cases i) simp_all
qed simp

text \<open>The code appends to a list whose last element is the running sum.\<close>

definition append_sum :: "int \<Rightarrow> int list \<Rightarrow> int list" where
  "append_sum l seqlen = seqlen @ [last seqlen + l]"

definition seqlens_list :: "int list \<Rightarrow> int list" where
  "seqlens_list lens = fold append_sum lens [0]"

lemma fold_append_sum:
  "s \<noteq> [] \<Longrightarrow> fold append_sum lens s = butlast s @ prefix_sums (last s) lens"
proof (induction lens arbitrary: s)
  case Nil
  then show ?case by simp
next
  case (Cons l lens)
  have "fold append_sum (l # lens) s = fold append_sum lens (s @ [last s + l])"
    by (simp add: append_sum_def)
  also have "\<dots> = s @ prefix_sums (last s + l) lens" using Cons.IH [of "s @ [last s + l]"] by simp
  also have "\<dots> = butlast s @ prefix_sums (last s) (l # lens)"
    using Cons.prems by (metis append.assoc append_Cons append_Nil append_butlast_last_id prefix_sums.simps(2))
  finally show ?case .
qed

lemma seqlens_list_prefix_sums: "seqlens_list lens = prefix_sums 0 lens"
  by (simp add: seqlens_list_def fold_append_sum)

definition fits_i32 :: "int \<Rightarrow> bool" where
  "fits_i32 x \<longleftrightarrow> - (2 ^ 31) \<le> x \<and> x < 2 ^ 31"

text \<open>Building an int32 tensor from Python integers raises when one does not fit.\<close>

definition make_seqlens_cuda_tensor :: "int list \<Rightarrow> int list option result" where
  "make_seqlens_cuda_tensor lens =
     (if lens = [] then Inr None
      else if list_all fits_i32 (seqlens_list lens) then Inr (Some (seqlens_list lens))
      else Inl RuntimeError)"

definition make_seqlens_list :: "int list \<Rightarrow> int list option \<Rightarrow> int list option result" where
  "make_seqlens_list lens dst =
     (let n = length lens
      in if n = 0 then Inr None
         else bindR (case dst of None \<Rightarrow> Inr (replicate (n + 1) 0)
                     | Some d \<Rightarrow> bindR (assertR (length d = n + 1)) (\<lambda>_. Inr d)) (\<lambda>d.
              Inr (Some (fold (\<lambda>i d. d[i + 1 := d ! i + lens ! i]) [0..<n] (d[0 := 0])))))"

lemma fold_prefix_update:
  assumes "length d = Suc (length lens)" and "n \<le> length lens"
  shows "fold (\<lambda>i d. d[i + 1 := d ! i + lens ! i]) [0..<n] (d[0 := 0])
         = take (Suc n) (prefix_sums 0 lens) @ drop (Suc n) d"
  using assms(2)
proof (induction n)
  case 0
  from assms(1) obtain x xs where "d = x # xs" by (cases d) simp_all
  then show ?case by (cases lens) simp_all
next
  case (Suc n)
  let ?p = "prefix_sums 0 lens"
  have lp: "length ?p = Suc (length lens)" by (rule prefix_sums_length)
  have e: "fold (\<lambda>i d. d[i + 1 := d ! i + lens ! i]) [0..<Suc n] (d[0 := 0])
     = (take (Suc n) ?p @ drop (Suc n) d)
         [Suc n := (take (Suc n) ?p @ drop (Suc n) d) ! n + lens ! n]"
    using Suc by simp
  have v: "(take (Suc n) ?p @ drop (Suc n) d) ! n + lens ! n = ?p ! Suc n"
    using Suc.prems lp by (simp add: nth_append prefix_sums_nth take_Suc_conv_app_nth)
  have dd: "drop (Suc n) d = d ! Suc n # drop (Suc (Suc n)) d"
    using Suc.prems assms(1) by (simp add: Cons_nth_drop_Suc)
  have "(take (Suc n) ?p @ drop (Suc n) d)[Suc n := ?p ! Suc n]
      = take (Suc n) ?p @ ?p ! Suc n # drop (Suc (Suc n)) d"
    using Suc.prems lp by (simp add: list_update_append dd)
  also have "\<dots> = take (Suc (Suc n)) ?p @ drop (Suc (Suc n)) d"
    using Suc.prems lp by (simp add: take_Suc_conv_app_nth)
  finally show ?case using e v by simp
qed

lemma make_seqlens_list_eq:
  assumes "lens \<noteq> []" and "\<And>d. dst = Some d \<Longrightarrow> length d = Suc (length lens)"
  shows "make_seqlens_list lens dst = Inr (Some (prefix_sums 0 lens))"
proof -
  have *: "length d = Suc (length lens) \<Longrightarrow>
      fold (\<lambda>i d. d[i + 1 := d ! i + lens ! i]) [0..<length lens] (d[0 := 0]) = prefix_sums 0 lens"
    for d :: "int list"
    by (subst fold_prefix_update) (simp_all add: prefix_sums_length)
  show ?thesis
  proof (cases dst)
    case None
    then show ?thesis using assms(1) * [of "replicate (Suc (length lens)) 0"]
      by (simp add: make_seqlens_list_def Let_def)
  next
    case (Some d)
    then show ?thesis using assms * [of d] by (simp add: make_seqlens_list_def Let_def)
  qed
qed

section \<open>The graph batch size\<close>

definition get_graph_batch_size :: "int \<Rightarrow> int list \<Rightarrow> (nat \<times> int) result" where
  "get_graph_batch_size batch_size graph_batch_sizes =
     (case filter (\<lambda>(i, size). size \<ge> batch_size) (zip [0..<length graph_batch_sizes] graph_batch_sizes) of
        [] \<Rightarrow> Inl AssertionError
      | r # _ \<Rightarrow> Inr r)"

section \<open>Powers of two\<close>

fun bit_length :: "nat \<Rightarrow> nat" where
  "bit_length n = (if n = 0 then 0 else Suc (bit_length (n div 2)))"

declare bit_length.simps [simp del]

definition next_power_of_2 :: "int \<Rightarrow> int" where
  "next_power_of_2 n = (if n > 0 then 2 ^ bit_length (nat (n - 1)) else 1)"

lemma bit_length_upper: "n < 2 ^ bit_length n"
proof (induction n rule: bit_length.induct)
  case (1 n)
  show ?case
  proof (cases "n = 0")
    case False
    then have "n div 2 < 2 ^ bit_length (n div 2)" using 1 by simp
    then have "n < 2 * 2 ^ bit_length (n div 2)" by linarith
    then show ?thesis using False by (subst bit_length.simps) simp
  qed (simp add: bit_length.simps)
qed

lemma bit_length_lower: "0 < n \<Longrightarrow> 2 ^ bit_length n \<le> 2 * n"
proof (induction n rule: bit_length.induct)
  case (1 n)
  show ?case
  proof (cases "n div 2 = 0")
    case True
    then have "n = 1" using 1 by auto
    then show ?thesis by (simp add: bit_length.simps)
  next
    case False
    then have "2 ^ bit_length (n div 2) \<le> 2 * (n div 2)" using 1 by simp
    then have "2 * 2 ^ bit_length (n div 2) \<le> 2 * n" by linarith
    then show ?thesis using 1 by (subst bit_length.simps) simp
  qed
qed

lemma next_power_of_2_ge: "n \<le> next_power_of_2 n"
proof (cases "n > 0")
  case True
  have "nat (n - 1) < 2 ^ bit_length (nat (n - 1))" by (rule bit_length_upper)
  then have "int (nat (n - 1)) < 2 ^ bit_length (nat (n - 1))"
    by (metis of_nat_less_iff of_nat_numeral of_nat_power)
  then show ?thesis using True by (simp add: next_power_of_2_def)
qed (simp add: next_power_of_2_def)

lemma next_power_of_2_less: "1 < n \<Longrightarrow> next_power_of_2 n < 2 * n"
proof -
  assume n: "1 < n"
  then have "2 ^ bit_length (nat (n - 1)) \<le> 2 * nat (n - 1)" by (intro bit_length_lower) simp
  then have "int (2 ^ bit_length (nat (n - 1))) \<le> int (2 * nat (n - 1))"
    by (simp only: of_nat_le_iff)
  then have "int (2 ^ bit_length (nat (n - 1))) \<le> 2 * (n - 1)" using n by simp
  then show ?thesis using n by (simp add: next_power_of_2_def)
qed

end
