(* ===== verification/MemPool.thy ===== *)
theory MemPool
  imports Pools Utils
begin

text \<open>
  The model of \<open>disagmoe/block_manager/mem_pool.py\<close>: the request-slot table
  \<open>ReqToTokenPool\<close>, the KV-cache buffers \<open>KVCache\<close> and \<open>MHATokenToKVPool\<close>, and the two
  free-list allocators \<open>TokenToKVPoolAllocator\<close> (single token locations) and
  \<open>PagedTokenToKVPoolAllocator\<close> (whole pages) with the Triton kernel
  \<open>alloc_decode_kernel\<close>.

  A one-dimensional integer tensor is an \<open>int list\<close>, a two-dimensional one a list of rows.
  Sizes that the code obtains with \<open>len\<close> or \<open>range\<close> are \<open>nat\<close>. Memory that a kernel
  reads outside a tensor, or in a masked-out lane, is a function parameter: nothing is
  assumed about it.
\<close>

section \<open>The request-slot table\<close>

record req_pool =
  rp_size :: nat
  rp_max_context_len :: nat
  rp_table :: "int list list"
  rp_free_slots :: "nat list"

definition rp_init :: "nat \<Rightarrow> nat \<Rightarrow> req_pool" where
  "rp_init sz ctx =
     \<lparr>rp_size = sz, rp_max_context_len = ctx,
      rp_table = replicate sz (replicate ctx 0), rp_free_slots = [0..<sz]\<rparr>"

text \<open>Broadcasting of the right-hand side of a tensor store to \<open>k\<close> elements.\<close>

definition bcast :: "nat \<Rightarrow> 'a list \<Rightarrow> 'a list result" where
  "bcast k vs =
     (if length vs = k then Inr vs
      else case vs of [v] \<Rightarrow> Inr (replicate k v) | _ \<Rightarrow> Inl RuntimeError)"

text \<open>\<open>write((i, slice(0, n)), values)\<close>, the only form of \<open>write\<close> the program uses.\<close>

definition rp_write :: "req_pool \<Rightarrow> int \<Rightarrow> nat \<Rightarrow> int list \<Rightarrow> req_pool result" where
  "rp_write p i n vs =
     (case py_pos (length (rp_table p)) i of
        None \<Rightarrow> Inl IndexError
      | Some r \<Rightarrow>
          (let row = rp_table p ! r; m = min n (length row)
           in bindR (bcast m vs) (\<lambda>ws.
                Inr (p\<lparr>rp_table := (rp_table p)[r := map to_i32 ws @ drop m row]\<rparr>))))"

definition cell_set :: "int list list \<Rightarrow> int \<Rightarrow> int \<Rightarrow> int \<Rightarrow> int list list result" where
  "cell_set t i j v =
     (case py_pos (length t) i of
        None \<Rightarrow> Inl IndexError
      | Some r \<Rightarrow> bindR (py_set (t ! r) j v) (\<lambda>row. Inr (t[r := row])))"

definition cell_get :: "int list list \<Rightarrow> int \<Rightarrow> int \<Rightarrow> int result" where
  "cell_get t i j =
     (case py_pos (length t) i of
        None \<Rightarrow> Inl IndexError
      | Some r \<Rightarrow> py_get (t ! r) j)"

text \<open>Two index tensors select element by element; a tensor of one element is broadcast.\<close>

definition pair_index :: "int list \<Rightarrow> int list \<Rightarrow> (int \<times> int) list result" where
  "pair_index rs cs =
     (if length rs = length cs then Inr (zip rs cs)
      else case rs of
          [r] \<Rightarrow> Inr (map (\<lambda>c. (r, c)) cs)
        | _ \<Rightarrow> (case cs of [c] \<Rightarrow> Inr (map (\<lambda>r. (r, c)) rs) | _ \<Rightarrow> Inl IndexError))"

definition rp_write_loc :: "req_pool \<Rightarrow> int list \<Rightarrow> int list \<Rightarrow> int list \<Rightarrow> req_pool result" where
  "rp_write_loc p req_ids seq_lens vs =
     bindR (pair_index req_ids seq_lens) (\<lambda>ixs.
     bindR (bcast (length ixs) vs) (\<lambda>ws.
     bindR (foldR (\<lambda>((i, j), v) t. cell_set t i j (to_i32 v)) (zip ixs ws) (rp_table p)) (\<lambda>t.
       Inr (p\<lparr>rp_table := t\<rparr>))))"

definition rp_gather :: "req_pool \<Rightarrow> int list \<Rightarrow> int list \<Rightarrow> int list result" where
  "rp_gather p rs cs =
     bindR (pair_index rs cs) (mapR (\<lambda>(i, j). cell_get (rp_table p) i j))"

definition rp_get_last_loc :: "req_pool \<Rightarrow> int list \<Rightarrow> int list \<Rightarrow> int list result" where
  "rp_get_last_loc p req_ids seq_lens = rp_gather p req_ids (map (\<lambda>s. s - 2) seq_lens)"

definition rp_get_latest_loc :: "req_pool \<Rightarrow> int list \<Rightarrow> int list \<Rightarrow> int list result" where
  "rp_get_latest_loc p req_ids seq_lens = rp_gather p req_ids (map (\<lambda>s. s - 1) seq_lens)"

definition rp_available_size :: "req_pool \<Rightarrow> nat" where
  "rp_available_size p = length (rp_free_slots p)"

definition rp_get_block_table :: "req_pool \<Rightarrow> int list \<Rightarrow> nat \<Rightarrow> int list list result" where
  "rp_get_block_table p req_ids max_seq_len =
     mapR (\<lambda>i. bindR (py_get (rp_table p) i) (\<lambda>row. Inr (take max_seq_len row))) req_ids"

definition rp_alloc :: "req_pool \<Rightarrow> nat \<Rightarrow> nat list option \<times> req_pool" where
  "rp_alloc p need_size =
     (if need_size > length (rp_free_slots p) then (None, p)
      else (Some (take need_size (rp_free_slots p)),
            p\<lparr>rp_free_slots := drop need_size (rp_free_slots p)\<rparr>))"

text \<open>\<open>free\<close> takes one slot or a list of slots.\<close>

definition rp_free1 :: "req_pool \<Rightarrow> nat \<Rightarrow> req_pool" where
  "rp_free1 p i = p\<lparr>rp_free_slots := rp_free_slots p @ [i]\<rparr>"

definition rp_free :: "req_pool \<Rightarrow> nat list \<Rightarrow> req_pool" where
  "rp_free p is = p\<lparr>rp_free_slots := rp_free_slots p @ is\<rparr>"

definition rp_clear :: "req_pool \<Rightarrow> req_pool" where
  "rp_clear p = p\<lparr>rp_free_slots := [0..<rp_size p]\<rparr>"

section \<open>The KV-cache buffers\<close>

datatype dtype = Bfloat16 | Float16 | Float32 | Float8_e5m2 | Float8_e4m3fn | Uint8

text \<open>Of a buffer only its shape is kept: \<open>(2, size + 1, page_size, head_num, head_dim)\<close>.\<close>

type_synonym buf_shape = "nat \<times> nat \<times> nat \<times> nat \<times> nat"

record kv_cache =
  kv_size :: nat
  kv_page_size :: nat
  kv_dtype :: dtype
  kv_store_dtype :: dtype
  kv_layer_num :: int
  kv_start_layer :: int
  kv_end_layer :: int
  kv_mem_usage :: int
  kv_cpu_offloading_chunk_size :: nat
  kv_head_num :: nat
  kv_head_dim :: nat
  kv_cache_buffer :: "buf_shape list"

text \<open>Python's \<open>x or d\<close> for an optional integer: both None and 0 select the default.\<close>

definition py_or :: "int option \<Rightarrow> int \<Rightarrow> int" where
  "py_or x d = (case x of None \<Rightarrow> d | Some v \<Rightarrow> if v = 0 then d else v)"

definition create_buffers :: "kv_cache \<Rightarrow> buf_shape list" where
  "create_buffers k =
     replicate (nat (kv_layer_num k))
       (2, kv_size k + 1, kv_page_size k, kv_head_num k, kv_head_dim k)"

definition mha_init ::
  "nat \<Rightarrow> nat \<Rightarrow> dtype \<Rightarrow> nat \<Rightarrow> nat \<Rightarrow> int \<Rightarrow> int option \<Rightarrow> int option \<Rightarrow> kv_cache" where
  "mha_init sz page_size dt head_num head_dim layer_num start_layer end_layer =
     (let k = \<lparr>kv_size = sz, kv_page_size = page_size, kv_dtype = dt,
               kv_store_dtype = (if dt \<in> {Float8_e5m2, Float8_e4m3fn} then Uint8 else dt),
               kv_layer_num = layer_num,
               kv_start_layer = py_or start_layer 0,
               kv_end_layer = py_or end_layer (layer_num - 1),
               kv_mem_usage = 0, kv_cpu_offloading_chunk_size = 8192,
               kv_head_num = head_num, kv_head_dim = head_dim, kv_cache_buffer = []\<rparr>
      in k\<lparr>kv_cache_buffer := create_buffers k\<rparr>)"

definition get_kv_buffer :: "kv_cache \<Rightarrow> int \<Rightarrow> buf_shape result" where
  "get_kv_buffer k layer_id = py_get (kv_cache_buffer k) layer_id"

section \<open>The allocators\<close>

record allocator =
  al_size :: nat
  al_page_size :: int
  al_need_sort :: bool
  al_free_pages :: "int list"
  al_release_pages :: "int list"
  al_is_not_in_free_group :: bool
  al_free_group :: "int list list"

record paged_allocator = allocator +
  al_num_pages :: nat
  al_ret_values :: int
  al_debug_mode :: bool

text \<open>
  The operations of the base class and of the token allocator are defined on the
  extensible record, so that the paged allocator inherits them as the class does.
\<close>

definition base_available_size :: "'a allocator_scheme \<Rightarrow> int" where
  "base_available_size a =
     int (length (al_free_pages a) + length (al_release_pages a)) * al_page_size a"

definition free_group_begin :: "'a allocator_scheme \<Rightarrow> 'a allocator_scheme" where
  "free_group_begin a = a\<lparr>al_is_not_in_free_group := False, al_free_group := []\<rparr>"

definition merge_and_sort_free :: "'a allocator_scheme \<Rightarrow> 'a allocator_scheme" where
  "merge_and_sort_free a =
     (if al_release_pages a \<noteq> []
      then a\<lparr>al_free_pages := sort (al_free_pages a @ al_release_pages a),
             al_release_pages := []\<rparr>
      else a)"

definition tok_clear :: "'a allocator_scheme \<Rightarrow> 'a allocator_scheme" where
  "tok_clear a =
     a\<lparr>al_free_pages := map int [1..<Suc (al_size a)],
       al_is_not_in_free_group := True, al_free_group := [], al_release_pages := []\<rparr>"

definition tok_init :: "nat \<Rightarrow> bool \<Rightarrow> allocator" where
  "tok_init sz need_sort =
     tok_clear \<lparr>al_size = sz, al_page_size = 1, al_need_sort = need_sort,
                al_free_pages = [], al_release_pages = [],
                al_is_not_in_free_group = True, al_free_group = []\<rparr>"

definition tok_available_size :: "'a allocator_scheme \<Rightarrow> nat" where
  "tok_available_size a = length (al_free_pages a) + length (al_release_pages a)"

definition tok_alloc ::
  "'a allocator_scheme \<Rightarrow> nat \<Rightarrow> int list option \<times> 'a allocator_scheme" where
  "tok_alloc a need_size =
     (let a = (if al_need_sort a \<and> need_size > length (al_free_pages a)
               then merge_and_sort_free a else a)
      in if need_size > length (al_free_pages a) then (None, a)
         else (Some (take need_size (al_free_pages a)),
               a\<lparr>al_free_pages := drop need_size (al_free_pages a)\<rparr>))"

definition tok_free :: "'a allocator_scheme \<Rightarrow> int list \<Rightarrow> 'a allocator_scheme" where
  "tok_free a free_index =
     (if free_index = [] then a
      else if al_is_not_in_free_group a then
        (if al_need_sort a
         then a\<lparr>al_release_pages := al_release_pages a @ free_index\<rparr>
         else a\<lparr>al_free_pages := al_free_pages a @ free_index\<rparr>)
      else a\<lparr>al_free_group := al_free_group a @ [free_index]\<rparr>)"

text \<open>
  \<open>free_group_end\<close> calls the subclass's \<open>free\<close> on the concatenation of the group, when
  the group is not empty. It does not empty the group.
\<close>

definition tok_free_group_end :: "'a allocator_scheme \<Rightarrow> 'a allocator_scheme" where
  "tok_free_group_end a =
     (let a = a\<lparr>al_is_not_in_free_group := True\<rparr>
      in if al_free_group a \<noteq> [] then tok_free a (concat (al_free_group a)) else a)"

subsection \<open>The paged allocator and its decode kernel\<close>

definition paged_clear :: "'a paged_allocator_scheme \<Rightarrow> 'a paged_allocator_scheme" where
  "paged_clear a =
     a\<lparr>al_free_pages := map int [1..<Suc (al_num_pages a)],
       al_is_not_in_free_group := True, al_free_group := [], al_release_pages := []\<rparr>"

text \<open>\<open>ret_values\<close> is allocated with \<open>torch.empty\<close>: its first value is arbitrary.\<close>

definition paged_init :: "int \<Rightarrow> nat \<Rightarrow> nat \<Rightarrow> bool \<Rightarrow> paged_allocator" where
  "paged_init uninit sz page_size need_sort =
     paged_clear \<lparr>al_size = sz, al_page_size = int page_size, al_need_sort = need_sort,
                  al_free_pages = [], al_release_pages = [],
                  al_is_not_in_free_group = True, al_free_group = [],
                  al_num_pages = sz div page_size, al_ret_values = uninit,
                  al_debug_mode = False\<rparr>"

definition paged_alloc ::
  "'a paged_allocator_scheme \<Rightarrow> nat \<Rightarrow> (int list option \<times> 'a paged_allocator_scheme) result" where
  "paged_alloc a need_size =
     bindR (assertR (al_debug_mode a \<longrightarrow> int need_size mod al_page_size a = 0)) (\<lambda>_.
       let num_pages = nat (int need_size div al_page_size a);
           a = (if al_need_sort a \<and> num_pages > length (al_free_pages a)
                then merge_and_sort_free a else a)
       in if num_pages > length (al_free_pages a) then Inr (None, a)
          else
            (let out_pages = take num_pages (al_free_pages a);
                 out_indices =
                   concat (map (\<lambda>pg. map (\<lambda>j. pg * al_page_size a + int j)
                                         [0..<nat (al_page_size a)]) out_pages)
             in Inr (Some out_indices,
                     a\<lparr>al_free_pages := drop num_pages (al_free_pages a)\<rparr>)))"

text \<open>\<open>torch.unique\<close> returns the distinct values in ascending order.\<close>

definition torch_unique :: "int list \<Rightarrow> int list" where
  "torch_unique xs = remdups (sort xs)"

definition paged_free ::
  "'a paged_allocator_scheme \<Rightarrow> int list \<Rightarrow> 'a paged_allocator_scheme result" where
  "paged_free a free_index =
     (if free_index = [] then Inr a
      else
        (let a' =
           (if al_is_not_in_free_group a then
              (let pgs = torch_unique (map (\<lambda>i. i div al_page_size a) free_index)
               in if al_need_sort a
                  then a\<lparr>al_release_pages := pgs @ al_release_pages a\<rparr>
                  else a\<lparr>al_free_pages := pgs @ al_free_pages a\<rparr>)
            else a\<lparr>al_free_group := al_free_group a @ [free_index]\<rparr>)
         in bindR (assertR (al_debug_mode a' \<longrightarrow>
                length (torch_unique (al_free_pages a')) = length (al_free_pages a')))
              (\<lambda>_. Inr a')))"

definition paged_free_group_end ::
  "'a paged_allocator_scheme \<Rightarrow> 'a paged_allocator_scheme result" where
  "paged_free_group_end a =
     (let a = a\<lparr>al_is_not_in_free_group := True\<rparr>
      in if al_free_group a \<noteq> [] then paged_free a (concat (al_free_group a)) else Inr a)"

text \<open>
  One program of \<open>alloc_decode_kernel\<close>. Lane \<open>i\<close> loads \<open>seq_lens[i]\<close> when \<open>i \<le> pid\<close>; a
  masked-out lane holds \<open>junk i\<close>. Triton's integer division truncates towards zero
  (\<open>sdiv\<close>). The page load goes to \<open>free_page_ptr + k\<close>, which beyond the tensor is
  whatever memory holds there (\<open>mem\<close>).
\<close>

definition lane_seq :: "int list \<Rightarrow> (nat \<Rightarrow> int) \<Rightarrow> nat \<Rightarrow> nat \<Rightarrow> int" where
  "lane_seq seq_lens junk pid i = (if i \<le> pid then seq_lens ! i else junk i)"

definition lane_pre :: "int list \<Rightarrow> (nat \<Rightarrow> int) \<Rightarrow> nat \<Rightarrow> nat \<Rightarrow> int" where
  "lane_pre seq_lens junk pid i =
     (if i \<le> pid then lane_seq seq_lens junk pid i - 1 else lane_seq seq_lens junk pid i)"

definition kernel_pages :: "int \<Rightarrow> int \<Rightarrow> int" where
  "kernel_pages page_size x = (x + page_size - 1) sdiv page_size"

definition kernel_sum ::
  "int list \<Rightarrow> (nat \<Rightarrow> int) \<Rightarrow> nat \<Rightarrow> int \<Rightarrow> nat \<Rightarrow> int" where
  "kernel_sum seq_lens junk bs_upper page_size pid =
     (\<Sum>i \<leftarrow> [0..<bs_upper].
        kernel_pages page_size (lane_seq seq_lens junk pid i)
        - kernel_pages page_size (lane_pre seq_lens junk pid i))"

definition kernel_self :: "int list \<Rightarrow> int \<Rightarrow> nat \<Rightarrow> int" where
  "kernel_self seq_lens page_size pid =
     kernel_pages page_size (seq_lens ! pid) - kernel_pages page_size (seq_lens ! pid - 1)"

definition load_page :: "int list \<Rightarrow> (int \<Rightarrow> int) \<Rightarrow> int \<Rightarrow> int" where
  "load_page free_pages mem k =
     (if 0 \<le> k \<and> k < int (length free_pages) then free_pages ! nat k else mem k)"

definition alloc_decode_kernel ::
  "int list \<Rightarrow> int list \<Rightarrow> int list \<Rightarrow> (nat \<Rightarrow> int) \<Rightarrow> (int \<Rightarrow> int) \<Rightarrow> nat \<Rightarrow> int \<Rightarrow> nat \<Rightarrow> int" where
  "alloc_decode_kernel seq_lens last_loc free_pages junk mem bs_upper page_size pid =
     (let self = kernel_self seq_lens page_size pid;
          new_page_start_loc = kernel_sum seq_lens junk bs_upper page_size pid - self
      in if self = 0 then last_loc ! pid + 1
         else load_page free_pages mem new_page_start_loc * page_size)"

text \<open>
  A slice \<open>t[k:]\<close>: a negative \<open>k\<close> counts from the end.
\<close>

definition py_drop :: "int \<Rightarrow> 'a list \<Rightarrow> 'a list" where
  "py_drop k xs = (if 0 \<le> k then drop (nat k) xs else drop (length xs - nat (- k)) xs)"

text \<open>
  The launch runs one program for each sequence; the last program stores the number of
  new pages. A launch with no program stores nothing, so that \<open>ret_values\<close> keeps its old
  value.
\<close>

definition paged_alloc_decode ::
  "'a paged_allocator_scheme \<Rightarrow> int list \<Rightarrow> int list \<Rightarrow> (nat \<Rightarrow> int) \<Rightarrow> (int \<Rightarrow> int) \<Rightarrow>
   (int list option \<times> 'a paged_allocator_scheme) result" where
  "paged_alloc_decode a seq_lens last_loc junk mem =
     bindR (assertR (al_debug_mode a \<longrightarrow>
        list_all2 (\<lambda>l s. (l + 2) mod al_page_size a = s mod al_page_size a) last_loc seq_lens))
     (\<lambda>_.
       let bs = length seq_lens;
           a = (if al_need_sort a \<and> bs > length (al_free_pages a)
                then merge_and_sort_free a else a);
           bs_upper = nat (next_power_of_2 (int bs));
           out_indices =
             map (alloc_decode_kernel seq_lens last_loc (al_free_pages a) junk mem bs_upper
                    (al_page_size a)) [0..<bs];
           a = (if bs = 0 then a
                else a\<lparr>al_ret_values :=
                         kernel_sum seq_lens junk bs_upper (al_page_size a) (bs - 1)\<rparr>)
       in bindR (assertR (al_debug_mode a \<longrightarrow>
              length (torch_unique out_indices) = length out_indices)) (\<lambda>_.
            if al_ret_values a > int (length (al_free_pages a)) then Inr (None, a)
            else Inr (Some out_indices,
                      a\<lparr>al_free_pages := py_drop (al_ret_values a) (al_free_pages a)\<rparr>)))"

section \<open>The request slots satisfy the pool contract\<close>

interpretation rp: index_pool rp_alloc rp_free "\<lambda>p. mset (rp_free_slots p)" "\<lambda>_. True"
proof unfold_locales
  show "length xs = n \<and> mset (rp_free_slots s) = mset xs + mset (rp_free_slots s') \<and> True"
    if "rp_alloc s n = (Some xs, s')" for s n xs s'
    using that by (auto simp: rp_alloc_def mset_take_drop split: if_splits)
qed (auto simp: rp_alloc_def rp_free_def split: if_splits)

section \<open>The token allocator satisfies the pool contract\<close>

text \<open>
  Without sorting, nothing is ever in \<open>release_pages\<close>; the contract holds outside a free
  group.
\<close>

definition tok_ok :: "'a allocator_scheme \<Rightarrow> bool" where
  "tok_ok a \<longleftrightarrow> al_is_not_in_free_group a \<and> (al_need_sort a \<or> al_release_pages a = [])"

definition tok_bag :: "'a allocator_scheme \<Rightarrow> int multiset" where
  "tok_bag a = mset (al_free_pages a) + mset (al_release_pages a)"

lemma merge_and_sort_free_bag [simp]: "tok_bag (merge_and_sort_free a) = tok_bag a"
  by (simp add: tok_bag_def merge_and_sort_free_def)

lemma merge_and_sort_free_fields [simp]:
  "al_release_pages (merge_and_sort_free a) = []"
  "al_is_not_in_free_group (merge_and_sort_free a) = al_is_not_in_free_group a"
  "al_need_sort (merge_and_sort_free a) = al_need_sort a"
  "al_size (merge_and_sort_free a) = al_size a"
  "al_page_size (merge_and_sort_free a) = al_page_size a"
  "al_free_group (merge_and_sort_free a) = al_free_group a"
  by (simp_all add: merge_and_sort_free_def)

lemma merge_and_sort_free_perm:
  "mset (al_free_pages (merge_and_sort_free a)) = tok_bag a"
  by (simp add: merge_and_sort_free_def tok_bag_def)

lemma tok_bag_update [simp]:
  "tok_bag (a\<lparr>al_free_pages := xs\<rparr>) = mset xs + mset (al_release_pages a)"
  "tok_bag (a\<lparr>al_release_pages := xs\<rparr>) = mset (al_free_pages a) + mset xs"
  "tok_bag (a\<lparr>al_is_not_in_free_group := b\<rparr>) = tok_bag a"
  "tok_bag (a\<lparr>al_free_group := g\<rparr>) = tok_bag a"
  by (simp_all add: tok_bag_def)

lemma tok_alloc_Some:
  assumes "tok_alloc a n = (Some xs, a')"
  shows "length xs = n \<and> tok_bag a = mset xs + tok_bag a' \<and> (tok_ok a \<longrightarrow> tok_ok a')"
proof -
  define b where
    "b = (if al_need_sort a \<and> n > length (al_free_pages a) then merge_and_sort_free a else a)"
  have bag: "tok_bag b = tok_bag a" and ok: "tok_ok a \<longrightarrow> tok_ok b"
    by (simp_all add: b_def tok_ok_def)
  have al: "\<not> n > length (al_free_pages b)" "xs = take n (al_free_pages b)"
    "a' = b\<lparr>al_free_pages := drop n (al_free_pages b)\<rparr>"
    using assms by (auto simp: tok_alloc_def Let_def b_def [symmetric] split: if_splits)
  have "mset xs + tok_bag a' = tok_bag b"
    unfolding al by (simp add: tok_bag_def mset_take_drop add.assoc [symmetric])
  then show ?thesis using bag ok al by (simp add: tok_ok_def)
qed

lemma tok_alloc_None:
  assumes "tok_alloc a n = (None, a')" and "tok_ok a"
  shows "size (tok_bag a) < n \<and> tok_bag a' = tok_bag a \<and> tok_ok a'"
  using assms
  by (auto simp: tok_alloc_def tok_ok_def tok_bag_def merge_and_sort_free_def Let_def
      split: if_splits)

lemma tok_free_bag:
  assumes "tok_ok a"
  shows "tok_bag (tok_free a xs) = tok_bag a + mset xs \<and> tok_ok (tok_free a xs)"
  using assms by (auto simp: tok_free_def tok_ok_def tok_bag_def)

interpretation tk: index_pool "tok_alloc :: 'a allocator_scheme \<Rightarrow> _" tok_free tok_bag tok_ok
  by unfold_locales (simp_all add: tok_alloc_Some tok_alloc_None tok_free_bag)

section \<open>Nothing is handed out twice\<close>

lemma tok_init_state:
  "al_free_pages (tok_init sz ns) = map int [1..<Suc sz]"
  "al_release_pages (tok_init sz ns) = []"
  "al_is_not_in_free_group (tok_init sz ns)"
  "al_need_sort (tok_init sz ns) = ns"
  "al_page_size (tok_init sz ns) = 1"
  "al_size (tok_init sz ns) = sz"
  by (simp_all add: tok_init_def tok_clear_def)

lemma count_mset_distinct_le: "distinct xs \<Longrightarrow> count (mset xs) x \<le> 1"
  by (metis distinct_count_atmost_1 le_refl zero_le_one)

lemma tok_init_bag_once: "count (tok_bag (tok_init sz ns)) x \<le> 1"
proof -
  have "distinct (map int [1..<Suc sz])" by (simp add: distinct_map)
  then have "count (mset (map int [1..<Suc sz])) x \<le> 1" by (rule count_mset_distinct_le)
  then show ?thesis by (simp only: tok_bag_def tok_init_state mset.simps(1) add_0_right)
qed

lemma tok_init_ok: "tok_ok (tok_init sz ns)"
  by (simp add: tok_ok_def tok_init_state)

text \<open>
  C8: after any history of allocations and releases of an allocator that starts cleared
  (a client frees only what it owns), the token locations of the next successful
  allocation are pairwise distinct, none of them is owned by anyone, and they lie
  between 1 and the pool size: the padding slot 0 is never handed out.
\<close>

theorem tok_alloc_never_shared:
  assumes "ledger_run tok_alloc tok_free ops (tok_init sz ns, {#}) = Some (t, own)"
    and "tok_alloc t n = (Some xs, t')"
  shows "length xs = n \<and> distinct xs \<and> set xs \<inter> set_mset own = {} \<and>
         (\<forall>x \<in> set xs. 1 \<le> x \<and> x \<le> int sz)"
proof -
  have "set_mset (tok_bag (tok_init sz ns)) = int ` {1..<Suc sz}"
    by (simp only: tok_bag_def tok_init_state mset.simps(1) add_0_right set_mset_mset
        set_map set_upt)
  moreover have "distinct xs \<and> set xs \<inter> set_mset own = {}
      \<and> set xs \<subseteq> set_mset (tok_bag (tok_init sz ns))"
    by (rule tk.ledger_next_alloc_fresh [OF assms(1) tok_init_ok tok_init_bag_once assms(2)])
  ultimately show ?thesis using tok_alloc_Some [OF assms(2)] by auto
qed

lemma tok_alloc_never_shared_witness:
  "distinct [3, 4, 5, 1 :: int] \<and> list_all (\<lambda>x. 1 \<le> x \<and> x \<le> 5) [3, 4, 5, 1 :: int]"
proof -
  have run: "ledger_run tok_alloc tok_free [PAlloc 2, PFree [1]] (tok_init 5 False, {#})
      = Some ((tok_init 5 False)\<lparr>al_free_pages := [3, 4, 5, 1]\<rparr>, {#2#})"
    by (simp add: tok_alloc_def tok_free_def tok_init_def tok_clear_def Let_def upt_rec)
  have al: "tok_alloc ((tok_init 5 False)\<lparr>al_free_pages := [3, 4, 5, 1]\<rparr>) 4
      = (Some [3, 4, 5, 1], (tok_init 5 False)\<lparr>al_free_pages := []\<rparr>)"
    by (simp add: tok_alloc_def tok_init_def tok_clear_def Let_def)
  show ?thesis using tok_alloc_never_shared [OF run al] by simp
qed

section \<open>Free groups\<close>

lemma tok_free_open:
  "al_is_not_in_free_group a \<Longrightarrow> fold (\<lambda>xs a. tok_free a xs) xss a =
     (if al_need_sort a
      then a\<lparr>al_release_pages := al_release_pages a @ concat xss\<rparr>
      else a\<lparr>al_free_pages := al_free_pages a @ concat xss\<rparr>)"
  by (induction xss arbitrary: a) (auto simp: tok_free_def)

lemma tok_free_grouped:
  "\<not> al_is_not_in_free_group a \<Longrightarrow> fold (\<lambda>xs a. tok_free a xs) xss a =
     a\<lparr>al_free_group := al_free_group a @ filter (\<lambda>xs. xs \<noteq> []) xss\<rparr>"
  by (induction xss arbitrary: a) (auto simp: tok_free_def)

lemma concat_filter_nonempty: "concat (filter (\<lambda>xs. xs \<noteq> []) xss) = concat xss"
  by (induction xss) auto

text \<open>
  A free group is equivalent to freeing one by one. Opening a group, freeing any
  lists of locations and closing the group leaves exactly the state of the ungrouped
  calls, up to the contents of \<open>free_group\<close> itself, which the code does not empty.
\<close>

theorem free_group_equiv:
  assumes "al_is_not_in_free_group a"
  shows "tok_free_group_end (fold (\<lambda>xs a. tok_free a xs) xss (free_group_begin a))
         = (fold (\<lambda>xs a. tok_free a xs) xss a)
             \<lparr>al_free_group := filter (\<lambda>xs. xs \<noteq> []) xss\<rparr>"
proof -
  let ?g = "filter (\<lambda>xs. xs \<noteq> []) xss"
  have grp: "fold (\<lambda>xs a. tok_free a xs) xss (free_group_begin a)
      = a\<lparr>al_is_not_in_free_group := False, al_free_group := ?g\<rparr>"
    by (subst tok_free_grouped) (simp_all add: free_group_begin_def)
  have bk: "a\<lparr>al_free_group := g, al_is_not_in_free_group := True\<rparr> = a\<lparr>al_free_group := g\<rparr>" for g
    using assms by (cases a) simp
  have c: "?g \<noteq> [] \<Longrightarrow> concat xss \<noteq> []"
    by (induction xss) auto
  have "tok_free_group_end (fold (\<lambda>xs a. tok_free a xs) xss (free_group_begin a))
      = (if ?g = [] then a\<lparr>al_free_group := ?g\<rparr>
         else tok_free (a\<lparr>al_free_group := ?g\<rparr>) (concat xss))"
    unfolding grp by (simp add: tok_free_group_end_def Let_def concat_filter_nonempty bk)
  moreover have "?g = [] \<Longrightarrow> concat xss = []"
    by (metis concat.simps(1) concat_filter_nonempty)
  ultimately show ?thesis
    unfolding tok_free_open [OF assms] using assms c
    by (cases "?g = []") (simp_all add: tok_free_def)
qed

lemma free_group_equiv_witness:
  "tok_free_group_end (fold (\<lambda>xs a. tok_free a xs) [[7], [], [8, 9]]
      (free_group_begin (tok_init 2 False)))
   = (tok_init 2 False)\<lparr>al_free_pages := [1, 2, 7, 8, 9], al_free_group := [[7], [8, 9]]\<rparr>"
  using free_group_equiv [of "tok_init 2 False" "[[7], [], [8, 9]]"]
  by (simp add: tok_init_def tok_clear_def tok_free_def upt_rec)

text \<open>
  The group survives its end: a second \<open>free_group_end\<close> puts the same locations on the
  free list again.
\<close>

lemma free_group_end_twice:
  assumes "al_free_group a \<noteq> []" and "concat (al_free_group a) \<noteq> []"
  shows "tok_bag (tok_free_group_end (tok_free_group_end a))
         = tok_bag a + mset (concat (al_free_group a)) + mset (concat (al_free_group a))"
  using assms by (simp add: tok_free_group_end_def tok_free_def Let_def tok_bag_def ac_simps)

section \<open>The decode kernel computes a sequential allocation\<close>

text \<open>
  The reference: walk over the sequences in order. A sequence whose new token opens a page
  (its previous length is a multiple of the page size) takes the next free page, any other
  writes right behind its last location.
\<close>

definition opens_page :: "int \<Rightarrow> int \<Rightarrow> bool" where
  "opens_page p s \<longleftrightarrow> (s - 1) mod p = 0"

fun decode_ref :: "int \<Rightarrow> (int \<times> int) list \<Rightarrow> int list \<Rightarrow> int list" where
  "decode_ref p [] fp = []"
| "decode_ref p ((s, l) # r) fp =
     (if opens_page p s
      then (case fp of [] \<Rightarrow> [] | f # fs \<Rightarrow> f * p # decode_ref p r fs)
      else (l + 1) # decode_ref p r fp)"

definition pages_opened :: "int \<Rightarrow> int list \<Rightarrow> nat" where
  "pages_opened p seq_lens = length (filter (opens_page p) seq_lens)"

lemma pages_opened_simps [simp]:
  "pages_opened p [] = 0"
  "pages_opened p (s # ss) = (if opens_page p s then Suc (pages_opened p ss) else pages_opened p ss)"
  "pages_opened p (xs @ ys) = pages_opened p xs + pages_opened p ys"
  by (simp_all add: pages_opened_def)

lemma pages_opened_take_le: "pages_opened p (take k xs) \<le> pages_opened p xs"
  by (metis append_take_drop_id le_add1 pages_opened_simps(3))

lemma decode_ref_length:
  "pages_opened p (map fst sl) \<le> length fp \<Longrightarrow> length (decode_ref p sl fp) = length sl"
proof (induction p sl fp rule: decode_ref.induct)
  case (2 p s l r fp)
  then show ?case by (cases fp) (auto split: if_splits)
qed simp

lemma decode_ref_nth:
  "pages_opened p (map fst sl) \<le> length fp \<Longrightarrow> i < length sl \<Longrightarrow>
   decode_ref p sl fp ! i =
     (if opens_page p (fst (sl ! i))
      then fp ! pages_opened p (map fst (take i sl)) * p
      else snd (sl ! i) + 1)"
proof (induction p sl fp arbitrary: i rule: decode_ref.induct)
  case (2 p s l r fp)
  then show ?case by (cases fp; cases i) (auto split: if_splits)
qed simp

lemma kernel_pages_ceil: "0 < p \<Longrightarrow> 0 \<le> x \<Longrightarrow> kernel_pages p x = ceil_div x p"
  by (cases "x + p - 1 = 0")
    (auto simp: kernel_pages_def ceil_div_def signed_divide_int_def sgn_if)

lemma kernel_self_eq:
  assumes "0 < p" and "1 \<le> seq_lens ! i"
  shows "kernel_self seq_lens p i = (if opens_page p (seq_lens ! i) then 1 else 0)"
  using ceil_div_step [OF assms(1), of "seq_lens ! i - 1"] assms
  by (simp add: kernel_self_def kernel_pages_ceil opens_page_def)

lemma sum_list_split_upt:
  fixes f :: "nat \<Rightarrow> int"
  assumes "n \<le> m"
  shows "(\<Sum>i \<leftarrow> [0..<m]. f i) = (\<Sum>i \<leftarrow> [0..<n]. f i) + (\<Sum>i \<leftarrow> [n..<m]. f i)"
proof -
  have "[0..<m] = [0..<n] @ [n..<m]" using assms upt_add_eq_append [of 0 n "m - n"] by simp
  then show ?thesis by simp
qed

lemma kernel_sum_eq:
  assumes p: "0 < p" and pid: "pid < length seq_lens" and up: "length seq_lens \<le> bs_upper"
    and pos: "\<And>s. s \<in> set seq_lens \<Longrightarrow> 1 \<le> s"
  shows "kernel_sum seq_lens junk bs_upper p pid
         = int (pages_opened p (take (Suc pid) seq_lens))"
proof -
  let ?f = "\<lambda>i. kernel_pages p (lane_seq seq_lens junk pid i)
                - kernel_pages p (lane_pre seq_lens junk pid i)"
  have "(\<Sum>i \<leftarrow> [Suc pid..<bs_upper]. ?f i) = (\<Sum>i \<leftarrow> [Suc pid..<bs_upper]. 0)"
    by (intro arg_cong [where f = sum_list] map_cong) (auto simp: lane_seq_def lane_pre_def)
  then have tail: "(\<Sum>i \<leftarrow> [Suc pid..<bs_upper]. ?f i) = 0" by (simp add: sum_list_0)
  have "(\<Sum>i \<leftarrow> [0..<n]. ?f i) = int (pages_opened p (take n seq_lens))" if "n \<le> Suc pid" for n
    using that
  proof (induction n)
    case 0
    then show ?case by simp
  next
    case (Suc n)
    have n: "n < length seq_lens" using Suc.prems pid by simp
    have "?f n = kernel_self seq_lens p n"
      using Suc.prems by (simp add: lane_seq_def lane_pre_def kernel_self_def)
    also have "\<dots> = (if opens_page p (seq_lens ! n) then 1 else 0)"
      using n by (intro kernel_self_eq p pos) simp
    finally show ?case using Suc n by (simp add: take_Suc_conv_app_nth)
  qed
  from this [of "Suc pid"]
  have head: "(\<Sum>i \<leftarrow> [0..<Suc pid]. ?f i) = int (pages_opened p (take (Suc pid) seq_lens))"
    by simp
  have "Suc pid \<le> bs_upper" using pid up by simp
  then show ?thesis
    unfolding kernel_sum_def by (subst sum_list_split_upt [of "Suc pid"]) (simp_all only: head tail add_0_right)
qed

lemma alloc_decode_kernel_eq:
  assumes p: "0 < p" and pid: "pid < length seq_lens" and up: "length seq_lens \<le> bs_upper"
    and pos: "\<And>s. s \<in> set seq_lens \<Longrightarrow> 1 \<le> s"
    and enough: "pages_opened p seq_lens \<le> length fp"
  shows "alloc_decode_kernel seq_lens last_loc fp junk mem bs_upper p pid =
           (if opens_page p (seq_lens ! pid)
            then fp ! pages_opened p (take pid seq_lens) * p else last_loc ! pid + 1)"
proof -
  have self: "kernel_self seq_lens p pid = (if opens_page p (seq_lens ! pid) then 1 else 0)"
    using pid by (intro kernel_self_eq p pos) simp
  have "kernel_sum seq_lens junk bs_upper p pid
      = int (pages_opened p (take pid seq_lens)) + (if opens_page p (seq_lens ! pid) then 1 else 0)"
    using pid by (subst kernel_sum_eq [OF p pid up pos]) (simp_all add: take_Suc_conv_app_nth)
  moreover have "pages_opened p (take pid seq_lens) < length fp" if "opens_page p (seq_lens ! pid)"
  proof -
    have "pages_opened p (take (Suc pid) seq_lens) \<le> length fp"
      using enough pages_opened_take_le le_trans by blast
    then show ?thesis using that pid by (simp add: take_Suc_conv_app_nth)
  qed
  ultimately show ?thesis
    using self by (simp add: alloc_decode_kernel_def Let_def load_page_def)
qed

lemma kernel_outputs_ref:
  assumes "0 < p" and "length seq_lens \<le> bs_upper"
    and "\<And>s. s \<in> set seq_lens \<Longrightarrow> 1 \<le> s"
    and "pages_opened p seq_lens \<le> length fp" and len: "length last_loc = length seq_lens"
  shows "map (alloc_decode_kernel seq_lens last_loc fp junk mem bs_upper p) [0..<length seq_lens]
         = decode_ref p (zip seq_lens last_loc) fp"
proof (rule nth_equalityI)
  have fst_zip: "map fst (zip seq_lens last_loc) = seq_lens" using len by simp
  show "length (map (alloc_decode_kernel seq_lens last_loc fp junk mem bs_upper p)
          [0..<length seq_lens]) = length (decode_ref p (zip seq_lens last_loc) fp)"
    using assms(4) len by (subst decode_ref_length) (simp_all add: fst_zip)
  fix i
  assume "i < length (map (alloc_decode_kernel seq_lens last_loc fp junk mem bs_upper p)
      [0..<length seq_lens])"
  then have i: "i < length seq_lens" by simp
  have tk: "map fst (take i (zip seq_lens last_loc)) = take i seq_lens"
    by (simp add: take_map [symmetric] fst_zip)
  show "map (alloc_decode_kernel seq_lens last_loc fp junk mem bs_upper p)
      [0..<length seq_lens] ! i = decode_ref p (zip seq_lens last_loc) fp ! i"
    using i len assms(4)
    by (subst decode_ref_nth)
      (simp_all add: fst_zip tk alloc_decode_kernel_eq [OF assms(1) i assms(2,3)])
qed

text \<open>The free list that the decode step draws from: merged first when it may be too short.\<close>

definition decode_pool :: "'a paged_allocator_scheme \<Rightarrow> nat \<Rightarrow> 'a paged_allocator_scheme" where
  "decode_pool a bs =
     (if al_need_sort a \<and> bs > length (al_free_pages a) then merge_and_sort_free a else a)"

text \<open>
  C6: the parallel decode allocation refines the sequential one. With sequence lengths at
  least 1 and one last location per sequence, the call succeeds exactly when the free
  list holds as many pages as sequences open a page; then program \<open>i\<close>'s output is the
  reference's \<open>i\<close>-th location and exactly the pages used leave the free list. The result
  does not depend on masked-out lanes or on memory outside the free list.
\<close>

theorem paged_alloc_decode_refines:
  assumes "\<not> al_debug_mode a" and "0 < al_page_size a" and "seq_lens \<noteq> []"
    and "\<forall>s \<in> set seq_lens. 1 \<le> s" and "length last_loc = length seq_lens"
  defines "fp \<equiv> al_free_pages (decode_pool a (length seq_lens))"
    and "k \<equiv> pages_opened (al_page_size a) seq_lens"
  shows "\<exists>r a'. paged_alloc_decode a seq_lens last_loc junk mem = Inr (r, a') \<and>
           r = (if k \<le> length fp
                then Some (decode_ref (al_page_size a) (zip seq_lens last_loc) fp) else None) \<and>
           al_free_pages a' = (if k \<le> length fp then drop k fp else fp)"
proof -
  define b where "b = decode_pool a (length seq_lens)"
  have b: "al_page_size b = al_page_size a" "al_debug_mode b = al_debug_mode a"
    by (simp_all add: b_def decode_pool_def merge_and_sort_free_def)
  define u where "u = nat (next_power_of_2 (int (length seq_lens)))"
  have u: "length seq_lens \<le> u"
    using next_power_of_2_ge [of "int (length seq_lens)"] by (simp add: u_def)
  have pos: "\<And>s. s \<in> set seq_lens \<Longrightarrow> 1 \<le> s" using assms(4) by blast
  have bs: "length seq_lens - 1 < length seq_lens" "Suc (length seq_lens - 1) = length seq_lens"
    using assms(3) by simp_all
  have ret: "kernel_sum seq_lens junk u (al_page_size a) (length seq_lens - 1) = int k"
    unfolding k_def by (subst kernel_sum_eq [OF assms(2) bs(1) u pos]) (simp_all add: bs(2))
  have fp: "fp = al_free_pages b" by (simp add: fp_def b_def)
  have outs: "map (alloc_decode_kernel seq_lens last_loc fp junk mem u (al_page_size a))
        [0..<length seq_lens] = decode_ref (al_page_size a) (zip seq_lens last_loc) fp"
    if "k \<le> length fp"
    using that unfolding k_def by (intro kernel_outputs_ref assms(2,5) u pos)
  show ?thesis
    using assms(1,3) outs unfolding paged_alloc_decode_def
    by (simp add: Let_def b_def [symmetric] decode_pool_def [symmetric] u_def [symmetric]
        b fp [symmetric] ret [unfolded One_nat_def] py_drop_def)
qed

lemma paged_alloc_decode_refines_witness:
  "\<exists>r a'. paged_alloc_decode ((paged_init 0 12 4 False)\<lparr>al_free_pages := [2, 3]\<rparr>)
            [5, 3, 9] [7, 5, 15] (\<lambda>_. 99) (\<lambda>_. -1) = Inr (r, a') \<and>
          r = Some [8, 6, 12] \<and> al_free_pages a' = []"
proof -
  let ?a = "(paged_init 0 12 4 False)\<lparr>al_free_pages := [2, 3]\<rparr>"
  have a: "\<not> al_debug_mode ?a" "al_page_size ?a = 4"
    and dp: "al_free_pages (decode_pool ?a (length [5, 3, 9 :: int])) = [2, 3]"
    by (simp_all add: paged_init_def paged_clear_def decode_pool_def)
  have k: "pages_opened 4 [5, 3, 9] = 2"
    and d: "decode_ref 4 (zip [5, 3, 9] [7, 5, 15]) [2, 3] = [8, 6, 12]"
    by (simp_all add: opens_page_def)
  have "0 < al_page_size ?a" "[5, 3, 9 :: int] \<noteq> []" "\<forall>s \<in> set [5, 3, 9 :: int]. 1 \<le> s"
    "length [7, 5, 15 :: int] = length [5, 3, 9 :: int]"
    using a by simp_all
  note paged_alloc_decode_refines [OF a(1) this, where junk = "\<lambda>_. 99" and mem = "\<lambda>_. -1",
      unfolded dp a(2) k d]
  then show ?thesis by simp
qed

lemma decode_ref_set:
  "pages_opened p (map fst sl) \<le> length fp \<Longrightarrow>
   set (decode_ref p sl fp) \<subseteq>
     (\<lambda>f. f * p) ` set (take (pages_opened p (map fst sl)) fp) \<union>
     (\<lambda>x. snd x + 1) ` set (filter (\<lambda>x. \<not> opens_page p (fst x)) sl)"
proof (induction p sl fp rule: decode_ref.induct)
  case (2 p s l r fp)
  then show ?case by (cases fp) (auto split: if_splits)
qed simp

text \<open>
  The locations of one decode step never collide. If the free pages are distinct, the
  sequences that stay in their page have distinct last locations, and the page they write
  to is not on the free list, then all locations of the step are distinct.
\<close>

theorem decode_locations_distinct:
  assumes "0 < p" and "distinct fp" and "pages_opened p (map fst sl) \<le> length fp"
    and "distinct (map snd (filter (\<lambda>(s, l). \<not> opens_page p s) sl))"
    and "\<forall>(s, l) \<in> set sl. \<not> opens_page p s \<longrightarrow> (l + 1) div p \<notin> set fp"
  shows "distinct (decode_ref p sl fp)"
  using assms
proof (induction p sl fp rule: decode_ref.induct)
  case (2 p s l r fp)
  show ?case
  proof (cases "opens_page p s")
    case True
    then obtain f fs where fp: "fp = f # fs" using 2 by (cases fp) auto
    have IH: "distinct (decode_ref p r fs)"
      using 2(1) [OF True fp] 2(3-7) True fp by (auto simp: case_prod_beta)
    have "f * p \<notin> set (decode_ref p r fs)"
    proof
      assume "f * p \<in> set (decode_ref p r fs)"
      then have "f * p \<in> (\<lambda>f. f * p) ` set (take (pages_opened p (map fst r)) fs) \<union>
          (\<lambda>x. snd x + 1) ` set (filter (\<lambda>x. \<not> opens_page p (fst x)) r)"
        using decode_ref_set [of p r fs] 2(5) True fp by auto
      then show False
      proof
        assume "f * p \<in> (\<lambda>f. f * p) ` set (take (pages_opened p (map fst r)) fs)"
        then obtain g where "g \<in> set fs" "f * p = g * p" by (auto dest: in_set_takeD)
        then show False using 2(3,4) fp by auto
      next
        assume "f * p \<in> (\<lambda>x. snd x + 1) ` set (filter (\<lambda>x. \<not> opens_page p (fst x)) r)"
        then obtain s' l' where sl': "(s', l') \<in> set r" "\<not> opens_page p s'" "f * p = l' + 1"
          by auto
        then have "(l' + 1) div p = f" using 2(3) by (metis less_irrefl nonzero_mult_div_cancel_right)
        then show False using sl' 2(7) fp by fastforce
      qed
    qed
    then show ?thesis using IH True fp by simp
  next
    case False
    have IH: "distinct (decode_ref p r fp)"
      using 2(2) [OF False] 2(3-7) False by (auto simp: case_prod_beta)
    have "l + 1 \<notin> set (decode_ref p r fp)"
    proof
      assume "l + 1 \<in> set (decode_ref p r fp)"
      then have "l + 1 \<in> (\<lambda>f. f * p) ` set (take (pages_opened p (map fst r)) fp) \<union>
          (\<lambda>x. snd x + 1) ` set (filter (\<lambda>x. \<not> opens_page p (fst x)) r)"
        using decode_ref_set [of p r fp] 2(5) False by auto
      then show False
      proof
        assume "l + 1 \<in> (\<lambda>f. f * p) ` set (take (pages_opened p (map fst r)) fp)"
        then obtain g where "g \<in> set fp" "l + 1 = g * p" by (auto dest: in_set_takeD)
        then have "(l + 1) div p \<in> set fp" using 2(3) by simp
        then show False using 2(7) False by auto
      next
        assume "l + 1 \<in> (\<lambda>x. snd x + 1) ` set (filter (\<lambda>x. \<not> opens_page p (fst x)) r)"
        then obtain s' where "(s', l) \<in> set r" "\<not> opens_page p s'" by auto
        then have "l \<in> set (map snd (filter (\<lambda>(s, l). \<not> opens_page p s) r))" by force
        then show False using 2(6) False by simp
      qed
    qed
    then show ?thesis using IH False by simp
  qed
qed simp

lemma decode_locations_distinct_witness:
  "distinct (decode_ref 4 [(5, 7), (3, 21), (9, 15)] [2, 3])"
  by (rule decode_locations_distinct) (simp_all add: opens_page_def)

section \<open>Paged allocation and release are inverse\<close>

definition page_indices :: "int \<Rightarrow> int list \<Rightarrow> int list" where
  "page_indices p pgs = concat (map (\<lambda>pg. map (\<lambda>j. pg * p + int j) [0..<nat p]) pgs)"

lemma page_indices_length: "length (page_indices p pgs) = length pgs * nat p"
  by (induction pgs) (simp_all add: page_indices_def)

lemma page_indices_pages:
  assumes "0 < p"
  shows "(\<lambda>i. i div p) ` set (page_indices p pgs) = set pgs"
proof -
  have "(pg * p + int j) div p = pg" if "j < nat p" for pg j
    using that assms by (intro int_div_pos_eq [where r = "int j"]) simp_all
  moreover have "\<exists>j. j < nat p" using assms by (intro exI [of _ 0]) simp
  ultimately show ?thesis by (force simp: page_indices_def image_iff)
qed

lemma torch_unique_props: "distinct (torch_unique xs) \<and> set (torch_unique xs) = set xs"
  by (simp add: torch_unique_def)

lemma torch_unique_pages:
  assumes "0 < p" and "distinct pgs"
  shows "mset (torch_unique (map (\<lambda>i. i div p) (page_indices p pgs))) = mset pgs"
  using assms torch_unique_props page_indices_pages [OF assms(1), of pgs]
  by (metis set_eq_iff_mset_eq_distinct set_map)

text \<open>
  Paged allocation returns whole pages, and releasing what it returned restores the
  bag of free pages. The result holds \<open>need_size div page_size\<close> pages of \<open>page_size\<close>
  consecutive indices.
\<close>

theorem paged_alloc_free_roundtrip:
  assumes "paged_alloc a n = Inr (Some xs, a')"
    and "0 < al_page_size a" and "\<not> al_debug_mode a" and "al_is_not_in_free_group a"
    and "distinct (al_free_pages a @ al_release_pages a)"
  shows "length xs = nat (int n div al_page_size a) * nat (al_page_size a) \<and>
         (\<exists>a''. paged_free a' xs = Inr a'' \<and> tok_bag a'' = tok_bag a)"
proof -
  define np where "np = nat (int n div al_page_size a)"
  define b where
    "b = (if al_need_sort a \<and> np > length (al_free_pages a) then merge_and_sort_free a else a)"
  have b: "al_page_size b = al_page_size a" "tok_bag b = tok_bag a" "\<not> al_debug_mode b"
    "al_is_not_in_free_group b"
    using assms(3,4) by (simp_all add: b_def) (simp add: merge_and_sort_free_def)
  have "al_free_pages b = al_free_pages a
      \<or> al_free_pages b = sort (al_free_pages a @ al_release_pages a)"
    by (simp add: b_def merge_and_sort_free_def)
  then have dist: "distinct (al_free_pages b)"
    using assms(5) by (metis distinct_append distinct_sort)
  have res: "np \<le> length (al_free_pages b)"
    "xs = page_indices (al_page_size a) (take np (al_free_pages b))"
    "a' = b\<lparr>al_free_pages := drop np (al_free_pages b)\<rparr>"
    using assms(1,3)
    by (auto simp: paged_alloc_def Let_def np_def [symmetric] b_def [symmetric] b(1)
        page_indices_def split: if_splits)
  have len: "length xs = np * nat (al_page_size a)"
    using res by (simp add: page_indices_length)
  have uniq: "mset (torch_unique (map (\<lambda>i. i div al_page_size a) xs))
      = mset (take np (al_free_pages b))"
    unfolding res(2) using assms(2) dist by (intro torch_unique_pages) simp_all
  have bag: "tok_bag b = mset (take np (al_free_pages b)) + mset (drop np (al_free_pages b))
      + mset (al_release_pages b)"
    by (simp add: tok_bag_def mset_take_drop)
  have "\<exists>a''. paged_free a' xs = Inr a'' \<and> tok_bag a'' = tok_bag b"
  proof (cases "xs = []")
    case True
    then have "take np (al_free_pages b) = []" using len assms(2) res(1) by auto
    then have "tok_bag a' = tok_bag b" unfolding bag by (simp add: res(3))
    with True show ?thesis by (simp add: paged_free_def)
  next
    case False
    let ?u = "torch_unique (map (\<lambda>i. i div al_page_size a) xs)"
    have "paged_free a' xs = Inr (if al_need_sort b
        then a'\<lparr>al_release_pages := ?u @ al_release_pages b\<rparr>
        else a'\<lparr>al_free_pages := ?u @ drop np (al_free_pages b)\<rparr>)"
      using False b(1,3,4) by (simp add: paged_free_def Let_def res(3))
    moreover have "tok_bag (if al_need_sort b
        then a'\<lparr>al_release_pages := ?u @ al_release_pages b\<rparr>
        else a'\<lparr>al_free_pages := ?u @ drop np (al_free_pages b)\<rparr>) = tok_bag b"
      unfolding bag by (simp add: res(3) uniq ac_simps)
    ultimately show ?thesis by blast
  qed
  then show ?thesis using len b(2) by (simp add: np_def)
qed

lemma paged_alloc_free_roundtrip_witness:
  "length [4, 5, 6, 7, 8, 9, 10, 11 :: int] = 2 * 4 \<and>
   (\<exists>a''. paged_free ((paged_init 0 12 4 False)\<lparr>al_free_pages := [3]\<rparr>)
            [4, 5, 6, 7, 8, 9, 10, 11] = Inr a'' \<and>
          tok_bag a'' = tok_bag (paged_init 0 12 4 False))"
proof -
  let ?a = "paged_init 0 12 4 False"
  have al: "paged_alloc ?a 8
      = Inr (Some [4, 5, 6, 7, 8, 9, 10, 11], ?a\<lparr>al_free_pages := [3]\<rparr>)"
    by (simp add: paged_alloc_def paged_init_def paged_clear_def Let_def upt_rec)
  show ?thesis
    using paged_alloc_free_roundtrip [OF al]
    by (simp add: paged_init_def paged_clear_def upt_rec)
qed

section \<open>Buffers\<close>

lemma mha_buffers:
  "kv_cache_buffer (mha_init sz ps dt hn hdim (int n) sl el) = replicate n (2, sz + 1, ps, hn, hdim)"
  by (simp add: mha_init_def create_buffers_def Let_def)

text \<open>An explicit last layer 0 is taken for a missing one.\<close>

lemma mha_end_layer_zero:
  "kv_end_layer (mha_init sz ps dt hn hdim n sl (Some 0)) = n - 1"
  by (simp add: mha_init_def py_or_def Let_def)

end
