(* ===== verification/DPSched.thy ===== *)
theory DPSched
  imports Prelude
begin

text \<open>
  The model of \<open>disagmoe/scheduler/dpscheduler.py\<close>: the data-parallel scheduler that assigns
  every request to an attention rank with enough free KV-cache blocks. First the ledger of
  free blocks (\<open>add_seq\<close>, \<open>del_seq\<close>), then the four policies (\<open>max\<close>, \<open>RR\<close>, \<open>cap_rr\<close>,
  \<open>weighted\<close>), then the asynchronous waiting loop as a state machine whose atomic steps are
  the stretches of code between two awaits.

  Lengths and block counts are Python integers (\<open>int\<close>); ranks that index the list of free
  blocks are \<open>nat\<close>, the result -1 of a policy is kept by returning \<open>int\<close>. The weights are
  floats, modelled as exact reals.
\<close>

section \<open>The ledger of free blocks\<close>

datatype policy = PMax | PRR | PCapRR | PWeighted

record dp_sched =
  dp_size :: nat
  kv_cache_stats :: "int list"
  block_size :: int
  seq_ranks :: "nat \<Rightarrow> nat option"
  seq_max_len :: "nat \<Rightarrow> (int \<times> int) option"
  cur_rank :: nat
  weights :: "real list"
  dp_policy :: policy

definition dp_init :: "nat \<Rightarrow> int \<Rightarrow> policy \<Rightarrow> real list \<Rightarrow> dp_sched" where
  "dp_init n bs pol ws =
     \<lparr>dp_size = n, kv_cache_stats = replicate n 0, block_size = bs,
      seq_ranks = Map.empty, seq_max_len = Map.empty, cur_rank = 0, weights = ws,
      dp_policy = pol\<rparr>"

text \<open>The constructor of the weighted scheduler normalises the weights.\<close>

definition weighted_init :: "nat \<Rightarrow> int \<Rightarrow> real list \<Rightarrow> dp_sched result" where
  "weighted_init n bs ws =
     bindR (assertR (length ws = n)) (\<lambda>_.
       let total = sum_list ws
       in if ws \<noteq> [] \<and> total = 0 then Inl ZeroDivisionError
          else Inr (dp_init n bs PWeighted (map (\<lambda>w. w / total) ws)))"

text \<open>\<open>get_dp_scheduler\<close>: an unknown policy name is a missing key of the class table.\<close>

definition get_dp_scheduler ::
  "nat \<Rightarrow> int \<Rightarrow> string \<Rightarrow> real list option \<Rightarrow> dp_sched result" where
  "get_dp_scheduler n bs pol ws =
     (if pol = ''RR'' then Inr (dp_init n bs PRR [])
      else if pol = ''max'' then Inr (dp_init n bs PMax [])
      else if pol = ''cap_rr'' then Inr (dp_init n bs PCapRR [])
      else if pol = ''weighted'' then
        (case ws of None \<Rightarrow> Inl AssertionError | Some w \<Rightarrow> weighted_init n bs w)
      else Inl KeyError)"

definition required_blocks :: "dp_sched \<Rightarrow> int \<Rightarrow> int \<Rightarrow> int result" where
  "required_blocks s prefill_len output_len =
     (let bs = block_size s
      in if bs = 0 then Inl ZeroDivisionError
         else Inr ((prefill_len + bs - 1) div bs + (output_len + bs - 1) div bs))"

definition init_kv_cache_stats :: "(int \<times> int) list \<Rightarrow> dp_sched \<Rightarrow> dp_sched result" where
  "init_kv_cache_stats stats s =
     bindR (foldR (\<lambda>(rank, num_blocks) l. py_set l rank num_blocks) stats (kv_cache_stats s))
       (\<lambda>l. Inr (s\<lparr>kv_cache_stats := l\<rparr>))"

definition add_seq :: "nat \<Rightarrow> int \<Rightarrow> int \<Rightarrow> int \<Rightarrow> dp_sched \<Rightarrow> dp_sched result" where
  "add_seq seq_id prefill_len output_len rank s =
     (let s1 = s\<lparr>seq_max_len := (seq_max_len s)(seq_id \<mapsto> (prefill_len, output_len))\<rparr>
      in bindR (required_blocks s1 prefill_len output_len) (\<lambda>required.
         bindR (py_get (kv_cache_stats s1) rank) (\<lambda>old.
         bindR (py_set (kv_cache_stats s1) rank (old - required)) (\<lambda>l.
           Inr (s1\<lparr>kv_cache_stats := l, seq_ranks := (seq_ranks s1)(seq_id \<mapsto> nat rank)\<rparr>)))))"

text \<open>\<open>del_seq\<close> also sets the event that wakes a blocked request (in the loop below).\<close>

definition del_seq :: "nat \<Rightarrow> dp_sched \<Rightarrow> dp_sched result" where
  "del_seq seq_id s =
     bindR (lookupR (seq_ranks s) seq_id) (\<lambda>rank.
       let s1 = s\<lparr>seq_ranks := (seq_ranks s)(seq_id := None)\<rparr>
       in bindR (lookupR (seq_max_len s1) seq_id) (\<lambda>(prefill_len, output_len).
          bindR (required_blocks s1 prefill_len output_len) (\<lambda>required.
          bindR (py_get (kv_cache_stats s1) (int rank)) (\<lambda>old.
          bindR (py_set (kv_cache_stats s1) (int rank) (old + required)) (\<lambda>l.
            Inr (s1\<lparr>kv_cache_stats := l,
                    seq_max_len := (seq_max_len s1)(seq_id := None)\<rparr>))))))"

section \<open>The policies\<close>

fun max_scan :: "nat \<Rightarrow> int list \<Rightarrow> int \<times> int \<Rightarrow> int \<times> int" where
  "max_scan i [] (stat, rank) = (stat, rank)"
| "max_scan i (nb # l) (stat, rank) =
     max_scan (Suc i) l (if nb > stat then (nb, int i) else (stat, rank))"

definition schedule_max :: "dp_sched \<Rightarrow> int \<Rightarrow> int \<Rightarrow> (int \<times> dp_sched) result" where
  "schedule_max s prefill_len output_len =
     (let (stat, rank) = max_scan 0 (kv_cache_stats s) (0, -1)
      in bindR (required_blocks s prefill_len output_len) (\<lambda>required.
           Inr (if stat < required then -1 else rank, s)))"

definition next_rank :: "dp_sched \<Rightarrow> nat result" where
  "next_rank s =
     (if dp_size s = 0 then Inl ZeroDivisionError else Inr ((cur_rank s + 1) mod dp_size s))"

definition schedule_rr :: "dp_sched \<Rightarrow> int \<Rightarrow> int \<Rightarrow> (int \<times> dp_sched) result" where
  "schedule_rr s prefill_len output_len =
     (let rank = cur_rank s
      in bindR (next_rank s) (\<lambda>nx. Inr (int rank, s\<lparr>cur_rank := nx\<rparr>)))"

fun cap_rr_loop :: "nat \<Rightarrow> int \<Rightarrow> dp_sched \<Rightarrow> (int \<times> dp_sched) result" where
  "cap_rr_loop 0 required s = Inr (-1, s)"
| "cap_rr_loop (Suc k) required s =
     (let rank = cur_rank s
      in bindR (next_rank s) (\<lambda>nx.
           let s1 = s\<lparr>cur_rank := nx\<rparr>
           in bindR (py_get (kv_cache_stats s1) (int rank)) (\<lambda>free.
                if free \<ge> required then Inr (int rank, s1) else cap_rr_loop k required s1)))"

definition schedule_cap_rr :: "dp_sched \<Rightarrow> int \<Rightarrow> int \<Rightarrow> (int \<times> dp_sched) result" where
  "schedule_cap_rr s prefill_len output_len =
     bindR (required_blocks s prefill_len output_len) (\<lambda>required.
       cap_rr_loop (dp_size s) required s)"

fun weighted_scan ::
  "int \<Rightarrow> real list \<Rightarrow> nat \<Rightarrow> int list \<Rightarrow> int \<times> real \<Rightarrow> (int \<times> real) result" where
  "weighted_scan required ws i [] best = Inr best"
| "weighted_scan required ws i (nb # l) (best_rank, best_score) =
     (if nb < required then weighted_scan required ws (Suc i) l (best_rank, best_score)
      else bindR (py_get ws (int i)) (\<lambda>w.
        let score = of_int nb * w
        in weighted_scan required ws (Suc i) l
             (if score > best_score then (int i, score) else (best_rank, best_score))))"

definition schedule_weighted :: "dp_sched \<Rightarrow> int \<Rightarrow> int \<Rightarrow> (int \<times> dp_sched) result" where
  "schedule_weighted s prefill_len output_len =
     bindR (required_blocks s prefill_len output_len) (\<lambda>required.
     bindR (weighted_scan required (weights s) 0 (kv_cache_stats s) (-1, -1)) (\<lambda>(best_rank, _).
       Inr (best_rank, s)))"

text \<open>The base class calls the subclass's \<open>_schedule\<close>.\<close>

definition pick_rank :: "dp_sched \<Rightarrow> int \<Rightarrow> int \<Rightarrow> (int \<times> dp_sched) result" where
  "pick_rank s =
     (case dp_policy s of
        PMax \<Rightarrow> schedule_max s | PRR \<Rightarrow> schedule_rr s
      | PCapRR \<Rightarrow> schedule_cap_rr s | PWeighted \<Rightarrow> schedule_weighted s)"

definition schedule_one ::
  "(dp_sched \<Rightarrow> int \<Rightarrow> int \<Rightarrow> (int \<times> dp_sched) result) \<Rightarrow>
   nat \<Rightarrow> int \<Rightarrow> int \<Rightarrow> dp_sched \<Rightarrow> (int \<times> dp_sched) result" where
  "schedule_one pick req plen olen s =
     bindR (pick s plen olen) (\<lambda>(rank, s1).
       if rank \<ge> 0 then bindR (add_seq req plen olen rank s1) (\<lambda>s2. Inr (rank, s2))
       else Inr (rank, s1))"

fun schedule_all ::
  "(dp_sched \<Rightarrow> int \<Rightarrow> int \<Rightarrow> (int \<times> dp_sched) result) \<Rightarrow>
   (nat \<times> int \<times> int) list \<Rightarrow> dp_sched \<Rightarrow> (int list \<times> dp_sched) result" where
  "schedule_all pick [] s = Inr ([], s)"
| "schedule_all pick ((req, plen, olen) # rs) s =
     bindR (schedule_one pick req plen olen s) (\<lambda>(rank, s1).
     bindR (schedule_all pick rs s1) (\<lambda>(ranks, s2). Inr (rank # ranks, s2)))"

definition schedule ::
  "nat list \<Rightarrow> int list \<Rightarrow> int list \<Rightarrow> dp_sched \<Rightarrow> (int list \<times> dp_sched) result" where
  "schedule req_ids prefill_lens output_lens s =
     schedule_all pick_rank (zip req_ids (zip prefill_lens output_lens)) s"

section \<open>Correctness of the policies\<close>

definition dp_ok :: "dp_sched \<Rightarrow> bool" where
  "dp_ok s \<longleftrightarrow> 0 < block_size s \<and> 0 < dp_size s \<and> length (kv_cache_stats s) = dp_size s \<and>
     cur_rank s < dp_size s \<and>
     (dp_policy s = PWeighted \<longrightarrow> length (weights s) = dp_size s \<and> (\<forall>w \<in> set (weights s). 0 \<le> w))"

definition need :: "dp_sched \<Rightarrow> int \<Rightarrow> int \<Rightarrow> int" where
  "need s p out = ceil_div p (block_size s) + ceil_div out (block_size s)"

lemma required_blocks_eq: "block_size s \<noteq> 0 \<Longrightarrow> required_blocks s p out = Inr (need s p out)"
  by (simp add: required_blocks_def need_def ceil_div_def Let_def)

lemma need_nonneg: "0 < block_size s \<Longrightarrow> 0 \<le> p \<Longrightarrow> 0 \<le> out \<Longrightarrow> 0 \<le> need s p out"
  by (simp add: need_def ceil_div_nonneg)

text \<open>
  What the scan of the \<open>max\<close> policy computes: the largest entry above the bound it starts
  with, and the first position where it stands.
\<close>

lemma max_scan_spec:
  assumes "max_scan i l (stat, rank) = (stat', rank')"
  shows "stat \<le> stat' \<and> (\<forall>x \<in> set l. x \<le> stat') \<and>
    ((stat', rank') = (stat, rank) \<or>
     (\<exists>j < length l. rank' = int (i + j) \<and> l ! j = stat' \<and> stat < stat' \<and>
        (\<forall>k < j. l ! k < stat')))"
  using assms
proof (induction l arbitrary: i stat rank)
  case Nil
  then show ?case by simp
next
  case (Cons nb l)
  define b where "b = (if nb > stat then (nb, int i) else (stat, rank))"
  have run: "max_scan (Suc i) l (fst b, snd b) = (stat', rank')"
    using Cons.prems by (simp add: b_def)
  note IH = Cons.IH [OF run]
  have b1: "stat \<le> fst b" "nb \<le> fst b" by (simp_all add: b_def)
  have all: "stat \<le> stat'" "\<forall>x \<in> set (nb # l). x \<le> stat'" using IH b1 by auto
  from IH consider (same) "(stat', rank') = b"
    | (later) j where "j < length l" "rank' = int (Suc i + j)" "l ! j = stat'" "fst b < stat'"
        "\<forall>k < j. l ! k < stat'"
    by auto
  then show ?case
  proof cases
    case same
    show ?thesis
    proof (cases "nb > stat")
      case True
      then have "rank' = int (i + 0) \<and> (nb # l) ! 0 = stat' \<and> stat < stat'"
        using same by (simp add: b_def)
      then show ?thesis using all by (metis length_Cons less_nat_zero_code zero_less_Suc)
    next
      case False
      then show ?thesis using same all by (simp add: b_def)
    qed
  next
    case (later j)
    have "\<forall>k < Suc j. (nb # l) ! k < stat'"
      using later b1(2) by (auto simp: nth_Cons less_Suc_eq_0_disj split: nat.split)
    moreover have "rank' = int (i + Suc j)" "Suc j < length (nb # l)" "(nb # l) ! Suc j = stat'"
      using later by simp_all
    moreover have "stat < stat'" using later b1(1) by simp
    ultimately show ?thesis using all by blast
  qed
qed

lemma schedule_max_spec:
  assumes "dp_ok s" and "schedule_max s p out = Inr (rank, s')"
  shows "s' = s \<and>
    (0 \<le> rank \<longrightarrow> nat rank < dp_size s \<and> need s p out \<le> kv_cache_stats s ! nat rank \<and>
       (\<forall>x \<in> set (kv_cache_stats s). x \<le> kv_cache_stats s ! nat rank)) \<and>
    (rank < 0 \<longrightarrow> rank = -1 \<and>
       (\<forall>x \<in> set (kv_cache_stats s). x < need s p out \<or> x \<le> 0))"
proof -
  obtain stat rk where sc: "max_scan 0 (kv_cache_stats s) (0, -1) = (stat, rk)"
    by (cases "max_scan 0 (kv_cache_stats s) (0, -1)")
  have bs: "block_size s \<noteq> 0" using assms(1) by (simp add: dp_ok_def)
  have r: "s' = s" "rank = (if stat < need s p out then -1 else rk)"
    using assms(2) by (auto simp: schedule_max_def sc required_blocks_eq [OF bs])
  show ?thesis
    using max_scan_spec [OF sc] r assms(1)
    by (auto simp: dp_ok_def split: if_splits)
qed


text \<open>
  The round-robin scan visits the ranks cyclically from \<open>cur_rank\<close>: \<open>rank_at s j\<close> is the
  \<open>j\<close>-th rank it looks at.
\<close>

definition rank_at :: "dp_sched \<Rightarrow> nat \<Rightarrow> nat" where
  "rank_at s j = (cur_rank s + j) mod dp_size s"

lemma cap_rr_loop_spec:
  assumes "0 < dp_size s" and "length (kv_cache_stats s) = dp_size s" and "cur_rank s < dp_size s"
  shows "\<exists>rank s'. cap_rr_loop k required s = Inr (rank, s') \<and>
    ((rank = -1 \<and> s' = s\<lparr>cur_rank := rank_at s k\<rparr> \<and>
        (\<forall>j < k. kv_cache_stats s ! rank_at s j < required)) \<or>
     (\<exists>j < k. rank = int (rank_at s j) \<and> s' = s\<lparr>cur_rank := rank_at s (Suc j)\<rparr> \<and>
        required \<le> kv_cache_stats s ! rank_at s j \<and>
        (\<forall>i < j. kv_cache_stats s ! rank_at s i < required)))"
  using assms
proof (induction k arbitrary: s)
  case 0
  then show ?case by (simp add: rank_at_def)
next
  case (Suc k)
  define t where "t = s\<lparr>cur_rank := Suc (cur_rank s) mod dp_size s\<rparr>"
  have t: "dp_size t = dp_size s" "kv_cache_stats t = kv_cache_stats s" "cur_rank t < dp_size t"
    using Suc.prems by (simp_all add: t_def)
  have r0: "rank_at s 0 = cur_rank s" using Suc.prems by (simp add: rank_at_def)
  have rt: "rank_at t j = rank_at s (Suc j)" for j
    by (simp add: rank_at_def t_def mod_simps)
  have upd: "t\<lparr>cur_rank := r\<rparr> = s\<lparr>cur_rank := r\<rparr>" for r by (simp add: t_def)
  have ts: "t = s\<lparr>cur_rank := rank_at s (Suc 0)\<rparr>" by (simp add: t_def rank_at_def)
  have step: "cap_rr_loop (Suc k) required s =
      (if required \<le> kv_cache_stats s ! rank_at s 0 then Inr (int (rank_at s 0), t)
       else cap_rr_loop k required t)"
    using Suc.prems t r0 by (simp add: next_rank_def t_def [symmetric] Let_def)
  show ?case
  proof (cases "required \<le> kv_cache_stats s ! rank_at s 0")
    case True
    then show ?thesis unfolding step using ts by auto
  next
    case False
    have "\<exists>rank s'. cap_rr_loop k required t = Inr (rank, s') \<and>
      ((rank = -1 \<and> s' = s\<lparr>cur_rank := rank_at s (Suc k)\<rparr> \<and>
          (\<forall>j < k. kv_cache_stats s ! rank_at s (Suc j) < required)) \<or>
       (\<exists>j < k. rank = int (rank_at s (Suc j)) \<and> s' = s\<lparr>cur_rank := rank_at s (Suc (Suc j))\<rparr> \<and>
          required \<le> kv_cache_stats s ! rank_at s (Suc j) \<and>
          (\<forall>i < j. kv_cache_stats s ! rank_at s (Suc i) < required)))"
      using Suc.IH [of t] Suc.prems t by (simp add: rt upd)
    then obtain rank s' where c: "cap_rr_loop k required t = Inr (rank, s')"
      and d: "(rank = -1 \<and> s' = s\<lparr>cur_rank := rank_at s (Suc k)\<rparr> \<and>
          (\<forall>j < k. kv_cache_stats s ! rank_at s (Suc j) < required)) \<or>
       (\<exists>j < k. rank = int (rank_at s (Suc j)) \<and> s' = s\<lparr>cur_rank := rank_at s (Suc (Suc j))\<rparr> \<and>
          required \<le> kv_cache_stats s ! rank_at s (Suc j) \<and>
          (\<forall>i < j. kv_cache_stats s ! rank_at s (Suc i) < required))"
      by blast
    have ext: "(\<forall>i < Suc m. kv_cache_stats s ! rank_at s i < required)"
      if "\<forall>i < m. kv_cache_stats s ! rank_at s (Suc i) < required" for m
      using that False by (auto simp: less_Suc_eq_0_disj)
    from d show ?thesis
    proof
      assume "rank = -1 \<and> s' = s\<lparr>cur_rank := rank_at s (Suc k)\<rparr> \<and>
          (\<forall>j < k. kv_cache_stats s ! rank_at s (Suc j) < required)"
      then show ?thesis using step False c ext [of k] by simp
    next
      assume "\<exists>j < k. rank = int (rank_at s (Suc j)) \<and>
          s' = s\<lparr>cur_rank := rank_at s (Suc (Suc j))\<rparr> \<and>
          required \<le> kv_cache_stats s ! rank_at s (Suc j) \<and>
          (\<forall>i < j. kv_cache_stats s ! rank_at s (Suc i) < required)"
      then obtain j where "j < k" "rank = int (rank_at s (Suc j))"
          "s' = s\<lparr>cur_rank := rank_at s (Suc (Suc j))\<rparr>"
          "required \<le> kv_cache_stats s ! rank_at s (Suc j)"
          "\<forall>i < j. kv_cache_stats s ! rank_at s (Suc i) < required" by blast
      then show ?thesis using step False c ext [of j] by (metis Suc_less_eq)
    qed
  qed
qed

lemma rank_at_surj:
  assumes "cur_rank s < dp_size s" and "r < dp_size s"
  shows "\<exists>j < dp_size s. rank_at s j = r"
proof (cases "cur_rank s \<le> r")
  case True
  then show ?thesis using assms by (intro exI [of _ "r - cur_rank s"]) (auto simp: rank_at_def)
next
  case False
  then have "(cur_rank s + (dp_size s - cur_rank s + r)) mod dp_size s = r"
    using assms by simp
  then show ?thesis using False assms
    by (intro exI [of _ "dp_size s - cur_rank s + r"]) (auto simp: rank_at_def)
qed

lemma schedule_cap_rr_spec:
  assumes "dp_ok s"
  shows "\<exists>rank s'. schedule_cap_rr s p out = Inr (rank, s') \<and>
    (\<exists>c < dp_size s. s' = s\<lparr>cur_rank := c\<rparr>) \<and>
    ((rank = -1 \<and> (\<forall>x \<in> set (kv_cache_stats s). x < need s p out)) \<or>
     (\<exists>j < dp_size s. rank = int (rank_at s j) \<and> cur_rank s' = rank_at s (Suc j) \<and>
        need s p out \<le> kv_cache_stats s ! rank_at s j \<and>
        (\<forall>i < j. kv_cache_stats s ! rank_at s i < need s p out)))"
proof -
  have ok: "0 < dp_size s" "length (kv_cache_stats s) = dp_size s" "cur_rank s < dp_size s"
    "block_size s \<noteq> 0"
    using assms by (auto simp: dp_ok_def)
  have bound: "rank_at s j < dp_size s" for j using ok by (simp add: rank_at_def)
  obtain rank s' where run: "cap_rr_loop (dp_size s) (need s p out) s = Inr (rank, s')"
    and d: "(rank = -1 \<and> s' = s\<lparr>cur_rank := rank_at s (dp_size s)\<rparr> \<and>
        (\<forall>j < dp_size s. kv_cache_stats s ! rank_at s j < need s p out)) \<or>
     (\<exists>j < dp_size s. rank = int (rank_at s j) \<and> s' = s\<lparr>cur_rank := rank_at s (Suc j)\<rparr> \<and>
        need s p out \<le> kv_cache_stats s ! rank_at s j \<and>
        (\<forall>i < j. kv_cache_stats s ! rank_at s i < need s p out))"
    using cap_rr_loop_spec [OF ok(1-3), of "dp_size s" "need s p out"] by blast
  have all: "\<forall>x \<in> set (kv_cache_stats s). x < need s p out"
    if "\<forall>j < dp_size s. kv_cache_stats s ! rank_at s j < need s p out"
    using that rank_at_surj [OF ok(3)] ok(2) by (metis in_set_conv_nth)
  have "schedule_cap_rr s p out = Inr (rank, s')"
    using run ok(4) by (simp add: schedule_cap_rr_def required_blocks_eq)
  then show ?thesis using d all bound by fastforce
qed

text \<open>The weighted scan keeps the best score among the ranks with enough free blocks.\<close>

lemma weighted_scan_spec:
  assumes "i + length l = length ws" and "\<forall>w \<in> set ws. 0 \<le> w" and "0 \<le> required"
    and "best_score = -1 \<or> 0 \<le> best_score"
  shows "\<exists>rank score. weighted_scan required ws i l (best_rank, best_score) = Inr (rank, score) \<and>
    best_score \<le> score \<and>
    (\<forall>j < length l. required \<le> l ! j \<longrightarrow> of_int (l ! j) * ws ! (i + j) \<le> score) \<and>
    (((rank, score) = (best_rank, best_score) \<and>
        (best_score = -1 \<longrightarrow> (\<forall>j < length l. l ! j < required))) \<or>
     (\<exists>j < length l. rank = int (i + j) \<and> required \<le> l ! j \<and>
        score = of_int (l ! j) * ws ! (i + j)))"
  using assms
proof (induction l arbitrary: i best_rank best_score)
  case Nil
  then show ?case by simp
next
  case (Cons nb l)
  have i: "i < length ws" using Cons.prems(1) by simp
  define sc where "sc = of_int nb * ws ! i"
  define b where "b = (if nb < required then (best_rank, best_score)
      else if sc > best_score then (int i, sc) else (best_rank, best_score))"
  have run: "weighted_scan required ws i (nb # l) (best_rank, best_score)
      = weighted_scan required ws (Suc i) l (fst b, snd b)"
    using i by (simp add: b_def sc_def Let_def)
  have sc0: "0 \<le> sc" if "required \<le> nb"
    using that Cons.prems(2,3) i by (simp add: sc_def)
  have b0: "snd b = -1 \<or> 0 \<le> snd b"
    using Cons.prems(4) sc0 by (auto simp: b_def)
  obtain rank score where r: "weighted_scan required ws (Suc i) l (fst b, snd b) = Inr (rank, score)"
    and ge: "snd b \<le> score"
    and all: "\<forall>j < length l. required \<le> l ! j \<longrightarrow> of_int (l ! j) * ws ! (Suc i + j) \<le> score"
    and alt: "((rank, score) = b \<and> (snd b = -1 \<longrightarrow> (\<forall>j < length l. l ! j < required))) \<or>
      (\<exists>j < length l. rank = int (Suc i + j) \<and> required \<le> l ! j \<and>
        score = of_int (l ! j) * ws ! (Suc i + j))"
    using Cons.IH [of "Suc i" "snd b" "fst b"] Cons.prems(1-3) b0 by auto
  have 1: "best_score \<le> score" using ge by (auto simp: b_def split: if_splits)
  have 2: "\<forall>j < length (nb # l). required \<le> (nb # l) ! j \<longrightarrow>
      of_int ((nb # l) ! j) * ws ! (i + j) \<le> score"
  proof (intro allI impI)
    fix j
    assume j: "j < length (nb # l)" "required \<le> (nb # l) ! j"
    show "of_int ((nb # l) ! j) * ws ! (i + j) \<le> score"
    proof (cases j)
      case 0
      then show ?thesis using j ge by (auto simp: b_def sc_def split: if_splits)
    next
      case (Suc k)
      then show ?thesis using j all by simp
    qed
  qed
  have 3: "((rank, score) = (best_rank, best_score) \<and>
        (best_score = -1 \<longrightarrow> (\<forall>j < length (nb # l). (nb # l) ! j < required))) \<or>
     (\<exists>j < length (nb # l). rank = int (i + j) \<and> required \<le> (nb # l) ! j \<and>
        score = of_int ((nb # l) ! j) * ws ! (i + j))"
    using alt
  proof
    assume eq: "(rank, score) = b \<and> (snd b = -1 \<longrightarrow> (\<forall>j < length l. l ! j < required))"
    show ?thesis
    proof (cases "required \<le> nb \<and> sc > best_score")
      case True
      then have "rank = int (i + 0) \<and> required \<le> (nb # l) ! 0
          \<and> score = of_int ((nb # l) ! 0) * ws ! (i + 0)"
        using eq by (simp add: b_def sc_def)
      then show ?thesis by blast
    next
      case False
      then have b: "b = (best_rank, best_score)" by (auto simp: b_def)
      have "nb < required" if "best_score = -1"
        using False that sc0 by fastforce
      then show ?thesis using eq b by (auto simp: nth_Cons split: nat.split)
    qed
  next
    assume "\<exists>j < length l. rank = int (Suc i + j) \<and> required \<le> l ! j \<and>
        score = of_int (l ! j) * ws ! (Suc i + j)"
    then obtain j where "j < length l" "rank = int (i + Suc j)" "required \<le> (nb # l) ! Suc j"
        "score = of_int ((nb # l) ! Suc j) * ws ! (i + Suc j)" by auto
    then show ?thesis by (metis Suc_less_eq length_Cons)
  qed
  show ?case unfolding run using r 1 2 3 by blast
qed


lemma schedule_weighted_spec:
  assumes "dp_ok s" and "dp_policy s = PWeighted" and "0 \<le> need s p out"
  shows "\<exists>rank. schedule_weighted s p out = Inr (rank, s) \<and>
    ((rank = -1 \<and> (\<forall>x \<in> set (kv_cache_stats s). x < need s p out)) \<or>
     (\<exists>j < dp_size s. rank = int j \<and> need s p out \<le> kv_cache_stats s ! j \<and>
        (\<forall>i < dp_size s. need s p out \<le> kv_cache_stats s ! i \<longrightarrow>
           of_int (kv_cache_stats s ! i) * weights s ! i
             \<le> of_int (kv_cache_stats s ! j) * weights s ! j)))"
proof -
  have ok: "block_size s \<noteq> 0" "length (kv_cache_stats s) = dp_size s"
    "length (weights s) = dp_size s" "\<forall>w \<in> set (weights s). 0 \<le> w"
    using assms(1,2) by (auto simp: dp_ok_def)
  have len: "0 + length (kv_cache_stats s) = length (weights s)" using ok by simp
  obtain rank score where
    run: "weighted_scan (need s p out) (weights s) 0 (kv_cache_stats s) (-1, -1) = Inr (rank, score)"
    and all: "\<forall>j < length (kv_cache_stats s). need s p out \<le> kv_cache_stats s ! j \<longrightarrow>
      of_int (kv_cache_stats s ! j) * weights s ! (0 + j) \<le> score"
    and alt: "((rank, score) = (-1, -1) \<and>
        ((-1::real) = -1 \<longrightarrow> (\<forall>j < length (kv_cache_stats s). kv_cache_stats s ! j < need s p out))) \<or>
      (\<exists>j < length (kv_cache_stats s). rank = int (0 + j) \<and> need s p out \<le> kv_cache_stats s ! j \<and>
        score = of_int (kv_cache_stats s ! j) * weights s ! (0 + j))"
    using weighted_scan_spec [OF len ok(4) assms(3), of "-1" "-1"] by blast
  have eq: "schedule_weighted s p out = Inr (rank, s)"
    using run ok(1) by (simp add: schedule_weighted_def required_blocks_eq)
  from alt show ?thesis
  proof
    assume "(rank, score) = (-1, -1) \<and>
        ((-1::real) = -1 \<longrightarrow> (\<forall>j < length (kv_cache_stats s). kv_cache_stats s ! j < need s p out))"
    then show ?thesis using eq by (auto simp: in_set_conv_nth)
  next
    assume "\<exists>j < length (kv_cache_stats s). rank = int (0 + j) \<and>
        need s p out \<le> kv_cache_stats s ! j \<and>
        score = of_int (kv_cache_stats s ! j) * weights s ! (0 + j)"
    then show ?thesis using eq all ok(2) by auto
  qed
qed

section \<open>The contract of a policy\<close>

text \<open>
  What the base class relies on: a policy answers for every request, names a rank in range
  and touches nothing but its own cursor. \<open>ok\<close> is the policy's own well-formedness, which
  changes of the ledger keep.
\<close>

definition ledger_set ::
  "int list \<Rightarrow> (nat \<Rightarrow> nat option) \<Rightarrow> (nat \<Rightarrow> (int \<times> int) option) \<Rightarrow> dp_sched \<Rightarrow> dp_sched" where
  "ledger_set l a b s = s\<lparr>kv_cache_stats := l, seq_ranks := a, seq_max_len := b\<rparr>"

locale rank_policy =
  fixes pick :: "dp_sched \<Rightarrow> int \<Rightarrow> int \<Rightarrow> (int \<times> dp_sched) result"
    and ok :: "dp_sched \<Rightarrow> bool"
  assumes ok_base: "ok s \<Longrightarrow> 0 < block_size s \<and> length (kv_cache_stats s) = dp_size s"
    and ok_ledger: "ok s \<Longrightarrow> length l = length (kv_cache_stats s) \<Longrightarrow> ok (ledger_set l a b s)"
    and pick_total: "ok s \<Longrightarrow> 0 \<le> p \<Longrightarrow> 0 \<le> out \<Longrightarrow>
      \<exists>rank c. pick s p out = Inr (rank, s\<lparr>cur_rank := c\<rparr>) \<and> ok (s\<lparr>cur_rank := c\<rparr>) \<and>
        rank < int (dp_size s)"
begin

lemma schedule_one_cases:
  assumes "ok s" and "0 \<le> p" and "0 \<le> out"
  shows "\<exists>rank s' c. schedule_one pick q p out s = Inr (rank, s') \<and> ok s' \<and>
    pick s p out = Inr (rank, s\<lparr>cur_rank := c\<rparr>) \<and>
    (if rank < 0 then s' = s\<lparr>cur_rank := c\<rparr>
     else nat rank < dp_size s \<and>
       s' = ledger_set ((kv_cache_stats s)[nat rank := kv_cache_stats s ! nat rank - need s p out])
              ((seq_ranks s)(q \<mapsto> nat rank)) ((seq_max_len s)(q \<mapsto> (p, out)))
              (s\<lparr>cur_rank := c\<rparr>))"
proof -
  obtain rank c where pk: "pick s p out = Inr (rank, s\<lparr>cur_rank := c\<rparr>)"
    and okc: "ok (s\<lparr>cur_rank := c\<rparr>)" and lt: "rank < int (dp_size s)"
    using pick_total [OF assms] by blast
  have bs: "block_size s \<noteq> 0" "length (kv_cache_stats s) = dp_size s"
    using ok_base [OF assms(1)] by auto
  show ?thesis
  proof (cases "rank < 0")
    case True
    then show ?thesis using pk okc by (auto simp: schedule_one_def)
  next
    case False
    then have r: "rank = int (nat rank)" "nat rank < dp_size s" using lt by auto
    define l where "l = (kv_cache_stats s)[nat rank := kv_cache_stats s ! nat rank - need s p out]"
    define s' where "s' = ledger_set l ((seq_ranks s)(q \<mapsto> nat rank))
        ((seq_max_len s)(q \<mapsto> (p, out))) (s\<lparr>cur_rank := c\<rparr>)"
    have gt: "py_get (kv_cache_stats s) rank = Inr (kv_cache_stats s ! nat rank)"
      using r bs(2) by (metis py_get_nat)
    have st: "py_set (kv_cache_stats s) rank (kv_cache_stats s ! nat rank - need s p out) = Inr l"
      using r bs(2) unfolding l_def by (metis py_set_nat)
    have "add_seq q p out rank (s\<lparr>cur_rank := c\<rparr>) = Inr s'"
      using bs gt st
      by (simp add: add_seq_def required_blocks_def need_def ceil_div_def Let_def s'_def
          ledger_set_def)
    then have "schedule_one pick q p out s = Inr (rank, s')"
      using pk False by (simp add: schedule_one_def)
    moreover have "ok s'"
      unfolding s'_def by (rule ok_ledger [OF okc]) (simp add: l_def)
    ultimately show ?thesis using False r pk by (auto simp: s'_def l_def)
  qed
qed

end

text \<open>A capacity policy never names a rank without room and only refuses when none has room.\<close>

locale capacity_policy = rank_policy +
  assumes pick_fits: "ok s \<Longrightarrow> 0 \<le> p \<Longrightarrow> 0 \<le> out \<Longrightarrow> pick s p out = Inr (rank, s') \<Longrightarrow>
      0 \<le> rank \<Longrightarrow> need s p out \<le> kv_cache_stats s ! nat rank"
    and pick_refuses: "ok s \<Longrightarrow> 0 \<le> p \<Longrightarrow> 0 \<le> out \<Longrightarrow> pick s p out = Inr (rank, s') \<Longrightarrow>
      rank < 0 \<Longrightarrow> x \<in> set (kv_cache_stats s) \<Longrightarrow> x < need s p out \<or> x \<le> 0"
begin

lemma schedule_one_keeps_nonneg:
  assumes "ok s" and "0 \<le> p" and "0 \<le> out" and "\<forall>x \<in> set (kv_cache_stats s). 0 \<le> x"
    and "schedule_one pick q p out s = Inr (rank, s')"
  shows "\<forall>x \<in> set (kv_cache_stats s'). 0 \<le> x"
proof -
  obtain c where pk: "pick s p out = Inr (rank, s\<lparr>cur_rank := c\<rparr>)"
    and d: "if rank < 0 then s' = s\<lparr>cur_rank := c\<rparr>
     else nat rank < dp_size s \<and>
       s' = ledger_set ((kv_cache_stats s)[nat rank := kv_cache_stats s ! nat rank - need s p out])
              ((seq_ranks s)(q \<mapsto> nat rank)) ((seq_max_len s)(q \<mapsto> (p, out)))
              (s\<lparr>cur_rank := c\<rparr>)"
    using schedule_one_cases [OF assms(1-3), of q] assms(5) by auto
  show ?thesis
  proof (cases "rank < 0")
    case True
    then show ?thesis using d assms(4) by simp
  next
    case False
    then have "need s p out \<le> kv_cache_stats s ! nat rank"
      using pick_fits [OF assms(1-3) pk] by simp
    moreover have "set (kv_cache_stats s')
        \<subseteq> insert (kv_cache_stats s ! nat rank - need s p out) (set (kv_cache_stats s))"
      using d False by (simp add: ledger_set_def set_update_subset_insert)
    ultimately show ?thesis using assms(4) by auto
  qed
qed

lemma schedule_one_refused:
  assumes "ok s" and "0 \<le> p" and "0 \<le> out"
    and "schedule_one pick q p out s = Inr (rank, s')" and "rank < 0"
  shows "\<forall>x \<in> set (kv_cache_stats s'). x < need s' p out \<or> x \<le> 0"
proof -
  obtain c where pk: "pick s p out = Inr (rank, s\<lparr>cur_rank := c\<rparr>)" and "s' = s\<lparr>cur_rank := c\<rparr>"
    using schedule_one_cases [OF assms(1-3), of q] assms(4,5) by auto
  then show ?thesis using pick_refuses [OF assms(1-3) pk assms(5)] by (simp add: need_def)
qed

end


lemma dp_ok_ledger: "dp_ok s \<Longrightarrow> length l = length (kv_cache_stats s) \<Longrightarrow> dp_ok (ledger_set l a b s)"
  by (simp add: dp_ok_def ledger_set_def)

lemma dp_ok_cursor: "dp_ok s \<Longrightarrow> c < dp_size s \<Longrightarrow> dp_ok (s\<lparr>cur_rank := c\<rparr>)"
  by (simp add: dp_ok_def)

lemma cursor_same: "s\<lparr>cur_rank := cur_rank s\<rparr> = (s :: dp_sched)"
  by (cases s) simp

lemma dp_ok_block: "dp_ok s \<Longrightarrow> 0 < block_size s \<and> length (kv_cache_stats s) = dp_size s"
  by (simp add: dp_ok_def)

definition cap_ok :: "dp_sched \<Rightarrow> bool" where
  "cap_ok s \<longleftrightarrow> dp_ok s \<and> dp_policy s \<noteq> PRR"

lemma schedule_max_total:
  assumes "dp_ok s"
  shows "\<exists>rank. schedule_max s p out = Inr (rank, s) \<and> rank < int (dp_size s)"
proof -
  have "block_size s \<noteq> 0" using assms by (simp add: dp_ok_def)
  then obtain rank s' where r: "schedule_max s p out = Inr (rank, s')"
    by (cases "max_scan 0 (kv_cache_stats s) (0, -1)")
      (simp add: schedule_max_def required_blocks_eq)
  note sp = schedule_max_spec [OF assms r]
  have "rank < int (dp_size s)"
    using sp assms by (cases "0 \<le> rank") (auto simp: dp_ok_def)
  then show ?thesis using r sp by simp
qed

lemma pick_rank_total:
  assumes "dp_ok s" and "0 \<le> p" and "0 \<le> out"
  shows "\<exists>rank c. pick_rank s p out = Inr (rank, s\<lparr>cur_rank := c\<rparr>) \<and> c < dp_size s \<and>
     rank < int (dp_size s)"
proof (cases "dp_policy s")
  case PMax
  then show ?thesis
    using schedule_max_total [OF assms(1), of p out] assms(1)
    by (metis cursor_same dp_ok_def pick_rank_def policy.simps(13))
next
  case PRR
  then show ?thesis using assms(1)
    by (auto simp: pick_rank_def schedule_rr_def next_rank_def dp_ok_def)
next
  case PCapRR
  obtain rank s' c where r: "schedule_cap_rr s p out = Inr (rank, s')" "c < dp_size s"
      "s' = s\<lparr>cur_rank := c\<rparr>"
    and alt: "rank = -1 \<or> (\<exists>j < dp_size s. rank = int (rank_at s j))"
    using schedule_cap_rr_spec [OF assms(1), of p out] by blast
  have "rank_at s j < dp_size s" for j using assms(1) by (simp add: rank_at_def dp_ok_def)
  then have "rank < int (dp_size s)" using alt by auto
  then show ?thesis using r PCapRR by (auto simp: pick_rank_def)
next
  case PWeighted
  have "0 \<le> need s p out" using assms by (simp add: need_nonneg dp_ok_def)
  from schedule_weighted_spec [OF assms(1) PWeighted this]
  obtain rank where "schedule_weighted s p out = Inr (rank, s)"
    and "rank = -1 \<or> (\<exists>j < dp_size s. rank = int j)" by blast
  then have "pick_rank s p out = Inr (rank, s\<lparr>cur_rank := cur_rank s\<rparr>)" "rank < int (dp_size s)"
    using PWeighted by (auto simp: pick_rank_def)
  moreover have "cur_rank s < dp_size s" using assms(1) by (simp add: dp_ok_def)
  ultimately show ?thesis by blast
qed

lemma pick_rank_fits:
  assumes "cap_ok s" and "0 \<le> p" and "0 \<le> out" and r: "pick_rank s p out = Inr (rank, s')"
  shows "(0 \<le> rank \<longrightarrow> need s p out \<le> kv_cache_stats s ! nat rank) \<and>
    (rank < 0 \<longrightarrow> (\<forall>x \<in> set (kv_cache_stats s). x < need s p out \<or> x \<le> 0))"
proof -
  have ok: "dp_ok s" using assms(1) by (simp add: cap_ok_def)
  show ?thesis
  proof (cases "dp_policy s")
    case PMax
    then show ?thesis using schedule_max_spec [OF ok] r by (simp add: pick_rank_def)
  next
    case PRR
    then show ?thesis using assms(1) by (simp add: cap_ok_def)
  next
    case PCapRR
    then show ?thesis using schedule_cap_rr_spec [OF ok, of p out] r
      by (auto simp: pick_rank_def)
  next
    case PWeighted
    have n: "0 \<le> need s p out" using assms ok by (simp add: need_nonneg dp_ok_def)
    show ?thesis using schedule_weighted_spec [OF ok PWeighted n] r PWeighted
      by (auto simp: pick_rank_def)
  qed
qed

interpretation anyp: rank_policy pick_rank dp_ok
proof (unfold_locales, goal_cases)
  case (1 s)
  then show ?case by (rule dp_ok_block)
next
  case (2 s l a b)
  then show ?case by (rule dp_ok_ledger)
next
  case (3 s p out)
  then show ?case using pick_rank_total dp_ok_cursor by blast
qed

interpretation capp: capacity_policy pick_rank cap_ok
proof (unfold_locales, goal_cases)
  case (1 s)
  then show ?case by (simp add: cap_ok_def dp_ok_def)
next
  case (2 s l a b)
  then show ?case using dp_ok_ledger by (auto simp: cap_ok_def ledger_set_def)
next
  case (3 s p out)
  then show ?case using pick_rank_total [of s p out] dp_ok_cursor
    by (fastforce simp: cap_ok_def)
next
  case (4 s p out rank s')
  then show ?case using pick_rank_fits by blast
next
  case (5 s p out rank s' x)
  then show ?case using pick_rank_fits by blast
qed


section \<open>The waiting loop\<close>

text \<open>
  \<open>waiting_loop\<close> is a coroutine; the code between two awaits runs without interruption.
  Its phases are the places where it can be suspended: in \<open>asyncio.wait\<close> (\<open>Waiting\<close>; \<open>Got x\<close>
  once the task of \<open>waiting_queue.get()\<close> has taken \<open>x\<close> from the queue), on the cancelled
  tasks (\<open>Taken x\<close>), on \<open>sch_event\<close> with a request no rank has room for (\<open>Blocked x\<close>).
  \<open>submitted\<close> records the calls of \<open>request_item.func\<close>.
\<close>

record request_item =
  req_id :: nat
  seq_len :: int
  prefill_len :: int
  output_len :: int

datatype loop_phase =
    Waiting
  | Got request_item
  | Taken request_item
  | Blocked request_item
  | Finished
  | Crashed py_error

record dp_loop =
  sched :: dp_sched
  waiting_queue :: "request_item list"
  sch_event :: bool
  end_event :: bool
  phase :: loop_phase
  submitted :: "(request_item \<times> int) list"

datatype loop_event = EPut request_item | EDel nat | ETerminate | EGet | EResume

definition loop_start :: "(int \<times> int) list \<Rightarrow> dp_sched \<Rightarrow> dp_loop result" where
  "loop_start stats s =
     bindR (init_kv_cache_stats stats s) (\<lambda>s'.
       Inr \<lparr>sched = s', waiting_queue = [], sch_event = False, end_event = False,
            phase = Waiting, submitted = []\<rparr>)"

text \<open>One call of \<open>schedule\<close> for the request at hand, and what the loop does with the rank.\<close>

definition try_submit :: "request_item \<Rightarrow> dp_loop \<Rightarrow> dp_loop" where
  "try_submit x st =
     (case schedule [req_id x] [prefill_len x] [output_len x] (sched st) of
        Inl e \<Rightarrow> st\<lparr>phase := Crashed e\<rparr>
      | Inr (ranks, s') \<Rightarrow>
          let rank = ranks ! 0; st1 = st\<lparr>sched := s'\<rparr>
          in if rank < 0 then st1\<lparr>phase := Blocked x\<rparr>
             else st1\<lparr>submitted := submitted st1 @ [(x, rank)],
                      phase := (if end_event st1 then Finished else Waiting)\<rparr>)"

text \<open>\<open>None\<close>: the event cannot happen now.\<close>

fun loop_step :: "loop_event \<Rightarrow> dp_loop \<Rightarrow> dp_loop option" where
  "loop_step (EPut x) st = Some (st\<lparr>waiting_queue := waiting_queue st @ [x]\<rparr>)"
| "loop_step (EDel q) st =
     (case del_seq q (sched st) of
        Inl e \<Rightarrow> None
      | Inr s' \<Rightarrow> Some (st\<lparr>sched := s', sch_event := True\<rparr>))"
| "loop_step ETerminate st = Some (st\<lparr>end_event := True\<rparr>)"
| "loop_step EGet st =
     (case (phase st, waiting_queue st) of
        (Waiting, x # q) \<Rightarrow> Some (st\<lparr>waiting_queue := q, phase := Got x\<rparr>)
      | _ \<Rightarrow> None)"
| "loop_step EResume st =
     (case phase st of
        Waiting \<Rightarrow> if end_event st then Some (st\<lparr>phase := Finished\<rparr>) else None
      | Got x \<Rightarrow> if end_event st then Some (st\<lparr>phase := Finished\<rparr>)
                else Some (st\<lparr>phase := Taken x\<rparr>)
      | Taken x \<Rightarrow> Some (try_submit x st)
      | Blocked x \<Rightarrow> if sch_event st then Some (try_submit x (st\<lparr>sch_event := False\<rparr>)) else None
      | _ \<Rightarrow> None)"

fun loop_run :: "loop_event list \<Rightarrow> dp_loop \<Rightarrow> dp_loop option" where
  "loop_run [] st = Some st"
| "loop_run (e # es) st =
     (case loop_step e st of None \<Rightarrow> None | Some st' \<Rightarrow> loop_run es st')"


section \<open>The ledger invariant\<close>

text \<open>The blocks charged to a rank: the needs of the sequences that run on it.\<close>

definition seq_need :: "dp_sched \<Rightarrow> nat \<Rightarrow> int" where
  "seq_need s q = (case seq_max_len s q of None \<Rightarrow> 0 | Some (p, out) \<Rightarrow> need s p out)"

definition charged :: "dp_sched \<Rightarrow> nat \<Rightarrow> int" where
  "charged s r = (\<Sum>q | seq_ranks s q = Some r. seq_need s q)"

definition seqs_ok :: "dp_sched \<Rightarrow> bool" where
  "seqs_ok s \<longleftrightarrow> finite (dom (seq_ranks s)) \<and> dom (seq_max_len s) = dom (seq_ranks s) \<and>
     (\<forall>q r. seq_ranks s q = Some r \<longrightarrow> r < dp_size s) \<and>
     (\<forall>q p out. seq_max_len s q = Some (p, out) \<longrightarrow> 0 \<le> p \<and> 0 \<le> out)"

definition ledger_inv :: "int list \<Rightarrow> dp_sched \<Rightarrow> bool" where
  "ledger_inv cap s \<longleftrightarrow> dp_ok s \<and> seqs_ok s \<and> length cap = dp_size s \<and>
     (\<forall>r < dp_size s. kv_cache_stats s ! r + charged s r = cap ! r)"

lemma need_ledger_set [simp]: "need (ledger_set l a b s) = need s"
  by (simp add: need_def ledger_set_def fun_eq_iff)

lemma need_cursor [simp]: "need (s\<lparr>cur_rank := c\<rparr>) = need s"
  by (simp add: need_def fun_eq_iff)

lemma ledger_set_simps [simp]:
  "kv_cache_stats (ledger_set l a b s) = l" "seq_ranks (ledger_set l a b s) = a"
  "seq_max_len (ledger_set l a b s) = b" "dp_size (ledger_set l a b s) = dp_size s"
  "block_size (ledger_set l a b s) = block_size s" "dp_policy (ledger_set l a b s) = dp_policy s"
  by (simp_all add: ledger_set_def)

lemma seqs_finite: "seqs_ok s \<Longrightarrow> finite {q. seq_ranks s q = Some r}"
  by (rule finite_subset [of _ "dom (seq_ranks s)"]) (auto simp: seqs_ok_def)

lemma ledger_inv_cursor:
  "ledger_inv cap s \<Longrightarrow> dp_ok (s\<lparr>cur_rank := c\<rparr>) \<Longrightarrow> ledger_inv cap (s\<lparr>cur_rank := c\<rparr>)"
  by (simp add: ledger_inv_def seqs_ok_def charged_def seq_need_def cong: option.case_cong)

lemma charged_add:
  assumes "seqs_ok s" and "q \<notin> dom (seq_ranks s)"
  shows "charged (ledger_set l ((seq_ranks s)(q \<mapsto> r)) ((seq_max_len s)(q \<mapsto> (p, out))) s) r'
    = charged s r' + (if r' = r then need s p out else 0)"
proof -
  let ?t = "ledger_set l ((seq_ranks s)(q \<mapsto> r)) ((seq_max_len s)(q \<mapsto> (p, out))) s"
  have other: "(\<Sum>x | seq_ranks s x = Some r'. seq_need ?t x)
      = (\<Sum>x | seq_ranks s x = Some r'. seq_need s x)"
    using assms(2) by (intro sum.cong) (auto simp: seq_need_def split: option.split)
  show ?thesis
  proof (cases "r' = r")
    case True
    have "{x. seq_ranks ?t x = Some r} = insert q {x. seq_ranks s x = Some r}"
      using assms(2) by auto
    moreover have "q \<notin> {x. seq_ranks s x = Some r}" using assms(2) by auto
    ultimately have "charged ?t r = seq_need ?t q + (\<Sum>x | seq_ranks s x = Some r. seq_need ?t x)"
      unfolding charged_def using seqs_finite [OF assms(1), of r] by simp
    then show ?thesis using True other by (simp add: charged_def seq_need_def)
  next
    case False
    then have "{x. seq_ranks ?t x = Some r'} = {x. seq_ranks s x = Some r'}"
      using assms(2) by auto
    then show ?thesis using False other by (simp add: charged_def)
  qed
qed

lemma charged_del:
  assumes "seqs_ok s" and "seq_ranks s q = Some r"
  shows "charged (ledger_set l ((seq_ranks s)(q := None)) ((seq_max_len s)(q := None)) s) r'
    = charged s r' - (if r' = r then seq_need s q else 0)"
proof -
  let ?t = "ledger_set l ((seq_ranks s)(q := None)) ((seq_max_len s)(q := None)) s"
  have sets: "{x. seq_ranks ?t x = Some r'} = {x. seq_ranks s x = Some r'} - {q}" by auto
  have "charged ?t r' = (\<Sum>x \<in> {x. seq_ranks s x = Some r'} - {q}. seq_need s x)"
    unfolding charged_def sets by (intro sum.cong) (auto simp: seq_need_def split: option.split)
  also have "\<dots> = charged s r' - (if r' = r then seq_need s q else 0)"
    using seqs_finite [OF assms(1), of r'] assms(2) by (auto simp: charged_def sum_diff1)
  finally show ?thesis .
qed

lemma ledger_inv_add:
  assumes "ledger_inv cap s" and "q \<notin> dom (seq_ranks s)" and "r < dp_size s"
    and "0 \<le> p" and "0 \<le> out"
  shows "ledger_inv cap (ledger_set ((kv_cache_stats s)[r := kv_cache_stats s ! r - need s p out])
      ((seq_ranks s)(q \<mapsto> r)) ((seq_max_len s)(q \<mapsto> (p, out))) s)"
    (is "ledger_inv cap ?t")
proof -
  have ok: "dp_ok s" "seqs_ok s" and len: "length (kv_cache_stats s) = dp_size s"
    using assms(1) by (auto simp: ledger_inv_def dp_ok_def)
  have "dp_ok ?t" by (rule dp_ok_ledger [OF ok(1)]) simp
  moreover have "seqs_ok ?t"
    using ok(2) assms(2-5) by (auto simp: seqs_ok_def ran_def)
  moreover have "kv_cache_stats ?t ! r' + charged ?t r' = cap ! r'" if "r' < dp_size s" for r'
    using that assms(1,3) len charged_add [OF ok(2) assms(2)]
    by (auto simp: ledger_inv_def nth_list_update)
  ultimately show ?thesis using assms(1) by (simp add: ledger_inv_def)
qed

lemma del_seq_eq:
  assumes "ledger_inv cap s" and "seq_ranks s q = Some r"
  shows "del_seq q s = Inr (ledger_set
      ((kv_cache_stats s)[r := kv_cache_stats s ! r + seq_need s q])
      ((seq_ranks s)(q := None)) ((seq_max_len s)(q := None)) s)"
proof -
  have r: "r < length (kv_cache_stats s)" and b: "block_size s \<noteq> 0"
    using assms by (auto simp: ledger_inv_def seqs_ok_def dp_ok_def ran_def)
  have "q \<in> dom (seq_max_len s)"
    using assms by (auto simp: ledger_inv_def seqs_ok_def)
  then obtain p out where m: "seq_max_len s q = Some (p, out)" by auto
  show ?thesis
    using assms(2) m r b
    by (simp add: del_seq_def Let_def required_blocks_def need_def seq_need_def ceil_div_def
        ledger_set_def)
qed

lemma ledger_inv_del:
  assumes "ledger_inv cap s" and "seq_ranks s q = Some r"
  shows "ledger_inv cap (ledger_set
      ((kv_cache_stats s)[r := kv_cache_stats s ! r + seq_need s q])
      ((seq_ranks s)(q := None)) ((seq_max_len s)(q := None)) s)"
    (is "ledger_inv cap ?t")
proof -
  have ok: "dp_ok s" "seqs_ok s" and len: "length (kv_cache_stats s) = dp_size s"
    using assms(1) by (auto simp: ledger_inv_def dp_ok_def)
  have "dp_ok ?t" by (rule dp_ok_ledger [OF ok(1)]) simp
  moreover have "seqs_ok ?t"
    using ok(2) unfolding seqs_ok_def by (simp split: if_splits)
  moreover have "kv_cache_stats ?t ! r' + charged ?t r' = cap ! r'" if "r' < dp_size s" for r'
    using that assms(1) len charged_del [OF ok(2) assms(2)]
    by (auto simp: ledger_inv_def nth_list_update)
  ultimately show ?thesis using assms(1) by (simp add: ledger_inv_def)
qed

lemma del_seq_Inr:
  assumes "ledger_inv cap s" and "del_seq q s = Inr s'"
  shows "\<exists>r. seq_ranks s q = Some r \<and> ledger_inv cap s' \<and>
    s' = ledger_set ((kv_cache_stats s)[r := kv_cache_stats s ! r + seq_need s q])
      ((seq_ranks s)(q := None)) ((seq_max_len s)(q := None)) s"
proof -
  obtain r where "seq_ranks s q = Some r"
    using assms(2) by (auto simp: del_seq_def res Let_def)
  then show ?thesis using del_seq_eq [OF assms(1)] ledger_inv_del [OF assms(1)] assms(2) by auto
qed

lemma seq_need_nonneg: "ledger_inv cap s \<Longrightarrow> 0 \<le> seq_need s q"
  using need_nonneg [of s]
  by (auto simp: seq_need_def ledger_inv_def dp_ok_def seqs_ok_def ran_def split: option.split)


section \<open>The loop invariant\<close>

fun phase_items :: "loop_phase \<Rightarrow> request_item list" where
  "phase_items (Got x) = [x]"
| "phase_items (Taken x) = [x]"
| "phase_items (Blocked x) = [x]"
| "phase_items _ = []"

definition pending :: "dp_loop \<Rightarrow> request_item list" where
  "pending st = phase_items (phase st) @ waiting_queue st"

definition item_ok :: "request_item \<Rightarrow> bool" where
  "item_ok x \<longleftrightarrow> 0 \<le> prefill_len x \<and> 0 \<le> output_len x"

fun puts :: "loop_event list \<Rightarrow> request_item list" where
  "puts [] = []"
| "puts (EPut x # es) = x # puts es"
| "puts (_ # es) = puts es"

text \<open>The caller's part: request ids are fresh and lengths are not negative.\<close>

definition fresh_ids :: "(nat \<Rightarrow> nat option) \<Rightarrow> request_item list \<Rightarrow> bool" where
  "fresh_ids m xs \<longleftrightarrow> distinct (map req_id xs) \<and>
     (\<forall>x \<in> set xs. m (req_id x) = None \<and> item_ok x)"

definition fresh :: "dp_loop \<Rightarrow> loop_event list \<Rightarrow> bool" where
  "fresh st es \<longleftrightarrow> fresh_ids (seq_ranks (sched st)) (pending st @ puts es)"

lemma fresh_ids_tl: "fresh_ids m (x # xs) \<Longrightarrow> fresh_ids m xs"
  by (simp add: fresh_ids_def)

lemma fresh_ids_hd: "fresh_ids m (x # xs) \<Longrightarrow> m (req_id x) = None \<and> item_ok x"
  by (simp add: fresh_ids_def)

lemma fresh_ids_take: "fresh_ids m (x # xs) \<Longrightarrow> fresh_ids (m(req_id x \<mapsto> r)) xs"
  by (fastforce simp: fresh_ids_def image_iff)

lemma fresh_ids_del: "fresh_ids m xs \<Longrightarrow> fresh_ids (m(q := None)) xs"
  by (auto simp: fresh_ids_def)

lemma schedule_single:
  "schedule [q] [p] [out] s =
     bindR (schedule_one pick_rank q p out s) (\<lambda>(rank, s'). Inr ([rank], s'))"
  by (cases "schedule_one pick_rank q p out s") (auto simp: schedule_def)

text \<open>
  The one place where the loop changes the ledger: under the invariant it never crashes, and
  either charges the request to a rank and submits it or leaves the ledger alone and blocks.
\<close>

lemma try_submit_cases:
  assumes "ledger_inv cap (sched st)" and "req_id x \<notin> dom (seq_ranks (sched st))" and "item_ok x"
  shows "\<exists>rank s'. schedule_one pick_rank (req_id x) (prefill_len x) (output_len x) (sched st)
        = Inr (rank, s') \<and> ledger_inv cap s' \<and>
      (if rank < 0 then seq_ranks s' = seq_ranks (sched st) \<and>
           try_submit x st = st\<lparr>sched := s', phase := Blocked x\<rparr>
       else nat rank < dp_size s' \<and> seq_ranks s' = (seq_ranks (sched st))(req_id x \<mapsto> nat rank) \<and>
           try_submit x st = st\<lparr>sched := s', submitted := submitted st @ [(x, rank)],
              phase := (if end_event st then Finished else Waiting)\<rparr>)"
proof -
  let ?s = "sched st"
  have ok: "dp_ok ?s" using assms(1) by (simp add: ledger_inv_def)
  have pos: "0 \<le> prefill_len x" "0 \<le> output_len x" using assms(3) by (auto simp: item_ok_def)
  obtain rank s' c where
    run: "schedule_one pick_rank (req_id x) (prefill_len x) (output_len x) ?s = Inr (rank, s')"
    and ok': "dp_ok s'"
    and d: "if rank < 0 then s' = ?s\<lparr>cur_rank := c\<rparr>
     else nat rank < dp_size ?s \<and>
       s' = ledger_set ((kv_cache_stats ?s)[nat rank := kv_cache_stats ?s ! nat rank
                - need ?s (prefill_len x) (output_len x)])
              ((seq_ranks ?s)(req_id x \<mapsto> nat rank))
              ((seq_max_len ?s)(req_id x \<mapsto> (prefill_len x, output_len x)))
              (?s\<lparr>cur_rank := c\<rparr>)"
    using anyp.schedule_one_cases [OF ok pos, of "req_id x"] by blast
  have ts: "try_submit x st = (if rank < 0 then st\<lparr>sched := s', phase := Blocked x\<rparr>
      else st\<lparr>sched := s', submitted := submitted st @ [(x, rank)],
              phase := (if end_event st then Finished else Waiting)\<rparr>)"
    by (simp add: try_submit_def schedule_single run)
  show ?thesis
  proof (cases "rank < 0")
    case True
    then have "ledger_inv cap s'" using d ok' ledger_inv_cursor [OF assms(1)] by simp
    then show ?thesis using True d run ts by auto
  next
    case False
    define t where "t = ledger_set ((kv_cache_stats ?s)[nat rank := kv_cache_stats ?s ! nat rank
                - need ?s (prefill_len x) (output_len x)])
              ((seq_ranks ?s)(req_id x \<mapsto> nat rank))
              ((seq_max_len ?s)(req_id x \<mapsto> (prefill_len x, output_len x))) ?s"
    have r: "nat rank < dp_size ?s" and s': "s' = t\<lparr>cur_rank := c\<rparr>"
      using d False by (auto simp: t_def ledger_set_def)
    have "ledger_inv cap t"
      unfolding t_def by (rule ledger_inv_add [OF assms(1,2) r pos])
    then have "ledger_inv cap s'" using ledger_inv_cursor ok' unfolding s' by blast
    moreover have "seq_ranks s' = (seq_ranks ?s)(req_id x \<mapsto> nat rank)" "dp_size s' = dp_size ?s"
      by (simp_all add: s' t_def)
    ultimately show ?thesis using False run ts r by auto
  qed
qed

lemma try_submit_inv:
  assumes "ledger_inv cap (sched t)" and "fresh_ids (seq_ranks (sched t)) (x # waiting_queue t @ ys)"
  shows "ledger_inv cap (sched (try_submit x t)) \<and>
    fresh_ids (seq_ranks (sched (try_submit x t))) (pending (try_submit x t) @ ys)"
proof -
  have nd: "req_id x \<notin> dom (seq_ranks (sched t))" and io: "item_ok x"
    using fresh_ids_hd [OF assms(2)] by auto
  obtain rank s' where li: "ledger_inv cap s'" and
    d: "if rank < 0 then seq_ranks s' = seq_ranks (sched t) \<and>
         try_submit x t = t\<lparr>sched := s', phase := Blocked x\<rparr>
     else nat rank < dp_size s' \<and> seq_ranks s' = (seq_ranks (sched t))(req_id x \<mapsto> nat rank) \<and>
         try_submit x t = t\<lparr>sched := s', submitted := submitted t @ [(x, rank)],
            phase := (if end_event t then Finished else Waiting)\<rparr>"
    using try_submit_cases [OF assms(1) nd io] by blast
  show ?thesis
  proof (cases "rank < 0")
    case True
    then show ?thesis using d li assms(2) by (simp add: pending_def)
  next
    case False
    then have "pending (try_submit x t) = waiting_queue t" "sched (try_submit x t) = s'"
        "seq_ranks s' = (seq_ranks (sched t))(req_id x \<mapsto> nat rank)"
      using d by (simp_all add: pending_def)
    then show ?thesis using li fresh_ids_take [OF assms(2)] by simp
  qed
qed

lemma loop_step_inv:
  assumes "loop_step e st = Some st'" and "ledger_inv cap (sched st)" and "fresh st (e # es)"
  shows "ledger_inv cap (sched st') \<and> fresh st' es"
proof (cases e)
  case (EPut x)
  then show ?thesis using assms by (auto simp: fresh_def pending_def)
next
  case (EDel q)
  then obtain s' where d: "del_seq q (sched st) = Inr s'"
    and st': "st' = st\<lparr>sched := s', sch_event := True\<rparr>"
    using assms(1) by (auto split: sum.splits)
  then show ?thesis
    using del_seq_Inr [OF assms(2) d] assms(3) EDel
    by (auto simp: fresh_def pending_def intro: fresh_ids_del)
next
  case ETerminate
  then show ?thesis using assms by (auto simp: fresh_def pending_def)
next
  case EGet
  then obtain x q where "phase st = Waiting" "waiting_queue st = x # q"
      "st' = st\<lparr>waiting_queue := q, phase := Got x\<rparr>"
    using assms(1) by (auto split: loop_phase.splits list.splits)
  then show ?thesis using assms EGet by (simp add: fresh_def pending_def)
next
  case EResume
  note sp = assms(1) [unfolded EResume]
  show ?thesis
  proof (cases "phase st")
    case (Got x)
    then show ?thesis using sp assms(2,3) EResume fresh_ids_tl
      by (auto simp: fresh_def pending_def split: if_splits)
  next
    case (Taken x)
    then have "st' = try_submit x st" using sp by simp
    then show ?thesis using try_submit_inv [OF assms(2)] Taken EResume assms(3)
      by (simp add: fresh_def pending_def)
  next
    case (Blocked x)
    then have "st' = try_submit x (st\<lparr>sch_event := False\<rparr>)" using sp by (simp split: if_splits)
    then show ?thesis using try_submit_inv [of cap "st\<lparr>sch_event := False\<rparr>" x "puts es"]
        Blocked EResume assms(2,3)
      by (simp add: fresh_def pending_def)
  qed (use sp assms EResume in \<open>auto simp: fresh_def pending_def split: if_splits\<close>)
qed

lemma loop_run_inv:
  "loop_run es st = Some st' \<Longrightarrow> ledger_inv cap (sched st) \<Longrightarrow> fresh st es \<Longrightarrow>
     ledger_inv cap (sched st')"
proof (induction es arbitrary: st)
  case (Cons e es)
  then obtain st1 where "loop_step e st = Some st1" "loop_run es st1 = Some st'"
    by (auto split: option.splits)
  then show ?case using Cons.IH loop_step_inv Cons.prems(2,3) by blast
qed simp


lemma try_submit_phase:
  assumes "ledger_inv cap (sched t)" and "fresh_ids (seq_ranks (sched t)) (x # ys)"
  shows "phase (try_submit x t) \<in> {Blocked x, Finished, Waiting}"
proof -
  have "req_id x \<notin> dom (seq_ranks (sched t))" "item_ok x"
    using fresh_ids_hd [OF assms(2)] by auto
  from try_submit_cases [OF assms(1) this] show ?thesis by (auto split: if_splits)
qed

lemma loop_step_no_crash:
  assumes "loop_step e st = Some st'" and "ledger_inv cap (sched st)" and "fresh st (e # es)"
    and "\<forall>err. phase st \<noteq> Crashed err"
  shows "\<forall>err. phase st' \<noteq> Crashed err"
proof (cases e)
  case EResume
  note sp = assms(1) [unfolded EResume]
  show ?thesis
  proof (cases "phase st")
    case (Taken x)
    then show ?thesis using sp try_submit_phase [OF assms(2), of x] assms(3)
      by (fastforce simp: fresh_def pending_def)
  next
    case (Blocked x)
    then have "st' = try_submit x (st\<lparr>sch_event := False\<rparr>)" using sp by (simp split: if_splits)
    then show ?thesis using try_submit_phase [of cap "st\<lparr>sch_event := False\<rparr>" x] Blocked assms(2,3)
      by (fastforce simp: fresh_def pending_def)
  qed (use sp assms EResume in \<open>auto split: if_splits\<close>)
qed (use assms in \<open>auto split: sum.splits loop_phase.splits list.splits\<close>)

lemma loop_run_no_crash:
  "loop_run es st = Some st' \<Longrightarrow> ledger_inv cap (sched st) \<Longrightarrow> fresh st es \<Longrightarrow>
     \<forall>err. phase st \<noteq> Crashed err \<Longrightarrow> \<forall>err. phase st' \<noteq> Crashed err"
proof (induction es arbitrary: st)
  case (Cons e es)
  then obtain st1 where st1: "loop_step e st = Some st1" "loop_run es st1 = Some st'"
    by (auto split: option.splits)
  note i = loop_step_inv [OF st1(1) Cons.prems(2,3)]
  note c = loop_step_no_crash [OF st1(1) Cons.prems(2,3,4)]
  from i c show ?case using Cons.IH [OF st1(2)] by blast
qed simp

text \<open>
  What the capacity policies add: free blocks never go below zero, and whenever the loop
  sleeps on \<open>sch_event\<close> no rank has room for the request it holds.
\<close>

definition no_room :: "dp_sched \<Rightarrow> request_item \<Rightarrow> bool" where
  "no_room s x \<longleftrightarrow>
     (\<forall>b \<in> set (kv_cache_stats s). b < need s (prefill_len x) (output_len x) \<or> b \<le> 0)"

definition cap_inv :: "dp_loop \<Rightarrow> bool" where
  "cap_inv st \<longleftrightarrow> cap_ok (sched st) \<and> (\<forall>b \<in> set (kv_cache_stats (sched st)). 0 \<le> b) \<and>
     (\<forall>x. phase st = Blocked x \<longrightarrow> \<not> sch_event st \<longrightarrow> no_room (sched st) x)"

lemma try_submit_cap:
  assumes "ledger_inv cap (sched t)" and "fresh_ids (seq_ranks (sched t)) (x # ys)"
    and "cap_ok (sched t)" and "\<forall>b \<in> set (kv_cache_stats (sched t)). 0 \<le> b"
  shows "cap_inv (try_submit x t)"
proof -
  have nd: "req_id x \<notin> dom (seq_ranks (sched t))" and io: "item_ok x"
    using fresh_ids_hd [OF assms(2)] by auto
  have pos: "0 \<le> prefill_len x" "0 \<le> output_len x" using io by (auto simp: item_ok_def)
  obtain rank s' where
    run: "schedule_one pick_rank (req_id x) (prefill_len x) (output_len x) (sched t) = Inr (rank, s')"
    and d: "if rank < 0 then seq_ranks s' = seq_ranks (sched t) \<and>
         try_submit x t = t\<lparr>sched := s', phase := Blocked x\<rparr>
     else nat rank < dp_size s' \<and> seq_ranks s' = (seq_ranks (sched t))(req_id x \<mapsto> nat rank) \<and>
         try_submit x t = t\<lparr>sched := s', submitted := submitted t @ [(x, rank)],
            phase := (if end_event t then Finished else Waiting)\<rparr>"
    using try_submit_cases [OF assms(1) nd io] by blast
  have ok': "cap_ok s'" using capp.schedule_one_cases [OF assms(3) pos, of "req_id x"] run by auto
  have nn: "\<forall>b \<in> set (kv_cache_stats s'). 0 \<le> b"
    by (rule capp.schedule_one_keeps_nonneg [OF assms(3) pos assms(4) run])
  show ?thesis
  proof (cases "rank < 0")
    case True
    then have "no_room s' x"
      using capp.schedule_one_refused [OF assms(3) pos run] by (simp add: no_room_def)
    then show ?thesis using d True ok' nn by (simp add: cap_inv_def)
  next
    case False
    then show ?thesis using d ok' nn by (simp add: cap_inv_def)
  qed
qed

lemma loop_step_cap:
  assumes "loop_step e st = Some st'" and "ledger_inv cap (sched st)" and "fresh st (e # es)"
    and "cap_inv st"
  shows "cap_inv st'"
proof (cases e)
  case (EDel q)
  then obtain s' where d: "del_seq q (sched st) = Inr s'"
    and st': "st' = st\<lparr>sched := s', sch_event := True\<rparr>"
    using assms(1) by (auto split: sum.splits)
  obtain r where r: "seq_ranks (sched st) q = Some r"
    and s': "s' = ledger_set
      ((kv_cache_stats (sched st))[r := kv_cache_stats (sched st) ! r + seq_need (sched st) q])
      ((seq_ranks (sched st))(q := None)) ((seq_max_len (sched st))(q := None)) (sched st)"
    using del_seq_Inr [OF assms(2) d] by blast
  let ?l = "kv_cache_stats (sched st)"
  have "r < length ?l" using r assms(2) by (auto simp: ledger_inv_def seqs_ok_def dp_ok_def)
  then have "0 \<le> ?l ! r" using assms(4) by (simp add: cap_inv_def)
  moreover have "set (?l[r := ?l ! r + seq_need (sched st) q])
      \<subseteq> insert (?l ! r + seq_need (sched st) q) (set ?l)"
    by (rule set_update_subset_insert)
  ultimately have "\<forall>b \<in> set (kv_cache_stats s'). 0 \<le> b"
    using assms(4) seq_need_nonneg [OF assms(2), of q] by (auto simp: s' cap_inv_def)
  moreover have "cap_ok s'"
    using assms(4) dp_ok_ledger by (auto simp: s' cap_inv_def cap_ok_def)
  ultimately show ?thesis by (simp add: st' cap_inv_def)
next
  case EGet
  then show ?thesis using assms(1,4)
    by (auto simp: cap_inv_def split: loop_phase.splits list.splits)
next
  case EResume
  note sp = assms(1) [unfolded EResume]
  show ?thesis
  proof (cases "phase st")
    case (Taken x)
    then show ?thesis using sp try_submit_cap [OF assms(2), of x] assms(3,4) EResume
      by (fastforce simp: fresh_def pending_def cap_inv_def)
  next
    case (Blocked x)
    then have "st' = try_submit x (st\<lparr>sch_event := False\<rparr>)" using sp by (simp split: if_splits)
    then show ?thesis using try_submit_cap [of cap "st\<lparr>sch_event := False\<rparr>" x] Blocked assms(2,3,4)
        EResume
      by (fastforce simp: fresh_def pending_def cap_inv_def)
  qed (use sp assms EResume in \<open>auto simp: cap_inv_def split: if_splits\<close>)
qed (use assms in \<open>auto simp: cap_inv_def\<close>)

lemma loop_run_cap:
  "loop_run es st = Some st' \<Longrightarrow> ledger_inv cap (sched st) \<Longrightarrow> fresh st es \<Longrightarrow> cap_inv st \<Longrightarrow>
     cap_inv st'"
proof (induction es arbitrary: st)
  case (Cons e es)
  then obtain st1 where st1: "loop_step e st = Some st1" "loop_run es st1 = Some st'"
    by (auto split: option.splits)
  note i = loop_step_inv [OF st1(1) Cons.prems(2,3)]
  note c = loop_step_cap [OF st1(1) Cons.prems(2,3,4)]
  from i c show ?case using Cons.IH [OF st1(2)] by blast
qed simp


section \<open>Order of submission and wake-ups\<close>

fun live :: "loop_phase \<Rightarrow> bool" where
  "live Finished = False"
| "live (Crashed _) = False"
| "live _ = True"

definition trace_of :: "dp_loop \<Rightarrow> request_item list \<Rightarrow> request_item list" where
  "trace_of st lost = map fst (submitted st) @ lost @ pending st"

lemma try_submit_trace:
  "\<exists>lost'. length lost' \<le> 1 \<and> (live (phase (try_submit x st)) \<longrightarrow> lost' = []) \<and>
     trace_of (try_submit x st) lost' = map fst (submitted st) @ x # waiting_queue st"
proof (cases "schedule [req_id x] [prefill_len x] [output_len x] (sched st)")
  case (Inl e)
  then show ?thesis
    by (intro exI [of _ "[x]"]) (simp add: try_submit_def trace_of_def pending_def)
next
  case (Inr rs)
  then obtain ranks s' where rs: "rs = (ranks, s')" by (cases rs)
  show ?thesis
    using Inr rs
    by (intro exI [of _ "[]"]) (simp add: try_submit_def trace_of_def pending_def Let_def)
qed

lemma loop_step_trace:
  assumes "loop_step e st = Some st'" and "length lost \<le> 1" and "live (phase st) \<longrightarrow> lost = []"
  shows "\<exists>lost'. length lost' \<le> 1 \<and> (live (phase st') \<longrightarrow> lost' = []) \<and>
     trace_of st' lost' = trace_of st lost @ puts [e]"
proof (cases e)
  case EResume
  note sp = assms(1) [unfolded EResume]
  show ?thesis
  proof (cases "phase st")
    case Waiting
    then show ?thesis using sp assms EResume
      by (intro exI [of _ "[]"]) (auto simp: trace_of_def pending_def split: if_splits)
  next
    case (Got x)
    then show ?thesis using sp assms EResume
      by (intro exI [of _ "if end_event st then [x] else []"])
        (auto simp: trace_of_def pending_def split: if_splits)
  next
    case (Taken x)
    then show ?thesis using sp assms(3) EResume try_submit_trace [of x st]
      by (simp add: trace_of_def pending_def)
  next
    case (Blocked x)
    then have "st' = try_submit x (st\<lparr>sch_event := False\<rparr>)" using sp by (simp split: if_splits)
    then show ?thesis
      using Blocked assms(3) EResume try_submit_trace [of x "st\<lparr>sch_event := False\<rparr>"]
      by (simp add: trace_of_def pending_def)
  qed (use sp in simp_all)
next
  case EGet
  then show ?thesis using assms
    by (intro exI [of _ "[]"])
      (auto simp: trace_of_def pending_def split: loop_phase.splits list.splits)
next
  case (EPut x)
  then show ?thesis using assms
    by (intro exI [of _ lost]) (auto simp: trace_of_def pending_def)
next
  case (EDel q)
  then show ?thesis using assms
    by (intro exI [of _ lost]) (auto simp: trace_of_def pending_def split: sum.splits)
next
  case ETerminate
  then show ?thesis using assms
    by (intro exI [of _ lost]) (auto simp: trace_of_def pending_def)
qed

lemma puts_Cons: "puts (e # es) = puts [e] @ puts es"
  by (cases e) simp_all

lemma loop_run_trace:
  "loop_run es st = Some st' \<Longrightarrow> length lost \<le> 1 \<Longrightarrow> live (phase st) \<longrightarrow> lost = [] \<Longrightarrow>
     \<exists>lost'. length lost' \<le> 1 \<and> (live (phase st') \<longrightarrow> lost' = []) \<and>
       trace_of st' lost' = trace_of st lost @ puts es"
proof (induction es arbitrary: st lost)
  case (Cons e es)
  then obtain st1 where st1: "loop_step e st = Some st1" "loop_run es st1 = Some st'"
    by (auto split: option.splits)
  obtain l1 where l1: "length l1 \<le> 1" "live (phase st1) \<longrightarrow> l1 = []"
      "trace_of st1 l1 = trace_of st lost @ puts [e]"
    using loop_step_trace [OF st1(1) Cons.prems(2,3)] by blast
  then show ?case using Cons.IH [OF st1(2) l1(1,2)] puts_Cons [of e es] by auto
qed auto

text \<open>
  While the loop is blocked and nothing is deleted it stays blocked: in particular
  \<open>terminate\<close>, which sets \<open>end_event\<close> only, does not wake it.
\<close>

lemma blocked_stays:
  assumes "loop_run es st = Some st'" and "phase st = Blocked x" and "\<not> sch_event st"
    and "\<forall>q. EDel q \<notin> set es"
  shows "phase st' = Blocked x \<and> sched st' = sched st"
  using assms
proof (induction es arbitrary: st)
  case (Cons e es)
  then obtain st1 where st1: "loop_step e st = Some st1" "loop_run es st1 = Some st'"
    by (auto split: option.splits)
  have "phase st1 = Blocked x \<and> sched st1 = sched st \<and> \<not> sch_event st1"
    using st1(1) Cons.prems(2-4) by (cases e) auto
  then show ?case using Cons.IH [OF st1(2)] Cons.prems(4) by simp
qed simp

text \<open>The initial state of a run.\<close>

lemma loop_start_state:
  assumes "loop_start stats s = Inr st"
  shows "waiting_queue st = [] \<and> \<not> sch_event st \<and> \<not> end_event st \<and> phase st = Waiting \<and>
    submitted st = [] \<and> seq_ranks (sched st) = seq_ranks s \<and>
    seq_max_len (sched st) = seq_max_len s \<and> dp_size (sched st) = dp_size s \<and>
    (dp_ok s \<longrightarrow> dp_ok (sched st)) \<and> (cap_ok s \<longrightarrow> cap_ok (sched st))"
proof -
  obtain l where l: "foldR (\<lambda>(rank, num_blocks) l. py_set l rank num_blocks) stats (kv_cache_stats s)
      = Inr l"
    and st: "st = \<lparr>sched = s\<lparr>kv_cache_stats := l\<rparr>, waiting_queue = [], sch_event = False,
      end_event = False, phase = Waiting, submitted = []\<rparr>"
    using assms by (auto simp: loop_start_def init_kv_cache_stats_def res)
  have "length l = length (kv_cache_stats s)"
    by (rule foldR_invariant [OF l, where I = "\<lambda>x. length x = length (kv_cache_stats s)"])
      (auto simp: py_set_length)
  then show ?thesis by (simp add: st dp_ok_def cap_ok_def)
qed

lemma loop_start_inv:
  assumes "loop_start stats s = Inr st" and "dp_ok s"
    and "seq_ranks s = Map.empty" and "seq_max_len s = Map.empty"
    and "distinct (map req_id (puts es))" and "\<forall>x \<in> set (puts es). item_ok x"
  shows "ledger_inv (kv_cache_stats (sched st)) (sched st) \<and> fresh st es"
  using loop_start_state [OF assms(1)] assms(2-)
  by (auto simp: ledger_inv_def dp_ok_def seqs_ok_def charged_def fresh_def fresh_ids_def
      pending_def)


section \<open>Properties\<close>

definition demo_item :: "nat \<Rightarrow> int \<Rightarrow> int \<Rightarrow> request_item" where
  "demo_item q p out = \<lparr>req_id = q, seq_len = p + out, prefill_len = p, output_len = out\<rparr>"

definition demo_loop :: "policy \<Rightarrow> dp_loop" where
  "demo_loop pol =
     \<lparr>sched = (dp_init 2 16 pol [])\<lparr>kv_cache_stats := [3, 2]\<rparr>, waiting_queue = [],
      sch_event = False, end_event = False, phase = Waiting, submitted = []\<rparr>"

definition demo_events :: "loop_event list" where
  "demo_events =
     [EPut (demo_item 7 20 10), EPut (demo_item 8 16 16), EPut (demo_item 9 1 1), EGet, EResume,
      EResume, EGet, EResume, EResume, EGet, EResume, EResume]"

lemma demo_start: "loop_start [(0, 3), (1, 2)] (dp_init 2 16 pol []) = Inr (demo_loop pol)"
  by (simp add: loop_start_def init_kv_cache_stats_def dp_init_def demo_loop_def py_set_def
      py_pos_def Let_def numeral_2_eq_2)

lemma demo_init_ok:
  "dp_ok (dp_init 2 16 PCapRR [])" "cap_ok (dp_init 2 16 PCapRR [])"
  "seq_ranks (dp_init 2 16 PCapRR []) = Map.empty"
  "seq_max_len (dp_init 2 16 PCapRR []) = Map.empty"
  by (simp_all add: dp_ok_def cap_ok_def dp_init_def)

lemma demo_puts:
  "distinct (map req_id (puts demo_events))" "\<forall>x \<in> set (puts demo_events). item_ok x"
  by (simp_all add: demo_events_def demo_item_def item_ok_def)

lemma demo_run:
  "loop_run demo_events (demo_loop PCapRR) = Some
     \<lparr>sched = (dp_init 2 16 PCapRR [])\<lparr>kv_cache_stats := [0, 0], cur_rank := 0,
        seq_ranks := [7 \<mapsto> 0, 8 \<mapsto> 1], seq_max_len := [7 \<mapsto> (20, 10), 8 \<mapsto> (16, 16)]\<rparr>,
      waiting_queue = [], sch_event = False, end_event = False, phase = Blocked (demo_item 9 1 1),
      submitted = [(demo_item 7 20 10, 0), (demo_item 8 16 16, 1)]\<rparr>"
  by (simp add: demo_events_def demo_loop_def dp_init_def demo_item_def try_submit_def schedule_def
      schedule_one_def pick_rank_def schedule_cap_rr_def required_blocks_def next_rank_def
      add_seq_def py_get_def py_set_def py_pos_def Let_def numeral_2_eq_2)


text \<open>
  C1: blocks are conserved. From \<open>start\<close> on, through any sequence of requests put, requests
  scheduled, sequences deleted and a termination, the free blocks of every rank and the
  blocks charged to the sequences running on it add up to what \<open>start\<close> was given, and the
  loop never dies of an exception (request ids are fresh, lengths are not negative).
\<close>

theorem dp_ledger_conserved:
  assumes "loop_start stats s = Inr st" and "dp_ok s"
    and "seq_ranks s = Map.empty" and "seq_max_len s = Map.empty"
    and "distinct (map req_id (puts es))" and "\<forall>x \<in> set (puts es). item_ok x"
    and "loop_run es st = Some st'"
  shows "(\<forall>r < dp_size s. kv_cache_stats (sched st') ! r + charged (sched st') r
        = kv_cache_stats (sched st) ! r) \<and> (\<forall>e. phase st' \<noteq> Crashed e)"
proof -
  note start = loop_start_inv [OF assms(1-6)]
  note st = loop_start_state [OF assms(1)]
  have "ledger_inv (kv_cache_stats (sched st)) (sched st')"
    using loop_run_inv [OF assms(7)] start by blast
  moreover have "dp_size (sched st') = dp_size s"
    using start calculation st by (simp add: ledger_inv_def)
  ultimately show ?thesis
    using loop_run_no_crash [OF assms(7)] start st by (auto simp: ledger_inv_def)
qed

lemma dp_ledger_conserved_witness:
  "\<exists>st'. loop_run demo_events (demo_loop PCapRR) = Some st' \<and>
     kv_cache_stats (sched st') ! 0 + charged (sched st') 0 = 3 \<and>
     kv_cache_stats (sched st') ! 1 + charged (sched st') 1 = 2"
proof -
  have c: "\<forall>r < 2. kv_cache_stats (sched (the (loop_run demo_events (demo_loop PCapRR)))) ! r
      + charged (sched (the (loop_run demo_events (demo_loop PCapRR)))) r = [3, 2] ! r"
    using dp_ledger_conserved [OF demo_start demo_init_ok(1,3,4) demo_puts demo_run]
    unfolding demo_run by (simp add: demo_loop_def dp_init_def)
  show ?thesis
    using spec [OF c, of 0] spec [OF c, of 1] demo_run by auto
qed

text \<open>
  C2: the capacity policies (\<open>max\<close>, \<open>cap_rr\<close>, \<open>weighted\<close>) never overcommit, and no wake-up
  is lost. In every state of every run the free blocks of every rank are at least 0, and
  whenever the loop is asleep on \<open>sch_event\<close> with a request, no rank has room for that
  request: a deletion that makes room always leaves the event set.
\<close>

theorem dp_no_lost_wakeup:
  assumes "loop_start stats s = Inr st" and "cap_ok s"
    and "seq_ranks s = Map.empty" and "seq_max_len s = Map.empty"
    and "distinct (map req_id (puts es))" and "\<forall>x \<in> set (puts es). item_ok x"
    and "\<forall>b \<in> set (kv_cache_stats (sched st)). 0 \<le> b"
    and "loop_run es st = Some st'"
  shows "(\<forall>b \<in> set (kv_cache_stats (sched st')). 0 \<le> b) \<and>
    (\<forall>x. phase st' = Blocked x \<longrightarrow> \<not> sch_event st' \<longrightarrow>
       (\<forall>b \<in> set (kv_cache_stats (sched st')).
          b < need (sched st') (prefill_len x) (output_len x) \<or> b \<le> 0))"
proof -
  have ok: "dp_ok s" using assms(2) by (simp add: cap_ok_def)
  note start = loop_start_inv [OF assms(1) ok assms(3-6)]
  have "cap_inv st" using loop_start_state [OF assms(1)] assms(2,7) by (simp add: cap_inv_def)
  then have "cap_inv st'" using loop_run_cap [OF assms(8)] start by blast
  then show ?thesis by (simp add: cap_inv_def no_room_def)
qed

lemma dp_no_lost_wakeup_witness:
  "\<exists>st'. loop_run demo_events (demo_loop PCapRR) = Some st' \<and>
     phase st' = Blocked (demo_item 9 1 1) \<and> list_all (\<lambda>b. 0 \<le> b \<and> b < 2) (kv_cache_stats (sched st'))"
proof -
  have nn: "\<forall>b \<in> set (kv_cache_stats (sched (demo_loop PCapRR))). 0 \<le> b"
    by (simp add: demo_loop_def)
  show ?thesis
    using dp_no_lost_wakeup [OF demo_start demo_init_ok(2,3,4) demo_puts nn demo_run] demo_run
    by (simp add: need_def ceil_div_def demo_item_def dp_init_def)
qed

text \<open>
  C22: requests are submitted in the order they were put, each at most once. What has been
  submitted, what the loop holds and what is still queued is, in this order, the list of
  requests put; only a loop that has ended may have dropped one request it had already
  taken.
\<close>

theorem dp_fifo_submission:
  assumes "loop_start stats s = Inr st" and "loop_run es st = Some st'"
  shows "\<exists>lost. length lost \<le> 1 \<and> (live (phase st') \<longrightarrow> lost = []) \<and>
     map fst (submitted st') @ lost @ phase_items (phase st') @ waiting_queue st' = puts es"
proof -
  have "trace_of st [] = []" and "live (phase st)"
    using loop_start_state [OF assms(1)] by (simp_all add: trace_of_def pending_def)
  then show ?thesis
    using loop_run_trace [OF assms(2), of "[]"] by (simp add: trace_of_def pending_def)
qed

lemma dp_fifo_submission_witness:
  "\<exists>st'. loop_run demo_events (demo_loop PCapRR) = Some st' \<and>
     map fst (submitted st') @ [demo_item 9 1 1] = puts demo_events"
  using dp_fifo_submission [OF demo_start demo_run] demo_run by simp

text \<open>
  The capacity-aware round robin. It always answers; it gives the first rank, in cyclic
  order from \<open>cur_rank\<close>, that has room for the request, moves the cursor just past it, and
  refuses only when no rank has room.
\<close>

theorem cap_rr_first_fit:
  assumes "dp_ok s"
  shows "\<exists>rank s'. schedule_cap_rr s p out = Inr (rank, s') \<and>
    ((rank = -1 \<and> (\<forall>x \<in> set (kv_cache_stats s). x < need s p out)) \<or>
     (\<exists>j < dp_size s. rank = int ((cur_rank s + j) mod dp_size s) \<and>
        cur_rank s' = (cur_rank s + Suc j) mod dp_size s \<and>
        need s p out \<le> kv_cache_stats s ! ((cur_rank s + j) mod dp_size s) \<and>
        (\<forall>i < j. kv_cache_stats s ! ((cur_rank s + i) mod dp_size s) < need s p out)))"
  using schedule_cap_rr_spec [OF assms, of p out] unfolding rank_at_def by blast

lemma cap_rr_first_fit_witness:
  "\<exists>rank s'. schedule_cap_rr (sched (demo_loop PCapRR)) 40 1 = Inr (rank, s') \<and> rank = -1"
proof -
  have ok: "dp_ok (sched (demo_loop PCapRR))"
    by (simp add: demo_loop_def dp_ok_def dp_init_def)
  have n: "\<not> need (sched (demo_loop PCapRR)) 40 1 \<le> 3"
    by (simp add: demo_loop_def dp_init_def need_def ceil_div_def)
  have l: "dp_size (sched (demo_loop PCapRR)) = 2" "kv_cache_stats (sched (demo_loop PCapRR)) = [3, 2]"
    by (simp_all add: demo_loop_def dp_init_def)
  have "[3, 2] ! (k mod 2) \<le> (3 :: int)" for k :: nat
    by (cases "k mod 2 = 0") (auto simp: numeral_2_eq_2 mod_Suc)
  then show ?thesis using cap_rr_first_fit [OF ok, of 40 1] n l by (metis order_trans)
qed


section \<open>Two observations\<close>

text \<open>
  \<open>terminate\<close> sets \<open>end_event\<close> and then awaits the loop task, but a loop that is blocked on a
  request waits for \<open>sch_event\<close> only: unless a sequence is deleted, it never ends.
\<close>

lemma terminate_does_not_wake_blocked:
  assumes "phase st = Blocked x" and "\<not> sch_event st"
    and "loop_run (ETerminate # es) st = Some st'" and "\<forall>q. EDel q \<notin> set es"
  shows "phase st' = Blocked x"
  using blocked_stays [OF assms(3) assms(1,2)] assms(4) by simp

text \<open>The plain round robin looks at no capacity: it can drive a ledger entry below zero.\<close>

lemma rr_overcommits:
  "schedule_one pick_rank 7 64 16 (sched (demo_loop PRR)) = Inr (0,
     (sched (demo_loop PRR))\<lparr>kv_cache_stats := [-2, 2], cur_rank := 1,
        seq_ranks := [7 \<mapsto> 0], seq_max_len := [7 \<mapsto> (64, 16)]\<rparr>)"
  by (simp add: demo_loop_def dp_init_def schedule_one_def pick_rank_def schedule_rr_def
      next_rank_def add_seq_def required_blocks_def py_get_def py_set_def py_pos_def Let_def
      numeral_2_eq_2)

end
