(* ===== verification/Dicts.thy ===== *)
theory Dicts
  imports Prelude "HOL-Library.AList"
begin

text \<open>
  Python dictionaries whose iteration order matters: an association list in insertion
  order. \<open>AList.update\<close> is Python's \<open>d[k] = v\<close>: it replaces in place or appends at the end.
  Here are the operations the components share (lookup, lookup with a default, append to a
  list stored under a key) and the lemmas on loops that append to such lists.
\<close>

type_synonym ('k, 'v) dict = "('k \<times> 'v) list"

definition d_get :: "('k, 'v) dict \<Rightarrow> 'k \<Rightarrow> 'v result" where
  "d_get d k = lookupR (map_of d) k"

definition d_get_or :: "('k, 'v) dict \<Rightarrow> 'k \<Rightarrow> 'v \<Rightarrow> 'v" where
  "d_get_or d k x = (case map_of d k of None \<Rightarrow> x | Some v \<Rightarrow> v)"

definition d_has :: "('k, 'v) dict \<Rightarrow> 'k \<Rightarrow> bool" where
  "d_has d k \<longleftrightarrow> k \<in> fst ` set d"

definition d_append :: "'k \<Rightarrow> 'a \<Rightarrow> ('k, 'a list) dict \<Rightarrow> ('k, 'a list) dict result" where
  "d_append k x d = bindR (d_get d k) (\<lambda>l. Inr (AList.update k (l @ [x]) d))"

definition d_extend :: "'k \<Rightarrow> 'a list \<Rightarrow> ('k, 'a list) dict \<Rightarrow> ('k, 'a list) dict result" where
  "d_extend k xs d = bindR (d_get d k) (\<lambda>l. Inr (AList.update k (l @ xs) d))"

lemma d_get_Inr_iff [res]: "d_get d k = Inr v \<longleftrightarrow> map_of d k = Some v"
  by (simp add: d_get_def res)

lemma d_has_iff: "d_has d k \<longleftrightarrow> map_of d k \<noteq> None"
  by (simp add: d_has_def map_of_eq_None_iff)

lemma d_has_dom: "d_has d k \<longleftrightarrow> k \<in> dom (map_of d)"
  by (auto simp: d_has_iff)

lemma d_get_update: "map_of (AList.update k v d) = (map_of d)(k \<mapsto> v)"
  by (rule update_conv')

lemma d_get_or_update:
  "d_get_or (AList.update k v d) k' x = (if k' = k then v else d_get_or d k' x)"
  by (simp add: d_get_or_def d_get_update)

lemma keys_update: "fst ` set (AList.update k v d) = insert k (fst ` set d)"
  by (simp add: dom_update)

lemma update_fresh: "k \<notin> fst ` set d \<Longrightarrow> AList.update k v d = d @ [(k, v)]"
  by (induction d) auto

lemma fold_update_distinct:
  "distinct (map fst (acc @ xs)) \<Longrightarrow> fold (\<lambda>(k, v). AList.update k v) xs acc = acc @ xs"
proof (induction xs arbitrary: acc)
  case (Cons p xs)
  obtain k v where p: "p = (k, v)" by (cases p)
  have "AList.update k v acc = acc @ [(k, v)]" using Cons.prems by (intro update_fresh) (auto simp: p)
  then show ?case using Cons.IH [of "acc @ [(k, v)]"] Cons.prems by (simp add: p)
qed simp

text \<open>What a loop that appends to the lists of a dictionary leaves under each key.\<close>

definition picked :: "'k \<Rightarrow> ('k \<times> 'a) list \<Rightarrow> 'a list" where
  "picked k kxs = map snd (filter (\<lambda>p. fst p = k) kxs)"

lemma picked_simps [simp]:
  "picked k [] = []"
  "picked k (p # ps) = (if fst p = k then snd p # picked k ps else picked k ps)"
  "picked k (ps @ qs) = picked k ps @ picked k qs"
  by (simp_all add: picked_def)

lemma set_picked: "set (picked k kxs) = {x. (k, x) \<in> set kxs}"
  by (force simp: picked_def)

lemma foldR_map: "foldR f (map g xs) = foldR (\<lambda>x. f (g x)) xs"
proof
  show "foldR f (map g xs) s = foldR (\<lambda>x. f (g x)) xs s" for s
    by (induction xs arbitrary: s) (simp_all cong: bindR_cong)
qed

lemma foldR_concat: "foldR f (concat xss) = foldR (\<lambda>xs. foldR f xs) xss"
proof
  show "foldR f (concat xss) s = foldR (\<lambda>xs. foldR f xs) xss s" for s
    by (induction xss arbitrary: s) (simp_all add: foldR_append cong: bindR_cong)
qed

lemma foldR_cong [fundef_cong]:
  "xs = ys \<Longrightarrow> s = t \<Longrightarrow> (\<And>x s. x \<in> set ys \<Longrightarrow> f x s = g x s) \<Longrightarrow> foldR f xs s = foldR g ys t"
proof (induction xs arbitrary: ys s t)
  case (Cons x xs)
  then show ?case by (auto intro!: bindR_cong)
qed simp

lemma d_append_loop:
  assumes "fst ` set kxs \<subseteq> fst ` set d"
  shows "\<exists>d'. foldR (\<lambda>(k, x). d_append k x) kxs d = Inr d' \<and> map fst d' = map fst d \<and>
    (\<forall>k. map_of d' k = map_option (\<lambda>l. l @ picked k kxs) (map_of d k))"
  using assms
proof (induction kxs arbitrary: d)
  case Nil
  then show ?case by (simp add: option.map_ident)
next
  case (Cons p kxs)
  obtain k x where p: "p = (k, x)" by (cases p)
  have kin: "k \<in> fst ` set d" using Cons.prems p by simp
  then obtain l where l: "map_of d k = Some l"
    by (metis map_of_eq_None_iff not_None_eq)
  define d1 where "d1 = AList.update k (l @ [x]) d"
  have ap: "d_append k x d = Inr d1" by (simp add: d_append_def d_get_def l d1_def)
  have keys: "map fst d1 = map fst d" using kin by (simp add: d1_def update_keys)
  then have "fst ` set kxs \<subseteq> fst ` set d1"
    using Cons.prems by (metis image_set image_mono set_subset_Cons subset_trans)
  from Cons.IH [OF this] obtain d' where d': "foldR (\<lambda>(k, x). d_append k x) kxs d1 = Inr d'"
      "map fst d' = map fst d1"
      "\<And>k. map_of d' k = map_option (\<lambda>l. l @ picked k kxs) (map_of d1 k)" by blast
  have m1: "map_of d1 = (map_of d)(k \<mapsto> l @ [x])" unfolding d1_def by (rule d_get_update)
  have "map_of d' q = map_option (\<lambda>l. l @ picked q (p # kxs)) (map_of d q)" for q
    using d'(3) [of q] by (cases "q = k") (simp_all add: m1 l p)
  then show ?case using d'(1,2) ap keys p by simp
qed

lemma map_of_upt_map:
  "map_of (map (\<lambda>i. (i, f i)) [a..<b]) k = (if a \<le> k \<and> k < b then Some (f k) else None)"
proof -
  have "map_of (map (\<lambda>i. (i, f i)) [a..<b]) = (Some \<circ> f) |` set [a..<b]"
    by (rule map_of_map_restrict)
  then show ?thesis by (simp add: restrict_map_def)
qed


lemma d_append_keys: "d_append k x d = Inr d' \<Longrightarrow> k \<in> fst ` set d \<and> map fst d' = map fst d"
proof -
  assume "d_append k x d = Inr d'"
  then obtain l where l: "map_of d k = Some l" and d': "d' = AList.update k (l @ [x]) d"
    by (auto simp: d_append_def res)
  have k: "k \<in> fst ` set d" using l by (metis map_of_eq_None_iff option.distinct(1))
  then show ?thesis by (simp add: d' update_keys)
qed

lemma d_append_loop_keys:
  "foldR (\<lambda>(k, x). d_append k x) kxs d = Inr d' \<Longrightarrow> fst ` set kxs \<subseteq> fst ` set d"
proof (induction kxs arbitrary: d)
  case (Cons p kxs)
  then obtain d1 where d1: "d_append (fst p) (snd p) d = Inr d1"
      "foldR (\<lambda>(k, x). d_append k x) kxs d1 = Inr d'"
    by (cases p) (auto simp: bindR_Inr_iff)
  have "fst ` set d1 = fst ` set d" using d_append_keys [OF d1(1)] by (metis image_set)
  then show ?case using Cons.IH [OF d1(2)] d_append_keys [OF d1(1)] by auto
qed simp

lemma d_append_loop_Inr:
  assumes "foldR (\<lambda>(k, x). d_append k x) kxs d = Inr d'"
  shows "map fst d' = map fst d \<and>
    map_of d' k = map_option (\<lambda>l. l @ picked k kxs) (map_of d k)"
  using d_append_loop [OF d_append_loop_keys [OF assms]] assms by auto

lemma d_append_loop_total:
  "fst ` set kxs \<subseteq> fst ` set d \<Longrightarrow> \<exists>d'. foldR (\<lambda>(k, x). d_append k x) kxs d = Inr d'"
  using d_append_loop by blast

lemma d_append_loop_error:
  "foldR (\<lambda>(k, x). d_append k x) kxs d = Inl e \<Longrightarrow> e = KeyError"
proof (induction kxs arbitrary: d)
  case (Cons p kxs)
  then show ?case by (cases p) (auto simp: bindR_Inl_iff d_append_def d_get_def lookupR_Inl_iff)
qed simp


text \<open>A dictionary of lists with fixed keys and values from a fixed set.\<close>

definition dict_inv :: "'k list \<Rightarrow> 'a set \<Rightarrow> ('k, 'a list) dict \<Rightarrow> bool" where
  "dict_inv ks S d \<longleftrightarrow> map fst d = ks \<and> (\<forall>p \<in> set d. set (snd p) \<subseteq> S)"

lemma set_update_sub: "set (AList.update k v d) \<subseteq> insert (k, v) (set d)"
  by (induction d) auto

lemma d_extend_inv:
  assumes "dict_inv ks S d" and "k \<in> set ks" and "set xs \<subseteq> S"
  shows "\<exists>d'. d_extend k xs d = Inr d' \<and> dict_inv ks S d'"
proof -
  have k: "k \<in> fst ` set d" using assms(1,2) by (auto simp: dict_inv_def)
  then obtain l where l: "map_of d k = Some l" by (metis map_of_eq_None_iff not_None_eq)
  then have "set (l @ xs) \<subseteq> S"
    using assms(1,3) map_of_SomeD [OF l] by (fastforce simp: dict_inv_def)
  then have v: "set (snd p) \<subseteq> S" if "p \<in> set (AList.update k (l @ xs) d)" for p
    using that assms(1) set_update_sub [of k "l @ xs" d] by (fastforce simp: dict_inv_def)
  have "map fst (AList.update k (l @ xs) d) = ks"
    using assms(1,2) by (simp add: dict_inv_def update_keys)
  then have "dict_inv ks S (AList.update k (l @ xs) d)"
    using v by (simp add: dict_inv_def)
  then show ?thesis by (simp add: d_extend_def d_get_def l)
qed

lemma d_append_extend: "d_append k x d = d_extend k [x] d"
  by (simp add: d_append_def d_extend_def)

lemma d_append_inv:
  "dict_inv ks S d \<Longrightarrow> k \<in> set ks \<Longrightarrow> x \<in> S \<Longrightarrow> \<exists>d'. d_append k x d = Inr d' \<and> dict_inv ks S d'"
  by (simp add: d_append_extend d_extend_inv)

lemma dict_inv_init: "dict_inv [a..<b] S (map (\<lambda>i. (i, [])) [a..<b])"
  by (auto simp: dict_inv_def comp_def)

end
