(* ===== verification/Placement.thy ===== *)
theory Placement
  imports Dicts Utils
begin

text \<open>
  The model of \<open>disagmoe/config.py\<close> and \<open>disagmoe/utils/placement.py\<close>: the shape of a model, and
  the four strategies that place its attention layers and its experts on devices. A
  placement maps devices to layers and to (layer, expert) pairs, keeps the edges along
  which hidden states travel, and the ranks under which the runtime addresses an expert.

  Layers, experts and devices are natural numbers; dictionaries keep their insertion
  order, since the edges are added in that order.
\<close>

section \<open>Configurations\<close>

record model_config =
  mc_hidden_size :: nat
  mc_num_layers :: nat
  mc_head_dim :: nat
  mc_num_heads :: nat
  mc_num_kv_heads :: nat
  mc_num_experts :: nat
  mc_intermediate_size :: nat
  mc_dtype :: string
  mc_ep_size :: nat
  mc_tp_size :: nat
  mc_dp_size :: nat
  mc_rank :: nat
  mc_layer_ids :: "nat list option"
  mc_top_k :: nat
  mc_max_seq_len :: nat
  mc_attn_qkv_quant :: "string option"
  mc_moe_linear_quant :: "string option"
  mc_num_shared_experts :: nat
  mc_shared_expert_intermediate_size :: "nat option"

text \<open>The constructor with the defaults of the dataclass.\<close>

definition model_config_new ::
  "nat \<Rightarrow> nat \<Rightarrow> nat \<Rightarrow> nat \<Rightarrow> nat \<Rightarrow> nat \<Rightarrow> nat \<Rightarrow> string \<Rightarrow> model_config" where
  "model_config_new hidden layers hdim heads kv experts im dt =
     \<lparr>mc_hidden_size = hidden, mc_num_layers = layers, mc_head_dim = hdim, mc_num_heads = heads,
      mc_num_kv_heads = kv, mc_num_experts = experts, mc_intermediate_size = im,
      mc_dtype = dt, mc_ep_size = 1, mc_tp_size = 1, mc_dp_size = 1, mc_rank = 0,
      mc_layer_ids = None, mc_top_k = 1, mc_max_seq_len = 4096, mc_attn_qkv_quant = None,
      mc_moe_linear_quant = None, mc_num_shared_experts = 0,
      mc_shared_expert_intermediate_size = None\<rparr>"

definition num_experts_per_rank :: "model_config \<Rightarrow> nat result" where
  "num_experts_per_rank c =
     (if mc_ep_size c = 0 then Inl ZeroDivisionError
      else Inr (mc_num_experts c div mc_ep_size c))"

definition mixtral_config :: model_config where
  "mixtral_config = (model_config_new 4096 32 128 32 8 8 14336 ''bfloat16'')
     \<lparr>mc_ep_size := 8, mc_top_k := 2\<rparr>"

definition duo_expert_mixtral :: model_config where
  "duo_expert_mixtral = (model_config_new 4096 32 128 32 8 2 14336 ''bfloat16'')
     \<lparr>mc_ep_size := 2\<rparr>"

definition qwen3_235b_config :: model_config where
  "qwen3_235b_config = (model_config_new 4096 94 128 64 4 128 1536 ''bfloat16'')\<lparr>mc_top_k := 8\<rparr>"

definition qwen3_30b_config :: model_config where
  "qwen3_30b_config = (model_config_new 2048 48 128 32 4 128 768 ''bfloat16'')\<lparr>mc_top_k := 8\<rparr>"

definition gptoss_120b_config :: model_config where
  "gptoss_120b_config = (model_config_new 2880 36 64 64 8 128 2880 ''bfloat16'')\<lparr>mc_top_k := 4\<rparr>"

definition glm45air_106b_config :: model_config where
  "glm45air_106b_config = (model_config_new 4096 45 128 96 8 128 1408 ''bfloat16'')
     \<lparr>mc_top_k := 8\<rparr>"

definition glm45air_half_config :: model_config where
  "glm45air_half_config = (model_config_new 4096 23 128 96 8 128 1408 ''bfloat16'')
     \<lparr>mc_top_k := 8\<rparr>"

section \<open>A placement and its queries\<close>

record model_placement =
  pl_attn :: "(nat, nat list) dict"
  pl_expert :: "(nat, (nat \<times> nat) list) dict"
  pl_in_device_ids :: "(nat, nat list) dict"
  pl_out_device_ids :: "(nat, nat list) dict"
  pl_device_groups :: "(nat, nat list) dict option"
  pl_expert_ranks :: "(nat \<times> nat, nat) dict option"
  pl_attn_dp_ranks :: "(nat, nat) dict option"
  pl_local_expert_counts :: "(nat, nat) dict option"
  pl_is_hybrid :: bool

definition placement_new ::
  "(nat, nat list) dict \<Rightarrow> (nat, (nat \<times> nat) list) dict \<Rightarrow> (nat, nat list) dict option \<Rightarrow>
   model_placement" where
  "placement_new attn expert groups =
     \<lparr>pl_attn = attn, pl_expert = expert, pl_in_device_ids = [], pl_out_device_ids = [],
      pl_device_groups = groups, pl_expert_ranks = None, pl_attn_dp_ranks = None,
      pl_local_expert_counts = None, pl_is_hybrid = False\<rparr>"

definition expert_rank_at :: "model_placement \<Rightarrow> nat \<Rightarrow> nat result" where
  "expert_rank_at p device_id =
     bindR (assertR (d_has (pl_expert p) device_id)) (\<lambda>_.
     bindR (not_None AssertionError (pl_expert_ranks p)) (\<lambda>rks.
     bindR (d_get (pl_expert p) device_id) (\<lambda>ids.
     bindR (mapR (\<lambda>le. d_get rks le) ids) (\<lambda>ranks.
     bindR (assertR (card (set ranks) = 1)) (\<lambda>_. Inr (ranks ! 0))))))"

fun first_index :: "nat \<Rightarrow> 'a \<Rightarrow> 'a list \<Rightarrow> nat option" where
  "first_index i x [] = None"
| "first_index i x (y # ys) = (if y = x then Some i else first_index (Suc i) x ys)"

definition attn_rank_at :: "model_placement \<Rightarrow> nat \<Rightarrow> nat result" where
  "attn_rank_at p device_id =
     bindR (assertR (d_has (pl_attn p) device_id)) (\<lambda>_.
     bindR (not_None TypeError (pl_device_groups p)) (\<lambda>groups.
     bindR (d_get groups device_id) (\<lambda>members.
       Inr (case first_index 0 device_id members of Some i \<Rightarrow> i | None \<Rightarrow> 0))))"

definition placement_rank_at :: "model_placement \<Rightarrow> nat \<Rightarrow> nat result" where
  "placement_rank_at p device_id =
     (if d_has (pl_expert p) device_id then expert_rank_at p device_id
      else attn_rank_at p device_id)"

fun out_ranks_of ::
  "model_placement \<Rightarrow> nat list \<Rightarrow> (nat \<times> nat \<times> nat) list result" where
  "out_ranks_of p [] = Inr []"
| "out_ranks_of p (dev_out # devs) =
     bindR (case map_of (pl_expert p) dev_out of
              None \<Rightarrow> Inr []
            | Some les \<Rightarrow>
                mapR (\<lambda>(l, e). bindR (not_None TypeError (pl_expert_ranks p)) (\<lambda>rks.
                        bindR (d_get rks (l, e)) (\<lambda>r. Inr (l, e, r)))) les) (\<lambda>xs.
     bindR (out_ranks_of p devs) (\<lambda>ys. Inr (xs @ ys)))"

definition out_expert_ranks_at :: "model_placement \<Rightarrow> nat \<Rightarrow> (nat \<times> nat \<times> nat) list result" where
  "out_expert_ranks_at p device_id =
     (case map_of (pl_out_device_ids p) device_id of
        None \<Rightarrow> Inr [] | Some devs \<Rightarrow> out_ranks_of p devs)"

definition attn_layer_ids_at :: "model_placement \<Rightarrow> nat \<Rightarrow> nat list" where
  "attn_layer_ids_at p device_id = d_get_or (pl_attn p) device_id []"

definition expert_ids_at :: "model_placement \<Rightarrow> nat \<Rightarrow> (nat \<times> nat) list" where
  "expert_ids_at p device_id = d_get_or (pl_expert p) device_id []"

definition unique_expert_ids_at :: "model_placement \<Rightarrow> nat \<Rightarrow> nat list" where
  "unique_expert_ids_at p device_id =
     sorted_list_of_set (snd ` set (d_get_or (pl_expert p) device_id []))"

definition local_num_experts_at :: "model_placement \<Rightarrow> nat \<Rightarrow> nat" where
  "local_num_experts_at p device_id =
     (case pl_local_expert_counts p of
        Some counts \<Rightarrow> (case map_of counts device_id of
            Some n \<Rightarrow> n | None \<Rightarrow> length (unique_expert_ids_at p device_id))
      | None \<Rightarrow> length (unique_expert_ids_at p device_id))"

definition attn_dp_rank_at :: "model_placement \<Rightarrow> nat \<Rightarrow> nat result" where
  "attn_dp_rank_at p device_id =
     bindR (not_None TypeError (pl_attn_dp_ranks p)) (\<lambda>rks. Inr (d_get_or rks device_id 0))"

definition layer_ids_at :: "model_placement \<Rightarrow> nat \<Rightarrow> nat list" where
  "layer_ids_at p device_id =
     sorted_list_of_set (set (d_get_or (pl_attn p) device_id [] @
        map fst (d_get_or (pl_expert p) device_id [])))"

definition add_edge :: "nat \<Rightarrow> nat \<Rightarrow> model_placement \<Rightarrow> model_placement" where
  "add_edge src dst p =
     (let p = (if d_has (pl_in_device_ids p) dst then p
               else p\<lparr>pl_in_device_ids := AList.update dst [] (pl_in_device_ids p)\<rparr>);
          p = (if d_has (pl_out_device_ids p) src then p
               else p\<lparr>pl_out_device_ids := AList.update src [] (pl_out_device_ids p)\<rparr>);
          ins = d_get_or (pl_in_device_ids p) dst [];
          outs = d_get_or (pl_out_device_ids p) src []
      in if src \<in> set ins then p
         else p\<lparr>pl_in_device_ids := AList.update dst (ins @ [src]) (pl_in_device_ids p),
                pl_out_device_ids := AList.update src (outs @ [dst]) (pl_out_device_ids p)\<rparr>)"

definition is_worker_device :: "model_placement \<Rightarrow> nat \<Rightarrow> bool result" where
  "is_worker_device p device_id =
     bindR (not_None TypeError (pl_device_groups p)) (\<lambda>groups.
       case map_of groups device_id of
         None \<Rightarrow> Inr False
       | Some members \<Rightarrow> bindR (py_get members 0) (\<lambda>d. Inr (d \<noteq> device_id)))"

definition has_attn :: "model_placement \<Rightarrow> nat \<Rightarrow> bool" where
  "has_attn p device_id = d_has (pl_attn p) device_id"

definition in_device_ids_at :: "model_placement \<Rightarrow> nat \<Rightarrow> nat list" where
  "in_device_ids_at p device_id = d_get_or (pl_in_device_ids p) device_id []"


section \<open>What the strategies share\<close>

text \<open>
  \<open>_add_edges\<close>: for each layer the devices that hold its attention and its experts (with
  repetitions: a device stands once per expert it holds), then the edges from the experts
  of one layer to the attention of the next, from attention to experts, and from the last
  layer's experts back to the first attention.
\<close>

definition collect_devs ::
  "nat \<Rightarrow> (nat \<times> nat) list \<Rightarrow> (nat, nat list) dict result" where
  "collect_devs n layer_devs =
     foldR (\<lambda>(layer, dev). d_append layer dev) layer_devs (map (\<lambda>l. (l, [])) [0..<n])"

definition attn_layer_devs :: "model_placement \<Rightarrow> (nat \<times> nat) list" where
  "attn_layer_devs p = concat (map (\<lambda>(dev, layers). map (\<lambda>l. (l, dev)) layers) (pl_attn p))"

definition expert_layer_devs :: "model_placement \<Rightarrow> (nat \<times> nat) list" where
  "expert_layer_devs p =
     concat (map (\<lambda>(dev, les). map (\<lambda>(l, e). (l, dev)) les) (pl_expert p))"

definition pairs_of :: "nat list \<Rightarrow> nat list \<Rightarrow> (nat \<times> nat) list" where
  "pairs_of xs ys = concat (map (\<lambda>x. map (\<lambda>y. (x, y)) ys) xs)"

definition add_edges_of_layer ::
  "(nat, nat list) dict \<Rightarrow> (nat, nat list) dict \<Rightarrow> nat \<Rightarrow> model_placement \<Rightarrow>
   model_placement result" where
  "add_edges_of_layer attn_devs exp_devs layer p =
     bindR (d_get attn_devs layer) (\<lambda>attns.
     bindR (if layer > 0 then
              bindR (d_get exp_devs (layer - 1)) (\<lambda>prev.
                Inr (fold (\<lambda>(dev, prev_dev). add_edge prev_dev dev) (pairs_of attns prev) p))
            else Inr p) (\<lambda>p.
     bindR (d_get exp_devs layer) (\<lambda>exps.
       Inr (fold (\<lambda>(dev, exp_dev). add_edge dev exp_dev) (pairs_of attns exps) p))))"

definition add_edges :: "nat \<Rightarrow> model_placement \<Rightarrow> model_placement result" where
  "add_edges num_layers p =
     bindR (collect_devs num_layers (attn_layer_devs p)) (\<lambda>attn_devs.
     bindR (collect_devs num_layers (expert_layer_devs p)) (\<lambda>exp_devs.
     bindR (foldR (add_edges_of_layer attn_devs exp_devs) [0..<num_layers] p) (\<lambda>p.
     bindR (d_get attn_devs 0) (\<lambda>attns.
     bindR (if attns = [] then Inr [] else d_get exp_devs (num_layers - 1)) (\<lambda>prev.
       Inr (fold (\<lambda>(dev, prev_dev). add_edge prev_dev dev) (pairs_of attns prev) p))))))"

text \<open>
  \<open>_update_expert_rank\<close>, the same in every strategy: with an explicit allocation the rank of
  an expert is its device, otherwise it is the expert's block of \<open>num_experts_per_rank\<close>.
\<close>

definition update_expert_rank ::
  "model_config \<Rightarrow> int list option \<Rightarrow> model_placement \<Rightarrow> model_placement result" where
  "update_expert_rank c alloc p =
     (case alloc of
        Some _ \<Rightarrow>
          Inr (p\<lparr>pl_expert_ranks := Some
            (fold (\<lambda>(dev, les) m. fold (\<lambda>le. AList.update le dev) les m) (pl_expert p) [])\<rparr>)
      | None \<Rightarrow>
          if mc_num_layers c = 0 \<or> mc_num_experts c = 0 then Inr (p\<lparr>pl_expert_ranks := Some []\<rparr>)
          else bindR (num_experts_per_rank c) (\<lambda>n.
            if n = 0 then Inl ZeroDivisionError
            else Inr (p\<lparr>pl_expert_ranks := Some
              (map (\<lambda>(l, e). ((l, e), e div n))
                 (pairs_of [0..<mc_num_layers c] [0..<mc_num_experts c]))\<rparr>)))"

section \<open>The strategies\<close>

text \<open>Devices are numbered by a \<open>Counter\<close>.\<close>

definition next_dev :: "counter \<Rightarrow> nat \<times> counter" where
  "next_dev c = (let (i, c') = counter_next c in (nat i, c'))"

fun next_devs :: "nat \<Rightarrow> counter \<Rightarrow> nat list \<times> counter" where
  "next_devs 0 c = ([], c)"
| "next_devs (Suc n) c =
     (let (d, c1) = next_dev c; (ds, c2) = next_devs n c1 in (d # ds, c2))"

text \<open>\<open>SinglePlacement\<close>: one device per attention replica and per expert.\<close>

definition single_layer ::
  "nat \<Rightarrow> nat \<Rightarrow> nat \<Rightarrow>
   (nat, nat list) dict \<times> (nat, (nat \<times> nat) list) dict \<times> counter \<Rightarrow>
   (nat, nat list) dict \<times> (nat, (nat \<times> nat) list) dict \<times> counter" where
  "single_layer rep_attn n_expert i = (\<lambda>(attn, expert, node_id).
     let (attns, node_id) = next_devs rep_attn node_id;
         attn = fold (\<lambda>d. AList.update d [i]) attns attn;
         (exps, node_id) = next_devs n_expert node_id;
         expert = fold (\<lambda>(j, d). AList.update d [(i, j)]) (zip [0..<n_expert] exps) expert
     in (attn, expert, node_id))"

definition single_solve ::
  "nat \<Rightarrow> nat \<Rightarrow> nat \<Rightarrow> nat \<Rightarrow> nat \<Rightarrow> model_placement result" where
  "single_solve rep_attn n_layer n_expert n_node n_gpu_per_node =
     bindR (assertR (n_layer * (rep_attn + n_expert) \<le> n_node * n_gpu_per_node)) (\<lambda>_.
       let (attn, expert, _) = fold (single_layer rep_attn n_expert) [0..<n_layer]
             ([], [], counter_default 0);
           pg = placement_new attn expert None
       in bindR (assertR (length attn = n_layer * rep_attn)) (\<lambda>_.
          bindR (assertR (length (pl_in_device_ids pg) = n_layer * (rep_attn + n_expert) + 1)) (\<lambda>_.
          bindR (assertR (length (pl_out_device_ids pg) = n_layer * (rep_attn + n_expert) + 1)) (\<lambda>_.
            Inr pg))))"

text \<open>\<open>InterleavePlacement\<close>: groups of \<open>tp_size\<close> attention and \<open>ep_size\<close> expert devices, used by
  the layers in turn.\<close>

definition last_n :: "nat \<Rightarrow> 'a list \<Rightarrow> 'a list" where
  "last_n n xs = (if n = 0 then xs else drop (length xs - n) xs)"

definition interleave_group ::
  "nat \<Rightarrow> nat \<Rightarrow> nat \<Rightarrow>
   nat list \<times> nat list list \<times> (nat, nat list) dict \<times> counter \<Rightarrow>
   nat list \<times> nat list list \<times> (nat, nat list) dict \<times> counter" where
  "interleave_group tp ep nepr = (\<lambda>(attn_devs, exp_devs, groups, node_iter).
     let (ds, node_iter) = next_devs tp node_iter;
         attn_devs = attn_devs @ ds;
         devs = last_n tp attn_devs;
         groups = fold (\<lambda>d. AList.update d devs) devs groups;
         (es, node_iter) = next_devs ep node_iter;
         layer_exp_devs = concat (map (\<lambda>d. replicate nepr d) es)
     in (attn_devs, exp_devs @ [layer_exp_devs], groups, node_iter))"

definition interleave_layer ::
  "nat \<Rightarrow> nat \<Rightarrow> nat \<Rightarrow> nat list \<Rightarrow> nat list list \<Rightarrow> nat \<Rightarrow>
   (nat, nat list) dict \<times> (nat, (nat \<times> nat) list) dict \<Rightarrow>
   ((nat, nat list) dict \<times> (nat, (nat \<times> nat) list) dict) result" where
  "interleave_layer tp n_group n_expert attn_devs exp_devs i = (\<lambda>(attn, expert).
     if n_group = 0 then Inl ZeroDivisionError
     else bindR (py_get attn_devs (int (i mod n_group * tp))) (\<lambda>attn_driver.
          bindR (foldR (\<lambda>j. d_append (attn_driver + j) i) [0..<tp] attn) (\<lambda>attn.
          bindR (foldR (\<lambda>j expert.
              bindR (py_get exp_devs (int (i mod n_group))) (\<lambda>row.
              bindR (py_get row (int j)) (\<lambda>exp_dev. d_append exp_dev (i, j) expert)))
            [0..<n_expert] expert) (\<lambda>expert.
              Inr (attn, expert)))))"

definition interleave_solve ::
  "model_config \<Rightarrow> nat \<Rightarrow> nat \<Rightarrow> nat \<Rightarrow> nat \<Rightarrow> model_placement result" where
  "interleave_solve c n_layer n_expert n_node n_gpu_per_node =
     (let tp = mc_tp_size c; ep = mc_ep_size c
      in if ep + tp = 0 then Inl ZeroDivisionError
         else bindR (assertR (n_node * n_gpu_per_node mod (ep + tp) = 0)) (\<lambda>_.
           let n_group = n_node * n_gpu_per_node div (ep + tp)
           in bindR (if n_group = 0 \<or> ep = 0 then Inr 0 else num_experts_per_rank c) (\<lambda>nepr.
             let (attn_devs, exp_devs, groups, _) =
                   fold (\<lambda>_. interleave_group tp ep nepr) [0..<n_group]
                     ([], [], [], counter_default 0);
                 attn = fold (\<lambda>d. AList.update d []) attn_devs [];
                 expert = fold (\<lambda>d. AList.update d []) (concat exp_devs) []
             in bindR (foldR (interleave_layer tp n_group n_expert attn_devs exp_devs) [0..<n_layer]
                        (attn, expert)) (\<lambda>(attn, expert).
                  Inr (placement_new attn expert (Some groups))))))"


text \<open>
  \<open>PipelinePlacement\<close>: \<open>p\<close> virtual attention workers and \<open>q\<close> virtual expert workers take the
  layers in turn (or in blocks, when \<open>zigzag_attn\<close> is off); each virtual attention worker
  becomes \<open>dp_size\<close> groups of \<open>tp_size\<close> devices, each virtual expert worker \<open>ep_size\<close> devices.
\<close>

definition pipeline_attn_dev :: "nat \<Rightarrow> nat \<Rightarrow> bool \<Rightarrow> nat \<Rightarrow> nat result" where
  "pipeline_attn_dev num_layers p zigzag i =
     (if zigzag then (if p = 0 then Inl ZeroDivisionError else Inr (i mod p))
      else if p = 0 \<or> num_layers div p = 0 then Inl ZeroDivisionError
      else Inr (i div (num_layers div p)))"

definition solve_virtual ::
  "nat \<Rightarrow> nat \<Rightarrow> nat \<Rightarrow> bool \<Rightarrow> ((nat, nat list) dict \<times> (nat, nat list) dict) result" where
  "solve_virtual num_layers p q zigzag =
     foldR (\<lambda>i (attns, experts).
         bindR (pipeline_attn_dev num_layers p zigzag i) (\<lambda>attn_dev.
         bindR (if q = 0 then Inl ZeroDivisionError else Inr (i mod q)) (\<lambda>exp_dev.
         bindR (d_append attn_dev i attns) (\<lambda>attns.
         bindR (d_append exp_dev i experts) (\<lambda>experts. Inr (attns, experts))))))
       [0..<num_layers] (map (\<lambda>i. (i, [])) [0..<p], map (\<lambda>i. (i, [])) [0..<q])"

definition physical_attn ::
  "model_config \<Rightarrow> nat \<Rightarrow> (nat, nat list) dict \<Rightarrow> (nat, nat list) dict result" where
  "physical_attn c p vattn =
     (let tp = mc_tp_size c; dp = mc_dp_size c
      in foldR (\<lambda>(i, layers). foldR (\<lambda>j. d_extend ((i * dp + j) * tp) layers) [0..<dp])
           vattn (map (\<lambda>i. (i, [])) [0..<p * tp * dp]))"

definition physical_experts ::
  "model_config \<Rightarrow> nat \<Rightarrow> nat \<Rightarrow> (nat, nat list) dict \<Rightarrow>
   (nat, (nat \<times> nat) list) dict result" where
  "physical_experts c p q vexpert =
     (let workers = p * mc_tp_size c * mc_dp_size c; ep = mc_ep_size c
      in foldR (\<lambda>(i, layers). foldR (\<lambda>e d.
             bindR (num_experts_per_rank c) (\<lambda>n.
             if n = 0 then Inl ZeroDivisionError
             else foldR (\<lambda>l. d_append (workers + i * ep + e div n) (l, e)) layers d))
           [0..<mc_num_experts c])
         vexpert (map (\<lambda>i. (i, [])) [workers..<workers + q * ep]))"

definition pipeline_groups :: "model_config \<Rightarrow> nat \<Rightarrow> (nat, nat list) dict" where
  "pipeline_groups c p =
     map (\<lambda>i. (i, [i * mc_tp_size c..<(i + 1) * mc_tp_size c])) [0..<p * mc_dp_size c]"

definition pipeline_solve ::
  "model_config \<Rightarrow> nat \<Rightarrow> nat \<Rightarrow> bool \<Rightarrow> nat \<Rightarrow> nat \<Rightarrow> model_placement result" where
  "pipeline_solve c p q zigzag n_node n_gpu_per_node =
     bindR (assertR (p * mc_tp_size c * mc_dp_size c + q * mc_ep_size c
              \<le> n_node * n_gpu_per_node)) (\<lambda>_.
     bindR (solve_virtual (mc_num_layers c) p q zigzag) (\<lambda>(vattn, vexpert).
     bindR (physical_attn c p vattn) (\<lambda>attns.
     bindR (physical_experts c p q vexpert) (\<lambda>experts.
       Inr (placement_new attns experts (Some (pipeline_groups c p)))))))"

text \<open>
  \<open>ColocatePlacement\<close>: every device holds the attention of all layers; the experts are dealt
  in blocks of \<open>num_experts_per_rank\<close>, or by an explicit allocation that gives each device
  its number of experts.
\<close>

definition colocate_alloc_step ::
  "nat list \<Rightarrow> nat \<times> int \<Rightarrow> (nat, (nat \<times> nat) list) dict \<times> nat \<Rightarrow>
   ((nat, (nat \<times> nat) list) dict \<times> nat) result" where
  "colocate_alloc_step all_layers = (\<lambda>(dev_id, count) s.
     foldR (\<lambda>_ (experts, expert_id).
         bindR (foldR (\<lambda>layer_id. d_append dev_id (layer_id, expert_id)) all_layers experts)
           (\<lambda>experts. Inr (experts, expert_id + 1)))
       [0..<nat count] s)"

definition colocate_experts ::
  "model_config \<Rightarrow> int list option \<Rightarrow> nat \<Rightarrow> nat \<Rightarrow> nat \<Rightarrow>
   (nat, (nat \<times> nat) list) dict result" where
  "colocate_experts c alloc n_layer n_expert num_devices =
     (let all_layers = [0..<n_layer];
          experts = map (\<lambda>i. (i, [])) [0..<num_devices]
      in case alloc of
        Some counts \<Rightarrow>
          bindR (assertR (length counts \<le> num_devices)) (\<lambda>_.
          bindR (foldR (colocate_alloc_step all_layers) (zip [0..<length counts] counts)
                   (experts, 0)) (\<lambda>(experts, expert_id).
          bindR (assertR (expert_id = n_expert)) (\<lambda>_. Inr experts)))
      | None \<Rightarrow>
          foldR (\<lambda>i. foldR (\<lambda>j experts.
              bindR (num_experts_per_rank c) (\<lambda>n.
              if n = 0 then Inl ZeroDivisionError else d_append (i div n) (j, i) experts))
            all_layers) [0..<n_expert] experts)"

definition colocate_solve ::
  "model_config \<Rightarrow> int list option \<Rightarrow> nat \<Rightarrow> nat \<Rightarrow> nat \<Rightarrow> nat \<Rightarrow> model_placement result" where
  "colocate_solve c alloc n_layer n_expert n_node n_gpu_per_node =
     (let num_devices = n_node * n_gpu_per_node;
          attns = map (\<lambda>i. (i, [0..<n_layer])) [0..<num_devices]
      in bindR (colocate_experts c alloc n_layer n_expert num_devices) (\<lambda>experts.
         Inr ((placement_new attns experts (Some (map (\<lambda>i. (i, [i])) [0..<num_devices])))
           \<lparr>pl_local_expert_counts := Some
              (map (\<lambda>d. (d, card (snd ` set (d_get_or experts d [])))) [0..<num_devices]),
            pl_is_hybrid := True\<rparr>)))"

datatype strategy =
    Colocate "int list option"
  | Single nat
  | Interleave
  | Pipeline nat nat bool

definition update_attn_dp_rank ::
  "strategy \<Rightarrow> model_config \<Rightarrow> model_placement \<Rightarrow> model_placement result" where
  "update_attn_dp_rank st c p =
     bindR (case st of
         Pipeline _ _ _ \<Rightarrow>
           mapR (\<lambda>d. if mc_tp_size c = 0 \<or> mc_dp_size c = 0 then Inl ZeroDivisionError
                     else Inr (d, d div mc_tp_size c mod mc_dp_size c)) (map fst (pl_attn p))
       | Colocate _ \<Rightarrow> Inr (map (\<lambda>d. (d, d)) (map fst (pl_attn p)))
       | _ \<Rightarrow> Inr (map (\<lambda>d. (d, 0)) (map fst (pl_attn p)))) (\<lambda>rks.
       Inr (p\<lparr>pl_attn_dp_ranks := Some rks\<rparr>))"

definition strategy_solve ::
  "strategy \<Rightarrow> model_config \<Rightarrow> nat \<Rightarrow> nat \<Rightarrow> model_placement result" where
  "strategy_solve st c n_node n_gpu =
     (case st of
        Single rep \<Rightarrow> single_solve rep (mc_num_layers c) (mc_num_experts c) n_node n_gpu
      | Interleave \<Rightarrow> interleave_solve c (mc_num_layers c) (mc_num_experts c) n_node n_gpu
      | Pipeline p q zigzag \<Rightarrow> pipeline_solve c p q zigzag n_node n_gpu
      | Colocate alloc \<Rightarrow>
          colocate_solve c alloc (mc_num_layers c) (mc_num_experts c) n_node n_gpu)"

definition strategy_alloc :: "strategy \<Rightarrow> int list option" where
  "strategy_alloc st = (case st of Colocate alloc \<Rightarrow> alloc | _ \<Rightarrow> None)"

text \<open>
  \<open>PlacementBase.solve\<close> behind the constructor's check of the allocation.
  \<open>get_model_placement\<close> passes the allocation to the \<open>colocate\<close> strategy only.
\<close>

definition solve_placement ::
  "strategy \<Rightarrow> model_config \<Rightarrow> nat \<Rightarrow> nat \<Rightarrow> model_placement result" where
  "solve_placement st c n_node n_gpu =
     bindR (case strategy_alloc st of
              None \<Rightarrow> Inr () | Some counts \<Rightarrow> assertR (sum_list counts = int (mc_num_experts c))) (\<lambda>_.
     bindR (strategy_solve st c n_node n_gpu) (\<lambda>p.
     bindR (add_edges (mc_num_layers c) p) (\<lambda>p.
     bindR (update_expert_rank c (strategy_alloc st) p) (\<lambda>p.
       update_attn_dp_rank st c p))))"

definition get_model_placement ::
  "model_config \<Rightarrow> nat \<Rightarrow> nat \<Rightarrow> string \<Rightarrow> nat \<Rightarrow> nat \<Rightarrow> nat \<Rightarrow> bool \<Rightarrow> int list option \<Rightarrow>
   model_placement result" where
  "get_model_placement c n_node n_gpu strategy rep_attn step_attn step_expert zigzag alloc =
     (if strategy = ''colocate'' then solve_placement (Colocate alloc) c n_node n_gpu
      else if strategy = ''single'' then solve_placement (Single rep_attn) c n_node n_gpu
      else if strategy = ''interleave'' then solve_placement Interleave c n_node n_gpu
      else if strategy = ''pipeline'' then
        solve_placement (Pipeline step_attn step_expert zigzag) c n_node n_gpu
      else Inl NotImplementedError)"


section \<open>Edges\<close>

definition in_of :: "model_placement \<Rightarrow> nat \<Rightarrow> nat list" where
  "in_of p d = d_get_or (pl_in_device_ids p) d []"

definition out_of :: "model_placement \<Rightarrow> nat \<Rightarrow> nat list" where
  "out_of p s = d_get_or (pl_out_device_ids p) s []"

text \<open>The two directions agree and no edge is recorded twice.\<close>

definition edges_ok :: "model_placement \<Rightarrow> bool" where
  "edges_ok p \<longleftrightarrow> (\<forall>s d. s \<in> set (in_of p d) \<longleftrightarrow> d \<in> set (out_of p s)) \<and>
     (\<forall>d. distinct (in_of p d)) \<and> (\<forall>s. distinct (out_of p s))"

lemma d_get_or_fresh: "\<not> d_has d k \<Longrightarrow> d_get_or d k x = x"
  by (simp add: d_get_or_def d_has_iff)

lemma add_edge_in:
  "in_of (add_edge s d p) d' =
     (if d' = d \<and> s \<notin> set (in_of p d) then in_of p d @ [s] else in_of p d')"
  by (cases "d_has (pl_in_device_ids p) d"; cases "d_has (pl_out_device_ids p) s";
      cases "s \<in> set (in_of p d)")
    (simp_all add: add_edge_def in_of_def Let_def d_get_or_update d_get_or_fresh)

lemma add_edge_out:
  "out_of (add_edge s d p) s' =
     (if s' = s \<and> s \<notin> set (in_of p d) then out_of p s @ [d] else out_of p s')"
  by (cases "d_has (pl_in_device_ids p) d"; cases "d_has (pl_out_device_ids p) s";
      cases "s \<in> set (in_of p d)")
    (simp_all add: add_edge_def in_of_def out_of_def Let_def d_get_or_update d_get_or_fresh)

lemma add_edge_mem: "x \<in> set (in_of (add_edge s d p) y) \<longleftrightarrow> x \<in> set (in_of p y) \<or> (x = s \<and> y = d)"
  by (cases "s \<in> set (in_of p d)"; cases "y = d") (auto simp: add_edge_in)

lemma add_edge_ok:
  assumes "edges_ok p"
  shows "edges_ok (add_edge s d p)"
proof (cases "s \<in> set (in_of p d)")
  case True
  then show ?thesis using assms by (simp add: edges_ok_def add_edge_in add_edge_out)
next
  case False
  have out: "d \<notin> set (out_of p s)" using assms False by (simp add: edges_ok_def)
  have m: "x \<in> set (out_of (add_edge s d p) y) \<longleftrightarrow> x \<in> set (out_of p y) \<or> (x = d \<and> y = s)" for x y
    using False by (auto simp: add_edge_out)
  have "distinct (in_of (add_edge s d p) x)" "distinct (out_of (add_edge s d p) x)" for x
    using assms False out by (simp_all add: edges_ok_def add_edge_in add_edge_out)
  then show ?thesis using assms by (auto simp: edges_ok_def add_edge_mem m)
qed

lemma add_edge_same:
  "pl_attn (add_edge s d p) = pl_attn p" "pl_expert (add_edge s d p) = pl_expert p"
  "pl_device_groups (add_edge s d p) = pl_device_groups p"
  "pl_local_expert_counts (add_edge s d p) = pl_local_expert_counts p"
  "pl_is_hybrid (add_edge s d p) = pl_is_hybrid p"
  by (simp_all add: add_edge_def Let_def)

text \<open>A loop of \<open>add_edge\<close> calls, given by the list of its edges.\<close>

definition add_all :: "(nat \<times> nat) list \<Rightarrow> model_placement \<Rightarrow> model_placement" where
  "add_all es p = fold (\<lambda>(s, d). add_edge s d) es p"

lemma add_all_simps [simp]:
  "add_all [] p = p"
  "add_all (e # es) p = add_all es (add_edge (fst e) (snd e) p)"
  by (simp_all add: add_all_def case_prod_unfold)

lemma add_all_mem: "x \<in> set (in_of (add_all es p) y) \<longleftrightarrow> x \<in> set (in_of p y) \<or> (x, y) \<in> set es"
proof (induction es arbitrary: p)
  case (Cons e es)
  show ?case unfolding add_all_simps Cons.IH add_edge_mem by (cases e) auto
qed simp

lemma add_all_ok: "edges_ok p \<Longrightarrow> edges_ok (add_all es p)"
  by (induction es arbitrary: p) (simp_all add: add_edge_ok)

lemma add_all_same:
  "pl_attn (add_all es p) = pl_attn p \<and> pl_expert (add_all es p) = pl_expert p \<and>
   pl_device_groups (add_all es p) = pl_device_groups p \<and>
   pl_local_expert_counts (add_all es p) = pl_local_expert_counts p \<and>
   pl_is_hybrid (add_all es p) = pl_is_hybrid p"
  by (induction es arbitrary: p) (simp_all add: add_edge_same)

lemma add_all_append: "add_all (es @ fs) p = add_all fs (add_all es p)"
  by (simp add: add_all_def)

lemma fold_fwd: "fold (\<lambda>(a, b). add_edge a b) es p = add_all es p"
  by (simp add: add_all_def)

lemma fold_bwd: "fold (\<lambda>(a, b). add_edge b a) es p = add_all (map prod.swap es) p"
  by (simp add: add_all_def fold_map comp_def case_prod_unfold)

lemma set_pairs_of: "set (pairs_of xs ys) = set xs \<times> set ys"
  by (auto simp: pairs_of_def)


definition layer_edges :: "(nat \<Rightarrow> nat list) \<Rightarrow> (nat \<Rightarrow> nat list) \<Rightarrow> nat \<Rightarrow> (nat \<times> nat) list" where
  "layer_edges A E l =
     (if l > 0 then map prod.swap (pairs_of (A l) (E (l - 1))) else []) @ pairs_of (A l) (E l)"

definition all_edges :: "(nat \<Rightarrow> nat list) \<Rightarrow> (nat \<Rightarrow> nat list) \<Rightarrow> nat \<Rightarrow> (nat \<times> nat) list" where
  "all_edges A E n =
     concat (map (layer_edges A E) [0..<n]) @ map prod.swap (pairs_of (A 0) (E (n - 1)))"

lemma collect_devs_Inr:
  assumes "collect_devs n lds = Inr d" and "l < n"
  shows "map_of d l = Some (picked l lds)"
  using d_append_loop_Inr [OF assms(1) [unfolded collect_devs_def], of l] assms(2)
  by (simp add: map_of_upt_map)

lemma collect_devs_total:
  assumes "\<forall>(l, d) \<in> set lds. l < n"
  shows "\<exists>d. collect_devs n lds = Inr d"
proof -
  have "fst ` set lds \<subseteq> fst ` set (map (\<lambda>l. (l, [])) [0..<n])"
    using assms by (auto simp: image_iff)
  then show ?thesis unfolding collect_devs_def by (rule d_append_loop_total)
qed

lemma add_edges_of_layer_eq:
  assumes "\<And>l. l < n \<Longrightarrow> map_of ad l = Some (A l)" and "\<And>l. l < n \<Longrightarrow> map_of ed l = Some (E l)"
    and "l < n"
  shows "add_edges_of_layer ad ed l p = Inr (add_all (layer_edges A E l) p)"
  using assms
  by (simp add: add_edges_of_layer_def d_get_def layer_edges_def add_all_append
      add_all_def [symmetric] fold_fwd fold_bwd cong: prod.case_cong)

lemma add_edges_loop:
  assumes "\<And>l. l < n \<Longrightarrow> map_of ad l = Some (A l)" and "\<And>l. l < n \<Longrightarrow> map_of ed l = Some (E l)"
    and "set ls \<subseteq> {..<n}"
  shows "foldR (add_edges_of_layer ad ed) ls p
    = Inr (add_all (concat (map (layer_edges A E) ls)) p)"
  using assms(3)
proof (induction ls arbitrary: p)
  case (Cons l ls)
  then have "l < n" "set ls \<subseteq> {..<n}" by auto
  then show ?case
    using Cons.IH add_edges_of_layer_eq [where ad = ad and ed = ed, OF assms(1,2)]
    by (simp add: add_all_append)
qed simp

lemma add_edges_eq:
  assumes "0 < n" and "\<forall>(l, d) \<in> set (attn_layer_devs p). l < n"
    and "\<forall>(l, d) \<in> set (expert_layer_devs p). l < n"
  shows "add_edges n p = Inr (add_all (all_edges (\<lambda>l. picked l (attn_layer_devs p))
      (\<lambda>l. picked l (expert_layer_devs p)) n) p)"
proof -
  let ?A = "\<lambda>l. picked l (attn_layer_devs p)" and ?E = "\<lambda>l. picked l (expert_layer_devs p)"
  obtain ad where ad: "collect_devs n (attn_layer_devs p) = Inr ad"
    using collect_devs_total [OF assms(2)] by blast
  obtain ed where ed: "collect_devs n (expert_layer_devs p) = Inr ed"
    using collect_devs_total [OF assms(3)] by blast
  note A = collect_devs_Inr [OF ad] and E = collect_devs_Inr [OF ed]
  have loop: "foldR (add_edges_of_layer ad ed) [0..<n] p
      = Inr (add_all (concat (map (layer_edges ?A ?E) [0..<n])) p)"
    by (rule add_edges_loop [where n = n]) (auto simp: A E)
  have "d_get ad 0 = Inr (?A 0)" "d_get ed (n - 1) = Inr (?E (n - 1))"
    using assms(1) by (simp_all add: A E d_get_def)
  then show ?thesis
    by (simp add: add_edges_def ad ed loop all_edges_def add_all_append fold_bwd pairs_of_def)
qed

lemma add_edges_Inr_layers:
  assumes "add_edges n p = Inr p'"
  shows "0 < n \<and> (\<forall>(l, d) \<in> set (attn_layer_devs p). l < n) \<and>
    (\<forall>(l, d) \<in> set (expert_layer_devs p). l < n)"
proof -
  obtain ad ed where ad: "collect_devs n (attn_layer_devs p) = Inr ad"
    and ed: "collect_devs n (expert_layer_devs p) = Inr ed"
    and ad0: "map_of ad 0 \<noteq> None"
    using assms by (auto simp: add_edges_def res)
  have ka: "fst ` set (attn_layer_devs p) \<subseteq> {0..<n}"
    using d_append_loop_keys [OF ad [unfolded collect_devs_def]] by (auto simp: image_iff)
  have ke: "fst ` set (expert_layer_devs p) \<subseteq> {0..<n}"
    using d_append_loop_keys [OF ed [unfolded collect_devs_def]] by (auto simp: image_iff)
  have "0 < n"
  proof (rule ccontr)
    assume "\<not> 0 < n"
    then have "map_of ad 0 = None"
      using d_append_loop_Inr [OF ad [unfolded collect_devs_def], of 0] by simp
    then show False using ad0 by simp
  qed
  then show ?thesis using ka ke by auto
qed

lemma set_all_edges:
  "(s, d) \<in> set (all_edges A E n) \<longleftrightarrow>
     (\<exists>l < n. s \<in> set (A l) \<and> d \<in> set (E l)) \<or>
     (\<exists>l < n. 0 < l \<and> s \<in> set (E (l - 1)) \<and> d \<in> set (A l)) \<or>
     (s \<in> set (E (n - 1)) \<and> d \<in> set (A 0))"
proof -
  have "(s, d) \<in> set (layer_edges A E l) \<longleftrightarrow>
      (0 < l \<and> s \<in> set (E (l - 1)) \<and> d \<in> set (A l)) \<or> (s \<in> set (A l) \<and> d \<in> set (E l))" for l
    by (auto simp: layer_edges_def set_pairs_of)
  then show ?thesis by (auto simp: all_edges_def set_pairs_of)
qed

text \<open>The layers whose attention, and the experts, that a placement puts on a device.\<close>

definition holds_attn :: "model_placement \<Rightarrow> nat \<Rightarrow> nat \<Rightarrow> bool" where
  "holds_attn p dev l \<longleftrightarrow> (\<exists>ls. (dev, ls) \<in> set (pl_attn p) \<and> l \<in> set ls)"

definition holds_expert :: "model_placement \<Rightarrow> nat \<Rightarrow> nat \<times> nat \<Rightarrow> bool" where
  "holds_expert p dev le \<longleftrightarrow> (\<exists>les. (dev, les) \<in> set (pl_expert p) \<and> le \<in> set les)"

lemma set_attn_layer_devs: "(l, dev) \<in> set (attn_layer_devs p) \<longleftrightarrow> holds_attn p dev l"
  by (auto simp: attn_layer_devs_def holds_attn_def)

lemma set_expert_layer_devs:
  "(l, dev) \<in> set (expert_layer_devs p) \<longleftrightarrow> (\<exists>e. holds_expert p dev (l, e))"
  by (fastforce simp: expert_layer_devs_def holds_expert_def)


section \<open>Where the strategies put the experts\<close>

lemma add_edges_keeps:
  assumes "add_edges n p = Inr p'"
  shows "pl_attn p' = pl_attn p \<and> pl_expert p' = pl_expert p \<and>
    pl_device_groups p' = pl_device_groups p"
  using add_edges_Inr_layers [OF assms] add_edges_eq [of n p] add_all_same assms
  by (metis Inr_inject)

lemma solve_placement_parts:
  assumes "solve_placement st c n_node n_gpu = Inr p"
  shows "\<exists>p0. strategy_solve st c n_node n_gpu = Inr p0 \<and> pl_attn p = pl_attn p0 \<and>
    pl_expert p = pl_expert p0 \<and>
    (\<exists>p1 p2. pl_expert p1 = pl_expert p0 \<and>
       update_expert_rank c (strategy_alloc st) p1 = Inr p2 \<and>
       pl_expert_ranks p = pl_expert_ranks p2)"
proof -
  obtain p0 p1 p2 where s: "strategy_solve st c n_node n_gpu = Inr p0"
      "add_edges (mc_num_layers c) p0 = Inr p1"
      "update_expert_rank c (strategy_alloc st) p1 = Inr p2"
      "update_attn_dp_rank st c p2 = Inr p"
    using assms by (auto simp: solve_placement_def res)
  have k1: "pl_attn p1 = pl_attn p0" "pl_expert p1 = pl_expert p0"
    using add_edges_keeps [OF s(2)] by auto
  have k2: "pl_attn p2 = pl_attn p1 \<and> pl_expert p2 = pl_expert p1"
    using s(3) by (auto simp: update_expert_rank_def res split: option.splits if_splits)
  have k3: "pl_attn p = pl_attn p2 \<and> pl_expert p = pl_expert p2 \<and>
      pl_expert_ranks p = pl_expert_ranks p2"
    using s(4) by (auto simp: update_attn_dp_rank_def res)
  show ?thesis using s k1 k2 k3 by auto
qed

lemma default_expert_rank:
  assumes "update_expert_rank c None p = Inr p'" and "mc_num_experts c = mc_ep_size c * n"
    and "l < mc_num_layers c" and "e < mc_num_experts c"
  shows "\<exists>rks. pl_expert_ranks p' = Some rks \<and> map_of rks (l, e) = Some (e div n)"
proof -
  have ep: "0 < mc_ep_size c" and n: "0 < n" using assms(2,4) by (auto intro: gr0I)
  have nepr: "num_experts_per_rank c = Inr n"
    using assms(2) ep by (simp add: num_experts_per_rank_def)
  let ?rks = "map (\<lambda>(l, e). ((l, e), e div n)) (pairs_of [0..<mc_num_layers c] [0..<mc_num_experts c])"
  have "pl_expert_ranks p' = Some ?rks"
    using assms(1,3,4) nepr n by (auto simp: update_expert_rank_def)
  moreover have "map_of ?rks (l, e) = Some (e div n)"
  proof -
    have eq: "?rks = map (\<lambda>x. (x, snd x div n)) (pairs_of [0..<mc_num_layers c] [0..<mc_num_experts c])"
      by (simp add: case_prod_unfold)
    show ?thesis using assms(3,4) unfolding eq map_of_map_restrict
      by (simp add: restrict_map_def set_pairs_of)
  qed
  ultimately show ?thesis by blast
qed

text \<open>What a loop of appends over the empty device lists leaves on the devices.\<close>

lemma device_loop_mem:
  assumes "foldR (\<lambda>(k, x). d_append k x) kxs (map (\<lambda>i. (i, [])) [a..<b]) = Inr ex"
  shows "map fst ex = [a..<b] \<and> (x \<in> set (d_get_or ex d []) \<longleftrightarrow> (d, x) \<in> set kxs)"
proof -
  let ?init = "map (\<lambda>i. (i, [])) [a..<b]"
  have m: "map fst ex = map fst ?init"
      "map_of ex d = map_option (\<lambda>l. l @ picked d kxs) (map_of ?init d)"
    using d_append_loop_Inr [OF assms, of d] by simp_all
  have "fst ` set ?init = {a..<b}" by (force simp: image_iff)
  then have keys: "fst ` set kxs \<subseteq> {a..<b}"
    using d_append_loop_keys [OF assms] by metis
  have "d \<in> {a..<b}" if "(d, x) \<in> set kxs"
    using keys that by (metis fst_conv image_subset_iff)
  then have "x \<in> set (d_get_or ex d []) \<longleftrightarrow> (d, x) \<in> set kxs"
    by (auto simp: d_get_or_def m map_of_upt_map set_picked)
  then show ?thesis using m(1) by (simp add: comp_def)
qed

lemma colocate_default_loop:
  assumes "mc_num_experts c = mc_ep_size c * n" and "0 < mc_num_experts c"
  shows "colocate_experts c None n_layer n_expert num_devices =
    foldR (\<lambda>(k, x). d_append k x)
      (concat (map (\<lambda>i. map (\<lambda>j. (i div n, (j, i))) [0..<n_layer]) [0..<n_expert]))
      (map (\<lambda>i. (i, [])) [0..<num_devices])"
proof -
  have ep: "0 < mc_ep_size c" and n: "0 < n" using assms by (auto intro: gr0I)
  have "num_experts_per_rank c = Inr n"
    using assms ep by (simp add: num_experts_per_rank_def)
  then show ?thesis using n
    by (simp add: colocate_experts_def foldR_concat foldR_map Let_def)
qed

lemma colocate_location:
  assumes "colocate_experts c None n_layer n_expert num_devices = Inr ex"
    and "mc_num_experts c = mc_ep_size c * n" and "0 < mc_num_experts c"
  shows "map fst ex = [0..<num_devices] \<and>
    ((l, e) \<in> set (d_get_or ex d []) \<longleftrightarrow> l < n_layer \<and> e < n_expert \<and> d = e div n)"
proof -
  let ?kxs = "concat (map (\<lambda>i. map (\<lambda>j. (i div n, (j, i))) [0..<n_layer]) [0..<n_expert])"
  have loop: "foldR (\<lambda>(k, x). d_append k x) ?kxs (map (\<lambda>i. (i, [])) [0..<num_devices]) = Inr ex"
    using assms(1) colocate_default_loop [OF assms(2,3)] by simp
  have "(d, (l, e)) \<in> set ?kxs \<longleftrightarrow> l < n_layer \<and> e < n_expert \<and> d = e div n"
    by (auto intro!: bexI [of _ e])
  then show ?thesis using device_loop_mem [OF loop, of "(l, e)" d] by simp
qed

text \<open>The explicit allocation: device \<open>d\<close> takes the next \<open>counts ! d\<close> experts.\<close>

definition alloc_start :: "int list \<Rightarrow> nat \<Rightarrow> nat" where
  "alloc_start counts d = (\<Sum>k \<leftarrow> take d counts. nat k)"

lemma alloc_step_eq:
  "colocate_alloc_step ls (d, cnt) (ex, e0) =
     bindR (foldR (\<lambda>(k, x). d_append k x)
        (concat (map (\<lambda>i. map (\<lambda>l. (d, (l, e0 + i))) ls) [0..<nat cnt])) ex)
       (\<lambda>ex'. Inr (ex', e0 + nat cnt))"
proof -
  define m where "m = nat cnt"
  have "foldR (\<lambda>_ (experts, expert_id).
         bindR (foldR (\<lambda>l. d_append d (l, expert_id)) ls experts)
           (\<lambda>experts. Inr (experts, expert_id + 1))) [0..<m] (ex, e0) =
     bindR (foldR (\<lambda>(k, x). d_append k x)
        (concat (map (\<lambda>i. map (\<lambda>l. (d, (l, e0 + i))) ls) [0..<m])) ex)
       (\<lambda>ex'. Inr (ex', e0 + m))"
  proof (induction m)
    case (Suc m)
    have up: "[0..<Suc m] = [0..<m] @ [m]" by simp
    show ?case
      unfolding up foldR_append Suc bindR_assoc
      by (simp add: foldR_append foldR_map bindR_assoc)
  qed simp
  then show ?thesis by (simp add: colocate_alloc_step_def m_def)
qed


fun alloc_list :: "nat list \<Rightarrow> nat \<Rightarrow> nat \<Rightarrow> int list \<Rightarrow> (nat \<times> nat \<times> nat) list" where
  "alloc_list ls d e0 [] = []"
| "alloc_list ls d e0 (k # ks) =
     concat (map (\<lambda>i. map (\<lambda>l. (d, (l, e0 + i))) ls) [0..<nat k]) @
     alloc_list ls (Suc d) (e0 + nat k) ks"

lemma alloc_loop_eq:
  "foldR (colocate_alloc_step ls) (zip [d..<d + length ks] ks) (ex, e0) =
     bindR (foldR (\<lambda>(k, x). d_append k x) (alloc_list ls d e0 ks) ex)
       (\<lambda>ex'. Inr (ex', e0 + (\<Sum>k \<leftarrow> ks. nat k)))"
proof (induction ks arbitrary: d e0 ex)
  case (Cons k ks)
  let ?f = "\<lambda>(k, x). d_append k x"
  let ?now = "concat (map (\<lambda>i. map (\<lambda>l. (d, (l, e0 + i))) ls) [0..<nat k])"
  have z: "zip [d..<d + length (k # ks)] (k # ks) = (d, k) # zip [Suc d..<Suc d + length ks] ks"
    by (simp add: upt_rec)
  have "foldR (colocate_alloc_step ls) (zip [d..<d + length (k # ks)] (k # ks)) (ex, e0)
      = bindR (bindR (foldR ?f ?now ex) (\<lambda>ex'. Inr (ex', e0 + nat k)))
          (foldR (colocate_alloc_step ls) (zip [Suc d..<Suc d + length ks] ks))"
    by (simp only: z foldR.simps alloc_step_eq)
  also have "\<dots> = bindR (foldR ?f ?now ex) (\<lambda>ex1.
      bindR (foldR ?f (alloc_list ls (Suc d) (e0 + nat k) ks) ex1)
       (\<lambda>ex'. Inr (ex', e0 + nat k + (\<Sum>k \<leftarrow> ks. nat k))))"
    by (simp only: bindR_assoc bindR_simps Cons.IH)
  finally show ?case by (simp add: foldR_append bindR_assoc add.assoc)
qed simp

lemma alloc_list_mem:
  "(q, (l, e)) \<in> set (alloc_list ls d e0 ks) \<longleftrightarrow> l \<in> set ls \<and>
     (\<exists>i < length ks. q = d + i \<and> e0 + alloc_start ks i \<le> e \<and> e < e0 + alloc_start ks (Suc i))"
proof (induction ks arbitrary: d e0)
  case (Cons k ks)
  have hd: "(q, (l, e)) \<in> set (concat (map (\<lambda>i. map (\<lambda>l. (d, (l, e0 + i))) ls) [0..<nat k])) \<longleftrightarrow>
      l \<in> set ls \<and> q = d \<and> e0 \<le> e \<and> e < e0 + nat k"
  proof
    assume r: "l \<in> set ls \<and> q = d \<and> e0 \<le> e \<and> e < e0 + nat k"
    then have "e - e0 < nat k" "e0 + (e - e0) = e" "l \<in> set ls" "q = d" by auto
    then show "(q, (l, e)) \<in> set (concat (map (\<lambda>i. map (\<lambda>l. (d, (l, e0 + i))) ls) [0..<nat k]))"
      by (simp add: image_iff) (metis atLeast0LessThan lessThan_iff)
  qed auto
  have st: "alloc_start (k # ks) (Suc i) = nat k + alloc_start ks i" for i
    by (simp add: alloc_start_def)
  have ex: "(\<exists>i < length (k # ks). q = d + i \<and> e0 + alloc_start (k # ks) i \<le> e \<and>
        e < e0 + alloc_start (k # ks) (Suc i)) \<longleftrightarrow>
      (q = d \<and> e0 \<le> e \<and> e < e0 + nat k) \<or>
      (\<exists>i < length ks. q = Suc d + i \<and> e0 + nat k + alloc_start ks i \<le> e \<and>
        e < e0 + nat k + alloc_start ks (Suc i))"
    unfolding length_Cons Ex_less_Suc2 st by (simp add: alloc_start_def ac_simps)
  show ?case unfolding alloc_list.simps set_append Un_iff hd Cons.IH ex by blast
qed simp


lemma colocate_alloc_location:
  assumes "colocate_experts c (Some counts) n_layer n_expert num_devices = Inr ex"
  shows "map fst ex = [0..<num_devices] \<and> n_expert = (\<Sum>k \<leftarrow> counts. nat k) \<and>
    ((l, e) \<in> set (d_get_or ex d []) \<longleftrightarrow> l < n_layer \<and> d < length counts \<and>
       alloc_start counts d \<le> e \<and> e < alloc_start counts (Suc d))"
proof -
  let ?init = "map (\<lambda>i. (i, [])) [0..<num_devices]"
  have "foldR (colocate_alloc_step [0..<n_layer]) (zip [0..<length counts] counts) (?init, 0)
      = Inr (ex, n_expert)"
    using assms by (auto simp: colocate_experts_def res Let_def)
  then have "bindR (foldR (\<lambda>(k, x). d_append k x) (alloc_list [0..<n_layer] 0 0 counts) ?init)
       (\<lambda>ex'. Inr (ex', (\<Sum>k \<leftarrow> counts. nat k))) = Inr (ex, n_expert)"
    using alloc_loop_eq [of "[0..<n_layer]" 0 counts ?init 0] by simp
  then have loop: "foldR (\<lambda>(k, x). d_append k x) (alloc_list [0..<n_layer] 0 0 counts) ?init = Inr ex"
    and sum: "n_expert = (\<Sum>k \<leftarrow> counts. nat k)"
    by (auto simp: bindR_Inr_iff)
  show ?thesis
    using device_loop_mem [OF loop, of "(l, e)" d] sum
    by (simp add: alloc_list_mem)
qed

lemma alloc_start_mono: "i \<le> j \<Longrightarrow> alloc_start counts i \<le> alloc_start counts j"
  by (auto simp: alloc_start_def le_iff_add take_add)

text \<open>Every expert falls into the interval of exactly one device.\<close>

lemma alloc_cover:
  assumes "e < (\<Sum>k \<leftarrow> counts. nat k)"
  shows "\<exists>!d. d < length counts \<and> alloc_start counts d \<le> e \<and> e < alloc_start counts (Suc d)"
proof -
  define d where "d = (LEAST k. e < alloc_start counts (Suc k))"
  have n: "counts \<noteq> []" using assms by auto
  have last: "e < alloc_start counts (Suc (length counts - 1))"
    using assms n by (simp add: alloc_start_def)
  have d1: "e < alloc_start counts (Suc d)" unfolding d_def 
    by (rule LeastI [where P = "\<lambda>k. e < alloc_start counts (Suc k)", OF last])
  have d2: "d \<le> length counts - 1" unfolding d_def 
    by (rule Least_le [where P = "\<lambda>k. e < alloc_start counts (Suc k)", OF last])
  have d3: "alloc_start counts d \<le> e"
  proof (cases d)
    case 0
    then show ?thesis by (simp add: alloc_start_def)
  next
    case (Suc k)
    then have "\<not> e < alloc_start counts (Suc k)"
      unfolding d_def by (metis lessI not_less_Least)
    then show ?thesis using Suc by simp
  qed
  have uniq: "k = d" if "alloc_start counts k \<le> e" "e < alloc_start counts (Suc k)" for k
  proof (rule linorder_cases [of k d])
    assume "k < d"
    then have "alloc_start counts (Suc k) \<le> alloc_start counts d" by (intro alloc_start_mono) simp
    then show ?thesis using that d3 by simp
  next
    assume "d < k"
    then have "alloc_start counts (Suc d) \<le> alloc_start counts k" by (intro alloc_start_mono) simp
    then show ?thesis using that d1 by simp
  qed simp
  have "d < length counts" using d2 n by (cases counts) auto
  then show ?thesis using d1 d3 uniq by blast
qed


section \<open>The pipeline strategy\<close>

lemma solve_virtual_split:
  assumes "foldR (\<lambda>i (attns, experts).
         bindR (pipeline_attn_dev nl p zigzag i) (\<lambda>attn_dev.
         bindR (if q = 0 then Inl ZeroDivisionError else Inr (i mod q)) (\<lambda>exp_dev.
         bindR (d_append attn_dev i attns) (\<lambda>attns.
         bindR (d_append exp_dev i experts) (\<lambda>experts. Inr (attns, experts)))))) ls (a, b)
     = Inr (a', b')"
  shows "foldR (\<lambda>(k, x). d_append k x) (map (\<lambda>i. (i mod q, i)) ls) b = Inr b'"
  using assms
  by (induction ls arbitrary: a b) (auto simp: res foldR_map split: if_splits)

lemma solve_virtual_experts:
  assumes "solve_virtual nl p q zigzag = Inr (va, ve)"
  shows "map fst ve = [0..<q] \<and> (l \<in> set (d_get_or ve i []) \<longleftrightarrow> l < nl \<and> i = l mod q)"
proof -
  have "foldR (\<lambda>(k, x). d_append k x) (map (\<lambda>i. (i mod q, i)) [0..<nl]) (map (\<lambda>i. (i, [])) [0..<q])
      = Inr ve"
    using assms unfolding solve_virtual_def by (rule solve_virtual_split)
  from device_loop_mem [OF this, of l i] show ?thesis by auto
qed

lemma dict_mem:
  assumes "distinct (map fst d)"
  shows "(\<exists>xs. (k, xs) \<in> set d \<and> x \<in> set xs) \<longleftrightarrow> x \<in> set (d_get_or d k [])"
proof
  assume "\<exists>xs. (k, xs) \<in> set d \<and> x \<in> set xs"
  then obtain xs where "map_of d k = Some xs" "x \<in> set xs" using assms by (auto simp: map_of_is_SomeI)
  then show "x \<in> set (d_get_or d k [])" by (simp add: d_get_or_def)
next
  assume "x \<in> set (d_get_or d k [])"
  then obtain xs where "map_of d k = Some xs" "x \<in> set xs"
    by (cases "map_of d k") (auto simp: d_get_or_def)
  then show "\<exists>xs. (k, xs) \<in> set d \<and> x \<in> set xs" by (auto dest: map_of_SomeD)
qed

lemma physical_experts_location:
  assumes "physical_experts c p q ve = Inr ex" and "mc_num_experts c = mc_ep_size c * n"
    and "0 < mc_num_experts c" and "distinct (map fst ve)"
  shows "map fst ex = [p * mc_tp_size c * mc_dp_size c..<
        p * mc_tp_size c * mc_dp_size c + q * mc_ep_size c] \<and>
    ((l, e) \<in> set (d_get_or ex d []) \<longleftrightarrow>
      (\<exists>i. l \<in> set (d_get_or ve i []) \<and> e < mc_num_experts c \<and>
        d = p * mc_tp_size c * mc_dp_size c + i * mc_ep_size c + e div n))"
proof -
  let ?w = "p * mc_tp_size c * mc_dp_size c" and ?ep = "mc_ep_size c"
  let ?kxs = "concat (map (\<lambda>(i, ls). concat (map (\<lambda>e.
      map (\<lambda>l. (?w + i * ?ep + e div n, (l, e))) ls) [0..<mc_num_experts c])) ve)"
  have ep: "0 < ?ep" and n: "0 < n" using assms(2,3) by (auto intro: gr0I)
  have nepr: "num_experts_per_rank c = Inr n"
    using assms(2) ep by (simp add: num_experts_per_rank_def)
  have "physical_experts c p q ve = foldR (\<lambda>(k, x). d_append k x) ?kxs
      (map (\<lambda>i. (i, [])) [?w..<?w + q * ?ep])"
    using nepr n
    by (simp add: physical_experts_def foldR_concat foldR_map Let_def case_prod_unfold)
  then have loop: "foldR (\<lambda>(k, x). d_append k x) ?kxs (map (\<lambda>i. (i, [])) [?w..<?w + q * ?ep]) = Inr ex"
    using assms(1) by simp
  have "(d, (l, e)) \<in> set ?kxs \<longleftrightarrow> (\<exists>i ls. (i, ls) \<in> set ve \<and> l \<in> set ls \<and>
      e < mc_num_experts c \<and> d = ?w + i * ?ep + e div n)"
    by (fastforce intro!: bexI [of _ e])
  also have "\<dots> \<longleftrightarrow> (\<exists>i. l \<in> set (d_get_or ve i []) \<and> e < mc_num_experts c \<and>
      d = ?w + i * ?ep + e div n)"
    using dict_mem [OF assms(4), of _ l] by blast
  finally show ?thesis using device_loop_mem [OF loop, of "(l, e)" d] by simp
qed


section \<open>The pipeline strategy always solves\<close>

lemma pipeline_attn_dev_total:
  assumes "0 < p" and "zigzag \<or> p dvd nl" and "i < nl"
  shows "\<exists>a < p. pipeline_attn_dev nl p zigzag i = Inr a"
proof (cases zigzag)
  case True
  then show ?thesis using assms(1) by (simp add: pipeline_attn_dev_def)
next
  case False
  then obtain s where s: "nl = p * s" using assms(2) by blast
  with assms have "0 < s" "i div s < p"
    by (auto intro: gr0I simp: less_mult_imp_div_less)
  then show ?thesis using False assms(1) s by (simp add: pipeline_attn_dev_def)
qed

text \<open>Every layer of a completed virtual placement found its attention device among the keys.\<close>

lemma d_append_key: "d_append k x a = Inr a' \<Longrightarrow> k \<in> set (map fst a) \<and> map fst a' = map fst a"
  by (cases "map_of a k")
    (force simp: d_append_def d_get_def lookupR_def res update_keys dest!: map_of_SomeD)+

lemma solve_virtual_attn_keys:
  assumes "foldR (\<lambda>i (attns, experts).
         bindR (pipeline_attn_dev nl p zigzag i) (\<lambda>attn_dev.
         bindR (if q = 0 then Inl ZeroDivisionError else Inr (i mod q)) (\<lambda>exp_dev.
         bindR (d_append attn_dev i attns) (\<lambda>attns.
         bindR (d_append exp_dev i experts) (\<lambda>experts. Inr (attns, experts)))))) ls (a, b)
     = Inr t" and "i \<in> set ls"
  shows "\<exists>d. pipeline_attn_dev nl p zigzag i = Inr d \<and> d \<in> set (map fst a)"
  using assms
proof (induction ls arbitrary: a b)
  case (Cons j ls)
  from Cons.prems(1) obtain d a1 b1 where d: "pipeline_attn_dev nl p zigzag j = Inr d"
    and a1: "d_append d j a = Inr a1" and r: "foldR (\<lambda>i (attns, experts).
         bindR (pipeline_attn_dev nl p zigzag i) (\<lambda>attn_dev.
         bindR (if q = 0 then Inl ZeroDivisionError else Inr (i mod q)) (\<lambda>exp_dev.
         bindR (d_append attn_dev i attns) (\<lambda>attns.
         bindR (d_append exp_dev i experts) (\<lambda>experts. Inr (attns, experts)))))) ls (a1, b1)
     = Inr t"
    by (auto simp: res split: if_splits)
  note k = d_append_key [OF a1]
  show ?case using Cons.prems(2) Cons.IH [OF r] d k by auto
qed simp

lemma blocked_pipeline_fails:
  assumes "0 < p" and "\<not> p dvd nl"
  shows "isl (solve_virtual nl p q False)"
proof (rule ccontr)
  assume "\<not> isl (solve_virtual nl p q False)"
  then obtain t where t: "solve_virtual nl p q False = Inr t" by (metis isl_def sum.exhaust)
  have nl: "0 < nl" using assms(2) by (auto intro: gr0I)
  then have m: "nl - 1 \<in> set [0..<nl]" by simp
  obtain d where d: "pipeline_attn_dev nl p False (nl - 1) = Inr d" "d < p"
    using solve_virtual_attn_keys [OF t [unfolded solve_virtual_def] m] by (auto simp: comp_def)
  define s where "s = nl div p"
  have s: "0 < s" "d = (nl - 1) div s"
    using d(1) by (auto simp: pipeline_attn_dev_def s_def split: if_splits)
  have "p * s \<le> nl" by (simp add: s_def)
  moreover have "p * s \<noteq> nl" using assms(2) by auto
  ultimately have "p * s \<le> nl - 1" by simp
  then have "p \<le> (nl - 1) div s" using s(1) by (simp add: less_eq_div_iff_mult_less_eq)
  then show False using d(2) s(2) by simp
qed

lemma solve_virtual_total:
  assumes "0 < p" and "0 < q" and z: "zigzag \<or> p dvd nl"
  shows "\<exists>va ve. solve_virtual nl p q zigzag = Inr (va, ve) \<and>
    dict_inv [0..<p] {..<nl} va \<and> dict_inv [0..<q] {..<nl} ve"
proof -
  let ?I = "\<lambda>(a, b). dict_inv [0..<p] {..<nl} a \<and> dict_inv [0..<q] {..<nl} b"
  have "\<exists>t. solve_virtual nl p q zigzag = Inr t \<and> ?I t"
    unfolding solve_virtual_def
  proof (rule foldR_total)
    show "?I (map (\<lambda>i. (i, [])) [0..<p], map (\<lambda>i. (i, [])) [0..<q])"
      by (simp add: dict_inv_init)
  next
    fix i s
    assume i: "i \<in> set [0..<nl]" and I: "?I s"
    obtain a b where s: "s = (a, b)" by (cases s)
    obtain k where k: "pipeline_attn_dev nl p zigzag i = Inr k" "k < p"
      using pipeline_attn_dev_total [OF assms(1) z] i by auto
    obtain a' where a': "d_append k i a = Inr a'" "dict_inv [0..<p] {..<nl} a'"
      using d_append_inv [of "[0..<p]" "{..<nl}" a k i] I i k s by auto
    obtain b' where b': "d_append (i mod q) i b = Inr b'" "dict_inv [0..<q] {..<nl} b'"
      using d_append_inv [of "[0..<q]" "{..<nl}" b "i mod q" i] I i assms s by auto
    show "\<exists>s'. (case s of (attns, experts) \<Rightarrow>
         bindR (pipeline_attn_dev nl p zigzag i) (\<lambda>attn_dev.
         bindR (if q = 0 then Inl ZeroDivisionError else Inr (i mod q)) (\<lambda>exp_dev.
         bindR (d_append attn_dev i attns) (\<lambda>attns.
         bindR (d_append exp_dev i experts) (\<lambda>experts. Inr (attns, experts)))))) = Inr s' \<and> ?I s'"
      using a' b' assms s k by simp
  qed
  then show ?thesis by auto
qed

lemma slot_bound: "i < (p :: nat) \<Longrightarrow> j < d \<Longrightarrow> i * d + j < p * d"
proof -
  assume "i < p" "j < d"
  then have "i * d + j < Suc i * d" by simp
  also have "\<dots> \<le> p * d" using \<open>i < p\<close> by (intro mult_right_mono) simp_all
  finally show ?thesis .
qed

lemma physical_attn_total:
  assumes "dict_inv [0..<p] S va" and "0 < mc_tp_size c"
  shows "\<exists>ats. physical_attn c p va = Inr ats \<and> dict_inv [0..<p * mc_tp_size c * mc_dp_size c] S ats"
proof -
  let ?tp = "mc_tp_size c" and ?dp = "mc_dp_size c"
  let ?I = "dict_inv [0..<p * ?tp * ?dp] S"
  show ?thesis
    unfolding physical_attn_def Let_def
  proof (rule foldR_total)
    show "?I (map (\<lambda>i. (i, [])) [0..<p * ?tp * ?dp])" by (rule dict_inv_init)
  next
    fix x s
    assume x: "x \<in> set va" and I: "?I s"
    obtain i ls where il: "x = (i, ls)" by (cases x)
    have i: "i < p" and ls: "set ls \<subseteq> S" using assms(1) x il
      by (force simp: dict_inv_def dest: arg_cong [of _ _ set])+
    have "\<exists>s'. foldR (\<lambda>j. d_extend ((i * ?dp + j) * ?tp) ls) [0..<?dp] s = Inr s' \<and> ?I s'"
    proof (rule foldR_total [where I = ?I, OF I])
      fix j s
      assume j: "j \<in> set [0..<?dp]" and I: "?I s"
      have "i * ?dp + j < p * ?dp" using i j by (simp add: slot_bound)
      then have "(i * ?dp + j) * ?tp < p * ?dp * ?tp" using assms(2) by simp
      then show "\<exists>s'. d_extend ((i * ?dp + j) * ?tp) ls s = Inr s' \<and> ?I s'"
        by (intro d_extend_inv [OF I _ ls]) (simp add: ac_simps)
    qed
    then show "\<exists>s'. (case x of (i, layers) \<Rightarrow>
        foldR (\<lambda>j. d_extend ((i * ?dp + j) * ?tp) layers) [0..<?dp]) s = Inr s' \<and> ?I s'"
      by (simp add: il)
  qed
qed

lemma physical_experts_total:
  assumes "dict_inv [0..<q] {..<nl} ve" and "mc_num_experts c = mc_ep_size c * n"
    and "0 < mc_num_experts c"
  shows "\<exists>ex. physical_experts c p q ve = Inr ex \<and>
    dict_inv [p * mc_tp_size c * mc_dp_size c..<
        p * mc_tp_size c * mc_dp_size c + q * mc_ep_size c] {le. fst le < nl} ex"
proof -
  let ?w = "p * mc_tp_size c * mc_dp_size c" and ?ep = "mc_ep_size c"
  let ?I = "dict_inv [?w..<?w + q * ?ep] {le :: nat \<times> nat. fst le < nl}"
  have ep: "0 < ?ep" and n: "0 < n" using assms(2,3) by (auto intro: gr0I)
  have nepr: "num_experts_per_rank c = Inr n"
    using assms(2) ep by (simp add: num_experts_per_rank_def)
  show ?thesis
    unfolding physical_experts_def Let_def
  proof (rule foldR_total)
    show "?I (map (\<lambda>i. (i, [])) [?w..<?w + q * ?ep])" by (rule dict_inv_init)
  next
    fix x s
    assume x: "x \<in> set ve" and I: "?I s"
    obtain i ls where il: "x = (i, ls)" by (cases x)
    have i: "i < q" and ls: "set ls \<subseteq> {..<nl}" using assms(1) x il
      by (force simp: dict_inv_def dest: arg_cong [of _ _ set])+
    have "\<exists>s'. foldR (\<lambda>e d. bindR (num_experts_per_rank c) (\<lambda>n. if n = 0 then Inl ZeroDivisionError
        else foldR (\<lambda>l. d_append (?w + i * ?ep + e div n) (l, e)) ls d)) [0..<mc_num_experts c] s
        = Inr s' \<and> ?I s'"
    proof (rule foldR_total [where I = ?I, OF I])
      fix e s
      assume e: "e \<in> set [0..<mc_num_experts c]" and I: "?I s"
      have "e div n < ?ep" using e assms(2) n by (simp add: less_mult_imp_div_less)
      then have k: "?w + i * ?ep + e div n \<in> set [?w..<?w + q * ?ep]"
        using slot_bound [OF i] by simp
      have "\<exists>s'. foldR (\<lambda>l. d_append (?w + i * ?ep + e div n) (l, e)) ls s = Inr s' \<and> ?I s'"
        by (rule foldR_total [where I = ?I, OF I]) (use ls k in \<open>auto intro!: d_append_inv\<close>)
      then show "\<exists>s'. bindR (num_experts_per_rank c) (\<lambda>n. if n = 0 then Inl ZeroDivisionError
        else foldR (\<lambda>l. d_append (?w + i * ?ep + e div n) (l, e)) ls s) = Inr s' \<and> ?I s'"
        using nepr n by simp
    qed
    then show "\<exists>s'. (case x of (i, layers) \<Rightarrow> foldR (\<lambda>e d. bindR (num_experts_per_rank c)
        (\<lambda>n. if n = 0 then Inl ZeroDivisionError
        else foldR (\<lambda>l. d_append (?w + i * ?ep + e div n) (l, e)) layers d)) [0..<mc_num_experts c]) s
        = Inr s' \<and> ?I s'"
      by (simp add: il)
  qed
qed

lemma dict_inv_layers: "dict_inv ks S d \<Longrightarrow> (k, xs) \<in> set d \<Longrightarrow> x \<in> set xs \<Longrightarrow> x \<in> S"
  by (force simp: dict_inv_def)

lemma pipeline_solves:
  assumes "0 < p" and "0 < q" and "0 < mc_num_layers c" and "0 < mc_tp_size c" and "0 < mc_dp_size c"
    and "mc_num_experts c = mc_ep_size c * n" and "0 < mc_num_experts c"
    and "p * mc_tp_size c * mc_dp_size c + q * mc_ep_size c \<le> n_node * n_gpu"
    and "zigzag \<or> p dvd mc_num_layers c"
  shows "\<exists>pl. solve_placement (Pipeline p q zigzag) c n_node n_gpu = Inr pl"
proof -
  let ?L = "mc_num_layers c"
  have ep: "0 < mc_ep_size c" and n: "0 < n" using assms(6,7) by (auto intro: gr0I)
  obtain va ve where v: "solve_virtual ?L p q zigzag = Inr (va, ve)"
      "dict_inv [0..<p] {..<?L} va" "dict_inv [0..<q] {..<?L} ve"
    using solve_virtual_total [OF assms(1,2,9)] by blast
  obtain ats where a: "physical_attn c p va = Inr ats"
      "dict_inv [0..<p * mc_tp_size c * mc_dp_size c] {..<?L} ats"
    using physical_attn_total [OF v(2) assms(4)] by blast
  obtain ex where x: "physical_experts c p q ve = Inr ex"
      "dict_inv [p * mc_tp_size c * mc_dp_size c..<
        p * mc_tp_size c * mc_dp_size c + q * mc_ep_size c] {le. fst le < ?L} ex"
    using physical_experts_total [OF v(3) assms(6,7)] by blast
  let ?p0 = "placement_new ats ex (Some (pipeline_groups c p))"
  have s: "strategy_solve (Pipeline p q zigzag) c n_node n_gpu = Inr ?p0"
    using v(1) a(1) x(1) assms(8) by (simp add: strategy_solve_def pipeline_solve_def)
  have "l < ?L" if "holds_attn ?p0 d l" for d l
    using that dict_inv_layers [OF a(2)] by (auto simp: holds_attn_def placement_new_def)
  moreover have "l < ?L" if "holds_expert ?p0 d (l, e)" for d l e
    using that dict_inv_layers [OF x(2)] by (force simp: holds_expert_def placement_new_def)
  ultimately have "\<forall>(l, d) \<in> set (attn_layer_devs ?p0). l < ?L"
      "\<forall>(l, d) \<in> set (expert_layer_devs ?p0). l < ?L"
    by (auto simp only: set_attn_layer_devs set_expert_layer_devs split_paired_Ball_Sigma
        Ball_def split_paired_All prod.case)
  from add_edges_eq [OF assms(3) this] obtain p1 where p1: "add_edges ?L ?p0 = Inr p1" by blast
  have nepr: "num_experts_per_rank c = Inr n"
    using assms(6) ep by (simp add: num_experts_per_rank_def)
  have "\<exists>p2. update_expert_rank c None p1 = Inr p2"
    using nepr n assms(3,7) by (simp add: update_expert_rank_def)
  then obtain p2 where p2: "update_expert_rank c None p1 = Inr p2" by blast
  have "\<exists>ys. mapR (\<lambda>d. if mc_tp_size c = 0 \<or> mc_dp_size c = 0 then Inl ZeroDivisionError
      else Inr (d, d div mc_tp_size c mod mc_dp_size c)) xs = Inr ys" for xs
    using assms(4,5) by (induction xs) auto
  then obtain ys where "mapR (\<lambda>d. if mc_tp_size c = 0 \<or> mc_dp_size c = 0 then Inl ZeroDivisionError
      else Inr (d, d div mc_tp_size c mod mc_dp_size c)) (map fst (pl_attn p2)) = Inr ys" by blast
  then have "update_attn_dp_rank (Pipeline p q zigzag) c p2 = Inr (p2\<lparr>pl_attn_dp_ranks := Some ys\<rparr>)"
    by (simp add: update_attn_dp_rank_def)
  then show ?thesis by (simp add: solve_placement_def strategy_alloc_def s p1 p2)
qed

section \<open>Ranks under an explicit allocation\<close>

lemma inner_rank_fold:
  "map_of (fold (\<lambda>le. AList.update le dev) les m) x =
     (if x \<in> set les then Some dev else map_of m x)"
  by (induction les arbitrary: m) (auto simp: update_conv')

lemma alloc_rank_fold:
  "(\<exists>dev les. (dev, les) \<in> set ex \<and> x \<in> set les \<and>
      map_of (fold (\<lambda>(dev, les) m. fold (\<lambda>le. AList.update le dev) les m) ex m) x = Some dev) \<or>
   ((\<forall>(dev, les) \<in> set ex. x \<notin> set les) \<and>
      map_of (fold (\<lambda>(dev, les) m. fold (\<lambda>le. AList.update le dev) les m) ex m) x = map_of m x)"
proof (induction ex arbitrary: m)
  case (Cons p ex)
  obtain dev les where p: "p = (dev, les)" by (cases p)
  let ?m = "fold (\<lambda>le. AList.update le dev) les m"
  show ?case
    using Cons.IH [of ?m] unfolding p by (cases "x \<in> set les") (auto simp: inner_rank_fold)
qed simp

lemma alloc_expert_rank:
  assumes "update_expert_rank c (Some counts) p = Inr p'"
    and "distinct (map fst (pl_expert p))"
    and "\<And>d'. le \<in> set (d_get_or (pl_expert p) d' []) \<longleftrightarrow> d' = d"
  shows "\<exists>rks. pl_expert_ranks p' = Some rks \<and> map_of rks le = Some d"
proof -
  let ?rks = "fold (\<lambda>(dev, les) m. fold (\<lambda>le. AList.update le dev) les m) (pl_expert p) []"
  have mem: "(\<exists>les. (dev, les) \<in> set (pl_expert p) \<and> le \<in> set les) \<longleftrightarrow> dev = d" for dev
    using dict_mem [OF assms(2)] assms(3) by simp
  obtain les where d: "(d, les) \<in> set (pl_expert p)" "le \<in> set les" using mem [of d] by blast
  have "map_of ?rks le = Some d"
    using alloc_rank_fold [of "pl_expert p" le "[]"]
  proof
    assume "\<exists>dev les. (dev, les) \<in> set (pl_expert p) \<and> le \<in> set les \<and> map_of ?rks le = Some dev"
    then obtain dev les' where "(dev, les') \<in> set (pl_expert p)" "le \<in> set les'"
        "map_of ?rks le = Some dev" by blast
    then show ?thesis using mem [of dev] by blast
  qed (use d in auto)
  moreover have "pl_expert_ranks p' = Some ?rks"
    using assms(1) by (auto simp: update_expert_rank_def)
  ultimately show ?thesis by blast
qed

lemma colocate_alloc_where:
  assumes "solve_placement (Colocate (Some counts)) c n_node n_gpu = Inr pl"
    and "l < mc_num_layers c" and "e < mc_num_experts c"
  shows "\<exists>d rks. (\<forall>d'. (l, e) \<in> set (expert_ids_at pl d') \<longleftrightarrow> d' = d) \<and>
    d < n_node * n_gpu \<and> alloc_start counts d \<le> e \<and> e < alloc_start counts (Suc d) \<and>
    pl_expert_ranks pl = Some rks \<and> map_of rks (l, e) = Some d"
proof -
  obtain p0 p1 p2 where s: "strategy_solve (Colocate (Some counts)) c n_node n_gpu = Inr p0"
    and ex: "pl_expert pl = pl_expert p0" "pl_expert p1 = pl_expert p0"
    and rk: "update_expert_rank c (Some counts) p1 = Inr p2" "pl_expert_ranks pl = pl_expert_ranks p2"
    using solve_placement_parts [OF assms(1)] by (auto simp: strategy_alloc_def)
  obtain exs where cx: "colocate_experts c (Some counts) (mc_num_layers c) (mc_num_experts c)
        (n_node * n_gpu) = Inr exs" and p0: "pl_expert p0 = exs"
    using s by (auto simp: strategy_solve_def colocate_solve_def res placement_new_def Let_def)
  note loc = colocate_alloc_location [OF cx]
  have "e < (\<Sum>k \<leftarrow> counts. nat k)" using assms(3) loc by simp
  then obtain d where d: "d < length counts" "alloc_start counts d \<le> e" "e < alloc_start counts (Suc d)"
    and u: "\<And>k. k < length counts \<Longrightarrow> alloc_start counts k \<le> e \<Longrightarrow> e < alloc_start counts (Suc k) \<Longrightarrow> k = d"
    using alloc_cover by (metis (lifting))
  have mem: "(l, e) \<in> set (d_get_or exs d' []) \<longleftrightarrow> d' = d" for d'
    using loc [of l e d'] assms(2) d u by blast
  have keys: "map fst exs = [0..<n_node * n_gpu]" using loc by blast
  have dev: "d < n_node * n_gpu"
  proof -
    have "map_of exs d \<noteq> None" using mem [of d] by (cases "map_of exs d") (auto simp: d_get_or_def)
    then have "d \<in> set (map fst exs)" by (simp add: map_of_eq_None_iff)
    then show ?thesis by (simp add: keys)
  qed
  have "\<exists>rks. pl_expert_ranks p2 = Some rks \<and> map_of rks (l, e) = Some d"
    by (rule alloc_expert_rank [OF rk(1)]) (simp_all add: ex p0 keys mem)
  then show ?thesis using mem d dev by (auto simp: expert_ids_at_def ex p0 rk(2))
qed

section \<open>Properties\<close>

text \<open>
  The edges are exactly the hops of a hidden state. After \<open>_add_edges\<close> on a placement
  without edges, \<open>s\<close> stands among the in-devices of \<open>d\<close> exactly when \<open>s\<close> holds attention and
  \<open>d\<close> an expert of the same layer, or \<open>s\<close> an expert of one layer and \<open>d\<close> the attention of the
  next (after the last layer: of the first); the out-lists say the same from the other
  side, and no edge is listed twice.
\<close>

theorem add_edges_exact:
  assumes "add_edges n p = Inr p'" and "pl_in_device_ids p = []" and "pl_out_device_ids p = []"
  shows "(s \<in> set (in_device_ids_at p' d) \<longleftrightarrow>
      (\<exists>l < n. holds_attn p s l \<and> (\<exists>e. holds_expert p d (l, e))) \<or>
      (\<exists>l < n. \<exists>e. holds_expert p s (l, e) \<and> holds_attn p d (if l = n - 1 then 0 else Suc l))) \<and>
    (d \<in> set (d_get_or (pl_out_device_ids p') s []) \<longleftrightarrow> s \<in> set (in_device_ids_at p' d)) \<and>
    distinct (in_device_ids_at p' d) \<and> distinct (d_get_or (pl_out_device_ids p') s [])"
proof -
  note ls = add_edges_Inr_layers [OF assms(1)]
  let ?A = "\<lambda>l. picked l (attn_layer_devs p)" and ?E = "\<lambda>l. picked l (expert_layer_devs p)"
  have p': "p' = add_all (all_edges ?A ?E n) p"
    using add_edges_eq [of n p] ls assms(1) by simp
  have "edges_ok p"
    using assms(2,3) by (simp add: edges_ok_def in_of_def out_of_def d_get_or_def)
  then have ok: "edges_ok p'" unfolding p' by (rule add_all_ok)
  have A: "x \<in> set (?A l) \<longleftrightarrow> holds_attn p x l" for x l
    by (simp add: set_picked set_attn_layer_devs)
  have E: "x \<in> set (?E l) \<longleftrightarrow> (\<exists>e. holds_expert p x (l, e))" for x l
    by (simp add: set_picked set_expert_layer_devs)
  have "s \<in> set (in_of p' d) \<longleftrightarrow> (s, d) \<in> set (all_edges ?A ?E n)"
    unfolding p' add_all_mem using assms(2) by (simp add: in_of_def d_get_or_def)
  also have "\<dots> \<longleftrightarrow> (\<exists>l < n. holds_attn p s l \<and> (\<exists>e. holds_expert p d (l, e))) \<or>
      (\<exists>l < n. \<exists>e. holds_expert p s (l, e) \<and> holds_attn p d (if l = n - 1 then 0 else Suc l))"
  proof -
    have "(\<exists>l < n. 0 < l \<and> (\<exists>e. holds_expert p s (l - 1, e)) \<and> holds_attn p d l) \<longleftrightarrow>
        (\<exists>l < n. \<exists>e. l \<noteq> n - 1 \<and> holds_expert p s (l, e) \<and> holds_attn p d (Suc l))"
      (is "?L \<longleftrightarrow> ?R")
    proof
      assume ?L
      then obtain l e where "l < n" "0 < l" "holds_expert p s (l - 1, e)" "holds_attn p d l" by blast
      then show ?R by (intro exI [of _ "l - 1"]) auto
    next
      assume ?R
      then obtain l e where "l < n" "l \<noteq> n - 1" "holds_expert p s (l, e)" "holds_attn p d (Suc l)"
        by blast
      then show ?L by (intro exI [of _ "Suc l"]) auto
    qed
    moreover have "(\<exists>l < n. \<exists>e. holds_expert p s (l, e) \<and>
          holds_attn p d (if l = n - 1 then 0 else Suc l)) \<longleftrightarrow>
        (\<exists>l < n. \<exists>e. l \<noteq> n - 1 \<and> holds_expert p s (l, e) \<and> holds_attn p d (Suc l)) \<or>
        ((\<exists>e. holds_expert p s (n - 1, e)) \<and> holds_attn p d 0)"
      (is "?X \<longleftrightarrow> ?Y \<or> ?Z")
    proof
      assume ?X
      then obtain l e where "l < n" "holds_expert p s (l, e)"
          "holds_attn p d (if l = n - 1 then 0 else Suc l)" by blast
      then show "?Y \<or> ?Z" by (cases "l = n - 1") auto
    next
      assume yz: "?Y \<or> ?Z"
      show ?X
      proof (cases ?Y)
        case True
        then obtain l e where "l < n" "l \<noteq> n - 1" "holds_expert p s (l, e)" "holds_attn p d (Suc l)"
          by blast
        then show ?X by (intro exI [of _ l]) auto
      next
        case False
        then show ?X using yz ls by (intro exI [of _ "n - 1"]) auto
      qed
    qed
    ultimately show ?thesis unfolding set_all_edges A E by blast
  qed
  finally show ?thesis using ok
    by (simp add: edges_ok_def in_of_def out_of_def in_device_ids_at_def)
qed


text \<open>The placement on which the properties are evaluated: two layers, four experts.\<close>

definition demo_config :: model_config where
  "demo_config = (model_config_new 16 2 4 4 4 4 8 ''bfloat16'')\<lparr>mc_ep_size := 2\<rparr>"

lemma add_edges_exact_witness:
  "\<exists>p'. add_edges 2 (placement_new [(0, [0, 1])] [(1, [(0, 0), (1, 0)])] None) = Inr p' \<and>
     in_device_ids_at p' 0 = [1] \<and> in_device_ids_at p' 1 = [0]"
proof -
  let ?p = "placement_new [(0, [0, 1])] [(1, [(0, 0), (1, 0)])] None"
  have run: "add_edges 2 ?p = Inr (?p\<lparr>pl_in_device_ids := [(1, [0]), (0, [1])],
      pl_out_device_ids := [(0, [1]), (1, [0])]\<rparr>)" (is "_ = Inr ?q")
    by (simp add: add_edges_def collect_devs_def attn_layer_devs_def expert_layer_devs_def
        placement_new_def d_append_def d_get_def add_edges_of_layer_def pairs_of_def add_edge_def
        d_has_def d_get_or_def Let_def numeral_2_eq_2)
  have e: "pl_in_device_ids ?p = []" "pl_out_device_ids ?p = []"
    by (simp_all add: placement_new_def)
  have "(0 \<in> set (in_device_ids_at ?q 1)) \<and> 1 \<in> set (in_device_ids_at ?q 0)"
    using add_edges_exact [OF run e, of 0 1] add_edges_exact [OF run e, of 1 0]
    by (simp add: holds_attn_def holds_expert_def placement_new_def in_device_ids_at_def
        d_get_or_def)
  then show ?thesis using run by (simp add: in_device_ids_at_def d_get_or_def)
qed

lemma pipeline_expert_loc:
  assumes "solve_placement (Pipeline p q zigzag) c n_node n_gpu = Inr pl"
    and "mc_num_experts c = mc_ep_size c * n" and "0 < mc_num_experts c"
  shows "((l, e) \<in> set (expert_ids_at pl d) \<longleftrightarrow>
      l < mc_num_layers c \<and> e < mc_num_experts c \<and>
      d = p * mc_tp_size c * mc_dp_size c + (l mod q) * mc_ep_size c + e div n) \<and>
    (l < mc_num_layers c \<and> e < mc_num_experts c \<longrightarrow>
      (\<exists>rks. pl_expert_ranks pl = Some rks \<and> map_of rks (l, e) = Some (e div n)))"
proof -
  obtain p0 p1 p2 where s: "strategy_solve (Pipeline p q zigzag) c n_node n_gpu = Inr p0"
    and ex: "pl_expert pl = pl_expert p0"
    and rk: "update_expert_rank c None p1 = Inr p2" "pl_expert_ranks pl = pl_expert_ranks p2"
    using solve_placement_parts [OF assms(1)] by (auto simp: strategy_alloc_def)
  obtain va ve exs where v: "solve_virtual (mc_num_layers c) p q zigzag = Inr (va, ve)"
    and ph: "physical_experts c p q ve = Inr exs" and p0: "pl_expert p0 = exs"
    using s by (auto simp: strategy_solve_def pipeline_solve_def res placement_new_def)
  have dist: "distinct (map fst ve)" using solve_virtual_experts [OF v] by simp
  have "(l, e) \<in> set (expert_ids_at pl d) \<longleftrightarrow> (l, e) \<in> set (d_get_or exs d [])"
    by (simp add: expert_ids_at_def ex p0)
  also have "\<dots> \<longleftrightarrow> (\<exists>i. (l < mc_num_layers c \<and> i = l mod q) \<and> e < mc_num_experts c \<and>
      d = p * mc_tp_size c * mc_dp_size c + i * mc_ep_size c + e div n)"
    using physical_experts_location [OF ph assms(2,3) dist, of l e d]
      solve_virtual_experts [OF v, of l] by simp
  finally show ?thesis using default_expert_rank [OF rk(1) assms(2)] rk(2) by auto
qed

text \<open>
  C16: the pipeline strategy addresses every expert by its rank. Let \<open>ep_size\<close> divide the
  number of experts and let there be enough devices. With \<open>zigzag_attn\<close>, or when \<open>step_attn\<close>
  divides the number of layers, the strategy solves; without either it raises.
  Solved, the placement holds expert \<open>e\<close> of layer \<open>l\<close> on exactly one device:
  the one whose offset from the attention devices is \<open>(l mod step_expert) * ep_size\<close> plus the
  expert rank that \<open>expert_ranks\<close> records; and no device holds anything else.
\<close>

theorem pipeline_expert_device:
  assumes "0 < p" and "0 < q" and "0 < mc_num_layers c" and "0 < mc_tp_size c" and "0 < mc_dp_size c"
    and "mc_num_experts c = mc_ep_size c * n" and "0 < mc_num_experts c"
    and "p * mc_tp_size c * mc_dp_size c + q * mc_ep_size c \<le> n_node * n_gpu"
  shows "if zigzag \<or> p dvd mc_num_layers c then
    \<exists>pl rks. solve_placement (Pipeline p q zigzag) c n_node n_gpu = Inr pl \<and>
    pl_expert_ranks pl = Some rks \<and>
    (\<forall>l e d. (l, e) \<in> set (expert_ids_at pl d) \<longleftrightarrow>
      l < mc_num_layers c \<and> e < mc_num_experts c \<and>
      d = p * mc_tp_size c * mc_dp_size c + (l mod q) * mc_ep_size c + e div n) \<and>
    (\<forall>l < mc_num_layers c. \<forall>e < mc_num_experts c. map_of rks (l, e) = Some (e div n))
    else isl (solve_placement (Pipeline p q zigzag) c n_node n_gpu)"
proof (cases "zigzag \<or> p dvd mc_num_layers c")
  case False
  then obtain er where "solve_virtual (mc_num_layers c) p q zigzag = Inl er"
    using blocked_pipeline_fails [OF assms(1), of _ q] by (auto simp: isl_def)
  then have "strategy_solve (Pipeline p q zigzag) c n_node n_gpu = Inl er"
    using assms(8) by (simp add: strategy_solve_def pipeline_solve_def)
  then have "solve_placement (Pipeline p q zigzag) c n_node n_gpu = Inl er"
    by (simp add: solve_placement_def strategy_alloc_def)
  then show ?thesis using False by simp
next
  case True
  obtain pl where pl: "solve_placement (Pipeline p q zigzag) c n_node n_gpu = Inr pl"
    using pipeline_solves [OF assms True] by blast
  note loc = pipeline_expert_loc [OF pl assms(6,7)]
  obtain rks where rks: "pl_expert_ranks pl = Some rks" using loc [of 0 0] assms(3,7) by blast
  have "map_of rks (l, e) = Some (e div n)" if "l < mc_num_layers c" "e < mc_num_experts c" for l e
    using loc [of l e] that rks by simp
  then have "\<forall>l < mc_num_layers c. \<forall>e < mc_num_experts c. map_of rks (l, e) = Some (e div n)"
    by blast
  moreover have "\<forall>l e d. (l, e) \<in> set (expert_ids_at pl d) \<longleftrightarrow>
      l < mc_num_layers c \<and> e < mc_num_experts c \<and>
      d = p * mc_tp_size c * mc_dp_size c + (l mod q) * mc_ep_size c + e div n"
    using loc by blast
  ultimately show ?thesis using pl rks True by auto
qed

lemma pipeline_expert_device_witness:
  "\<exists>pl. solve_placement (Pipeline 1 1 True) demo_config 1 3 = Inr pl \<and>
     (1, 3) \<in> set (expert_ids_at pl 2) \<and> (1, 3) \<notin> set (expert_ids_at pl 1)"
proof -
  have c: "0 < mc_num_layers demo_config" "0 < mc_tp_size demo_config" "0 < mc_dp_size demo_config"
    "mc_num_experts demo_config = mc_ep_size demo_config * 2" "0 < mc_num_experts demo_config"
    "1 * mc_tp_size demo_config * mc_dp_size demo_config + 1 * mc_ep_size demo_config \<le> 1 * 3"
    "mc_num_layers demo_config = 2" "mc_tp_size demo_config = 1" "mc_dp_size demo_config = 1"
    "mc_num_experts demo_config = 4" "mc_ep_size demo_config = 2"
    by (simp_all add: demo_config_def model_config_new_def)
  obtain pl where pl: "solve_placement (Pipeline 1 1 True) demo_config 1 3 = Inr pl"
    and loc: "\<And>l e d. (l, e) \<in> set (expert_ids_at pl d) \<longleftrightarrow>
      l < mc_num_layers demo_config \<and> e < mc_num_experts demo_config \<and>
      d = 1 * mc_tp_size demo_config * mc_dp_size demo_config
        + (l mod 1) * mc_ep_size demo_config + e div 2"
    using pipeline_expert_device [OF zero_less_one zero_less_one c(1-6), of True] by auto
  have "(1, 3) \<in> set (expert_ids_at pl 2)" "(1, 3) \<notin> set (expert_ids_at pl 1)"
    unfolding loc by (simp_all add: c(7-11))
  then show ?thesis using pl by blast
qed

text \<open>
  An explicit allocation places every expert exactly once. When the colocated strategy
  solves with \<open>expert_allocation\<close>, every expert of every layer stands on exactly one device,
  device \<open>d\<close> holds precisely the \<open>counts ! d\<close> consecutive experts after those of the devices
  before it, and \<open>expert_ranks\<close> records that device.
\<close>

theorem colocate_alloc_partition:
  assumes "solve_placement (Colocate (Some counts)) c n_node n_gpu = Inr pl"
    and "l < mc_num_layers c" and "e < mc_num_experts c"
  shows "\<exists>d rks. (\<forall>d'. (l, e) \<in> set (expert_ids_at pl d') \<longleftrightarrow> d' = d) \<and>
    d < n_node * n_gpu \<and> alloc_start counts d \<le> e \<and> e < alloc_start counts (Suc d) \<and>
    pl_expert_ranks pl = Some rks \<and> map_of rks (l, e) = Some d"
  by (rule colocate_alloc_where [OF assms])

lemma colocate_alloc_partition_witness:
  "\<exists>pl d. solve_placement (Colocate (Some [3, 0, 1])) demo_config 1 3 = Inr pl \<and>
     (1, 3) \<in> set (expert_ids_at pl d) \<and> d < 3"
proof -
  have "\<not> isl (solve_placement (Colocate (Some [3, 0, 1])) demo_config 1 3)" by code_simp
  then obtain pl where pl: "solve_placement (Colocate (Some [3, 0, 1])) demo_config 1 3 = Inr pl"
    by (metis isl_def sum.exhaust)
  have "1 < mc_num_layers demo_config" "3 < mc_num_experts demo_config"
    by (simp_all add: demo_config_def model_config_new_def)
  from colocate_alloc_partition [OF pl this] show ?thesis using pl by auto
qed

section \<open>Observations\<close>

text \<open>
  \<open>SinglePlacement\<close> checks the number of edges before any edge has been added: it can never
  return a placement.
\<close>

lemma single_never_solves: "single_solve rep_attn n_layer n_expert n_node n_gpu = Inl AssertionError"
  by (simp add: single_solve_def placement_new_def bindR_def assertR_def case_prod_unfold Let_def)

text \<open>A device without experts has no rank: the query that the controller makes for it raises.\<close>

lemma zero_allocation_has_no_rank:
  "(case solve_placement (Colocate (Some [3, 0, 1])) demo_config 1 3 of
      Inl e \<Rightarrow> Inl e | Inr pl \<Rightarrow> placement_rank_at pl 1) = Inl AssertionError"
  by code_simp

text \<open>Without zigzag a number of layers that \<open>step_attn\<close> does not divide has no placement.\<close>

lemma blocked_pipeline_key_error:
  "solve_placement (Pipeline 2 1 False) (demo_config\<lparr>mc_num_layers := 5\<rparr>) 1 4 = Inl KeyError"
  by code_simp

end
