(* ===== verification/Batches.thy ===== *)
theory Batches
  imports Dicts
begin

text \<open>
  The model of \<open>disagmoe/frontend/datatypes.py\<close>: the metadata of a batch, its exchange format
  with the C++ engine, the batch that an attention worker schedules, and the latency record
  of a request. Tensors stand for the list of their elements where the program reads them
  and are left out where they are only passed on.
\<close>

section \<open>Batch metadata\<close>

record batch_metadata =
  md_shape :: "nat list"
  md_dtype :: string
  md_layer_id :: nat
  md_req_ids :: "nat list"
  md_exp_ids :: "nat list"
  md_topk_weights :: "real list"
  md_attn_dp_ranks :: "nat list"
  md_init_prefill_lens :: "int list"
  md_num_prefill_seqs :: "nat option"
  md_num_prefill_tokens :: "nat option"
  md_num_decode_tokens :: "nat option"

text \<open>The C++ structure has one more field, the tag that tells the kinds of batch apart.\<close>

datatype batch_tag = AttentionTag | ExpertTag | TokenizerTag

record batch_metadata_c = batch_metadata +
  mc_batch_tag :: batch_tag

definition metadata_from_c :: "batch_metadata_c \<Rightarrow> batch_metadata" where
  "metadata_from_c m =
     \<lparr>md_shape = md_shape m, md_dtype = md_dtype m, md_layer_id = md_layer_id m,
      md_req_ids = md_req_ids m, md_exp_ids = md_exp_ids m,
      md_topk_weights = md_topk_weights m, md_attn_dp_ranks = md_attn_dp_ranks m,
      md_init_prefill_lens = md_init_prefill_lens m,
      md_num_prefill_seqs = md_num_prefill_seqs m,
      md_num_prefill_tokens = md_num_prefill_tokens m,
      md_num_decode_tokens = md_num_decode_tokens m\<rparr>"

text \<open>\<open>to_c\<close> fills a freshly constructed structure, whose tag is \<open>tag\<close>.\<close>

definition metadata_to_c :: "batch_tag \<Rightarrow> batch_metadata \<Rightarrow> batch_metadata_c" where
  "metadata_to_c tag m =
     \<lparr>md_shape = md_shape m, md_dtype = md_dtype m, md_layer_id = md_layer_id m,
      md_req_ids = md_req_ids m, md_exp_ids = md_exp_ids m,
      md_topk_weights = md_topk_weights m, md_attn_dp_ranks = md_attn_dp_ranks m,
      md_init_prefill_lens = md_init_prefill_lens m,
      md_num_prefill_seqs = md_num_prefill_seqs m,
      md_num_prefill_tokens = md_num_prefill_tokens m,
      md_num_decode_tokens = md_num_decode_tokens m, mc_batch_tag = tag\<rparr>"

lemma metadata_roundtrip: "metadata_from_c (metadata_to_c tag m) = m"
  by (simp add: metadata_from_c_def metadata_to_c_def)

section \<open>The batch of an attention step\<close>

record attn_batch =
  ab_shape :: "nat list"
  ab_dtype :: string
  ab_layer_id :: nat
  ab_req_ids :: "nat list"
  ab_init_prefill_lens :: "int list"
  ab_num_prefill_seqs :: nat
  ab_num_prefill_tokens :: nat
  ab_num_decode_tokens :: nat
  ab_req_indices :: "nat list option"
  ab_seq_lens :: "int list option"

definition ab_num_tokens :: "attn_batch \<Rightarrow> nat" where
  "ab_num_tokens b = ab_num_decode_tokens b + ab_num_prefill_tokens b"

definition attn_batch_build :: "batch_metadata \<Rightarrow> attn_batch option" where
  "attn_batch_build m =
     (case (md_num_prefill_seqs m, md_num_prefill_tokens m, md_num_decode_tokens m) of
        (Some ps, Some pt, Some dt) \<Rightarrow> Some
          \<lparr>ab_shape = md_shape m, ab_dtype = md_dtype m, ab_layer_id = md_layer_id m,
           ab_req_ids = md_req_ids m, ab_init_prefill_lens = md_init_prefill_lens m,
           ab_num_prefill_seqs = ps, ab_num_prefill_tokens = pt, ab_num_decode_tokens = dt,
           ab_req_indices = None, ab_seq_lens = None\<rparr>
      | _ \<Rightarrow> None)"

definition attn_to_metadata :: "attn_batch \<Rightarrow> batch_metadata" where
  "attn_to_metadata b =
     \<lparr>md_shape = ab_shape b, md_dtype = ab_dtype b, md_layer_id = ab_layer_id b,
      md_req_ids = ab_req_ids b, md_exp_ids = [], md_topk_weights = [], md_attn_dp_ranks = [],
      md_init_prefill_lens = ab_init_prefill_lens b,
      md_num_prefill_seqs = Some (ab_num_prefill_seqs b),
      md_num_prefill_tokens = Some (ab_num_prefill_tokens b),
      md_num_decode_tokens = Some (ab_num_decode_tokens b)\<rparr>"

definition attn_to_metadata_c :: "batch_tag \<Rightarrow> attn_batch \<Rightarrow> batch_metadata_c" where
  "attn_to_metadata_c tag b = metadata_to_c tag (attn_to_metadata b)"

lemma attn_batch_roundtrip:
  "ab_req_indices b = None \<Longrightarrow> ab_seq_lens b = None \<Longrightarrow>
     attn_batch_build (attn_to_metadata b) = Some b"
  by (simp add: attn_batch_build_def attn_to_metadata_def)

section \<open>Latency records\<close>

record slo_stat =
  sl_req_id :: nat
  t_prefill :: real
  t_prefill_std :: real
  t_decode :: real
  t_tokens :: "real list"
  t_token_timestamps :: "real list option"

definition successive_diffs :: "real list \<Rightarrow> real list" where
  "successive_diffs ts = map (\<lambda>(x, y). (x - y) * (1 / 1000)) (zip (tl ts) (butlast ts))"

definition post_process :: "slo_stat \<Rightarrow> slo_stat" where
  "post_process s =
     s\<lparr>t_decode := (t_decode s - t_prefill s) * (1 / 1000),
       t_prefill := t_prefill s * (1 / 1000),
       t_prefill_std := t_prefill_std s * (1 / 1000),
       t_token_timestamps := Some (map (\<lambda>t. t * (1 / 1000)) (t_tokens s)),
       t_tokens := successive_diffs (t_tokens s)\<rparr>"

lemma successive_diffs_Cons2:
  "successive_diffs (x # y # ts) = (y - x) * (1 / 1000) # successive_diffs (y # ts)"
  by (simp add: successive_diffs_def)

lemma successive_diffs_length: "length (successive_diffs ts) = length ts - 1"
  by (simp add: successive_diffs_def)

text \<open>The inter-token latencies add up to the time between the first and the last token.\<close>

lemma successive_diffs_sum:
  "ts \<noteq> [] \<Longrightarrow> sum_list (successive_diffs ts) = (last ts - hd ts) * (1 / 1000)"
proof (induction ts rule: induct_list012)
  case (3 x y ts)
  then show ?case by (simp add: successive_diffs_Cons2 field_simps)
qed (simp_all add: successive_diffs_def)

record sampler_step_info =
  ss_num_tokens :: nat
  ss_time_stamp :: int

record tokenized_request =
  tr_req_id :: nat
  tr_init_prefill_len :: int
  tr_max_output_len :: int
  tr_token_ids :: "nat list"

record batch_decode_result =
  dr_req_ids :: "nat list"
  dr_token_ids :: "nat list"
  dr_is_eos :: "bool list"

end
