(* ===== verification/Detok.thy ===== *)
theory Detok
  imports Batches
begin

text \<open>
  The model of \<open>disagmoe/frontend/tokenizer.py\<close>: the \<open>Detokenizer\<close>, which turns the stream of
  decoded tokens into one latency record per request, and the \<open>Tokenizer\<close>, which hands a
  request to the queue of its attention rank. The current time is an argument of every
  step; sockets are queues of messages; each step holds the lock, so steps do not interleave.
\<close>

section \<open>The detokenizer\<close>

record detok =
  finished_seqs :: "nat set"
  active_num_requests :: int
  slo_stats :: "nat \<Rightarrow> slo_stat option"
  step_infos :: "sampler_step_info list"
  token_processed :: int
  itl_buffer :: "real list"
  last_log_ms :: int

definition detok_init :: "int \<Rightarrow> detok" where
  "detok_init now =
     \<lparr>finished_seqs = {}, active_num_requests = 0, slo_stats = Map.empty, step_infos = [],
      token_processed = 0, itl_buffer = [], last_log_ms = now\<rparr>"

text \<open>The line logged every ten seconds: throughput, mean, median and 99th percentile.\<close>

definition itl_summary :: "real list \<Rightarrow> (real \<times> real \<times> real) option" where
  "itl_summary buf =
     (if buf = [] then None
      else let l = sort buf; n = length l
           in Some (sum_list l / real n, l ! (n div 2), l ! (nat \<lfloor>real n * (99 / 100)\<rfloor>)))"

definition detok_log :: "int \<Rightarrow> detok \<Rightarrow> detok \<times> (real \<times> (real \<times> real \<times> real) option) option" where
  "detok_log cur d =
     (let elapsed = cur - last_log_ms d
      in if elapsed \<ge> 10000 then
           (d\<lparr>itl_buffer := [], token_processed := 0, last_log_ms := cur\<rparr>,
            Some (of_int (token_processed d) * 1000 / of_int elapsed, itl_summary (itl_buffer d)))
         else (d, None))"

definition detok_token :: "int \<Rightarrow> nat \<Rightarrow> detok \<Rightarrow> detok" where
  "detok_token cur rid d =
     (case slo_stats d rid of
        Some stat \<Rightarrow>
          let d = (if t_tokens stat \<noteq> []
                   then d\<lparr>itl_buffer := itl_buffer d @ [of_int cur - last (t_tokens stat)]\<rparr>
                   else d)
          in d\<lparr>slo_stats := (slo_stats d)(rid \<mapsto> stat\<lparr>t_tokens := t_tokens stat @ [of_int cur]\<rparr>)\<rparr>
      | None \<Rightarrow>
          d\<lparr>active_num_requests := active_num_requests d + 1,
            slo_stats := (slo_stats d)(rid \<mapsto>
              \<lparr>sl_req_id = rid, t_prefill = of_int cur, t_prefill_std = of_int cur,
               t_decode = 0, t_tokens = [], t_token_timestamps = None\<rparr>)\<rparr>)"

definition detok_eos :: "int \<Rightarrow> nat \<times> bool \<Rightarrow> detok \<Rightarrow> detok result" where
  "detok_eos cur = (\<lambda>(rid, eos) d.
     if eos then
       (case slo_stats d rid of
          None \<Rightarrow> Inl AssertionError
        | Some stat \<Rightarrow>
            Inr (d\<lparr>active_num_requests := active_num_requests d - 1,
                   slo_stats := (slo_stats d)(rid \<mapsto> post_process (stat\<lparr>t_decode := of_int cur\<rparr>)),
                   finished_seqs := insert rid (finished_seqs d)\<rparr>))
     else Inr d)"

text \<open>One entry of \<open>is_eos\<close> per request is read: a shorter list is an IndexError.\<close>

definition process_batch ::
  "int \<Rightarrow> batch_decode_result \<Rightarrow> detok \<Rightarrow> detok result" where
  "process_batch cur b d =
     (let n = length (dr_req_ids b);
          d = d\<lparr>token_processed := token_processed d + int n\<rparr>;
          d = fst (detok_log cur d);
          d = fold (detok_token cur) (dr_req_ids b) d;
          d = d\<lparr>step_infos := step_infos d @ [\<lparr>ss_num_tokens = n, ss_time_stamp = cur\<rparr>]\<rparr>
      in foldR (\<lambda>i d. bindR (py_get (dr_is_eos b) (int i)) (\<lambda>e. detok_eos cur (dr_req_ids b ! i, e) d))
           [0..<n] d)"

text \<open>
  A Python set is iterated in an order the language does not specify: \<open>order\<close> lists the
  elements of a finite set.
\<close>

definition fetch_finished_results ::
  "(nat set \<Rightarrow> nat list) \<Rightarrow> detok \<Rightarrow> (slo_stat list \<times> detok) result" where
  "fetch_finished_results order d =
     bindR (foldR (\<lambda>q (out, m). bindR (lookupR m q) (\<lambda>stat. Inr (out @ [stat], m(q := None))))
              (order (finished_seqs d)) ([], slo_stats d)) (\<lambda>(out, m).
       Inr (out, d\<lparr>slo_stats := m, finished_seqs := {}\<rparr>))"

definition fetch_sampler_step_infos :: "detok \<Rightarrow> sampler_step_info list \<times> detok" where
  "fetch_sampler_step_infos d = (step_infos d, d\<lparr>step_infos := []\<rparr>)"

definition detok_reset :: "detok \<Rightarrow> detok" where
  "detok_reset d =
     d\<lparr>step_infos := [], slo_stats := Map.empty, finished_seqs := {}, active_num_requests := 0\<rparr>"

section \<open>The tokenizer\<close>

record tokenizer =
  worker_queues :: "tokenized_request list list"
  t_submitted :: "nat \<Rightarrow> real option"

definition tokenizer_init :: "nat \<Rightarrow> tokenizer" where
  "tokenizer_init attn_dp_size =
     \<lparr>worker_queues = replicate attn_dp_size [], t_submitted = Map.empty\<rparr>"

definition tokenizer_put ::
  "real \<Rightarrow> nat \<Rightarrow> int \<Rightarrow> int \<Rightarrow> int \<Rightarrow> tokenizer \<Rightarrow> tokenizer result" where
  "tokenizer_put now rid init_prefill_len max_output_len dp_rank t =
     (let r = \<lparr>tr_req_id = rid, tr_init_prefill_len = init_prefill_len,
               tr_max_output_len = max_output_len, tr_token_ids = [0]\<rparr>
      in bindR (py_get (worker_queues t) dp_rank) (\<lambda>q.
         bindR (py_set (worker_queues t) dp_rank (q @ [r])) (\<lambda>qs.
           Inr (t\<lparr>worker_queues := qs, t_submitted := (t_submitted t)(rid \<mapsto> now)\<rparr>))))"

definition fetch_submitted_time :: "tokenizer \<Rightarrow> (nat \<Rightarrow> real option)" where
  "fetch_submitted_time t = t_submitted t"


section \<open>The latency of a request\<close>

text \<open>The arrival times of the tokens of a request in a stream of timed batches.\<close>

definition arrivals :: "nat \<Rightarrow> (int \<times> batch_decode_result) list \<Rightarrow> real list" where
  "arrivals rid st =
     concat (map (\<lambda>(t, b). replicate (count_list (dr_req_ids b) rid) (of_int t)) st)"

fun open_stat :: "nat \<Rightarrow> real list \<Rightarrow> slo_stat option" where
  "open_stat rid [] = None"
| "open_stat rid (t0 # ts) =
     Some \<lparr>sl_req_id = rid, t_prefill = t0, t_prefill_std = t0, t_decode = 0, t_tokens = ts,
           t_token_timestamps = None\<rparr>"

definition process_stream :: "(int \<times> batch_decode_result) list \<Rightarrow> detok \<Rightarrow> detok result" where
  "process_stream st d = foldR (\<lambda>(t, b). process_batch t b) st d"

lemma detok_token_slo:
  "slo_stats (detok_token t q d) rid =
     (if q = rid then
        (case slo_stats d rid of
           Some stat \<Rightarrow> Some (stat\<lparr>t_tokens := t_tokens stat @ [of_int t]\<rparr>)
         | None \<Rightarrow> open_stat rid [of_int t])
      else slo_stats d rid)"
  by (simp add: detok_token_def Let_def split: option.split)

lemma open_stat_step:
  "(case open_stat rid ts of
      Some stat \<Rightarrow> Some (stat\<lparr>t_tokens := t_tokens stat @ [t]\<rparr>)
    | None \<Rightarrow> open_stat rid [t]) = open_stat rid (ts @ [t])"
  by (cases ts) simp_all

lemma detok_tokens_slo:
  "slo_stats d rid = open_stat rid ts \<Longrightarrow>
     slo_stats (fold (detok_token t) qs d) rid = open_stat rid (ts @ replicate (count_list qs rid) (of_int t))"
proof (induction qs arbitrary: d ts)
  case (Cons q qs)
  show ?case
  proof (cases "q = rid")
    case True
    have "slo_stats (detok_token t q d) rid = open_stat rid (ts @ [of_int t])"
      unfolding detok_token_slo using True Cons.prems open_stat_step [where rid = rid and ts = ts and t = "of_int t"] by simp
    from Cons.IH [OF this] show ?thesis using True by simp
  next
    case False
    have "slo_stats (detok_token t q d) rid = open_stat rid ts"
      unfolding detok_token_slo using False Cons.prems by simp
    from Cons.IH [OF this] show ?thesis using False by simp
  qed
qed simp

lemma detok_log_slo [simp]: "slo_stats (fst (detok_log t d)) = slo_stats d"
  by (simp add: detok_log_def Let_def)

lemma detok_eos_other:
  assumes "detok_eos t (q, e) d = Inr d'" and "q \<noteq> rid \<or> \<not> e"
  shows "slo_stats d' rid = slo_stats d rid"
  using assms by (auto simp: detok_eos_def split: if_splits option.splits)

lemma eos_loop_other:
  assumes "foldR (\<lambda>i d. bindR (py_get (dr_is_eos b) (int i)) (\<lambda>e. detok_eos t (dr_req_ids b ! i, e) d))
      ls d = Inr d'"
    and "\<forall>i \<in> set ls. dr_req_ids b ! i = rid \<longrightarrow> py_get (dr_is_eos b) (int i) = Inr False"
  shows "slo_stats d' rid = slo_stats d rid"
  using assms
proof (induction ls arbitrary: d)
  case (Cons i ls)
  then obtain e d1 where e: "py_get (dr_is_eos b) (int i) = Inr e"
    and d1: "detok_eos t (dr_req_ids b ! i, e) d = Inr d1"
    and rest: "foldR (\<lambda>i d. bindR (py_get (dr_is_eos b) (int i))
        (\<lambda>e. detok_eos t (dr_req_ids b ! i, e) d)) ls d1 = Inr d'"
    by (auto simp: bindR_Inr_iff)
  have "dr_req_ids b ! i \<noteq> rid \<or> \<not> e" using Cons.prems(2) e by auto
  then have "slo_stats d1 rid = slo_stats d rid" by (rule detok_eos_other [OF d1])
  then show ?case using Cons.IH [OF rest] Cons.prems(2) by simp
qed simp

text \<open>\<open>rid\<close> has an end of sequence at no position of the batch.\<close>

definition no_eos :: "nat \<Rightarrow> batch_decode_result \<Rightarrow> bool" where
  "no_eos rid b \<longleftrightarrow> (\<forall>i < length (dr_req_ids b). dr_req_ids b ! i = rid \<longrightarrow>
     i < length (dr_is_eos b) \<and> \<not> dr_is_eos b ! i)"

lemma process_batch_open:
  assumes "process_batch t b d = Inr d'" and "no_eos rid b" and "slo_stats d rid = open_stat rid ts"
  shows "slo_stats d' rid = open_stat rid (ts @ replicate (count_list (dr_req_ids b) rid) (of_int t))"
proof -
  define d1 where "d1 = fold (detok_token t) (dr_req_ids b)
      (fst (detok_log t (d\<lparr>token_processed := token_processed d + int (length (dr_req_ids b))\<rparr>)))"
  define d2 where "d2 = d1\<lparr>step_infos := step_infos d1 @
      [\<lparr>ss_num_tokens = length (dr_req_ids b), ss_time_stamp = t\<rparr>]\<rparr>"
  have run: "foldR (\<lambda>i d. bindR (py_get (dr_is_eos b) (int i))
      (\<lambda>e. detok_eos t (dr_req_ids b ! i, e) d)) [0..<length (dr_req_ids b)] d2 = Inr d'"
    using assms(1) by (simp add: process_batch_def Let_def d1_def d2_def)
  have "slo_stats d2 rid = open_stat rid (ts @ replicate (count_list (dr_req_ids b) rid) (of_int t))"
    unfolding d2_def d1_def using assms(3) by (simp add: detok_tokens_slo)
  moreover have "slo_stats d' rid = slo_stats d2 rid"
    by (rule eos_loop_other [OF run]) (use assms(2) in \<open>auto simp: no_eos_def\<close>)
  ultimately show ?thesis by simp
qed

lemma process_stream_open:
  assumes "process_stream st d = Inr d'" and "\<forall>(t, b) \<in> set st. no_eos rid b"
    and "slo_stats d rid = open_stat rid ts"
  shows "slo_stats d' rid = open_stat rid (ts @ arrivals rid st)"
  using assms
proof (induction st arbitrary: d ts)
  case Nil
  then show ?case by (simp add: process_stream_def arrivals_def)
next
  case (Cons p st)
  obtain t b where p: "p = (t, b)" by (cases p)
  obtain d1 where d1: "process_batch t b d = Inr d1" "process_stream st d1 = Inr d'"
    using Cons.prems(1) p by (auto simp: process_stream_def res)
  have "slo_stats d1 rid = open_stat rid (ts @ replicate (count_list (dr_req_ids b) rid) (of_int t))"
    by (rule process_batch_open [OF d1(1) _ Cons.prems(3)]) (use Cons.prems(2) p in auto)
  from Cons.IH [OF d1(2) _ this] show ?case using Cons.prems(2) p by (simp add: arrivals_def)
qed


lemma count_one_other:
  assumes "count_list xs x = 1" and "i < length xs" and "xs ! i = x" and "j < length xs" and "xs ! j = x"
  shows "j = i"
proof (rule ccontr)
  let ?S = "{k. k < length xs \<and> x = xs ! k}"
  assume "j \<noteq> i"
  then have "card {i, j} = 2" by simp
  moreover have "card {i, j} \<le> card ?S" using assms(2-5) by (intro card_mono) auto
  moreover have "card ?S = 1"
    using assms(1) unfolding count_list_eq_length_filter length_filter_conv_card .
  ultimately show False by simp
qed

lemma process_batch_close:
  assumes "process_batch t b d = Inr d'" and "slo_stats d rid = open_stat rid ts" and "ts \<noteq> []"
    and "count_list (dr_req_ids b) rid = 1" and "i < length (dr_req_ids b)"
    and "dr_req_ids b ! i = rid" and "i < length (dr_is_eos b)" and "dr_is_eos b ! i"
  shows "slo_stats d' rid = map_option (\<lambda>s. post_process (s\<lparr>t_decode := of_int t\<rparr>))
      (open_stat rid (ts @ [of_int t])) \<and> rid \<in> finished_seqs d'"
proof -
  define d1 where "d1 = fold (detok_token t) (dr_req_ids b)
      (fst (detok_log t (d\<lparr>token_processed := token_processed d + int (length (dr_req_ids b))\<rparr>)))"
  define d2 where "d2 = d1\<lparr>step_infos := step_infos d1 @
      [\<lparr>ss_num_tokens = length (dr_req_ids b), ss_time_stamp = t\<rparr>]\<rparr>"
  define f where "f = (\<lambda>i d. bindR (py_get (dr_is_eos b) (int i)) (\<lambda>e. detok_eos t (dr_req_ids b ! i, e) d))"
  have run: "foldR f [0..<length (dr_req_ids b)] d2 = Inr d'"
    using assms(1) by (simp add: process_batch_def Let_def d1_def d2_def f_def)
  have slo2: "slo_stats d2 rid = open_stat rid (ts @ [of_int t])"
    unfolding d2_def d1_def using assms(2,4) by (simp add: detok_tokens_slo)
  have up: "[0..<length (dr_req_ids b)] = [0..<i] @ i # [Suc i..<length (dr_req_ids b)]"
    using upt_add_eq_append [of 0 i "length (dr_req_ids b) - i"] upt_conv_Cons [OF assms(5)] assms(5)
    by simp
  obtain d3 d4 where d3: "foldR f [0..<i] d2 = Inr d3" and d4: "f i d3 = Inr d4"
    and d5: "foldR f [Suc i..<length (dr_req_ids b)] d4 = Inr d'"
    using run unfolding up by (auto simp: foldR_append res)
  have other: "dr_req_ids b ! j = rid \<longrightarrow> py_get (dr_is_eos b) (int j) = Inr False"
    if "j < length (dr_req_ids b)" "j \<noteq> i" for j
    using count_one_other [OF assms(4,5,6) that(1)] that(2) by blast
  have s3: "slo_stats d3 rid = slo_stats d2 rid"
    by (rule eos_loop_other [OF d3 [unfolded f_def]]) (use assms(5) other in auto)
  have s5: "slo_stats d' rid = slo_stats d4 rid"
    by (rule eos_loop_other [OF d5 [unfolded f_def]]) (use other in auto)
  obtain stat where stat: "open_stat rid (ts @ [of_int t]) = Some stat"
    using assms(3) by (cases ts) auto
  have "detok_eos t (rid, True) d3 = Inr d4"
    using d4 assms(6-8) by (simp add: f_def)
  then have s4: "slo_stats d4 rid = Some (post_process (stat\<lparr>t_decode := of_int t\<rparr>))"
      "rid \<in> finished_seqs d4"
    using stat s3 slo2 by (auto simp: detok_eos_def)
  have "rid \<in> finished_seqs d'"
  proof (rule foldR_invariant [OF d5, where I = "\<lambda>d. rid \<in> finished_seqs d"])
    show "rid \<in> finished_seqs d4" by (rule s4(2))
  qed (auto simp: f_def res detok_eos_def split: if_splits option.splits)
  then show ?thesis using s5 s4 stat by simp
qed

text \<open>The bookkeeping invariant: active requests are those seen and not finished.\<close>

definition detok_inv :: "detok \<Rightarrow> bool" where
  "detok_inv d \<longleftrightarrow> finite (dom (slo_stats d)) \<and> finished_seqs d \<subseteq> dom (slo_stats d) \<and>
     active_num_requests d = int (card (dom (slo_stats d) - finished_seqs d))"

lemma detok_token_inv:
  assumes "detok_inv d" and "q \<notin> finished_seqs d"
  shows "detok_inv (detok_token t q d) \<and> finished_seqs (detok_token t q d) = finished_seqs d \<and>
    dom (slo_stats (detok_token t q d)) = insert q (dom (slo_stats d))"
proof (cases "slo_stats d q")
  case None
  then have "q \<notin> dom (slo_stats d) - finished_seqs d" by auto
  moreover have "insert q (dom (slo_stats d)) - finished_seqs d
      = insert q (dom (slo_stats d) - finished_seqs d)" using assms(2) by auto
  ultimately show ?thesis using None assms(1)
    by (auto simp: detok_token_def detok_inv_def)
next
  case (Some stat)
  then have "insert q (dom (slo_stats d)) = dom (slo_stats d)" by auto
  then show ?thesis using Some assms(1) by (simp add: detok_token_def detok_inv_def Let_def)
qed

lemma detok_tokens_inv:
  "detok_inv d \<Longrightarrow> set qs \<inter> finished_seqs d = {} \<Longrightarrow>
     detok_inv (fold (detok_token t) qs d) \<and>
     finished_seqs (fold (detok_token t) qs d) = finished_seqs d \<and>
     dom (slo_stats (fold (detok_token t) qs d)) = set qs \<union> dom (slo_stats d)"
proof (induction qs arbitrary: d)
  case (Cons q qs)
  have q: "q \<notin> finished_seqs d" using Cons.prems(2) by auto
  note st = detok_token_inv [OF Cons.prems(1) q, of t]
  have "set qs \<inter> finished_seqs (detok_token t q d) = {}" using Cons.prems(2) st by auto
  from Cons.IH [OF _ this] st show ?case by auto
qed simp

lemma detok_eos_inv:
  assumes "detok_inv d" and "q \<in> dom (slo_stats d)" and "q \<notin> finished_seqs d"
  shows "\<exists>d'. detok_eos t (q, e) d = Inr d' \<and> detok_inv d' \<and> dom (slo_stats d') = dom (slo_stats d) \<and>
    finished_seqs d' = (if e then insert q (finished_seqs d) else finished_seqs d)"
proof (cases e)
  case True
  obtain stat where stat: "slo_stats d q = Some stat" using assms(2) by auto
  have dom: "insert q (dom (slo_stats d)) = dom (slo_stats d)" using assms(2) by auto
  have "dom (slo_stats d) - insert q (finished_seqs d)
      = (dom (slo_stats d) - finished_seqs d) - {q}" by auto
  moreover have "q \<in> dom (slo_stats d) - finished_seqs d" using assms by simp
  moreover have "finite (dom (slo_stats d) - finished_seqs d)" using assms(1) by (simp add: detok_inv_def)
  ultimately have "int (card (dom (slo_stats d) - insert q (finished_seqs d)))
      = int (card (dom (slo_stats d) - finished_seqs d)) - 1"
    by (metis One_nat_def card_Diff_singleton card_gt_0_iff empty_iff int_ops(2) of_nat_diff Suc_leI)
  then show ?thesis using True stat dom assms by (simp add: detok_eos_def detok_inv_def)
qed (use assms in \<open>simp add: detok_eos_def\<close>)


lemma eos_loop_inv:
  assumes "detok_inv d" and "distinct (map fst toks)" and "fst ` set toks \<subseteq> dom (slo_stats d)"
    and "fst ` set toks \<inter> finished_seqs d = {}"
  shows "\<exists>d'. foldR (detok_eos t) toks d = Inr d' \<and> detok_inv d' \<and>
    dom (slo_stats d') = dom (slo_stats d) \<and>
    finished_seqs d' = finished_seqs d \<union> {q. (q, True) \<in> set toks}"
  using assms
proof (induction toks arbitrary: d)
  case (Cons p toks)
  obtain q e where p: "p = (q, e)" by (cases p)
  obtain d1 where d1: "detok_eos t (q, e) d = Inr d1" "detok_inv d1"
      "dom (slo_stats d1) = dom (slo_stats d)"
      "finished_seqs d1 = (if e then insert q (finished_seqs d) else finished_seqs d)"
    using detok_eos_inv [of d q t e] Cons.prems p by auto
  have dj: "fst ` set toks \<inter> finished_seqs d1 = {}" "fst ` set toks \<subseteq> dom (slo_stats d1)"
    "distinct (map fst toks)"
    using Cons.prems(2-4) p d1(3,4) by auto
  obtain d' where "foldR (detok_eos t) toks d1 = Inr d'" "detok_inv d'"
      "dom (slo_stats d') = dom (slo_stats d1)"
      "finished_seqs d' = finished_seqs d1 \<union> {q. (q, True) \<in> set toks}"
    using Cons.IH [OF d1(2) dj(3) dj(2) dj(1)] by blast
  then show ?case using d1 p by (cases e) auto
qed simp

lemma process_batch_inv:
  assumes "detok_inv d" and "distinct (dr_req_ids b)" and "length (dr_is_eos b) = length (dr_req_ids b)"
    and "set (dr_req_ids b) \<inter> finished_seqs d = {}"
  shows "\<exists>d'. process_batch t b d = Inr d' \<and> detok_inv d' \<and>
    dom (slo_stats d') = set (dr_req_ids b) \<union> dom (slo_stats d) \<and>
    finished_seqs d' = finished_seqs d \<union> {q. (q, True) \<in> set (zip (dr_req_ids b) (dr_is_eos b))}"
proof -
  let ?qs = "dr_req_ids b" and ?es = "dr_is_eos b"
  define d0 where "d0 = fst (detok_log t (d\<lparr>token_processed := token_processed d + int (length ?qs)\<rparr>))"
  define d1 where "d1 = fold (detok_token t) ?qs d0"
  define d2 where "d2 = d1\<lparr>step_infos := step_infos d1 @ [\<lparr>ss_num_tokens = length ?qs, ss_time_stamp = t\<rparr>]\<rparr>"
  have i0: "detok_inv d0" "finished_seqs d0 = finished_seqs d" "slo_stats d0 = slo_stats d"
    using assms(1) by (simp_all add: d0_def detok_log_def detok_inv_def Let_def)
  have i1: "detok_inv d1 \<and> finished_seqs d1 = finished_seqs d \<and>
      dom (slo_stats d1) = set ?qs \<union> dom (slo_stats d)"
    unfolding d1_def using detok_tokens_inv [OF i0(1), of ?qs t] assms(4) i0 by simp
  have d2s: "detok_inv d2 = detok_inv d1" "finished_seqs d2 = finished_seqs d1"
      "slo_stats d2 = slo_stats d1"
    by (simp_all add: d2_def detok_inv_def)
  have i2: "detok_inv d2" "finished_seqs d2 = finished_seqs d"
      "dom (slo_stats d2) = set ?qs \<union> dom (slo_stats d)"
    unfolding d2s using i1 by blast+
  have "foldR (\<lambda>i d. bindR (py_get ?es (int i)) (\<lambda>e. detok_eos t (?qs ! i, e) d)) [0..<length ?qs] d2
      = foldR (\<lambda>i. detok_eos t (?qs ! i, ?es ! i)) [0..<length ?qs] d2"
    by (rule foldR_cong) (use assms(3) in auto)
  also have "\<dots> = foldR (detok_eos t) (map (\<lambda>i. (?qs ! i, ?es ! i)) [0..<length ?qs]) d2"
    by (simp add: foldR_map)
  also have "map (\<lambda>i. (?qs ! i, ?es ! i)) [0..<length ?qs] = zip ?qs ?es"
    using assms(3) by (intro nth_equalityI) simp_all
  finally have run: "process_batch t b d = foldR (detok_eos t) (zip ?qs ?es) d2"
    by (simp add: process_batch_def Let_def d0_def d1_def d2_def)
  have "map fst (zip ?qs ?es) = ?qs" using assms(3) by simp
  moreover from this have "fst ` set (zip ?qs ?es) = set ?qs" by (metis image_set)
  ultimately show ?thesis
    using eos_loop_inv [OF i2(1), of "zip ?qs ?es" t] assms(2,4) i2 run by auto
qed


text \<open>\<open>fetch_finished_results\<close> hands out one record per finished request and forgets it.\<close>

lemma fetch_loop:
  assumes "distinct qs" and "set qs \<subseteq> dom m"
  shows "foldR (\<lambda>q (out, m). bindR (lookupR m q) (\<lambda>stat. Inr (out @ [stat], m(q := None)))) qs (out, m)
    = Inr (out @ map (\<lambda>q. the (m q)) qs, m |` (- set qs))"
  using assms
proof (induction qs arbitrary: out m)
  case (Cons q qs)
  obtain stat where stat: "m q = Some stat" using Cons.prems(2) by auto
  have "set qs \<subseteq> dom (m(q := None))" using Cons.prems by auto
  moreover have "m(q := None) |` (- set qs) = m |` (- set (q # qs))"
    by (auto simp: restrict_map_def fun_eq_iff)
  moreover have "map (\<lambda>x. the ((m(q := None)) x)) qs = map (\<lambda>x. the (m x)) qs"
    using Cons.prems(1) by auto
  moreover have "distinct qs" using Cons.prems(1) by simp
  ultimately show ?case
    using Cons.IH [of "m(q := None)" "out @ [stat]"] stat by (simp del: fun_upd_apply)
qed (simp add: restrict_map_def)

lemma fetch_finished_spec:
  assumes "detok_inv d" and "distinct (order (finished_seqs d))"
    and "set (order (finished_seqs d)) = finished_seqs d"
  shows "\<exists>d'. fetch_finished_results order d =
      Inr (map (\<lambda>q. the (slo_stats d q)) (order (finished_seqs d)), d') \<and>
    detok_inv d' \<and> finished_seqs d' = {} \<and> slo_stats d' = slo_stats d |` (- finished_seqs d) \<and>
    active_num_requests d' = active_num_requests d"
proof -
  have "set (order (finished_seqs d)) \<subseteq> dom (slo_stats d)"
    using assms(1,3) by (simp add: detok_inv_def)
  from fetch_loop [OF assms(2) this, of "[]"]
  have run: "fetch_finished_results order d = Inr (map (\<lambda>q. the (slo_stats d q)) (order (finished_seqs d)),
      d\<lparr>slo_stats := slo_stats d |` (- finished_seqs d), finished_seqs := {}\<rparr>)"
    by (simp add: fetch_finished_results_def assms(3))
  have "dom (slo_stats d) \<inter> - finished_seqs d = dom (slo_stats d) - finished_seqs d" by auto
  then show ?thesis using run assms(1) by (simp add: detok_inv_def)
qed

section \<open>Properties\<close>

text \<open>
  C19: the latency record of a request. If the tokens of a request arrive in a stream of
  batches at times \<open>t0, ts\<close> without an end of sequence, and a last batch at time \<open>t\<close> holds one
  token of it with the end of sequence, then its record carries the time of the first token,
  the decode time \<open>t - t0\<close>, the timestamps of the arrivals after the first and the
  differences between consecutive ones of these (the gap between the first and the second
  token is in no difference), all in seconds, and the request is finished.
\<close>

theorem detok_request_latency:
  assumes "process_stream st d = Inr d1" and "slo_stats d rid = None"
    and "\<forall>(t, b) \<in> set st. no_eos rid b" and "arrivals rid st = t0 # ts"
    and "process_batch t b d1 = Inr d2" and "count_list (dr_req_ids b) rid = 1"
    and "i < length (dr_req_ids b)" and "dr_req_ids b ! i = rid"
    and "i < length (dr_is_eos b)" and "dr_is_eos b ! i"
  shows "slo_stats d2 rid = Some
      \<lparr>sl_req_id = rid, t_prefill = t0 / 1000, t_prefill_std = t0 / 1000,
       t_decode = (of_int t - t0) / 1000, t_tokens = successive_diffs (ts @ [of_int t]),
       t_token_timestamps = Some (map (\<lambda>x. x / 1000) (ts @ [of_int t]))\<rparr> \<and>
    rid \<in> finished_seqs d2"
proof -
  have "slo_stats d rid = open_stat rid []" using assms(2) by simp
  from process_stream_open [OF assms(1,3) this]
  have "slo_stats d1 rid = open_stat rid (t0 # ts)" using assms(4) by simp
  from process_batch_close [OF assms(5) this _ assms(6-10)] show ?thesis
    by (simp add: post_process_def)
qed

definition demo_stream :: "(int \<times> batch_decode_result) list" where
  "demo_stream =
     [(1000, \<lparr>dr_req_ids = [5, 6], dr_token_ids = [1, 1], dr_is_eos = [False, False]\<rparr>),
      (1400, \<lparr>dr_req_ids = [6, 5], dr_token_ids = [1, 1], dr_is_eos = [True, False]\<rparr>)]"

definition demo_last :: batch_decode_result where
  "demo_last = \<lparr>dr_req_ids = [5], dr_token_ids = [1], dr_is_eos = [True]\<rparr>"

lemma detok_request_latency_witness:
  "\<exists>d1 d2. process_stream demo_stream (detok_init 0) = Inr d1 \<and>
     process_batch 2000 demo_last d1 = Inr d2 \<and>
     map_option t_decode (slo_stats d2 5) = Some 1 \<and>
     map_option t_tokens (slo_stats d2 5) = Some [3 / 5]"
proof -
  have i0: "detok_inv (detok_init 0)" by (simp add: detok_inv_def detok_init_def)
  have "\<exists>d1. process_stream demo_stream (detok_init 0) = Inr d1"
    by (simp add: process_stream_def demo_stream_def process_batch_def detok_log_def detok_token_def
        detok_eos_def detok_init_def py_get_def py_pos_def Let_def upt_rec)
  then obtain d1 where d1: "process_stream demo_stream (detok_init 0) = Inr d1" by blast
  have "\<exists>d2. process_batch 2000 demo_last d1 = Inr d2"
    by (simp add: demo_last_def process_batch_def detok_token_def
        detok_eos_def py_get_def py_pos_def Let_def split: option.split)
  then obtain d2 where d2: "process_batch 2000 demo_last d1 = Inr d2" by blast
  have h: "slo_stats (detok_init 0) 5 = None" "\<forall>(t, b) \<in> set demo_stream. no_eos 5 b"
    "arrivals 5 demo_stream = 1000 # [1400]"
    "count_list (dr_req_ids demo_last) 5 = 1" "0 < length (dr_req_ids demo_last)"
    "dr_req_ids demo_last ! 0 = 5" "0 < length (dr_is_eos demo_last)" "dr_is_eos demo_last ! 0"
    by (simp_all add: detok_init_def demo_stream_def demo_last_def no_eos_def arrivals_def less_Suc_eq)
  show ?thesis
    using detok_request_latency [OF d1 h(1-3) d2 h(4-8)] d1 d2
    by (simp add: successive_diffs_def)
qed


text \<open>
  no request is lost or counted twice. A batch that names each request at most once and
  none that is already finished is processed without an error, and the fetch that follows
  returns exactly one record per finished request; after it the requests counted as active
  are exactly those that still have a record.
\<close>

theorem detok_batch_then_fetch:
  assumes "detok_inv d" and "distinct (dr_req_ids b)"
    and "length (dr_is_eos b) = length (dr_req_ids b)"
    and "set (dr_req_ids b) \<inter> finished_seqs d = {}"
    and "\<And>S. finite S \<Longrightarrow> distinct (order S) \<and> set (order S) = S"
  shows "\<exists>d1 res d2. process_batch t b d = Inr d1 \<and> fetch_finished_results order d1 = Inr (res, d2) \<and>
    length res = card (finished_seqs d \<union> {q. (q, True) \<in> set (zip (dr_req_ids b) (dr_is_eos b))}) \<and>
    finished_seqs d2 = {} \<and> active_num_requests d2 = int (card (dom (slo_stats d2))) \<and>
    dom (slo_stats d2) = set (dr_req_ids b) \<union> dom (slo_stats d)
      - (finished_seqs d \<union> {q. (q, True) \<in> set (zip (dr_req_ids b) (dr_is_eos b))})"
proof -
  obtain d1 where d1: "process_batch t b d = Inr d1" "detok_inv d1"
      "dom (slo_stats d1) = set (dr_req_ids b) \<union> dom (slo_stats d)"
      "finished_seqs d1 = finished_seqs d \<union> {q. (q, True) \<in> set (zip (dr_req_ids b) (dr_is_eos b))}"
    using process_batch_inv [OF assms(1-4)] by blast
  have fin: "finite (finished_seqs d1)"
    using d1(2) finite_subset by (auto simp: detok_inv_def)
  note ord = assms(5) [OF fin]
  obtain d2 where d2: "fetch_finished_results order d1 =
      Inr (map (\<lambda>q. the (slo_stats d1 q)) (order (finished_seqs d1)), d2)"
      "detok_inv d2" "finished_seqs d2 = {}" "slo_stats d2 = slo_stats d1 |` (- finished_seqs d1)"
    using fetch_finished_spec [OF d1(2)] ord by blast
  have "length (order (finished_seqs d1)) = card (finished_seqs d1)"
    using ord by (metis distinct_card)
  moreover have "active_num_requests d2 = int (card (dom (slo_stats d2)))"
    using d2(2,3) by (simp add: detok_inv_def)
  moreover have "dom (slo_stats d2) = dom (slo_stats d1) - finished_seqs d1"
    using d2(4) by auto
  ultimately show ?thesis using d1 d2(1,3) by auto
qed

lemma detok_batch_then_fetch_witness:
  "\<exists>d1 res d2. process_batch 7 demo_last (detok_init 0) = Inr d1 \<and>
     fetch_finished_results sorted_list_of_set d1 = Inr (res, d2) \<and> length res = 1 \<and>
     active_num_requests d2 = 0"
proof -
  have i0: "detok_inv (detok_init 0)" by (simp add: detok_inv_def detok_init_def)
  have h: "distinct (dr_req_ids demo_last)" "length (dr_is_eos demo_last) = length (dr_req_ids demo_last)"
    "set (dr_req_ids demo_last) \<inter> finished_seqs (detok_init 0) = {}"
    by (simp_all add: demo_last_def detok_init_def)
  have o: "distinct (sorted_list_of_set S) \<and> set (sorted_list_of_set S) = S" if "finite S" for S :: "nat set"
    using that by simp
  have s: "{q. (q, True) \<in> set (zip (dr_req_ids demo_last) (dr_is_eos demo_last))} = {5}"
    by (auto simp: demo_last_def)
  show ?thesis
    using detok_batch_then_fetch [OF i0 h o, of 7] unfolding s
    by (auto simp: demo_last_def detok_init_def)
qed

end
