(* ===== verification/KVBlocks.thy ===== *)
theory KVBlocks
  imports Batches Pools "HOL-Library.Signed_Division"
begin

text \<open>
  The model of the C++ \<open>BlockManager\<close> (\<open>csrc/engine/block_manager.cpp\<close>), on which the Python
  CPU block manager rests: a queue of free KV-cache blocks and a table that maps each
  request to the list of its blocks. \<open>ASSERT\<close> aborts the process: it is the error
  \<open>CppAssertion\<close>, which also stands for reading a vector beyond its end. C++ division
  truncates (\<open>sdiv\<close>, \<open>smod\<close>); the int arithmetic of the code stays far below 2^31 for the
  sizes the program uses and is not wrapped.
\<close>

section \<open>Operations\<close>

record cpp_blocks =
  cb_block_size :: int
  cb_num_blocks :: int
  cb_reserved :: int
  cb_free :: "int list"
  cb_tables :: "nat \<Rightarrow> int list option"

definition cpp_assert :: "bool \<Rightarrow> unit result" where
  "cpp_assert b = (if b then Inr () else Inl CppAssertion)"

definition vec_get :: "'a list \<Rightarrow> int \<Rightarrow> 'a result" where
  "vec_get xs i = (if 0 \<le> i \<and> i < int (length xs) then Inr (xs ! nat i) else Inl CppAssertion)"

definition cb_init :: "int \<Rightarrow> int \<Rightarrow> int \<Rightarrow> cpp_blocks" where
  "cb_init block_size num_blocks reserved =
     \<lparr>cb_block_size = block_size, cb_num_blocks = num_blocks, cb_reserved = reserved,
      cb_free = map int [0..<nat (num_blocks + reserved)], cb_tables = Map.empty\<rparr>"

definition get_one_free_block :: "cpp_blocks \<Rightarrow> (int \<times> cpp_blocks) result" where
  "get_one_free_block s =
     (case cb_free s of [] \<Rightarrow> Inl CppAssertion | b # bs \<Rightarrow> Inr (b, s\<lparr>cb_free := bs\<rparr>))"

definition num_free_blocks :: "cpp_blocks \<Rightarrow> int" where
  "num_free_blocks s = int (length (cb_free s))"

definition cb_release :: "nat \<Rightarrow> cpp_blocks \<Rightarrow> cpp_blocks result" where
  "cb_release req s =
     (case cb_tables s req of
        None \<Rightarrow> Inl CppAssertion
      | Some l \<Rightarrow> Inr (s\<lparr>cb_free := cb_free s @ l, cb_tables := (cb_tables s)(req := None)\<rparr>))"

definition cb_batch_release :: "nat list \<Rightarrow> cpp_blocks \<Rightarrow> cpp_blocks result" where
  "cb_batch_release reqs s = foldR cb_release reqs s"

definition blocks_needed :: "cpp_blocks \<Rightarrow> int \<Rightarrow> int" where
  "blocks_needed s seq_len = (seq_len - 1) sdiv cb_block_size s + 1"

definition can_allocate :: "cpp_blocks \<Rightarrow> int \<Rightarrow> bool" where
  "can_allocate s seq_len \<longleftrightarrow> num_free_blocks s \<ge> blocks_needed s seq_len + cb_reserved s"

text \<open>Drawing \<open>n\<close> blocks one by one from the front of the queue.\<close>

fun draw_blocks :: "nat \<Rightarrow> cpp_blocks \<Rightarrow> (int list \<times> cpp_blocks) result" where
  "draw_blocks 0 s = Inr ([], s)"
| "draw_blocks (Suc n) s =
     bindR (get_one_free_block s) (\<lambda>(b, s1).
     bindR (draw_blocks n s1) (\<lambda>(bs, s2). Inr (b # bs, s2)))"

definition cb_allocate :: "nat \<Rightarrow> int \<Rightarrow> cpp_blocks \<Rightarrow> cpp_blocks result" where
  "cb_allocate req seq_len s =
     bindR (cpp_assert (cb_tables s req = None)) (\<lambda>_.
     bindR (cpp_assert (can_allocate s seq_len)) (\<lambda>_.
     bindR (cpp_assert (0 \<le> blocks_needed s seq_len)) (\<lambda>_.
     bindR (draw_blocks (nat (blocks_needed s seq_len)) s) (\<lambda>(bs, s).
       Inr (s\<lparr>cb_tables := (cb_tables s)(req \<mapsto> bs)\<rparr>)))))"

definition cb_append_block :: "nat \<Rightarrow> cpp_blocks \<Rightarrow> cpp_blocks result" where
  "cb_append_block req s =
     bindR (cpp_assert (num_free_blocks s > 0)) (\<lambda>_.
     bindR (get_one_free_block s) (\<lambda>(b, s).
       case cb_tables s req of
         None \<Rightarrow> Inl CppAssertion
       | Some l \<Rightarrow> Inr (s\<lparr>cb_tables := (cb_tables s)(req \<mapsto> l @ [b])\<rparr>)))"

definition can_append :: "cpp_blocks \<Rightarrow> bool" where
  "can_append s \<longleftrightarrow> num_free_blocks s > 0"

definition has_seq_block_list :: "cpp_blocks \<Rightarrow> nat \<Rightarrow> bool" where
  "has_seq_block_list s req \<longleftrightarrow> cb_tables s req \<noteq> None"

definition cb_append_tokens :: "nat \<Rightarrow> int \<Rightarrow> int \<Rightarrow> cpp_blocks \<Rightarrow> cpp_blocks result" where
  "cb_append_tokens req context_len num_tokens s =
     bindR (cpp_assert (num_tokens \<ge> 1)) (\<lambda>_.
     bindR (cpp_assert (has_seq_block_list s req)) (\<lambda>_.
     bindR (cpp_assert (context_len > 0)) (\<lambda>_.
       let bs = cb_block_size s;
           remain = bs - context_len smod bs;
           remain = (if remain = bs then 0 else remain)
       in if num_tokens > remain then
            let to_add = (num_tokens - remain - 1) sdiv bs + 1
            in bindR (cpp_assert (num_free_blocks s > to_add)) (\<lambda>_.
               bindR (draw_blocks (nat to_add) s) (\<lambda>(new, s).
                 Inr (s\<lparr>cb_tables := (cb_tables s)(req \<mapsto> the (cb_tables s req) @ new)\<rparr>)))
          else Inr s)))"

definition num_tokens_c :: "'a batch_metadata_scheme \<Rightarrow> nat result" where
  "num_tokens_c m = vec_get (md_shape m) 0"

definition cb_update_block_table ::
  "'a batch_metadata_scheme \<Rightarrow> int list \<Rightarrow> cpp_blocks \<Rightarrow> cpp_blocks result" where
  "cb_update_block_table m context_lens s =
     bindR (not_None RuntimeError (md_num_prefill_tokens m)) (\<lambda>num_prefill.
     bindR (not_None RuntimeError (md_num_decode_tokens m)) (\<lambda>_.
     bindR (foldR (\<lambda>i s.
         bindR (vec_get (md_req_ids m) (int i)) (\<lambda>req.
         bindR (cpp_assert (\<not> has_seq_block_list s req)) (\<lambda>_.
         bindR (vec_get (md_init_prefill_lens m) (int i)) (\<lambda>len. cb_allocate req len s))))
       [0..<num_prefill] s) (\<lambda>s.
     bindR (num_tokens_c m) (\<lambda>n.
       foldR (\<lambda>i s.
         bindR (vec_get (md_req_ids m) (int i)) (\<lambda>req.
         bindR (cpp_assert (has_seq_block_list s req)) (\<lambda>_.
         bindR (vec_get context_lens (int i)) (\<lambda>len. cb_append_tokens req len 1 s))))
       [0..<n] s))))"

text \<open>
  \<open>prepare_block_table\<close>: the block lists of the batch, padded with -1 to the longest, then
  the slot of the last token of each sequence. The GDR variant computes the same two arrays.
\<close>

definition table_width :: "int list list \<Rightarrow> nat" where
  "table_width ls = fold (\<lambda>l m. max m (length l)) ls 0"

definition padded_table :: "int list list \<Rightarrow> int list" where
  "padded_table ls =
     concat (map (\<lambda>l. l @ replicate (table_width ls - length l) (-1)) ls)"

definition batch_block_lists ::
  "'a batch_metadata_scheme \<Rightarrow> cpp_blocks \<Rightarrow> int list list result" where
  "batch_block_lists m s =
     bindR (num_tokens_c m) (\<lambda>n.
       mapR (\<lambda>i. bindR (vec_get (md_req_ids m) (int i)) (\<lambda>req.
                 bindR (cpp_assert (has_seq_block_list s req)) (\<lambda>_.
                   Inr (the (cb_tables s req))))) [0..<n])"

definition slot_of :: "int \<Rightarrow> int list \<Rightarrow> nat \<Rightarrow> nat \<Rightarrow> int \<Rightarrow> int result" where
  "slot_of bs table m i seq_len =
     (let last_idx = seq_len - 1
      in bindR (vec_get table (int (i * m) + last_idx sdiv bs)) (\<lambda>b.
           Inr (b * bs + last_idx smod bs)))"

definition prepare_block_table ::
  "'a batch_metadata_scheme \<Rightarrow> int list \<Rightarrow> cpp_blocks \<Rightarrow> (int list \<times> int list \<times> nat) result" where
  "prepare_block_table md seq_lens s =
     bindR (batch_block_lists md s) (\<lambda>ls.
       let table = padded_table ls; m = table_width ls
       in bindR (mapR (\<lambda>i. bindR (vec_get seq_lens (int i)) (\<lambda>len.
                    slot_of (cb_block_size s) table m i len)) [0..<length ls]) (\<lambda>slots.
            Inr (table, slots, m)))"

text \<open>\<open>prepare_seq_info\<close>: sequence lengths, context lengths, and the running sum.\<close>

fun running_sum :: "int \<Rightarrow> int list \<Rightarrow> int list" where
  "running_sum a [] = [a]"
| "running_sum a (x # xs) = a # running_sum (a + x) xs"

definition prepare_seq_info ::
  "'a batch_metadata_scheme \<Rightarrow> int list \<Rightarrow> (int list \<times> int list \<times> int list) result" where
  "prepare_seq_info m seq_lens =
     bindR (num_tokens_c m) (\<lambda>n.
     bindR (mapR (\<lambda>i. vec_get seq_lens (int i)) [0..<n]) (\<lambda>ls.
       Inr (ls, map (\<lambda>l. l - 1) ls, running_sum 0 ls)))"


section \<open>Who owns which block\<close>

text \<open>
  The blocks of the universe \<open>U\<close> are split without overlap between the free queue and the
  lists of the requests.
\<close>

definition blocks_ok :: "int set \<Rightarrow> cpp_blocks \<Rightarrow> bool" where
  "blocks_ok U s \<longleftrightarrow> distinct (cb_free s) \<and>
     (\<forall>q l. cb_tables s q = Some l \<longrightarrow> distinct l \<and> set l \<inter> set (cb_free s) = {}) \<and>
     (\<forall>q q' l l'. q \<noteq> q' \<longrightarrow> cb_tables s q = Some l \<longrightarrow> cb_tables s q' = Some l' \<longrightarrow>
        set l \<inter> set l' = {}) \<and>
     set (cb_free s) \<union> \<Union> (set ` ran (cb_tables s)) = U"

text \<open>A request that holds \<open>n\<close> tokens has exactly the blocks they need.\<close>

definition layout :: "cpp_blocks \<Rightarrow> (nat \<Rightarrow> int option) \<Rightarrow> bool" where
  "layout s lens \<longleftrightarrow> dom (cb_tables s) = dom lens \<and>
     (\<forall>q l n. cb_tables s q = Some l \<longrightarrow> lens q = Some n \<longrightarrow>
        0 < n \<and> int (length l) = ceil_div n (cb_block_size s))"

definition held :: "cpp_blocks \<Rightarrow> nat \<Rightarrow> int list" where
  "held s q = (case cb_tables s q of None \<Rightarrow> [] | Some l \<Rightarrow> l)"

definition grow :: "nat \<Rightarrow> nat \<Rightarrow> cpp_blocks \<Rightarrow> cpp_blocks" where
  "grow q n s = s\<lparr>cb_free := drop n (cb_free s),
     cb_tables := (cb_tables s)(q \<mapsto> held s q @ take n (cb_free s))\<rparr>"

lemma cpp_assert_simps [simp]: "cpp_assert True = Inr ()" "cpp_assert False = Inl CppAssertion"
  by (simp_all add: cpp_assert_def)

lemma cpp_assert_Inr_iff [res]: "cpp_assert b = Inr u \<longleftrightarrow> b"
  by (simp add: cpp_assert_def)

lemma draw_blocks_eq:
  "draw_blocks n s = (if n \<le> length (cb_free s)
     then Inr (take n (cb_free s), s\<lparr>cb_free := drop n (cb_free s)\<rparr>) else Inl CppAssertion)"
proof (induction n arbitrary: s)
  case (Suc n)
  show ?case
  proof (cases "cb_free s")
    case Nil
    then show ?thesis by (simp add: get_one_free_block_def)
  next
    case (Cons b bs)
    then show ?thesis using Suc [of "s\<lparr>cb_free := bs\<rparr>"] by (simp add: get_one_free_block_def)
  qed
qed simp

lemma blocks_ok_distinct_held: "blocks_ok U s \<Longrightarrow> distinct (held s q) \<and> set (held s q) \<inter> set (cb_free s) = {}"
  by (auto simp: blocks_ok_def held_def split: option.split)

lemma blocks_ok_grow:
  assumes "blocks_ok U s"
  shows "blocks_ok U (grow q n s)"
proof -
  let ?new = "take n (cb_free s)" and ?rest = "drop n (cb_free s)"
  have parts: "set ?new \<union> set ?rest = set (cb_free s)" "set ?new \<inter> set ?rest = {}"
    "distinct ?new" "distinct ?rest"
    using assms by (auto simp: blocks_ok_def set_take_disj_set_drop_if_distinct
        simp flip: set_append)
  have hd: "distinct (held s q)" "set (held s q) \<inter> set (cb_free s) = {}"
    using blocks_ok_distinct_held [OF assms] by auto
  have t: "cb_tables (grow q n s) q' = Some l \<longleftrightarrow>
      (if q' = q then l = held s q @ ?new else cb_tables s q' = Some l)" for q' l
    by (auto simp: grow_def)
  have other: "set l \<inter> set (held s q) = {}" "set l \<inter> set (cb_free s) = {}" "distinct l"
    if "cb_tables s q' = Some l" "q' \<noteq> q" for q' l
  proof -
    show "set l \<inter> set (cb_free s) = {}" "distinct l" using assms that(1) by (auto simp: blocks_ok_def)
    show "set l \<inter> set (held s q) = {}"
    proof (cases "cb_tables s q")
      case (Some l')
      then show ?thesis using assms that unfolding blocks_ok_def held_def by simp
    qed (simp add: held_def)
  qed
  have "distinct l \<and> set l \<inter> set ?rest = {}" if "cb_tables (grow q n s) q' = Some l" for q' l
  proof (cases "q' = q")
    case True
    then have "l = held s q @ ?new" using that t by simp
    then show ?thesis using hd parts by auto
  next
    case False
    then have "cb_tables s q' = Some l" using that t by simp
    then show ?thesis using other [OF _ False] parts(1) by blast
  qed
  moreover have "set l \<inter> set l' = {}"
    if "q1 \<noteq> q2" "cb_tables (grow q n s) q1 = Some l" "cb_tables (grow q n s) q2 = Some l'"
    for q1 q2 l l'
  proof -
    have d: "set m \<inter> set (held s q @ ?new) = {}" if "cb_tables s q' = Some m" "q' \<noteq> q" for q' m
      using other [OF that] parts(1) by auto
    note ne = that(1)
    consider "q1 = q" "q2 \<noteq> q" | "q1 \<noteq> q" "q2 = q" | "q1 \<noteq> q" "q2 \<noteq> q"
      using ne by blast
    then show ?thesis
    proof cases
      case 1
      then show ?thesis using that t d [of q2 l'] by (simp add: Int_commute)
    next
      case 2
      then show ?thesis using that t d [of q1 l] by simp
    next
      case 3
      then show ?thesis using that t assms by (simp add: blocks_ok_def)
    qed
  qed
  moreover have "set ?rest \<union> \<Union> (set ` ran (cb_tables (grow q n s))) = U"
  proof -
    have "\<Union> (set ` ran (cb_tables (grow q n s))) = \<Union> (set ` ran (cb_tables s)) \<union> set ?new"
    proof (intro set_eqI iffI)
      fix x
      assume "x \<in> \<Union> (set ` ran (cb_tables (grow q n s)))"
      then obtain q' l where l: "cb_tables (grow q n s) q' = Some l" "x \<in> set l"
        by (auto simp: ran_def)
      show "x \<in> \<Union> (set ` ran (cb_tables s)) \<union> set ?new"
      proof (cases "q' = q")
        case True
        then have "x \<in> set (held s q) \<or> x \<in> set ?new" using l t by simp
        then show ?thesis by (cases "cb_tables s q") (auto simp: held_def ran_def)
      qed (use l t in \<open>auto simp: ran_def\<close>)
    next
      fix x
      assume "x \<in> \<Union> (set ` ran (cb_tables s)) \<union> set ?new"
      then consider "x \<in> set ?new" | q' l where "cb_tables s q' = Some l" "x \<in> set l"
        by (auto simp: ran_def)
      then show "x \<in> \<Union> (set ` ran (cb_tables (grow q n s)))"
      proof cases
        case 1
        then have "x \<in> set (held s q @ ?new)" by simp
        moreover have "held s q @ ?new \<in> ran (cb_tables (grow q n s))"
          using t [of q "held s q @ ?new"] by (auto simp: ran_def)
        ultimately show ?thesis by blast
      next
        case 2
        define l' where "l' = (if q' = q then held s q @ ?new else l)"
        have "l' \<in> ran (cb_tables (grow q n s))" using t [of q' l'] 2 by (auto simp: ran_def l'_def)
        moreover have "x \<in> set l'" using 2 by (auto simp: l'_def held_def)
        ultimately show ?thesis by blast
      qed
    qed
    then show ?thesis using assms parts(1) by (auto simp: blocks_ok_def)
  qed
  ultimately show ?thesis using parts by (simp add: blocks_ok_def grow_def)
qed


section \<open>Admission and growth\<close>

lemma blocks_needed_eq: "0 < cb_block_size s \<Longrightarrow> 0 < n \<Longrightarrow> blocks_needed s n = ceil_div n (cb_block_size s)"
proof -
  assume b: "0 < cb_block_size s" and n: "0 < n"
  have "(n - 1) sdiv cb_block_size s = (n - 1) div cb_block_size s"
    using b n by (cases "n = 1") (simp_all add: signed_divide_int_def)
  moreover have "(n + cb_block_size s - 1) div cb_block_size s = (n - 1) div cb_block_size s + 1"
    using b div_add_self2 [of "cb_block_size s" "n - 1"] by (simp add: algebra_simps)
  ultimately show ?thesis by (simp add: blocks_needed_def ceil_div_def)
qed

lemma cb_allocate_eq:
  assumes "0 < cb_block_size s" and "0 < n" and "cb_tables s q = None" and "0 \<le> cb_reserved s"
    and "ceil_div n (cb_block_size s) + cb_reserved s \<le> num_free_blocks s"
  shows "cb_allocate q n s = Inr (grow q (nat (ceil_div n (cb_block_size s))) s)"
proof -
  have c: "0 \<le> ceil_div n (cb_block_size s)" using assms(1,2) by (simp add: ceil_div_nonneg)
  then have "nat (ceil_div n (cb_block_size s)) \<le> length (cb_free s)"
    using assms(4,5) by (simp add: num_free_blocks_def)
  then show ?thesis
    using assms c
    by (simp add: cb_allocate_def blocks_needed_eq can_allocate_def draw_blocks_eq grow_def held_def)
qed

lemma cb_append_one_eq:
  assumes "0 < cb_block_size s" and "0 < n" and "cb_tables s q = Some l"
    and "n mod cb_block_size s = 0 \<longrightarrow> 1 < num_free_blocks s"
  shows "cb_append_tokens q n 1 s =
    Inr (if n mod cb_block_size s = 0 then grow q 1 s else s)"
proof -
  let ?b = "cb_block_size s"
  have m: "n smod ?b = n mod ?b" using assms(1,2) by (simp add: signed_modulo_int_def
      signed_divide_int_def minus_div_mult_eq_mod)
  have r: "n mod ?b < ?b" "0 \<le> n mod ?b" using assms(1) by simp_all
  show ?thesis
  proof (cases "n mod ?b = 0")
    case True
    then have "Suc 0 \<le> length (cb_free s)" using assms(4) by (simp add: num_free_blocks_def)
    then show ?thesis using True assms m
      by (simp add: cb_append_tokens_def has_seq_block_list_def Let_def draw_blocks_eq grow_def
          held_def signed_divide_int_def)
  next
    case False
    then have "?b - n mod ?b \<noteq> ?b" "1 \<le> ?b - n mod ?b" using r by auto
    then show ?thesis using False assms m
      by (simp add: cb_append_tokens_def has_seq_block_list_def Let_def)
  qed
qed

lemma layout_grow_new:
  assumes "layout s lens" and "cb_tables s q = None" and "0 < n" and "0 < cb_block_size s"
    and "nat (ceil_div n (cb_block_size s)) \<le> length (cb_free s)"
  shows "layout (grow q (nat (ceil_div n (cb_block_size s))) s) (lens(q \<mapsto> n))"
proof -
  have "0 \<le> ceil_div n (cb_block_size s)" using assms(3,4) by (simp add: ceil_div_nonneg)
  then show ?thesis using assms by (auto simp: layout_def grow_def held_def)
qed

lemma layout_append:
  assumes "layout s lens" and "cb_tables s q = Some l" and "lens q = Some n"
    and "0 < cb_block_size s" and "n mod cb_block_size s = 0 \<longrightarrow> 1 \<le> length (cb_free s)"
  shows "layout (if n mod cb_block_size s = 0 then grow q 1 s else s) (lens(q \<mapsto> n + 1))"
proof -
  have n: "0 < n" "int (length l) = ceil_div n (cb_block_size s)"
    using assms(1-3) by (auto simp: layout_def)
  have step: "ceil_div (n + 1) (cb_block_size s) =
      ceil_div n (cb_block_size s) + (if n mod cb_block_size s = 0 then 1 else 0)"
    by (rule ceil_div_step [OF assms(4)])
  have dom: "dom (cb_tables s) = dom lens" using assms(1) by (simp add: layout_def)
  show ?thesis
  proof (cases "n mod cb_block_size s = 0")
    case True
    then have "length (held s q @ take 1 (cb_free s)) = length l + 1"
      using assms(2,5) by (simp add: held_def)
    then show ?thesis using True n step assms(1,2) dom
      by (auto simp: layout_def grow_def)
  next
    case False
    have "0 < m \<and> int (length l') = ceil_div m (cb_block_size s)"
      if "cb_tables s q' = Some l'" "(lens(q \<mapsto> n + 1)) q' = Some m" for q' l' m
    proof (cases "q' = q")
      case True
      then show ?thesis using that n step False assms(2) by simp
    next
      case False
      then show ?thesis using that assms(1) by (simp add: layout_def)
    qed
    moreover have "dom (cb_tables s) = dom (lens(q \<mapsto> n + 1))" using dom assms(2) by auto
    ultimately show ?thesis using False by (simp add: layout_def)
  qed
qed


section \<open>A whole batch\<close>

definition alloc_all :: "(nat \<times> int) list \<Rightarrow> cpp_blocks \<Rightarrow> cpp_blocks result" where
  "alloc_all ps s = foldR (\<lambda>(q, n) s.
     bindR (cpp_assert (\<not> has_seq_block_list s q)) (\<lambda>_. cb_allocate q n s)) ps s"

definition append_all :: "(nat \<times> int) list \<Rightarrow> cpp_blocks \<Rightarrow> cpp_blocks result" where
  "append_all ps s = foldR (\<lambda>(q, n) s.
     bindR (cpp_assert (has_seq_block_list s q)) (\<lambda>_. cb_append_tokens q n 1 s)) ps s"

lemma index_loop:
  assumes "k \<le> length xs" and "k \<le> length ys"
    and "\<And>i s. i < k \<Longrightarrow> f i s = g (xs ! i, ys ! i) s"
  shows "foldR f [0..<k] s = foldR g (zip (take k xs) (take k ys)) s"
proof -
  have "zip (take k xs) (take k ys) = map (\<lambda>i. (xs ! i, ys ! i)) [0..<k]"
    using assms(1,2) by (intro nth_equalityI) simp_all
  then have "foldR g (zip (take k xs) (take k ys)) s = foldR (\<lambda>i. g (xs ! i, ys ! i)) [0..<k] s"
    by (simp add: foldR_map)
  also have "\<dots> = foldR f [0..<k] s" by (rule foldR_cong) (simp_all add: assms(3))
  finally show ?thesis by simp
qed

lemma vec_get_nat [simp]: "i < length xs \<Longrightarrow> vec_get xs (int i) = Inr (xs ! i)"
  by (simp add: vec_get_def)

lemma cb_update_eq:
  assumes "md_num_prefill_tokens m = Some np" and "md_num_decode_tokens m = Some nd"
    and "md_shape m = n # sh" and "length (md_req_ids m) = n" and "np \<le> n"
    and "np \<le> length (md_init_prefill_lens m)" and "length ctx = n"
  shows "cb_update_block_table m ctx s =
    bindR (alloc_all (zip (take np (md_req_ids m)) (take np (md_init_prefill_lens m))) s)
      (append_all (zip (md_req_ids m) ctx))"
proof -
  have 1: "foldR (\<lambda>i s. bindR (vec_get (md_req_ids m) (int i)) (\<lambda>req.
         bindR (cpp_assert (\<not> has_seq_block_list s req)) (\<lambda>_.
         bindR (vec_get (md_init_prefill_lens m) (int i)) (\<lambda>len. cb_allocate req len s)))) [0..<np] s
      = alloc_all (zip (take np (md_req_ids m)) (take np (md_init_prefill_lens m))) s"
    unfolding alloc_all_def by (rule index_loop) (use assms in simp_all)
  have 2: "foldR (\<lambda>i s. bindR (vec_get (md_req_ids m) (int i)) (\<lambda>req.
         bindR (cpp_assert (has_seq_block_list s req)) (\<lambda>_.
         bindR (vec_get ctx (int i)) (\<lambda>len. cb_append_tokens req len 1 s)))) [0..<n] t
      = append_all (zip (md_req_ids m) ctx) t" for t
  proof -
    have "zip (md_req_ids m) ctx = zip (take n (md_req_ids m)) (take n ctx)" using assms by simp
    then show ?thesis unfolding append_all_def
      by (simp only:) (rule index_loop, use assms in simp_all)
  qed
  have n: "num_tokens_c m = Inr n" using assms(3) by (simp add: num_tokens_c_def vec_get_def)
  show ?thesis by (simp add: cb_update_block_table_def assms(1,2) 1 2 n)
qed

text \<open>The blocks a batch takes, for its new requests and for the tokens appended.\<close>

definition alloc_need :: "int \<Rightarrow> (nat \<times> int) list \<Rightarrow> int" where
  "alloc_need b ps = (\<Sum>p \<leftarrow> ps. ceil_div (snd p) b)"

definition append_need :: "int \<Rightarrow> (nat \<times> int) list \<Rightarrow> int" where
  "append_need b ps = (\<Sum>p \<leftarrow> ps. if snd p mod b = 0 then 1 else 0)"

definition same_shape :: "cpp_blocks \<Rightarrow> cpp_blocks \<Rightarrow> bool" where
  "same_shape s t \<longleftrightarrow> cb_block_size t = cb_block_size s \<and> cb_reserved t = cb_reserved s \<and>
     cb_num_blocks t = cb_num_blocks s"

lemma grow_shape: "same_shape s (grow q n s)"
  by (simp add: same_shape_def grow_def)

lemma alloc_need_nonneg: "0 < b \<Longrightarrow> \<forall>p \<in> set ps. 0 < snd p \<Longrightarrow> 0 \<le> alloc_need b ps"
  unfolding alloc_need_def by (intro sum_list_nonneg) (auto simp: ceil_div_nonneg)

lemma alloc_all_ok:
  assumes "blocks_ok U s" and "layout s lens" and "0 < cb_block_size s" and "0 \<le> cb_reserved s"
    and "distinct (map fst ps)" and "fst ` set ps \<inter> dom lens = {}" and "\<forall>p \<in> set ps. 0 < snd p"
    and "alloc_need (cb_block_size s) ps + cb_reserved s \<le> num_free_blocks s"
  shows "\<exists>s'. alloc_all ps s = Inr s' \<and> blocks_ok U s' \<and> layout s' (lens ++ map_of ps) \<and>
    same_shape s s' \<and> num_free_blocks s' = num_free_blocks s - alloc_need (cb_block_size s) ps"
  using assms
proof (induction ps arbitrary: s lens)
  case Nil
  then show ?case by (simp add: alloc_all_def alloc_need_def same_shape_def)
next
  case (Cons p ps)
  obtain q n where p: "p = (q, n)" by (cases p)
  let ?b = "cb_block_size s"
  have n: "0 < n" using Cons.prems(7) p by simp
  have c: "0 \<le> ceil_div n ?b" using n Cons.prems(3) by (simp add: ceil_div_nonneg)
  have rest0: "0 \<le> alloc_need ?b ps" using Cons.prems(3,7) by (intro alloc_need_nonneg) auto
  have need: "alloc_need ?b (p # ps) = ceil_div n ?b + alloc_need ?b ps"
    by (simp add: alloc_need_def p)
  have qn: "cb_tables s q = None"
    using Cons.prems(2,6) p by (auto simp: layout_def)
  define t where "t = grow q (nat (ceil_div n ?b)) s"
  have al: "cb_allocate q n s = Inr t"
    unfolding t_def using Cons.prems(3,4,8) n qn rest0 need by (intro cb_allocate_eq) auto
  have le: "nat (ceil_div n ?b) \<le> length (cb_free s)"
    using Cons.prems(4,8) need rest0 c by (simp add: num_free_blocks_def)
  have t1: "blocks_ok U t" unfolding t_def by (rule blocks_ok_grow [OF Cons.prems(1)])
  have t2: "layout t (lens(q \<mapsto> n))"
    unfolding t_def by (rule layout_grow_new [OF Cons.prems(2) qn n Cons.prems(3) le])
  have t3: "cb_block_size t = ?b" "cb_reserved t = cb_reserved s" "same_shape s t"
    by (simp_all add: t_def grow_def same_shape_def)
  have t4: "num_free_blocks t = num_free_blocks s - ceil_div n ?b"
    using le c by (simp add: t_def grow_def num_free_blocks_def)
  have t5: "0 < cb_block_size t" "0 \<le> cb_reserved t"
      "alloc_need (cb_block_size t) ps + cb_reserved t \<le> num_free_blocks t"
    using t3 t4 Cons.prems(3,4,8) need by simp_all
  have pre: "distinct (map fst ps)" "fst ` set ps \<inter> dom (lens(q \<mapsto> n)) = {}" "\<forall>p \<in> set ps. 0 < snd p"
    using Cons.prems(5-7) p by auto
  obtain s' where s': "alloc_all ps t = Inr s'" "blocks_ok U s'"
      "layout s' (lens(q \<mapsto> n) ++ map_of ps)" "same_shape t s'"
      "num_free_blocks s' = num_free_blocks t - alloc_need ?b ps"
    using Cons.IH [OF t1 t2 t5(1,2) pre t5(3)] unfolding t3(1) by blast
  have "q \<notin> dom (map_of ps)" using Cons.prems(5) p by (simp add: dom_map_of_conv_image_fst)
  then have eq: "lens(q \<mapsto> n) ++ map_of ps = lens ++ map_of (p # ps)"
    by (auto simp: p map_add_def fun_eq_iff split: option.split)
  have "layout s' (lens ++ map_of (p # ps))" using s'(3) unfolding eq .
  moreover have "same_shape s s'" using s'(4) t3(3) by (simp add: same_shape_def)
  moreover have "num_free_blocks s' = num_free_blocks s - alloc_need ?b (p # ps)"
    using s'(5) t4 need by simp
  moreover have "alloc_all (p # ps) s = Inr s'"
    using al s'(1) qn by (simp add: alloc_all_def p has_seq_block_list_def)
  ultimately show ?case using s'(2) by blast
qed

lemma append_all_ok:
  assumes "blocks_ok U s" and "layout s lens" and "0 < cb_block_size s"
    and "distinct (map fst ps)" and "\<forall>p \<in> set ps. lens (fst p) = Some (snd p)"
    and "append_need (cb_block_size s) ps < num_free_blocks s"
  shows "\<exists>s'. append_all ps s = Inr s' \<and> blocks_ok U s' \<and>
    layout s' (lens ++ map_of (map (\<lambda>(q, n). (q, n + 1)) ps)) \<and> same_shape s s' \<and>
    num_free_blocks s' = num_free_blocks s - append_need (cb_block_size s) ps"
  using assms
proof (induction ps arbitrary: s lens)
  case Nil
  then show ?case by (simp add: append_all_def append_need_def same_shape_def)
next
  case (Cons p ps)
  obtain q n where p: "p = (q, n)" by (cases p)
  let ?b = "cb_block_size s" and ?h = "n mod cb_block_size s = 0"
  have ln: "lens q = Some n" using Cons.prems(5) p by simp
  then have "q \<in> dom (cb_tables s)" using Cons.prems(2) by (auto simp: layout_def)
  then obtain l where l: "cb_tables s q = Some l" by blast
  have n: "0 < n" using Cons.prems(2) l ln by (auto simp: layout_def)
  have rest0: "0 \<le> append_need ?b ps" unfolding append_need_def by (intro sum_list_nonneg) auto
  have need: "append_need ?b (p # ps) = (if ?h then 1 else 0) + append_need ?b ps"
    by (simp add: append_need_def p)
  define t where "t = (if ?h then grow q 1 s else s)"
  have ap: "cb_append_tokens q n 1 s = Inr t"
    unfolding t_def using Cons.prems(3,6) n l need rest0 by (intro cb_append_one_eq) auto
  have le: "?h \<longrightarrow> 1 \<le> length (cb_free s)"
    using Cons.prems(6) need rest0 by (auto simp: num_free_blocks_def)
  have t1: "blocks_ok U t" unfolding t_def using blocks_ok_grow [OF Cons.prems(1)] Cons.prems(1) by simp
  have t2: "layout t (lens(q \<mapsto> n + 1))"
    unfolding t_def by (rule layout_append [OF Cons.prems(2) l ln Cons.prems(3) le])
  have t3: "cb_block_size t = ?b" "same_shape s t"
    by (simp_all add: t_def grow_def same_shape_def)
  have t4: "num_free_blocks t = num_free_blocks s - (if ?h then 1 else 0)"
    using le by (auto simp: t_def grow_def num_free_blocks_def)
  have qs: "q \<notin> fst ` set ps" using Cons.prems(4) p by simp
  have t5: "0 < cb_block_size t" "append_need (cb_block_size t) ps < num_free_blocks t"
    using t3 t4 Cons.prems(3,6) need by simp_all
  have pre: "distinct (map fst ps)" "\<forall>p \<in> set ps. (lens(q \<mapsto> n + 1)) (fst p) = Some (snd p)"
    using Cons.prems(4,5) p qs by (auto simp: image_iff)
  obtain s' where s': "append_all ps t = Inr s'" "blocks_ok U s'"
      "layout s' (lens(q \<mapsto> n + 1) ++ map_of (map (\<lambda>(q, n). (q, n + 1)) ps))" "same_shape t s'"
      "num_free_blocks s' = num_free_blocks t - append_need ?b ps"
    using Cons.IH [OF t1 t2 t5(1) pre t5(2)] unfolding t3(1) by blast
  have "q \<notin> dom (map_of (map (\<lambda>(q, n). (q, n + 1)) ps))"
  proof -
    have "fst ` set (map (\<lambda>(q, n). (q, n + 1)) ps) = fst ` set ps" by (force simp: image_iff)
    then show ?thesis using qs by (simp only: dom_map_of_conv_image_fst) simp
  qed
  then have eq: "lens(q \<mapsto> n + 1) ++ map_of (map (\<lambda>(q, n). (q, n + 1)) ps)
      = lens ++ map_of (map (\<lambda>(q, n). (q, n + 1)) (p # ps))"
    by (auto simp: p map_add_def fun_eq_iff split: option.split)
  have "layout s' (lens ++ map_of (map (\<lambda>(q, n). (q, n + 1)) (p # ps)))"
    using s'(3) unfolding eq .
  moreover have "same_shape s s'" using s'(4) t3(2) by (simp add: same_shape_def)
  moreover have "num_free_blocks s' = num_free_blocks s - append_need ?b (p # ps)"
    using s'(5) t4 need by simp
  moreover have "append_all (p # ps) s = Inr s'"
    using ap s'(1) l by (simp add: append_all_def p has_seq_block_list_def)
  ultimately show ?case using s'(2) by blast
qed


section \<open>Slots\<close>

text \<open>The slot of token \<open>pos\<close> of a sequence with block list \<open>l\<close>.\<close>

definition kv_slot :: "int \<Rightarrow> int list \<Rightarrow> int \<Rightarrow> int" where
  "kv_slot bs l pos = l ! nat (pos div bs) * bs + pos mod bs"

lemma nth_concat_rows:
  "\<forall>l \<in> set xss. length l = m \<Longrightarrow> i < length xss \<Longrightarrow> j < m \<Longrightarrow> concat xss ! (i * m + j) = xss ! i ! j"
proof (induction xss arbitrary: i)
  case (Cons xs xss)
  have len: "length xs = m" using Cons.prems(1) by simp
  show ?case
  proof (cases i)
    case 0
    then show ?thesis using Cons.prems(3) len by (simp add: nth_append)
  next
    case (Suc k)
    have "concat (xs # xss) ! (Suc k * m + j) = concat xss ! (k * m + j)"
      using len by (simp add: nth_append)
    then show ?thesis using Cons.IH [of k] Cons.prems Suc by simp
  qed
qed simp

lemma table_width_ge: "l \<in> set ls \<Longrightarrow> length l \<le> table_width ls"
proof -
  have mono: "m \<le> fold (\<lambda>l m. max m (length l)) ls m" for m :: nat and ls :: "int list list"
    by (induction ls arbitrary: m) (auto intro: order_trans [OF max.cobounded1])
  have "l \<in> set ls \<Longrightarrow> length l \<le> fold (\<lambda>l m. max m (length l)) ls m" for m :: nat
  proof (induction ls arbitrary: m)
    case (Cons x xs)
    then show ?case using mono [of "max m (length x)" xs] by fastforce
  qed simp
  then show "l \<in> set ls \<Longrightarrow> length l \<le> table_width ls" by (simp add: table_width_def)
qed

lemma padded_table_nth:
  assumes "i < length ls" and "j < length (ls ! i)"
  shows "i * table_width ls + j < length (padded_table ls) \<and>
    padded_table ls ! (i * table_width ls + j) = ls ! i ! j"
proof -
  let ?m = "table_width ls"
  let ?rows = "map (\<lambda>l. l @ replicate (?m - length l) (-1)) ls"
  have rows: "\<forall>r \<in> set ?rows. length r = ?m" using table_width_ge by auto
  have jm: "j < ?m" using assms table_width_ge [of "ls ! i" ls] by simp
  have "padded_table ls ! (i * ?m + j) = ?rows ! i ! j"
    unfolding padded_table_def using nth_concat_rows [OF rows] assms(1) jm by simp
  also have "\<dots> = ls ! i ! j" using assms by (simp add: nth_append)
  finally have v: "padded_table ls ! (i * ?m + j) = ls ! i ! j" .
  have "(\<Sum>l \<leftarrow> ls. length l + (?m - length l)) = (\<Sum>l \<leftarrow> ls. ?m)"
    using table_width_ge by (intro arg_cong [where f = sum_list] map_cong) auto
  then have "length (padded_table ls) = length ls * ?m"
    by (simp add: padded_table_def length_concat comp_def sum_list_triv)
  moreover have "i * ?m + j < Suc i * ?m" using jm by simp
  moreover have "Suc i * ?m \<le> length ls * ?m" using assms(1) by (intro mult_right_mono) auto
  ultimately show ?thesis using v by simp
qed

lemma last_block_index:
  assumes "0 < bs" and "0 < n" and "int k = ceil_div n bs"
  shows "nat ((n - 1) div bs) < k \<and> (n - 1) sdiv bs = (n - 1) div bs \<and> (n - 1) smod bs = (n - 1) mod bs"
proof -
  have c: "ceil_div n bs = (n - 1) div bs + 1"
    using assms(1) div_add_self2 [of bs "n - 1"] by (simp add: ceil_div_def algebra_simps)
  have "0 \<le> (n - 1) div bs" using assms(1,2) by (simp add: pos_imp_zdiv_nonneg_iff)
  then have 1: "nat ((n - 1) div bs) < k" using c assms(3) by linarith
  have 2: "(n - 1) sdiv bs = (n - 1) div bs"
    using assms(1,2) by (cases "n = 1") (simp_all add: signed_divide_int_def)
  have "(n - 1) smod bs = (n - 1) mod bs"
    using assms(1,2) by (cases "n = 1") (simp_all add: signed_modulo_int_def)
  then show ?thesis using 1 2 by blast
qed

lemma slot_of_eq:
  assumes "i < length ls" and "0 < bs" and "0 < n" and "int (length (ls ! i)) = ceil_div n bs"
  shows "slot_of bs (padded_table ls) (table_width ls) i n = Inr (kv_slot bs (ls ! i) (n - 1))"
proof -
  note ix = last_block_index [OF assms(2-4)]
  let ?j = "nat ((n - 1) div bs)"
  have "0 \<le> (n - 1) div bs" using assms(2,3) by (simp add: pos_imp_zdiv_nonneg_iff)
  then have pos: "int (i * table_width ls) + (n - 1) sdiv bs = int (i * table_width ls + ?j)"
    using ix by simp
  have "i * table_width ls + ?j < length (padded_table ls)"
    "padded_table ls ! (i * table_width ls + ?j) = ls ! i ! ?j"
    using padded_table_nth [OF assms(1), of ?j] ix by simp_all
  then have "vec_get (padded_table ls) (int (i * table_width ls + ?j)) = Inr (ls ! i ! ?j)"
    by (simp only: vec_get_nat)
  then show ?thesis
    unfolding slot_of_def Let_def pos using ix by (simp add: kv_slot_def)
qed

text \<open>Different tokens of the running sequences have different slots.\<close>

lemma kv_slot_inj:
  assumes "blocks_ok U s" and "layout s lens" and "0 < cb_block_size s"
    and "cb_tables s q = Some l" and "lens q = Some n" and "0 \<le> i" and "i < n"
    and "cb_tables s q' = Some l'" and "lens q' = Some n'" and "0 \<le> i'" and "i' < n'"
    and "kv_slot (cb_block_size s) l i = kv_slot (cb_block_size s) l' i'"
  shows "q = q' \<and> i = i'"
proof -
  let ?b = "cb_block_size s"
  have idx: "nat (p div ?b) < length m" if "int (length m) = ceil_div k ?b" "0 \<le> p" "p < k" for p k m
  proof -
    have "p div ?b \<le> (k - 1) div ?b" using that assms(3) by (intro zdiv_mono1) auto
    moreover have "nat ((k - 1) div ?b) < length m"
      using last_block_index [OF assms(3) _ that(1)] that(2,3) by simp
    ultimately show ?thesis by linarith
  qed
  have len: "int (length l) = ceil_div n ?b" "int (length l') = ceil_div n' ?b"
    using assms(2,4,5,8,9) by (auto simp: layout_def)
  note il = idx [OF len(1) assms(6,7)] and il' = idx [OF len(2) assms(10,11)]
  have div: "(x * ?b + r) div ?b = x" "(x * ?b + r) mod ?b = r" if "0 \<le> r" "r < ?b" for x r
    using that assms(3) by simp_all
  have blk: "l ! nat (i div ?b) = l' ! nat (i' div ?b)" and off: "i mod ?b = i' mod ?b"
  proof -
    have r: "0 \<le> i mod ?b" "i mod ?b < ?b" "0 \<le> i' mod ?b" "i' mod ?b < ?b" using assms(3) by simp_all
    have e: "l ! nat (i div ?b) * ?b + i mod ?b = l' ! nat (i' div ?b) * ?b + i' mod ?b"
      using assms(12) by (simp only: kv_slot_def)
    show "l ! nat (i div ?b) = l' ! nat (i' div ?b)"
      using div(1) [OF r(1,2)] div(1) [OF r(3,4)] e by metis
    show "i mod ?b = i' mod ?b"
      using div(2) [OF r(1,2)] div(2) [OF r(3,4)] e by metis
  qed
  have qq: "q = q'"
  proof (rule ccontr)
    assume "q \<noteq> q'"
    then have "set l \<inter> set l' = {}" using assms(1,4,8) by (auto simp: blocks_ok_def)
    moreover have "l ! nat (i div ?b) \<in> set l" "l' ! nat (i' div ?b) \<in> set l'" using il il' by simp_all
    ultimately show False using blk by auto
  qed
  then have "l' = l" using assms(4,8) by simp
  moreover have "distinct l" using assms(1,4) by (auto simp: blocks_ok_def)
  ultimately have "nat (i div ?b) = nat (i' div ?b)"
    using blk il il' by (simp add: nth_eq_iff_index_eq)
  moreover have "0 \<le> i div ?b" "0 \<le> i' div ?b"
    using assms(3,6,10) by (simp_all add: pos_imp_zdiv_nonneg_iff)
  ultimately have "i div ?b = i' div ?b" by simp
  then have "i = i'" using off by (metis div_mult_mod_eq)
  then show ?thesis using qq by simp
qed

section \<open>Release\<close>

lemma cb_release_ok:
  assumes "blocks_ok U s" and "layout s lens" and "q \<in> dom lens"
  shows "\<exists>s'. cb_release q s = Inr s' \<and> blocks_ok U s' \<and> layout s' (lens(q := None)) \<and> same_shape s s'"
proof -
  have "q \<in> dom (cb_tables s)" using assms(2,3) by (simp add: layout_def)
  then obtain l where l: "cb_tables s q = Some l" by blast
  define s' where "s' = s\<lparr>cb_free := cb_free s @ l, cb_tables := (cb_tables s)(q := None)\<rparr>"
  have run: "cb_release q s = Inr s'" by (simp add: cb_release_def l s'_def)
  have "blocks_ok U s'"
  proof -
    have d: "distinct l" "set l \<inter> set (cb_free s) = {}" "distinct (cb_free s)"
      using assms(1) l by (auto simp: blocks_ok_def)
    have o: "set m \<inter> set l = {}" if "cb_tables s q' = Some m" "q' \<noteq> q" for q' m
      using assms(1) l that by (auto simp: blocks_ok_def)
    have "ran (cb_tables s) = insert l (ran (cb_tables s'))"
    proof (intro set_eqI iffI)
      fix x
      assume "x \<in> ran (cb_tables s)"
      then obtain a where "cb_tables s a = Some x" by (auto simp: ran_def)
      then show "x \<in> insert l (ran (cb_tables s'))"
        using l by (cases "a = q") (auto simp: s'_def ran_def)
    qed (use l in \<open>auto simp: s'_def ran_def split: if_splits\<close>)
    then have u: "\<Union> (set ` ran (cb_tables s)) = set l \<union> \<Union> (set ` ran (cb_tables s'))" by simp
    have uu: "set (cb_free s) \<union> \<Union> (set ` ran (cb_tables s)) = U" using assms(1) by (simp add: blocks_ok_def)
    have t: "cb_tables s' q' = Some m \<longleftrightarrow> q' \<noteq> q \<and> cb_tables s q' = Some m" for q' m
      by (simp add: s'_def)
    have f: "set (cb_free s') = set (cb_free s) \<union> set l" "distinct (cb_free s')"
      using d by (auto simp: s'_def)
    have "distinct m \<and> set m \<inter> set (cb_free s') = {}" if "cb_tables s' q' = Some m" for q' m
    proof -
      have "cb_tables s q' = Some m" "q' \<noteq> q" using that t by auto
      moreover from this have "distinct m" "set m \<inter> set (cb_free s) = {}"
        using assms(1) by (auto simp: blocks_ok_def)
      ultimately show ?thesis using o f(1) by auto
    qed
    moreover have "set m \<inter> set m' = {}"
      if "q1 \<noteq> q2" "cb_tables s' q1 = Some m" "cb_tables s' q2 = Some m'" for q1 q2 m m'
      using that t assms(1) unfolding blocks_ok_def by blast
    moreover have "set (cb_free s') \<union> \<Union> (set ` ran (cb_tables s')) = U" using u uu f(1) by auto
    ultimately show ?thesis using f(2) by (simp add: blocks_ok_def)
  qed
  moreover have "layout s' (lens(q := None))"
    using assms(2) by (auto simp: layout_def s'_def)
  ultimately show ?thesis using run by (auto simp: same_shape_def s'_def)
qed

lemma cb_batch_release_ok:
  assumes "blocks_ok U s" and "layout s lens" and "distinct qs" and "set qs \<subseteq> dom lens"
  shows "\<exists>s'. cb_batch_release qs s = Inr s' \<and> blocks_ok U s' \<and> layout s' (lens |` (- set qs)) \<and>
    same_shape s s'"
  using assms
proof (induction qs arbitrary: s lens)
  case Nil
  then show ?case by (simp add: cb_batch_release_def same_shape_def)
next
  case (Cons q qs)
  obtain t where t: "cb_release q s = Inr t" "blocks_ok U t" "layout t (lens(q := None))" "same_shape s t"
    using cb_release_ok [OF Cons.prems(1,2), of q] Cons.prems(4) by auto
  have "set qs \<subseteq> dom (lens(q := None))" using Cons.prems(3,4) by auto
  moreover have "distinct qs" using Cons.prems(3) by simp
  ultimately obtain s' where s': "cb_batch_release qs t = Inr s'" "blocks_ok U s'"
      "layout s' (lens(q := None) |` (- set qs))" "same_shape t s'"
    using Cons.IH [OF t(2,3)] by blast
  have eq: "lens(q := None) |` (- set qs) = lens |` (- set (q # qs))"
    by (auto simp: restrict_map_def fun_eq_iff)
  have "layout s' (lens |` (- set (q # qs)))" using s'(3) unfolding eq .
  moreover have "cb_batch_release (q # qs) s = Inr s'"
    using t(1) s'(1) by (simp add: cb_batch_release_def)
  moreover have "same_shape s s'" using t(4) s'(4) by (simp add: same_shape_def)
  ultimately show ?case using s'(2) by blast
qed

lemma cb_init_ok:
  "blocks_ok {0..<n + r} (cb_init b n r) \<and> layout (cb_init b n r) Map.empty"
proof -
  have "set (map int [0..<nat (n + r)]) = {0..<n + r}"
    by (simp add: image_int_atLeastLessThan)
  then show ?thesis
    by (simp add: blocks_ok_def layout_def cb_init_def distinct_map)
qed


section \<open>The free queue as an index pool\<close>

definition draw_opt :: "cpp_blocks \<Rightarrow> nat \<Rightarrow> int list option \<times> cpp_blocks" where
  "draw_opt s n = (case draw_blocks n s of Inl _ \<Rightarrow> (None, s) | Inr (bs, s') \<Rightarrow> (Some bs, s'))"

definition give_back :: "cpp_blocks \<Rightarrow> int list \<Rightarrow> cpp_blocks" where
  "give_back s xs = s\<lparr>cb_free := cb_free s @ xs\<rparr>"

interpretation blk: index_pool draw_opt give_back "\<lambda>s. mset (cb_free s)" "\<lambda>_. True"
proof (unfold_locales, goal_cases)
  case (1 s n xs s')
  then show ?case
    by (auto simp: draw_opt_def draw_blocks_eq mset_take_drop split: if_splits)
next
  case (2 s n s')
  then show ?case by (auto simp: draw_opt_def draw_blocks_eq split: if_splits)
next
  case (3 s xs)
  then show ?case by (simp add: give_back_def)
qed

text \<open>However blocks are drawn and given back, a block has at most one owner.\<close>

lemma blocks_never_shared:
  assumes "ledger_run draw_opt give_back ops (cb_init b n r, {#}) = Some (t, own)"
  shows "count (mset (cb_free t)) x + count own x \<le> 1"
proof (rule blk.ledger_exclusive [OF assms])
  fix y
  have "distinct (cb_free (cb_init b n r))" by (simp add: cb_init_def distinct_map)
  then show "count (mset (cb_free (cb_init b n r))) y \<le> 1"
    by (simp add: distinct_count_atmost_1)
qed simp

end
