(* ===== verification/BlockManager.thy ===== *)
theory BlockManager
  imports KVBlocks MemPool DPSched
begin

text \<open>
  The model of \<open>disagmoe/block_manager/block_manager.py\<close>: the book-keeping of sequence lengths
  (\<open>ReqManager\<close>), the CPU block manager on top of the C++ blocks, which runs before every
  attention step and prepares the metadata of the attention kernel, and the GPU block
  manager on top of the token pools.

  Device buffers, GDR copies and the rebinding of views move the same numbers in another
  way: the values are modelled, with the alternation between the two buffers.
\<close>

section \<open>Sequence lengths\<close>

record req_manager =
  rm_max_running :: nat
  rm_use_list :: bool
  rm_dict :: "(nat, int) dict"
  rm_list :: "int list"

definition rm_init :: "nat \<Rightarrow> bool \<Rightarrow> req_manager" where
  "rm_init n use_list =
     \<lparr>rm_max_running = n, rm_use_list = use_list, rm_dict = [], rm_list = replicate n 0\<rparr>"

definition rm_update_dict :: "nat \<Rightarrow> int \<Rightarrow> req_manager \<Rightarrow> req_manager result" where
  "rm_update_dict q n r = Inr (r\<lparr>rm_dict := AList.update q n (rm_dict r)\<rparr>)"

definition rm_get_dict :: "req_manager \<Rightarrow> nat \<Rightarrow> int result" where
  "rm_get_dict r q = d_get (rm_dict r) q"

definition rm_active_dict :: "req_manager \<Rightarrow> nat list" where
  "rm_active_dict r = map fst (rm_dict r)"

definition rm_release_dict :: "nat \<Rightarrow> req_manager \<Rightarrow> req_manager result" where
  "rm_release_dict q r =
     (if d_has (rm_dict r) q then Inr (r\<lparr>rm_dict := AList.delete q (rm_dict r)\<rparr>)
      else Inl KeyError)"

definition rm_update_list :: "nat \<Rightarrow> int \<Rightarrow> req_manager \<Rightarrow> req_manager result" where
  "rm_update_list q n r = bindR (py_set (rm_list r) (int q) n) (\<lambda>l. Inr (r\<lparr>rm_list := l\<rparr>))"

definition rm_get_list :: "req_manager \<Rightarrow> nat \<Rightarrow> int result" where
  "rm_get_list r q = py_get (rm_list r) (int q)"

definition rm_active_list :: "req_manager \<Rightarrow> nat list" where
  "rm_active_list r = filter (\<lambda>i. rm_list r ! i > 0) [0..<rm_max_running r]"

definition rm_release_list :: "nat \<Rightarrow> req_manager \<Rightarrow> req_manager result" where
  "rm_release_list q r = bindR (py_set (rm_list r) (int q) 0) (\<lambda>l. Inr (r\<lparr>rm_list := l\<rparr>))"

text \<open>The public methods choose a representation by \<open>use_list\<close>.\<close>

definition rm_update :: "nat \<Rightarrow> int \<Rightarrow> req_manager \<Rightarrow> req_manager result" where
  "rm_update q n r = (if rm_use_list r then rm_update_list q n r else rm_update_dict q n r)"

definition rm_get :: "req_manager \<Rightarrow> nat \<Rightarrow> int result" where
  "rm_get r q = (if rm_use_list r then rm_get_list r q else rm_get_dict r q)"

definition rm_active :: "req_manager \<Rightarrow> nat list" where
  "rm_active r = (if rm_use_list r then rm_active_list r else rm_active_dict r)"

definition rm_release :: "nat list \<Rightarrow> req_manager \<Rightarrow> req_manager result" where
  "rm_release qs r =
     foldR (\<lambda>q r. if rm_use_list r then rm_release_list q r else rm_release_dict q r) qs r"

lemmas rm_defs [simp] = rm_update_dict_def rm_get_dict_def rm_active_dict_def rm_release_dict_def
  rm_update_list_def rm_get_list_def rm_active_list_def rm_release_list_def

definition rm_reset :: "req_manager \<Rightarrow> req_manager" where
  "rm_reset r = r\<lparr>rm_dict := [], rm_list := replicate (rm_max_running r) 0\<rparr>"

section \<open>The CPU block manager\<close>

text \<open>\<open>cm_first_layer\<close> is \<open>model_config.layer_ids\<close>, \<open>cm_swapped\<close> says which buffer is current.\<close>

record cpu_manager =
  cm_block_size :: int
  cm_layer_ids :: "nat list option"
  cm_blocks :: cpp_blocks
  cm_reqs :: req_manager
  cm_swapped :: bool

definition cpu_init :: "int \<Rightarrow> int \<Rightarrow> nat list option \<Rightarrow> nat \<Rightarrow> cpu_manager" where
  "cpu_init blk num_blocks layer_ids max_running =
     \<lparr>cm_block_size = blk, cm_layer_ids = layer_ids,
      cm_blocks = cb_init blk num_blocks 0, cm_reqs = rm_init max_running False,
      cm_swapped = False\<rparr>"

definition cpu_release_seqs :: "nat list \<Rightarrow> cpu_manager \<Rightarrow> cpu_manager result" where
  "cpu_release_seqs qs s =
     bindR (cb_batch_release qs (cm_blocks s)) (\<lambda>b.
     bindR (rm_release qs (cm_reqs s)) (\<lambda>r. Inr (s\<lparr>cm_blocks := b, cm_reqs := r\<rparr>)))"

definition cpu_reset_state :: "cpu_manager \<Rightarrow> cpu_manager result" where
  "cpu_reset_state s =
     bindR (cpu_release_seqs (rm_active (cm_reqs s)) s) (\<lambda>s.
       Inr (s\<lparr>cm_reqs := rm_reset (cm_reqs s)\<rparr>))"

text \<open>
  \<open>update_block_table\<close>: only the first layer of the worker admits sequences and adds a token
  to every sequence of the batch; the later layers read the lengths again.
\<close>

definition cpu_update_block_table ::
  "'a batch_metadata_scheme \<Rightarrow> attn_batch \<Rightarrow> cpu_manager \<Rightarrow> (attn_batch \<times> cpu_manager) result" where
  "cpu_update_block_table m b s =
     bindR (not_None TypeError (cm_layer_ids s)) (\<lambda>layers.
     bindR (py_get layers 0) (\<lambda>first.
       if ab_layer_id b = first then
         bindR (foldR (\<lambda>i r.
             bindR (py_get (ab_init_prefill_lens b) (int i)) (\<lambda>n.
               rm_update (ab_req_ids b ! i) n r))
           [0..<min (ab_num_prefill_seqs b) (length (ab_req_ids b))] (cm_reqs s)) (\<lambda>r.
         bindR (mapR (rm_get r) (ab_req_ids b)) (\<lambda>lens.
         bindR (cb_update_block_table m lens (cm_blocks s)) (\<lambda>blocks.
         bindR (foldR (\<lambda>(q, n). rm_update q (n + 1)) (zip (ab_req_ids b) lens) r) (\<lambda>r.
           Inr (b\<lparr>ab_seq_lens := Some (map (\<lambda>n. n + 1) lens)\<rparr>,
                s\<lparr>cm_blocks := blocks, cm_reqs := r\<rparr>)))))
       else
         bindR (mapR (rm_get (cm_reqs s)) (ab_req_ids b)) (\<lambda>lens.
           Inr (b\<lparr>ab_seq_lens := Some lens\<rparr>, s))))"

text \<open>What the attention kernel is given.\<close>

record flash_meta =
  fm_num_prefills :: nat
  fm_num_prefill_tokens :: nat
  fm_num_decode_tokens :: nat
  fm_max_query_len :: nat
  fm_max_prefill_seq_len :: nat
  fm_max_decode_seq_len :: int
  fm_max_decode_query_len :: nat
  fm_seq_lens :: "int list"
  fm_block_tables :: "int list list"
  fm_slot_mapping :: "int list"
  fm_context_lens :: "int list"
  fm_seq_start_loc :: "int list"
  fm_query_start_loc :: "int list"

definition rows_of :: "nat \<Rightarrow> nat \<Rightarrow> 'a list \<Rightarrow> 'a list list" where
  "rows_of n m xs = map (\<lambda>i. take m (drop (i * m) xs)) [0..<n]"

definition swap_batch_tensor_buffer :: "cpu_manager \<Rightarrow> cpu_manager" where
  "swap_batch_tensor_buffer s = s\<lparr>cm_swapped := \<not> cm_swapped s\<rparr>"

definition max_seq_len_of :: "int list \<Rightarrow> int" where
  "max_seq_len_of ls = (if ls = [] then 0 else Max (set ls))"

definition pack_flash ::
  "nat \<Rightarrow> int list \<Rightarrow> int list list \<Rightarrow> int list \<Rightarrow> int list \<Rightarrow> int list \<Rightarrow> flash_meta" where
  "pack_flash num_tokens seq_lens tables slots ctx start =
     \<lparr>fm_num_prefills = 0, fm_num_prefill_tokens = 0, fm_num_decode_tokens = num_tokens,
      fm_max_query_len = 0, fm_max_prefill_seq_len = 0,
      fm_max_decode_seq_len = max_seq_len_of seq_lens, fm_max_decode_query_len = 1,
      fm_seq_lens = seq_lens, fm_block_tables = tables, fm_slot_mapping = slots,
      fm_context_lens = ctx, fm_seq_start_loc = start,
      fm_query_start_loc = map int [0..<num_tokens + 1]\<rparr>"

text \<open>
  \<open>pack_flash_attn_metadata\<close>, for a real step and for the warm-up (\<open>dummy_cache\<close>), whose
  block table is all zero. Both variants of the real step pack the three per-sequence arrays
  in one and cut it at \<open>num_seqs\<close>; a view with no rows cannot be inferred and raises.
\<close>

definition cpu_pack_flash_attn_metadata ::
  "'a batch_metadata_scheme \<Rightarrow> attn_batch \<Rightarrow> bool \<Rightarrow> cpu_manager \<Rightarrow>
   (flash_meta \<times> cpu_manager) result" where
  "cpu_pack_flash_attn_metadata m b dummy s =
     (let s = swap_batch_tensor_buffer s;
          num_tokens = ab_num_decode_tokens b + ab_num_prefill_tokens b;
          num_seqs = ab_num_prefill_seqs b + ab_num_decode_tokens b
      in bindR (not_None TypeError (ab_seq_lens b)) (\<lambda>lens.
         bindR (if num_tokens = 0 then Inl RuntimeError
                else if dummy then
                  (if lens = [] then Inl ValueError
                   else let w = nat ((max_seq_len_of lens - 1) div cm_block_size s + 1)
                        in Inr (replicate num_tokens (replicate w 0), replicate num_tokens 0))
                else bindR (prepare_block_table m lens (cm_blocks s)) (\<lambda>(table, slots, w).
                  Inr (rows_of num_tokens w table, slots))) (\<lambda>(tables, slots).
         bindR (prepare_seq_info m lens) (\<lambda>(ls, ctx, start).
           let infos = ls @ ctx @ start
           in Inr (pack_flash num_tokens lens tables slots
                     (take num_seqs (drop num_seqs infos)) (drop (num_seqs + num_seqs) infos),
                   s)))))"

section \<open>The GPU block manager\<close>

record gpu_manager =
  gm_req_to_indice :: "nat \<Rightarrow> nat option"
  gm_decode_seq_lens :: "nat \<Rightarrow> int option"
  gm_req_seq_lens :: "int list"
  gm_pool :: req_pool
  gm_alloc :: allocator

text \<open>Only token-granular blocks are supported: any other block size fails an assertion.\<close>

definition gpu_init :: "int \<Rightarrow> nat \<Rightarrow> nat \<Rightarrow> nat \<Rightarrow> gpu_manager result" where
  "gpu_init blk num_blocks max_running max_seq_len =
     bindR (assertR (blk = 1)) (\<lambda>_.
       Inr \<lparr>gm_req_to_indice = Map.empty, gm_decode_seq_lens = Map.empty,
            gm_req_seq_lens = replicate max_running 0,
            gm_pool = rp_init max_running max_seq_len, gm_alloc = tok_init num_blocks False\<rparr>)"

definition gpu_reset_state :: "gpu_manager \<Rightarrow> gpu_manager" where
  "gpu_reset_state s =
     s\<lparr>gm_decode_seq_lens := Map.empty, gm_req_to_indice := Map.empty,
       gm_req_seq_lens := map (\<lambda>_. 0) (gm_req_seq_lens s),
       gm_pool := rp_clear (gm_pool s), gm_alloc := tok_clear (gm_alloc s)\<rparr>"

text \<open>A None in a list that becomes a tensor is a TypeError.\<close>

definition get_all :: "('k \<Rightarrow> 'v option) \<Rightarrow> 'k list \<Rightarrow> 'v list result" where
  "get_all m ks = mapR (\<lambda>k. not_None TypeError (m k)) ks"

definition gpu_release_seqs :: "nat list \<Rightarrow> gpu_manager \<Rightarrow> gpu_manager result" where
  "gpu_release_seqs qs s =
     bindR (get_all (gm_req_to_indice s) (filter (\<lambda>q. gm_decode_seq_lens s q \<noteq> None) qs)) (\<lambda>ixs.
       let s = s\<lparr>gm_pool := rp_free (gm_pool s) ixs,
                 gm_alloc := free_group_begin (gm_alloc s)\<rparr>
       in bindR (foldR (\<lambda>(q, ix) s.
              bindR (lookupR (gm_decode_seq_lens s) q) (\<lambda>n.
              bindR (py_get (rp_table (gm_pool s)) (int ix)) (\<lambda>row.
                Inr (s\<lparr>gm_alloc := tok_free (gm_alloc s) (take (nat n) row),
                       gm_decode_seq_lens := (gm_decode_seq_lens s)(q := None)\<rparr>))))
            (zip qs ixs) s) (\<lambda>s.
          Inr (s\<lparr>gm_alloc := tok_free_group_end (gm_alloc s)\<rparr>)))"

definition gpu_admit :: "attn_batch \<Rightarrow> nat list \<Rightarrow> nat \<Rightarrow> gpu_manager \<Rightarrow> gpu_manager result" where
  "gpu_admit b new_ixs i s =
     bindR (py_get new_ixs (int i)) (\<lambda>ix.
     bindR (py_get (ab_init_prefill_lens b) (int i)) (\<lambda>n.
       let s = s\<lparr>gm_req_to_indice := (gm_req_to_indice s)(ab_req_ids b ! i \<mapsto> ix)\<rparr>;
           (locs, alloc) = tok_alloc (gm_alloc s) (nat n);
           s = s\<lparr>gm_alloc := alloc\<rparr>
       in bindR (not_None TypeError locs) (\<lambda>locs.
          bindR (rp_write (gm_pool s) (int ix) (nat n) locs) (\<lambda>pool.
            Inr (s\<lparr>gm_pool := pool,
                   gm_decode_seq_lens := (gm_decode_seq_lens s)(ab_req_ids b ! i \<mapsto> n)\<rparr>)))))"

definition gpu_update_block_table ::
  "attn_batch \<Rightarrow> gpu_manager \<Rightarrow> (attn_batch \<times> gpu_manager) result" where
  "gpu_update_block_table b s =
     (let k = ab_num_prefill_seqs b; reqs = ab_req_ids b
      in if ab_layer_id b = 0 then
           let (new_ixs, pool) = rp_alloc (gm_pool s) k; s = s\<lparr>gm_pool := pool\<rparr>
           in bindR (not_None TypeError new_ixs) (\<lambda>new_ixs.
              bindR (foldR (gpu_admit b new_ixs) [0..<min k (length reqs)] s) (\<lambda>s.
              bindR (get_all (gm_req_to_indice s) (drop k reqs)) (\<lambda>running_ixs.
                let ixs = running_ixs @ new_ixs
                in bindR (get_all (gm_decode_seq_lens s) reqs) (\<lambda>lens.
                   let s = s\<lparr>gm_decode_seq_lens :=
                             fold (\<lambda>q m. m(q := map_option (\<lambda>n. n + 1) (m q))) reqs
                               (gm_decode_seq_lens s)\<rparr>;
                       (locs, alloc) = tok_alloc (gm_alloc s) (ab_num_tokens b);
                       s = s\<lparr>gm_alloc := alloc\<rparr>
                   in bindR (not_None AttributeError locs) (\<lambda>locs.
                      bindR (rp_write_loc (gm_pool s) (map int ixs) lens locs) (\<lambda>pool.
                      bindR (foldR (\<lambda>(ix, n) l. py_set l (int ix) n)
                               (zip ixs (map (\<lambda>n. n + 1) lens)) (gm_req_seq_lens s)) (\<lambda>rsl.
                        Inr (b\<lparr>ab_seq_lens := Some (map (\<lambda>n. n + 1) lens),
                               ab_req_indices := Some ixs\<rparr>,
                             s\<lparr>gm_pool := pool, gm_req_seq_lens := rsl\<rparr>))))))))
         else
           bindR (get_all (gm_decode_seq_lens s) reqs) (\<lambda>lens.
           bindR (get_all (gm_req_to_indice s) reqs) (\<lambda>ixs.
             Inr (b\<lparr>ab_seq_lens := Some lens, ab_req_indices := Some ixs\<rparr>, s))))"


section \<open>The two representations of the sequence lengths\<close>

text \<open>
  The list variant keeps 0 for a request that is not running: as long as every length is
  positive it holds the same finite map as the dictionary variant.
\<close>

definition rm_same :: "req_manager \<Rightarrow> req_manager \<Rightarrow> bool" where
  "rm_same d l \<longleftrightarrow> \<not> rm_use_list d \<and> rm_use_list l \<and> rm_max_running l = rm_max_running d \<and>
     length (rm_list l) = rm_max_running d \<and> distinct (map fst (rm_dict d)) \<and>
     (\<forall>q n. map_of (rm_dict d) q = Some n \<longleftrightarrow> q < rm_max_running d \<and> rm_list l ! q = n \<and> 0 < n)"

lemma rm_init_same: "rm_same (rm_init n False) (rm_init n True)"
  by (auto simp: rm_same_def rm_init_def)

lemma rm_update_same:
  assumes "rm_same d l" and "q < rm_max_running d" and "0 < n"
  shows "\<exists>d' l'. rm_update q n d = Inr d' \<and> rm_update q n l = Inr l' \<and> rm_same d' l'"
proof -
  let ?d' = "d\<lparr>rm_dict := AList.update q n (rm_dict d)\<rparr>"
    and ?l' = "l\<lparr>rm_list := (rm_list l)[q := n]\<rparr>"
  have "rm_update q n d = Inr ?d'" using assms(1) by (simp add: rm_update_def rm_same_def)
  moreover have "rm_update q n l = Inr ?l'"
    using assms by (simp add: rm_update_def rm_same_def)
  moreover have "distinct (map fst (AList.update q n (rm_dict d)))"
    using assms(1) by (simp add: rm_same_def distinct_update)
  moreover have "map_of (AList.update q n (rm_dict d)) k = Some x \<longleftrightarrow>
      k < rm_max_running d \<and> (rm_list l)[q := n] ! k = x \<and> 0 < x" for k x
    unfolding d_get_update using assms by (cases "k = q") (auto simp: rm_same_def)
  ultimately show ?thesis using assms(1) by (simp add: rm_same_def)
qed

lemma rm_get_same:
  assumes "rm_same d l" and "map_of (rm_dict d) q = Some n"
  shows "rm_get d q = Inr n \<and> rm_get l q = Inr n"
proof -
  have "q < length (rm_list l)" "rm_list l ! q = n" using assms by (auto simp: rm_same_def)
  then have "rm_get l q = Inr n" using assms(1) by (simp add: rm_get_def rm_same_def)
  then show ?thesis using assms by (simp add: rm_get_def rm_same_def d_get_def)
qed

lemma rm_active_same:
  assumes "rm_same d l"
  shows "set (rm_active d) = set (rm_active l)"
proof -
  have "q \<in> set (rm_active d) \<longleftrightarrow> map_of (rm_dict d) q \<noteq> None" for q
    using assms by (simp add: rm_active_def rm_same_def map_of_eq_None_iff)
  moreover have "q \<in> set (rm_active l) \<longleftrightarrow> q < rm_max_running d \<and> 0 < rm_list l ! q" for q
    using assms by (auto simp: rm_active_def rm_same_def)
  moreover have "map_of (rm_dict d) q \<noteq> None \<longleftrightarrow> q < rm_max_running d \<and> 0 < rm_list l ! q" for q
    using assms unfolding rm_same_def by (metis not_None_eq)
  ultimately show ?thesis by blast
qed

lemma rm_release1_same:
  assumes "rm_same d l" and "q \<in> fst ` set (rm_dict d)"
  shows "\<exists>d' l'. rm_release [q] d = Inr d' \<and> rm_release [q] l = Inr l' \<and> rm_same d' l' \<and>
    fst ` set (rm_dict d') = fst ` set (rm_dict d) - {q}"
proof -
  let ?d' = "d\<lparr>rm_dict := AList.delete q (rm_dict d)\<rparr>"
    and ?l' = "l\<lparr>rm_list := (rm_list l)[q := 0]\<rparr>"
  have "map_of (rm_dict d) q \<noteq> None" using assms(2) by (simp add: map_of_eq_None_iff)
  then have q: "q < rm_max_running d" using assms(1) unfolding rm_same_def by (metis not_None_eq)
  have "rm_release [q] d = Inr ?d'"
    using assms by (simp add: rm_release_def rm_same_def d_has_def)
  moreover have "rm_release [q] l = Inr ?l'"
    using assms(1) q by (simp add: rm_release_def rm_same_def)
  moreover have "rm_same ?d' ?l'"
    using assms(1) q by (auto simp: rm_same_def distinct_delete delete_conv nth_list_update)
  moreover have "fst ` set (rm_dict ?d') = fst ` set (rm_dict d) - {q}"
    by (simp add: delete_keys flip: set_map)
  ultimately show ?thesis by blast
qed

lemma rm_release_same:
  assumes "rm_same d l" and "distinct qs" and "set qs \<subseteq> fst ` set (rm_dict d)"
  shows "\<exists>d' l'. rm_release qs d = Inr d' \<and> rm_release qs l = Inr l' \<and> rm_same d' l'"
  using assms
proof (induction qs arbitrary: d l)
  case Nil
  then show ?case by (simp add: rm_release_def)
next
  case (Cons q qs)
  obtain d1 l1 where 1: "rm_release [q] d = Inr d1" "rm_release [q] l = Inr l1" "rm_same d1 l1"
      "fst ` set (rm_dict d1) = fst ` set (rm_dict d) - {q}"
    using rm_release1_same [OF Cons.prems(1), of q] Cons.prems(3) by auto
  have "set qs \<subseteq> fst ` set (rm_dict d1)" using Cons.prems(2,3) 1(4) by auto
  then obtain d' l' where "rm_release qs d1 = Inr d'" "rm_release qs l1 = Inr l'" "rm_same d' l'"
    using Cons.IH [OF 1(3)] Cons.prems(2) by auto
  moreover have "rm_release ([q] @ qs) x = bindR (rm_release [q] x) (\<lambda>r. rm_release qs r)" for x
    unfolding rm_release_def by (rule foldR_append)
  ultimately show ?case using 1 by auto
qed


section \<open>A step of the CPU block manager\<close>

text \<open>The lengths the manager knows, and its invariant: every running request holds exactly
the blocks its tokens need, and no block is held twice.\<close>

definition cpu_lens :: "cpu_manager \<Rightarrow> nat \<Rightarrow> int option" where
  "cpu_lens s = map_of (rm_dict (cm_reqs s))"

definition cpu_ok :: "int set \<Rightarrow> cpu_manager \<Rightarrow> bool" where
  "cpu_ok U s \<longleftrightarrow> blocks_ok U (cm_blocks s) \<and> layout (cm_blocks s) (cpu_lens s) \<and>
     0 < cb_block_size (cm_blocks s) \<and> cb_reserved (cm_blocks s) = 0 \<and>
     \<not> rm_use_list (cm_reqs s) \<and> distinct (map fst (rm_dict (cm_reqs s)))"

lemma cpu_init_ok: "0 < b \<Longrightarrow> cpu_ok {0..<n} (cpu_init b n layers k)"
  using cb_init_ok [of n 0 b]
  by (simp add: cpu_ok_def cpu_init_def cpu_lens_def rm_init_def) (simp add: cb_init_def)

text \<open>
  A batch as the engine forms it: the new requests first, one token per request, the same
  numbers in the C++ metadata.
\<close>

definition batch_ok :: "(nat \<Rightarrow> int option) \<Rightarrow> 'a batch_metadata_scheme \<Rightarrow> attn_batch \<Rightarrow> bool" where
  "batch_ok lens m b \<longleftrightarrow>
     md_req_ids m = ab_req_ids b \<and> md_init_prefill_lens m = ab_init_prefill_lens b \<and>
     md_num_prefill_tokens m = Some (ab_num_prefill_seqs b) \<and> md_num_decode_tokens m \<noteq> None \<and>
     (\<exists>sh. md_shape m = length (ab_req_ids b) # sh) \<and>
     ab_num_prefill_seqs b \<le> length (ab_req_ids b) \<and>
     ab_num_prefill_seqs b \<le> length (ab_init_prefill_lens b) \<and>
     distinct (ab_req_ids b) \<and>
     (\<forall>n \<in> set (take (ab_num_prefill_seqs b) (ab_init_prefill_lens b)). 0 < n) \<and>
     set (take (ab_num_prefill_seqs b) (ab_req_ids b)) \<inter> dom lens = {} \<and>
     set (drop (ab_num_prefill_seqs b) (ab_req_ids b)) \<subseteq> dom lens"

definition new_lens :: "attn_batch \<Rightarrow> (nat \<times> int) list" where
  "new_lens b = zip (take (ab_num_prefill_seqs b) (ab_req_ids b))
     (take (ab_num_prefill_seqs b) (ab_init_prefill_lens b))"

definition context_lens_of :: "(nat \<Rightarrow> int option) \<Rightarrow> attn_batch \<Rightarrow> int list" where
  "context_lens_of lens b = map (\<lambda>q. the ((lens ++ map_of (new_lens b)) q)) (ab_req_ids b)"

definition step_need :: "int \<Rightarrow> (nat \<Rightarrow> int option) \<Rightarrow> attn_batch \<Rightarrow> int" where
  "step_need bs lens b = alloc_need bs (new_lens b) +
     append_need bs (zip (ab_req_ids b) (context_lens_of lens b))"

lemma rm_update_loop:
  assumes "\<not> rm_use_list r" and "distinct (map fst ps)"
  shows "\<exists>r'. foldR (\<lambda>(q, n). rm_update q n) ps r = Inr r' \<and> \<not> rm_use_list r' \<and>
    map_of (rm_dict r') = map_of (rm_dict r) ++ map_of ps \<and>
    (distinct (map fst (rm_dict r)) \<longrightarrow> distinct (map fst (rm_dict r')))"
  using assms
proof (induction ps arbitrary: r)
  case (Cons p ps)
  obtain q n where p: "p = (q, n)" by (cases p)
  define r1 where "r1 = r\<lparr>rm_dict := AList.update q n (rm_dict r)\<rparr>"
  have run: "rm_update q n r = Inr r1" using Cons.prems(1) by (simp add: rm_update_def r1_def)
  have u: "\<not> rm_use_list r1" "map_of (rm_dict r1) = (map_of (rm_dict r))(q \<mapsto> n)"
    using Cons.prems(1) by (simp_all add: r1_def d_get_update)
  obtain r' where r': "foldR (\<lambda>(q, n). rm_update q n) ps r1 = Inr r'" "\<not> rm_use_list r'"
      "map_of (rm_dict r') = map_of (rm_dict r1) ++ map_of ps"
      "distinct (map fst (rm_dict r1)) \<longrightarrow> distinct (map fst (rm_dict r'))"
    using Cons.IH [OF u(1)] Cons.prems(2) by auto
  have "q \<notin> dom (map_of ps)" using Cons.prems(2) p by (simp add: dom_map_of_conv_image_fst)
  then have "map_of (rm_dict r1) ++ map_of ps = map_of (rm_dict r) ++ map_of (p # ps)"
    unfolding u(2) by (auto simp: p map_add_def fun_eq_iff split: option.split)
  moreover have "distinct (map fst (rm_dict r)) \<longrightarrow> distinct (map fst (rm_dict r1))"
    by (simp add: r1_def distinct_update)
  moreover have "foldR (\<lambda>(q, n). rm_update q n) (p # ps) r = Inr r'"
    using run r'(1) by (simp add: p)
  ultimately show ?case using r'(2-4) by metis
qed simp

lemma mapR_rm_get:
  assumes "\<not> rm_use_list r" and "set qs \<subseteq> dom (map_of (rm_dict r))"
  shows "mapR (rm_get r) qs = Inr (map (\<lambda>q. the (map_of (rm_dict r) q)) qs)"
  by (rule mapR_all_Inr) (use assms in \<open>auto simp: rm_get_def d_get_def lookupR_def\<close>)


lemma set_new_lens:
  assumes "batch_ok lens m b"
  shows "map fst (new_lens b) = take (ab_num_prefill_seqs b) (ab_req_ids b) \<and>
    distinct (map fst (new_lens b)) \<and> (\<forall>p \<in> set (new_lens b). 0 < snd p) \<and>
    fst ` set (new_lens b) \<inter> dom lens = {} \<and>
    set (ab_req_ids b) \<subseteq> dom (lens ++ map_of (new_lens b))"
proof -
  let ?k = "ab_num_prefill_seqs b"
  have fst: "map fst (new_lens b) = take ?k (ab_req_ids b)"
    using assms by (simp add: new_lens_def batch_ok_def)
  have f: "fst ` set (new_lens b) = set (take ?k (ab_req_ids b))" using fst by (metis set_map)
  have dist: "distinct (ab_req_ids b)" using assms by (simp add: batch_ok_def)
  have pos: "\<forall>p \<in> set (new_lens b). 0 < snd p"
    using assms by (auto simp: new_lens_def batch_ok_def dest: set_zip_rightD)
  have "set (ab_req_ids b) = set (take ?k (ab_req_ids b)) \<union> set (drop ?k (ab_req_ids b))"
    by (metis append_take_drop_id set_append)
  then have "set (ab_req_ids b) \<subseteq> dom (lens ++ map_of (new_lens b))"
    using assms f by (auto simp: batch_ok_def dom_map_of_conv_image_fst)
  then show ?thesis using fst f dist pos assms by (simp add: batch_ok_def)
qed

lemma cpu_step:
  assumes "cpu_ok U s" and "cm_layer_ids s = Some (ab_layer_id b # ls)"
    and "batch_ok (cpu_lens s) m b"
    and "step_need (cb_block_size (cm_blocks s)) (cpu_lens s) b < num_free_blocks (cm_blocks s)"
  shows "\<exists>s'. cpu_update_block_table m b s =
      Inr (b\<lparr>ab_seq_lens := Some (map (\<lambda>n. n + 1) (context_lens_of (cpu_lens s) b))\<rparr>, s') \<and>
    cpu_ok U s' \<and>
    cpu_lens s' = (cpu_lens s ++ map_of (new_lens b)) ++
      map_of (zip (ab_req_ids b) (map (\<lambda>n. n + 1) (context_lens_of (cpu_lens s) b))) \<and>
    num_free_blocks (cm_blocks s') = num_free_blocks (cm_blocks s) -
      step_need (cb_block_size (cm_blocks s)) (cpu_lens s) b \<and>
    same_shape (cm_blocks s) (cm_blocks s')"
proof -
  let ?k = "ab_num_prefill_seqs b" and ?reqs = "ab_req_ids b" and ?r = "cm_reqs s"
  let ?bs = "cb_block_size (cm_blocks s)" and ?L = "cpu_lens s ++ map_of (new_lens b)"
  let ?ctx = "context_lens_of (cpu_lens s) b"
  have ok: "blocks_ok U (cm_blocks s)" "layout (cm_blocks s) (cpu_lens s)" "0 < ?bs"
    "cb_reserved (cm_blocks s) = 0" "\<not> rm_use_list ?r" "distinct (map fst (rm_dict ?r))"
    using assms(1) by (auto simp: cpu_ok_def)
  have bk: "md_req_ids m = ?reqs" "md_init_prefill_lens m = ab_init_prefill_lens b"
    "md_num_prefill_tokens m = Some ?k" "?k \<le> length ?reqs" "?k \<le> length (ab_init_prefill_lens b)"
    "distinct ?reqs"
    using assms(3) by (auto simp: batch_ok_def)
  obtain nd sh where md: "md_num_decode_tokens m = Some nd" "md_shape m = length ?reqs # sh"
    using assms(3) by (auto simp: batch_ok_def)
  note nl = set_new_lens [OF assms(3)]
  have loop1: "foldR (\<lambda>i r. bindR (py_get (ab_init_prefill_lens b) (int i)) (\<lambda>n. rm_update (?reqs ! i) n r))
      [0..<min ?k (length ?reqs)] ?r = foldR (\<lambda>(q, n). rm_update q n) (new_lens b) ?r"
    unfolding new_lens_def min_absorb1 [OF bk(4)]
    by (rule index_loop) (use bk(4,5) in simp_all)
  have nld: "distinct (map fst (new_lens b))" using nl by (elim conjE)
  obtain r1 where r1: "foldR (\<lambda>(q, n). rm_update q n) (new_lens b) ?r = Inr r1" "\<not> rm_use_list r1"
      "map_of (rm_dict r1) = ?L" "distinct (map fst (rm_dict r1))"
    using rm_update_loop [OF ok(5) nld] ok(6) unfolding cpu_lens_def by blast
  have sub: "set ?reqs \<subseteq> dom ?L" using nl by (elim conjE)
  have "set ?reqs \<subseteq> dom (map_of (rm_dict r1))" unfolding r1(3) by (rule sub)
  from mapR_rm_get [OF r1(2) this]
  have lens: "mapR (rm_get r1) ?reqs = Inr ?ctx" unfolding r1(3) by (simp add: context_lens_of_def)
  have lctx: "length ?ctx = length ?reqs" by (simp add: context_lens_of_def)
  have an: "0 \<le> append_need ?bs ps" for ps unfolding append_need_def by (intro sum_list_nonneg) auto
  have pre1: "fst ` set (new_lens b) \<inter> dom (cpu_lens s) = {}" "\<forall>p \<in> set (new_lens b). 0 < snd p"
    "0 \<le> cb_reserved (cm_blocks s)"
    "alloc_need ?bs (new_lens b) + cb_reserved (cm_blocks s) \<le> num_free_blocks (cm_blocks s)"
    using nl ok(4) assms(4) an [of "zip ?reqs ?ctx"] by (auto simp: step_need_def)
  obtain b1 where b1: "alloc_all (new_lens b) (cm_blocks s) = Inr b1" "blocks_ok U b1" "layout b1 ?L"
      "same_shape (cm_blocks s) b1"
      "num_free_blocks b1 = num_free_blocks (cm_blocks s) - alloc_need ?bs (new_lens b)"
    using alloc_all_ok [OF ok(1,2,3) pre1(3) nld pre1(1,2,4)] by blast
  have bs1: "cb_block_size b1 = ?bs" using b1(4) by (simp add: same_shape_def)
  have pre2: "distinct (map fst (zip ?reqs ?ctx))" "\<forall>p \<in> set (zip ?reqs ?ctx). ?L (fst p) = Some (snd p)"
    "append_need (cb_block_size b1) (zip ?reqs ?ctx) < num_free_blocks b1" "0 < cb_block_size b1"
  proof -
    show "distinct (map fst (zip ?reqs ?ctx))" using bk(6) lctx by simp
    show "\<forall>p \<in> set (zip ?reqs ?ctx). ?L (fst p) = Some (snd p)"
    proof
      fix p
      assume "p \<in> set (zip ?reqs ?ctx)"
      then obtain i where i: "i < length ?reqs" "p = (?reqs ! i, the (?L (?reqs ! i)))"
        by (auto simp: set_zip context_lens_of_def)
      then have "?reqs ! i \<in> dom ?L" using sub by (meson nth_mem subset_eq)
      then show "?L (fst p) = Some (snd p)" using i(2) by auto
    qed
    show "append_need (cb_block_size b1) (zip ?reqs ?ctx) < num_free_blocks b1"
      using assms(4) b1(5) bs1 by (simp add: step_need_def)
    show "0 < cb_block_size b1" using ok(3) bs1 by simp
  qed
  obtain b2 where b2: "append_all (zip ?reqs ?ctx) b1 = Inr b2" "blocks_ok U b2"
      "layout b2 (?L ++ map_of (map (\<lambda>(q, n). (q, n + 1)) (zip ?reqs ?ctx)))" "same_shape b1 b2"
      "num_free_blocks b2 = num_free_blocks b1 - append_need ?bs (zip ?reqs ?ctx)"
    using append_all_ok [OF b1(2,3) pre2(4,1,2,3)] unfolding bs1 by blast
  have zm: "map (\<lambda>(q, n). (q, n + 1)) (zip ?reqs ?ctx) = zip ?reqs (map (\<lambda>n. n + 1) ?ctx)"
    by (simp add: zip_map2)
  have upd: "cb_update_block_table m ?ctx (cm_blocks s) = Inr b2"
    using cb_update_eq [OF bk(3) md _ bk(4) _ lctx, of "cm_blocks s"] bk b1(1) b2(1)
    by (simp add: new_lens_def)
  have loop2: "foldR (\<lambda>(q, n). rm_update q (n + 1)) (zip ?reqs ?ctx) r1
      = foldR (\<lambda>(q, n). rm_update q n) (zip ?reqs (map (\<lambda>n. n + 1) ?ctx)) r1"
    unfolding zm [symmetric] foldR_map by (rule foldR_cong) auto
  have "distinct (map fst (zip ?reqs (map (\<lambda>n. n + 1) ?ctx)))" using bk(6) lctx by simp
  then obtain r2 where r2: "foldR (\<lambda>(q, n). rm_update q n) (zip ?reqs (map (\<lambda>n. n + 1) ?ctx)) r1 = Inr r2"
      "\<not> rm_use_list r2"
      "map_of (rm_dict r2) = ?L ++ map_of (zip ?reqs (map (\<lambda>n. n + 1) ?ctx))"
      "distinct (map fst (rm_dict r2))"
    using rm_update_loop [OF r1(2)] r1(3,4) by metis
  define s' where "s' = s\<lparr>cm_blocks := b2, cm_reqs := r2\<rparr>"
  have "cpu_update_block_table m b s = Inr (b\<lparr>ab_seq_lens := Some (map (\<lambda>n. n + 1) ?ctx)\<rparr>, s')"
    using assms(2) loop1 r1(1) lens upd loop2 r2(1)
    by (simp add: cpu_update_block_table_def py_get_def py_pos_def s'_def)
  moreover have "cpu_ok U s'"
    using b2(2,3) r2 ok(3,4) b1(4) b2(4) zm
    by (simp add: cpu_ok_def s'_def cpu_lens_def same_shape_def)
  moreover have "cpu_lens s' = ?L ++ map_of (zip ?reqs (map (\<lambda>n. n + 1) ?ctx))"
    using r2(3) by (simp add: s'_def cpu_lens_def)
  moreover have "num_free_blocks (cm_blocks s') = num_free_blocks (cm_blocks s) -
      step_need ?bs (cpu_lens s) b"
    using b2(5) b1(5) by (simp add: s'_def step_need_def)
  moreover have "same_shape (cm_blocks s) (cm_blocks s')"
    using b1(4) b2(4) by (simp add: same_shape_def s'_def)
  ultimately show ?thesis by blast
qed


section \<open>The slots of a step\<close>

lemma prepare_block_table_ok:
  assumes "blocks_ok U s" and "layout s lens" and "0 < cb_block_size s"
    and "md_shape m = length (md_req_ids m) # sh" and "distinct (md_req_ids m)"
    and "length ns = length (md_req_ids m)"
    and "\<And>i. i < length ns \<Longrightarrow> lens (md_req_ids m ! i) = Some (ns ! i)"
  shows "\<exists>table slots w. prepare_block_table m ns s = Inr (table, slots, w) \<and>
    length slots = length ns \<and> distinct slots \<and>
    (\<forall>i < length ns. slots ! i =
       kv_slot (cb_block_size s) (held s (md_req_ids m ! i)) (ns ! i - 1))"
proof -
  let ?reqs = "md_req_ids m" and ?b = "cb_block_size s"
  let ?ls = "map (held s) ?reqs"
  have tab: "cb_tables s q = Some (held s q)" if "q \<in> set ?reqs" for q
  proof -
    obtain i where "i < length ns" "q = ?reqs ! i" using \<open>q \<in> set ?reqs\<close> assms(6) by (metis in_set_conv_nth)
    then have "q \<in> dom lens" using assms(7) by blast
    then have "q \<in> dom (cb_tables s)" using assms(2) by (simp add: layout_def)
    then show ?thesis by (auto simp: held_def)
  qed
  have n: "num_tokens_c m = Inr (length ?reqs)" using assms(4) by (simp add: num_tokens_c_def vec_get_def)
  have "mapR (\<lambda>i. bindR (vec_get ?reqs (int i)) (\<lambda>req. bindR (cpp_assert (has_seq_block_list s req))
      (\<lambda>_. Inr (the (cb_tables s req))))) [0..<length ?reqs] = Inr (map (\<lambda>i. held s (?reqs ! i)) [0..<length ?reqs])"
    by (rule mapR_all_Inr) (simp add: tab has_seq_block_list_def)
  moreover have "map (\<lambda>i. held s (?reqs ! i)) [0..<length ?reqs] = ?ls"
    by (rule nth_equalityI) simp_all
  ultimately have bl: "batch_block_lists m s = Inr ?ls" by (simp add: batch_block_lists_def n)
  have facts: "0 < ns ! i \<and> int (length (?ls ! i)) = ceil_div (ns ! i) ?b" if "i < length ns" for i
  proof -
    have i: "i < length ?reqs" using that assms(6) by simp
    have t: "cb_tables s (?reqs ! i) = Some (held s (?reqs ! i))" by (rule tab) (simp add: i)
    have "0 < ns ! i \<and> int (length (held s (?reqs ! i))) = ceil_div (ns ! i) ?b"
      using assms(2) t assms(7) [OF that] unfolding layout_def by blast
    then show ?thesis using i by simp
  qed
  let ?slots = "map (\<lambda>i. kv_slot ?b (?ls ! i) (ns ! i - 1)) [0..<length ?ls]"
  have "mapR (\<lambda>i. bindR (vec_get ns (int i)) (\<lambda>len. slot_of ?b (padded_table ?ls) (table_width ?ls) i len))
      [0..<length ?ls] = Inr ?slots"
  proof (rule mapR_all_Inr)
    fix i
    assume "i \<in> set [0..<length ?ls]"
    then have i: "i < length ns" "i < length ?ls" using assms(6) by simp_all
    have "vec_get ns (int i) = Inr (ns ! i)" using i(1) by (rule vec_get_nat)
    moreover have "slot_of ?b (padded_table ?ls) (table_width ?ls) i (ns ! i)
        = Inr (kv_slot ?b (?ls ! i) (ns ! i - 1))"
      using slot_of_eq [OF i(2) assms(3)] facts [OF i(1)] by blast
    ultimately show "bindR (vec_get ns (int i)) (\<lambda>len. slot_of ?b (padded_table ?ls) (table_width ?ls) i len)
        = Inr (kv_slot ?b (?ls ! i) (ns ! i - 1))" by simp
  qed
  then have run: "prepare_block_table m ns s = Inr (padded_table ?ls, ?slots, table_width ?ls)"
    by (simp add: prepare_block_table_def bl Let_def)
  have val: "?slots ! i = kv_slot ?b (held s (?reqs ! i)) (ns ! i - 1)" if "i < length ns" for i
    using that assms(6) by simp
  have "distinct ?slots"
  proof (subst distinct_conv_nth, intro allI impI)
    fix i j
    assume ij: "i < length ?slots" "j < length ?slots" "i \<noteq> j"
    then have l: "i < length ns" "j < length ns" using assms(6) by simp_all
    have ri: "?reqs ! i \<in> set ?reqs" "?reqs ! j \<in> set ?reqs" using l assms(6) by simp_all
    show "?slots ! i \<noteq> ?slots ! j"
    proof
      assume "?slots ! i = ?slots ! j"
      then have "kv_slot ?b (held s (?reqs ! i)) (ns ! i - 1) = kv_slot ?b (held s (?reqs ! j)) (ns ! j - 1)"
        using val l by simp
      from kv_slot_inj [OF assms(1-3) tab [OF ri(1)] assms(7) [OF l(1)] _ _ tab [OF ri(2)]
          assms(7) [OF l(2)] _ _ this]
      have "?reqs ! i = ?reqs ! j" using facts [OF l(1)] facts [OF l(2)] by simp
      then show False using ij(3) l assms(5,6) by (simp add: nth_eq_iff_index_eq)
    qed
  qed
  then show ?thesis using run val assms(6) by (intro exI conjI) auto
qed

section \<open>Properties\<close>

text \<open>
  C4: a step admits and grows exactly. From a state in which every running request holds the
  blocks its tokens need and no block is held twice, the first layer of a step over a batch
  of the engine succeeds whenever one more block is free than it takes; afterwards every
  request of the batch is one token longer, holds exactly the blocks it needs, no block is
  shared, and the free blocks have shrunk by what was taken.
\<close>

theorem cpu_step_blocks:
  assumes "cpu_ok U s" and "cm_layer_ids s = Some (ab_layer_id b # ls)"
    and "batch_ok (cpu_lens s) m b"
    and "step_need (cb_block_size (cm_blocks s)) (cpu_lens s) b < num_free_blocks (cm_blocks s)"
  shows "\<exists>s'. cpu_update_block_table m b s =
      Inr (b\<lparr>ab_seq_lens := Some (map (\<lambda>n. n + 1) (context_lens_of (cpu_lens s) b))\<rparr>, s') \<and>
    cpu_ok U s' \<and>
    (\<forall>i < length (ab_req_ids b).
       cpu_lens s' (ab_req_ids b ! i) = Some (context_lens_of (cpu_lens s) b ! i + 1) \<and>
       int (length (held (cm_blocks s') (ab_req_ids b ! i))) =
         ceil_div (context_lens_of (cpu_lens s) b ! i + 1) (cb_block_size (cm_blocks s))) \<and>
    num_free_blocks (cm_blocks s') = num_free_blocks (cm_blocks s) -
      step_need (cb_block_size (cm_blocks s)) (cpu_lens s) b"
proof -
  let ?ctx = "context_lens_of (cpu_lens s) b"
  obtain s' where s': "cpu_update_block_table m b s =
      Inr (b\<lparr>ab_seq_lens := Some (map (\<lambda>n. n + 1) ?ctx)\<rparr>, s')" "cpu_ok U s'"
      "cpu_lens s' = (cpu_lens s ++ map_of (new_lens b)) ++
        map_of (zip (ab_req_ids b) (map (\<lambda>n. n + 1) ?ctx))"
      "num_free_blocks (cm_blocks s') = num_free_blocks (cm_blocks s) -
        step_need (cb_block_size (cm_blocks s)) (cpu_lens s) b"
      "same_shape (cm_blocks s) (cm_blocks s')"
    using cpu_step [OF assms] by blast
  have dist: "distinct (ab_req_ids b)" using assms(3) by (simp add: batch_ok_def)
  have len: "cpu_lens s' (ab_req_ids b ! i) = Some (?ctx ! i + 1)" if "i < length (ab_req_ids b)" for i
  proof -
    have "map_of (zip (ab_req_ids b) (map (\<lambda>n. n + 1) ?ctx)) (ab_req_ids b ! i) = Some (?ctx ! i + 1)"
      using that dist by (subst map_of_zip_nth) (simp_all add: context_lens_of_def)
    then show ?thesis unfolding s'(3) by simp
  qed
  have "int (length (held (cm_blocks s') (ab_req_ids b ! i))) =
      ceil_div (?ctx ! i + 1) (cb_block_size (cm_blocks s))" if "i < length (ab_req_ids b)" for i
  proof -
    have lay: "layout (cm_blocks s') (cpu_lens s')" using s'(2) by (simp add: cpu_ok_def)
    have "ab_req_ids b ! i \<in> dom (cpu_lens s')" using len [OF that] by blast
    then have "ab_req_ids b ! i \<in> dom (cb_tables (cm_blocks s'))" using lay by (simp add: layout_def)
    then obtain l where "cb_tables (cm_blocks s') (ab_req_ids b ! i) = Some l" by blast
    then show ?thesis using lay len [OF that] s'(5) by (simp add: layout_def held_def same_shape_def)
  qed
  then show ?thesis using s'(1,2,4) len by blast
qed

text \<open>A manager with eight blocks of four tokens, and a batch of two new requests.\<close>

definition demo_cpu :: cpu_manager where
  "demo_cpu = cpu_init 4 8 (Some [2, 3]) 16"

definition demo_batch :: attn_batch where
  "demo_batch =
     \<lparr>ab_shape = [2, 16], ab_dtype = ''bf16'', ab_layer_id = 2, ab_req_ids = [7, 5],
      ab_init_prefill_lens = [4, 3], ab_num_prefill_seqs = 2, ab_num_prefill_tokens = 2,
      ab_num_decode_tokens = 0, ab_req_indices = None, ab_seq_lens = None\<rparr>"

lemma demo_batch_ok: "batch_ok (cpu_lens demo_cpu) (attn_to_metadata demo_batch) demo_batch"
  by (simp add: batch_ok_def demo_batch_def attn_to_metadata_def demo_cpu_def cpu_init_def
      rm_init_def cpu_lens_def)

lemma demo_cpu_facts:
  "cpu_ok {0..<8} demo_cpu" "cm_layer_ids demo_cpu = Some (ab_layer_id demo_batch # [3])"
  "context_lens_of (cpu_lens demo_cpu) demo_batch = [4, 3]"
  "step_need (cb_block_size (cm_blocks demo_cpu)) (cpu_lens demo_cpu) demo_batch = 3"
  "num_free_blocks (cm_blocks demo_cpu) = 8"
proof -
  show "cpu_ok {0..<8} demo_cpu" unfolding demo_cpu_def by (rule cpu_init_ok) simp
  show c: "context_lens_of (cpu_lens demo_cpu) demo_batch = [4, 3]"
    by (simp add: context_lens_of_def demo_batch_def new_lens_def demo_cpu_def cpu_init_def
        rm_init_def cpu_lens_def)
  show "step_need (cb_block_size (cm_blocks demo_cpu)) (cpu_lens demo_cpu) demo_batch = 3"
    unfolding step_need_def c
    by (simp add: demo_batch_def new_lens_def demo_cpu_def cpu_init_def cb_init_def
        alloc_need_def append_need_def ceil_div_def)
qed (simp_all add: demo_cpu_def cpu_init_def demo_batch_def cb_init_def num_free_blocks_def)

lemma cpu_step_blocks_witness:
  "\<exists>b' s'. cpu_update_block_table (attn_to_metadata demo_batch) demo_batch demo_cpu = Inr (b', s') \<and>
     ab_seq_lens b' = Some [5, 4] \<and> num_free_blocks (cm_blocks s') = 5"
proof -
  have lt: "step_need (cb_block_size (cm_blocks demo_cpu)) (cpu_lens demo_cpu) demo_batch
      < num_free_blocks (cm_blocks demo_cpu)" by (simp add: demo_cpu_facts)
  obtain s' where "cpu_update_block_table (attn_to_metadata demo_batch) demo_batch demo_cpu =
      Inr (demo_batch\<lparr>ab_seq_lens := Some (map (\<lambda>n. n + 1)
        (context_lens_of (cpu_lens demo_cpu) demo_batch))\<rparr>, s')"
      "num_free_blocks (cm_blocks s') = 8 - 3"
    using cpu_step_blocks [OF demo_cpu_facts(1,2) demo_batch_ok lt] by (auto simp: demo_cpu_facts)
  then show ?thesis by (simp add: demo_cpu_facts)
qed


text \<open>
  C11: no two tokens share a cache slot. After a successful step the block table that the
  attention kernel gets gives every sequence of the batch the slot of its newest token, in
  the block its position falls into, and the slots of the batch are pairwise distinct.
\<close>

theorem step_slots_distinct:
  assumes "cpu_ok U s" and "cm_layer_ids s = Some (ab_layer_id b # ls)"
    and "batch_ok (cpu_lens s) m b"
    and "step_need (cb_block_size (cm_blocks s)) (cpu_lens s) b < num_free_blocks (cm_blocks s)"
  shows "\<exists>s' table slots w. cpu_update_block_table m b s =
      Inr (b\<lparr>ab_seq_lens := Some (map (\<lambda>n. n + 1) (context_lens_of (cpu_lens s) b))\<rparr>, s') \<and>
    prepare_block_table m (map (\<lambda>n. n + 1) (context_lens_of (cpu_lens s) b)) (cm_blocks s')
      = Inr (table, slots, w) \<and>
    length slots = length (ab_req_ids b) \<and> distinct slots \<and>
    (\<forall>i < length (ab_req_ids b). slots ! i =
       kv_slot (cb_block_size (cm_blocks s)) (held (cm_blocks s') (ab_req_ids b ! i))
         (context_lens_of (cpu_lens s) b ! i))"
proof -
  let ?ctx = "context_lens_of (cpu_lens s) b" and ?ns = "map (\<lambda>n. n + 1) (context_lens_of (cpu_lens s) b)"
  obtain s' where s': "cpu_update_block_table m b s = Inr (b\<lparr>ab_seq_lens := Some ?ns\<rparr>, s')"
      "cpu_ok U s'"
      "cpu_lens s' = (cpu_lens s ++ map_of (new_lens b)) ++ map_of (zip (ab_req_ids b) ?ns)"
      "same_shape (cm_blocks s) (cm_blocks s')"
    using cpu_step [OF assms] by blast
  have bk: "md_req_ids m = ab_req_ids b" "distinct (ab_req_ids b)"
    using assms(3) by (auto simp: batch_ok_def)
  obtain sh where sh: "md_shape m = length (md_req_ids m) # sh" using assms(3) by (auto simp: batch_ok_def)
  have ln: "length ?ns = length (md_req_ids m)" by (simp add: context_lens_of_def bk)
  have lens: "cpu_lens s' (md_req_ids m ! i) = Some (?ns ! i)" if "i < length ?ns" for i
  proof -
    have i: "i < length (ab_req_ids b)" using that by (simp add: context_lens_of_def)
    have "map_of (zip (ab_req_ids b) ?ns) (ab_req_ids b ! i) = Some (?ns ! i)"
      using i bk(2) ln bk(1) by (intro map_of_zip_nth) simp_all
    then show ?thesis unfolding s'(3) bk by simp
  qed
  have ok: "blocks_ok U (cm_blocks s')" "layout (cm_blocks s') (cpu_lens s')"
    "0 < cb_block_size (cm_blocks s')"
    using s'(2) by (auto simp: cpu_ok_def)
  have dm: "distinct (md_req_ids m)" using bk by simp
  have bs: "cb_block_size (cm_blocks s') = cb_block_size (cm_blocks s)"
    using s'(4) by (simp add: same_shape_def)
  obtain table slots w where p: "prepare_block_table m ?ns (cm_blocks s') = Inr (table, slots, w)"
      "length slots = length ?ns" "distinct slots"
      "\<And>i. i < length ?ns \<Longrightarrow> slots ! i =
         kv_slot (cb_block_size (cm_blocks s')) (held (cm_blocks s') (md_req_ids m ! i)) (?ns ! i - 1)"
    using prepare_block_table_ok [OF ok sh dm ln lens] by blast
  have "slots ! i = kv_slot (cb_block_size (cm_blocks s)) (held (cm_blocks s') (ab_req_ids b ! i)) (?ctx ! i)"
    if "i < length (ab_req_ids b)" for i
    using p(4) [of i] that bs bk by (simp add: context_lens_of_def)
  moreover have "length slots = length (ab_req_ids b)" using p(2) by (simp add: context_lens_of_def)
  ultimately show ?thesis using s'(1) p(1,3) by blast
qed

lemma step_slots_distinct_witness:
  "\<exists>b' s' table slots w.
     cpu_update_block_table (attn_to_metadata demo_batch) demo_batch demo_cpu = Inr (b', s') \<and>
     prepare_block_table (attn_to_metadata demo_batch) [5, 4] (cm_blocks s') = Inr (table, slots, w) \<and>
     length slots = 2 \<and> distinct slots"
proof -
  have lt: "step_need (cb_block_size (cm_blocks demo_cpu)) (cpu_lens demo_cpu) demo_batch
      < num_free_blocks (cm_blocks demo_cpu)" by (simp add: demo_cpu_facts)
  have ns: "map (\<lambda>n. n + 1) (context_lens_of (cpu_lens demo_cpu) demo_batch) = [5, 4]"
    by (simp add: demo_cpu_facts)
  have "length (ab_req_ids demo_batch) = 2" by (simp add: demo_batch_def)
  then show ?thesis
    using step_slots_distinct [OF demo_cpu_facts(1,2) demo_batch_ok lt] unfolding ns by metis
qed

text \<open>
  A reset gives every block back. From any reachable state \<open>reset_state\<close> succeeds, no
  request is left, and the free queue holds each block of the cache exactly once.
\<close>

theorem cpu_reset_returns_all:
  assumes "cpu_ok U s"
  shows "\<exists>s'. cpu_reset_state s = Inr s' \<and> cpu_ok U s' \<and> cpu_lens s' = Map.empty \<and>
    distinct (cb_free (cm_blocks s')) \<and> set (cb_free (cm_blocks s')) = U"
proof -
  let ?r = "cm_reqs s"
  have ok: "blocks_ok U (cm_blocks s)" "layout (cm_blocks s) (cpu_lens s)" "0 < cb_block_size (cm_blocks s)"
    "cb_reserved (cm_blocks s) = 0" "\<not> rm_use_list ?r" "distinct (map fst (rm_dict ?r))"
    using assms by (auto simp: cpu_ok_def)
  have act: "rm_active ?r = map fst (rm_dict ?r)" using ok(5) by (simp add: rm_active_def)
  have dom: "dom (cpu_lens s) = set (rm_active ?r)"
    by (simp add: act cpu_lens_def dom_map_of_conv_image_fst)
  have "distinct (rm_active ?r)" "set (rm_active ?r) \<subseteq> dom (cpu_lens s)" using act ok(6) dom by simp_all
  from cb_batch_release_ok [OF ok(1,2) this]
  obtain b where b: "cb_batch_release (rm_active ?r) (cm_blocks s) = Inr b" "blocks_ok U b"
      "layout b (cpu_lens s |` (- set (rm_active ?r)))" "same_shape (cm_blocks s) b" by blast
  have empty: "cpu_lens s |` (- set (rm_active ?r)) = Map.empty"
    using dom by (auto simp: restrict_map_def fun_eq_iff)
  have "\<exists>r'. rm_release qs r = Inr r' \<and> \<not> rm_use_list r' \<and> rm_max_running r' = rm_max_running r"
    if "\<not> rm_use_list r" "distinct qs" "set qs \<subseteq> fst ` set (rm_dict r)" for qs r
    using that
  proof (induction qs arbitrary: r)
    case (Cons q qs)
    define r1 where "r1 = r\<lparr>rm_dict := AList.delete q (rm_dict r)\<rparr>"
    have "fst ` set (rm_dict r1) = fst ` set (rm_dict r) - {q}"
      by (simp add: r1_def delete_keys flip: set_map)
    then have "set qs \<subseteq> fst ` set (rm_dict r1)" using Cons.prems(2,3) by auto
    then obtain r' where "rm_release qs r1 = Inr r' \<and> \<not> rm_use_list r' \<and> rm_max_running r' = rm_max_running r1"
      using Cons.IH [of r1] Cons.prems(1,2) by (auto simp: r1_def)
    then show ?case using Cons.prems(1,3) by (auto simp: rm_release_def r1_def d_has_def)
  qed (simp add: rm_release_def)
  from this [OF ok(5) \<open>distinct (rm_active ?r)\<close>] act
  obtain r' where r': "rm_release (rm_active ?r) ?r = Inr r'" "\<not> rm_use_list r'" by auto
  define s' where "s' = s\<lparr>cm_blocks := b, cm_reqs := rm_reset r'\<rparr>"
  have run: "cpu_reset_state s = Inr s'"
    using b(1) r'(1) by (simp add: cpu_reset_state_def cpu_release_seqs_def s'_def)
  have lens: "cpu_lens s' = Map.empty" by (simp add: s'_def cpu_lens_def rm_reset_def)
  have tabs: "cb_tables b = Map.empty" using b(3) by (simp add: empty layout_def)
  have "cpu_ok U s'"
    using b(2-4) ok(3,4) r'(2) lens empty
    by (simp add: cpu_ok_def s'_def same_shape_def rm_reset_def)
  moreover have "distinct (cb_free b) \<and> set (cb_free b) = U"
    using b(2) tabs by (simp add: blocks_ok_def)
  ultimately show ?thesis using run lens by (simp add: s'_def)
qed

lemma cpu_reset_returns_all_witness:
  "\<exists>s'. cpu_reset_state demo_cpu = Inr s' \<and> set (cb_free (cm_blocks s')) = {0..<8}"
  using cpu_reset_returns_all [OF demo_cpu_facts(1)] by blast


section \<open>Observations\<close>

text \<open>
  The growth of a sequence asserts \<open>num_free_blocks() > blocks_to_add\<close>: the last free block
  is never handed out, although \<open>can_append\<close> offers it.
\<close>

lemma append_refuses_last_block:
  assumes "0 < cb_block_size s" and "0 < n" and "cb_tables s q = Some l"
    and "n mod cb_block_size s = 0" and "num_free_blocks s = 1"
  shows "can_append s \<and> cb_append_tokens q n 1 s = Inl CppAssertion"
proof -
  have "n smod cb_block_size s = n mod cb_block_size s"
    using assms(1,2) by (simp add: signed_modulo_int_def)
  then show ?thesis
    using assms by (simp add: can_append_def cb_append_tokens_def has_seq_block_list_def Let_def
        signed_divide_int_def)
qed

text \<open>
  The scheduler counts that block as usable: a rank of two blocks of 16 tokens admits a
  request of 16 prompt and 16 output tokens, and the first step of its worker aborts.
\<close>

definition tight_batch :: attn_batch where
  "tight_batch =
     \<lparr>ab_shape = [1, 16], ab_dtype = ''bf16'', ab_layer_id = 0, ab_req_ids = [7],
      ab_init_prefill_lens = [16], ab_num_prefill_seqs = 1, ab_num_prefill_tokens = 1,
      ab_num_decode_tokens = 0, ab_req_indices = None, ab_seq_lens = None\<rparr>"

lemma admitted_request_aborts:
  "map_option fst (case schedule [7] [16] [16] ((dp_init 1 16 PMax [])\<lparr>kv_cache_stats := [2]\<rparr>) of
      Inl _ \<Rightarrow> None | Inr x \<Rightarrow> Some x) = Some [0] \<and>
   (case cpu_update_block_table (attn_to_metadata tight_batch) tight_batch
      (cpu_init 16 2 (Some [0]) 16) of Inl e \<Rightarrow> Some e | Inr _ \<Rightarrow> None) = Some CppAssertion"
proof
  show "map_option fst (case schedule [7] [16] [16] ((dp_init 1 16 PMax [])\<lparr>kv_cache_stats := [2]\<rparr>) of
      Inl _ \<Rightarrow> None | Inr x \<Rightarrow> Some x) = Some [0]"
    by (simp add: dp_init_def schedule_def schedule_one_def pick_rank_def schedule_max_def
        required_blocks_def add_seq_def py_get_def py_set_def py_pos_def Let_def)
  show "(case cpu_update_block_table (attn_to_metadata tight_batch) tight_batch
      (cpu_init 16 2 (Some [0]) 16) of Inl e \<Rightarrow> Some e | Inr _ \<Rightarrow> None) = Some CppAssertion"
    by code_simp
qed

text \<open>
  The GPU manager lists the slots of a mixed batch as running requests first, the lengths as
  new requests first: with request 5 running (two tokens, slot row 0) and request 7 new
  (three tokens, row 1), row 0 is written at column 3 instead of 2 and row 1 at column 2,
  where it overwrites the location of the third prompt token of request 7.
\<close>

definition mixed_first :: attn_batch where
  "mixed_first =
     \<lparr>ab_shape = [1, 16], ab_dtype = ''bf16'', ab_layer_id = 0, ab_req_ids = [5],
      ab_init_prefill_lens = [1], ab_num_prefill_seqs = 1, ab_num_prefill_tokens = 1,
      ab_num_decode_tokens = 0, ab_req_indices = None, ab_seq_lens = None\<rparr>"

definition mixed_second :: attn_batch where
  "mixed_second =
     \<lparr>ab_shape = [2, 16], ab_dtype = ''bf16'', ab_layer_id = 0, ab_req_ids = [7, 5],
      ab_init_prefill_lens = [3, -1], ab_num_prefill_seqs = 1, ab_num_prefill_tokens = 1,
      ab_num_decode_tokens = 1, ab_req_indices = None, ab_seq_lens = None\<rparr>"

lemma gpu_mixed_batch_corrupts:
  "(case bindR (gpu_init 1 20 4 6) (\<lambda>s. bindR (gpu_update_block_table mixed_first s)
       (\<lambda>(_, s). gpu_update_block_table mixed_second s)) of
      Inl e \<Rightarrow> None
    | Inr (b, s) \<Rightarrow> Some (ab_req_indices b, ab_seq_lens b, take 2 (rp_table (gm_pool s))))
   = Some (Some [0, 1], Some [4, 3], [[1, 2, 0, 6, 0, 0], [3, 4, 7, 0, 0, 0]])"
  by code_simp

end
