(* ===== verification/Metadata.thy ===== *)
theory Metadata
  imports KVBlocks
begin

text \<open>
  How the tokens of a batch are put in order: the operations on batch metadata that the
  engine calls (\<open>csrc/include/metadata.hpp\<close>, \<open>csrc/include/vector_utils.hpp\<close>), the mappings
  of \<open>disagmoe/ops/memory.py\<close> and the row movement of its permutation kernel. A mapping
  \<open>p\<close> says that row \<open>i\<close> goes to position \<open>p ! i\<close>.

  The two counting sorts are shown to be sorting permutations through one lemma on
  mappings of the form "number of smaller keys plus a rank inside the key's class".
\<close>

section \<open>Vector helpers\<close>

definition duplicate_vector :: "'a list \<Rightarrow> nat \<Rightarrow> 'a list" where
  "duplicate_vector xs n = concat (replicate n xs)"

definition permute_vector :: "'a::zero list \<Rightarrow> nat list \<Rightarrow> 'a list" where
  "permute_vector xs ps =
     (if xs = [] then []
      else fold (\<lambda>i r. r[ps ! i := xs ! i]) [0..<length ps] (replicate (length xs) 0))"

definition index_select_vector :: "'a list \<Rightarrow> nat list \<Rightarrow> 'a list result" where
  "index_select_vector xs is =
     (if xs = [] then Inr [] else mapR (\<lambda>i. vec_get xs (int i)) is)"

section \<open>Operations on metadata\<close>

definition is_attention :: "batch_metadata_c \<Rightarrow> bool" where
  "is_attention m \<longleftrightarrow> mc_batch_tag m = AttentionTag"

definition is_expert :: "batch_metadata_c \<Rightarrow> bool" where
  "is_expert m \<longleftrightarrow> mc_batch_tag m = ExpertTag"

definition step_layer :: "batch_metadata_c \<Rightarrow> batch_metadata_c" where
  "step_layer m = m\<lparr>md_layer_id := md_layer_id m + 1\<rparr>"

definition get_expert_batch_sizes :: "nat \<Rightarrow> batch_metadata_c \<Rightarrow> nat list result" where
  "get_expert_batch_sizes n m =
     bindR (cpp_assert (n > 0)) (\<lambda>_.
       foldR (\<lambda>e c. bindR (vec_get c (int e)) (\<lambda>v. Inr (c[e := v + 1])))
         (md_exp_ids m) (replicate n 0))"

definition get_token_expert_indices :: "int list \<Rightarrow> batch_metadata_c \<Rightarrow> int list result" where
  "get_token_expert_indices g2l m =
     bindR (num_tokens_c m) (\<lambda>n.
       mapR (\<lambda>i. bindR (vec_get (md_exp_ids m) (int i)) (\<lambda>e.
                 bindR (vec_get g2l (int e)) (\<lambda>r.
                 bindR (cpp_assert (r \<noteq> -1)) (\<lambda>_. Inr r)))) [0..<n])"

definition permute_token_infos :: "nat list \<Rightarrow> batch_metadata_c \<Rightarrow> batch_metadata_c result" where
  "permute_token_infos ps m =
     (if ps = [] then Inr m
      else bindR (num_tokens_c m) (\<lambda>n.
           bindR (cpp_assert (n = length ps)) (\<lambda>_.
             Inr (m\<lparr>md_req_ids := permute_vector (md_req_ids m) ps,
                    md_exp_ids := permute_vector (md_exp_ids m) ps,
                    md_attn_dp_ranks := permute_vector (md_attn_dp_ranks m) ps,
                    md_init_prefill_lens := permute_vector (md_init_prefill_lens m) ps,
                    md_topk_weights := permute_vector (md_topk_weights m) ps\<rparr>))))"

definition duplicate_topk :: "nat \<Rightarrow> batch_metadata_c \<Rightarrow> batch_metadata_c result" where
  "duplicate_topk k m =
     (if k = 1 then Inr m
      else bindR (num_tokens_c m) (\<lambda>n.
        Inr (m\<lparr>md_req_ids := duplicate_vector (md_req_ids m) k,
               md_init_prefill_lens := duplicate_vector (md_init_prefill_lens m) k,
               md_attn_dp_ranks := duplicate_vector (md_attn_dp_ranks m) k,
               md_topk_weights := duplicate_vector (md_topk_weights m) k,
               md_shape := (md_shape m)[0 := n * k]\<rparr>)))"

definition index_select :: "nat list \<Rightarrow> batch_metadata_c \<Rightarrow> batch_metadata_c result" where
  "index_select is m =
     bindR (vec_get (md_shape m) 1) (\<lambda>h.
     bindR (index_select_vector (md_req_ids m) is) (\<lambda>reqs.
     bindR (index_select_vector (md_exp_ids m) is) (\<lambda>exps.
     bindR (index_select_vector (md_topk_weights m) is) (\<lambda>ws.
     bindR (index_select_vector (md_attn_dp_ranks m) is) (\<lambda>ranks.
     bindR (index_select_vector (md_init_prefill_lens m) is) (\<lambda>lens.
       Inr \<lparr>md_shape = [length is, h], md_dtype = md_dtype m, md_layer_id = md_layer_id m,
            md_req_ids = reqs, md_exp_ids = exps, md_topk_weights = ws,
            md_attn_dp_ranks = ranks, md_init_prefill_lens = lens,
            md_num_prefill_seqs = None, md_num_prefill_tokens = None,
            md_num_decode_tokens = None, mc_batch_tag = mc_batch_tag m\<rparr>))))))"

text \<open>
  \<open>sort_by_expert\<close>: a counting sort over an array of \<open>max_num_experts\<close> counters. The slot of
  an expert \<open>e > 0\<close> is the running counter of the expert before it; expert 0 has a counter
  of its own.
\<close>

definition max_num_experts :: nat where "max_num_experts = 128"

definition count_experts :: "nat list \<Rightarrow> nat list result" where
  "count_experts es =
     foldR (\<lambda>e c. bindR (vec_get c (int e)) (\<lambda>v. Inr (c[e := v + 1]))) es
       (replicate max_num_experts 0)"

definition prefix_counts :: "nat list \<Rightarrow> nat list" where
  "prefix_counts c = fold (\<lambda>i c. c[i := c ! i + c ! (i - 1)]) [1..<length c] c"

definition place_token :: "nat list \<Rightarrow> nat \<Rightarrow> nat list \<times> nat \<times> nat list \<Rightarrow> (nat list \<times> nat \<times> nat list) result" where
  "place_token es i = (\<lambda>(ps, first, c).
     bindR (vec_get es (int i)) (\<lambda>e.
       if e = 0 then Inr (ps[i := first], first + 1, c)
       else bindR (vec_get c (int (e - 1))) (\<lambda>v.
              Inr (ps[i := v], first, c[e - 1 := v + 1]))))"

definition expert_positions :: "batch_metadata_c \<Rightarrow> nat list result" where
  "expert_positions m =
     bindR (num_tokens_c m) (\<lambda>n.
     bindR (count_experts (md_exp_ids m)) (\<lambda>c.
     bindR (foldR (place_token (md_exp_ids m)) [0..<n] (replicate n 0, 0, prefix_counts c))
       (\<lambda>(ps, _, _). Inr ps)))"

definition sort_by_expert :: "batch_metadata_c \<Rightarrow> (nat list \<times> batch_metadata_c) result" where
  "sort_by_expert m =
     bindR (expert_positions m) (\<lambda>ps.
     bindR (permute_token_infos ps m) (\<lambda>m. Inr (ps, m)))"

text \<open>
  \<open>sort_by_attention\<close> sorts the token indices with \<open>std::sort\<close>, which leaves the order of
  equivalent elements open: \<open>srt\<close> is that sort for a comparison.
\<close>

definition attn_before :: "batch_metadata_c \<Rightarrow> nat \<Rightarrow> nat \<Rightarrow> bool" where
  "attn_before m i j \<longleftrightarrow>
     (if md_attn_dp_ranks m ! i \<noteq> md_attn_dp_ranks m ! j
      then md_attn_dp_ranks m ! i < md_attn_dp_ranks m ! j
      else if md_init_prefill_lens m ! i = -1 \<or> md_init_prefill_lens m ! j = -1
      then md_init_prefill_lens m ! i > md_init_prefill_lens m ! j
      else md_req_ids m ! i < md_req_ids m ! j)"

type_synonym std_sort = "(nat \<Rightarrow> nat \<Rightarrow> bool) \<Rightarrow> nat list \<Rightarrow> nat list"

definition sort_by_attention ::
  "std_sort \<Rightarrow> batch_metadata_c \<Rightarrow> (nat list \<times> batch_metadata_c) result" where
  "sort_by_attention srt m =
     (let n = length (md_req_ids m);
          rank = srt (attn_before m) [0..<n];
          ps = fold (\<lambda>i p. p[rank ! i := i]) [0..<n] (replicate n 0)
      in bindR (permute_token_infos ps m) (\<lambda>m. Inr (ps, m)))"

section \<open>Mappings and row movement\<close>

definition get_mappings_from_exp_ids :: "nat list \<Rightarrow> nat \<Rightarrow> (int list \<times> int list) result" where
  "get_mappings_from_exp_ids es n =
     bindR (foldR (\<lambda>e c. bindR (py_get c (int e)) (\<lambda>v. py_set c (int e) (v + 1))) es
              (replicate n (0::int))) (\<lambda>cnt.
     bindR (bindR (py_get cnt 0) (\<lambda>v. py_set (replicate n 0) 0 v)) (\<lambda>cum.
     let cum = fold (\<lambda>i c. c[i := c ! (i - 1) + cnt ! i]) [1..<n] cum
     in bindR (foldR (\<lambda>i (mp, cum).
                 let e = es ! i
                 in bindR (py_get cum (int e)) (\<lambda>v.
                    bindR (py_set cum (int e) (v - 1)) (\<lambda>cum.
                      Inr (mp[i := v - 1], cum))))
               [0..<length es] (replicate (length es) 0, cum)) (\<lambda>(mp, _).
          Inr (mp, cnt))))"

text \<open>
  The CUDA variant takes the ranking of torch's \<open>sort\<close> (\<open>rankings\<close>: the indices in sorted
  order) and inverts it.
\<close>

definition mappings_of_rankings :: "nat list \<Rightarrow> nat list" where
  "mappings_of_rankings r = fold (\<lambda>i m. m[r ! i := i]) [0..<length r] [0..<length r]"

text \<open>
  The permutation kernel moves row \<open>t div topk\<close> of the input to row \<open>p ! t\<close> of the output,
  where \<open>topk\<close> is the ratio of the two numbers of rows.
\<close>

definition permute_tokens :: "'a list \<Rightarrow> nat list \<Rightarrow> 'a option list result" where
  "permute_tokens rows ps =
     (if length ps mod length rows \<noteq> 0 \<or> rows = [] then Inl RuntimeError
      else let topk = length ps div length rows
           in Inr (fold (\<lambda>t out. out[ps ! t := Some (rows ! (t div topk))]) [0..<length ps]
                (replicate (length ps) None)))"

section \<open>Scattering by a permutation\<close>

text \<open>The loop \<open>r[ps[i]] = f(i)\<close> for an injective \<open>ps\<close>.\<close>

lemma scatter_length: "length (fold (\<lambda>i r. r[ps ! i := f i]) is r) = length r"
  by (induction "is" arbitrary: r) simp_all

lemma scatter_nth:
  assumes "distinct ps" and "set ps \<subseteq> {..<length r}" and "n \<le> length ps" and "i < n"
  shows "fold (\<lambda>i r. r[ps ! i := f i]) [0..<n] r ! (ps ! i) = f i"
  using assms(3,4)
proof (induction n)
  case (Suc n)
  have "ps ! n \<in> set ps" using Suc.prems(1) by simp
  then have b: "ps ! n < length r" using assms(2) by (simp add: subset_eq)
  show ?case
  proof (cases "i = n")
    case True
    then show ?thesis using b by (simp add: scatter_length)
  next
    case False
    then have "i < n" using Suc.prems(2) by simp
    moreover have "ps ! n \<noteq> ps ! i"
      using assms(1) Suc.prems False by (simp add: nth_eq_iff_index_eq)
    ultimately show ?thesis using Suc by simp
  qed
qed simp

definition permutes_upto :: "nat \<Rightarrow> nat list \<Rightarrow> bool" where
  "permutes_upto n ps \<longleftrightarrow> length ps = n \<and> distinct ps \<and> set ps = {..<n}"

lemma permutes_uptoI:
  assumes "length ps = n" and "distinct ps" and "set ps \<subseteq> {..<n}"
  shows "permutes_upto n ps"
proof -
  have "card (set ps) = n" using assms(1,2) by (simp add: distinct_card)
  then have "set ps = {..<n}" using assms(3) by (simp add: card_subset_eq)
  then show ?thesis using assms by (simp add: permutes_upto_def)
qed

lemma permutes_upto_inv:
  assumes "permutes_upto n ps" and "a < n"
  obtains i where "i < n" "ps ! i = a"
proof -
  have "a \<in> set ps" and "length ps = n" using assms by (simp_all add: permutes_upto_def)
  then show ?thesis using that by (metis in_set_conv_nth)
qed

lemma permute_vector_length: "length (permute_vector xs ps) = length xs"
  by (simp add: permute_vector_def scatter_length)

lemma permute_vector_nth:
  assumes "permutes_upto (length xs) ps" and "i < length xs"
  shows "permute_vector xs ps ! (ps ! i) = xs ! i"
proof -
  have "distinct ps" "set ps \<subseteq> {..<length (replicate (length xs) (0::'a))}" "length ps = length xs"
    using assms(1) by (simp_all add: permutes_upto_def)
  then have "fold (\<lambda>i r. r[ps ! i := xs ! i]) [0..<length ps] (replicate (length xs) 0) ! (ps ! i)
      = xs ! i" using assms(2) by (intro scatter_nth) simp_all
  moreover have "xs \<noteq> []" using assms(2) by auto
  ultimately show ?thesis by (simp add: permute_vector_def)
qed

lemma scatter_mset:
  assumes ps: "permutes_upto n ps" and len: "length ys = n" "length xs = n"
    and nth: "\<And>i. i < n \<Longrightarrow> ys ! (ps ! i) = xs ! i"
  shows "mset ys = mset xs"
proof -
  have l: "length ps = n" using ps by (simp add: permutes_upto_def)
  have "map ((!) ys) ps = xs" by (rule nth_equalityI) (simp_all add: l len nth)
  moreover have "mset ps = mset [0..<n]"
  proof (rule set_eq_iff_mset_eq_distinct [THEN iffD1])
    show "set ps = set [0..<n]" using ps by (simp add: permutes_upto_def atLeast0LessThan)
  qed (use ps in \<open>simp_all add: permutes_upto_def\<close>)
  moreover have "map ((!) ys) [0..<n] = ys" using len(1) by (metis map_nth)
  ultimately show ?thesis by (metis mset_map)
qed

lemma permute_vector_mset:
  assumes "permutes_upto (length xs) ps"
  shows "mset (permute_vector xs ps) = mset xs"
  by (rule scatter_mset [OF assms permute_vector_length refl permute_vector_nth [OF assms]])

section \<open>Counting sorts\<close>

text \<open>
  A mapping that sends each token behind all tokens with a smaller key and ranks the tokens
  of one key among themselves is a permutation, and it sorts.
\<close>

definition smaller :: "nat list \<Rightarrow> nat \<Rightarrow> nat" where
  "smaller es e = length (filter (\<lambda>x. x < e) es)"

lemma smaller_Suc: "smaller es (Suc e) = smaller es e + count_list es e"
  by (induction es) (auto simp: smaller_def less_Suc_eq)

lemma smaller_0 [simp]: "smaller es 0 = 0"
  by (simp add: smaller_def)

lemma smaller_mono: "a \<le> b \<Longrightarrow> smaller es a \<le> smaller es b"
  unfolding smaller_def by (induction es) auto

lemma smaller_le_length: "smaller es a \<le> length es"
  by (simp add: smaller_def)

lemma count_take_less:
  assumes "i < length es"
  shows "count_list (take i es) (es ! i) < count_list es (es ! i)"
proof -
  have "es = take i es @ es ! i # drop (Suc i) es" using assms by (rule id_take_nth_drop)
  then have "count_list es (es ! i)
      = count_list (take i es) (es ! i) + 1 + count_list (drop (Suc i) es) (es ! i)"
    by (metis add.assoc add.commute count_list.simps(2) count_list_append plus_1_eq_Suc)
  then show ?thesis by simp
qed

lemma count_take_mono:
  assumes "i < j" and "j \<le> length es" and "es ! i = e"
  shows "count_list (take i es) e < count_list (take j es) e"
proof -
  have "take i (take j es) = take i es" using assms by (simp add: min_def)
  then show ?thesis using count_take_less [of i "take j es"] assms by simp
qed

definition ranks_class :: "nat list \<Rightarrow> nat list \<Rightarrow> bool" where
  "ranks_class es ps \<longleftrightarrow> length ps = length es \<and>
     (\<forall>i < length es. smaller es (es ! i) \<le> ps ! i \<and> ps ! i < smaller es (Suc (es ! i))) \<and>
     (\<forall>i < length es. \<forall>j < length es. es ! i = es ! j \<longrightarrow> ps ! i = ps ! j \<longrightarrow> i = j)"

lemma ranks_class_less:
  assumes "ranks_class es ps" and "i < length es" and "j < length es" and "es ! i < es ! j"
  shows "ps ! i < ps ! j"
proof -
  have "ps ! i < smaller es (Suc (es ! i))" and "smaller es (es ! j) \<le> ps ! j"
    using assms by (simp_all add: ranks_class_def)
  moreover have "smaller es (Suc (es ! i)) \<le> smaller es (es ! j)"
    using assms(4) by (intro smaller_mono) simp
  ultimately show ?thesis by linarith
qed

lemma ranks_class_permutes:
  assumes "ranks_class es ps"
  shows "permutes_upto (length es) ps"
proof (rule permutes_uptoI)
  show len: "length ps = length es" using assms by (simp add: ranks_class_def)
  show "distinct ps"
    unfolding distinct_conv_nth
  proof (intro allI impI)
    fix i j assume ij: "i < length ps" "j < length ps" "i \<noteq> j"
    show "ps ! i \<noteq> ps ! j"
      using ranks_class_less [OF assms, of i j] ranks_class_less [OF assms, of j i] ij assms
      by (cases "es ! i" "es ! j" rule: linorder_cases) (auto simp: len ranks_class_def)
  qed
  show "set ps \<subseteq> {..<length es}"
  proof
    fix x assume "x \<in> set ps"
    then obtain i where i: "i < length es" "x = ps ! i" by (metis in_set_conv_nth len)
    then have "x < smaller es (Suc (es ! i))" using assms by (simp add: ranks_class_def)
    then show "x \<in> {..<length es}"
      using smaller_le_length [of es "Suc (es ! i)"] by simp
  qed
qed

lemma ranks_class_sorts:
  assumes r: "ranks_class es ps" and len: "length ys = length es"
    and nth: "\<And>i. i < length es \<Longrightarrow> ys ! (ps ! i) = es ! i"
  shows "sorted ys"
  unfolding sorted_iff_nth_mono
proof (intro allI impI)
  fix a b assume ab: "a \<le> b" "b < length ys"
  have perm: "permutes_upto (length es) ps" by (rule ranks_class_permutes [OF r])
  have "a < length es" "b < length es" using ab len by simp_all
  then obtain i j where i: "i < length es" "ps ! i = a" and j: "j < length es" "ps ! j = b"
    using permutes_upto_inv [OF perm] by metis
  have "es ! i \<le> es ! j"
    using ranks_class_less [OF r j(1) i(1)] i(2) j(2) ab(1) by (cases "es ! j < es ! i") simp_all
  then show "ys ! a \<le> ys ! b" using nth [OF i(1)] nth [OF j(1)] i(2) j(2) by simp
qed

section \<open>The counting loops of the two sorts\<close>

declare vec_get_nat [simp]

lemma count_loop:
  fixes c :: "nat list"
  assumes "\<forall>e \<in> set es. e < length c"
  shows "foldR (\<lambda>e c. bindR (vec_get c (int e)) (\<lambda>v. Inr (c[e := v + 1]))) es c
     = Inr (map (\<lambda>e. c ! e + count_list es e) [0..<length c])"
  using assms
proof (induction es arbitrary: c)
  case Nil
  then show ?case by (simp add: map_nth)
next
  case (Cons e es)
  have "map (\<lambda>x. c[e := c ! e + 1] ! x + count_list es x) [0..<length c]
      = map (\<lambda>x. c ! x + count_list (e # es) x) [0..<length c]"
    using Cons.prems by (intro map_cong) (simp_all add: nth_list_update)
  then show ?case using Cons.prems Cons.IH [of "c[e := c ! e + 1]"] by simp
qed

lemma count_experts_eq:
  assumes "\<forall>e \<in> set es. e < max_num_experts"
  shows "count_experts es = Inr (map (count_list es) [0..<max_num_experts])"
proof -
  have "map (\<lambda>e. replicate max_num_experts 0 ! e + count_list es e) [0..<max_num_experts]
      = map (count_list es) [0..<max_num_experts]" by (intro map_cong) simp_all
  then show ?thesis using count_loop [of es "replicate max_num_experts 0"] assms
    by (simp add: count_experts_def)
qed

lemma get_expert_batch_sizes_eq:
  assumes "0 < n" and "\<forall>e \<in> set (md_exp_ids m). e < n"
  shows "get_expert_batch_sizes n m = Inr (map (count_list (md_exp_ids m)) [0..<n])"
proof -
  have "map (\<lambda>e. replicate n 0 ! e + count_list (md_exp_ids m) e) [0..<n]
      = map (count_list (md_exp_ids m)) [0..<n]" by (intro map_cong) simp_all
  then show ?thesis using count_loop [of "md_exp_ids m" "replicate n 0"] assms
    by (simp add: get_expert_batch_sizes_def cpp_assert_def)
qed

lemma prefix_loop:
  assumes "n \<le> length c" and "\<And>i. i < length c \<Longrightarrow> c ! i = count_list es i"
  shows "length (fold (\<lambda>i c. c[i := c ! i + c ! (i - 1)]) [1..<n] c) = length c \<and>
    (\<forall>i < length c. fold (\<lambda>i c. c[i := c ! i + c ! (i - 1)]) [1..<n] c ! i
       = (if i < n then smaller es (Suc i) else count_list es i))"
  using assms(1)
proof (induction n)
  case 0
  then show ?case using assms(2) by simp
next
  case (Suc n)
  show ?case
  proof (cases "n = 0")
    case True
    then show ?thesis using assms(2) by (simp add: smaller_Suc)
  next
    case False
    let ?c = "fold (\<lambda>i c. c[i := c ! i + c ! (i - 1)]) [1..<n] c"
    have l: "length ?c = length c" and IH: "\<And>i. i < length c \<Longrightarrow> ?c ! i
        = (if i < n then smaller es (Suc i) else count_list es i)"
      using Suc by simp_all
    have e: "fold (\<lambda>i c. c[i := c ! i + c ! (i - 1)]) [1..<Suc n] c
        = ?c[n := ?c ! n + ?c ! (n - 1)]" using False by simp
    have "?c ! n + ?c ! (n - 1) = smaller es (Suc n)"
      using IH [of n] IH [of "n - 1"] Suc.prems False by (simp add: smaller_Suc)
    then show ?thesis unfolding e using l IH by (simp add: nth_list_update less_Suc_eq)
  qed
qed

lemma prefix_counts_eq:
  "prefix_counts (map (count_list es) [0..<n]) = map (\<lambda>i. smaller es (Suc i)) [0..<n]"
  using prefix_loop [of n "map (count_list es) [0..<n]" es]
  by (intro nth_equalityI) (simp_all add: prefix_counts_def)

text \<open>The positions of the stable sort.\<close>

definition stable_positions :: "nat list \<Rightarrow> nat list" where
  "stable_positions es =
     map (\<lambda>i. smaller es (es ! i) + count_list (take i es) (es ! i)) [0..<length es]"

lemma stable_positions_ranks: "ranks_class es (stable_positions es)"
  unfolding ranks_class_def
proof (intro conjI allI impI)
  fix i assume "i < length es"
  then show "stable_positions es ! i < smaller es (Suc (es ! i))"
    using count_take_less [of i es] by (simp add: stable_positions_def smaller_Suc)
next
  fix i j assume ij: "i < length es" "j < length es" "es ! i = es ! j"
    "stable_positions es ! i = stable_positions es ! j"
  then show "i = j"
    using count_take_mono [of i j es "es ! i"] count_take_mono [of j i es "es ! j"]
    by (cases i j rule: linorder_cases) (simp_all add: stable_positions_def)
qed (simp_all add: stable_positions_def)

lemma stable_positions_stable:
  assumes "i < j" and "j < length es" and "es ! i = es ! j"
  shows "stable_positions es ! i < stable_positions es ! j"
  using count_take_mono [of i j es "es ! j"] assms by (simp add: stable_positions_def)

text \<open>The state of the placing loop after \<open>n\<close> tokens.\<close>

definition placed :: "nat list \<Rightarrow> nat \<Rightarrow> nat list \<times> nat \<times> nat list" where
  "placed es n =
     (map (\<lambda>i. if i < n then stable_positions es ! i else 0) [0..<length es],
      count_list (take n es) 0,
      map (\<lambda>i. smaller es (Suc i) + count_list (take n es) (Suc i)) [0..<max_num_experts])"

lemma place_step:
  assumes "es ! n < max_num_experts" and n: "n < length es"
  shows "place_token es n (placed es n) = Inr (placed es (Suc n))"
proof -
  let ?c = "\<lambda>n. map (\<lambda>i. smaller es (Suc i) + count_list (take n es) (Suc i)) [0..<max_num_experts]"
  let ?p = "\<lambda>n. map (\<lambda>i. if i < n then stable_positions es ! i else 0) [0..<length es]"
  have t: "take (Suc n) es = take n es @ [es ! n]" using n by (simp add: take_Suc_conv_app_nth)
  have sp: "stable_positions es ! n = smaller es (es ! n) + count_list (take n es) (es ! n)"
    using n by (simp add: stable_positions_def)
  have upd: "(?p n)[n := stable_positions es ! n] = ?p (Suc n)"
    using n by (intro nth_equalityI) (simp_all add: nth_list_update less_Suc_eq)
  show ?thesis
  proof (cases "es ! n")
    case 0
    then show ?thesis using n t sp upd by (simp add: place_token_def placed_def)
  next
    case (Suc k)
    then have c: "(?c n)[k := Suc (smaller es (Suc k) + count_list (take n es) (Suc k))] = ?c (Suc n)"
      using assms(1) by (intro nth_equalityI) (auto simp: nth_list_update t)
    have "vec_get (?c n) (int k) = Inr (smaller es (Suc k) + count_list (take n es) (Suc k))"
      using Suc assms(1) by simp
    moreover have "count_list (take (Suc n) es) 0 = count_list (take n es) 0" using Suc by (simp add: t)
    ultimately show ?thesis using n sp upd c Suc by (simp add: place_token_def placed_def)
  qed
qed

lemma place_loop:
  assumes "\<forall>e \<in> set es. e < max_num_experts" and "n \<le> length es"
  shows "foldR (place_token es) [0..<n] (placed es 0) = Inr (placed es n)"
  using assms(2)
proof (induction n)
  case (Suc n)
  have "place_token es n (placed es n) = Inr (placed es (Suc n))"
    using assms(1) Suc.prems by (intro place_step) simp_all
  then show ?case using Suc by (simp add: foldR_append)
qed simp

lemma expert_positions_eq:
  assumes "\<forall>e \<in> set (md_exp_ids m). e < max_num_experts"
    and "md_shape m = length (md_exp_ids m) # sh"
  shows "expert_positions m = Inr (stable_positions (md_exp_ids m))"
proof -
  let ?es = "md_exp_ids m"
  have "map (\<lambda>i. if i < length ?es then stable_positions ?es ! i else 0) [0..<length ?es]
      = stable_positions ?es"
    by (rule nth_equalityI) (simp_all add: stable_positions_def)
  then have "fst (placed ?es (length ?es)) = stable_positions ?es" by (simp add: placed_def)
  moreover have "placed ?es 0 = (replicate (length ?es) 0, 0, map (\<lambda>i. smaller ?es (Suc i)) [0..<max_num_experts])"
    by (simp add: placed_def map_replicate_trivial)
  ultimately show ?thesis using place_loop [of ?es "length ?es"] assms
    by (cases "placed ?es (length ?es)")
      (simp add: expert_positions_def num_tokens_c_def vec_get_def count_experts_eq prefix_counts_eq)
qed

text \<open>A batch whose per-token vectors all have one entry per token.\<close>

definition per_token :: "batch_metadata_c \<Rightarrow> bool" where
  "per_token m \<longleftrightarrow> (\<exists>sh. md_shape m = length (md_req_ids m) # sh) \<and>
     length (md_exp_ids m) = length (md_req_ids m) \<and>
     length (md_attn_dp_ranks m) = length (md_req_ids m) \<and>
     length (md_init_prefill_lens m) = length (md_req_ids m) \<and>
     length (md_topk_weights m) = length (md_req_ids m)"

text \<open>What the metadata say of one token.\<close>

definition token_info :: "batch_metadata_c \<Rightarrow> nat \<Rightarrow> nat \<times> nat \<times> nat \<times> int \<times> real" where
  "token_info m i = (md_req_ids m ! i, md_exp_ids m ! i, md_attn_dp_ranks m ! i,
     md_init_prefill_lens m ! i, md_topk_weights m ! i)"

lemma permute_token_infos_moves:
  assumes tk: "per_token m" and ps: "permutes_upto (length (md_req_ids m)) ps"
  shows "\<exists>m'. permute_token_infos ps m = Inr m' \<and> per_token m' \<and>
    md_req_ids m' = permute_vector (md_req_ids m) ps \<and>
    md_exp_ids m' = permute_vector (md_exp_ids m) ps \<and>
    md_attn_dp_ranks m' = permute_vector (md_attn_dp_ranks m) ps \<and>
    md_init_prefill_lens m' = permute_vector (md_init_prefill_lens m) ps \<and>
    md_shape m' = md_shape m \<and> md_layer_id m' = md_layer_id m \<and> mc_batch_tag m' = mc_batch_tag m \<and>
    (\<forall>i < length ps. token_info m' (ps ! i) = token_info m i)"
proof -
  have lp: "length ps = length (md_req_ids m)" using ps by (simp add: permutes_upto_def)
  show ?thesis
  proof (cases "ps = []")
    case True
    then show ?thesis using tk lp
      by (intro exI [of _ m]) (simp add: permute_token_infos_def per_token_def permute_vector_def)
  next
    case False
    let ?m = "m\<lparr>md_req_ids := permute_vector (md_req_ids m) ps,
                md_exp_ids := permute_vector (md_exp_ids m) ps,
                md_attn_dp_ranks := permute_vector (md_attn_dp_ranks m) ps,
                md_init_prefill_lens := permute_vector (md_init_prefill_lens m) ps,
                md_topk_weights := permute_vector (md_topk_weights m) ps\<rparr>"
    have "permute_token_infos ps m = Inr ?m"
      using False tk lp
      by (auto simp: permute_token_infos_def num_tokens_c_def vec_get_def per_token_def cpp_assert_def)
    moreover have "per_token ?m" using tk by (simp add: per_token_def permute_vector_length)
    moreover have "\<forall>i < length ps. token_info ?m (ps ! i) = token_info m i"
      using tk ps by (simp add: token_info_def per_token_def lp permute_vector_nth)
    ultimately show ?thesis by (intro exI [of _ ?m]) simp
  qed
qed

lemma sort_by_expert_sorts:
  assumes tk: "per_token m" and es: "\<forall>e \<in> set (md_exp_ids m). e < max_num_experts"
  shows "\<exists>ps m'. sort_by_expert m = Inr (ps, m') \<and> permutes_upto (length (md_req_ids m)) ps \<and>
    (\<forall>i < length ps. token_info m' (ps ! i) = token_info m i) \<and>
    sorted (md_exp_ids m') \<and> md_shape m' = md_shape m \<and> md_layer_id m' = md_layer_id m \<and>
    (\<forall>i j. i < j \<longrightarrow> j < length ps \<longrightarrow> md_exp_ids m ! i = md_exp_ids m ! j \<longrightarrow> ps ! i < ps ! j)"
proof -
  let ?es = "md_exp_ids m" and ?ps = "stable_positions (md_exp_ids m)"
  have n: "length ?es = length (md_req_ids m)" using tk by (simp add: per_token_def)
  obtain sh where sh: "md_shape m = length ?es # sh" using tk n by (auto simp: per_token_def)
  have pos: "expert_positions m = Inr ?ps" by (rule expert_positions_eq [OF es sh])
  have perm: "permutes_upto (length ?es) ?ps"
    by (rule ranks_class_permutes [OF stable_positions_ranks])
  have lp: "length ?ps = length ?es" by (simp add: stable_positions_def)
  obtain m' where m': "permute_token_infos ?ps m = Inr m'"
      "md_exp_ids m' = permute_vector ?es ?ps" "md_shape m' = md_shape m"
      "md_layer_id m' = md_layer_id m"
      "\<forall>i < length ?ps. token_info m' (?ps ! i) = token_info m i"
    using permute_token_infos_moves [OF tk perm [unfolded n]] by blast
  show ?thesis
  proof (intro exI conjI)
    show "sort_by_expert m = Inr (?ps, m')" by (simp add: sort_by_expert_def pos m'(1))
    show "permutes_upto (length (md_req_ids m)) ?ps" using perm n by simp
    show "\<forall>i < length ?ps. token_info m' (?ps ! i) = token_info m i" by (rule m'(5))
    show "sorted (md_exp_ids m')"
      unfolding m'(2) by (rule ranks_class_sorts
          [OF stable_positions_ranks permute_vector_length permute_vector_nth [OF perm]])
    show "md_shape m' = md_shape m" "md_layer_id m' = md_layer_id m" by (fact m')+
    show "\<forall>i j. i < j \<longrightarrow> j < length ?ps \<longrightarrow> ?es ! i = ?es ! j \<longrightarrow> ?ps ! i < ?ps ! j"
      using stable_positions_stable lp by simp
  qed
qed

text \<open>
  C27: \<open>sort_by_expert\<close> on a batch with fewer than 128 experts succeeds: the positions it
  returns are a permutation, every token keeps its request, expert, rank, prefill length and
  weight at its new position, the experts are in order, and tokens of one expert keep their
  order. (An id of 128 or more runs past the counters.)
\<close>

theorem sort_by_expert_stable:
  assumes tk: "per_token m" and es: "\<forall>e \<in> set (md_exp_ids m). e < max_num_experts"
  shows "\<exists>ps m'. sort_by_expert m = Inr (ps, m') \<and> permutes_upto (length (md_req_ids m)) ps \<and>
    (\<forall>i < length ps. token_info m' (ps ! i) = token_info m i) \<and>
    sorted (md_exp_ids m') \<and> md_shape m' = md_shape m \<and> md_layer_id m' = md_layer_id m \<and>
    (\<forall>i j. i < j \<longrightarrow> j < length ps \<longrightarrow> md_exp_ids m ! i = md_exp_ids m ! j \<longrightarrow> ps ! i < ps ! j)"
  by (rule sort_by_expert_sorts [OF tk es])

definition demo_tokens :: batch_metadata_c where
  "demo_tokens = \<lparr>md_shape = [4, 8], md_dtype = ''bfloat16'', md_layer_id = 1,
     md_req_ids = [10, 11, 12, 13], md_exp_ids = [2, 0, 2, 1], md_topk_weights = [1, 1, 1, 1],
     md_attn_dp_ranks = [0, 0, 1, 1], md_init_prefill_lens = [5, -1, -1, 7],
     md_num_prefill_seqs = None, md_num_prefill_tokens = None, md_num_decode_tokens = None,
     mc_batch_tag = ExpertTag\<rparr>"

theorem sort_by_expert_stable_witness:
  "\<exists>ps m'. sort_by_expert demo_tokens = Inr (ps, m') \<and> permutes_upto 4 ps \<and> sorted (md_exp_ids m')"
proof -
  have tk: "per_token demo_tokens" by (simp add: per_token_def demo_tokens_def)
  have es: "\<forall>e \<in> set (md_exp_ids demo_tokens). e < max_num_experts"
    by (simp add: demo_tokens_def max_num_experts_def)
  have n: "length (md_req_ids demo_tokens) = 4" by (simp add: demo_tokens_def)
  show ?thesis using sort_by_expert_stable [OF tk es] unfolding n by blast
qed

text \<open>The mapping and the metadata of the example, evaluated.\<close>

lemma sort_by_expert_demo:
  "map_sum id (\<lambda>(ps, m). (ps, md_exp_ids m, md_req_ids m)) (sort_by_expert demo_tokens)
     = Inr ([2, 0, 3, 1], [0, 1, 2, 2], [11, 13, 10, 12])"
  by code_simp

section \<open>The mappings of the Python code\<close>

text \<open>
  \<open>get_mappings_from_exp_ids\<close> counts down from the end of each expert's segment: it is also a
  sorting permutation, but it reverses the tokens of one expert.
\<close>

definition reverse_positions :: "nat list \<Rightarrow> nat list" where
  "reverse_positions es =
     map (\<lambda>i. smaller es (Suc (es ! i)) - 1 - count_list (take i es) (es ! i)) [0..<length es]"

lemma reverse_positions_ranks: "ranks_class es (reverse_positions es)"
  unfolding ranks_class_def
proof (intro conjI allI impI)
  fix i assume i: "i < length es"
  show "reverse_positions es ! i < smaller es (Suc (es ! i))"
    and "smaller es (es ! i) \<le> reverse_positions es ! i"
    using count_take_less [OF i] i by (simp_all add: reverse_positions_def smaller_Suc)
next
  fix i j assume ij: "i < length es" "j < length es" "es ! i = es ! j"
    "reverse_positions es ! i = reverse_positions es ! j"
  have "count_list (take i es) (es ! i) = count_list (take j es) (es ! j)"
    using ij count_take_less [OF ij(1)] count_take_less [OF ij(2)]
    by (simp add: reverse_positions_def smaller_Suc)
  then show "i = j"
    using ij(1,2,3) count_take_mono [of i j es "es ! i"] count_take_mono [of j i es "es ! j"]
    by (cases i j rule: linorder_cases) simp_all
qed (simp add: reverse_positions_def)

lemma py_count_loop:
  fixes c :: "int list"
  assumes "\<forall>e \<in> set es. e < length c"
  shows "foldR (\<lambda>e c. bindR (py_get c (int e)) (\<lambda>v. py_set c (int e) (v + 1))) es c
     = Inr (map (\<lambda>e. c ! e + int (count_list es e)) [0..<length c])"
  using assms
proof (induction es arbitrary: c)
  case Nil
  then show ?case by (simp add: map_nth)
next
  case (Cons e es)
  have "map (\<lambda>x. c[e := c ! e + 1] ! x + int (count_list es x)) [0..<length c]
      = map (\<lambda>x. c ! x + int (count_list (e # es) x)) [0..<length c]"
    using Cons.prems by (intro map_cong) (simp_all add: nth_list_update)
  then show ?case using Cons.prems Cons.IH [of "c[e := c ! e + 1]"] by simp
qed

lemma cumsum_loop:
  assumes "\<And>i. i < n \<Longrightarrow> cnt ! i = int (count_list es i)" and "0 < n" and "k \<le> n"
  shows "fold (\<lambda>i c. c[i := c ! (i - 1) + cnt ! i]) [1..<k] ((replicate n 0)[0 := cnt ! 0])
    = map (\<lambda>i. if i = 0 \<or> i < k then int (smaller es (Suc i)) else 0) [0..<n]"
  using assms(3)
proof (induction k)
  case 0
  then show ?case using assms by (intro nth_equalityI) (auto simp: nth_list_update smaller_Suc)
next
  case (Suc k)
  show ?case
  proof (cases "k = 0")
    case True
    then show ?thesis using assms by (intro nth_equalityI) (auto simp: nth_list_update smaller_Suc)
  next
    case False
    let ?m = "\<lambda>k. map (\<lambda>i. if i = 0 \<or> i < k then int (smaller es (Suc i)) else 0) [0..<n]"
    have "(?m k)[k := int (smaller es k) + int (count_list es k)] = ?m (Suc k)"
      using Suc.prems by (intro nth_equalityI) (auto simp: nth_list_update smaller_Suc less_Suc_eq)
    moreover have "?m k ! (k - 1) = int (smaller es k)" using False Suc.prems by simp
    moreover have "cnt ! k = int (count_list es k)" using assms(1) Suc.prems by simp
    ultimately show ?thesis using Suc False by simp
  qed
qed

definition mapped :: "nat list \<Rightarrow> nat \<Rightarrow> nat \<Rightarrow> int list \<times> int list" where
  "mapped es n k =
     (map (\<lambda>i. if i < k then int (reverse_positions es ! i) else 0) [0..<length es],
      map (\<lambda>e. int (smaller es (Suc e)) - int (count_list (take k es) e)) [0..<n])"

lemma mapped_step:
  assumes k: "k < length es" and e: "es ! k < n"
  shows "(\<lambda>(mp, cum). bindR (py_get cum (int (es ! k))) (\<lambda>v.
            bindR (py_set cum (int (es ! k)) (v - 1)) (\<lambda>cum. Inr (mp[k := v - 1], cum))))
          (mapped es n k) = Inr (mapped es n (Suc k))"
proof -
  let ?c = "\<lambda>k. map (\<lambda>e. int (smaller es (Suc e)) - int (count_list (take k es) e)) [0..<n]"
  let ?p = "\<lambda>k. map (\<lambda>i. if i < k then int (reverse_positions es ! i) else 0) [0..<length es]"
  let ?v = "int (smaller es (Suc (es ! k))) - int (count_list (take k es) (es ! k)) - 1"
  have t: "take (Suc k) es = take k es @ [es ! k]" using k by (simp add: take_Suc_conv_app_nth)
  have "int (reverse_positions es ! k) = ?v"
    using count_take_less [OF k] k by (simp add: reverse_positions_def smaller_Suc)
  then have "(?p k)[k := ?v] = ?p (Suc k)"
    using k by (intro nth_equalityI) (simp_all add: nth_list_update less_Suc_eq)
  moreover have "(?c k)[es ! k := ?v] = ?c (Suc k)"
    using e by (intro nth_equalityI) (auto simp: nth_list_update t)
  ultimately show ?thesis using e by (simp add: mapped_def)
qed

lemma mapped_loop:
  assumes "\<forall>e \<in> set es. e < n" and "k \<le> length es"
  shows "foldR (\<lambda>i (mp, cum). let e = es ! i
            in bindR (py_get cum (int e)) (\<lambda>v.
               bindR (py_set cum (int e) (v - 1)) (\<lambda>cum. Inr (mp[i := v - 1], cum))))
          [0..<k] (mapped es n 0) = Inr (mapped es n k)"
  using assms(2)
proof (induction k)
  case (Suc k)
  have "es ! k < n" using assms(1) Suc.prems by simp
  then show ?case using Suc mapped_step [of k es n] by (simp add: foldR_append Let_def)
qed simp

text \<open>
  For experts below \<open>num_experts\<close>, \<open>get_mappings_from_exp_ids\<close> returns the number of tokens
  of each expert and a permutation of the tokens that puts the experts in order.
\<close>

theorem get_mappings_sorts:
  assumes es: "\<forall>e \<in> set es. e < n" and n: "0 < n"
  shows "\<exists>ps. get_mappings_from_exp_ids es n
       = Inr (map int ps, map (\<lambda>e. int (count_list es e)) [0..<n]) \<and>
     permutes_upto (length es) ps \<and> sorted (permute_vector es ps)"
proof (intro exI conjI)
  let ?ps = "reverse_positions es"
  let ?cnt = "map (\<lambda>e. int (count_list es e)) [0..<n]"
  have cnt: "foldR (\<lambda>e c. bindR (py_get c (int e)) (\<lambda>v. py_set c (int e) (v + 1))) es
      (replicate n (0::int)) = Inr ?cnt"
  proof -
    have "map (\<lambda>e. replicate n 0 ! e + int (count_list es e)) [0..<n] = ?cnt"
      by (intro map_cong) simp_all
    then show ?thesis using py_count_loop [of es "replicate n 0"] es by simp
  qed
  have get: "py_get ?cnt 0 = Inr (?cnt ! 0)" using py_get_nat [of 0 ?cnt] n by simp
  have set: "py_set (replicate n 0) 0 (?cnt ! 0) = Inr ((replicate n 0)[0 := ?cnt ! 0])"
    using py_set_nat [of 0 "replicate n 0" "?cnt ! 0"] n by simp
  have "fold (\<lambda>i c. c[i := c ! (i - 1) + ?cnt ! i]) [1..<n] ((replicate n 0)[0 := ?cnt ! 0])
      = map (\<lambda>i. if i = 0 \<or> i < n then int (smaller es (Suc i)) else 0) [0..<n]"
    by (rule cumsum_loop) (use n in simp_all)
  also have "\<dots> = map (\<lambda>i. int (smaller es (Suc i))) [0..<n]" by (intro map_cong) simp_all
  finally have cum: "fold (\<lambda>i c. c[i := c ! (i - 1) + ?cnt ! i]) [1..<n]
      ((replicate n 0)[0 := ?cnt ! 0]) = map (\<lambda>i. int (smaller es (Suc i))) [0..<n]" .
  have start: "mapped es n 0 = (replicate (length es) 0, map (\<lambda>i. int (smaller es (Suc i))) [0..<n])"
    by (simp add: mapped_def map_replicate_trivial)
  have stop: "fst (mapped es n (length es)) = map int ?ps"
    by (rule nth_equalityI) (simp_all add: mapped_def reverse_positions_def)
  show "get_mappings_from_exp_ids es n = Inr (map int ?ps, ?cnt)"
    using mapped_loop [OF es order_refl, unfolded start] stop
    unfolding get_mappings_from_exp_ids_def cnt bindR_simps get set Let_def cum
    by (cases "mapped es n (length es)") simp
  show perm: "permutes_upto (length es) ?ps"
    by (rule ranks_class_permutes [OF reverse_positions_ranks])
  show "sorted (permute_vector es ?ps)"
    by (rule ranks_class_sorts
        [OF reverse_positions_ranks permute_vector_length permute_vector_nth [OF perm]])
qed

theorem get_mappings_sorts_witness:
  "(\<exists>ps. get_mappings_from_exp_ids [2, 0, 2, 1] 3 = Inr (map int ps, [1, 1, 2])
     \<and> permutes_upto 4 ps) \<and>
   get_mappings_from_exp_ids [2, 0, 2, 1] 3 = Inr ([3, 0, 2, 1], [1, 1, 2])"
proof
  show "get_mappings_from_exp_ids [2, 0, 2, 1] 3 = Inr ([3, 0, 2, 1], [1, 1, 2])" by code_simp
  show "\<exists>ps. get_mappings_from_exp_ids [2, 0, 2, 1] 3 = Inr (map int ps, [1, 1, 2])
     \<and> permutes_upto 4 ps"
    using get_mappings_sorts [of "[2, 0, 2, 1]" 3] by (simp add: upt_rec numeral_eq_Suc) blast
qed

text \<open>The CUDA variant: the inverse of any ranking that sorts the keys is a sorting mapping.\<close>

lemma mappings_of_rankings_inverse:
  assumes "permutes_upto (length r) r"
  shows "permutes_upto (length r) (mappings_of_rankings r)"
    and "i < length r \<Longrightarrow> mappings_of_rankings r ! (r ! i) = i"
proof -
  let ?m = "mappings_of_rankings r"
  have r: "distinct r" "set r = {..<length r}" using assms by (simp_all add: permutes_upto_def)
  have nth: "?m ! (r ! i) = i" if "i < length r" for i
    unfolding mappings_of_rankings_def
    using scatter_nth [of r "[0..<length r]" "length r" i "\<lambda>i. i"] r that by simp
  have len: "length ?m = length r" by (simp add: mappings_of_rankings_def scatter_length)
  have "mset ?m = mset [0..<length r]"
    by (rule scatter_mset [OF assms len]) (simp_all add: nth)
  then have "distinct ?m" "set ?m = {..<length r}"
    by (metis distinct_upt mset_eq_imp_distinct_iff)
      (metis \<open>mset ?m = mset [0..<length r]\<close> atLeast0LessThan atLeastLessThan_upt set_mset_mset)
  then show "permutes_upto (length r) ?m" using len by (simp add: permutes_upto_def)
  show "i < length r \<Longrightarrow> ?m ! (r ! i) = i" by (rule nth)
qed

section \<open>Moving the rows\<close>

lemma permute_tokens_scatter:
  assumes rows: "rows \<noteq> []" and k: "0 < k" and ps: "permutes_upto (length rows * k) ps"
  shows "\<exists>out. permute_tokens rows ps = Inr out \<and> length out = length rows * k \<and>
    (\<forall>t < length rows * k. out ! (ps ! t) = Some (rows ! (t div k)))"
proof -
  have len: "length ps = length rows * k" "distinct ps" "set ps = {..<length rows * k}"
    using ps by (simp_all add: permutes_upto_def)
  have d: "length ps mod length rows = 0" "length ps div length rows = k"
    using rows len(1) by simp_all
  let ?out = "fold (\<lambda>t out. out[ps ! t := Some (rows ! (t div k))]) [0..<length ps]
      (replicate (length ps) None)"
  have "permute_tokens rows ps = Inr ?out"
    using d rows by (simp add: permute_tokens_def Let_def)
  moreover have "length ?out = length rows * k" by (simp add: scatter_length len(1))
  moreover have "\<forall>t < length rows * k. ?out ! (ps ! t) = Some (rows ! (t div k))"
    using scatter_nth [of ps "replicate (length ps) None" "length ps" _ "\<lambda>t. Some (rows ! (t div k))"]
      len by simp
  ultimately show ?thesis by blast
qed

section \<open>Sorting for the attention workers\<close>

text \<open>
  What \<open>std::sort\<close> promises: for a strict weak order it returns a permutation in which no
  element stands before a smaller one.
\<close>

definition strict_weak :: "(nat \<Rightarrow> nat \<Rightarrow> bool) \<Rightarrow> nat set \<Rightarrow> bool" where
  "strict_weak lt A \<longleftrightarrow> (\<forall>a \<in> A. \<not> lt a a) \<and>
     (\<forall>a \<in> A. \<forall>b \<in> A. \<forall>c \<in> A. lt a b \<longrightarrow> lt b c \<longrightarrow> lt a c) \<and>
     (\<forall>a \<in> A. \<forall>b \<in> A. \<forall>c \<in> A. lt a c \<longrightarrow> lt a b \<or> lt b c)"

definition std_sorted :: "std_sort \<Rightarrow> (nat \<Rightarrow> nat \<Rightarrow> bool) \<Rightarrow> nat list \<Rightarrow> bool" where
  "std_sorted srt lt xs \<longleftrightarrow> mset (srt lt xs) = mset xs \<and>
     sorted_wrt (\<lambda>a b. \<not> lt b a) (srt lt xs)"

text \<open>The comparison is the order of a key: rank, then first tokens by request, then the rest.\<close>

definition is_decode :: "batch_metadata_c \<Rightarrow> nat \<Rightarrow> bool" where
  "is_decode m i \<longleftrightarrow> md_init_prefill_lens m ! i = -1"

lemma attn_before_key:
  assumes "md_init_prefill_lens m ! i \<ge> -1" and "md_init_prefill_lens m ! j \<ge> -1"
  shows "attn_before m i j \<longleftrightarrow> md_attn_dp_ranks m ! i < md_attn_dp_ranks m ! j \<or>
    md_attn_dp_ranks m ! i = md_attn_dp_ranks m ! j \<and>
      (\<not> is_decode m i \<and> is_decode m j \<or>
       \<not> is_decode m i \<and> \<not> is_decode m j \<and> md_req_ids m ! i < md_req_ids m ! j)"
  using assms by (auto simp: attn_before_def is_decode_def)

lemma attn_before_strict_weak:
  assumes "\<forall>i \<in> A. md_init_prefill_lens m ! i \<ge> -1"
  shows "strict_weak (attn_before m) A"
  unfolding strict_weak_def
proof (intro conjI ballI impI)
  fix a assume "a \<in> A"
  then show "\<not> attn_before m a a" using assms by (simp add: attn_before_key)
next
  fix a b c assume "a \<in> A" "b \<in> A" "c \<in> A" "attn_before m a b" "attn_before m b c"
  then show "attn_before m a c" using assms by (simp add: attn_before_key) linarith
next
  fix a b c assume "a \<in> A" "b \<in> A" "c \<in> A" "attn_before m a c"
  then show "attn_before m a b \<or> attn_before m b c" using assms
    by (simp add: attn_before_key) linarith
qed

lemma inverse_scatter:
  assumes "permutes_upto n r"
  shows "permutes_upto n (fold (\<lambda>i p. p[r ! i := i]) [0..<n] (replicate n 0))"
    and "i < n \<Longrightarrow> fold (\<lambda>i p. p[r ! i := i]) [0..<n] (replicate n 0) ! (r ! i) = i"
proof -
  let ?p = "fold (\<lambda>i p. p[r ! i := i]) [0..<n] (replicate n 0)"
  have len: "length r = n" "distinct r" "set r = {..<n}" using assms by (simp_all add: permutes_upto_def)
  have nth: "?p ! (r ! i) = i" if "i < n" for i
    using scatter_nth [of r "replicate n 0" n i "\<lambda>i. i"] len that by simp
  have "mset ?p = mset [0..<n]"
    by (rule scatter_mset [OF assms]) (simp_all add: nth scatter_length)
  then have "distinct ?p" "set ?p = {..<n}"
    by (metis distinct_upt mset_eq_imp_distinct_iff)
      (metis \<open>mset ?p = mset [0..<n]\<close> atLeast0LessThan atLeastLessThan_upt set_mset_mset)
  then show "permutes_upto n ?p" by (simp add: permutes_upto_def scatter_length)
  show "i < n \<Longrightarrow> ?p ! (r ! i) = i" by (rule nth)
qed

text \<open>
  \<open>sort_by_attention\<close>, for any \<open>std::sort\<close> and prefill lengths of at least -1: the
  positions are a permutation that moves every token with all its data; afterwards the
  attention ranks are in order, and within one rank no decode token stands before a first
  token, the layout the attention batch needs.
\<close>

theorem sort_by_attention_layout:
  assumes srt: "\<And>lt xs. strict_weak lt (set xs) \<Longrightarrow> std_sorted srt lt xs"
    and tk: "per_token m" and lens: "\<forall>l \<in> set (md_init_prefill_lens m). l \<ge> -1"
  shows "\<exists>ps m'. sort_by_attention srt m = Inr (ps, m') \<and>
    permutes_upto (length (md_req_ids m)) ps \<and>
    (\<forall>i < length ps. token_info m' (ps ! i) = token_info m i) \<and>
    (\<forall>a b. a < b \<longrightarrow> b < length ps \<longrightarrow>
       md_attn_dp_ranks m' ! a \<le> md_attn_dp_ranks m' ! b \<and>
       (md_attn_dp_ranks m' ! a = md_attn_dp_ranks m' ! b \<longrightarrow> is_decode m' a \<longrightarrow> is_decode m' b))"
proof -
  define n where "n = length (md_req_ids m)"
  define r where "r = srt (attn_before m) [0..<n]"
  define ps where "ps = fold (\<lambda>i p. p[r ! i := i]) [0..<n] (replicate n 0)"
  have ge: "md_init_prefill_lens m ! i \<ge> -1" if "i < n" for i
    using lens tk that nth_mem [of i "md_init_prefill_lens m"] by (simp add: per_token_def n_def)
  have sw: "strict_weak (attn_before m) (set [0..<n])"
    by (rule attn_before_strict_weak) (simp add: ge)
  have r_mset: "mset r = mset [0..<n]" and r_sorted: "sorted_wrt (\<lambda>a b. \<not> attn_before m b a) r"
    using srt [OF sw] by (simp_all add: std_sorted_def r_def)
  have r_len: "length r = n" using r_mset mset_eq_length by fastforce
  have r_perm: "permutes_upto n r"
    using r_len mset_eq_imp_distinct_iff [OF r_mset] mset_eq_setD [OF r_mset]
    by (simp add: permutes_upto_def atLeast0LessThan)
  note perm = inverse_scatter(1) [OF r_perm, folded ps_def]
    and inv = inverse_scatter(2) [OF r_perm, folded ps_def]
  have lp: "length ps = n" using perm by (simp add: permutes_upto_def)
  obtain m' where m': "permute_token_infos ps m = Inr m'"
      "\<forall>i < length ps. token_info m' (ps ! i) = token_info m i"
    using permute_token_infos_moves [OF tk perm [unfolded n_def]] by blast
  have at: "token_info m' a = token_info m (r ! a)" if "a < n" for a
  proof -
    have "r ! a < n" using r_perm that nth_mem [of a r] by (simp add: permutes_upto_def)
    then show ?thesis using m'(2) inv [OF that] lp by metis
  qed
  show ?thesis
  proof (intro exI conjI allI impI)
    show "sort_by_attention srt m = Inr (ps, m')"
      using m'(1) by (simp add: sort_by_attention_def Let_def ps_def r_def n_def)
    show "permutes_upto (length (md_req_ids m)) ps" using perm by (simp add: n_def)
    show "token_info m' (ps ! i) = token_info m i" if "i < length ps" for i using m'(2) that by simp
    fix a b assume ab: "a < b" "b < length ps"
    have "\<not> attn_before m (r ! b) (r ! a)"
      using r_sorted ab by (simp add: sorted_wrt_iff_nth_less r_len lp)
    moreover have "r ! a < n" "r ! b < n"
      using r_perm ab lp nth_mem [of a r] nth_mem [of b r] by (simp_all add: permutes_upto_def)
    ultimately have "\<not> (md_attn_dp_ranks m ! (r ! b) < md_attn_dp_ranks m ! (r ! a)) \<and>
        (md_attn_dp_ranks m ! (r ! b) = md_attn_dp_ranks m ! (r ! a) \<longrightarrow>
          \<not> (\<not> is_decode m (r ! b) \<and> is_decode m (r ! a)))"
      using ge by (simp add: attn_before_key)
    moreover have "token_info m' a = token_info m (r ! a)" "token_info m' b = token_info m (r ! b)"
      using at ab lp by simp_all
    ultimately show "md_attn_dp_ranks m' ! a \<le> md_attn_dp_ranks m' ! b"
      and "md_attn_dp_ranks m' ! a = md_attn_dp_ranks m' ! b \<Longrightarrow> is_decode m' a \<Longrightarrow> is_decode m' b"
      by (auto simp: token_info_def is_decode_def)
  qed
qed

text \<open>Insertion sort is one such sort; it serves for the example.\<close>

fun insert_by :: "(nat \<Rightarrow> nat \<Rightarrow> bool) \<Rightarrow> nat \<Rightarrow> nat list \<Rightarrow> nat list" where
  "insert_by lt x [] = [x]"
| "insert_by lt x (y # ys) = (if lt y x then y # insert_by lt x ys else x # y # ys)"

definition insertion_sort :: std_sort where
  "insertion_sort lt xs = foldr (insert_by lt) xs []"

lemma insert_by_mset: "mset (insert_by lt x ys) = add_mset x (mset ys)"
  by (induction ys) auto

lemma insert_by_set: "set (insert_by lt x ys) = insert x (set ys)"
  by (induction ys) auto

lemma insert_by_sorted:
  assumes "strict_weak lt A" and "x \<in> A" and "set ys \<subseteq> A"
    and "sorted_wrt (\<lambda>a b. \<not> lt b a) ys"
  shows "sorted_wrt (\<lambda>a b. \<not> lt b a) (insert_by lt x ys)"
  using assms(3,4)
proof (induction ys)
  case (Cons y ys)
  have y: "y \<in> A" and ys: "set ys \<subseteq> A" using Cons.prems(1) by simp_all
  have sy: "\<not> lt z y" if "z \<in> set ys" for z using Cons.prems(2) that by simp
  show ?case
  proof (cases "lt y x")
    case True
    have "\<not> lt x y"
      using True assms(1,2) y unfolding strict_weak_def by blast
    then show ?thesis using True Cons ys sy by (simp add: insert_by_set)
  next
    case False
    have "\<not> lt z x" if "z \<in> set ys" for z
    proof
      assume "lt z x"
      moreover have "z \<in> A" using that ys by (rule set_mp [rotated])
      ultimately have "lt z y \<or> lt y x" using assms(1,2) y unfolding strict_weak_def by blast
      then show False using False sy that by simp
    qed
    then show ?thesis using False Cons.prems(2) by simp
  qed
qed simp

lemma insertion_sort_std:
  assumes "strict_weak lt (set xs)"
  shows "std_sorted insertion_sort lt xs"
proof -
  have "mset (foldr (insert_by lt) ys []) = mset ys" for ys
    by (induction ys) (simp_all add: insert_by_mset)
  moreover have "set (foldr (insert_by lt) ys []) = set ys" for ys
    by (induction ys) (simp_all add: insert_by_set)
  moreover have "set ys \<subseteq> set xs \<Longrightarrow> sorted_wrt (\<lambda>a b. \<not> lt b a) (foldr (insert_by lt) ys [])" for ys
  proof (induction ys)
    case (Cons y ys)
    have "set (foldr (insert_by lt) ys []) \<subseteq> set xs"
      using Cons.prems calculation(2) [of ys] by simp
    then show ?case using Cons insert_by_sorted [OF assms] by simp
  qed simp
  ultimately show ?thesis by (simp add: std_sorted_def insertion_sort_def)
qed

theorem sort_by_attention_layout_witness:
  "\<exists>ps m'. sort_by_attention insertion_sort demo_tokens = Inr (ps, m') \<and> permutes_upto 4 ps"
proof -
  have tk: "per_token demo_tokens" by (simp add: per_token_def demo_tokens_def)
  have lens: "\<forall>l \<in> set (md_init_prefill_lens demo_tokens). l \<ge> -1" by (simp add: demo_tokens_def)
  have n: "length (md_req_ids demo_tokens) = 4" by (simp add: demo_tokens_def)
  show ?thesis
    using sort_by_attention_layout [OF insertion_sort_std tk lens] unfolding n by blast
qed

section \<open>Combining expert outputs\<close>

text \<open>
  \<open>apply_weights_and_permute_tokens\<close> (\<open>csrc/cuda_ops/permute.cu\<close>): the kernel moves row \<open>t\<close> to
  position \<open>p ! t\<close>; \<open>move_one_token_kernel\<close> multiplies it by the weight when its template
  argument \<open>apply_weights\<close> is set. \<open>weights\<close> is the memory behind the weight pointer: the
  kernel first moves the pointer by the token and then indexes it by the token again.
\<close>

definition move_one_token :: "bool \<Rightarrow> real list \<Rightarrow> real \<Rightarrow> real list" where
  "move_one_token apply_weights src w = (if apply_weights then map (\<lambda>x. x * w) src else src)"

definition apply_weights_and_permute_tokens ::
  "real list list \<Rightarrow> (nat \<Rightarrow> real) \<Rightarrow> nat list \<Rightarrow> real list option list" where
  "apply_weights_and_permute_tokens rows weights ps =
     fold (\<lambda>t out. out[ps ! t := Some (move_one_token False (rows ! t) (weights (t + t)))])
       [0..<length rows] (replicate (length rows) None)"

text \<open>The weights have no influence: the expert outputs are moved and never scaled.\<close>

lemma expert_weights_ignored:
  "apply_weights_and_permute_tokens rows weights ps = apply_weights_and_permute_tokens rows weights' ps"
  by (simp add: apply_weights_and_permute_tokens_def move_one_token_def)

lemma apply_weights_scatter:
  assumes "permutes_upto (length rows) ps" and "t < length rows"
  shows "apply_weights_and_permute_tokens rows weights ps ! (ps ! t) = Some (rows ! t)"
  using scatter_nth [of ps "replicate (length rows) None" "length rows" t
      "\<lambda>t. Some (move_one_token False (rows ! t) (weights (t + t)))"] assms
  by (simp add: apply_weights_and_permute_tokens_def permutes_upto_def move_one_token_def)

end
