(* ===== verification/Executor.thy ===== *)
theory Executor
  imports Metadata BlockManager Utils
begin

text \<open>
  The model of \<open>disagmoe/executor/executor.py\<close>, \<open>disagmoe/executor/cuda_graph.py\<close> and
  \<open>disagmoe/frontend/profiler.py\<close>: which operator a layer uses, how many KV blocks fit, the
  choice of expert implementation and its inputs, the batch sizes for which CUDA graphs are
  captured, the static buffers a graph reads, and the profiler's start and stop.

  The neural operators themselves are parameters: an attention operator is a function of the
  tokens of the batch. What a captured graph needs of it (padding tokens are inert, the unused
  columns of a block table are not read) is stated as a hypothesis where it is used.
\<close>

section \<open>Layers\<close>

definition layer_mappings :: "nat list \<Rightarrow> nat list result" where
  "layer_mappings ids =
     (if ids = [] then Inl ValueError
      else Inr (fold (\<lambda>i m. m[ids ! i := i]) [0..<length ids] (replicate (Max (set ids) + 1) 0)))"

lemma layer_mappings_inverse:
  assumes "distinct ids" and "ids \<noteq> []"
  shows "\<exists>m. layer_mappings ids = Inr m \<and> length m = Max (set ids) + 1 \<and>
    (\<forall>i < length ids. m ! (ids ! i) = i)"
proof -
  have "set ids \<subseteq> {..<length (replicate (Max (set ids) + 1) (0::nat))}"
    by (auto simp: less_Suc_eq_le)
  then show ?thesis
    using scatter_nth [of ids "replicate (Max (set ids) + 1) 0" "length ids" _ "\<lambda>i. i"] assms
    by (simp add: layer_mappings_def scatter_length)
qed

section \<open>The KV cache\<close>

text \<open>Python's floor division of floats; the memory figures are exact reals here.\<close>

definition cache_block_bytes :: "nat \<Rightarrow> nat \<Rightarrow> nat \<Rightarrow> nat" where
  "cache_block_bytes head_dim num_kv_heads bs = head_dim * num_kv_heads * bs * 2 * 2"

definition determine_kv_cache_blocks ::
  "real \<Rightarrow> real \<Rightarrow> real \<Rightarrow> real \<Rightarrow> nat \<Rightarrow> nat \<Rightarrow> int" where
  "determine_kv_cache_blocks total_mem utilization init_mem free_mem block_bytes num_layers =
     (let peak = init_mem - free_mem
      in \<lfloor>of_int \<lfloor>(total_mem * utilization - peak) / real block_bytes\<rfloor> / real num_layers\<rfloor>)"

definition init_kv_cache :: "int option \<Rightarrow> int \<Rightarrow> int \<Rightarrow> int \<times> int" where
  "init_kv_cache configured determined bs =
     (let n = (case configured of None \<Rightarrow> determined | Some n \<Rightarrow> n)
      in (n, n * bs div 100 + 1))"

text \<open>The blocks chosen for all layers fit into the memory left below the utilization limit.\<close>

lemma kv_cache_fits:
  assumes "0 < block_bytes" and "0 < num_layers"
  shows "of_int (determine_kv_cache_blocks mem u init_mem free_mem block_bytes num_layers)
    * real num_layers * real block_bytes \<le> mem * u - (init_mem - free_mem)"
proof -
  let ?q = "\<lfloor>(mem * u - (init_mem - free_mem)) / real block_bytes\<rfloor>"
  have "of_int \<lfloor>of_int ?q / real num_layers\<rfloor> * real num_layers \<le> of_int ?q"
    using assms(2) by (metis of_int_floor_le of_nat_0_less_iff pos_le_divide_eq)
  then have "of_int \<lfloor>of_int ?q / real num_layers\<rfloor> * real num_layers * real block_bytes
      \<le> of_int ?q * real block_bytes" by (intro mult_right_mono) simp_all
  also have "\<dots> \<le> mem * u - (init_mem - free_mem)"
    using assms(1) by (metis of_int_floor_le of_nat_0_less_iff pos_le_divide_eq)
  finally show ?thesis by (simp add: determine_kv_cache_blocks_def Let_def)
qed

section \<open>The expert implementation and its inputs\<close>

datatype expert_cls = Serial | CUTLASS | CUTLASSFP8 | DeepGemmBF16 | DeepGemmFP8

datatype quant_method = QuantNone | QuantFP8

text \<open>An empty or missing setting counts as none.\<close>

definition expert_quant_method :: "string option \<Rightarrow> quant_method result" where
  "expert_quant_method moe_linear_quant =
     (case moe_linear_quant of
        None \<Rightarrow> Inr QuantNone
      | Some q \<Rightarrow> if q = '''' \<or> q = ''none'' then Inr QuantNone
                  else if q = ''fp8'' then Inr QuantFP8 else Inl ValueError)"

definition get_expert_cls :: "bool \<Rightarrow> bool \<Rightarrow> quant_method \<Rightarrow> expert_cls" where
  "get_expert_cls enable_grouped_gemm less_than_sm90 q =
     (if \<not> enable_grouped_gemm then Serial
      else if less_than_sm90 then (if q = QuantFP8 then CUTLASSFP8 else CUTLASS)
      else if q = QuantFP8 then DeepGemmFP8 else DeepGemmBF16)"

text \<open>
  The inputs that \<open>prepare_bsz_and_indices\<close> fills in: the batch sizes of the local experts for
  the serial and the CUTLASS classes, the local expert of each token for DeepGEMM; the other
  one is whatever the static buffer holds.
\<close>

definition prepare_bsz_and_indices ::
  "expert_cls \<Rightarrow> nat \<Rightarrow> nat list \<Rightarrow> int list \<Rightarrow> batch_metadata_c \<Rightarrow>
   (nat list option \<times> int list option) result" where
  "prepare_bsz_and_indices cls num_experts l2g g2l m =
     bindR (if cls \<in> {Serial, CUTLASS, CUTLASSFP8} then
              bindR (get_expert_batch_sizes num_experts m) (\<lambda>sizes.
              bindR (mapR (\<lambda>i. py_get sizes (int i)) l2g) (\<lambda>l. Inr (Some l)))
            else Inr None) (\<lambda>batch_sizes.
     bindR (if cls \<in> {DeepGemmBF16, DeepGemmFP8} then
              bindR (get_token_expert_indices g2l m) (\<lambda>l. Inr (Some l))
            else Inr None) (\<lambda>m_indices.
       Inr (batch_sizes, m_indices)))"

text \<open>
  \<open>build_expert_executor\<close> of the engine: the two rank tables, from an explicit list of local
  experts or from the position of the worker in its group.
\<close>

definition expert_rank_tables ::
  "nat list option \<Rightarrow> nat \<Rightarrow> nat \<Rightarrow> nat \<Rightarrow> (nat list \<times> int list) result" where
  "expert_rank_tables local_ids num_experts per_rank rank_in_group =
     (let l2g = (case local_ids of
                   Some (x # xs) \<Rightarrow> x # xs
                 | _ \<Rightarrow> map (\<lambda>i. per_rank * rank_in_group + i) [0..<per_rank])
      in bindR (foldR (\<lambda>i g. py_set g (int (l2g ! i)) (int i)) [0..<length l2g]
                 (replicate num_experts (-1))) (\<lambda>g2l.
           Inr (l2g, g2l)))"

lemma rank_table_loop:
  assumes "distinct ids" and "set ids \<subseteq> {..<length g}" and "n \<le> length ids"
  shows "\<exists>g'. foldR (\<lambda>i g. py_set g (int (ids ! i)) (int i)) [0..<n] g = Inr g' \<and>
    length g' = length g \<and> (\<forall>i < n. g' ! (ids ! i) = int i) \<and>
    (\<forall>e. e \<notin> set (take n ids) \<longrightarrow> g' ! e = g ! e)"
  using assms(3)
proof (induction n)
  case (Suc n)
  then obtain g' where g': "foldR (\<lambda>i g. py_set g (int (ids ! i)) (int i)) [0..<n] g = Inr g'"
      "length g' = length g" "\<forall>i < n. g' ! (ids ! i) = int i"
      "\<forall>e. e \<notin> set (take n ids) \<longrightarrow> g' ! e = g ! e" by auto
  have "ids ! n \<in> set ids" using Suc.prems by simp
  then have b: "ids ! n < length g'" using assms(2) g'(2) by (simp add: subset_eq)
  have "\<forall>i < Suc n. g'[ids ! n := int n] ! (ids ! i) = int i"
  proof (intro allI impI)
    fix i assume i: "i < Suc n"
    show "g'[ids ! n := int n] ! (ids ! i) = int i"
    proof (cases "i = n")
      case True
      then show ?thesis using b by simp
    next
      case False
      then have "ids ! n \<noteq> ids ! i" "i < n"
        using assms(1) Suc.prems i by (simp_all add: nth_eq_iff_index_eq)
      then show ?thesis using g'(3) by simp
    qed
  qed
  moreover have "set (take (Suc n) ids) = insert (ids ! n) (set (take n ids))"
    using Suc.prems by (simp add: take_Suc_conv_app_nth)
  ultimately show ?case using g' b by (simp add: foldR_append)
qed simp

text \<open>
  When the local experts are distinct and below \<open>num_experts\<close>, the two tables are inverse:
  the global rank of local expert \<open>i\<close> maps back to \<open>i\<close>, and every expert the worker does not
  hold maps to -1, which \<open>get_token_expert_indices\<close> asserts against. The contiguous default
  gives worker \<open>r\<close> the experts \<open>r * n\<close> to \<open>r * n + n - 1\<close>.
\<close>

theorem expert_rank_tables_inverse:
  assumes ids: "l2g = (case local_ids of Some (x # xs) \<Rightarrow> x # xs
                 | _ \<Rightarrow> map (\<lambda>i. per_rank * rank + i) [0..<per_rank])"
    and d: "distinct l2g" and b: "\<forall>e \<in> set l2g. e < num_experts"
  shows "\<exists>g2l. expert_rank_tables local_ids num_experts per_rank rank = Inr (l2g, g2l) \<and>
    length g2l = num_experts \<and> (\<forall>i < length l2g. g2l ! (l2g ! i) = int i) \<and>
    (\<forall>e < num_experts. e \<notin> set l2g \<longrightarrow> g2l ! e = -1)"
proof -
  have "set l2g \<subseteq> {..<length (replicate num_experts (-1::int))}" using b by auto
  from rank_table_loop [OF d this order_refl] obtain g2l where
    "foldR (\<lambda>i g. py_set g (int (l2g ! i)) (int i)) [0..<length l2g] (replicate num_experts (-1))
       = Inr g2l" "length g2l = num_experts" "\<forall>i < length l2g. g2l ! (l2g ! i) = int i"
    "\<forall>e. e \<notin> set (take (length l2g) l2g) \<longrightarrow> g2l ! e = replicate num_experts (-1) ! e" by auto
  then show ?thesis by (simp add: expert_rank_tables_def Let_def ids [symmetric])
qed

theorem expert_rank_tables_inverse_witness:
  "(\<exists>g2l. expert_rank_tables (Some [5, 2]) 8 2 0 = Inr ([5, 2], g2l) \<and> length g2l = 8) \<and>
   expert_rank_tables None 8 2 1 = Inr ([2, 3], [-1, -1, 0, 1, -1, -1, -1, -1])"
proof
  show "\<exists>g2l. expert_rank_tables (Some [5, 2]) 8 2 0 = Inr ([5, 2], g2l) \<and> length g2l = 8"
    using expert_rank_tables_inverse [where l2g = "[5, 2]" and local_ids = "Some [5, 2]" and per_rank = 2
        and rank = 0 and num_experts = 8] by auto
  show "expert_rank_tables None 8 2 1 = Inr ([2, 3], [-1, -1, 0, 1, -1, -1, -1, -1])" by code_simp
qed

section \<open>Batch sizes of the captured graphs\<close>

definition py_range :: "nat \<Rightarrow> nat \<Rightarrow> nat \<Rightarrow> nat list" where
  "py_range lo hi inc = map (\<lambda>k. lo + k * inc) [0..<(hi - lo + inc - 1) div inc]"

text \<open>The stages of the attention executor: from, up to, increment.\<close>

definition bsz_stages :: "(nat \<times> nat \<times> nat) list" where
  "bsz_stages = [(8, 128, 32), (128, 256, 64), (256, 512, 128), (512, 1024, 256)]"

fun attn_stages :: "nat \<Rightarrow> (nat \<times> nat \<times> nat) list \<Rightarrow> nat list \<Rightarrow> nat list" where
  "attn_stages mx [] bs = bs"
| "attn_stages mx ((lo, hi, inc) # st) bs =
     (if mx > hi then attn_stages mx st (bs @ py_range lo hi inc)
      else let bs = bs @ py_range lo mx inc
           in if last bs \<noteq> mx then bs @ [mx] else bs)"

definition attn_graph_batch_sizes :: "nat \<Rightarrow> nat list result" where
  "attn_graph_batch_sizes mx =
     bindR (assertR (mx \<le> 1024)) (\<lambda>_. Inr (attn_stages mx bsz_stages [1]))"

text \<open>The expert executor doubles from 128; the doubling starts at a positive size.\<close>

function double_upto :: "nat \<Rightarrow> nat \<Rightarrow> nat list" where
  "double_upto mx bsz = (if bsz = 0 \<or> \<not> bsz < mx then [bsz] else bsz # double_upto mx (bsz * 2))"
  by pat_completeness auto
termination by (relation "measure (\<lambda>(mx, bsz). mx - bsz)") auto

declare double_upto.simps [simp del]

definition expert_graph_batch_sizes :: "nat \<Rightarrow> nat list result" where
  "expert_graph_batch_sizes mx =
     bindR (assertR (mx > 0)) (\<lambda>_. Inr (if mx \<le> 128 then [mx] else double_upto mx 128))"

definition get_bucket_by_num_tokens :: "nat list \<Rightarrow> nat \<Rightarrow> nat result" where
  "get_bucket_by_num_tokens sizes n =
     (case filter (\<lambda>s. s \<ge> n) sizes of [] \<Rightarrow> Inl AssertionError | s # _ \<Rightarrow> Inr s)"

lemma bucket_smallest:
  assumes "sorted sizes" and "get_bucket_by_num_tokens sizes n = Inr s"
  shows "s \<in> set sizes \<and> n \<le> s \<and> (\<forall>x \<in> set sizes. n \<le> x \<longrightarrow> s \<le> x)"
proof -
  obtain ys where ys: "filter (\<lambda>s. s \<ge> n) sizes = s # ys"
    using assms(2) by (auto simp: get_bucket_by_num_tokens_def split: list.splits)
  have "sorted (s # ys)" unfolding ys [symmetric] by (rule sorted_wrt_filter [OF assms(1)])
  have "set (filter (\<lambda>s. s \<ge> n) sizes) = set (s # ys)" by (simp only: ys)
  then have mem: "x \<in> set (s # ys) \<longleftrightarrow> x \<in> set sizes \<and> n \<le> x" for x
    by (metis (mono_tags, lifting) mem_Collect_eq set_filter)
  show ?thesis
  proof (intro conjI ballI impI)
    show "s \<in> set sizes" "n \<le> s" using mem [of s] by simp_all
    fix x assume "x \<in> set sizes" "n \<le> x"
    then have "x \<in> set (s # ys)" using mem [of x] by blast
    then show "s \<le> x" using \<open>sorted (s # ys)\<close> by auto
  qed
qed

lemma bucket_exists:
  assumes "m \<in> set sizes" and "n \<le> m"
  shows "\<exists>s. get_bucket_by_num_tokens sizes n = Inr s"
proof -
  have "filter (\<lambda>s. s \<ge> n) sizes \<noteq> []" using assms by (auto simp: filter_empty_conv)
  then show ?thesis by (auto simp: get_bucket_by_num_tokens_def split: list.splits)
qed

lemma py_range_sorted: "0 < inc \<Longrightarrow> sorted_wrt (<) (py_range lo hi inc)"
  by (simp add: py_range_def sorted_wrt_iff_nth_less)

lemma py_range_bounds:
  assumes "x \<in> set (py_range lo hi inc)" and "0 < inc"
  shows "lo \<le> x \<and> x < hi"
proof -
  obtain k where k: "x = lo + k * inc" "k < (hi - lo + inc - 1) div inc"
    using assms(1) unfolding py_range_def set_map by (elim imageE) (rule that, simp_all)
  have "Suc k * inc \<le> (hi - lo + inc - 1) div inc * inc" using k(2) by (intro mult_right_mono) simp_all
  also have "\<dots> \<le> hi - lo + inc - 1" by (rule div_times_less_eq_dividend)
  finally show ?thesis using k(1) assms(2) by simp
qed

lemma sorted_wrt_le_last: "sorted_wrt (<) xs \<Longrightarrow> x \<in> set xs \<Longrightarrow> x \<le> last xs" for x :: nat
proof (induction xs)
  case (Cons a xs)
  show ?case
  proof (cases "xs = []")
    case False
    then have "last xs \<in> set xs" by simp
    then have "a < last xs" using Cons.prems(1) by simp
    have "x = a \<or> x \<le> last xs" using Cons by auto
    then show ?thesis using False \<open>a < last xs\<close> by auto
  qed (use Cons.prems in simp)
qed simp

lemma attn_stages_sizes:
  assumes "\<forall>(lo, hi, inc) \<in> set st. 0 < inc \<and> lo \<le> hi"
    and "\<forall>i. Suc i < length st \<longrightarrow> fst (snd (st ! i)) = fst (st ! Suc i)"
    and "st \<noteq> []" and "mx \<le> fst (snd (last st))"
    and "bs \<noteq> []" and "sorted_wrt (<) bs" and "\<forall>x \<in> set bs. 0 < x \<and> x \<le> mx \<and> x < fst (st ! 0)"
  shows "sorted_wrt (<) (attn_stages mx st bs) \<and> last (attn_stages mx st bs) = mx \<and>
    attn_stages mx st bs \<noteq> [] \<and> (\<forall>x \<in> set (attn_stages mx st bs). 0 < x \<and> x \<le> mx) \<and>
    hd (attn_stages mx st bs) = hd bs"
  using assms
proof (induction mx st bs rule: attn_stages.induct)
  case (2 mx lo hi inc st bs)
  have inc: "0 < inc" "lo \<le> hi" using "2.prems"(1) by simp_all
  have bs: "\<forall>x \<in> set bs. 0 < x \<and> x \<le> mx \<and> x < lo" using "2.prems"(7) by simp
  show ?case
  proof (cases "mx > hi")
    case True
    then have ne: "st \<noteq> []" using "2.prems"(4) by auto
    then obtain p st' where st: "st = p # st'" by (cases st) simp_all
    have hi: "hi = fst (st ! 0)" using "2.prems"(2) ne by fastforce
    let ?bs = "bs @ py_range lo hi inc"
    have r: "lo \<le> x \<and> x < hi" if "x \<in> set (py_range lo hi inc)" for x
      using py_range_bounds [OF that inc(1)] .
    have "sorted_wrt (<) ?bs"
      using "2.prems"(6) py_range_sorted [OF inc(1)] bs r by (fastforce simp: sorted_wrt_append)
    moreover have "\<forall>x \<in> set ?bs. 0 < x \<and> x \<le> mx \<and> x < fst (st ! 0)"
    proof
      fix x assume "x \<in> set ?bs"
      then consider "x \<in> set bs" | "x \<in> set (py_range lo hi inc)" by auto
      then show "0 < x \<and> x \<le> mx \<and> x < fst (st ! 0)"
      proof cases
        case 1
        then show ?thesis using bs inc hi by force
      next
        case 2
        obtain b where "b \<in> set bs" using "2.prems"(5) by (cases bs) auto
        then have "0 < lo" using bs by force
        then show ?thesis using r [OF 2] True hi by simp
      qed
    qed
    moreover have "\<forall>i. Suc i < length st \<longrightarrow> fst (snd (st ! i)) = fst (st ! Suc i)"
      using "2.prems"(2) by (metis Suc_less_eq length_Cons nth_Cons_Suc)
    ultimately show ?thesis using "2.IH" [OF True] "2.prems"(1,4,5) ne True
      by (simp add: hd_append)
  next
    case False
    let ?bs = "bs @ py_range lo mx inc"
    have r: "lo \<le> x \<and> x < mx" if "x \<in> set (py_range lo mx inc)" for x
      using py_range_bounds [OF that inc(1)] .
    obtain b where "b \<in> set bs" using "2.prems"(5) by (cases bs) auto
    then have "0 < b \<and> b \<le> mx \<and> b < lo" using bs by blast
    then have lo: "0 < lo" and "0 < mx" by simp_all
    have s: "sorted_wrt (<) ?bs"
      using "2.prems"(6) py_range_sorted [OF inc(1)] bs r by (fastforce simp: sorted_wrt_append)
    have le: "\<forall>x \<in> set ?bs. 0 < x \<and> x \<le> mx" using bs r lo by fastforce
    show ?thesis
    proof (cases "last ?bs = mx")
      case True
      then show ?thesis using False s le "2.prems"(5) by (simp add: Let_def hd_append)
    next
      case ne: False
      have "x < mx" if "x \<in> set ?bs" for x
      proof -
        have "x \<le> last ?bs" using sorted_wrt_le_last [OF s that] .
        moreover have "last ?bs \<le> mx" using le "2.prems"(5) by (metis append_is_Nil_conv last_in_set)
        ultimately show ?thesis using ne by simp
      qed
      then have "sorted_wrt (<) (?bs @ [mx])" using s by (simp add: sorted_wrt_append)
      moreover have "\<forall>x \<in> set (?bs @ [mx]). 0 < x \<and> x \<le> mx" using le \<open>0 < mx\<close> by simp
      ultimately show ?thesis using False ne "2.prems"(5) by (simp add: Let_def hd_append)
    qed
  qed
qed simp

text \<open>
  For a largest graph size between 1 and 1024 the attention graph sizes are strictly
  increasing, start at 1 and end at exactly that size; so every batch of up to that many
  tokens has a bucket, the smallest captured size that holds it, and a larger batch has none.
\<close>

theorem attn_buckets_exact:
  assumes "1 \<le> mx" and "mx \<le> 1024"
  shows "\<exists>sizes. attn_graph_batch_sizes mx = Inr sizes \<and> sorted_wrt (<) sizes \<and>
    hd sizes = 1 \<and> last sizes = mx \<and>
    (\<forall>n \<le> mx. \<exists>s \<in> set sizes. get_bucket_by_num_tokens sizes n = Inr s \<and> n \<le> s \<and> s \<le> mx \<and>
       (\<forall>x \<in> set sizes. n \<le> x \<longrightarrow> s \<le> x)) \<and>
    (\<forall>n > mx. get_bucket_by_num_tokens sizes n = Inl AssertionError)"
proof -
  let ?s = "attn_stages mx bsz_stages [1]"
  have "sorted_wrt (<) ?s \<and> last ?s = mx \<and> ?s \<noteq> [] \<and> (\<forall>x \<in> set ?s. 0 < x \<and> x \<le> mx) \<and> hd ?s = hd [1]"
    by (rule attn_stages_sizes)
      (use assms in \<open>auto simp: bsz_stages_def less_Suc_eq numeral_eq_Suc\<close>)
  then have s: "sorted_wrt (<) ?s" "last ?s = mx" "?s \<noteq> []" "\<forall>x \<in> set ?s. 0 < x \<and> x \<le> mx" "hd ?s = 1"
    by simp_all
  have "sorted ?s" using s(1) by (rule sorted_wrt_mono_rel [rotated]) simp
  have mem: "mx \<in> set ?s" using s(2,3) last_in_set by metis
  show ?thesis
  proof (intro exI conjI allI impI)
    show "attn_graph_batch_sizes mx = Inr ?s" using assms by (simp add: attn_graph_batch_sizes_def)
    fix n assume "n \<le> mx"
    then obtain b where b: "get_bucket_by_num_tokens ?s n = Inr b" using bucket_exists [OF mem] by blast
    then show "\<exists>b \<in> set ?s. get_bucket_by_num_tokens ?s n = Inr b \<and> n \<le> b \<and> b \<le> mx \<and>
        (\<forall>x \<in> set ?s. n \<le> x \<longrightarrow> b \<le> x)"
      using bucket_smallest [OF \<open>sorted ?s\<close> b] s(4) by blast
  next
    fix n assume "mx < n"
    then have "filter (\<lambda>s. s \<ge> n) ?s = []" using s(4) by (auto simp: filter_empty_conv)
    then show "get_bucket_by_num_tokens ?s n = Inl AssertionError"
      by (simp add: get_bucket_by_num_tokens_def)
  qed (use s in simp_all)
qed

theorem attn_buckets_exact_witness:
  "(\<exists>sizes. attn_graph_batch_sizes 200 = Inr sizes \<and> hd sizes = 1 \<and> last sizes = 200) \<and>
   attn_graph_batch_sizes 200 = Inr [1, 8, 40, 72, 104, 128, 192, 200]"
proof
  show "\<exists>sizes. attn_graph_batch_sizes 200 = Inr sizes \<and> hd sizes = 1 \<and> last sizes = 200"
    using attn_buckets_exact [of 200] by auto
  show "attn_graph_batch_sizes 200 = Inr [1, 8, 40, 72, 104, 128, 192, 200]" by code_simp
qed

lemma double_upto_sizes:
  assumes "0 < b" and "b < 2 * mx"
  shows "sorted_wrt (<) (double_upto mx b) \<and> mx \<le> last (double_upto mx b) \<and>
    last (double_upto mx b) < 2 * mx \<and> double_upto mx b \<noteq> [] \<and>
    (\<forall>x \<in> set (double_upto mx b). b \<le> x) \<and> (\<exists>k. last (double_upto mx b) = b * 2 ^ k)"
  using assms
proof (induction mx b rule: double_upto.induct)
  case (1 mx b)
  show ?case
  proof (cases "b < mx")
    case True
    have IH: "sorted_wrt (<) (double_upto mx (b * 2)) \<and> mx \<le> last (double_upto mx (b * 2)) \<and>
        last (double_upto mx (b * 2)) < 2 * mx \<and> double_upto mx (b * 2) \<noteq> [] \<and>
        (\<forall>x \<in> set (double_upto mx (b * 2)). b * 2 \<le> x) \<and>
        (\<exists>k. last (double_upto mx (b * 2)) = b * 2 * 2 ^ k)"
      using "1.IH" "1.prems" True by simp
    have e: "double_upto mx b = b # double_upto mx (b * 2)"
      using True "1.prems" by (subst double_upto.simps) simp
    have "\<forall>x \<in> set (double_upto mx (b * 2)). b < x" using IH "1.prems"(1) by fastforce
    moreover obtain k where "last (double_upto mx (b * 2)) = b * 2 * 2 ^ k" using IH by blast
    then have "last (double_upto mx b) = b * 2 ^ Suc k" unfolding e using IH by simp
    then have "\<exists>k. last (double_upto mx b) = b * 2 ^ k" by (rule exI)
    ultimately show ?thesis unfolding e using IH by (simp add: less_imp_le)
  next
    case False
    then have "double_upto mx b = [b]" by (subst double_upto.simps) simp
    then show ?thesis using False "1.prems" by (auto intro: exI [of _ 0])
  qed
qed

text \<open>Every expert batch has a bucket, but above 128 the largest is rounded up to 128 * 2^k.\<close>

lemma expert_buckets_cover:
  assumes "1 \<le> mx"
  shows "\<exists>sizes. expert_graph_batch_sizes mx = Inr sizes \<and> sorted_wrt (<) sizes \<and>
    mx \<le> last sizes \<and> last sizes < 2 * mx + 1 \<and>
    (\<forall>n \<le> mx. \<exists>s. get_bucket_by_num_tokens sizes n = Inr s \<and> n \<le> s)"
proof -
  define sizes where "sizes = (if mx \<le> 128 then [mx] else double_upto mx 128)"
  have s: "sorted_wrt (<) sizes \<and> mx \<le> last sizes \<and> last sizes < 2 * mx + 1 \<and> sizes \<noteq> []"
    using double_upto_sizes [of 128 mx] by (auto simp: sizes_def)
  have "sorted sizes" using s by (auto intro: sorted_wrt_mono_rel [of sizes "(<)"])
  have "\<exists>b. get_bucket_by_num_tokens sizes n = Inr b \<and> n \<le> b" if "n \<le> mx" for n
  proof -
    have "last sizes \<in> set sizes" "n \<le> last sizes" using s that by auto
    then obtain b where "get_bucket_by_num_tokens sizes n = Inr b" using bucket_exists by blast
    then show ?thesis using bucket_smallest [OF \<open>sorted sizes\<close>] by blast
  qed
  moreover have "expert_graph_batch_sizes mx = Inr sizes"
    using assms by (simp add: expert_graph_batch_sizes_def sizes_def)
  ultimately show ?thesis using s by blast
qed

text \<open>The static input has \<open>max_batch_size\<close> rows: a slice of it that is too long is cut.\<close>

definition copy_rows :: "'a list \<Rightarrow> 'a list \<Rightarrow> 'a list result" where
  "copy_rows static rows =
     (if length (take (length rows) static) = length rows
      then Inr (rows @ drop (length rows) static) else Inl RuntimeError)"

text \<open>Capturing copies a dummy batch of each graph size into the static input (CUTLASS).\<close>

definition capture_experts :: "nat \<Rightarrow> 'a \<Rightarrow> 'a list \<Rightarrow> 'a list result" where
  "capture_experts mx x static =
     bindR (expert_graph_batch_sizes mx) (\<lambda>sizes.
       foldR (\<lambda>bs static. copy_rows static (replicate bs x)) sizes static)"

lemma expert_capture_exceeds_buffer:
  assumes "128 < mx" and "\<And>k. mx \<noteq> 128 * 2 ^ k" and "length static = mx"
  shows "\<exists>e. capture_experts mx x static = Inl e"
proof -
  let ?s = "double_upto mx 128"
  have s: "mx \<le> last ?s" "?s \<noteq> []" "\<exists>k. last ?s = 128 * 2 ^ k"
    using double_upto_sizes [of 128 mx] assms(1) by auto
  then have gt: "mx < last ?s" using assms(2) by (metis le_neq_implies_less)
  have len: "foldR (\<lambda>bs static. copy_rows static (replicate bs x)) xs static = Inr t \<Longrightarrow>
      length t = mx" for xs t
    by (rule foldR_invariant [where I = "\<lambda>t. length t = mx", OF _ assms(3)])
      (auto simp: copy_rows_def split: if_splits)
  have "\<exists>e. foldR (\<lambda>bs static. copy_rows static (replicate bs x)) (butlast ?s @ [last ?s]) static = Inl e"
  proof (cases "foldR (\<lambda>bs static. copy_rows static (replicate bs x)) (butlast ?s) static")
    case (Inr t)
    then show ?thesis using len [OF Inr] gt by (simp add: foldR_append copy_rows_def)
  qed (simp add: foldR_append)
  then show ?thesis using s(2) assms(1)
    by (simp add: capture_experts_def expert_graph_batch_sizes_def)
qed

section \<open>Running attention through a captured graph\<close>

text \<open>
  One set of buffers per batch: rows, positions, request ids, slots, lengths, prefix sums and
  block tables. The static buffers have the same form, with one row per token of the largest
  graph. The operator reads the request ids for profile-driven routing only, so a token carries
  its id when \<open>profile\<close> is set.
\<close>

record 'h attn_bufs =
  ax_hidden :: "'h list"
  ax_positions :: "int list"
  ax_reqs :: "nat list"
  ax_slots :: "int list"
  ax_seq_lens :: "int list"
  ax_context_lens :: "int list"
  ax_start_loc :: "int list"
  ax_tables :: "int list list"

type_synonym 'h attn_token = "'h \<times> int \<times> nat option \<times> int \<times> int \<times> int \<times> int list"

definition token_at :: "bool \<Rightarrow> 'h attn_bufs \<Rightarrow> nat \<Rightarrow> 'h attn_token" where
  "token_at profile b i = (ax_hidden b ! i, ax_positions b ! i,
     (if profile then Some (ax_reqs b ! i) else None), ax_slots b ! i, ax_seq_lens b ! i,
     ax_context_lens b ! i, ax_tables b ! i)"

definition tokens_of :: "bool \<Rightarrow> nat \<Rightarrow> 'h attn_bufs \<Rightarrow> 'h attn_token list" where
  "tokens_of profile n b = map (token_at profile b) [0..<n]"

text \<open>
  The fused preprocessing kernel: the per-token arrays are copied and padded up to the bucket,
  the rows and the block tables are copied for the real tokens only.
\<close>

definition pad_copy :: "nat \<Rightarrow> 'a \<Rightarrow> 'a list \<Rightarrow> 'a list \<Rightarrow> 'a list" where
  "pad_copy n p xs old = map (\<lambda>i. if i < length xs then xs ! i else p) [0..<n] @ drop n old"

definition cuda_graph_preprocess :: "nat \<Rightarrow> 'h attn_bufs \<Rightarrow> 'h attn_bufs \<Rightarrow> 'h attn_bufs" where
  "cuda_graph_preprocess bucket inp st =
     (let T = length (ax_hidden inp)
      in st\<lparr>ax_hidden := ax_hidden inp @ drop T (ax_hidden st),
            ax_positions := pad_copy bucket 0 (ax_positions inp) (ax_positions st),
            ax_slots := pad_copy bucket (-1) (ax_slots inp) (ax_slots st),
            ax_seq_lens := pad_copy bucket 0 (ax_seq_lens inp) (ax_seq_lens st),
            ax_context_lens := pad_copy bucket 0 (ax_context_lens inp) (ax_context_lens st),
            ax_start_loc := pad_copy (bucket + 1) 0 (ax_start_loc inp) (ax_start_loc st),
            ax_tables := map (\<lambda>i. let src = ax_tables inp ! i
                                  in src @ drop (length src) (ax_tables st ! i)) [0..<T]
                         @ drop T (ax_tables st)\<rparr>)"

text \<open>
  With profile gating the request ids are copied to the static ones, for the real tokens only:
  \<open>static[:n].copy_(ids)\<close>, which repeats a single id and otherwise raises when the lengths differ.
\<close>

definition copy_request_ids :: "bool \<Rightarrow> nat \<Rightarrow> nat list \<Rightarrow> 'h attn_bufs \<Rightarrow> 'h attn_bufs result" where
  "copy_request_ids profile n ids st =
     (let d = min n (length (ax_reqs st))
      in if \<not> profile then Inr st
         else if length ids = d then Inr (st\<lparr>ax_reqs := ids @ drop d (ax_reqs st)\<rparr>)
         else if length ids = 1 then Inr (st\<lparr>ax_reqs := replicate d (hd ids) @ drop d (ax_reqs st)\<rparr>)
         else Inl RuntimeError)"

text \<open>
  The graphs of one executor: the sizes, for each list position the layer that was captured
  there, the layers whose outputs were appended, the static buffers, and the output memory of
  each captured graph.
\<close>

record ('h, 'o) attn_graphs =
  gx_sizes :: "nat list"
  gx_graphs :: "nat option list"
  gx_outputs :: "nat list"
  gx_static :: "'h attn_bufs"
  gx_memory :: "nat \<times> nat \<Rightarrow> 'o list"

definition capture_layers :: "nat list \<Rightarrow> (nat option list \<times> nat list) result" where
  "capture_layers ids =
     foldR (\<lambda>id (gs, outs). bindR (py_get gs (int id)) (\<lambda>_.
              bindR (py_set gs (int id) (Some id)) (\<lambda>gs. Inr (gs, outs @ [id]))))
       ids (replicate (length ids) None, [])"

type_synonym ('h, 'o) attn_op = "nat \<Rightarrow> 'h attn_token list \<Rightarrow> 'o list"

definition execute_eager ::
  "bool \<Rightarrow> ('h, 'o) attn_op \<Rightarrow> nat list \<Rightarrow> nat \<Rightarrow> 'h attn_bufs \<Rightarrow> 'o list result" where
  "execute_eager profile op maps layer inp =
     bindR (py_get maps (int layer)) (\<lambda>vid.
       Inr (op vid (tokens_of profile (length (ax_hidden inp)) inp)))"

definition graph_run ::
  "bool \<Rightarrow> ('h, 'o) attn_op \<Rightarrow> nat list \<Rightarrow> nat \<Rightarrow> 'h attn_bufs \<Rightarrow> ('h, 'o) attn_graphs \<Rightarrow>
   ('o list \<times> ('h, 'o) attn_graphs) result" where
  "graph_run profile op maps layer inp g =
     bindR (get_bucket_by_num_tokens (gx_sizes g) (length (ax_hidden inp))) (\<lambda>bucket.
     bindR (copy_request_ids profile (length (ax_hidden inp)) (ax_reqs inp)
              (cuda_graph_preprocess bucket inp (gx_static g))) (\<lambda>st.
        bindR (py_get (gx_graphs g) (int layer)) (\<lambda>gl.
        bindR (not_None RuntimeError gl) (\<lambda>captured.
        bindR (py_get maps (int captured)) (\<lambda>vid.
        let mem = (gx_memory g)((bucket, captured) := op vid (tokens_of profile bucket st))
        in bindR (py_get (gx_outputs g) (int layer)) (\<lambda>out.
             Inr (take (length (ax_hidden inp)) (mem (bucket, out)),
                  g\<lparr>gx_static := st, gx_memory := mem\<rparr>)))))))"

text \<open>\<open>execute\<close> takes the graph when graphs are enabled and the batch is small enough.\<close>

definition attn_execute ::
  "bool \<Rightarrow> nat \<Rightarrow> nat \<Rightarrow> bool \<Rightarrow> ('h, 'o) attn_op \<Rightarrow> nat list \<Rightarrow> nat \<Rightarrow> 'h attn_bufs \<Rightarrow>
   ('h, 'o) attn_graphs \<Rightarrow> ('o list \<times> ('h, 'o) attn_graphs) result" where
  "attn_execute enable max_graph_bsz num_decode profile op maps layer inp g =
     (if enable \<and> num_decode \<le> max_graph_bsz then graph_run profile op maps layer inp g
      else bindR (execute_eager profile op maps layer inp) (\<lambda>out. Inr (out, g)))"

text \<open>All layers from 0 on: each graph is where its layer looks for it.\<close>

lemma capture_layers_contiguous:
  "capture_layers [0..<n] = Inr (map Some [0..<n], [0..<n])"
proof -
  have "k \<le> n \<Longrightarrow> foldR (\<lambda>id (gs, outs). bindR (py_get gs (int id)) (\<lambda>_.
              bindR (py_set gs (int id) (Some id)) (\<lambda>gs. Inr (gs, outs @ [id]))))
       [0..<k] (replicate n None, [])
     = Inr (map (\<lambda>i. if i < k then Some i else None) [0..<n], [0..<k])" for k
  proof (induction k)
    case 0
    then show ?case by (simp add: map_replicate_trivial)
  next
    case (Suc k)
    have "(map (\<lambda>i. if i < k then Some i else None) [0..<n])[k := Some k]
        = map (\<lambda>i. if i < Suc k then Some i else None) [0..<n]"
      using Suc.prems by (intro nth_equalityI) (simp_all add: nth_list_update less_Suc_eq)
    then show ?case using Suc by (simp add: foldR_append)
  qed
  from this [of n] show ?thesis by (simp add: capture_layers_def cong: map_cong)
qed

text \<open>A worker whose layers do not start at 0 cannot capture: the raw id is out of range.\<close>

lemma capture_layers_offset: "capture_layers [2, 3] = Inl IndexError"
  by code_simp

text \<open>Buffers for \<open>n\<close> tokens.\<close>

definition bufs_for :: "nat \<Rightarrow> 'h attn_bufs \<Rightarrow> bool" where
  "bufs_for n b \<longleftrightarrow> length (ax_hidden b) = n \<and> length (ax_positions b) = n \<and>
     length (ax_reqs b) = n \<and> length (ax_slots b) = n \<and> length (ax_seq_lens b) = n \<and> length (ax_context_lens b) = n \<and>
     length (ax_start_loc b) = Suc n \<and> length (ax_tables b) = n"

text \<open>A padding token writes no slot and has no context; a token reads the blocks of its length.\<close>

definition inert :: "'h attn_token \<Rightarrow> bool" where
  "inert t = (case t of (h, p, q, slot, len, c, row) \<Rightarrow> slot = -1 \<and> len = 0)"

definition blocks_read :: "int \<Rightarrow> int \<Rightarrow> nat" where
  "blocks_read bs len = nat (ceil_div len bs)"

definition trim_table :: "int \<Rightarrow> 'h attn_token \<Rightarrow> 'h attn_token" where
  "trim_table bs t = (case t of (h, p, q, slot, len, c, row) \<Rightarrow>
     (h, p, q, slot, len, c, take (blocks_read bs len) row))"

lemma pad_copy_nth:
  "i < n \<Longrightarrow> pad_copy n p xs old ! i = (if i < length xs then xs ! i else p)"
  by (simp add: pad_copy_def nth_append)

lemma preprocess_tokens:
  assumes inp: "bufs_for T inp" and st: "bufs_for mx st" and b: "T \<le> b" "b \<le> mx"
    and width: "\<forall>i < T. blocks_read bs (ax_seq_lens inp ! i) \<le> length (ax_tables inp ! i)"
    and "copy_request_ids profile T (ax_reqs inp) (cuda_graph_preprocess b inp st) = Inr st'"
  shows "\<exists>xs ps. tokens_of profile b st' = xs @ ps \<and> length xs = T \<and>
    list_all inert ps \<and> map (trim_table bs) xs = map (trim_table bs) (tokens_of profile T inp)"
proof -
  let ?st = st'
  let ?tok = "token_at profile ?st"
  have st': "?st = (cuda_graph_preprocess b inp st)\<lparr>ax_reqs :=
      if profile then ax_reqs inp @ drop T (ax_reqs st) else ax_reqs st\<rparr>"
    using assms(6) inp st b
    by (auto simp: copy_request_ids_def cuda_graph_preprocess_def bufs_for_def Let_def split: if_splits)
  note i = inp [unfolded bufs_for_def]
  have "tokens_of profile b ?st = map ?tok [0..<T] @ map ?tok [T..<b]"
    using upt_add_eq_append [of 0 T "b - T"] b(1) by (simp add: tokens_of_def)
  moreover have "list_all inert (map ?tok [T..<b])"
    using i by (simp add: list_all_iff inert_def token_at_def st' cuda_graph_preprocess_def Let_def
        pad_copy_nth)
  moreover have "map (trim_table bs) (map ?tok [0..<T]) = map (trim_table bs) (tokens_of profile T inp)"
  proof (rule nth_equalityI)
    fix k assume "k < length (map (trim_table bs) (map ?tok [0..<T]))"
    then have k: "k < T" by simp
    then have "take (blocks_read bs (ax_seq_lens inp ! k)) (ax_tables ?st ! k)
        = take (blocks_read bs (ax_seq_lens inp ! k)) (ax_tables inp ! k)"
      using i width by (simp add: st' cuda_graph_preprocess_def Let_def nth_append)
    moreover have "ax_hidden ?st ! k = ax_hidden inp ! k" "ax_positions ?st ! k = ax_positions inp ! k"
      "ax_slots ?st ! k = ax_slots inp ! k" "ax_seq_lens ?st ! k = ax_seq_lens inp ! k"
      "ax_context_lens ?st ! k = ax_context_lens inp ! k" "profile \<Longrightarrow> ax_reqs ?st ! k = ax_reqs inp ! k"
      using i k b by (simp_all add: st' cuda_graph_preprocess_def Let_def nth_append pad_copy_nth)
    ultimately show "map (trim_table bs) (map ?tok [0..<T]) ! k
        = map (trim_table bs) (tokens_of profile T inp) ! k"
      using k by (simp add: tokens_of_def token_at_def trim_table_def)
  qed (simp add: tokens_of_def)
  ultimately show ?thesis by (intro exI [of _ "map ?tok [0..<T]"] exI [of _ "map ?tok [T..<b]"]) simp
qed

definition captured :: "nat \<Rightarrow> nat \<Rightarrow> ('h, 'o) attn_graphs \<Rightarrow> bool" where
  "captured n mx g \<longleftrightarrow> attn_graph_batch_sizes mx = Inr (gx_sizes g) \<and>
     capture_layers [0..<n] = Inr (gx_graphs g, gx_outputs g) \<and> bufs_for mx (gx_static g)"

text \<open>
  C12: For a worker whose layers are 0 to n - 1, with graphs captured up to \<open>mx\<close> tokens, running
  a batch through the padded graph of its bucket gives the outputs of the eager operator, with
  or without profile-driven routing by request id, whatever earlier batches left in the static
  buffers. The hypotheses on the operator: padding
  tokens (slot -1, length 0) do not influence the others, and a block table is read up to the
  token's length only.
\<close>

theorem graph_refines_eager:
  assumes pad: "\<And>l ts ps. list_all inert ps \<Longrightarrow> take (length ts) (op l (ts @ ps)) = op l ts"
    and cols: "\<And>l ts. op l (map (trim_table bs) ts) = op l ts"
    and g: "captured n mx g" and mx: "1 \<le> mx" "mx \<le> 1024" and maps: "layer_mappings [0..<n] = Inr maps"
    and layer: "layer < n" and inp: "bufs_for T inp" and T: "T \<le> mx"
    and width: "\<forall>i < T. blocks_read bs (ax_seq_lens inp ! i) \<le> length (ax_tables inp ! i)"
  shows "\<exists>out g'. execute_eager profile op maps layer inp = Inr out \<and>
    graph_run profile op maps layer inp g = Inr (out, g') \<and> captured n mx g'"
proof -
  have sizes: "attn_graph_batch_sizes mx = Inr (gx_sizes g)" and st: "bufs_for mx (gx_static g)"
    and gl: "gx_graphs g = map Some [0..<n]" and go: "gx_outputs g = [0..<n]"
    using g unfolding captured_def capture_layers_contiguous by auto
  obtain b where b: "get_bucket_by_num_tokens (gx_sizes g) T = Inr b" "T \<le> b" "b \<le> mx"
    using attn_buckets_exact [OF mx] sizes T by force
  have "\<exists>m. layer_mappings [0..<n] = Inr m \<and> length m = Max (set [0..<n]) + 1 \<and>
      (\<forall>i < length [0..<n]. m ! ([0..<n] ! i) = i)"
    by (rule layer_mappings_inverse) (use layer in simp_all)
  then have lm: "length maps = Max (set [0..<n]) + 1" "maps ! layer = layer"
    using maps layer by auto
  have "layer \<le> Max (set [0..<n])" using layer by (intro Max_ge) simp_all
  then have vid: "py_get maps (int layer) = Inr layer" using lm by simp
  let ?pre = "cuda_graph_preprocess b inp (gx_static g)"
  obtain st' where st': "copy_request_ids profile T (ax_reqs inp) ?pre = Inr st'"
      "st' = ?pre\<lparr>ax_reqs := ax_reqs st'\<rparr>" "length (ax_reqs st') = mx"
    using inp st T by (cases profile)
      (auto simp: copy_request_ids_def cuda_graph_preprocess_def bufs_for_def Let_def)
  obtain xs ps where x: "tokens_of profile b st' = xs @ ps"
      "length xs = T" "list_all inert ps" "map (trim_table bs) xs = map (trim_table bs) (tokens_of profile T inp)"
    using preprocess_tokens [OF inp st b(2,3) width st'(1)] by blast
  have "take T (op layer (xs @ ps)) = op layer xs" using pad [OF x(3), of xs layer] x(2) by simp
  also have "\<dots> = op layer (tokens_of profile T inp)"
    using cols [of layer xs] cols [of layer "tokens_of profile T inp"] x(4) by simp
  finally have out: "take T (op layer (xs @ ps)) = op layer (tokens_of profile T inp)" .
  have lT: "length (ax_hidden inp) = T" using inp by (simp add: bufs_for_def)
  have "bufs_for mx st'"
    by (subst st'(2)) (use inp st b(2,3) st'(3) in
      \<open>simp add: bufs_for_def cuda_graph_preprocess_def Let_def pad_copy_def\<close>)
  then have "captured n mx (g\<lparr>gx_static := st', gx_memory := (gx_memory g)((b, layer) := op layer (xs @ ps))\<rparr>)"
    using g by (simp add: captured_def)
  moreover have "graph_run profile op maps layer inp g = Inr (op layer (tokens_of profile T inp),
      g\<lparr>gx_static := st', gx_memory := (gx_memory g)((b, layer) := op layer (xs @ ps))\<rparr>)"
    using layer by (simp add: graph_run_def lT b(1) st'(1) gl go vid x(1) out Let_def)
  ultimately show ?thesis using vid by (simp add: execute_eager_def lT)
qed

text \<open>An example: two layers, graphs up to 9 tokens, dirty static buffers, three tokens.\<close>

definition demo_static :: "int attn_bufs" where
  "demo_static = \<lparr>ax_hidden = replicate 9 77, ax_positions = replicate 9 5, ax_reqs = replicate 9 4, ax_slots = replicate 9 6,
     ax_seq_lens = replicate 9 7, ax_context_lens = replicate 9 8, ax_start_loc = replicate 10 9,
     ax_tables = replicate 9 [1, 2, 3, 4]\<rparr>"

definition demo_input :: "int attn_bufs" where
  "demo_input = \<lparr>ax_hidden = [10, 20, 30], ax_positions = [3, 4, 1], ax_reqs = [7, 8, 9], ax_slots = [11, 12, 13],
     ax_seq_lens = [3, 4, 1], ax_context_lens = [2, 3, 0], ax_start_loc = [0, 3, 7, 8],
     ax_tables = [[5, 6], [7, 8], [9, -1]]\<rparr>"

definition demo_graphs :: "(int, int) attn_graphs" where
  "demo_graphs = \<lparr>gx_sizes = [1, 8, 9], gx_graphs = [Some 0, Some 1], gx_outputs = [0, 1],
     gx_static = demo_static, gx_memory = (\<lambda>_. [])\<rparr>"

text \<open>An operator that reads the row, the request and the blocks of each token's length.\<close>

definition demo_op :: "(int, int) attn_op" where
  "demo_op l ts = map (\<lambda>(h, p, q, slot, len, c, row).
     h + int l + (case q of None \<Rightarrow> 0 | Some q \<Rightarrow> 100 * int q) +
     1000 * sum_list (take (blocks_read 2 len) row)) ts"

theorem graph_refines_eager_witness:
  "\<exists>out g'. execute_eager True demo_op [0, 1] 1 demo_input = Inr out \<and>
     graph_run True demo_op [0, 1] 1 demo_input demo_graphs = Inr (out, g')"
proof -
  have pad: "take (length ts) (demo_op l (ts @ ps)) = demo_op l ts" for l ts ps
    by (simp add: demo_op_def)
  have cols: "demo_op l (map (trim_table 2) ts) = demo_op l ts" for l ts
    by (simp add: demo_op_def trim_table_def case_prod_beta comp_def)
  have sizes: "attn_graph_batch_sizes 9 = Inr [1, 8, 9]" by code_simp
  have capt: "capture_layers [0..<2] = Inr ([Some 0, Some 1], [0, 1])" by code_simp
  have g: "captured 2 9 demo_graphs"
    using sizes capt by (simp add: captured_def demo_graphs_def bufs_for_def demo_static_def)
  have maps: "layer_mappings [0..<2] = Inr [0, 1]" by code_simp
  have inp: "bufs_for 3 demo_input" by (simp add: bufs_for_def demo_input_def)
  have width: "\<forall>i < 3. blocks_read 2 (ax_seq_lens demo_input ! i) \<le> length (ax_tables demo_input ! i)"
    by (simp add: demo_input_def blocks_read_def ceil_div_def less_Suc_eq numeral_eq_Suc)
  show ?thesis
    using graph_refines_eager [where profile = True and op = demo_op and layer = 1, OF pad cols g _ _ maps _ inp _ width]
    by auto
qed

section \<open>The profiler\<close>

record profiler =
  pf_min_batch :: nat
  pf_num_steps :: nat
  pf_in_progress :: bool
  pf_count :: nat
  pf_active :: bool

definition init_profile :: "nat \<Rightarrow> nat \<Rightarrow> profiler \<Rightarrow> profiler" where
  "init_profile min_batch num_steps p =
     p\<lparr>pf_min_batch := min_batch, pf_num_steps := num_steps, pf_in_progress := False,
       pf_count := 0\<rparr>"

definition start_profile :: "profiler \<Rightarrow> profiler" where
  "start_profile p = p\<lparr>pf_active := True, pf_in_progress := True\<rparr>"

text \<open>Errors of the stop are swallowed; without a profiler nothing happens.\<close>

definition stop_profile :: "profiler \<Rightarrow> profiler" where
  "stop_profile p =
     (if pf_active p then p\<lparr>pf_active := False, pf_in_progress := False, pf_num_steps := 0\<rparr> else p)"

definition step_profile :: "nat \<Rightarrow> profiler \<Rightarrow> profiler" where
  "step_profile batch_size p =
     (if \<not> pf_in_progress p then
        (if pf_num_steps p > 0 \<and> batch_size \<ge> pf_min_batch p then start_profile p else p)
      else let p = p\<lparr>pf_count := pf_count p + 1\<rparr>
           in if pf_count p \<ge> pf_num_steps p then stop_profile p else p)"

lemma profile_running:
  assumes "pf_in_progress p" and "pf_active p" and "pf_count p + length bs < pf_num_steps p"
  shows "fold step_profile bs p = p\<lparr>pf_count := pf_count p + length bs\<rparr>"
  using assms
proof (induction bs arbitrary: p)
  case (Cons b bs)
  then show ?case by (simp add: step_profile_def)
qed simp

text \<open>
  After \<open>init_profile\<close> with n > 0 steps, batches below the minimum size start nothing; the
  first one that reaches it starts the profiler, which is still running after every number of
  further steps below n, and stops at the n-th; no later batch starts it again.
\<close>

theorem profiler_runs_n_steps:
  assumes n: "0 < n" and small: "list_all (\<lambda>x. x < m) pre" and first: "m \<le> b"
    and len: "length bs = n" and k: "k < n"
  shows "\<not> pf_in_progress (fold step_profile pre (init_profile m n p)) \<and>
    pf_in_progress (fold step_profile (pre @ b # take k bs) (init_profile m n p)) \<and>
    \<not> pf_in_progress (fold step_profile (pre @ b # bs @ post) (init_profile m n p))"
proof -
  let ?p = "init_profile m n p"
  have pre: "fold step_profile pre ?p = ?p"
    using small by (induction pre) (simp_all add: step_profile_def init_profile_def)
  let ?q = "start_profile ?p"
  have start: "step_profile b ?p = ?q" using n first by (simp add: step_profile_def init_profile_def)
  have q: "pf_in_progress ?q" "pf_active ?q" "pf_count ?q = 0" "pf_num_steps ?q = n"
    by (simp_all add: start_profile_def init_profile_def)
  have running: "fold step_profile (take k bs) ?q = ?q\<lparr>pf_count := k\<rparr>"
    using profile_running [of ?q "take k bs"] q k len by simp
  obtain cs c where bs: "bs = cs @ [c]" using len n by (cases bs rule: rev_cases) simp_all
  have "fold step_profile cs ?q = ?q\<lparr>pf_count := length cs\<rparr>"
    using profile_running [of ?q cs] q len bs by simp
  then have stopped: "fold step_profile bs ?q = ?q\<lparr>pf_count := n, pf_active := False,
      pf_in_progress := False, pf_num_steps := 0\<rparr>"
    using q len bs by (simp add: step_profile_def stop_profile_def)
  have rest: "\<not> pf_in_progress r \<Longrightarrow> pf_num_steps r = 0 \<Longrightarrow> fold step_profile xs r = r" for xs r
    by (induction xs) (simp_all add: step_profile_def)
  show ?thesis using pre start running stopped q
    by (simp add: init_profile_def rest)
qed

theorem profiler_runs_n_steps_witness:
  "pf_in_progress (fold step_profile ([3] @ 8 # take 1 [1, 9])
     (init_profile 5 2 \<lparr>pf_min_batch = 0, pf_num_steps = 0, pf_in_progress = False,
        pf_count = 0, pf_active = False\<rparr>))"
  using profiler_runs_n_steps [where n = 2 and m = 5 and pre = "[3]" and b = 8 and bs = "[1, 9]"
      and k = 1 and post = "[]"]
  by simp

end
