(* ===== verification/Sampler.thy ===== *)
theory Sampler
  imports Batches
begin

text \<open>
  The model of \<open>DummySampler\<close> in \<open>disagmoe/frontend/engine.py\<close>: it counts the tokens of each
  request and ends a request when its maximal output length is reached. The two dictionaries
  are maps; nothing iterates over them.
\<close>

record sampler =
  sm_max_output_len :: "nat \<Rightarrow> int option"
  sm_output_len :: "nat \<Rightarrow> int option"

definition sampler_init :: sampler where
  "sampler_init = \<lparr>sm_max_output_len = Map.empty, sm_output_len = Map.empty\<rparr>"

definition create_request :: "nat \<Rightarrow> int \<Rightarrow> sampler \<Rightarrow> sampler" where
  "create_request q n s =
     s\<lparr>sm_max_output_len := (sm_max_output_len s)(q \<mapsto> n),
       sm_output_len := (sm_output_len s)(q \<mapsto> 0)\<rparr>"

definition clean_request :: "nat \<Rightarrow> sampler \<Rightarrow> sampler" where
  "clean_request q s =
     s\<lparr>sm_max_output_len := (sm_max_output_len s)(q := None),
       sm_output_len := (sm_output_len s)(q := None)\<rparr>"

definition check_end :: "nat \<Rightarrow> sampler \<Rightarrow> bool result" where
  "check_end q s =
     bindR (lookupR (sm_output_len s) q) (\<lambda>n.
     bindR (lookupR (sm_max_output_len s) q) (\<lambda>m. Inr (n \<ge> m)))"

definition sample_token ::
  "nat \<times> nat \<Rightarrow> nat list \<times> nat list \<times> sampler \<Rightarrow> (nat list \<times> nat list \<times> sampler) result" where
  "sample_token = (\<lambda>(i, q) (cont, fin, s).
     bindR (assertR (sm_output_len s q \<noteq> None)) (\<lambda>_.
     bindR (lookupR (sm_output_len s) q) (\<lambda>n.
     let s = s\<lparr>sm_output_len := (sm_output_len s)(q \<mapsto> n + 1)\<rparr>
     in bindR (check_end q s) (\<lambda>ended.
          Inr (if ended then (cont, fin @ [q], clean_request q s) else (cont @ [i], fin, s))))))"

definition sample_once :: "nat list \<Rightarrow> sampler \<Rightarrow> (nat list \<times> nat list \<times> sampler) result" where
  "sample_once qs s = foldR sample_token (enumerate 0 qs) ([], [], s)"

section \<open>One sampling step\<close>

text \<open>Both dictionaries have the same keys.\<close>

definition sampler_ok :: "sampler \<Rightarrow> bool" where
  "sampler_ok s \<longleftrightarrow> dom (sm_output_len s) = dom (sm_max_output_len s)"

text \<open>What is left to sample for a request; it is counted down and never below one.\<close>

definition tokens_left :: "sampler \<Rightarrow> nat \<Rightarrow> nat option" where
  "tokens_left s q =
     (case (sm_output_len s q, sm_max_output_len s q) of
        (Some n, Some m) \<Rightarrow> Some (max 1 (nat (m - n)))
      | _ \<Rightarrow> None)"

lemma sampler_init_ok: "sampler_ok sampler_init"
  by (simp add: sampler_ok_def sampler_init_def)

lemma create_request_ok: "sampler_ok s \<Longrightarrow> sampler_ok (create_request q n s)"
  by (simp add: sampler_ok_def create_request_def)

lemma clean_request_ok: "sampler_ok s \<Longrightarrow> sampler_ok (clean_request q s)"
  by (simp add: sampler_ok_def clean_request_def)

lemma create_request_left:
  "tokens_left (create_request q n s) = (tokens_left s)(q \<mapsto> max 1 (nat n))"
  by (rule ext) (simp add: tokens_left_def create_request_def)

lemma tokens_left_dom: "sampler_ok s \<Longrightarrow> tokens_left s q = None \<longleftrightarrow> sm_output_len s q = None"
proof -
  assume "sampler_ok s"
  then have "sm_output_len s q = None \<longleftrightarrow> sm_max_output_len s q = None"
    unfolding sampler_ok_def by (metis domIff)
  then show ?thesis by (auto simp: tokens_left_def split: option.splits)
qed

text \<open>One token: the request goes on while more than one is left.\<close>

lemma sample_token_known:
  assumes ok: "sampler_ok s" and k: "tokens_left s q = Some k"
  shows "\<exists>s'. sample_token (i, q) (cont, fin, s) =
      Inr (if 1 < k then (cont @ [i], fin, s') else (cont, fin @ [q], s')) \<and> sampler_ok s' \<and>
      tokens_left s' = (tokens_left s)(q := (if 1 < k then Some (k - 1) else None))"
proof -
  obtain n m where nm: "sm_output_len s q = Some n" "sm_max_output_len s q = Some m"
    and kk: "k = max 1 (nat (m - n))"
    using k by (auto simp: tokens_left_def split: option.splits)
  let ?s = "s\<lparr>sm_output_len := (sm_output_len s)(q \<mapsto> n + 1)\<rparr>"
  have ok': "sampler_ok ?s" using ok nm by (auto simp: sampler_ok_def)
  show ?thesis
  proof (cases "n + 1 \<ge> m")
    case True
    then have "\<not> 1 < k" using kk by simp
    moreover have "tokens_left (clean_request q ?s) = (tokens_left s)(q := None)"
      by (rule ext) (simp add: tokens_left_def clean_request_def)
    ultimately show ?thesis
      using True nm clean_request_ok [OF ok']
      by (intro exI [of _ "clean_request q ?s"]) (simp add: sample_token_def check_end_def)
  next
    case False
    then have "1 < k" using kk by simp
    moreover have "max 1 (nat (m - (n + 1))) = k - 1" using False kk by linarith
    then have "tokens_left ?s = (tokens_left s)(q \<mapsto> k - 1)"
      using nm by (intro ext) (simp add: tokens_left_def)
    ultimately show ?thesis using False nm ok'
      by (intro exI [of _ ?s]) (simp add: sample_token_def check_end_def)
  qed
qed

lemma sample_token_unknown:
  "sm_output_len s q = None \<Longrightarrow> sample_token (i, q) (cont, fin, s) = Inl AssertionError"
  by (simp add: sample_token_def)

text \<open>The continued positions and the finished requests of a batch of distinct requests.\<close>

definition goes_on :: "sampler \<Rightarrow> nat \<Rightarrow> bool" where
  "goes_on s q \<longleftrightarrow> (case tokens_left s q of Some k \<Rightarrow> 1 < k | None \<Rightarrow> False)"

definition after_sampling :: "sampler \<Rightarrow> nat list \<Rightarrow> nat \<Rightarrow> nat option" where
  "after_sampling s qs q =
     (if q \<in> set qs then (if goes_on s q then map_option (\<lambda>k. k - 1) (tokens_left s q) else None)
      else tokens_left s q)"

lemma enumerate_indices: "enumerate 0 xs = map (\<lambda>i. (i, xs ! i)) [0..<length xs]"
  by (rule nth_equalityI) (simp_all add: nth_enumerate_eq)

lemma count_list_filter_distinct:
  "distinct xs \<Longrightarrow> count_list (filter P xs) x = (if x \<in> set xs \<and> P x then 1 else 0)"
  by (induction xs) (auto simp: count_list_0_iff)

lemma sample_loop:
  assumes "sampler_ok s" and "distinct qs" and "\<forall>q \<in> set qs. tokens_left s q \<noteq> None"
  shows "\<exists>s'. foldR sample_token (enumerate i qs) (cont, fin, s) =
      Inr (cont @ map fst (filter (goes_on s \<circ> snd) (enumerate i qs)),
           fin @ filter (\<lambda>q. \<not> goes_on s q) qs, s') \<and>
      sampler_ok s' \<and> tokens_left s' = after_sampling s qs"
  using assms
proof (induction qs arbitrary: i cont fin s)
  case Nil
  then show ?case by (auto simp: after_sampling_def fun_eq_iff)
next
  case (Cons q qs)
  obtain k where k: "tokens_left s q = Some k" using Cons.prems(3) by auto
  define c' f' where "c' = (if 1 < k then cont @ [i] else cont)" and
    "f' = (if 1 < k then fin else fin @ [q])"
  obtain s1 where s1: "sample_token (i, q) (cont, fin, s) = Inr (c', f', s1)" "sampler_ok s1"
      and left: "tokens_left s1 = (tokens_left s)(q := (if 1 < k then Some (k - 1) else None))"
    using sample_token_known [OF Cons.prems(1) k, of i cont fin] by (auto simp: c'_def f'_def)
  have g: "goes_on s1 x \<longleftrightarrow> goes_on s x" if "x \<in> set qs" for x
    using that Cons.prems(2) by (auto simp: goes_on_def left)
  have gq: "goes_on s q \<longleftrightarrow> 1 < k" by (simp add: goes_on_def k)
  have "\<forall>x \<in> set qs. tokens_left s1 x \<noteq> None" using Cons.prems(2,3) left by auto
  moreover have "distinct qs" using Cons.prems(2) by simp
  ultimately obtain s2 where
    s2: "foldR sample_token (enumerate (Suc i) qs) (c', f', s1) =
      Inr (c' @ map fst (filter (goes_on s1 \<circ> snd) (enumerate (Suc i) qs)),
           f' @ filter (\<lambda>q. \<not> goes_on s1 q) qs, s2)"
      "sampler_ok s2" "tokens_left s2 = after_sampling s1 qs"
    using Cons.IH [OF s1(2), of "Suc i" c' f'] by blast
  have f1: "filter (goes_on s1 \<circ> snd) (enumerate (Suc i) qs)
      = filter (goes_on s \<circ> snd) (enumerate (Suc i) qs)"
  proof (rule filter_cong [OF refl])
    fix p assume "p \<in> set (enumerate (Suc i) qs)"
    then have "snd p \<in> set qs" unfolding enumerate_eq_zip by (metis prod.collapse set_zip_rightD)
    then show "(goes_on s1 \<circ> snd) p \<longleftrightarrow> (goes_on s \<circ> snd) p" using g by simp
  qed
  have f2: "filter (\<lambda>q. \<not> goes_on s1 q) qs = filter (\<lambda>q. \<not> goes_on s q) qs"
    by (rule filter_cong [OF refl]) (simp add: g)
  have a: "after_sampling s1 qs = after_sampling s (q # qs)"
  proof
    fix x show "after_sampling s1 qs x = after_sampling s (q # qs) x"
    proof (cases "x = q")
      case True
      then show ?thesis using Cons.prems(2) gq by (simp add: after_sampling_def left k)
    next
      case False
      then show ?thesis using g [of x] by (simp add: after_sampling_def left)
    qed
  qed
  have "foldR sample_token (enumerate i (q # qs)) (cont, fin, s)
      = Inr (c' @ map fst (filter (goes_on s \<circ> snd) (enumerate (Suc i) qs)),
             f' @ filter (\<lambda>q. \<not> goes_on s q) qs, s2)"
    using s1(1) s2(1) by (simp add: f1 f2 del: comp_apply)
  then show ?case using s2(2,3) a gq by (simp add: c'_def f'_def comp_def)
qed

lemma sample_once_known:
  assumes "sampler_ok s" and "distinct qs" and "\<forall>q \<in> set qs. tokens_left s q \<noteq> None"
  shows "\<exists>s'. sample_once qs s =
    Inr (filter (\<lambda>i. goes_on s (qs ! i)) [0..<length qs], filter (\<lambda>q. \<not> goes_on s q) qs, s') \<and>
    sampler_ok s' \<and> tokens_left s' = after_sampling s qs"
proof -
  have "map fst (filter (goes_on s \<circ> snd) (enumerate 0 qs)) = filter (\<lambda>i. goes_on s (qs ! i)) [0..<length qs]"
    by (simp add: enumerate_indices filter_map comp_def)
  then show ?thesis
    using sample_loop [OF assms, of 0 "[]" "[]"] by (simp add: sample_once_def)
qed

lemma sample_once_unknown:
  assumes ok: "sampler_ok s" and d: "distinct qs" and u: "\<not> (\<forall>q \<in> set qs. tokens_left s q \<noteq> None)"
  shows "sample_once qs s = Inl AssertionError"
proof -
  obtain xs q ys where q: "qs = xs @ q # ys" "tokens_left s q = None"
      "\<forall>x \<in> set xs. tokens_left s x \<noteq> None"
    using u split_list_first_prop [of qs "\<lambda>q. tokens_left s q = None"] by auto
  obtain cont fin s' where s': "foldR sample_token (enumerate 0 xs) ([], [], s) = Inr (cont, fin, s')"
      "sampler_ok s'" "tokens_left s' = after_sampling s xs"
    using sample_loop [OF ok _ q(3), of 0 "[]" "[]"] d q(1) by auto
  have "tokens_left s' q = None" using s'(3) d q by (simp add: after_sampling_def)
  then have "sm_output_len s' q = None" using tokens_left_dom [OF s'(2)] by simp
  then show ?thesis
    unfolding sample_once_def q(1) enumerate_append_eq
    by (simp add: foldR_append s'(1) sample_token_unknown)
qed

text \<open>
  Sampling a batch of distinct known requests succeeds. The continued positions are, in
  order, those of the requests with more than one token left; the finished requests are the
  others, in batch order; every sampled request has one token less left and a finished one is
  gone; requests outside the batch are untouched. An unknown request in the batch raises.
\<close>

theorem sample_once_partition:
  assumes ok: "sampler_ok s" and d: "distinct qs"
  shows "if \<forall>q \<in> set qs. tokens_left s q \<noteq> None
    then \<exists>s'. sample_once qs s =
        Inr (filter (\<lambda>i. goes_on s (qs ! i)) [0..<length qs], filter (\<lambda>q. \<not> goes_on s q) qs, s') \<and>
        sampler_ok s' \<and> tokens_left s' = after_sampling s qs
    else sample_once qs s = Inl AssertionError"
  using sample_once_known [OF ok d] sample_once_unknown [OF ok d] by auto

definition demo_sampler :: sampler where
  "demo_sampler = create_request 8 1 (create_request 7 3 sampler_init)"

theorem sample_once_partition_witness:
  "(\<exists>s'. sample_once [7, 8] demo_sampler = Inr ([0], [8], s') \<and> tokens_left s' 7 = Some 2) \<and>
   sample_once [7, 9] demo_sampler = Inl AssertionError"
proof
  have ok: "sampler_ok demo_sampler"
    by (simp add: demo_sampler_def create_request_ok sampler_init_ok)
  have l: "tokens_left demo_sampler 7 = Some 3" "tokens_left demo_sampler 8 = Some 1"
    "tokens_left demo_sampler 9 = None" by code_simp+
  show "\<exists>s'. sample_once [7, 8] demo_sampler = Inr ([0], [8], s') \<and> tokens_left s' 7 = Some 2"
    using sample_once_partition [OF ok, of "[7, 8]"]
    by (auto simp: l goes_on_def after_sampling_def)
  show "sample_once [7, 9] demo_sampler = Inl AssertionError"
    using sample_once_partition [OF ok, of "[7, 9]"] by (simp add: l)
qed

section \<open>The life of a request\<close>

text \<open>A history of the sampler: new requests and sampled batches; the finished ids are collected.\<close>

datatype sampler_event = Create nat int | Sample "nat list"

fun apply_event :: "sampler_event \<Rightarrow> nat list \<times> sampler \<Rightarrow> (nat list \<times> sampler) result" where
  "apply_event (Create q n) (fin, s) = Inr (fin, create_request q n s)"
| "apply_event (Sample qs) (fin, s) =
     bindR (sample_once qs s) (\<lambda>(_, ended, s). Inr (fin @ ended, s))"

fun samples :: "nat \<Rightarrow> sampler_event \<Rightarrow> bool" where
  "samples q (Create r n) \<longleftrightarrow> False"
| "samples q (Sample qs) \<longleftrightarrow> q \<in> set qs"

fun recreates :: "nat \<Rightarrow> sampler_event \<Rightarrow> bool" where
  "recreates q (Create r n) \<longleftrightarrow> r = q"
| "recreates q (Sample qs) \<longleftrightarrow> False"

fun distinct_event :: "sampler_event \<Rightarrow> bool" where
  "distinct_event (Create r n) \<longleftrightarrow> True"
| "distinct_event (Sample qs) \<longleftrightarrow> distinct qs"

definition times_sampled :: "nat \<Rightarrow> sampler_event list \<Rightarrow> nat" where
  "times_sampled q es = length (filter (samples q) es)"

lemma sampler_event_step:
  assumes ok: "sampler_ok s" and d: "distinct_event e" and run: "apply_event e (fin, s) = Inr (fin', s')"
    and new: "\<not> recreates q e"
  shows "sampler_ok s' \<and>
    (if samples q e
     then \<exists>k. tokens_left s q = Some (Suc k) \<and>
       tokens_left s' q = (if k = 0 then None else Some k) \<and>
       count_list fin' q = count_list fin q + (if k = 0 then 1 else 0)
     else tokens_left s' q = tokens_left s q \<and> count_list fin' q = count_list fin q)"
proof (cases e)
  case (Create r n)
  then show ?thesis using run ok new by (auto simp: create_request_ok create_request_left)
next
  case (Sample qs)
  have dq: "distinct qs" using d Sample by simp
  have known: "\<forall>q \<in> set qs. tokens_left s q \<noteq> None"
    using sample_once_unknown [OF ok dq] run Sample by fastforce
  obtain t where t: "sample_once qs s =
      Inr (filter (\<lambda>i. goes_on s (qs ! i)) [0..<length qs], filter (\<lambda>q. \<not> goes_on s q) qs, t)"
      "sampler_ok t" "tokens_left t = after_sampling s qs"
    using sample_once_known [OF ok dq known] by blast
  have r: "fin' = fin @ filter (\<lambda>q. \<not> goes_on s q) qs" "s' = t" using run Sample t(1) by simp_all
  show ?thesis
  proof (cases "q \<in> set qs")
    case True
    then obtain j where j: "tokens_left s q = Some j" using known by blast
    then have "0 < j" by (auto simp: tokens_left_def split: option.splits)
    then obtain k where k: "j = Suc k" by (cases j) simp_all
    have c: "count_list (filter P qs) q = (if P q then 1 else 0)" for P
      using dq True by (simp add: count_list_filter_distinct)
    show ?thesis using True Sample r t j k by (simp add: c goes_on_def after_sampling_def)
  next
    case False
    then have "count_list (filter P qs) q = 0" for P by (simp add: count_list_0_iff)
    then show ?thesis using False Sample r t by (simp add: after_sampling_def)
  qed
qed

text \<open>
  C20: A request created with maximal output length n, over any later history of new requests
  and sampled batches in which it is not created again: it is sampled at most max(1, n) times;
  it is reported as finished exactly once, in the batch of its last token, and not before;
  until then the sampler knows how many of its tokens are left.
\<close>

theorem sampled_exactly_max:
  assumes "sampler_ok s" and "list_all distinct_event es" and "\<not> list_ex (recreates q) es"
    and "foldR apply_event es ([], create_request q n s) = Inr (fin, s')"
  shows "times_sampled q es \<le> max 1 (nat n) \<and>
    count_list fin q = (if times_sampled q es = max 1 (nat n) then 1 else 0) \<and>
    tokens_left s' q = (if times_sampled q es = max 1 (nat n) then None
                        else Some (max 1 (nat n) - times_sampled q es))"
proof -
  have gen: "sampler_ok s \<Longrightarrow> tokens_left s q = (if k = 0 then None else Some k) \<Longrightarrow>
      foldR apply_event es (fin0, s) = Inr (fin, s') \<Longrightarrow>
      times_sampled q es \<le> k \<and>
      count_list fin q = count_list fin0 q + (if times_sampled q es = k \<and> 0 < k then 1 else 0) \<and>
      tokens_left s' q = (if times_sampled q es = k then None else Some (k - times_sampled q es))"
    for s k fin0
    using assms(2,3)
  proof (induction es arbitrary: s k fin0)
    case Nil
    then show ?case by (simp add: times_sampled_def)
  next
    case (Cons e es)
    from Cons.prems(3) obtain fin1 s1 where s1: "apply_event e (fin0, s) = Inr (fin1, s1)"
        and rest: "foldR apply_event es (fin1, s1) = Inr (fin, s')"
      by (auto simp: res)
    note step = sampler_event_step [OF Cons.prems(1) _ s1, of q]
    show ?case
    proof (cases "samples q e")
      case False
      then have "sampler_ok s1" "tokens_left s1 q = (if k = 0 then None else Some k)"
        "count_list fin1 q = count_list fin0 q" using step Cons.prems by simp_all
      then show ?thesis using Cons.IH [OF _ _ rest, of k] Cons.prems(4,5) False
        by (simp add: times_sampled_def)
    next
      case True
      then obtain j where j: "sampler_ok s1" "tokens_left s q = Some (Suc j)"
          "tokens_left s1 q = (if j = 0 then None else Some j)"
          "count_list fin1 q = count_list fin0 q + (if j = 0 then 1 else 0)"
        using step Cons.prems by auto
      have k: "k = Suc j" using j(2) Cons.prems(2) by (simp split: if_splits)
      have t: "times_sampled q (e # es) = Suc (times_sampled q es)"
        using True by (simp add: times_sampled_def)
      show ?thesis using Cons.IH [OF j(1,3) rest] Cons.prems(4,5) j(4) unfolding k t by auto
    qed
  qed
  show ?thesis
    using gen [OF create_request_ok [OF assms(1)] _ assms(4), of "max 1 (nat n)"]
    by (simp add: create_request_left)
qed

theorem sampled_exactly_max_witness:
  "\<exists>fin s'. foldR apply_event [Sample [7], Create 8 1, Sample [8, 7]] ([], create_request 7 2 sampler_init)
       = Inr (fin, s') \<and> count_list fin 7 = 1 \<and> tokens_left s' 7 = None"
proof -
  let ?es = "[Sample [7], Create 8 1, Sample [8, 7]]"
  have "\<not> isl (foldR apply_event ?es ([], create_request 7 2 sampler_init))" by code_simp
  then obtain fin s' where r: "foldR apply_event ?es ([], create_request 7 2 sampler_init) = Inr (fin, s')"
    by (cases "foldR apply_event ?es ([], create_request 7 2 sampler_init)") auto
  show ?thesis
    using sampled_exactly_max [OF sampler_init_ok _ _ r] r by (simp add: times_sampled_def)
qed

end
