(* ===== verification/Engine.thy ===== *)
theory Engine
  imports Sampler Executor
begin

text \<open>
  The model of \<open>disagmoe/frontend/engine.py\<close>: the worker that receives requests, runs the
  batches its scheduler hands out through attention or expert layers, samples at the end of
  the model and sends the results on; and its two main loops.

  Tensors of hidden states are lists of rows. The GPU work is given by three parameters (the
  attention operator, the expert operator, the C++ \<open>std::sort\<close>); the C++ scheduler is the input
  of each loop iteration: the batch it hands out, if any. Sockets, pool and dispatcher are the
  sequences of what is put into them. CUDA events, streams, timers and trace logging have no
  influence on these values and are left out.
\<close>

section \<open>Double buffers\<close>

text \<open>\<open>GdrDoubleBuffer\<close> (\<open>disagmoe/utils/gdr_context.py\<close>): two buffers handed out in turn.\<close>

record 'a double_buffer =
  db_buffers :: "nat \<Rightarrow> 'a list"
  db_index :: nat

definition get_one_handle :: "'a double_buffer \<Rightarrow> nat \<times> 'a double_buffer" where
  "get_one_handle d = (let i = (db_index d + 1) mod 2 in (i, d\<lparr>db_index := i\<rparr>))"

text \<open>A copy into a buffer overwrites its beginning; a copy to the host reads its beginning.\<close>

definition copy_into :: "nat \<Rightarrow> 'a list \<Rightarrow> 'a double_buffer \<Rightarrow> 'a double_buffer" where
  "copy_into i xs d =
     d\<lparr>db_buffers := (db_buffers d)(i := xs @ drop (length xs) (db_buffers d i))\<rparr>"

definition copy_to_host :: "nat \<Rightarrow> nat \<Rightarrow> 'a double_buffer \<Rightarrow> 'a list" where
  "copy_to_host i n d = take n (db_buffers d i)"

lemma copy_to_other: "i \<noteq> j \<Longrightarrow> copy_to_host i n (copy_into j xs d) = copy_to_host i n d"
  by (simp add: copy_to_host_def copy_into_def)

section \<open>State\<close>

datatype engine_type = ATTENTION | EXPERT | HYBRID

type_synonym row = "real list"
type_synonym attn_out = "row \<times> nat list \<times> real list"

record token_batch =
  tb_data :: "row list"
  tb_meta :: batch_metadata_c

text \<open>The model and engine configuration that the operations read.\<close>

record engine_config =
  ec_type :: engine_type
  ec_rank_in_group :: nat
  ec_tp_size :: nat
  ec_top_k :: nat
  ec_num_layers :: nat
  ec_layer_ids :: "nat list"
  ec_hidden_size :: nat
  ec_num_experts :: nat
  ec_attn_dp_rank :: nat
  ec_graph_attn :: bool
  ec_profile_gating :: bool
  ec_max_attn_graph_bsz :: nat
  ec_max_batch_size_expert :: nat
  ec_expert_cls :: expert_cls
  ec_l2g :: "nat list"
  ec_g2l :: "int list"
  ec_layer_maps :: "nat list"

record engine =
  en_sampler :: sampler
  en_blocks :: cpu_manager
  en_inbox :: "tokenized_request list"
  en_pool :: "token_batch list"
  en_detok :: "batch_decode_result list"
  en_ids_gdr :: "nat double_buffer"
  en_weights_gdr :: "real double_buffer"
  en_graphs :: "(row, attn_out) attn_graphs"
  en_profiler :: profiler

text \<open>What the GPU computes, and the C++ sort.\<close>

record gpu =
  gp_attn :: "(row, attn_out) attn_op"
  gp_expert :: "nat \<Rightarrow> row list \<Rightarrow> nat list option \<Rightarrow> int list option \<Rightarrow> row list"
  gp_sort :: std_sort
  gp_new_row :: "nat \<Rightarrow> row"

definition has_attn :: "engine_config \<Rightarrow> bool" where
  "has_attn c \<longleftrightarrow> ec_type c = ATTENTION \<or> ec_type c = HYBRID"

definition has_expert :: "engine_config \<Rightarrow> bool" where
  "has_expert c \<longleftrightarrow> ec_type c = EXPERT \<or> ec_type c = HYBRID"

definition tp_enabled :: "engine_config \<Rightarrow> bool" where
  "tp_enabled c \<longleftrightarrow> has_attn c \<and> ec_tp_size c > 1"

definition is_attn_driver :: "engine_config \<Rightarrow> bool" where
  "is_attn_driver c \<longleftrightarrow> has_attn c \<and> ec_rank_in_group c = 0"

definition is_attn_worker :: "engine_config \<Rightarrow> bool" where
  "is_attn_worker c \<longleftrightarrow> tp_enabled c \<and> ec_rank_in_group c > 0"

text \<open>Tensor parallelism is refused when the attention executor is built.\<close>

definition build_executor :: "engine_config \<Rightarrow> unit result" where
  "build_executor c = assertR (\<not> (has_attn c \<and> tp_enabled c))"

section \<open>Requests and sampling\<close>

definition record_max_output_lens :: "engine_config \<Rightarrow> nat \<Rightarrow> int \<Rightarrow> engine \<Rightarrow> engine result" where
  "record_max_output_lens c q n e =
     bindR (assertR (has_attn c)) (\<lambda>_. Inr (e\<lparr>en_sampler := create_request q n (en_sampler e)\<rparr>))"

definition new_request_meta :: "engine_config \<Rightarrow> tokenized_request \<Rightarrow> batch_metadata" where
  "new_request_meta c r =
     \<lparr>md_shape = [1, ec_hidden_size c], md_dtype = ''bfloat16'', md_layer_id = 0,
      md_req_ids = [tr_req_id r], md_exp_ids = [0], md_topk_weights = [1],
      md_attn_dp_ranks = [ec_attn_dp_rank c], md_init_prefill_lens = [tr_init_prefill_len r],
      md_num_prefill_seqs = None, md_num_prefill_tokens = None, md_num_decode_tokens = None\<rparr>"

text \<open>
  \<open>recv_new_request\<close>: at most one request per iteration; an empty socket is \<open>zmq.Again\<close>. A
  worker without attention has no socket, and the attribute access raises. The tag of a fresh
  C++ structure is the first one, attention.
\<close>

definition recv_new_request :: "engine_config \<Rightarrow> gpu \<Rightarrow> engine \<Rightarrow> engine result" where
  "recv_new_request c gp e =
     (if \<not> has_attn c then Inl AttributeError
      else case en_inbox e of
        [] \<Rightarrow> Inr e
      | r # rs \<Rightarrow>
          bindR (record_max_output_lens c (tr_req_id r) (tr_max_output_len r) (e\<lparr>en_inbox := rs\<rparr>)) (\<lambda>e.
            Inr (e\<lparr>en_pool := en_pool e @
              [\<lparr>tb_data = [gp_new_row gp (tr_req_id r)],
                tb_meta = metadata_to_c AttentionTag (new_request_meta c r)\<rparr>]\<rparr>)))"

definition decode_result :: "nat list \<Rightarrow> nat list \<Rightarrow> batch_decode_result" where
  "decode_result qs cont =
     \<lparr>dr_req_ids = qs, dr_token_ids = replicate (length qs) 0,
      dr_is_eos = fold (\<lambda>i l. l[i := False]) cont (replicate (length qs) True)\<rparr>"

definition sample_results ::
  "engine_config \<Rightarrow> token_batch \<Rightarrow> engine \<Rightarrow> (token_batch \<times> engine) result" where
  "sample_results c b e =
     bindR (sample_once (md_req_ids (tb_meta b)) (en_sampler e)) (\<lambda>(cont, fin, smp).
     bindR (index_select cont (tb_meta b)) (\<lambda>m.
     let m = m\<lparr>md_init_prefill_lens := replicate (length cont) (-1),
               md_attn_dp_ranks := replicate (length cont) (ec_attn_dp_rank c),
               md_layer_id := 0\<rparr>
     in bindR (cpu_release_seqs fin (en_blocks e)) (\<lambda>blocks.
        bindR (mapR (\<lambda>i. py_get (tb_data b) (int i)) cont) (\<lambda>rows.
          Inr (\<lparr>tb_data = rows, tb_meta = m\<rparr>,
               e\<lparr>en_sampler := smp, en_blocks := blocks,
                 en_detok := en_detok e @ [decode_result (md_req_ids (tb_meta b)) cont]\<rparr>)))))"

section \<open>Forward batches\<close>

record attn_forward =
  af_layer_id :: nat
  af_data :: "row list"
  af_num_tokens :: nat
  af_positions :: "int list"
  af_req_ids :: "nat list"
  af_flash :: flash_meta
  af_meta :: batch_metadata_c
  af_handle :: nat
  af_use_graph :: bool

record attn_result =
  ar_hiddens :: "row list"
  ar_ids :: "nat list"
  ar_weights :: "real list"

record expert_forward =
  ef_layer_id :: nat
  ef_num_tokens :: nat
  ef_data :: "row list"
  ef_batch_sizes :: "nat list option"
  ef_m_indices :: "int list option"
  ef_meta :: batch_metadata_c

datatype forward_batch = AttnBatch attn_forward | ExpertBatch expert_forward

text \<open>Executing an expert batch also rewrites the metadata it carries.\<close>

datatype forward_result = AttnResult attn_result | ExpertResult "row list" batch_metadata_c

definition preprocess_batch_attn ::
  "engine_config \<Rightarrow> token_batch \<Rightarrow> engine \<Rightarrow> (attn_forward option \<times> engine) result" where
  "preprocess_batch_attn c b e =
     (if md_layer_id (tb_meta b) = ec_num_layers c then
        bindR (sample_results c b e) (\<lambda>(next, e). Inr (None, e\<lparr>en_pool := en_pool e @ [next]\<rparr>))
      else
        bindR (not_None TypeError (attn_batch_build (metadata_from_c (tb_meta b)))) (\<lambda>ab.
        bindR (cpu_update_block_table (tb_meta b) ab (en_blocks e)) (\<lambda>(ab, blocks).
        bindR (cpu_pack_flash_attn_metadata (tb_meta b) ab False blocks) (\<lambda>(flash, blocks).
        bindR (not_None TypeError (ab_seq_lens ab)) (\<lambda>lens.
        let (h, ids) = get_one_handle (en_ids_gdr e);
            (_, ws) = get_one_handle (en_weights_gdr e)
        in Inr (Some \<lparr>af_layer_id = ab_layer_id ab, af_data = tb_data b,
                      af_num_tokens = ab_num_tokens ab, af_positions = lens, af_req_ids = ab_req_ids ab,
                      af_flash = flash,
                      af_meta = tb_meta b, af_handle = h, af_use_graph = False\<rparr>,
                e\<lparr>en_blocks := blocks, en_ids_gdr := ids, en_weights_gdr := ws\<rparr>))))))"

definition attn_inputs :: "attn_forward \<Rightarrow> row attn_bufs" where
  "attn_inputs f =
     \<lparr>ax_hidden = af_data f, ax_positions = af_positions f, ax_reqs = af_req_ids f,
      ax_slots = fm_slot_mapping (af_flash f), ax_seq_lens = fm_seq_lens (af_flash f),
      ax_context_lens = fm_context_lens (af_flash f), ax_start_loc = fm_seq_start_loc (af_flash f),
      ax_tables = fm_block_tables (af_flash f)\<rparr>"

text \<open>
  On the graph path the expert choice is copied into the staging buffers whose handle the batch
  holds; on the normal path it stays in the result.
\<close>

definition execute_batch_attn ::
  "engine_config \<Rightarrow> gpu \<Rightarrow> attn_forward \<Rightarrow> engine \<Rightarrow> (attn_forward \<times> attn_result \<times> engine) result" where
  "execute_batch_attn c gp f e =
     (let graph = ec_graph_attn c \<and> fm_num_decode_tokens (af_flash f) \<le> ec_max_attn_graph_bsz c
      in bindR (attn_execute (ec_graph_attn c) (ec_max_attn_graph_bsz c)
                  (fm_num_decode_tokens (af_flash f)) (ec_profile_gating c) (gp_attn gp) (ec_layer_maps c)
                  (af_layer_id f) (attn_inputs f) (en_graphs e)) (\<lambda>(out, g).
         let rows = map fst out; ids = concat (map (fst \<circ> snd) out);
             ws = concat (map (snd \<circ> snd) out)
         in Inr (f\<lparr>af_use_graph := graph\<rparr>, \<lparr>ar_hiddens = rows, ar_ids = ids, ar_weights = ws\<rparr>,
                 (if graph then
                    e\<lparr>en_graphs := g, en_ids_gdr := copy_into (af_handle f) ids (en_ids_gdr e),
                      en_weights_gdr := copy_into (af_handle f) ws (en_weights_gdr e)\<rparr>
                  else e\<lparr>en_graphs := g\<rparr>))))"

definition postprocess_batch_attn ::
  "engine_config \<Rightarrow> engine \<Rightarrow> attn_forward \<Rightarrow> attn_result \<Rightarrow> token_batch result" where
  "postprocess_batch_attn c e f r =
     (let n = af_num_tokens f * ec_top_k c
      in bindR (duplicate_topk (ec_top_k c) (af_meta f)) (\<lambda>m.
         let ids = (if af_use_graph f then copy_to_host (af_handle f) n (en_ids_gdr e) else ar_ids r);
             ws = (if af_use_graph f then copy_to_host (af_handle f) n (en_weights_gdr e)
                   else ar_weights r)
         in bindR (sort_by_expert (m\<lparr>md_exp_ids := ids, md_topk_weights := ws\<rparr>)) (\<lambda>(ps, m).
            bindR (permute_tokens (ar_hiddens r) ps) (\<lambda>rows.
              Inr \<lparr>tb_data = map the rows,
                   tb_meta = m\<lparr>md_attn_dp_ranks := replicate (length ids) (ec_attn_dp_rank c)\<rparr>\<rparr>))))"

definition preprocess_batch_expert ::
  "engine_config \<Rightarrow> token_batch \<Rightarrow> expert_forward result" where
  "preprocess_batch_expert c b =
     bindR (prepare_bsz_and_indices (ec_expert_cls c) (ec_num_experts c) (ec_l2g c) (ec_g2l c)
              (tb_meta b)) (\<lambda>(sizes, idx).
     bindR (num_tokens_c (tb_meta b)) (\<lambda>n.
       Inr \<lparr>ef_layer_id = md_layer_id (tb_meta b), ef_num_tokens = n, ef_data = tb_data b,
            ef_batch_sizes = sizes, ef_m_indices = idx, ef_meta = tb_meta b\<rparr>))"

text \<open>The weight buffer behind the list of weights is never read (\<open>expert_weights_ignored\<close>).\<close>

definition execute_batch_expert ::
  "engine_config \<Rightarrow> gpu \<Rightarrow> expert_forward \<Rightarrow> (row list \<times> batch_metadata_c) result" where
  "execute_batch_expert c gp f =
     bindR (assertR (ef_num_tokens f \<le> ec_max_batch_size_expert c)) (\<lambda>_.
     bindR (py_get (ec_layer_maps c) (int (ef_layer_id f))) (\<lambda>vid.
     let hiddens = gp_expert gp vid (ef_data f) (ef_batch_sizes f) (ef_m_indices f);
         ws = md_topk_weights (ef_meta f)
     in bindR (sort_by_attention (gp_sort gp) (ef_meta f)) (\<lambda>(ps, m).
          Inr (map the (apply_weights_and_permute_tokens hiddens
                          (\<lambda>i. if i < length ws then ws ! i else 0) ps),
               step_layer (m\<lparr>md_exp_ids := [], md_topk_weights := []\<rparr>)))))"

section \<open>Dispatch on the kind of batch\<close>

definition preprocess_batch ::
  "engine_config \<Rightarrow> token_batch \<Rightarrow> engine \<Rightarrow> (forward_batch option \<times> engine) result" where
  "preprocess_batch c b e =
     (if is_attention (tb_meta b) then
        bindR (preprocess_batch_attn c b e) (\<lambda>(f, e). Inr (map_option AttnBatch f, e))
      else if is_expert (tb_meta b) then
        bindR (preprocess_batch_expert c b) (\<lambda>f. Inr (Some (ExpertBatch f), e))
      else Inl AssertionError)"

text \<open>\<open>proc_func\<close> and \<open>post_proc_func\<close> of a forward batch.\<close>

definition proc_func ::
  "engine_config \<Rightarrow> gpu \<Rightarrow> forward_batch \<Rightarrow> engine \<Rightarrow>
   (forward_batch \<times> forward_result \<times> engine) result" where
  "proc_func c gp fb e =
     (case fb of
        AttnBatch f \<Rightarrow> bindR (execute_batch_attn c gp f e) (\<lambda>(f, r, e). Inr (AttnBatch f, AttnResult r, e))
      | ExpertBatch f \<Rightarrow> bindR (execute_batch_expert c gp f) (\<lambda>(rows, m). Inr (fb, ExpertResult rows m, e)))"

definition post_proc_func ::
  "engine_config \<Rightarrow> engine \<Rightarrow> forward_batch \<times> forward_result \<Rightarrow> token_batch result" where
  "post_proc_func c e = (\<lambda>(fb, r).
     (case (fb, r) of
        (AttnBatch f, AttnResult r) \<Rightarrow> postprocess_batch_attn c e f r
      | (ExpertBatch f, ExpertResult rows m) \<Rightarrow> Inr \<lparr>tb_data = rows, tb_meta = m\<rparr>
      | _ \<Rightarrow> Inl TypeError))"

definition process_batch ::
  "engine_config \<Rightarrow> gpu \<Rightarrow> token_batch \<Rightarrow> engine \<Rightarrow> (token_batch option \<times> engine) result" where
  "process_batch c gp b e =
     bindR (preprocess_batch c b e) (\<lambda>(fb, e).
       case fb of
         None \<Rightarrow> Inr (None, e)
       | Some fb \<Rightarrow>
           bindR (proc_func c gp fb e) (\<lambda>(fb, r, e).
           bindR (post_proc_func c e (fb, r)) (\<lambda>out. Inr (Some out, e))))"

section \<open>The main loops\<close>

text \<open>
  \<open>single_module_loop\<close>: one iteration for the batch \<open>b\<close> that the scheduler hands out; the batch
  is processed to its end and dispatched.
\<close>

record seq_state =
  sq_engine :: engine
  sq_profiler :: profiler
  sq_sent :: "token_batch list"

definition dispatch :: "engine_config \<Rightarrow> token_batch \<Rightarrow> token_batch list \<Rightarrow> token_batch list result" where
  "dispatch c out sent = bindR (assertR (\<not> is_attn_worker c)) (\<lambda>_. Inr (sent @ [out]))"

definition single_module_iter ::
  "engine_config \<Rightarrow> gpu \<Rightarrow> token_batch option \<Rightarrow> seq_state \<Rightarrow> seq_state result" where
  "single_module_iter c gp b s =
     bindR (recv_new_request c gp (sq_engine s)) (\<lambda>e.
       case b of
         None \<Rightarrow> Inr (s\<lparr>sq_engine := e\<rparr>)
       | Some b \<Rightarrow>
           bindR (num_tokens_c (tb_meta b)) (\<lambda>n.
           let p = step_profile n (sq_profiler s)
           in bindR (process_batch c gp b e) (\<lambda>(out, e).
              bindR (case out of None \<Rightarrow> Inr (sq_sent s) | Some out \<Rightarrow> dispatch c out (sq_sent s)) (\<lambda>sent.
                Inr \<lparr>sq_engine = e, sq_profiler = p, sq_sent = sent\<rparr>))))"

text \<open>
  \<open>single_module_loop_overlap\<close>: the results of a batch are queued; they are post-processed and
  dispatched in the next iteration, after the next batch was launched.
\<close>

record loop_state =
  lp_engine :: engine
  lp_profiler :: profiler
  lp_sent :: "token_batch list"
  lp_queue :: "(forward_batch \<times> forward_result) list"
  lp_last :: "forward_batch option"

definition launch_batch ::
  "engine_config \<Rightarrow> gpu \<Rightarrow> token_batch option \<Rightarrow> engine \<Rightarrow> loop_state \<Rightarrow>
   (forward_batch option \<times> loop_state) result" where
  "launch_batch c gp b e st =
     (case b of
        None \<Rightarrow> Inr (None, st\<lparr>lp_engine := e\<rparr>)
      | Some b \<Rightarrow>
          bindR (preprocess_batch c b e) (\<lambda>(fb, e).
          bindR (case fb of
                   None \<Rightarrow> Inr (None, st\<lparr>lp_engine := e\<rparr>)
                 | Some fb \<Rightarrow> bindR (proc_func c gp fb e) (\<lambda>(fb, r, e).
                     Inr (Some fb, st\<lparr>lp_engine := e, lp_queue := lp_queue st @ [(fb, r)]\<rparr>)))
            (\<lambda>(fb, st).
          bindR (num_tokens_c (tb_meta b)) (\<lambda>n.
            Inr (fb, st\<lparr>lp_profiler := step_profile n (lp_profiler st)\<rparr>)))))"

definition finish_last :: "engine_config \<Rightarrow> loop_state \<Rightarrow> loop_state result" where
  "finish_last c st =
     (case lp_last st of
        None \<Rightarrow> Inr st
      | Some _ \<Rightarrow>
          (case lp_queue st of
             [] \<Rightarrow> Inl IndexError
           | x # q \<Rightarrow>
               bindR (post_proc_func c (lp_engine st) x) (\<lambda>out.
               bindR (dispatch c out (lp_sent st)) (\<lambda>sent.
                 Inr (st\<lparr>lp_queue := q, lp_sent := sent\<rparr>)))))"

definition overlap_iter ::
  "engine_config \<Rightarrow> gpu \<Rightarrow> token_batch option \<Rightarrow> loop_state \<Rightarrow> loop_state result" where
  "overlap_iter c gp b st =
     bindR (recv_new_request c gp (lp_engine st)) (\<lambda>e.
     bindR (launch_batch c gp b e st) (\<lambda>(fb, st).
     bindR (finish_last c st) (\<lambda>st.
       Inr (st\<lparr>lp_last := fb\<rparr>))))"

definition seq_start :: "engine \<Rightarrow> profiler \<Rightarrow> seq_state" where
  "seq_start e p = \<lparr>sq_engine = e, sq_profiler = p, sq_sent = []\<rparr>"

definition loop_start :: "engine \<Rightarrow> profiler \<Rightarrow> loop_state" where
  "loop_start e p =
     \<lparr>lp_engine = e, lp_profiler = p, lp_sent = [], lp_queue = [], lp_last = None\<rparr>"

section \<open>The overlapped loop dispatches what the sequential loop does\<close>

text \<open>Both rings point at the same one of the two buffers.\<close>

definition rings_ok :: "engine \<Rightarrow> bool" where
  "rings_ok e \<longleftrightarrow> db_index (en_ids_gdr e) = db_index (en_weights_gdr e) \<and> db_index (en_ids_gdr e) < 2"

definition ring :: "engine \<Rightarrow> nat" where
  "ring e = db_index (en_ids_gdr e)"

definition same_at :: "nat \<Rightarrow> engine \<Rightarrow> engine \<Rightarrow> bool" where
  "same_at h e e' \<longleftrightarrow> db_buffers (en_ids_gdr e) h = db_buffers (en_ids_gdr e') h \<and>
     db_buffers (en_weights_gdr e) h = db_buffers (en_weights_gdr e') h"

text \<open>The handle a forward batch holds.\<close>

definition holds :: "forward_batch \<Rightarrow> nat \<Rightarrow> bool" where
  "holds fb h \<longleftrightarrow> (case fb of AttnBatch f \<Rightarrow> af_handle f = h | ExpertBatch f \<Rightarrow> False)"

lemma recv_keeps_rings:
  assumes "recv_new_request c gp e = Inr e'"
  shows "en_ids_gdr e' = en_ids_gdr e \<and> en_weights_gdr e' = en_weights_gdr e"
  using assms
  by (auto simp: recv_new_request_def record_max_output_lens_def res split: if_splits list.splits)

lemma sample_results_keeps_rings:
  assumes "sample_results c b e = Inr (out, e')"
  shows "en_ids_gdr e' = en_ids_gdr e \<and> en_weights_gdr e' = en_weights_gdr e"
  using assms by (auto simp: sample_results_def res Let_def)

lemma preprocess_attn_ring:
  assumes "preprocess_batch_attn c b e = Inr (f, e')" and "rings_ok e"
  shows "rings_ok e' \<and> same_at h e e' \<and>
    (case f of None \<Rightarrow> ring e' = ring e | Some f \<Rightarrow> af_handle f = ring e' \<and> ring e' \<noteq> ring e)"
proof (cases "md_layer_id (tb_meta b) = ec_num_layers c")
  case True
  then show ?thesis using assms
    by (auto simp: preprocess_batch_attn_def res rings_ok_def ring_def same_at_def
        dest: sample_results_keeps_rings)
next
  case False
  then obtain ab blocks flash lens where
    "f = Some \<lparr>af_layer_id = ab_layer_id ab, af_data = tb_data b, af_num_tokens = ab_num_tokens ab,
       af_positions = lens, af_req_ids = ab_req_ids ab,
                      af_flash = flash, af_meta = tb_meta b,
       af_handle = (db_index (en_ids_gdr e) + 1) mod 2, af_use_graph = False\<rparr>"
    "e' = e\<lparr>en_blocks := blocks,
       en_ids_gdr := (en_ids_gdr e)\<lparr>db_index := (db_index (en_ids_gdr e) + 1) mod 2\<rparr>,
       en_weights_gdr := (en_weights_gdr e)\<lparr>db_index := (db_index (en_weights_gdr e) + 1) mod 2\<rparr>\<rparr>"
    using assms(1) by (auto simp: preprocess_batch_attn_def res get_one_handle_def Let_def)
  moreover have "(i + 1) mod 2 \<noteq> i \<and> (i + 1) mod 2 < 2" if "i < 2" for i :: nat
    using that by (cases i) (auto simp: numeral_eq_Suc less_Suc_eq)
  ultimately show ?thesis using assms(2)
    by (simp add: rings_ok_def ring_def same_at_def)
qed

lemma preprocess_ring:
  assumes "preprocess_batch c b e = Inr (fb, e')" and "rings_ok e"
  shows "rings_ok e' \<and> same_at h e e' \<and>
    (case fb of None \<Rightarrow> ring e' = ring e
     | Some fb \<Rightarrow> (case fb of AttnBatch f \<Rightarrow> af_handle f = ring e' \<and> ring e' \<noteq> ring e
                   | ExpertBatch f \<Rightarrow> ring e' = ring e))"
proof (cases "is_attention (tb_meta b)")
  case True
  then obtain f where f: "preprocess_batch_attn c b e = Inr (f, e')" "fb = map_option AttnBatch f"
    using assms(1) by (auto simp: preprocess_batch_def res)
  show ?thesis using preprocess_attn_ring [OF f(1) assms(2), of h] f(2) by (cases f) simp_all
next
  case False
  then have "e' = e \<and> (\<exists>f. fb = Some (ExpertBatch f))"
    using assms(1) by (auto simp: preprocess_batch_def res split: if_splits)
  then show ?thesis using assms(2) by (auto simp: same_at_def)
qed

lemma proc_ring:
  assumes "proc_func c gp fb e = Inr (fb', r, e')"
  shows "ring e' = ring e \<and> (rings_ok e \<longrightarrow> rings_ok e') \<and> (\<forall>h. holds fb' h = holds fb h) \<and>
    (\<forall>h. \<not> holds fb h \<longrightarrow> same_at h e e')"
proof (cases fb)
  case (AttnBatch f)
  then obtain f' r' where x: "execute_batch_attn c gp f e = Inr (f', r', e')" "fb' = AttnBatch f'"
    using assms by (auto simp: proc_func_def res)
  then show ?thesis
    using AttnBatch
    by (auto simp: execute_batch_attn_def res Let_def ring_def rings_ok_def holds_def same_at_def
        copy_into_def)
next
  case (ExpertBatch f)
  then show ?thesis using assms by (auto simp: proc_func_def res same_at_def)
qed

lemma post_proc_same:
  assumes "\<And>h. holds (fst x) h \<Longrightarrow> same_at h e e'"
  shows "post_proc_func c e x = post_proc_func c e' x"
proof -
  obtain fb r where x: "x = (fb, r)" by (cases x)
  show ?thesis
  proof (cases fb)
    case (AttnBatch f)
    then have "same_at (af_handle f) e e'" using assms x by (simp add: holds_def)
    then have "copy_to_host (af_handle f) n (en_ids_gdr e) = copy_to_host (af_handle f) n (en_ids_gdr e')"
      "copy_to_host (af_handle f) n (en_weights_gdr e) = copy_to_host (af_handle f) n (en_weights_gdr e')"
      for n by (simp_all add: same_at_def copy_to_host_def)
    then show ?thesis
      by (cases "af_use_graph f")
        (simp_all add: x AttnBatch post_proc_func_def postprocess_batch_attn_def split: forward_result.split)
  qed (simp add: x post_proc_func_def)
qed

text \<open>
  The states of the two loops after the same iterations: equal engines, and at most one batch
  that the sequential loop has dispatched and the overlapped one still has in its queue; its
  staging buffer is the one handed out last.
\<close>

definition in_step :: "engine_config \<Rightarrow> seq_state \<Rightarrow> loop_state \<Rightarrow> bool" where
  "in_step c s st \<longleftrightarrow> sq_engine s = lp_engine st \<and> sq_profiler s = lp_profiler st \<and>
     rings_ok (lp_engine st) \<and>
     (case lp_last st of
        None \<Rightarrow> lp_queue st = [] \<and> sq_sent s = lp_sent st
      | Some _ \<Rightarrow> \<exists>x out. lp_queue st = [x] \<and> sq_sent s = lp_sent st @ [out] \<and>
          post_proc_func c (lp_engine st) x = Inr out \<and>
          (\<forall>h. holds (fst x) h \<longrightarrow> h = ring (lp_engine st)) \<and> \<not> is_attn_worker c)"

lemma finish_last_in_step:
  assumes "in_step c s st" and "\<And>h. h = ring (lp_engine st) \<Longrightarrow> same_at h (lp_engine st) e"
    and "st1 = st\<lparr>lp_engine := e, lp_queue := lp_queue st @ q, lp_profiler := p\<rparr>"
  shows "finish_last c st1 = Inr (st1\<lparr>lp_queue := q, lp_sent := sq_sent s\<rparr>)"
proof (cases "lp_last st")
  case None
  then show ?thesis using assms(1,3) by (simp add: in_step_def finish_last_def)
next
  case (Some fb)
  then obtain x out where x: "lp_queue st = [x]" "sq_sent s = lp_sent st @ [out]"
      "post_proc_func c (lp_engine st) x = Inr out" "\<forall>h. holds (fst x) h \<longrightarrow> h = ring (lp_engine st)"
      "\<not> is_attn_worker c"
    using assms(1) by (auto simp: in_step_def)
  have "post_proc_func c e x = Inr out"
    using post_proc_same [of x "lp_engine st" e c] assms(2) x(3,4) by auto
  then show ?thesis using Some x assms(3) by (simp add: finish_last_def dispatch_def)
qed

lemma iter_in_step:
  assumes rel: "in_step c s st" and seq: "single_module_iter c gp b s = Inr s'"
  shows "\<exists>st'. overlap_iter c gp b st = Inr st' \<and> in_step c s' st' \<and> (b = None \<longrightarrow> lp_queue st' = [])"
proof -
  let ?e0 = "lp_engine st"
  have eng: "sq_engine s = ?e0" "sq_profiler s = lp_profiler st" and r0: "rings_ok ?e0"
    using rel by (simp_all add: in_step_def)
  obtain e1 where e1: "recv_new_request c gp ?e0 = Inr e1"
    using seq eng by (auto simp: single_module_iter_def res)
  note k1 = recv_keeps_rings [OF e1]
  have r1: "rings_ok e1" "ring e1 = ring ?e0" and s1: "\<And>h. same_at h ?e0 e1"
    using k1 r0 by (simp_all add: rings_ok_def ring_def same_at_def)
  show ?thesis
  proof (cases b)
    case None
    then have s': "s' = s\<lparr>sq_engine := e1\<rparr>"
      using seq e1 eng by (simp add: single_module_iter_def)
    have "finish_last c (st\<lparr>lp_engine := e1, lp_queue := lp_queue st @ [], lp_profiler := lp_profiler st\<rparr>)
        = Inr (st\<lparr>lp_engine := e1, lp_queue := [], lp_profiler := lp_profiler st, lp_sent := sq_sent s\<rparr>)"
      using finish_last_in_step [OF rel s1 refl, where q = "[]" and p = "lp_profiler st"] by simp
    then show ?thesis
      using None s' e1 r1 eng by (simp add: overlap_iter_def launch_batch_def in_step_def)
  next
    case (Some tb)
    obtain n out e2 sent where seq': "num_tokens_c (tb_meta tb) = Inr n"
        "process_batch c gp tb e1 = Inr (out, e2)"
        "(case out of None \<Rightarrow> Inr (sq_sent s) | Some out \<Rightarrow> dispatch c out (sq_sent s)) = Inr sent"
        "s' = \<lparr>sq_engine = e2, sq_profiler = step_profile n (sq_profiler s), sq_sent = sent\<rparr>"
      using seq e1 eng Some by (auto simp: single_module_iter_def res Let_def)
    obtain fb e' where pre: "preprocess_batch c tb e1 = Inr (fb, e')"
      using seq'(2) by (auto simp: process_batch_def res)
    note ring' = preprocess_ring [OF pre r1(1)]
    note ring0 = preprocess_ring [OF pre r1(1), of 0]
    let ?p = "step_profile n (lp_profiler st)"
    show ?thesis
    proof (cases fb)
      case None
      then have "out = None" "e2 = e'" using seq'(2) pre by (simp_all add: process_batch_def)
      then have s': "sent = sq_sent s" using seq'(3) by simp
      have same: "\<And>h. same_at h ?e0 e'" using ring' s1 by (simp add: same_at_def)
      have "finish_last c (st\<lparr>lp_engine := e', lp_queue := lp_queue st @ [], lp_profiler := ?p\<rparr>)
        = Inr (st\<lparr>lp_engine := e', lp_queue := [], lp_profiler := ?p, lp_sent := sq_sent s\<rparr>)"
        using finish_last_in_step [OF rel same refl, where q = "[]" and p = ?p] by simp
      then show ?thesis
        using Some None e1 pre seq'(1,4) s' \<open>e2 = e'\<close> ring' eng
        by (simp add: overlap_iter_def launch_batch_def in_step_def)
    next
      case (Some fb0)
      obtain fb1 r e3 o1 where x: "proc_func c gp fb0 e' = Inr (fb1, r, e3)"
          "post_proc_func c e3 (fb1, r) = Inr o1" "out = Some o1" "e2 = e3"
        using seq'(2) pre Some by (auto simp: process_batch_def res)
      have sent: "sent = sq_sent s @ [o1]" "\<not> is_attn_worker c"
        using seq'(3) x(3) by (auto simp: dispatch_def res)
      note pr = proc_ring [OF x(1)]
      have nh: "\<not> holds fb0 (ring ?e0)" and own: "\<And>h. holds fb1 h \<Longrightarrow> h = ring e3"
        using ring0 Some r1(2) pr by (auto simp: holds_def split: forward_batch.splits)
      have same: "h = ring ?e0 \<Longrightarrow> same_at h ?e0 e3" for h
        using nh pr ring' s1 by (simp add: same_at_def)
      have "finish_last c (st\<lparr>lp_engine := e3, lp_queue := lp_queue st @ [(fb1, r)], lp_profiler := ?p\<rparr>)
        = Inr (st\<lparr>lp_engine := e3, lp_queue := [(fb1, r)], lp_profiler := ?p, lp_sent := sq_sent s\<rparr>)"
        using finish_last_in_step [OF rel same refl, where q = "[(fb1, r)]" and p = ?p] by simp
      then show ?thesis
        using \<open>b = Some tb\<close> Some e1 pre seq'(1,4) x sent ring' pr own eng
        by (simp add: overlap_iter_def launch_batch_def in_step_def)
    qed
  qed
qed

lemma run_in_step:
  assumes "in_step c s st" and "foldR (single_module_iter c gp) bs s = Inr s'"
  shows "\<exists>st'. foldR (overlap_iter c gp) bs st = Inr st' \<and> in_step c s' st' \<and>
    (bs \<noteq> [] \<longrightarrow> last bs = None \<longrightarrow> lp_queue st' = [])"
  using assms
proof (induction bs arbitrary: s st)
  case (Cons b bs)
  from Cons.prems(2) obtain s1 where s1: "single_module_iter c gp b s = Inr s1"
      and rest: "foldR (single_module_iter c gp) bs s1 = Inr s'" by (auto simp: res)
  obtain st1 where st1: "overlap_iter c gp b st = Inr st1" "in_step c s1 st1"
      "b = None \<longrightarrow> lp_queue st1 = []"
    using iter_in_step [OF Cons.prems(1) s1] by blast
  obtain st' where st': "foldR (overlap_iter c gp) bs st1 = Inr st'" "in_step c s' st'"
      "bs \<noteq> [] \<longrightarrow> last bs = None \<longrightarrow> lp_queue st' = []"
    using Cons.IH [OF st1(2) rest] by (elim exE conjE) (rule that, assumption+)
  have "b # bs \<noteq> [] \<longrightarrow> last (b # bs) = None \<longrightarrow> lp_queue st' = []"
    using st1(3) st' by (cases bs) simp_all
  then show ?case using st1(1) st'(1,2) by (intro exI [of _ st']) simp
qed simp

text \<open>
  C5: Take any run of the sequential loop that raises nothing, over any batches and idle
  iterations of the scheduler. The overlapped loop on the same inputs raises nothing either,
  ends with the same engine state, never has more than one batch in its queue, and has
  dispatched exactly the same batches in the same order, less the one still queued; after an
  idle iteration nothing is queued. Two staging buffers handed out in turn are enough: the
  batch launched in between does not overwrite the expert choice of the queued one.
\<close>

theorem overlap_dispatches_same:
  assumes "rings_ok e"
    and "foldR (single_module_iter c gp) bs (seq_start e p) = Inr s'"
  shows "\<exists>st'. foldR (overlap_iter c gp) bs (loop_start e p) = Inr st' \<and>
    lp_engine st' = sq_engine s' \<and> lp_profiler st' = sq_profiler s' \<and>
    length (lp_queue st') \<le> 1 \<and>
    lp_sent st' = take (length (sq_sent s') - length (lp_queue st')) (sq_sent s') \<and>
    (bs \<noteq> [] \<longrightarrow> last bs = None \<longrightarrow> lp_queue st' = [])"
proof -
  have "in_step c (seq_start e p) (loop_start e p)"
    using assms(1) by (simp add: in_step_def seq_start_def loop_start_def)
  from run_in_step [OF this assms(2)] obtain st' where
    st': "foldR (overlap_iter c gp) bs (loop_start e p) = Inr st'" "in_step c s' st'"
      "bs \<noteq> [] \<longrightarrow> last bs = None \<longrightarrow> lp_queue st' = []"
    by (elim exE conjE) (rule that, assumption+)
  show ?thesis
  proof (intro exI conjI)
    show "length (lp_queue st') \<le> 1"
      using st'(2) by (auto simp: in_step_def split: option.splits)
    show "lp_sent st' = take (length (sq_sent s') - length (lp_queue st')) (sq_sent s')"
      using st'(2) by (auto simp: in_step_def split: option.splits)
    show "lp_engine st' = sq_engine s'" "lp_profiler st' = sq_profiler s'"
      using st'(2) by (simp_all add: in_step_def)
  qed (use st'(1,3) in simp_all)
qed

text \<open>An example: a worker with attention and experts, one layer of each.\<close>

definition demo_engine_config :: engine_config where
  "demo_engine_config = \<lparr>ec_type = HYBRID, ec_rank_in_group = 0, ec_tp_size = 1, ec_top_k = 2,
     ec_num_layers = 1, ec_layer_ids = [0], ec_hidden_size = 8, ec_num_experts = 4,
     ec_attn_dp_rank = 0, ec_graph_attn = True,
     ec_profile_gating = False, ec_max_attn_graph_bsz = 8,
     ec_max_batch_size_expert = 16, ec_expert_cls = Serial, ec_l2g = [0, 1, 2, 3],
     ec_g2l = [0, 1, 2, 3], ec_layer_maps = [0]\<rparr>"

definition demo_gpu :: gpu where
  "demo_gpu = \<lparr>gp_attn = (\<lambda>l ts. map (\<lambda>t. (fst t, [3, 1], [1, 1])) ts),
     gp_expert = (\<lambda>l rows _ _. rows), gp_sort = insertion_sort, gp_new_row = (\<lambda>_. [])\<rparr>"

definition demo_graph_state :: "(row, attn_out) attn_graphs" where
  "demo_graph_state = \<lparr>gx_sizes = [1, 8], gx_graphs = [Some 0], gx_outputs = [0],
     gx_static = \<lparr>ax_hidden = replicate 8 [], ax_positions = replicate 8 0, ax_reqs = replicate 8 0, ax_slots = replicate 8 0,
       ax_seq_lens = replicate 8 0, ax_context_lens = replicate 8 0, ax_start_loc = replicate 9 0,
       ax_tables = replicate 8 [0, 0, 0, 0]\<rparr>,
     gx_memory = (\<lambda>_. [])\<rparr>"

definition demo_engine :: engine where
  "demo_engine = \<lparr>en_sampler = sampler_init, en_blocks = cpu_init 4 16 (Some [0]) 8,
     en_inbox = [\<lparr>tr_req_id = 7, tr_init_prefill_len = 3, tr_max_output_len = 1, tr_token_ids = []\<rparr>],
     en_pool = [], en_detok = [],
     en_ids_gdr = \<lparr>db_buffers = (\<lambda>_. replicate 16 0), db_index = 0\<rparr>,
     en_weights_gdr = \<lparr>db_buffers = (\<lambda>_. replicate 16 0), db_index = 0\<rparr>,
     en_graphs = demo_graph_state,
     en_profiler = \<lparr>pf_min_batch = 0, pf_num_steps = 0, pf_in_progress = False, pf_count = 0,
       pf_active = False\<rparr>\<rparr>"

definition demo_meta :: "nat \<Rightarrow> batch_tag \<Rightarrow> batch_metadata_c" where
  "demo_meta layer tag = \<lparr>md_shape = [1, 8], md_dtype = ''bfloat16'', md_layer_id = layer,
     md_req_ids = [7], md_exp_ids = [0], md_topk_weights = [1], md_attn_dp_ranks = [0],
     md_init_prefill_lens = [3], md_num_prefill_seqs = Some 1, md_num_prefill_tokens = Some 1,
     md_num_decode_tokens = Some 0, mc_batch_tag = tag\<rparr>"

definition demo_schedule :: "token_batch option list" where
  "demo_schedule = [Some \<lparr>tb_data = [[]], tb_meta = demo_meta 0 AttentionTag\<rparr>,
     Some \<lparr>tb_data = [[]], tb_meta = demo_meta 0 ExpertTag\<rparr>, None,
     Some \<lparr>tb_data = [[]], tb_meta = demo_meta 1 AttentionTag\<rparr>]"

lemma demo_engine_run:
  "\<not> isl (foldR (single_module_iter demo_engine_config demo_gpu) demo_schedule
     (seq_start demo_engine (en_profiler demo_engine)))"
  by code_simp

theorem overlap_dispatches_same_witness:
  "\<exists>st'. foldR (overlap_iter demo_engine_config demo_gpu) demo_schedule
       (loop_start demo_engine (en_profiler demo_engine)) = Inr st' \<and> length (lp_queue st') \<le> 1"
proof -
  let ?r = "foldR (single_module_iter demo_engine_config demo_gpu) demo_schedule
     (seq_start demo_engine (en_profiler demo_engine))"
  obtain s' where s': "?r = Inr s'" using demo_engine_run by (cases ?r) auto
  have "rings_ok demo_engine" by (simp add: rings_ok_def demo_engine_def)
  from overlap_dispatches_same [OF this s'] show ?thesis by blast
qed

text \<open>
  When the loop ends while a batch is queued, that batch is never dispatched: the loop
  condition is tested before the queue is served.
\<close>

lemma last_batch_not_dispatched:
  "map_sum id (\<lambda>st. (length (lp_sent st), length (lp_queue st)))
     (foldR (overlap_iter demo_engine_config demo_gpu) (take 2 demo_schedule)
       (loop_start demo_engine (en_profiler demo_engine))) = Inr (1, 1)"
  by code_simp

text \<open>
  Both loops call \<open>recv_new_request\<close> in every iteration, but a worker that only has experts
  never opened the socket.
\<close>

lemma expert_worker_cannot_loop:
  "ec_type c = EXPERT \<Longrightarrow> overlap_iter c gp b st = Inl AttributeError \<and>
     single_module_iter c gp b s = Inl AttributeError"
  by (simp add: overlap_iter_def single_module_iter_def recv_new_request_def has_attn_def)

section \<open>From attention to the experts\<close>

lemma duplicate_vector_length: "length (duplicate_vector xs k) = length xs * k"
  by (simp add: duplicate_vector_def length_concat sum_list_replicate mult.commute)

lemma duplicate_vector_nth:
  "t < length xs * k \<Longrightarrow> duplicate_vector xs k ! t = xs ! (t mod length xs)"
proof (induction k arbitrary: t)
  case (Suc k)
  have e: "duplicate_vector xs (Suc k) = xs @ duplicate_vector xs k" by (simp add: duplicate_vector_def)
  show ?case
  proof (cases "t < length xs")
    case True
    then show ?thesis by (simp add: e nth_append)
  next
    case False
    then have "duplicate_vector xs k ! (t - length xs) = xs ! ((t - length xs) mod length xs)"
      using Suc by (intro Suc.IH) simp
    then show ?thesis using False by (simp add: e nth_append le_mod_geq)
  qed
qed simp

lemma duplicate_topk_fields:
  assumes "md_shape m = n # sh" and "length (md_req_ids m) = n" and "0 < k"
  shows "\<exists>m'. duplicate_topk k m = Inr m' \<and> md_shape m' = n * k # sh \<and>
    md_req_ids m' = duplicate_vector (md_req_ids m) k \<and>
    md_init_prefill_lens m' = duplicate_vector (md_init_prefill_lens m) k \<and>
    md_attn_dp_ranks m' = duplicate_vector (md_attn_dp_ranks m) k \<and>
    md_layer_id m' = md_layer_id m"
  using assms by (simp add: duplicate_topk_def num_tokens_c_def vec_get_def duplicate_vector_def)

lemma execute_batch_attn_staged:
  assumes "execute_batch_attn c gp f e = Inr (f', r, e1)" and "same_at (af_handle f) e1 e2"
    and "af_num_tokens f * ec_top_k c = length (ar_ids r)" and "length (ar_weights r) = length (ar_ids r)"
  shows "af_meta f' = af_meta f \<and> af_num_tokens f' = af_num_tokens f \<and>
    (if af_use_graph f' then copy_to_host (af_handle f') (length (ar_ids r)) (en_ids_gdr e2)
     else ar_ids r) = ar_ids r \<and>
    (if af_use_graph f' then copy_to_host (af_handle f') (length (ar_ids r)) (en_weights_gdr e2)
     else ar_weights r) = ar_weights r"
  using assms
  by (cases "ec_graph_attn c \<and> fm_num_decode_tokens (af_flash f) \<le> ec_max_attn_graph_bsz c")
    (clarsimp simp: execute_batch_attn_def res Let_def same_at_def copy_to_host_def copy_into_def
        dest!: sym [of "_ @ _"])+

text \<open>
  C23: A run of the attention layer over n tokens with k experts each (ids below 128), on the
  eager or on the CUDA-graph path, and the postprocessing of its result in any later state of the
  engine in which the two staging buffers of the batch still hold what the run left in them: the
  batch that is sent on has n * k rows sorted by expert. There is a permutation of the (token,
  choice) pairs such that the row of pair t carries the hidden state of token t div k and the
  expert and weight that the run chose for it, read from the staging buffers on the graph path
  and from the result otherwise. Its request id, however, is the one of token t mod n: the
  metadata are duplicated block-wise, the rows token-wise.
\<close>

theorem attn_routing:
  assumes run: "execute_batch_attn c gp f e = Inr (f', r, e1)"
    and keep: "same_at (af_handle f) e1 e2"
    and sh: "md_shape (af_meta f) = n # sh" "af_num_tokens f = n"
    and n: "0 < n" and k: "0 < k" "ec_top_k c = k"
    and len: "length (md_req_ids (af_meta f)) = n" "length (md_init_prefill_lens (af_meta f)) = n"
      "length (md_attn_dp_ranks (af_meta f)) = n" "length (ar_hiddens r) = n"
    and ids: "length (ar_ids r) = n * k" "length (ar_weights r) = n * k"
      "\<forall>i \<in> set (ar_ids r). i < max_num_experts"
  shows "\<exists>ps out. postprocess_batch_attn c e2 f' r = Inr out \<and> permutes_upto (n * k) ps \<and>
    length (tb_data out) = n * k \<and> sorted (md_exp_ids (tb_meta out)) \<and>
    (\<forall>t < n * k. tb_data out ! (ps ! t) = ar_hiddens r ! (t div k) \<and>
       md_exp_ids (tb_meta out) ! (ps ! t) = ar_ids r ! t \<and>
       md_topk_weights (tb_meta out) ! (ps ! t) = ar_weights r ! t \<and>
       md_req_ids (tb_meta out) ! (ps ! t) = md_req_ids (af_meta f) ! (t mod n))"
proof -
  obtain m where m: "duplicate_topk k (af_meta f) = Inr m" "md_shape m = n * k # sh"
      "md_req_ids m = duplicate_vector (md_req_ids (af_meta f)) k"
      "md_init_prefill_lens m = duplicate_vector (md_init_prefill_lens (af_meta f)) k"
      "md_attn_dp_ranks m = duplicate_vector (md_attn_dp_ranks (af_meta f)) k"
    using duplicate_topk_fields [OF sh(1) len(1) k(1)] by blast
  let ?m = "m\<lparr>md_exp_ids := ar_ids r, md_topk_weights := ar_weights r\<rparr>"
  have tk: "per_token ?m" using m len ids by (simp add: per_token_def duplicate_vector_length)
  have nk: "length (md_req_ids ?m) = n * k" using m len by (simp add: duplicate_vector_length)
  obtain ps m' where s: "sort_by_expert ?m = Inr (ps, m')" "permutes_upto (n * k) ps"
      "\<forall>t < length ps. token_info m' (ps ! t) = token_info ?m t" "sorted (md_exp_ids m')"
    using sort_by_expert_sorts [of ?m] tk ids(3) nk by auto
  have lp: "length ps = n * k" using s(2) by (simp add: permutes_upto_def)
  have rows: "ar_hiddens r \<noteq> []" using len(4) n by auto
  obtain out where out: "permute_tokens (ar_hiddens r) ps = Inr out" "length out = n * k"
      "\<forall>t < n * k. out ! (ps ! t) = Some (ar_hiddens r ! (t div k))"
    using permute_tokens_scatter [OF rows k(1), of ps] s(2) len(4) by auto
  let ?out = "\<lparr>tb_data = map the out,
     tb_meta = m'\<lparr>md_attn_dp_ranks := replicate (length (ar_ids r)) (ec_attn_dp_rank c)\<rparr>\<rparr>"
  have "postprocess_batch_attn c e2 f' r = Inr ?out"
    using execute_batch_attn_staged [OF run keep] m(1) s(1) out(1) k(2) sh(2) ids(1,2)
    by (cases "af_use_graph f'") (simp_all add: postprocess_batch_attn_def Let_def)
  moreover have "\<forall>t < n * k. tb_data ?out ! (ps ! t) = ar_hiddens r ! (t div k) \<and>
       md_exp_ids (tb_meta ?out) ! (ps ! t) = ar_ids r ! t \<and>
       md_topk_weights (tb_meta ?out) ! (ps ! t) = ar_weights r ! t \<and>
       md_req_ids (tb_meta ?out) ! (ps ! t) = md_req_ids (af_meta f) ! (t mod n)"
  proof (intro allI impI)
    fix t assume t: "t < n * k"
    have "ps ! t < length out"
      using s(2) t lp out(2) nth_mem [of t ps] by (simp add: permutes_upto_def)
    then show "tb_data ?out ! (ps ! t) = ar_hiddens r ! (t div k) \<and>
       md_exp_ids (tb_meta ?out) ! (ps ! t) = ar_ids r ! t \<and>
       md_topk_weights (tb_meta ?out) ! (ps ! t) = ar_weights r ! t \<and>
       md_req_ids (tb_meta ?out) ! (ps ! t) = md_req_ids (af_meta f) ! (t mod n)"
      using s(3) t lp out(3) duplicate_vector_nth [of t "md_req_ids (af_meta f)" k] len(1) m(3)
      by (simp add: token_info_def)
  qed
  ultimately show ?thesis using s(2,4) out(2) by (intro exI [of _ ps] exI [of _ ?out]) simp
qed

definition demo_forward :: attn_forward where
  "demo_forward = \<lparr>af_layer_id = 0, af_data = [[1], [2]], af_num_tokens = 2, af_positions = [3, 4], af_req_ids = [7, 8],
     af_flash = pack_flash 2 [3, 4] [[0], [1]] [2, 7] [2, 3] [0, 3, 7],
     af_meta = (demo_meta 0 AttentionTag)\<lparr>md_shape := [2, 8], md_req_ids := [7, 8],
       md_init_prefill_lens := [-1, -1], md_attn_dp_ranks := [0, 0], md_topk_weights := [1, 1]\<rparr>,
     af_handle = 0, af_use_graph = False\<rparr>"

definition demo_attn_result :: attn_result where
  "demo_attn_result = \<lparr>ar_hiddens = [[1], [2]], ar_ids = [3, 0, 1, 3], ar_weights = [1, 1, 1, 1]\<rparr>"

lemma demo_attn_run:
  "map_sum id (\<lambda>(f', r, e1). (af_use_graph f', length (ar_hiddens r), ar_ids r, length (ar_weights r)))
     (execute_batch_attn demo_engine_config demo_gpu demo_forward demo_engine)
   = Inr (True, 2, [3, 1, 3, 1], 4)"
  by code_simp

theorem attn_routing_witness:
  "\<exists>f' r e1 ps out. execute_batch_attn demo_engine_config demo_gpu demo_forward demo_engine = Inr (f', r, e1) \<and>
     af_use_graph f' \<and> postprocess_batch_attn demo_engine_config e1 f' r = Inr out \<and>
     permutes_upto 4 ps \<and> sorted (md_exp_ids (tb_meta out)) \<and> length (tb_data out) = 4"
proof -
  obtain f' r e1 where run: "execute_batch_attn demo_engine_config demo_gpu demo_forward demo_engine
      = Inr (f', r, e1)" and g: "af_use_graph f'" and r: "length (ar_hiddens r) = 2"
      "ar_ids r = [3, 1, 3, 1]" "length (ar_weights r) = 4"
    using demo_attn_run
    by (cases "execute_batch_attn demo_engine_config demo_gpu demo_forward demo_engine") auto
  have "same_at (af_handle demo_forward) e1 e1" by (simp add: same_at_def)
  from attn_routing [OF run this, of 2 "[8]" 2] r
  have "\<exists>ps out. postprocess_batch_attn demo_engine_config e1 f' r = Inr out \<and>
     permutes_upto 4 ps \<and> sorted (md_exp_ids (tb_meta out)) \<and> length (tb_data out) = 4"
    by (auto simp: demo_forward_def demo_engine_config_def demo_meta_def max_num_experts_def)
  then show ?thesis using run g by blast
qed

text \<open>
  Two tokens of requests 7 and 8, two experts each: the first row for expert 3 is the hidden
  state of request 7, but the metadata label it as request 8.
\<close>

lemma topk_requests_mispaired:
  "map_sum id (\<lambda>b. (md_exp_ids (tb_meta b), md_req_ids (tb_meta b), map (\<lambda>r. r = [2]) (tb_data b)))
     (postprocess_batch_attn demo_engine_config demo_engine
        (demo_forward\<lparr>af_data := [[1], [2]]\<rparr>)
        (demo_attn_result\<lparr>ar_ids := [0, 1, 2, 3]\<rparr>))
   = Inr ([0, 1, 2, 3], [7, 8, 7, 8], [False, False, True, True])"
  by code_simp

section \<open>Sampling at the end of the model\<close>

lemma index_select_in_range:
  "\<forall>i \<in> set is. i < length xs \<Longrightarrow> index_select_vector xs is = Inr (map ((!) xs) is)"
  by (cases "xs = []") (auto simp: index_select_vector_def intro!: mapR_all_Inr)

lemma eos_flags:
  assumes "j < n"
  shows "fold (\<lambda>i l. l[i := False]) is (replicate n True) ! j \<longleftrightarrow> j \<notin> set is"
proof -
  have "j < length l \<Longrightarrow> fold (\<lambda>i l. l[i := False]) is l ! j \<longleftrightarrow> l ! j \<and> j \<notin> set is" for l
  proof (induction "is" arbitrary: l)
    case (Cons i js)
    then show ?case by (cases "i = j") simp_all
  qed simp
  then show ?thesis using assms by simp
qed

text \<open>
  C30: Sampling a batch of distinct requests that the sampler knows, when the block manager can
  release the finished ones: the detokenizer gets one message whose end-of-sequence flags are
  set exactly at the positions of the requests with no token left; the next batch holds, in
  order, the rows and ids of the others, as decode tokens of layer 0; the blocks of exactly the
  finished requests are released; every sampled request has one token less to go.
\<close>

theorem sample_results_splits:
  assumes ok: "sampler_ok (en_sampler e)" and d: "distinct qs"
    and known: "\<forall>q \<in> set qs. tokens_left (en_sampler e) q \<noteq> None"
    and meta: "per_token (tb_meta b)" "md_req_ids (tb_meta b) = qs" "md_shape (tb_meta b) = [length qs, h]"
    and data: "length (tb_data b) = length qs"
    and on: "on = filter (\<lambda>i. goes_on (en_sampler e) (qs ! i)) [0..<length qs]"
    and rel: "cpu_release_seqs (filter (\<lambda>q. \<not> goes_on (en_sampler e) q) qs) (en_blocks e) = Inr blocks"
  shows "\<exists>next e'. sample_results c b e = Inr (next, e') \<and>
    tb_data next = map ((!) (tb_data b)) on \<and> md_req_ids (tb_meta next) = map ((!) qs) on \<and>
    md_init_prefill_lens (tb_meta next) = replicate (length on) (-1) \<and>
    md_layer_id (tb_meta next) = 0 \<and> md_shape (tb_meta next) = [length on, h] \<and>
    (\<exists>msg. en_detok e' = en_detok e @ [msg] \<and> dr_req_ids msg = qs \<and>
      (\<forall>i < length qs. dr_is_eos msg ! i \<longleftrightarrow> \<not> goes_on (en_sampler e) (qs ! i))) \<and>
    en_blocks e' = blocks \<and> sampler_ok (en_sampler e') \<and>
    tokens_left (en_sampler e') = after_sampling (en_sampler e) qs"
proof -
  obtain smp where smp: "sample_once qs (en_sampler e)
      = Inr (on, filter (\<lambda>q. \<not> goes_on (en_sampler e) q) qs, smp)"
      "sampler_ok smp" "tokens_left smp = after_sampling (en_sampler e) qs"
    using sample_once_known [OF ok d known] on by auto
  have r: "\<forall>i \<in> set on. i < length qs" by (simp add: on)
  note tk = meta(1) [unfolded per_token_def meta(2)]
  have sel: "\<exists>m. index_select on (tb_meta b) = Inr m \<and> md_req_ids m = map ((!) qs) on \<and>
      md_shape m = [length on, h]"
    using r tk meta(2,3) by (simp add: index_select_def vec_get_def index_select_in_range)
  then obtain m where m: "index_select on (tb_meta b) = Inr m" "md_req_ids m = map ((!) qs) on"
      "md_shape m = [length on, h]" by blast
  have rows: "mapR (\<lambda>i. py_get (tb_data b) (int i)) on = Inr (map ((!) (tb_data b)) on)"
    using r data by (intro mapR_all_Inr) simp
  let ?next = "\<lparr>tb_data = map ((!) (tb_data b)) on, tb_meta = m\<lparr>md_init_prefill_lens := replicate (length on) (-1),
    md_attn_dp_ranks := replicate (length on) (ec_attn_dp_rank c), md_layer_id := 0\<rparr>\<rparr>"
  let ?e = "e\<lparr>en_sampler := smp, en_blocks := blocks, en_detok := en_detok e @ [decode_result qs on]\<rparr>"
  have "sample_results c b e = Inr (?next, ?e)"
    using smp(1) m(1) rel rows meta(2) by (simp add: sample_results_def Let_def)
  moreover have "\<forall>i < length qs. dr_is_eos (decode_result qs on) ! i \<longleftrightarrow> \<not> goes_on (en_sampler e) (qs ! i)"
    by (simp add: decode_result_def eos_flags on)
  ultimately show ?thesis using smp(2,3) m(2,3)
    by (intro exI [of _ ?next] exI [of _ ?e]) (simp add: decode_result_def)
qed

theorem sample_results_splits_witness:
  "\<exists>next e'. sample_results demo_engine_config \<lparr>tb_data = [[]], tb_meta = demo_meta 1 AttentionTag\<rparr>
       (demo_engine\<lparr>en_sampler := create_request 7 3 sampler_init\<rparr>) = Inr (next, e') \<and>
     md_req_ids (tb_meta next) = [7]"
proof -
  let ?e = "demo_engine\<lparr>en_sampler := create_request 7 3 sampler_init\<rparr>"
  have left: "tokens_left (create_request 7 3 sampler_init) 7 = Some 3" by (simp add: create_request_left)
  then have on: "filter (\<lambda>i. goes_on (en_sampler ?e) ([7] ! i)) [0..<length [7]] = [0]"
    and fin: "filter (\<lambda>q. \<not> goes_on (en_sampler ?e) q) [7] = []"
    by (simp_all add: goes_on_def)
  have rel: "cpu_release_seqs (filter (\<lambda>q. \<not> goes_on (en_sampler ?e) q) [7]) (en_blocks ?e)
      = Inr (en_blocks ?e)"
    unfolding fin by (simp add: cpu_release_seqs_def cb_batch_release_def rm_release_def
        demo_engine_def cpu_init_def rm_init_def)
  have "\<exists>next e'. sample_results demo_engine_config \<lparr>tb_data = [[]], tb_meta = demo_meta 1 AttentionTag\<rparr>
      ?e = Inr (next, e') \<and> tb_data next = map ((!) [[]]) [0] \<and> md_req_ids (tb_meta next) = map ((!) [7]) [0]"
    using sample_results_splits [where e = ?e and qs = "[7]" and c = demo_engine_config and h = 8
        and b = "\<lparr>tb_data = [[]], tb_meta = demo_meta 1 AttentionTag\<rparr>", OF _ _ _ _ _ _ _ on [symmetric] rel]
    by (simp add: left create_request_ok sampler_init_ok per_token_def demo_meta_def) blast
  then obtain nx e' where "sample_results demo_engine_config
      \<lparr>tb_data = [[]], tb_meta = demo_meta 1 AttentionTag\<rparr> ?e = Inr (nx, e')"
      "md_req_ids (tb_meta nx) = [7]" by auto
  then show ?thesis by (intro exI [of _ nx] exI [of _ e']) simp
qed

end
