(* ===== verification/Router.thy ===== *)
theory Router
  imports Utils "HOL-Library.Product_Lexorder"
begin

text \<open>
  The profile-driven router of \<open>disagmoe/models/gate.py\<close>: a recorded profile (request,
  token, layer, chosen experts) is sorted into one routing table per layer, and a lookup
  turns a request id, a token index and a layer into a row of that table.  The Parquet
  reader is a parameter.  The sort is \<open>sort_values\<close> on three columns, modelled as a
  stable sort on the triple.
\<close>

section \<open>Loading the profile\<close>

record profile_row =
  pr_rid :: int
  pr_token_index :: int
  pr_layer :: int
  pr_experts :: "int list"

record profile =
  pf_columns :: "string list"
  pf_rows :: "profile_row list"

record router =
  rt_num_experts :: int
  rt_top_k :: int
  rt_layer_id :: "int option"
  rt_num_profiled_requests :: int
  rt_num_layers :: int
  rt_tokens_per_request :: "int list"
  rt_token_prefix_sum :: "int list"
  rt_total_tokens_per_layer :: int
  rt_routing_data :: "int list list"
  rt_uniform_weight :: real

definition starts_with :: "string \<Rightarrow> string \<Rightarrow> bool" where
  "starts_with p s \<longleftrightarrow> take (length p) s = p"

definition expert_columns :: "profile \<Rightarrow> string list" where
  "expert_columns pf = filter (starts_with ''expert_logical_k'') (pf_columns pf)"

text \<open>The values of the columns are cast to int32 (\<open>to_numpy(dtype=np.int32)\<close>).\<close>

definition experts_i32 :: "profile_row \<Rightarrow> int list" where
  "experts_i32 r = map to_i32 (pr_experts r)"

definition unique_experts :: "profile \<Rightarrow> int set" where
  "unique_experts pf = {e \<in> set (concat (map experts_i32 (pf_rows pf))). 0 \<le> e}"

text \<open>How many profiled experts one expert of the system stands for; None without projection.\<close>

definition project_group :: "int \<Rightarrow> int \<Rightarrow> int option result" where
  "project_group num_unique num_experts =
     (if num_unique = num_experts then Inr None
      else if num_experts < num_unique
      then (if num_experts = 0 then Inl ZeroDivisionError
            else if num_unique mod num_experts = 0 then Inr (Some (num_unique div num_experts))
            else Inl ValueError)
      else Inl ValueError)"

definition project_experts :: "int option \<Rightarrow> int list \<Rightarrow> int list" where
  "project_experts grp es =
     (case grp of None \<Rightarrow> es | Some g \<Rightarrow> map (\<lambda>e. if 0 \<le> e then e div g else e) es)"

definition row_key :: "profile_row \<Rightarrow> int \<times> int \<times> int" where
  "row_key r = (pr_layer r, pr_rid r, pr_token_index r)"

text \<open>The number of different token indices of a request (over the rows that are left).\<close>

definition token_count :: "profile_row list \<Rightarrow> int \<Rightarrow> int" where
  "token_count rows rid = int (card (pr_token_index ` {r \<in> set rows. pr_rid r = rid}))"

definition fill_token_counts :: "profile_row list \<Rightarrow> int \<Rightarrow> int list result" where
  "fill_token_counts rows num_requests =
     foldR (\<lambda>rid counts. py_set counts rid (token_count rows rid))
       (sorted_list_of_set (pr_rid ` set rows)) (replicate (nat num_requests) 0)"

definition layer_rows :: "int option \<Rightarrow> profile_row list \<Rightarrow> profile_row list" where
  "layer_rows layer_id rows =
     (case layer_id of None \<Rightarrow> rows | Some l \<Rightarrow> filter (\<lambda>r. pr_layer r = l) rows)"

definition load_profile ::
  "int \<Rightarrow> int \<Rightarrow> int option \<Rightarrow> profile \<Rightarrow> router result" where
  "load_profile num_experts top_k layer_id pf =
     (if \<not> ({''rid'', ''token_index'', ''layer''} \<subseteq> set (pf_columns pf)) then Inl ValueError
      else if expert_columns pf = [] then Inl ValueError
      else if int (length (expert_columns pf)) \<noteq> top_k then Inl ValueError
      else bindR (project_group (int (card (unique_experts pf))) num_experts) (\<lambda>grp.
        let rows = layer_rows layer_id (pf_rows pf);
            num_requests = int (card (to_i32 ` pr_rid ` set rows))
        in if layer_id = None \<and> rows = [] then Inl ValueError
           else bindR (fill_token_counts rows num_requests) (\<lambda>counts.
             Inr \<lparr>rt_num_experts = num_experts, rt_top_k = top_k, rt_layer_id = layer_id,
                  rt_num_profiled_requests = num_requests,
                  rt_num_layers = (if layer_id \<noteq> None then 1 else Max (to_i32 ` pr_layer ` set rows) + 1),
                  rt_tokens_per_request = counts,
                  rt_token_prefix_sum = prefix_sums 0 counts,
                  rt_total_tokens_per_layer = sum_list counts,
                  rt_routing_data = map (\<lambda>r. project_experts grp (experts_i32 r)) (sort_key row_key rows),
                  rt_uniform_weight = (if 1 < top_k then 1 / real_of_int top_k else 1)\<rparr>)))"

definition router_init ::
  "('b list \<Rightarrow> profile option) \<Rightarrow> 'b list \<Rightarrow> int \<Rightarrow> int \<Rightarrow> int option \<Rightarrow> router result" where
  "router_init parse profile_bytes num_experts top_k layer_id =
     (if profile_bytes = [] then Inl ValueError
      else case parse profile_bytes of None \<Rightarrow> Inl RuntimeError
           | Some pf \<Rightarrow> load_profile num_experts top_k layer_id pf)"

section \<open>Routing\<close>

text \<open>A Python list has no \<open>%\<close> with an integer: the expression raises.\<close>

definition ids_mod :: "id_arg \<Rightarrow> int \<Rightarrow> int list result" where
  "ids_mod ids n =
     (case ids of PyList xs \<Rightarrow> Inl TypeError
      | Tensor xs \<Rightarrow> (if n = 0 \<and> xs \<noteq> [] then Inl RuntimeError else Inr (map (\<lambda>x. x mod n) xs)))"

definition flat_index :: "router \<Rightarrow> int \<Rightarrow> int \<Rightarrow> int \<Rightarrow> int result" where
  "flat_index rt layer_id mapped_rid token_index =
     bindR (py_get (rt_tokens_per_request rt) mapped_rid) (\<lambda>n.
       if n = 0 then Inl RuntimeError
       else bindR (py_get (rt_token_prefix_sum rt) mapped_rid) (\<lambda>before.
         Inr (if rt_layer_id rt \<noteq> None then before + token_index mod n
              else layer_id * rt_total_tokens_per_layer rt + before + token_index mod n)))"

definition route ::
  "router \<Rightarrow> id_arg \<Rightarrow> int list \<Rightarrow> int \<Rightarrow> int \<Rightarrow> (real list list \<times> int list list) result" where
  "route rt request_ids token_indices layer_id top_k =
     (if top_k \<noteq> rt_top_k rt then Inl ValueError
      else bindR (ids_mod request_ids (rt_num_profiled_requests rt)) (\<lambda>mapped_rid.
        bindR (mapR (\<lambda>(r, t). flat_index rt layer_id r t) (zip mapped_rid token_indices)) (\<lambda>flat_idx.
          bindR (mapR (py_get (rt_routing_data rt)) flat_idx) (\<lambda>topk_ids.
            Inr (map (\<lambda>_. replicate (nat top_k) (rt_uniform_weight rt)) topk_ids, topk_ids)))))"

text \<open>
  The call of the simulators: the ids of a table for its own \<open>top_k\<close>.  All three pass the request
  ids as a Python list.
\<close>

definition profile_route :: "router \<Rightarrow> id_arg \<Rightarrow> int list \<Rightarrow> nat \<Rightarrow> int list list result" where
  "profile_route rt request_ids token_indices layer_idx =
     bindR (route rt request_ids token_indices (int layer_idx) (rt_top_k rt)) (\<lambda>(_, topk_ids). Inr topk_ids)"

lemma route_py_list: "top_k = rt_top_k rt \<Longrightarrow> route rt (PyList ids) toks l top_k = Inl TypeError"
  by (simp add: route_def ids_mod_def)

lemma profile_route_list [simp]: "profile_route rt (PyList ids) toks l = Inl TypeError"
  by (simp add: profile_route_def route_py_list)

section \<open>The sorted table of a complete profile\<close>

text \<open>
  A profile is complete for the \<open>L\<close> layers from \<open>b\<close> on, \<open>R\<close> requests and \<open>n r\<close> tokens of request \<open>r\<close> when it
  has one row for each layer, request and token of that grid and no other row.
\<close>

definition grid :: "nat \<Rightarrow> nat \<Rightarrow> nat \<Rightarrow> (nat \<Rightarrow> nat) \<Rightarrow> (int \<times> int \<times> int) list" where
  "grid b L R n =
     concat (map (\<lambda>l. concat (map (\<lambda>r. map (\<lambda>t. (int (b + l), int r, int t)) [0..<n r]) [0..<R])) [0..<L])"

definition complete_profile :: "profile_row list \<Rightarrow> nat \<Rightarrow> nat \<Rightarrow> nat \<Rightarrow> (nat \<Rightarrow> nat) \<Rightarrow> bool" where
  "complete_profile rows b L R n \<longleftrightarrow>
     distinct (map row_key rows) \<and> set (map row_key rows) = set (grid b L R n)"

lemma set_grid:
  "set (grid b L R n) = {(int (b + l), int r, int t) | l r t. l < L \<and> r < R \<and> t < n r}"
  by (fastforce simp: grid_def)

lemma nth_concat_take:
  "i < length xss \<Longrightarrow> j < length (xss ! i) \<Longrightarrow>
   concat xss ! (sum_list (map length (take i xss)) + j) = xss ! i ! j"
proof (induction xss arbitrary: i)
  case (Cons xs xss)
  then show ?case by (cases i) (simp_all add: nth_append)
qed simp

lemma length_concat_take:
  "i < length xss \<Longrightarrow> j < length (xss ! i) \<Longrightarrow>
   sum_list (map length (take i xss)) + j < length (concat xss)"
proof (induction xss arbitrary: i)
  case (Cons xs xss)
  then show ?case by (cases i) (simp_all add: length_concat)
qed simp

lemma sorted_concat_map:
  fixes f :: "nat \<Rightarrow> ('a::linorder) list"
  assumes "\<And>i. sorted (f i)" and "\<And>i j x y. i < j \<Longrightarrow> x \<in> set (f i) \<Longrightarrow> y \<in> set (f j) \<Longrightarrow> x \<le> y"
  shows "sorted (concat (map f [0..<n]))"
  using assms by (induction n) (auto simp: sorted_append)

lemma sorted_grid: "sorted (grid b L R n)"
  unfolding grid_def
proof (rule sorted_concat_map)
  fix l
  show "sorted (concat (map (\<lambda>r. map (\<lambda>t. (int (b + l), int r, int t)) [0..<n r]) [0..<R]))"
  proof (rule sorted_concat_map)
    fix r show "sorted (map (\<lambda>t. (int (b + l), int r, int t)) [0..<n r])"
      by (auto simp: sorted_iff_nth_mono)
  qed auto
qed auto

lemma distinct_concat_map:
  assumes "\<And>i. distinct (f i)" and "\<And>i j. i < j \<Longrightarrow> set (f i) \<inter> set (f j) = {}"
  shows "distinct (concat (map f [0..<(n::nat)]))"
  using assms by (induction n) (auto, blast)

lemma distinct_grid: "distinct (grid b L R n)"
  unfolding grid_def
  by (intro distinct_concat_map) (auto simp: distinct_map inj_on_def)

lemma complete_profile_keys:
  assumes "complete_profile rows b L R n"
  shows "map row_key (sort_key row_key rows) = grid b L R n"
proof (rule sorted_distinct_set_unique)
  have "mset (map row_key (sort_key row_key rows)) = mset (map row_key rows)" by simp
  then show "distinct (map row_key (sort_key row_key rows))"
    using assms unfolding complete_profile_def by (metis distinct_count_atmost_1 set_mset_mset)
  show "set (map row_key (sort_key row_key rows)) = set (grid b L R n)"
    using assms by (simp add: complete_profile_def)
qed (simp_all add: sorted_grid distinct_grid)

text \<open>What the loader computes on a complete profile.\<close>

lemma complete_profile_row:
  assumes "complete_profile rows b L R n"
  shows "(\<exists>row\<in>set rows. row_key row = (int (b + l), int r, int t)) \<longleftrightarrow> l < L \<and> r < R \<and> t < n r"
proof -
  have "(\<exists>row\<in>set rows. row_key row = (int (b + l), int r, int t)) \<longleftrightarrow> (int (b + l), int r, int t) \<in> set (grid b L R n)"
    using assms unfolding complete_profile_def by (metis (no_types, lifting) imageE image_eqI set_map)
  then show ?thesis by (auto simp: set_grid)
qed

lemma complete_profile_member:
  assumes "complete_profile rows b L R n" and "row \<in> set rows"
  obtains l r t where "row_key row = (int (b + l), int r, int t)" "l < L" "r < R" "t < n r"
proof -
  have "row_key row \<in> set (grid b L R n)"
    using assms unfolding complete_profile_def by (metis image_eqI set_map)
  then show ?thesis using that by (auto simp: set_grid)
qed

lemma complete_profile_rids:
  assumes "complete_profile rows b L R n" and "0 < L" and "\<And>r. r < R \<Longrightarrow> 0 < n r"
  shows "pr_rid ` set rows = int ` {..<R}"
proof (intro set_eqI iffI)
  fix x assume "x \<in> pr_rid ` set rows"
  then obtain row where row: "row \<in> set rows" "x = pr_rid row" by blast
  then show "x \<in> int ` {..<R}"
    by (auto elim!: complete_profile_member [OF assms(1)] simp: row_key_def)
next
  fix x assume "x \<in> int ` {..<R}"
  then obtain r where r: "r < R" "x = int r" by blast
  then have "\<exists>row\<in>set rows. row_key row = (int (b + 0), int r, int 0)"
    using complete_profile_row [OF assms(1), of 0 r 0] assms(2,3) by simp
  then show "x \<in> pr_rid ` set rows" using r by (force simp: row_key_def image_iff)
qed

lemma complete_profile_count:
  assumes "complete_profile rows b L R n" and "0 < L" and "r < R"
  shows "token_count rows (int r) = int (n r)"
proof -
  have "pr_token_index ` {row \<in> set rows. pr_rid row = int r} = int ` {..<n r}"
  proof (intro set_eqI iffI)
    fix x assume "x \<in> pr_token_index ` {row \<in> set rows. pr_rid row = int r}"
    then obtain row where row: "row \<in> set rows" "pr_rid row = int r" "x = pr_token_index row" by blast
    then show "x \<in> int ` {..<n r}"
      by (auto elim!: complete_profile_member [OF assms(1)] simp: row_key_def)
  next
    fix x assume "x \<in> int ` {..<n r}"
    then obtain t where t: "t < n r" "x = int t" by blast
    then have "\<exists>row\<in>set rows. row_key row = (int (b + 0), int r, int t)"
      using complete_profile_row [OF assms(1), of 0 r t] assms(2,3) by simp
    then show "x \<in> pr_token_index ` {row \<in> set rows. pr_rid row = int r}"
      using t by (auto simp: row_key_def image_iff)
  qed
  then show ?thesis by (simp add: token_count_def card_image)
qed

lemma fill_loop:
  "k \<le> R \<Longrightarrow> foldR (\<lambda>rid counts. py_set counts rid (f rid)) (map int [0..<k]) (replicate R 0)
     = Inr (map (\<lambda>r. f (int r)) [0..<k] @ replicate (R - k) 0)"
proof (induction k)
  case (Suc k)
  obtain m where m: "R - k = Suc m" "R - Suc k = m" using Suc.prems by (metis Suc_diff_Suc Suc_le_lessD)
  then show ?case using Suc by (simp add: foldR_append list_update_append)
qed simp

lemma sorted_list_of_int_lessThan: "sorted_list_of_set (int ` {..<R}) = map int [0..<R]"
proof (rule sorted_distinct_set_unique)
  show "sorted (map int [0..<R])" by (simp add: sorted_wrt_map)
qed (auto simp: distinct_map)

lemma fill_token_counts_complete:
  assumes "complete_profile rows b L R n" and "0 < L" and "\<And>r. r < R \<Longrightarrow> 0 < n r"
  shows "fill_token_counts rows (int R) = Inr (map (\<lambda>r. int (n r)) [0..<R])"
proof -
  have "map (\<lambda>r. token_count rows (int r)) [0..<R] = map (\<lambda>r. int (n r)) [0..<R]"
    by (rule map_cong) (simp_all add: complete_profile_count [OF assms(1,2)])
  moreover have "sorted_list_of_set (pr_rid ` set rows) = map int [0..<R]"
    by (simp only: complete_profile_rids [OF assms] sorted_list_of_int_lessThan)
  ultimately show ?thesis
    using fill_loop [of R R "token_count rows"] by (simp add: fill_token_counts_def)
qed

text \<open>The cast of the request ids cannot merge two of them unnoticed: the table of counts would be too short.\<close>

lemma fill_indices:
  "foldR (\<lambda>rid counts. py_set counts rid (f rid)) (map int ks) xs = Inr ys \<Longrightarrow> k \<in> set ks \<Longrightarrow> k < length xs"
proof (induction ks arbitrary: xs)
  case (Cons k' ks)
  then obtain zs where zs: "py_set xs (int k') (f (int k')) = Inr zs" "foldR (\<lambda>rid counts. py_set counts rid (f rid)) (map int ks) zs = Inr ys"
    by (auto simp: res)
  have "k' < length xs" "length zs = length xs"
    using zs(1) by (auto simp: py_set_def py_pos_nat split: option.splits if_splits)
  then show ?case using Cons.IH [OF zs(2)] Cons.prems(2) by auto
qed simp

lemma fill_needs_all:
  assumes c: "complete_profile rows b L R n" and "0 < L" and "\<And>r. r < R \<Longrightarrow> 0 < n r"
    and fill: "fill_token_counts rows (int (card (to_i32 ` pr_rid ` set rows))) = Inr counts"
  shows "card (to_i32 ` pr_rid ` set rows) = R"
proof -
  have rids: "pr_rid ` set rows = int ` {..<R}" by (rule complete_profile_rids [OF assms(1-3)])
  have "card (to_i32 ` pr_rid ` set rows) \<le> card (int ` {..<R})" unfolding rids by (rule card_image_le) simp
  then have "card (to_i32 ` pr_rid ` set rows) \<le> R" by (simp add: card_image)
  moreover have "R \<le> card (to_i32 ` pr_rid ` set rows)"
  proof (cases R)
    case (Suc R')
    have "R' < length (replicate (card (to_i32 ` pr_rid ` set rows)) (0 :: int))"
      using fill Suc by (intro fill_indices [where ks = "[0..<R]"])
        (simp_all add: fill_token_counts_def rids sorted_list_of_int_lessThan del: upt_Suc)
    then show ?thesis using Suc by simp
  qed simp
  ultimately show ?thesis by simp
qed

lemma load_profile_complete:
  assumes "load_profile E k layer_id pf = Inr rt"
    and "project_group (int (card (unique_experts pf))) E = Inr grp"
    and "complete_profile (layer_rows layer_id (pf_rows pf)) b L R n" and "0 < L" and "\<And>r. r < R \<Longrightarrow> 0 < n r"
  shows "rt_top_k rt = k" "rt_layer_id rt = layer_id" "rt_num_profiled_requests rt = int R"
    "rt_tokens_per_request rt = map (\<lambda>r. int (n r)) [0..<R]"
    "rt_token_prefix_sum rt = prefix_sums 0 (map (\<lambda>r. int (n r)) [0..<R])"
    "rt_total_tokens_per_layer rt = int (sum_list (map n [0..<R]))"
    "rt_routing_data rt
       = map (\<lambda>r. project_experts grp (experts_i32 r)) (sort_key row_key (layer_rows layer_id (pf_rows pf)))"
    "rt_uniform_weight rt = (if 1 < k then 1 / real_of_int k else 1)"
proof -
  define rows where "rows = layer_rows layer_id (pf_rows pf)"
  have c: "complete_profile rows b L R n" using assms(3) by (simp add: rows_def)
  obtain counts where "fill_token_counts rows (int (card (to_i32 ` pr_rid ` set rows))) = Inr counts"
    using assms(1) unfolding load_profile_def assms(2) bindR_simps rows_def [symmetric] Let_def
    by (auto simp: res split: if_splits)
  then have card: "card (to_i32 ` pr_rid ` set rows) = R" using fill_needs_all [OF c assms(4,5)] by blast
  have fill: "fill_token_counts rows (int R) = Inr (map (\<lambda>r. int (n r)) [0..<R])"
    by (rule fill_token_counts_complete [OF c assms(4,5)])
  note rt = assms(1) [unfolded load_profile_def assms(2) bindR_simps
      rows_def [symmetric] Let_def card fill]
  show "rt_top_k rt = k" "rt_layer_id rt = layer_id" "rt_num_profiled_requests rt = int R"
    "rt_tokens_per_request rt = map (\<lambda>r. int (n r)) [0..<R]"
    "rt_token_prefix_sum rt = prefix_sums 0 (map (\<lambda>r. int (n r)) [0..<R])"
    "rt_routing_data rt
       = map (\<lambda>r. project_experts grp (experts_i32 r)) (sort_key row_key (layer_rows layer_id (pf_rows pf)))"
    "rt_uniform_weight rt = (if 1 < k then 1 / real_of_int k else 1)"
    using rt by (auto simp: fill rows_def [symmetric] split: if_splits)
  have "int (sum_list (map n [0..<R])) = sum_list (map (\<lambda>r. int (n r)) [0..<R])"
    by (induction R) simp_all
  then show "rt_total_tokens_per_layer rt = int (sum_list (map n [0..<R]))"
    using rt by (auto simp: fill split: if_splits)
qed

text \<open>The flat index is the position of its key in the sorted table.\<close>

lemma nth_grid:
  assumes "l < L" and "r < R" and "t < n r"
  defines "T \<equiv> sum_list (map n [0..<R])"
  shows "l * T + sum_list (map n [0..<r]) + t < length (grid b L R n)"
    and "grid b L R n ! (l * T + sum_list (map n [0..<r]) + t) = (int (b + l), int r, int t)"
proof -
  define row where "row l r = map (\<lambda>t. (int (b + l), int r, int t)) [0..<n r]" for l r
  define layer where "layer l = concat (map (row l) [0..<R])" for l
  have g: "grid b L R n = concat (map layer [0..<L])" by (simp add: grid_def layer_def [abs_def] row_def [abs_def])
  have len_row: "length (row l r) = n r" for l r by (simp add: row_def)
  have len_layer: "length (layer l) = T" for l
    by (simp add: layer_def length_concat len_row T_def comp_def)
  have pre_l: "sum_list (map length (take l (map layer [0..<L]))) = l * T"
    using assms(1) by (simp add: take_map len_layer comp_def sum_list_triv)
  have pre_r: "sum_list (map length (take r (map (row l) [0..<R]))) = sum_list (map n [0..<r])"
    using assms(2) by (simp add: take_map len_row comp_def)
  define j where "j = sum_list (map n [0..<r]) + t"
  have j: "j < length (layer l)" "layer l ! j = (int (b + l), int r, int t)"
    using length_concat_take [of r "map (row l) [0..<R]" t] nth_concat_take [of r "map (row l) [0..<R]" t]
      assms(2,3) unfolding pre_r j_def layer_def [symmetric]
    by (simp_all add: len_row) (simp add: row_def)
  show "l * T + sum_list (map n [0..<r]) + t < length (grid b L R n)"
    using length_concat_take [of l "map layer [0..<L]" j] assms(1) j(1)
    unfolding g pre_l by (simp add: j_def)
  show "grid b L R n ! (l * T + sum_list (map n [0..<r]) + t) = (int (b + l), int r, int t)"
    using nth_concat_take [of l "map layer [0..<L]" j] assms(1) j
    unfolding g pre_l by (simp add: j_def add.assoc)
qed

lemma mapR_map: "mapR f (map g xs) = mapR (\<lambda>x. f (g x)) xs"
  by (induction xs) simp_all

text \<open>One lookup, with the request and the token reduced as the code reduces them.\<close>

lemma flat_index_complete:
  assumes rt: "rt_layer_id rt = layer_id" "rt_tokens_per_request rt = map (\<lambda>r. int (n r)) [0..<R]"
      "rt_token_prefix_sum rt = prefix_sums 0 (map (\<lambda>r. int (n r)) [0..<R])"
      "rt_total_tokens_per_layer rt = int (sum_list (map n [0..<R]))"
    and r: "r < R" "0 < n r" and l: "layer_id = None \<or> l = 0"
  shows "flat_index rt (int l) (int r) tok = Inr (int (l * sum_list (map n [0..<R])
    + sum_list (map n [0..<r]) + nat (tok mod int (n r))))"
proof -
  have pre: "prefix_sums 0 (map (\<lambda>r. int (n r)) [0..<R]) ! r = int (sum_list (map n [0..<r]))"
  proof -
    have "sum_list (map (\<lambda>r. int (n r)) [0..<r]) = int (sum_list (map n [0..<r]))"
      by (induction r) simp_all
    then show ?thesis using r(1) by (simp add: prefix_sums_nth take_map)
  qed
  have m: "0 \<le> tok mod int (n r)" using r(2) by simp
  have g1: "py_get (map (\<lambda>r. int (n r)) [0..<R]) (int r) = Inr (int (n r))"
    using r(1) by (subst py_get_nat) simp_all
  have g2: "py_get (prefix_sums 0 (map (\<lambda>r. int (n r)) [0..<R])) (int r) = Inr (int (sum_list (map n [0..<r])))"
    using r(1) by (subst py_get_nat) (simp_all add: prefix_sums_length pre)
  show ?thesis
    using l r m by (auto simp: flat_index_def rt g1 g2)
qed

lemma routing_row:
  assumes c: "complete_profile rows b L R n" and "l < L" "r < R" "t < n r"
  defines "i \<equiv> l * sum_list (map n [0..<R]) + sum_list (map n [0..<r]) + t"
  shows "i < length rows \<and> sort_key row_key rows ! i \<in> set rows \<and>
    row_key (sort_key row_key rows ! i) = (int (b + l), int r, int t)"
proof -
  have keys: "map row_key (sort_key row_key rows) = grid b L R n" by (rule complete_profile_keys [OF c])
  then have "length (grid b L R n) = length rows" by (metis length_map length_sort)
  then have i: "i < length rows" using nth_grid(1) [where n = n and b = b, OF assms(2-4)] by (simp add: i_def)
  have "row_key (sort_key row_key rows ! i) = map row_key (sort_key row_key rows) ! i"
    using i by simp
  also have "\<dots> = (int (b + l), int r, int t)"
    unfolding keys i_def by (rule nth_grid(2) [where n = n, OF assms(2-4)])
  moreover have "sort_key row_key rows ! i \<in> set rows"
    using i by (metis length_sort nth_mem set_sort)
  ultimately show ?thesis using i by simp
qed

text \<open>
  C28: On a complete profile (one row for each layer, request and token) the router returns,
  for every request id and token index, the experts the profile recorded for that layer,
  the request reduced modulo the profiled requests and the token reduced modulo that
  request's tokens, as int32 values projected to the system's experts.  With \<open>layer_id\<close> given the table
  holds that layer only and the layer argument is not used for the index.
\<close>

theorem route_returns_profile:
  assumes load: "load_profile E k layer_id pf = Inr rt"
    and grp: "project_group (int (card (unique_experts pf))) E = Inr grp"
    and c: "complete_profile (layer_rows layer_id (pf_rows pf)) b L R n"
    and pos: "0 < L" "0 < R" "\<And>r. r < R \<Longrightarrow> 0 < n r"
    and l: "l < L" "layer_id = None \<or> l = 0" and len: "length rids = length toks"
  shows "\<exists>ids. route rt (Tensor rids) toks (int l) k
      = Inr (replicate (length rids) (replicate (nat k) (rt_uniform_weight rt)), ids) \<and>
    list_all2 (\<lambda>(rid, tok) es. \<exists>row. row \<in> set (pf_rows pf) \<and> es = project_experts grp (experts_i32 row) \<and>
      row_key row = (int (b + l), rid mod int R, tok mod int (n (nat (rid mod int R)))))
      (zip rids toks) ids"
proof -
  define rows where "rows = layer_rows layer_id (pf_rows pf)"
  have c': "complete_profile rows b L R n" using c by (simp add: rows_def)
  note rt = load_profile_complete [OF load grp c pos(1,3)]
  define idx where "idx = (\<lambda>(rid, tok). l * sum_list (map n [0..<R]) + sum_list (map n [0..<nat (rid mod int R)])
    + nat (tok mod int (n (nat (rid mod int R)))))"
  define row_at where "row_at = (\<lambda>p. sort_key row_key rows ! idx p)"
  have R: "nat (rid mod int R) < R" "int (nat (rid mod int R)) = rid mod int R" for rid
    using pos(2) by (simp_all add: nat_less_iff)
  have tok: "nat (tok mod int (n r)) < n r" "int (nat (tok mod int (n r))) = tok mod int (n r)"
    if "r < R" for tok r
    using pos(3) [OF that] by (simp_all add: nat_less_iff)
  have flat: "flat_index rt (int l) (rid mod int R) t = Inr (int (idx (rid, t)))" for rid t
    using flat_index_complete [OF rt(2,4,5,6) R(1) pos(3) [OF R(1)] l(2), of rid t]
    unfolding R(2) by (simp only: idx_def prod.case)
  have row: "idx (rid, t) < length rows \<and> row_at (rid, t) \<in> set rows \<and>
      row_key (row_at (rid, t)) = (int (b + l), rid mod int R, t mod int (n (nat (rid mod int R))))" for rid t
    using routing_row [OF c' l(1) R(1) tok(1) [OF R(1)], of rid t]
    unfolding R(2) tok(2) [OF R(1)] row_at_def idx_def prod.case .
  have sub: "set rows \<subseteq> set (pf_rows pf)"
    by (auto simp: rows_def layer_rows_def split: option.splits)
  define ids where "ids = map (\<lambda>p. project_experts grp (experts_i32 (row_at p))) (zip rids toks)"
  have z: "zip (map (\<lambda>x. x mod int R) rids) toks = map (\<lambda>(r, t). (r mod int R, t)) (zip rids toks)"
    by (simp add: zip_map1)
  have fl: "mapR (\<lambda>(r, t). flat_index rt (int l) r t) (zip (map (\<lambda>x. x mod int R) rids) toks)
      = Inr (map (\<lambda>p. int (idx p)) (zip rids toks))"
    unfolding z mapR_map by (rule mapR_all_Inr) (auto simp: flat)
  have gt: "py_get (rt_routing_data rt) (int (idx p)) = Inr (project_experts grp (experts_i32 (row_at p)))" for p
    using row [of "fst p" "snd p"] by (simp add: rt(7) rows_def [symmetric] row_at_def)
  have ge: "mapR (py_get (rt_routing_data rt)) (map (\<lambda>p. int (idx p)) (zip rids toks)) = Inr ids"
    unfolding ids_def mapR_map by (rule mapR_all_Inr) (simp add: gt)
  have "route rt (Tensor rids) toks (int l) k
      = Inr (replicate (length rids) (replicate (nat k) (rt_uniform_weight rt)), ids)"
    using pos(2) len by (simp add: route_def ids_mod_def rt(1,3) fl ge ids_def map_replicate_const)
  moreover have "list_all2 (\<lambda>(rid, tok) es. \<exists>row. row \<in> set (pf_rows pf) \<and>
      es = project_experts grp (experts_i32 row) \<and>
      row_key row = (int (b + l), rid mod int R, tok mod int (n (nat (rid mod int R)))))
      (zip rids toks) ids"
    using row sub unfolding ids_def list_all2_map2
    by (intro list_all2_refl) (auto intro!: exI)
  ultimately show ?thesis by blast
qed

definition small_profile :: profile where
  "small_profile = \<lparr>pf_columns = [''rid'', ''token_index'', ''layer'', ''expert_logical_k0''],
     pf_rows = [\<lparr>pr_rid = 1, pr_token_index = 0, pr_layer = 0, pr_experts = [1]\<rparr>,
       \<lparr>pr_rid = 0, pr_token_index = 0, pr_layer = 1, pr_experts = [3]\<rparr>,
       \<lparr>pr_rid = 0, pr_token_index = 0, pr_layer = 0, pr_experts = [2]\<rparr>,
       \<lparr>pr_rid = 1, pr_token_index = 0, pr_layer = 1, pr_experts = [0]\<rparr>]\<rparr>"

lemma small_profile_facts:
  "project_group (int (card (unique_experts small_profile))) 2 = Inr (Some 2)"
  "complete_profile (layer_rows None (pf_rows small_profile)) 0 2 2 (\<lambda>_. 1)"
  "\<not> isl (load_profile 2 1 None small_profile)"
  "\<not> isl (load_profile 2 1 (Some (int 1)) small_profile)"
  by code_simp+

theorem route_returns_profile_witness:
  "\<exists>ids. route (projr (load_profile 2 1 None small_profile)) (Tensor [2, 5]) [7, 9] (int 1) 1
      = Inr (replicate 2 (replicate 1 (rt_uniform_weight (projr (load_profile 2 1 None small_profile)))), ids) \<and>
    list_all2 (\<lambda>(rid, tok) es. \<exists>row. row \<in> set (pf_rows small_profile) \<and>
      es = project_experts (Some 2) (experts_i32 row) \<and>
      row_key row = (int (0 + 1), rid mod int 2, tok mod int ((\<lambda>_. 1) (nat (rid mod int 2)))))
      (zip [2, 5] [7, 9]) ids"
  using route_returns_profile [where rids = "[2, 5]" and toks = "[7, 9]" and l = 1 and L = 2 and R = 2
      and n = "\<lambda>_. 1" and b = 0 and grp = "Some 2" and pf = small_profile and E = 2 and k = 1
      and layer_id = None and rt = "projr (load_profile 2 1 None small_profile)"]
    small_profile_facts by (simp add: numeral_2_eq_2 [symmetric])

text \<open>
  Loading a profile for one layer gives the same routing as the full table: for every
  list of ids and tokens the two routers return the same weights and the same experts,
  although their flat indices differ.
\<close>

theorem route_layer_agrees:
  assumes all: "load_profile E k None pf = Inr rt" and one: "load_profile E k (Some (int l)) pf = Inr rt1"
    and c: "complete_profile (pf_rows pf) 0 L R n" and l: "l < L"
    and pos: "0 < R" "\<And>r. r < R \<Longrightarrow> 0 < n r" and len: "length rids = length toks"
  shows "route rt1 (Tensor rids) toks (int 0) k = route rt (Tensor rids) toks (int l) k"
proof -
  obtain grp where grp: "project_group (int (card (unique_experts pf))) E = Inr grp"
    using all by (auto simp: load_profile_def res split: if_splits)
  have c0: "complete_profile (layer_rows None (pf_rows pf)) 0 L R n" using c by (simp add: layer_rows_def)
  have dist: "inj_on row_key (set (pf_rows pf))"
    using c by (simp add: complete_profile_def distinct_map)
  have c1: "complete_profile (layer_rows (Some (int l)) (pf_rows pf)) l 1 R n"
  proof -
    have "row_key ` {r \<in> set (pf_rows pf). pr_layer r = int l}
        = {key \<in> row_key ` set (pf_rows pf). fst key = int l}"
      by (rule set_eqI) (fastforce simp: row_key_def image_iff)
    also have "row_key ` set (pf_rows pf) = set (grid 0 L R n)"
      using c by (simp add: complete_profile_def)
    also have "{key \<in> set (grid 0 L R n). fst key = int l} = set (grid l 1 R n)"
      using l by (auto simp: set_grid)
    finally show ?thesis
      using c unfolding complete_profile_def layer_rows_def by (simp add: distinct_map_filter)
  qed
  note r0 = route_returns_profile [OF all grp c0 _ pos l disjI1 [OF refl] len]
  note r1 = route_returns_profile [OF one grp c1 zero_less_one pos zero_less_one disjI2 [OF refl] len]
  have w: "rt_uniform_weight rt = rt_uniform_weight rt1"
    using load_profile_complete(8) [OF all grp c0 _ pos(2)] load_profile_complete(8) [OF one grp c1 _ pos(2)] l
    by simp
  define Q where "Q = (\<lambda>(rid, tok) es. \<exists>row. row \<in> set (pf_rows pf) \<and> es = project_experts grp (experts_i32 row) \<and>
      row_key row = (int l, rid mod int R, tok mod int (n (nat (rid mod int R)))))"
  obtain i0 where i0: "route rt (Tensor rids) toks (int l) k
      = Inr (replicate (length rids) (replicate (nat k) (rt_uniform_weight rt)), i0)"
      and q0: "list_all2 Q (zip rids toks) i0"
    using r0 l by (auto simp: Q_def)
  obtain i1 where i1: "route rt1 (Tensor rids) toks (int 0) k
      = Inr (replicate (length rids) (replicate (nat k) (rt_uniform_weight rt1)), i1)"
      and q1: "list_all2 Q (zip rids toks) i1"
    using r1 by (auto simp: Q_def)
  have uniq: "x = y" if qx: "Q p x" and qy: "Q p y" for p x y
  proof -
    obtain rid tok where p: "p = (rid, tok)" by (cases p)
    obtain row1 row2 where r: "row1 \<in> set (pf_rows pf)" "row2 \<in> set (pf_rows pf)"
        "row_key row1 = row_key row2" "x = project_experts grp (experts_i32 row1)"
        "y = project_experts grp (experts_i32 row2)"
      using qx qy unfolding Q_def p prod.case by fastforce
    have "row1 = row2" by (rule inj_onD [OF dist r(3,1,2)])
    then show ?thesis using r(4,5) by simp
  qed
  have "i0 = i1"
  proof (rule nth_equalityI)
    show "length i0 = length i1"
      using list_all2_lengthD [OF q0] list_all2_lengthD [OF q1] by simp
    fix i assume "i < length i0"
    then have "i < length (zip rids toks)" using list_all2_lengthD [OF q0] by simp
    from list_all2_nthD [OF q0 this] list_all2_nthD [OF q1 this] show "i0 ! i = i1 ! i"
      by (rule uniq)
  qed
  then show ?thesis by (simp only: i0 i1 w)
qed

theorem route_layer_agrees_witness:
  "route (projr (load_profile 2 1 (Some (int 1)) small_profile)) (Tensor [2, 5]) [7, 9] (int 0) 1
   = route (projr (load_profile 2 1 None small_profile)) (Tensor [2, 5]) [7, 9] (int 1) 1"
  using route_layer_agrees [where rids = "[2, 5]" and toks = "[7, 9]" and l = 1 and L = 2 and R = 2
      and n = "\<lambda>_. 1" and pf = small_profile and E = 2 and k = 1
      and rt = "projr (load_profile 2 1 None small_profile)"
      and ?rt1.0 = "projr (load_profile 2 1 (Some (int 1)) small_profile)"]
    small_profile_facts by (simp add: layer_rows_def)

text \<open>The uniform weights of a row sum to one.\<close>

lemma uniform_weight_sum:
  assumes "load_profile E k layer_id pf = Inr rt" and "1 \<le> k"
  shows "sum_list (replicate (nat k) (rt_uniform_weight rt)) = 1"
  using assms by (auto simp: load_profile_def Let_def res sum_list_replicate split: if_splits)

text \<open>
  The projection keeps expert ids below the system's count only if the profiled ids are
  the contiguous range from zero: then there are as many ids as the bound of the range.
\<close>

lemma project_experts_bound:
  assumes "project_group (int (card (unique_experts pf))) E = Inr grp" and "0 < E"
    and "unique_experts pf = {0..<M}" and "row \<in> set (pf_rows pf)" and "e \<in> set (project_experts grp (experts_i32 row))"
  shows "e < E"
proof -
  have in_range: "x < M" if "x \<in> set (experts_i32 row)" "0 \<le> x" for x
    using assms(3,4) that by (auto simp: unique_experts_def)
  show ?thesis
  proof (cases "M \<le> 0")
    case True
    then have "x < 0" if "x \<in> set (experts_i32 row)" for x using in_range [OF that] by linarith
    then have neg: "\<forall>x\<in>set (experts_i32 row). x < 0" by blast
    have "e < 0" using assms(5) neg unfolding project_experts_def
      by (auto split: option.splits)
    then show ?thesis using assms(2) by simp
  next
    case False
    then have card: "int (card (unique_experts pf)) = M" using assms(3) by simp
    show ?thesis
    proof (cases grp)
      case None
      then have "M = E" using assms(1,2) card by (auto simp: project_group_def split: if_splits)
      then show ?thesis using in_range [of e] assms(2,5) None by (force simp: project_experts_def)
    next
      case (Some g)
      then have g: "M mod E = 0" "g = M div E" "E < M"
        using assms(1,2) card by (auto simp: project_group_def split: if_splits)
      have M: "M = g * E" using g by (metis mult_div_mod_eq add.right_neutral mult.commute)
      have gpos: "0 < g" using False M assms(2) by (metis linorder_not_le zero_less_mult_pos2)
      obtain x where x: "x \<in> set (experts_i32 row)" "e = (if 0 \<le> x then x div g else x)"
        using assms(5) Some by (auto simp: project_experts_def)
      show ?thesis
      proof (cases "0 \<le> x")
        case True
        then have "x < E * g" using in_range [OF x(1)] M by (simp add: mult.commute)
        moreover have "x div g * g \<le> x"
          using gpos div_mult_mod_eq [of x g] pos_mod_sign [OF gpos, of x] by linarith
        ultimately have "x div g * g < E * g" by linarith
        then show ?thesis using x(2) True gpos by simp
      qed (use x(2) assms(2) in simp)
    qed
  qed
qed

end
