(* ===== verification/SimSched.thy ===== *)
theory SimSched
  imports Prelude
begin

text \<open>
  The scheduling policies of the simulated expert worker (\<open>ExpertWorker\<close> of
  \<open>simulation/sim_async.py\<close>): which queue or which layer of the worker's queues
  \<open>queues[layer][local expert]\<close> is served next.  A selected queue is given by its two
  indices.  The locale \<open>layer_policy\<close> states what the worker's loop needs of a policy;
  both layer policies of the code are interpretations of it.
\<close>

type_synonym 'a queues = "'a list list list"

section \<open>Strict maximum\<close>

text \<open>
  The loops of the policies keep the first candidate whose score is strictly above the best
  score so far, starting from score zero.
\<close>

definition pick_step :: "('i \<Rightarrow> real) \<Rightarrow> 'i \<Rightarrow> 'i option \<times> real \<Rightarrow> 'i option \<times> real" where
  "pick_step score i best = (if snd best < score i then (Some i, score i) else best)"

definition pick_max :: "('i \<Rightarrow> real) \<Rightarrow> 'i list \<Rightarrow> 'i option \<times> real" where
  "pick_max score is = fold (pick_step score) is (None, 0)"

lemma pick_max_Nil [simp]: "pick_max score [] = (None, 0)"
  by (simp add: pick_max_def)

lemma pick_max_snoc: "pick_max score (is @ [i]) = pick_step score i (pick_max score is)"
  by (simp add: pick_max_def)

lemma pick_max_score: "0 \<le> snd (pick_max score is) \<and> (\<forall>i\<in>set is. score i \<le> snd (pick_max score is))"
  by (induction "is" rule: rev_induct) (auto simp: pick_max_snoc pick_step_def intro: order_trans less_imp_le)

lemma pick_max_Some:
  "fst (pick_max score is) = Some i \<Longrightarrow>
   i \<in> set is \<and> snd (pick_max score is) = score i \<and> 0 < score i"
proof (induction "is" rule: rev_induct)
  case (snoc j js)
  then show ?case using pick_max_score [of score js]
    by (auto simp: pick_max_snoc pick_step_def split: if_splits)
qed simp

lemma pick_max_None:
  "fst (pick_max score is) = None \<longleftrightarrow> (\<forall>i\<in>set is. score i \<le> 0)"
proof (induction "is" rule: rev_induct)
  case (snoc j js)
  have "fst (pick_max score js) = None \<Longrightarrow> snd (pick_max score js) = 0"
    by (induction js rule: rev_induct) (auto simp: pick_max_snoc pick_step_def split: if_splits)
  then show ?case using snoc pick_max_score [of score js] by (auto simp: pick_max_snoc pick_step_def)
qed simp

lemma pick_max_None_score: "fst (pick_max score is) = None \<Longrightarrow> snd (pick_max score is) = 0"
  by (induction "is" rule: rev_induct) (auto simp: pick_max_snoc pick_step_def split: if_splits)

text \<open>Ties go to the first candidate.\<close>

lemma pick_max_first:
  "fst (pick_max score (is @ i # js)) = Some i \<Longrightarrow> i \<notin> set is \<Longrightarrow> i \<notin> set js \<Longrightarrow>
   \<forall>j\<in>set is. score j < score i"
proof (induction js rule: rev_induct)
  case Nil
  then show ?case using pick_max_score [of score "is"]
    by (auto simp: pick_max_snoc pick_step_def split: if_splits dest: pick_max_Some)
next
  case (snoc j js)
  have "pick_max score (is @ i # js @ [j]) = pick_step score j (pick_max score (is @ i # js))"
    using pick_max_snoc [of score "is @ i # js" j] by simp
  then show ?case using snoc by (auto simp: pick_step_def split: if_splits)
qed

section \<open>Queue lengths\<close>

definition layer_total :: "'a list list \<Rightarrow> nat" where
  "layer_total layer_queues = sum_list (map length layer_queues)"

definition queued_total :: "'a queues \<Rightarrow> nat" where
  "queued_total qs = sum_list (map layer_total qs)"

lemma layer_total_0: "layer_total lq = 0 \<longleftrightarrow> (\<forall>q\<in>set lq. q = [])"
  by (auto simp: layer_total_def)

lemma queued_total_0: "queued_total qs = 0 \<longleftrightarrow> (\<forall>lq\<in>set qs. layer_total lq = 0)"
  by (auto simp: queued_total_def)

section \<open>Queue-level policies\<close>

definition queue_positions :: "'a queues \<Rightarrow> (nat \<times> nat) list" where
  "queue_positions qs = concat (map (\<lambda>i. map (\<lambda>j. (i, j)) [0..<length (qs ! i)]) [0..<length qs])"

definition queue_length :: "'a queues \<Rightarrow> nat \<times> nat \<Rightarrow> real" where
  "queue_length qs ij = real (length (qs ! fst ij ! snd ij))"

definition select_next_queue_longest :: "'a queues \<Rightarrow> (nat \<times> nat) option \<times> real" where
  "select_next_queue_longest qs = pick_max (queue_length qs) (queue_positions qs)"

lemma set_queue_positions: "set (queue_positions qs) = {(i, j). i < length qs \<and> j < length (qs ! i)}"
  by (auto simp: queue_positions_def)

lemma longest_queue_is_longest:
  assumes "select_next_queue_longest qs = (Some (i, j), s)"
  shows "i < length qs \<and> j < length (qs ! i) \<and> qs ! i ! j \<noteq> [] \<and>
    (\<forall>a b. a < length qs \<longrightarrow> b < length (qs ! a) \<longrightarrow> length (qs ! a ! b) \<le> length (qs ! i ! j))"
proof -
  have s: "fst (pick_max (queue_length qs) (queue_positions qs)) = Some (i, j)"
    using assms by (simp add: select_next_queue_longest_def)
  note p = pick_max_Some [OF s]
  have max: "queue_length qs (a, b) \<le> queue_length qs (i, j)" if "(a, b) \<in> set (queue_positions qs)" for a b
    using pick_max_score [of "queue_length qs" "queue_positions qs"] p that by fastforce
  have "qs ! i ! j \<noteq> []" using p by (auto simp: queue_length_def)
  then show ?thesis using p max by (auto simp: set_queue_positions queue_length_def)
qed

text \<open>
  The tokens of the next layers, each weighted by one more factor of the decay; layers wrap
  around.  The loop runs \<open>k\<close> from 1 to \<open>steps - 1\<close>.
\<close>

definition lookahead_step ::
  "real \<Rightarrow> (nat \<Rightarrow> nat) \<Rightarrow> nat \<Rightarrow> nat \<Rightarrow> nat \<Rightarrow> real \<times> real \<Rightarrow> real \<times> real" where
  "lookahead_step weight_decay totals n_layers i k acc =
     (let cur_layer = (i + k) mod n_layers;
          sc = (if 0 < totals cur_layer then fst acc + real (totals cur_layer) * snd acc else fst acc)
      in (sc, snd acc * weight_decay))"

definition lookahead_score :: "real \<Rightarrow> nat \<Rightarrow> (nat \<Rightarrow> nat) \<Rightarrow> nat \<Rightarrow> nat \<Rightarrow> real" where
  "lookahead_score weight_decay steps totals n_layers i =
     fst (fold (lookahead_step weight_decay totals n_layers i) [1..<steps] (0, weight_decay))"

lemma lookahead_score_sum:
  "lookahead_score w (Suc s) totals n i = (\<Sum>k=1..s. real (totals ((i + k) mod n)) * w ^ k)"
proof -
  have "fold (lookahead_step w totals n i) [1..<Suc s] (0, w)
      = (\<Sum>k=1..s. real (totals ((i + k) mod n)) * w ^ k, w ^ Suc s)" for s
  proof (induction s)
    case (Suc s)
    have "[1..<Suc (Suc s)] = [1..<Suc s] @ [Suc s]" by simp
    then show ?case using Suc by (simp add: lookahead_step_def Let_def mult.commute del: upt_Suc)
  qed simp
  then show ?thesis by (simp add: lookahead_score_def del: upt_Suc)
qed

lemma lookahead_score_nonneg: "0 \<le> w \<Longrightarrow> 0 \<le> lookahead_score w s totals n i"
  by (cases s) (simp add: lookahead_score_def, simp add: lookahead_score_sum sum_nonneg)

text \<open>
  \<open>_select_next_queue_defragging_v0\<close>: without layers or groups it returns a pair, in every
  other case a triple.  The debug log it writes is not part of its result and is left out.
\<close>

datatype queue_choice = Choice2 | Choice3 "(nat \<times> nat) option" real

definition defrag_v0_score :: "'a queues \<Rightarrow> nat \<Rightarrow> nat \<times> nat \<Rightarrow> real" where
  "defrag_v0_score qs n_groups ij =
     lookahead_score (95 / 100) 4 (\<lambda>l. layer_total (qs ! l)) (length qs) (fst ij) / real n_groups
     + queue_length qs ij"

definition defrag_v0_step ::
  "'a queues \<Rightarrow> nat \<Rightarrow> nat \<times> nat \<Rightarrow> (nat \<times> nat) option \<times> real \<Rightarrow> (nat \<times> nat) option \<times> real" where
  "defrag_v0_step qs n_groups ij best =
     (if length (qs ! fst ij ! snd ij) = 0 then best
      else if fst best = None \<or> snd best < defrag_v0_score qs n_groups ij
      then (Some ij, defrag_v0_score qs n_groups ij) else best)"

definition select_next_queue_defragging_v0 :: "'a queues \<Rightarrow> nat \<Rightarrow> queue_choice" where
  "select_next_queue_defragging_v0 qs n_groups =
     (if length qs = 0 \<or> n_groups = 0 then Choice2
      else (let best = fold (defrag_v0_step qs n_groups)
                         (concat (map (\<lambda>i. map (\<lambda>j. (i, j)) [0..<n_groups]) [0..<length qs])) (None, 0)
            in Choice3 (fst best) (if fst best = None then 0 else snd best)))"

lemma defrag_v0_result_shape:
  "select_next_queue_defragging_v0 qs g = Choice2 \<longleftrightarrow> qs = [] \<or> g = 0"
  by (simp add: select_next_queue_defragging_v0_def Let_def)

text \<open>Only a non-empty queue is chosen, and one is chosen whenever there is one.\<close>

lemma defrag_v0_nonempty:
  assumes "\<forall>lq\<in>set qs. length lq = g"
  shows "select_next_queue_defragging_v0 qs g = Choice3 (Some (i, j)) s \<Longrightarrow>
      i < length qs \<and> j < g \<and> qs ! i ! j \<noteq> []"
    and "select_next_queue_defragging_v0 qs g = Choice3 None s \<Longrightarrow> queued_total qs = 0"
proof -
  let ?ps = "concat (map (\<lambda>i. map (\<lambda>j. (i, j)) [0..<g]) [0..<length qs])"
  have P: "case fst (fold (defrag_v0_step qs g) ps (None, 0)) of
      None \<Rightarrow> \<forall>ij\<in>set ps. qs ! fst ij ! snd ij = []
    | Some ij \<Rightarrow> ij \<in> set ps \<and> qs ! fst ij ! snd ij \<noteq> []" for ps
  proof (induction ps rule: rev_induct)
    case (snoc p ps)
    define B where "B = fold (defrag_v0_step qs g) ps (None, 0)"
    have e: "fold (defrag_v0_step qs g) (ps @ [p]) (None, 0) = defrag_v0_step qs g p B"
      by (simp add: B_def)
    have b: "case fst B of None \<Rightarrow> \<forall>ij\<in>set ps. qs ! fst ij ! snd ij = []
        | Some ij \<Rightarrow> ij \<in> set ps \<and> qs ! fst ij ! snd ij \<noteq> []"
      using snoc unfolding B_def .
    show ?case
      unfolding e using b by (cases "fst B") (auto simp: defrag_v0_step_def)
  qed simp
  have ps: "set ?ps = {(i, j). i < length qs \<and> j < g}" by auto
  show "select_next_queue_defragging_v0 qs g = Choice3 (Some (i, j)) s \<Longrightarrow>
      i < length qs \<and> j < g \<and> qs ! i ! j \<noteq> []"
    using P [of ?ps] unfolding ps
    by (auto simp: select_next_queue_defragging_v0_def Let_def split: if_splits)
  assume "select_next_queue_defragging_v0 qs g = Choice3 None s"
  then have all: "\<forall>ij\<in>set ?ps. qs ! fst ij ! snd ij = []"
    using P [of ?ps] by (simp add: select_next_queue_defragging_v0_def Let_def split: if_splits)
  show "queued_total qs = 0"
    unfolding queued_total_0 layer_total_0
  proof (intro ballI)
    fix lq q assume "lq \<in> set qs" "q \<in> set lq"
    then obtain i j where "i < length qs" "qs ! i = lq" "j < g" "lq ! j = q"
      using assms by (metis in_set_conv_nth)
    then show "q = []" using all unfolding ps by force
  qed
qed

section \<open>Layer-level policies\<close>

definition select_next_layer_longest_first :: "'a queues \<Rightarrow> nat option \<times> real" where
  "select_next_layer_longest_first qs =
     pick_max (\<lambda>l. real (layer_total (qs ! l))) [0..<length qs]"

definition layer_defrag_score :: "'a queues \<Rightarrow> nat \<Rightarrow> real" where
  "layer_defrag_score qs i =
     (if layer_total (qs ! i) = 0 then 0
      else real (layer_total (qs ! i))
        + lookahead_score (8 / 10) 4 (\<lambda>l. layer_total (qs ! l)) (length qs) i)"

definition select_next_layer_defragging :: "'a queues \<Rightarrow> nat option \<times> real" where
  "select_next_layer_defragging qs =
     (if length qs = 0 then (None, 0)
      else if queued_total qs = 0 then (None, 0)
      else pick_max (layer_defrag_score qs) [0..<length qs])"

definition select_layer :: "string \<Rightarrow> 'a queues \<Rightarrow> nat option \<times> real" where
  "select_layer policy qs =
     (if policy = ''defragging_v0'' then select_next_layer_defragging qs
      else select_next_layer_longest_first qs)"

text \<open>
  What the worker needs of a layer policy: it chooses a layer with work whenever there is
  work, nothing when there is none, and its score is zero without a choice and positive
  with one.
\<close>

locale layer_policy =
  fixes select :: "'a queues \<Rightarrow> nat option \<times> real"
  assumes select_Some: "fst (select qs) = Some l \<Longrightarrow>
      l < length qs \<and> 0 < layer_total (qs ! l) \<and> real (layer_total (qs ! l)) \<le> snd (select qs)"
    and select_None: "fst (select qs) = None \<Longrightarrow> queued_total qs = 0 \<and> snd (select qs) = 0"
begin

lemma selects_iff_work: "fst (select qs) = None \<longleftrightarrow> queued_total qs = 0"
proof
  assume q: "queued_total qs = 0"
  show "fst (select qs) = None"
  proof (rule ccontr)
    assume "fst (select qs) \<noteq> None"
    then obtain l where "fst (select qs) = Some l" by blast
    from select_Some [OF this] q show False by (auto simp: queued_total_0)
  qed
qed (simp add: select_None)

lemma score_positive: "0 < queued_total qs \<Longrightarrow> 0 < snd (select qs)"
proof -
  assume "0 < queued_total qs"
  then obtain l where "fst (select qs) = Some l" using selects_iff_work [of qs] by fastforce
  from select_Some [OF this] show ?thesis by auto
qed

end

interpretation longest_layer: layer_policy select_next_layer_longest_first
proof
  fix qs :: "'a queues" and l
  let ?f = "\<lambda>l. real (layer_total (qs ! l))"
  { assume "fst (select_next_layer_longest_first qs) = Some l"
    then have "fst (pick_max ?f [0..<length qs]) = Some l"
      by (simp add: select_next_layer_longest_first_def)
    from pick_max_Some [OF this]
    show "l < length qs \<and> 0 < layer_total (qs ! l) \<and>
        real (layer_total (qs ! l)) \<le> snd (select_next_layer_longest_first qs)"
      by (simp add: select_next_layer_longest_first_def) }
  assume "fst (select_next_layer_longest_first qs) = None"
  then show "queued_total qs = 0 \<and> snd (select_next_layer_longest_first qs) = 0"
    unfolding select_next_layer_longest_first_def
    by (auto simp: pick_max_None pick_max_None_score queued_total_0 in_set_conv_nth)
qed

lemma layer_defrag_score_ge: "real (layer_total (qs ! i)) \<le> layer_defrag_score qs i"
  by (simp add: layer_defrag_score_def lookahead_score_nonneg)

interpretation defrag_layer: layer_policy select_next_layer_defragging
proof
  fix qs :: "'a queues" and l
  { assume some: "fst (select_next_layer_defragging qs) = Some l"
    then have "fst (pick_max (layer_defrag_score qs) [0..<length qs]) = Some l"
      by (simp add: select_next_layer_defragging_def split: if_splits)
    from pick_max_Some [OF this]
    have "l < length qs" "0 < layer_defrag_score qs l"
      "snd (pick_max (layer_defrag_score qs) [0..<length qs]) = layer_defrag_score qs l" by auto
    then show "l < length qs \<and> 0 < layer_total (qs ! l) \<and>
        real (layer_total (qs ! l)) \<le> snd (select_next_layer_defragging qs)"
      using some layer_defrag_score_ge [of qs l]
      by (auto simp: select_next_layer_defragging_def layer_defrag_score_def split: if_splits) }
  assume none: "fst (select_next_layer_defragging qs) = None"
  show "queued_total qs = 0 \<and> snd (select_next_layer_defragging qs) = 0"
  proof (cases "length qs = 0 \<or> queued_total qs = 0")
    case True
    then show ?thesis by (auto simp: select_next_layer_defragging_def queued_total_def)
  next
    case False
    then have p: "fst (pick_max (layer_defrag_score qs) [0..<length qs]) = None"
      using none by (simp add: select_next_layer_defragging_def)
    then have "layer_total (qs ! i) = 0" if i: "i < length qs" for i
    proof -
      have "layer_defrag_score qs i \<le> 0" using p i unfolding pick_max_None by simp
      then show ?thesis using layer_defrag_score_ge [of qs i] by simp
    qed
    then show ?thesis using False by (auto simp: queued_total_0 in_set_conv_nth)
  qed
qed

interpretation sel: layer_policy "select_layer policy"
proof (cases "policy = ''defragging_v0''")
  case True
  then have "select_layer policy = (select_next_layer_defragging :: 'a queues \<Rightarrow> _)"
    by (simp add: select_layer_def fun_eq_iff)
  then show "layer_policy (select_layer policy :: 'a queues \<Rightarrow> _)"
    using defrag_layer.layer_policy_axioms by simp
next
  case False
  then have "select_layer policy = (select_next_layer_longest_first :: 'a queues \<Rightarrow> _)"
    by (simp add: select_layer_def fun_eq_iff)
  then show "layer_policy (select_layer policy :: 'a queues \<Rightarrow> _)"
    using longest_layer.layer_policy_axioms by simp
qed

text \<open>The chosen layer has the greatest score, and the first such layer wins.\<close>

lemma defrag_layer_best:
  assumes "select_next_layer_defragging qs = (Some l, s)" and "i < length qs"
  shows "layer_defrag_score qs i \<le> layer_defrag_score qs l \<and>
    (i < l \<longrightarrow> layer_defrag_score qs i < layer_defrag_score qs l)"
proof -
  have p: "pick_max (layer_defrag_score qs) [0..<length qs] = (Some l, s)"
    using assms(1) by (simp add: select_next_layer_defragging_def split: if_splits)
  have l: "l < length qs" "s = layer_defrag_score qs l"
    using pick_max_Some [of "layer_defrag_score qs" "[0..<length qs]" l] p by auto
  have "layer_defrag_score qs i \<le> s"
    using pick_max_score [of "layer_defrag_score qs" "[0..<length qs]"] p assms(2) by auto
  moreover have "layer_defrag_score qs i < layer_defrag_score qs l" if "i < l"
  proof -
    have "[0..<length qs] = [0..<l] @ l # [Suc l..<length qs]"
      using l(1) upt_add_eq_append [of 0 l "length qs - l"] by (simp add: upt_conv_Cons)
    then show ?thesis
      using pick_max_first [of "layer_defrag_score qs" "[0..<l]" l "[Suc l..<length qs]"] p that by auto
  qed
  ultimately show ?thesis using l(2) by simp
qed

text \<open>
  C37: The defragging score of a layer with work is its own tokens plus the tokens of the
  next three layers (wrapping around) weighted 0.8, 0.64 and 0.512, so the layer the worker
  serves maximises that weighted sum among the layers that have work.
\<close>

theorem defrag_selects_weighted_max:
  assumes "select_next_layer_defragging qs = (Some l, s)"
    and "i < length qs" and "0 < layer_total (qs ! i)"
  shows "l < length qs \<and> 0 < layer_total (qs ! l) \<and>
    s = real (layer_total (qs ! l)) + (\<Sum>k=1..3. real (layer_total (qs ! ((l + k) mod length qs))) * (8 / 10) ^ k) \<and>
    real (layer_total (qs ! i)) + (\<Sum>k=1..3. real (layer_total (qs ! ((i + k) mod length qs))) * (8 / 10) ^ k) \<le> s"
proof -
  have sc: "layer_defrag_score qs j = real (layer_total (qs ! j))
      + (\<Sum>k=1..3. real (layer_total (qs ! ((j + k) mod length qs))) * (8 / 10) ^ k)"
    if "0 < layer_total (qs ! j)" for j
    using that lookahead_score_sum [of "8 / 10" 3 "\<lambda>l. layer_total (qs ! l)" "length qs" j]
    by (simp add: layer_defrag_score_def numeral_eq_Suc)
  have l: "l < length qs" "0 < layer_total (qs ! l)"
    using defrag_layer.select_Some [of qs l] assms(1) by auto
  have "pick_max (layer_defrag_score qs) [0..<length qs] = (Some l, s)"
    using assms(1) by (simp add: select_next_layer_defragging_def split: if_splits)
  then have "s = layer_defrag_score qs l"
    using pick_max_Some [of "layer_defrag_score qs" "[0..<length qs]" l] by auto
  then show ?thesis
    using l sc [OF l(2)] sc [OF assms(3)] defrag_layer_best [OF assms(1,2)] by simp
qed

theorem defrag_selects_weighted_max_witness:
  "select_next_layer_defragging [[[1, 2]], [[3::nat]]] = (Some 0, 2 + (8/10) + 2 * (8/10)^2 + (8/10)^3) \<and>
   real (layer_total [[3::nat]]) + (2 * (8/10) + (8/10)^2 + 2 * (8/10)^3) \<le> 2 + (8/10) + 2 * (8/10)^2 + (8/10)^3"
proof -
  let ?qs = "[[[1, 2]], [[3::nat]]]"
  have s: "select_next_layer_defragging ?qs = (Some 0, 2 + (8/10) + 2 * (8/10)^2 + (8/10)^3)"
  proof -
    have u: "[Suc 0..<4] = [1, 2, 3::nat]" "[0..<2] = [0, 1::nat]" by (simp_all add: upt_rec)
    have "layer_defrag_score ?qs 0 = 2 + (8/10) + 2 * (8/10)^2 + (8/10)^3"
      "layer_defrag_score ?qs 1 = 1 + 2 * (8/10) + (8/10)^2 + 2 * (8/10)^3"
      by (simp_all add: layer_defrag_score_def layer_total_def lookahead_score_def lookahead_step_def
          u Let_def power2_eq_square power3_eq_cube numeral_2_eq_2 [symmetric])
    then show ?thesis
      by (simp add: select_next_layer_defragging_def pick_max_def pick_step_def queued_total_def
          layer_total_def u numeral_2_eq_2 [symmetric] power2_eq_square power3_eq_cube)
  qed
  show ?thesis
    using defrag_selects_weighted_max [OF s, of 1] s
    by (simp add: layer_total_def numeral_eq_Suc)
qed

end
