(* ===== verification/SimUtil.thy ===== *)
theory SimUtil
  imports Prelude
begin

text \<open>
  The helpers the three simulators share, each written once here: the compute-time table
  read from a profile (\<open>simulation/util.py\<close>), the percentile of a list of latencies, the
  progress bar's estimates, the request arrivals, and the per-GPU ingress port with its two
  FIFO channels (\<open>simulation/sim_async.py\<close>).  Floats are exact reals.
\<close>

section \<open>The compute-time table\<close>

text \<open>\<open>str.strip\<close> on ASCII white space.\<close>

definition is_space :: "char \<Rightarrow> bool" where
  "is_space c \<longleftrightarrow> c \<in> {CHR '' '', CHR 0x09, CHR 0x0A, CHR 0x0B, CHR 0x0C, CHR 0x0D}"

definition strip :: "string \<Rightarrow> string" where
  "strip s = rev (dropWhile is_space (rev (dropWhile is_space s)))"

text \<open>
  A CSV file as \<open>csv.DictReader\<close> gives it: the field names and, per row, the cells by field
  name.  \<open>int()\<close> and \<open>float()\<close> on a cell are parameters: None where they raise.
\<close>

record csv_file =
  fieldnames :: "string list"
  csv_rows :: "(string \<Rightarrow> string option) list"

definition first_header :: "string list \<Rightarrow> string list \<Rightarrow> string option" where
  "first_header wanted headers = find (\<lambda>h. h \<in> set headers) wanted"

definition row_entry ::
  "(string \<Rightarrow> int option) \<Rightarrow> (string \<Rightarrow> real option) \<Rightarrow> string \<Rightarrow> string \<Rightarrow> real \<Rightarrow>
   (string \<Rightarrow> string option) \<Rightarrow> (int \<times> real) option" where
  "row_entry p_int p_float size_key time_key ticks row =
     (case (row size_key, row time_key) of
        (Some a, Some b) \<Rightarrow>
          (case (p_int a, p_float b) of (Some bs, Some t) \<Rightarrow> Some (bs, t * ticks) | _ \<Rightarrow> None)
      | _ \<Rightarrow> None)"

definition read_rows ::
  "((string \<Rightarrow> string option) \<Rightarrow> (int \<times> real) option) \<Rightarrow> (string \<Rightarrow> string option) list \<Rightarrow>
   int \<Rightarrow> real option" where
  "read_rows entry rows =
     fold (\<lambda>row m. case entry row of None \<Rightarrow> m | Some (bs, t) \<Rightarrow> m(bs \<mapsto> t)) rows Map.empty"

definition size_headers :: "string list" where
  "size_headers = [''batch_size'', ''batch'', ''size'']"

definition time_headers :: "string list" where
  "time_headers = [''avg_time_ms'', ''time_ms'', ''avg_time'', ''time'']"

definition expert_compute_time_lookup ::
  "(string \<Rightarrow> int option) \<Rightarrow> (string \<Rightarrow> real option) \<Rightarrow> csv_file \<Rightarrow> nat \<Rightarrow> real \<Rightarrow>
   (int \<Rightarrow> real option) result" where
  "expert_compute_time_lookup p_int p_float f max_batch_size ticks =
     (let headers = map strip (fieldnames f)
      in case (first_header size_headers headers, first_header time_headers headers) of
           (Some size_key, Some time_key) \<Rightarrow>
             (let lookup = read_rows (row_entry p_int p_float size_key time_key ticks) (csv_rows f);
                  missing = filter (\<lambda>s. lookup (int s) = None) [1..<max_batch_size + 1]
              in if missing \<noteq> [] then Inl ValueError else Inr lookup)
         | _ \<Rightarrow> Inl ValueError)"

lemma read_rows_invariant:
  assumes "P Map.empty" and "\<And>row m bs t. row \<in> set rows \<Longrightarrow> P m \<Longrightarrow> entry row = Some (bs, t) \<Longrightarrow> P (m(bs \<mapsto> t))"
  shows "P (read_rows entry rows)"
proof -
  have "P (fold (\<lambda>row m. case entry row of None \<Rightarrow> m | Some (bs, t) \<Rightarrow> m(bs \<mapsto> t)) rs m)"
    if "P m" "set rs \<subseteq> set rows" for rs m
    using that assms(2)
    by (induction rs arbitrary: m) (auto split: option.split)
  then show ?thesis using assms(1) unfolding read_rows_def by blast
qed

lemma read_rows_snoc:
  "read_rows entry (rows @ [row]) =
     (case entry row of None \<Rightarrow> read_rows entry rows | Some (bs, t) \<Rightarrow> (read_rows entry rows)(bs \<mapsto> t))"
  by (simp add: read_rows_def split: option.split)

text \<open>The table holds the last row of each batch size.\<close>

lemma read_rows_last:
  "read_rows entry rows bs =
     map_option snd (find (\<lambda>e. fst e = bs) (rev (List.map_filter entry rows)))"
proof (induction rows rule: rev_induct)
  case (snoc row rows)
  then show ?case
    by (cases "entry row") (auto simp: read_rows_snoc map_filter_def split: prod.split)
qed (simp add: read_rows_def map_filter_def)

lemma lookup_covers:
  assumes "expert_compute_time_lookup p_int p_float f n ticks = Inr table"
    and "1 \<le> k" and "k \<le> n"
  shows "table (int k) \<noteq> None"
proof -
  have "\<forall>s\<in>set [1..<n + 1]. table (int s) \<noteq> None"
    using assms(1) unfolding expert_compute_time_lookup_def Let_def
    by (auto simp: filter_empty_conv simp del: upt_Suc split: option.splits if_splits)
  moreover have "k \<in> set [1..<n + 1]" using assms(2,3) by auto
  ultimately show ?thesis by blast
qed

text \<open>
  Every time in the table comes from a row; with non-negative times and a non-negative
  conversion factor the table is non-negative.
\<close>

lemma lookup_nonneg:
  assumes "expert_compute_time_lookup p_int p_float f n ticks = Inr table"
    and "0 \<le> ticks" and "\<And>s t. p_float s = Some t \<Longrightarrow> 0 \<le> t" and "table k = Some t"
  shows "0 \<le> t"
proof -
  obtain sk tk where table: "table = read_rows (row_entry p_int p_float sk tk ticks) (csv_rows f)"
    using assms(1) unfolding expert_compute_time_lookup_def Let_def
    by (auto split: option.splits if_splits)
  have "\<forall>k t. table k = Some t \<longrightarrow> 0 \<le> t"
    unfolding table
    by (rule read_rows_invariant)
      (auto simp: row_entry_def assms(2,3) split: option.splits if_splits)
  then show ?thesis using assms(4) by blast
qed

text \<open>
  The headers are stripped before they are searched, the rows are not: a column that is
  found only because its name was stripped is absent from every row, each row is skipped as
  malformed, and a complete profile is refused.
\<close>

lemma stripped_header_refused:
  assumes "first_header size_headers (map strip (fieldnames f)) = Some sk"
    and "first_header time_headers (map strip (fieldnames f)) = Some tk"
    and "\<And>row. row \<in> set (csv_rows f) \<Longrightarrow> dom row \<subseteq> set (fieldnames f)"
    and "tk \<notin> set (fieldnames f)" and "1 \<le> n"
  shows "expert_compute_time_lookup p_int p_float f n ticks = Inl ValueError"
proof -
  have "\<forall>row\<in>set (csv_rows f). row_entry p_int p_float sk tk ticks row = None"
    using assms(3,4) by (fastforce simp: row_entry_def split: option.splits)
  then have "read_rows (row_entry p_int p_float sk tk ticks) (csv_rows f) = Map.empty"
    by (intro read_rows_invariant [where P = "\<lambda>m. m = Map.empty"]) auto
  then show ?thesis
    using assms(1,2,5)
    by (auto simp: expert_compute_time_lookup_def Let_def filter_empty_conv simp del: upt_Suc)
qed

text \<open>
  The table of \<open>sync\<close> and \<open>tbo\<close> is scaled by the grouped-GEMM factor once, when it is built.
\<close>

definition group_gemm_speedup_factor :: real where
  "group_gemm_speedup_factor = 7 / 10"

definition scale_table :: "(int \<Rightarrow> real option) \<Rightarrow> int \<Rightarrow> real option" where
  "scale_table table bs = map_option (\<lambda>t. t * group_gemm_speedup_factor) (table bs)"

section \<open>Percentiles\<close>

text \<open>
  \<open>percentile\<close> interpolates linearly between the two samples next to rank
  \<open>pct * (n - 1)\<close> of the sorted list.
\<close>

definition interpolate :: "real list \<Rightarrow> real \<Rightarrow> real" where
  "interpolate sorted_vals k =
     (let lower = nat \<lfloor>k\<rfloor>; upper = nat \<lceil>k\<rceil>
      in if lower = upper then sorted_vals ! lower
         else sorted_vals ! lower + (sorted_vals ! upper - sorted_vals ! lower) * (k - real lower))"

definition percentile :: "real list \<Rightarrow> real \<Rightarrow> real" where
  "percentile vals pct =
     (if vals = [] then 0
      else if pct \<le> 0 then Min (set vals)
      else if 1 \<le> pct then Max (set vals)
      else interpolate (sort vals) (pct * real (length vals - 1)))"

lemma interpolate_floor:
  assumes "0 \<le> k"
  shows "interpolate xs k =
    xs ! nat \<lfloor>k\<rfloor> + (xs ! nat \<lceil>k\<rceil> - xs ! nat \<lfloor>k\<rfloor>) * (k - real (nat \<lfloor>k\<rfloor>))"
  using assms by (simp add: interpolate_def Let_def)

lemma interpolate_between:
  assumes "sorted xs" and "0 \<le> k" and "k \<le> real (length xs - 1)" and "xs \<noteq> []"
  shows "xs ! nat \<lfloor>k\<rfloor> \<le> interpolate xs k \<and> interpolate xs k \<le> xs ! nat \<lceil>k\<rceil>"
proof -
  define a b f where "a = xs ! nat \<lfloor>k\<rfloor>" and "b = xs ! nat \<lceil>k\<rceil>" and "f = k - real (nat \<lfloor>k\<rfloor>)"
  have up: "nat \<lceil>k\<rceil> < length xs"
  proof -
    have "\<lceil>k\<rceil> \<le> int (length xs - 1)" using assms(3) by (simp add: ceiling_le_iff)
    moreover have "0 < length xs" using assms(4) by simp
    ultimately show ?thesis by linarith
  qed
  have ab: "a \<le> b" unfolding a_def b_def
    using up by (intro sorted_nth_mono [OF assms(1)]) (simp_all add: nat_mono floor_le_ceiling)
  have f: "0 \<le> f" "f \<le> 1"
    using assms(2) unfolding f_def by (simp_all add: of_nat_nat) (linarith+)
  have "0 \<le> (b - a) * f" using ab f by simp
  moreover have "(b - a) * f \<le> b - a" using ab f mult_left_le [of f "b - a"] by simp
  moreover have "interpolate xs k = a + (b - a) * f"
    using interpolate_floor [OF assms(2)] by (simp add: a_def b_def f_def)
  ultimately show ?thesis unfolding a_def [symmetric] b_def [symmetric] by simp
qed

lemma interpolate_mono:
  assumes xs: "sorted xs" "xs \<noteq> []" and "0 \<le> k" and "k \<le> l" and l: "l \<le> real (length xs - 1)"
  shows "interpolate xs k \<le> interpolate xs l"
proof (cases "\<lfloor>k\<rfloor> = \<lfloor>l\<rfloor>")
  case True
  show ?thesis
  proof (cases "\<lceil>k\<rceil> = \<lceil>l\<rceil>")
    case c: True
    define a b where "a = xs ! nat \<lfloor>k\<rfloor>" and "b = xs ! nat \<lceil>k\<rceil>"
    have "a \<le> b"
      using interpolate_between [OF xs(1) assms(3) order_trans [OF assms(4) l] xs(2)]
      unfolding a_def b_def by linarith
    then have "(b - a) * (k - real (nat \<lfloor>k\<rfloor>)) \<le> (b - a) * (l - real (nat \<lfloor>k\<rfloor>))"
      using assms(4) by (intro mult_left_mono) simp_all
    then show ?thesis
      using interpolate_floor [of k xs] interpolate_floor [of l xs] assms(3,4) True c
      by (simp add: a_def b_def)
  next
    case False
    have "\<lceil>k\<rceil> \<le> \<lceil>l\<rceil>" using assms(4) by (rule ceiling_mono)
    then have kl: "\<lceil>k\<rceil> < \<lceil>l\<rceil>" using False by simp
    have "\<lceil>k\<rceil> = \<lfloor>k\<rfloor>" using kl True ceiling_diff_floor_le_1 [of l] floor_le_ceiling [of k] by linarith
    then have "interpolate xs k = xs ! nat \<lfloor>k\<rfloor>" by (simp add: interpolate_def)
    also have "\<dots> \<le> interpolate xs l"
      using interpolate_between [OF xs(1) _ l xs(2)] assms(3,4) True by simp
    finally show ?thesis .
  qed
next
  case False
  have "\<lfloor>k\<rfloor> \<le> \<lfloor>l\<rfloor>" using assms(4) by (rule floor_mono)
  then have le: "\<lceil>k\<rceil> \<le> \<lfloor>l\<rfloor>" using False ceiling_diff_floor_le_1 [of k] by linarith
  have lf: "nat \<lfloor>l\<rfloor> < length xs"
  proof -
    have "\<lfloor>l\<rfloor> \<le> int (length xs - 1)" using l by linarith
    moreover have "0 < length xs" using xs(2) by simp
    ultimately show ?thesis by linarith
  qed
  have "interpolate xs k \<le> xs ! nat \<lceil>k\<rceil>"
    using interpolate_between [OF xs(1) assms(3) order_trans [OF assms(4) l] xs(2)] by blast
  also have "\<dots> \<le> xs ! nat \<lfloor>l\<rfloor>"
    by (rule sorted_nth_mono [OF xs(1) nat_mono [OF le] lf])
  also have "\<dots> \<le> interpolate xs l"
    using interpolate_between [OF xs(1) order_trans [OF assms(3,4)] l xs(2)] by blast
  finally show ?thesis .
qed

lemma interpolate_range:
  assumes "sorted xs" and "xs \<noteq> []" and "0 \<le> k" and "k \<le> real (length xs - 1)"
  shows "xs ! 0 \<le> interpolate xs k \<and> interpolate xs k \<le> xs ! (length xs - 1)"
proof -
  have 0: "interpolate xs 0 = xs ! 0" by (simp add: interpolate_def)
  have n: "interpolate xs (real (length xs - 1)) = xs ! (length xs - 1)"
    by (simp add: interpolate_def Let_def)
  show ?thesis
    using interpolate_mono [OF assms(1,2), of 0 k] interpolate_mono [OF assms(1,2), of k "real (length xs - 1)"]
      assms(3,4) 0 n by simp
qed

lemma sort_ends:
  fixes vals :: "real list"
  assumes "vals \<noteq> []"
  shows "sort vals ! 0 = Min (set vals)" "sort vals ! (length vals - 1) = Max (set vals)"
proof -
  have ne: "sort vals \<noteq> []" using assms by (metis length_sort length_0_conv)
  have srt: "sorted (sort vals)" by simp
  have "sort vals ! 0 \<le> y" if y: "y \<in> set vals" for y
  proof -
    obtain i where i: "i < length (sort vals)" and yi: "y = sort vals ! i"
      using y by (metis in_set_conv_nth set_sort)
    show ?thesis unfolding yi by (rule sorted_nth_mono [OF srt le0 i])
  qed
  moreover have "sort vals ! 0 \<in> set vals" using ne by (metis length_greater_0_conv nth_mem set_sort)
  ultimately show "sort vals ! 0 = Min (set vals)" by (intro Min_eqI [symmetric]) simp_all
  have "y \<le> sort vals ! (length vals - 1)" if y: "y \<in> set vals" for y
  proof -
    obtain i where i: "i < length (sort vals)" and yi: "y = sort vals ! i"
      using y by (metis in_set_conv_nth set_sort)
    have "i \<le> length vals - 1" "length vals - 1 < length (sort vals)" using i assms by auto
    then show ?thesis unfolding yi by (rule sorted_nth_mono [OF srt])
  qed
  moreover have "sort vals ! (length vals - 1) \<in> set vals"
    using assms nth_mem [of "length vals - 1" "sort vals"] by simp
  ultimately show "sort vals ! (length vals - 1) = Max (set vals)"
    by (intro Max_eqI [symmetric]) simp_all
qed

lemma percentile_range:
  assumes "vals \<noteq> []"
  shows "Min (set vals) \<le> percentile vals pct \<and> percentile vals pct \<le> Max (set vals)"
proof (cases "0 < pct \<and> pct < 1")
  case True
  have ne: "sort vals \<noteq> []" using assms by (metis length_sort length_0_conv)
  have "pct * real (length vals - 1) \<le> real (length vals - 1)"
    using True by (intro mult_left_le_one_le) simp_all
  then show ?thesis
    using interpolate_range [OF sorted_sort ne, of "pct * real (length vals - 1)"] True assms
      sort_ends [OF assms] by (simp add: percentile_def)
next
  case False
  have "Min (set vals) \<le> Max (set vals)"
    using assms by (meson List.finite_set Max_ge Min_in set_empty)
  then show ?thesis using False assms by (auto simp: percentile_def)
qed

text \<open>
  The percentile of a list of latencies never decreases with the requested rank, so
  p90 is at most p99, across the interpolated ranks and the two clamped ends alike.
\<close>

theorem percentile_mono:
  assumes "p \<le> q"
  shows "percentile vals p \<le> percentile vals q"
proof (cases "vals = [] \<or> p \<le> 0 \<or> 1 \<le> q")
  case True
  then consider "vals = []" | "vals \<noteq> []" "p \<le> 0" | "vals \<noteq> []" "0 < p" "1 \<le> q" by linarith
  then show ?thesis
  proof cases
    case 1 then show ?thesis by (simp add: percentile_def)
  next
    case 2 then show ?thesis using percentile_range [OF 2(1), of q] by (simp add: percentile_def)
  next
    case 3 then show ?thesis using percentile_range [OF 3(1), of p] by (simp add: percentile_def)
  qed
next
  case False
  have ne: "sort vals \<noteq> []" using False by (metis length_sort length_0_conv)
  have q0: "0 \<le> q" using False assms by auto
  have "q * real (length vals - 1) \<le> real (length vals - 1)"
    using False q0 by (intro mult_left_le_one_le) simp_all
  then show ?thesis
    using interpolate_mono [OF sorted_sort ne, of "p * real (length vals - 1)" "q * real (length vals - 1)"]
      q0 assms False mult_right_mono [OF assms, of "real (length vals - 1)"]
    by (auto simp: percentile_def)
qed

theorem percentile_mono_witness:
  "percentile [10, 30, 20] (1 / 4) = 15 \<and> percentile [10, 30, 20] (1 / 4) \<le> percentile [10, 30, 20] (3 / 4)"
  using percentile_mono [of "1 / 4" "3 / 4" "[10, 30, 20]"]
  by (simp add: percentile_def interpolate_def)

section \<open>The progress bar\<close>

record progress_tracker =
  pt_total :: int
  pt_bar_width :: int
  pt_min_interval :: real
  pt_start_time :: real
  pt_last_render :: real
  pt_finished :: bool

definition progress_init :: "int \<Rightarrow> int \<Rightarrow> real \<Rightarrow> real \<Rightarrow> progress_tracker" where
  "progress_init total_tokens bar_width min_interval now =
     \<lparr>pt_total = max 0 total_tokens, pt_bar_width = bar_width, pt_min_interval = min_interval,
      pt_start_time = now, pt_last_render = 0, pt_finished = False\<rparr>"

definition estimate_eta :: "progress_tracker \<Rightarrow> real \<Rightarrow> real \<Rightarrow> int \<Rightarrow> real" where
  "estimate_eta pt elapsed pct completed =
     (if pt_total pt \<le> completed \<or> pct \<le> 0 then 0 else (1 - pct) * elapsed / pct)"

definition two_digits :: "nat \<Rightarrow> string" where
  "two_digits n = [char_of (48 + n div 10 mod 10), char_of (48 + n mod 10)]"

text \<open>A duration that is missing or not below infinity is None.\<close>

definition format_duration :: "real option \<Rightarrow> string" where
  "format_duration seconds =
     (case seconds of
        None \<Rightarrow> ''--:--''
      | Some s \<Rightarrow>
          (if s \<le> 0 then ''00:00''
           else let total_seconds = nat \<lfloor>s + 1 / 2\<rfloor>;
                    mins = total_seconds div 60; sec = total_seconds mod 60;
                    hrs = mins div 60; mins = mins mod 60
                in if 99 < hrs then ''>99h''
                   else if 0 < hrs then two_digits hrs @ '':'' @ two_digits mins @ '':'' @ two_digits sec
                   else two_digits mins @ '':'' @ two_digits sec))"

definition progress_pct :: "progress_tracker \<Rightarrow> int \<Rightarrow> real" where
  "progress_pct pt completed =
     (if pt_total pt = 0 then 1
      else min 1 (max 0 (real_of_int completed / real_of_int (pt_total pt))))"

text \<open>
  One update: the line that is printed (the bar, the fraction, the counts and the two
  durations; None when nothing is rendered) and the new state.
\<close>

type_synonym progress_line = "string \<times> real \<times> int \<times> int \<times> string \<times> string"

definition progress_update ::
  "real \<Rightarrow> int \<Rightarrow> bool \<Rightarrow> progress_tracker \<Rightarrow> progress_line option \<times> progress_tracker" where
  "progress_update now completed force pt =
     (if pt_finished pt \<and> \<not> force then (None, pt)
      else if \<not> force \<and> completed < pt_total pt \<and> now - pt_last_render pt < pt_min_interval pt
      then (None, pt)
      else let pct = progress_pct pt completed;
               elapsed = now - pt_start_time pt;
               eta = estimate_eta pt elapsed pct completed;
               bar_fill = nat \<lfloor>real_of_int (pt_bar_width pt) * pct\<rfloor>;
               bar = replicate bar_fill CHR ''#'' @ replicate (nat (pt_bar_width pt - int bar_fill)) CHR ''-'';
               pt = pt\<lparr>pt_last_render := now\<rparr>;
               pt = (if pt_total pt \<le> completed \<and> \<not> pt_finished pt then pt\<lparr>pt_finished := True\<rparr> else pt)
           in (Some (bar, pct, completed, pt_total pt, format_duration (Some elapsed),
                     format_duration (Some eta)), pt))"

definition progress_finalize :: "real \<Rightarrow> progress_tracker \<Rightarrow> progress_tracker" where
  "progress_finalize now pt =
     (if \<not> pt_finished pt
      then let pt = snd (progress_update now (pt_total pt) True pt)
           in if \<not> pt_finished pt then pt\<lparr>pt_finished := True\<rparr> else pt
      else pt)"

lemma progress_pct_range: "0 \<le> progress_pct pt c \<and> progress_pct pt c \<le> 1"
  by (simp add: progress_pct_def)

lemma progress_bar_width:
  assumes "0 \<le> pt_bar_width pt"
    and "fst (progress_update now c force pt) = Some (bar, rest)"
  shows "length bar = nat (pt_bar_width pt)"
proof -
  have "real_of_int (pt_bar_width pt) * progress_pct pt c \<le> real_of_int (pt_bar_width pt)"
    using assms(1) progress_pct_range [of pt c] by (simp add: mult_left_le)
  moreover have "0 \<le> real_of_int (pt_bar_width pt) * progress_pct pt c"
    using assms(1) progress_pct_range [of pt c] by simp
  moreover define F where "F = \<lfloor>real_of_int (pt_bar_width pt) * progress_pct pt c\<rfloor>"
  ultimately have F: "0 \<le> F" "F \<le> pt_bar_width pt" by linarith+
  have "bar = replicate (nat F) CHR ''#'' @ replicate (nat (pt_bar_width pt - int (nat F))) CHR ''-''"
    using assms(2) unfolding progress_update_def Let_def F_def [symmetric]
    by (auto split: if_splits)
  then show ?thesis using F by simp
qed

lemma estimate_eta_nonneg:
  "0 \<le> elapsed \<Longrightarrow> pct \<le> 1 \<Longrightarrow> 0 \<le> estimate_eta pt elapsed pct c"
  by (simp add: estimate_eta_def)

lemma progress_finalize_finished:
  "pt_finished (progress_finalize now pt) \<and>
   progress_update t c False (progress_finalize now pt) = (None, progress_finalize now pt)"
  by (auto simp: progress_finalize_def progress_update_def Let_def)

text \<open>The clock of a duration below an hour reads back as the rounded number of seconds.\<close>

lemma format_duration_reads_back:
  assumes "0 < s" and "nat \<lfloor>s + 1 / 2\<rfloor> < 3600"
  shows "\<exists>a b c d. format_duration (Some s) = [a, b, CHR '':'', c, d] \<and>
    ((of_char a - 48) * 10 + (of_char b - 48)) * 60 + (of_char c - 48) * 10 + (of_char d - 48)
      = nat \<lfloor>s + 1 / 2\<rfloor>"
proof -
  define t where "t = nat \<lfloor>s + 1 / 2\<rfloor>"
  have d: "of_char (char_of (48 + k mod 10 :: nat)) = 48 + k mod 10" for k :: nat
    by (simp add: mod_less trans_less_add2)
  have "t div 60 div 60 = 0" using assms(2) by (simp add: t_def)
  then have "format_duration (Some s) = two_digits (t div 60 mod 60) @ '':'' @ two_digits (t mod 60)"
    using assms(1) by (simp add: format_duration_def Let_def t_def)
  moreover have "((t div 60 mod 60) div 10 mod 10 * 10 + (t div 60 mod 60) mod 10) * 60
      + (t mod 60) div 10 mod 10 * 10 + (t mod 60) mod 10 = t"
  proof -
    have m: "t div 60 < 60" using assms(2) by (simp add: t_def)
    have x: "x div 10 mod 10 * 10 + x mod 10 = x" if "x < 60" for x :: nat
      using that by (simp add: mod_less)
    show ?thesis using x [of "t div 60 mod 60"] x [of "t mod 60"] m
      by (simp only: mod_less add.assoc div_mult_mod_eq)
  qed
  ultimately show ?thesis
    unfolding two_digits_def t_def [symmetric]
    by (intro exI conjI) (assumption | simp only: append.simps d add_diff_cancel_left')+
qed

section \<open>Request arrivals\<close>

text \<open>
  The inter-arrival times are drawn from \<open>rng.expovariate\<close>; the draws are a parameter,
  one per call.  They are only used while the rate is positive.
\<close>

fun arrivals_from :: "real \<Rightarrow> (nat \<Rightarrow> real) \<Rightarrow> nat \<Rightarrow> nat \<Rightarrow> real \<Rightarrow> real list" where
  "arrivals_from rate draw i 0 current = []"
| "arrivals_from rate draw i (Suc n) current =
     (let current = (if 0 < rate then current + draw i else current)
      in current # arrivals_from rate draw (Suc i) n current)"

definition generate_request_arrivals :: "int \<Rightarrow> real \<Rightarrow> (nat \<Rightarrow> real) \<Rightarrow> real list" where
  "generate_request_arrivals total_requests rate draw =
     (if total_requests \<le> 0 then [] else 0 # arrivals_from rate draw 0 (nat total_requests - 1) 0)"

lemma arrivals_from_sorted:
  assumes "\<And>i. 0 \<le> draw i"
  shows "sorted (c # arrivals_from rate draw i n c) \<and> length (arrivals_from rate draw i n c) = n"
proof (induction n arbitrary: i c)
  case (Suc n)
  define c' where "c' = (if 0 < rate then c + draw i else c)"
  have "c \<le> c'" using assms [of i] by (simp add: c'_def)
  then show ?case using Suc [of c' "Suc i"] by (auto simp: Let_def c'_def [symmetric])
qed simp

lemma generate_request_arrivals_sorted:
  assumes "\<And>i. 0 \<le> draw i"
  shows "sorted (generate_request_arrivals n rate draw) \<and>
    length (generate_request_arrivals n rate draw) = nat n \<and>
    (\<forall>t \<in> set (generate_request_arrivals n rate draw). 0 \<le> t)"
  using arrivals_from_sorted [where draw = draw and c = 0 and rate = rate and i = 0 and n = "nat n - 1", OF assms]
  by (auto simp: generate_request_arrivals_def)

section \<open>The ingress port\<close>

text \<open>
  Each channel is a resource of capacity one that serves its requests in order.  A
  transfer holds the channel for its delay, so the state of a channel that matters to a new
  transfer is the time at which the transfers queued before it end.
\<close>

record ingress_port =
  ip_gpu_idx :: nat
  ip_n_gpu_per_host :: nat
  ip_nvlink :: real
  ip_rdma :: real

definition ingress_init :: "nat \<Rightarrow> nat \<Rightarrow> ingress_port" where
  "ingress_init gpu_idx n_gpu_per_host =
     \<lparr>ip_gpu_idx = gpu_idx, ip_n_gpu_per_host = max 1 n_gpu_per_host, ip_nvlink = 0, ip_rdma = 0\<rparr>"

definition ip_is_same_host :: "ingress_port \<Rightarrow> nat \<Rightarrow> bool" where
  "ip_is_same_host p other_gpu \<longleftrightarrow>
     ip_gpu_idx p div ip_n_gpu_per_host p = other_gpu div ip_n_gpu_per_host p"

text \<open>
  A transfer asked for at \<open>now\<close>: the time at which its event triggers, and the port.
\<close>

definition do_transfer :: "real \<Rightarrow> real \<Rightarrow> real \<Rightarrow> real" where
  "do_transfer now free_at delay = max now free_at + delay"

definition ip_transfer :: "real \<Rightarrow> nat \<Rightarrow> real \<Rightarrow> ingress_port \<Rightarrow> real \<times> ingress_port" where
  "ip_transfer now src_gpu solo_delay p =
     (if solo_delay \<le> 0 then (now, p)
      else if ip_is_same_host p src_gpu
      then (let t = do_transfer now (ip_nvlink p) solo_delay in (t, p\<lparr>ip_nvlink := t\<rparr>))
      else (let t = do_transfer now (ip_rdma p) solo_delay in (t, p\<lparr>ip_rdma := t\<rparr>)))"

fun ip_transfers :: "real \<Rightarrow> (nat \<times> real) list \<Rightarrow> ingress_port \<Rightarrow> real list \<times> ingress_port" where
  "ip_transfers now [] p = ([], p)"
| "ip_transfers now ((src, d) # ts) p =
     (let (t, p) = ip_transfer now src d p; (rest, p) = ip_transfers now ts p in (t # rest, p))"

end
