(* ===== verification/SimAsync.thy ===== *)
theory SimAsync
  imports SimSched SimUtil Dicts
begin

text \<open>
  The asynchronous simulator (\<open>simulation/sim_async.py\<close>): requests that send one token at
  a time, attention and expert workers that share the GPUs, replicas of a token that are
  routed to experts and joined again before the next layer.

  The state is one record; every method is a function on it.  A simpy process that waits
  is a phase of its worker or an entry of the list of routing processes, and \<open>exec\<close> is what
  happens when its wait ends.  How long a wait lasts is left open: an event can happen at
  any later moment, so every schedule of the simulator is an execution of this model.  The
  Python token objects are shared and only their \<open>layer_fanout\<close> is written: it is kept in a
  store indexed by token id and layer.  The debug log and the progress bar are left out.
\<close>

section \<open>State\<close>

record token =
  tk_tid :: nat
  tk_birth_time :: real
  tk_request_id :: nat
  tk_token_index :: nat
  tk_home_gpu :: nat

record sim_config =
  num_layers :: nat
  total_experts :: nat
  ep_size :: nat
  max_batch :: nat
  tokens_per_request :: nat
  total_requests :: nat
  max_active :: "nat option"
  attn_dp :: nat
  policy :: string
  routing_top_k :: nat
  compute_time :: "int \<Rightarrow> real option"
  route_ids :: "id_arg \<Rightarrow> int list \<Rightarrow> nat \<Rightarrow> int list list result"

text \<open>What a worker's process is doing: at the top of its loop, or waiting for one of its yields.\<close>

datatype phase =
    Ready
  | Sleeping
  | AttnBusy nat token
  | Computing nat "token list"
  | Returning nat "token list"

record worker =
  w_queues :: "token queues"
  w_total :: int
  w_attn :: "(nat \<times> token) list"
  w_has_work :: bool
  w_inflight_batch :: nat
  w_inflight_attn :: bool
  w_phase :: phase

text \<open>A \<open>route_and_dispatch\<close> process: not started yet, or waiting for its network delay.\<close>

datatype route_proc =
    Spawned nat token
  | Sending nat token "(nat \<times> nat) list"

record sim =
  sm_now :: real
  sm_fanout :: "nat \<Rightarrow> nat \<Rightarrow> nat option"
  sm_workers :: "worker list"
  sm_procs :: "route_proc list"
  sm_pending_counts :: "nat \<Rightarrow> nat \<Rightarrow> nat"
  sm_pending_tokens :: "nat \<Rightarrow> nat \<Rightarrow> token option"
  sm_final_counts :: "nat \<Rightarrow> nat"
  rm_first_attention :: "nat option"
  rm_next_tid :: nat
  rm_state :: "(nat, nat) dict"
  rm_start :: "nat \<Rightarrow> real option"
  rm_home :: "nat \<Rightarrow> nat option"
  rm_next_home :: nat
  rm_pending :: "(nat \<times> real) list"
  sm_arrived :: nat
  sm_completions :: "(token \<times> real) list"
  sm_latencies :: "(nat \<times> real) list"
  sm_total_batch_size :: nat
  sm_total_batches :: nat

definition queues_per_worker :: "sim_config \<Rightarrow> nat" where
  "queues_per_worker cfg = total_experts cfg div ep_size cfg"

section \<open>The expert worker's queues\<close>

definition w_was_empty :: "worker \<Rightarrow> bool" where
  "w_was_empty w \<longleftrightarrow> w_total w = 0 \<and> w_attn w = []"

definition wake :: "bool \<Rightarrow> worker \<Rightarrow> worker" where
  "wake was_empty w = (if was_empty \<and> \<not> w_has_work w then w\<lparr>w_has_work := True\<rparr> else w)"

definition w_enqueue :: "nat \<Rightarrow> nat \<Rightarrow> token \<Rightarrow> worker \<Rightarrow> worker result" where
  "w_enqueue layer_idx local_idx tok w =
     (if layer_idx < length (w_queues w) \<and> local_idx < length (w_queues w ! layer_idx)
      then (let was_empty = w_was_empty w;
                lq = w_queues w ! layer_idx
            in Inr (wake was_empty
                 (w\<lparr>w_queues := (w_queues w)[layer_idx := lq[local_idx := lq ! local_idx @ [tok]]],
                    w_total := w_total w + 1\<rparr>)))
      else Inl IndexError)"

definition w_enqueue_attention :: "nat \<Rightarrow> token \<Rightarrow> worker \<Rightarrow> worker" where
  "w_enqueue_attention attention_layer tok w =
     (let was_empty = w_was_empty w
      in wake was_empty (w\<lparr>w_attn := w_attn w @ [(attention_layer, tok)]\<rparr>))"

text \<open>A batch takes from the layer's queues in order while there is room.\<close>

fun form_batch :: "nat \<Rightarrow> 'a list list \<Rightarrow> 'a list \<times> 'a list list" where
  "form_batch room [] = ([], [])"
| "form_batch room (q # qs) =
     (let (batch, rest) = form_batch (room - length q) qs
      in (take room q @ batch, drop room q # rest))"

definition attention_score :: "sim_config \<Rightarrow> worker \<Rightarrow> real" where
  "attention_score cfg w =
     (if w_attn w \<noteq> [] then real (length (w_attn w)) * real (max 1 (routing_top_k cfg)) else 0)"

datatype task = Attention nat token | Expert "nat option"

definition select_next_task :: "sim_config \<Rightarrow> worker \<Rightarrow> task \<times> worker" where
  "select_next_task cfg w =
     (let sel = select_layer (policy cfg) (w_queues w)
      in if w_attn w \<noteq> [] \<and> (fst sel = None \<or> snd sel < attention_score cfg w)
         then (Attention (fst (hd (w_attn w))) (snd (hd (w_attn w))), w\<lparr>w_attn := tl (w_attn w)\<rparr>)
         else (Expert (fst sel), w))"

text \<open>
  The loop body from the selection of a task to the next yield: the worker and the size of
  the batch it formed (0 without one).
\<close>

definition w_pick :: "sim_config \<Rightarrow> worker \<Rightarrow> (nat \<times> worker) result" where
  "w_pick cfg w =
     (case select_next_task cfg w of
        (Attention l t, w) \<Rightarrow> Inr (0, w\<lparr>w_inflight_attn := True, w_phase := AttnBusy l t\<rparr>)
      | (Expert None, w) \<Rightarrow> Inr (0, w\<lparr>w_phase := Ready\<rparr>)
      | (Expert (Some l), w) \<Rightarrow>
          (let (batch, rest) = form_batch (max_batch cfg) (w_queues w ! l);
               w = w\<lparr>w_queues := (w_queues w)[l := rest], w_total := w_total w - int (length batch)\<rparr>
           in if batch = [] then Inr (0, w\<lparr>w_phase := Ready\<rparr>)
              else if compute_time cfg (int (length batch)) = None then Inl KeyError
              else Inr (length batch, w\<lparr>w_inflight_batch := length batch, w_phase := Computing l batch\<rparr>)))"

section \<open>The request manager and the attention workers\<close>

text \<open>\<open>AttentionWorker.enqueue\<close>: the token joins the attention queue of its home GPU.\<close>

definition attn_enqueue :: "nat \<Rightarrow> token \<Rightarrow> sim \<Rightarrow> sim result" where
  "attn_enqueue layer tok s =
     (if length (sm_workers s) \<le> tk_home_gpu tok then Inl RuntimeError
      else Inr (s\<lparr>sm_workers := (sm_workers s)[tk_home_gpu tok :=
             w_enqueue_attention layer tok (sm_workers s ! tk_home_gpu tok)]\<rparr>))"

definition dispatch_next_token :: "sim_config \<Rightarrow> nat \<Rightarrow> sim \<Rightarrow> sim result" where
  "dispatch_next_token cfg rid s =
     bindR (not_None RuntimeError (rm_first_attention s)) (\<lambda>first.
     bindR (not_None RuntimeError (map_of (rm_state s) rid)) (\<lambda>next_idx.
       if tokens_per_request cfg \<le> next_idx then Inr s
       else bindR (not_None RuntimeError (rm_home s rid)) (\<lambda>home_gpu.
         let tok = \<lparr>tk_tid = rm_next_tid s, tk_birth_time = sm_now s, tk_request_id = rid,
                    tk_token_index = next_idx, tk_home_gpu = home_gpu\<rparr>;
             s = s\<lparr>rm_next_tid := rm_next_tid s + 1,
                   rm_state := AList.update rid (next_idx + 1) (rm_state s)\<rparr>
         in attn_enqueue first tok s)))"

definition start_request_now :: "sim_config \<Rightarrow> nat \<Rightarrow> real \<Rightarrow> sim \<Rightarrow> sim result" where
  "start_request_now cfg rid arrival_time s =
     (if d_has (rm_state s) rid then Inl ValueError
      else dispatch_next_token cfg rid
        (s\<lparr>rm_state := AList.update rid 0 (rm_state s),
           rm_start := (rm_start s)(rid \<mapsto> arrival_time),
           rm_home := (rm_home s)(rid \<mapsto> rm_next_home s mod max 1 (attn_dp cfg)),
           rm_next_home := rm_next_home s + 1\<rparr>))"

definition active_requests :: "sim \<Rightarrow> nat" where
  "active_requests s = length (rm_state s)"

definition below_limit :: "sim_config \<Rightarrow> sim \<Rightarrow> bool" where
  "below_limit cfg s = (case max_active cfg of None \<Rightarrow> True | Some m \<Rightarrow> active_requests s < m)"

definition admit_request :: "sim_config \<Rightarrow> nat \<Rightarrow> real \<Rightarrow> sim \<Rightarrow> sim result" where
  "admit_request cfg rid arrival_time s =
     (if below_limit cfg s then start_request_now cfg rid arrival_time s
      else Inr (s\<lparr>rm_pending := rm_pending s @ [(rid, arrival_time)]\<rparr>))"

text \<open>The loop pops the pending requests in order; starting one does not add to the queue.\<close>

fun admit_queued :: "sim_config \<Rightarrow> (nat \<times> real) list \<Rightarrow> sim \<Rightarrow> sim result" where
  "admit_queued cfg [] s = Inr s"
| "admit_queued cfg ((rid, ts) # rest) s =
     (if below_limit cfg s
      then bindR (start_request_now cfg rid ts (s\<lparr>rm_pending := rest\<rparr>)) (admit_queued cfg rest)
      else Inr s)"

definition maybe_admit_queued_requests :: "sim_config \<Rightarrow> sim \<Rightarrow> sim result" where
  "maybe_admit_queued_requests cfg s = admit_queued cfg (rm_pending s) s"

definition record_completion :: "token \<Rightarrow> real \<Rightarrow> sim \<Rightarrow> sim" where
  "record_completion tok t s = s\<lparr>sm_completions := sm_completions s @ [(tok, t)]\<rparr>"

definition handle_token_completion :: "sim_config \<Rightarrow> token \<Rightarrow> real \<Rightarrow> sim \<Rightarrow> sim result" where
  "handle_token_completion cfg tok t s =
     (let s = record_completion tok t s; rid = tk_request_id tok
      in if \<not> d_has (rm_state s) rid then Inl RuntimeError
         else if tk_token_index tok + 1 < tokens_per_request cfg then dispatch_next_token cfg rid s
         else (let start_time = (case rm_start s rid of None \<Rightarrow> tk_birth_time tok | Some x \<Rightarrow> x)
               in maybe_admit_queued_requests cfg
                    (s\<lparr>rm_state := AList.delete rid (rm_state s),
                       rm_start := (rm_start s)(rid := None),
                       rm_home := (rm_home s)(rid := None),
                       sm_latencies := sm_latencies s @ [(rid, t - start_time)]\<rparr>)))"

text \<open>
  Joining the replicas.  A count that is popped reads as zero again (\<open>defaultdict\<close>).
\<close>

definition fanout_of :: "sim \<Rightarrow> token \<Rightarrow> nat \<Rightarrow> nat result" where
  "fanout_of s tok layer =
     (case sm_fanout s (tk_tid tok) layer of
        None \<Rightarrow> Inl RuntimeError
      | Some n \<Rightarrow> if n = 0 then Inl RuntimeError else Inr n)"

definition final_record_completion :: "sim_config \<Rightarrow> token \<Rightarrow> real \<Rightarrow> sim \<Rightarrow> sim result" where
  "final_record_completion cfg tok t s =
     bindR (fanout_of s tok (num_layers cfg - 1)) (\<lambda>expected.
       let new_count = sm_final_counts s (tk_tid tok) + 1
       in if new_count < expected
          then Inr (s\<lparr>sm_final_counts := (sm_final_counts s)(tk_tid tok := new_count)\<rparr>)
          else if new_count = expected
          then handle_token_completion cfg tok t
                 (s\<lparr>sm_final_counts := (sm_final_counts s)(tk_tid tok := 0)\<rparr>)
          else Inl RuntimeError)"

definition upd2 :: "('a \<Rightarrow> 'b \<Rightarrow> 'c) \<Rightarrow> 'a \<Rightarrow> 'b \<Rightarrow> 'c \<Rightarrow> 'a \<Rightarrow> 'b \<Rightarrow> 'c" where
  "upd2 f a b x = f(a := (f a)(b := x))"

definition notify_expert_completion :: "nat \<Rightarrow> token \<Rightarrow> sim \<Rightarrow> sim result" where
  "notify_expert_completion layer tok s =
     (if layer = 0 then Inl RuntimeError
      else bindR (fanout_of s tok (layer - 1)) (\<lambda>expected.
        let key = tk_tid tok; current = sm_pending_counts s layer key + 1
        in if current < expected
           then Inr (s\<lparr>sm_pending_counts := upd2 (sm_pending_counts s) layer key current,
                       sm_pending_tokens :=
                         (case sm_pending_tokens s layer key of
                            None \<Rightarrow> upd2 (sm_pending_tokens s) layer key (Some tok)
                          | Some _ \<Rightarrow> sm_pending_tokens s)\<rparr>)
           else if current = expected
           then attn_enqueue layer
                  (case sm_pending_tokens s layer key of None \<Rightarrow> tok | Some t \<Rightarrow> t)
                  (s\<lparr>sm_pending_counts := upd2 (sm_pending_counts s) layer key 0,
                     sm_pending_tokens := upd2 (sm_pending_tokens s) layer key None\<rparr>)
           else Inl RuntimeError))"

text \<open>One token of a returned batch, at the layer the batch was formed for.\<close>

definition deliver :: "sim_config \<Rightarrow> nat \<Rightarrow> token \<Rightarrow> sim \<Rightarrow> sim result" where
  "deliver cfg layer tok s =
     (if layer = num_layers cfg - 1 then final_record_completion cfg tok (sm_now s) s
      else if layer + 1 < num_layers cfg then notify_expert_completion (layer + 1) tok s
      else Inl IndexError)"

text \<open>
  The router is called with the request id in a Python list and the token index in a tensor;
  \<open>SimRouter\<close> gives the call of \<open>disagmoe/models/gate.py\<close>.
\<close>

definition router_call :: "sim_config \<Rightarrow> nat \<Rightarrow> token \<Rightarrow> int list list result" where
  "router_call cfg layer tok = route_ids cfg (PyList [int (tk_request_id tok)]) [int (tk_token_index tok)] layer"

definition route_token :: "sim_config \<Rightarrow> nat \<Rightarrow> token \<Rightarrow> nat list result" where
  "route_token cfg layer tok =
     bindR (router_call cfg layer tok) (\<lambda>topk_ids.
     bindR (py_get topk_ids 0) (\<lambda>row.
       let selected = map nat (filter (\<lambda>e. 0 \<le> e) row)
       in if selected = [] then Inl RuntimeError else Inr selected))"

definition route_and_dispatch :: "sim_config \<Rightarrow> nat \<Rightarrow> token \<Rightarrow> sim \<Rightarrow> (sim \<times> (nat \<times> nat) list) result" where
  "route_and_dispatch cfg layer tok s =
     bindR (route_token cfg layer tok) (\<lambda>ids.
       if length ids = 0 then Inl RuntimeError
       else Inr (s\<lparr>sm_fanout := upd2 (sm_fanout s) (tk_tid tok) layer (Some (length ids))\<rparr>,
                 map (\<lambda>e. (e div queues_per_worker cfg, e mod queues_per_worker cfg)) ids))"

definition send_copy :: "nat \<Rightarrow> token \<Rightarrow> nat \<times> nat \<Rightarrow> sim \<Rightarrow> sim result" where
  "send_copy layer tok route s =
     (if fst route < length (sm_workers s)
      then bindR (w_enqueue layer (snd route) tok (sm_workers s ! fst route)) (\<lambda>w.
             Inr (s\<lparr>sm_workers := (sm_workers s)[fst route := w]\<rparr>))
      else Inl IndexError)"

section \<open>Events\<close>

datatype event =
    Tick real
  | Arrive
  | Pick nat
  | AttnDone nat
  | ComputeDone nat
  | ReturnDone nat
  | RouteStart nat
  | RouteDone nat

definition set_worker :: "nat \<Rightarrow> worker \<Rightarrow> sim \<Rightarrow> sim" where
  "set_worker i w s = s\<lparr>sm_workers := (sm_workers s)[i := w]\<rparr>"

definition drop_nth :: "nat \<Rightarrow> 'a list \<Rightarrow> 'a list" where
  "drop_nth i xs = take i xs @ drop (Suc i) xs"

text \<open>The top of the worker's loop: sleep on a fresh event when there is no work, else pick.\<close>

definition loop_top :: "sim_config \<Rightarrow> nat \<Rightarrow> sim \<Rightarrow> sim result" where
  "loop_top cfg i s =
     (let w = sm_workers s ! i
      in if w_phase w = Ready \<and> w_was_empty w
         then Inr (set_worker i (w\<lparr>w_has_work := False, w_phase := Sleeping\<rparr>) s)
         else bindR (w_pick cfg w) (\<lambda>(n, w).
           Inr ((set_worker i w s)\<lparr>sm_total_batch_size := sm_total_batch_size s + n,
                  sm_total_batches := sm_total_batches s + (if n = 0 then 0 else 1)\<rparr>)))"

text \<open>\<open>exec\<close> is None when the event cannot happen in the state.\<close>

fun exec :: "sim_config \<Rightarrow> event \<Rightarrow> sim \<Rightarrow> sim result option" where
  "exec cfg (Tick d) s = (if 0 < d then Some (Inr (s\<lparr>sm_now := sm_now s + d\<rparr>)) else None)"
| "exec cfg Arrive s =
     (if sm_arrived s < total_requests cfg
      then Some (admit_request cfg (sm_arrived s) (sm_now s) (s\<lparr>sm_arrived := sm_arrived s + 1\<rparr>))
      else None)"
| "exec cfg (Pick i) s =
     (if i < length (sm_workers s)
      then (case w_phase (sm_workers s ! i) of
              Ready \<Rightarrow> Some (loop_top cfg i s)
            | Sleeping \<Rightarrow> if w_has_work (sm_workers s ! i) then Some (loop_top cfg i s) else None
            | _ \<Rightarrow> None)
      else None)"
| "exec cfg (AttnDone i) s =
     (if i < length (sm_workers s)
      then (case w_phase (sm_workers s ! i) of
              AttnBusy l t \<Rightarrow>
                Some (Inr ((set_worker i ((sm_workers s ! i)\<lparr>w_inflight_attn := False, w_phase := Ready\<rparr>) s)
                       \<lparr>sm_procs := sm_procs s @ [Spawned l t]\<rparr>))
            | _ \<Rightarrow> None)
      else None)"
| "exec cfg (ComputeDone i) s =
     (if i < length (sm_workers s)
      then (case w_phase (sm_workers s ! i) of
              Computing l b \<Rightarrow> Some (Inr (set_worker i ((sm_workers s ! i)\<lparr>w_phase := Returning l b\<rparr>) s))
            | _ \<Rightarrow> None)
      else None)"
| "exec cfg (ReturnDone i) s =
     (if i < length (sm_workers s)
      then (case w_phase (sm_workers s ! i) of
              Returning l b \<Rightarrow>
                Some (foldR (deliver cfg l) b
                  (set_worker i ((sm_workers s ! i)\<lparr>w_inflight_batch := 0, w_phase := Ready\<rparr>) s))
            | _ \<Rightarrow> None)
      else None)"
| "exec cfg (RouteStart p) s =
     (if p < length (sm_procs s)
      then (case sm_procs s ! p of
              Spawned l t \<Rightarrow>
                Some (bindR (route_and_dispatch cfg l t s) (\<lambda>(s, routes).
                  Inr (s\<lparr>sm_procs := (sm_procs s)[p := Sending l t routes]\<rparr>)))
            | _ \<Rightarrow> None)
      else None)"
| "exec cfg (RouteDone p) s =
     (if p < length (sm_procs s)
      then (case sm_procs s ! p of
              Sending l t routes \<Rightarrow>
                Some (foldR (send_copy l t) routes (s\<lparr>sm_procs := drop_nth p (sm_procs s)\<rparr>))
            | _ \<Rightarrow> None)
      else None)"

definition worker_init :: "sim_config \<Rightarrow> worker" where
  "worker_init cfg =
     \<lparr>w_queues = replicate (num_layers cfg) (replicate (queues_per_worker cfg) []), w_total = 0,
      w_attn = [], w_has_work = False, w_inflight_batch = 0, w_inflight_attn = False, w_phase = Ready\<rparr>"

text \<open>The checks of the driver and the state in which it starts the event loop.\<close>

definition run_init :: "sim_config \<Rightarrow> sim result" where
  "run_init cfg =
     (if max 1 (attn_dp cfg) \<noteq> ep_size cfg then Inl ValueError
      else if 0 < num_layers cfg \<and> total_experts cfg mod ep_size cfg \<noteq> 0 then Inl AssertionError
      else if num_layers cfg = 0 then Inl IndexError
      else Inr \<lparr>sm_now = 0, sm_fanout = (\<lambda>_ _. None), sm_workers = replicate (ep_size cfg) (worker_init cfg),
        sm_procs = [], sm_pending_counts = (\<lambda>_ _. 0), sm_pending_tokens = (\<lambda>_ _. None),
        sm_final_counts = (\<lambda>_. 0), rm_first_attention = Some 0, rm_next_tid = 0, rm_state = [],
        rm_start = (\<lambda>_. None), rm_home = (\<lambda>_. None), rm_next_home = 0, rm_pending = [],
        sm_arrived = 0, sm_completions = [], sm_latencies = [], sm_total_batch_size = 0,
        sm_total_batches = 0\<rparr>)"

text \<open>The executions: every sequence of enabled events that raise nothing.\<close>

inductive sim_step :: "sim_config \<Rightarrow> sim \<Rightarrow> sim \<Rightarrow> bool" for cfg where
  sim_stepI: "exec cfg e s = Some (Inr s') \<Longrightarrow> sim_step cfg s s'"

inductive reachable :: "sim_config \<Rightarrow> sim \<Rightarrow> bool" for cfg where
  reach_init: "run_init cfg = Inr s \<Longrightarrow> reachable cfg s"
| reach_step: "reachable cfg s \<Longrightarrow> sim_step cfg s s' \<Longrightarrow> reachable cfg s'"

inductive_cases sim_stepE: "sim_step cfg s s'"

fun run_events :: "sim_config \<Rightarrow> event list \<Rightarrow> sim \<Rightarrow> sim result option" where
  "run_events cfg [] s = Some (Inr s)"
| "run_events cfg (e # es) s =
     (case exec cfg e s of None \<Rightarrow> None
      | Some (Inl err) \<Rightarrow> Some (Inl err)
      | Some (Inr s') \<Rightarrow> run_events cfg es s')"

lemma run_events_reachable:
  "reachable cfg s \<Longrightarrow> run_events cfg es s = Some (Inr s') \<Longrightarrow> reachable cfg s'"
proof (induction es arbitrary: s)
  case (Cons e es)
  then obtain s1 where "exec cfg e s = Some (Inr s1)" "run_events cfg es s1 = Some (Inr s')"
    by (auto split: option.splits sum.splits)
  then show ?case using Cons by (meson reach_step sim_stepI)
qed simp

end
