(* ===== verification/SimAsyncInv.thy ===== *)
theory SimAsyncInv
  imports SimAsync
begin

text \<open>
  The invariant of the asynchronous simulator.  An abstract state says for every active
  request which token is under way, at which layer, and whether it is on the attention side
  or spread over experts; \<open>sim_rel\<close> relates it to the queues, batches, routing processes and
  counters of the concrete state.  Every step of the simulator preserves the relation, so
  no branch that raises is reached.
\<close>

section \<open>Where the tokens are\<close>

definition queue_items :: "'a queues \<Rightarrow> (nat \<times> 'a) multiset" where
  "queue_items qs = (\<Sum>l<length qs. image_mset (Pair l) (mset (concat (qs ! l))))"

definition worker_attns :: "worker \<Rightarrow> (nat \<times> token) multiset" where
  "worker_attns w =
     mset (w_attn w) + (case w_phase w of AttnBusy l t \<Rightarrow> {#(l, t)#} | _ \<Rightarrow> {#})"

definition phase_reps :: "phase \<Rightarrow> (nat \<times> token) multiset" where
  "phase_reps p =
     (case p of Computing l b \<Rightarrow> image_mset (Pair l) (mset b)
      | Returning l b \<Rightarrow> image_mset (Pair l) (mset b) | _ \<Rightarrow> {#})"

definition worker_reps :: "worker \<Rightarrow> (nat \<times> token) multiset" where
  "worker_reps w = queue_items (w_queues w) + phase_reps (w_phase w)"

definition proc_attns :: "route_proc \<Rightarrow> (nat \<times> token) multiset" where
  "proc_attns p = (case p of Spawned l t \<Rightarrow> {#(l, t)#} | Sending l t routes \<Rightarrow> {#})"

definition proc_reps :: "route_proc \<Rightarrow> (nat \<times> token) multiset" where
  "proc_reps p = (case p of Spawned l t \<Rightarrow> {#} | Sending l t routes \<Rightarrow> replicate_mset (length routes) (l, t))"

definition atts :: "sim \<Rightarrow> (nat \<times> token) multiset" where
  "atts s = sum_list (map worker_attns (sm_workers s)) + sum_list (map proc_attns (sm_procs s))"

definition reps :: "sim \<Rightarrow> (nat \<times> token) multiset" where
  "reps s = sum_list (map worker_reps (sm_workers s)) + sum_list (map proc_reps (sm_procs s))"

lemma sum_list_map_update_add:
  fixes f :: "'a \<Rightarrow> 'b::cancel_comm_monoid_add"
  assumes "i < length xs" and "f v = f (xs ! i) + d"
  shows "sum_list (map f (xs[i := v])) = sum_list (map f xs) + d"
  using assms
proof (induction xs arbitrary: i)
  case (Cons x xs)
  then show ?case by (cases i) (simp_all add: ac_simps)
qed simp

lemma sum_list_map_update_remove:
  fixes f :: "'a \<Rightarrow> 'b::cancel_comm_monoid_add"
  assumes "i < length xs" and "f (xs ! i) = f v + d"
  shows "sum_list (map f xs) = sum_list (map f (xs[i := v])) + d"
  using assms
proof (induction xs arbitrary: i)
  case (Cons x xs)
  then show ?case by (cases i) (simp_all add: ac_simps)
qed simp

lemma sum_list_map_drop_nth:
  fixes f :: "'a \<Rightarrow> 'b::cancel_comm_monoid_add"
  assumes "i < length xs"
  shows "sum_list (map f xs) = sum_list (map f (drop_nth i xs)) + f (xs ! i)"
proof -
  have "xs = take i xs @ xs ! i # drop (Suc i) xs" using assms by (rule id_take_nth_drop)
  then have "sum_list (map f xs) = sum_list (map f (take i xs @ xs ! i # drop (Suc i) xs))" by simp
  then show ?thesis by (simp add: drop_nth_def ac_simps)
qed

lemma set_drop_nth: "set (drop_nth i xs) \<subseteq> set xs"
  by (auto simp: drop_nth_def dest: in_set_takeD in_set_dropD)

lemma queue_items_update:
  assumes "l < length qs" and "mset (concat lq) = mset (concat (qs ! l)) + d"
  shows "queue_items (qs[l := lq]) = queue_items qs + image_mset (Pair l) d"
proof -
  have "queue_items (qs[l := lq])
      = (\<Sum>i<length qs. image_mset (Pair i) (mset (concat (qs ! i))) + (if i = l then image_mset (Pair l) d else {#}))"
    unfolding queue_items_def by (rule sum.cong) (auto simp: assms(2) nth_list_update)
  also have "\<dots> = queue_items qs + image_mset (Pair l) d"
    using assms(1) by (simp add: sum.distrib queue_items_def sum.delta)
  finally show ?thesis .
qed

lemma queue_items_remove:
  assumes "l < length qs" and "mset (concat (qs ! l)) = mset (concat lq) + d"
  shows "queue_items qs = queue_items (qs[l := lq]) + image_mset (Pair l) d"
proof -
  have "queue_items ((qs[l := lq])[l := qs ! l]) = queue_items (qs[l := lq]) + image_mset (Pair l) d"
    by (rule queue_items_update) (use assms in simp_all)
  then show ?thesis using assms(1) by (simp add: list_update_id)
qed

lemma size_queue_items: "size (queue_items qs) = queued_total qs"
proof -
  have "queued_total qs = (\<Sum>l<length qs. layer_total (qs ! l))"
    unfolding queued_total_def by (simp add: sum_list_sum_nth atLeast0LessThan)
  then show ?thesis
    by (simp add: queue_items_def size_multiset_sum layer_total_def length_concat comp_def)
qed

lemma queue_items_replicate [simp]: "queue_items (replicate n (replicate m [])) = {#}"
  by (simp add: queue_items_def concat_replicate_trivial)

section \<open>The workers\<close>

definition worker_ok :: "sim_config \<Rightarrow> worker \<Rightarrow> bool" where
  "worker_ok cfg w \<longleftrightarrow>
     length (w_queues w) = num_layers cfg \<and>
     (\<forall>lq\<in>set (w_queues w). length lq = queues_per_worker cfg) \<and>
     w_total w = int (queued_total (w_queues w)) \<and>
     (w_phase w = Sleeping \<longrightarrow> \<not> w_has_work w \<longrightarrow> w_was_empty w) \<and>
     (w_phase w = Sleeping \<longrightarrow> w_has_work w \<longrightarrow> \<not> w_was_empty w) \<and>
     (case w_phase w of
        Computing l b \<Rightarrow> l < num_layers cfg \<and> b \<noteq> [] \<and> length b \<le> max_batch cfg
      | Returning l b \<Rightarrow> l < num_layers cfg \<and> b \<noteq> [] \<and> length b \<le> max_batch cfg
      | _ \<Rightarrow> True)"

lemma w_was_empty_iff: "worker_ok cfg w \<Longrightarrow> w_was_empty w \<longleftrightarrow> queued_total (w_queues w) = 0 \<and> w_attn w = []"
  by (simp add: worker_ok_def w_was_empty_def)

lemma wake_simps [simp]:
  "w_queues (wake b w) = w_queues w" "w_total (wake b w) = w_total w" "w_attn (wake b w) = w_attn w"
  "w_phase (wake b w) = w_phase w" "w_has_work (wake b w) \<longleftrightarrow> w_has_work w \<or> b"
  "w_was_empty (wake b w) = w_was_empty w"
  by (auto simp: wake_def w_was_empty_def)

lemma w_enqueue_attention_ok:
  assumes "worker_ok cfg w"
  shows "worker_ok cfg (w_enqueue_attention l t w)"
    and "worker_attns (w_enqueue_attention l t w) = add_mset (l, t) (worker_attns w)"
    and "worker_reps (w_enqueue_attention l t w) = worker_reps w"
  using assms
  by (auto simp: w_enqueue_attention_def worker_ok_def w_was_empty_def worker_attns_def worker_reps_def
      Let_def split: phase.splits)

lemma w_enqueue_ok:
  assumes "worker_ok cfg w" and "l < num_layers cfg" and "j < queues_per_worker cfg"
  obtains w' where "w_enqueue l j t w = Inr w'" "worker_ok cfg w'"
    "worker_attns w' = worker_attns w" "worker_reps w' = add_mset (l, t) (worker_reps w)"
proof -
  define lq where "lq = w_queues w ! l"
  define w' where "w' = wake (w_was_empty w)
    (w\<lparr>w_queues := (w_queues w)[l := lq[j := lq ! j @ [t]]], w_total := w_total w + 1\<rparr>)"
  have l: "l < length (w_queues w)" and j: "j < length lq"
    using assms by (auto simp: worker_ok_def lq_def)
  have items: "queue_items ((w_queues w)[l := lq[j := lq ! j @ [t]]]) = queue_items (w_queues w) + {#(l, t)#}"
  proof -
    have "mset (concat (lq[j := lq ! j @ [t]])) = mset (concat lq) + {#t#}"
      using sum_list_map_update_add [OF j, of mset "lq ! j @ [t]" "{#t#}"] by (simp add: mset_concat)
    then show ?thesis using queue_items_update [OF l, of "lq[j := lq ! j @ [t]]" "{#t#}"]
      by (simp add: lq_def)
  qed
  have total: "queued_total (w_queues w') = queued_total (w_queues w) + 1"
    using arg_cong [OF items, of size] by (simp add: w'_def size_queue_items)
  have "w_enqueue l j t w = Inr w'"
    using l j by (simp add: w_enqueue_def Let_def w'_def lq_def)
  moreover have "worker_ok cfg w'"
    using assms(1) total j l unfolding worker_ok_def
    by (auto simp: w'_def w_was_empty_def lq_def dest!: set_update_subset_insert [THEN subsetD] split: phase.splits)
  moreover have "worker_attns w' = worker_attns w" "worker_reps w' = add_mset (l, t) (worker_reps w)"
    using items by (simp_all add: worker_attns_def worker_reps_def w'_def)
  ultimately show thesis using that by blast
qed

lemma form_batch_mset: "mset (concat qs) = mset (concat (snd (form_batch room qs))) + mset (fst (form_batch room qs))"
proof (induction qs arbitrary: room)
  case (Cons q qs)
  have "mset q = mset (take room q) + mset (drop room q)" by (rule mset_take_drop [symmetric])
  then show ?case using Cons [of "room - length q"] by (simp add: split_beta)
qed simp

lemma form_batch_length: "length (snd (form_batch room qs)) = length qs"
  by (induction qs arbitrary: room) (simp_all add: split_beta)

lemma form_batch_size: "length (fst (form_batch room qs)) = min room (layer_total qs)"
  by (induction qs arbitrary: room) (auto simp: split_beta layer_total_def)

text \<open>The batch is a prefix of the layer's queues read one after the other: the order is kept.\<close>

lemma form_batch_fifo: "fst (form_batch room qs) = take room (concat qs)"
  by (induction qs arbitrary: room) (simp_all add: split_beta)

text \<open>
  With work in its queues the worker always picks some: an attention token, or a non-empty
  batch of at most the maximal size.  Here the loop rests on the contract of the layer
  policy.
\<close>

definition picks_attention :: "worker \<Rightarrow> nat \<Rightarrow> token \<Rightarrow> (nat \<times> token) list \<Rightarrow> worker" where
  "picks_attention w l t ts =
     w\<lparr>w_attn := ts, w_inflight_attn := True, w_phase := AttnBusy l t\<rparr>"

definition picks_batch :: "worker \<Rightarrow> nat \<Rightarrow> token list \<Rightarrow> token list list \<Rightarrow> worker" where
  "picks_batch w l b rest =
     w\<lparr>w_queues := (w_queues w)[l := rest], w_total := w_total w - int (length b),
       w_inflight_batch := length b, w_phase := Computing l b\<rparr>"

lemma w_pick_cases:
  assumes "worker_ok cfg w" and "\<not> w_was_empty w" and "0 < max_batch cfg"
    and "\<forall>n\<in>{1..max_batch cfg}. compute_time cfg (int n) \<noteq> None"
  obtains (attention) l t ts where "w_attn w = (l, t) # ts"
      "w_pick cfg w = Inr (0, picks_attention w l t ts)"
    | (expert) l b rest where "l < length (w_queues w)" "form_batch (max_batch cfg) (w_queues w ! l) = (b, rest)"
      "b \<noteq> []" "length b \<le> max_batch cfg" "w_pick cfg w = Inr (length b, picks_batch w l b rest)"
proof (cases "fst (select_next_task cfg w)")
  case (Attention l t)
  then obtain ts where "w_attn w = (l, t) # ts"
    and "select_next_task cfg w = (Attention l t, w\<lparr>w_attn := ts\<rparr>)"
    by (cases "w_attn w") (auto simp: select_next_task_def Let_def split: if_splits)
  then show ?thesis by (intro attention) (simp_all add: w_pick_def picks_attention_def)
next
  case (Expert r)
  let ?sel = "select_layer (policy cfg) (w_queues w)"
  have r: "select_next_task cfg w = (Expert (fst ?sel), w)" "r = fst ?sel"
    using Expert by (auto simp: select_next_task_def Let_def split: if_splits)
  have "fst ?sel \<noteq> None"
  proof
    assume none: "fst ?sel = None"
    then have "queued_total (w_queues w) = 0" by (simp add: sel.select_None)
    then have "w_attn w \<noteq> []" using assms(2) w_was_empty_iff [OF assms(1)] by simp
    then show False using Expert none by (simp add: select_next_task_def)
  qed
  then obtain l where l: "fst ?sel = Some l" by blast
  note sl = sel.select_Some [OF l]
  obtain b rest where fb: "form_batch (max_batch cfg) (w_queues w ! l) = (b, rest)" by fastforce
  have len: "length b = min (max_batch cfg) (layer_total (w_queues w ! l))"
    using form_batch_size [of "max_batch cfg" "w_queues w ! l"] fb by simp
  then have b: "b \<noteq> []" "length b \<le> max_batch cfg" using sl assms(3) by auto
  obtain x where "compute_time cfg (int (length b)) = Some x"
    using assms(4) b by (cases b) force+
  then have "w_pick cfg w = Inr (length b, picks_batch w l b rest)"
    using b(1) by (simp add: w_pick_def r(1) l fb picks_batch_def)
  then show ?thesis using expert sl fb b by blast
qed

lemma picks_attention_ok:
  assumes "worker_ok cfg w" and "w_attn w = (l, t) # ts" and "w_phase w = Ready \<or> w_phase w = Sleeping"
  shows "worker_ok cfg (picks_attention w l t ts)"
    "worker_attns (picks_attention w l t ts) = worker_attns w"
    "worker_reps (picks_attention w l t ts) = worker_reps w"
  using assms by (auto simp: picks_attention_def worker_ok_def worker_attns_def worker_reps_def phase_reps_def)

lemma picks_batch_ok:
  assumes "worker_ok cfg w" and "l < length (w_queues w)" and "form_batch (max_batch cfg) (w_queues w ! l) = (b, rest)"
    and "b \<noteq> []" and "length b \<le> max_batch cfg" and "w_phase w = Ready \<or> w_phase w = Sleeping"
  shows "worker_ok cfg (picks_batch w l b rest)"
    "worker_attns (picks_batch w l b rest) = worker_attns w"
    "worker_reps (picks_batch w l b rest) = worker_reps w"
proof -
  have m: "mset (concat (w_queues w ! l)) = mset (concat rest) + mset b"
    using form_batch_mset [of "w_queues w ! l" "max_batch cfg"] assms(3) by simp
  have items: "queue_items (w_queues w) = queue_items ((w_queues w)[l := rest]) + image_mset (Pair l) (mset b)"
    by (rule queue_items_remove [OF assms(2) m])
  have "length rest = queues_per_worker cfg"
    using form_batch_length [of "max_batch cfg" "w_queues w ! l"] assms(1-3) by (auto simp: worker_ok_def)
  moreover have "queued_total (w_queues w) = queued_total ((w_queues w)[l := rest]) + length b"
    using arg_cong [OF items, of size] by (simp add: size_queue_items)
  ultimately show "worker_ok cfg (picks_batch w l b rest)"
    using assms unfolding worker_ok_def
    by (auto simp: picks_batch_def dest!: set_update_subset_insert [THEN subsetD])
  show "worker_attns (picks_batch w l b rest) = worker_attns w"
    "worker_reps (picks_batch w l b rest) = worker_reps w"
    using items assms(6) by (auto simp: picks_batch_def worker_attns_def worker_reps_def phase_reps_def)
qed

section \<open>The base invariant\<close>

definition proc_ok :: "sim_config \<Rightarrow> route_proc \<Rightarrow> bool" where
  "proc_ok cfg p =
     (case p of Spawned l t \<Rightarrow> True
      | Sending l t routes \<Rightarrow> l < num_layers cfg \<and> routes \<noteq> [] \<and>
          (\<forall>(w, j)\<in>set routes. w < ep_size cfg \<and> j < queues_per_worker cfg))"

definition base_ok :: "sim_config \<Rightarrow> sim \<Rightarrow> bool" where
  "base_ok cfg s \<longleftrightarrow>
     length (sm_workers s) = ep_size cfg \<and> (\<forall>w\<in>set (sm_workers s). worker_ok cfg w) \<and>
     (\<forall>p\<in>set (sm_procs s). proc_ok cfg p) \<and> rm_first_attention s = Some 0"

lemma base_ok_nth: "base_ok cfg s \<Longrightarrow> i < ep_size cfg \<Longrightarrow> worker_ok cfg (sm_workers s ! i)"
  by (simp add: base_ok_def)

text \<open>Replacing one worker.\<close>

lemma set_worker_ok:
  assumes "base_ok cfg s" and "i < length (sm_workers s)" and "worker_ok cfg w"
    and "worker_attns w = worker_attns (sm_workers s ! i) + da" and "worker_reps w = worker_reps (sm_workers s ! i) + dr"
  shows "base_ok cfg (set_worker i w s)" "atts (set_worker i w s) = atts s + da" "reps (set_worker i w s) = reps s + dr"
proof -
  show "base_ok cfg (set_worker i w s)"
    using assms(1,3) by (auto simp: base_ok_def set_worker_def dest!: set_update_subset_insert [THEN subsetD])
  show "atts (set_worker i w s) = atts s + da"
    using sum_list_map_update_add [OF assms(2,4)] by (simp add: atts_def set_worker_def ac_simps)
  show "reps (set_worker i w s) = reps s + dr"
    using sum_list_map_update_add [OF assms(2,5)] by (simp add: reps_def set_worker_def ac_simps)
qed

lemma attn_enqueue_ok:
  assumes "base_ok cfg s" and "tk_home_gpu t < ep_size cfg"
  obtains ws where "attn_enqueue l t s = Inr (s\<lparr>sm_workers := ws\<rparr>)" "base_ok cfg (s\<lparr>sm_workers := ws\<rparr>)"
    "atts (s\<lparr>sm_workers := ws\<rparr>) = add_mset (l, t) (atts s)" "reps (s\<lparr>sm_workers := ws\<rparr>) = reps s"
proof -
  let ?i = "tk_home_gpu t"
  let ?w = "w_enqueue_attention l t (sm_workers s ! ?i)"
  have i: "?i < length (sm_workers s)" using assms by (simp add: base_ok_def)
  note w = w_enqueue_attention_ok [OF base_ok_nth [OF assms], of l t]
  have e: "set_worker ?i ?w s = s\<lparr>sm_workers := (sm_workers s)[?i := ?w]\<rparr>" by (simp add: set_worker_def)
  have "attn_enqueue l t s = Inr (s\<lparr>sm_workers := (sm_workers s)[?i := ?w]\<rparr>)"
    using i by (simp add: attn_enqueue_def)
  then show thesis
    using set_worker_ok [OF assms(1) i w(1), of "{#(l, t)#}" "{#}"] w(2,3) unfolding e
    by (intro that) auto
qed

lemma send_copy_ok:
  assumes "base_ok cfg s" and "l < num_layers cfg" and "fst r < ep_size cfg" and "snd r < queues_per_worker cfg"
  obtains ws where "send_copy l t r s = Inr (s\<lparr>sm_workers := ws\<rparr>)" "base_ok cfg (s\<lparr>sm_workers := ws\<rparr>)"
    "atts (s\<lparr>sm_workers := ws\<rparr>) = atts s" "reps (s\<lparr>sm_workers := ws\<rparr>) = add_mset (l, t) (reps s)"
proof -
  have i: "fst r < length (sm_workers s)" using assms by (simp add: base_ok_def)
  obtain w where w: "w_enqueue l (snd r) t (sm_workers s ! fst r) = Inr w" "worker_ok cfg w"
    "worker_attns w = worker_attns (sm_workers s ! fst r)"
    "worker_reps w = add_mset (l, t) (worker_reps (sm_workers s ! fst r))"
    using w_enqueue_ok [OF base_ok_nth [OF assms(1,3)] assms(2,4)] by blast
  have e: "set_worker (fst r) w s = s\<lparr>sm_workers := (sm_workers s)[fst r := w]\<rparr>" by (simp add: set_worker_def)
  have "send_copy l t r s = Inr (s\<lparr>sm_workers := (sm_workers s)[fst r := w]\<rparr>)"
    using i w(1) by (simp add: send_copy_def)
  then show thesis
    using set_worker_ok [OF assms(1) i w(2), of "{#}" "{#(l, t)#}"] w(3,4) unfolding e
    by (intro that) auto
qed

lemma send_copies_ok:
  assumes "base_ok cfg s" and "l < num_layers cfg"
    and "\<forall>(w, j)\<in>set rs. w < ep_size cfg \<and> j < queues_per_worker cfg"
  obtains ws where "foldR (send_copy l t) rs s = Inr (s\<lparr>sm_workers := ws\<rparr>)" "base_ok cfg (s\<lparr>sm_workers := ws\<rparr>)"
    "atts (s\<lparr>sm_workers := ws\<rparr>) = atts s"
    "reps (s\<lparr>sm_workers := ws\<rparr>) = reps s + replicate_mset (length rs) (l, t)"
  using assms
proof (induction rs arbitrary: s thesis)
  case Nil
  have "s\<lparr>sm_workers := sm_workers s\<rparr> = s" by simp
  then show ?case using Nil.prems(1) [of "sm_workers s"] Nil.prems(2) by simp
next
  case (Cons r rs)
  obtain ws where ws: "send_copy l t r s = Inr (s\<lparr>sm_workers := ws\<rparr>)" "base_ok cfg (s\<lparr>sm_workers := ws\<rparr>)"
    "atts (s\<lparr>sm_workers := ws\<rparr>) = atts s" "reps (s\<lparr>sm_workers := ws\<rparr>) = add_mset (l, t) (reps s)"
    using send_copy_ok [OF Cons.prems(2,3), of r] Cons.prems(4) by (auto split: prod.splits)
  obtain ws' where ws': "foldR (send_copy l t) rs (s\<lparr>sm_workers := ws\<rparr>) = Inr (s\<lparr>sm_workers := ws\<rparr>\<lparr>sm_workers := ws'\<rparr>)"
    "base_ok cfg (s\<lparr>sm_workers := ws\<rparr>\<lparr>sm_workers := ws'\<rparr>)"
    "atts (s\<lparr>sm_workers := ws\<rparr>\<lparr>sm_workers := ws'\<rparr>) = atts (s\<lparr>sm_workers := ws\<rparr>)"
    "reps (s\<lparr>sm_workers := ws\<rparr>\<lparr>sm_workers := ws'\<rparr>)
      = reps (s\<lparr>sm_workers := ws\<rparr>) + replicate_mset (length rs) (l, t)"
    using Cons.IH [OF _ ws(2) Cons.prems(3)] Cons.prems(4) by auto
  then show ?case using Cons.prems(1) [of ws'] ws by simp
qed

end
