(* ===== verification/SimAsyncCore.thy ===== *)
theory SimAsyncCore
  imports SimAsyncInv
begin

text \<open>
  The abstract state of the asynchronous simulator and its relation to the concrete one.
  \<open>G r\<close> says where the token of request \<open>r\<close> is: the token, its layer, and whether it is on
  the attention side (True) or spread over experts (False).  \<open>core\<close> relates \<open>G\<close> to the
  multisets of attention items \<open>A\<close> and of expert replicas \<open>R\<close> and to the counters; its lemmas
  are the abstract transitions.
\<close>

type_synonym stage_map = "nat \<Rightarrow> (token \<times> nat \<times> bool) option"

definition core_items ::
  "stage_map \<Rightarrow> (nat \<times> token) multiset \<Rightarrow> (nat \<times> token) multiset \<Rightarrow> (nat \<Rightarrow> nat \<Rightarrow> nat option) \<Rightarrow>
   (nat \<Rightarrow> nat \<Rightarrow> nat) \<Rightarrow> bool" where
  "core_items G A R fan cnt \<longleftrightarrow>
     (\<forall>l t. count A (l, t) = (if G (tk_request_id t) = Some (t, l, True) then 1 else 0)) \<and>
     (\<forall>l t. count R (l, t) = (if G (tk_request_id t) = Some (t, l, False)
        then the (fan (tk_tid t) l) - cnt l (tk_tid t) else 0))"

definition core_counts ::
  "sim_config \<Rightarrow> stage_map \<Rightarrow> (nat \<Rightarrow> nat \<Rightarrow> nat option) \<Rightarrow> (nat \<Rightarrow> nat \<Rightarrow> nat) \<Rightarrow>
   (nat \<Rightarrow> nat \<Rightarrow> token option) \<Rightarrow> bool" where
  "core_counts cfg G fan cnt pt \<longleftrightarrow>
     (\<forall>r t l. G r = Some (t, l, False) \<longrightarrow> (\<exists>f. fan (tk_tid t) l = Some f \<and> cnt l (tk_tid t) < f)) \<and>
     (\<forall>l k. l < num_layers cfg \<longrightarrow> cnt l k \<noteq> 0 \<longrightarrow> (\<exists>r t. G r = Some (t, l, False) \<and> tk_tid t = k)) \<and>
     (\<forall>l k t. pt (Suc l) k = Some t \<longrightarrow>
        G (tk_request_id t) = Some (t, l, False) \<and> tk_tid t = k \<and> Suc l < num_layers cfg)"

definition core_tokens ::
  "sim_config \<Rightarrow> stage_map \<Rightarrow> nat \<Rightarrow> (nat \<Rightarrow> nat option) \<Rightarrow> (nat \<Rightarrow> nat option) \<Rightarrow> bool" where
  "core_tokens cfg G nt st hm \<longleftrightarrow>
     (\<forall>r t l b. G r = Some (t, l, b) \<longrightarrow>
        tk_request_id t = r \<and> l < num_layers cfg \<and> tk_token_index t < tokens_per_request cfg \<and>
        tk_home_gpu t < ep_size cfg \<and> tk_tid t < nt \<and> st r = Some (tk_token_index t + 1) \<and>
        hm r = Some (tk_home_gpu t)) \<and>
     (\<forall>r r' t t' l l' b b'. G r = Some (t, l, b) \<longrightarrow> G r' = Some (t', l', b') \<longrightarrow> tk_tid t = tk_tid t' \<longrightarrow> r = r')"

definition core where
  "core cfg G A R fan cnt pt nt st hm \<longleftrightarrow>
     core_items G A R fan cnt \<and> core_counts cfg G fan cnt pt \<and> core_tokens cfg G nt st hm"

lemma upd2_apply [simp]: "upd2 f a b x c d = (if c = a \<and> d = b then x else f c d)"
  by (simp add: upd2_def)

lemma core_token:
  assumes "core cfg G A R fan cnt pt nt st hm" and "G r = Some (t, l, b)"
  shows "tk_request_id t = r" "l < num_layers cfg" "tk_token_index t < tokens_per_request cfg"
    "tk_home_gpu t < ep_size cfg" "tk_tid t < nt" "st r = Some (tk_token_index t + 1)" "hm r = Some (tk_home_gpu t)"
  using assms unfolding core_def core_tokens_def by blast+

lemma core_same_tid:
  "core cfg G A R fan cnt pt nt st hm \<Longrightarrow> G r = Some (t, l, b) \<Longrightarrow> G r' = Some (t', l', b') \<Longrightarrow>
   tk_tid t = tk_tid t' \<Longrightarrow> r = r' \<and> t = t' \<and> l = l' \<and> b = b'"
  unfolding core_def core_tokens_def by (metis Pair_inject option.inject)

lemma core_att_member:
  "core cfg G A R fan cnt pt nt st hm \<Longrightarrow> (l, t) \<in># A \<Longrightarrow> G (tk_request_id t) = Some (t, l, True)"
  unfolding core_def core_items_def by (metis count_eq_zero_iff)

lemma core_rep_member:
  assumes "core cfg G A R fan cnt pt nt st hm" and "(l, t) \<in># R"
  obtains f where "G (tk_request_id t) = Some (t, l, False)" "fan (tk_tid t) l = Some f" "cnt l (tk_tid t) < f"
proof -
  have g: "G (tk_request_id t) = Some (t, l, False)"
    using assms unfolding core_def core_items_def by (metis count_eq_zero_iff)
  then show thesis using assms(1) that unfolding core_def core_counts_def by blast
qed

lemma core_items_att: "core cfg G A R fan cnt pt nt st hm \<Longrightarrow>
    count A (l, t) = (if G (tk_request_id t) = Some (t, l, True) then 1 else 0)"
  unfolding core_def core_items_def by blast

lemma core_items_rep: "core cfg G A R fan cnt pt nt st hm \<Longrightarrow>
    count R (l, t) = (if G (tk_request_id t) = Some (t, l, False) then the (fan (tk_tid t) l) - cnt l (tk_tid t) else 0)"
  unfolding core_def core_items_def by blast

lemma core_count_bound: "core cfg G A R fan cnt pt nt st hm \<Longrightarrow> G r = Some (t, l, False) \<Longrightarrow>
    \<exists>f. fan (tk_tid t) l = Some f \<and> cnt l (tk_tid t) < f"
  unfolding core_def core_counts_def by blast

lemma core_count_live: "core cfg G A R fan cnt pt nt st hm \<Longrightarrow> l < num_layers cfg \<Longrightarrow> cnt l k \<noteq> 0 \<Longrightarrow>
    \<exists>r t. G r = Some (t, l, False) \<and> tk_tid t = k"
  unfolding core_def core_counts_def by blast

lemma core_pending: "core cfg G A R fan cnt pt nt st hm \<Longrightarrow> pt (Suc l) k = Some t \<Longrightarrow>
    G (tk_request_id t) = Some (t, l, False) \<and> tk_tid t = k \<and> Suc l < num_layers cfg"
  unfolding core_def core_counts_def by blast

lemma core_countsI:
  assumes "\<And>r t l. G r = Some (t, l, False) \<Longrightarrow> \<exists>f. fan (tk_tid t) l = Some f \<and> cnt l (tk_tid t) < f"
    and "\<And>l k. l < num_layers cfg \<Longrightarrow> cnt l k \<noteq> 0 \<Longrightarrow> \<exists>r t. G r = Some (t, l, False) \<and> tk_tid t = k"
    and "\<And>l k t. pt (Suc l) k = Some t \<Longrightarrow>
      G (tk_request_id t) = Some (t, l, False) \<and> tk_tid t = k \<and> Suc l < num_layers cfg"
  shows "core_counts cfg G fan cnt pt"
  using assms unfolding core_counts_def by blast

text \<open>Changing one entry keeps the token clauses when the new entry satisfies them.\<close>

lemma core_tokens_upd:
  assumes c: "core cfg G A R fan cnt pt nt st hm"
    and new: "tk_request_id t = r" "l < num_layers cfg" "tk_token_index t < tokens_per_request cfg"
      "tk_home_gpu t < ep_size cfg" "tk_tid t < nt'" "st' r = Some (tk_token_index t + 1)" "hm' r = Some (tk_home_gpu t)"
    and fresh: "\<And>r' t' l' b'. r' \<noteq> r \<Longrightarrow> G r' = Some (t', l', b') \<Longrightarrow> tk_tid t' \<noteq> tk_tid t"
    and mono: "nt \<le> nt'" "\<And>r'. r' \<noteq> r \<Longrightarrow> st' r' = st r'" "\<And>r'. r' \<noteq> r \<Longrightarrow> hm' r' = hm r'"
  shows "core_tokens cfg (G(r \<mapsto> (t, l, b))) nt' st' hm'"
  unfolding core_tokens_def
proof (intro conjI allI impI)
  fix r' t' l' b' assume e: "(G(r \<mapsto> (t, l, b))) r' = Some (t', l', b')"
  consider "r' = r" "t' = t" "l' = l" | "r' \<noteq> r" "G r' = Some (t', l', b')"
    using e by (auto split: if_splits)
  then have "tk_request_id t' = r' \<and> l' < num_layers cfg \<and> tk_token_index t' < tokens_per_request cfg \<and>
      tk_home_gpu t' < ep_size cfg \<and> tk_tid t' < nt' \<and> st' r' = Some (tk_token_index t' + 1) \<and>
      hm' r' = Some (tk_home_gpu t')"
  proof cases
    case 1 then show ?thesis using new by simp
  next
    case 2
    note x = core_token [OF c 2(2)]
    show ?thesis using x mono(1) mono(2,3) [OF 2(1)] by simp
  qed
  then show "tk_request_id t' = r'" "l' < num_layers cfg" "tk_token_index t' < tokens_per_request cfg"
      "tk_home_gpu t' < ep_size cfg" "tk_tid t' < nt'" "st' r' = Some (tk_token_index t' + 1)"
      "hm' r' = Some (tk_home_gpu t')" by blast+
next
  fix r1 r2 t1 t2 l1 l2 b1 b2
  assume "(G(r \<mapsto> (t, l, b))) r1 = Some (t1, l1, b1)" "(G(r \<mapsto> (t, l, b))) r2 = Some (t2, l2, b2)"
    and tid: "tk_tid t1 = tk_tid t2"
  then show "r1 = r2"
    using fresh core_same_tid [OF c _ _ tid] by (auto split: if_splits)
qed

text \<open>A request without a token under way sends its next one.\<close>

lemma core_new:
  assumes c: "core cfg G A R fan cnt pt nt st hm" and r: "G r = None"
    and t: "tk_request_id t = r" "tk_tid t = nt" "tk_token_index t = i" "tk_home_gpu t = g"
    and b: "i < tokens_per_request cfg" "g < ep_size cfg" "0 < num_layers cfg"
    and st: "st' = st(r \<mapsto> i + 1)" and hm: "hm' r = Some g" "\<And>r'. r' \<noteq> r \<Longrightarrow> hm' r' = hm r'"
  shows "core cfg (G(r \<mapsto> (t, 0, True))) (add_mset (0, t) A) R fan cnt pt (Suc nt) st' hm'"
proof -
  let ?G = "G(r \<mapsto> (t, 0, True))"
  have nor: "G r \<noteq> Some e" for e using r by simp
  have other: "tk_tid t' \<noteq> nt" if "G r' = Some (t', l', b')" for r' t' l' b'
    using core_token(5) [OF c that] by simp
  have "core_items ?G (add_mset (0, t) A) R fan cnt"
    unfolding core_items_def using core_items_att [OF c] core_items_rep [OF c] r t(1) by auto
  moreover have "core_counts cfg ?G fan cnt pt"
  proof (rule core_countsI)
    fix r' t' l assume "?G r' = Some (t', l, False)"
    then show "\<exists>f. fan (tk_tid t') l = Some f \<and> cnt l (tk_tid t') < f"
      using core_count_bound [OF c] by (auto split: if_splits)
  next
    fix l k assume "l < num_layers cfg" "cnt l k \<noteq> 0"
    from core_count_live [OF c this] show "\<exists>r t. ?G r = Some (t, l, False) \<and> tk_tid t = k"
      using nor by (metis fun_upd_other)
  next
    fix l k t' assume "pt (Suc l) k = Some t'"
    from core_pending [OF c this] show "?G (tk_request_id t') = Some (t', l, False) \<and> tk_tid t' = k \<and> Suc l < num_layers cfg"
      using nor by (metis fun_upd_other)
  qed
  moreover have "core_tokens cfg ?G (Suc nt) st' hm'"
    by (rule core_tokens_upd [OF c]) (use t b st hm other in auto)
  ultimately show ?thesis by (simp add: core_def)
qed

text \<open>Routing turns the attention item into as many replicas as experts were chosen.\<close>

lemma core_att_no_count:
  assumes c: "core cfg G A R fan cnt pt nt st hm" and g: "G r = Some (t, l, True)" and "l' < num_layers cfg"
  shows "cnt l' (tk_tid t) = 0"
proof (rule ccontr)
  assume "cnt l' (tk_tid t) \<noteq> 0"
  then obtain r' t' where "G r' = Some (t', l', False)" "tk_tid t' = tk_tid t"
    using core_count_live [OF c assms(3)] by blast
  then show False using core_same_tid [OF c g, of r' t' l' False] by simp
qed

lemma core_route:
  assumes c: "core cfg G A R fan cnt pt nt st hm" and g: "G r = Some (t, l, True)" and f: "0 < f"
  shows "core cfg (G(r \<mapsto> (t, l, False))) (A - {#(l, t)#}) (R + replicate_mset f (l, t))
    (upd2 fan (tk_tid t) l (Some f)) cnt pt nt st hm"
proof -
  let ?G = "G(r \<mapsto> (t, l, False))"
  note t = core_token [OF c g]
  have z: "cnt l (tk_tid t) = 0" by (rule core_att_no_count [OF c g t(2)])
  have other: "tk_tid t' \<noteq> tk_tid t" if "r' \<noteq> r" "G r' = Some (t', l', b')" for r' t' l' b'
    using core_same_tid [OF c g that(2)] that(1) by auto
  have nor: "G r \<noteq> Some (t', l', False)" for t' l' using g by simp
  have "core_items ?G (A - {#(l, t)#}) (R + replicate_mset f (l, t)) (upd2 fan (tk_tid t) l (Some f)) cnt"
    unfolding core_items_def
  proof (intro conjI allI)
    fix l' t'
    show "count (A - {#(l, t)#}) (l', t') = (if ?G (tk_request_id t') = Some (t', l', True) then 1 else 0)"
      using core_items_att [OF c, of l' t'] g t(1) by auto
    show "count (R + replicate_mset f (l, t)) (l', t') = (if ?G (tk_request_id t') = Some (t', l', False)
        then the (upd2 fan (tk_tid t) l (Some f) (tk_tid t') l') - cnt l' (tk_tid t') else 0)"
    proof (cases "tk_request_id t' = r")
      case True
      then show ?thesis using core_items_rep [OF c, of l' t'] g z by auto
    next
      case False
      then have "(l', t') \<noteq> (l, t)" using t(1) by auto
      then show ?thesis using core_items_rep [OF c, of l' t'] False other [OF False] by auto
    qed
  qed
  moreover have "core_counts cfg ?G (upd2 fan (tk_tid t) l (Some f)) cnt pt"
  proof (rule core_countsI)
    fix r' t' l' assume "?G r' = Some (t', l', False)"
    then show "\<exists>f'. upd2 fan (tk_tid t) l (Some f) (tk_tid t') l' = Some f' \<and> cnt l' (tk_tid t') < f'"
      using core_count_bound [OF c, of r' t' l'] f z other by (auto split: if_splits)
  next
    fix l' k assume "l' < num_layers cfg" "cnt l' k \<noteq> 0"
    from core_count_live [OF c this] show "\<exists>r t. ?G r = Some (t, l', False) \<and> tk_tid t = k"
      using nor by (metis fun_upd_other)
  next
    fix l' k t' assume "pt (Suc l') k = Some t'"
    from core_pending [OF c this] show "?G (tk_request_id t') = Some (t', l', False) \<and> tk_tid t' = k \<and> Suc l' < num_layers cfg"
      using nor by (metis fun_upd_other)
  qed
  moreover have "core_tokens cfg ?G nt st hm"
    by (rule core_tokens_upd [OF c]) (use t other in auto)
  ultimately show ?thesis by (simp add: core_def)
qed

text \<open>
  One replica returns: while others are out only the count changes; the last one either
  takes the token to the next layer or ends it.
\<close>

lemma core_partial:
  assumes c: "core cfg G A R fan cnt pt nt st hm" and g: "G r = Some (t, l, False)"
    and f: "fan (tk_tid t) l = Some f" "cnt l (tk_tid t) + 1 < f"
    and pt: "\<And>l' k t'. pt' (Suc l') k = Some t' \<Longrightarrow> pt (Suc l') k = Some t' \<or>
      t' = t \<and> l' = l \<and> k = tk_tid t \<and> Suc l < num_layers cfg"
  shows "core cfg G A (R - {#(l, t)#}) fan (upd2 cnt l (tk_tid t) (cnt l (tk_tid t) + 1)) pt' nt st hm"
proof -
  let ?cnt = "upd2 cnt l (tk_tid t) (cnt l (tk_tid t) + 1)"
  note t = core_token [OF c g]
  have same: "r' = r \<and> t' = t \<and> l' = l" if "G r' = Some (t', l', b)" "tk_tid t' = tk_tid t" for r' t' l' b
    using core_same_tid [OF c g that(1)] that(2) by simp
  have "core_items G A (R - {#(l, t)#}) fan ?cnt"
    unfolding core_items_def
  proof (intro conjI allI)
    fix l' t'
    show "count A (l', t') = (if G (tk_request_id t') = Some (t', l', True) then 1 else 0)"
      by (rule core_items_att [OF c])
    show "count (R - {#(l, t)#}) (l', t') = (if G (tk_request_id t') = Some (t', l', False)
        then the (fan (tk_tid t') l') - ?cnt l' (tk_tid t') else 0)"
    proof (cases "(l', t') = (l, t)")
      case True
      then show ?thesis using core_items_rep [OF c, of l t] g t(1) f by simp
    next
      case False
      then have n: "count (R - {#(l, t)#}) (l', t') = count R (l', t')" by auto
      show ?thesis
      proof (cases "G (tk_request_id t') = Some (t', l', False)")
        case True
        then have "\<not> (l' = l \<and> tk_tid t' = tk_tid t)" using same [OF True] False by blast
        then have "?cnt l' (tk_tid t') = cnt l' (tk_tid t')" by simp
        then show ?thesis unfolding n core_items_rep [OF c, of l' t'] by simp
      qed (simp add: n core_items_rep [OF c])
    qed
  qed
  moreover have "core_counts cfg G fan ?cnt pt'"
  proof (rule core_countsI)
    fix r' t' l' assume a: "G r' = Some (t', l', False)"
    show "\<exists>f'. fan (tk_tid t') l' = Some f' \<and> ?cnt l' (tk_tid t') < f'"
      using core_count_bound [OF c a] f same [OF a] by auto
  next
    fix l' k assume a: "l' < num_layers cfg" "?cnt l' k \<noteq> 0"
    show "\<exists>r t. G r = Some (t, l', False) \<and> tk_tid t = k"
    proof (cases "l' = l \<and> k = tk_tid t")
      case True then show ?thesis using g by blast
    next
      case False
      then have "cnt l' k \<noteq> 0" using a(2) by (auto split: if_splits)
      then show ?thesis by (rule core_count_live [OF c a(1)])
    qed
  next
    fix l' k t' assume "pt' (Suc l') k = Some t'"
    from pt [OF this] show "G (tk_request_id t') = Some (t', l', False) \<and> tk_tid t' = k \<and> Suc l' < num_layers cfg"
    proof
      assume "pt (Suc l') k = Some t'" then show ?thesis by (rule core_pending [OF c])
    qed (use g t(1) in simp)
  qed
  ultimately show ?thesis using c by (simp add: core_def)
qed

lemma core_last:
  assumes c: "core cfg G A R fan cnt pt nt st hm" and g: "G r = Some (t, l, False)"
    and f: "fan (tk_tid t) l = Some (cnt l (tk_tid t) + 1)"
    and pt: "\<And>l' k t'. pt' (Suc l') k = Some t' \<Longrightarrow> pt (Suc l') k = Some t' \<and> t' \<noteq> t"
    and e: "e = None \<and> A' = A \<or>
      e = Some (t, Suc l, True) \<and> A' = add_mset (Suc l, t) A \<and> Suc l < num_layers cfg"
  shows "core cfg (G(r := e)) A' (R - {#(l, t)#}) fan (upd2 cnt l (tk_tid t) 0) pt' nt st hm"
proof -
  let ?cnt = "upd2 cnt l (tk_tid t) 0" and ?G = "G(r := e)"
  note t = core_token [OF c g]
  have other: "tk_tid t' \<noteq> tk_tid t" if "r' \<noteq> r" "G r' = Some (t', l', b')" for r' t' l' b'
    using core_same_tid [OF c g that(2)] that(1) by auto
  have "core_items ?G A' (R - {#(l, t)#}) fan ?cnt"
    unfolding core_items_def
  proof (intro conjI allI)
    fix l' t'
    show "count A' (l', t') = (if ?G (tk_request_id t') = Some (t', l', True) then 1 else 0)"
    proof (cases "tk_request_id t' = r")
      case True
      then have "count A (l', t') = 0" using core_items_att [OF c, of l' t'] g by simp
      then show ?thesis using True e by (cases "(l', t') = (Suc l, t)") auto
    next
      case False
      then show ?thesis using core_items_att [OF c, of l' t'] e t(1) by auto
    qed
    show "count (R - {#(l, t)#}) (l', t') = (if ?G (tk_request_id t') = Some (t', l', False)
        then the (fan (tk_tid t') l') - ?cnt l' (tk_tid t') else 0)"
    proof (cases "tk_request_id t' = r")
      case True
      then have "count R (l', t') = (if (l', t') = (l, t) then 1 else 0)"
        using core_items_rep [OF c, of l' t'] g f by auto
      then show ?thesis using True e by auto
    next
      case False
      then have "(l', t') \<noteq> (l, t)" using t(1) by auto
      then show ?thesis using core_items_rep [OF c, of l' t'] False other [OF False] by auto
    qed
  qed
  moreover have "core_counts cfg ?G fan ?cnt pt'"
  proof (rule core_countsI)
    fix r' t' l' assume a: "?G r' = Some (t', l', False)"
    then have r': "r' \<noteq> r" "G r' = Some (t', l', False)" using e by (auto split: if_splits)
    show "\<exists>f'. fan (tk_tid t') l' = Some f' \<and> ?cnt l' (tk_tid t') < f'"
      using core_count_bound [OF c r'(2)] other [OF r'] by auto
  next
    fix l' k assume a: "l' < num_layers cfg" "?cnt l' k \<noteq> 0"
    then have k: "cnt l' k \<noteq> 0" "\<not> (l' = l \<and> k = tk_tid t)" by (auto split: if_splits)
    from core_count_live [OF c a(1) k(1)] obtain r' t' where r': "G r' = Some (t', l', False)" "tk_tid t' = k" by blast
    then have "r' \<noteq> r" using g k(2) by auto
    then show "\<exists>r t. ?G r = Some (t, l', False) \<and> tk_tid t = k" using r' by auto
  next
    fix l' k t' assume a: "pt' (Suc l') k = Some t'"
    note p = core_pending [OF c conjunct1 [OF pt [OF a]]] conjunct2 [OF pt [OF a]]
    then have "tk_request_id t' \<noteq> r" using g by auto
    then show "?G (tk_request_id t') = Some (t', l', False) \<and> tk_tid t' = k \<and> Suc l' < num_layers cfg"
      using p by simp
  qed
  moreover have "core_tokens cfg ?G nt st hm"
  proof (cases e)
    case None
    then show ?thesis using c unfolding core_def core_tokens_def by (auto split: if_splits)
  next
    case (Some x)
    then have e': "e = Some (t, Suc l, True)" "Suc l < num_layers cfg" using e by auto
    show ?thesis unfolding e'(1)
      by (rule core_tokens_upd [OF c]) (use t other e'(2) in auto)
  qed
  ultimately show ?thesis by (simp add: core_def)
qed

text \<open>Entries of a request without a token may change freely.\<close>

lemma core_forget:
  assumes c: "core cfg G A R fan cnt pt nt st hm" and g: "G r = None"
    and "\<And>r'. r' \<noteq> r \<Longrightarrow> st' r' = st r'" "\<And>r'. r' \<noteq> r \<Longrightarrow> hm' r' = hm r'"
  shows "core cfg G A R fan cnt pt nt st' hm'"
proof -
  have "core_tokens cfg G nt st' hm'"
    unfolding core_tokens_def
  proof (intro conjI allI impI)
    fix r' t' l' b' assume a: "G r' = Some (t', l', b')"
    then have "r' \<noteq> r" using g by auto
    then show "tk_request_id t' = r'" "l' < num_layers cfg" "tk_token_index t' < tokens_per_request cfg"
        "tk_home_gpu t' < ep_size cfg" "tk_tid t' < nt" "st' r' = Some (tk_token_index t' + 1)"
        "hm' r' = Some (tk_home_gpu t')"
      using core_token [OF c a] assms(3,4) by simp_all
  next
    fix r1 r2 t1 t2 l1 l2 b1 b2
    assume "G r1 = Some (t1, l1, b1)" "G r2 = Some (t2, l2, b2)" "tk_tid t1 = tk_tid t2"
    then show "r1 = r2" using core_same_tid [OF c] by blast
  qed
  then show ?thesis using c by (simp add: core_def)
qed

lemma core_empty: "core cfg (\<lambda>_. None) {#} {#} fan (\<lambda>_ _. 0) (\<lambda>_ _. None) nt st hm"
  by (simp add: core_def core_items_def core_counts_def core_tokens_def)

end
