(* ===== verification/SimAsyncSafe.thy ===== *)
theory SimAsyncSafe
  imports SimAsyncCore
begin

text \<open>
  The asynchronous simulator preserves its invariant: no event raises, at most the
  configured number of requests is active, and each request completes its tokens one by
  one in order.
\<close>

section \<open>The configuration\<close>

text \<open>
  What a run needs of its configuration, its router and its compute-time table: the GPUs
  divide the experts, batches, tokens and layers are not zero, the table covers the batch
  sizes (which \<open>expert_compute_time_lookup\<close> checks), and a row that the router returns names
  at least one expert, all of them existing.  The router may also raise.
\<close>

definition cfg_ok :: "sim_config \<Rightarrow> bool" where
  "cfg_ok cfg \<longleftrightarrow>
     max 1 (attn_dp cfg) = ep_size cfg \<and> total_experts cfg mod ep_size cfg = 0 \<and>
     0 < num_layers cfg \<and> 0 < max_batch cfg \<and> 0 < tokens_per_request cfg \<and> max_active cfg \<noteq> Some 0 \<and>
     (\<forall>n\<in>{1..max_batch cfg}. compute_time cfg (int n) \<noteq> None) \<and>
     (\<forall>r<total_requests cfg. \<forall>i<tokens_per_request cfg. \<forall>l<num_layers cfg.
        case route_ids cfg (PyList [int r]) [int i] l of
          Inl err \<Rightarrow> True
        | Inr rows \<Rightarrow> rows \<noteq> [] \<and> (\<exists>e\<in>set (hd rows). 0 \<le> e) \<and> (\<forall>e\<in>set (hd rows). e < int (total_experts cfg)))"

lemma cfg_ok_run_init:
  assumes "cfg_ok cfg"
  shows "\<exists>s. run_init cfg = Inr s"
  using assms by (auto simp: cfg_ok_def run_init_def)

lemma cfg_ok_ep: "cfg_ok cfg \<Longrightarrow> 0 < ep_size cfg"
  by (auto simp: cfg_ok_def)

lemma cfg_ok_experts:
  assumes "cfg_ok cfg"
  shows "total_experts cfg = ep_size cfg * queues_per_worker cfg"
  using assms cfg_ok_ep [OF assms] by (auto simp: cfg_ok_def queues_per_worker_def)

lemma route_token_ok:
  assumes "cfg_ok cfg" and "tk_request_id t < total_requests cfg"
    and "tk_token_index t < tokens_per_request cfg" and "l < num_layers cfg"
    and rows: "router_call cfg l t = Inr rows"
  obtains ids where "route_token cfg l t = Inr ids" "ids \<noteq> []"
    "\<And>e. e \<in> set ids \<Longrightarrow> e div queues_per_worker cfg < ep_size cfg \<and> e mod queues_per_worker cfg < queues_per_worker cfg"
proof -
  define raw where "raw = hd rows"
  define ids where "ids = map nat (filter (\<lambda>e. 0 \<le> e) raw)"
  have "case router_call cfg l t of Inl err \<Rightarrow> True
      | Inr rows \<Rightarrow> rows \<noteq> [] \<and> (\<exists>e\<in>set (hd rows). 0 \<le> e) \<and> (\<forall>e\<in>set (hd rows). e < int (total_experts cfg))"
    using assms(1-4) unfolding cfg_ok_def router_call_def by blast
  then have raw: "rows \<noteq> []" "\<exists>e\<in>set raw. 0 \<le> e" "\<forall>e\<in>set raw. e < int (total_experts cfg)"
    by (simp_all add: rows raw_def)
  then have row: "py_get rows 0 = Inr raw" by (simp add: py_get_nonneg raw_def hd_conv_nth)
  have "ids \<noteq> []" using raw(2) by (auto simp: ids_def filter_empty_conv)
  moreover have "e div queues_per_worker cfg < ep_size cfg \<and> e mod queues_per_worker cfg < queues_per_worker cfg"
    if "e \<in> set ids" for e
  proof -
    have "e < ep_size cfg * queues_per_worker cfg"
      using that raw(3) cfg_ok_experts [OF assms(1)] by (auto simp: ids_def nat_less_iff)
    moreover from this have "0 < queues_per_worker cfg" by (cases "queues_per_worker cfg") auto
    ultimately show ?thesis by (simp add: less_mult_imp_div_less)
  qed
  ultimately show thesis
    using that [of ids] by (simp add: route_token_def Let_def ids_def rows row)
qed

section \<open>The invariant\<close>

definition joined :: "sim_config \<Rightarrow> (nat \<Rightarrow> nat) \<Rightarrow> (nat \<Rightarrow> nat \<Rightarrow> nat) \<Rightarrow> nat \<Rightarrow> nat \<Rightarrow> nat" where
  "joined cfg fc pc l k = (if l = num_layers cfg - 1 then fc k else pc (Suc l) k)"

definition sim_core :: "sim_config \<Rightarrow> stage_map \<Rightarrow> (nat \<times> token) multiset \<Rightarrow> sim \<Rightarrow> bool" where
  "sim_core cfg G h s \<longleftrightarrow>
     core cfg G (atts s) (reps s + h) (sm_fanout s) (joined cfg (sm_final_counts s) (sm_pending_counts s)) (sm_pending_tokens s)
       (rm_next_tid s) (map_of (rm_state s)) (rm_home s)"

definition hist :: "sim \<Rightarrow> nat \<Rightarrow> nat list" where
  "hist s r = map tk_token_index (filter (\<lambda>t. tk_request_id t = r) (map fst (sm_completions s)))"

definition tokens_done :: "sim_config \<Rightarrow> nat set \<Rightarrow> sim \<Rightarrow> nat \<Rightarrow> nat" where
  "tokens_done cfg W s r =
     (case map_of (rm_state s) r of
        Some i \<Rightarrow> i - 1
      | None \<Rightarrow> if r < sm_arrived s \<and> r \<notin> W then tokens_per_request cfg else 0)"

text \<open>The bookkeeping of requests, for a set \<open>W\<close> of requests that wait to be started.\<close>

definition book :: "sim_config \<Rightarrow> nat set \<Rightarrow> sim \<Rightarrow> bool" where
  "book cfg W s \<longleftrightarrow>
     distinct (map fst (rm_state s)) \<and>
     (\<forall>r. map_of (rm_state s) r \<noteq> None \<longrightarrow> r < sm_arrived s \<and> r \<notin> W) \<and>
     (\<forall>r\<in>W. r < sm_arrived s) \<and> sm_arrived s \<le> total_requests cfg \<and>
     (\<forall>r. hist s r = [0..<tokens_done cfg W s r]) \<and>
     distinct (map fst (sm_latencies s)) \<and>
     fst ` set (sm_latencies s) = {r. r < sm_arrived s \<and> map_of (rm_state s) r = None \<and> r \<notin> W} \<and>
     (case max_active cfg of None \<Rightarrow> True | Some m \<Rightarrow> active_requests s \<le> m)"

lemma book_active: "book cfg W s \<Longrightarrow> map_of (rm_state s) r \<noteq> None \<Longrightarrow> r < sm_arrived s \<and> r \<notin> W"
  unfolding book_def by blast

lemma book_hist: "book cfg W s \<Longrightarrow> hist s r = [0..<tokens_done cfg W s r]"
  unfolding book_def by blast

definition covered :: "stage_map \<Rightarrow> sim \<Rightarrow> bool" where
  "covered G s \<longleftrightarrow> (\<forall>r. G r = None \<longrightarrow> map_of (rm_state s) r = None)"

definition req_inv where
  "req_inv cfg G h W s \<longleftrightarrow> base_ok cfg s \<and> sim_core cfg G h s \<and> covered G s \<and> book cfg W s"

definition waiting :: "sim \<Rightarrow> nat set" where
  "waiting s = fst ` set (rm_pending s)"

definition queue_inv :: "sim_config \<Rightarrow> sim \<Rightarrow> bool" where
  "queue_inv cfg s \<longleftrightarrow> distinct (map fst (rm_pending s)) \<and> (rm_pending s \<noteq> [] \<longrightarrow> \<not> below_limit cfg s)"

definition sim_inv :: "sim_config \<Rightarrow> (nat \<times> token) multiset \<Rightarrow> sim \<Rightarrow> bool" where
  "sim_inv cfg h s \<longleftrightarrow> (\<exists>G. req_inv cfg G h (waiting s) s) \<and> queue_inv cfg s"

text \<open>Fields that the multisets of items do not read.\<close>

lemma items_other [simp]:
  "atts (s\<lparr>sm_now := x1\<rparr>) = atts s" "reps (s\<lparr>sm_now := x1\<rparr>) = reps s"
  "atts (s\<lparr>sm_fanout := x2\<rparr>) = atts s" "reps (s\<lparr>sm_fanout := x2\<rparr>) = reps s"
  "atts (s\<lparr>sm_pending_counts := x3\<rparr>) = atts s" "reps (s\<lparr>sm_pending_counts := x3\<rparr>) = reps s"
  "atts (s\<lparr>sm_pending_tokens := x4\<rparr>) = atts s" "reps (s\<lparr>sm_pending_tokens := x4\<rparr>) = reps s"
  "atts (s\<lparr>sm_final_counts := x5\<rparr>) = atts s" "reps (s\<lparr>sm_final_counts := x5\<rparr>) = reps s"
  "atts (s\<lparr>rm_next_tid := x6\<rparr>) = atts s" "reps (s\<lparr>rm_next_tid := x6\<rparr>) = reps s"
  "atts (s\<lparr>rm_state := x7\<rparr>) = atts s" "reps (s\<lparr>rm_state := x7\<rparr>) = reps s"
  "atts (s\<lparr>rm_start := x8\<rparr>) = atts s" "reps (s\<lparr>rm_start := x8\<rparr>) = reps s"
  "atts (s\<lparr>rm_home := x9\<rparr>) = atts s" "reps (s\<lparr>rm_home := x9\<rparr>) = reps s"
  "atts (s\<lparr>rm_next_home := x10\<rparr>) = atts s" "reps (s\<lparr>rm_next_home := x10\<rparr>) = reps s"
  "atts (s\<lparr>rm_pending := x11\<rparr>) = atts s" "reps (s\<lparr>rm_pending := x11\<rparr>) = reps s"
  "atts (s\<lparr>sm_arrived := x10\<rparr>) = atts s" "reps (s\<lparr>sm_arrived := x10\<rparr>) = reps s"
  "atts (s\<lparr>sm_completions := x12\<rparr>) = atts s" "reps (s\<lparr>sm_completions := x12\<rparr>) = reps s"
  "atts (s\<lparr>sm_latencies := x11\<rparr>) = atts s" "reps (s\<lparr>sm_latencies := x11\<rparr>) = reps s"
  "atts (s\<lparr>sm_total_batch_size := x10\<rparr>) = atts s" "reps (s\<lparr>sm_total_batch_size := x10\<rparr>) = reps s"
  "atts (s\<lparr>sm_total_batches := x10\<rparr>) = atts s" "reps (s\<lparr>sm_total_batches := x10\<rparr>) = reps s"
  by (simp_all add: atts_def reps_def)

lemma length_AList_update:
  "length (AList.update k v d) = (if k \<in> fst ` set d then length d else Suc (length d))"
  by (induction d) auto

lemma length_AList_delete:
  "distinct (map fst d) \<Longrightarrow> length (AList.delete k d) = (if k \<in> fst ` set d then length d - 1 else length d)"
proof (induction d)
  case (Cons p d)
  have "AList.delete k d = d" if "k \<notin> fst ` set d" using that by (simp add: delete_idem)
  then show ?case using Cons by (cases d) (auto simp: AList.delete_eq)
qed simp

section \<open>Requests\<close>

text \<open>Sending the next token of a request.\<close>

lemma dispatch_ok:
  assumes cfg: "cfg_ok cfg" and b: "base_ok cfg s" and c: "sim_core cfg G h s" and g: "G r = None"
    and st: "map_of (rm_state s) r = Some i" "i < tokens_per_request cfg"
    and hm: "rm_home s r = Some home" "home < ep_size cfg"
  obtains ws t where "dispatch_next_token cfg r s
      = Inr (s\<lparr>rm_next_tid := rm_next_tid s + 1, rm_state := AList.update r (i + 1) (rm_state s), sm_workers := ws\<rparr>)"
    "base_ok cfg (s\<lparr>rm_next_tid := rm_next_tid s + 1, rm_state := AList.update r (i + 1) (rm_state s), sm_workers := ws\<rparr>)"
    "sim_core cfg (G(r \<mapsto> (t, 0, True))) h
      (s\<lparr>rm_next_tid := rm_next_tid s + 1, rm_state := AList.update r (i + 1) (rm_state s), sm_workers := ws\<rparr>)"
proof -
  define t where "t = \<lparr>tk_tid = rm_next_tid s, tk_birth_time = sm_now s, tk_request_id = r,
                    tk_token_index = i, tk_home_gpu = home\<rparr>"
  define s1 where "s1 = s\<lparr>rm_next_tid := rm_next_tid s + 1, rm_state := AList.update r (i + 1) (rm_state s)\<rparr>"
  have b1: "base_ok cfg s1" using b by (simp add: base_ok_def s1_def)
  have first: "rm_first_attention s = Some 0" using b by (simp add: base_ok_def)
  obtain ws where ws: "attn_enqueue 0 t s1 = Inr (s1\<lparr>sm_workers := ws\<rparr>)" "base_ok cfg (s1\<lparr>sm_workers := ws\<rparr>)"
    "atts (s1\<lparr>sm_workers := ws\<rparr>) = add_mset (0, t) (atts s1)" "reps (s1\<lparr>sm_workers := ws\<rparr>) = reps s1"
    using attn_enqueue_ok [OF b1, of t 0] hm(2) by (auto simp: t_def)
  have d: "dispatch_next_token cfg r s = attn_enqueue 0 t s1"
    using st hm first by (simp add: dispatch_next_token_def Let_def t_def s1_def)
  have "sim_core cfg (G(r \<mapsto> (t, 0, True))) h (s1\<lparr>sm_workers := ws\<rparr>)"
    unfolding sim_core_def ws(3,4)
    using core_new [OF c [unfolded sim_core_def] g, of t i home "map_of (AList.update r (i + 1) (rm_state s))" "rm_home s"]
      st(2) hm cfg
    by (simp add: s1_def t_def cfg_ok_def d_get_update)
  then show thesis using that [of ws t] ws(1,2) d by (simp add: s1_def)
qed

lemma tokens_done_cong:
  "map_of (rm_state s') r = map_of (rm_state s) r \<Longrightarrow> sm_arrived s' = sm_arrived s \<Longrightarrow> (r \<in> W' \<longleftrightarrow> r \<in> W) \<Longrightarrow>
   tokens_done cfg W' s' r = tokens_done cfg W s r"
  by (auto simp: tokens_done_def split: option.split)

lemma start_request_ok:
  assumes cfg: "cfg_ok cfg" and inv: "req_inv cfg G h (insert r W) s" and r: "r \<notin> W" and lim: "below_limit cfg s"
  obtains s' G' where "start_request_now cfg r a s = Inr s'" "req_inv cfg G' h W s'"
    "rm_pending s' = rm_pending s" "sm_arrived s' = sm_arrived s"
proof -
  note i = inv [unfolded req_inv_def]
  have bk: "book cfg (insert r W) s" and c: "sim_core cfg G h s" using i by auto
  have no: "map_of (rm_state s) r = None" using bk unfolding book_def by blast
  have g: "G r = None"
  proof (rule ccontr)
    assume "G r \<noteq> None"
    then obtain t l b where "G r = Some (t, l, b)" by (metis not_None_eq prod_cases3)
    from core_token(6) [OF c [unfolded sim_core_def] this] no show False by simp
  qed
  define s1 where "s1 = s\<lparr>rm_state := AList.update r 0 (rm_state s), rm_start := (rm_start s)(r \<mapsto> a),
      rm_home := (rm_home s)(r \<mapsto> rm_next_home s mod max 1 (attn_dp cfg)), rm_next_home := rm_next_home s + 1\<rparr>"
  have start: "start_request_now cfg r a s = dispatch_next_token cfg r s1"
    using no by (simp add: start_request_now_def s1_def d_has_iff)
  have b1: "base_ok cfg s1" using i by (simp add: base_ok_def s1_def)
  have c1: "sim_core cfg G h s1"
    using core_forget [OF c [unfolded sim_core_def] g, of "map_of (rm_state s1)" "rm_home s1"]
    by (simp add: sim_core_def s1_def d_get_update)
  have st1: "map_of (rm_state s1) r = Some 0" by (simp add: s1_def d_get_update)
  have home: "rm_home s1 r = Some (rm_next_home s mod max 1 (attn_dp cfg))" by (simp add: s1_def)
  have hb: "rm_next_home s mod max 1 (attn_dp cfg) < ep_size cfg" using cfg by (auto simp: cfg_ok_def)
  have N: "0 < tokens_per_request cfg" using cfg by (simp add: cfg_ok_def)
  obtain ws t where d: "dispatch_next_token cfg r s1
      = Inr (s1\<lparr>rm_next_tid := rm_next_tid s1 + 1, rm_state := AList.update r (0 + 1) (rm_state s1), sm_workers := ws\<rparr>)"
    "base_ok cfg (s1\<lparr>rm_next_tid := rm_next_tid s1 + 1, rm_state := AList.update r (0 + 1) (rm_state s1), sm_workers := ws\<rparr>)"
    "sim_core cfg (G(r \<mapsto> (t, 0, True))) h
      (s1\<lparr>rm_next_tid := rm_next_tid s1 + 1, rm_state := AList.update r (0 + 1) (rm_state s1), sm_workers := ws\<rparr>)"
    by (rule dispatch_ok [OF cfg b1 c1 g st1 N home hb])
  define s2 where "s2 = s1\<lparr>rm_next_tid := rm_next_tid s1 + 1, rm_state := AList.update r (0 + 1) (rm_state s1), sm_workers := ws\<rparr>"
  have st2: "map_of (rm_state s2) = (map_of (rm_state s))(r \<mapsto> 1)"
    by (simp add: s2_def s1_def d_get_update)
  have rkey: "r \<notin> fst ` set (rm_state s)" using no by (simp add: map_of_eq_None_iff)
  have act: "active_requests s2 = Suc (active_requests s)"
    using rkey by (simp add: active_requests_def s2_def s1_def length_AList_update dom_update)
  have "book cfg W s2"
    unfolding book_def
  proof (intro conjI allI impI ballI)
    show "distinct (map fst (rm_state s2))"
      using bk by (simp add: book_def s2_def s1_def distinct_update)
    have arr: "r < sm_arrived s" using bk by (simp add: book_def)
    show "r' < sm_arrived s2" "r' \<notin> W" if "map_of (rm_state s2) r' \<noteq> None" for r'
    proof -
      have "r' = r \<or> map_of (rm_state s) r' \<noteq> None" using that by (auto simp: st2 split: if_splits)
      then have "r' < sm_arrived s \<and> r' \<notin> W"
        using book_active [OF bk, of r'] arr r by blast
      then show "r' < sm_arrived s2" "r' \<notin> W" by (simp_all add: s2_def s1_def)
    qed
    show "r' < sm_arrived s2" if "r' \<in> W" for r' using bk that by (simp add: book_def s2_def s1_def)
    show "sm_arrived s2 \<le> total_requests cfg" using bk by (simp add: book_def s2_def s1_def)
    show "hist s2 r' = [0..<tokens_done cfg W s2 r']" for r'
    proof -
      have h: "hist s2 r' = [0..<tokens_done cfg (insert r W) s r']"
        using bk by (simp add: book_def hist_def s2_def s1_def)
      show ?thesis
      proof (cases "r' = r")
        case True
        then show ?thesis unfolding h by (simp add: tokens_done_def st2 no)
      next
        case False
        then have "tokens_done cfg W s2 r' = tokens_done cfg (insert r W) s r'"
          by (intro tokens_done_cong) (simp_all add: st2, simp add: s2_def s1_def)
        then show ?thesis using h by simp
      qed
    qed
    show "distinct (map fst (sm_latencies s2))" using bk by (simp add: book_def s2_def s1_def)
    have "fst ` set (sm_latencies s2) = {r'. r' < sm_arrived s \<and> map_of (rm_state s) r' = None \<and> r' \<notin> insert r W}"
      using bk by (simp add: book_def s2_def s1_def)
    also have "\<dots> = {r'. r' < sm_arrived s2 \<and> map_of (rm_state s2) r' = None \<and> r' \<notin> W}"
      by (auto simp: st2) (auto simp: s2_def s1_def)
    finally show "fst ` set (sm_latencies s2) = {r. r < sm_arrived s2 \<and> map_of (rm_state s2) r = None \<and> r \<notin> W}" .
    show "case max_active cfg of None \<Rightarrow> True | Some m \<Rightarrow> active_requests s2 \<le> m"
      using lim unfolding act by (auto simp: below_limit_def split: option.splits)
  qed
  moreover have "covered (G(r \<mapsto> (t, 0, True))) s2"
    using i by (auto simp: covered_def st2)
  ultimately have "req_inv cfg (G(r \<mapsto> (t, 0, True))) h W s2"
    using d(2,3) by (simp add: req_inv_def s2_def)
  then show thesis using that start d(1) by (simp add: s2_def s1_def)
qed

text \<open>Admitting pending requests, and the completion of a token.\<close>

lemma below_limit_pending [simp]: "below_limit cfg (s\<lparr>rm_pending := q\<rparr>) = below_limit cfg s"
  by (simp add: below_limit_def active_requests_def cong: option.case_cong)

lemma req_inv_pending [simp]: "req_inv cfg G h W (s\<lparr>rm_pending := q\<rparr>) = req_inv cfg G h W s"
  by (simp add: req_inv_def base_ok_def sim_core_def covered_def book_def hist_def tokens_done_def
      active_requests_def cong: option.case_cong)

lemma admit_queued_ok:
  assumes "cfg_ok cfg" and "req_inv cfg G h (fst ` set q) s" and "distinct (map fst q)" and "rm_pending s = q"
  obtains s' where "admit_queued cfg q s = Inr s'" "sim_inv cfg h s'"
  using assms
proof (induction q arbitrary: s G thesis)
  case Nil
  then show ?case by (auto simp: sim_inv_def queue_inv_def waiting_def)
next
  case (Cons p q)
  obtain r a where p: "p = (r, a)" by (cases p)
  show ?case
  proof (cases "below_limit cfg s")
    case False
    then show ?thesis
      using Cons.prems p by (intro Cons.prems(1) [of s]) (auto simp: sim_inv_def queue_inv_def waiting_def)
  next
    case True
    let ?s = "s\<lparr>rm_pending := q\<rparr>"
    have c: "req_inv cfg G h (insert r (fst ` set q)) ?s" "r \<notin> fst ` set q" "below_limit cfg ?s"
      using Cons.prems(3,4) p True by auto
    obtain s' G' where s': "start_request_now cfg r a ?s = Inr s'" "req_inv cfg G' h (fst ` set q) s'"
      "rm_pending s' = rm_pending ?s" "sm_arrived s' = sm_arrived ?s"
      by (rule start_request_ok [OF Cons.prems(2) c])
    obtain s'' where "admit_queued cfg q s' = Inr s''" "sim_inv cfg h s''"
      using Cons.IH [OF _ Cons.prems(2) s'(2)] Cons.prems(4) s'(3) by auto
    then show ?thesis using Cons.prems(1) True s'(1) p by simp
  qed
qed

lemma hist_record [simp]:
  "hist (s\<lparr>sm_completions := sm_completions s @ [(t, x)]\<rparr>) r
     = (if tk_request_id t = r then hist s r @ [tk_token_index t] else hist s r)"
  by (simp add: hist_def)

lemma token_completion_ok:
  assumes cfg: "cfg_ok cfg" and b: "base_ok cfg s" and c: "sim_core cfg G h s" and g: "G r = None"
    and cov: "\<And>r'. r' \<noteq> r \<Longrightarrow> G r' = None \<Longrightarrow> map_of (rm_state s) r' = None"
    and bk: "book cfg (waiting s) s" and q: "queue_inv cfg s"
    and t: "tk_request_id t = r" "tk_token_index t < tokens_per_request cfg" "tk_home_gpu t < ep_size cfg"
    and st: "map_of (rm_state s) r = Some (tk_token_index t + 1)" and hm: "rm_home s r = Some (tk_home_gpu t)"
  obtains s' where "handle_token_completion cfg t x s = Inr s'" "sim_inv cfg h s'"
proof -
  let ?i = "tk_token_index t"
  define s1 where "s1 = record_completion t x s"
  have s1: "s1 = s\<lparr>sm_completions := sm_completions s @ [(t, x)]\<rparr>" by (simp add: s1_def record_completion_def)
  have b1: "base_ok cfg s1" and c1: "sim_core cfg G h s1" using b c by (simp_all add: s1 base_ok_def sim_core_def)
  have st1: "map_of (rm_state s1) r = Some (?i + 1)" and hm1: "rm_home s1 r = Some (tk_home_gpu t)"
    using st hm by (simp_all add: s1)
  have h1: "hist s1 r = [0..<?i + 1]"
    using book_hist [OF bk, of r] t(1) st by (simp add: s1 tokens_done_def)
  have h1': "hist s1 r' = hist s r'" if "r' \<noteq> r" for r' using that t(1) by (simp add: s1)
  show ?thesis
  proof (cases "?i + 1 < tokens_per_request cfg")
    case True
    obtain ws t' where d: "dispatch_next_token cfg r s1
        = Inr (s1\<lparr>rm_next_tid := rm_next_tid s1 + 1, rm_state := AList.update r (?i + 1 + 1) (rm_state s1), sm_workers := ws\<rparr>)"
      "base_ok cfg (s1\<lparr>rm_next_tid := rm_next_tid s1 + 1, rm_state := AList.update r (?i + 1 + 1) (rm_state s1), sm_workers := ws\<rparr>)"
      "sim_core cfg (G(r \<mapsto> (t', 0, True))) h
        (s1\<lparr>rm_next_tid := rm_next_tid s1 + 1, rm_state := AList.update r (?i + 1 + 1) (rm_state s1), sm_workers := ws\<rparr>)"
      by (rule dispatch_ok [OF cfg b1 c1 g st1 True hm1 t(3)])
    define s2 where "s2 = s1\<lparr>rm_next_tid := rm_next_tid s1 + 1, rm_state := AList.update r (?i + 1 + 1) (rm_state s1), sm_workers := ws\<rparr>"
    have st2: "map_of (rm_state s2) = (map_of (rm_state s))(r \<mapsto> ?i + 1 + 1)"
      by (simp add: s2_def s1 d_get_update)
    have act: "active_requests s2 = active_requests s"
      using st by (auto simp: active_requests_def s2_def s1 length_AList_update map_of_eq_None_iff
          dest: map_of_SomeD intro: rev_image_eqI)
    have other: "sm_arrived s2 = sm_arrived s" "sm_latencies s2 = sm_latencies s" "waiting s2 = waiting s"
      "hist s2 r' = hist s1 r'" "rm_pending s2 = rm_pending s" for r'
      by (simp_all add: s2_def s1 waiting_def hist_def)
    have dom: "map_of (rm_state s2) r' = None \<longleftrightarrow> map_of (rm_state s) r' = None" for r'
      using st by (simp add: st2)
    have "book cfg (waiting s2) s2"
      unfolding book_def other act
    proof (intro conjI allI impI ballI)
      show "distinct (map fst (rm_state s2))"
        using bk by (simp add: book_def s2_def s1 distinct_update)
      show "r' < sm_arrived s" "r' \<notin> waiting s" if "map_of (rm_state s2) r' \<noteq> None" for r'
        using book_active [OF bk, of r'] that dom [of r'] by auto
      show "hist s1 r' = [0..<tokens_done cfg (waiting s) s2 r']" for r'
      proof (cases "r' = r")
        case True then show ?thesis using h1 by (simp add: tokens_done_def st2)
      next
        case False
        then have "tokens_done cfg (waiting s) s2 r' = tokens_done cfg (waiting s) s r'"
          by (intro tokens_done_cong) (simp_all add: st2 other)
        then show ?thesis using h1' [OF False] book_hist [OF bk, of r'] by simp
      qed
      show "fst ` set (sm_latencies s) = {r. r < sm_arrived s \<and> map_of (rm_state s2) r = None \<and> r \<notin> waiting s}"
        using bk by (simp add: book_def dom)
    qed (use bk in \<open>simp_all add: book_def\<close>)
    moreover have "covered (G(r \<mapsto> (t', 0, True))) s2" using cov by (auto simp: covered_def st2)
    moreover have "queue_inv cfg s2" using q act by (simp add: queue_inv_def other below_limit_def cong: option.case_cong)
    ultimately have "sim_inv cfg h s2" using d(2,3) unfolding sim_inv_def req_inv_def s2_def by blast
    moreover have "handle_token_completion cfg t x s = Inr s2"
      using True d(1) t(1) st1
      by (simp add: handle_token_completion_def Let_def s1_def [symmetric] d_has_iff s2_def)
    ultimately show ?thesis using that by blast
  next
    case False
    then have N: "tokens_per_request cfg = ?i + 1" using t(2) by simp
    define start where "start = (case rm_start s1 r of None \<Rightarrow> tk_birth_time t | Some y \<Rightarrow> y)"
    define s2 where "s2 = s1\<lparr>rm_state := AList.delete r (rm_state s1), rm_start := (rm_start s1)(r := None),
        rm_home := (rm_home s1)(r := None), sm_latencies := sm_latencies s1 @ [(r, x - start)]\<rparr>"
    have st2: "map_of (rm_state s2) = (map_of (rm_state s))(r := None)"
      by (simp add: s2_def s1 delete_conv')
    have other: "sm_arrived s2 = sm_arrived s" "sm_latencies s2 = sm_latencies s @ [(r, x - start)]"
      "waiting s2 = waiting s" "hist s2 r' = hist s1 r'" "rm_pending s2 = rm_pending s" for r'
      by (simp_all add: s2_def s1 waiting_def hist_def)
    have r: "r < sm_arrived s" "r \<notin> waiting s" using book_active [OF bk, of r] st by auto
    have act: "active_requests s2 \<le> active_requests s"
      by (simp add: active_requests_def s2_def s1 AList.delete_eq)
    have lat: "fst ` set (sm_latencies s) = {r. r < sm_arrived s \<and> map_of (rm_state s) r = None \<and> r \<notin> waiting s}"
      "distinct (map fst (sm_latencies s))" using bk by (simp_all add: book_def)
    have "book cfg (waiting s2) s2"
      unfolding book_def other
    proof (intro conjI allI impI ballI)
      show "distinct (map fst (rm_state s2))"
        using bk by (simp add: book_def s2_def s1 distinct_delete)
      show "r' < sm_arrived s" "r' \<notin> waiting s" if "map_of (rm_state s2) r' \<noteq> None" for r'
        using book_active [OF bk, of r'] that by (auto simp: st2 split: if_splits)
      show "hist s1 r' = [0..<tokens_done cfg (waiting s) s2 r']" for r'
      proof (cases "r' = r")
        case True then show ?thesis using h1 r N by (simp add: tokens_done_def st2 other)
      next
        case False
        then have "tokens_done cfg (waiting s) s2 r' = tokens_done cfg (waiting s) s r'"
          by (intro tokens_done_cong) (simp_all add: st2 other)
        then show ?thesis using h1' [OF False] book_hist [OF bk, of r'] by simp
      qed
      show "distinct (map fst (sm_latencies s @ [(r, x - start)]))" using lat st by auto
      show "fst ` set (sm_latencies s @ [(r, x - start)])
          = {r. r < sm_arrived s \<and> map_of (rm_state s2) r = None \<and> r \<notin> waiting s}"
        using lat(1) r by (auto simp: st2)
      show "case max_active cfg of None \<Rightarrow> True | Some m \<Rightarrow> active_requests s2 \<le> m"
        using bk act by (auto simp: book_def split: option.splits)
    qed (use bk in \<open>simp_all add: book_def\<close>)
    moreover have "covered G s2" using cov by (auto simp: covered_def st2)
    moreover have "sim_core cfg G h s2"
      using core_forget [OF c1 [unfolded sim_core_def] g, of "map_of (rm_state s2)" "rm_home s2"]
      by (simp add: sim_core_def s2_def s1 delete_conv')
    moreover have "base_ok cfg s2" using b1 by (simp add: s2_def base_ok_def)
    ultimately have "req_inv cfg G h (fst ` set (rm_pending s2)) s2" by (simp add: req_inv_def waiting_def)
    then obtain s' where s': "admit_queued cfg (rm_pending s2) s2 = Inr s'" "sim_inv cfg h s'"
      using admit_queued_ok [OF cfg, of G h "rm_pending s2" s2] q by (auto simp: queue_inv_def other)
    have "handle_token_completion cfg t x s = Inr s'"
      using False s'(1) t(1) st1
      by (simp add: handle_token_completion_def Let_def s1_def [symmetric] d_has_iff
          maybe_admit_queued_requests_def s2_def start_def)
    then show ?thesis using that s'(2) by blast
  qed
qed

section \<open>Tokens\<close>

text \<open>Steps that move tokens leave the bookkeeping of requests alone.\<close>

definition same_requests :: "sim \<Rightarrow> sim \<Rightarrow> bool" where
  "same_requests s s' \<longleftrightarrow>
     rm_state s' = rm_state s \<and> rm_pending s' = rm_pending s \<and> sm_arrived s' = sm_arrived s \<and>
     sm_completions s' = sm_completions s \<and> sm_latencies s' = sm_latencies s"

lemma same_requests_inv:
  assumes "same_requests s s'"
  shows "book cfg W s' = book cfg W s" "covered G s' = covered G s" "waiting s' = waiting s"
    "queue_inv cfg s' = queue_inv cfg s"
  using assms
  by (simp_all add: same_requests_def book_def covered_def waiting_def queue_inv_def hist_def tokens_done_def
      active_requests_def below_limit_def cong: option.case_cong)

lemma sim_inv_frame:
  assumes "req_inv cfg G h (waiting s) s" and "queue_inv cfg s" and "same_requests s s'"
    and "base_ok cfg s'" and "sim_core cfg G' h' s'" and "\<And>r. G' r = None \<Longrightarrow> G r = None"
  shows "sim_inv cfg h' s'"
  using assms unfolding sim_inv_def req_inv_def same_requests_inv [OF assms(3)]
  by (auto simp: covered_def intro!: exI [of _ G'] simp: same_requests_def)

lemma joined_final: "l = num_layers cfg - 1 \<Longrightarrow> joined cfg (fc(k := x)) pc = upd2 (joined cfg fc pc) l k x"
  by (auto simp: joined_def fun_eq_iff)

lemma joined_pending:
  "l + 1 < num_layers cfg \<Longrightarrow> joined cfg fc (upd2 pc (Suc l) k x) = upd2 (joined cfg fc pc) l k x"
  by (auto simp: joined_def fun_eq_iff)

lemma deliver_ok:
  assumes cfg: "cfg_ok cfg" and inv: "sim_inv cfg (add_mset (l, t) h) s"
  obtains s' where "deliver cfg l t s = Inr s'" "sim_inv cfg h s'"
proof -
  obtain G where req: "req_inv cfg G (add_mset (l, t) h) (waiting s) s" and q: "queue_inv cfg s"
    using inv by (auto simp: sim_inv_def)
  have c: "sim_core cfg G (add_mset (l, t) h) s" and b: "base_ok cfg s" and cov: "covered G s"
    and bk: "book cfg (waiting s) s"
    using req by (simp_all add: req_inv_def)
  note core = c [unfolded sim_core_def]
  have mem: "(l, t) \<in># reps s + add_mset (l, t) h" by simp
  have R: "reps s + add_mset (l, t) h - {#(l, t)#} = reps s + h" by simp
  obtain f where g: "G (tk_request_id t) = Some (t, l, False)" and f: "sm_fanout s (tk_tid t) l = Some f"
    and cnt: "joined cfg (sm_final_counts s) (sm_pending_counts s) l (tk_tid t) < f"
    using core_rep_member [OF core mem] by blast
  note t = core_token [OF core g]
  have fan: "fanout_of s t l = Inr f" using f cnt by (simp add: fanout_of_def)
  show thesis
  proof (cases "l = num_layers cfg - 1")
    case True
    let ?c = "sm_final_counts s (tk_tid t)"
    have c0: "joined cfg (sm_final_counts s) (sm_pending_counts s) l (tk_tid t) = ?c" using True by (simp add: joined_def)
    have nc: "?c < f" using cnt c0 by simp
    define s1 where "s1 = s\<lparr>sm_final_counts := (sm_final_counts s)(tk_tid t := (if ?c + 1 < f then ?c + 1 else 0))\<rparr>"
    have same: "same_requests s s1" "base_ok cfg s1" using b by (simp_all add: same_requests_def s1_def base_ok_def)
    show ?thesis
    proof (cases "?c + 1 < f")
      case part: True
      have "sim_core cfg G h s1"
        using core_partial [OF core g f, of "sm_pending_tokens s"] part
        by (simp add: sim_core_def s1_def R c0 joined_final [OF True])
      then have "sim_inv cfg h s1" using sim_inv_frame [OF req q same] by blast
      moreover have "deliver cfg l t s = Inr s1"
        using True part fan by (simp add: deliver_def final_record_completion_def s1_def Let_def)
      ultimately show ?thesis using that by blast
    next
      case False
      then have fe: "f = ?c + 1" using nc by simp
      have "core cfg (G(tk_request_id t := None)) (atts s) (reps s + add_mset (l, t) h - {#(l, t)#}) (sm_fanout s)
          (upd2 (joined cfg (sm_final_counts s) (sm_pending_counts s)) l (tk_tid t) 0) (sm_pending_tokens s)
          (rm_next_tid s) (map_of (rm_state s)) (rm_home s)"
      proof (rule core_last [OF core g])
        show "sm_fanout s (tk_tid t) l
            = Some (joined cfg (sm_final_counts s) (sm_pending_counts s) l (tk_tid t) + 1)"
          using f fe c0 by simp
        show "sm_pending_tokens s (Suc l') k = Some t' \<and> t' \<noteq> t" if p: "sm_pending_tokens s (Suc l') k = Some t'" for l' k t'
          using core_pending [OF core p] p g True by auto
      qed simp
      then have c1: "sim_core cfg (G(tk_request_id t := None)) h s1"
        using fe by (simp add: sim_core_def s1_def R joined_final [OF True])
      have cov1: "map_of (rm_state s1) r' = None"
        if "r' \<noteq> tk_request_id t" "(G(tk_request_id t := None)) r' = None" for r'
        using that cov by (simp add: covered_def s1_def)
      have bk1: "book cfg (waiting s1) s1" "queue_inv cfg s1"
        using bk q by (simp_all add: same_requests_inv [OF same(1)])
      have st1: "map_of (rm_state s1) (tk_request_id t) = Some (tk_token_index t + 1)"
        "rm_home s1 (tk_request_id t) = Some (tk_home_gpu t)" using t by (simp_all add: s1_def)
      have g1: "(G(tk_request_id t := None)) (tk_request_id t) = None" by simp
      obtain s' where "handle_token_completion cfg t (sm_now s) s1 = Inr s'" "sim_inv cfg h s'"
        by (rule token_completion_ok [OF cfg same(2) c1 g1 cov1 bk1 refl t(3,4) st1])
      moreover have "deliver cfg l t s = handle_token_completion cfg t (sm_now s) s1"
        using True False fe fan by (simp add: deliver_def final_record_completion_def s1_def Let_def)
      ultimately show ?thesis using that by simp
    qed
  next
    case False
    then have l: "l + 1 < num_layers cfg" using t(2) by simp
    let ?c = "sm_pending_counts s (Suc l) (tk_tid t)"
    have c0: "joined cfg (sm_final_counts s) (sm_pending_counts s) l (tk_tid t) = ?c" using False by (simp add: joined_def)
    have nc: "?c < f" using cnt c0 by simp
    have pend: "t' = t" if "sm_pending_tokens s (Suc l) (tk_tid t) = Some t'" for t'
      using core_pending [OF core that] core_same_tid [OF core g, of "tk_request_id t'" t' l False] by simp
    show ?thesis
    proof (cases "?c + 1 < f")
      case True
      define pt where "pt = (case sm_pending_tokens s (Suc l) (tk_tid t) of
            None \<Rightarrow> upd2 (sm_pending_tokens s) (Suc l) (tk_tid t) (Some t) | Some _ \<Rightarrow> sm_pending_tokens s)"
      define s1 where "s1 = s\<lparr>sm_pending_counts := upd2 (sm_pending_counts s) (Suc l) (tk_tid t) (?c + 1), sm_pending_tokens := pt\<rparr>"
      have same: "same_requests s s1" "base_ok cfg s1" using b by (simp_all add: same_requests_def s1_def base_ok_def)
      have "core cfg G (atts s) (reps s + add_mset (l, t) h - {#(l, t)#}) (sm_fanout s)
          (upd2 (joined cfg (sm_final_counts s) (sm_pending_counts s)) l (tk_tid t)
             (joined cfg (sm_final_counts s) (sm_pending_counts s) l (tk_tid t) + 1)) pt
          (rm_next_tid s) (map_of (rm_state s)) (rm_home s)"
        by (rule core_partial [OF core g f]) (use True c0 l in \<open>auto simp: pt_def split: option.splits if_splits\<close>)
      then have "sim_core cfg G h s1"
        by (simp add: sim_core_def s1_def R c0 joined_pending [OF l])
      then have "sim_inv cfg h s1" using sim_inv_frame [OF req q same] by blast
      moreover have "deliver cfg l t s = Inr s1"
        using l False True fan by (simp add: deliver_def notify_expert_completion_def s1_def pt_def Let_def)
      ultimately show ?thesis using that by blast
    next
      case last: False
      then have fe: "f = ?c + 1" using nc by simp
      define s1 where "s1 = s\<lparr>sm_pending_counts := upd2 (sm_pending_counts s) (Suc l) (tk_tid t) 0,
          sm_pending_tokens := upd2 (sm_pending_tokens s) (Suc l) (tk_tid t) None\<rparr>"
      have b1: "base_ok cfg s1" using b by (simp add: s1_def base_ok_def)
      obtain ws where ws: "attn_enqueue (Suc l) t s1 = Inr (s1\<lparr>sm_workers := ws\<rparr>)" "base_ok cfg (s1\<lparr>sm_workers := ws\<rparr>)"
        "atts (s1\<lparr>sm_workers := ws\<rparr>) = add_mset (Suc l, t) (atts s1)" "reps (s1\<lparr>sm_workers := ws\<rparr>) = reps s1"
        by (rule attn_enqueue_ok [OF b1 t(4)])
      have "core cfg (G(tk_request_id t := Some (t, Suc l, True))) (add_mset (Suc l, t) (atts s))
          (reps s + add_mset (l, t) h - {#(l, t)#}) (sm_fanout s)
          (upd2 (joined cfg (sm_final_counts s) (sm_pending_counts s)) l (tk_tid t) 0) (sm_pending_tokens s1)
          (rm_next_tid s) (map_of (rm_state s)) (rm_home s)"
      proof (rule core_last [OF core g])
        show "sm_fanout s (tk_tid t) l
            = Some (joined cfg (sm_final_counts s) (sm_pending_counts s) l (tk_tid t) + 1)"
          using f fe c0 by simp
        show "sm_pending_tokens s (Suc l') k = Some t' \<and> t' \<noteq> t" if p: "sm_pending_tokens s1 (Suc l') k = Some t'" for l' k t'
        proof -
          have p': "sm_pending_tokens s (Suc l') k = Some t'" "\<not> (l' = l \<and> k = tk_tid t)"
            using p by (auto simp: s1_def split: if_splits)
          then show ?thesis using core_pending [OF core p'(1)] g by auto
        qed
      qed (use l in simp)
      then have "sim_core cfg (G(tk_request_id t := Some (t, Suc l, True))) h (s1\<lparr>sm_workers := ws\<rparr>)"
        unfolding sim_core_def ws(3,4) by (simp add: s1_def R joined_pending [OF l])
      moreover have "same_requests s (s1\<lparr>sm_workers := ws\<rparr>)" by (simp add: same_requests_def s1_def)
      moreover have "G r = None" if "(G(tk_request_id t := Some (t, Suc l, True))) r = None" for r
        using that by (auto split: if_splits)
      ultimately have "sim_inv cfg h (s1\<lparr>sm_workers := ws\<rparr>)"
        using sim_inv_frame [OF req q _ ws(2)] by blast
      moreover have "(case sm_pending_tokens s (Suc l) (tk_tid t) of None \<Rightarrow> t | Some t' \<Rightarrow> t') = t"
        using pend by (auto split: option.split)
      then have "deliver cfg l t s = attn_enqueue (Suc l) t s1"
        using l False last fe fan by (simp add: deliver_def notify_expert_completion_def s1_def Let_def)
      ultimately show ?thesis using that ws(1) by simp
    qed
  qed
qed

lemma deliver_all_ok:
  assumes cfg: "cfg_ok cfg" and inv: "sim_inv cfg (image_mset (Pair l) (mset b) + h) s"
  obtains s' where "foldR (deliver cfg l) b s = Inr s'" "sim_inv cfg h s'"
  using inv
proof (induction b arbitrary: s thesis)
  case (Cons t b)
  then have "sim_inv cfg (add_mset (l, t) (image_mset (Pair l) (mset b) + h)) s" by simp
  then obtain s1 where s1: "deliver cfg l t s = Inr s1" "sim_inv cfg (image_mset (Pair l) (mset b) + h) s1"
    by (rule deliver_ok [OF cfg])
  show ?case
    by (rule Cons.IH [OF _ s1(2)]) (use Cons.prems(1) s1(1) in simp)
qed simp

section \<open>Events\<close>

text \<open>Events that only move items between queues, phases and processes.\<close>

definition same_counters :: "sim \<Rightarrow> sim \<Rightarrow> bool" where
  "same_counters s s' \<longleftrightarrow>
     sm_fanout s' = sm_fanout s \<and> sm_pending_counts s' = sm_pending_counts s \<and>
     sm_pending_tokens s' = sm_pending_tokens s \<and> sm_final_counts s' = sm_final_counts s \<and>
     rm_next_tid s' = rm_next_tid s \<and> rm_home s' = rm_home s"

lemma sim_inv_move:
  assumes "sim_inv cfg h s" and "same_requests s s'" and "same_counters s s'" and "base_ok cfg s'"
    and "atts s' = atts s" and "reps s' + h' = reps s + h"
  shows "sim_inv cfg h' s'"
proof -
  obtain G where req: "req_inv cfg G h (waiting s) s" and q: "queue_inv cfg s"
    using assms(1) by (auto simp: sim_inv_def)
  then have "sim_core cfg G h s" by (simp add: req_inv_def)
  then have "sim_core cfg G h' s'"
    using assms(2,3,5,6) by (simp add: sim_core_def same_counters_def same_requests_def)
  then show ?thesis using sim_inv_frame [OF req q assms(2,4)] by blast
qed

lemma sim_inv_base: "sim_inv cfg h s \<Longrightarrow> base_ok cfg s"
  by (auto simp: sim_inv_def req_inv_def)

lemma set_worker_same [simp]:
  "same_requests s (set_worker i w s)" "same_counters s (set_worker i w s)"
  by (simp_all add: same_requests_def same_counters_def set_worker_def)

lemma set_worker_inv:
  assumes "sim_inv cfg h s" and "i < length (sm_workers s)" and "worker_ok cfg w"
    and "worker_attns w = worker_attns (sm_workers s ! i)" and "worker_reps w = worker_reps (sm_workers s ! i)"
  shows "sim_inv cfg h (set_worker i w s)"
  using set_worker_ok [OF sim_inv_base [OF assms(1)] assms(2,3), of "{#}" "{#}"] assms(4,5)
  by (intro sim_inv_move [OF assms(1)]) simp_all

lemma sim_inv_stats:
  "sim_inv cfg h s \<Longrightarrow> sim_inv cfg h (s\<lparr>sm_total_batch_size := a, sm_total_batches := b\<rparr>)"
  by (rule sim_inv_move) (auto simp: same_requests_def same_counters_def base_ok_def dest: sim_inv_base)

lemma loop_top_ok:
  assumes cfg: "cfg_ok cfg" and inv: "sim_inv cfg {#} s" and i: "i < length (sm_workers s)"
    and ph: "w_phase (sm_workers s ! i) = Ready \<or>
      w_phase (sm_workers s ! i) = Sleeping \<and> w_has_work (sm_workers s ! i)"
  obtains s' where "loop_top cfg i s = Inr s'" "sim_inv cfg {#} s'"
proof -
  let ?w = "sm_workers s ! i"
  have w: "worker_ok cfg ?w" using sim_inv_base [OF inv] i by (simp add: base_ok_def)
  show thesis
  proof (cases "w_phase ?w = Ready \<and> w_was_empty ?w")
    case True
    have "worker_ok cfg (?w\<lparr>w_has_work := False, w_phase := Sleeping\<rparr>)"
      using w True by (auto simp: worker_ok_def w_was_empty_def)
    then have "sim_inv cfg {#} (set_worker i (?w\<lparr>w_has_work := False, w_phase := Sleeping\<rparr>) s)"
      using True by (intro set_worker_inv [OF inv i]) (simp_all add: worker_attns_def worker_reps_def phase_reps_def)
    then show ?thesis using that True by (simp add: loop_top_def Let_def)
  next
    case False
    have work: "\<not> w_was_empty ?w" using False ph w by (auto simp: worker_ok_def)
    have B: "0 < max_batch cfg" "\<forall>n\<in>{1..max_batch cfg}. compute_time cfg (int n) \<noteq> None"
      using cfg unfolding cfg_ok_def by blast+
    have ph': "w_phase ?w = Ready \<or> w_phase ?w = Sleeping" using ph by blast
    have done': "\<exists>s'. loop_top cfg i s = Inr s' \<and> sim_inv cfg {#} s'"
      if p: "w_pick cfg ?w = Inr (n, w')" "worker_ok cfg w'" "worker_attns w' = worker_attns ?w"
        "worker_reps w' = worker_reps ?w" for n w'
      using False p(1) sim_inv_stats [OF set_worker_inv [OF inv i p(2-4)]]
      by (auto simp: loop_top_def Let_def)
    from w work B show ?thesis
    proof (cases rule: w_pick_cases)
      case (attention l t ts)
      then show ?thesis using done' [OF attention(2) picks_attention_ok [OF w attention(1) ph']] that by blast
    next
      case (expert l b rest)
      then show ?thesis using done' [OF expert(5) picks_batch_ok [OF w expert(1-4) ph']] that by blast
    qed
  qed
qed

lemma arrive_ok:
  assumes cfg: "cfg_ok cfg" and inv: "sim_inv cfg {#} s" and r: "sm_arrived s < total_requests cfg"
  obtains s' where "admit_request cfg (sm_arrived s) t (s\<lparr>sm_arrived := sm_arrived s + 1\<rparr>) = Inr s'" "sim_inv cfg {#} s'"
proof -
  obtain G where req: "req_inv cfg G {#} (waiting s) s" and q: "queue_inv cfg s"
    using inv by (auto simp: sim_inv_def)
  let ?r = "sm_arrived s" and ?s = "s\<lparr>sm_arrived := sm_arrived s + 1\<rparr>"
  have bk: "book cfg (waiting s) s" using req by (simp add: req_inv_def)
  have rW: "?r \<notin> waiting s" using bk by (auto simp: book_def)
  have no: "map_of (rm_state s) ?r = None"
  proof (rule ccontr)
    assume "map_of (rm_state s) ?r \<noteq> None"
    from book_active [OF bk this] show False by simp
  qed
  have "book cfg (insert ?r (waiting s)) ?s"
    unfolding book_def
  proof (intro conjI allI impI ballI)
    show "distinct (map fst (rm_state ?s))" using bk by (simp add: book_def)
    show "r' < sm_arrived ?s" "r' \<notin> insert ?r (waiting s)" if "map_of (rm_state ?s) r' \<noteq> None" for r'
      using book_active [OF bk, of r'] that by auto
    show "r' < sm_arrived ?s" if "r' \<in> insert ?r (waiting s)" for r'
      using bk that by (auto simp: book_def intro: less_SucI)
    show "sm_arrived ?s \<le> total_requests cfg" using r by simp
    show "hist ?s r' = [0..<tokens_done cfg (insert ?r (waiting s)) ?s r']" for r'
    proof (cases "r' = ?r")
      case True
      then show ?thesis using book_hist [OF bk, of ?r] no by (simp add: hist_def tokens_done_def)
    next
      case False
      then have "tokens_done cfg (insert ?r (waiting s)) ?s r' = tokens_done cfg (waiting s) s r'"
        by (auto simp: tokens_done_def split: option.split)
      then show ?thesis using book_hist [OF bk, of r'] by (simp add: hist_def)
    qed
    show "distinct (map fst (sm_latencies ?s))" using bk by (simp add: book_def)
    have "fst ` set (sm_latencies s) = {r. r < sm_arrived s \<and> map_of (rm_state s) r = None \<and> r \<notin> waiting s}"
      using bk by (simp add: book_def)
    then show "fst ` set (sm_latencies ?s) = {r. r < sm_arrived ?s \<and> map_of (rm_state ?s) r = None \<and> r \<notin> insert ?r (waiting s)}"
      by (auto simp: less_Suc_eq)
    show "case max_active cfg of None \<Rightarrow> True | Some m \<Rightarrow> active_requests ?s \<le> m"
      using bk by (simp add: book_def active_requests_def split: option.splits)
  qed
  then have req1: "req_inv cfg G {#} (insert ?r (waiting s)) ?s"
    using req by (simp add: req_inv_def base_ok_def sim_core_def covered_def)
  have lim: "below_limit cfg ?s = below_limit cfg s"
    by (simp add: below_limit_def active_requests_def cong: option.case_cong)
  show thesis
  proof (cases "below_limit cfg s")
    case True
    obtain s' G' where s': "start_request_now cfg ?r t ?s = Inr s'" "req_inv cfg G' {#} (waiting s) s'"
      "rm_pending s' = rm_pending ?s" "sm_arrived s' = sm_arrived ?s"
      by (rule start_request_ok [OF cfg req1 rW]) (use True lim in simp)
    have "rm_pending s = []" using q True by (simp add: queue_inv_def)
    then have "sim_inv cfg {#} s'" using s'(2,3) by (auto simp: sim_inv_def waiting_def queue_inv_def)
    then show ?thesis using that s'(1) True lim by (simp add: admit_request_def)
  next
    case False
    let ?s' = "?s\<lparr>rm_pending := rm_pending ?s @ [(?r, t)]\<rparr>"
    have "waiting ?s' = insert ?r (waiting s)" by (simp add: waiting_def)
    then have "req_inv cfg G {#} (waiting ?s') ?s'" using req1 by simp
    moreover have "queue_inv cfg ?s'"
      using q rW False lim by (simp add: queue_inv_def waiting_def)
    ultimately have "sim_inv cfg {#} ?s'" unfolding sim_inv_def by blast
    then show ?thesis using that False lim by (simp add: admit_request_def)
  qed
qed

lemma route_start_ok:
  assumes cfg: "cfg_ok cfg" and inv: "sim_inv cfg {#} s" and p: "p < length (sm_procs s)" "sm_procs s ! p = Spawned l t"
    and rows: "router_call cfg l t = Inr rows"
  obtains s' where "exec cfg (RouteStart p) s = Some (Inr s')" "sim_inv cfg {#} s'"
proof -
  obtain G where req: "req_inv cfg G {#} (waiting s) s" and q: "queue_inv cfg s"
    using inv by (auto simp: sim_inv_def)
  have c: "sim_core cfg G {#} s" and b: "base_ok cfg s" and bk: "book cfg (waiting s) s"
    using req by (simp_all add: req_inv_def)
  note core = c [unfolded sim_core_def]
  have at: "proc_attns (sm_procs s ! p) = {#(l, t)#}" by (simp add: p proc_attns_def)
  have "(l, t) \<in># atts s"
    using sum_list_map_drop_nth [OF p(1), of proc_attns] at by (simp add: atts_def)
  then have g: "G (tk_request_id t) = Some (t, l, True)" by (rule core_att_member [OF core])
  note t = core_token [OF core g]
  have "map_of (rm_state s) (tk_request_id t) \<noteq> None" unfolding t(6) by simp
  from book_active [OF bk this] have "tk_request_id t < total_requests cfg"
    using bk by (simp add: book_def)
  then obtain ids where ids: "route_token cfg l t = Inr ids" "ids \<noteq> []"
    "\<And>e. e \<in> set ids \<Longrightarrow> e div queues_per_worker cfg < ep_size cfg \<and> e mod queues_per_worker cfg < queues_per_worker cfg"
    using route_token_ok [OF cfg _ t(3,2) rows] by metis
  define routes where "routes = map (\<lambda>e. (e div queues_per_worker cfg, e mod queues_per_worker cfg)) ids"
  define s' where "s' = s\<lparr>sm_fanout := upd2 (sm_fanout s) (tk_tid t) l (Some (length ids)),
      sm_procs := (sm_procs s)[p := Sending l t routes]\<rparr>"
  have "exec cfg (RouteStart p) s = Some (Inr s')"
    using p ids(1,2) by (simp add: route_and_dispatch_def s'_def routes_def)
  moreover have "proc_ok cfg (Sending l t routes)"
    using t(2) ids(2,3) by (auto simp: proc_ok_def routes_def)
  then have "base_ok cfg s'"
    using b by (auto simp: base_ok_def s'_def dest!: set_update_subset_insert [THEN subsetD])
  moreover have "atts s = atts s' + {#(l, t)#}"
    using sum_list_map_update_remove [OF p(1), of proc_attns "Sending l t routes" "{#(l, t)#}"] p(2)
    by (simp add: atts_def s'_def proc_attns_def)
  then have "atts s' = atts s - {#(l, t)#}" by simp
  moreover have "reps s' = reps s + replicate_mset (length ids) (l, t)"
    using sum_list_map_update_add [OF p(1), of proc_reps "Sending l t routes" "replicate_mset (length ids) (l, t)"] p(2)
    by (simp add: reps_def s'_def proc_reps_def routes_def)
  moreover have "same_requests s s'" by (simp add: same_requests_def s'_def)
  moreover have "sim_core cfg (G(tk_request_id t \<mapsto> (t, l, False))) {#} s'"
    using core_route [OF core g, of "length ids"] ids(2) calculation(3,4)
    by (simp add: sim_core_def s'_def)
  moreover have "G r = None" if "(G(tk_request_id t \<mapsto> (t, l, False))) r = None" for r
    using that by (auto split: if_splits)
  ultimately show thesis using that sim_inv_frame [OF req q] by blast
qed

lemma sim_inv_tick: "sim_inv cfg h s \<Longrightarrow> sim_inv cfg h (s\<lparr>sm_now := x\<rparr>)"
  by (rule sim_inv_move) (auto simp: same_requests_def same_counters_def base_ok_def dest: sim_inv_base)

lemma sim_inv_nth: "sim_inv cfg h s \<Longrightarrow> i < length (sm_workers s) \<Longrightarrow> worker_ok cfg (sm_workers s ! i)"
  by (auto simp: base_ok_def dest: sim_inv_base)

lemma attn_done_ok:
  assumes inv: "sim_inv cfg {#} s" and i: "i < length (sm_workers s)"
    and ph: "w_phase (sm_workers s ! i) = AttnBusy l t"
  shows "sim_inv cfg {#} ((set_worker i ((sm_workers s ! i)\<lparr>w_inflight_attn := False, w_phase := Ready\<rparr>) s)
    \<lparr>sm_procs := sm_procs s @ [Spawned l t]\<rparr>)" (is "sim_inv cfg {#} ?s'")
proof (rule sim_inv_move [OF inv])
  let ?w = "(sm_workers s ! i)\<lparr>w_inflight_attn := False, w_phase := Ready\<rparr>"
  have b: "base_ok cfg s" by (rule sim_inv_base [OF inv])
  have w: "worker_ok cfg ?w" using sim_inv_nth [OF inv i] ph by (simp add: worker_ok_def w_was_empty_def)
  show "base_ok cfg ?s'"
    using b w by (auto simp: base_ok_def set_worker_def proc_ok_def dest!: set_update_subset_insert [THEN subsetD])
  have "sum_list (map worker_attns (sm_workers s)) = sum_list (map worker_attns ((sm_workers s)[i := ?w])) + {#(l, t)#}"
    by (rule sum_list_map_update_remove [OF i]) (simp add: worker_attns_def ph)
  then show "atts ?s' = atts s" by (simp add: atts_def set_worker_def proc_attns_def)
  have "sum_list (map worker_reps ((sm_workers s)[i := ?w])) = sum_list (map worker_reps (sm_workers s)) + {#}"
    by (rule sum_list_map_update_add [OF i]) (simp add: worker_reps_def ph phase_reps_def)
  then show "reps ?s' + {#} = reps s + {#}" by (simp add: reps_def set_worker_def proc_reps_def)
qed (simp_all add: same_requests_def same_counters_def set_worker_def)

lemma compute_done_ok:
  assumes inv: "sim_inv cfg {#} s" and i: "i < length (sm_workers s)"
    and ph: "w_phase (sm_workers s ! i) = Computing l b"
  shows "sim_inv cfg {#} (set_worker i ((sm_workers s ! i)\<lparr>w_phase := Returning l b\<rparr>) s)"
  using sim_inv_nth [OF inv i] ph
  by (intro set_worker_inv [OF inv i])
    (simp_all add: worker_ok_def w_was_empty_def worker_attns_def worker_reps_def phase_reps_def)

lemma return_done_ok:
  assumes cfg: "cfg_ok cfg" and inv: "sim_inv cfg {#} s" and i: "i < length (sm_workers s)"
    and ph: "w_phase (sm_workers s ! i) = Returning l b"
  obtains s' where "foldR (deliver cfg l) b
      (set_worker i ((sm_workers s ! i)\<lparr>w_inflight_batch := 0, w_phase := Ready\<rparr>) s) = Inr s'" "sim_inv cfg {#} s'"
proof -
  let ?w = "(sm_workers s ! i)\<lparr>w_inflight_batch := 0, w_phase := Ready\<rparr>"
  have "sim_inv cfg (image_mset (Pair l) (mset b) + {#}) (set_worker i ?w s)"
  proof (rule sim_inv_move [OF inv])
    have b: "base_ok cfg s" by (rule sim_inv_base [OF inv])
    have w: "worker_ok cfg ?w" using sim_inv_nth [OF inv i] ph by (simp add: worker_ok_def w_was_empty_def)
    show "base_ok cfg (set_worker i ?w s)"
      using b w by (auto simp: base_ok_def set_worker_def dest!: set_update_subset_insert [THEN subsetD])
    have "sum_list (map worker_attns ((sm_workers s)[i := ?w])) = sum_list (map worker_attns (sm_workers s)) + {#}"
      by (rule sum_list_map_update_add [OF i]) (simp add: worker_attns_def ph)
    then show "atts (set_worker i ?w s) = atts s" by (simp add: atts_def set_worker_def)
    have "sum_list (map worker_reps (sm_workers s))
        = sum_list (map worker_reps ((sm_workers s)[i := ?w])) + image_mset (Pair l) (mset b)"
      by (rule sum_list_map_update_remove [OF i]) (simp add: worker_reps_def ph phase_reps_def)
    then show "reps (set_worker i ?w s) + (image_mset (Pair l) (mset b) + {#}) = reps s + {#}"
      by (simp add: reps_def set_worker_def)
  qed simp_all
  then show thesis using deliver_all_ok [OF cfg] that by blast
qed

lemma route_done_ok:
  assumes cfg: "cfg_ok cfg" and inv: "sim_inv cfg {#} s" and p: "p < length (sm_procs s)" "sm_procs s ! p = Sending l t routes"
  obtains ws where "foldR (send_copy l t) routes (s\<lparr>sm_procs := drop_nth p (sm_procs s)\<rparr>)
      = Inr (s\<lparr>sm_procs := drop_nth p (sm_procs s), sm_workers := ws\<rparr>)"
    "sim_inv cfg {#} (s\<lparr>sm_procs := drop_nth p (sm_procs s), sm_workers := ws\<rparr>)"
proof -
  let ?s = "s\<lparr>sm_procs := drop_nth p (sm_procs s)\<rparr>"
  have b: "base_ok cfg s" by (rule sim_inv_base [OF inv])
  have "proc_ok cfg (Sending l t routes)" using b p nth_mem by (fastforce simp: base_ok_def)
  then have ok: "l < num_layers cfg" "\<forall>(w, j)\<in>set routes. w < ep_size cfg \<and> j < queues_per_worker cfg"
    by (simp_all add: proc_ok_def)
  have b1: "base_ok cfg ?s" using b set_drop_nth [of p "sm_procs s"] by (auto simp: base_ok_def)
  obtain ws where ws: "foldR (send_copy l t) routes ?s = Inr (?s\<lparr>sm_workers := ws\<rparr>)" "base_ok cfg (?s\<lparr>sm_workers := ws\<rparr>)"
    "atts (?s\<lparr>sm_workers := ws\<rparr>) = atts ?s" "reps (?s\<lparr>sm_workers := ws\<rparr>) = reps ?s + replicate_mset (length routes) (l, t)"
    by (rule send_copies_ok [OF b1 ok])
  have "sim_inv cfg {#} (?s\<lparr>sm_workers := ws\<rparr>)"
  proof (rule sim_inv_move [OF inv])
    show "base_ok cfg (?s\<lparr>sm_workers := ws\<rparr>)" by (rule ws(2))
    show "atts (?s\<lparr>sm_workers := ws\<rparr>) = atts s"
      using sum_list_map_drop_nth [OF p(1), of proc_attns] p(2) ws(3) by (simp add: atts_def proc_attns_def)
    show "reps (?s\<lparr>sm_workers := ws\<rparr>) + {#} = reps s + {#}"
      using sum_list_map_drop_nth [OF p(1), of proc_reps] p(2) ws(4) by (simp add: reps_def proc_reps_def ac_simps)
  qed (simp_all add: same_requests_def same_counters_def)
  then show thesis using that ws(1) by simp
qed

text \<open>The call of the router that starts routing process \<open>p\<close> makes has raised \<open>err\<close>.\<close>

definition router_raised :: "sim_config \<Rightarrow> event \<Rightarrow> sim \<Rightarrow> py_error \<Rightarrow> bool" where
  "router_raised cfg e s err \<longleftrightarrow>
     (\<exists>p l t. e = RouteStart p \<and> p < length (sm_procs s) \<and> sm_procs s ! p = Spawned l t \<and>
        router_call cfg l t = Inl err)"

lemma exec_ok:
  assumes cfg: "cfg_ok cfg" and inv: "sim_inv cfg {#} s" and e: "exec cfg e s = Some r"
  shows "(\<exists>s'. r = Inr s' \<and> sim_inv cfg {#} s') \<or> (\<exists>err. r = Inl err \<and> router_raised cfg e s err)"
proof (cases e)
  case (Tick d)
  then show ?thesis using e sim_inv_tick [OF inv] by (auto split: if_splits)
next
  case Arrive
  then have r: "sm_arrived s < total_requests cfg"
    and x: "r = admit_request cfg (sm_arrived s) (sm_now s) (s\<lparr>sm_arrived := sm_arrived s + 1\<rparr>)"
    using e by (auto split: if_splits)
  obtain s' where "admit_request cfg (sm_arrived s) (sm_now s) (s\<lparr>sm_arrived := sm_arrived s + 1\<rparr>) = Inr s'"
    "sim_inv cfg {#} s'" by (rule arrive_ok [OF cfg inv r])
  then show ?thesis using x by blast
next
  case (Pick i)
  then have i: "i < length (sm_workers s)" and ph: "w_phase (sm_workers s ! i) = Ready \<or>
      w_phase (sm_workers s ! i) = Sleeping \<and> w_has_work (sm_workers s ! i)" and x: "r = loop_top cfg i s"
    using e by (auto split: if_splits phase.splits)
  obtain s' where "loop_top cfg i s = Inr s'" "sim_inv cfg {#} s'" by (rule loop_top_ok [OF cfg inv i ph])
  then show ?thesis using x by blast
next
  case (AttnDone i)
  then show ?thesis using e attn_done_ok [OF inv] by (auto split: if_splits phase.splits)
next
  case (ComputeDone i)
  then show ?thesis using e compute_done_ok [OF inv] by (auto split: if_splits phase.splits)
next
  case (ReturnDone i)
  then obtain l b where i: "i < length (sm_workers s)" and ph: "w_phase (sm_workers s ! i) = Returning l b"
    and x: "r = foldR (deliver cfg l) b
      (set_worker i ((sm_workers s ! i)\<lparr>w_inflight_batch := 0, w_phase := Ready\<rparr>) s)"
    using e by (auto split: if_splits phase.splits)
  obtain s' where "foldR (deliver cfg l) b
      (set_worker i ((sm_workers s ! i)\<lparr>w_inflight_batch := 0, w_phase := Ready\<rparr>) s) = Inr s'" "sim_inv cfg {#} s'"
    by (rule return_done_ok [OF cfg inv i ph])
  then show ?thesis using x by blast
next
  case (RouteStart p)
  then obtain l t where p: "p < length (sm_procs s)" "sm_procs s ! p = Spawned l t"
    using e by (auto split: if_splits route_proc.splits)
  show ?thesis
  proof (cases "router_call cfg l t")
    case (Inl err)
    then have "r = Inl err" using e p unfolding RouteStart by (simp add: route_and_dispatch_def route_token_def)
    then show ?thesis using Inl p RouteStart by (auto simp: router_raised_def)
  next
    case (Inr rows)
    obtain s' where "exec cfg (RouteStart p) s = Some (Inr s')" "sim_inv cfg {#} s'"
      by (rule route_start_ok [OF cfg inv p Inr])
    then show ?thesis using e unfolding RouteStart by (metis option.inject)
  qed
next
  case (RouteDone p)
  then obtain l t routes where p: "p < length (sm_procs s)" "sm_procs s ! p = Sending l t routes"
    and x: "r = foldR (send_copy l t) routes (s\<lparr>sm_procs := drop_nth p (sm_procs s)\<rparr>)"
    using e by (auto split: if_splits route_proc.splits)
  obtain ws where "foldR (send_copy l t) routes (s\<lparr>sm_procs := drop_nth p (sm_procs s)\<rparr>)
      = Inr (s\<lparr>sm_procs := drop_nth p (sm_procs s), sm_workers := ws\<rparr>)"
    "sim_inv cfg {#} (s\<lparr>sm_procs := drop_nth p (sm_procs s), sm_workers := ws\<rparr>)"
    by (rule route_done_ok [OF cfg inv p])
  then show ?thesis using x by blast
qed

lemma worker_init_ok:
  "worker_ok cfg (worker_init cfg)" "worker_attns (worker_init cfg) = {#}" "worker_reps (worker_init cfg) = {#}"
  by (auto simp: worker_ok_def worker_init_def worker_attns_def worker_reps_def phase_reps_def queued_total_def
      layer_total_def sum_list_replicate)

lemma sum_list_replicate_empty [simp]: "sum_list (replicate n {#}) = {#}"
  by (induction n) simp_all

lemma joined_zero: "joined cfg (\<lambda>_. 0) (\<lambda>_ _. 0) = (\<lambda>_ _. 0)"
  by (simp add: joined_def fun_eq_iff)

lemma run_init_inv:
  assumes "run_init cfg = Inr s"
  shows "sim_inv cfg {#} s"
proof -
  have z: "atts s = {#}" "reps s = {#}"
    using assms worker_init_ok [of cfg]
    by (auto simp: run_init_def atts_def reps_def sum_list_replicate split: if_splits)
  have b: "base_ok cfg s"
    using assms worker_init_ok [of cfg] by (auto simp: run_init_def base_ok_def split: if_splits)
  have "sim_core cfg (\<lambda>_. None) {#} s"
    unfolding sim_core_def z using assms core_empty
    by (auto simp: run_init_def joined_zero split: if_splits)
  moreover have "book cfg (waiting s) s" "covered (\<lambda>_. None) s" "queue_inv cfg s"
    using assms by (auto simp: run_init_def book_def covered_def queue_inv_def waiting_def hist_def
        tokens_done_def active_requests_def split: if_splits option.splits)
  ultimately show ?thesis using b unfolding sim_inv_def req_inv_def by blast
qed

lemma reachable_inv:
  assumes "cfg_ok cfg" and "reachable cfg s"
  shows "sim_inv cfg {#} s"
  using assms(2)
proof induction
  case (reach_init s)
  then show ?case by (rule run_init_inv)
next
  case (reach_step s s')
  from reach_step.hyps(2) obtain e where "exec cfg e s = Some (Inr s')" by (rule sim_stepE)
  then show ?case using exec_ok [OF assms(1) reach_step.IH] by blast
qed

section \<open>What holds of every execution\<close>

text \<open>A small configuration for the witnesses: one GPU, two layers, two experts.\<close>

definition small_cfg :: sim_config where
  "small_cfg = \<lparr>num_layers = 2, total_experts = 2, ep_size = 1, max_batch = 2, tokens_per_request = 1,
     total_requests = 2, max_active = Some 1, attn_dp = 1, policy = ''longest_queue_first'',
     routing_top_k = 2, compute_time = (\<lambda>_. Some 1), route_ids = (\<lambda>_ _ _. Inr [[1, 0, -1]])\<rparr>"

definition small_events :: "event list" where
  "small_events = [Arrive, Pick 0, Arrive, AttnDone 0, Pick 0, RouteStart 0, RouteDone 0, Pick 0, ComputeDone 0,
     ReturnDone 0, Pick 0, AttnDone 0, RouteStart 0, RouteDone 0, Pick 0, ComputeDone 0, Tick 1, ReturnDone 0]"

definition small_state :: "nat \<Rightarrow> sim" where
  "small_state n = projr (the (run_events small_cfg (take n small_events) (projr (run_init small_cfg))))"

lemma small_cfg_ok: "cfg_ok small_cfg"
  by (simp add: cfg_ok_def small_cfg_def)

definition run_ok :: "sim result option \<Rightarrow> bool" where
  "run_ok r = (case r of Some (Inr _) \<Rightarrow> True | _ \<Rightarrow> False)"

lemma small_state_reachable:
  assumes "run_ok (run_events small_cfg (take n small_events) (projr (run_init small_cfg)))"
  shows "reachable small_cfg (small_state n)"
proof -
  have "run_init small_cfg = Inr (projr (run_init small_cfg))"
    using cfg_ok_run_init [OF small_cfg_ok] by auto
  then have "reachable small_cfg (projr (run_init small_cfg))" by (rule reach_init)
  then show ?thesis
    using assms run_events_reachable unfolding small_state_def run_ok_def
    by (auto split: option.splits sum.splits)
qed

lemma small_runs:
  "run_ok (run_events small_cfg (take 18 small_events) (projr (run_init small_cfg)))"
  "run_ok (run_events small_cfg (take 17 small_events) (projr (run_init small_cfg)))"
  "run_ok (run_events small_cfg (take 9 small_events) (projr (run_init small_cfg)))"
  by code_simp+

lemmas small_reachable = small_runs [THEN small_state_reachable]

text \<open>
  C7: The only exceptions of the asynchronous simulator are those its router raises: when an
  event of a reachable state raises, it is the start of a routing process, and the exception
  is the one that the call of the router with the process's token raised.  None of the
  simulator's own errors (an unknown request, a missing fanout, a surplus completion, only
  placeholder ids, a home GPU or queue out of range, a batch size missing from the table)
  can occur.
\<close>

theorem sim_async_raises_only_router:
  assumes "cfg_ok cfg" and "reachable cfg s" and "exec cfg e s = Some (Inl err)"
  shows "\<exists>p l t. e = RouteStart p \<and> p < length (sm_procs s) \<and> sm_procs s ! p = Spawned l t \<and>
    route_ids cfg (PyList [int (tk_request_id t)]) [int (tk_token_index t)] l = Inl err"
  using exec_ok [OF assms(1) reachable_inv [OF assms(1,2)] assms(3)]
  by (auto simp: router_raised_def router_call_def)

text \<open>A router that refuses every call, as the one of the repository does (see \<open>SimRouter\<close>).\<close>

definition refusing_cfg :: sim_config where
  "refusing_cfg = small_cfg\<lparr>route_ids := (\<lambda>_ _ _. Inl TypeError)\<rparr>"

lemma refusing_cfg_ok: "cfg_ok refusing_cfg"
  by (simp add: cfg_ok_def small_cfg_def refusing_cfg_def)

definition refused_state :: sim where
  "refused_state = projr (the (run_events refusing_cfg (take 4 small_events) (projr (run_init refusing_cfg))))"

lemma refused_reachable: "reachable refusing_cfg refused_state"
proof -
  have "run_init refusing_cfg = Inr (projr (run_init refusing_cfg))"
    using cfg_ok_run_init [OF refusing_cfg_ok] by auto
  then have r: "reachable refusing_cfg (projr (run_init refusing_cfg))" by (rule reach_init)
  have "run_ok (run_events refusing_cfg (take 4 small_events) (projr (run_init refusing_cfg)))" by code_simp
  then show ?thesis
    using r run_events_reachable unfolding refused_state_def run_ok_def
    by (auto split: option.splits sum.splits)
qed

theorem sim_async_raises_only_router_witness:
  "exec refusing_cfg (RouteStart 0) refused_state = Some (Inl TypeError) \<and>
   (\<exists>p l t. RouteStart 0 = RouteStart p \<and> p < length (sm_procs refused_state) \<and>
     sm_procs refused_state ! p = Spawned l t \<and>
     route_ids refusing_cfg (PyList [int (tk_request_id t)]) [int (tk_token_index t)] l = Inl TypeError)"
proof
  have "case exec refusing_cfg (RouteStart 0) refused_state of Some (Inl TypeError) \<Rightarrow> True | _ \<Rightarrow> False" by code_simp
  then show e: "exec refusing_cfg (RouteStart 0) refused_state = Some (Inl TypeError)"
    by (auto split: option.splits sum.splits py_error.splits)
  show "\<exists>p l t. RouteStart 0 = RouteStart p \<and> p < length (sm_procs refused_state) \<and>
     sm_procs refused_state ! p = Spawned l t \<and>
     route_ids refusing_cfg (PyList [int (tk_request_id t)]) [int (tk_token_index t)] l = Inl TypeError"
    by (rule sim_async_raises_only_router [OF refusing_cfg_ok refused_reachable e])
qed

text \<open>
  Admission control: the number of active requests never exceeds the limit, a request
  waits only while the limit is reached, and the requests that have arrived are exactly
  the active ones, the waiting ones and the completed ones, each completed request having
  reported one latency.
\<close>

theorem sim_async_admission:
  assumes cfg: "cfg_ok cfg" and reach: "reachable cfg s" and m: "max_active cfg = Some m"
  shows "active_requests s \<le> m \<and> (rm_pending s = [] \<or> active_requests s = m) \<and>
    {..<sm_arrived s} = fst ` set (rm_state s) \<union> fst ` set (rm_pending s) \<union> fst ` set (sm_latencies s) \<and>
    distinct (map fst (rm_state s) @ map fst (rm_pending s) @ map fst (sm_latencies s))"
proof -
  have inv: "sim_inv cfg {#} s" by (rule reachable_inv [OF cfg reach])
  then have bk: "book cfg (waiting s) s" and q: "queue_inv cfg s"
    by (auto simp: sim_inv_def req_inv_def)
  have lim: "active_requests s \<le> m" using bk m by (simp add: book_def)
  moreover have "rm_pending s = [] \<or> active_requests s = m"
    using q lim m by (auto simp: queue_inv_def below_limit_def)
  moreover have act: "r \<in> fst ` set (rm_state s) \<longleftrightarrow> map_of (rm_state s) r \<noteq> None" for r
    by (auto simp: map_of_eq_None_iff)
  have lat: "fst ` set (sm_latencies s) = {r. r < sm_arrived s \<and> map_of (rm_state s) r = None \<and> r \<notin> waiting s}"
    "distinct (map fst (sm_latencies s))" "distinct (map fst (rm_state s))" "\<forall>r\<in>waiting s. r < sm_arrived s"
    using bk by (simp_all add: book_def)
  have "{..<sm_arrived s} = fst ` set (rm_state s) \<union> fst ` set (rm_pending s) \<union> fst ` set (sm_latencies s)"
  proof -
    have A: "fst ` set (rm_state s) = {r. map_of (rm_state s) r \<noteq> None}" using act by blast
    have B: "{r. map_of (rm_state s) r \<noteq> None} \<subseteq> {..<sm_arrived s}" using book_active [OF bk] by blast
    show ?thesis unfolding A lat(1) waiting_def [symmetric] using B lat(4) by fastforce
  qed
  moreover have "distinct (map fst (rm_pending s))" using q by (simp add: queue_inv_def)
  moreover have "fst ` set (rm_state s) \<inter> waiting s = {}" using book_active [OF bk] act by blast
  moreover have "(fst ` set (rm_state s) \<union> waiting s) \<inter> fst ` set (sm_latencies s) = {}"
    unfolding lat(1) using act by blast
  ultimately show ?thesis using lat(2,3) by (auto simp: waiting_def)
qed

theorem sim_async_admission_witness:
  "active_requests (small_state 9) \<le> 1 \<and> (rm_pending (small_state 9) = [] \<or> active_requests (small_state 9) = 1) \<and>
    {..<sm_arrived (small_state 9)} = fst ` set (rm_state (small_state 9)) \<union> fst ` set (rm_pending (small_state 9))
      \<union> fst ` set (sm_latencies (small_state 9)) \<and>
    distinct (map fst (rm_state (small_state 9)) @ map fst (rm_pending (small_state 9)) @ map fst (sm_latencies (small_state 9)))"
  by (rule sim_async_admission [OF small_cfg_ok small_reachable(3)]) (simp add: small_cfg_def)

text \<open>
  C21: Each request completes its tokens strictly in order, each once: at every moment the
  completed token indices of a request are \<open>0, 1, ..., k - 1\<close>, and its latency has been
  reported exactly when all its tokens are complete.
\<close>

theorem sim_async_tokens_in_order:
  assumes cfg: "cfg_ok cfg" and reach: "reachable cfg s"
  shows "\<exists>k. hist s r = [0..<k] \<and> k \<le> tokens_per_request cfg \<and>
    (r \<in> fst ` set (sm_latencies s) \<longleftrightarrow> k = tokens_per_request cfg)"
proof -
  have inv: "sim_inv cfg {#} s" by (rule reachable_inv [OF cfg reach])
  then obtain G where req: "req_inv cfg G {#} (waiting s) s" by (auto simp: sim_inv_def)
  then have bk: "book cfg (waiting s) s" and c: "sim_core cfg G {#} s" and cov: "covered G s"
    by (auto simp: req_inv_def)
  have lat: "fst ` set (sm_latencies s) = {r. r < sm_arrived s \<and> map_of (rm_state s) r = None \<and> r \<notin> waiting s}"
    using bk by (simp add: book_def)
  have N: "0 < tokens_per_request cfg" using cfg by (simp add: cfg_ok_def)
  show ?thesis
  proof (cases "map_of (rm_state s) r")
    case None
    then show ?thesis using book_hist [OF bk, of r] lat N
      by (intro exI [of _ "tokens_done cfg (waiting s) s r"]) (auto simp: tokens_done_def)
  next
    case (Some i)
    then obtain t l b where g: "G r = Some (t, l, b)" using cov unfolding covered_def
      by (metis option.distinct(1) not_None_eq prod_cases3)
    note t = core_token [OF c [unfolded sim_core_def] g]
    then have "i = tk_token_index t + 1" using Some by simp
    then show ?thesis using book_hist [OF bk, of r] lat Some t(3)
      by (intro exI [of _ "tk_token_index t"]) (simp add: tokens_done_def)
  qed
qed

theorem sim_async_tokens_in_order_witness:
  "hist (small_state 18) 0 = [0] \<and>
   (\<exists>k. hist (small_state 18) 0 = [0..<k] \<and> k \<le> tokens_per_request small_cfg \<and>
     (0 \<in> fst ` set (sm_latencies (small_state 18)) \<longleftrightarrow> k = tokens_per_request small_cfg))"
proof
  show "hist (small_state 18) 0 = [0]" by code_simp
qed (rule sim_async_tokens_in_order [OF small_cfg_ok small_reachable(1)])

text \<open>
  C15: Replicas are conserved: while a token is spread over experts, the copies still in
  queues, batches and transfers and the completions already joined add up to the number of
  experts it was routed to; the token is nowhere on the attention side and has no copy at
  another layer, so no completion count can pass the fanout.
\<close>

theorem sim_async_replicas_conserved:
  assumes cfg: "cfg_ok cfg" and reach: "reachable cfg s" and rep: "(l, t) \<in># reps s"
  shows "sm_fanout s (tk_tid t) l
      = Some (count (reps s) (l, t) + joined cfg (sm_final_counts s) (sm_pending_counts s) l (tk_tid t)) \<and>
    (\<forall>l'. (l', t) \<notin># atts s) \<and> (\<forall>l'. (l', t) \<in># reps s \<longrightarrow> l' = l)"
proof -
  obtain G where "req_inv cfg G {#} (waiting s) s"
    using reachable_inv [OF cfg reach] by (auto simp: sim_inv_def)
  then have "sim_core cfg G {#} s" by (simp add: req_inv_def)
  note core = this [unfolded sim_core_def, simplified]
  obtain f where f: "G (tk_request_id t) = Some (t, l, False)" "sm_fanout s (tk_tid t) l = Some f"
    "joined cfg (sm_final_counts s) (sm_pending_counts s) l (tk_tid t) < f"
    by (rule core_rep_member [OF core rep])
  have "count (reps s) (l, t) = f - joined cfg (sm_final_counts s) (sm_pending_counts s) l (tk_tid t)"
    using core_items_rep [OF core, of l t] f by simp
  moreover have "(l', t) \<notin># atts s" for l' using core_att_member [OF core, of l' t] f(1) by auto
  moreover have "(l', t) \<in># reps s \<Longrightarrow> l' = l" for l' using core_rep_member [OF core, of l' t] f(1) by auto
  ultimately show ?thesis using f(2,3) by auto
qed

theorem sim_async_replicas_conserved_witness:
  "\<exists>t. sm_fanout (small_state 9) (tk_tid t) 0 = Some (count (reps (small_state 9)) (0, t)
      + joined small_cfg (sm_final_counts (small_state 9)) (sm_pending_counts (small_state 9)) 0 (tk_tid t))"
proof -
  define w where "w = sm_workers (small_state 9) ! 0"
  have "case w_phase w of Returning l b \<Rightarrow> l = 0 \<and> b \<noteq> [] | _ \<Rightarrow> False" unfolding w_def by code_simp
  then obtain t b where "w_phase w = Returning 0 (t # b)"
    by (auto split: phase.splits simp: neq_Nil_conv)
  then have wr: "(0, t) \<in># worker_reps w" by (simp add: worker_reps_def phase_reps_def)
  have "length (sm_workers (small_state 9)) = 1" by code_simp
  then have "sm_workers (small_state 9) = [w]" by (cases "sm_workers (small_state 9)") (auto simp: w_def)
  then have "(0, t) \<in># reps (small_state 9)" using wr by (simp add: reps_def)
  from sim_async_replicas_conserved [OF small_cfg_ok small_reachable(3) this] show ?thesis by blast
qed

text \<open>
  The errors that \<open>notify_expert_completion\<close> and \<open>record_completion\<close> reserve for surplus
  completions cannot be raised by them at all: a count is popped when it reaches the
  expected number, so a further completion starts a new count.  With a fanout of one a
  surplus completion ends the token a second time.
\<close>

lemma surplus_completion_not_detected:
  assumes "sm_fanout s (tk_tid t) (num_layers cfg - 1) = Some 1" and "sm_final_counts s (tk_tid t) = 0"
  shows "final_record_completion cfg t x s
    = handle_token_completion cfg t x (s\<lparr>sm_final_counts := (sm_final_counts s)(tk_tid t := 0)\<rparr>)"
  using assms by (simp add: final_record_completion_def fanout_of_def)

text \<open>
  No lost wake-up: a worker that sleeps on an event that has not been triggered has nothing
  to do, and a triggered one finds work.
\<close>

lemma no_lost_wakeup:
  assumes "cfg_ok cfg" and "reachable cfg s" and "w \<in> set (sm_workers s)" and "w_phase w = Sleeping"
  shows "w_has_work w \<longleftrightarrow> w_attn w \<noteq> [] \<or> 0 < queued_total (w_queues w)"
proof -
  have w: "worker_ok cfg w"
    using sim_inv_base [OF reachable_inv [OF assms(1,2)]] assms(3) by (simp add: base_ok_def)
  show ?thesis using w w_was_empty_iff [OF w] assms(4) by (auto simp: worker_ok_def)
qed

end
