(* ===== verification/SimAsyncLive.thy ===== *)
theory SimAsyncLive
  imports SimAsyncSafe
begin

text \<open>
  Progress of the asynchronous simulator: a state in which no event but the passing of time
  is possible has completed every request, and no execution has more than a computed number
  of such events, whatever the order in which they happen.
\<close>

section \<open>No deadlock\<close>

definition quiescent :: "sim_config \<Rightarrow> sim \<Rightarrow> bool" where
  "quiescent cfg s \<longleftrightarrow>
     exec cfg Arrive s = None \<and>
     (\<forall>i<length (sm_workers s). exec cfg (Pick i) s = None \<and> exec cfg (AttnDone i) s = None \<and>
        exec cfg (ComputeDone i) s = None \<and> exec cfg (ReturnDone i) s = None) \<and>
     (\<forall>p<length (sm_procs s). exec cfg (RouteStart p) s = None \<and> exec cfg (RouteDone p) s = None)"

lemma sum_list_map_empty: "(\<And>x. x \<in> set xs \<Longrightarrow> f x = {#}) \<Longrightarrow> sum_list (map f xs) = {#}"
  by (induction xs) simp_all

lemma quiescent_no_items:
  assumes "base_ok cfg s" and "quiescent cfg s"
  shows "atts s = {#}" "reps s = {#}"
proof -
  have "sm_procs s = []"
  proof (rule ccontr)
    assume "sm_procs s \<noteq> []"
    then have "0 < length (sm_procs s)" by simp
    then have "exec cfg (RouteStart 0) s = None" "exec cfg (RouteDone 0) s = None"
      using assms(2) by (simp_all add: quiescent_def)
    then show False using \<open>sm_procs s \<noteq> []\<close> by (auto split: route_proc.splits)
  qed
  moreover have "worker_attns w = {#} \<and> worker_reps w = {#}" if "w \<in> set (sm_workers s)" for w
  proof -
    obtain i where i: "i < length (sm_workers s)" "w = sm_workers s ! i" using \<open>w \<in> set _\<close> by (metis in_set_conv_nth)
    then have "exec cfg (Pick i) s = None" "exec cfg (AttnDone i) s = None" "exec cfg (ComputeDone i) s = None"
      "exec cfg (ReturnDone i) s = None" using assms(2) by (simp_all add: quiescent_def)
    then have ph: "w_phase w = Sleeping" "\<not> w_has_work w"
      using i by (auto split: phase.splits if_splits)
    have ok: "worker_ok cfg w" using assms(1) that by (simp add: base_ok_def)
    then have "w_attn w = []" "queued_total (w_queues w) = 0"
      using ph w_was_empty_iff [OF ok] by (auto simp: worker_ok_def)
    then have "w_attn w = []" "size (queue_items (w_queues w)) = 0" by (simp_all add: size_queue_items)
    then show ?thesis using ph by (simp add: worker_attns_def worker_reps_def phase_reps_def)
  qed
  ultimately show "atts s = {#}" "reps s = {#}"
    by (simp_all add: atts_def reps_def sum_list_map_empty)
qed

lemma quiescent_complete:
  assumes cfg: "cfg_ok cfg" and reach: "reachable cfg s" and quiet: "quiescent cfg s"
  shows "sm_arrived s = total_requests cfg \<and> rm_state s = [] \<and> rm_pending s = [] \<and>
    (\<forall>r<total_requests cfg. hist s r = [0..<tokens_per_request cfg]) \<and>
    length (sm_latencies s) = total_requests cfg"
proof -
  have inv: "sim_inv cfg {#} s" by (rule reachable_inv [OF cfg reach])
  then obtain G where "req_inv cfg G {#} (waiting s) s" and q: "queue_inv cfg s" by (auto simp: sim_inv_def)
  then have b: "base_ok cfg s" and c: "sim_core cfg G {#} s" and cov: "covered G s" and bk: "book cfg (waiting s) s"
    by (auto simp: req_inv_def)
  note core = c [unfolded sim_core_def]
  have no: "G r = None" for r
  proof (rule ccontr)
    assume "G r \<noteq> None"
    then obtain t l b where g: "G r = Some (t, l, b)" by (metis not_None_eq prod_cases3)
    have rid: "tk_request_id t = r" by (rule core_token [OF core g])
    show False
    proof (cases b)
      case True
      then show False using core_items_att [OF core, of l t] g rid quiescent_no_items [OF b quiet] by simp
    next
      case False
      then obtain f where "sm_fanout s (tk_tid t) l = Some f"
        "joined cfg (sm_final_counts s) (sm_pending_counts s) l (tk_tid t) < f"
        using core_count_bound [OF core, of r t l] g False by auto
      then show False using core_items_rep [OF core, of l t] g rid False quiescent_no_items [OF b quiet] by simp
    qed
  qed
  then have "map_of (rm_state s) r = None" for r using cov by (simp add: covered_def)
  then have st: "rm_state s = []" by (metis ext map_of_eq_empty_iff)
  have lim: "below_limit cfg s"
    using cfg st by (auto simp: below_limit_def active_requests_def cfg_ok_def split: option.split)
  then have pend: "rm_pending s = []" using q by (auto simp: queue_inv_def)
  have arr: "sm_arrived s = total_requests cfg"
    using quiet bk by (auto simp: quiescent_def book_def split: if_splits)
  have "hist s r = [0..<tokens_per_request cfg]" if "r < total_requests cfg" for r
    using book_hist [OF bk, of r] that arr pend st by (simp add: tokens_done_def waiting_def)
  moreover have "length (sm_latencies s) = total_requests cfg"
  proof -
    have "fst ` set (sm_latencies s) = {..<total_requests cfg}" "distinct (map fst (sm_latencies s))"
      using bk arr pend st by (auto simp: book_def waiting_def)
    then have "length (map fst (sm_latencies s)) = card {..<total_requests cfg}"
      by (metis distinct_card set_map)
    then show ?thesis by simp
  qed
  ultimately show ?thesis using st pend arr by blast
qed

definition is_tick :: "event \<Rightarrow> bool" where
  "is_tick e = (case e of Tick d \<Rightarrow> True | _ \<Rightarrow> False)"

lemma not_tick [simp]:
  "\<not> is_tick Arrive" "\<not> is_tick (Pick i)" "\<not> is_tick (AttnDone i)" "\<not> is_tick (ComputeDone i)"
  "\<not> is_tick (ReturnDone i)" "\<not> is_tick (RouteStart i)" "\<not> is_tick (RouteDone i)"
  by (simp_all add: is_tick_def)

lemma no_event_quiescent: "\<nexists>e. \<not> is_tick e \<and> exec cfg e s \<noteq> None \<Longrightarrow> quiescent cfg s"
  unfolding quiescent_def using not_tick by metis

text \<open>
  C3: The asynchronous simulator cannot deadlock: in every reachable state an event other than
  the passing of time can happen (which runs through or raises what the router raises), or
  every request has arrived and completed each of its tokens in order, nothing is active or
  waiting, and one latency per request has been reported.
\<close>

theorem sim_async_deadlock_free:
  assumes cfg: "cfg_ok cfg" and reach: "reachable cfg s"
  shows "(\<exists>e. \<not> is_tick e \<and> exec cfg e s \<noteq> None) \<or>
    (sm_arrived s = total_requests cfg \<and> rm_state s = [] \<and> rm_pending s = [] \<and>
     (\<forall>r<total_requests cfg. hist s r = [0..<tokens_per_request cfg]) \<and>
     length (sm_latencies s) = total_requests cfg)"
proof (cases "quiescent cfg s")
  case False
  then have "\<exists>e. \<not> is_tick e \<and> exec cfg e s \<noteq> None" by (rule contrapos_np) (rule no_event_quiescent)
  then show ?thesis ..
qed (use quiescent_complete [OF assms] in blast)

section \<open>Termination\<close>

text \<open>
  The weight of a token counts the work it still causes: at the attention side with \<open>n\<close>
  layers to go, or as one of at most \<open>F\<close> replicas with \<open>n\<close> layers after this one.
\<close>

primrec att_weight :: "nat \<Rightarrow> nat \<Rightarrow> nat" where
  "att_weight F 0 = 0"
| "att_weight F (Suc n) = F * (att_weight F n + 9) + 8"

definition aw :: "sim_config \<Rightarrow> nat \<Rightarrow> nat" where
  "aw cfg l = att_weight (routing_top_k cfg) (num_layers cfg - l)"

definition rw :: "sim_config \<Rightarrow> nat \<Rightarrow> nat" where
  "rw cfg l = att_weight (routing_top_k cfg) (num_layers cfg - l - 1) + 9"

definition queue_weight :: "sim_config \<Rightarrow> 'a queues \<Rightarrow> nat" where
  "queue_weight cfg qs = (\<Sum>l<length qs. (rw cfg l - 2) * layer_total (qs ! l))"

definition phase_weight :: "sim_config \<Rightarrow> worker \<Rightarrow> nat" where
  "phase_weight cfg w =
     (case w_phase w of
        Ready \<Rightarrow> 1
      | Sleeping \<Rightarrow> if w_has_work w then 1 else 0
      | AttnBusy l t \<Rightarrow> aw cfg l - 2
      | Computing l b \<Rightarrow> length b * (rw cfg l - 4)
      | Returning l b \<Rightarrow> length b * (rw cfg l - 6))"

definition worker_weight :: "sim_config \<Rightarrow> worker \<Rightarrow> nat" where
  "worker_weight cfg w =
     sum_list (map (\<lambda>(l, t). aw cfg l) (w_attn w)) + queue_weight cfg (w_queues w) + phase_weight cfg w"

definition proc_weight :: "sim_config \<Rightarrow> route_proc \<Rightarrow> nat" where
  "proc_weight cfg p =
     (case p of Spawned l t \<Rightarrow> aw cfg l - 4 | Sending l t routes \<Rightarrow> length routes * rw cfg l)"

definition token_cost :: "sim_config \<Rightarrow> nat" where
  "token_cost cfg = aw cfg 0 + 2"

definition state_weight :: "sim_config \<Rightarrow> (nat, nat) dict \<Rightarrow> nat" where
  "state_weight cfg st = sum_list (map (\<lambda>(r, i). (tokens_per_request cfg - i) * token_cost cfg) st)"

definition request_cost :: "sim_config \<Rightarrow> nat" where
  "request_cost cfg = tokens_per_request cfg * token_cost cfg"

definition work :: "sim_config \<Rightarrow> sim \<Rightarrow> nat" where
  "work cfg s =
     sum_list (map (worker_weight cfg) (sm_workers s)) + sum_list (map (proc_weight cfg) (sm_procs s)) +
     state_weight cfg (rm_state s) + length (rm_pending s) * (request_cost cfg + 1) +
     (total_requests cfg - sm_arrived s) * (request_cost cfg + 2)"

lemma aw_ge: "l < num_layers cfg \<Longrightarrow> aw cfg l = routing_top_k cfg * rw cfg l + 8"
proof -
  assume "l < num_layers cfg"
  then have "num_layers cfg - l = Suc (num_layers cfg - l - 1)" by simp
  then show ?thesis unfolding aw_def rw_def by (metis att_weight.simps(2))
qed

lemma rw_aw: "rw cfg l = aw cfg (Suc l) + 9"
  by (simp add: aw_def rw_def)

lemma sum_list_update_nat:
  fixes f :: "'a \<Rightarrow> nat"
  assumes "i < length xs"
  shows "sum_list (map f (xs[i := v])) + f (xs ! i) = sum_list (map f xs) + f v"
  using assms
proof (induction xs arbitrary: i)
  case (Cons x xs)
  then show ?case by (cases i) auto
qed simp

lemma queue_weight_update:
  assumes "l < length qs"
  shows "queue_weight cfg (qs[l := lq]) + (rw cfg l - 2) * layer_total (qs ! l)
    = queue_weight cfg qs + (rw cfg l - 2) * layer_total lq"
proof -
  have "queue_weight cfg (qs[l := lq]) = (rw cfg l - 2) * layer_total lq
      + (\<Sum>i\<in>{..<length qs} - {l}. (rw cfg i - 2) * layer_total (qs ! i))"
    using assms by (simp add: queue_weight_def sum.remove [of _ l])
  moreover have "queue_weight cfg qs = (rw cfg l - 2) * layer_total (qs ! l)
      + (\<Sum>i\<in>{..<length qs} - {l}. (rw cfg i - 2) * layer_total (qs ! i))"
    using assms by (simp add: queue_weight_def sum.remove [of _ l])
  ultimately show ?thesis by simp
qed

text \<open>Enqueuing adds the weight of the item, and at most one for the wake-up.\<close>

lemma phase_weight_wake: "phase_weight cfg (wake b w) \<le> phase_weight cfg w + 1"
  by (auto simp: phase_weight_def wake_def split: phase.split)

lemma w_enqueue_attention_weight: "worker_weight cfg (w_enqueue_attention l t w) \<le> worker_weight cfg w + aw cfg l + 1"
proof -
  let ?w = "w\<lparr>w_attn := w_attn w @ [(l, t)]\<rparr>"
  have "phase_weight cfg ?w = phase_weight cfg w" by (simp add: phase_weight_def cong: phase.case_cong)
  then show ?thesis
    using phase_weight_wake [of cfg "w_was_empty w" ?w] by (simp add: worker_weight_def w_enqueue_attention_def Let_def)
qed

lemma w_enqueue_weight:
  assumes "w_enqueue l j t w = Inr w'"
  shows "worker_weight cfg w' \<le> worker_weight cfg w + rw cfg l - 1"
proof -
  define lq where "lq = w_queues w ! l"
  have lj: "l < length (w_queues w)" "j < length lq" and w': "w' = wake (w_was_empty w)
      (w\<lparr>w_queues := (w_queues w)[l := lq[j := lq ! j @ [t]]], w_total := w_total w + 1\<rparr>)"
    using assms by (auto simp: w_enqueue_def Let_def lq_def split: if_splits)
  let ?w = "w\<lparr>w_queues := (w_queues w)[l := lq[j := lq ! j @ [t]]], w_total := w_total w + 1\<rparr>"
  have "layer_total (lq[j := lq ! j @ [t]]) = layer_total lq + 1"
    using sum_list_update_nat [OF lj(2), of length "lq ! j @ [t]"] by (simp add: layer_total_def)
  then have "queue_weight cfg (w_queues ?w) = queue_weight cfg (w_queues w) + (rw cfg l - 2)"
    using queue_weight_update [OF lj(1), of cfg "lq[j := lq ! j @ [t]]"] by (simp add: lq_def [symmetric])
  moreover have "phase_weight cfg ?w = phase_weight cfg w" by (simp add: phase_weight_def cong: phase.case_cong)
  moreover have "9 \<le> rw cfg l" by (simp add: rw_def)
  ultimately show ?thesis
    using phase_weight_wake [of cfg "w_was_empty w" ?w] by (simp add: worker_weight_def w')
qed

lemma set_worker_weight:
  "i < length (sm_workers s) \<Longrightarrow>
   work cfg (set_worker i w s) + worker_weight cfg (sm_workers s ! i) = work cfg s + worker_weight cfg w"
  using sum_list_update_nat [of i "sm_workers s" "worker_weight cfg" w]
  by (simp add: work_def set_worker_def)

lemma attn_enqueue_work:
  assumes "attn_enqueue l t s = Inr s'"
  shows "work cfg s' \<le> work cfg s + aw cfg l + 1"
proof -
  have i: "tk_home_gpu t < length (sm_workers s)"
    and s': "s' = set_worker (tk_home_gpu t) (w_enqueue_attention l t (sm_workers s ! tk_home_gpu t)) s"
    using assms by (auto simp: attn_enqueue_def set_worker_def split: if_splits)
  show ?thesis
    using set_worker_weight [OF i, of cfg "w_enqueue_attention l t (sm_workers s ! tk_home_gpu t)"]
      w_enqueue_attention_weight [of cfg l t "sm_workers s ! tk_home_gpu t"] unfolding s' by linarith
qed

lemma send_copies_work:
  "foldR (send_copy l t) routes s = Inr s' \<Longrightarrow> work cfg s' \<le> work cfg s + length routes * (rw cfg l - 1)"
proof (induction routes arbitrary: s)
  case (Cons r routes)
  then obtain s1 where s1: "send_copy l t r s = Inr s1" "foldR (send_copy l t) routes s1 = Inr s'" by (auto simp: res)
  then obtain w where i: "fst r < length (sm_workers s)" and w: "w_enqueue l (snd r) t (sm_workers s ! fst r) = Inr w"
    and e: "s1 = set_worker (fst r) w s"
    by (auto simp: send_copy_def set_worker_def res split: if_splits)
  have "9 \<le> rw cfg l" by (simp add: rw_def)
  then have "work cfg s1 \<le> work cfg s + (rw cfg l - 1)"
    using set_worker_weight [OF i, of cfg w] w_enqueue_weight [OF w, of cfg] unfolding e by linarith
  then show ?case using Cons.IH [OF s1(2)] by simp
qed simp

text \<open>The request manager: starting a request costs its tokens, sending one pays for it.\<close>

lemma state_weight_update:
  assumes "map_of st r = Some i" and "distinct (map fst st)"
  shows "state_weight cfg (AList.update r j st) + (tokens_per_request cfg - i) * token_cost cfg
    = state_weight cfg st + (tokens_per_request cfg - j) * token_cost cfg"
  using assms
proof (induction st)
  case (Cons p st)
  obtain a b where p: "p = (a, b)" by (cases p)
  show ?case
  proof (cases "a = r")
    case True
    then show ?thesis using Cons.prems p by (simp add: state_weight_def)
  next
    case False
    then show ?thesis using Cons p by (simp add: state_weight_def)
  qed
qed simp

lemma state_weight_new:
  "map_of st r = None \<Longrightarrow> state_weight cfg (AList.update r j st)
    = state_weight cfg st + (tokens_per_request cfg - j) * token_cost cfg"
  by (induction st) (auto simp: state_weight_def split: if_splits)

lemma dispatch_work:
  assumes "dispatch_next_token cfg r s = Inr s'" and "rm_first_attention s = Some 0" and "distinct (map fst (rm_state s))"
  shows "work cfg s' \<le> work cfg s"
proof -
  obtain i where i: "map_of (rm_state s) r = Some i"
    using assms(1,2) by (auto simp: dispatch_next_token_def res)
  show ?thesis
  proof (cases "tokens_per_request cfg \<le> i")
    case True
    then have "s' = s" using assms(1,2) i by (simp add: dispatch_next_token_def)
    then show ?thesis by simp
  next
    case False
    then obtain t where t: "attn_enqueue 0 t (s\<lparr>rm_next_tid := rm_next_tid s + 1,
          rm_state := AList.update r (i + 1) (rm_state s)\<rparr>) = Inr s'"
      using assms(1,2) i by (auto simp: dispatch_next_token_def res Let_def)
    have "state_weight cfg (AList.update r (i + 1) (rm_state s)) + token_cost cfg = state_weight cfg (rm_state s)"
    proof -
      have "tokens_per_request cfg - i = Suc (tokens_per_request cfg - (i + 1))" using False by simp
      then show ?thesis using state_weight_update [OF i assms(3), of cfg "i + 1"] by simp
    qed
    then show ?thesis using attn_enqueue_work [OF t, of cfg] by (simp add: work_def token_cost_def)
  qed
qed

lemma start_request_work:
  assumes "start_request_now cfg r a s = Inr s'" and "rm_first_attention s = Some 0" and "distinct (map fst (rm_state s))"
  shows "work cfg s' \<le> work cfg s + request_cost cfg"
proof -
  define s1 where "s1 = s\<lparr>rm_state := AList.update r 0 (rm_state s), rm_start := (rm_start s)(r \<mapsto> a),
      rm_home := (rm_home s)(r \<mapsto> rm_next_home s mod max 1 (attn_dp cfg)), rm_next_home := rm_next_home s + 1\<rparr>"
  have no: "map_of (rm_state s) r = None" and d: "dispatch_next_token cfg r s1 = Inr s'"
    using assms(1) by (auto simp: start_request_now_def s1_def d_has_iff split: if_splits)
  have "work cfg s' \<le> work cfg s1"
    by (rule dispatch_work [OF d]) (use assms(2,3) in \<open>simp_all add: s1_def distinct_update\<close>)
  also have "work cfg s1 = work cfg s + request_cost cfg"
    using state_weight_new [OF no, of cfg 0] by (simp add: work_def s1_def request_cost_def)
  finally show ?thesis .
qed

definition table_ok :: "sim \<Rightarrow> bool" where
  "table_ok s \<longleftrightarrow> rm_first_attention s = Some 0 \<and> distinct (map fst (rm_state s))"

lemma dispatch_table:
  "dispatch_next_token cfg r s = Inr s' \<Longrightarrow> table_ok s \<Longrightarrow> table_ok s' \<and> rm_pending s' = rm_pending s"
  by (auto simp: dispatch_next_token_def attn_enqueue_def res Let_def table_ok_def distinct_update split: if_splits)

lemma start_request_table:
  "start_request_now cfg r a s = Inr s' \<Longrightarrow> table_ok s \<Longrightarrow> table_ok s' \<and> rm_pending s' = rm_pending s"
  by (auto simp: start_request_now_def table_ok_def distinct_update split: if_splits dest!: dispatch_table)

lemma admit_queued_work:
  assumes "table_ok s" and "rm_pending s = q" and "admit_queued cfg q s = Inr s'"
  shows "work cfg s' \<le> work cfg s"
  using assms
proof (induction q arbitrary: s)
  case (Cons p q)
  obtain r a where p: "p = (r, a)" by (cases p)
  show ?case
  proof (cases "below_limit cfg s")
    case False
    then show ?thesis using Cons.prems p by simp
  next
    case True
    let ?s = "s\<lparr>rm_pending := q\<rparr>"
    obtain s1 where s1: "start_request_now cfg r a ?s = Inr s1" "admit_queued cfg q s1 = Inr s'"
      using Cons.prems(3) True p by (auto simp: res)
    have tab: "table_ok ?s" using Cons.prems(1) by (simp add: table_ok_def)
    have "work cfg s' \<le> work cfg s1"
      using Cons.IH [OF _ _ s1(2)] start_request_table [OF s1(1) tab] by simp
    also have "\<dots> \<le> work cfg ?s + request_cost cfg"
      by (rule start_request_work [OF s1(1)]) (use tab in \<open>simp_all add: table_ok_def\<close>)
    also have "\<dots> \<le> work cfg s" using Cons.prems(2) by (simp add: work_def)
    finally show ?thesis .
  qed
qed simp

lemma state_weight_delete: "state_weight cfg (AList.delete r st) \<le> state_weight cfg st"
  by (induction st) (auto simp: state_weight_def)

lemma token_completion_work:
  assumes "handle_token_completion cfg t x s = Inr s'" and "table_ok s"
  shows "work cfg s' \<le> work cfg s"
proof -
  define s1 where "s1 = record_completion t x s"
  have s1: "work cfg s1 = work cfg s" "table_ok s1" using assms(2) by (simp_all add: s1_def record_completion_def work_def table_ok_def)
  show ?thesis
  proof (cases "tk_token_index t + 1 < tokens_per_request cfg")
    case True
    then have "dispatch_next_token cfg (tk_request_id t) s1 = Inr s'"
      using assms(1) by (auto simp: handle_token_completion_def Let_def s1_def split: if_splits)
    then have "work cfg s' \<le> work cfg s1"
      by (rule dispatch_work) (use s1(2) in \<open>simp_all add: table_ok_def\<close>)
    then show ?thesis using s1(1) by simp
  next
    case False
    define s2 where "s2 = s1\<lparr>rm_state := AList.delete (tk_request_id t) (rm_state s1), rm_start := (rm_start s1)(tk_request_id t := None),
        rm_home := (rm_home s1)(tk_request_id t := None), sm_latencies := sm_latencies s1 @ [(tk_request_id t,
          x - (case rm_start s1 (tk_request_id t) of None \<Rightarrow> tk_birth_time t | Some y \<Rightarrow> y))]\<rparr>"
    have a: "admit_queued cfg (rm_pending s2) s2 = Inr s'"
      using assms(1) False
      by (auto simp: handle_token_completion_def Let_def s1_def s2_def maybe_admit_queued_requests_def split: if_splits)
    have "table_ok s2" using s1(2) by (simp add: s2_def table_ok_def distinct_delete)
    then have "work cfg s' \<le> work cfg s2" using admit_queued_work [OF _ refl a] by simp
    also have "\<dots> \<le> work cfg s1" using state_weight_delete [of cfg "tk_request_id t" "rm_state s1"] by (simp add: work_def s2_def)
    finally show ?thesis using s1(1) by simp
  qed
qed

lemma work_other [simp]:
  "work cfg (s\<lparr>sm_final_counts := a\<rparr>) = work cfg s" "work cfg (s\<lparr>sm_pending_counts := b\<rparr>) = work cfg s"
  "work cfg (s\<lparr>sm_pending_tokens := c\<rparr>) = work cfg s" "work cfg (s\<lparr>sm_fanout := d\<rparr>) = work cfg s"
  "work cfg (s\<lparr>sm_total_batch_size := e\<rparr>) = work cfg s" "work cfg (s\<lparr>sm_total_batches := e\<rparr>) = work cfg s"
  "work cfg (s\<lparr>sm_now := f\<rparr>) = work cfg s"
  by (simp_all add: work_def)

lemma deliver_work:
  assumes "deliver cfg l t s = Inr s'" and "table_ok s"
  shows "work cfg s' \<le> work cfg s + (rw cfg l - 8)"
proof (cases "l = num_layers cfg - 1")
  case True
  then have d: "final_record_completion cfg t (sm_now s) s = Inr s'" using assms(1) by (simp add: deliver_def)
  let ?s = "\<lambda>c. s\<lparr>sm_final_counts := (sm_final_counts s)(tk_tid t := c)\<rparr>"
  have tab: "table_ok (?s c)" for c using assms(2) by (simp add: table_ok_def)
  have "s' = ?s (sm_final_counts s (tk_tid t) + 1) \<or> handle_token_completion cfg t (sm_now s) (?s 0) = Inr s'"
    using d by (auto simp: final_record_completion_def res Let_def split: if_splits)
  then have "work cfg s' \<le> work cfg s" using token_completion_work [OF _ tab] by auto
  then show ?thesis by simp
next
  case False
  then have d: "notify_expert_completion (l + 1) t s = Inr s'"
    using assms(1) by (simp add: deliver_def split: if_splits)
  let ?t = "case sm_pending_tokens s (l + 1) (tk_tid t) of None \<Rightarrow> t | Some t' \<Rightarrow> t'"
  let ?s = "s\<lparr>sm_pending_counts := upd2 (sm_pending_counts s) (l + 1) (tk_tid t) 0,
              sm_pending_tokens := upd2 (sm_pending_tokens s) (l + 1) (tk_tid t) None\<rparr>"
  have "work cfg s' = work cfg s \<or> attn_enqueue (l + 1) ?t ?s = Inr s'"
    using d by (auto simp: notify_expert_completion_def res Let_def split: if_splits)
  then have "work cfg s' \<le> work cfg s + aw cfg (l + 1) + 1"
    using attn_enqueue_work [of "l + 1" ?t ?s s' cfg] by auto
  then show ?thesis by (simp add: rw_aw)
qed

lemma attn_enqueue_table: "attn_enqueue l t s = Inr s' \<Longrightarrow> table_ok s \<Longrightarrow> table_ok s'"
  by (auto simp: attn_enqueue_def table_ok_def split: if_splits)

lemma admit_queued_table: "admit_queued cfg q s = Inr s' \<Longrightarrow> table_ok s \<Longrightarrow> table_ok s'"
proof (induction q arbitrary: s)
  case (Cons p q)
  then show ?case
    by (cases p) (auto simp: res table_ok_def split: if_splits dest!: start_request_table [unfolded table_ok_def])
qed simp

lemma deliver_table:
  assumes "deliver cfg l t s = Inr s'" and "table_ok s"
  shows "table_ok s'"
proof -
  have upd: "table_ok (s\<lparr>sm_final_counts := a\<rparr>)" "table_ok (s\<lparr>sm_pending_counts := b, sm_pending_tokens := c\<rparr>)" for a b c
    using assms(2) by (simp_all add: table_ok_def)
  have h: "table_ok s'" if "handle_token_completion cfg t x s1 = Inr s'" "table_ok s1" for x s1
    using that
    by (auto simp: handle_token_completion_def Let_def record_completion_def maybe_admit_queued_requests_def
        table_ok_def distinct_delete split: if_splits
        dest!: dispatch_table [unfolded table_ok_def] admit_queued_table [unfolded table_ok_def])
  show ?thesis
    using assms(1) upd
    by (auto simp: deliver_def final_record_completion_def notify_expert_completion_def res Let_def
        split: if_splits intro: h attn_enqueue_table)
qed

lemma deliver_all_work:
  "foldR (deliver cfg l) b s = Inr s' \<Longrightarrow> table_ok s \<Longrightarrow> work cfg s' \<le> work cfg s + length b * (rw cfg l - 8)"
proof (induction b arbitrary: s)
  case (Cons t b)
  then obtain s1 where s1: "deliver cfg l t s = Inr s1" "foldR (deliver cfg l) b s1 = Inr s'" by (auto simp: res)
  show ?case
    using Cons.IH [OF s1(2) deliver_table [OF s1(1) Cons.prems(2)]] deliver_work [OF s1(1) Cons.prems(2)] by simp
qed simp

section \<open>Every event uses up work\<close>

text \<open>A row that the router returns has at most \<open>top_k\<close> ids.\<close>

definition top_k_ids :: "sim_config \<Rightarrow> bool" where
  "top_k_ids cfg \<longleftrightarrow> (\<forall>ids toks l. case route_ids cfg ids toks l of
     Inl err \<Rightarrow> True | Inr rows \<Rightarrow> \<forall>row\<in>set rows. length row \<le> routing_top_k cfg)"

lemma top_k_row:
  "top_k_ids cfg \<Longrightarrow> route_token cfg l t = Inr ids \<Longrightarrow> length ids \<le> routing_top_k cfg"
proof -
  assume top: "top_k_ids cfg" and ids: "route_token cfg l t = Inr ids"
  then obtain rows row where rows: "router_call cfg l t = Inr rows" and row: "py_get rows 0 = Inr row"
    and len: "length ids \<le> length row"
    by (auto simp: route_token_def res Let_def split: if_splits)
  have "row \<in> set rows" using row by (auto simp: py_get_def split: option.splits dest!: py_pos_bound)
  moreover have "case router_call cfg l t of Inl err \<Rightarrow> True | Inr rows \<Rightarrow> \<forall>row\<in>set rows. length row \<le> routing_top_k cfg"
    using top unfolding top_k_ids_def router_call_def by blast
  ultimately show ?thesis using rows len by fastforce
qed

lemma sim_inv_table: "sim_inv cfg h s \<Longrightarrow> table_ok s"
  by (auto simp: sim_inv_def req_inv_def base_ok_def book_def table_ok_def)

lemma sim_inv_att_layer: "sim_inv cfg h s \<Longrightarrow> (l, t) \<in># atts s \<Longrightarrow> l < num_layers cfg"
  unfolding sim_inv_def req_inv_def sim_core_def by (metis core_att_member core_token(2))

lemma sum_list_member: "i < length xs \<Longrightarrow> x \<in># f (xs ! i) \<Longrightarrow> x \<in># sum_list (map f xs)"
proof (induction xs arbitrary: i)
  case (Cons y ys)
  then show ?case by (cases i) auto
qed simp

lemma arrive_work:
  assumes "sim_inv cfg h s" and "sm_arrived s < total_requests cfg"
    and "admit_request cfg (sm_arrived s) t (s\<lparr>sm_arrived := sm_arrived s + 1\<rparr>) = Inr s'"
  shows "work cfg s' < work cfg s"
proof -
  let ?s = "s\<lparr>sm_arrived := sm_arrived s + 1\<rparr>"
  have "total_requests cfg - sm_arrived s = Suc (total_requests cfg - (sm_arrived s + 1))" using assms(2) by simp
  then have a: "work cfg s = work cfg ?s + request_cost cfg + 2" by (simp add: work_def)
  have tab: "table_ok ?s" using sim_inv_table [OF assms(1)] by (simp add: table_ok_def)
  show ?thesis
  proof (cases "below_limit cfg ?s")
    case True
    then have "start_request_now cfg (sm_arrived s) t ?s = Inr s'" using assms(3) by (simp add: admit_request_def)
    then have "work cfg s' \<le> work cfg ?s + request_cost cfg"
      by (rule start_request_work) (use tab in \<open>simp_all add: table_ok_def\<close>)
    then show ?thesis using a by simp
  next
    case False
    then have "s' = ?s\<lparr>rm_pending := rm_pending ?s @ [(sm_arrived s, t)]\<rparr>"
      using assms(3) by (auto simp: admit_request_def)
    then have "work cfg s' = work cfg ?s + (request_cost cfg + 1)" by (simp add: work_def)
    then show ?thesis using a by simp
  qed
qed

lemma loop_top_work:
  assumes cfg: "cfg_ok cfg" and inv: "sim_inv cfg {#} s" and i: "i < length (sm_workers s)"
    and ph: "w_phase (sm_workers s ! i) = Ready \<or>
      w_phase (sm_workers s ! i) = Sleeping \<and> w_has_work (sm_workers s ! i)"
    and e: "loop_top cfg i s = Inr s'"
  shows "work cfg s' < work cfg s"
proof -
  let ?w = "sm_workers s ! i"
  have w: "worker_ok cfg ?w" by (rule sim_inv_nth [OF inv i])
  have p1: "phase_weight cfg ?w = 1" using ph by (auto simp: phase_weight_def)
  show ?thesis
  proof (cases "w_phase ?w = Ready \<and> w_was_empty ?w")
    case True
    let ?w' = "?w\<lparr>w_has_work := False, w_phase := Sleeping\<rparr>"
    have "s' = set_worker i ?w' s" using e True by (auto simp: loop_top_def Let_def)
    moreover have "worker_weight cfg ?w = worker_weight cfg ?w' + 1"
      using p1 by (simp add: worker_weight_def) (simp add: phase_weight_def)
    ultimately show ?thesis using set_worker_weight [OF i, of cfg ?w'] by simp
  next
    case False
    have work: "\<not> w_was_empty ?w" using False ph w by (auto simp: worker_ok_def)
    have B: "0 < max_batch cfg" "\<forall>n\<in>{1..max_batch cfg}. compute_time cfg (int n) \<noteq> None"
      using cfg unfolding cfg_ok_def by blast+
    have fin: "work cfg s' < work cfg s"
      if p: "w_pick cfg ?w = Inr (n, w')" and d: "worker_weight cfg w' < worker_weight cfg ?w" for n w'
    proof -
      have "work cfg s' = work cfg (set_worker i w' s)" using e p False by (auto simp: loop_top_def Let_def)
      then show ?thesis using set_worker_weight [OF i, of cfg w'] d by simp
    qed
    from w work B show ?thesis
    proof (cases rule: w_pick_cases)
      case (attention l t ts)
      have "(l, t) \<in># worker_attns ?w" using attention(1) by (simp add: worker_attns_def)
      then have "(l, t) \<in># atts s" using sum_list_member [OF i, of _ worker_attns] by (simp add: atts_def)
      then have "8 \<le> aw cfg l" using aw_ge sim_inv_att_layer [OF inv] by simp
      then have "worker_weight cfg (picks_attention ?w l t ts) < worker_weight cfg ?w"
        using attention(1) p1 by (simp add: worker_weight_def picks_attention_def) (simp add: phase_weight_def)
      then show ?thesis by (rule fin [OF attention(2)])
    next
      case (expert l b rest)
      have "layer_total (w_queues ?w ! l) = layer_total rest + length b"
      proof -
        have "mset (concat (w_queues ?w ! l)) = mset (concat rest) + mset b"
          using form_batch_mset [of "w_queues ?w ! l" "max_batch cfg"] expert(2) by simp
        then have "size (mset (concat (w_queues ?w ! l))) = size (mset (concat rest)) + size (mset b)" by simp
        then show ?thesis by (simp add: layer_total_def length_concat)
      qed
      then have q: "queue_weight cfg (w_queues ?w)
          = queue_weight cfg ((w_queues ?w)[l := rest]) + (rw cfg l - 2) * length b"
        using queue_weight_update [OF expert(1), of cfg rest] by (simp add: distrib_left)
      have "length b * (rw cfg l - 4) \<le> (rw cfg l - 2) * length b"
        by (simp add: mult.commute rw_def)
      moreover have "worker_weight cfg (picks_batch ?w l b rest)
          = sum_list (map (\<lambda>(l, t). aw cfg l) (w_attn ?w)) + queue_weight cfg ((w_queues ?w)[l := rest])
            + length b * (rw cfg l - 4)"
        by (simp add: worker_weight_def picks_batch_def) (simp add: phase_weight_def)
      moreover have "worker_weight cfg ?w
          = sum_list (map (\<lambda>(l, t). aw cfg l) (w_attn ?w)) + queue_weight cfg (w_queues ?w) + 1"
        using p1 by (simp add: worker_weight_def)
      ultimately have "worker_weight cfg (picks_batch ?w l b rest) < worker_weight cfg ?w"
        using q by linarith
      then show ?thesis by (rule fin [OF expert(5)])
    qed
  qed
qed

lemma attn_done_work:
  assumes "i < length (sm_workers s)" and ph: "w_phase (sm_workers s ! i) = AttnBusy l t" and "8 \<le> aw cfg l"
  shows "work cfg ((set_worker i ((sm_workers s ! i)\<lparr>w_inflight_attn := False, w_phase := Ready\<rparr>) s)
    \<lparr>sm_procs := sm_procs s @ [Spawned l t]\<rparr>) < work cfg s"
proof -
  let ?w = "sm_workers s ! i" and ?w' = "(sm_workers s ! i)\<lparr>w_inflight_attn := False, w_phase := Ready\<rparr>"
  have "worker_weight cfg ?w = worker_weight cfg ?w' + (aw cfg l - 3)"
    using assms(3) ph by (simp add: worker_weight_def phase_weight_def)
  then have "work cfg (set_worker i ?w' s) + (aw cfg l - 3) = work cfg s"
    using set_worker_weight [OF assms(1), of cfg ?w'] by simp
  moreover have "work cfg ((set_worker i ?w' s)\<lparr>sm_procs := sm_procs s @ [Spawned l t]\<rparr>)
      = work cfg (set_worker i ?w' s) + (aw cfg l - 4)"
    by (simp add: work_def set_worker_def proc_weight_def)
  ultimately show ?thesis using assms(3) by simp
qed

lemma exec_work:
  assumes cfg: "cfg_ok cfg" and top: "top_k_ids cfg" and inv: "sim_inv cfg {#} s"
    and e: "exec cfg e s = Some (Inr s')" and tick: "\<not> is_tick e"
  shows "work cfg s' < work cfg s"
proof (cases e)
  case (Tick d)
  then show ?thesis using tick by (simp add: is_tick_def)
next
  case Arrive
  then show ?thesis using e arrive_work [OF inv] by (auto split: if_splits)
next
  case (Pick i)
  then show ?thesis using e loop_top_work [OF cfg inv, of i s'] by (auto split: if_splits phase.splits)
next
  case (AttnDone i)
  then obtain l t where i: "i < length (sm_workers s)" and ph: "w_phase (sm_workers s ! i) = AttnBusy l t"
    and s': "s' = (set_worker i ((sm_workers s ! i)\<lparr>w_inflight_attn := False, w_phase := Ready\<rparr>) s)
    \<lparr>sm_procs := sm_procs s @ [Spawned l t]\<rparr>"
    using e by (auto split: if_splits phase.splits)
  have "(l, t) \<in># worker_attns (sm_workers s ! i)" by (simp add: worker_attns_def ph)
  then have "(l, t) \<in># atts s" using sum_list_member [OF i, of _ worker_attns] by (simp add: atts_def)
  then show ?thesis using attn_done_work [OF i ph] aw_ge sim_inv_att_layer [OF inv] s' by simp
next
  case (ComputeDone i)
  then obtain l b where i: "i < length (sm_workers s)" and ph: "w_phase (sm_workers s ! i) = Computing l b"
    and s': "s' = set_worker i ((sm_workers s ! i)\<lparr>w_phase := Returning l b\<rparr>) s"
    using e by (auto split: if_splits phase.splits)
  have b: "b \<noteq> []" using sim_inv_nth [OF inv i] ph by (simp add: worker_ok_def)
  have "length b * (rw cfg l - 6) < length b * (rw cfg l - 4)" using b by (simp add: rw_def)
  then have "worker_weight cfg ((sm_workers s ! i)\<lparr>w_phase := Returning l b\<rparr>) < worker_weight cfg (sm_workers s ! i)"
    using ph by (simp add: worker_weight_def phase_weight_def)
  then show ?thesis using set_worker_weight [OF i, of cfg "(sm_workers s ! i)\<lparr>w_phase := Returning l b\<rparr>"] s' by simp
next
  case (ReturnDone i)
  then obtain l b where i: "i < length (sm_workers s)" and ph: "w_phase (sm_workers s ! i) = Returning l b"
    and d: "foldR (deliver cfg l) b
      (set_worker i ((sm_workers s ! i)\<lparr>w_inflight_batch := 0, w_phase := Ready\<rparr>) s) = Inr s'"
    using e by (auto split: if_splits phase.splits)
  let ?w' = "(sm_workers s ! i)\<lparr>w_inflight_batch := 0, w_phase := Ready\<rparr>"
  have b: "b \<noteq> []" using sim_inv_nth [OF inv i] ph by (simp add: worker_ok_def)
  have tab: "table_ok (set_worker i ?w' s)" using sim_inv_table [OF inv] by (simp add: table_ok_def set_worker_def)
  have "worker_weight cfg (sm_workers s ! i) + 1 = worker_weight cfg ?w' + length b * (rw cfg l - 6)"
    using ph by (simp add: worker_weight_def phase_weight_def)
  moreover have "length b * (rw cfg l - 8) + 2 \<le> length b * (rw cfg l - 6)"
  proof -
    have "rw cfg l - 6 = (rw cfg l - 8) + 2" by (simp add: rw_def)
    moreover have "1 \<le> length b" using b by (simp add: Suc_le_eq)
    ultimately show ?thesis by (simp add: distrib_left)
  qed
  ultimately show ?thesis
    using deliver_all_work [OF d tab] set_worker_weight [OF i, of cfg ?w'] by linarith
next
  case (RouteStart p)
  then obtain l t where p: "p < length (sm_procs s)" "sm_procs s ! p = Spawned l t"
    using e by (auto split: if_splits route_proc.splits)
  then obtain ids where ids: "route_token cfg l t = Inr ids"
    and s': "s' = s\<lparr>sm_fanout := upd2 (sm_fanout s) (tk_tid t) l (Some (length ids)),
        sm_procs := (sm_procs s)[p := Sending l t
          (map (\<lambda>e. (e div queues_per_worker cfg, e mod queues_per_worker cfg)) ids)]\<rparr>"
    using e RouteStart by (auto simp: route_and_dispatch_def res split: if_splits)
  define routes where "routes = map (\<lambda>e. (e div queues_per_worker cfg, e mod queues_per_worker cfg)) ids"
  have len: "length routes = length ids" by (simp add: routes_def)
  have "length ids \<le> routing_top_k cfg" by (rule top_k_row [OF top ids])
  then have "length routes * rw cfg l \<le> routing_top_k cfg * rw cfg l" using len by simp
  moreover have "(l, t) \<in># atts s"
    using sum_list_member [OF p(1), of "(l, t)" proc_attns] p(2) by (simp add: atts_def proc_attns_def)
  then have "aw cfg l = routing_top_k cfg * rw cfg l + 8" using aw_ge sim_inv_att_layer [OF inv] by blast
  moreover have "proc_weight cfg (Sending l t routes) = length routes * rw cfg l"
    "proc_weight cfg (sm_procs s ! p) = aw cfg l - 4" using p(2) by (simp_all add: proc_weight_def)
  ultimately have "proc_weight cfg (Sending l t routes) < proc_weight cfg (sm_procs s ! p)" by linarith
  then show ?thesis
    using sum_list_update_nat [OF p(1), of "proc_weight cfg" "Sending l t routes"] s'
    by (simp add: work_def routes_def)
next
  case (RouteDone p)
  then obtain l t routes where p: "p < length (sm_procs s)" "sm_procs s ! p = Sending l t routes"
    and d: "foldR (send_copy l t) routes (s\<lparr>sm_procs := drop_nth p (sm_procs s)\<rparr>) = Inr s'"
    using e by (auto split: if_splits route_proc.splits)
  have "proc_ok cfg (Sending l t routes)" using sim_inv_base [OF inv] p nth_mem by (fastforce simp: base_ok_def)
  then have "routes \<noteq> []" by (simp add: proc_ok_def)
  then have "length routes * (rw cfg l - 1) < length routes * rw cfg l" by (simp add: rw_def)
  moreover have "work cfg s = work cfg (s\<lparr>sm_procs := drop_nth p (sm_procs s)\<rparr>) + length routes * rw cfg l"
    using sum_list_map_drop_nth [OF p(1), of "proc_weight cfg"] p(2) by (simp add: work_def proc_weight_def)
  ultimately show ?thesis using send_copies_work [OF d, of cfg] by linarith
qed

lemma tick_work: "exec cfg (Tick d) s = Some (Inr s') \<Longrightarrow> work cfg s' = work cfg s"
  by (auto split: if_splits)

text \<open>
  C9: The asynchronous simulator terminates: in any execution from any reachable state, in
  whatever order the events happen, the number of events other than the passing of time is
  at most the computed amount of work left.
\<close>

theorem sim_async_terminates:
  assumes cfg: "cfg_ok cfg" and top: "top_k_ids cfg"
  shows "reachable cfg s \<Longrightarrow> run_events cfg es s = Some (Inr s') \<Longrightarrow>
    length (filter (\<lambda>e. \<not> is_tick e) es) + work cfg s' \<le> work cfg s"
proof (induction es arbitrary: s)
  case (Cons e es)
  then obtain s1 where s1: "exec cfg e s = Some (Inr s1)" "run_events cfg es s1 = Some (Inr s')"
    by (auto split: option.splits sum.splits)
  have IH: "length (filter (\<lambda>e. \<not> is_tick e) es) + work cfg s' \<le> work cfg s1"
    using Cons.IH [OF reach_step [OF Cons.prems(1) sim_stepI [OF s1(1)]] s1(2)] .
  show ?case
  proof (cases "is_tick e")
    case True
    then obtain d where "e = Tick d" by (auto simp: is_tick_def split: event.splits)
    then show ?thesis using IH True tick_work s1(1) by simp
  next
    case False
    then show ?thesis using IH exec_work [OF cfg top reachable_inv [OF cfg Cons.prems(1)] s1(1) False] by simp
  qed
qed simp

lemma small_top_k: "top_k_ids (small_cfg\<lparr>routing_top_k := 3\<rparr>)"
  by (simp add: top_k_ids_def small_cfg_def)

theorem sim_async_terminates_witness:
  "length (filter (\<lambda>e. \<not> is_tick e) small_events)
     + work (small_cfg\<lparr>routing_top_k := 3\<rparr>) (projr (the (run_events (small_cfg\<lparr>routing_top_k := 3\<rparr>) small_events
         (projr (run_init (small_cfg\<lparr>routing_top_k := 3\<rparr>))))))
   \<le> work (small_cfg\<lparr>routing_top_k := 3\<rparr>) (projr (run_init (small_cfg\<lparr>routing_top_k := 3\<rparr>)))"
proof -
  let ?cfg = "small_cfg\<lparr>routing_top_k := 3\<rparr>"
  have cfg: "cfg_ok ?cfg" by (simp add: cfg_ok_def small_cfg_def)
  have "run_init ?cfg = Inr (projr (run_init ?cfg))" using cfg_ok_run_init [OF cfg] by auto
  then have r: "reachable ?cfg (projr (run_init ?cfg))" by (rule reach_init)
  have "run_ok (run_events ?cfg small_events (projr (run_init ?cfg)))" by code_simp
  then have "run_events ?cfg small_events (projr (run_init ?cfg))
      = Some (Inr (projr (the (run_events ?cfg small_events (projr (run_init ?cfg))))))"
    by (auto simp: run_ok_def split: option.splits sum.splits)
  then show ?thesis by (rule sim_async_terminates [OF cfg small_top_k r])
qed

text \<open>A complete execution of the small configuration, for the deadlock theorem.\<close>

definition full_events :: "event list" where
  "full_events = small_events @ [Pick 0, AttnDone 0, RouteStart 0, Pick 0, RouteDone 0, Pick 0, ComputeDone 0,
     ReturnDone 0, Pick 0, AttnDone 0, RouteStart 0, RouteDone 0, Pick 0, ComputeDone 0, ReturnDone 0, Pick 0]"

definition full_state :: sim where
  "full_state = projr (the (run_events small_cfg full_events (projr (run_init small_cfg))))"

definition is_quiet :: "sim_config \<Rightarrow> sim \<Rightarrow> bool" where
  "is_quiet cfg s \<longleftrightarrow>
     (exec cfg Arrive s = None) \<and>
     (\<forall>w\<in>set (sm_workers s). w_phase w = Sleeping \<and> \<not> w_has_work w) \<and> sm_procs s = []"

lemma is_quiet_no_event: "is_quiet cfg s \<Longrightarrow> \<not> is_tick e \<Longrightarrow> exec cfg e s = None"
  by (cases e) (auto simp: is_quiet_def is_tick_def)

theorem sim_async_deadlock_free_witness:
  "hist full_state 1 = [0..<1] \<and> length (sm_latencies full_state) = 2"
proof -
  have ok: "run_ok (run_events small_cfg full_events (projr (run_init small_cfg)))" by code_simp
  have "run_init small_cfg = Inr (projr (run_init small_cfg))"
    using cfg_ok_run_init [OF small_cfg_ok] by auto
  then have "reachable small_cfg (projr (run_init small_cfg))" by (rule reach_init)
  then have r: "reachable small_cfg full_state"
    using ok run_events_reachable unfolding full_state_def run_ok_def
    by (auto split: option.splits sum.splits)
  have "sm_arrived full_state = 2" "sm_procs full_state = []" "length (sm_workers full_state) = 1"
    "w_phase (sm_workers full_state ! 0) = Sleeping" "\<not> w_has_work (sm_workers full_state ! 0)"
    by code_simp+
  then have "is_quiet small_cfg full_state"
    by (auto simp: is_quiet_def in_set_conv_nth) (simp add: small_cfg_def)
  then have "\<nexists>e. \<not> is_tick e \<and> exec small_cfg e full_state \<noteq> None" using is_quiet_no_event by metis
  with sim_async_deadlock_free [OF small_cfg_ok r]
  have "(\<forall>r<total_requests small_cfg. hist full_state r = [0..<tokens_per_request small_cfg]) \<and>
    length (sm_latencies full_state) = total_requests small_cfg" by blast
  then show ?thesis by (simp add: small_cfg_def)
qed

end
