(* ===== verification/SimSync.thy ===== *)
theory SimSync
  imports SimUtil Dicts
begin

text \<open>
  The synchronous simulator (\<open>SyncMoESimulator\<close> of \<open>simulation/sim_sync.py\<close>): all active
  requests advance by one token per iteration, layer by layer.  The request objects are
  shared between four containers and updated in place: they live in the list \<open>y_requests\<close>
  and the containers hold their indices.  The router is a field of the configuration: its
  call, with the request ids of a layer in a Python list and their token indices in a tensor,
  returns a row of expert ids per token or raises (\<open>SimRouter\<close> gives the call of
  \<open>disagmoe/models/gate.py\<close>).  \<open>layer_fanout\<close> is written by this simulator but never read, and
  is left out, as are the progress bar and the callbacks.
\<close>

section \<open>State\<close>

record req_state =
  rq_arrival_time :: real
  rq_home_gpu :: "nat option"
  rq_next_token :: nat
  rq_completed :: bool

record sync_token =
  yt_tid :: nat
  yt_birth_time :: real
  yt_request_id :: nat
  yt_token_index :: nat
  yt_home_gpu :: nat

record sync_config =
  y_tokens_per_request :: nat
  y_num_layers :: nat
  y_total_experts :: nat
  y_ep :: nat
  y_max_batch :: nat
  y_attn_service_t :: real
  y_attn_dp :: nat
  y_net_a2e :: real
  y_net_e2a :: real
  y_net_delay :: "(nat \<Rightarrow> nat \<Rightarrow> nat \<Rightarrow> real) option"
  y_gpus_per_host :: "nat option"
  y_lookup :: "int \<Rightarrow> real option"
  y_router :: "id_arg \<Rightarrow> int list \<Rightarrow> nat \<Rightarrow> int list list result"
  y_global_max :: nat

record sync_sim =
  y_requests :: "req_state list"
  y_now :: real
  y_arrival_index :: nat
  y_waiting :: "nat list"
  y_active :: "nat list"
  y_next_tid :: nat
  y_next_home :: nat
  y_completion_times :: "(nat \<times> real) list"
  y_token_latencies :: "(nat \<times> real) list"
  y_request_latencies :: "real list"
  y_completed_tokens :: nat
  y_layer_runtimes :: "real list"
  y_wait_imbalances :: "real list"
  y_queue_stddevs :: "real list"
  y_batch_size :: nat
  y_batch_count :: nat

definition y_queues_per_worker :: "sync_config \<Rightarrow> nat" where
  "y_queues_per_worker cfg = y_total_experts cfg div y_ep cfg"

text \<open>The constructor clamps the limits to at least one.\<close>

definition sync_init :: "sync_config \<Rightarrow> real list \<Rightarrow> (sync_config \<times> sync_sim) result" where
  "sync_init cfg request_arrivals =
     (if y_ep cfg = 0 then Inl ZeroDivisionError
      else if y_total_experts cfg mod y_ep cfg \<noteq> 0 then Inl ValueError
      else Inr (cfg\<lparr>y_attn_dp := max 1 (y_attn_dp cfg),
                    y_gpus_per_host := map_option (max 1) (y_gpus_per_host cfg),
                    y_global_max := max 1 (y_global_max cfg)\<rparr>,
        \<lparr>y_requests = map (\<lambda>t. \<lparr>rq_arrival_time = t, rq_home_gpu = None, rq_next_token = 0,
              rq_completed = False\<rparr>) request_arrivals,
         y_now = 0, y_arrival_index = 0, y_waiting = [], y_active = [], y_next_tid = 0, y_next_home = 0,
         y_completion_times = [], y_token_latencies = [], y_request_latencies = [], y_completed_tokens = 0,
         y_layer_runtimes = [], y_wait_imbalances = [], y_queue_stddevs = [], y_batch_size = 0,
         y_batch_count = 0\<rparr>))"

definition total_reqs :: "sync_sim \<Rightarrow> nat" where
  "total_reqs s = length (y_requests s)"

definition expected_tokens :: "sync_config \<Rightarrow> sync_sim \<Rightarrow> nat" where
  "expected_tokens cfg s = total_reqs s * y_tokens_per_request cfg"

section \<open>The lifecycle of requests\<close>

function release_new_arrivals :: "sync_sim \<Rightarrow> sync_sim" where
  "release_new_arrivals s =
     (if y_arrival_index s < total_reqs s \<and> rq_arrival_time (y_requests s ! y_arrival_index s) \<le> y_now s
      then release_new_arrivals (s\<lparr>y_waiting := y_waiting s @ [y_arrival_index s],
             y_arrival_index := y_arrival_index s + 1\<rparr>)
      else s)"
  by pat_completeness auto
termination
  by (relation "measure (\<lambda>s. total_reqs s - y_arrival_index s)") (auto simp: total_reqs_def)

declare release_new_arrivals.simps [simp del]

definition advance_to_next_arrival :: "sync_sim \<Rightarrow> bool \<times> sync_sim" where
  "advance_to_next_arrival s =
     (if total_reqs s \<le> y_arrival_index s then (False, s)
      else let next_time = rq_arrival_time (y_requests s ! y_arrival_index s);
               s = (if y_now s < next_time then s\<lparr>y_now := next_time\<rparr> else s)
           in (True, release_new_arrivals s))"

text \<open>\<open>set_request\<close> writes the shared object.\<close>

definition set_request :: "nat \<Rightarrow> req_state \<Rightarrow> sync_sim \<Rightarrow> sync_sim" where
  "set_request r q s = s\<lparr>y_requests := (y_requests s)[r := q]\<rparr>"

fun fill_loop_sync :: "sync_config \<Rightarrow> nat list \<Rightarrow> sync_sim \<Rightarrow> sync_sim" where
  "fill_loop_sync cfg [] s = s"
| "fill_loop_sync cfg (c # rest) s =
     (if length (y_active s) < y_global_max cfg
      then let s = s\<lparr>y_waiting := rest\<rparr>; q = y_requests s ! c
           in if rq_completed q then fill_loop_sync cfg rest s
              else let s = (if rq_home_gpu q = None
                            then (set_request c (q\<lparr>rq_home_gpu := Some (y_next_home s mod y_attn_dp cfg)\<rparr>) s)
                                   \<lparr>y_next_home := y_next_home s + 1\<rparr>
                            else s)
                   in fill_loop_sync cfg rest (s\<lparr>y_active := y_active s @ [c]\<rparr>)
      else s)"

definition fill_active_requests :: "sync_config \<Rightarrow> sync_sim \<Rightarrow> sync_sim" where
  "fill_active_requests cfg s = fill_loop_sync cfg (y_waiting s) s"

definition spawn_step :: "sync_config \<Rightarrow> nat \<Rightarrow> sync_token list \<times> sync_sim \<Rightarrow> (sync_token list \<times> sync_sim) result" where
  "spawn_step cfg r acc =
     (let (tokens, s) = acc; q = y_requests s ! r
      in if rq_completed q \<or> y_tokens_per_request cfg \<le> rq_next_token q then Inr (tokens, s)
         else bindR (not_None RuntimeError (rq_home_gpu q)) (\<lambda>home_gpu.
           Inr (tokens @ [\<lparr>yt_tid = y_next_tid s, yt_birth_time = y_now s, yt_request_id = r,
                  yt_token_index = rq_next_token q, yt_home_gpu = home_gpu\<rparr>],
                s\<lparr>y_next_tid := y_next_tid s + 1\<rparr>)))"

definition spawn_tokens :: "sync_config \<Rightarrow> sync_sim \<Rightarrow> (sync_token list \<times> sync_sim) result" where
  "spawn_tokens cfg s = foldR (spawn_step cfg) (y_active s) ([], s)"

definition finalize_token :: "sync_config \<Rightarrow> real \<Rightarrow> sync_token \<Rightarrow> sync_sim \<Rightarrow> sync_sim" where
  "finalize_token cfg completion_time tok s =
     (let r = yt_request_id tok;
          s = s\<lparr>y_completion_times := y_completion_times s @ [(yt_tid tok, completion_time)],
                y_token_latencies := y_token_latencies s @ [(yt_tid tok, completion_time - yt_birth_time tok)],
                y_completed_tokens := y_completed_tokens s + 1\<rparr>;
          q = y_requests s ! r;
          q = q\<lparr>rq_next_token := rq_next_token q + 1\<rparr>
      in if y_tokens_per_request cfg \<le> rq_next_token q
         then (set_request r (q\<lparr>rq_completed := True\<rparr>) s)
                \<lparr>y_request_latencies := y_request_latencies s @ [completion_time - rq_arrival_time q]\<rparr>
         else set_request r q s)"

definition drop_completed :: "sync_sim \<Rightarrow> sync_sim" where
  "drop_completed s = s\<lparr>y_active := filter (\<lambda>r. \<not> rq_completed (y_requests s ! r)) (y_active s)\<rparr>"

definition finalize_iteration :: "sync_config \<Rightarrow> sync_token list \<Rightarrow> sync_sim \<Rightarrow> sync_sim" where
  "finalize_iteration cfg tokens s = drop_completed (fold (finalize_token cfg (y_now s)) tokens s)"

section \<open>One layer\<close>

definition y_is_same_host :: "sync_config \<Rightarrow> nat \<Rightarrow> nat \<Rightarrow> bool" where
  "y_is_same_host cfg gpu_a gpu_b =
     (case y_gpus_per_host cfg of None \<Rightarrow> True | Some n \<Rightarrow> gpu_a div n = gpu_b div n)"

text \<open>
  Where the tokens of a layer go: the length of each expert's queue, and for each
  destination worker how many copies come from each source GPU.
\<close>

type_synonym src_counts = "(nat, (nat, nat) dict) dict"

definition route_copy ::
  "sync_config \<Rightarrow> nat \<Rightarrow> nat list list \<times> src_counts \<Rightarrow> int \<Rightarrow> (nat list list \<times> src_counts) result" where
  "route_copy cfg src_gpu acc expert_id =
     (let (worker_queues, per_dst) = acc; e = nat expert_id; qpw = y_queues_per_worker cfg
      in if int (y_total_experts cfg) \<le> expert_id then Inl RuntimeError
         else if qpw = 0 then Inl ZeroDivisionError
         else if e div qpw < length worker_queues \<and> e mod qpw < length (worker_queues ! (e div qpw))
         then let w = e div qpw; j = e mod qpw; lq = worker_queues ! w;
                  dst_map = d_get_or per_dst w []
              in Inr (worker_queues[w := lq[j := lq ! j + 1]],
                      AList.update w (AList.update src_gpu (d_get_or dst_map src_gpu 0 + 1) dst_map) per_dst)
         else Inl IndexError)"

text \<open>The call of the router for the tokens of a layer; \<open>zip\<close> pairs each token with its row.\<close>

definition routed_rows ::
  "sync_config \<Rightarrow> nat \<Rightarrow> sync_token list \<Rightarrow> (sync_token \<times> int list) list result" where
  "routed_rows cfg layer_idx tokens =
     bindR (y_router cfg (PyList (map (\<lambda>t. int (yt_request_id t)) tokens))
              (map (\<lambda>t. int (yt_token_index t)) tokens) layer_idx)
       (\<lambda>topk_ids. Inr (zip tokens topk_ids))"

definition route_one ::
  "sync_config \<Rightarrow> sync_token \<times> int list \<Rightarrow> nat list list \<times> src_counts \<Rightarrow> (nat list list \<times> src_counts) result" where
  "route_one cfg p acc =
     (let (tok, expert_ids) = p; selected = filter (\<lambda>e. 0 \<le> e) expert_ids
      in if selected = [] then Inl RuntimeError
         else foldR (\<lambda>e acc. route_copy cfg (yt_home_gpu tok) acc e) selected acc)"

definition route_layer ::
  "sync_config \<Rightarrow> nat \<Rightarrow> sync_token list \<Rightarrow> (nat list list \<times> src_counts) result" where
  "route_layer cfg layer_idx tokens =
     bindR (routed_rows cfg layer_idx tokens) (\<lambda>ps.
       foldR (route_one cfg) ps (replicate (y_ep cfg) (replicate (y_queues_per_worker cfg) 0), []))"

text \<open>
  The compute time of one worker: batches are taken from the longest queue.  The loop gets
  as much fuel as there are tokens, which is enough when batches are not empty.
\<close>

definition longest_index :: "nat list \<Rightarrow> nat" where
  "longest_index queues = length (takeWhile (\<lambda>q. q < Max (set queues)) queues)"

fun worker_loop ::
  "sync_config \<Rightarrow> nat \<Rightarrow> nat list \<Rightarrow> nat \<Rightarrow> real \<times> nat \<times> nat \<Rightarrow> (real \<times> nat \<times> nat) result" where
  "worker_loop cfg fuel queues remaining (elapsed, bsize, cnt) =
     (if remaining = 0 then Inr (elapsed, bsize, cnt)
      else if queues = [] then Inl ValueError
      else let i = longest_index queues; available = queues ! i
           in if available = 0 then Inr (elapsed, bsize, cnt)
              else case fuel of
                  0 \<Rightarrow> Inl NoReturn
                | Suc fuel \<Rightarrow>
                    (let batch = min available (y_max_batch cfg)
                     in bindR (lookupR (y_lookup cfg) (int batch)) (\<lambda>compute_t.
                          worker_loop cfg fuel (queues[i := available - batch]) (remaining - batch)
                            (elapsed + compute_t, bsize + batch, cnt + 1))))"

declare worker_loop.simps [simp del]

text \<open>The elapsed time and the batch statistics after the worker's loop.\<close>

definition simulate_worker ::
  "sync_config \<Rightarrow> nat list \<Rightarrow> nat \<times> nat \<Rightarrow> (real \<times> nat \<times> nat) result" where
  "simulate_worker cfg loads stats =
     (if sum_list loads = 0 then Inr (0, stats)
      else worker_loop cfg (sum_list loads) loads (sum_list loads) (0, fst stats, snd stats))"

fun simulate_workers ::
  "sync_config \<Rightarrow> nat list list \<Rightarrow> nat \<times> nat \<Rightarrow> (real list \<times> nat \<times> nat) result" where
  "simulate_workers cfg [] stats = Inr ([], stats)"
| "simulate_workers cfg (loads # rest) stats =
     bindR (simulate_worker cfg loads stats) (\<lambda>(t, stats).
       bindR (simulate_workers cfg rest stats) (\<lambda>(ts, stats). Inr (t # ts, stats)))"

text \<open>The receive queues: the transfers of a link are served one after the other, the two links in parallel.\<close>

definition add_delay :: "(nat \<Rightarrow> nat \<Rightarrow> nat \<Rightarrow> real) \<Rightarrow> sync_config \<Rightarrow> nat \<Rightarrow> nat \<times> nat \<Rightarrow> real \<times> real \<Rightarrow> real \<times> real" where
  "add_delay net_delay cfg dst p totals =
     (let (src, ntok) = p; (nvlink_total, rdma_total) = totals
      in if ntok = 0 then totals
         else let delay = net_delay src dst ntok
              in if y_is_same_host cfg src dst then (nvlink_total + delay, rdma_total)
                 else (nvlink_total, rdma_total + delay))"

definition receive_time :: "(nat \<Rightarrow> nat \<Rightarrow> nat \<Rightarrow> real) \<Rightarrow> sync_config \<Rightarrow> nat \<Rightarrow> (nat, nat) dict \<Rightarrow> real" where
  "receive_time net_delay cfg dst src_tokens =
     (let (nv, rd) = fold (add_delay net_delay cfg dst) src_tokens (0, 0) in max nv rd)"

definition dispatch_time :: "sync_config \<Rightarrow> src_counts \<Rightarrow> real" where
  "dispatch_time cfg per_dst =
     (case y_net_delay cfg of
        None \<Rightarrow> y_net_a2e cfg
      | Some net_delay \<Rightarrow>
          (let ds = map (\<lambda>w. receive_time net_delay cfg w (d_get_or per_dst w [])) [0..<y_ep cfg]
           in if ds = [] then 0 else Max (set ds)))"

definition add_return ::
  "(nat \<Rightarrow> nat \<Rightarrow> nat \<Rightarrow> real) \<Rightarrow> sync_config \<Rightarrow> nat \<Rightarrow> nat \<times> nat \<Rightarrow>
   (nat, real) dict \<times> (nat, real) dict \<Rightarrow> (nat, real) dict \<times> (nat, real) dict" where
  "add_return net_delay cfg w p totals =
     (let (gpu, ntok) = p; (nv, rd) = totals
      in if ntok = 0 then totals
         else let delay = net_delay w gpu ntok
              in if y_is_same_host cfg w gpu
                 then (AList.update gpu (d_get_or nv gpu 0 + delay) nv, rd)
                 else (nv, AList.update gpu (d_get_or rd gpu 0 + delay) rd))"

definition return_time :: "sync_config \<Rightarrow> nat list list \<Rightarrow> src_counts \<Rightarrow> real" where
  "return_time cfg worker_loads per_dst =
     (case y_net_delay cfg of
        None \<Rightarrow> y_net_e2a cfg
      | Some net_delay \<Rightarrow>
          (let (nv, rd) = fold (\<lambda>w totals.
                 if sum_list (worker_loads ! w) = 0 then totals
                 else fold (add_return net_delay cfg w) (d_get_or per_dst w []) totals) [0..<y_ep cfg] ([], []);
               gpus = map fst nv @ map fst rd
           in if gpus = [] then 0
              else Max (set (map (\<lambda>g. max (d_get_or nv g 0) (d_get_or rd g 0)) gpus))))"

definition queue_stddev :: "nat list \<Rightarrow> real" where
  "queue_stddev queues =
     (let n = real (length queues); mean = real (sum_list queues) / n
      in sqrt (sum_list (map (\<lambda>q. (real q - mean)\<^sup>2) queues) / n))"

definition attention_time :: "sync_config \<Rightarrow> nat \<Rightarrow> real" where
  "attention_time cfg token_count =
     real_of_int \<lceil>real token_count / real (y_attn_dp cfg)\<rceil> * y_attn_service_t cfg"

definition max_or_0 :: "real list \<Rightarrow> real" where
  "max_or_0 ts = (if ts = [] then 0 else Max (set ts))"

definition longest_wait :: "real list \<Rightarrow> real" where
  "longest_wait ts = (if ts = [] then 0 else max 0 (Max (set ts) - Min (set ts)))"

definition run_layer :: "sync_config \<Rightarrow> nat \<Rightarrow> sync_token list \<Rightarrow> sync_sim \<Rightarrow> (real \<times> sync_sim) result" where
  "run_layer cfg layer_idx tokens s =
     (if tokens = [] then Inr (0, s)
      else bindR (route_layer cfg layer_idx tokens) (\<lambda>(worker_loads, per_dst).
        bindR (simulate_workers cfg worker_loads (y_batch_size s, y_batch_count s)) (\<lambda>(times, bsize, cnt).
          let layer_runtime = attention_time cfg (length tokens) + dispatch_time cfg per_dst
                + (max_or_0 times + return_time cfg worker_loads per_dst)
          in Inr (layer_runtime,
               s\<lparr>y_queue_stddevs := y_queue_stddevs s @ map queue_stddev (filter (\<lambda>qs. qs \<noteq> []) worker_loads),
                 y_batch_size := bsize, y_batch_count := cnt,
                 y_layer_runtimes := y_layer_runtimes s @ [layer_runtime],
                 y_wait_imbalances := y_wait_imbalances s @ [longest_wait times]\<rparr>))))"

fun run_layers :: "sync_config \<Rightarrow> nat list \<Rightarrow> sync_token list \<Rightarrow> sync_sim \<Rightarrow> (real \<times> sync_sim) result" where
  "run_layers cfg [] tokens s = Inr (0, s)"
| "run_layers cfg (l # ls) tokens s =
     bindR (run_layer cfg l tokens s) (\<lambda>(t, s). bindR (run_layers cfg ls tokens s) (\<lambda>(rest, s). Inr (t + rest, s)))"

definition run_one_iteration :: "sync_config \<Rightarrow> sync_token list \<Rightarrow> sync_sim \<Rightarrow> (real \<times> sync_sim) result" where
  "run_one_iteration cfg tokens s = run_layers cfg [0..<y_num_layers cfg] tokens s"

section \<open>The main loop\<close>

text \<open>One pass of the loop: whether it goes on, and the state.\<close>

definition sync_pass :: "sync_config \<Rightarrow> sync_sim \<Rightarrow> (bool \<times> sync_sim) result" where
  "sync_pass cfg s =
     (let s = fill_active_requests cfg (release_new_arrivals s)
      in if y_active s = [] then Inr (advance_to_next_arrival s)
         else bindR (spawn_tokens cfg s) (\<lambda>(tokens, s).
           if tokens = [] then Inr (advance_to_next_arrival s)
           else bindR (run_one_iteration cfg tokens s) (\<lambda>(iteration_duration, s).
             Inr (True, finalize_iteration cfg tokens (s\<lparr>y_now := y_now s + iteration_duration\<rparr>)))))"

text \<open>What the layers leave alone: everything but the statistics.\<close>

definition same_core :: "sync_sim \<Rightarrow> sync_sim \<Rightarrow> bool" where
  "same_core s s' \<longleftrightarrow> y_requests s' = y_requests s \<and> y_now s' = y_now s \<and> y_arrival_index s' = y_arrival_index s \<and>
     y_waiting s' = y_waiting s \<and> y_active s' = y_active s \<and> y_next_tid s' = y_next_tid s \<and>
     y_completion_times s' = y_completion_times s \<and> y_token_latencies s' = y_token_latencies s \<and>
     y_request_latencies s' = y_request_latencies s \<and> y_completed_tokens s' = y_completed_tokens s"

text \<open>What the parts of a pass leave alone, for the termination of the loop.\<close>

definition same_run :: "sync_sim \<Rightarrow> sync_sim \<Rightarrow> bool" where
  "same_run s s' \<longleftrightarrow> total_reqs s' = total_reqs s \<and> y_completed_tokens s' = y_completed_tokens s"

lemma same_run_refl [simp]: "same_run s s"
  by (simp add: same_run_def)

lemma release_progress:
  "same_run s (release_new_arrivals s) \<and> y_arrival_index s \<le> y_arrival_index (release_new_arrivals s)"
proof (induction s rule: release_new_arrivals.induct)
  case (1 s)
  then show ?case
    by (subst (1 2) release_new_arrivals.simps) (auto simp: same_run_def total_reqs_def)
qed

lemma advance_progress:
  assumes "advance_to_next_arrival s = (True, s')"
  shows "same_run s s' \<and> y_arrival_index s < y_arrival_index s' \<and> y_arrival_index s < total_reqs s"
proof -
  define i where "i = y_arrival_index s"
  define s1 where "s1 = (if y_now s < rq_arrival_time (y_requests s ! i)
    then s\<lparr>y_now := rq_arrival_time (y_requests s ! i)\<rparr> else s)"
  have lt: "i < total_reqs s" and s': "s' = release_new_arrivals s1"
    using assms by (auto simp: advance_to_next_arrival_def Let_def s1_def i_def split: if_splits)
  have s1: "same_run s s1" "y_arrival_index s1 = i" "y_requests s1 = y_requests s"
    "rq_arrival_time (y_requests s1 ! i) \<le> y_now s1"
    by (auto simp: s1_def same_run_def total_reqs_def i_def)
  have "release_new_arrivals s1 = release_new_arrivals (s1\<lparr>y_waiting := y_waiting s1 @ [i], y_arrival_index := i + 1\<rparr>)"
    using lt s1 by (subst release_new_arrivals.simps) (simp add: total_reqs_def)
  then show ?thesis
    using release_progress [of "s1\<lparr>y_waiting := y_waiting s1 @ [i], y_arrival_index := i + 1\<rparr>"] s1 s' lt
    by (simp add: same_run_def total_reqs_def i_def)
qed

lemma fill_progress:
  "same_run s (fill_active_requests cfg s) \<and> y_arrival_index (fill_active_requests cfg s) = y_arrival_index s"
proof -
  have "same_run s (fill_loop_sync cfg q s) \<and> y_arrival_index (fill_loop_sync cfg q s) = y_arrival_index s" for q
    by (induction q arbitrary: s) (auto simp: same_run_def total_reqs_def set_request_def Let_def)
  then show ?thesis by (simp add: fill_active_requests_def)
qed

lemma spawn_progress:
  assumes "spawn_tokens cfg s = Inr (tokens, s')"
  shows "same_run s s' \<and> y_arrival_index s' = y_arrival_index s"
proof -
  have "same_run s (snd (tokens, s')) \<and> y_arrival_index (snd (tokens, s')) = y_arrival_index s"
    by (rule foldR_invariant [OF assms [unfolded spawn_tokens_def],
        where I = "\<lambda>acc. same_run s (snd acc) \<and> y_arrival_index (snd acc) = y_arrival_index s"])
      (auto simp: spawn_step_def Let_def res same_run_def total_reqs_def split: if_splits)
  then show ?thesis by simp
qed

lemma run_layer_progress:
  "run_layer cfg l tokens s = Inr (t, s') \<Longrightarrow> same_run s s' \<and> y_arrival_index s' = y_arrival_index s"
  by (auto simp: run_layer_def res Let_def same_run_def total_reqs_def split: if_splits)

lemma run_layers_progress:
  "run_layers cfg ls tokens s = Inr (t, s') \<Longrightarrow> same_run s s' \<and> y_arrival_index s' = y_arrival_index s"
proof (induction ls arbitrary: s t)
  case (Cons l ls)
  then show ?case by (fastforce simp: res same_run_def dest: run_layer_progress)
qed simp

lemma finalize_token_progress:
  "y_completed_tokens (finalize_token cfg x t s) = y_completed_tokens s + 1 \<and>
   total_reqs (finalize_token cfg x t s) = total_reqs s \<and>
   y_arrival_index (finalize_token cfg x t s) = y_arrival_index s"
  by (simp add: finalize_token_def Let_def set_request_def total_reqs_def)

lemma finalize_fold_progress:
  "y_completed_tokens (fold (\<lambda>tok. finalize_token cfg (f tok) tok) tokens s) = y_completed_tokens s + length tokens \<and>
   total_reqs (fold (\<lambda>tok. finalize_token cfg (f tok) tok) tokens s) = total_reqs s \<and>
   y_arrival_index (fold (\<lambda>tok. finalize_token cfg (f tok) tok) tokens s) = y_arrival_index s"
  by (induction tokens arbitrary: s) (simp_all add: finalize_token_progress)

lemma finalize_progress:
  "y_completed_tokens (finalize_iteration cfg tokens s) = y_completed_tokens s + length tokens \<and>
   total_reqs (finalize_iteration cfg tokens s) = total_reqs s \<and>
   y_arrival_index (finalize_iteration cfg tokens s) = y_arrival_index s"
  using finalize_fold_progress [of cfg "\<lambda>_. y_now s" tokens s]
  by (simp add: finalize_iteration_def drop_completed_def total_reqs_def)

definition loop_measure :: "sync_config \<Rightarrow> sync_sim \<Rightarrow> nat" where
  "loop_measure cfg s = (expected_tokens cfg s - y_completed_tokens s) + (total_reqs s - y_arrival_index s)"

text \<open>A pass that goes on has released an arrival or completed a token.\<close>

lemma advance_decreases:
  assumes "same_run s s2" and "y_arrival_index s \<le> y_arrival_index s2" and "advance_to_next_arrival s2 = (True, s')"
  shows "loop_measure cfg s' < loop_measure cfg s"
  using advance_progress [OF assms(3)] assms(1,2) by (auto simp: loop_measure_def same_run_def expected_tokens_def)

lemma tokens_decrease:
  assumes "y_completed_tokens s < expected_tokens cfg s" and "0 < n"
    and "y_completed_tokens s' = y_completed_tokens s + n" and "total_reqs s' = total_reqs s"
    and "y_arrival_index s \<le> y_arrival_index s'"
  shows "loop_measure cfg s' < loop_measure cfg s"
proof -
  have "expected_tokens cfg s' = expected_tokens cfg s" "total_reqs s' - y_arrival_index s' \<le> total_reqs s - y_arrival_index s"
    using assms(4,5) by (auto simp: expected_tokens_def intro: diff_le_mono2)
  then show ?thesis using assms(1-3) unfolding loop_measure_def by linarith
qed

lemma filled_progress:
  "same_run s (fill_active_requests cfg (release_new_arrivals s)) \<and>
   y_arrival_index s \<le> y_arrival_index (fill_active_requests cfg (release_new_arrivals s))"
  using fill_progress [of "release_new_arrivals s" cfg] release_progress [of s] by (auto simp: same_run_def)

lemma sync_pass_decreases:
  assumes "y_completed_tokens s < expected_tokens cfg s" and "sync_pass cfg s = Inr (True, s')"
  shows "loop_measure cfg s' < loop_measure cfg s"
proof -
  define s1 where "s1 = fill_active_requests cfg (release_new_arrivals s)"
  note s1 = filled_progress [of s cfg, folded s1_def]
  show ?thesis
  proof (cases "y_active s1 = []")
    case True
    then show ?thesis using advance_decreases [of s s1] s1 assms(2) by (simp add: sync_pass_def Let_def s1_def [symmetric])
  next
    case False
    then obtain tokens s2 where sp: "spawn_tokens cfg s1 = Inr (tokens, s2)"
      and rest: "(if tokens = [] then Inr (advance_to_next_arrival s2)
           else bindR (run_one_iteration cfg tokens s2) (\<lambda>(iteration_duration, s).
             Inr (True, finalize_iteration cfg tokens (s\<lparr>y_now := y_now s + iteration_duration\<rparr>)))) = Inr (True, s')"
      using assms(2) by (auto simp: sync_pass_def Let_def s1_def [symmetric] res)
    have s2: "same_run s s2" "y_arrival_index s \<le> y_arrival_index s2"
      using spawn_progress [OF sp] s1 by (auto simp: same_run_def)
    show ?thesis
    proof (cases "tokens = []")
      case True
      then show ?thesis using advance_decreases [OF s2] rest by simp
    next
      case ne: False
      then obtain d s3 where it: "run_layers cfg [0..<y_num_layers cfg] tokens s2 = Inr (d, s3)"
        and s': "s' = finalize_iteration cfg tokens (s3\<lparr>y_now := y_now s3 + d\<rparr>)"
        using rest by (auto simp: res run_one_iteration_def)
      have s3: "same_run s2 s3" "y_arrival_index s3 = y_arrival_index s2" using run_layers_progress [OF it] by auto
      show ?thesis
      proof (rule tokens_decrease [OF assms(1)])
        show "0 < length tokens" using ne by simp
      qed (use finalize_progress [of cfg tokens "s3\<lparr>y_now := y_now s3 + d\<rparr>"] s2 s3 in
          \<open>simp_all add: s' same_run_def total_reqs_def\<close>)
    qed
  qed
qed

function sync_run :: "sync_config \<Rightarrow> sync_sim \<Rightarrow> sync_sim result" where
  "sync_run cfg s =
     (if y_completed_tokens s < expected_tokens cfg s
      then (case sync_pass cfg s of
              Inl e \<Rightarrow> Inl e
            | Inr (True, s') \<Rightarrow> sync_run cfg s'
            | Inr (False, s') \<Rightarrow> Inr s')
      else Inr s)"
  by pat_completeness auto
termination
  by (relation "measure (\<lambda>(cfg, s). loop_measure cfg s)") (auto intro: sync_pass_decreases)

declare sync_run.simps [simp del]

end
