(* ===== verification/SimTbo.thy ===== *)
theory SimTbo
  imports SimSync "HOL-Library.Product_Lexorder"
begin

text \<open>
  The two-batch-overlap simulator (\<open>TBOMoESimulator\<close> of \<open>simulation/sim_tbo.py\<close>): each
  iteration splits its tokens into two microbatches and schedules their compute and
  communication stages against each other.  The life cycle of requests, the batches of a
  worker and the two receive queues are the same code as in the synchronous simulator and
  are used from there.
\<close>

section \<open>The captured timeline\<close>

record timeline_op =
  op_idx :: nat
  op_step_idx :: nat
  op_microbatch :: nat
  op_layer_idx :: int
  op_stage :: string
  op_resource :: string
  op_start_time :: real
  op_end_time :: real

record timeline =
  tl_max_ops :: nat
  tl_started :: bool
  tl_start_step :: "nat option"
  tl_start_time :: "real option"
  tl_ops :: "timeline_op list"

definition timeline_init :: "int \<Rightarrow> timeline" where
  "timeline_init max_ops =
     \<lparr>tl_max_ops = nat (max 0 max_ops), tl_started = False, tl_start_step = None, tl_start_time = None, tl_ops = []\<rparr>"

definition timeline_enabled :: "timeline \<Rightarrow> bool" where
  "timeline_enabled tml \<longleftrightarrow> 0 < tl_max_ops tml"

definition maybe_start :: "nat \<Rightarrow> real \<Rightarrow> timeline \<Rightarrow> timeline" where
  "maybe_start step_idx sim_time tml =
     (if \<not> timeline_enabled tml \<or> tl_started tml then tml
      else tml\<lparr>tl_started := True, tl_start_step := Some step_idx, tl_start_time := Some sim_time\<rparr>)"

definition record_op :: "nat \<Rightarrow> nat \<Rightarrow> int \<Rightarrow> string \<Rightarrow> string \<Rightarrow> real \<Rightarrow> real \<Rightarrow> timeline \<Rightarrow> timeline" where
  "record_op step_idx microbatch layer_idx stage resource start_time end_time tml =
     (if \<not> tl_started tml \<or> \<not> timeline_enabled tml then tml
      else if tl_max_ops tml \<le> length (tl_ops tml) then tml
      else tml\<lparr>tl_ops := tl_ops tml @ [\<lparr>op_idx = length (tl_ops tml), op_step_idx = step_idx,
             op_microbatch = microbatch, op_layer_idx = layer_idx, op_stage = stage, op_resource = resource,
             op_start_time = start_time, op_end_time = end_time\<rparr>]\<rparr>)"

text \<open>The guard around every call of \<open>record\<close>.\<close>

definition capture_op ::
  "nat \<Rightarrow> nat \<Rightarrow> int \<Rightarrow> string \<Rightarrow> string \<Rightarrow> real \<Rightarrow> real \<Rightarrow> timeline option \<Rightarrow> timeline option" where
  "capture_op step_idx mb layer_idx stage resource start_time end_time capture =
     (case capture of None \<Rightarrow> None
      | Some tml \<Rightarrow> Some (if tl_started tml \<and> length (tl_ops tml) < tl_max_ops tml
                       then record_op step_idx mb layer_idx stage resource start_time end_time tml else tml))"

section \<open>The split into microbatches\<close>

type_synonym split_acc = "sync_token list \<times> sync_token list \<times> (nat \<Rightarrow> nat option)"

definition split_step :: "nat \<times> sync_token \<Rightarrow> split_acc \<Rightarrow> split_acc" where
  "split_step p acc =
     (let (i, tok) = p; (mb0, mb1, tid_to_mb) = acc
      in if i mod 2 = 0 then (mb0 @ [tok], mb1, tid_to_mb(yt_tid tok \<mapsto> 0))
         else (mb0, mb1 @ [tok], tid_to_mb(yt_tid tok \<mapsto> 1)))"

definition split_into_microbatches :: "sync_token list \<Rightarrow> split_acc" where
  "split_into_microbatches tokens =
     (if tokens = [] then ([], [], Map.empty)
      else fold split_step (enumerate 0 (sort_key (\<lambda>t. (yt_request_id t, yt_tid t)) tokens)) ([], [], Map.empty))"

section \<open>The stage times of a layer\<close>

definition token_count_mb :: "(nat \<Rightarrow> nat option) \<Rightarrow> sync_token list \<Rightarrow> (nat \<Rightarrow> nat) result" where
  "token_count_mb tid_to_mb tokens =
     foldR (\<lambda>tok cnt. bindR (lookupR tid_to_mb (yt_tid tok)) (\<lambda>mb. Inr (cnt(mb := cnt mb + 1)))) tokens (\<lambda>_. 0)"

definition attn_time_mb :: "sync_config \<Rightarrow> nat \<Rightarrow> real" where
  "attn_time_mb cfg n = (if n = 0 \<or> y_attn_service_t cfg \<le> 0 then 0 else attention_time cfg n)"

text \<open>The tokens are routed once; the queues and the transfer counts are kept per microbatch.\<close>

type_synonym mb_loads = "nat \<Rightarrow> nat list list \<times> src_counts"

definition route_one_mb ::
  "sync_config \<Rightarrow> (nat \<Rightarrow> nat option) \<Rightarrow> sync_token \<times> int list \<Rightarrow> mb_loads \<Rightarrow> mb_loads result" where
  "route_one_mb cfg tid_to_mb p loads =
     (let (tok, expert_ids) = p; selected = filter (\<lambda>e. 0 \<le> e) expert_ids
      in if selected = [] then Inl RuntimeError
         else bindR (lookupR tid_to_mb (yt_tid tok)) (\<lambda>mb.
           bindR (foldR (\<lambda>e acc. route_copy cfg (yt_home_gpu tok) acc e) selected (loads mb)) (\<lambda>acc.
             Inr (loads(mb := acc)))))"

definition route_layer_mb ::
  "sync_config \<Rightarrow> nat \<Rightarrow> (nat \<Rightarrow> nat option) \<Rightarrow> sync_token list \<Rightarrow> mb_loads result" where
  "route_layer_mb cfg layer_idx tid_to_mb tokens =
     bindR (routed_rows cfg layer_idx tokens) (\<lambda>ps.
       foldR (route_one_mb cfg tid_to_mb) ps
         (\<lambda>_. (replicate (y_ep cfg) (replicate (y_queues_per_worker cfg) 0), [])))"

type_synonym stage_times = "real \<times> real \<times> real \<times> real"

definition mb_stage_times ::
  "sync_config \<Rightarrow> nat \<Rightarrow> nat list list \<times> src_counts \<Rightarrow> sync_sim \<Rightarrow> (stage_times \<times> sync_sim) result" where
  "mb_stage_times cfg token_count loads s =
     (let (worker_queues, per_dst) = loads; attn_t = attn_time_mb cfg token_count;
          dispatch_t = dispatch_time cfg per_dst
      in bindR (simulate_workers cfg worker_queues (y_batch_size s, y_batch_count s)) (\<lambda>(times, bsize, cnt).
           let expert_t = max_or_0 times; return_t = return_time cfg worker_queues per_dst
           in Inr ((attn_t, dispatch_t, expert_t, return_t),
                s\<lparr>y_queue_stddevs := y_queue_stddevs s @ map queue_stddev (filter (\<lambda>qs. qs \<noteq> []) worker_queues),
                  y_batch_size := bsize, y_batch_count := cnt,
                  y_layer_runtimes := y_layer_runtimes s @ [attn_t + dispatch_t + expert_t + return_t],
                  y_wait_imbalances := y_wait_imbalances s @ [longest_wait times]\<rparr>)))"

definition compute_layer_times ::
  "sync_config \<Rightarrow> nat \<Rightarrow> sync_token list \<Rightarrow> (nat \<Rightarrow> nat option) \<Rightarrow> sync_sim \<Rightarrow>
   ((stage_times \<times> stage_times) \<times> sync_sim) result" where
  "compute_layer_times cfg layer_idx tokens tid_to_mb s =
     bindR (token_count_mb tid_to_mb tokens) (\<lambda>cnt.
     bindR (route_layer_mb cfg layer_idx tid_to_mb tokens) (\<lambda>loads.
     bindR (mb_stage_times cfg (cnt 0) (loads 0) s) (\<lambda>(t0, s).
     bindR (mb_stage_times cfg (cnt 1) (loads 1) s) (\<lambda>(t1, s). Inr ((t0, t1), s)))))"

section \<open>The schedule of the two microbatches\<close>

text \<open>A task: its kind, duration, stage and layer.\<close>

type_synonym tbo_task = "string \<times> real \<times> string \<times> int"

definition layer_tasks :: "nat \<Rightarrow> stage_times \<Rightarrow> tbo_task list" where
  "layer_tasks layer_idx layer_times =
     (let (attn_t, dispatch_t, expert_t, combine_t) = layer_times
      in [(''compute'', attn_t, ''attn'', int layer_idx), (''dispatch'', dispatch_t, ''dispatch'', int layer_idx),
          (''compute'', expert_t, ''expert'', int layer_idx), (''combine'', combine_t, ''combine'', int layer_idx)])"

record sched_state =
  sc_next_idx :: "nat \<Rightarrow> nat"
  sc_ready :: "nat \<Rightarrow> real"
  sc_compute_free :: real
  sc_inflight_until :: "nat \<Rightarrow> real"
  sc_inflight_src :: "nat \<Rightarrow> (string \<times> int) option"

definition sched_init :: sched_state where
  "sched_init = \<lparr>sc_next_idx = (\<lambda>_. 0), sc_ready = (\<lambda>_. 0), sc_compute_free = 0, sc_inflight_until = (\<lambda>_. 0),
     sc_inflight_src = (\<lambda>_. None)\<rparr>"

definition is_comm :: "string \<Rightarrow> bool" where
  "is_comm kind \<longleftrightarrow> kind = ''dispatch'' \<or> kind = ''combine''"

definition kind_prio :: "string \<Rightarrow> nat" where
  "kind_prio kind = (if is_comm kind then 0 else 1)"

text \<open>The candidate of a microbatch: earliest start, priority and microbatch; none when it is done.\<close>

definition candidate :: "(nat \<Rightarrow> tbo_task list) \<Rightarrow> sched_state \<Rightarrow> nat \<Rightarrow> (real \<times> nat \<times> nat) list result" where
  "candidate tasks st mb =
     (if length (tasks mb) \<le> sc_next_idx st mb then Inr []
      else let kind = fst (tasks mb ! sc_next_idx st mb)
           in if kind = ''compute''
              then Inr [(max (max (sc_ready st mb) (sc_inflight_until st mb)) (sc_compute_free st), kind_prio kind, mb)]
              else if is_comm kind then Inr [(sc_ready st mb, kind_prio kind, mb)]
              else Inl ValueError)"

definition candidates :: "(nat \<Rightarrow> tbo_task list) \<Rightarrow> sched_state \<Rightarrow> (real \<times> nat \<times> nat) list result" where
  "candidates tasks st = bindR (candidate tasks st 0) (\<lambda>c0. bindR (candidate tasks st 1) (\<lambda>c1. Inr (c0 @ c1)))"

definition launch ::
  "nat \<Rightarrow> real \<Rightarrow> tbo_task \<Rightarrow> real \<Rightarrow> nat \<Rightarrow> sched_state \<times> timeline option \<Rightarrow> sched_state \<times> timeline option" where
  "launch step_idx base task est mb sc =
     (let (st, capture) = sc; (kind, dur, stage, layer_idx) = task
      in if kind = ''compute''
         then (let t0 = max (sc_ready st mb) (sc_compute_free st);
                   until = sc_inflight_until st mb;
                   (wait_stage, wait_layer) =
                     (case sc_inflight_src st mb of None \<Rightarrow> (''comm'', -1) | Some src \<Rightarrow> src);
                   capture = (if t0 < until
                              then capture_op step_idx mb wait_layer wait_stage ''comm'' (base + t0) (base + until) capture
                              else capture)
               in (st\<lparr>sc_ready := (sc_ready st)(mb := est + dur), sc_compute_free := est + dur,
                      sc_next_idx := (sc_next_idx st)(mb := sc_next_idx st mb + 1)\<rparr>,
                   capture_op step_idx mb layer_idx stage ''compute'' (base + est) (base + (est + dur)) capture))
         else ((if sc_inflight_until st mb < est + dur
                then st\<lparr>sc_inflight_until := (sc_inflight_until st)(mb := est + dur),
                        sc_inflight_src := (sc_inflight_src st)(mb := Some (stage, layer_idx))\<rparr>
                else st)\<lparr>sc_next_idx := (sc_next_idx st)(mb := sc_next_idx st mb + 1)\<rparr>, capture))"

definition tasks_left :: "(nat \<Rightarrow> tbo_task list) \<Rightarrow> sched_state \<Rightarrow> nat" where
  "tasks_left tasks st = (length (tasks 0) - sc_next_idx st 0) + (length (tasks 1) - sc_next_idx st 1)"

lemma launch_next_idx:
  "sc_next_idx (fst (launch step base task est mb sc)) = (sc_next_idx (fst sc))(mb := sc_next_idx (fst sc) mb + 1)"
  by (simp add: launch_def split_beta Let_def)

lemma candidate_mem:
  "candidate tasks st mb = Inr cs \<Longrightarrow> c \<in> set cs \<Longrightarrow> snd (snd c) = mb \<and> sc_next_idx st mb < length (tasks mb)"
  by (auto simp: candidate_def Let_def split: if_splits)

lemma candidates_mem:
  assumes "candidates tasks st = Inr cs" and "(est, prio, mb) \<in> set cs"
  shows "(mb = 0 \<or> mb = 1) \<and> sc_next_idx st mb < length (tasks mb)"
proof -
  obtain c0 c1 where "candidate tasks st 0 = Inr c0" "candidate tasks st 1 = Inr c1" "cs = c0 @ c1"
    using assms(1) by (auto simp: candidates_def res)
  then show ?thesis using assms(2) candidate_mem [of tasks st _ _ "(est, prio, mb)"] by fastforce
qed

lemma launch_decreases:
  assumes "candidates tasks (fst sc) = Inr (c # cs)" and "(est, prio, mb) = Min (set (c # cs))"
  shows "tasks_left tasks (fst (launch step base task est mb sc)) < tasks_left tasks (fst sc)"
proof -
  have "(est, prio, mb) \<in> set (c # cs)" unfolding assms(2) by (rule Min_in) simp_all
  from candidates_mem [OF assms(1) this] show ?thesis
    by (auto simp: tasks_left_def launch_next_idx)
qed

function schedule_loop ::
  "nat \<Rightarrow> real \<Rightarrow> (nat \<Rightarrow> tbo_task list) \<Rightarrow> sched_state \<times> timeline option \<Rightarrow> (sched_state \<times> timeline option) result" where
  "schedule_loop step_idx base tasks sc =
     (case candidates tasks (fst sc) of
        Inl e \<Rightarrow> Inl e
      | Inr [] \<Rightarrow> Inr sc
      | Inr (c # cs) \<Rightarrow>
          (let (est, prio, mb) = Min (set (c # cs))
           in schedule_loop step_idx base tasks
                (launch step_idx base (tasks mb ! sc_next_idx (fst sc) mb) est mb sc)))"
  by pat_completeness auto

termination
  by (relation "measure (\<lambda>(step, base, tasks, sc). tasks_left tasks (fst sc))") (auto intro: launch_decreases)

declare schedule_loop.simps [simp del]

definition schedule_resources ::
  "tbo_task list \<Rightarrow> tbo_task list \<Rightarrow> nat \<Rightarrow> real \<Rightarrow> timeline option \<Rightarrow> ((real \<times> real) \<times> timeline option) result" where
  "schedule_resources tasks0 tasks1 step_idx base capture =
     bindR (schedule_loop step_idx base (\<lambda>mb. if mb = 0 then tasks0 else tasks1) (sched_init, capture))
       (\<lambda>(st, capture). Inr ((sc_ready st 0, sc_ready st 1), capture))"

section \<open>One iteration\<close>

type_synonym task_lists = "tbo_task list \<times> tbo_task list"

fun build_tasks ::
  "sync_config \<Rightarrow> nat list \<Rightarrow> sync_token list \<Rightarrow> (nat \<Rightarrow> nat option) \<Rightarrow> sync_sim \<Rightarrow> (task_lists \<times> sync_sim) result" where
  "build_tasks cfg [] tokens tid_to_mb s = Inr (([], []), s)"
| "build_tasks cfg (l # ls) tokens tid_to_mb s =
     bindR (compute_layer_times cfg l tokens tid_to_mb s) (\<lambda>((t0, t1), s).
       bindR (build_tasks cfg ls tokens tid_to_mb s) (\<lambda>((r0, r1), s).
         Inr ((layer_tasks l t0 @ r0, layer_tasks l t1 @ r1), s)))"

definition run_one_iteration_tbo ::
  "sync_config \<Rightarrow> sync_token list \<Rightarrow> nat \<Rightarrow> real \<Rightarrow> timeline option \<Rightarrow> sync_sim \<Rightarrow>
   ((real \<times> (nat \<Rightarrow> real option)) \<times> timeline option \<times> sync_sim) result" where
  "run_one_iteration_tbo cfg tokens step_idx base capture s =
     (let (mb0, mb1, tid_to_mb) = split_into_microbatches tokens
      in bindR (build_tasks cfg [0..<y_num_layers cfg] tokens tid_to_mb s) (\<lambda>((tasks0, tasks1), s).
         bindR (schedule_resources tasks0 tasks1 step_idx base capture) (\<lambda>((finish0, finish1), capture).
           let finish_of = (\<lambda>tid. if (case tid_to_mb tid of None \<Rightarrow> 0 | Some mb \<Rightarrow> mb) = 0 then finish0 else finish1);
               completion = fold (\<lambda>tok m. m(yt_tid tok \<mapsto> finish_of (yt_tid tok))) tokens Map.empty
           in Inr ((max finish0 finish1, completion), capture, s))))"

definition completion_of :: "(nat \<Rightarrow> real option) \<Rightarrow> sync_token \<Rightarrow> real" where
  "completion_of offsets tok = yt_birth_time tok + (case offsets (yt_tid tok) of None \<Rightarrow> 0 | Some x \<Rightarrow> x)"

definition finalize_iteration_tbo :: "sync_config \<Rightarrow> sync_token list \<Rightarrow> (nat \<Rightarrow> real option) \<Rightarrow> sync_sim \<Rightarrow> sync_sim" where
  "finalize_iteration_tbo cfg tokens offsets s =
     drop_completed (fold (\<lambda>tok. finalize_token cfg (completion_of offsets tok) tok) tokens s)"

section \<open>The main loop\<close>

record tbo_state =
  tb_sim :: sync_sim
  tb_steps :: nat
  tb_saturation_step :: "nat option"
  tb_saturation_tokens :: "nat option"
  tb_saturation_time :: "real option"
  tb_capture :: "timeline option"

definition tbo_start :: "timeline option \<Rightarrow> sync_sim \<Rightarrow> tbo_state" where
  "tbo_start capture s =
     \<lparr>tb_sim = s, tb_steps = 0, tb_saturation_step = None, tb_saturation_tokens = None, tb_saturation_time = None,
      tb_capture = capture\<rparr>"

text \<open>The first step at which the active requests reach the limit is remembered.\<close>

definition note_saturation :: "sync_config \<Rightarrow> tbo_state \<Rightarrow> tbo_state" where
  "note_saturation cfg st =
     (let s = tb_sim st
      in if tb_saturation_step st = None \<and> y_active s \<noteq> [] \<and> y_global_max cfg \<le> length (y_active s)
         then st\<lparr>tb_saturation_step := Some (tb_steps st), tb_saturation_tokens := Some (y_completed_tokens s),
                 tb_saturation_time := Some (y_now s),
                 tb_capture := map_option (maybe_start (tb_steps st) (y_now s)) (tb_capture st)\<rparr>
         else st)"

definition tbo_advance :: "tbo_state \<Rightarrow> bool \<times> tbo_state" where
  "tbo_advance st = (let (go, s) = advance_to_next_arrival (tb_sim st) in (go, st\<lparr>tb_sim := s\<rparr>))"

definition tbo_pass :: "sync_config \<Rightarrow> tbo_state \<Rightarrow> (bool \<times> tbo_state) result" where
  "tbo_pass cfg st =
     (let st = note_saturation cfg (st\<lparr>tb_steps := tb_steps st + 1,
                 tb_sim := fill_active_requests cfg (release_new_arrivals (tb_sim st))\<rparr>)
      in if y_active (tb_sim st) = [] then Inr (tbo_advance st)
         else bindR (spawn_tokens cfg (tb_sim st)) (\<lambda>(tokens, s).
           if tokens = [] then Inr (tbo_advance (st\<lparr>tb_sim := s\<rparr>))
           else let start_time = y_now s
                in bindR (run_one_iteration_tbo cfg tokens (tb_steps st) start_time (tb_capture st) s)
                     (\<lambda>((iteration_duration, offsets), capture, s).
                       Inr (True, st\<lparr>tb_capture := capture,
                         tb_sim := finalize_iteration_tbo cfg tokens offsets
                                     (s\<lparr>y_now := start_time + iteration_duration\<rparr>)\<rparr>))))"

text \<open>With a limit the loop stops once enough tokens were completed after the saturation.\<close>

definition enough_tail :: "int option \<Rightarrow> tbo_state \<Rightarrow> bool" where
  "enough_tail limit st =
     (case (limit, tb_saturation_tokens st) of
        (Some n, Some c) \<Rightarrow> n \<le> int (y_completed_tokens (tb_sim st)) - int c
      | _ \<Rightarrow> False)"

lemma mb_stage_times_core: "mb_stage_times cfg n loads s = Inr (t, s') \<Longrightarrow> same_core s s'"
  by (auto simp: mb_stage_times_def Let_def split_beta res same_core_def)

lemma compute_layer_times_core: "compute_layer_times cfg l tokens m s = Inr (t, s') \<Longrightarrow> same_core s s'"
  by (auto simp: compute_layer_times_def res same_core_def dest!: mb_stage_times_core)

lemma build_tasks_core: "build_tasks cfg ls tokens m s = Inr (t, s') \<Longrightarrow> same_core s s'"
proof (induction ls arbitrary: s t)
  case Nil
  then show ?case by (simp add: same_core_def)
next
  case (Cons l ls)
  then show ?case by (fastforce simp: res same_core_def dest: compute_layer_times_core)
qed

lemma iteration_tbo_core:
  "run_one_iteration_tbo cfg tokens step base capture s = Inr (r, capture', s') \<Longrightarrow> same_core s s'"
  by (auto simp: run_one_iteration_tbo_def Let_def split_beta res dest!: build_tasks_core)

text \<open>A pass that goes on has advanced to an arrival or run an iteration.\<close>

lemma tbo_pass_True:
  assumes "tbo_pass cfg st = Inr (True, st')"
  shows "(\<exists>s2. same_run (tb_sim st) s2 \<and> y_arrival_index (tb_sim st) \<le> y_arrival_index s2 \<and>
      advance_to_next_arrival s2 = (True, tb_sim st')) \<or>
    (\<exists>tokens s2 s3 offsets t. tokens \<noteq> [] \<and> same_run (tb_sim st) s2 \<and> y_arrival_index (tb_sim st) \<le> y_arrival_index s2 \<and>
      same_core s2 s3 \<and> tb_sim st' = finalize_iteration_tbo cfg tokens offsets (s3\<lparr>y_now := t\<rparr>))"
proof -
  define s1 where "s1 = fill_active_requests cfg (release_new_arrivals (tb_sim st))"
  note s1 = filled_progress [of "tb_sim st" cfg, folded s1_def]
  define st1 where "st1 = note_saturation cfg (st\<lparr>tb_steps := Suc (tb_steps st), tb_sim := s1\<rparr>)"
  have sim: "tb_sim st1 = s1" by (simp add: st1_def note_saturation_def Let_def)
  have adv: "advance_to_next_arrival (tb_sim st2) = (True, tb_sim st')" if "tbo_advance st2 = (True, st')" for st2
    using that by (auto simp: tbo_advance_def split: prod.splits)
  show ?thesis
  proof (cases "y_active s1 = []")
    case True
    then show ?thesis using adv [of st1] s1 assms
      by (auto simp: tbo_pass_def s1_def [symmetric] st1_def [symmetric] sim Let_def)
  next
    case False
    then obtain tokens s2 where sp: "spawn_tokens cfg s1 = Inr (tokens, s2)"
      and rest: "(if tokens = [] then Inr (tbo_advance (st1\<lparr>tb_sim := s2\<rparr>))
           else bindR (run_one_iteration_tbo cfg tokens (tb_steps st1) (y_now s2) (tb_capture st1) s2)
                     (\<lambda>((iteration_duration, offsets), capture, s).
                       Inr (True, st1\<lparr>tb_capture := capture,
                         tb_sim := finalize_iteration_tbo cfg tokens offsets
                                     (s\<lparr>y_now := y_now s2 + iteration_duration\<rparr>)\<rparr>))) = Inr (True, st')"
      using assms unfolding tbo_pass_def Let_def
      by (auto simp: s1_def [symmetric] st1_def [symmetric] sim res cong: if_cong)
    have s2: "same_run (tb_sim st) s2" "y_arrival_index (tb_sim st) \<le> y_arrival_index s2"
      using spawn_progress [OF sp] s1 by (auto simp: same_run_def)
    show ?thesis
    proof (cases "tokens = []")
      case True
      then show ?thesis using adv [of "st1\<lparr>tb_sim := s2\<rparr>"] rest s2 by auto
    next
      case ne: False
      then obtain d offsets capture s3 where
        it: "run_one_iteration_tbo cfg tokens (tb_steps st1) (y_now s2) (tb_capture st1) s2 = Inr ((d, offsets), capture, s3)"
        and s': "tb_sim st' = finalize_iteration_tbo cfg tokens offsets (s3\<lparr>y_now := y_now s2 + d\<rparr>)"
        using rest by (auto simp: res)
      then show ?thesis using ne s2 iteration_tbo_core [OF it] by blast
    qed
  qed
qed

lemma finalize_tbo_progress:
  "y_completed_tokens (finalize_iteration_tbo cfg tokens offsets s) = y_completed_tokens s + length tokens \<and>
   total_reqs (finalize_iteration_tbo cfg tokens offsets s) = total_reqs s \<and>
   y_arrival_index (finalize_iteration_tbo cfg tokens offsets s) = y_arrival_index s"
  using finalize_fold_progress [of cfg "completion_of offsets" tokens s]
  by (simp add: finalize_iteration_tbo_def drop_completed_def total_reqs_def)

lemma tbo_pass_total:
  assumes "tbo_pass cfg st = Inr (True, st')"
  shows "total_reqs (tb_sim st') = total_reqs (tb_sim st)"
  using tbo_pass_True [OF assms] finalize_tbo_progress
  by (auto simp: same_run_def same_core_def total_reqs_def dest!: advance_progress)

lemma tbo_pass_decreases:
  assumes "y_completed_tokens (tb_sim st) < expected_tokens cfg (tb_sim st)" and "tbo_pass cfg st = Inr (True, st')"
  shows "loop_measure cfg (tb_sim st') < loop_measure cfg (tb_sim st)"
  using tbo_pass_True [OF assms(2)]
proof (elim disjE exE conjE)
  fix s2
  assume "same_run (tb_sim st) s2" "y_arrival_index (tb_sim st) \<le> y_arrival_index s2"
    "advance_to_next_arrival s2 = (True, tb_sim st')"
  then show ?thesis by (rule advance_decreases)
next
  fix tokens s2 s3 offsets t
  assume "tokens \<noteq> []" and s: "same_run (tb_sim st) s2" "y_arrival_index (tb_sim st) \<le> y_arrival_index s2" "same_core s2 s3"
    and s': "tb_sim st' = finalize_iteration_tbo cfg tokens offsets (s3\<lparr>y_now := t\<rparr>)"
  then have "0 < length tokens" by simp
  then show ?thesis
    using finalize_tbo_progress [of cfg tokens offsets "s3\<lparr>y_now := t\<rparr>"] s
    by (intro tokens_decrease [OF assms(1)]) (simp_all add: s' same_run_def same_core_def total_reqs_def)
qed

function tbo_loop :: "sync_config \<Rightarrow> int option \<Rightarrow> tbo_state \<Rightarrow> tbo_state result" where
  "tbo_loop cfg limit st =
     (if y_completed_tokens (tb_sim st) < expected_tokens cfg (tb_sim st)
      then (case tbo_pass cfg st of
              Inl e \<Rightarrow> Inl e
            | Inr (False, st') \<Rightarrow> Inr st'
            | Inr (True, st') \<Rightarrow> if enough_tail limit st' then Inr st' else tbo_loop cfg limit st')
      else Inr st)"
  by pat_completeness auto
termination
  by (relation "measure (\<lambda>(cfg, limit, st). loop_measure cfg (tb_sim st))") (auto intro: tbo_pass_decreases)

declare tbo_loop.simps [simp del]

definition tbo_run :: "sync_config \<Rightarrow> int option \<Rightarrow> tbo_state \<Rightarrow> tbo_state result" where
  "tbo_run cfg limit st =
     (if (case limit of None \<Rightarrow> False | Some n \<Rightarrow> n < 0) then Inl ValueError else tbo_loop cfg limit st)"

end
