(* ===== verification/SimSyncProps.thy ===== *)
theory SimSyncProps
  imports SimSync
begin

text \<open>
  What the synchronous simulator computes: the closed form of a worker's compute time, the
  exact queue lengths and transfer counts of a layer, the agreement of its receive times
  with the ingress ports of the asynchronous simulator, and the completion of every token.
\<close>

section \<open>The compute time of a worker\<close>

definition table_covers :: "sync_config \<Rightarrow> bool" where
  "table_covers cfg \<longleftrightarrow> 0 < y_max_batch cfg \<and> (\<forall>n\<in>{1..y_max_batch cfg}. y_lookup cfg (int n) \<noteq> None)"

definition batch_time :: "sync_config \<Rightarrow> nat \<Rightarrow> real" where
  "batch_time cfg n = the (y_lookup cfg (int n))"

text \<open>A queue is served in full batches and one batch for the rest.\<close>

definition queue_time :: "sync_config \<Rightarrow> nat \<Rightarrow> real" where
  "queue_time cfg q =
     real (q div y_max_batch cfg) * batch_time cfg (y_max_batch cfg)
     + (if q mod y_max_batch cfg = 0 then 0 else batch_time cfg (q mod y_max_batch cfg))"

definition queue_batches :: "sync_config \<Rightarrow> nat \<Rightarrow> nat" where
  "queue_batches cfg q = q div y_max_batch cfg + (if q mod y_max_batch cfg = 0 then 0 else 1)"

lemma longest_index_max:
  assumes "queues \<noteq> []"
  shows "longest_index queues < length queues" "queues ! longest_index queues = Max (set queues)"
proof -
  have "Max (set queues) \<in> set queues" using assms by simp
  then have "takeWhile (\<lambda>q. q < Max (set queues)) queues \<noteq> queues"
    by (metis less_irrefl set_takeWhileD)
  then show i: "longest_index queues < length queues"
    unfolding longest_index_def
    by (metis length_takeWhile_le le_neq_implies_less takeWhile_eq_take take_all_iff order_refl)
  then have "\<not> queues ! longest_index queues < Max (set queues)"
    unfolding longest_index_def by (rule nth_length_takeWhile)
  moreover have "queues ! longest_index queues \<le> Max (set queues)" using i by simp
  ultimately show "queues ! longest_index queues = Max (set queues)" by simp
qed

lemma queue_time_step:
  assumes "0 < q" and "0 < y_max_batch cfg"
  shows "queue_time cfg q = batch_time cfg (min q (y_max_batch cfg)) + queue_time cfg (q - min q (y_max_batch cfg))"
    and "queue_batches cfg q = 1 + queue_batches cfg (q - min q (y_max_batch cfg))"
proof -
  let ?B = "y_max_batch cfg"
  have "queue_time cfg q = batch_time cfg (min q ?B) + queue_time cfg (q - min q ?B) \<and>
      queue_batches cfg q = 1 + queue_batches cfg (q - min q ?B)"
  proof (cases "?B \<le> q")
    case True
    then have "q div ?B = Suc ((q - ?B) div ?B)" "q mod ?B = (q - ?B) mod ?B"
      using assms(2) by (simp_all add: le_div_geq le_mod_geq)
    then show ?thesis using True by (simp add: queue_time_def queue_batches_def distrib_right)
  next
    case False
    then show ?thesis using assms by (simp add: queue_time_def queue_batches_def)
  qed
  then show "queue_time cfg q = batch_time cfg (min q ?B) + queue_time cfg (q - min q ?B)"
    "queue_batches cfg q = 1 + queue_batches cfg (q - min q ?B)" by blast+
qed

lemma sum_list_map_upd:
  fixes f :: "'a \<Rightarrow> 'b::ab_group_add"
  assumes "i < length xs"
  shows "sum_list (map f (xs[i := v])) = sum_list (map f xs) - f (xs ! i) + f v"
  using assms
proof (induction xs arbitrary: i)
  case (Cons x xs)
  then show ?case by (cases i) simp_all
qed simp

lemma sum_list_upd_nat: "i < length xs \<Longrightarrow> sum_list (xs[i := v]) + xs ! i = sum_list xs + (v::nat)"
proof (induction xs arbitrary: i)
  case (Cons x xs)
  then show ?case by (cases i) auto
qed simp

lemma sum_list_map_upd_nat:
  fixes f :: "'a \<Rightarrow> nat"
  shows "i < length xs \<Longrightarrow> sum_list (map f (xs[i := v])) + f (xs ! i) = sum_list (map f xs) + f v"
proof (induction xs arbitrary: i)
  case (Cons x xs)
  then show ?case by (cases i) auto
qed simp

lemma zero_queues:
  "sum_list queues = 0 \<Longrightarrow> sum_list (map (queue_time cfg) queues) = 0 \<and> sum_list (map (queue_batches cfg) queues) = 0"
  by (induction queues) (simp_all add: queue_time_def queue_batches_def)

lemma worker_loop_closed:
  assumes cov: "table_covers cfg" and "sum_list queues \<le> fuel"
  shows "worker_loop cfg fuel queues (sum_list queues) (e, n, c)
    = Inr (e + sum_list (map (queue_time cfg) queues), n + sum_list queues,
           c + sum_list (map (queue_batches cfg) queues))"
  using assms(2)
proof (induction fuel arbitrary: queues e n c)
  case 0
  then show ?case using zero_queues [of queues cfg] by (subst worker_loop.simps) simp
next
  case (Suc fuel)
  show ?case
  proof (cases "sum_list queues = 0")
    case True
    then show ?thesis using zero_queues [of queues cfg] by (subst worker_loop.simps) simp
  next
    case False
    then have ne: "queues \<noteq> []" by auto
    define i where "i = longest_index queues"
    define q where "q = queues ! i"
    define b where "b = min q (y_max_batch cfg)"
    note li = longest_index_max [OF ne, folded i_def]
    have q: "0 < q"
    proof -
      obtain x where "x \<in> set queues" "x \<noteq> 0" using False by auto
      then have "x \<le> Max (set queues)" by simp
      then show ?thesis using \<open>x \<noteq> 0\<close> li(2) by (simp add: q_def)
    qed
    have b: "0 < b" "b \<le> q" "b \<le> y_max_batch cfg" using q cov by (auto simp: b_def table_covers_def)
    have "1 \<le> b" using b(1) by simp
    then obtain t where t: "y_lookup cfg (int b) = Some t"
      using cov b(3) unfolding table_covers_def by (metis atLeastAtMost_iff not_None_eq)
    have s: "sum_list (queues[i := q - b]) + b = sum_list queues"
      using sum_list_upd_nat [OF li(1), of "q - b"] b(2) by (simp add: q_def)
    have "worker_loop cfg (Suc fuel) queues (sum_list queues) (e, n, c)
        = worker_loop cfg fuel (queues[i := q - b]) (sum_list queues - b) (e + t, n + b, c + 1)"
      using False ne q t
      by (subst worker_loop.simps) (simp add: Let_def i_def [symmetric] q_def [symmetric] b_def [symmetric]
          del: sum_list_eq_0_iff)
    also have "sum_list queues - b = sum_list (queues[i := q - b])" using s by simp
    also have "worker_loop cfg fuel (queues[i := q - b]) (sum_list (queues[i := q - b])) (e + t, n + b, c + 1)
        = Inr (e + t + sum_list (map (queue_time cfg) (queues[i := q - b])), n + b + sum_list (queues[i := q - b]),
           c + 1 + sum_list (map (queue_batches cfg) (queues[i := q - b])))"
      using Suc.prems s b(1) by (intro Suc.IH) simp
    also have "e + t + sum_list (map (queue_time cfg) (queues[i := q - b])) = e + sum_list (map (queue_time cfg) queues)"
      using sum_list_map_upd [OF li(1), of "queue_time cfg" "q - b"] queue_time_step(1) [OF q, of cfg] cov t
      by (simp add: q_def [symmetric] b_def [symmetric] batch_time_def table_covers_def)
    also have "c + 1 + sum_list (map (queue_batches cfg) (queues[i := q - b])) = c + sum_list (map (queue_batches cfg) queues)"
      using sum_list_map_upd_nat [OF li(1), of "queue_batches cfg" "q - b"] queue_time_step(2) [OF q, of cfg] cov
      by (simp add: q_def [symmetric] b_def [symmetric] table_covers_def)
    also have "n + b + sum_list (queues[i := q - b]) = n + sum_list queues" using s by simp
    finally show ?thesis .
  qed
qed

text \<open>
  C36: Serving the longest queue first costs exactly what serving the queues one by one
  would: the loop always returns, with the time of \<open>q div B\<close> full batches and one batch
  for the rest of each queue, every token in one batch, and the batch statistics advanced by
  the number of tokens and of batches.
\<close>

theorem simulate_worker_closed_form:
  assumes "table_covers cfg"
  shows "simulate_worker cfg loads (n, c)
    = Inr (sum_list (map (queue_time cfg) loads), n + sum_list loads, c + sum_list (map (queue_batches cfg) loads))"
proof (cases "sum_list loads = 0")
  case True
  then show ?thesis using zero_queues [of loads cfg] by (simp add: simulate_worker_def)
next
  case False
  then show ?thesis using worker_loop_closed [OF assms order_refl, of loads 0 n c]
    by (simp add: simulate_worker_def del: sum_list_eq_0_iff)
qed

text \<open>A router that accepts a list of ids: request 0 goes to both experts, the others to expert 1.\<close>

definition demo_router :: "id_arg \<Rightarrow> int list \<Rightarrow> nat \<Rightarrow> int list list result" where
  "demo_router ids toks l =
     (case ids of PyList rs \<Rightarrow> Inr (map (\<lambda>r. if r = 0 then [0, 1] else [1, -1]) rs)
      | Tensor rs \<Rightarrow> Inr (map (\<lambda>r. if r = 0 then [0, 1] else [1, -1]) rs))"

definition demo_sync :: sync_config where
  "demo_sync = \<lparr>y_tokens_per_request = 1, y_num_layers = 1, y_total_experts = 2, y_ep = 2, y_max_batch = 2,
     y_attn_service_t = 2, y_attn_dp = 2, y_net_a2e = 1, y_net_e2a = 1,
     y_net_delay = Some (\<lambda>src dst n. real n), y_gpus_per_host = Some 1,
     y_lookup = (\<lambda>n. if n = 1 then Some 2 else if n = 2 then Some 3 else None),
     y_router = demo_router, y_global_max = 2\<rparr>"

lemma demo_covers: "table_covers demo_sync"
proof -
  have "{1..2::nat} = {1, 2}" by auto
  then show ?thesis by (simp add: table_covers_def demo_sync_def)
qed

theorem simulate_worker_closed_form_witness:
  "simulate_worker demo_sync [3, 0, 4] (10, 5) = Inr (11, 17, 9)"
  using simulate_worker_closed_form [OF demo_covers, of "[3, 0, 4]" 10 5]
  by (simp add: queue_time_def queue_batches_def batch_time_def demo_sync_def)

section \<open>The receive queues and the ingress ports\<close>

definition port_done :: "real \<Rightarrow> ingress_port \<Rightarrow> real" where
  "port_done t p = max t (max (ip_nvlink p) (ip_rdma p))"

lemma ip_transfer_done:
  assumes "0 \<le> d"
  shows "port_done t (snd (ip_transfer t src d p)) = max (port_done t p) (fst (ip_transfer t src d p))"
  using assms by (auto simp: ip_transfer_def port_done_def do_transfer_def Let_def)

lemma ip_transfers_done:
  assumes "\<forall>p\<in>set ts. 0 \<le> snd p"
  shows "port_done t (snd (ip_transfers t ts p)) = Max (insert (port_done t p) (set (fst (ip_transfers t ts p))))"
  using assms
proof (induction ts arbitrary: p)
  case (Cons x ts)
  obtain src d where x: "x = (src, d)" by (cases x)
  define u q where "u = fst (ip_transfer t src d p)" and "q = snd (ip_transfer t src d p)"
  have q: "port_done t q = max (port_done t p) u"
    using ip_transfer_done [of d t src p] Cons.prems x by (simp add: u_def q_def)
  have "port_done t (snd (ip_transfers t (x # ts) p)) = port_done t (snd (ip_transfers t ts q))"
    by (simp add: x q_def split_beta Let_def)
  also have "\<dots> = Max (insert (port_done t q) (set (fst (ip_transfers t ts q))))"
    using Cons by simp
  also have "\<dots> = Max (insert (port_done t p) (insert u (set (fst (ip_transfers t ts q)))))"
    unfolding q by (cases "fst (ip_transfers t ts q) = []") (simp_all add: max.assoc)
  also have "insert u (set (fst (ip_transfers t ts q))) = set (fst (ip_transfers t (x # ts) p))"
    by (simp add: x u_def q_def split_beta Let_def)
  finally show ?case .
qed simp

text \<open>The sums of the synchronous model are how far the two channels advance.\<close>

lemma transfers_are_totals:
  assumes "y_gpus_per_host cfg = Some (ip_n_gpu_per_host p)" and "ip_gpu_idx p = dst"
    and "\<forall>x\<in>set src_tokens. 0 \<le> net_delay (fst x) dst (snd x) \<and> 0 < snd x"
  defines "ts \<equiv> map (\<lambda>x. (fst x, net_delay (fst x) dst (snd x))) src_tokens"
  shows "max t (ip_nvlink (snd (ip_transfers t ts p))) - max t (ip_nvlink p)
      = fst (fold (add_delay net_delay cfg dst) src_tokens (a, b)) - a \<and>
    max t (ip_rdma (snd (ip_transfers t ts p))) - max t (ip_rdma p)
      = snd (fold (add_delay net_delay cfg dst) src_tokens (a, b)) - b"
  using assms(1-3) unfolding ts_def
proof (induction src_tokens arbitrary: p a b)
  case (Cons x xs)
  obtain src n where x: "x = (src, n)" by (cases x)
  define d q where "d = net_delay src dst n" and "q = snd (ip_transfer t src d p)"
  have d: "0 \<le> d" "0 < n" using Cons.prems(3) x by (auto simp: d_def)
  have q: "ip_n_gpu_per_host q = ip_n_gpu_per_host p" "ip_gpu_idx q = ip_gpu_idx p"
    by (simp_all add: q_def ip_transfer_def Let_def)
  have same: "y_is_same_host cfg src dst \<longleftrightarrow> ip_is_same_host p src"
    using Cons.prems(1,2) by (auto simp: y_is_same_host_def ip_is_same_host_def)
  define a' b' where "a' = (if y_is_same_host cfg src dst then a + d else a)"
    and "b' = (if y_is_same_host cfg src dst then b else b + d)"
  have step: "add_delay net_delay cfg dst x (a, b) = (a', b')"
    using d by (simp add: add_delay_def x d_def a'_def b'_def Let_def)
  have ch: "max t (ip_nvlink q) - max t (ip_nvlink p) = a' - a" "max t (ip_rdma q) - max t (ip_rdma p) = b' - b"
    using d by (auto simp: q_def ip_transfer_def do_transfer_def same a'_def b'_def Let_def)
  have IH: "max t (ip_nvlink (snd (ip_transfers t (map (\<lambda>x. (fst x, net_delay (fst x) dst (snd x))) xs) q))) - max t (ip_nvlink q)
      = fst (fold (add_delay net_delay cfg dst) xs (a', b')) - a' \<and>
    max t (ip_rdma (snd (ip_transfers t (map (\<lambda>x. (fst x, net_delay (fst x) dst (snd x))) xs) q))) - max t (ip_rdma q)
      = snd (fold (add_delay net_delay cfg dst) xs (a', b')) - b'"
    by (rule Cons.IH) (use Cons.prems q in auto)
  have unf: "snd (ip_transfers t (map (\<lambda>x. (fst x, net_delay (fst x) dst (snd x))) (x # xs)) p)
      = snd (ip_transfers t (map (\<lambda>x. (fst x, net_delay (fst x) dst (snd x))) xs) q)"
    by (simp add: x q_def d_def split_beta Let_def)
  show ?case unfolding unf fold.simps comp_def step using IH ch by linarith
qed simp

text \<open>
  The two network models agree: when all transfers of a phase to a GPU are asked for at
  once on its idle ingress port (the asynchronous simulator), the last one arrives after
  exactly the receive time that the synchronous simulators compute, the larger of the two
  links' sums.
\<close>

theorem receive_time_matches_ingress:
  assumes "y_gpus_per_host cfg = Some (ip_n_gpu_per_host p)"
    and "\<forall>x\<in>set src_tokens. 0 \<le> net_delay (fst x) (ip_gpu_idx p) (snd x) \<and> 0 < snd x"
    and "ip_nvlink p \<le> t" and "ip_rdma p \<le> t"
  shows "Max (insert t (set (fst (ip_transfers t
      (map (\<lambda>x. (fst x, net_delay (fst x) (ip_gpu_idx p) (snd x))) src_tokens) p))))
    = t + receive_time net_delay cfg (ip_gpu_idx p) src_tokens"
proof -
  let ?ts = "map (\<lambda>x. (fst x, net_delay (fst x) (ip_gpu_idx p) (snd x))) src_tokens"
  let ?q = "snd (ip_transfers t ?ts p)" and ?f = "fold (add_delay net_delay cfg (ip_gpu_idx p)) src_tokens (0, 0)"
  have "port_done t p = t" using assms(3,4) by (simp add: port_done_def)
  then have "Max (insert t (set (fst (ip_transfers t ?ts p)))) = port_done t ?q"
    using ip_transfers_done [of ?ts t p] assms(2) by simp
  also have "\<dots> = max (max t (ip_nvlink ?q)) (max t (ip_rdma ?q))" by (simp add: port_done_def)
  also have "\<dots> = max (t + fst ?f) (t + snd ?f)"
  proof -
    have m: "max t (ip_nvlink p) = t" "max t (ip_rdma p) = t" using assms(3,4) by simp_all
    note tr = transfers_are_totals [where dst = "ip_gpu_idx p" and net_delay = net_delay and t = t and a = 0 and b = 0,
        OF assms(1) refl assms(2)]
    have "max t (ip_nvlink ?q) = t + fst ?f" using conjunct1 [OF tr] unfolding m by linarith
    moreover have "max t (ip_rdma ?q) = t + snd ?f" using conjunct2 [OF tr] unfolding m by linarith
    ultimately show ?thesis by simp
  qed
  also have "\<dots> = t + receive_time net_delay cfg (ip_gpu_idx p) src_tokens"
    by (simp add: receive_time_def split_beta)
  finally show ?thesis .
qed

theorem receive_time_matches_ingress_witness:
  "Max (insert 5 (set (fst (ip_transfers 5 [(1, 2), (2, 4), (0, 3)]
      \<lparr>ip_gpu_idx = 0, ip_n_gpu_per_host = 2, ip_nvlink = 0, ip_rdma = 5\<rparr>)))) = 5 + 5"
  using receive_time_matches_ingress [of "demo_sync\<lparr>y_gpus_per_host := Some 2\<rparr>"
      "\<lparr>ip_gpu_idx = 0, ip_n_gpu_per_host = 2, ip_nvlink = 0, ip_rdma = 5\<rparr>" "[(1, 2), (2, 4), (0, 3)]"
      "\<lambda>src dst n. real n" 5]
  by (simp add: receive_time_def add_delay_def y_is_same_host_def Let_def)

section \<open>Where the tokens of a layer go\<close>

text \<open>The copies of a layer: the GPU a copy comes from and the expert it goes to.\<close>

definition row_copies :: "sync_token \<times> int list \<Rightarrow> (nat \<times> int) list" where
  "row_copies p = map (\<lambda>e. (yt_home_gpu (fst p), e)) (filter (\<lambda>e. 0 \<le> e) (snd p))"

definition layer_copies :: "(sync_token \<times> int list) list \<Rightarrow> (nat \<times> int) list" where
  "layer_copies ps = concat (map row_copies ps)"

text \<open>Rows that name at least one expert, all of them existing.\<close>

definition rows_ok :: "sync_config \<Rightarrow> (sync_token \<times> int list) list \<Rightarrow> bool" where
  "rows_ok cfg ps \<longleftrightarrow>
     (\<forall>p\<in>set ps. filter (\<lambda>e. 0 \<le> e) (snd p) \<noteq> [] \<and> (\<forall>e\<in>set (snd p). e < int (y_total_experts cfg)))"

definition experts_split :: "sync_config \<Rightarrow> bool" where
  "experts_split cfg \<longleftrightarrow> 0 < y_ep cfg \<and> y_total_experts cfg mod y_ep cfg = 0"

lemma experts_split_total: "experts_split cfg \<Longrightarrow> y_total_experts cfg = y_ep cfg * y_queues_per_worker cfg"
  by (auto simp: experts_split_def y_queues_per_worker_def)

lemma route_rows_flat:
  assumes "rows_ok cfg ps"
  shows "foldR (route_one cfg) ps acc
    = foldR (\<lambda>x acc. route_copy cfg (fst x) acc (snd x)) (layer_copies ps) acc"
proof -
  have "route_one cfg p acc = foldR (\<lambda>x acc. route_copy cfg (fst x) acc (snd x)) (row_copies p) acc"
    if "p \<in> set ps" for p acc
    using assms that by (auto simp: route_one_def Let_def rows_ok_def row_copies_def foldR_map split_beta)
  then have "foldR (route_one cfg) ps acc
      = foldR (\<lambda>p. foldR (\<lambda>x acc. route_copy cfg (fst x) acc (snd x)) (row_copies p)) ps acc"
    by (intro foldR_cong) simp_all
  then show ?thesis by (simp add: layer_copies_def foldR_concat foldR_map)
qed

definition counts_ok :: "sync_config \<Rightarrow> (nat \<times> int) list \<Rightarrow> nat list list \<times> src_counts \<Rightarrow> bool" where
  "counts_ok cfg xs acc \<longleftrightarrow>
     length (fst acc) = y_ep cfg \<and> (\<forall>w<y_ep cfg. length (fst acc ! w) = y_queues_per_worker cfg) \<and>
     (\<forall>w<y_ep cfg. \<forall>j<y_queues_per_worker cfg.
        fst acc ! w ! j = length (filter (\<lambda>x. nat (snd x) = w * y_queues_per_worker cfg + j) xs)) \<and>
     (\<forall>w g. d_get_or (d_get_or (snd acc) w []) g 0
        = length (filter (\<lambda>x. fst x = g \<and> nat (snd x) div y_queues_per_worker cfg = w) xs))"

lemma route_copy_counts:
  assumes sp: "experts_split cfg" and e: "0 \<le> e" "e < int (y_total_experts cfg)" and inv: "counts_ok cfg xs acc"
  shows "\<exists>acc'. route_copy cfg g acc e = Inr acc' \<and> counts_ok cfg (xs @ [(g, e)]) acc'"
proof -
  let ?q = "y_queues_per_worker cfg"
  obtain wq pd where acc: "acc = (wq, pd)" by (cases acc)
  have "int (y_total_experts cfg) = int (y_ep cfg * ?q)" using experts_split_total [OF sp] by simp
  then have lt: "nat e < y_ep cfg * ?q" using e by linarith
  then have q: "0 < ?q" by (cases ?q) auto
  define w j where "w = nat e div ?q" and "j = nat e mod ?q"
  have w: "w < y_ep cfg" "j < ?q" "nat e = w * ?q + j"
    using lt q by (simp_all add: w_def j_def less_mult_imp_div_less)
  have len: "length wq = y_ep cfg" "\<And>v. v < y_ep cfg \<Longrightarrow> length (wq ! v) = ?q"
    using inv by (simp_all add: counts_ok_def acc)
  define acc' where "acc' = (wq[w := (wq ! w)[j := wq ! w ! j + 1]],
      AList.update w (AList.update g (d_get_or (d_get_or pd w []) g 0 + 1) (d_get_or pd w [])) pd)"
  have "route_copy cfg g acc e = Inr acc'"
    using e q w(1,2) len by (simp add: route_copy_def acc Let_def acc'_def w_def j_def not_le)
  moreover have "counts_ok cfg (xs @ [(g, e)]) acc'"
    unfolding counts_ok_def
  proof (intro conjI allI impI)
    show "length (fst acc') = y_ep cfg" by (simp add: acc'_def len)
    show "length (fst acc' ! v) = ?q" if "v < y_ep cfg" for v
      using that len w(1) by (auto simp: acc'_def nth_list_update)
    show "fst acc' ! v ! k = length (filter (\<lambda>x. nat (snd x) = v * ?q + k) (xs @ [(g, e)]))"
      if v: "v < y_ep cfg" and k: "k < ?q" for v k
    proof -
      have old: "wq ! v ! k = length (filter (\<lambda>x. nat (snd x) = v * ?q + k) xs)"
        using inv v k by (simp add: counts_ok_def acc)
      have "nat e = v * ?q + k \<longleftrightarrow> v = w \<and> k = j"
      proof
        assume a: "nat e = v * ?q + k"
        have "v = w" "k = j" unfolding w_def j_def a using k q by simp_all
        then show "v = w \<and> k = j" by simp
      qed (use w(3) in simp)
      then show ?thesis using old v k len w(1,2) by (auto simp: acc'_def nth_list_update)
    qed
    show "d_get_or (d_get_or (snd acc') v []) h 0
        = length (filter (\<lambda>x. fst x = h \<and> nat (snd x) div ?q = v) (xs @ [(g, e)]))" for v h
    proof -
      have "d_get_or (d_get_or pd v []) h 0 = length (filter (\<lambda>x. fst x = h \<and> nat (snd x) div ?q = v) xs)"
        using inv by (simp add: counts_ok_def acc)
      then show ?thesis by (auto simp: acc'_def d_get_or_update w_def [symmetric])
    qed
  qed
  ultimately show ?thesis by blast
qed

lemma route_rows_ok:
  assumes sp: "experts_split cfg" and rows: "rows_ok cfg ps"
  shows "\<exists>acc. foldR (route_one cfg) ps (replicate (y_ep cfg) (replicate (y_queues_per_worker cfg) 0), []) = Inr acc \<and>
    counts_ok cfg (layer_copies ps) acc"
proof -
  let ?init = "(replicate (y_ep cfg) (replicate (y_queues_per_worker cfg) 0), []) :: nat list list \<times> src_counts"
  have "\<exists>acc. foldR (\<lambda>x acc. route_copy cfg (fst x) acc (snd x)) xs ?init = Inr acc \<and> counts_ok cfg xs acc"
    if "\<forall>x\<in>set xs. 0 \<le> snd x \<and> snd x < int (y_total_experts cfg)" for xs
    using that
  proof (induction xs rule: rev_induct)
    case Nil
    then show ?case by (simp add: counts_ok_def d_get_or_def)
  next
    case (snoc x xs)
    then obtain acc where acc: "foldR (\<lambda>x acc. route_copy cfg (fst x) acc (snd x)) xs ?init = Inr acc" "counts_ok cfg xs acc"
      by auto
    have "\<exists>acc'. route_copy cfg (fst x) acc (snd x) = Inr acc' \<and> counts_ok cfg (xs @ [(fst x, snd x)]) acc'"
      using snoc.prems by (intro route_copy_counts [OF sp _ _ acc(2)]) auto
    then show ?case using acc(1) by (auto simp: foldR_append)
  qed
  moreover have "\<forall>x\<in>set (layer_copies ps). 0 \<le> snd x \<and> snd x < int (y_total_experts cfg)"
    using rows by (auto simp: layer_copies_def row_copies_def rows_ok_def)
  ultimately show ?thesis unfolding route_rows_flat [OF rows] by blast
qed

lemma route_layer_ok:
  assumes "experts_split cfg" and "routed_rows cfg l tokens = Inr ps" and "rows_ok cfg ps"
  shows "\<exists>acc. route_layer cfg l tokens = Inr acc \<and> counts_ok cfg (layer_copies ps) acc"
  using route_rows_ok [OF assms(1,3)] assms(2) by (simp add: route_layer_def)

text \<open>
  Routing a layer counts exactly: the length of queue \<open>j\<close> of worker \<open>w\<close> is the number of
  copies for expert \<open>w * queues_per_worker + j\<close>, and the transfer count from a source GPU to
  a worker is the number of copies that tokens of that GPU send to the worker's experts.
\<close>

theorem route_layer_counts:
  assumes sp: "experts_split cfg" and ps: "routed_rows cfg l tokens = Inr ps" and ok: "rows_ok cfg ps"
  shows "\<exists>wq pd. route_layer cfg l tokens = Inr (wq, pd) \<and> length wq = y_ep cfg \<and>
    (\<forall>w<y_ep cfg. length (wq ! w) = y_queues_per_worker cfg \<and> (\<forall>j<y_queues_per_worker cfg.
       wq ! w ! j = length (filter (\<lambda>x. nat (snd x) = w * y_queues_per_worker cfg + j) (layer_copies ps)))) \<and>
    (\<forall>w g. d_get_or (d_get_or pd w []) g 0
       = length (filter (\<lambda>x. fst x = g \<and> nat (snd x) div y_queues_per_worker cfg = w) (layer_copies ps)))"
proof -
  obtain wq pd where "route_layer cfg l tokens = Inr (wq, pd)" "counts_ok cfg (layer_copies ps) (wq, pd)"
    using route_layer_ok [OF assms] by auto
  then show ?thesis by (intro exI [of _ wq] exI [of _ pd]) (simp add: counts_ok_def)
qed

definition demo_tokens :: "sync_token list" where
  "demo_tokens = [\<lparr>yt_tid = 0, yt_birth_time = 0, yt_request_id = 0, yt_token_index = 0, yt_home_gpu = 0\<rparr>,
     \<lparr>yt_tid = 1, yt_birth_time = 0, yt_request_id = 1, yt_token_index = 0, yt_home_gpu = 1\<rparr>]"

theorem route_layer_counts_witness:
  "\<exists>wq pd. route_layer demo_sync 0 demo_tokens = Inr (wq, pd) \<and> length wq = 2 \<and> wq ! 1 ! 0 = 2"
proof -
  let ?ps = "[(demo_tokens ! 0, [0, 1]), (demo_tokens ! 1, [1, -1])]"
  have "experts_split demo_sync" "routed_rows demo_sync 0 demo_tokens = Inr ?ps" "rows_ok demo_sync ?ps"
    by (simp_all add: experts_split_def demo_sync_def demo_tokens_def routed_rows_def demo_router_def rows_ok_def)
  from route_layer_counts [OF this]
  obtain wq pd where r: "route_layer demo_sync 0 demo_tokens = Inr (wq, pd)" "length wq = y_ep demo_sync"
    "\<forall>w<y_ep demo_sync. length (wq ! w) = y_queues_per_worker demo_sync \<and> (\<forall>j<y_queues_per_worker demo_sync.
       wq ! w ! j = length (filter (\<lambda>x. nat (snd x) = w * y_queues_per_worker demo_sync + j) (layer_copies ?ps)))"
    by blast
  have "y_ep demo_sync = 2" "y_queues_per_worker demo_sync = 1"
    "layer_copies ?ps = [(0, 0), (0, 1), (1, 1)]"
    by (simp_all add: demo_sync_def y_queues_per_worker_def layer_copies_def demo_tokens_def row_copies_def)
  then show ?thesis using r by auto
qed

end
