(* ===== verification/SimSyncRun.thy ===== *)
theory SimSyncRun
  imports SimSyncProps
begin

text \<open>
  The synchronous run as a whole: the invariant of the main loop (the counters agree with
  the requests; a request that is not completed is waiting, active or not arrived yet), its
  preservation by a pass, and the completion of every token of every request.
\<close>

section \<open>The invariant\<close>

definition counts_inv :: "sync_config \<Rightarrow> sync_sim \<Rightarrow> bool" where
  "counts_inv cfg s \<longleftrightarrow>
     (\<forall>r<total_reqs s. rq_next_token (y_requests s ! r) \<le> y_tokens_per_request cfg \<and>
        (rq_completed (y_requests s ! r) \<longleftrightarrow> rq_next_token (y_requests s ! r) = y_tokens_per_request cfg)) \<and>
     sum_list (map rq_next_token (y_requests s)) = y_completed_tokens s \<and>
     map fst (y_completion_times s) = [0..<y_completed_tokens s] \<and>
     map fst (y_token_latencies s) = [0..<y_completed_tokens s] \<and>
     length (filter rq_completed (y_requests s)) = length (y_request_latencies s)"

definition pending :: "sync_sim \<Rightarrow> nat set" where
  "pending s = set (y_waiting s) \<union> set (y_active s)"

definition queues_inv :: "sync_config \<Rightarrow> sync_sim \<Rightarrow> bool" where
  "queues_inv cfg s \<longleftrightarrow>
     y_arrival_index s \<le> total_reqs s \<and> distinct (y_waiting s @ y_active s) \<and>
     (\<forall>r\<in>pending s. r < y_arrival_index s) \<and>
     (\<forall>r<total_reqs s. \<not> rq_completed (y_requests s ! r) \<longleftrightarrow> r \<in> pending s \<or> y_arrival_index s \<le> r) \<and>
     (\<forall>r\<in>set (y_active s). rq_home_gpu (y_requests s ! r) \<noteq> None) \<and>
     (\<forall>r<total_reqs s. \<forall>g. rq_home_gpu (y_requests s ! r) = Some g \<longrightarrow> g < y_attn_dp cfg) \<and>
     length (y_active s) \<le> y_global_max cfg"

definition sync_inv :: "sync_config \<Rightarrow> sync_sim \<Rightarrow> bool" where
  "sync_inv cfg s \<longleftrightarrow> counts_inv cfg s \<and> queues_inv cfg s \<and> y_next_tid s = y_completed_tokens s"

lemma counts_inv_cong:
  assumes "y_requests s' = y_requests s" and "y_completed_tokens s' = y_completed_tokens s"
    and "y_completion_times s' = y_completion_times s" and "y_token_latencies s' = y_token_latencies s"
    and "y_request_latencies s' = y_request_latencies s"
  shows "counts_inv cfg s' = counts_inv cfg s"
  using assms by (simp add: counts_inv_def total_reqs_def)

lemma pending_open:
  assumes "queues_inv cfg s" and "r \<in> pending s"
  shows "r < total_reqs s" and "\<not> rq_completed (y_requests s ! r)"
proof -
  have "r < y_arrival_index s" "y_arrival_index s \<le> total_reqs s" using assms by (simp_all add: queues_inv_def)
  then show r: "r < total_reqs s" by simp
  show "\<not> rq_completed (y_requests s ! r)" using assms r by (simp add: queues_inv_def)
qed

section \<open>Arrivals and admission\<close>

lemma release_one_inv:
  assumes "sync_inv cfg s" and "y_arrival_index s < total_reqs s"
  shows "sync_inv cfg (s\<lparr>y_waiting := y_waiting s @ [y_arrival_index s], y_arrival_index := y_arrival_index s + 1\<rparr>)"
proof -
  let ?s = "s\<lparr>y_waiting := y_waiting s @ [y_arrival_index s], y_arrival_index := y_arrival_index s + 1\<rparr>"
  have "counts_inv cfg ?s = counts_inv cfg s" by (rule counts_inv_cong) simp_all
  moreover have "queues_inv cfg ?s"
    using assms unfolding sync_inv_def queues_inv_def pending_def total_reqs_def
    by (auto simp: less_Suc_eq le_Suc_eq Suc_le_eq)
  ultimately show ?thesis using assms(1) by (simp add: sync_inv_def)
qed

lemma release_inv: "sync_inv cfg s \<Longrightarrow> sync_inv cfg (release_new_arrivals s)"
proof (induction s rule: release_new_arrivals.induct)
  case (1 s)
  then show ?case using release_one_inv [of cfg s] by (subst release_new_arrivals.simps) auto
qed

lemma sync_inv_now: "sync_inv cfg (s\<lparr>y_now := t\<rparr>) = sync_inv cfg s"
  by (simp add: sync_inv_def counts_inv_def queues_inv_def pending_def total_reqs_def)

lemma advance_inv:
  assumes "sync_inv cfg s" and "y_arrival_index s < total_reqs s"
  shows "\<exists>s'. advance_to_next_arrival s = (True, s') \<and> sync_inv cfg s'"
  using assms by (simp add: advance_to_next_arrival_def Let_def release_inv sync_inv_now)

lemma set_home_requests:
  assumes "c < length rs"
  shows "map rq_next_token (rs[c := (rs ! c)\<lparr>rq_home_gpu := g\<rparr>]) = map rq_next_token rs"
    and "map rq_completed (rs[c := (rs ! c)\<lparr>rq_home_gpu := g\<rparr>]) = map rq_completed rs"
  using assms by (simp_all add: map_update)
    (metis list_update_id map_update)+

lemma filter_by_map: "length (filter P xs) = length (filter id (map P xs))"
  by (simp add: filter_map comp_def)

lemma set_home_counts:
  assumes "c < total_reqs s"
  shows "counts_inv cfg (set_request c ((y_requests s ! c)\<lparr>rq_home_gpu := g\<rparr>) s) = counts_inv cfg s"
proof -
  let ?rs = "(y_requests s)[c := (y_requests s ! c)\<lparr>rq_home_gpu := g\<rparr>]"
  note m = set_home_requests [OF assms [unfolded total_reqs_def], of g]
  have f: "length (filter rq_completed ?rs) = length (filter rq_completed (y_requests s))"
    unfolding filter_by_map [of rq_completed] m ..
  have nth: "rq_next_token (?rs ! r) = rq_next_token (y_requests s ! r) \<and>
      rq_completed (?rs ! r) = rq_completed (y_requests s ! r)" if "r < length (y_requests s)" for r
    using that by (metis m length_list_update nth_map)
  show ?thesis
    unfolding counts_inv_def set_request_def total_reqs_def by (auto simp: m f nth)
qed

text \<open>Admission moves requests from the waiting to the active ones, up to the limit.\<close>

lemma admit_inv:
  assumes "sync_inv cfg s" and "y_waiting s = c # rest" and "length (y_active s) < y_global_max cfg"
    and "rq_home_gpu q \<noteq> None" and "the (rq_home_gpu q) < y_attn_dp cfg"
    and "q = (y_requests s ! c)\<lparr>rq_home_gpu := rq_home_gpu q\<rparr>"
  shows "sync_inv cfg (set_request c q s\<lparr>y_waiting := rest, y_active := y_active s @ [c], y_next_home := h\<rparr>)"
proof -
  let ?s = "set_request c q s\<lparr>y_waiting := rest, y_active := y_active s @ [c], y_next_home := h\<rparr>"
  have inv: "counts_inv cfg s" "queues_inv cfg s" "y_next_tid s = y_completed_tokens s"
    using assms(1) by (simp_all add: sync_inv_def)
  then have c: "c < total_reqs s" using assms(2) by (fastforce simp: queues_inv_def pending_def)
  have "counts_inv cfg ?s = counts_inv cfg (set_request c q s)" by (rule counts_inv_cong) simp_all
  also have "\<dots> = counts_inv cfg s" by (subst assms(6)) (rule set_home_counts [OF c])
  finally have counts: "counts_inv cfg ?s" using inv(1) by simp
  have comp: "rq_completed (y_requests ?s ! r) = rq_completed (y_requests s ! r)" if "r < total_reqs s" for r
    using that c by (subst assms(6)) (simp add: set_request_def nth_list_update total_reqs_def)
  have home: "rq_home_gpu (y_requests ?s ! r) = (if r = c then rq_home_gpu q else rq_home_gpu (y_requests s ! r))" for r
    using c by (simp add: set_request_def total_reqs_def)
  have simps: "total_reqs ?s = total_reqs s" "y_arrival_index ?s = y_arrival_index s" "pending ?s = pending s"
    "distinct (y_waiting ?s @ y_active ?s) = distinct (y_waiting s @ y_active s)"
    "y_active ?s = y_active s @ [c]"
    using assms(2) by (auto simp: set_request_def total_reqs_def pending_def)
  have "queues_inv cfg ?s"
    unfolding queues_inv_def simps using inv(2) comp home assms(2-5) by (auto simp: queues_inv_def)
  then show ?thesis using counts inv(3) by (simp add: sync_inv_def set_request_def)
qed

lemma fill_inv:
  assumes "sync_inv cfg s" and "y_waiting s = ws" and "0 < y_attn_dp cfg"
  shows "sync_inv cfg (fill_loop_sync cfg ws s) \<and>
    (y_waiting (fill_loop_sync cfg ws s) = [] \<or> length (y_active (fill_loop_sync cfg ws s)) = y_global_max cfg)"
  using assms(1,2)
proof (induction ws arbitrary: s)
  case Nil
  then show ?case by simp
next
  case (Cons c rest)
  define q where "q = y_requests s ! c"
  have inv: "counts_inv cfg s" "queues_inv cfg s" using Cons.prems(1) by (simp_all add: sync_inv_def)
  show ?case
  proof (cases "length (y_active s) < y_global_max cfg")
    case False
    then show ?thesis using Cons.prems inv(2) by (simp add: queues_inv_def)
  next
    case lt: True
    have c: "c \<in> pending s" using Cons.prems(2) by (simp add: pending_def)
    then have "c < total_reqs s" using inv(2) by (fastforce simp: queues_inv_def)
    with c have "\<not> rq_completed q" using inv(2) by (auto simp: queues_inv_def q_def)
    define q' where "q' = (if rq_home_gpu q = None then q\<lparr>rq_home_gpu := Some (y_next_home s mod y_attn_dp cfg)\<rparr> else q)"
    define h where "h = (if rq_home_gpu q = None then y_next_home s + 1 else y_next_home s)"
    define s' where "s' = set_request c q' s\<lparr>y_waiting := rest, y_active := y_active s @ [c], y_next_home := h\<rparr>"
    have "fill_loop_sync cfg (c # rest) s = fill_loop_sync cfg rest s'"
    proof (cases "rq_home_gpu q = None")
      case True
      have "s' = s\<lparr>y_waiting := rest, y_requests := (y_requests s)[c := q'], y_next_home := y_next_home s + 1,
          y_active := y_active s @ [c]\<rparr>"
        using True by (intro sync_sim.equality) (simp_all add: s'_def h_def set_request_def)
      then show ?thesis using lt \<open>\<not> rq_completed q\<close> True by (simp add: Let_def q_def q'_def set_request_def)
    next
      case False
      then obtain g where "rq_home_gpu (y_requests s ! c) = Some g" by (auto simp: q_def)
      have "s' = s\<lparr>y_waiting := rest, y_active := y_active s @ [c]\<rparr>"
        using False by (intro sync_sim.equality) (auto simp: s'_def h_def q'_def q_def set_request_def)
      then show ?thesis using lt \<open>\<not> rq_completed q\<close> \<open>rq_home_gpu (y_requests s ! c) = Some g\<close>
        by (simp add: Let_def q_def)
    qed
    moreover have "sync_inv cfg s'" unfolding s'_def
    proof (rule admit_inv [OF Cons.prems lt])
      show "rq_home_gpu q' \<noteq> None" by (simp add: q'_def)
      show "the (rq_home_gpu q') < y_attn_dp cfg"
        using inv(2) \<open>c < total_reqs s\<close> assms(3) by (auto simp: q'_def q_def queues_inv_def)
      show "q' = (y_requests s ! c)\<lparr>rq_home_gpu := rq_home_gpu q'\<rparr>" by (simp add: q'_def q_def)
    qed
    ultimately show ?thesis using Cons.IH [of s'] by (simp add: s'_def)
  qed
qed

section \<open>The tokens of an iteration\<close>

lemma spawn_spec:
  assumes "\<forall>r\<in>set rs. \<not> rq_completed (y_requests s ! r) \<and>
      rq_next_token (y_requests s ! r) < y_tokens_per_request cfg \<and> rq_home_gpu (y_requests s ! r) \<noteq> None"
  shows "\<exists>toks. foldR (spawn_step cfg) rs (ts, s) = Inr (ts @ toks, s\<lparr>y_next_tid := y_next_tid s + length rs\<rparr>) \<and>
    map yt_request_id toks = rs \<and> map yt_tid toks = [y_next_tid s..<y_next_tid s + length rs] \<and>
    (\<forall>tok\<in>set toks. yt_token_index tok = rq_next_token (y_requests s ! yt_request_id tok))"
  using assms
proof (induction rs arbitrary: ts s)
  case Nil
  then show ?case by simp
next
  case (Cons r rs)
  obtain g where g: "rq_home_gpu (y_requests s ! r) = Some g" using Cons.prems by auto
  define tok where "tok = \<lparr>yt_tid = y_next_tid s, yt_birth_time = y_now s, yt_request_id = r,
    yt_token_index = rq_next_token (y_requests s ! r), yt_home_gpu = g\<rparr>"
  define s' where "s' = s\<lparr>y_next_tid := y_next_tid s + 1\<rparr>"
  have 1: "spawn_step cfg r (ts, s) = Inr (ts @ [tok], s')"
    using Cons.prems g by (simp add: spawn_step_def tok_def s'_def not_le)
  have "\<forall>r\<in>set rs. \<not> rq_completed (y_requests s' ! r) \<and>
      rq_next_token (y_requests s' ! r) < y_tokens_per_request cfg \<and> rq_home_gpu (y_requests s' ! r) \<noteq> None"
    using Cons.prems by (simp add: s'_def)
  from Cons.IH [OF this, of "ts @ [tok]"] obtain toks where toks: "foldR (spawn_step cfg) rs (ts @ [tok], s')
        = Inr ((ts @ [tok]) @ toks, s'\<lparr>y_next_tid := y_next_tid s' + length rs\<rparr>)"
      "map yt_request_id toks = rs" "map yt_tid toks = [y_next_tid s'..<y_next_tid s' + length rs]"
      "\<forall>tok\<in>set toks. yt_token_index tok = rq_next_token (y_requests s' ! yt_request_id tok)"
    by blast
  have "foldR (spawn_step cfg) (r # rs) (ts, s)
      = Inr (ts @ (tok # toks), s\<lparr>y_next_tid := y_next_tid s + length (r # rs)\<rparr>)"
    using 1 toks(1) by (simp add: s'_def)
  moreover have "map yt_request_id (tok # toks) = r # rs" using toks(2) by (simp add: tok_def)
  moreover have "map yt_tid (tok # toks) = [y_next_tid s..<y_next_tid s + length (r # rs)]"
    using toks(3) by (simp add: tok_def s'_def upt_rec)
  moreover have "\<forall>t\<in>set (tok # toks). yt_token_index t = rq_next_token (y_requests s ! yt_request_id t)"
    using toks(4) by (simp add: tok_def s'_def)
  ultimately show ?case by (intro exI [of _ "tok # toks"] conjI)
qed

section \<open>The layers\<close>

text \<open>Tokens of a run over \<open>n\<close> requests.\<close>

definition tokens_of :: "sync_config \<Rightarrow> nat \<Rightarrow> sync_token list \<Rightarrow> bool" where
  "tokens_of cfg n tokens \<longleftrightarrow>
     (\<forall>t\<in>set tokens. yt_request_id t < n \<and> yt_token_index t < y_tokens_per_request cfg)"

text \<open>
  What the router may do: the rows it returns name at least one expert, all of them existing.
  It may raise instead; \<open>router_raises\<close> says which exceptions a call for some tokens of the run
  raises, and a total router raises none.
\<close>

definition router_sound :: "sync_config \<Rightarrow> nat \<Rightarrow> bool" where
  "router_sound cfg n \<longleftrightarrow>
     (\<forall>l<y_num_layers cfg. \<forall>tokens. tokens_of cfg n tokens \<longrightarrow>
        (case routed_rows cfg l tokens of Inl err \<Rightarrow> True | Inr ps \<Rightarrow> rows_ok cfg ps))"

definition router_raises :: "sync_config \<Rightarrow> nat \<Rightarrow> py_error \<Rightarrow> bool" where
  "router_raises cfg n err \<longleftrightarrow>
     (\<exists>l<y_num_layers cfg. \<exists>tokens. tokens \<noteq> [] \<and> tokens_of cfg n tokens \<and> routed_rows cfg l tokens = Inl err)"

definition router_total :: "sync_config \<Rightarrow> nat \<Rightarrow> bool" where
  "router_total cfg n \<longleftrightarrow> router_sound cfg n \<and> (\<forall>err. \<not> router_raises cfg n err)"

text \<open>A result that satisfies \<open>P\<close>, or the exception of a router call.\<close>

definition ends :: "sync_config \<Rightarrow> nat \<Rightarrow> 'a result \<Rightarrow> ('a \<Rightarrow> bool) \<Rightarrow> bool" where
  "ends cfg n r P \<longleftrightarrow> (\<exists>x. r = Inr x \<and> P x) \<or> (\<exists>err. r = Inl err \<and> router_raises cfg n err)"

lemma ends_Inr [simp]: "ends cfg n (Inr x) P \<longleftrightarrow> P x"
  by (simp add: ends_def)

lemma ends_bind: "ends cfg n r P \<Longrightarrow> (\<And>x. P x \<Longrightarrow> ends cfg n (f x) Q) \<Longrightarrow> ends cfg n (bindR r f) Q"
  by (cases r) (simp_all add: ends_def)

lemma ends_mono: "ends cfg n r P \<Longrightarrow> (\<And>x. P x \<Longrightarrow> Q x) \<Longrightarrow> ends cfg n r Q"
  by (auto simp: ends_def)

lemma ends_total: "ends cfg n r P \<Longrightarrow> router_total cfg n \<Longrightarrow> \<exists>x. r = Inr x \<and> P x"
  by (auto simp: ends_def router_total_def)

text \<open>A router that answers each call with one valid row per request id.\<close>

lemma router_totalI:
  assumes "\<And>rids toks l. \<exists>rows. y_router cfg (PyList rids) toks l = Inr rows \<and>
    (\<forall>row\<in>set rows. filter (\<lambda>e. 0 \<le> e) row \<noteq> [] \<and> (\<forall>e\<in>set row. e < int (y_total_experts cfg)))"
  shows "router_total cfg n"
proof -
  have "\<exists>ps. routed_rows cfg l tokens = Inr ps \<and> rows_ok cfg ps" for l tokens
  proof -
    obtain rows where r: "y_router cfg (PyList (map (\<lambda>t. int (yt_request_id t)) tokens))
        (map (\<lambda>t. int (yt_token_index t)) tokens) l = Inr rows"
      "\<forall>row\<in>set rows. filter (\<lambda>e. 0 \<le> e) row \<noteq> [] \<and> (\<forall>e\<in>set row. e < int (y_total_experts cfg))"
      using assms by blast
    then have "rows_ok cfg (zip tokens rows)" unfolding rows_ok_def by (metis prod.collapse set_zip_rightD)
    then show ?thesis using r(1) by (simp add: routed_rows_def)
  qed
  then show ?thesis unfolding router_total_def router_sound_def router_raises_def
    by (metis old.sum.simps(6) sum.distinct(1))
qed

lemma worker_total:
  assumes "table_covers cfg"
  shows "\<exists>t stats'. simulate_worker cfg loads stats = Inr (t, stats')"
proof (cases "sum_list loads = 0")
  case False
  then show ?thesis using worker_loop_closed [OF assms order_refl, of loads 0 "fst stats" "snd stats"]
    by (simp add: simulate_worker_def del: sum_list_eq_0_iff)
qed (simp add: simulate_worker_def)

lemma simulate_workers_total:
  assumes "table_covers cfg"
  shows "\<exists>ts stats'. simulate_workers cfg loads stats = Inr (ts, stats')"
proof (induction loads arbitrary: stats)
  case (Cons q loads)
  obtain t st where "simulate_worker cfg q stats = Inr (t, st)" using worker_total [OF assms] by blast
  moreover obtain ts st' where "simulate_workers cfg loads st = Inr (ts, st')" using Cons.IH by blast
  ultimately show ?case by simp
qed simp

lemma run_layer_ends:
  assumes "experts_split cfg" and "table_covers cfg" and router: "router_sound cfg n" "l < y_num_layers cfg"
    and toks: "tokens_of cfg n tokens"
  shows "ends cfg n (run_layer cfg l tokens s) (\<lambda>(t, s'). same_core s s')"
proof (cases "tokens = []")
  case True
  then show ?thesis by (simp add: run_layer_def same_core_def)
next
  case False
  show ?thesis
  proof (cases "routed_rows cfg l tokens")
    case (Inl err)
    then have "router_raises cfg n err" using router(2) toks False by (auto simp: router_raises_def)
    then show ?thesis using Inl False by (auto simp: run_layer_def route_layer_def ends_def)
  next
    case (Inr ps)
    then have "rows_ok cfg ps" using router toks by (fastforce simp: router_sound_def)
    then obtain wl pd where r: "route_layer cfg l tokens = Inr (wl, pd)" using route_layer_ok [OF assms(1) Inr] by auto
    obtain ts k c where "simulate_workers cfg wl (y_batch_size s, y_batch_count s) = Inr (ts, k, c)"
      using simulate_workers_total [OF assms(2)] by (metis prod.exhaust)
    then show ?thesis using False r by (simp add: run_layer_def same_core_def Let_def)
  qed
qed

lemma run_layers_ends:
  assumes "experts_split cfg" and "table_covers cfg" and "router_sound cfg n" and "\<forall>l\<in>set ls. l < y_num_layers cfg"
    and "tokens_of cfg n tokens"
  shows "ends cfg n (run_layers cfg ls tokens s) (\<lambda>(t, s'). same_core s s')"
  using assms(4)
proof (induction ls arbitrary: s)
  case Nil
  then show ?case by (simp add: same_core_def)
next
  case (Cons l ls)
  have "l < y_num_layers cfg" using Cons.prems by simp
  note 1 = run_layer_ends [OF assms(1-3) this assms(5), of s]
  have 2: "ends cfg n (run_layers cfg ls tokens s1) (\<lambda>(t, s'). same_core s1 s')" for s1
    using Cons by simp
  show ?case unfolding run_layers.simps
    by (rule ends_bind [OF 1], clarify, rule ends_bind [OF 2]) (auto simp: same_core_def)
qed

section \<open>The end of an iteration\<close>

lemma length_filter_upd:
  "i < length xs \<Longrightarrow> \<not> P (xs ! i) \<Longrightarrow>
   length (filter P (xs[i := v])) = length (filter P xs) + (if P v then 1 else 0)"
proof (induction xs arbitrary: i)
  case (Cons x xs)
  then show ?case by (cases i) auto
qed simp

lemma finalize_token_counts:
  assumes inv: "counts_inv cfg s" and r: "yt_request_id tok < total_reqs s"
    and nc: "\<not> rq_completed (y_requests s ! yt_request_id tok)" and tid: "yt_tid tok = y_completed_tokens s"
  shows "counts_inv cfg (finalize_token cfg x tok s)"
proof -
  define r q where "r = yt_request_id tok" and "q = y_requests s ! r"
  define q' where "q' = q\<lparr>rq_next_token := rq_next_token q + 1,
    rq_completed := rq_next_token q + 1 = y_tokens_per_request cfg\<rparr>"
  have q: "rq_next_token q < y_tokens_per_request cfg" "\<not> rq_completed q" and rl: "r < length (y_requests s)"
    using inv r nc by (auto simp: counts_inv_def q_def r_def total_reqs_def order_less_le)
  let ?s = "finalize_token cfg x tok s"
  have f: "y_requests ?s = (y_requests s)[r := q']" "y_completed_tokens ?s = y_completed_tokens s + 1"
    "map fst (y_completion_times ?s) = map fst (y_completion_times s) @ [y_completed_tokens s]"
    "map fst (y_token_latencies ?s) = map fst (y_token_latencies s) @ [y_completed_tokens s]"
    "length (y_request_latencies ?s) = length (y_request_latencies s) + (if rq_completed q' then 1 else 0)"
    using q tid by (auto simp: finalize_token_def Let_def set_request_def r_def [symmetric] q_def [symmetric] q'_def
        intro!: arg_cong [where f = "list_update (y_requests s) r"])
  have "sum_list (map rq_next_token (y_requests ?s)) = y_completed_tokens ?s"
    using sum_list_map_upd_nat [OF rl, of rq_next_token q'] inv
    by (simp add: f q'_def q_def [symmetric] counts_inv_def)
  moreover have "length (filter rq_completed (y_requests ?s)) = length (y_request_latencies ?s)"
    using length_filter_upd [OF rl, of rq_completed q'] q(2) inv
    unfolding f by (simp add: q_def [symmetric] counts_inv_def)
  moreover have "total_reqs ?s = total_reqs s" by (simp add: total_reqs_def f)
  moreover have "\<forall>i<total_reqs s. rq_next_token (y_requests ?s ! i) \<le> y_tokens_per_request cfg \<and>
      (rq_completed (y_requests ?s ! i) \<longleftrightarrow> rq_next_token (y_requests ?s ! i) = y_tokens_per_request cfg)"
    using inv q(1) rl by (auto simp: f nth_list_update total_reqs_def counts_inv_def q'_def)
  ultimately show ?thesis using inv by (simp add: counts_inv_def f)
qed

lemma finalize_token_frame:
  "total_reqs (finalize_token cfg x tok s) = total_reqs s \<and> y_waiting (finalize_token cfg x tok s) = y_waiting s \<and>
   y_active (finalize_token cfg x tok s) = y_active s \<and> y_arrival_index (finalize_token cfg x tok s) = y_arrival_index s \<and>
   y_next_tid (finalize_token cfg x tok s) = y_next_tid s \<and>
   y_completed_tokens (finalize_token cfg x tok s) = y_completed_tokens s + 1 \<and>
   (r < total_reqs s \<longrightarrow> rq_home_gpu (y_requests (finalize_token cfg x tok s) ! r) = rq_home_gpu (y_requests s ! r)) \<and>
   (r \<noteq> yt_request_id tok \<longrightarrow> y_requests (finalize_token cfg x tok s) ! r = y_requests s ! r)"
  by (cases "r = yt_request_id tok") (auto simp: finalize_token_def Let_def set_request_def total_reqs_def)

lemma finalize_fold:
  fixes x :: "sync_token \<Rightarrow> real"
  assumes "counts_inv cfg s" and "distinct (map yt_request_id toks)"
    and "\<forall>tok\<in>set toks. yt_request_id tok < total_reqs s \<and> \<not> rq_completed (y_requests s ! yt_request_id tok)"
    and "map yt_tid toks = [y_completed_tokens s..<y_completed_tokens s + length toks]"
  defines "s' \<equiv> fold (\<lambda>tok. finalize_token cfg (x tok) tok) toks s"
  shows "counts_inv cfg s' \<and> total_reqs s' = total_reqs s \<and> y_waiting s' = y_waiting s \<and> y_active s' = y_active s \<and>
    y_arrival_index s' = y_arrival_index s \<and> y_next_tid s' = y_next_tid s \<and>
    y_completed_tokens s' = y_completed_tokens s + length toks \<and>
    (\<forall>r<total_reqs s. rq_home_gpu (y_requests s' ! r) = rq_home_gpu (y_requests s ! r)) \<and>
    (\<forall>r. r \<notin> yt_request_id ` set toks \<longrightarrow> y_requests s' ! r = y_requests s ! r)"
  using assms(1-4) unfolding s'_def
proof (induction toks arbitrary: s)
  case Nil
  then show ?case by simp
next
  case (Cons tok toks)
  define s1 where "s1 = finalize_token cfg (x tok) tok s"
  note fr = finalize_token_frame [of cfg "x tok" tok s, folded s1_def]
  have tid: "yt_tid tok = y_completed_tokens s" "map yt_tid toks = [y_completed_tokens s + 1..<y_completed_tokens s + 1 + length toks]"
    using Cons.prems(4) by (simp_all add: upt_rec)
  have inv: "counts_inv cfg s1"
    using finalize_token_counts [OF Cons.prems(1)] Cons.prems(3) tid(1) by (simp add: s1_def)
  have ids: "\<forall>t\<in>set toks. yt_request_id t \<noteq> yt_request_id tok" using Cons.prems(2) by (simp add: image_iff) metis
  have "\<forall>t\<in>set toks. yt_request_id t < total_reqs s1 \<and> \<not> rq_completed (y_requests s1 ! yt_request_id t)"
    using Cons.prems(3) fr ids by simp
  then have "counts_inv cfg (fold (\<lambda>tok. finalize_token cfg (x tok) tok) toks s1) \<and>
    total_reqs (fold (\<lambda>tok. finalize_token cfg (x tok) tok) toks s1) = total_reqs s1 \<and>
    y_waiting (fold (\<lambda>tok. finalize_token cfg (x tok) tok) toks s1) = y_waiting s1 \<and>
    y_active (fold (\<lambda>tok. finalize_token cfg (x tok) tok) toks s1) = y_active s1 \<and>
    y_arrival_index (fold (\<lambda>tok. finalize_token cfg (x tok) tok) toks s1) = y_arrival_index s1 \<and>
    y_next_tid (fold (\<lambda>tok. finalize_token cfg (x tok) tok) toks s1) = y_next_tid s1 \<and>
    y_completed_tokens (fold (\<lambda>tok. finalize_token cfg (x tok) tok) toks s1) = y_completed_tokens s1 + length toks \<and>
    (\<forall>r<total_reqs s1. rq_home_gpu (y_requests (fold (\<lambda>tok. finalize_token cfg (x tok) tok) toks s1) ! r) = rq_home_gpu (y_requests s1 ! r)) \<and>
    (\<forall>r. r \<notin> yt_request_id ` set toks \<longrightarrow> y_requests (fold (\<lambda>tok. finalize_token cfg (x tok) tok) toks s1) ! r = y_requests s1 ! r)"
    using Cons.prems(2) tid(2) fr inv by (intro Cons.IH) simp_all
  then show ?case using fr finalize_token_frame [of cfg "x tok" tok s, folded s1_def] by (simp add: s1_def [symmetric])
qed

text \<open>An iteration's tokens: one for each active request, with the next consecutive ids.\<close>

lemma finalize_inv:
  assumes inv: "counts_inv cfg s" "queues_inv cfg s" and ids: "map yt_request_id toks = y_active s"
    and tids: "map yt_tid toks = [y_completed_tokens s..<y_completed_tokens s + length toks]"
    and nxt: "y_next_tid s = y_completed_tokens s + length toks"
  shows "sync_inv cfg (drop_completed (fold (\<lambda>tok. finalize_token cfg (x tok) tok) toks s))"
proof -
  define s1 where "s1 = fold (\<lambda>tok. finalize_token cfg (x tok) tok) toks s"
  have act: "set (y_active s) = yt_request_id ` set toks" using ids by (metis set_map)
  have mem: "r < total_reqs s \<and> \<not> rq_completed (y_requests s ! r)" if "r \<in> pending s" for r
    using pending_open [OF inv(2) that] by blast
  have "distinct (map yt_request_id toks)" using inv(2) ids by (simp add: queues_inv_def)
  moreover have "\<forall>tok\<in>set toks. yt_request_id tok < total_reqs s \<and> \<not> rq_completed (y_requests s ! yt_request_id tok)"
    using mem act by (auto simp: pending_def)
  ultimately have s1: "counts_inv cfg s1" "total_reqs s1 = total_reqs s" "y_waiting s1 = y_waiting s" "y_active s1 = y_active s"
    "y_arrival_index s1 = y_arrival_index s" "y_next_tid s1 = y_next_tid s"
    "y_completed_tokens s1 = y_completed_tokens s + length toks"
    "\<forall>r<total_reqs s. rq_home_gpu (y_requests s1 ! r) = rq_home_gpu (y_requests s ! r)"
    "\<forall>r. r \<notin> set (y_active s) \<longrightarrow> y_requests s1 ! r = y_requests s ! r"
    using finalize_fold [OF inv(1) _ _ tids, of x] unfolding s1_def act by simp_all
  let ?s = "drop_completed s1"
  have d: "y_requests ?s = y_requests s1" "total_reqs ?s = total_reqs s" "y_waiting ?s = y_waiting s"
    "y_arrival_index ?s = y_arrival_index s" "y_active ?s = filter (\<lambda>r. \<not> rq_completed (y_requests s1 ! r)) (y_active s)"
    using s1 by (simp_all add: drop_completed_def total_reqs_def)
  have "counts_inv cfg ?s = counts_inv cfg s1" by (rule counts_inv_cong) (simp_all add: drop_completed_def)
  moreover have "queues_inv cfg ?s"
  proof -
    have q: "y_arrival_index s \<le> total_reqs s" "distinct (y_waiting s @ y_active s)"
      "\<And>r. r \<in> pending s \<Longrightarrow> r < y_arrival_index s" "length (y_active s) \<le> y_global_max cfg"
      "\<And>r. r < total_reqs s \<Longrightarrow> \<not> rq_completed (y_requests s ! r) \<longleftrightarrow> r \<in> pending s \<or> y_arrival_index s \<le> r"
      "\<forall>r\<in>set (y_active s). rq_home_gpu (y_requests s ! r) \<noteq> None"
      "\<forall>r<total_reqs s. \<forall>g. rq_home_gpu (y_requests s ! r) = Some g \<longrightarrow> g < y_attn_dp cfg"
      using inv(2) by (simp_all add: queues_inv_def)
    have "length (y_active ?s) \<le> y_global_max cfg" unfolding d using q(4) length_filter_le le_trans by blast
    moreover have "\<not> rq_completed (y_requests s1 ! r) \<longleftrightarrow> r \<in> pending ?s \<or> y_arrival_index s \<le> r" if r: "r < total_reqs s" for r
    proof (cases "r \<in> set (y_active s)")
      case True
      then have "r \<notin> set (y_waiting s)" "r < y_arrival_index s" using q(2,3) by (auto simp: pending_def)
      then show ?thesis using True by (auto simp: pending_def d)
    next
      case False
      then have "r \<in> pending ?s \<longleftrightarrow> r \<in> pending s" by (auto simp: pending_def d)
      then show ?thesis using False q(5) [OF r] s1(9) by simp
    qed
    moreover have "distinct (y_waiting ?s @ y_active ?s)" using q(2) unfolding d by auto
    moreover have "pending ?s \<subseteq> pending s" by (auto simp: pending_def d)
    then have "\<forall>r\<in>pending ?s. r < y_arrival_index s" using q(3) by blast
    moreover have "\<forall>r\<in>set (y_active ?s). rq_home_gpu (y_requests s1 ! r) \<noteq> None"
      using q(6) s1(8) mem by (simp add: d pending_def)
    moreover have "\<forall>r<total_reqs s. \<forall>g. rq_home_gpu (y_requests s1 ! r) = Some g \<longrightarrow> g < y_attn_dp cfg"
      using q(7) s1(8) by simp
    ultimately show ?thesis unfolding queues_inv_def using q(1) by (simp add: d(1-4))
  qed
  ultimately show ?thesis
    using s1 nxt by (simp add: sync_inv_def s1_def [symmetric]) (simp add: drop_completed_def)
qed

lemma spawned_finalize_inv:
  assumes inv: "sync_inv cfg s" and ids: "map yt_request_id toks = y_active s"
    and tids: "map yt_tid toks = [y_completed_tokens s..<y_completed_tokens s + length toks]"
    and core: "same_core (s\<lparr>y_next_tid := y_next_tid s + length toks\<rparr>) s3"
  shows "sync_inv cfg (drop_completed (fold (\<lambda>tok. finalize_token cfg (x tok) tok) toks (s3\<lparr>y_now := t\<rparr>)))"
proof (rule finalize_inv)
  have "counts_inv cfg (s3\<lparr>y_now := t\<rparr>) = counts_inv cfg s"
    by (rule counts_inv_cong) (use core in \<open>simp_all add: same_core_def\<close>)
  then show "counts_inv cfg (s3\<lparr>y_now := t\<rparr>)" using inv by (simp add: sync_inv_def)
  show "queues_inv cfg (s3\<lparr>y_now := t\<rparr>)"
    using inv core by (simp add: sync_inv_def same_core_def queues_inv_def pending_def total_reqs_def)
qed (use ids tids core inv in \<open>simp_all add: same_core_def sync_inv_def\<close>)

section \<open>One pass and the whole run\<close>

definition sync_ok :: "sync_config \<Rightarrow> bool" where
  "sync_ok cfg \<longleftrightarrow> experts_split cfg \<and> table_covers cfg \<and> 0 < y_tokens_per_request cfg \<and>
     0 < y_global_max cfg \<and> 0 < y_attn_dp cfg"

lemma progress_sum:
  assumes "\<forall>r<length rs. rq_next_token (rs ! r) \<le> n"
  shows "sum_list (map rq_next_token rs) \<le> length rs * n \<and>
    (sum_list (map rq_next_token rs) = length rs * n \<longleftrightarrow> (\<forall>r<length rs. rq_next_token (rs ! r) = n))"
  using assms
proof (induction rs)
  case (Cons q rs)
  then have "rq_next_token q \<le> n" and rest: "\<forall>r<length rs. rq_next_token (rs ! r) \<le> n" by fastforce+
  then show ?case using Cons.IH [OF rest] by (auto simp: less_Suc_eq_0_disj)
qed simp

lemma inv_progress:
  assumes "counts_inv cfg s"
  shows "y_completed_tokens s \<le> expected_tokens cfg s \<and>
    (y_completed_tokens s = expected_tokens cfg s \<longleftrightarrow> (\<forall>r<total_reqs s. rq_completed (y_requests s ! r)))"
  using assms progress_sum [of "y_requests s" "y_tokens_per_request cfg"]
  by (auto simp: counts_inv_def total_reqs_def expected_tokens_def)

text \<open>Every active request sends its next token.\<close>

lemma spawn_ok:
  assumes ok: "sync_ok cfg" and inv: "sync_inv cfg s" and act: "y_active s \<noteq> []"
  shows "\<exists>toks. spawn_tokens cfg s = Inr (toks, s\<lparr>y_next_tid := y_next_tid s + length toks\<rparr>) \<and> toks \<noteq> [] \<and>
    map yt_request_id toks = y_active s \<and>
    map yt_tid toks = [y_completed_tokens s..<y_completed_tokens s + length toks] \<and>
    tokens_of cfg (total_reqs s) toks"
proof -
  let ?N = "y_tokens_per_request cfg"
  have c: "counts_inv cfg s" "queues_inv cfg s" "y_next_tid s = y_completed_tokens s" using inv by (simp_all add: sync_inv_def)
  have r: "r < total_reqs s \<and> \<not> rq_completed (y_requests s ! r) \<and> rq_next_token (y_requests s ! r) < ?N \<and>
      rq_home_gpu (y_requests s ! r) \<noteq> None" if "r \<in> set (y_active s)" for r
  proof -
    have p: "r < total_reqs s" "\<not> rq_completed (y_requests s ! r)"
      using pending_open [OF c(2), of r] that by (simp_all add: pending_def)
    then have "rq_next_token (y_requests s ! r) < ?N" using c(1) by (auto simp: counts_inv_def order_less_le)
    then show ?thesis using p c(2) that by (simp add: queues_inv_def)
  qed
  then obtain toks where toks: "spawn_tokens cfg s = Inr (toks, s\<lparr>y_next_tid := y_next_tid s + length (y_active s)\<rparr>)"
      "map yt_request_id toks = y_active s" "map yt_tid toks = [y_next_tid s..<y_next_tid s + length (y_active s)]"
      "\<forall>tok\<in>set toks. yt_token_index tok = rq_next_token (y_requests s ! yt_request_id tok)"
    using spawn_spec [of "y_active s" s cfg "[]"] by (auto simp: spawn_tokens_def)
  have len: "length toks = length (y_active s)" using toks(2) by (metis length_map)
  have ids: "yt_request_id tok \<in> set (y_active s)" if "tok \<in> set toks" for tok
    using that toks(2) by (metis image_eqI set_map)
  have "tokens_of cfg (total_reqs s) toks"
    using r ids toks(4) by (simp add: tokens_of_def)
  moreover have "toks \<noteq> []" using act len by auto
  ultimately show ?thesis using toks c(3) len by auto
qed

lemma iteration_ends:
  assumes ok: "sync_ok cfg" and inv: "sync_inv cfg s" and router: "router_sound cfg (total_reqs s)"
    and act: "y_active s \<noteq> []"
  shows "\<exists>tokens s2. spawn_tokens cfg s = Inr (tokens, s2) \<and> tokens \<noteq> [] \<and>
    ends cfg (total_reqs s) (run_one_iteration cfg tokens s2)
      (\<lambda>(d, s3). sync_inv cfg (finalize_iteration cfg tokens (s3\<lparr>y_now := y_now s3 + d\<rparr>)))"
proof -
  obtain toks where toks: "spawn_tokens cfg s = Inr (toks, s\<lparr>y_next_tid := y_next_tid s + length toks\<rparr>)" "toks \<noteq> []"
    "map yt_request_id toks = y_active s" "map yt_tid toks = [y_completed_tokens s..<y_completed_tokens s + length toks]"
    "tokens_of cfg (total_reqs s) toks"
    using spawn_ok [OF ok inv act] by blast
  let ?s2 = "s\<lparr>y_next_tid := y_next_tid s + length toks\<rparr>"
  have "ends cfg (total_reqs s) (run_one_iteration cfg toks ?s2) (\<lambda>(d, s3). same_core ?s2 s3)"
    unfolding run_one_iteration_def
    using ok router toks(5) by (intro run_layers_ends) (simp_all add: sync_ok_def)
  then have "ends cfg (total_reqs s) (run_one_iteration cfg toks ?s2)
      (\<lambda>(d, s3). sync_inv cfg (finalize_iteration cfg toks (s3\<lparr>y_now := y_now s3 + d\<rparr>)))"
    by (rule ends_mono)
      (clarify, unfold finalize_iteration_def, rule spawned_finalize_inv [OF inv toks(3,4)])
  then show ?thesis using toks(1,2) by blast
qed

lemma filled_inv:
  assumes "sync_ok cfg" and "sync_inv cfg s"
  defines "s1 \<equiv> fill_active_requests cfg (release_new_arrivals s)"
  shows "sync_inv cfg s1 \<and> same_run s s1 \<and> (y_waiting s1 = [] \<or> length (y_active s1) = y_global_max cfg)"
  using fill_inv [of cfg "release_new_arrivals s" "y_waiting (release_new_arrivals s)"] release_inv [OF assms(2)] assms(1)
    filled_progress [of s cfg]
  by (auto simp: s1_def fill_active_requests_def sync_ok_def)

text \<open>With nothing active after admission there is a later arrival to go to.\<close>

lemma idle_advances:
  assumes ok: "sync_ok cfg" and inv: "sync_inv cfg s" and more: "y_completed_tokens s < expected_tokens cfg s"
    and idle: "y_active (fill_active_requests cfg (release_new_arrivals s)) = []"
  shows "\<exists>s'. advance_to_next_arrival (fill_active_requests cfg (release_new_arrivals s)) = (True, s') \<and> sync_inv cfg s'"
proof -
  define s1 where "s1 = fill_active_requests cfg (release_new_arrivals s)"
  note f = filled_inv [OF ok inv, folded s1_def]
  have "pending s1 = {}" using f ok idle by (auto simp: pending_def sync_ok_def s1_def)
  moreover have "\<exists>r<total_reqs s1. \<not> rq_completed (y_requests s1 ! r)"
    using inv_progress [of cfg s1] f more by (auto simp: sync_inv_def same_run_def expected_tokens_def)
  ultimately have "y_arrival_index s1 < total_reqs s1" using f by (auto simp: sync_inv_def queues_inv_def)
  then show ?thesis using advance_inv f unfolding s1_def [symmetric] by blast
qed

lemma sync_pass_ends:
  assumes ok: "sync_ok cfg" and inv: "sync_inv cfg s" and router: "router_sound cfg (total_reqs s)"
    and more: "y_completed_tokens s < expected_tokens cfg s"
  shows "ends cfg (total_reqs s) (sync_pass cfg s) (\<lambda>(b, s'). b \<and> sync_inv cfg s')"
proof -
  define s1 where "s1 = fill_active_requests cfg (release_new_arrivals s)"
  note f = filled_inv [OF ok inv, folded s1_def]
  show ?thesis
  proof (cases "y_active s1 = []")
    case True
    then show ?thesis using idle_advances [OF ok inv more] by (auto simp: sync_pass_def Let_def s1_def)
  next
    case False
    have n: "total_reqs s1 = total_reqs s" using f by (simp add: same_run_def)
    obtain tokens s2 where it: "spawn_tokens cfg s1 = Inr (tokens, s2)" "tokens \<noteq> []"
      "ends cfg (total_reqs s) (run_one_iteration cfg tokens s2)
        (\<lambda>(d, s3). sync_inv cfg (finalize_iteration cfg tokens (s3\<lparr>y_now := y_now s3 + d\<rparr>)))"
      using iteration_ends [OF ok _ _ False] f router n by auto
    have "ends cfg (total_reqs s) (bindR (run_one_iteration cfg tokens s2) (\<lambda>(d, s).
        Inr (True, finalize_iteration cfg tokens (s\<lparr>y_now := y_now s + d\<rparr>)))) (\<lambda>(b, s'). b \<and> sync_inv cfg s')"
      by (rule ends_bind [OF it(3)]) auto
    then show ?thesis using False it(1,2) by (simp add: sync_pass_def Let_def s1_def [symmetric])
  qed
qed

lemma sync_pass_ok:
  assumes "sync_ok cfg" and "sync_inv cfg s" and "router_total cfg (total_reqs s)"
    and "y_completed_tokens s < expected_tokens cfg s"
  shows "\<exists>s'. sync_pass cfg s = Inr (True, s') \<and> sync_inv cfg s'"
  using ends_total [OF sync_pass_ends [OF assms(1,2) _ assms(4)] assms(3)] assms(3)
  by (auto simp: router_total_def)

lemma sync_pass_total:
  assumes "sync_pass cfg s = Inr (b, s')"
  shows "total_reqs s' = total_reqs s"
proof -
  define s1 where "s1 = fill_active_requests cfg (release_new_arrivals s)"
  have s1: "total_reqs s1 = total_reqs s"
    using fill_progress [of "release_new_arrivals s" cfg] release_progress [of s] by (auto simp: s1_def same_run_def)
  have adv: "total_reqs s' = total_reqs s2" if "advance_to_next_arrival s2 = (b, s')" for s2
    using that advance_progress [of s2 s']
    by (cases b) (auto simp: same_run_def advance_to_next_arrival_def Let_def split: if_splits)
  show ?thesis
    using assms s1 adv
    by (auto simp: sync_pass_def Let_def s1_def [symmetric] res run_one_iteration_def split: if_splits
        dest!: spawn_progress run_layers_progress simp: finalize_progress same_run_def)
      (simp_all add: total_reqs_def)
qed

lemma sync_run_ends:
  assumes "sync_ok cfg" and "sync_inv cfg s" and "router_sound cfg (total_reqs s)"
  shows "ends cfg (total_reqs s) (sync_run cfg s) (\<lambda>s'. sync_inv cfg s' \<and> total_reqs s' = total_reqs s \<and>
    y_completed_tokens s' = expected_tokens cfg s)"
  using assms
proof (induction cfg s rule: sync_run.induct)
  case (1 cfg s)
  show ?case
  proof (cases "y_completed_tokens s < expected_tokens cfg s")
    case True
    note pass = sync_pass_ends [OF "1.prems" True]
    show ?thesis
    proof (cases "sync_pass cfg s")
      case (Inl err)
      then have "sync_run cfg s = Inl err" using True by (subst sync_run.simps) simp
      then show ?thesis using pass Inl by (simp add: ends_def)
    next
      case (Inr r)
      then obtain s' where s': "sync_pass cfg s = Inr (True, s')" "sync_inv cfg s'"
        using pass by (cases r) auto
      have n: "total_reqs s' = total_reqs s" by (rule sync_pass_total [OF s'(1)])
      have "sync_run cfg s = sync_run cfg s'" using True s'(1) by (subst sync_run.simps) simp
      then show ?thesis
        using "1.IH" [OF True s'(1) refl refl "1.prems"(1) s'(2)] "1.prems"(3) n by (simp add: expected_tokens_def)
    qed
  next
    case False
    then have "y_completed_tokens s = expected_tokens cfg s"
      using inv_progress [of cfg s] "1.prems"(2) by (simp add: sync_inv_def)
    then show ?thesis using False "1.prems"(2) by (subst sync_run.simps) simp
  qed
qed

lemma sync_run_ok:
  assumes "sync_ok cfg" and "sync_inv cfg s" and "router_total cfg (total_reqs s)"
  shows "\<exists>s'. sync_run cfg s = Inr s' \<and> sync_inv cfg s' \<and> total_reqs s' = total_reqs s \<and>
    y_completed_tokens s' = expected_tokens cfg s"
  using ends_total [OF sync_run_ends [OF assms(1,2)] assms(3)] assms(3) by (auto simp: router_total_def)

text \<open>The router's conditions read only four fields of the configuration.\<close>

lemma router_conditions:
  assumes "y_router cfg = y_router cfg0" and "y_num_layers cfg = y_num_layers cfg0"
    and "y_total_experts cfg = y_total_experts cfg0" and "y_tokens_per_request cfg = y_tokens_per_request cfg0"
  shows "routed_rows cfg = routed_rows cfg0" "router_sound cfg n = router_sound cfg0 n"
    "router_raises cfg n = router_raises cfg0 n" "router_total cfg n = router_total cfg0 n"
proof -
  show r: "routed_rows cfg = routed_rows cfg0" using assms by (simp add: routed_rows_def fun_eq_iff)
  have k: "rows_ok cfg = rows_ok cfg0" using assms by (simp add: rows_ok_def fun_eq_iff)
  show s: "router_sound cfg n = router_sound cfg0 n"
    unfolding router_sound_def tokens_of_def r k by (simp add: assms)
  show e: "router_raises cfg n = router_raises cfg0 n"
    using assms by (simp add: router_raises_def tokens_of_def r fun_eq_iff)
  show "router_total cfg n = router_total cfg0 n" by (simp add: router_total_def s e)
qed

lemma sync_init_inv:
  assumes "sync_init cfg0 arrivals = Inr (cfg, s)" and "table_covers cfg0" and "0 < y_tokens_per_request cfg0"
  shows "sync_ok cfg \<and> sync_inv cfg s \<and> total_reqs s = length arrivals \<and>
    router_total cfg n = router_total cfg0 n \<and> y_tokens_per_request cfg = y_tokens_per_request cfg0 \<and>
    router_sound cfg n = router_sound cfg0 n \<and> router_raises cfg n = router_raises cfg0 n \<and>
    routed_rows cfg = routed_rows cfg0 \<and> y_num_layers cfg = y_num_layers cfg0"
proof -
  have 0: "0 < y_ep cfg0" "y_total_experts cfg0 mod y_ep cfg0 = 0"
    and cfg: "cfg = cfg0\<lparr>y_attn_dp := max 1 (y_attn_dp cfg0), y_gpus_per_host := map_option (max 1) (y_gpus_per_host cfg0),
      y_global_max := max 1 (y_global_max cfg0)\<rparr>"
    and s: "y_requests s = map (\<lambda>t. \<lparr>rq_arrival_time = t, rq_home_gpu = None, rq_next_token = 0, rq_completed = False\<rparr>) arrivals"
      "y_arrival_index s = 0" "y_waiting s = []" "y_active s = []" "y_next_tid s = 0" "y_completed_tokens s = 0"
      "y_completion_times s = []" "y_token_latencies s = []" "y_request_latencies s = []"
    using assms(1) by (auto simp: sync_init_def split: if_splits)
  have "sync_ok cfg" using 0 assms(2,3) by (simp add: cfg sync_ok_def experts_split_def table_covers_def less_max_iff_disj)
  moreover have "sum_list (map (\<lambda>t. 0::nat) arrivals) = 0" by simp
  then have "sync_inv cfg s"
    using assms(3) by (simp add: sync_inv_def counts_inv_def queues_inv_def pending_def total_reqs_def s cfg comp_def filter_map)
  moreover have "y_router cfg = y_router cfg0" "y_num_layers cfg = y_num_layers cfg0"
    "y_total_experts cfg = y_total_experts cfg0" "y_tokens_per_request cfg = y_tokens_per_request cfg0"
    by (simp_all add: cfg)
  moreover note router_conditions [OF this]
  ultimately show ?thesis by (simp add: total_reqs_def s)
qed

text \<open>
  C17: The synchronous run completes everything or stops with an exception of its router: from
  any arrival times, with a table that covers the batch sizes and a router whose rows name
  existing experts, the loop ends.  Either every request has generated all its tokens, exactly
  one completion time and one latency is recorded for each token id, one latency for each
  request, and nothing is left waiting or active; or the exception is the one the router
  raised when it was called for tokens of the run.  None of the simulator's own errors occurs
  and the \<open>advance\<close> exit is never taken early.
\<close>

theorem sync_run_completes:
  assumes "sync_init cfg0 arrivals = Inr (cfg, s)" and "table_covers cfg0" and "0 < y_tokens_per_request cfg0"
    and "router_sound cfg0 (length arrivals)"
  shows "(\<exists>s'. sync_run cfg s = Inr s' \<and>
      (\<forall>r<length arrivals. rq_completed (y_requests s' ! r) \<and> rq_next_token (y_requests s' ! r) = y_tokens_per_request cfg) \<and>
      map fst (y_completion_times s') = [0..<length arrivals * y_tokens_per_request cfg] \<and>
      map fst (y_token_latencies s') = [0..<length arrivals * y_tokens_per_request cfg] \<and>
      length (y_request_latencies s') = length arrivals \<and> y_waiting s' = [] \<and> y_active s' = []) \<or>
    (\<exists>err l tokens. sync_run cfg s = Inl err \<and> l < y_num_layers cfg \<and> tokens \<noteq> [] \<and>
      tokens_of cfg0 (length arrivals) tokens \<and> routed_rows cfg l tokens = Inl err)"
proof -
  note i = sync_init_inv [OF assms(1-3)]
  have "ends cfg (length arrivals) (sync_run cfg s) (\<lambda>s'. sync_inv cfg s' \<and> total_reqs s' = length arrivals \<and>
      y_completed_tokens s' = length arrivals * y_tokens_per_request cfg)"
    using sync_run_ends [of cfg s] i assms(4) by (simp add: expected_tokens_def)
  then show ?thesis unfolding ends_def
  proof
    assume "\<exists>err. sync_run cfg s = Inl err \<and> router_raises cfg (length arrivals) err"
    then obtain err where "sync_run cfg s = Inl err" "router_raises cfg (length arrivals) err" by blast
    then show ?thesis using i by (auto simp: router_raises_def tokens_of_def)
  next
    assume "\<exists>s'. sync_run cfg s = Inr s' \<and> sync_inv cfg s' \<and> total_reqs s' = length arrivals \<and>
      y_completed_tokens s' = length arrivals * y_tokens_per_request cfg"
    then obtain s' where s': "sync_run cfg s = Inr s'" "sync_inv cfg s'" "total_reqs s' = length arrivals"
      "y_completed_tokens s' = length arrivals * y_tokens_per_request cfg" by blast
    have c: "counts_inv cfg s'" "queues_inv cfg s'" using s'(2) by (simp_all add: sync_inv_def)
    have all: "\<forall>r<length arrivals. rq_completed (y_requests s' ! r)"
      using inv_progress [OF c(1)] s'(3,4) by (simp add: expected_tokens_def)
    then have "\<forall>q\<in>set (y_requests s'). rq_completed q" using s'(3) by (auto simp: in_set_conv_nth total_reqs_def)
    then have "filter rq_completed (y_requests s') = y_requests s'" by simp
    moreover have "pending s' = {}" using pending_open [OF c(2)] all s'(3) by auto
    ultimately show ?thesis using s' c(1) all by (auto simp: counts_inv_def pending_def total_reqs_def)
  qed
qed

lemma demo_router_total: "router_total demo_sync n"
  by (rule router_totalI) (auto simp: demo_sync_def demo_router_def)

theorem sync_run_completes_witness:
  "\<exists>cfg s s'. sync_init demo_sync [1, 3] = Inr (cfg, s) \<and> sync_run cfg s = Inr s' \<and>
    map fst (y_completion_times s') = [0, 1] \<and> length (y_request_latencies s') = 2"
proof -
  obtain cfg s where init: "sync_init demo_sync [1, 3] = Inr (cfg, s)" "y_tokens_per_request cfg = 1"
    "routed_rows cfg = routed_rows demo_sync" "y_num_layers cfg = y_num_layers demo_sync"
    by (simp add: sync_init_def demo_sync_def routed_rows_def fun_eq_iff)
  have router: "router_sound demo_sync (length [1, 3 :: real])" "\<And>err. \<not> router_raises demo_sync (length [1, 3 :: real]) err"
    using demo_router_total by (simp_all add: router_total_def)
  have "0 < y_tokens_per_request demo_sync" by (simp add: demo_sync_def)
  from sync_run_completes [OF init(1) demo_covers this router(1)] router(2) init
  show ?thesis by (auto simp: upt_rec router_raises_def)
qed

end
