(* ===== verification/SimTboProps.thy ===== *)
theory SimTboProps
  imports SimTbo SimSyncRun
begin

text \<open>
  What the two-batch-overlap simulator guarantees: bounds of the schedule and exclusive use
  of the compute resource, an even split into microbatches, routing that splits the queues
  and transfers of the synchronous simulator, and the completion of every token.
\<close>

section \<open>The schedule\<close>

definition task_dur :: "tbo_task \<Rightarrow> real" where
  "task_dur t = fst (snd t)"

definition known_kind :: "tbo_task \<Rightarrow> bool" where
  "known_kind t \<longleftrightarrow> fst t = ''compute'' \<or> is_comm (fst t)"

definition task_ok :: "tbo_task \<Rightarrow> bool" where
  "task_ok t \<longleftrightarrow> known_kind t \<and> 0 \<le> task_dur t"

definition all_dur :: "tbo_task list \<Rightarrow> real" where
  "all_dur ts = sum_list (map task_dur ts)"

definition compute_dur :: "tbo_task list \<Rightarrow> real" where
  "compute_dur ts = sum_list (map task_dur (filter (\<lambda>t. fst t = ''compute'') ts))"

text \<open>A microbatch on its own: when it is ready, and until when its transfers are in flight.\<close>

definition alone_step :: "tbo_task \<Rightarrow> real \<times> real \<Rightarrow> real \<times> real" where
  "alone_step t ri =
     (if fst t = ''compute'' then (max (fst ri) (snd ri) + task_dur t, snd ri)
      else (fst ri, max (snd ri) (fst ri + task_dur t)))"

definition alone :: "tbo_task list \<Rightarrow> real \<times> real" where
  "alone ts = fold alone_step ts (0, 0)"

lemma dur_snoc:
  "all_dur (ts @ [t]) = all_dur ts + task_dur t"
  "compute_dur (ts @ [t]) = compute_dur ts + (if fst t = ''compute'' then task_dur t else 0)"
  "alone (ts @ [t]) = alone_step t (alone ts)"
  by (simp_all add: all_dur_def compute_dur_def alone_def)

definition done_tasks :: "(nat \<Rightarrow> tbo_task list) \<Rightarrow> sched_state \<Rightarrow> nat \<Rightarrow> tbo_task list" where
  "done_tasks tasks st mb = take (sc_next_idx st mb) (tasks mb)"

definition sched_inv :: "(nat \<Rightarrow> tbo_task list) \<Rightarrow> sched_state \<Rightarrow> bool" where
  "sched_inv tasks st \<longleftrightarrow>
     (\<forall>mb<2. sc_next_idx st mb \<le> length (tasks mb) \<and>
        sc_inflight_until st mb \<le> all_dur (done_tasks tasks st 0) + all_dur (done_tasks tasks st 1) \<and>
        fst (alone (done_tasks tasks st mb)) \<le> sc_ready st mb \<and>
        snd (alone (done_tasks tasks st mb)) \<le> sc_inflight_until st mb) \<and>
     sc_compute_free st = max (sc_ready st 0) (sc_ready st 1) \<and>
     compute_dur (done_tasks tasks st 0) + compute_dur (done_tasks tasks st 1) \<le> sc_compute_free st \<and>
     sc_compute_free st \<le> all_dur (done_tasks tasks st 0) + all_dur (done_tasks tasks st 1)"

text \<open>A compute task starts when its data, its microbatch and the resource are all free.\<close>

definition est_of :: "sched_state \<Rightarrow> nat \<Rightarrow> tbo_task \<Rightarrow> real" where
  "est_of st mb t =
     (if fst t = ''compute'' then max (max (sc_ready st mb) (sc_inflight_until st mb)) (sc_compute_free st)
      else sc_ready st mb)"

lemma candidate_est:
  assumes "\<forall>t\<in>set (tasks mb). known_kind t" and "sc_next_idx st mb < length (tasks mb)"
  shows "candidate tasks st mb = Inr [(est_of st mb (tasks mb ! sc_next_idx st mb), kind_prio (fst (tasks mb ! sc_next_idx st mb)), mb)]"
proof -
  have "known_kind (tasks mb ! sc_next_idx st mb)" using assms by simp
  then show ?thesis using assms(2) by (auto simp: candidate_def est_of_def known_kind_def is_comm_def Let_def not_le)
qed

lemma candidates_est:
  assumes "\<forall>mb<2. \<forall>t\<in>set (tasks mb). known_kind t"
  shows "\<exists>cs. candidates tasks st = Inr cs \<and>
    (cs = [] \<longleftrightarrow> (\<forall>mb<2. length (tasks mb) \<le> sc_next_idx st mb)) \<and>
    (\<forall>c\<in>set cs. snd (snd c) < 2 \<and> sc_next_idx st (snd (snd c)) < length (tasks (snd (snd c))) \<and>
       fst c = est_of st (snd (snd c)) (tasks (snd (snd c)) ! sc_next_idx st (snd (snd c))))"
proof -
  have c: "\<exists>cs. candidate tasks st mb = Inr cs \<and> (cs = [] \<longleftrightarrow> length (tasks mb) \<le> sc_next_idx st mb) \<and>
      (\<forall>c\<in>set cs. snd (snd c) = mb \<and> sc_next_idx st mb < length (tasks mb) \<and>
         fst c = est_of st mb (tasks mb ! sc_next_idx st mb))" if "mb < 2" for mb
  proof (cases "sc_next_idx st mb < length (tasks mb)")
    case True
    then show ?thesis using candidate_est [of tasks mb st] assms that by simp
  next
    case False
    then show ?thesis by (simp add: candidate_def)
  qed
  obtain c0 where c0: "candidate tasks st 0 = Inr c0" "c0 = [] \<longleftrightarrow> length (tasks 0) \<le> sc_next_idx st 0"
    "\<forall>c\<in>set c0. snd (snd c) = 0 \<and> sc_next_idx st 0 < length (tasks 0) \<and> fst c = est_of st 0 (tasks 0 ! sc_next_idx st 0)"
    using c [of 0] by auto
  obtain c1 where c1: "candidate tasks st 1 = Inr c1" "c1 = [] \<longleftrightarrow> length (tasks 1) \<le> sc_next_idx st 1"
    "\<forall>c\<in>set c1. snd (snd c) = 1 \<and> sc_next_idx st 1 < length (tasks 1) \<and> fst c = est_of st 1 (tasks 1 ! sc_next_idx st 1)"
    using c [of 1] by auto
  have two: "(\<forall>mb<2. P mb) \<longleftrightarrow> P 0 \<and> P (1::nat)" for P by (auto simp: less_2_cases_iff)
  show ?thesis
    unfolding two candidates_def using c0 c1 by (intro exI [of _ "c0 @ c1"]) auto
qed

lemma launch_fields:
  shows "sc_ready (fst (launch step base t est mb sc)) = (if fst t = ''compute'' then (sc_ready (fst sc))(mb := est + task_dur t) else sc_ready (fst sc))"
    and "sc_compute_free (fst (launch step base t est mb sc)) = (if fst t = ''compute'' then est + task_dur t else sc_compute_free (fst sc))"
    and "sc_inflight_until (fst (launch step base t est mb sc)) = (if fst t = ''compute'' then sc_inflight_until (fst sc)
           else (sc_inflight_until (fst sc))(mb := max (sc_inflight_until (fst sc) mb) (est + task_dur t)))"
  by (auto simp: launch_def split_beta Let_def task_dur_def max_def)

lemma launch_inv:
  assumes inv: "sched_inv tasks st" and mb: "mb < 2" and i: "sc_next_idx st mb < length (tasks mb)"
    and t: "t = tasks mb ! sc_next_idx st mb" and ok: "task_ok t"
  shows "sched_inv tasks (fst (launch step base t (est_of st mb t) mb (st, cap)))"
proof -
  define E where "E = est_of st mb t"
  define st' where "st' = fst (launch step base t E mb (st, cap))"
  have dn: "done_tasks tasks st' mb = done_tasks tasks st mb @ [t]"
    using i by (simp add: done_tasks_def launch_next_idx t take_Suc_conv_app_nth st'_def)
  have dn': "done_tasks tasks st' mb' = done_tasks tasks st mb'" if "mb' \<noteq> mb" for mb'
    using that by (simp add: done_tasks_def launch_next_idx st'_def)
  have nx: "sc_next_idx st' m \<le> length (tasks m)" if "m < 2" for m
    using inv i that by (simp add: sched_inv_def launch_next_idx st'_def)
  note f = launch_fields [of step base t E mb "(st, cap)", folded st'_def, unfolded fst_conv]
  have d: "0 \<le> task_dur t" using ok by (simp add: task_ok_def)
  define T C where "T = all_dur (done_tasks tasks st 0) + all_dur (done_tasks tasks st 1)"
    and "C = compute_dur (done_tasks tasks st 0) + compute_dur (done_tasks tasks st 1)"
  have mb01: "mb = 0 \<or> mb = 1" using mb by auto
  have T': "all_dur (done_tasks tasks st' 0) + all_dur (done_tasks tasks st' 1) = T + task_dur t"
    using mb01 dn dn' by (auto simp: T_def dur_snoc)
  have C': "compute_dur (done_tasks tasks st' 0) + compute_dur (done_tasks tasks st' 1)
      = C + (if fst t = ''compute'' then task_dur t else 0)"
    using mb01 dn dn' by (auto simp: C_def dur_snoc)
  have I: "\<And>m. m < 2 \<Longrightarrow> sc_inflight_until st m \<le> T" "\<And>m. m < 2 \<Longrightarrow> fst (alone (done_tasks tasks st m)) \<le> sc_ready st m"
    "\<And>m. m < 2 \<Longrightarrow> snd (alone (done_tasks tasks st m)) \<le> sc_inflight_until st m"
    "sc_compute_free st = max (sc_ready st 0) (sc_ready st 1)" "C \<le> sc_compute_free st" "sc_compute_free st \<le> T"
    using inv unfolding sched_inv_def T_def C_def by blast+
  have R: "sc_ready st m \<le> sc_compute_free st" if "m < 2" for m using that I(4) by (auto simp: less_2_cases_iff)
  have E1: "sc_ready st mb \<le> E" "E \<le> T" "fst t = ''compute'' \<Longrightarrow> sc_inflight_until st mb \<le> E \<and> sc_compute_free st \<le> E"
    using I(1) [OF mb] I(6) R [OF mb] by (auto simp: E_def est_of_def)
  have "sc_inflight_until st' m \<le> T + task_dur t" if "m < 2" for m
    using I(1) [OF that] I(1) [OF mb] E1 d by (auto simp: f)
  moreover have "fst (alone (done_tasks tasks st' m)) \<le> sc_ready st' m \<and> snd (alone (done_tasks tasks st' m)) \<le> sc_inflight_until st' m"
    if m: "m < 2" for m
  proof (cases "m = mb")
    case True
    then show ?thesis using I(2,3) [OF mb] E1 by (auto simp: dn f dur_snoc(3) alone_step_def)
  next
    case False
    then show ?thesis using I(2,3) [OF m] by (simp add: dn' f)
  qed
  moreover have "sc_compute_free st' = max (sc_ready st' 0) (sc_ready st' 1)"
    using I(4) E1 d R [of 0] R [of 1] mb01 by (auto simp: f max_def)
  moreover have "C + (if fst t = ''compute'' then task_dur t else 0) \<le> sc_compute_free st'" "sc_compute_free st' \<le> T + task_dur t"
    using I(5,6) E1 d by (auto simp: f)
  ultimately show ?thesis unfolding E_def [symmetric] st'_def [symmetric] sched_inv_def T' C' using nx by blast
qed

text \<open>The compute operations of the timeline: one after the other, the last one ended.\<close>

definition compute_ops :: "timeline option \<Rightarrow> timeline_op list" where
  "compute_ops capture =
     (case capture of None \<Rightarrow> [] | Some tml \<Rightarrow> filter (\<lambda>x. op_resource x = ''compute'') (tl_ops tml))"

definition exclusive_until :: "real \<Rightarrow> timeline option \<Rightarrow> bool" where
  "exclusive_until t capture \<longleftrightarrow>
     sorted_wrt (\<lambda>a b. op_end_time a \<le> op_start_time b) (compute_ops capture) \<and>
     (\<forall>x\<in>set (compute_ops capture). op_end_time x \<le> t)"

lemma exclusive_later: "exclusive_until t capture \<Longrightarrow> t \<le> u \<Longrightarrow> exclusive_until u capture"
  by (fastforce simp: exclusive_until_def)

lemma capture_comm: "compute_ops (capture_op step mb l stage ''comm'' a b capture) = compute_ops capture"
  by (simp add: compute_ops_def capture_op_def record_op_def split: option.splits)

lemma capture_compute:
  "\<exists>x. op_start_time x = a \<and> op_end_time x = b \<and>
     (compute_ops (capture_op step mb l stage ''compute'' a b capture) = compute_ops capture \<or>
      compute_ops (capture_op step mb l stage ''compute'' a b capture) = compute_ops capture @ [x])"
proof (cases capture)
  case None
  then show ?thesis by (intro exI [of _ "\<lparr>op_idx = 0, op_step_idx = 0, op_microbatch = 0, op_layer_idx = 0, op_stage = [],
      op_resource = [], op_start_time = a, op_end_time = b\<rparr>"]) (simp add: compute_ops_def capture_op_def)
next
  case (Some tml)
  then show ?thesis by (intro exI [of _ "\<lparr>op_idx = length (tl_ops tml), op_step_idx = step, op_microbatch = mb,
      op_layer_idx = l, op_stage = stage, op_resource = ''compute'', op_start_time = a, op_end_time = b\<rparr>"])
    (simp add: compute_ops_def capture_op_def record_op_def)
qed

lemma launch_exclusive:
  assumes ex: "exclusive_until (base + sc_compute_free st) cap" and ok: "task_ok t"
  shows "exclusive_until (base + sc_compute_free (fst (launch step base t (est_of st mb t) mb (st, cap))))
    (snd (launch step base t (est_of st mb t) mb (st, cap)))"
proof (cases "fst t = ''compute''")
  case False
  then show ?thesis using ex by (simp add: launch_def split_beta Let_def)
next
  case True
  define E where "E = est_of st mb t"
  obtain kind dur stage l where t: "t = (kind, dur, stage, l)" by (cases t)
  define cap1 where "cap1 = (let (wait_stage, wait_layer) =
      (case sc_inflight_src st mb of None \<Rightarrow> (''comm'', -1) | Some src \<Rightarrow> src);
      t0 = max (sc_ready st mb) (sc_compute_free st); until = sc_inflight_until st mb
    in if t0 < until then capture_op step mb wait_layer wait_stage ''comm'' (base + t0) (base + until) cap else cap)"
  have c1: "compute_ops cap1 = compute_ops cap" by (simp add: cap1_def Let_def split_beta capture_comm)
  have l: "launch step base t E mb (st, cap) = (st\<lparr>sc_ready := (sc_ready st)(mb := E + dur), sc_compute_free := E + dur,
      sc_next_idx := (sc_next_idx st)(mb := sc_next_idx st mb + 1)\<rparr>,
      capture_op step mb l stage ''compute'' (base + E) (base + (E + dur)) cap1)"
    using True by (simp add: launch_def t cap1_def Let_def split_beta)
  have E: "sc_compute_free st \<le> E" "0 \<le> dur" using True ok by (simp_all add: E_def est_of_def task_ok_def task_dur_def t)
  obtain x where x: "op_start_time x = base + E" "op_end_time x = base + (E + dur)"
    and r: "compute_ops (snd (launch step base t E mb (st, cap))) = compute_ops cap \<or>
      compute_ops (snd (launch step base t E mb (st, cap))) = compute_ops cap @ [x]"
    using capture_compute [of "base + E" "base + (E + dur)" step mb l stage cap1] c1 unfolding l by auto
  have "exclusive_until (base + (E + dur)) (snd (launch step base t E mb (st, cap)))"
    using r
  proof
    assume "compute_ops (snd (launch step base t E mb (st, cap))) = compute_ops cap"
    then show ?thesis using ex E by (fastforce simp: exclusive_until_def)
  next
    assume "compute_ops (snd (launch step base t E mb (st, cap))) = compute_ops cap @ [x]"
    then show ?thesis using ex E x by (fastforce simp: exclusive_until_def sorted_wrt_append)
  qed
  then show ?thesis unfolding E_def [symmetric] by (simp add: l)
qed

lemma schedule_loop_total:
  assumes "\<forall>mb<2. \<forall>t\<in>set (tasks mb). known_kind t"
  shows "\<exists>r. schedule_loop step base tasks sc = Inr r"
  using assms
proof (induction step base tasks sc rule: schedule_loop.induct)
  case (1 step base tasks sc)
  obtain cs where cs: "candidates tasks (fst sc) = Inr cs" using candidates_est [OF "1.prems"] by blast
  show ?case
  proof (cases cs)
    case Nil
    then show ?thesis using cs by (subst schedule_loop.simps) simp
  next
    case (Cons c cs')
    obtain est prio mb where m: "Min (set (c # cs')) = (est, prio, mb)" by (cases "Min (set (c # cs'))")
    show ?thesis
      using "1.IH" [OF cs Cons m [symmetric] refl refl "1.prems"] cs m unfolding Cons
      by (subst schedule_loop.simps) simp
  qed
qed

lemma schedule_resources_total:
  assumes "\<forall>t\<in>set tasks0. known_kind t" and "\<forall>t\<in>set tasks1. known_kind t"
  shows "\<exists>f cap'. schedule_resources tasks0 tasks1 step base cap = Inr (f, cap')"
proof -
  have "\<forall>mb<2. \<forall>t\<in>set (if mb = (0::nat) then tasks0 else tasks1). known_kind t" using assms by simp
  from schedule_loop_total [OF this] obtain r where
    "schedule_loop step base (\<lambda>mb. if mb = 0 then tasks0 else tasks1) (sched_init, cap) = Inr r" by blast
  then show ?thesis by (cases r) (simp add: schedule_resources_def)
qed

lemma schedule_loop_inv:
  assumes "\<forall>mb<2. \<forall>t\<in>set (tasks mb). task_ok t" and "sched_inv tasks (fst sc)"
  shows "\<exists>st cap. schedule_loop step base tasks sc = Inr (st, cap) \<and> sched_inv tasks st \<and>
    done_tasks tasks st 0 = tasks 0 \<and> done_tasks tasks st 1 = tasks 1 \<and>
    (exclusive_until (base + sc_compute_free (fst sc)) (snd sc) \<longrightarrow> exclusive_until (base + sc_compute_free st) cap)"
  using assms
proof (induction step base tasks sc rule: schedule_loop.induct)
  case (1 step base tasks sc)
  obtain cs where cs: "candidates tasks (fst sc) = Inr cs"
    "cs = [] \<longleftrightarrow> (\<forall>mb<2. length (tasks mb) \<le> sc_next_idx (fst sc) mb)"
    "\<forall>c\<in>set cs. snd (snd c) < 2 \<and> sc_next_idx (fst sc) (snd (snd c)) < length (tasks (snd (snd c))) \<and>
       fst c = est_of (fst sc) (snd (snd c)) (tasks (snd (snd c)) ! sc_next_idx (fst sc) (snd (snd c)))"
    using candidates_est [of tasks "fst sc"] "1.prems"(1) by (auto simp: task_ok_def)
  show ?case
  proof (cases cs)
    case Nil
    then have "length (tasks 0) \<le> sc_next_idx (fst sc) 0" "length (tasks 1) \<le> sc_next_idx (fst sc) 1"
      using cs(2) by auto
    then show ?thesis using Nil cs(1) "1.prems"(2)
      by (cases sc, subst schedule_loop.simps) (simp add: done_tasks_def)
  next
    case (Cons c cs')
    obtain est prio mb where m: "Min (set (c # cs')) = (est, prio, mb)" by (cases "Min (set (c # cs'))")
    have "Min (set (c # cs')) \<in> set cs" unfolding Cons by (rule Min_in) simp_all
    then have mb: "mb < 2" "sc_next_idx (fst sc) mb < length (tasks mb)"
      "est = est_of (fst sc) mb (tasks mb ! sc_next_idx (fst sc) mb)"
      using cs(3) unfolding m by fastforce+
    define sc' where "sc' = launch step base (tasks mb ! sc_next_idx (fst sc) mb) est mb sc"
    have ok: "task_ok (tasks mb ! sc_next_idx (fst sc) mb)" using "1.prems"(1) mb by simp
    have "sched_inv tasks (fst sc')"
      using launch_inv [OF "1.prems"(2) mb(1,2) refl ok, of step base "snd sc"] by (simp add: sc'_def mb(3))
    moreover have "schedule_loop step base tasks sc = schedule_loop step base tasks sc'"
      using cs(1) m unfolding Cons by (subst schedule_loop.simps) (simp add: sc'_def)
    ultimately obtain st cap where "schedule_loop step base tasks sc = Inr (st, cap)" "sched_inv tasks st"
      "done_tasks tasks st 0 = tasks 0" "done_tasks tasks st 1 = tasks 1"
      "exclusive_until (base + sc_compute_free (fst sc')) (snd sc') \<longrightarrow> exclusive_until (base + sc_compute_free st) cap"
      using "1.IH" [OF cs(1) Cons m [symmetric] refl refl] "1.prems"(1) by (auto simp: sc'_def)
    then show ?thesis
      using launch_exclusive [of base "fst sc" "snd sc", OF _ ok, of step mb] by (auto simp: sc'_def mb(3))
  qed
qed

text \<open>
  C13: The two-batch overlap is sound and never slower than no overlap: the schedule always
  ends; the later microbatch finishes no earlier than all compute stages run one after the
  other, since compute is exclusive, and no later than all compute and communication stages
  run one after the other; and no microbatch finishes earlier than it would alone.
\<close>

theorem tbo_schedule_bounds:
  assumes "\<forall>t\<in>set tasks0. task_ok t" and "\<forall>t\<in>set tasks1. task_ok t"
  shows "\<exists>finish0 finish1 cap'. schedule_resources tasks0 tasks1 step base cap = Inr ((finish0, finish1), cap') \<and>
    compute_dur tasks0 + compute_dur tasks1 \<le> max finish0 finish1 \<and>
    max finish0 finish1 \<le> all_dur tasks0 + all_dur tasks1 \<and>
    fst (alone tasks0) \<le> finish0 \<and> fst (alone tasks1) \<le> finish1"
proof -
  let ?tasks = "\<lambda>mb::nat. if mb = 0 then tasks0 else tasks1"
  have "sched_inv ?tasks sched_init"
    by (simp add: sched_inv_def sched_init_def done_tasks_def all_dur_def compute_dur_def alone_def)
  moreover have "\<forall>mb<2. \<forall>t\<in>set (?tasks mb). task_ok t" using assms by simp
  ultimately obtain st c where loop: "schedule_loop step base ?tasks (sched_init, cap) = Inr (st, c)" "sched_inv ?tasks st"
    "done_tasks ?tasks st 0 = tasks0" "done_tasks ?tasks st 1 = tasks1"
    using schedule_loop_inv [of ?tasks "(sched_init, cap)" step base] by auto
  have inv: "sched_inv ?tasks st" by fact
  have "fst (alone tasks0) \<le> sc_ready st 0" "fst (alone tasks1) \<le> sc_ready st 1"
    using inv loop(3,4) unfolding sched_inv_def by (metis pos2, metis one_less_numeral_iff semiring_norm(76))
  then show ?thesis using loop inv unfolding schedule_resources_def sched_inv_def by simp
qed

definition demo_tasks0 :: "tbo_task list" where
  "demo_tasks0 = layer_tasks 0 (2, 1, 3, 1) @ layer_tasks 1 (2, 4, 3, 100)"

definition demo_tasks1 :: "tbo_task list" where
  "demo_tasks1 = layer_tasks 0 (2, 1, 1, 1)"

lemma demo_tasks_ok: "\<forall>t\<in>set demo_tasks0. task_ok t" "\<forall>t\<in>set demo_tasks1. task_ok t"
  by (simp_all add: demo_tasks0_def demo_tasks1_def layer_tasks_def task_ok_def known_kind_def task_dur_def is_comm_def)

theorem tbo_schedule_bounds_witness:
  "\<exists>finish0 finish1 cap'. schedule_resources demo_tasks0 demo_tasks1 1 0 None = Inr ((finish0, finish1), cap') \<and>
    13 \<le> max finish0 finish1 \<and> max finish0 finish1 \<le> 121 \<and> 16 \<le> finish0 \<and> 4 \<le> finish1"
proof -
  have "compute_dur demo_tasks0 + compute_dur demo_tasks1 = 13" "all_dur demo_tasks0 + all_dur demo_tasks1 = 121"
    "fst (alone demo_tasks0) = 16" "fst (alone demo_tasks1) = 4"
    by (simp_all add: demo_tasks0_def demo_tasks1_def layer_tasks_def compute_dur_def all_dur_def alone_def alone_step_def task_dur_def)
  then show ?thesis using tbo_schedule_bounds [OF demo_tasks_ok, of 1 0 None] by simp
qed

text \<open>
  C34: Attention and expert compute never overlap: the compute operations that the captured
  timeline holds after an iteration are one after the other, those of earlier iterations
  included, and all of them ended when the iteration ends.
\<close>

theorem tbo_compute_exclusive:
  assumes "\<forall>t\<in>set tasks0. task_ok t" and "\<forall>t\<in>set tasks1. task_ok t"
    and "exclusive_until base cap"
    and "schedule_resources tasks0 tasks1 step base cap = Inr ((finish0, finish1), cap')"
  shows "exclusive_until (base + max finish0 finish1) cap'"
proof -
  let ?tasks = "\<lambda>mb::nat. if mb = 0 then tasks0 else tasks1"
  have "sched_inv ?tasks sched_init"
    by (simp add: sched_inv_def sched_init_def done_tasks_def all_dur_def compute_dur_def alone_def)
  moreover have "\<forall>mb<2. \<forall>t\<in>set (?tasks mb). task_ok t" using assms by simp
  moreover have "exclusive_until (base + sc_compute_free sched_init) cap" using assms(3) by (simp add: sched_init_def)
  ultimately obtain st c where loop: "schedule_loop step base ?tasks (sched_init, cap) = Inr (st, c)" "sched_inv ?tasks st"
    "exclusive_until (base + sc_compute_free st) c"
    using schedule_loop_inv [of ?tasks "(sched_init, cap)" step base] by auto
  have "finish0 = sc_ready st 0" "finish1 = sc_ready st 1" "cap' = c"
    using assms(4) loop(1) by (simp_all add: schedule_resources_def)
  then show ?thesis using loop(2,3) by (simp add: sched_inv_def)
qed

definition demo_capture :: timeline where
  "demo_capture = maybe_start 1 0 (timeline_init 100)"

lemma demo_schedule:
  "map_sum id (\<lambda>r. (fst r, length (compute_ops (snd r)))) (schedule_resources demo_tasks0 demo_tasks1 1 0 (Some demo_capture))
    = Inr ((17, 8), 6)"
  by code_simp

theorem tbo_compute_exclusive_witness:
  "\<exists>cap'. schedule_resources demo_tasks0 demo_tasks1 1 0 (Some demo_capture) = Inr ((17, 8), cap') \<and>
    length (compute_ops cap') = 6 \<and> exclusive_until 17 cap'"
proof -
  obtain cap' where r: "schedule_resources demo_tasks0 demo_tasks1 1 0 (Some demo_capture) = Inr ((17, 8), cap')"
    "length (compute_ops cap') = 6"
    using demo_schedule by (cases "schedule_resources demo_tasks0 demo_tasks1 1 0 (Some demo_capture)") auto
  have "exclusive_until 0 (Some demo_capture)"
    by (simp add: exclusive_until_def compute_ops_def demo_capture_def maybe_start_def timeline_init_def timeline_enabled_def)
  from tbo_compute_exclusive [OF demo_tasks_ok this r(1)] r show ?thesis by simp
qed

text \<open>The transfer of the last layer is not waited for: an iteration ends before its results are back.\<close>

lemma last_combine_ignored:
  "map_sum id fst (schedule_resources (layer_tasks 0 (2, 1, 3, 100)) [] 1 0 None) = Inr (6, 0)"
  by code_simp

text \<open>A microbatch alone takes its compute, its dispatches and all its combines but the last.\<close>

lemma alone_layers:
  assumes "\<forall>x\<in>set layers. 0 \<le> fst x \<and> 0 \<le> fst (snd x) \<and> 0 \<le> fst (snd (snd x)) \<and> 0 \<le> snd (snd (snd x))"
    and "layers \<noteq> []"
  shows "alone (concat (map (\<lambda>x. layer_tasks l x) layers))
    = (sum_list (map (\<lambda>x. fst x + fst (snd x) + fst (snd (snd x)) + snd (snd (snd x))) layers) - snd (snd (snd (last layers))),
       sum_list (map (\<lambda>x. fst x + fst (snd x) + fst (snd (snd x)) + snd (snd (snd x))) layers))"
  using assms
proof (induction layers rule: rev_induct)
  case (snoc x layers)
  obtain a d e c where x: "x = (a, d, e, c)" by (cases x)
  have nn: "0 \<le> a" "0 \<le> d" "0 \<le> e" "0 \<le> c" using snoc.prems by (simp_all add: x)
  show ?case
  proof (cases "layers = []")
    case True
    then show ?thesis using nn by (simp add: x alone_def alone_step_def layer_tasks_def task_dur_def)
  next
    case False
    define S where "S = sum_list (map (\<lambda>x. fst x + fst (snd x) + fst (snd (snd x)) + snd (snd (snd x))) layers)"
    have c: "0 \<le> snd (snd (snd (last layers)))" using snoc.prems(1) False by simp
    have "fold alone_step (concat (map (\<lambda>x. layer_tasks l x) layers)) (0, 0) = (S - snd (snd (snd (last layers))), S)"
      using snoc False by (simp add: alone_def S_def)
    then show ?thesis using nn c
      by (simp add: x alone_def alone_step_def layer_tasks_def task_dur_def S_def [symmetric])
  qed
qed simp

section \<open>The split\<close>

definition halves :: "'a list \<Rightarrow> 'a list \<times> 'a list" where
  "halves xs = (map ((!) xs) (filter even [0..<length xs]), map ((!) xs) (filter odd [0..<length xs]))"

lemma halves_snoc:
  "halves (xs @ [x]) = (if even (length xs) then (fst (halves xs) @ [x], snd (halves xs))
     else (fst (halves xs), snd (halves xs) @ [x]))"
  by (auto simp: halves_def nth_append)

lemma split_fold:
  "fold split_step (enumerate 0 ts) ([], [], Map.empty)
    = (fst (halves ts), snd (halves ts), map_of (rev (map (\<lambda>p. (yt_tid (snd p), fst p mod 2)) (enumerate 0 ts))))"
proof (induction ts rule: rev_induct)
  case (snoc t ts)
  have "enumerate 0 (ts @ [t]) = enumerate 0 ts @ [(length ts, t)]" by (simp add: enumerate_append_eq)
  then show ?case
    using snoc by (simp add: halves_snoc even_iff_mod_2_eq_zero) (auto simp: split_step_def fun_eq_iff)
qed (simp add: halves_def)

lemma halves_props:
  "mset (fst (halves xs)) + mset (snd (halves xs)) = mset xs \<and>
   length (fst (halves xs)) = (length xs + 1) div 2 \<and> length (snd (halves xs)) = length xs div 2"
proof (induction xs rule: rev_induct)
  case (snoc x xs)
  then show ?case by (auto simp: halves_snoc elim: evenE oddE)
qed (simp add: halves_def)

lemma mb_of_token:
  assumes "distinct (map yt_tid ts)" and "i < length ts"
  shows "map_of (rev (map (\<lambda>p. (yt_tid (snd p), fst p mod 2)) (enumerate 0 ts))) (yt_tid (ts ! i)) = Some (i mod 2)"
proof -
  let ?l = "map (\<lambda>p. (yt_tid (snd p), fst p mod 2)) (enumerate 0 ts)"
  have "map fst ?l = map yt_tid ts"
    by (intro nth_equalityI) (simp_all add: nth_enumerate_eq)
  then have "distinct (rev (map fst ?l))" using assms(1) by (simp only: distinct_rev)
  then have d: "distinct (map fst (rev ?l))" by (simp only: rev_map)
  have "?l ! i \<in> set ?l" using assms(2) by (intro nth_mem) simp
  moreover have "?l ! i = (yt_tid (ts ! i), i mod 2)" using assms(2) by (simp add: nth_enumerate_eq)
  ultimately have "(yt_tid (ts ! i), i mod 2) \<in> set (rev ?l)" by (simp only: set_rev)
  then show ?thesis by (rule map_of_is_SomeI [OF d])
qed

lemma split_facts:
  assumes "distinct (map yt_tid tokens)"
  shows "\<exists>mb0 mb1 m. split_into_microbatches tokens = (mb0, mb1, m) \<and> mset mb0 + mset mb1 = mset tokens \<and>
    length mb0 = (length tokens + 1) div 2 \<and> length mb1 = length tokens div 2 \<and>
    (\<forall>tok\<in>set mb0. m (yt_tid tok) = Some 0) \<and> (\<forall>tok\<in>set mb1. m (yt_tid tok) = Some 1)"
proof -
  define ts where "ts = sort_key (\<lambda>t. (yt_request_id t, yt_tid t)) tokens"
  define m where "m = map_of (rev (map (\<lambda>p. (yt_tid (snd p), fst p mod 2)) (enumerate 0 ts)))"
  have "mset (map yt_tid ts) = mset (map yt_tid tokens)" by (simp add: ts_def)
  then have d: "distinct (map yt_tid ts)" using assms by (metis mset_eq_imp_distinct_iff)
  have split: "split_into_microbatches tokens = (fst (halves ts), snd (halves ts), m)"
    by (cases "tokens = []") (simp_all add: split_into_microbatches_def ts_def [symmetric] split_fold m_def,
      simp_all add: ts_def halves_def)
  have "length ts = length tokens" "mset ts = mset tokens" by (simp_all add: ts_def)
  moreover have "\<forall>tok\<in>set (fst (halves ts)). m (yt_tid tok) = Some 0" "\<forall>tok\<in>set (snd (halves ts)). m (yt_tid tok) = Some 1"
    using mb_of_token [OF d] by (auto simp: halves_def m_def even_iff_mod_2_eq_zero odd_iff_mod_2_eq_one)
  ultimately show ?thesis unfolding split using halves_props [of ts] by simp
qed

text \<open>
  The tokens of an iteration are split into two microbatches that together hold every
  token once, differ by at most one token in size, and agree with the table that gives each
  token its microbatch.
\<close>

theorem tbo_split_even:
  assumes "distinct (map yt_tid tokens)"
  shows "\<exists>mb0 mb1 m. split_into_microbatches tokens = (mb0, mb1, m) \<and> mset mb0 + mset mb1 = mset tokens \<and>
    length mb1 \<le> length mb0 \<and> length mb0 \<le> length mb1 + 1 \<and>
    (\<forall>tok\<in>set mb0. m (yt_tid tok) = Some 0) \<and> (\<forall>tok\<in>set mb1. m (yt_tid tok) = Some 1)"
  using split_facts [OF assms] by fastforce

theorem tbo_split_even_witness:
  "\<exists>mb0 mb1 m. split_into_microbatches SimSyncProps.demo_tokens = (mb0, mb1, m) \<and> length mb0 = 1 \<and> length mb1 = 1"
proof -
  have d: "distinct (map yt_tid SimSyncProps.demo_tokens)" by (simp add: SimSyncProps.demo_tokens_def)
  have l: "length SimSyncProps.demo_tokens = 2" by (simp add: SimSyncProps.demo_tokens_def)
  obtain mb0 mb1 m where s: "split_into_microbatches SimSyncProps.demo_tokens = (mb0, mb1, m)"
    "mset mb0 + mset mb1 = mset SimSyncProps.demo_tokens" "length mb1 \<le> length mb0" "length mb0 \<le> length mb1 + 1"
    using tbo_split_even [OF d] by blast
  have "length mb0 + length mb1 = 2" using arg_cong [OF s(2), of size] l by simp
  then show ?thesis using s by auto
qed

section \<open>The layers\<close>

text \<open>Routing once and splitting is counting the rows of each microbatch on its own.\<close>

lemma route_mb_split:
  assumes "\<forall>p\<in>set ps. m (yt_tid (fst p)) \<noteq> None"
  shows "foldR (route_one_mb cfg m) ps loads0 = Inr loads \<longleftrightarrow>
    (\<forall>b. foldR (route_one cfg) (filter (\<lambda>p. m (yt_tid (fst p)) = Some b) ps) (loads0 b) = Inr (loads b))"
  using assms
proof (induction ps arbitrary: loads0)
  case Nil
  then show ?case by (auto simp: fun_eq_iff)
next
  case (Cons p ps)
  obtain mb where mb: "m (yt_tid (fst p)) = Some mb" using Cons.prems by auto
  have step: "route_one_mb cfg m p loads0 = bindR (route_one cfg p (loads0 mb)) (\<lambda>acc. Inr (loads0(mb := acc)))"
    using mb by (simp add: route_one_mb_def route_one_def Let_def split_beta)
  show ?case
  proof (cases "route_one cfg p (loads0 mb)")
    case (Inl e)
    then show ?thesis using step mb by (auto intro!: exI [of _ mb])
  next
    case (Inr acc)
    then have "foldR (route_one_mb cfg m) (p # ps) loads0 = foldR (route_one_mb cfg m) ps (loads0(mb := acc))"
      using step by simp
    also have "\<dots> = Inr loads \<longleftrightarrow>
        (\<forall>b. foldR (route_one cfg) (filter (\<lambda>p. m (yt_tid (fst p)) = Some b) ps) ((loads0(mb := acc)) b) = Inr (loads b))"
      using Cons by simp
    also have "\<dots> \<longleftrightarrow>
        (\<forall>b. foldR (route_one cfg) (filter (\<lambda>p. m (yt_tid (fst p)) = Some b) (p # ps)) (loads0 b) = Inr (loads b))"
      using mb Inr by (intro all_cong1) auto
    finally show ?thesis .
  qed
qed

lemma token_count_split:
  assumes "\<forall>tok\<in>set tokens. m (yt_tid tok) \<noteq> None"
  shows "token_count_mb m tokens = Inr (\<lambda>b. length (filter (\<lambda>tok. m (yt_tid tok) = Some b) tokens))"
proof -
  have "foldR (\<lambda>tok cnt. bindR (lookupR m (yt_tid tok)) (\<lambda>mb. Inr (cnt(mb := cnt mb + 1)))) tokens c
      = Inr (\<lambda>b. c b + length (filter (\<lambda>tok. m (yt_tid tok) = Some b) tokens))" for c
    using assms by (induction tokens arbitrary: c) (auto simp: fun_eq_iff)
  then show ?thesis by (simp add: token_count_mb_def)
qed

lemma mb_stage_times_ok:
  assumes "table_covers cfg"
  shows "\<exists>t s'. mb_stage_times cfg n loads s = Inr (t, s')"
proof -
  obtain wl pd where l: "loads = (wl, pd)" by (cases loads)
  obtain ts b c where "simulate_workers cfg wl (y_batch_size s, y_batch_count s) = Inr (ts, b, c)"
    using simulate_workers_total [OF assms] by (metis prod.exhaust)
  then show ?thesis by (simp add: mb_stage_times_def l Let_def)
qed

lemma compute_layer_times_ends:
  assumes "experts_split cfg" and "table_covers cfg" and some: "\<forall>tok\<in>set tokens. m (yt_tid tok) \<noteq> None"
    and router: "router_sound cfg n" "l < y_num_layers cfg" and toks: "tokens \<noteq> []" "tokens_of cfg n tokens"
  shows "ends cfg n (compute_layer_times cfg l tokens m s) (\<lambda>_. True)"
proof (cases "routed_rows cfg l tokens")
  case (Inl err)
  then have "router_raises cfg n err" using router(2) toks by (auto simp: router_raises_def)
  then show ?thesis using Inl
    by (auto simp: compute_layer_times_def token_count_split [OF some] route_layer_mb_def ends_def)
next
  case (Inr ps)
  then have ok: "rows_ok cfg ps" using router toks(2) by (fastforce simp: router_sound_def)
  have "fst p \<in> set tokens" if "p \<in> set ps" for p
    using Inr that by (cases p) (auto simp: routed_rows_def res dest: set_zip_leftD)
  then have some': "\<forall>p\<in>set ps. m (yt_tid (fst p)) \<noteq> None" using some by blast
  let ?ps = "\<lambda>b. filter (\<lambda>p. m (yt_tid (fst p)) = Some b) ps"
  have "\<forall>b. \<exists>acc. foldR (route_one cfg) (?ps b)
      (replicate (y_ep cfg) (replicate (y_queues_per_worker cfg) 0), []) = Inr acc"
  proof
    fix b
    have "rows_ok cfg (?ps b)" using ok unfolding rows_ok_def by auto
    from route_rows_ok [OF assms(1) this]
    show "\<exists>acc. foldR (route_one cfg) (?ps b)
      (replicate (y_ep cfg) (replicate (y_queues_per_worker cfg) 0), []) = Inr acc" by blast
  qed
  then obtain loads where "\<forall>b. foldR (route_one cfg) (?ps b)
      (replicate (y_ep cfg) (replicate (y_queues_per_worker cfg) 0), []) = Inr (loads b)" by metis
  then have r: "route_layer_mb cfg l m tokens = Inr loads"
    using Inr route_mb_split [OF some'] by (simp add: route_layer_mb_def)
  let ?n = "\<lambda>b. length (filter (\<lambda>tok. m (yt_tid tok) = Some b) tokens)"
  obtain t0 s1 where "mb_stage_times cfg (?n 0) (loads 0) s = Inr (t0, s1)" using mb_stage_times_ok [OF assms(2)] by blast
  moreover obtain t1 s2 where "mb_stage_times cfg (?n 1) (loads 1) s1 = Inr (t1, s2)" using mb_stage_times_ok [OF assms(2)] by blast
  ultimately have "compute_layer_times cfg l tokens m s = Inr ((t0, t1), s2)"
    by (simp add: compute_layer_times_def token_count_split [OF some] r)
  then show ?thesis by simp
qed

lemma start_state: "\<exists>cfg s. sync_init demo_sync [1, 3] = Inr (cfg, s)"
  by (simp add: sync_init_def demo_sync_def)

section \<open>The run\<close>

lemma build_tasks_ends:
  assumes "experts_split cfg" and "table_covers cfg" and "\<forall>tok\<in>set tokens. m (yt_tid tok) \<noteq> None"
    and "router_sound cfg n" and "\<forall>l\<in>set ls. l < y_num_layers cfg" and "tokens \<noteq> []" and "tokens_of cfg n tokens"
  shows "ends cfg n (build_tasks cfg ls tokens m s)
    (\<lambda>((ts0, ts1), s'). (\<forall>t\<in>set ts0. known_kind t) \<and> (\<forall>t\<in>set ts1. known_kind t))"
  using assms(5)
proof (induction ls arbitrary: s)
  case (Cons l ls)
  have k: "known_kind t" if "t \<in> set (layer_tasks l' x)" for t l' x
    using that by (auto simp: layer_tasks_def known_kind_def is_comm_def split_beta Let_def)
  have 1: "ends cfg n (compute_layer_times cfg l tokens m s) (\<lambda>_. True)"
    using compute_layer_times_ends [OF assms(1-4) _ assms(6,7)] Cons.prems by simp
  have 2: "ends cfg n (build_tasks cfg ls tokens m s1)
    (\<lambda>((ts0, ts1), s'). (\<forall>t\<in>set ts0. known_kind t) \<and> (\<forall>t\<in>set ts1. known_kind t))" for s1
    using Cons by simp
  show ?case unfolding build_tasks.simps
    by (rule ends_bind [OF 1], clarify, rule ends_bind [OF 2]) (use k in auto)
qed simp

lemma iteration_tbo_ends:
  assumes ok: "sync_ok cfg" and inv: "sync_inv cfg s" and router: "router_sound cfg (total_reqs s)"
    and act: "y_active s \<noteq> []"
  shows "\<exists>tokens s2. spawn_tokens cfg s = Inr (tokens, s2) \<and> tokens \<noteq> [] \<and> y_now s2 = y_now s \<and>
    ends cfg (total_reqs s) (run_one_iteration_tbo cfg tokens step base cap s2)
      (\<lambda>((d, offsets), cap', s3). \<forall>t. sync_inv cfg (finalize_iteration_tbo cfg tokens offsets (s3\<lparr>y_now := t\<rparr>)))"
proof -
  obtain toks where toks: "spawn_tokens cfg s = Inr (toks, s\<lparr>y_next_tid := y_next_tid s + length toks\<rparr>)" "toks \<noteq> []"
    "map yt_request_id toks = y_active s" "map yt_tid toks = [y_completed_tokens s..<y_completed_tokens s + length toks]"
    "tokens_of cfg (total_reqs s) toks"
    using spawn_ok [OF ok inv act] by blast
  let ?s2 = "s\<lparr>y_next_tid := y_next_tid s + length toks\<rparr>"
  have "distinct (map yt_tid toks)" unfolding toks(4) by simp
  then obtain mb0 mb1 m where sp: "split_into_microbatches toks = (mb0, mb1, m)" "mset mb0 + mset mb1 = mset toks"
    "\<forall>tok\<in>set mb0. m (yt_tid tok) = Some 0" "\<forall>tok\<in>set mb1. m (yt_tid tok) = Some 1"
    using split_facts by blast
  have "set toks = set mb0 \<union> set mb1" using arg_cong [OF sp(2), of set_mset] by simp
  then have some: "\<forall>tok\<in>set toks. m (yt_tid tok) \<noteq> None" using sp(3,4) by auto
  have b: "ends cfg (total_reqs s) (build_tasks cfg [0..<y_num_layers cfg] toks m ?s2)
    (\<lambda>((ts0, ts1), s'). (\<forall>t\<in>set ts0. known_kind t) \<and> (\<forall>t\<in>set ts1. known_kind t))"
    using ok router some toks(2,5) by (intro build_tasks_ends) (simp_all add: sync_ok_def)
  have "ends cfg (total_reqs s) (run_one_iteration_tbo cfg toks step base cap ?s2) (\<lambda>_. True)"
  proof (cases "build_tasks cfg [0..<y_num_layers cfg] toks m ?s2")
    case (Inl err)
    then show ?thesis using b by (auto simp: ends_def run_one_iteration_tbo_def sp(1))
  next
    case (Inr x)
    obtain ts0 ts1 s3 where x: "x = ((ts0, ts1), s3)" by (metis prod.collapse)
    then have "(\<forall>t\<in>set ts0. known_kind t) \<and> (\<forall>t\<in>set ts1. known_kind t)" using b Inr by simp
    then obtain f cap' where "schedule_resources ts0 ts1 step base cap = Inr (f, cap')"
      using schedule_resources_total by blast
    then show ?thesis using Inr x by (cases f) (simp add: run_one_iteration_tbo_def sp(1) Let_def)
  qed
  moreover have "sync_inv cfg (finalize_iteration_tbo cfg toks offsets (s3\<lparr>y_now := t\<rparr>))"
    if it: "run_one_iteration_tbo cfg toks step base cap ?s2 = Inr ((d, offsets), cap', s3)" for d offsets cap' s3 t
    unfolding finalize_iteration_tbo_def by (rule spawned_finalize_inv [OF inv toks(3,4) iteration_tbo_core [OF it]])
  ultimately have "ends cfg (total_reqs s) (run_one_iteration_tbo cfg toks step base cap ?s2)
      (\<lambda>((d, offsets), cap', s3). \<forall>t. sync_inv cfg (finalize_iteration_tbo cfg toks offsets (s3\<lparr>y_now := t\<rparr>)))"
    unfolding ends_def by fastforce
  moreover have "y_now ?s2 = y_now s" by simp
  ultimately show ?thesis using toks(1,2) by blast
qed

lemma tbo_pass_ends:
  assumes ok: "sync_ok cfg" and inv: "sync_inv cfg (tb_sim st)" and router: "router_sound cfg (total_reqs (tb_sim st))"
    and more: "y_completed_tokens (tb_sim st) < expected_tokens cfg (tb_sim st)"
  shows "ends cfg (total_reqs (tb_sim st)) (tbo_pass cfg st) (\<lambda>(b, st'). b \<and> sync_inv cfg (tb_sim st'))"
proof -
  define s1 where "s1 = fill_active_requests cfg (release_new_arrivals (tb_sim st))"
  define st1 where "st1 = note_saturation cfg (st\<lparr>tb_steps := Suc (tb_steps st), tb_sim := s1\<rparr>)"
  have sim: "tb_sim st1 = s1" by (simp add: st1_def note_saturation_def Let_def)
  note f = filled_inv [OF ok inv, folded s1_def]
  show ?thesis
  proof (cases "y_active s1 = []")
    case True
    then obtain s' where "advance_to_next_arrival s1 = (True, s')" "sync_inv cfg s'"
      using idle_advances [OF ok inv more] unfolding s1_def by blast
    then show ?thesis using True
      by (simp add: tbo_pass_def Let_def s1_def [symmetric] st1_def [symmetric] sim tbo_advance_def)
  next
    case False
    have n: "total_reqs s1 = total_reqs (tb_sim st)" using f by (simp add: same_run_def)
    obtain tokens s2 where it: "spawn_tokens cfg s1 = Inr (tokens, s2)" "tokens \<noteq> []" "y_now s2 = y_now s1"
      "ends cfg (total_reqs (tb_sim st)) (run_one_iteration_tbo cfg tokens (tb_steps st1) (y_now s1) (tb_capture st1) s2)
        (\<lambda>((d, offsets), cap', s3). \<forall>t. sync_inv cfg (finalize_iteration_tbo cfg tokens offsets (s3\<lparr>y_now := t\<rparr>)))"
      using iteration_tbo_ends [OF ok _ _ False, of "tb_steps st1" "y_now s1" "tb_capture st1"] f router n by auto
    show ?thesis
    proof (cases "run_one_iteration_tbo cfg tokens (tb_steps st1) (y_now s1) (tb_capture st1) s2")
      case (Inl err)
      then show ?thesis using False it
        by (auto simp: ends_def tbo_pass_def Let_def s1_def [symmetric] st1_def [symmetric] sim)
    next
      case (Inr x)
      obtain d offsets cap' s3 where x: "x = ((d, offsets), cap', s3)" by (metis prod.collapse)
      then have "\<forall>t. sync_inv cfg (finalize_iteration_tbo cfg tokens offsets (s3\<lparr>y_now := t\<rparr>))" using it(4) Inr by simp
      then show ?thesis using False it(1-3) Inr x
        by (simp add: tbo_pass_def Let_def s1_def [symmetric] st1_def [symmetric] sim)
    qed
  qed
qed

lemma tbo_loop_ends:
  assumes "sync_ok cfg" and "sync_inv cfg (tb_sim st)" and "router_sound cfg (total_reqs (tb_sim st))"
  shows "ends cfg (total_reqs (tb_sim st)) (tbo_loop cfg limit st)
    (\<lambda>st'. sync_inv cfg (tb_sim st') \<and> total_reqs (tb_sim st') = total_reqs (tb_sim st) \<and>
      (y_completed_tokens (tb_sim st') = expected_tokens cfg (tb_sim st) \<or> enough_tail limit st'))"
  using assms
proof (induction cfg limit st rule: tbo_loop.induct)
  case (1 cfg limit st)
  show ?case
  proof (cases "y_completed_tokens (tb_sim st) < expected_tokens cfg (tb_sim st)")
    case more: True
    note pass = tbo_pass_ends [OF "1.prems" more]
    show ?thesis
    proof (cases "tbo_pass cfg st")
      case (Inl err)
      then have "tbo_loop cfg limit st = Inl err" using more by (subst tbo_loop.simps) simp
      then show ?thesis using pass Inl by (simp add: ends_def)
    next
      case (Inr r)
      then obtain st' where st': "tbo_pass cfg st = Inr (True, st')" "sync_inv cfg (tb_sim st')"
        using pass by (cases r) auto
      have same: "total_reqs (tb_sim st') = total_reqs (tb_sim st)" by (rule tbo_pass_total [OF st'(1)])
      show ?thesis
      proof (cases "enough_tail limit st'")
        case True
        then show ?thesis using more st' same by (subst tbo_loop.simps) simp
      next
        case False
        then have "tbo_loop cfg limit st = tbo_loop cfg limit st'" using more st'(1) by (subst tbo_loop.simps) simp
        then show ?thesis
          using "1.IH" [OF more st'(1) refl refl False "1.prems"(1) st'(2)] "1.prems"(3) same by (simp add: expected_tokens_def)
      qed
    qed
  next
    case False
    then have "y_completed_tokens (tb_sim st) = expected_tokens cfg (tb_sim st)"
      using inv_progress [of cfg "tb_sim st"] "1.prems"(2) by (simp add: sync_inv_def)
    then show ?thesis using False "1.prems"(2) by (subst tbo_loop.simps) simp
  qed
qed

lemma tbo_loop_ok:
  assumes "sync_ok cfg" and "sync_inv cfg (tb_sim st)" and "router_total cfg (total_reqs (tb_sim st))"
  shows "\<exists>st'. tbo_loop cfg limit st = Inr st' \<and> sync_inv cfg (tb_sim st') \<and> total_reqs (tb_sim st') = total_reqs (tb_sim st) \<and>
    (y_completed_tokens (tb_sim st') = expected_tokens cfg (tb_sim st) \<or> enough_tail limit st')"
  using ends_total [OF tbo_loop_ends [OF assms(1,2)] assms(3)] assms(3) by (auto simp: router_total_def)

text \<open>
  The overlapped simulator returns from every start: with a limit it stops with all
  tokens completed or with at least that many completed after the saturation, and without
  one it completes every token of every request, each with one completion time.
\<close>

theorem tbo_run_ends:
  assumes "sync_init cfg0 arrivals = Inr (cfg, s)" and "table_covers cfg0" and "0 < y_tokens_per_request cfg0"
    and "router_total cfg0 (length arrivals)" and "limit = None \<or> (\<exists>n\<ge>0. limit = Some n)"
  shows "\<exists>st'. tbo_run cfg limit (tbo_start cap s) = Inr st' \<and>
    ((\<forall>r<length arrivals. rq_completed (y_requests (tb_sim st') ! r)) \<or>
     (\<exists>n c. limit = Some n \<and> tb_saturation_tokens st' = Some c \<and> n \<le> int (y_completed_tokens (tb_sim st')) - int c)) \<and>
    map fst (y_completion_times (tb_sim st')) = [0..<y_completed_tokens (tb_sim st')]"
proof -
  note i = sync_init_inv [OF assms(1-3)]
  obtain st' where st': "tbo_loop cfg limit (tbo_start cap s) = Inr st'" "sync_inv cfg (tb_sim st')"
    "total_reqs (tb_sim st') = length arrivals"
    "y_completed_tokens (tb_sim st') = expected_tokens cfg (tb_sim st') \<or> enough_tail limit st'"
    using tbo_loop_ok [of cfg "tbo_start cap s" limit] i assms(4) by (auto simp: tbo_start_def expected_tokens_def)
  have c: "counts_inv cfg (tb_sim st')" using st'(2) by (simp add: sync_inv_def)
  have "tbo_run cfg limit (tbo_start cap s) = Inr st'" using assms(5) st'(1) by (auto simp: tbo_run_def)
  moreover have "map fst (y_completion_times (tb_sim st')) = [0..<y_completed_tokens (tb_sim st')]"
    using c by (simp add: counts_inv_def)
  moreover have "(\<forall>r<length arrivals. rq_completed (y_requests (tb_sim st') ! r)) \<or>
     (\<exists>n c. limit = Some n \<and> tb_saturation_tokens st' = Some c \<and> n \<le> int (y_completed_tokens (tb_sim st')) - int c)"
    using st'(3,4) inv_progress [OF c] by (auto simp: enough_tail_def split: option.splits)
  ultimately show ?thesis by blast
qed

theorem tbo_run_ends_witness:
  "\<exists>cfg s st'. sync_init demo_sync [1, 3] = Inr (cfg, s) \<and> tbo_run cfg None (tbo_start None s) = Inr st' \<and>
    rq_completed (y_requests (tb_sim st') ! 1)"
proof -
  obtain cfg s where init: "sync_init demo_sync [1, 3] = Inr (cfg, s)" using start_state by blast
  have router: "router_total demo_sync (length [1, 3 :: real])" by (rule demo_router_total)
  have "0 < y_tokens_per_request demo_sync" by (simp add: demo_sync_def)
  from tbo_run_ends [OF init demo_covers this router, of None None] init show ?thesis by fastforce
qed

end
