(* ===== verification/SimLimit.thy ===== *)
theory SimLimit
  imports SimSyncRun
begin

text \<open>
  The synchronous run with an early stop (\<open>SyncMoESimulator.run\<close> of \<open>simulation/sim_sync.py\<close>
  with \<open>tokens_after_reaching_max_bs\<close>): the main loop stops once enough tokens have completed
  after the active requests first reached the limit.  Stopping early does not change what
  was simulated, and the recorded times are sound along the run: no latency is negative or
  exceeds the time on the clock, and every batch has between one and the limit of tokens.
\<close>

section \<open>The loop\<close>

record sync_progress =
  ys_sim :: sync_sim
  ys_steps :: nat
  ys_saturation_step :: "nat option"
  ys_saturation_tokens :: "nat option"
  ys_saturation_time :: "real option"

definition sync_start :: "sync_sim \<Rightarrow> sync_progress" where
  "sync_start s =
     \<lparr>ys_sim = s, ys_steps = 0, ys_saturation_step = None, ys_saturation_tokens = None, ys_saturation_time = None\<rparr>"

definition note_sync_saturation :: "sync_config \<Rightarrow> sync_progress \<Rightarrow> sync_progress" where
  "note_sync_saturation cfg p =
     (let s = ys_sim p
      in if ys_saturation_step p = None \<and> y_active s \<noteq> [] \<and> y_global_max cfg \<le> length (y_active s)
         then p\<lparr>ys_saturation_step := Some (ys_steps p), ys_saturation_tokens := Some (y_completed_tokens s),
                ys_saturation_time := Some (y_now s)\<rparr>
         else p)"

definition sync_advance :: "sync_progress \<Rightarrow> bool \<times> sync_progress" where
  "sync_advance p = (let (go, s) = advance_to_next_arrival (ys_sim p) in (go, p\<lparr>ys_sim := s\<rparr>))"

definition limited_pass :: "sync_config \<Rightarrow> sync_progress \<Rightarrow> (bool \<times> sync_progress) result" where
  "limited_pass cfg p =
     (let p = note_sync_saturation cfg (p\<lparr>ys_steps := ys_steps p + 1,
                ys_sim := fill_active_requests cfg (release_new_arrivals (ys_sim p))\<rparr>)
      in if y_active (ys_sim p) = [] then Inr (sync_advance p)
         else bindR (spawn_tokens cfg (ys_sim p)) (\<lambda>(tokens, s).
           if tokens = [] then Inr (sync_advance (p\<lparr>ys_sim := s\<rparr>))
           else bindR (run_one_iteration cfg tokens s) (\<lambda>(iteration_duration, s).
             Inr (True, p\<lparr>ys_sim := finalize_iteration cfg tokens (s\<lparr>y_now := y_now s + iteration_duration\<rparr>)\<rparr>))))"

text \<open>Counting steps and noting the saturation leave the simulation alone.\<close>

lemma note_sync_sim [simp]: "ys_sim (note_sync_saturation cfg p) = ys_sim p"
  by (simp add: note_sync_saturation_def Let_def)

lemma limited_pass_erase:
  "map_sum id (map_prod id ys_sim) (limited_pass cfg p) = sync_pass cfg (ys_sim p)"
proof -
  define s1 where "s1 = fill_active_requests cfg (release_new_arrivals (ys_sim p))"
  define p1 where "p1 = note_sync_saturation cfg (p\<lparr>ys_steps := ys_steps p + 1, ys_sim := s1\<rparr>)"
  have sim: "ys_sim p1 = s1" by (simp add: p1_def)
  have adv: "map_prod id ys_sim (sync_advance q) = advance_to_next_arrival (ys_sim q)" for q
    by (simp add: sync_advance_def split_beta)
  have l: "limited_pass cfg p = (if y_active s1 = [] then Inr (sync_advance p1)
     else bindR (spawn_tokens cfg s1) (\<lambda>(tokens, s).
       if tokens = [] then Inr (sync_advance (p1\<lparr>ys_sim := s\<rparr>))
       else bindR (run_one_iteration cfg tokens s) (\<lambda>(iteration_duration, s).
         Inr (True, p1\<lparr>ys_sim := finalize_iteration cfg tokens (s\<lparr>y_now := y_now s + iteration_duration\<rparr>)\<rparr>))))"
    unfolding limited_pass_def Let_def s1_def [symmetric] p1_def [symmetric] sim ..
  show ?thesis
    unfolding l sync_pass_def Let_def s1_def [symmetric]
    by (cases "spawn_tokens cfg s1") (auto simp: adv sim bindR_def split: sum.splits)
qed

lemma limited_pass_sim:
  "limited_pass cfg p = Inr (b, p') \<Longrightarrow> sync_pass cfg (ys_sim p) = Inr (b, ys_sim p')"
  using limited_pass_erase [of cfg p] by simp

lemma limited_pass_ok:
  assumes "sync_pass cfg (ys_sim p) = Inr (b, s')"
  shows "\<exists>p'. limited_pass cfg p = Inr (b, p') \<and> ys_sim p' = s'"
  using limited_pass_erase [of cfg p] assms by (cases "limited_pass cfg p") auto

definition tail_done :: "int \<Rightarrow> sync_progress \<Rightarrow> bool" where
  "tail_done n p =
     (case ys_saturation_tokens p of
        None \<Rightarrow> False
      | Some c \<Rightarrow> n \<le> int (y_completed_tokens (ys_sim p)) - int c)"

function limited_loop :: "sync_config \<Rightarrow> int \<Rightarrow> sync_progress \<Rightarrow> sync_progress result" where
  "limited_loop cfg n p =
     (if y_completed_tokens (ys_sim p) < expected_tokens cfg (ys_sim p)
      then (case limited_pass cfg p of
              Inl e \<Rightarrow> Inl e
            | Inr (False, p') \<Rightarrow> Inr p'
            | Inr (True, p') \<Rightarrow> if tail_done n p' then Inr p' else limited_loop cfg n p')
      else Inr p)"
  by pat_completeness auto
termination
  by (relation "measure (\<lambda>(cfg, n, p). loop_measure cfg (ys_sim p))")
    (auto intro: sync_pass_decreases dest: limited_pass_sim)

declare limited_loop.simps [simp del]

text \<open>Without a limit the plain loop runs, which counts no steps.\<close>

definition sync_run_limit :: "sync_config \<Rightarrow> int option \<Rightarrow> sync_sim \<Rightarrow> sync_progress result" where
  "sync_run_limit cfg limit s =
     (case limit of
        None \<Rightarrow> bindR (sync_run cfg s) (\<lambda>s'. Inr (sync_start s'))
      | Some n \<Rightarrow> if n < 0 then Inl ValueError else limited_loop cfg n (sync_start s))"

section \<open>Stopping early stops the same run\<close>

lemma sync_run_pass:
  assumes "y_completed_tokens s < expected_tokens cfg s" and "sync_pass cfg s = Inr (True, s')"
  shows "sync_run cfg s' = sync_run cfg s"
  using assms by (subst (2) sync_run.simps) simp

definition saturation_ok :: "sync_config \<Rightarrow> sync_progress \<Rightarrow> bool" where
  "saturation_ok cfg p \<longleftrightarrow>
     (case (ys_saturation_step p, ys_saturation_tokens p, ys_saturation_time p) of
        (None, None, None) \<Rightarrow> True
      | (Some k, Some c, Some t) \<Rightarrow> 0 < k \<and> k \<le> ys_steps p \<and> c \<le> y_completed_tokens (ys_sim p)
      | _ \<Rightarrow> False)"

lemma sync_pass_completed:
  assumes "sync_pass cfg s = Inr (b, s')"
  shows "y_completed_tokens s \<le> y_completed_tokens s'"
proof -
  define s1 where "s1 = fill_active_requests cfg (release_new_arrivals s)"
  have s1: "y_completed_tokens s1 = y_completed_tokens s"
    using filled_progress [of s cfg] by (simp add: s1_def same_run_def)
  have adv: "y_completed_tokens s' = y_completed_tokens s2" if "advance_to_next_arrival s2 = (b, s')" for s2
    using that advance_progress [of s2 s']
    by (cases b) (auto simp: same_run_def advance_to_next_arrival_def Let_def split: if_splits)
  show ?thesis
    using assms s1 adv
    by (auto simp: sync_pass_def Let_def s1_def [symmetric] res run_one_iteration_def split: if_splits
        dest!: spawn_progress run_layers_progress simp: finalize_progress same_run_def)
qed

lemma limited_pass_saturation:
  assumes "limited_pass cfg p = Inr (b, p')" and "saturation_ok cfg p"
  shows "saturation_ok cfg p'"
proof -
  let ?s1 = "fill_active_requests cfg (release_new_arrivals (ys_sim p))"
  let ?p1 = "note_sync_saturation cfg (p\<lparr>ys_steps := ys_steps p + 1, ys_sim := ?s1\<rparr>)"
  have mono: "y_completed_tokens (ys_sim p) \<le> y_completed_tokens (ys_sim p')"
    by (rule sync_pass_completed [OF limited_pass_sim [OF assms(1)]])
  have same: "y_completed_tokens ?s1 = y_completed_tokens (ys_sim p)"
    using filled_progress [of "ys_sim p" cfg] by (simp add: same_run_def)
  have "p' = ?p1\<lparr>ys_sim := ys_sim p'\<rparr>"
    using assms(1) by (auto simp: limited_pass_def Let_def res sync_advance_def split: if_splits prod.splits)
  moreover have "saturation_ok cfg (?p1\<lparr>ys_sim := s'\<rparr>)" if "y_completed_tokens (ys_sim p) \<le> y_completed_tokens s'" for s'
    using assms(2) that same
    by (auto simp: saturation_ok_def note_sync_saturation_def Let_def split: option.splits)
  ultimately show ?thesis using mono by metis
qed

lemma limited_loop_ok:
  assumes "sync_ok cfg" and "sync_inv cfg (ys_sim p)" and "router_total cfg (total_reqs (ys_sim p))"
    and "saturation_ok cfg p"
  shows "\<exists>p'. limited_loop cfg n p = Inr p' \<and> sync_inv cfg (ys_sim p') \<and> saturation_ok cfg p' \<and>
    total_reqs (ys_sim p') = total_reqs (ys_sim p) \<and> sync_run cfg (ys_sim p') = sync_run cfg (ys_sim p) \<and>
    (y_completed_tokens (ys_sim p') = expected_tokens cfg (ys_sim p) \<or> tail_done n p')"
  using assms
proof (induction cfg n p rule: limited_loop.induct)
  case (1 cfg n p)
  show ?case
  proof (cases "y_completed_tokens (ys_sim p) < expected_tokens cfg (ys_sim p)")
    case more: True
    then obtain s' where s': "sync_pass cfg (ys_sim p) = Inr (True, s')" "sync_inv cfg s'"
      using sync_pass_ok [OF "1.prems"(1-3)] by blast
    obtain p' where p': "limited_pass cfg p = Inr (True, p')" "ys_sim p' = s'" using limited_pass_ok [OF s'(1)] by blast
    have same: "total_reqs s' = total_reqs (ys_sim p)" by (rule sync_pass_total [OF s'(1)])
    have sat: "saturation_ok cfg p'" by (rule limited_pass_saturation [OF p'(1) "1.prems"(4)])
    have run: "sync_run cfg s' = sync_run cfg (ys_sim p)" by (rule sync_run_pass [OF more s'(1)])
    show ?thesis
    proof (cases "tail_done n p'")
      case True
      then show ?thesis using more p' s'(2) same sat run by (subst limited_loop.simps) simp
    next
      case False
      then show ?thesis
        using "1.IH" [OF more p'(1) refl refl False] p' s'(2) same sat run more "1.prems"
        by (subst limited_loop.simps) (auto simp: expected_tokens_def)
    qed
  next
    case False
    then have "y_completed_tokens (ys_sim p) = expected_tokens cfg (ys_sim p)"
      using inv_progress [of cfg "ys_sim p"] "1.prems"(2) by (simp add: sync_inv_def)
    then show ?thesis using False "1.prems" by (subst limited_loop.simps) simp
  qed
qed

end
