(* ===== verification/SimRouter.thy ===== *)
theory SimRouter
  imports Router SimTboProps SimAsyncLive SimLimit
begin

text \<open>
  The simulators with the router of the repository.  All three pass \<open>request_ids\<close> as a Python
  list, and \<open>ProfileDrivenRouter.route\<close> takes it modulo the number of profiled requests,
  which raises TypeError for a list: no simulator gets past its first routed token.
\<close>

section \<open>The synchronous and the overlapped simulator\<close>

definition refuses :: "sync_config \<Rightarrow> py_error \<Rightarrow> bool" where
  "refuses cfg err \<longleftrightarrow> 0 < y_num_layers cfg \<and> (\<forall>l tokens. tokens \<noteq> [] \<longrightarrow> routed_rows cfg l tokens = Inl err)"

lemma profile_router_refuses:
  "y_router cfg = profile_route rt \<Longrightarrow> 0 < y_num_layers cfg \<Longrightarrow> refuses cfg TypeError"
  by (simp add: refuses_def routed_rows_def)

lemma refused_iteration:
  assumes "refuses cfg err" and "tokens \<noteq> []"
  shows "run_one_iteration cfg tokens s = Inl err"
  using assms by (simp add: refuses_def run_one_iteration_def upt_conv_Cons run_layer_def route_layer_def)

lemma refused_iteration_tbo:
  assumes "refuses cfg err" and "tokens \<noteq> []" and "distinct (map yt_tid tokens)"
  shows "run_one_iteration_tbo cfg tokens step base cap s = Inl err"
proof -
  obtain mb0 mb1 m where sp: "split_into_microbatches tokens = (mb0, mb1, m)" "mset mb0 + mset mb1 = mset tokens"
    "\<forall>tok\<in>set mb0. m (yt_tid tok) = Some 0" "\<forall>tok\<in>set mb1. m (yt_tid tok) = Some 1"
    using split_facts [OF assms(3)] by blast
  have "set tokens = set mb0 \<union> set mb1" using arg_cong [OF sp(2), of set_mset] by simp
  then have some: "\<forall>tok\<in>set tokens. m (yt_tid tok) \<noteq> None" using sp(3,4) by auto
  show ?thesis
    using assms(1,2)
    by (simp add: refuses_def run_one_iteration_tbo_def sp(1) upt_conv_Cons compute_layer_times_def
        token_count_split [OF some] route_layer_mb_def)
qed

text \<open>A pass raises, or it has found nothing active and goes to the next arrival.\<close>

definition idle_step :: "sync_config \<Rightarrow> sync_sim \<Rightarrow> sync_sim \<Rightarrow> bool" where
  "idle_step cfg s s' \<longleftrightarrow> y_active (fill_active_requests cfg (release_new_arrivals s)) = [] \<and>
     advance_to_next_arrival (fill_active_requests cfg (release_new_arrivals s)) = (True, s') \<and>
     sync_inv cfg s' \<and> same_run s s'"

lemma idle_or_active:
  assumes ok: "sync_ok cfg" and inv: "sync_inv cfg s" and more: "y_completed_tokens s < expected_tokens cfg s"
  defines "s1 \<equiv> fill_active_requests cfg (release_new_arrivals s)"
  shows "(\<exists>s'. idle_step cfg s s') \<or>
    y_active s1 \<noteq> [] \<and> (\<exists>tokens s2. spawn_tokens cfg s1 = Inr (tokens, s2) \<and> tokens \<noteq> [] \<and> distinct (map yt_tid tokens))"
proof (cases "y_active s1 = []")
  case True
  obtain s' where s': "advance_to_next_arrival s1 = (True, s')" "sync_inv cfg s'"
    using idle_advances [OF ok inv more] True unfolding s1_def by blast
  have "same_run s s'" using advance_progress [OF s'(1)] filled_inv [OF ok inv] by (simp add: same_run_def s1_def)
  then show ?thesis using True s' by (auto simp: idle_step_def s1_def)
next
  case False
  have "sync_inv cfg s1" using filled_inv [OF ok inv] by (simp add: s1_def)
  from spawn_ok [OF ok this False] obtain toks where
    t: "spawn_tokens cfg s1 = Inr (toks, s1\<lparr>y_next_tid := y_next_tid s1 + length toks\<rparr>)" "toks \<noteq> []"
    "map yt_tid toks = [y_completed_tokens s1..<y_completed_tokens s1 + length toks]" by blast
  have "distinct (map yt_tid toks)" unfolding t(3) by simp
  then show ?thesis using False t(1,2) by blast
qed

lemma idle_pass: "idle_step cfg s s' \<Longrightarrow> sync_pass cfg s = Inr (True, s')"
  by (simp add: idle_step_def sync_pass_def Let_def)

lemma refused_pass:
  assumes "sync_ok cfg" and "sync_inv cfg s" and "y_completed_tokens s < expected_tokens cfg s" and "refuses cfg err"
  shows "sync_pass cfg s = Inl err \<or> (\<exists>s'. idle_step cfg s s')"
  using idle_or_active [OF assms(1-3)] refused_iteration [OF assms(4)]
  by (auto simp: sync_pass_def Let_def)

lemma idle_step_more:
  "idle_step cfg s s' \<Longrightarrow> y_completed_tokens s < expected_tokens cfg s \<Longrightarrow>
   sync_inv cfg s' \<and> y_completed_tokens s' < expected_tokens cfg s'"
  by (simp add: idle_step_def same_run_def expected_tokens_def)

lemma refused_run:
  assumes "sync_ok cfg" and "sync_inv cfg s" and "y_completed_tokens s < expected_tokens cfg s" and "refuses cfg err"
  shows "sync_run cfg s = Inl err"
  using assms
proof (induction cfg s rule: sync_run.induct)
  case (1 cfg s)
  from refused_pass [OF "1.prems"] show ?case
  proof
    assume "sync_pass cfg s = Inl err"
    then show ?thesis using "1.prems"(3) by (subst sync_run.simps) simp
  next
    assume "\<exists>s'. idle_step cfg s s'"
    then obtain s' where i: "idle_step cfg s s'" by blast
    note p = idle_pass [OF i] and m = idle_step_more [OF i "1.prems"(3)]
    have "sync_run cfg s = sync_run cfg s'" using "1.prems"(3) p by (subst sync_run.simps) simp
    then show ?thesis using "1.IH" [OF "1.prems"(3) p refl refl "1.prems"(1)] m "1.prems"(4) by simp
  qed
qed

lemma refused_limited:
  assumes "sync_ok cfg" and "sync_inv cfg (ys_sim p)" and "y_completed_tokens (ys_sim p) < expected_tokens cfg (ys_sim p)"
    and "refuses cfg err" and "ys_saturation_tokens p = None"
  shows "limited_loop cfg n p = Inl err"
  using assms
proof (induction cfg n p rule: limited_loop.induct)
  case (1 cfg n p)
  from refused_pass [OF "1.prems"(1-4)] show ?case
  proof
    assume "sync_pass cfg (ys_sim p) = Inl err"
    then have "limited_pass cfg p = Inl err"
      using limited_pass_erase [of cfg p] by (cases "limited_pass cfg p") auto
    then show ?thesis using "1.prems"(3) by (subst limited_loop.simps) simp
  next
    assume "\<exists>s'. idle_step cfg (ys_sim p) s'"
    then obtain s' where i: "idle_step cfg (ys_sim p) s'" by blast
    define p' where "p' = p\<lparr>ys_steps := ys_steps p + 1, ys_sim := s'\<rparr>"
    have p: "limited_pass cfg p = Inr (True, p')"
      using i by (simp add: limited_pass_def idle_step_def note_sync_saturation_def sync_advance_def Let_def p'_def)
    have sat: "ys_saturation_tokens p' = None" and sim: "ys_sim p' = s'" using "1.prems"(5) by (simp_all add: p'_def)
    have nt: "\<not> tail_done n p'" by (simp add: tail_done_def sat)
    have "limited_loop cfg n p = limited_loop cfg n p'" using "1.prems"(3) p nt by (subst limited_loop.simps) simp
    then show ?thesis
      using "1.IH" [OF "1.prems"(3) p refl refl nt "1.prems"(1)] idle_step_more [OF i "1.prems"(3)] "1.prems"(4) sat sim by simp
  qed
qed

lemma refused_tbo:
  assumes "sync_ok cfg" and "sync_inv cfg (tb_sim st)" and "y_completed_tokens (tb_sim st) < expected_tokens cfg (tb_sim st)"
    and "refuses cfg err" and "tb_saturation_tokens st = None"
  shows "tbo_loop cfg limit st = Inl err"
  using assms
proof (induction cfg limit st rule: tbo_loop.induct)
  case (1 cfg limit st)
  let ?s1 = "fill_active_requests cfg (release_new_arrivals (tb_sim st))"
  let ?st1 = "note_saturation cfg (st\<lparr>tb_steps := tb_steps st + 1, tb_sim := ?s1\<rparr>)"
  have sim: "tb_sim ?st1 = ?s1" by (simp add: note_saturation_def Let_def)
  from idle_or_active [OF "1.prems"(1-3)] show ?case
  proof (elim disjE exE conjE)
    fix s' assume i: "idle_step cfg (tb_sim st) s'"
    define st' where "st' = st\<lparr>tb_steps := tb_steps st + 1, tb_sim := s'\<rparr>"
    have p: "tbo_pass cfg st = Inr (True, st')"
      using i by (simp add: tbo_pass_def idle_step_def note_saturation_def tbo_advance_def Let_def st'_def)
    have sat: "tb_saturation_tokens st' = None" and sim': "tb_sim st' = s'" using "1.prems"(5) by (simp_all add: st'_def)
    have nt: "\<not> enough_tail limit st'" by (simp add: enough_tail_def sat split: option.split)
    have "tbo_loop cfg limit st = tbo_loop cfg limit st'" using "1.prems"(3) p nt by (subst tbo_loop.simps) simp
    then show ?thesis
      using "1.IH" [OF "1.prems"(3) p refl refl nt "1.prems"(1)] idle_step_more [OF i "1.prems"(3)] "1.prems"(4) sat sim' by simp
  next
    fix tokens s2
    assume a: "y_active ?s1 \<noteq> []" "spawn_tokens cfg ?s1 = Inr (tokens, s2)" "tokens \<noteq> []" "distinct (map yt_tid tokens)"
    then have "tbo_pass cfg st = Inl err"
      using refused_iteration_tbo [OF "1.prems"(4) a(3,4)] unfolding tbo_pass_def Let_def sim by (simp add: sim)
    then show ?thesis using "1.prems"(3) by (subst tbo_loop.simps) simp
  qed
qed

lemma sync_start_more:
  assumes "sync_init cfg0 arrivals = Inr (cfg, s)" and "table_covers cfg0" and "0 < y_tokens_per_request cfg0"
    and "arrivals \<noteq> []"
  shows "y_completed_tokens s < expected_tokens cfg s"
proof -
  have "y_completed_tokens s = 0" using assms(1) by (auto simp: sync_init_def split: if_splits)
  then show ?thesis using sync_init_inv [OF assms(1-3)] assms(3,4) by (simp add: expected_tokens_def)
qed

lemma sync_raise:
  assumes "sync_init cfg0 arrivals = Inr (cfg, s)" and "table_covers cfg0" and "0 < y_tokens_per_request cfg0"
    and "y_router cfg0 = profile_route rt" and "0 < y_num_layers cfg0" and "arrivals \<noteq> []"
    and "limit = None \<or> (\<exists>n\<ge>0. limit = Some n)"
  shows "sync_run_limit cfg limit s = Inl TypeError" "tbo_run cfg limit (tbo_start cap s) = Inl TypeError"
proof -
  note i = sync_init_inv [OF assms(1-3)] and more = sync_start_more [OF assms(1-3,6)]
  have "routed_rows cfg = routed_rows cfg0" "y_num_layers cfg = y_num_layers cfg0" using i by auto
  then have ref: "refuses cfg TypeError" using profile_router_refuses [OF assms(4,5)] by (simp add: refuses_def)
  have "sync_run cfg s = Inl TypeError" using refused_run [OF _ _ more ref] i by blast
  moreover have "limited_loop cfg n (sync_start s) = Inl TypeError" for n
    using refused_limited [of cfg "sync_start s"] i more ref by (simp add: sync_start_def)
  ultimately show "sync_run_limit cfg limit s = Inl TypeError" using assms(7) by (auto simp: sync_run_limit_def)
  have "tbo_loop cfg limit (tbo_start cap s) = Inl TypeError"
    using refused_tbo [of cfg "tbo_start cap s"] i more ref by (simp add: tbo_start_def)
  then show "tbo_run cfg limit (tbo_start cap s) = Inl TypeError" using assms(7) by (auto simp: tbo_run_def)
qed

text \<open>
  C24: With the router of the repository the synchronous and the overlapped simulator raise
  TypeError on every workload: whatever routing profile was loaded, from any non-empty list of
  arrival times and with any limit, the run stops with the TypeError of the router's first call.
\<close>

theorem sync_runs_raise_type_error:
  assumes "sync_init cfg0 arrivals = Inr (cfg, s)" and "table_covers cfg0" and "0 < y_tokens_per_request cfg0"
    and "y_router cfg0 = profile_route rt" and "0 < y_num_layers cfg0" and "arrivals \<noteq> []"
    and "limit = None \<or> (\<exists>n\<ge>0. limit = Some n)"
  shows "sync_run_limit cfg limit s = Inl TypeError \<and> tbo_run cfg limit (tbo_start cap s) = Inl TypeError"
  using sync_raise [OF assms] by blast

definition small_router :: router where
  "small_router = projr (load_profile 2 1 None small_profile)"

theorem sync_runs_raise_type_error_witness:
  "\<exists>cfg s. sync_init (demo_sync\<lparr>y_router := profile_route small_router\<rparr>) [1, 3] = Inr (cfg, s) \<and>
    sync_run_limit cfg (Some 0) s = Inl TypeError \<and> tbo_run cfg (Some 0) (tbo_start None s) = Inl TypeError"
proof -
  let ?c = "demo_sync\<lparr>y_router := profile_route small_router\<rparr>"
  obtain cfg s where init: "sync_init ?c [1, 3] = Inr (cfg, s)" by (simp add: sync_init_def demo_sync_def)
  have cov: "table_covers ?c" using demo_covers by (simp add: table_covers_def)
  have "0 < y_tokens_per_request ?c" "0 < y_num_layers ?c" by (simp_all add: demo_sync_def)
  from sync_runs_raise_type_error [OF init cov this(1) _ this(2), of small_router "Some 0" None] init
  show ?thesis by auto
qed

section \<open>The asynchronous simulator\<close>

text \<open>Nothing but the start of a routing process writes a fanout, and only a returned batch completes a token.\<close>

lemma attn_enqueue_frame:
  "attn_enqueue l t s = Inr s' \<Longrightarrow> sm_fanout s' = sm_fanout s \<and> sm_completions s' = sm_completions s \<and> sm_latencies s' = sm_latencies s"
  by (auto simp: attn_enqueue_def split: if_splits)

lemma admit_frame:
  assumes "admit_request cfg r t s = Inr s'"
  shows "sm_fanout s' = sm_fanout s \<and> sm_completions s' = sm_completions s \<and> sm_latencies s' = sm_latencies s"
  using assms
  by (auto simp: admit_request_def start_request_now_def dispatch_next_token_def Let_def res
      split: if_splits dest!: attn_enqueue_frame)

lemma loop_top_frame:
  "loop_top cfg i s = Inr s' \<Longrightarrow> sm_fanout s' = sm_fanout s \<and> sm_completions s' = sm_completions s \<and> sm_latencies s' = sm_latencies s"
  by (auto simp: loop_top_def Let_def set_worker_def res split: if_splits)

lemma no_fanout_no_reps:
  assumes "sim_inv cfg {#} s" and "sm_fanout s = (\<lambda>_ _. None)"
  shows "reps s = {#}"
proof -
  obtain G where c: "sim_core cfg G {#} s" using assms(1) by (auto simp: sim_inv_def req_inv_def)
  note core = c [unfolded sim_core_def, simplified]
  have "(l, t) \<notin># reps s" for l t
  proof
    assume "(l, t) \<in># reps s"
    then obtain f where "sm_fanout s (tk_tid t) l = Some f" using core_rep_member [OF core] by metis
    then show False using assms(2) by simp
  qed
  then show ?thesis by (metis multiset_nonemptyE surj_pair)
qed

lemma refused_exec:
  assumes cfg: "route_ids cfg = profile_route rt" and inv: "sim_inv cfg {#} s" and fan: "sm_fanout s = (\<lambda>_ _. None)"
    and e: "exec cfg e s = Some (Inr s')"
  shows "sm_fanout s' = sm_fanout s \<and> sm_completions s' = sm_completions s \<and> sm_latencies s' = sm_latencies s"
proof (cases e)
  case (ReturnDone i)
  then obtain l b where i: "i < length (sm_workers s)" and ph: "w_phase (sm_workers s ! i) = Returning l b"
    using e by (auto split: if_splits phase.splits)
  have "b \<noteq> []" using sim_inv_nth [OF inv i] ph by (simp add: worker_ok_def)
  then obtain t where "t \<in> set b" by (cases b) auto
  then have "(l, t) \<in># worker_reps (sm_workers s ! i)" by (simp add: worker_reps_def phase_reps_def ph)
  then have "(l, t) \<in># reps s" using sum_list_member [OF i, of _ worker_reps] by (simp add: reps_def)
  then show ?thesis using no_fanout_no_reps [OF inv fan] by simp
next
  case (RouteStart p)
  then show ?thesis using e cfg
    by (auto simp: route_and_dispatch_def route_token_def router_call_def split: if_splits route_proc.splits)
next
  case (RouteDone p)
  then obtain l t routes where p: "p < length (sm_procs s)" "sm_procs s ! p = Sending l t routes"
    using e by (auto split: if_splits route_proc.splits)
  have "proc_ok cfg (Sending l t routes)" using sim_inv_base [OF inv] p nth_mem by (fastforce simp: base_ok_def)
  then have "(l, t) \<in># proc_reps (sm_procs s ! p)" using p(2) by (simp add: proc_ok_def proc_reps_def)
  then have "(l, t) \<in># reps s" using sum_list_member [OF p(1), of _ proc_reps] by (simp add: reps_def)
  then show ?thesis using no_fanout_no_reps [OF inv fan] by simp
next
  case (Pick i)
  then have "loop_top cfg i s = Inr s'" using e by (auto split: if_splits phase.splits)
  then show ?thesis by (rule loop_top_frame)
next
  case Arrive
  then have "admit_request cfg (sm_arrived s) (sm_now s) (s\<lparr>sm_arrived := sm_arrived s + 1\<rparr>) = Inr s'"
    using e by (auto split: if_splits)
  then show ?thesis using admit_frame by fastforce
qed (use e in \<open>auto simp: set_worker_def split: if_splits phase.splits\<close>)

lemma refused_reachable_state:
  assumes "cfg_ok cfg" and "route_ids cfg = profile_route rt" and "reachable cfg s"
  shows "sm_fanout s = (\<lambda>_ _. None) \<and> sm_completions s = [] \<and> sm_latencies s = []"
  using assms(3)
proof induction
  case (reach_init s)
  then show ?case by (auto simp: run_init_def split: if_splits)
next
  case (reach_step s s')
  obtain e where "exec cfg e s = Some (Inr s')" using reach_step.hyps(2) by (rule sim_stepE)
  then show ?case
    using refused_exec [OF assms(2) reachable_inv [OF assms(1) reach_step.hyps(1)]] reach_step.IH by simp
qed

text \<open>
  C25: With the router of the repository the asynchronous simulator completes nothing: in every
  execution, whatever routing profile was loaded, no token and no request is ever completed,
  some event other than the passing of time can always happen, and the start of every routing
  process raises TypeError.  (The number of events is bounded, so every execution that goes on
  ends in that TypeError.)
\<close>

theorem sim_async_raises_type_error:
  assumes cfg: "cfg_ok cfg" and rt: "route_ids cfg = profile_route rt" and some: "0 < total_requests cfg"
    and reach: "reachable cfg s"
  shows "sm_completions s = [] \<and> sm_latencies s = [] \<and> (\<exists>e. \<not> is_tick e \<and> exec cfg e s \<noteq> None) \<and>
    (\<forall>p<length (sm_procs s). \<exists>l t. sm_procs s ! p = Spawned l t \<and> exec cfg (RouteStart p) s = Some (Inl TypeError))"
proof (intro conjI allI impI)
  note st = refused_reachable_state [OF cfg rt reach]
  have inv: "sim_inv cfg {#} s" by (rule reachable_inv [OF cfg reach])
  show "sm_completions s = []" "sm_latencies s = []" using st by simp_all
  show "\<exists>e. \<not> is_tick e \<and> exec cfg e s \<noteq> None"
  proof (rule ccontr)
    assume "\<nexists>e. \<not> is_tick e \<and> exec cfg e s \<noteq> None"
    then have "quiescent cfg s" by (rule no_event_quiescent)
    then have "length (sm_latencies s) = total_requests cfg" using quiescent_complete [OF cfg reach] by blast
    then show False using st some by simp
  qed
  fix p assume p: "p < length (sm_procs s)"
  show "\<exists>l t. sm_procs s ! p = Spawned l t \<and> exec cfg (RouteStart p) s = Some (Inl TypeError)"
  proof (cases "sm_procs s ! p")
    case (Spawned l t)
    then show ?thesis using p rt by (simp add: route_and_dispatch_def route_token_def router_call_def)
  next
    case (Sending l t routes)
    have "proc_ok cfg (Sending l t routes)" using sim_inv_base [OF inv] p Sending nth_mem by (fastforce simp: base_ok_def)
    then have "(l, t) \<in># proc_reps (sm_procs s ! p)" using Sending by (simp add: proc_ok_def proc_reps_def)
    then have "(l, t) \<in># reps s" using sum_list_member [OF p, of _ proc_reps] by (simp add: reps_def)
    then show ?thesis using no_fanout_no_reps [OF inv] st by simp
  qed
qed

definition repo_cfg :: sim_config where
  "repo_cfg = small_cfg\<lparr>route_ids := profile_route small_router\<rparr>"

definition repo_state :: sim where
  "repo_state = projr (the (run_events repo_cfg (take 4 small_events) (projr (run_init repo_cfg))))"

lemma repo_cfg_ok: "cfg_ok repo_cfg"
  by (simp add: cfg_ok_def small_cfg_def repo_cfg_def)

theorem sim_async_raises_type_error_witness:
  "sm_completions repo_state = [] \<and> length (sm_procs repo_state) = 1 \<and>
   exec repo_cfg (RouteStart 0) repo_state = Some (Inl TypeError)"
proof -
  have "run_init repo_cfg = Inr (projr (run_init repo_cfg))" using cfg_ok_run_init [OF repo_cfg_ok] by auto
  then have r: "reachable repo_cfg (projr (run_init repo_cfg))" by (rule reach_init)
  have "run_ok (run_events repo_cfg (take 4 small_events) (projr (run_init repo_cfg)))" by code_simp
  then have reach: "reachable repo_cfg repo_state"
    using r run_events_reachable unfolding repo_state_def run_ok_def
    by (auto split: option.splits sum.splits)
  have len: "length (sm_procs repo_state) = 1" by code_simp
  have "route_ids repo_cfg = profile_route small_router" "0 < total_requests repo_cfg"
    by (simp_all add: repo_cfg_def small_cfg_def)
  from sim_async_raises_type_error [OF repo_cfg_ok this reach] len show ?thesis by auto
qed

end
