(* ===== verification/SimClock.thy ===== *)
theory SimClock
  imports SimLimit
begin

text \<open>
  The clock of the synchronous simulator: with times that are not negative no layer takes
  negative time, every batch has between one token and the limit, and every recorded latency
  lies between zero and the time on the clock.
\<close>

section \<open>The durations of a layer\<close>

definition times_nonneg :: "sync_config \<Rightarrow> bool" where
  "times_nonneg cfg \<longleftrightarrow> 0 \<le> y_attn_service_t cfg \<and> 0 \<le> y_net_a2e cfg \<and> 0 \<le> y_net_e2a cfg \<and>
     (\<forall>f. y_net_delay cfg = Some f \<longrightarrow> (\<forall>a b n. 0 \<le> f a b n)) \<and> (\<forall>k t. y_lookup cfg k = Some t \<longrightarrow> 0 \<le> t)"

definition batches_ok :: "sync_config \<Rightarrow> nat \<Rightarrow> nat \<Rightarrow> bool" where
  "batches_ok cfg n c \<longleftrightarrow> c \<le> n \<and> n \<le> c * y_max_batch cfg"

lemma worker_loop_sound:
  assumes "times_nonneg cfg" and "0 < y_max_batch cfg"
    and "worker_loop cfg fuel queues remaining (e, n, c) = Inr (e', n', c')"
    and "0 \<le> e" and "batches_ok cfg n c"
  shows "0 \<le> e' \<and> batches_ok cfg n' c'"
  using assms(3-5)
proof (induction fuel arbitrary: queues remaining e n c)
  case 0
  then show ?case by (subst (asm) worker_loop.simps) (auto simp: Let_def split: if_splits)
next
  case (Suc fuel)
  define i where "i = longest_index queues"
  define b where "b = min (queues ! i) (y_max_batch cfg)"
  show ?case
  proof (cases "remaining = 0 \<or> queues = [] \<or> queues ! i = 0")
    case True
    then show ?thesis using Suc.prems
      by (subst (asm) worker_loop.simps) (auto simp: Let_def i_def split: if_splits)
  next
    case False
    then obtain t where t: "y_lookup cfg (int b) = Some t"
      and next_: "worker_loop cfg fuel (queues[i := queues ! i - b]) (remaining - b) (e + t, n + b, c + 1) = Inr (e', n', c')"
      using Suc.prems(1)
      by (subst (asm) worker_loop.simps) (auto simp: Let_def i_def [symmetric] b_def [symmetric] lookupR_def split: option.splits)
    have "0 \<le> t" using assms(1) t by (auto simp: times_nonneg_def)
    moreover have "batches_ok cfg (n + b) (c + 1)"
      using Suc.prems(3) False assms(2) by (auto simp: batches_ok_def b_def)
    ultimately show ?thesis using Suc.IH [OF next_] Suc.prems(2) by simp
  qed
qed

lemma simulate_workers_sound:
  assumes "times_nonneg cfg" and "0 < y_max_batch cfg"
    and "simulate_workers cfg loads (n, c) = Inr (ts, n', c')" and "batches_ok cfg n c"
  shows "(\<forall>t\<in>set ts. 0 \<le> t) \<and> batches_ok cfg n' c'"
  using assms(3,4)
proof (induction loads arbitrary: n c ts)
  case (Cons q loads)
  then obtain t n1 c1 ts1 where w: "simulate_worker cfg q (n, c) = Inr (t, n1, c1)"
    and r: "simulate_workers cfg loads (n1, c1) = Inr (ts1, n', c')" and ts: "ts = t # ts1"
    by (auto simp: res)
  have "0 \<le> t \<and> batches_ok cfg n1 c1"
    using w worker_loop_sound [OF assms(1,2), of "sum_list q" q "sum_list q" 0 n c t n1 c1] Cons.prems(2)
    by (auto simp: simulate_worker_def split: if_splits)
  then show ?case using Cons.IH [OF r] ts by simp
qed simp

lemma fold_nonneg:
  assumes "\<And>x acc. P acc \<Longrightarrow> P (f x acc)" and "P acc"
  shows "P (fold f xs acc)"
  using assms(2) by (induction xs arbitrary: acc) (simp_all add: assms(1))

lemma receive_time_nonneg:
  assumes "\<And>a b n. 0 \<le> f a b n"
  shows "0 \<le> receive_time f cfg dst src"
proof -
  have "0 \<le> fst (fold (add_delay f cfg dst) src (0, 0)) \<and> 0 \<le> snd (fold (add_delay f cfg dst) src (0, 0))"
    by (rule fold_nonneg [where P = "\<lambda>acc. 0 \<le> fst acc \<and> 0 \<le> snd acc"])
      (auto simp: add_delay_def Let_def assms split: prod.splits)
  then show ?thesis by (auto simp: receive_time_def split_beta)
qed

lemma max_set_nonneg: "xs \<noteq> [] \<Longrightarrow> \<forall>x\<in>set xs. 0 \<le> (x::real) \<Longrightarrow> 0 \<le> Max (set xs)"
  by (metis List.finite_set Max_in set_empty)

lemma dispatch_time_nonneg:
  assumes "times_nonneg cfg"
  shows "0 \<le> dispatch_time cfg pd"
proof (cases "y_net_delay cfg")
  case None
  then show ?thesis using assms by (simp add: dispatch_time_def times_nonneg_def)
next
  case (Some f)
  then have "0 \<le> receive_time f cfg w (d_get_or pd w [])" for w
    using assms by (intro receive_time_nonneg) (simp add: times_nonneg_def)
  then show ?thesis using max_set_nonneg [of "map (\<lambda>w. receive_time f cfg w (d_get_or pd w [])) [0..<y_ep cfg]"]
    by (simp add: dispatch_time_def Some Let_def)
qed

definition dict_nonneg :: "(nat, real) dict \<Rightarrow> bool" where
  "dict_nonneg d \<longleftrightarrow> (\<forall>k. 0 \<le> d_get_or d k 0)"

lemma add_return_nonneg:
  assumes "\<And>a b n. 0 \<le> f a b n" and "dict_nonneg (fst acc) \<and> dict_nonneg (snd acc)"
  shows "dict_nonneg (fst (add_return f cfg w p acc)) \<and> dict_nonneg (snd (add_return f cfg w p acc))"
  using assms by (auto simp: add_return_def Let_def dict_nonneg_def d_get_or_update split: prod.splits)

lemma return_time_nonneg:
  assumes "times_nonneg cfg"
  shows "0 \<le> return_time cfg loads pd"
proof (cases "y_net_delay cfg")
  case None
  then show ?thesis using assms by (simp add: return_time_def times_nonneg_def)
next
  case (Some f)
  then have f: "0 \<le> f a b n" for a b n using assms by (simp add: times_nonneg_def)
  define nr where "nr = fold (\<lambda>w totals. if sum_list (loads ! w) = 0 then totals
      else fold (add_return f cfg w) (d_get_or pd w []) totals) [0..<y_ep cfg] ([], [])"
  have inner: "dict_nonneg (fst (fold (add_return f cfg w) xs acc)) \<and> dict_nonneg (snd (fold (add_return f cfg w) xs acc))"
    if "dict_nonneg (fst acc) \<and> dict_nonneg (snd acc)" for w xs acc
    by (rule fold_nonneg [where P = "\<lambda>acc. dict_nonneg (fst acc) \<and> dict_nonneg (snd acc)"])
      (use that add_return_nonneg [OF f] in auto)
  have "dict_nonneg (fst nr) \<and> dict_nonneg (snd nr)"
    unfolding nr_def
  proof (rule fold_nonneg [where P = "\<lambda>acc. dict_nonneg (fst acc) \<and> dict_nonneg (snd acc)"])
    show "dict_nonneg (fst ([], [])) \<and> dict_nonneg (snd ([], []))" by (simp add: dict_nonneg_def d_get_or_def)
  qed (use inner in auto)
  then have each: "0 \<le> max (d_get_or (fst nr) g 0) (d_get_or (snd nr) g 0)" for g
    by (simp add: dict_nonneg_def max.coboundedI1)
  define gs where "gs = map fst (fst nr) @ map fst (snd nr)"
  have "return_time cfg loads pd = (if gs = [] then 0
      else Max (set (map (\<lambda>g. max (d_get_or (fst nr) g 0) (d_get_or (snd nr) g 0)) gs)))"
    unfolding return_time_def Some option.case Let_def split_beta nr_def gs_def ..
  moreover have "0 \<le> Max (set (map (\<lambda>g. max (d_get_or (fst nr) g 0) (d_get_or (snd nr) g 0)) gs))" if "gs \<noteq> []"
    by (rule max_set_nonneg) (use that each in auto)
  ultimately show ?thesis by (cases "gs = []") (simp_all only: if_True if_False order_refl simp_thms)
qed

lemma attention_time_nonneg: "times_nonneg cfg \<Longrightarrow> 0 \<le> attention_time cfg n"
  unfolding attention_time_def times_nonneg_def
  by (intro mult_nonneg_nonneg) (simp_all add: order_less_le_trans [of "-1" 0])

lemma max_or_0_nonneg: "\<forall>t\<in>set ts. 0 \<le> t \<Longrightarrow> 0 \<le> max_or_0 ts"
  using max_set_nonneg by (simp add: max_or_0_def)

section \<open>The statistics\<close>

definition stats_inv :: "sync_config \<Rightarrow> sync_sim \<Rightarrow> bool" where
  "stats_inv cfg s \<longleftrightarrow> batches_ok cfg (y_batch_size s) (y_batch_count s) \<and>
     (\<forall>x\<in>set (y_layer_runtimes s). 0 \<le> x) \<and> (\<forall>x\<in>set (y_wait_imbalances s). 0 \<le> x) \<and>
     (\<forall>x\<in>set (y_queue_stddevs s). 0 \<le> x)"

lemma queue_stddev_nonneg: "0 \<le> queue_stddev qs"
  by (auto simp: queue_stddev_def Let_def intro!: divide_nonneg_nonneg sum_list_nonneg)

lemma run_layer_sound:
  assumes "times_nonneg cfg" and "0 < y_max_batch cfg" and "run_layer cfg l tokens s = Inr (t, s')" and "stats_inv cfg s"
  shows "0 \<le> t \<and> stats_inv cfg s'"
proof (cases "tokens = []")
  case True
  then show ?thesis using assms(3,4) by (auto simp: run_layer_def)
next
  case False
  then obtain wl pd ts n c where r: "route_layer cfg l tokens = Inr (wl, pd)"
    "simulate_workers cfg wl (y_batch_size s, y_batch_count s) = Inr (ts, n, c)"
    "t = attention_time cfg (length tokens) + dispatch_time cfg pd + (max_or_0 ts + return_time cfg wl pd)"
    "s' = s\<lparr>y_queue_stddevs := y_queue_stddevs s @ map queue_stddev (filter (\<lambda>qs. qs \<noteq> []) wl),
                 y_batch_size := n, y_batch_count := c,
                 y_layer_runtimes := y_layer_runtimes s @ [t],
                 y_wait_imbalances := y_wait_imbalances s @ [longest_wait ts]\<rparr>"
    using assms(3) by (auto simp: run_layer_def Let_def res)
  have w: "(\<forall>t\<in>set ts. 0 \<le> t) \<and> batches_ok cfg n c"
    using simulate_workers_sound [OF assms(1,2) r(2)] assms(4) by (simp add: stats_inv_def)
  have "0 \<le> t" using r(3) attention_time_nonneg [OF assms(1)] dispatch_time_nonneg [OF assms(1)]
      return_time_nonneg [OF assms(1)] max_or_0_nonneg [of ts] w by simp
  moreover have "0 \<le> longest_wait ts" by (simp add: longest_wait_def)
  ultimately show ?thesis using assms(4) w queue_stddev_nonneg by (auto simp: stats_inv_def r(4))
qed

lemma run_layers_sound:
  assumes "times_nonneg cfg" and "0 < y_max_batch cfg" and "run_layers cfg ls tokens s = Inr (t, s')" and "stats_inv cfg s"
  shows "0 \<le> t \<and> stats_inv cfg s'"
  using assms(3,4)
proof (induction ls arbitrary: s t)
  case (Cons l ls)
  then obtain t1 s1 t2 where "run_layer cfg l tokens s = Inr (t1, s1)" "run_layers cfg ls tokens s1 = Inr (t2, s')" "t = t1 + t2"
    by (auto simp: res)
  then show ?case using Cons.IH run_layer_sound [OF assms(1,2)] Cons.prems(2) by fastforce
qed simp

section \<open>The clock\<close>

definition clock_inv :: "sync_sim \<Rightarrow> bool" where
  "clock_inv s \<longleftrightarrow> 0 \<le> y_now s \<and> (\<forall>r<total_reqs s. 0 \<le> rq_arrival_time (y_requests s ! r)) \<and>
     (\<forall>r<y_arrival_index s. rq_arrival_time (y_requests s ! r) \<le> y_now s) \<and>
     (\<forall>x\<in>snd ` set (y_token_latencies s) \<union> set (y_request_latencies s). 0 \<le> x \<and> x \<le> y_now s)"

text \<open>What admission and spawning keep: the clock, the arrivals and everything recorded.\<close>

definition same_clock :: "sync_sim \<Rightarrow> sync_sim \<Rightarrow> bool" where
  "same_clock s s' \<longleftrightarrow> y_now s' = y_now s \<and> y_arrival_index s' = y_arrival_index s \<and>
     map rq_arrival_time (y_requests s') = map rq_arrival_time (y_requests s) \<and>
     y_token_latencies s' = y_token_latencies s \<and> y_request_latencies s' = y_request_latencies s"

definition same_stats :: "sync_sim \<Rightarrow> sync_sim \<Rightarrow> bool" where
  "same_stats s s' \<longleftrightarrow> y_batch_size s' = y_batch_size s \<and> y_batch_count s' = y_batch_count s \<and>
     y_layer_runtimes s' = y_layer_runtimes s \<and> y_wait_imbalances s' = y_wait_imbalances s \<and>
     y_queue_stddevs s' = y_queue_stddevs s"

lemma same_stats_inv: "same_stats s s' \<Longrightarrow> stats_inv cfg s' = stats_inv cfg s"
  by (simp add: same_stats_def stats_inv_def)

lemma same_stats_trans: "same_stats a b \<Longrightarrow> same_stats b c \<Longrightarrow> same_stats a c"
  by (simp add: same_stats_def)

lemma same_clock_arrival:
  assumes "same_clock s s'"
  shows "total_reqs s' = total_reqs s"
    and "r < total_reqs s \<Longrightarrow> rq_arrival_time (y_requests s' ! r) = rq_arrival_time (y_requests s ! r)"
proof -
  have m: "map rq_arrival_time (y_requests s') = map rq_arrival_time (y_requests s)" using assms by (simp add: same_clock_def)
  then show t: "total_reqs s' = total_reqs s" unfolding total_reqs_def by (metis length_map)
  show "r < total_reqs s \<Longrightarrow> rq_arrival_time (y_requests s' ! r) = rq_arrival_time (y_requests s ! r)"
    using m t unfolding total_reqs_def by (metis nth_map)
qed

lemma same_clock_inv:
  assumes "same_clock s s'" and "clock_inv s" and "y_arrival_index s \<le> total_reqs s"
  shows "clock_inv s'"
  using assms same_clock_arrival [OF assms(1)] by (simp add: clock_inv_def same_clock_def)

lemma release_same:
  "y_now (release_new_arrivals s) = y_now s \<and> y_requests (release_new_arrivals s) = y_requests s \<and>
   y_token_latencies (release_new_arrivals s) = y_token_latencies s \<and>
   y_request_latencies (release_new_arrivals s) = y_request_latencies s \<and> same_stats s (release_new_arrivals s)"
proof (induction s rule: release_new_arrivals.induct)
  case (1 s)
  then show ?case by (subst (1 2 3 4 5) release_new_arrivals.simps) (auto simp: same_stats_def)
qed

lemma release_clock: "clock_inv s \<Longrightarrow> clock_inv (release_new_arrivals s)"
proof (induction s rule: release_new_arrivals.induct)
  case (1 s)
  then show ?case
    by (subst release_new_arrivals.simps) (auto simp: clock_inv_def total_reqs_def less_Suc_eq)
qed

lemma clock_later: "clock_inv s \<Longrightarrow> y_now s \<le> t \<Longrightarrow> clock_inv (s\<lparr>y_now := t\<rparr>)"
  unfolding clock_inv_def total_reqs_def by (auto intro: order_trans)

lemma advance_clock:
  assumes "advance_to_next_arrival s = (b, s')" and "clock_inv s"
  shows "clock_inv s' \<and> same_stats s s'"
proof (cases "total_reqs s \<le> y_arrival_index s")
  case True
  then show ?thesis using assms by (auto simp: advance_to_next_arrival_def same_stats_def)
next
  case False
  let ?t = "rq_arrival_time (y_requests s ! y_arrival_index s)"
  define s1 where "s1 = (if y_now s < ?t then s\<lparr>y_now := ?t\<rparr> else s)"
  have "s' = release_new_arrivals s1" using assms(1) False by (simp add: advance_to_next_arrival_def s1_def Let_def)
  moreover have "clock_inv s1" using assms(2) clock_later [of s ?t] by (simp add: s1_def)
  moreover have "same_stats s s1" by (simp add: s1_def same_stats_def)
  ultimately show ?thesis using release_clock release_same same_stats_trans by blast
qed

lemma fill_same: "same_clock s (fill_active_requests cfg s) \<and> same_stats s (fill_active_requests cfg s)"
proof -
  have upd: "map rq_arrival_time (xs[c := (xs ! c)\<lparr>rq_home_gpu := g\<rparr>]) = map rq_arrival_time xs" for xs c g
    by (metis list_update_id map_update req_state.select_convs(1) req_state.surjective req_state.update_convs(2))
  have "same_clock s (fill_loop_sync cfg q s) \<and> same_stats s (fill_loop_sync cfg q s)" for q
  proof (induction q arbitrary: s)
    case (Cons c rest)
    show ?case using Cons.IH by (auto simp: same_clock_def same_stats_def set_request_def Let_def upd)
  qed (simp add: same_clock_def same_stats_def)
  then show ?thesis by (simp add: fill_active_requests_def)
qed

lemma spawn_same:
  assumes "spawn_tokens cfg s = Inr (tokens, s')"
  shows "same_clock s s' \<and> same_stats s s' \<and>
    (\<forall>tok\<in>set tokens. yt_birth_time tok = y_now s \<and> yt_request_id tok \<in> set (y_active s))"
proof -
  define I where "I acc \<longleftrightarrow> same_clock s (snd acc) \<and> same_stats s (snd acc) \<and>
    (\<forall>tok\<in>set (fst acc). yt_birth_time tok = y_now s \<and> yt_request_id tok \<in> set (y_active s))" for acc :: "sync_token list \<times> sync_sim"
  have "I (tokens, s')"
  proof (rule foldR_invariant [OF assms [unfolded spawn_tokens_def]])
    show "I ([], s)" by (simp add: I_def same_clock_def same_stats_def)
    show "I acc'" if "r \<in> set (y_active s)" "I acc" "spawn_step cfg r acc = Inr acc'" for r acc acc'
      using that by (cases acc) (auto simp: I_def spawn_step_def Let_def res same_clock_def same_stats_def split: if_splits)
  qed
  then show ?thesis by (simp add: I_def)
qed


lemma run_layers_core: "run_layers cfg ls tokens s = Inr (t, s') \<Longrightarrow> same_core s s'"
proof (induction ls arbitrary: s t)
  case (Cons l ls)
  then obtain t1 s1 t2 where "run_layer cfg l tokens s = Inr (t1, s1)" "run_layers cfg ls tokens s1 = Inr (t2, s')"
    by (auto simp: res)
  moreover from this have "same_core s s1" by (auto simp: run_layer_def res Let_def same_core_def split: if_splits)
  ultimately show ?case using Cons.IH by (fastforce simp: same_core_def)
qed (simp add: same_core_def)

lemma finalize_token_clock:
  fixes cfg :: sync_config
  assumes "clock_inv s" and "0 \<le> yt_birth_time tok" and "yt_birth_time tok \<le> y_now s"
    and "yt_request_id tok < y_arrival_index s" and "y_arrival_index s \<le> total_reqs s"
  defines "s' \<equiv> finalize_token cfg (y_now s) tok s"
  shows "clock_inv s' \<and> y_now s' = y_now s \<and> y_arrival_index s' = y_arrival_index s \<and> total_reqs s' = total_reqs s \<and>
    same_stats s s'"
proof -
  let ?r = "yt_request_id tok"
  have a: "0 \<le> rq_arrival_time (y_requests s ! ?r)" "rq_arrival_time (y_requests s ! ?r) \<le> y_now s"
    using assms(1,4,5) by (auto simp: clock_inv_def)
  have r: "?r < length (y_requests s)" using assms(4,5) by (simp add: total_reqs_def)
  have nth: "rq_arrival_time (y_requests s' ! i) = rq_arrival_time (y_requests s ! i)" for i
    using r by (cases "i = ?r") (simp_all add: s'_def finalize_token_def Let_def set_request_def)
  have f: "y_now s' = y_now s" "y_arrival_index s' = y_arrival_index s" "total_reqs s' = total_reqs s" "same_stats s s'"
    "y_token_latencies s' = y_token_latencies s @ [(yt_tid tok, y_now s - yt_birth_time tok)]"
    "y_request_latencies s' = y_request_latencies s \<or>
     y_request_latencies s' = y_request_latencies s @ [y_now s - rq_arrival_time (y_requests s ! ?r)]"
    by (auto simp: s'_def finalize_token_def Let_def set_request_def total_reqs_def same_stats_def)
  have "clock_inv s'" using assms(1-3) a f(6) unfolding clock_inv_def f(1-3,5) nth by auto
  then show ?thesis using f by blast
qed

lemma finalize_clock:
  assumes "clock_inv s" and "y_arrival_index s \<le> total_reqs s"
    and "\<forall>tok\<in>set tokens. 0 \<le> yt_birth_time tok \<and> yt_birth_time tok \<le> y_now s \<and> yt_request_id tok < y_arrival_index s"
  shows "clock_inv (finalize_iteration cfg tokens s) \<and> same_stats s (finalize_iteration cfg tokens s)"
proof -
  define t where "t = y_now s"
  have "clock_inv (fold (finalize_token cfg t) tokens s) \<and> same_stats s (fold (finalize_token cfg t) tokens s)"
    using assms t_def
  proof (induction tokens arbitrary: s)
    case (Cons tok tokens)
    let ?s = "finalize_token cfg t tok s"
    have 1: "clock_inv ?s \<and> y_now ?s = t \<and> y_arrival_index ?s = y_arrival_index s \<and> total_reqs ?s = total_reqs s \<and>
        same_stats s ?s"
      using finalize_token_clock [of s tok cfg] Cons.prems by simp
    have "clock_inv (fold (finalize_token cfg t) tokens ?s) \<and> same_stats ?s (fold (finalize_token cfg t) tokens ?s)"
      by (rule Cons.IH) (use 1 Cons.prems in simp_all)
    then show ?case using 1 same_stats_trans [of s ?s] by simp
  qed (simp add: same_stats_def)
  then show ?thesis by (simp add: finalize_iteration_def drop_completed_def t_def clock_inv_def same_stats_def total_reqs_def)
qed

text \<open>A pass keeps the clock and the statistics sound.\<close>

lemma sync_pass_sound:
  assumes ok: "sync_ok cfg" and nn: "times_nonneg cfg" and inv: "sync_inv cfg s"
    and cl: "clock_inv s" and st: "stats_inv cfg s" and pass: "sync_pass cfg s = Inr (b, s')"
  shows "clock_inv s' \<and> stats_inv cfg s'"
proof -
  define s1 where "s1 = fill_active_requests cfg (release_new_arrivals s)"
  note f = filled_inv [OF ok inv, folded s1_def]
  have idx1: "y_arrival_index s1 \<le> total_reqs s1" "\<forall>r\<in>set (y_active s1). r < y_arrival_index s1"
    using f by (simp_all add: sync_inv_def queues_inv_def pending_def)
  have sub: "same_clock (release_new_arrivals s) s1" "same_stats (release_new_arrivals s) s1"
    using fill_same [of "release_new_arrivals s" cfg] by (simp_all add: s1_def)
  have "y_arrival_index (release_new_arrivals s) \<le> total_reqs (release_new_arrivals s)"
    using release_inv [OF inv] by (simp add: sync_inv_def queues_inv_def)
  then have c1: "clock_inv s1" using same_clock_inv [OF sub(1)] release_clock [OF cl] by blast
  have st1: "stats_inv cfg s1"
    using release_same [of s] same_stats_inv [OF sub(2), of cfg] same_stats_inv [of s "release_new_arrivals s" cfg] st by blast
  have adv: "clock_inv s'' \<and> stats_inv cfg s''"
    if "advance_to_next_arrival s2 = (b, s'')" "clock_inv s2" "stats_inv cfg s2" for s2 s''
    using advance_clock [OF that(1,2)] same_stats_inv [of s2 s'' cfg] that(3) by blast
  show ?thesis
  proof (cases "y_active s1 = []")
    case True
    then have "advance_to_next_arrival s1 = (b, s')" using pass by (simp add: sync_pass_def Let_def s1_def [symmetric])
    then show ?thesis using adv c1 st1 by blast
  next
    case False
    then obtain tokens s2 where sp: "spawn_tokens cfg s1 = Inr (tokens, s2)"
      and rest: "(if tokens = [] then Inr (advance_to_next_arrival s2)
           else bindR (run_one_iteration cfg tokens s2) (\<lambda>(iteration_duration, s).
             Inr (True, finalize_iteration cfg tokens (s\<lparr>y_now := y_now s + iteration_duration\<rparr>)))) = Inr (b, s')"
      using pass by (auto simp: sync_pass_def Let_def s1_def [symmetric] res)
    have ss: "same_clock s1 s2" "same_stats s1 s2"
      "\<forall>tok\<in>set tokens. yt_birth_time tok = y_now s1 \<and> yt_request_id tok \<in> set (y_active s1)"
      using spawn_same [OF sp] by simp_all
    have c2: "clock_inv s2" by (rule same_clock_inv [OF ss(1) c1 idx1(1)])
    have st2: "stats_inv cfg s2" using same_stats_inv [OF ss(2)] st1 by simp
    have s2: "total_reqs s2 = total_reqs s1" "y_arrival_index s2 = y_arrival_index s1" "y_now s2 = y_now s1"
      using same_clock_arrival(1) [OF ss(1)] ss(1) by (simp_all add: same_clock_def)
    show ?thesis
    proof (cases "tokens = []")
      case True
      then show ?thesis using adv c2 st2 rest by auto
    next
      case ne: False
      then obtain d s3 where it: "run_layers cfg [0..<y_num_layers cfg] tokens s2 = Inr (d, s3)"
        and s': "s' = finalize_iteration cfg tokens (s3\<lparr>y_now := y_now s3 + d\<rparr>)"
        using rest by (auto simp: res run_one_iteration_def)
      have d: "0 \<le> d" "stats_inv cfg s3"
        using run_layers_sound [OF nn _ it st2] ok by (simp_all add: sync_ok_def table_covers_def)
      have core: "same_core s2 s3" by (rule run_layers_core [OF it])
      then have "clock_inv s3" using c2 by (simp add: clock_inv_def same_core_def total_reqs_def)
      then have c3: "clock_inv (s3\<lparr>y_now := y_now s3 + d\<rparr>)" using clock_later [of s3 "y_now s3 + d"] d(1) by simp
      have "0 \<le> y_now s1" using c1 by (simp add: clock_inv_def)
      then have "\<forall>tok\<in>set tokens. 0 \<le> yt_birth_time tok \<and> yt_birth_time tok \<le> y_now s3 + d \<and> yt_request_id tok < y_arrival_index s3"
        using ss(3) idx1(2) core d(1) s2 by (auto simp: same_core_def)
      then have "clock_inv s' \<and> same_stats (s3\<lparr>y_now := y_now s3 + d\<rparr>) s'"
        unfolding s' using idx1(1) core s2 by (intro finalize_clock c3) (auto simp: same_core_def total_reqs_def)
      moreover have "stats_inv cfg (s3\<lparr>y_now := y_now s3 + d\<rparr>)" using d(2) by (simp add: stats_inv_def)
      ultimately show ?thesis using same_stats_inv by blast
    qed
  qed
qed

text \<open>Along both loops.\<close>

definition sound_inv :: "sync_config \<Rightarrow> sync_sim \<Rightarrow> bool" where
  "sound_inv cfg s \<longleftrightarrow> sync_inv cfg s \<and> clock_inv s \<and> stats_inv cfg s"

lemma sync_run_sound:
  assumes "sync_ok cfg" and "times_nonneg cfg" and "sound_inv cfg s" and "router_total cfg (total_reqs s)"
    and "sync_run cfg s = Inr s'"
  shows "sound_inv cfg s'"
  using assms
proof (induction cfg s rule: sync_run.induct)
  case (1 cfg s)
  show ?case
  proof (cases "y_completed_tokens s < expected_tokens cfg s")
    case True
    have inv: "sync_inv cfg s" "clock_inv s" "stats_inv cfg s" using "1.prems"(3) by (simp_all add: sound_inv_def)
    obtain s1 where s1: "sync_pass cfg s = Inr (True, s1)" "sync_inv cfg s1"
      using sync_pass_ok [OF "1.prems"(1) inv(1) "1.prems"(4) True] by blast
    have "sound_inv cfg s1"
      using sync_pass_sound [OF "1.prems"(1,2) inv s1(1)] s1(2) by (simp add: sound_inv_def)
    moreover have "total_reqs s1 = total_reqs s" by (rule sync_pass_total [OF s1(1)])
    moreover have "sync_run cfg s1 = Inr s'" using sync_run_pass [OF True s1(1)] "1.prems"(5) by simp
    ultimately show ?thesis using "1.IH" [OF True s1(1) refl] "1.prems" by simp
  next
    case False
    then have "s' = s" using "1.prems"(5) by (subst (asm) sync_run.simps) simp
    then show ?thesis using "1.prems"(3) by simp
  qed
qed

lemma limited_loop_sound:
  assumes "sync_ok cfg" and "times_nonneg cfg" and "sound_inv cfg (ys_sim p)"
    and "router_total cfg (total_reqs (ys_sim p))" and "limited_loop cfg n p = Inr p'"
  shows "sound_inv cfg (ys_sim p')"
  using assms
proof (induction cfg n p rule: limited_loop.induct)
  case (1 cfg n p)
  show ?case
  proof (cases "y_completed_tokens (ys_sim p) < expected_tokens cfg (ys_sim p)")
    case True
    have inv: "sync_inv cfg (ys_sim p)" "clock_inv (ys_sim p)" "stats_inv cfg (ys_sim p)"
      using "1.prems"(3) by (simp_all add: sound_inv_def)
    obtain s1 where s1: "sync_pass cfg (ys_sim p) = Inr (True, s1)" "sync_inv cfg s1"
      using sync_pass_ok [OF "1.prems"(1) inv(1) "1.prems"(4) True] by blast
    obtain p1 where p1: "limited_pass cfg p = Inr (True, p1)" "ys_sim p1 = s1" using limited_pass_ok [OF s1(1)] by blast
    have so: "sound_inv cfg (ys_sim p1)"
      using sync_pass_sound [OF "1.prems"(1,2) inv s1(1)] s1(2) p1(2) by (simp add: sound_inv_def)
    have "total_reqs (ys_sim p1) = total_reqs (ys_sim p)" using sync_pass_total [OF s1(1)] p1(2) by simp
    then have router: "router_total cfg (total_reqs (ys_sim p1))" using "1.prems"(4) by simp
    have eq: "limited_loop cfg n p = (if tail_done n p1 then Inr p1 else limited_loop cfg n p1)"
      using True p1(1) by (subst limited_loop.simps) simp
    show ?thesis
    proof (cases "tail_done n p1")
      case True
      then show ?thesis using eq "1.prems"(5) so by simp
    next
      case False
      then show ?thesis using "1.IH" [OF True p1(1) refl refl False "1.prems"(1,2) so router] eq "1.prems"(5) by simp
    qed
  next
    case False
    then have "p' = p" using "1.prems"(5) by (subst (asm) limited_loop.simps) simp
    then show ?thesis using "1.prems"(3) by simp
  qed
qed

end
