(* ===== verification/SimReport.thy ===== *)
theory SimReport
  imports SimClock SimTboProps SimAsync
begin

text \<open>
  What a simulation reports: the averages that end \<open>run\<close> of the synchronous and of the
  overlapped simulator, and the three \<open>run_simulation\<close> drivers of \<open>simulation/sim_sync.py\<close>,
  \<open>simulation/sim_tbo.py\<close> and \<open>simulation/sim_async.py\<close>, from the compute-time profile to the
  latencies, percentiles and throughputs.  Floats are exact reals and \<open>nan\<close> is \<open>None\<close>;
  printing and the plot of the timeline are left out.
\<close>

section \<open>The results of a run\<close>

definition avg_or_0 :: "real list \<Rightarrow> real" where
  "avg_or_0 xs = (if xs = [] then 0 else sum_list xs / real (length xs))"

record run_results =
  rr_completion_times :: "(nat \<times> real) list"
  rr_token_latencies :: "(nat \<times> real) list"
  rr_request_latencies :: "real list"
  rr_makespan :: real
  rr_avg_layer_runtime :: real
  rr_avg_wait_imbalance :: real
  rr_avg_queue_stddev :: real
  rr_avg_batch_size :: real
  rr_stopped_early :: bool
  rr_steps :: nat
  rr_saturation_step :: "nat option"
  rr_saturation_tokens :: "nat option"
  rr_saturation_time :: "real option"

definition sync_results :: "sync_config \<Rightarrow> sync_progress \<Rightarrow> run_results" where
  "sync_results cfg p =
     (let s = ys_sim p
      in \<lparr>rr_completion_times = y_completion_times s, rr_token_latencies = y_token_latencies s,
          rr_request_latencies = y_request_latencies s, rr_makespan = y_now s,
          rr_avg_layer_runtime = avg_or_0 (y_layer_runtimes s),
          rr_avg_wait_imbalance = avg_or_0 (y_wait_imbalances s),
          rr_avg_queue_stddev = avg_or_0 (y_queue_stddevs s),
          rr_avg_batch_size = (if 0 < y_batch_count s then real (y_batch_size s) / real (y_batch_count s) else 0),
          rr_stopped_early = (y_completed_tokens s \<noteq> expected_tokens cfg s),
          rr_steps = ys_steps p, rr_saturation_step = ys_saturation_step p,
          rr_saturation_tokens = ys_saturation_tokens p, rr_saturation_time = ys_saturation_time p\<rparr>)"

record tbo_results = run_results +
  rr_capture_started :: bool
  rr_ops_recorded :: nat

definition tbo_results_of :: "sync_config \<Rightarrow> tbo_state \<Rightarrow> tbo_results" where
  "tbo_results_of cfg st =
     (let s = tb_sim st
      in \<lparr>rr_completion_times = y_completion_times s, rr_token_latencies = y_token_latencies s,
          rr_request_latencies = y_request_latencies s, rr_makespan = y_now s,
          rr_avg_layer_runtime = avg_or_0 (y_layer_runtimes s),
          rr_avg_wait_imbalance = avg_or_0 (y_wait_imbalances s),
          rr_avg_queue_stddev = avg_or_0 (y_queue_stddevs s),
          rr_avg_batch_size = (if 0 < y_batch_count s then real (y_batch_size s) / real (y_batch_count s) else 0),
          rr_stopped_early = (y_completed_tokens s \<noteq> expected_tokens cfg s),
          rr_steps = tb_steps st, rr_saturation_step = tb_saturation_step st,
          rr_saturation_tokens = tb_saturation_tokens st, rr_saturation_time = tb_saturation_time st,
          rr_capture_started = (case tb_capture st of None \<Rightarrow> False | Some tml \<Rightarrow> tl_started tml),
          rr_ops_recorded = (case tb_capture st of None \<Rightarrow> 0 | Some tml \<Rightarrow> length (tl_ops tml))\<rparr>)"

section \<open>The metrics\<close>

definition makespan_seconds :: "real \<Rightarrow> real \<Rightarrow> real" where
  "makespan_seconds ticks makespan =
     (let makespan_ms = makespan / ticks in if 0 < makespan_ms then makespan_ms / 1000 else 0)"

text \<open>Requests per second, from completed tokens.\<close>

definition throughput :: "nat \<Rightarrow> nat \<Rightarrow> real \<Rightarrow> real" where
  "throughput completed tpr sec =
     (if 0 < sec \<and> 0 < tpr then real completed / real tpr / sec else 0)"

definition tail_throughput ::
  "real \<Rightarrow> nat \<Rightarrow> int option \<Rightarrow> bool \<Rightarrow> nat \<Rightarrow> real \<Rightarrow> nat option \<Rightarrow> real option \<Rightarrow> real option" where
  "tail_throughput ticks tpr limit stopped_early completed makespan sat_tokens sat_time =
     (case (sat_time, sat_tokens) of
        (Some t, Some c) \<Rightarrow>
          if limit \<noteq> None \<and> stopped_early \<and> 0 < tpr \<and> t < makespan
          then let tail_tokens = int completed - int c; tail_seconds = (makespan - t) / ticks / 1000
               in if 0 < tail_seconds then Some (real_of_int tail_tokens / real tpr / tail_seconds) else None
          else None
      | _ \<Rightarrow> None)"

record sim_report =
  rep_completion_times :: "(nat \<times> real) list"
  rep_avg_latency :: real
  rep_makespan :: real
  rep_avg_layer_runtime :: real
  rep_avg_wait_imbalance :: real
  rep_throughput :: real
  rep_tail_throughput :: "real option"
  rep_avg_request_latency_ms :: real
  rep_p90_ms :: real
  rep_p99_ms :: real
  rep_avg_queue_stddev :: real
  rep_avg_batch_size :: real
  rep_stopped_early :: bool
  rep_steps :: nat
  rep_saturation_step :: "nat option"

definition percentile_ms :: "real \<Rightarrow> real list \<Rightarrow> real \<Rightarrow> real" where
  "percentile_ms ticks vals pct = (if vals = [] then 0 else percentile vals pct / ticks)"

text \<open>The division by the ticks of a millisecond raises for zero.\<close>

definition sync_report :: "real \<Rightarrow> nat \<Rightarrow> int option \<Rightarrow> run_results \<Rightarrow> sim_report result" where
  "sync_report ticks tpr limit r =
     (if ticks = 0 then Inl ZeroDivisionError
      else let latencies = map snd (rr_token_latencies r);
               completed = length (rr_completion_times r);
               sec = makespan_seconds ticks (rr_makespan r)
           in Inr \<lparr>rep_completion_times = rr_completion_times r, rep_avg_latency = avg_or_0 latencies,
                rep_makespan = rr_makespan r, rep_avg_layer_runtime = rr_avg_layer_runtime r,
                rep_avg_wait_imbalance = rr_avg_wait_imbalance r, rep_throughput = throughput completed tpr sec,
                rep_tail_throughput = tail_throughput ticks tpr limit (rr_stopped_early r) completed (rr_makespan r)
                  (rr_saturation_tokens r) (rr_saturation_time r),
                rep_avg_request_latency_ms = avg_or_0 (map (\<lambda>x. x / ticks) (rr_request_latencies r)),
                rep_p90_ms = percentile_ms ticks (rr_request_latencies r) (9 / 10),
                rep_p99_ms = percentile_ms ticks (rr_request_latencies r) (99 / 100),
                rep_avg_queue_stddev = rr_avg_queue_stddev r, rep_avg_batch_size = rr_avg_batch_size r,
                rep_stopped_early = rr_stopped_early r, rep_steps = rr_steps r,
                rep_saturation_step = rr_saturation_step r\<rparr>)"

section \<open>The drivers\<close>

text \<open>
  \<open>run_simulation\<close> of the synchronous simulator.  The profile file, the router (in the
  configuration) and the draws of the arrival process are parameters.
\<close>

definition run_simulation_sync ::
  "(string \<Rightarrow> int option) \<Rightarrow> (string \<Rightarrow> real option) \<Rightarrow> csv_file \<Rightarrow> real \<Rightarrow> int \<Rightarrow> real \<Rightarrow> (nat \<Rightarrow> real) \<Rightarrow>
   int option \<Rightarrow> sync_config \<Rightarrow> sim_report result" where
  "run_simulation_sync p_int p_float f ticks n_requests rate draw limit cfg =
     bindR (expert_compute_time_lookup p_int p_float f (y_max_batch cfg) ticks) (\<lambda>table.
     bindR (sync_init (cfg\<lparr>y_lookup := scale_table table\<rparr>) (generate_request_arrivals n_requests rate draw))
       (\<lambda>(cfg, s). bindR (sync_run_limit cfg limit s) (\<lambda>p.
          sync_report ticks (y_tokens_per_request cfg) limit (sync_results cfg p))))"

text \<open>The rows of the timeline file.\<close>

record timeline_row =
  row_op :: timeline_op
  row_duration :: real
  row_start_ms :: real
  row_end_ms :: real
  row_duration_ms :: real

definition timeline_csv_row :: "real \<Rightarrow> timeline_op \<Rightarrow> timeline_row" where
  "timeline_csv_row ticks op =
     (let dur = op_end_time op - op_start_time op; ms = (\<lambda>x. if ticks \<noteq> 0 then x / ticks else 0)
      in \<lparr>row_op = op, row_duration = dur, row_start_ms = ms (op_start_time op), row_end_ms = ms (op_end_time op),
          row_duration_ms = ms dur\<rparr>)"

definition write_csv :: "real \<Rightarrow> timeline \<Rightarrow> timeline_row list" where
  "write_csv ticks tml = map (timeline_csv_row ticks) (tl_ops tml)"

text \<open>The file is written when the capture started and recorded something.\<close>

definition timeline_file :: "real \<Rightarrow> timeline option \<Rightarrow> timeline_row list option" where
  "timeline_file ticks capture =
     (case capture of None \<Rightarrow> None
      | Some tml \<Rightarrow> if tl_started tml \<and> tl_ops tml \<noteq> [] then Some (write_csv ticks tml) else None)"

record tbo_report = sim_report +
  rep_saturation_time :: "real option"
  rep_capture_started :: bool
  rep_ops_recorded :: nat
  rep_timeline_csv :: "timeline_row list option"

definition tbo_report_of :: "real \<Rightarrow> nat \<Rightarrow> int option \<Rightarrow> timeline_row list option \<Rightarrow> tbo_results \<Rightarrow> tbo_report result" where
  "tbo_report_of ticks tpr limit csv r =
     (if ticks = 0 then Inl ZeroDivisionError
      else let latencies = map snd (rr_token_latencies r);
               completed = length (rr_completion_times r);
               sec = makespan_seconds ticks (rr_makespan r)
           in Inr \<lparr>rep_completion_times = rr_completion_times r, rep_avg_latency = avg_or_0 latencies,
                rep_makespan = rr_makespan r, rep_avg_layer_runtime = rr_avg_layer_runtime r,
                rep_avg_wait_imbalance = rr_avg_wait_imbalance r, rep_throughput = throughput completed tpr sec,
                rep_tail_throughput = tail_throughput ticks tpr limit (rr_stopped_early r) completed (rr_makespan r)
                  (rr_saturation_tokens r) (rr_saturation_time r),
                rep_avg_request_latency_ms = avg_or_0 (map (\<lambda>x. x / ticks) (rr_request_latencies r)),
                rep_p90_ms = percentile_ms ticks (rr_request_latencies r) (9 / 10),
                rep_p99_ms = percentile_ms ticks (rr_request_latencies r) (99 / 100),
                rep_avg_queue_stddev = rr_avg_queue_stddev r, rep_avg_batch_size = rr_avg_batch_size r,
                rep_stopped_early = rr_stopped_early r, rep_steps = rr_steps r,
                rep_saturation_step = rr_saturation_step r, rep_saturation_time = rr_saturation_time r,
                rep_capture_started = rr_capture_started r, rep_ops_recorded = rr_ops_recorded r,
                rep_timeline_csv = csv\<rparr>)"

definition run_simulation_tbo ::
  "(string \<Rightarrow> int option) \<Rightarrow> (string \<Rightarrow> real option) \<Rightarrow> csv_file \<Rightarrow> real \<Rightarrow> int \<Rightarrow> real \<Rightarrow> (nat \<Rightarrow> real) \<Rightarrow>
   int option \<Rightarrow> int \<Rightarrow> sync_config \<Rightarrow> tbo_report result" where
  "run_simulation_tbo p_int p_float f ticks n_requests rate draw limit capture_ops cfg =
     bindR (expert_compute_time_lookup p_int p_float f (y_max_batch cfg) ticks) (\<lambda>table.
     bindR (sync_init (cfg\<lparr>y_lookup := scale_table table\<rparr>) (generate_request_arrivals n_requests rate draw))
       (\<lambda>(cfg, s).
          let capture = (if 0 < capture_ops then Some (timeline_init capture_ops) else None)
          in bindR (tbo_run cfg limit (tbo_start capture s)) (\<lambda>st.
               tbo_report_of ticks (y_tokens_per_request cfg) limit (timeline_file ticks (tb_capture st))
                 (tbo_results_of cfg st))))"

section \<open>The asynchronous driver\<close>

text \<open>
  With a limit the driver looks at the state after each event: the first time the active
  requests reach their limit is noted, and it stops once enough tokens have completed since.
  An event of the model groups the simpy steps between two yields of a process; the steps
  are not counted.
\<close>

definition note_async_saturation :: "sim_config \<Rightarrow> sim \<Rightarrow> (nat \<times> real) option \<Rightarrow> (nat \<times> real) option" where
  "note_async_saturation cfg s sat =
     (case (sat, max_active cfg) of
        (None, Some m) \<Rightarrow> if m \<le> active_requests s then Some (length (sm_completions s), sm_now s) else None
      | _ \<Rightarrow> sat)"

definition async_tail_done :: "int \<Rightarrow> sim \<Rightarrow> (nat \<times> real) option \<Rightarrow> bool" where
  "async_tail_done n s sat =
     (case sat of None \<Rightarrow> False | Some (c, t) \<Rightarrow> n \<le> int (length (sm_completions s)) - int c)"

fun async_limited ::
  "sim_config \<Rightarrow> int \<Rightarrow> event list \<Rightarrow> sim \<Rightarrow> (nat \<times> real) option \<Rightarrow> (sim \<times> (nat \<times> real) option) result option" where
  "async_limited cfg n [] s sat = Some (Inr (s, sat))"
| "async_limited cfg n (e # es) s sat =
     (case exec cfg e s of
        None \<Rightarrow> None
      | Some (Inl err) \<Rightarrow> Some (Inl err)
      | Some (Inr s') \<Rightarrow>
          (let sat = note_async_saturation cfg s' sat
           in if async_tail_done n s' sat then Some (Inr (s', sat)) else async_limited cfg n es s' sat))"

definition async_run :: "sim_config \<Rightarrow> int option \<Rightarrow> event list \<Rightarrow> sim \<Rightarrow> (sim \<times> (nat \<times> real) option) result option" where
  "async_run cfg limit es s =
     (case limit of
        None \<Rightarrow> map_option (map_sum id (\<lambda>s'. (s', None))) (run_events cfg es s)
      | Some n \<Rightarrow> if n < 0 then Some (Inl ValueError) else async_limited cfg n es s None)"

definition avg_or_nan :: "real list \<Rightarrow> real option" where
  "avg_or_nan xs = (if xs = [] then None else Some (sum_list xs / real (length xs)))"

definition percentile_or_nan :: "real \<Rightarrow> real list \<Rightarrow> real \<Rightarrow> real option" where
  "percentile_or_nan ticks vals pct = (if vals = [] then None else Some (percentile vals pct / ticks))"

record async_report =
  ar_completion_times :: "(nat \<times> real) list"
  ar_avg_latency :: "real option"
  ar_makespan :: real
  ar_throughput :: real
  ar_tail_throughput :: "real option"
  ar_avg_request_latency_ms :: "real option"
  ar_p90_ms :: "real option"
  ar_p99_ms :: "real option"
  ar_avg_batch_size :: real
  ar_stopped_early :: bool
  ar_saturation_tokens :: "nat option"
  ar_saturation_time :: "real option"

definition async_report_of ::
  "real \<Rightarrow> sim_config \<Rightarrow> int option \<Rightarrow> sim \<Rightarrow> (nat \<times> real) option \<Rightarrow> async_report" where
  "async_report_of ticks cfg limit s sat =
     (let latencies = map (\<lambda>(tok, t). t - tk_birth_time tok) (sm_completions s);
          completed = length (sm_completions s);
          stopped = (completed \<noteq> total_requests cfg * tokens_per_request cfg);
          reqs = map snd (sm_latencies s)
      in \<lparr>ar_completion_times = map (\<lambda>(tok, t). (tk_tid tok, t)) (sm_completions s),
          ar_avg_latency = avg_or_nan latencies, ar_makespan = sm_now s,
          ar_throughput = throughput completed (tokens_per_request cfg) (makespan_seconds ticks (sm_now s)),
          ar_tail_throughput = tail_throughput ticks (tokens_per_request cfg) limit stopped completed (sm_now s)
            (map_option fst sat) (map_option snd sat),
          ar_avg_request_latency_ms = avg_or_nan (map (\<lambda>x. x / ticks) reqs),
          ar_p90_ms = percentile_or_nan ticks reqs (9 / 10), ar_p99_ms = percentile_or_nan ticks reqs (99 / 100),
          ar_avg_batch_size = (if 0 < sm_total_batches s then real (sm_total_batch_size s) / real (sm_total_batches s) else 0),
          ar_stopped_early = stopped, ar_saturation_tokens = map_option fst sat,
          ar_saturation_time = map_option snd sat\<rparr>)"

text \<open>Stopping early leaves the state reachable, so nothing it did can have raised.\<close>

lemma async_limited_reachable:
  assumes "reachable cfg s" and "async_limited cfg n es s sat = Some (Inr (s', sat'))"
  shows "reachable cfg s'"
  using assms
proof (induction es arbitrary: s sat)
  case (Cons e es)
  then obtain s1 where s1: "exec cfg e s = Some (Inr s1)"
    and rest: "(let sat = note_async_saturation cfg s1 sat
           in if async_tail_done n s1 sat then Some (Inr (s1, sat)) else async_limited cfg n es s1 sat) = Some (Inr (s', sat'))"
    by (auto split: option.splits sum.splits)
  have "reachable cfg s1" using Cons.prems(1) s1 by (meson reach_step sim_stepI)
  then show ?case using rest Cons.IH by (auto simp: Let_def split: if_splits)
qed simp

end
