(* ===== verification/Experiment.thy ===== *)
theory Experiment
  imports SimReport SimRouter
begin

text \<open>
  The experiment driver of the simulators (\<open>simulation/experiment.py\<close>): the environment
  variables it reads, the grid of configurations, the two delay models, the sampled
  per-token log, one function per simulator that runs a configuration and summarises its
  report, and the order in which results are written.  Floats are exact reals; the files, the
  process pool, the formatting of numbers and the scheduler debug text (off by a constant)
  are left out.
\<close>

section \<open>Environment variables\<close>

text \<open>\<open>str.split\<close> at commas.\<close>

fun split_comma :: "string \<Rightarrow> string list" where
  "split_comma [] = [[]]"
| "split_comma (c # cs) =
     (if c = CHR '','' then [] # split_comma cs
      else case split_comma cs of [] \<Rightarrow> [[c]] | p # ps \<Rightarrow> (c # p) # ps)"

definition parse_part :: "(string \<Rightarrow> int option) \<Rightarrow> string \<Rightarrow> int list \<Rightarrow> int list result" where
  "parse_part p_int part out =
     (let part = strip part
      in if part = [] then Inr out
         else case p_int part of None \<Rightarrow> Inl ValueError | Some n \<Rightarrow> Inr (out @ [n]))"

definition parse_int_list_env :: "(string \<Rightarrow> int option) \<Rightarrow> string option \<Rightarrow> int list \<Rightarrow> int list result" where
  "parse_int_list_env p_int env dflt =
     (let raw = strip (case env of None \<Rightarrow> [] | Some v \<Rightarrow> v)
      in if raw = [] then Inr dflt
         else bindR (foldR (parse_part p_int) (split_comma raw) []) (\<lambda>out.
           Inr (if out = [] then dflt else out)))"

text \<open>A profile name is taken as it is when it is an absolute path.\<close>

definition is_abs :: "string \<Rightarrow> bool" where
  "is_abs path \<longleftrightarrow> path \<noteq> [] \<and> hd path = CHR ''/''"

definition resolve_profile_path :: "string \<Rightarrow> string \<Rightarrow> string option \<Rightarrow> string" where
  "resolve_profile_path directory dflt env =
     (let profile = strip (case env of None \<Rightarrow> [] | Some v \<Rightarrow> v);
          profile = (if profile = [] then dflt else profile)
      in if is_abs profile then profile else directory @ ''/'' @ profile)"

definition resolve_expert_cost_profile_path :: "string \<Rightarrow> string option \<Rightarrow> string" where
  "resolve_expert_cost_profile_path here = resolve_profile_path (here @ ''/expert_costs_profiles'') ''GPT-OSS-120B_A100.csv''"

definition resolve_gating_profile_path :: "string \<Rightarrow> string option \<Rightarrow> string" where
  "resolve_gating_profile_path here = resolve_profile_path (here @ ''/../gating_profiles'') ''gating_gptoss120b_200.parquet''"

section \<open>The grid\<close>

record exp_config =
  xc_ep_group_size :: nat
  xc_attn_service_t :: real
  xc_n_gpu_per_host :: nat
  xc_net_delay_intra :: real
  xc_net_delay_inter :: real
  xc_global_max :: nat
  xc_hidden_dim :: int
  xc_inter_bw :: real
  xc_bw_aware :: bool

definition ATTN_SERVICE_T_VALUES :: "real list" where
  "ATTN_SERVICE_T_VALUES = [1 / 10, 2 / 10, 4 / 10]"

definition EP_GROUP_SIZE_VALUES :: "nat list" where
  "EP_GROUP_SIZE_VALUES = [32]"

definition GLOBAL_BATCH_MULTIPLIERS :: "nat list" where
  "GLOBAL_BATCH_MULTIPLIERS = [128, 256]"

definition N_GPU_PER_HOST :: nat where
  "N_GPU_PER_HOST = 4"

definition NET_DELAY_VALUES_INTRA_HOST :: "real list" where
  "NET_DELAY_VALUES_INTRA_HOST = [4 / 100]"

definition NET_DELAY_VALUES_INTER_HOST :: "real list" where
  "NET_DELAY_VALUES_INTER_HOST = [8 / 100]"

definition INTER_NODE_BANDWIDTH_VALUES :: "real list" where
  "INTER_NODE_BANDWIDTH_VALUES = [50, 100, 200]"

definition BYTES_PER_ELEMENT :: int where
  "BYTES_PER_ELEMENT = 2"

definition INTRA_NODE_BANDWIDTH_GBPS :: real where
  "INTRA_NODE_BANDWIDTH_GBPS = 800"

definition ENBALE_BANDWIDTH_UNAWARE_COMPARISON :: bool where
  "ENBALE_BANDWIDTH_UNAWARE_COMPARISON = False"

definition bandwidth_aware_values :: "bool list" where
  "bandwidth_aware_values = (if ENBALE_BANDWIDTH_UNAWARE_COMPARISON then [True, False] else [True])"

text \<open>\<open>itertools.product\<close> varies its last argument fastest.\<close>

definition build_configs :: "int list \<Rightarrow> exp_config list" where
  "build_configs hidden_dims =
     [\<lparr>xc_ep_group_size = ep, xc_attn_service_t = attn_t, xc_n_gpu_per_host = N_GPU_PER_HOST,
       xc_net_delay_intra = intra, xc_net_delay_inter = inter_d, xc_global_max = ep * factor,
       xc_hidden_dim = hidden, xc_inter_bw = bw, xc_bw_aware = aware\<rparr>.
        ep \<leftarrow> EP_GROUP_SIZE_VALUES, attn_t \<leftarrow> ATTN_SERVICE_T_VALUES,
        intra \<leftarrow> NET_DELAY_VALUES_INTRA_HOST, inter_d \<leftarrow> NET_DELAY_VALUES_INTER_HOST,
        factor \<leftarrow> GLOBAL_BATCH_MULTIPLIERS, hidden \<leftarrow> hidden_dims,
        bw \<leftarrow> INTER_NODE_BANDWIDTH_VALUES, aware \<leftarrow> bandwidth_aware_values]"

section \<open>Delay models\<close>

text \<open>The fixed delays of a topology; nothing calls this function.\<close>

definition topology_net_delay :: "int \<Rightarrow> real \<Rightarrow> real \<Rightarrow> nat \<Rightarrow> nat \<Rightarrow> real" where
  "topology_net_delay n_gpu intra inter_d src dst =
     (let n = nat (max 1 n_gpu) in if src div n = dst div n then intra else inter_d)"

text \<open>A transfer of \<open>n\<close> tokens at the bandwidth of its link (Gb/s), in ticks.\<close>

definition bw_bytes_per_ms :: "real \<Rightarrow> real" where
  "bw_bytes_per_ms gbps = gbps * 1000000000 / 8 / 1000"

definition bandwidth_delay :: "int \<Rightarrow> int \<Rightarrow> int \<Rightarrow> real \<Rightarrow> real \<Rightarrow> real \<Rightarrow> nat \<Rightarrow> nat \<Rightarrow> nat \<Rightarrow> real" where
  "bandwidth_delay n_gpu hidden_dim bytes_per_elem intra_bw inter_bw ticks src dst num_tokens =
     (let n = nat (max 1 n_gpu);
          bytes_per_token = hidden_dim * bytes_per_elem;
          bandwidth = (if src div n = dst div n then bw_bytes_per_ms intra_bw else bw_bytes_per_ms inter_bw)
      in real num_tokens * real_of_int bytes_per_token / bandwidth * ticks)"

definition config_delay :: "real \<Rightarrow> exp_config \<Rightarrow> (nat \<Rightarrow> nat \<Rightarrow> nat \<Rightarrow> real) option" where
  "config_delay ticks cfg =
     (if xc_bw_aware cfg
      then Some (bandwidth_delay (int (xc_n_gpu_per_host cfg)) (xc_hidden_dim cfg) BYTES_PER_ELEMENT
             INTRA_NODE_BANDWIDTH_GBPS (xc_inter_bw cfg) ticks)
      else None)"

section \<open>The per-token log\<close>

text \<open>
  The state of a worker process: whether its file is open, the draws of its generator (None
  before it is seeded), the sampling rate and the rows written.
\<close>

record token_row =
  lr_cfg :: exp_config
  lr_request_id :: nat
  lr_token_index :: nat
  lr_tid :: nat
  lr_birth_time :: real
  lr_completion_time :: real
  lr_latency_ticks :: real
  lr_latency_ms :: real

record token_log =
  tl_open :: bool
  tl_draws :: "real list option"
  tl_rate :: real
  tl_rows :: "token_row list"

definition init_worker_stats :: "bool \<Rightarrow> real \<Rightarrow> real list \<Rightarrow> token_log result" where
  "init_worker_stats enabled rate draws =
     (if \<not> enabled then Inr \<lparr>tl_open = False, tl_draws = None, tl_rate = 0, tl_rows = []\<rparr>
      else if \<not> (0 \<le> rate \<and> rate \<le> 1) then Inl ValueError
      else Inr \<lparr>tl_open = True, tl_draws = Some draws, tl_rate = rate, tl_rows = []\<rparr>)"

text \<open>The flag set on a new token; None leaves the token as it is, which counts as not sampled.\<close>

definition begin_sample :: "token_log \<Rightarrow> bool option \<times> token_log" where
  "begin_sample g =
     (case tl_draws g of
        None \<Rightarrow> (None, g)
      | Some draws \<Rightarrow>
          if tl_rate g \<le> 0 then (None, g)
          else if 1 \<le> tl_rate g then (Some True, g)
          else case draws of [] \<Rightarrow> (None, g) | d # ds \<Rightarrow> (Some (d < tl_rate g), g\<lparr>tl_draws := Some ds\<rparr>))"

definition log_if_sampled :: "exp_config \<Rightarrow> real \<Rightarrow> bool option \<Rightarrow> sync_token \<Rightarrow> real \<Rightarrow> token_log \<Rightarrow> token_log" where
  "log_if_sampled cfg ticks sampled tok completion_time g =
     (if \<not> tl_open g \<or> sampled \<noteq> Some True then g
      else let latency_ticks = completion_time - yt_birth_time tok;
               latency_ms = (if ticks \<noteq> 0 then latency_ticks / ticks else 0)
           in g\<lparr>tl_rows := tl_rows g @ [\<lparr>lr_cfg = cfg, lr_request_id = yt_request_id tok, lr_token_index = yt_token_index tok,
                lr_tid = yt_tid tok, lr_birth_time = yt_birth_time tok, lr_completion_time = completion_time,
                lr_latency_ticks = latency_ticks, lr_latency_ms = latency_ms\<rparr>]\<rparr>)"

definition close_stats_file :: "token_log \<Rightarrow> token_log" where
  "close_stats_file g = g\<lparr>tl_open := False\<rparr>"

text \<open>With rate one every token is logged, with rate zero none and no number is drawn.\<close>

lemma begin_sample_ends:
  "init_worker_stats True 1 ds = Inr g \<Longrightarrow> begin_sample g = (Some True, g)"
  "init_worker_stats True 0 ds = Inr g \<Longrightarrow> begin_sample g = (None, g)"
  by (auto simp: init_worker_stats_def begin_sample_def)

lemma begin_sample_rate:
  assumes "init_worker_stats True r (d # ds) = Inr g" and "0 < r" and "0 \<le> d" and "d < 1"
  shows "fst (begin_sample g) = Some (d < r)"
  using assms by (auto simp: init_worker_stats_def begin_sample_def split: if_splits)

lemma bad_rate_refused: "r < 0 \<or> 1 < r \<Longrightarrow> init_worker_stats True r ds = Inl ValueError"
  by (auto simp: init_worker_stats_def)

section \<open>Running a configuration\<close>

text \<open>
  The macros of the experiment and the defaults of the simulators that it does not override,
  with the profile of the expert times, the loaded routing profile and the draws as
  parameters.
\<close>

record exp_env =
  xe_num_experts :: nat
  xe_num_layers :: nat
  xe_topk :: nat
  xe_csv :: csv_file
  xe_int :: "string \<Rightarrow> int option"
  xe_float :: "string \<Rightarrow> real option"
  xe_router :: router
  xe_draw :: "nat \<Rightarrow> real"

definition MAX_BATCH_SIZE :: nat where "MAX_BATCH_SIZE = 512"
definition TOTAL_REQUESTS :: nat where "TOTAL_REQUESTS = 8192"
definition TOKENS_PER_REQUEST :: nat where "TOKENS_PER_REQUEST = 256"
definition ARRIVAL_RATE :: real where "ARRIVAL_RATE = 50"
definition TICKS_PER_MILLISECOND :: real where "TICKS_PER_MILLISECOND = 10"

definition TOKENS_AFTER_REACHING_MAX_BS :: "int option" where
  "TOKENS_AFTER_REACHING_MAX_BS = Some 8000"

definition sim_args :: "exp_env \<Rightarrow> exp_config \<Rightarrow> sync_config" where
  "sim_args env cfg =
     \<lparr>y_tokens_per_request = TOKENS_PER_REQUEST, y_num_layers = xe_num_layers env,
      y_total_experts = xe_num_experts env, y_ep = xc_ep_group_size cfg, y_max_batch = MAX_BATCH_SIZE,
      y_attn_service_t = xc_attn_service_t cfg, y_attn_dp = xc_ep_group_size cfg,
      y_net_a2e = xc_net_delay_inter cfg, y_net_e2a = xc_net_delay_inter cfg,
      y_net_delay = config_delay TICKS_PER_MILLISECOND cfg, y_gpus_per_host = Some (xc_n_gpu_per_host cfg),
      y_lookup = (\<lambda>_. None), y_router = profile_route (xe_router env), y_global_max = xc_global_max cfg\<rparr>"

record exp_summary =
  xs_mode :: string
  xs_cfg :: exp_config
  xs_avg_token_latency_ms :: "real option"
  xs_makespan_ms :: real
  xs_throughput :: real
  xs_tail_throughput :: "real option"
  xs_avg_request_latency_ms :: "real option"
  xs_p90_ms :: "real option"
  xs_p99_ms :: "real option"
  xs_avg_layer_runtime_ms :: "real option"
  xs_avg_wait_ms :: "real option"
  xs_avg_batch_size :: real
  xs_avg_queue_stddev :: "real option"

definition div_or_0 :: "real \<Rightarrow> real \<Rightarrow> real" where
  "div_or_0 x ticks = (if x \<noteq> 0 then x / ticks else 0)"

definition sync_summary :: "exp_config \<Rightarrow> real \<Rightarrow> sim_report \<Rightarrow> exp_summary" where
  "sync_summary cfg ticks r =
     \<lparr>xs_mode = ''sync'', xs_cfg = cfg, xs_avg_token_latency_ms = Some (div_or_0 (rep_avg_latency r) ticks),
      xs_makespan_ms = div_or_0 (rep_makespan r) ticks, xs_throughput = rep_throughput r,
      xs_tail_throughput = rep_tail_throughput r, xs_avg_request_latency_ms = Some (rep_avg_request_latency_ms r),
      xs_p90_ms = Some (rep_p90_ms r), xs_p99_ms = Some (rep_p99_ms r),
      xs_avg_layer_runtime_ms = Some (rep_avg_layer_runtime r / ticks),
      xs_avg_wait_ms = Some (rep_avg_wait_imbalance r / ticks), xs_avg_batch_size = rep_avg_batch_size r,
      xs_avg_queue_stddev = Some (rep_avg_queue_stddev r)\<rparr>"

definition run_sync_config :: "exp_env \<Rightarrow> exp_config \<Rightarrow> exp_summary result" where
  "run_sync_config env cfg =
     bindR (run_simulation_sync (xe_int env) (xe_float env) (xe_csv env) TICKS_PER_MILLISECOND (int TOTAL_REQUESTS)
              ARRIVAL_RATE (xe_draw env) TOKENS_AFTER_REACHING_MAX_BS (sim_args env cfg))
       (\<lambda>r. Inr (sync_summary cfg TICKS_PER_MILLISECOND r))"

definition tbo_summary :: "exp_config \<Rightarrow> real \<Rightarrow> tbo_report \<Rightarrow> exp_summary" where
  "tbo_summary cfg ticks r =
     \<lparr>xs_mode = ''tbo'', xs_cfg = cfg, xs_avg_token_latency_ms = Some (div_or_0 (rep_avg_latency r) ticks),
      xs_makespan_ms = div_or_0 (rep_makespan r) ticks, xs_throughput = rep_throughput r,
      xs_tail_throughput = rep_tail_throughput r, xs_avg_request_latency_ms = Some (rep_avg_request_latency_ms r),
      xs_p90_ms = Some (rep_p90_ms r), xs_p99_ms = Some (rep_p99_ms r),
      xs_avg_layer_runtime_ms = Some (rep_avg_layer_runtime r / ticks),
      xs_avg_wait_ms = Some (rep_avg_wait_imbalance r / ticks), xs_avg_batch_size = rep_avg_batch_size r,
      xs_avg_queue_stddev = Some (rep_avg_queue_stddev r)\<rparr>"

definition run_tbo_config :: "exp_env \<Rightarrow> int \<Rightarrow> exp_config \<Rightarrow> exp_summary result" where
  "run_tbo_config env capture_ops cfg =
     bindR (run_simulation_tbo (xe_int env) (xe_float env) (xe_csv env) TICKS_PER_MILLISECOND (int TOTAL_REQUESTS)
              ARRIVAL_RATE (xe_draw env) TOKENS_AFTER_REACHING_MAX_BS capture_ops (sim_args env cfg))
       (\<lambda>r. Inr (tbo_summary cfg TICKS_PER_MILLISECOND r))"

text \<open>
  The asynchronous simulator runs on a schedule of its events (see \<open>SimAsync\<close>); without
  \<open>simpy\<close> the function raises before it starts.
\<close>

definition async_args :: "exp_env \<Rightarrow> exp_config \<Rightarrow> (int \<Rightarrow> real option) \<Rightarrow> sim_config" where
  "async_args env cfg table =
     \<lparr>num_layers = xe_num_layers env, total_experts = xe_num_experts env, ep_size = xc_ep_group_size cfg,
      max_batch = MAX_BATCH_SIZE, tokens_per_request = TOKENS_PER_REQUEST, total_requests = TOTAL_REQUESTS,
      max_active = Some (xc_global_max cfg), attn_dp = xc_ep_group_size cfg, policy = ''defragging_v0'',
      routing_top_k = xe_topk env, compute_time = table, route_ids = profile_route (xe_router env)\<rparr>"

definition async_summary :: "exp_config \<Rightarrow> real \<Rightarrow> async_report \<Rightarrow> exp_summary" where
  "async_summary cfg ticks r =
     \<lparr>xs_mode = ''async'', xs_cfg = cfg,
      xs_avg_token_latency_ms = map_option (\<lambda>x. div_or_0 x ticks) (ar_avg_latency r),
      xs_makespan_ms = div_or_0 (ar_makespan r) ticks, xs_throughput = ar_throughput r,
      xs_tail_throughput = ar_tail_throughput r, xs_avg_request_latency_ms = ar_avg_request_latency_ms r,
      xs_p90_ms = ar_p90_ms r, xs_p99_ms = ar_p99_ms r, xs_avg_layer_runtime_ms = None, xs_avg_wait_ms = None,
      xs_avg_batch_size = ar_avg_batch_size r, xs_avg_queue_stddev = None\<rparr>"

definition run_async_config ::
  "bool \<Rightarrow> exp_env \<Rightarrow> event list \<Rightarrow> exp_config \<Rightarrow> exp_summary result option" where
  "run_async_config have_simpy env schedule cfg =
     (if \<not> have_simpy then Some (Inl RuntimeError)
      else if max 1 (xc_ep_group_size cfg) \<noteq> xc_ep_group_size cfg then Some (Inl ValueError)
      else case expert_compute_time_lookup (xe_int env) (xe_float env) (xe_csv env) MAX_BATCH_SIZE TICKS_PER_MILLISECOND of
          Inl e \<Rightarrow> Some (Inl e)
        | Inr table \<Rightarrow>
            (let c = async_args env cfg table
             in case run_init c of
                  Inl e \<Rightarrow> Some (Inl e)
                | Inr s \<Rightarrow>
                    map_option (map_sum id (\<lambda>(s, sat). async_summary cfg TICKS_PER_MILLISECOND
                        (async_report_of TICKS_PER_MILLISECOND c TOKENS_AFTER_REACHING_MAX_BS s sat)))
                      (async_run c TOKENS_AFTER_REACHING_MAX_BS schedule s)))"

section \<open>The driver\<close>

text \<open>
  The mode of the command line (anything but one known mode prints the usage and exits), the
  size of the pool, and the configurations it maps over.
\<close>

definition MAX_WORKERS :: nat where "MAX_WORKERS = 56"

definition main_mode :: "string list \<Rightarrow> string option" where
  "main_mode argv =
     (if length argv \<noteq> 2 \<or> argv ! 1 \<notin> {''sync'', ''async'', ''tbo''} then None else Some (argv ! 1))"

definition num_workers :: "exp_config list \<Rightarrow> nat" where
  "num_workers configs = min MAX_WORKERS (length configs)"

text \<open>The worker function of a mode.\<close>

definition worker_fn ::
  "string \<Rightarrow> bool \<Rightarrow> exp_env \<Rightarrow> int \<Rightarrow> event list \<Rightarrow> exp_config \<Rightarrow> exp_summary result option" where
  "worker_fn mode have_simpy env capture_ops schedule cfg =
     (if mode = ''async'' then run_async_config have_simpy env schedule cfg
      else if mode = ''sync'' then Some (run_sync_config env cfg)
      else Some (run_tbo_config env capture_ops cfg))"

text \<open>\<open>_write_results\<close> sorts the summaries by their configuration.\<close>

definition result_key :: "exp_summary \<Rightarrow> nat \<times> nat \<times> real \<times> nat \<times> real \<times> real \<times> int \<times> real \<times> nat" where
  "result_key r =
     (let c = xs_cfg r
      in (xc_ep_group_size c, xc_global_max c, xc_attn_service_t c, xc_n_gpu_per_host c, xc_net_delay_intra c,
          xc_net_delay_inter c, xc_hidden_dim c, xc_inter_bw c, if xc_bw_aware c then 0 else 1))"

definition write_results :: "exp_summary list \<Rightarrow> exp_summary list" where
  "write_results results = sort_key result_key results"

end
