(* ===== verification/SimReportProps.thy ===== *)
theory SimReportProps
  imports SimReport "HOL-Library.Sublist"
begin

text \<open>
  What the reports mean: an early stop reports a prefix of the full run, and every figure of
  a report lies in its range.
\<close>

section \<open>An early stop is a prefix of the run\<close>

definition recorded_more :: "sync_sim \<Rightarrow> sync_sim \<Rightarrow> bool" where
  "recorded_more s s' \<longleftrightarrow> prefix (y_completion_times s) (y_completion_times s') \<and>
     prefix (y_token_latencies s) (y_token_latencies s') \<and> prefix (y_request_latencies s) (y_request_latencies s')"

lemma recorded_more_trans: "recorded_more a b \<Longrightarrow> recorded_more b c \<Longrightarrow> recorded_more a c"
  unfolding recorded_more_def by (meson prefix_order.order_trans)

lemma recorded_more_refl [simp]: "recorded_more s s"
  by (simp add: recorded_more_def)

text \<open>Every part of a pass but the last one leaves the records alone.\<close>

definition same_records :: "sync_sim \<Rightarrow> sync_sim \<Rightarrow> bool" where
  "same_records s s' \<longleftrightarrow> y_completion_times s' = y_completion_times s \<and>
     y_token_latencies s' = y_token_latencies s \<and> y_request_latencies s' = y_request_latencies s"

lemma same_records_more: "same_records s s1 \<Longrightarrow> recorded_more s1 s' \<Longrightarrow> recorded_more s s'"
  by (simp add: same_records_def recorded_more_def)

lemma same_records_trans: "same_records a b \<Longrightarrow> same_records b c \<Longrightarrow> same_records a c"
  by (simp add: same_records_def)

lemma release_records: "same_records s (release_new_arrivals s)"
proof (induction s rule: release_new_arrivals.induct)
  case (1 s)
  then show ?case by (subst release_new_arrivals.simps) (auto simp: same_records_def)
qed

lemma advance_records: "advance_to_next_arrival s = (b, s') \<Longrightarrow> same_records s s'"
proof -
  have "same_records (s\<lparr>y_now := t\<rparr>) s'' \<Longrightarrow> same_records s s''" for t s'' by (simp add: same_records_def)
  then show "advance_to_next_arrival s = (b, s') \<Longrightarrow> same_records s s'"
    using release_records by (auto simp: advance_to_next_arrival_def Let_def same_records_def split: if_splits)
qed

lemma fill_records: "same_records s (fill_active_requests cfg s)"
proof -
  have "same_records s (fill_loop_sync cfg q s)" for q
    by (induction q arbitrary: s) (auto simp: same_records_def set_request_def Let_def)
  then show ?thesis by (simp add: fill_active_requests_def)
qed

lemma spawn_records:
  assumes "spawn_tokens cfg s = Inr (tokens, s')"
  shows "same_records s s'"
proof -
  have "same_records s (snd (tokens, s'))"
    by (rule foldR_invariant [OF assms [unfolded spawn_tokens_def], where I = "\<lambda>acc. same_records s (snd acc)"])
      (auto simp: spawn_step_def Let_def res same_records_def split: if_splits)
  then show ?thesis by simp
qed

lemma finalize_records: "recorded_more s (finalize_iteration cfg tokens s)"
proof -
  have "recorded_more s (fold (finalize_token cfg t) tokens s)" for t
  proof (induction tokens arbitrary: s)
    case (Cons tok tokens)
    have "recorded_more s (finalize_token cfg t tok s)"
      by (auto simp: recorded_more_def finalize_token_def Let_def set_request_def)
    then show ?case using recorded_more_trans Cons.IH by auto
  qed simp
  then show ?thesis by (simp add: finalize_iteration_def drop_completed_def recorded_more_def)
qed

lemma sync_pass_records:
  assumes "sync_pass cfg s = Inr (b, s')"
  shows "recorded_more s s'"
proof -
  define s1 where "s1 = fill_active_requests cfg (release_new_arrivals s)"
  have s1: "same_records s s1" unfolding s1_def using same_records_trans release_records fill_records by blast
  have adv: "recorded_more s s'" if "advance_to_next_arrival s2 = (b, s')" "same_records s s2" for s2
    by (rule same_records_more [OF same_records_trans [OF that(2) advance_records [OF that(1)]]]) simp
  show ?thesis
  proof (cases "y_active s1 = []")
    case True
    then show ?thesis using assms adv s1 by (simp add: sync_pass_def Let_def s1_def [symmetric])
  next
    case False
    then obtain tokens s2 where sp: "spawn_tokens cfg s1 = Inr (tokens, s2)"
      and rest: "(if tokens = [] then Inr (advance_to_next_arrival s2)
           else bindR (run_one_iteration cfg tokens s2) (\<lambda>(iteration_duration, s).
             Inr (True, finalize_iteration cfg tokens (s\<lparr>y_now := y_now s + iteration_duration\<rparr>)))) = Inr (b, s')"
      using assms by (auto simp: sync_pass_def Let_def s1_def [symmetric] res)
    have s2: "same_records s s2" by (rule same_records_trans [OF s1 spawn_records [OF sp]])
    show ?thesis
    proof (cases "tokens = []")
      case True
      then show ?thesis using rest adv s2 by simp
    next
      case ne: False
      then obtain d s3 where it: "run_layers cfg [0..<y_num_layers cfg] tokens s2 = Inr (d, s3)"
        and s': "s' = finalize_iteration cfg tokens (s3\<lparr>y_now := y_now s3 + d\<rparr>)"
        using rest by (auto simp: res run_one_iteration_def)
      have "same_records s2 (s3\<lparr>y_now := y_now s3 + d\<rparr>)"
        using run_layers_core [OF it] by (simp add: same_core_def same_records_def)
      then show ?thesis unfolding s' using same_records_more [OF same_records_trans [OF s2]] finalize_records by blast
    qed
  qed
qed

lemma sync_run_records: "sync_run cfg s = Inr s' \<Longrightarrow> recorded_more s s'"
proof (induction cfg s rule: sync_run.induct)
  case (1 cfg s)
  show ?case
  proof (cases "y_completed_tokens s < expected_tokens cfg s")
    case True
    then obtain b s1 where s1: "sync_pass cfg s = Inr (b, s1)" "if b then sync_run cfg s1 = Inr s' else s' = s1"
      using "1.prems" by (subst (asm) sync_run.simps) (auto split: sum.splits prod.splits bool.splits)
    then show ?thesis using sync_pass_records [OF s1(1)] "1.IH" [OF True s1(1)] recorded_more_trans
      by (cases b) auto
  next
    case False
    then show ?thesis using "1.prems" by (subst (asm) sync_run.simps) simp
  qed
qed

text \<open>
  Stopping early changes nothing but the end: with a router that answers every call the limited run returns, its state lies on
  the path of the full run (going on from there gives the full run's result), its completion
  times and latencies are a prefix of the full run's, and it stops with all tokens completed
  or with at least the asked number completed since the active requests reached their limit.
\<close>

theorem sync_early_stop_prefix:
  assumes "sync_init cfg0 arrivals = Inr (cfg, s)" and "table_covers cfg0" and "0 < y_tokens_per_request cfg0"
    and "router_total cfg0 (length arrivals)" and "0 \<le> n"
  shows "\<exists>p s'. sync_run_limit cfg (Some n) s = Inr p \<and> sync_run cfg s = Inr s' \<and> sync_run cfg (ys_sim p) = Inr s' \<and>
    prefix (y_completion_times (ys_sim p)) (y_completion_times s') \<and>
    prefix (y_token_latencies (ys_sim p)) (y_token_latencies s') \<and>
    prefix (y_request_latencies (ys_sim p)) (y_request_latencies s') \<and>
    (y_completed_tokens (ys_sim p) = length arrivals * y_tokens_per_request cfg \<or>
     (\<exists>c. ys_saturation_tokens p = Some c \<and> c \<le> y_completed_tokens (ys_sim p) \<and>
       n \<le> int (y_completed_tokens (ys_sim p)) - int c))"
proof -
  note i = sync_init_inv [OF assms(1-3)]
  have ok: "sync_ok cfg" "sync_inv cfg s" "router_total cfg (total_reqs s)" using i assms(4) by auto
  obtain s' where s': "sync_run cfg s = Inr s'" using sync_run_ok [OF ok] by blast
  have "saturation_ok cfg (sync_start s)" by (simp add: saturation_ok_def sync_start_def)
  then obtain p where p: "limited_loop cfg n (sync_start s) = Inr p" "saturation_ok cfg p" "sync_run cfg (ys_sim p) = Inr s'"
    "y_completed_tokens (ys_sim p) = expected_tokens cfg s \<or> tail_done n p"
    using limited_loop_ok [of cfg "sync_start s" n] ok s' by (auto simp: sync_start_def)
  have "recorded_more (ys_sim p) s'" by (rule sync_run_records [OF p(3)])
  moreover have "sync_run_limit cfg (Some n) s = Inr p" using assms(5) p(1) by (simp add: sync_run_limit_def)
  moreover have "expected_tokens cfg s = length arrivals * y_tokens_per_request cfg" using i by (simp add: expected_tokens_def)
  moreover have "\<exists>c. ys_saturation_tokens p = Some c \<and> c \<le> y_completed_tokens (ys_sim p) \<and>
      n \<le> int (y_completed_tokens (ys_sim p)) - int c" if "tail_done n p"
    using that p(2) by (auto simp: tail_done_def saturation_ok_def split: option.splits)
  ultimately show ?thesis using p(3,4) s' unfolding recorded_more_def by (intro exI [of _ p] exI [of _ s']) auto
qed

theorem sync_early_stop_prefix_witness:
  "\<exists>cfg s p s'. sync_init demo_sync [1, 3] = Inr (cfg, s) \<and> sync_run_limit cfg (Some 0) s = Inr p \<and>
    sync_run cfg s = Inr s' \<and> prefix (y_completion_times (ys_sim p)) (y_completion_times s')"
proof -
  obtain cfg s where init: "sync_init demo_sync [1, 3] = Inr (cfg, s)" by (simp add: sync_init_def demo_sync_def)
  have router: "router_total demo_sync (length [1, 3 :: real])" by (rule demo_router_total)
  have "0 < y_tokens_per_request demo_sync" by (simp add: demo_sync_def)
  from sync_early_stop_prefix [OF init demo_covers this router, of 0] init show ?thesis by auto
qed

section \<open>The figures of a report\<close>

lemma avg_or_0_range:
  assumes "\<forall>x\<in>set xs. 0 \<le> x \<and> x \<le> m" and "0 \<le> m"
  shows "0 \<le> avg_or_0 xs \<and> avg_or_0 xs \<le> m"
proof -
  have "0 \<le> sum_list xs \<and> sum_list xs \<le> real (length xs) * m"
    using assms(1) by (induction xs) (auto simp: algebra_simps)
  then show ?thesis using assms(2) by (auto simp: avg_or_0_def divide_le_eq mult.commute)
qed

lemma avg_or_0_nonneg: "\<forall>x\<in>set xs. 0 \<le> x \<Longrightarrow> 0 \<le> avg_or_0 xs"
  by (simp add: avg_or_0_def sum_list_nonneg)

lemma percentile_ms_range:
  assumes "\<forall>x\<in>set xs. 0 \<le> x \<and> x \<le> m" and "0 \<le> m" and "0 < ticks"
  shows "0 \<le> percentile_ms ticks xs p \<and> percentile_ms ticks xs p \<le> m / ticks"
proof (cases "xs = []")
  case False
  then have "0 \<le> Min (set xs)" "Max (set xs) \<le> m" using assms(1) by simp_all
  then have "0 \<le> percentile xs p \<and> percentile xs p \<le> m" using percentile_range [OF False, of p] by linarith
  then show ?thesis using False assms(3) by (simp add: percentile_ms_def divide_right_mono)
qed (use assms in \<open>simp add: percentile_ms_def\<close>)

lemma percentile_ms_mono: "0 < ticks \<Longrightarrow> p \<le> q \<Longrightarrow> percentile_ms ticks xs p \<le> percentile_ms ticks xs q"
  using percentile_mono [of p q xs] by (simp add: percentile_ms_def divide_right_mono)

lemma throughput_nonneg: "0 \<le> throughput c n sec"
  by (simp add: throughput_def)

lemma nested_some: "(if A then if B then Some v else None else None) = Some x \<longleftrightarrow> A \<and> B \<and> x = v"
  by auto

lemma tail_throughput_none: "tail_throughput ticks tpr limit stopped c m None st = None"
  by (simp add: tail_throughput_def split: option.split)

lemma tail_throughput_some:
  assumes "tail_throughput ticks tpr limit stopped c m (Some k) st = Some x" and "k \<le> c"
  shows "stopped \<and> limit \<noteq> None \<and> 0 \<le> x"
proof -
  obtain t where "stopped \<and> limit \<noteq> None" "0 < (m - t) / ticks / 1000"
    and x: "x = real_of_int (int c - int k) / real tpr / ((m - t) / ticks / 1000)"
  proof (cases st)
    case None
    then show ?thesis using assms(1) by (simp add: tail_throughput_def)
  next
    case (Some t)
    have "(if limit \<noteq> None \<and> stopped \<and> 0 < tpr \<and> t < m
        then if 0 < (m - t) / ticks / 1000
             then Some (real_of_int (int c - int k) / real tpr / ((m - t) / ticks / 1000)) else None
        else None) = Some x"
      using assms(1) unfolding tail_throughput_def Let_def Some prod.case option.case .
    then show ?thesis using that [of t] unfolding nested_some by blast
  qed
  moreover have "0 \<le> real_of_int (int c - int k) / real tpr" using assms(2) by simp
  ultimately show ?thesis using divide_nonneg_pos by blast
qed

text \<open>The inputs of the driver: a profile that is accepted, times that are not negative, an even split.\<close>

definition driver_inputs ::
  "(string \<Rightarrow> int option) \<Rightarrow> (string \<Rightarrow> real option) \<Rightarrow> csv_file \<Rightarrow> real \<Rightarrow> int \<Rightarrow> (nat \<Rightarrow> real) \<Rightarrow> int option \<Rightarrow>
   sync_config \<Rightarrow> bool" where
  "driver_inputs p_int p_float f ticks n draw limit cfg \<longleftrightarrow>
     (\<exists>table. expert_compute_time_lookup p_int p_float f (y_max_batch cfg) ticks = Inr table) \<and>
     (\<forall>c t. p_float c = Some t \<longrightarrow> 0 \<le> t) \<and> 0 < ticks \<and> (\<forall>i. 0 \<le> draw i) \<and>
     (limit = None \<or> (\<exists>k\<ge>0. limit = Some k)) \<and> 0 < y_max_batch cfg \<and> 0 < y_tokens_per_request cfg \<and>
     0 < y_ep cfg \<and> y_total_experts cfg mod y_ep cfg = 0 \<and>
     0 \<le> y_attn_service_t cfg \<and> 0 \<le> y_net_a2e cfg \<and> 0 \<le> y_net_e2a cfg \<and>
     (\<forall>g. y_net_delay cfg = Some g \<longrightarrow> (\<forall>a b k. 0 \<le> g a b k))"

text \<open>The same with a router that answers every call of the run.\<close>

definition driver_ok ::
  "(string \<Rightarrow> int option) \<Rightarrow> (string \<Rightarrow> real option) \<Rightarrow> csv_file \<Rightarrow> real \<Rightarrow> int \<Rightarrow> (nat \<Rightarrow> real) \<Rightarrow> int option \<Rightarrow>
   sync_config \<Rightarrow> bool" where
  "driver_ok p_int p_float f ticks n draw limit cfg \<longleftrightarrow>
     driver_inputs p_int p_float f ticks n draw limit cfg \<and> router_total cfg (nat n)"

lemma arrivals_sound:
  assumes "\<And>i. 0 \<le> draw i"
  shows "length (generate_request_arrivals n rate draw) = nat n \<and> (\<forall>t\<in>set (generate_request_arrivals n rate draw). 0 \<le> t)"
  using generate_request_arrivals_sorted [where draw = draw, OF assms] by blast

lemma driver_start_inputs:
  assumes "driver_inputs p_int p_float f ticks n draw limit cfg"
  shows "\<exists>table cfg' s. expert_compute_time_lookup p_int p_float f (y_max_batch cfg) ticks = Inr table \<and>
    sync_init (cfg\<lparr>y_lookup := scale_table table\<rparr>) (generate_request_arrivals n rate draw) = Inr (cfg', s) \<and>
    sync_ok cfg' \<and> times_nonneg cfg' \<and> sound_inv cfg' s \<and> router_total cfg' (total_reqs s) = router_total cfg (nat n) \<and>
    total_reqs s = nat n \<and> y_tokens_per_request cfg' = y_tokens_per_request cfg \<and> y_max_batch cfg' = y_max_batch cfg \<and>
    table_covers (cfg\<lparr>y_lookup := scale_table table\<rparr>)"
proof -
  obtain table where t: "expert_compute_time_lookup p_int p_float f (y_max_batch cfg) ticks = Inr table"
    using assms by (auto simp: driver_inputs_def)
  have fl: "\<And>c t. p_float c = Some t \<Longrightarrow> 0 \<le> t" and d: "\<And>i. 0 \<le> draw i"
    and rest: "0 < ticks" "0 < y_max_batch cfg" "0 < y_tokens_per_request cfg" "0 < y_ep cfg"
      "y_total_experts cfg mod y_ep cfg = 0" "0 \<le> y_attn_service_t cfg" "0 \<le> y_net_a2e cfg"
      "0 \<le> y_net_e2a cfg" "\<And>g a b k. y_net_delay cfg = Some g \<Longrightarrow> 0 \<le> g a b k"
    using assms by (simp_all add: driver_inputs_def)
  let ?c = "cfg\<lparr>y_lookup := scale_table table\<rparr>" and ?a = "generate_request_arrivals n rate draw"
  note arr = arrivals_sound [where draw = draw, OF d, of n rate]
  have cov: "table_covers ?c"
    using rest(2) lookup_covers [OF t] by (auto simp: table_covers_def scale_table_def)
  obtain cfg' s where init: "sync_init ?c ?a = Inr (cfg', s)" using rest(4,5) by (simp add: sync_init_def)
  note i = sync_init_inv [OF init cov]
  have cfg': "y_attn_service_t cfg' = y_attn_service_t cfg" "y_net_a2e cfg' = y_net_a2e cfg" "y_net_e2a cfg' = y_net_e2a cfg"
    "y_net_delay cfg' = y_net_delay cfg" "y_lookup cfg' = scale_table table" "y_max_batch cfg' = y_max_batch cfg"
    and s: "y_requests s = map (\<lambda>t. \<lparr>rq_arrival_time = t, rq_home_gpu = None, rq_next_token = 0, rq_completed = False\<rparr>) ?a"
    "y_now s = 0" "y_arrival_index s = 0" "y_token_latencies s = []" "y_request_latencies s = []"
    "y_batch_size s = 0" "y_batch_count s = 0" "y_layer_runtimes s = []" "y_wait_imbalances s = []" "y_queue_stddevs s = []"
    using init by (auto simp: sync_init_def split: if_splits)
  have "0 \<le> t'" if "scale_table table k = Some t'" for k t'
  proof -
    obtain u where u: "table k = Some u" "t' = u * group_gemm_speedup_factor" using \<open>scale_table table k = Some t'\<close> by (auto simp: scale_table_def)
    have "0 \<le> u" using lookup_nonneg [OF t _ fl u(1)] rest(1) by simp
    then show ?thesis using u(2) by (simp add: group_gemm_speedup_factor_def)
  qed
  then have nn: "times_nonneg cfg'" using rest by (auto simp: times_nonneg_def cfg')
  have "clock_inv s" using arr by (auto simp: clock_inv_def s total_reqs_def)
  moreover have "stats_inv cfg' s" by (simp add: stats_inv_def s batches_ok_def)
  moreover have "router_total ?c (nat n) = router_total cfg (nat n)" by (simp add: router_conditions(4) [of ?c cfg])
  ultimately have "sound_inv cfg' s \<and> router_total cfg' (total_reqs s) = router_total cfg (nat n) \<and> sync_ok cfg' \<and> total_reqs s = nat n \<and>
      y_tokens_per_request cfg' = y_tokens_per_request cfg"
    using i rest(3) arr by (simp add: sound_inv_def)
  then show ?thesis using t init nn cfg'(6) cov by blast
qed

lemma driver_start:
  assumes "driver_ok p_int p_float f ticks n draw limit cfg"
  shows "\<exists>table cfg' s. expert_compute_time_lookup p_int p_float f (y_max_batch cfg) ticks = Inr table \<and>
    sync_init (cfg\<lparr>y_lookup := scale_table table\<rparr>) (generate_request_arrivals n rate draw) = Inr (cfg', s) \<and>
    sync_ok cfg' \<and> times_nonneg cfg' \<and> sound_inv cfg' s \<and> router_total cfg' (total_reqs s) \<and>
    total_reqs s = nat n \<and> y_tokens_per_request cfg' = y_tokens_per_request cfg \<and> y_max_batch cfg' = y_max_batch cfg"
  using driver_start_inputs [of p_int p_float f ticks n draw limit cfg rate] assms unfolding driver_ok_def by blast

lemma sync_run_limit_ok:
  assumes "sync_ok cfg" and "times_nonneg cfg" and "sound_inv cfg s" and "router_total cfg (total_reqs s)"
    and "limit = None \<or> (\<exists>k\<ge>0. limit = Some k)"
  shows "\<exists>p. sync_run_limit cfg limit s = Inr p \<and> sound_inv cfg (ys_sim p) \<and> saturation_ok cfg p \<and>
    total_reqs (ys_sim p) = total_reqs s \<and> (limit = None \<longrightarrow> y_completed_tokens (ys_sim p) = expected_tokens cfg s)"
proof (cases limit)
  case None
  have "sync_inv cfg s" using assms(3) by (simp add: sound_inv_def)
  then obtain s' where s': "sync_run cfg s = Inr s'" "total_reqs s' = total_reqs s" "y_completed_tokens s' = expected_tokens cfg s"
    using sync_run_ok [of cfg s] assms(1,4) by blast
  have "sound_inv cfg s'" by (rule sync_run_sound [OF assms(1-4) s'(1)])
  then show ?thesis using s' None by (simp add: sync_run_limit_def sync_start_def saturation_ok_def)
next
  case (Some k)
  have 0: "sound_inv cfg (ys_sim (sync_start s))" "saturation_ok cfg (sync_start s)" "0 \<le> k"
    using assms(3,5) Some by (simp_all add: sync_start_def saturation_ok_def)
  then obtain p where p: "limited_loop cfg k (sync_start s) = Inr p" "saturation_ok cfg p" "total_reqs (ys_sim p) = total_reqs s"
    using limited_loop_ok [of cfg "sync_start s" k] assms(1,4) by (auto simp: sync_start_def sound_inv_def)
  have "sound_inv cfg (ys_sim p)"
    using limited_loop_sound [OF assms(1,2) 0(1) _ p(1)] assms(4) by (simp add: sync_start_def)
  then show ?thesis using p Some 0(3) by (simp add: sync_run_limit_def)
qed

lemma batch_average_range:
  assumes "batches_ok cfg n c" and "0 < c"
  shows "1 \<le> real n / real c \<and> real n / real c \<le> real (y_max_batch cfg)"
proof -
  have "real n \<le> real c * real (y_max_batch cfg)" using assms(1) by (metis batches_ok_def of_nat_le_iff of_nat_mult)
  then show ?thesis using assms by (simp add: batches_ok_def field_simps)
qed

text \<open>
  The report of the synchronous driver, for an accepted profile, a router that
  answers every call and times that are not negative, with or without an early stop: it is returned (nothing raises and no division by
  zero is met), average latencies and percentiles lie between zero and the makespan with p90
  at most p99, the averages of the layer statistics are not negative, the average batch has
  between one and the limit of tokens when there was one, \<open>stopped_early\<close> holds exactly when
  fewer completion times than tokens are reported and never without a limit, and a tail
  throughput is reported only for an early stop.
\<close>

theorem sync_report_bounds:
  assumes "driver_ok p_int p_float f ticks n draw limit cfg"
  shows "\<exists>rep. run_simulation_sync p_int p_float f ticks n rate draw limit cfg = Inr rep \<and>
    0 \<le> rep_avg_latency rep \<and> rep_avg_latency rep \<le> rep_makespan rep \<and>
    0 \<le> rep_avg_request_latency_ms rep \<and> rep_avg_request_latency_ms rep \<le> rep_makespan rep / ticks \<and>
    0 \<le> rep_p90_ms rep \<and> rep_p90_ms rep \<le> rep_p99_ms rep \<and> rep_p99_ms rep \<le> rep_makespan rep / ticks \<and>
    0 \<le> rep_avg_layer_runtime rep \<and> 0 \<le> rep_avg_wait_imbalance rep \<and> 0 \<le> rep_avg_queue_stddev rep \<and>
    (rep_avg_batch_size rep = 0 \<or> 1 \<le> rep_avg_batch_size rep \<and> rep_avg_batch_size rep \<le> real (y_max_batch cfg)) \<and>
    (rep_stopped_early rep \<longleftrightarrow> length (rep_completion_times rep) < nat n * y_tokens_per_request cfg) \<and>
    (limit = None \<longrightarrow> \<not> rep_stopped_early rep) \<and> 0 \<le> rep_throughput rep \<and>
    (\<forall>x. rep_tail_throughput rep = Some x \<longrightarrow> rep_stopped_early rep \<and> limit \<noteq> None \<and> 0 \<le> x)"
proof -
  obtain table cfg' s where st: "expert_compute_time_lookup p_int p_float f (y_max_batch cfg) ticks = Inr table"
    "sync_init (cfg\<lparr>y_lookup := scale_table table\<rparr>) (generate_request_arrivals n rate draw) = Inr (cfg', s)"
    "sync_ok cfg'" "times_nonneg cfg'" "sound_inv cfg' s" "router_total cfg' (total_reqs s)"
    "total_reqs s = nat n" "y_tokens_per_request cfg' = y_tokens_per_request cfg" "y_max_batch cfg' = y_max_batch cfg"
    using driver_start [OF assms, of rate] by blast
  have lim: "limit = None \<or> (\<exists>k\<ge>0. limit = Some k)" and ticks: "0 < ticks" using assms by (simp_all add: driver_ok_def driver_inputs_def)
  obtain p where p: "sync_run_limit cfg' limit s = Inr p" "sound_inv cfg' (ys_sim p)" "saturation_ok cfg' p"
    "total_reqs (ys_sim p) = nat n" "limit = None \<longrightarrow> y_completed_tokens (ys_sim p) = expected_tokens cfg' s"
    using sync_run_limit_ok [OF st(3-6) lim] st(7) by auto
  define e where "e = ys_sim p"
  have inv: "sync_inv cfg' e" "clock_inv e" "stats_inv cfg' e" using p(2) by (simp_all add: sound_inv_def e_def)
  have now: "0 \<le> y_now e" and lat: "\<forall>x\<in>set (map snd (y_token_latencies e)). 0 \<le> x \<and> x \<le> y_now e"
    "\<forall>x\<in>set (y_request_latencies e). 0 \<le> x \<and> x \<le> y_now e"
    using inv(2) by (auto simp: clock_inv_def)
  have counts: "counts_inv cfg' e" using inv(1) by (simp add: sync_inv_def)
  have exp: "expected_tokens cfg' e = nat n * y_tokens_per_request cfg" using p(4) st(8) by (simp add: expected_tokens_def e_def)
  have len: "length (y_completion_times e) = y_completed_tokens e"
    using counts by (metis counts_inv_def length_map length_upt minus_nat.diff_0)
  have early: "y_completed_tokens e \<noteq> expected_tokens cfg' e \<longleftrightarrow> y_completed_tokens e < nat n * y_tokens_per_request cfg"
    using inv_progress [OF counts] exp by auto
  obtain rep where rep: "sync_report ticks (y_tokens_per_request cfg') limit (sync_results cfg' p) = Inr rep"
    using ticks by (simp add: sync_report_def Let_def)
  have run: "run_simulation_sync p_int p_float f ticks n rate draw limit cfg = Inr rep"
    using st(1,2) p(1) rep by (simp add: run_simulation_sync_def)
  have fields: "rep_avg_latency rep = avg_or_0 (map snd (y_token_latencies e))" "rep_makespan rep = y_now e"
    "rep_avg_request_latency_ms rep = avg_or_0 (map (\<lambda>x. x / ticks) (y_request_latencies e))"
    "rep_p90_ms rep = percentile_ms ticks (y_request_latencies e) (9 / 10)"
    "rep_p99_ms rep = percentile_ms ticks (y_request_latencies e) (99 / 100)"
    "rep_avg_layer_runtime rep = avg_or_0 (y_layer_runtimes e)" "rep_avg_wait_imbalance rep = avg_or_0 (y_wait_imbalances e)"
    "rep_avg_queue_stddev rep = avg_or_0 (y_queue_stddevs e)"
    "rep_avg_batch_size rep = (if 0 < y_batch_count e then real (y_batch_size e) / real (y_batch_count e) else 0)"
    "rep_stopped_early rep \<longleftrightarrow> y_completed_tokens e \<noteq> expected_tokens cfg' e"
    "rep_completion_times rep = y_completion_times e"
    "\<exists>sec. rep_throughput rep = throughput (length (y_completion_times e)) (y_tokens_per_request cfg') sec"
    "rep_tail_throughput rep = tail_throughput ticks (y_tokens_per_request cfg') limit (rep_stopped_early rep)
       (length (y_completion_times e)) (y_now e) (ys_saturation_tokens p) (ys_saturation_time p)"
    using rep ticks by (auto simp: sync_report_def sync_results_def Let_def e_def)
  have "\<forall>x\<in>set (map (\<lambda>x. x / ticks) (y_request_latencies e)). 0 \<le> x \<and> x \<le> y_now e / ticks"
    using lat(2) ticks by (auto simp: divide_right_mono)
  then have req: "0 \<le> rep_avg_request_latency_ms rep \<and> rep_avg_request_latency_ms rep \<le> rep_makespan rep / ticks"
    unfolding fields using avg_or_0_range [of _ "y_now e / ticks"] now ticks by simp
  have tok: "0 \<le> rep_avg_latency rep \<and> rep_avg_latency rep \<le> rep_makespan rep"
    unfolding fields using avg_or_0_range [OF lat(1) now] .
  have perc: "0 \<le> rep_p90_ms rep \<and> rep_p90_ms rep \<le> rep_p99_ms rep \<and> rep_p99_ms rep \<le> rep_makespan rep / ticks"
    unfolding fields using percentile_ms_range [OF lat(2) now ticks] percentile_ms_mono [OF ticks, of "9 / 10" "99 / 100"] by simp
  have layer: "0 \<le> rep_avg_layer_runtime rep \<and> 0 \<le> rep_avg_wait_imbalance rep \<and> 0 \<le> rep_avg_queue_stddev rep"
    unfolding fields using inv(3) by (simp add: stats_inv_def avg_or_0_nonneg)
  have batch: "rep_avg_batch_size rep = 0 \<or> 1 \<le> rep_avg_batch_size rep \<and> rep_avg_batch_size rep \<le> real (y_max_batch cfg)"
    unfolding fields using inv(3) batch_average_range [of cfg'] st(9) by (auto simp: stats_inv_def)
  have tail: "rep_stopped_early rep \<and> limit \<noteq> None \<and> 0 \<le> x" if some: "rep_tail_throughput rep = Some x" for x
  proof -
    obtain c where c: "ys_saturation_tokens p = Some c"
      using some tail_throughput_none unfolding fields(13) by (cases "ys_saturation_tokens p") auto
    have "c \<le> y_completed_tokens e" using p(3) c by (auto simp: saturation_ok_def e_def split: option.splits)
    then have "c \<le> length (y_completion_times e)" using len by simp
    then show ?thesis using tail_throughput_some some unfolding fields(13) c by blast
  qed
  have thr: "0 \<le> rep_throughput rep" using fields(12) throughput_nonneg by auto
  have stop: "(rep_stopped_early rep \<longleftrightarrow> length (rep_completion_times rep) < nat n * y_tokens_per_request cfg) \<and>
      (limit = None \<longrightarrow> \<not> rep_stopped_early rep)"
    unfolding fields len using early p(5) p(4) st(7) by (auto simp: expected_tokens_def e_def)
  show ?thesis
    using run tok req perc layer batch stop thr tail by (intro exI [of _ rep]) blast
qed

end
