(* ===== verification/ExperimentProps.thy ===== *)
theory ExperimentProps
  imports Experiment SimReportProps
begin

text \<open>
  What the experiment driver guarantees: the closed form of a phase's receive time under the
  bandwidth model, the size and contents of the grid, that every configuration of the grid
  runs to a summary in the synchronous and in the overlapped mode, and the order of the
  written results.
\<close>

section \<open>The bandwidth model\<close>

lemma bw_bytes_nonneg: "0 \<le> bw \<Longrightarrow> 0 \<le> bw_bytes_per_ms bw"
  by (simp add: bw_bytes_per_ms_def)

lemma bandwidth_delay_nonneg:
  assumes "0 \<le> h" and "0 \<le> b" and "0 \<le> ibw" and "0 \<le> xbw" and "0 \<le> ticks"
  shows "0 \<le> bandwidth_delay n h b ibw xbw ticks src dst k"
  using assms by (simp add: bandwidth_delay_def Let_def bw_bytes_nonneg)

text \<open>The ticks that one token costs on a link.\<close>

definition token_ticks :: "int \<Rightarrow> int \<Rightarrow> real \<Rightarrow> real \<Rightarrow> real" where
  "token_ticks hidden_dim bytes_per_elem gbps ticks =
     real_of_int (hidden_dim * bytes_per_elem) / bw_bytes_per_ms gbps * ticks"

lemma bandwidth_delay_linear:
  "bandwidth_delay n h b ibw xbw ticks src dst k =
     real k * token_ticks h b (if src div nat (max 1 n) = dst div nat (max 1 n) then ibw else xbw) ticks"
  by (simp add: bandwidth_delay_def token_ticks_def Let_def)

definition link_tokens :: "sync_config \<Rightarrow> bool \<Rightarrow> nat \<Rightarrow> (nat, nat) dict \<Rightarrow> nat" where
  "link_tokens cfg same dst src_tokens =
     sum_list (map snd (filter (\<lambda>x. y_is_same_host cfg (fst x) dst = same) src_tokens))"

lemma bandwidth_totals:
  assumes "y_gpus_per_host cfg = Some n" and "0 < n"
  shows "fold (add_delay (bandwidth_delay (int n) h b ibw xbw ticks) cfg dst) src_tokens (p, q) =
    (p + real (link_tokens cfg True dst src_tokens) * token_ticks h b ibw ticks,
     q + real (link_tokens cfg False dst src_tokens) * token_ticks h b xbw ticks)"
proof (induction src_tokens arbitrary: p q)
  case (Cons x xs)
  obtain src k where x: "x = (src, k)" by (cases x)
  have same: "y_is_same_host cfg src dst \<longleftrightarrow> src div n = dst div n"
    using assms(1) by (simp add: y_is_same_host_def)
  have "nat (max 1 (int n)) = n" using assms(2) by simp
  then have "add_delay (bandwidth_delay (int n) h b ibw xbw ticks) cfg dst x (p, q) =
      (if src div n = dst div n then (p + real k * token_ticks h b ibw ticks, q)
       else (p, q + real k * token_ticks h b xbw ticks))"
    by (simp add: add_delay_def x Let_def bandwidth_delay_linear same)
  then show ?case using Cons.IH by (simp add: link_tokens_def x same algebra_simps)
qed (simp add: link_tokens_def)

text \<open>
  Under the bandwidth model of the experiments the time to receive a phase's tokens at
  a GPU depends only on how many tokens come over each link: it is the larger of the tokens
  from the same host at the intra-node rate and the tokens from other hosts at the inter-node
  rate, however they are spread over source GPUs.
\<close>

theorem bandwidth_receive_time:
  assumes "y_gpus_per_host cfg = Some n" and "0 < n"
  shows "receive_time (bandwidth_delay (int n) h b ibw xbw ticks) cfg dst src_tokens =
    max (real (link_tokens cfg True dst src_tokens) * token_ticks h b ibw ticks)
        (real (link_tokens cfg False dst src_tokens) * token_ticks h b xbw ticks)"
  using bandwidth_totals [OF assms] by (simp add: receive_time_def)

theorem bandwidth_receive_time_witness:
  "receive_time (bandwidth_delay 4 2880 2 800 50 10) (demo_sync\<lparr>y_gpus_per_host := Some 4\<rparr>) 1 [(0, 3), (2, 4), (5, 2)]
    = real (2::nat) * token_ticks 2880 2 50 10"
  using bandwidth_receive_time [of "demo_sync\<lparr>y_gpus_per_host := Some 4\<rparr>" 4 2880 2 800 50 10 1 "[(0, 3), (2, 4), (5, 2)]"]
  by (simp add: link_tokens_def y_is_same_host_def token_ticks_def bw_bytes_per_ms_def)

section \<open>The grid\<close>

lemmas grid_defs = EP_GROUP_SIZE_VALUES_def ATTN_SERVICE_T_VALUES_def NET_DELAY_VALUES_INTRA_HOST_def
  NET_DELAY_VALUES_INTER_HOST_def GLOBAL_BATCH_MULTIPLIERS_def INTER_NODE_BANDWIDTH_VALUES_def
  bandwidth_aware_values_def ENBALE_BANDWIDTH_UNAWARE_COMPARISON_def N_GPU_PER_HOST_def

lemma grid_config:
  assumes "cfg \<in> set (build_configs hidden_dims)"
  shows "xc_ep_group_size cfg = 32 \<and> 0 < xc_attn_service_t cfg \<and> xc_n_gpu_per_host cfg = 4 \<and>
    0 < xc_net_delay_inter cfg \<and> xc_global_max cfg \<in> {4096, 8192} \<and> xc_hidden_dim cfg \<in> set hidden_dims \<and>
    0 < xc_inter_bw cfg \<and> xc_bw_aware cfg"
  using assms by (auto simp: build_configs_def grid_defs)

lemma grid_length: "length (build_configs hidden_dims) = 18 * length hidden_dims"
  by (simp add: build_configs_def grid_defs length_concat comp_def sum_list_triv)

text \<open>What the driver is given: an accepted profile of the expert times, and experts that 32 divides.\<close>

definition env_ok :: "exp_env \<Rightarrow> bool" where
  "env_ok env \<longleftrightarrow>
     (\<exists>table. expert_compute_time_lookup (xe_int env) (xe_float env) (xe_csv env) MAX_BATCH_SIZE TICKS_PER_MILLISECOND = Inr table) \<and>
     (\<forall>c t. xe_float env c = Some t \<longrightarrow> 0 \<le> t) \<and> (\<forall>i. 0 \<le> xe_draw env i) \<and> xe_num_experts env mod 32 = 0 \<and>
     0 < xe_num_layers env"

lemma grid_driver_inputs:
  assumes "env_ok env" and "\<forall>h\<in>set hidden_dims. 0 \<le> h" and "cfg \<in> set (build_configs hidden_dims)"
  shows "driver_inputs (xe_int env) (xe_float env) (xe_csv env) TICKS_PER_MILLISECOND (int TOTAL_REQUESTS) (xe_draw env)
    TOKENS_AFTER_REACHING_MAX_BS (sim_args env cfg)"
proof -
  note g = grid_config [OF assms(3)]
  have "0 \<le> f a b k" if "config_delay TICKS_PER_MILLISECOND cfg = Some f" for f a b k
    using that g assms(2) by (auto simp: config_delay_def TICKS_PER_MILLISECOND_def INTRA_NODE_BANDWIDTH_GBPS_def
        BYTES_PER_ELEMENT_def intro!: bandwidth_delay_nonneg)
  then show ?thesis using g assms(1)
    by (simp add: driver_inputs_def sim_args_def env_ok_def TICKS_PER_MILLISECOND_def MAX_BATCH_SIZE_def
        TOKENS_PER_REQUEST_def TOKENS_AFTER_REACHING_MAX_BS_def)
qed

text \<open>With a router that answers, both synchronous drivers return a report.\<close>

lemma sync_driver_returns:
  assumes "driver_ok p_int p_float f ticks n draw limit cfg"
  shows "\<exists>rep. run_simulation_sync p_int p_float f ticks n rate draw limit cfg = Inr rep \<and> rep_p90_ms rep \<le> rep_p99_ms rep"
proof -
  obtain table cfg' s where st: "expert_compute_time_lookup p_int p_float f (y_max_batch cfg) ticks = Inr table"
    "sync_init (cfg\<lparr>y_lookup := scale_table table\<rparr>) (generate_request_arrivals n rate draw) = Inr (cfg', s)"
    "sync_ok cfg'" "times_nonneg cfg'" "sound_inv cfg' s" "router_total cfg' (total_reqs s)"
    using driver_start [OF assms, of rate] by blast
  have lim: "limit = None \<or> (\<exists>k\<ge>0. limit = Some k)" and ticks: "0 < ticks" using assms by (simp_all add: driver_ok_def driver_inputs_def)
  obtain p where "sync_run_limit cfg' limit s = Inr p" using sync_run_limit_ok [OF st(3-6) lim] by blast
  then show ?thesis using st(1,2) ticks percentile_ms_mono [OF ticks, of "9 / 10" "99 / 100"]
    by (simp add: run_simulation_sync_def sync_report_def Let_def)
qed

lemma tbo_driver_returns:
  assumes "driver_ok p_int p_float f ticks n draw limit cfg"
  shows "\<exists>rep. run_simulation_tbo p_int p_float f ticks n rate draw limit ops cfg = Inr rep \<and>
    rep_p90_ms rep \<le> rep_p99_ms rep \<and>
    (rep_stopped_early rep \<longleftrightarrow> length (rep_completion_times rep) < nat n * y_tokens_per_request cfg)"
proof -
  obtain table cfg' s where st: "expert_compute_time_lookup p_int p_float f (y_max_batch cfg) ticks = Inr table"
    "sync_init (cfg\<lparr>y_lookup := scale_table table\<rparr>) (generate_request_arrivals n rate draw) = Inr (cfg', s)"
    "sync_ok cfg'" "sync_inv cfg' s" "router_total cfg' (total_reqs s)" "total_reqs s = nat n"
    "y_tokens_per_request cfg' = y_tokens_per_request cfg"
    using driver_start [OF assms, of rate] unfolding sound_inv_def by blast
  define cap where "cap = (if 0 < ops then Some (timeline_init ops) else None)"
  have lim: "limit = None \<or> (\<exists>k\<ge>0. limit = Some k)" and ticks: "0 < ticks" using assms by (simp_all add: driver_ok_def driver_inputs_def)
  obtain st' where l: "tbo_loop cfg' limit (tbo_start cap s) = Inr st'" "sync_inv cfg' (tb_sim st')"
    "total_reqs (tb_sim st') = nat n"
    using tbo_loop_ok [of cfg' "tbo_start cap s" limit] st by (auto simp: tbo_start_def)
  then have run: "tbo_run cfg' limit (tbo_start cap s) = Inr st'" using lim by (auto simp: tbo_run_def)
  have counts: "counts_inv cfg' (tb_sim st')" using l(2) by (simp add: sync_inv_def)
  have len: "length (y_completion_times (tb_sim st')) = y_completed_tokens (tb_sim st')"
    using counts by (metis counts_inv_def length_map length_upt minus_nat.diff_0)
  have "y_completed_tokens (tb_sim st') \<noteq> expected_tokens cfg' (tb_sim st') \<longleftrightarrow>
      y_completed_tokens (tb_sim st') < nat n * y_tokens_per_request cfg"
    using inv_progress [OF counts] l(3) st(7) by (auto simp: expected_tokens_def)
  then show ?thesis using st(1,2) ticks run len percentile_ms_mono [OF ticks, of "9 / 10" "99 / 100"]
    by (simp add: run_simulation_tbo_def tbo_report_of_def tbo_results_of_def Let_def cap_def)
qed

text \<open>With the router of the repository neither does: the run raises TypeError.\<close>

lemma drivers_raise_type_error:
  assumes d: "driver_inputs p_int p_float f ticks n draw limit cfg" and r: "y_router cfg = profile_route rt"
    and l: "0 < y_num_layers cfg" and n: "0 < n"
  shows "run_simulation_sync p_int p_float f ticks n rate draw limit cfg = Inl TypeError \<and>
    run_simulation_tbo p_int p_float f ticks n rate draw limit ops cfg = Inl TypeError"
proof -
  obtain table cfg' s where st: "expert_compute_time_lookup p_int p_float f (y_max_batch cfg) ticks = Inr table"
    "sync_init (cfg\<lparr>y_lookup := scale_table table\<rparr>) (generate_request_arrivals n rate draw) = Inr (cfg', s)"
    "table_covers (cfg\<lparr>y_lookup := scale_table table\<rparr>)"
    using driver_start_inputs [OF d, of rate] by blast
  have draws: "\<And>i. 0 \<le> draw i" and tpr: "0 < y_tokens_per_request cfg" and lim: "limit = None \<or> (\<exists>k\<ge>0. limit = Some k)"
    using d by (simp_all add: driver_inputs_def)
  have "length (generate_request_arrivals n rate draw) = nat n" using arrivals_sound [where draw = draw, OF draws] by blast
  then have "generate_request_arrivals n rate draw \<noteq> []" using n by auto
  from sync_raise [OF st(2,3) _ _ _ this lim] r l tpr
  have "sync_run_limit cfg' limit s = Inl TypeError" "\<And>cap. tbo_run cfg' limit (tbo_start cap s) = Inl TypeError" by simp_all
  then show ?thesis using st(1,2) by (simp add: run_simulation_sync_def run_simulation_tbo_def Let_def)
qed

text \<open>
  C33: The experiment driver cannot produce a result: with an accepted profile of the expert
  times, an expert count that 32 divides and any loaded routing profile, each of the 18
  configurations per hidden size passes every check of the driver, the table and the
  simulator's constructor, and then raises the router's TypeError, in the synchronous and in
  the overlapped mode.
\<close>

theorem experiment_grid_raises:
  assumes "env_ok env" and "\<forall>h\<in>set hidden_dims. 0 \<le> h"
  shows "length (build_configs hidden_dims) = 18 * length hidden_dims \<and>
    (\<forall>cfg\<in>set (build_configs hidden_dims).
       worker_fn ''sync'' have_simpy env ops schedule cfg = Some (Inl TypeError) \<and>
       worker_fn ''tbo'' have_simpy env ops schedule cfg = Some (Inl TypeError))"
proof (intro conjI ballI)
  show "length (build_configs hidden_dims) = 18 * length hidden_dims" by (rule grid_length)
  fix cfg assume "cfg \<in> set (build_configs hidden_dims)"
  note d = grid_driver_inputs [OF assms this]
  have "0 < xe_num_layers env" using assms(1) by (simp add: env_ok_def)
  then have r: "run_simulation_sync (xe_int env) (xe_float env) (xe_csv env) TICKS_PER_MILLISECOND (int TOTAL_REQUESTS) ARRIVAL_RATE
      (xe_draw env) TOKENS_AFTER_REACHING_MAX_BS (sim_args env cfg) = Inl TypeError \<and>
    run_simulation_tbo (xe_int env) (xe_float env) (xe_csv env) TICKS_PER_MILLISECOND (int TOTAL_REQUESTS) ARRIVAL_RATE
      (xe_draw env) TOKENS_AFTER_REACHING_MAX_BS ops (sim_args env cfg) = Inl TypeError"
    by (intro drivers_raise_type_error [OF d]) (simp_all add: sim_args_def TOTAL_REQUESTS_def)
  show "worker_fn ''sync'' have_simpy env ops schedule cfg = Some (Inl TypeError)"
    "worker_fn ''tbo'' have_simpy env ops schedule cfg = Some (Inl TypeError)"
    using r by (simp_all add: worker_fn_def run_sync_config_def run_tbo_config_def)
qed

text \<open>A profile with a row for each size: cells are strings of that many characters, the size and time.\<close>

definition demo_row :: "nat \<Rightarrow> string \<Rightarrow> string option" where
  "demo_row n h = (if h = ''batch_size'' \<or> h = ''time'' then Some (replicate n CHR ''x'') else None)"

definition demo_csv :: "nat \<Rightarrow> csv_file" where
  "demo_csv n = \<lparr>fieldnames = [''batch_size'', ''time''], csv_rows = map demo_row [1..<n + 1]\<rparr>"

lemma demo_headers:
  "map strip [''batch_size'', ''time''] = [''batch_size'', ''time'']"
  "first_header size_headers [''batch_size'', ''time''] = Some ''batch_size''"
  "first_header time_headers [''batch_size'', ''time''] = Some ''time''"
  by (simp_all add: strip_def is_space_def first_header_def size_headers_def time_headers_def)

lemma demo_lookup:
  "\<exists>table. expert_compute_time_lookup (\<lambda>c. Some (int (length c))) (\<lambda>c. Some (real (length c))) (demo_csv n) n ticks = Inr table"
proof -
  let ?e = "row_entry (\<lambda>c. Some (int (length c))) (\<lambda>c. Some (real (length c))) ''batch_size'' ''time'' ticks"
  have "read_rows ?e (map demo_row [1..<k + 1]) (int i) \<noteq> None" if "1 \<le> i" "i \<le> k" for i k
    using that
  proof (induction k)
    case (Suc k)
    have "read_rows ?e (map demo_row [1..<Suc k + 1])
        = (read_rows ?e (map demo_row [1..<k + 1]))(int (Suc k) \<mapsto> real (Suc k) * ticks)"
      by (simp add: read_rows_def row_entry_def demo_row_def)
    then show ?case using Suc by (cases "i = Suc k") auto
  qed simp
  then have "filter (\<lambda>s. read_rows ?e (map demo_row [1..<n + 1]) (int s) = None) [1..<n + 1] = []"
    by (auto simp: filter_empty_conv simp del: upt_Suc)
  then show ?thesis unfolding expert_compute_time_lookup_def demo_csv_def Let_def
    by (simp add: demo_headers del: upt_Suc list.map)
qed

definition demo_env :: exp_env where
  "demo_env = \<lparr>xe_num_experts = 128, xe_num_layers = 36, xe_topk = 4, xe_csv = demo_csv MAX_BATCH_SIZE,
     xe_int = (\<lambda>c. Some (int (length c))), xe_float = (\<lambda>c. Some (real (length c))),
     xe_router = small_router, xe_draw = (\<lambda>_. 1)\<rparr>"

lemma demo_env_ok: "env_ok demo_env"
  using demo_lookup [of MAX_BATCH_SIZE TICKS_PER_MILLISECOND] by (simp add: env_ok_def demo_env_def)

theorem experiment_grid_raises_witness:
  "\<exists>cfg. cfg \<in> set (build_configs [2880]) \<and> run_sync_config demo_env cfg = Inl TypeError \<and>
    length (build_configs [2880]) = 18"
proof -
  have ne: "build_configs [2880] ! 0 \<in> set (build_configs [2880])" using grid_length [of "[2880]"] by (intro nth_mem) simp
  show ?thesis
    using experiment_grid_raises [OF demo_env_ok, of "[2880]" True 0 "[]"] ne
    by (fastforce simp: worker_fn_def)
qed

theorem sync_report_bounds_witness:
  "\<exists>rep. run_simulation_sync (\<lambda>c. Some (int (length c))) (\<lambda>c. Some (real (length c))) (demo_csv 2) 10 2 50 (\<lambda>_. 1)
      (Some 0) demo_sync = Inr rep \<and> rep_p90_ms rep \<le> rep_p99_ms rep \<and> rep_avg_latency rep \<le> rep_makespan rep"
proof -
  have "driver_ok (\<lambda>c. Some (int (length c))) (\<lambda>c. Some (real (length c))) (demo_csv 2) 10 2 (\<lambda>_. 1) (Some 0) demo_sync"
    using demo_lookup [of 2 10] demo_router_total [of "nat 2"]
    by (auto simp: driver_ok_def driver_inputs_def) (auto simp: demo_sync_def)
  from sync_report_bounds [OF this, of 50] show ?thesis by blast
qed

section \<open>The written results\<close>

lemma write_results_sorted:
  "mset (write_results rs) = mset rs \<and> sorted (map result_key (write_results rs))"
  by (simp add: write_results_def)

text \<open>A list from the environment is never empty when the default is not.\<close>

lemma parse_env_nonempty:
  "parse_int_list_env p_int env dflt = Inr out \<Longrightarrow> dflt \<noteq> [] \<Longrightarrow> out \<noteq> []"
  by (auto simp: parse_int_list_env_def Let_def res split: if_splits)

lemma parse_env_blank: "(case env of None \<Rightarrow> True | Some v \<Rightarrow> strip v = []) \<Longrightarrow> parse_int_list_env p_int env dflt = Inr dflt"
  by (auto simp: parse_int_list_env_def strip_def split: option.splits)

text \<open>
  The fixed delay of an intra-host transfer is never used: without the bandwidth model both
  directions take the inter-host delay, whatever the topology.
\<close>

lemma intra_delay_unused:
  assumes "\<not> xc_bw_aware cfg"
  shows "sim_args env (cfg\<lparr>xc_net_delay_intra := d\<rparr>) = sim_args env cfg \<and> y_net_delay (sim_args env cfg) = None \<and>
    y_net_a2e (sim_args env cfg) = xc_net_delay_inter cfg"
  using assms by (simp add: sim_args_def config_delay_def)

end
