(* ===== verification/Controller.thy ===== *)
theory Controller
  imports DPSched Detok Placement
begin

text \<open>
  The model of \<open>disagmoe/frontend/controller.py\<close>: the master process. It creates the workers
  and numbers their devices, draws the ids of the point-to-point channels, describes to every
  worker its place in the model, and then serves requests. A request gets an id and an
  \<open>AsyncResult\<close>, waits in the data-parallel scheduler for a rank with room, goes through the
  tokenizer to the worker of that rank, comes back token by token to the detokenizer, and its
  latency record is handed to the client that awaits the result.

  The controller, the scheduler's waiting loop and the tasks that handle results are
  coroutines of one event loop; an event below is a stretch of code between two awaits (the
  lock of an \<open>AsyncResult\<close> is never held over an await, so taking it does not suspend).
  The detokenizer and the tokenizer are actors that handle one call at a time.
\<close>

section \<open>Results that are awaited\<close>

text \<open>
  The objects are shared by the controller's table and by the clients, so they live in a
  store and are named by their position. \<open>ar_waiters\<close> are the tasks inside
  \<open>finish_cond.wait()\<close>, in the order in which they came.
\<close>

record async_result =
  ar_req_id :: nat
  ar_slo_stat :: "slo_stat option"
  ar_waiters :: "nat list"

definition ar_new :: "nat \<Rightarrow> async_result" where
  "ar_new q = \<lparr>ar_req_id = q, ar_slo_stat = None, ar_waiters = []\<rparr>"

text \<open>\<open>get\<close> starts with \<open>wait\<close>: whatever \<open>slo_stat\<close> holds, the task joins the waiters.\<close>

definition ar_wait :: "nat \<Rightarrow> async_result \<Rightarrow> async_result" where
  "ar_wait t a = a\<lparr>ar_waiters := ar_waiters a @ [t]\<rparr>"

text \<open>\<open>notify\<close> wakes one waiter, the oldest.\<close>

definition ar_put :: "slo_stat \<Rightarrow> async_result \<Rightarrow> nat list \<times> async_result" where
  "ar_put s a =
     (take 1 (ar_waiters a), a\<lparr>ar_slo_stat := Some s, ar_waiters := drop 1 (ar_waiters a)\<rparr>)"

definition ar_resume :: "async_result \<Rightarrow> slo_stat result" where
  "ar_resume a = not_None AssertionError (ar_slo_stat a)"

section \<open>The state\<close>

text \<open>
  \<open>ct_tasks\<close> are the tasks of \<open>process_finished_results\<close> that were created and have not run,
  \<open>ct_woken\<close> the clients that were notified and have not run, \<open>ct_returned\<close> what the calls
  of \<open>get\<close> have returned, \<open>ct_failed\<close> the exceptions that ended a task.
\<close>

record controller =
  req_id_generator :: counter
  in_flight_reqs :: "nat set"
  request_results :: "nat \<Rightarrow> nat option"
  ct_objects :: "async_result list"
  ct_loop :: "dp_loop option"
  ct_tokenizer :: tokenizer
  ct_detok :: detok
  ct_tasks :: "slo_stat list list"
  ct_woken :: "(nat \<times> nat) list"
  ct_returned :: "(nat \<times> nat \<times> slo_stat result) list"
  ct_failed :: "py_error list"

definition controller_init :: "nat \<Rightarrow> int \<Rightarrow> controller" where
  "controller_init dp_ranks now =
     \<lparr>req_id_generator = counter_default 1, in_flight_reqs = {}, request_results = Map.empty,
      ct_objects = [], ct_loop = None, ct_tokenizer = tokenizer_init dp_ranks,
      ct_detok = detok_init now, ct_tasks = [], ct_woken = [], ct_returned = [],
      ct_failed = []\<rparr>"

text \<open>
  \<open>start_scheduler\<close>: the free blocks of a rank are the fewest configured on a device of that
  rank; \<open>devs\<close> lists, per device with attention, its rank and its number of blocks.
\<close>

definition start_stats :: "(nat \<times> int) list \<Rightarrow> (nat, int) dict" where
  "start_stats devs =
     fold (\<lambda>(r, b) d. AList.update r (min (d_get_or d r (2 ^ 31)) b) d) devs
       (fold (\<lambda>(r, _) d. AList.update r (2 ^ 31) d) devs [])"

definition start_scheduler ::
  "(nat \<times> int) list \<Rightarrow> dp_sched \<Rightarrow> controller \<Rightarrow> controller result" where
  "start_scheduler devs s c =
     bindR (loop_start (map (\<lambda>(r, b). (int r, b)) (start_stats devs)) s) (\<lambda>dp.
       Inr (c\<lparr>ct_loop := Some dp\<rparr>))"

section \<open>The operations\<close>

definition get_new_req_id :: "controller \<Rightarrow> nat \<times> controller" where
  "get_new_req_id c =
     (let (i, g) = counter_next (req_id_generator c); q = nat i
      in (q, c\<lparr>req_id_generator := g, in_flight_reqs := insert q (in_flight_reqs c)\<rparr>))"

definition put_request :: "nat \<Rightarrow> int \<Rightarrow> int \<Rightarrow> int \<Rightarrow> dp_loop \<Rightarrow> dp_loop" where
  "put_request q sl p out dp =
     dp\<lparr>waiting_queue := waiting_queue dp @
          [\<lparr>req_id = q, seq_len = sl, prefill_len = p, output_len = out\<rparr>]\<rparr>"

definition put_single_request :: "int \<Rightarrow> int \<Rightarrow> controller \<Rightarrow> (nat \<times> controller) result" where
  "put_single_request input_len out_len c =
     bindR (not_None AssertionError (ct_loop c)) (\<lambda>dp.
       let (q, c1) = get_new_req_id c;
           ref = length (ct_objects c1);
           c2 = c1\<lparr>ct_objects := ct_objects c1 @ [ar_new q],
                   request_results := (request_results c1)(q \<mapsto> ref)\<rparr>
       in Inr (ref, c2\<lparr>ct_loop :=
            Some (put_request q (input_len + out_len) input_len out_len dp)\<rparr>))"

text \<open>
  The two loops of \<open>process_finished_results\<close>. An exception ends the task where it stands:
  the state changed so far stays. (\<open>del_seq\<close> raises at its first statement, before it
  changes anything, when the sequence has no rank.)
\<close>

fun drop_finished :: "nat list \<Rightarrow> controller \<Rightarrow> py_error option \<times> controller" where
  "drop_finished [] c = (None, c)"
| "drop_finished (q # qs) c =
     (if q \<notin> in_flight_reqs c then (Some KeyError, c)
      else let c1 = c\<lparr>in_flight_reqs := in_flight_reqs c - {q}\<rparr>
           in case ct_loop c1 of
                None \<Rightarrow> (Some AssertionError, c1)
              | Some dp \<Rightarrow>
                  (case del_seq q (sched dp) of
                     Inl e \<Rightarrow> (Some e, c1)
                   | Inr s \<Rightarrow> drop_finished qs
                       (c1\<lparr>ct_loop := Some (dp\<lparr>sched := s, sch_event := True\<rparr>)\<rparr>)))"

fun deliver_results :: "slo_stat list \<Rightarrow> controller \<Rightarrow> py_error option \<times> controller" where
  "deliver_results [] c = (None, c)"
| "deliver_results (r # rs) c =
     (case request_results c (sl_req_id r) of
        None \<Rightarrow> (Some KeyError, c)
      | Some ref \<Rightarrow>
          let (ts, a) = ar_put r (ct_objects c ! ref)
          in deliver_results rs
               (c\<lparr>ct_objects := (ct_objects c)[ref := a],
                  ct_woken := ct_woken c @ map (\<lambda>t. (t, ref)) ts,
                  request_results := (request_results c)(sl_req_id r := None)\<rparr>))"

definition process_finished_results ::
  "slo_stat list \<Rightarrow> controller \<Rightarrow> py_error option \<times> controller" where
  "process_finished_results results c =
     (if ct_loop c = None then (Some AssertionError, c)
      else case drop_finished (map sl_req_id results) c of
             (Some e, c1) \<Rightarrow> (Some e, c1)
           | (None, c1) \<Rightarrow> deliver_results results c1)"

definition run_task :: "controller \<Rightarrow> controller option" where
  "run_task c =
     (case ct_tasks c of
        [] \<Rightarrow> None
      | rs # ts \<Rightarrow>
          (case process_finished_results rs (c\<lparr>ct_tasks := ts\<rparr>) of
             (None, c1) \<Rightarrow> Some c1
           | (Some e, c1) \<Rightarrow> Some (c1\<lparr>ct_failed := ct_failed c1 @ [e]\<rparr>)))"

text \<open>One round of \<open>poll_finished_results\<close>; \<open>order\<close> is the order in which a set is iterated.\<close>

definition poll_results :: "(nat set \<Rightarrow> nat list) \<Rightarrow> controller \<Rightarrow> controller" where
  "poll_results order c =
     (case fetch_finished_results order (ct_detok c) of
        Inl e \<Rightarrow> c\<lparr>ct_failed := ct_failed c @ [e]\<rparr>
      | Inr (rs, d) \<Rightarrow>
          (let c1 = c\<lparr>ct_detok := d\<rparr>
           in if rs \<noteq> [] then c1\<lparr>ct_tasks := ct_tasks c1 @ [rs]\<rparr> else c1))"

text \<open>
  A step of the scheduler's loop. The requests it submits are calls of the tokenizer, in
  order; an exception there is not seen by the scheduler.
\<close>

definition loop_advance :: "real \<Rightarrow> loop_event \<Rightarrow> controller \<Rightarrow> controller option" where
  "loop_advance now e c =
     (case ct_loop c of
        None \<Rightarrow> None
      | Some dp \<Rightarrow>
          (case loop_step e dp of
             None \<Rightarrow> None
           | Some dp' \<Rightarrow>
               let c1 = c\<lparr>ct_loop := Some dp'\<rparr>
               in (case foldR (\<lambda>(x, rank). tokenizer_put now (req_id x) (prefill_len x) (output_len x) rank)
                       (drop (length (submitted dp)) (submitted dp')) (ct_tokenizer c1) of
                     Inl e \<Rightarrow> Some (c1\<lparr>ct_failed := ct_failed c1 @ [e]\<rparr>)
                   | Inr t \<Rightarrow> Some (c1\<lparr>ct_tokenizer := t\<rparr>))))"

text \<open>
  \<open>reset\<close>: the workers are reset as well (their block managers forget all sequences); the
  scheduler is not.
\<close>

definition controller_reset :: "controller \<Rightarrow> controller" where
  "controller_reset c =
     c\<lparr>in_flight_reqs := {}, request_results := Map.empty, ct_detok := detok_reset (ct_detok c)\<rparr>"

section \<open>Runs\<close>

datatype ctl_event =
    CPut int int
  | CGet nat nat
  | CLoopGet
  | CLoopResume real
  | CStop
  | CDecode int batch_decode_result
  | CPoll
  | CTask
  | CResume
  | CReset

fun ctl_step :: "(nat set \<Rightarrow> nat list) \<Rightarrow> ctl_event \<Rightarrow> controller \<Rightarrow> controller option" where
  "ctl_step order (CPut n m) c =
     (case put_single_request n m c of Inl e \<Rightarrow> None | Inr (_, c') \<Rightarrow> Some c')"
| "ctl_step order (CGet t ref) c =
     (if ref < length (ct_objects c)
      then Some (c\<lparr>ct_objects := (ct_objects c)[ref := ar_wait t (ct_objects c ! ref)]\<rparr>)
      else None)"
| "ctl_step order CLoopGet c = loop_advance 0 EGet c"
| "ctl_step order (CLoopResume now) c = loop_advance now EResume c"
| "ctl_step order CStop c = loop_advance 0 ETerminate c"
| "ctl_step order (CDecode now b) c =
     (case process_batch now b (ct_detok c) of
        Inl e \<Rightarrow> Some (c\<lparr>ct_failed := ct_failed c @ [e]\<rparr>)
      | Inr d \<Rightarrow> Some (c\<lparr>ct_detok := d\<rparr>))"
| "ctl_step order CPoll c = Some (poll_results order c)"
| "ctl_step order CTask c = run_task c"
| "ctl_step order CResume c =
     (case ct_woken c of
        [] \<Rightarrow> None
      | (t, ref) # ws \<Rightarrow>
          Some (c\<lparr>ct_woken := ws,
                  ct_returned := ct_returned c @ [(t, ref, ar_resume (ct_objects c ! ref))]\<rparr>))"
| "ctl_step order CReset c = Some (controller_reset c)"

fun ctl_run :: "(nat set \<Rightarrow> nat list) \<Rightarrow> ctl_event list \<Rightarrow> controller \<Rightarrow> controller option" where
  "ctl_run order [] c = Some c"
| "ctl_run order (e # es) c =
     (case ctl_step order e c of None \<Rightarrow> None | Some c' \<Rightarrow> ctl_run order es c')"

text \<open>
  What the model relies on from outside: lengths are not negative, and the workers send back
  tokens of requests they were given and have not ended, one token per request and batch.
  \<open>in_tasks\<close>: the requests whose record was fetched and not yet handled.
\<close>

definition in_tasks :: "controller \<Rightarrow> nat list" where
  "in_tasks c = map sl_req_id (concat (ct_tasks c))"

fun env_ok :: "ctl_event \<Rightarrow> controller \<Rightarrow> bool" where
  "env_ok (CPut n m) c \<longleftrightarrow> 0 \<le> n \<and> 0 \<le> m"
| "env_ok (CDecode now b) c \<longleftrightarrow>
     (case ct_loop c of
        None \<Rightarrow> False
      | Some dp \<Rightarrow> distinct (dr_req_ids b) \<and> length (dr_is_eos b) = length (dr_req_ids b) \<and>
          (\<forall>q \<in> set (dr_req_ids b). seq_ranks (sched dp) q \<noteq> None \<and>
             q \<notin> finished_seqs (ct_detok c) \<and> q \<notin> set (in_tasks c)))"
| "env_ok CReset c \<longleftrightarrow> False"
| "env_ok _ c \<longleftrightarrow> True"

fun env_run :: "(nat set \<Rightarrow> nat list) \<Rightarrow> ctl_event list \<Rightarrow> controller \<Rightarrow> bool" where
  "env_run order [] c \<longleftrightarrow> True"
| "env_run order (e # es) c \<longleftrightarrow> env_ok e c \<and>
     (case ctl_step order e c of None \<Rightarrow> True | Some c' \<Rightarrow> env_run order es c')"

fun put_count :: "ctl_event list \<Rightarrow> nat" where
  "put_count [] = 0"
| "put_count (CPut n m # es) = Suc (put_count es)"
| "put_count (_ # es) = put_count es"


section \<open>The scheduler's part\<close>

definition ids :: "dp_loop \<Rightarrow> nat set" where
  "ids dp = req_id ` set (pending dp)"

text \<open>\<open>known dp\<close>: the requests the scheduler knows, waiting or running.\<close>

definition known :: "dp_loop \<Rightarrow> nat set" where
  "known dp = dom (seq_ranks (sched dp)) \<union> ids dp"

definition loop_ok :: "int list \<Rightarrow> dp_loop \<Rightarrow> bool" where
  "loop_ok cap dp \<longleftrightarrow> ledger_inv cap (sched dp) \<and>
     fresh_ids (seq_ranks (sched dp)) (pending dp) \<and> (\<forall>err. phase dp \<noteq> Crashed err)"

lemma loop_ok_step:
  assumes "loop_ok cap dp" and "loop_step e dp = Some dp'" and "puts [e] = []"
  shows "loop_ok cap dp'"
proof -
  have f: "fresh dp [e]" using assms(1,3) by (simp add: loop_ok_def fresh_def)
  have li: "ledger_inv cap (sched dp)" using assms(1) by (simp add: loop_ok_def)
  from loop_step_inv [OF assms(2) li f] loop_step_no_crash [OF assms(2) li f] assms(1)
  show ?thesis by (simp add: loop_ok_def fresh_def)
qed

text \<open>What one attempt to submit a request does to the sets of requests.\<close>

lemma try_submit_known:
  assumes "ledger_inv cap (sched t)" and "req_id x \<notin> dom (seq_ranks (sched t))" and "item_ok x"
  shows "\<exists>new. submitted (try_submit x t) = submitted t @ new \<and>
    (\<forall>(y, r) \<in> set new. 0 \<le> r \<and> r < int (dp_size (sched t))) \<and>
    dom (seq_ranks (sched t)) \<subseteq> dom (seq_ranks (sched (try_submit x t))) \<and>
    dp_size (sched (try_submit x t)) = dp_size (sched t) \<and>
    known (try_submit x t) = insert (req_id x) (dom (seq_ranks (sched t)) \<union> req_id ` set (waiting_queue t))"
proof -
  obtain rank s' where li: "ledger_inv cap s'" and
    d: "if rank < 0 then seq_ranks s' = seq_ranks (sched t) \<and>
         try_submit x t = t\<lparr>sched := s', phase := Blocked x\<rparr>
     else nat rank < dp_size s' \<and> seq_ranks s' = (seq_ranks (sched t))(req_id x \<mapsto> nat rank) \<and>
         try_submit x t = t\<lparr>sched := s', submitted := submitted t @ [(x, rank)],
            phase := (if end_event t then Finished else Waiting)\<rparr>"
    using try_submit_cases [OF assms] by blast
  have dp: "dp_size s' = dp_size (sched t)"
    using li assms(1) by (simp add: ledger_inv_def)
  show ?thesis
  proof (cases "rank < 0")
    case True
    then show ?thesis using d dp
      by (intro exI [of _ "[]"]) (auto simp: known_def ids_def pending_def)
  next
    case False
    then show ?thesis using d dp
      by (intro exI [of _ "[(x, rank)]"]) (auto simp: known_def ids_def pending_def)
  qed
qed

lemma loop_step_known:
  assumes "loop_ok cap dp" and st: "loop_step e dp = Some dp'" and "e \<in> {EGet, EResume, ETerminate}"
  shows "\<exists>new. submitted dp' = submitted dp @ new \<and>
    (\<forall>(y, r) \<in> set new. 0 \<le> r \<and> r < int (dp_size (sched dp))) \<and>
    dom (seq_ranks (sched dp)) \<subseteq> dom (seq_ranks (sched dp')) \<and>
    dp_size (sched dp') = dp_size (sched dp) \<and>
    known dp' \<subseteq> known dp \<and> (live (phase dp') \<longrightarrow> known dp' = known dp \<and> live (phase dp))"
proof -
  have li: "ledger_inv cap (sched dp)" and fr: "fresh_ids (seq_ranks (sched dp)) (pending dp)"
    using assms(1) by (auto simp: loop_ok_def)
  have submit: ?thesis if ph: "phase_items (phase dp) = [x]" and live: "live (phase dp)"
      and t: "dp' = try_submit x t" "sched t = sched dp" "waiting_queue t = waiting_queue dp"
        "submitted t = submitted dp" for x t
  proof -
    have "req_id x \<notin> dom (seq_ranks (sched t))" "item_ok x" "ledger_inv cap (sched t)"
      using fr ph t(2) li by (auto simp: fresh_ids_def pending_def)
    note k = try_submit_known [OF this(3,1,2)]
    have "known dp = insert (req_id x) (dom (seq_ranks (sched t)) \<union> req_id ` set (waiting_queue t))"
      using ph t(2,3) by (auto simp: known_def ids_def pending_def)
    then show ?thesis using live unfolding t(1) t(2) [symmetric] t(4) [symmetric]
      by (intro ex_mono [rule_format, OF _ k]) simp
  qed
  from assms(3) consider "e = EGet" | "e = EResume" | "e = ETerminate" by blast
  then show ?thesis
  proof cases
    case 1
    then obtain x q where "phase dp = Waiting" "waiting_queue dp = x # q"
        "dp' = dp\<lparr>waiting_queue := q, phase := Got x\<rparr>"
      using st by (auto split: loop_phase.splits list.splits)
    then show ?thesis by (intro exI [of _ "[]"]) (simp add: known_def ids_def pending_def)
  next
    case 2
    show ?thesis
    proof (cases "phase dp")
      case (Taken x)
      then show ?thesis using st 2 by (intro submit [of x dp]) auto
    next
      case (Blocked x)
      then show ?thesis using st 2
        by (intro submit [of x "dp\<lparr>sch_event := False\<rparr>"]) (auto split: if_splits)
    qed (use st 2 in \<open>auto intro!: exI [of _ "[]"] simp: known_def ids_def pending_def split: if_splits\<close>)
  next
    case 3
    then show ?thesis using st
      by (intro exI [of _ "[]"]) (auto simp: known_def ids_def pending_def)
  qed
qed

lemma tokenizer_puts:
  assumes "\<forall>(y, r) \<in> set new. 0 \<le> r \<and> r < int (length (worker_queues t))"
  shows "\<exists>t'. foldR (\<lambda>(x, rank). tokenizer_put now (req_id x) (prefill_len x) (output_len x) rank) new t
      = Inr t' \<and> length (worker_queues t') = length (worker_queues t)"
proof -
  let ?f = "\<lambda>(x, rank). tokenizer_put now (req_id x) (prefill_len x) (output_len x) rank"
  let ?n = "length (worker_queues t)"
  have put: "\<exists>t'. ?f xr u = Inr t' \<and> length (worker_queues t') = ?n"
    if "xr \<in> set new" "length (worker_queues u) = ?n" for xr u
  proof -
    obtain x r where xr: "xr = (x, r)" by (cases xr)
    have "0 \<le> r" "nat r < length (worker_queues u)" using that assms xr by auto
    then show ?thesis using that(2) xr
      by (simp add: tokenizer_put_def Let_def py_get_def py_set_def py_pos_def)
  qed
  show ?thesis using foldR_total [of "\<lambda>u. length (worker_queues u) = ?n" t new ?f] put by auto
qed


section \<open>Handling finished requests\<close>

lemma drop_finished_spec:
  assumes "ct_loop c = Some dp" and "loop_ok cap dp" and "distinct qs"
    and "set qs \<subseteq> dom (seq_ranks (sched dp))" and "set qs \<subseteq> in_flight_reqs c"
  shows "\<exists>dp'. drop_finished qs c =
      (None, c\<lparr>in_flight_reqs := in_flight_reqs c - set qs, ct_loop := Some dp'\<rparr>) \<and>
    loop_ok cap dp' \<and> seq_ranks (sched dp') = seq_ranks (sched dp) |` (- set qs) \<and>
    pending dp' = pending dp \<and> phase dp' = phase dp \<and> dp_size (sched dp') = dp_size (sched dp)"
  using assms
proof (induction qs arbitrary: c dp)
  case Nil
  then show ?case by (intro exI [of _ dp]) (simp add: restrict_map_def)
next
  case (Cons q qs)
  define s where "s = sched dp"
  have li: "ledger_inv cap (sched dp)" using Cons.prems(2) by (simp add: loop_ok_def)
  obtain r where r: "seq_ranks (sched dp) q = Some r" using Cons.prems(4) by auto
  obtain s' where del: "del_seq q (sched dp) = Inr s'"
    and sr: "seq_ranks s' = (seq_ranks (sched dp))(q := None)" "dp_size s' = dp_size (sched dp)"
    using del_seq_eq [OF li r] by simp
  define dp1 where "dp1 = dp\<lparr>sched := s', sch_event := True\<rparr>"
  define c1 where "c1 = c\<lparr>in_flight_reqs := in_flight_reqs c - {q}, ct_loop := Some dp1\<rparr>"
  have "loop_step (EDel q) dp = Some dp1" by (simp add: del dp1_def)
  then have ok1: "loop_ok cap dp1" by (rule loop_ok_step [OF Cons.prems(2)]) simp
  have pre: "set qs \<subseteq> dom (seq_ranks (sched dp1))" "set qs \<subseteq> in_flight_reqs c1" "distinct qs"
    "ct_loop c1 = Some dp1"
    using Cons.prems(3-5) sr by (auto simp: dp1_def c1_def)
  have step: "drop_finished (q # qs) c = drop_finished qs c1"
    using Cons.prems(1,5) del by (simp add: c1_def dp1_def)
  obtain dp' where d: "drop_finished qs c1 =
        (None, c1\<lparr>in_flight_reqs := in_flight_reqs c1 - set qs, ct_loop := Some dp'\<rparr>)"
      "loop_ok cap dp'" "seq_ranks (sched dp') = seq_ranks (sched dp1) |` (- set qs)"
      "pending dp' = pending dp1" "phase dp' = phase dp1" "dp_size (sched dp') = dp_size (sched dp1)"
    using Cons.IH [OF pre(4) ok1 pre(3,1,2)] by blast
  have "in_flight_reqs c1 - set qs = in_flight_reqs c - set (q # qs)" by (auto simp: c1_def)
  moreover have "seq_ranks (sched dp1) |` (- set qs) = seq_ranks (sched dp) |` (- set (q # qs))"
    using sr by (auto simp: dp1_def restrict_map_def fun_eq_iff)
  ultimately show ?case using d step sr(2)
    by (intro exI [of _ dp']) (simp add: c1_def dp1_def pending_def)
qed

text \<open>
  The part of the clients: a result that is still in the table is empty and belongs to its
  request, a result that is filled holds the record of its own request, and the clients that
  were woken or have returned saw such a record.
\<close>

definition clients_ok :: "controller \<Rightarrow> bool" where
  "clients_ok c \<longleftrightarrow>
     (\<forall>q ref. request_results c q = Some ref \<longrightarrow> ref < length (ct_objects c) \<and>
        ar_req_id (ct_objects c ! ref) = q \<and> ar_slo_stat (ct_objects c ! ref) = None) \<and>
     (\<forall>ref < length (ct_objects c). ar_slo_stat (ct_objects c ! ref) = None \<longrightarrow>
        request_results c (ar_req_id (ct_objects c ! ref)) = Some ref) \<and>
     (\<forall>ref < length (ct_objects c). \<forall>s. ar_slo_stat (ct_objects c ! ref) = Some s \<longrightarrow>
        sl_req_id s = ar_req_id (ct_objects c ! ref)) \<and>
     (\<forall>(t, ref) \<in> set (ct_woken c). ref < length (ct_objects c) \<and>
        ar_slo_stat (ct_objects c ! ref) \<noteq> None) \<and>
     (\<forall>(t, ref, r) \<in> set (ct_returned c). ref < length (ct_objects c) \<and>
        (\<exists>s. r = Inr s \<and> sl_req_id s = ar_req_id (ct_objects c ! ref)))"

lemma clients_ok_new:
  assumes "clients_ok c" and "request_results c q = None"
  shows "clients_ok (c\<lparr>ct_objects := ct_objects c @ [ar_new q],
     request_results := (request_results c)(q \<mapsto> length (ct_objects c))\<rparr>)" (is "clients_ok ?c")
proof -
  note parts = assms(1) [unfolded clients_ok_def]
  note tab = parts [THEN conjunct1] and full = parts [THEN conjunct2, THEN conjunct1]
    and own = parts [THEN conjunct2, THEN conjunct2, THEN conjunct1]
    and wok = parts [THEN conjunct2, THEN conjunct2, THEN conjunct2, THEN conjunct1]
    and ret = parts [THEN conjunct2, THEN conjunct2, THEN conjunct2, THEN conjunct2]
  define n where "n = length (ct_objects c)"
  have old: "(ct_objects c @ [ar_new q]) ! i = ct_objects c ! i" if "i < n" for i
    using that by (simp add: nth_append n_def)
  have last: "(ct_objects c @ [ar_new q]) ! n = ar_new q" by (simp add: n_def)
  show ?thesis unfolding clients_ok_def
  proof (intro conjI allI impI)
    fix q' ref assume h: "request_results ?c q' = Some ref"
    show "ref < length (ct_objects ?c)" "ar_req_id (ct_objects ?c ! ref) = q'"
      "ar_slo_stat (ct_objects ?c ! ref) = None"
      using h tab old last by (cases "q' = q"; fastforce simp: n_def ar_new_def)+
  next
    fix ref assume h: "ref < length (ct_objects ?c)" "ar_slo_stat (ct_objects ?c ! ref) = None"
    have "ref < n \<or> ref = n" using h(1) by (auto simp: n_def)
    then show "request_results ?c (ar_req_id (ct_objects ?c ! ref)) = Some ref"
    proof
      assume r: "ref < n"
      then have "request_results c (ar_req_id (ct_objects c ! ref)) = Some ref"
        using h(2) full old by (simp add: n_def)
      then show ?thesis using assms(2) old [OF r] by auto
    qed (use last in \<open>simp add: ar_new_def n_def\<close>)
  next
    fix ref s assume h: "ref < length (ct_objects ?c)" "ar_slo_stat (ct_objects ?c ! ref) = Some s"
    have "ref < n \<or> ref = n" using h(1) by (auto simp: n_def)
    then show "sl_req_id s = ar_req_id (ct_objects ?c ! ref)"
    proof
      assume r: "ref < n"
      then show ?thesis using h(2) own old [OF r] by (simp add: n_def)
    qed (use h(2) last in \<open>simp add: ar_new_def n_def\<close>)
  next
    show "\<forall>(t, i) \<in> set (ct_woken ?c). i < length (ct_objects ?c) \<and> ar_slo_stat (ct_objects ?c ! i) \<noteq> None"
      using wok old by (fastforce simp: n_def)
    show "\<forall>(t, i, x) \<in> set (ct_returned ?c). i < length (ct_objects ?c) \<and>
        (\<exists>s. x = Inr s \<and> sl_req_id s = ar_req_id (ct_objects ?c ! i))"
      using ret old by (fastforce simp: n_def)
  qed
qed

lemma clients_ok_deliver:
  assumes "clients_ok c" and "request_results c q = Some ref" and "sl_req_id r = q"
    and "set ts \<subseteq> {(t, ref) | t. True}"
    and "ar_req_id a = ar_req_id (ct_objects c ! ref)" and "ar_slo_stat a = Some r"
  shows "clients_ok (c\<lparr>ct_objects := (ct_objects c)[ref := a], ct_woken := ct_woken c @ ts,
     request_results := (request_results c)(q := None)\<rparr>)" (is "clients_ok ?c")
proof -
  note parts = assms(1) [unfolded clients_ok_def]
  note tab = parts [THEN conjunct1] and full = parts [THEN conjunct2, THEN conjunct1]
    and own = parts [THEN conjunct2, THEN conjunct2, THEN conjunct1]
    and wok = parts [THEN conjunct2, THEN conjunct2, THEN conjunct2, THEN conjunct1]
    and ret = parts [THEN conjunct2, THEN conjunct2, THEN conjunct2, THEN conjunct2]
  have ref: "ref < length (ct_objects c)" "ar_req_id (ct_objects c ! ref) = q"
    using tab assms(2) by blast+
  define objs where "objs = (ct_objects c)[ref := a]"
  have nth: "objs ! i = (if i = ref then a else ct_objects c ! i)"
    if "i < length (ct_objects c)" for i using that by (simp add: objs_def nth_list_update)
  have len: "length objs = length (ct_objects c)" by (simp add: objs_def)
  have ids: "ar_req_id (objs ! i) = ar_req_id (ct_objects c ! i)" if "i < length (ct_objects c)" for i
    using nth [OF that] assms(5) by simp
  have "ref' < length (ct_objects c) \<and> ar_req_id (objs ! ref') = q' \<and> ar_slo_stat (objs ! ref') = None"
    if "((request_results c)(q := None)) q' = Some ref'" for q' ref'
  proof -
    have q': "q' \<noteq> q" "request_results c q' = Some ref'" using that by (auto split: if_splits)
    then have t: "ref' < length (ct_objects c)" "ar_req_id (ct_objects c ! ref') = q'"
        "ar_slo_stat (ct_objects c ! ref') = None" using tab by blast+
    then have "ref' \<noteq> ref" using q'(1) ref(2) by auto
    then show ?thesis using t nth by simp
  qed
  moreover have "((request_results c)(q := None)) (ar_req_id (objs ! i)) = Some i"
    if "i < length (ct_objects c)" "ar_slo_stat (objs ! i) = None" for i
  proof -
    have i: "i \<noteq> ref" using that nth assms(6) by auto
    then have "request_results c (ar_req_id (ct_objects c ! i)) = Some i"
      using full that nth by auto
    moreover from this have "ar_req_id (ct_objects c ! i) \<noteq> q" using assms(2) i by auto
    ultimately show ?thesis using ids [OF that(1)] by simp
  qed
  moreover have "sl_req_id s = ar_req_id (objs ! i)"
    if "i < length (ct_objects c)" "ar_slo_stat (objs ! i) = Some s" for i s
    using that own nth [OF that(1)] assms(3,5,6) ref by (cases "i = ref") auto
  moreover have "\<forall>(t, i) \<in> set (ct_woken c @ ts). i < length (ct_objects c) \<and> ar_slo_stat (objs ! i) \<noteq> None"
  proof -
    have "i < length (ct_objects c) \<and> ar_slo_stat (objs ! i) \<noteq> None" if "(t, i) \<in> set (ct_woken c)" for t i
      using wok that nth [of i] assms(6) by (cases "i = ref") auto
    moreover have "i < length (ct_objects c) \<and> ar_slo_stat (objs ! i) \<noteq> None" if "(t, i) \<in> set ts" for t i
      using that assms(4,6) ref nth [of i] by auto
    ultimately show ?thesis by auto
  qed
  moreover have "\<forall>(t, i, x) \<in> set (ct_returned c). i < length (ct_objects c) \<and>
      (\<exists>s. x = Inr s \<and> sl_req_id s = ar_req_id (objs ! i))"
    using ret ids by fastforce
  ultimately show ?thesis unfolding clients_ok_def by (simp add: objs_def)
qed

lemma deliver_results_spec:
  assumes "clients_ok c" and "distinct (map sl_req_id rs)"
    and "sl_req_id ` set rs \<subseteq> dom (request_results c)"
  shows "\<exists>objs w. deliver_results rs c = (None, c\<lparr>ct_objects := objs, ct_woken := w,
      request_results := request_results c |` (- sl_req_id ` set rs)\<rparr>) \<and>
    clients_ok (c\<lparr>ct_objects := objs, ct_woken := w,
      request_results := request_results c |` (- sl_req_id ` set rs)\<rparr>) \<and>
    length objs = length (ct_objects c)"
  using assms
proof (induction rs arbitrary: c)
  case Nil
  then show ?case
    by (intro exI [of _ "ct_objects c"] exI [of _ "ct_woken c"]) (simp add: restrict_map_def)
next
  case (Cons r rs)
  obtain ref where ref: "request_results c (sl_req_id r) = Some ref" using Cons.prems(3) by auto
  define a where "a = snd (ar_put r (ct_objects c ! ref))"
  define ts where "ts = map (\<lambda>t. (t, ref)) (fst (ar_put r (ct_objects c ! ref)))"
  define c1 where "c1 = c\<lparr>ct_objects := (ct_objects c)[ref := a], ct_woken := ct_woken c @ ts,
      request_results := (request_results c)(sl_req_id r := None)\<rparr>"
  have ok1: "clients_ok c1" unfolding c1_def
    by (rule clients_ok_deliver [OF Cons.prems(1) ref refl]) (auto simp: ts_def a_def ar_put_def)
  have step: "deliver_results (r # rs) c = deliver_results rs c1"
    by (simp add: ref c1_def a_def ts_def split: prod.split)
  have "sl_req_id r \<notin> sl_req_id ` set rs" using Cons.prems(2) by simp
  then have "distinct (map sl_req_id rs)" "sl_req_id ` set rs \<subseteq> dom (request_results c1)"
    using Cons.prems(2,3) by (auto simp: c1_def image_iff)
  from Cons.IH [OF ok1 this] obtain objs w where d: "deliver_results rs c1 = (None, c1\<lparr>ct_objects := objs,
        ct_woken := w, request_results := request_results c1 |` (- sl_req_id ` set rs)\<rparr>)"
    "clients_ok (c1\<lparr>ct_objects := objs, ct_woken := w,
        request_results := request_results c1 |` (- sl_req_id ` set rs)\<rparr>)"
    "length objs = length (ct_objects c1)" by blast
  have "request_results c1 |` (- sl_req_id ` set rs)
      = request_results c |` (- sl_req_id ` set (r # rs))"
    by (auto simp: c1_def restrict_map_def fun_eq_iff)
  then show ?case using d step
    by (intro exI [of _ objs] exI [of _ w]) (simp add: c1_def)
qed


section \<open>The invariant of the controller\<close>

text \<open>Every record of the detokenizer is filed under its own request.\<close>

definition own_keys :: "detok \<Rightarrow> bool" where
  "own_keys d \<longleftrightarrow> (\<forall>q s. slo_stats d q = Some s \<longrightarrow> sl_req_id s = q)"

lemma own_keys_token: "own_keys d \<Longrightarrow> own_keys (detok_token t q d)"
  by (auto simp: own_keys_def detok_token_slo split: option.splits)

lemma own_keys_eos: "own_keys d \<Longrightarrow> detok_eos t p d = Inr d' \<Longrightarrow> own_keys d'"
  by (auto simp: own_keys_def detok_eos_def post_process_def split: prod.splits if_splits option.splits)

lemma own_keys_batch:
  assumes "own_keys d" and "process_batch t b d = Inr d'"
  shows "own_keys d'"
proof -
  have fold: "own_keys (fold (detok_token t) qs e)" if "own_keys e" for qs e
    using that by (induction qs arbitrary: e) (simp_all add: own_keys_token)
  define d1 where "d1 = fold (detok_token t) (dr_req_ids b)
      (fst (detok_log t (d\<lparr>token_processed := token_processed d + int (length (dr_req_ids b))\<rparr>)))"
  define d2 where "d2 = d1\<lparr>step_infos := step_infos d1 @
      [\<lparr>ss_num_tokens = length (dr_req_ids b), ss_time_stamp = t\<rparr>]\<rparr>"
  have "own_keys d1" unfolding d1_def using assms(1) by (intro fold) (simp add: own_keys_def)
  then have start: "own_keys d2" by (simp add: own_keys_def d2_def)
  have run: "foldR (\<lambda>i d. bindR (py_get (dr_is_eos b) (int i))
      (\<lambda>e. detok_eos t (dr_req_ids b ! i, e) d)) [0..<length (dr_req_ids b)] d2 = Inr d'"
    using assms(2) by (simp add: process_batch_def Let_def d1_def d2_def)
  show ?thesis
    by (rule foldR_invariant [OF run, where I = own_keys])
      (use start in \<open>auto simp: res intro: own_keys_eos\<close>)
qed

definition loop_part :: "int list \<Rightarrow> controller \<Rightarrow> dp_loop \<Rightarrow> bool" where
  "loop_part cap c dp \<longleftrightarrow> ct_loop c = Some dp \<and> loop_ok cap dp \<and>
     known dp \<subseteq> in_flight_reqs c \<and> (live (phase dp) \<longrightarrow> in_flight_reqs c \<subseteq> known dp) \<and>
     length (worker_queues (ct_tokenizer c)) = dp_size (sched dp)"

definition detok_part :: "controller \<Rightarrow> nat set \<Rightarrow> bool" where
  "detok_part c R \<longleftrightarrow> detok_inv (ct_detok c) \<and> own_keys (ct_detok c) \<and>
     dom (slo_stats (ct_detok c)) \<subseteq> R \<and> set (in_tasks c) \<subseteq> R \<and> distinct (in_tasks c) \<and>
     dom (slo_stats (ct_detok c)) \<inter> set (in_tasks c) = {}"

definition ids_part :: "nat \<Rightarrow> controller \<Rightarrow> bool" where
  "ids_part n c \<longleftrightarrow> cn_step (req_id_generator c) = 1 \<and> cn_end (req_id_generator c) = 2000000000 \<and>
     0 \<le> cn_counter (req_id_generator c) \<and>
     cn_counter (req_id_generator c) + int n < 2000000000 \<and>
     (\<forall>q \<in> in_flight_reqs c. int q < cn_counter (req_id_generator c))"

definition ct_inv :: "int list \<Rightarrow> nat \<Rightarrow> controller \<Rightarrow> bool" where
  "ct_inv cap n c \<longleftrightarrow>
     (\<exists>dp. loop_part cap c dp \<and> detok_part c (dom (seq_ranks (sched dp)))) \<and>
     ids_part n c \<and> clients_ok c \<and> dom (request_results c) = in_flight_reqs c \<and> ct_failed c = []"

lemma ct_invE:
  assumes "ct_inv cap n c"
  obtains dp where "loop_part cap c dp" "detok_part c (dom (seq_ranks (sched dp)))" "ids_part n c"
    "clients_ok c" "dom (request_results c) = in_flight_reqs c" "ct_failed c = []"
  using assms unfolding ct_inv_def by blast

lemma ct_invI:
  "loop_part cap c dp \<Longrightarrow> detok_part c (dom (seq_ranks (sched dp))) \<Longrightarrow> ids_part n c \<Longrightarrow>
   clients_ok c \<Longrightarrow> dom (request_results c) = in_flight_reqs c \<Longrightarrow> ct_failed c = [] \<Longrightarrow>
   ct_inv cap n c"
  unfolding ct_inv_def by blast

lemma clients_ok_fields:
  "ct_objects c' = ct_objects c \<Longrightarrow> ct_woken c' = ct_woken c \<Longrightarrow> ct_returned c' = ct_returned c \<Longrightarrow>
   request_results c' = request_results c \<Longrightarrow> clients_ok c' = clients_ok c"
  unfolding clients_ok_def by simp

lemma ids_part_fields:
  "req_id_generator c' = req_id_generator c \<Longrightarrow> in_flight_reqs c' \<subseteq> in_flight_reqs c \<Longrightarrow>
   ids_part n c \<Longrightarrow> ids_part n c'"
  unfolding ids_part_def by auto

lemma detok_part_fields:
  "ct_detok c' = ct_detok c \<Longrightarrow> ct_tasks c' = ct_tasks c \<Longrightarrow> R \<subseteq> R' \<Longrightarrow>
   detok_part c R \<Longrightarrow> detok_part c' R'"
  unfolding detok_part_def in_tasks_def by (metis subset_trans)

lemma inv_put:
  assumes "ct_inv cap (Suc n) c" and "0 \<le> p" and "0 \<le> out"
  shows "\<exists>c'. put_single_request p out c = Inr (length (ct_objects c), c') \<and> ct_inv cap n c'"
proof -
  obtain dp where lp: "loop_part cap c dp" and dt: "detok_part c (dom (seq_ranks (sched dp)))"
    and ip: "ids_part (Suc n) c" and cl: "clients_ok c"
    and tab: "dom (request_results c) = in_flight_reqs c" and nf: "ct_failed c = []"
    using assms(1) by (rule ct_invE)
  define q where "q = nat (cn_counter (req_id_generator c))"
  define g where "g = snd (counter_next (req_id_generator c))"
  have nx: "counter_next (req_id_generator c) = (int q, g)"
    and g: "cn_step g = 1" "cn_end g = 2000000000" "cn_counter g = int q + 1"
    and q: "int q = cn_counter (req_id_generator c)"
    using ip by (auto simp: ids_part_def counter_next_def Let_def q_def g_def)
  have new: "q \<notin> in_flight_reqs c"
  proof
    assume "q \<in> in_flight_reqs c"
    then have "int q < cn_counter (req_id_generator c)" using ip by (simp add: ids_part_def)
    then show False using ip by (simp add: ids_part_def q_def)
  qed
  define x where "x = \<lparr>req_id = q, seq_len = p + out, prefill_len = p, output_len = out\<rparr>"
  define dp' where "dp' = dp\<lparr>waiting_queue := waiting_queue dp @ [x]\<rparr>"
  define c' where "c' = c\<lparr>req_id_generator := g, in_flight_reqs := insert q (in_flight_reqs c),
     ct_objects := ct_objects c @ [ar_new q],
     request_results := (request_results c)(q \<mapsto> length (ct_objects c)), ct_loop := Some dp'\<rparr>"
  have run: "put_single_request p out c = Inr (length (ct_objects c), c')"
    using lp by (simp add: put_single_request_def loop_part_def get_new_req_id_def nx c'_def
        put_request_def dp'_def x_def Let_def)
  have unknown: "q \<notin> known dp" using new lp by (auto simp: loop_part_def)
  have ok: "loop_ok cap dp'"
    using lp assms(2,3) unknown
    by (auto simp: loop_part_def loop_ok_def dp'_def x_def fresh_ids_def pending_def item_ok_def
        known_def ids_def)
  have kn: "known dp' = insert q (known dp)"
    by (auto simp: known_def ids_def pending_def dp'_def x_def)
  have "loop_part cap c' dp'" using lp ok kn
    by (auto simp: loop_part_def c'_def dp'_def)
  moreover have "detok_part c' (dom (seq_ranks (sched dp')))"
    by (rule detok_part_fields [OF _ _ _ dt]) (simp_all add: c'_def dp'_def)
  moreover have "ids_part n c'" using ip g q by (fastforce simp: ids_part_def c'_def)
  moreover have "clients_ok c'"
    using clients_ok_new [OF cl] new tab
    by (subst clients_ok_fields [of _ "c\<lparr>ct_objects := ct_objects c @ [ar_new q],
        request_results := (request_results c)(q \<mapsto> length (ct_objects c))\<rparr>"])
      (auto simp: c'_def)
  moreover have "dom (request_results c') = in_flight_reqs c'" using tab by (simp add: c'_def)
  moreover have "ct_failed c' = []" using nf by (simp add: c'_def)
  ultimately show ?thesis using run ct_invI by blast
qed


text \<open>The steps that touch only the clients' side.\<close>

lemma inv_clients:
  assumes "ct_inv cap n c" and "ct_loop c' = ct_loop c" "ct_tokenizer c' = ct_tokenizer c"
    "in_flight_reqs c' = in_flight_reqs c" "ct_detok c' = ct_detok c" "ct_tasks c' = ct_tasks c"
    "req_id_generator c' = req_id_generator c" "request_results c' = request_results c"
    "ct_failed c' = ct_failed c" and "clients_ok c \<Longrightarrow> clients_ok c'"
  shows "ct_inv cap n c'"
proof -
  obtain dp where dp: "loop_part cap c dp" "detok_part c (dom (seq_ranks (sched dp)))" "ids_part n c"
    "clients_ok c" "dom (request_results c) = in_flight_reqs c" "ct_failed c = []"
    using assms(1) by (rule ct_invE)
  show ?thesis
    by (rule ct_invI [of _ _ dp])
      (use dp assms in \<open>simp_all add: loop_part_def detok_part_def ids_part_def in_tasks_def\<close>)
qed

lemma inv_get:
  assumes "ct_inv cap n c" and "ref < length (ct_objects c)"
  shows "ct_inv cap n (c\<lparr>ct_objects := (ct_objects c)[ref := ar_wait t (ct_objects c ! ref)]\<rparr>)"
    (is "ct_inv cap n ?c")
proof (rule inv_clients [OF assms(1)])
  assume cl: "clients_ok c"
  have same: "ar_req_id (ct_objects ?c ! i) = ar_req_id (ct_objects c ! i)"
    "ar_slo_stat (ct_objects ?c ! i) = ar_slo_stat (ct_objects c ! i)" for i
    using assms(2) by (cases "i = ref"; simp add: ar_wait_def)+
  show "clients_ok ?c" using cl unfolding clients_ok_def same by simp
qed simp_all

lemma inv_resume:
  assumes "ct_inv cap n c" and "ct_woken c = (t, ref) # ws"
  shows "ct_inv cap n (c\<lparr>ct_woken := ws,
     ct_returned := ct_returned c @ [(t, ref, ar_resume (ct_objects c ! ref))]\<rparr>)" (is "ct_inv cap n ?c")
proof (rule inv_clients [OF assms(1)])
  assume cl: "clients_ok c"
  have ref: "ref < length (ct_objects c)" "ar_slo_stat (ct_objects c ! ref) \<noteq> None"
    using cl assms(2) by (auto simp: clients_ok_def)
  then obtain s where s: "ar_slo_stat (ct_objects c ! ref) = Some s" by blast
  have own: "sl_req_id s = ar_req_id (ct_objects c ! ref)"
    using cl ref(1) s unfolding clients_ok_def by blast
  note parts = cl [unfolded clients_ok_def]
  note tab = parts [THEN conjunct1] and full = parts [THEN conjunct2, THEN conjunct1]
    and rest = parts [THEN conjunct2, THEN conjunct2]
  note wok = rest [THEN conjunct2, THEN conjunct1] and ret = rest [THEN conjunct2, THEN conjunct2]
  have new: "ref < length (ct_objects c) \<and> (\<exists>s. ar_resume (ct_objects c ! ref) = Inr s \<and>
      sl_req_id s = ar_req_id (ct_objects c ! ref))"
    using ref(1) own by (simp add: ar_resume_def s)
  show "clients_ok ?c" unfolding clients_ok_def
  proof (intro conjI)
    show "\<forall>(t, i) \<in> set (ct_woken ?c). i < length (ct_objects ?c) \<and> ar_slo_stat (ct_objects ?c ! i) \<noteq> None"
      using wok assms(2) by simp
    show "\<forall>(t, i, x) \<in> set (ct_returned ?c). i < length (ct_objects ?c) \<and>
        (\<exists>s. x = Inr s \<and> sl_req_id s = ar_req_id (ct_objects ?c ! i))"
      using ret new by simp
  qed (use tab full rest [THEN conjunct1] in simp_all)
qed simp_all

text \<open>A step of the scheduler's loop.\<close>

lemma inv_loop:
  assumes "ct_inv cap n c" and "e \<in> {EGet, EResume, ETerminate}" and "loop_advance now e c = Some c'"
  shows "ct_inv cap n c'"
proof -
  obtain dp where lp: "loop_part cap c dp" and dt: "detok_part c (dom (seq_ranks (sched dp)))"
    and ip: "ids_part n c" and cl: "clients_ok c"
    and tab: "dom (request_results c) = in_flight_reqs c" and nf: "ct_failed c = []"
    using assms(1) by (rule ct_invE)
  have ok: "loop_ok cap dp" and loop: "ct_loop c = Some dp" using lp by (auto simp: loop_part_def)
  obtain dp' where st: "loop_step e dp = Some dp'"
    using assms(3) loop by (auto simp: loop_advance_def split: option.splits)
  obtain new where new: "submitted dp' = submitted dp @ new"
      "\<forall>(y, r) \<in> set new. 0 \<le> r \<and> r < int (dp_size (sched dp))"
    and R: "dom (seq_ranks (sched dp)) \<subseteq> dom (seq_ranks (sched dp'))"
    and size: "dp_size (sched dp') = dp_size (sched dp)"
    and kn: "known dp' \<subseteq> known dp" "live (phase dp') \<longrightarrow> known dp' = known dp \<and> live (phase dp)"
    using loop_step_known [OF ok st assms(2)] by blast
  have ok': "loop_ok cap dp'" by (rule loop_ok_step [OF ok st]) (use assms(2) in auto)
  have len: "length (worker_queues (ct_tokenizer c)) = dp_size (sched dp)"
    using lp by (simp add: loop_part_def)
  obtain t' where t': "foldR (\<lambda>(x, rank). tokenizer_put now (req_id x) (prefill_len x) (output_len x) rank)
      new (ct_tokenizer c) = Inr t'" "length (worker_queues t') = dp_size (sched dp)"
    using tokenizer_puts [of new "ct_tokenizer c" now] new(2) len by auto
  have c': "c' = c\<lparr>ct_loop := Some dp', ct_tokenizer := t'\<rparr>"
    using assms(3) loop st new(1) t'(1) by (simp add: loop_advance_def Let_def)
  show ?thesis
  proof (rule ct_invI [of _ _ dp'])
    show "loop_part cap c' dp'" using lp ok' kn size t'(2) by (auto simp: loop_part_def c')
    show "detok_part c' (dom (seq_ranks (sched dp')))"
      by (rule detok_part_fields [OF _ _ R dt]) (simp_all add: c')
    show "ids_part n c'" by (rule ids_part_fields [OF _ _ ip]) (simp_all add: c')
    show "clients_ok c'" using cl by (subst clients_ok_fields [of _ c]) (simp_all add: c')
  qed (use tab nf in \<open>simp_all add: c'\<close>)
qed

text \<open>Tokens come back, and finished records are fetched.\<close>

lemma inv_detok:
  assumes "ct_inv cap n c" and "ct_loop c = Some dp"
    and "detok_part (c\<lparr>ct_detok := d, ct_tasks := ts\<rparr>) (dom (seq_ranks (sched dp)))"
  shows "ct_inv cap n (c\<lparr>ct_detok := d, ct_tasks := ts\<rparr>)"
proof -
  obtain dp0 where dp: "loop_part cap c dp0" "ids_part n c" "clients_ok c"
    "dom (request_results c) = in_flight_reqs c" "ct_failed c = []"
    using assms(1) by (rule ct_invE)
  then have "dp0 = dp" using assms(2) by (simp add: loop_part_def)
  then show ?thesis using dp assms(3)
    by (intro ct_invI [of _ _ dp]) (simp_all add: loop_part_def ids_part_def clients_ok_def)
qed

lemma inv_decode:
  assumes "ct_inv cap n c" and "env_ok (CDecode now b) c"
  shows "\<exists>d. process_batch now b (ct_detok c) = Inr d \<and> ct_inv cap n (c\<lparr>ct_detok := d\<rparr>)"
proof -
  obtain dp where lp: "loop_part cap c dp" and dt: "detok_part c (dom (seq_ranks (sched dp)))"
    using assms(1) by (rule ct_invE)
  have loop: "ct_loop c = Some dp" using lp by (simp add: loop_part_def)
  have b: "distinct (dr_req_ids b)" "length (dr_is_eos b) = length (dr_req_ids b)"
    "set (dr_req_ids b) \<subseteq> dom (seq_ranks (sched dp))"
    "set (dr_req_ids b) \<inter> finished_seqs (ct_detok c) = {}" "set (dr_req_ids b) \<inter> set (in_tasks c) = {}"
    using assms(2) loop by auto
  obtain d where d: "process_batch now b (ct_detok c) = Inr d" "detok_inv d"
      "dom (slo_stats d) = set (dr_req_ids b) \<union> dom (slo_stats (ct_detok c))"
    using process_batch_inv [of "ct_detok c" b now] dt b by (auto simp: detok_part_def)
  have "own_keys d" using own_keys_batch [OF _ d(1)] dt by (simp add: detok_part_def)
  moreover have "in_tasks (c\<lparr>ct_detok := d, ct_tasks := ct_tasks c\<rparr>) = in_tasks c"
    by (simp add: in_tasks_def)
  moreover have "(set (dr_req_ids b) \<union> dom (slo_stats (ct_detok c))) \<inter> set (in_tasks c) = {}"
    using dt b(5) unfolding detok_part_def by blast
  ultimately have "detok_part (c\<lparr>ct_detok := d, ct_tasks := ct_tasks c\<rparr>) (dom (seq_ranks (sched dp)))"
    using dt d(2,3) b(3) unfolding detok_part_def by simp
  from inv_detok [OF assms(1) loop this] d(1) show ?thesis by simp
qed

lemma inv_poll:
  assumes "ct_inv cap n c" and order: "\<And>S. finite S \<Longrightarrow> distinct (order S) \<and> set (order S) = S"
  shows "ct_inv cap n (poll_results order c)"
proof -
  obtain dp where lp: "loop_part cap c dp" and dt: "detok_part c (dom (seq_ranks (sched dp)))"
    using assms(1) by (rule ct_invE)
  have loop: "ct_loop c = Some dp" using lp by (simp add: loop_part_def)
  let ?d = "ct_detok c" and ?F = "finished_seqs (ct_detok c)"
  have di: "detok_inv ?d" and own: "own_keys ?d" using dt by (auto simp: detok_part_def)
  have sub: "?F \<subseteq> dom (slo_stats ?d)" and fin: "finite ?F"
    using di finite_subset by (auto simp: detok_inv_def)
  define rs where "rs = map (\<lambda>q. the (slo_stats ?d q)) (order ?F)"
  obtain d where d: "fetch_finished_results order ?d = Inr (rs, d)" "detok_inv d"
      "slo_stats d = slo_stats ?d |` (- ?F)"
    using fetch_finished_spec [OF di] order [OF fin] unfolding rs_def by blast
  have id: "sl_req_id (the (slo_stats ?d q)) = q" if "q \<in> ?F" for q
    using that sub own by (force simp: own_keys_def)
  have rid: "map sl_req_id rs = order ?F"
    unfolding rs_def using order [OF fin] id by (auto intro: map_idI)
  define c' where "c' = c\<lparr>ct_detok := d, ct_tasks := (if rs \<noteq> [] then ct_tasks c @ [rs] else ct_tasks c)\<rparr>"
  have poll: "poll_results order c = c'" using d(1) by (simp add: poll_results_def Let_def c'_def)
  have "in_tasks c' = in_tasks c @ order ?F"
    using rid by (auto simp: in_tasks_def c'_def)
  then have T: "set (in_tasks c') = set (in_tasks c) \<union> ?F"
      "distinct (in_tasks c') \<longleftrightarrow> distinct (in_tasks c) \<and> set (in_tasks c) \<inter> ?F = {}"
    using order [OF fin] by auto
  have D: "dom (slo_stats d) = dom (slo_stats ?d) - ?F" using d(3) by auto
  have old: "dom (slo_stats ?d) \<subseteq> dom (seq_ranks (sched dp))" "distinct (in_tasks c)"
    "set (in_tasks c) \<subseteq> dom (seq_ranks (sched dp))" "dom (slo_stats ?d) \<inter> set (in_tasks c) = {}"
    using dt by (simp_all add: detok_part_def)
  have "own_keys d" using own d(3) by (simp add: own_keys_def restrict_map_def)
  moreover have "dom (slo_stats d) \<subseteq> dom (seq_ranks (sched dp))"
    "set (in_tasks c') \<subseteq> dom (seq_ranks (sched dp))" "distinct (in_tasks c')"
    "dom (slo_stats d) \<inter> set (in_tasks c') = {}"
    unfolding T D using old sub by blast+
  moreover have "ct_detok c' = d" by (simp add: c'_def)
  ultimately have "detok_part c' (dom (seq_ranks (sched dp)))"
    using d(2) by (simp add: detok_part_def)
  from inv_detok [OF assms(1) loop this [unfolded c'_def]] show ?thesis
    unfolding poll c'_def .
qed


text \<open>
  A task that handles finished requests runs to its end: each request is known as in flight,
  has a rank in the ledger and a result in the table.
\<close>

lemma inv_task:
  assumes "ct_inv cap n c" and "run_task c = Some c'"
  shows "ct_inv cap n c'"
proof -
  obtain dp where lp: "loop_part cap c dp" and dt: "detok_part c (dom (seq_ranks (sched dp)))"
    and ip: "ids_part n c" and cl: "clients_ok c"
    and tab: "dom (request_results c) = in_flight_reqs c" and nf: "ct_failed c = []"
    using assms(1) by (rule ct_invE)
  obtain rs ts where rs: "ct_tasks c = rs # ts"
    using assms(2) by (auto simp: run_task_def split: list.splits)
  define qs where "qs = map sl_req_id rs"
  define c1 where "c1 = c\<lparr>ct_tasks := ts\<rparr>"
  let ?R = "dom (seq_ranks (sched dp))"
  have loop: "ct_loop c = Some dp" "loop_ok cap dp" "known dp \<subseteq> in_flight_reqs c"
    "live (phase dp) \<longrightarrow> in_flight_reqs c \<subseteq> known dp"
    using lp by (simp_all add: loop_part_def)
  have T: "in_tasks c = qs @ in_tasks c1" by (simp add: in_tasks_def rs qs_def c1_def)
  have qs: "distinct qs" "set qs \<subseteq> ?R" "distinct (in_tasks c1)" "set (in_tasks c1) \<subseteq> ?R"
    "set qs \<inter> set (in_tasks c1) = {}" "dom (slo_stats (ct_detok c)) \<inter> set qs = {}"
    "dom (slo_stats (ct_detok c)) \<inter> set (in_tasks c1) = {}"
    using dt unfolding detok_part_def T by auto
  have inf: "set qs \<subseteq> in_flight_reqs c" using qs(2) loop(3) by (auto simp: known_def)
  obtain dp' where drop: "drop_finished qs c1 =
        (None, c1\<lparr>in_flight_reqs := in_flight_reqs c1 - set qs, ct_loop := Some dp'\<rparr>)"
      and dp': "loop_ok cap dp'" "seq_ranks (sched dp') = seq_ranks (sched dp) |` (- set qs)"
        "pending dp' = pending dp" "phase dp' = phase dp" "dp_size (sched dp') = dp_size (sched dp)"
    using drop_finished_spec [of c1 dp cap qs] loop qs(1,2) inf by (auto simp: c1_def)
  define c2 where "c2 = c1\<lparr>in_flight_reqs := in_flight_reqs c1 - set qs, ct_loop := Some dp'\<rparr>"
  have cl2: "clients_ok c2" using cl
    by (subst clients_ok_fields [of _ c]) (simp_all add: c2_def c1_def)
  have dom2: "sl_req_id ` set rs \<subseteq> dom (request_results c2)"
    using inf tab by (simp add: c2_def c1_def qs_def)
  obtain objs w where del: "deliver_results rs c2 = (None, c2\<lparr>ct_objects := objs, ct_woken := w,
        request_results := request_results c2 |` (- set qs)\<rparr>)"
      "clients_ok (c2\<lparr>ct_objects := objs, ct_woken := w,
        request_results := request_results c2 |` (- set qs)\<rparr>)"
    using deliver_results_spec [OF cl2 qs(1) [unfolded qs_def] dom2] by (auto simp: qs_def)
  define c3 where "c3 = c2\<lparr>ct_objects := objs, ct_woken := w,
        request_results := request_results c2 |` (- set qs)\<rparr>"
  have "process_finished_results rs c1 = (None, c3)"
    using drop del(1) loop(1)
    by (simp add: process_finished_results_def qs_def [symmetric] c1_def c2_def c3_def)
  then have c': "c' = c3" using assms(2) rs by (simp add: run_task_def c1_def)
  have pend: "set qs \<inter> ids dp = {}"
    using loop(2) qs(2) by (fastforce simp: loop_ok_def fresh_ids_def ids_def)
  have kn: "known dp' = known dp - set qs"
    using dp'(2,3) pend by (auto simp: known_def ids_def)
  show ?thesis unfolding c'
  proof (rule ct_invI [of _ _ dp'])
    show "loop_part cap c3 dp'" using lp dp' kn
      by (auto simp: loop_part_def c3_def c2_def c1_def)
    have "ct_detok c3 = ct_detok c" "in_tasks c3 = in_tasks c1"
      by (simp_all add: c3_def c2_def c1_def in_tasks_def)
    moreover have "dom (seq_ranks (sched dp')) = ?R - set qs" using dp'(2) by auto
    moreover have "dom (slo_stats (ct_detok c)) \<subseteq> ?R - set qs" "set (in_tasks c1) \<subseteq> ?R - set qs"
      using dt qs unfolding detok_part_def by blast+
    ultimately show "detok_part c3 (dom (seq_ranks (sched dp')))"
      using dt qs(3,7) by (simp add: detok_part_def)
    show "ids_part n c3" by (rule ids_part_fields [OF _ _ ip]) (auto simp: c3_def c2_def c1_def)
    show "clients_ok c3" unfolding c3_def by (rule del(2))
    show "dom (request_results c3) = in_flight_reqs c3" using tab
      by (auto simp: c3_def c2_def c1_def)
    show "ct_failed c3 = []" using nf by (simp add: c3_def c2_def c1_def)
  qed
qed

text \<open>Every step that the environment allows keeps the invariant.\<close>

lemma ctl_step_inv:
  assumes "ct_inv cap (put_count [e] + n) c" and "env_ok e c"
    and "\<And>S. finite S \<Longrightarrow> distinct (order S) \<and> set (order S) = S" and "ctl_step order e c = Some c'"
  shows "ct_inv cap n c'"
proof (cases e)
  case (CPut p out)
  then obtain c1 where "put_single_request p out c = Inr (length (ct_objects c), c1)" "ct_inv cap n c1"
    using inv_put [of cap n c p out] assms(1,2) by auto
  then show ?thesis using assms(4) CPut by simp
next
  case (CGet t ref)
  then show ?thesis using inv_get [of cap n c ref t] assms by (auto split: if_splits)
next
  case CLoopGet
  then show ?thesis using inv_loop [of cap n c EGet] assms by simp
next
  case (CLoopResume now)
  then show ?thesis using inv_loop [of cap n c EResume] assms by simp
next
  case CStop
  then show ?thesis using inv_loop [of cap n c ETerminate] assms by simp
next
  case (CDecode now b)
  have i: "ct_inv cap n c" "env_ok (CDecode now b) c" using assms(1,2) CDecode by simp_all
  obtain d where "process_batch now b (ct_detok c) = Inr d" "ct_inv cap n (c\<lparr>ct_detok := d\<rparr>)"
    using inv_decode [OF i] by blast
  then show ?thesis using assms(4) CDecode by simp
next
  case CPoll
  then have "ct_inv cap n c" "c' = poll_results order c" using assms(1,4) by simp_all
  then show ?thesis using inv_poll [of cap n c order] assms(3) by blast
next
  case CTask
  then show ?thesis using inv_task [of cap n c c'] assms by simp
next
  case CResume
  then show ?thesis using inv_resume [of cap n c] assms by (auto split: list.splits)
next
  case CReset
  then show ?thesis using assms(2) by simp
qed

lemma put_count_Cons: "put_count (e # es) = put_count [e] + put_count es"
  by (cases e) simp_all

lemma ctl_run_inv:
  assumes "\<And>S. finite S \<Longrightarrow> distinct (order S) \<and> set (order S) = S"
  shows "ctl_run order es c = Some c' \<Longrightarrow> env_run order es c \<Longrightarrow> ct_inv cap (put_count es) c \<Longrightarrow>
    ct_inv cap 0 c'"
proof (induction es arbitrary: c)
  case (Cons e es)
  then obtain c1 where c1: "ctl_step order e c = Some c1" "ctl_run order es c1 = Some c'"
    by (auto split: option.splits)
  have "ct_inv cap (put_count es) c1"
    using ctl_step_inv [OF _ _ assms c1(1)] Cons.prems(2,3) put_count_Cons [of e es] by simp
  then show ?case using Cons.IH [OF c1(2)] Cons.prems(2) c1(1) by simp
qed simp

lemma start_inv:
  assumes "start_scheduler devs s (controller_init (dp_size s) now) = Inr c" and "dp_ok s"
    and "seq_ranks s = Map.empty" and "seq_max_len s = Map.empty" and "n < 1999999999"
  shows "\<exists>dp. ct_loop c = Some dp \<and> ct_inv (kv_cache_stats (sched dp)) n c"
proof -
  obtain dp where st: "loop_start (map (\<lambda>(r, b). (int r, b)) (start_stats devs)) s = Inr dp"
    and c: "c = (controller_init (dp_size s) now)\<lparr>ct_loop := Some dp\<rparr>"
    using assms(1) by (auto simp: start_scheduler_def res)
  note d = loop_start_state [OF st]
  have "loop_ok (kv_cache_stats (sched dp)) dp"
    using loop_start_inv [OF st assms(2-4), of "[]"] d by (simp add: loop_ok_def fresh_def)
  moreover have "known dp = {}" using d assms(3) by (simp add: known_def ids_def pending_def)
  ultimately have lp: "loop_part (kv_cache_stats (sched dp)) c dp"
    using d by (simp add: loop_part_def c controller_init_def tokenizer_init_def)
  have "ct_inv (kv_cache_stats (sched dp)) n c"
    by (rule ct_invI [OF lp])
      (use assms(5) in \<open>auto simp: c controller_init_def detok_part_def in_tasks_def detok_inv_def
         detok_init_def own_keys_def ids_part_def counter_default_def counter_init_def clients_ok_def\<close>)
  moreover have "ct_loop c = Some dp" using lp by (simp add: loop_part_def)
  ultimately show ?thesis by blast
qed


section \<open>The requests that were put\<close>

text \<open>Every put makes one result, with the next id; no other step makes one or renames one.\<close>

definition issued :: "controller \<Rightarrow> nat list" where
  "issued c = map ar_req_id (ct_objects c)"

lemma same_ids: "ar_req_id a = ar_req_id (xs ! i) \<Longrightarrow> map ar_req_id (xs[i := a]) = map ar_req_id xs"
  by (cases "i < length xs") (simp_all add: map_update list_update_same_conv list_update_beyond)

lemma drop_finished_frame:
  "ct_objects (snd (drop_finished qs c)) = ct_objects c \<and>
   req_id_generator (snd (drop_finished qs c)) = req_id_generator c \<and>
   ct_woken (snd (drop_finished qs c)) = ct_woken c \<and> ct_returned (snd (drop_finished qs c)) = ct_returned c \<and>
   request_results (snd (drop_finished qs c)) = request_results c"
proof (induction qs arbitrary: c)
  case (Cons q qs)
  then show ?case by (simp add: Let_def split: option.split sum.split)
qed simp

lemma deliver_results_frame:
  "issued (snd (deliver_results rs c)) = issued c \<and>
   req_id_generator (snd (deliver_results rs c)) = req_id_generator c \<and>
   ct_returned (snd (deliver_results rs c)) = ct_returned c"
proof (induction rs arbitrary: c)
  case (Cons r rs)
  have "map ar_req_id ((ct_objects c)[ref := snd (ar_put r (ct_objects c ! ref))]) = map ar_req_id (ct_objects c)" for ref
    by (rule same_ids) (simp add: ar_put_def)
  then show ?case using Cons.IH
    by (auto simp: issued_def case_prod_beta split: option.split)
qed simp

lemma run_task_split:
  assumes "run_task c = Some c'"
  obtains rs ts e where "ct_tasks c = rs # ts"
    "c' = snd (process_finished_results rs (c\<lparr>ct_tasks := ts\<rparr>)) \<or>
     c' = (snd (process_finished_results rs (c\<lparr>ct_tasks := ts\<rparr>)))
       \<lparr>ct_failed := ct_failed (snd (process_finished_results rs (c\<lparr>ct_tasks := ts\<rparr>))) @ [e]\<rparr>"
proof -
  obtain rs ts where t: "ct_tasks c = rs # ts" using assms by (auto simp: run_task_def split: list.splits)
  obtain err c1 where p: "process_finished_results rs (c\<lparr>ct_tasks := ts\<rparr>) = (err, c1)" by fastforce
  show ?thesis
  proof (cases err)
    case None
    then show ?thesis using assms t p by (intro that [OF t]) (simp add: run_task_def)
  next
    case (Some e)
    then show ?thesis using assms t p by (intro that [OF t, of e]) (simp add: run_task_def)
  qed
qed

lemma process_finished_frame:
  "issued (snd (process_finished_results rs c)) = issued c \<and>
   req_id_generator (snd (process_finished_results rs c)) = req_id_generator c \<and>
   ct_returned (snd (process_finished_results rs c)) = ct_returned c"
proof -
  obtain err c1 where d: "drop_finished (map sl_req_id rs) c = (err, c1)" by fastforce
  have c1: "ct_objects c1 = ct_objects c" "req_id_generator c1 = req_id_generator c" "ct_returned c1 = ct_returned c"
    using drop_finished_frame [of "map sl_req_id rs" c] by (simp_all add: d)
  show ?thesis
  proof (cases "ct_loop c = None")
    case False
    show ?thesis using False c1 deliver_results_frame [of rs c1]
      by (cases err) (simp_all only: process_finished_results_def d, simp_all add: issued_def)
  qed (simp add: process_finished_results_def)
qed

lemma step_issued:
  assumes "ctl_step order e c = Some c'" and "put_count [e] = 0"
  shows "issued c' = issued c \<and> req_id_generator c' = req_id_generator c"
proof (cases e)
  case (CGet t ref)
  have "map ar_req_id ((ct_objects c)[ref := ar_wait t (ct_objects c ! ref)]) = map ar_req_id (ct_objects c)"
    by (rule same_ids) (simp add: ar_wait_def)
  then show ?thesis using assms CGet by (auto simp: issued_def split: if_splits)
next
  case CTask
  then have "run_task c = Some c'" using assms(1) by simp
  then obtain rs ts e where "ct_tasks c = rs # ts"
    and c': "c' = snd (process_finished_results rs (c\<lparr>ct_tasks := ts\<rparr>)) \<or>
     c' = (snd (process_finished_results rs (c\<lparr>ct_tasks := ts\<rparr>)))
       \<lparr>ct_failed := ct_failed (snd (process_finished_results rs (c\<lparr>ct_tasks := ts\<rparr>))) @ [e]\<rparr>"
    by (rule run_task_split)
  then show ?thesis using process_finished_frame [of rs "c\<lparr>ct_tasks := ts\<rparr>"] by (auto simp: issued_def)
qed (use assms in \<open>auto simp: issued_def loop_advance_def poll_results_def controller_reset_def Let_def
       split: option.splits sum.splits list.splits prod.splits if_splits simp del: foldR.simps\<close>)

definition numbered :: "controller \<Rightarrow> bool" where
  "numbered c \<longleftrightarrow> issued c = [1..<Suc (length (ct_objects c))] \<and>
     cn_counter (req_id_generator c) = int (Suc (length (ct_objects c)))"

lemma step_numbered:
  assumes "ctl_step order e c = Some c'" and "numbered c" and "ct_inv cap (put_count [e] + n) c"
  shows "numbered c' \<and> length (ct_objects c') = length (ct_objects c) + put_count [e]"
proof (cases "put_count [e] = 0")
  case True
  have "length (issued c') = length (issued c)" using step_issued [OF assms(1) True] by simp
  then have "length (ct_objects c') = length (ct_objects c)" by (simp add: issued_def)
  then show ?thesis using step_issued [OF assms(1) True] assms(2) True by (simp add: numbered_def)
next
  case False
  then obtain p out where e: "e = CPut p out" by (cases e) auto
  then obtain ref where put: "put_single_request p out c = Inr (ref, c')"
    using assms(1) by (auto split: sum.splits)
  have g: "cn_counter (req_id_generator c) = int (Suc (length (ct_objects c)))"
    "cn_step (req_id_generator c) = 1" "cn_end (req_id_generator c) = 2000000000"
    "cn_counter (req_id_generator c) + 1 < 2000000000"
    using assms(2,3) e by (auto simp: numbered_def ct_inv_def ids_part_def)
  obtain dp where loop: "ct_loop c = Some dp" using assms(3) by (auto simp: ct_inv_def loop_part_def)
  have "nat (cn_counter (req_id_generator c)) = Suc (length (ct_objects c))" using g(1) by simp
  then have "ct_objects c' = ct_objects c @ [ar_new (Suc (length (ct_objects c)))]"
    "cn_counter (req_id_generator c') = cn_counter (req_id_generator c) + 1"
    using put g(2,3,4) loop
    by (auto simp: put_single_request_def get_new_req_id_def counter_next_def Let_def)
  then show ?thesis using assms(2) g(1) e
    by (simp add: numbered_def issued_def ar_new_def)
qed

lemma run_numbered:
  assumes "\<And>S. finite S \<Longrightarrow> distinct (order S) \<and> set (order S) = S"
  shows "ctl_run order es c = Some c' \<Longrightarrow> env_run order es c \<Longrightarrow> ct_inv cap (put_count es) c \<Longrightarrow> numbered c \<Longrightarrow>
    numbered c' \<and> length (ct_objects c') = length (ct_objects c) + put_count es"
proof (induction es arbitrary: c)
  case (Cons e es)
  then obtain c1 where c1: "ctl_step order e c = Some c1" "ctl_run order es c1 = Some c'"
    by (auto split: option.splits)
  have inv: "ct_inv cap (put_count [e] + put_count es) c"
    using Cons.prems(3) put_count_Cons [of e es] by simp
  have "ct_inv cap (put_count es) c1"
    using ctl_step_inv [OF inv _ assms c1(1)] Cons.prems(2) by simp
  moreover have "numbered c1 \<and> length (ct_objects c1) = length (ct_objects c) + put_count [e]"
    by (rule step_numbered [OF c1(1) Cons.prems(4) inv])
  ultimately show ?case using Cons.IH [OF c1(2)] Cons.prems(2) c1(1) put_count_Cons [of e es] by simp
qed simp

text \<open>A result is empty exactly while its request is in flight.\<close>

lemma open_in_flight:
  assumes "clients_ok c" and "dom (request_results c) = in_flight_reqs c" and "numbered c"
    and "i < length (ct_objects c)"
  shows "ar_req_id (ct_objects c ! i) = Suc i"
    and "ar_slo_stat (ct_objects c ! i) = None \<longleftrightarrow> Suc i \<in> in_flight_reqs c"
proof -
  have ids: "ar_req_id (ct_objects c ! j) = Suc j" if "j < length (ct_objects c)" for j
  proof -
    have "map ar_req_id (ct_objects c) ! j = [1..<Suc (length (ct_objects c))] ! j"
      using assms(3) by (simp add: numbered_def issued_def del: upt_Suc)
    then show ?thesis using that by (simp del: upt_Suc)
  qed
  then show id: "ar_req_id (ct_objects c ! i) = Suc i" using assms(4) by simp
  show "ar_slo_stat (ct_objects c ! i) = None \<longleftrightarrow> Suc i \<in> in_flight_reqs c"
  proof
    assume "ar_slo_stat (ct_objects c ! i) = None"
    then have "request_results c (ar_req_id (ct_objects c ! i)) = Some i"
      using assms(1,4) unfolding clients_ok_def by blast
    then have "request_results c (Suc i) = Some i" by (simp only: id)
    then show "Suc i \<in> in_flight_reqs c" using assms(2) by blast
  next
    assume "Suc i \<in> in_flight_reqs c"
    then obtain j where j: "request_results c (Suc i) = Some j" using assms(2) by blast
    then have "j < length (ct_objects c)" "ar_req_id (ct_objects c ! j) = Suc i" "ar_slo_stat (ct_objects c ! j) = None"
      using assms(1) unfolding clients_ok_def by blast+
    then show "ar_slo_stat (ct_objects c ! i) = None" using ids by auto
  qed
qed

text \<open>No result is handed out twice: the results that woke a client or were returned are filled and different.\<close>

definition handed :: "controller \<Rightarrow> nat list" where
  "handed c = map snd (ct_woken c) @ map (\<lambda>(t, ref, r). ref) (ct_returned c)"

definition once :: "controller \<Rightarrow> bool" where
  "once c \<longleftrightarrow> distinct (handed c) \<and>
     (\<forall>ref\<in>set (handed c). ref < length (ct_objects c) \<and> ar_slo_stat (ct_objects c ! ref) \<noteq> None)"

lemma once_objects:
  assumes "once c" and "handed c' = handed c" and "length (ct_objects c) \<le> length (ct_objects c')"
    and "\<And>i. i < length (ct_objects c) \<Longrightarrow> ar_slo_stat (ct_objects c' ! i) = ar_slo_stat (ct_objects c ! i)"
  shows "once c'"
  using assms unfolding once_def by fastforce

lemma once_deliver:
  "clients_ok c \<Longrightarrow> once c \<Longrightarrow> once (snd (deliver_results rs c))"
proof (induction rs arbitrary: c)
  case (Cons r rs)
  show ?case
  proof (cases "request_results c (sl_req_id r)")
    case None
    then show ?thesis using Cons.prems by simp
  next
    case (Some ref)
    define a where "a = snd (ar_put r (ct_objects c ! ref))"
    define ts where "ts = map (\<lambda>t. (t, ref)) (fst (ar_put r (ct_objects c ! ref)))"
    define c1 where "c1 = c\<lparr>ct_objects := (ct_objects c)[ref := a], ct_woken := ct_woken c @ ts,
        request_results := (request_results c)(sl_req_id r := None)\<rparr>"
    have ref: "ref < length (ct_objects c)" "ar_slo_stat (ct_objects c ! ref) = None"
      using Cons.prems(1) Some unfolding clients_ok_def by blast+
    have new: "ref \<notin> set (handed c)" using Cons.prems(2) ref(2) by (auto simp: once_def)
    have "clients_ok c1" unfolding c1_def
      by (rule clients_ok_deliver [OF Cons.prems(1) Some refl]) (auto simp: ts_def a_def ar_put_def)
    moreover have "once c1"
    proof -
      have ts: "map snd ts = [] \<or> map snd ts = [ref]"
        by (cases "ar_waiters (ct_objects c ! ref)") (simp_all add: ts_def ar_put_def)
      have h: "set (handed c1) = set (map snd ts) \<union> set (handed c)"
        by (auto simp: handed_def c1_def)
      have "distinct (map snd ts @ handed c)"
        using ts new Cons.prems(2) by (elim disjE) (simp_all add: once_def)
      moreover have "mset (handed c1) = mset (map snd ts @ handed c)" by (simp add: handed_def c1_def)
      ultimately have "distinct (handed c1)" using mset_eq_imp_distinct_iff by blast
      moreover have "i < length (ct_objects c1) \<and> ar_slo_stat (ct_objects c1 ! i) \<noteq> None" if "i \<in> set (handed c1)" for i
        using that ts ref(1) Cons.prems(2) unfolding h once_def
        by (cases "i = ref") (auto simp: c1_def a_def ar_put_def)
      ultimately show ?thesis by (simp add: once_def)
    qed
    ultimately have "once (snd (deliver_results rs c1))" by (rule Cons.IH)
    moreover have "deliver_results (r # rs) c = deliver_results rs c1"
      by (simp add: Some c1_def a_def ts_def split: prod.split)
    ultimately show ?thesis by simp
  qed
qed simp

lemma once_fields:
  "once c \<Longrightarrow> ct_objects c' = ct_objects c \<Longrightarrow> ct_woken c' = ct_woken c \<Longrightarrow> ct_returned c' = ct_returned c \<Longrightarrow> once c'"
  by (simp add: once_def handed_def)

lemma once_task:
  assumes "clients_ok c" and "once c" and "run_task c = Some c'"
  shows "once c'"
proof -
  obtain rs ts e where t: "ct_tasks c = rs # ts"
    "c' = snd (process_finished_results rs (c\<lparr>ct_tasks := ts\<rparr>)) \<or>
     c' = (snd (process_finished_results rs (c\<lparr>ct_tasks := ts\<rparr>)))
       \<lparr>ct_failed := ct_failed (snd (process_finished_results rs (c\<lparr>ct_tasks := ts\<rparr>))) @ [e]\<rparr>"
    by (rule run_task_split [OF assms(3)])
  let ?c = "c\<lparr>ct_tasks := ts\<rparr>"
  obtain err c1 where d: "drop_finished (map sl_req_id rs) ?c = (err, c1)" by fastforce
  have c1: "ct_objects c1 = ct_objects c" "ct_woken c1 = ct_woken c" "ct_returned c1 = ct_returned c"
    "request_results c1 = request_results c"
    using drop_finished_frame [of "map sl_req_id rs" ?c] by (simp_all add: d)
  then have ok: "clients_ok c1" "once c1"
    using assms(1,2) clients_ok_fields [of c1 c] by (simp_all add: once_def handed_def)
  have "once ?c" using assms(2) by (simp add: once_def handed_def)
  then have "once (snd (process_finished_results rs ?c))"
    using once_deliver [OF ok, of rs] ok(2)
    by (cases err) (simp_all only: process_finished_results_def d, simp_all)
  then show ?thesis using t(2) by (elim disjE) (simp_all, rule once_fields, simp_all)
qed

lemma step_once:
  assumes "ctl_step order e c = Some c'" and "clients_ok c" and "once c"
  shows "once c'"
proof (cases e)
  case (CPut p out)
  then show ?thesis using assms(1)
    by (intro once_objects [OF assms(3)])
      (auto simp: put_single_request_def get_new_req_id_def Let_def res handed_def nth_append split: sum.splits prod.splits)
next
  case (CGet t ref)
  then show ?thesis using assms(1)
    by (intro once_objects [OF assms(3)]) (auto simp: handed_def ar_wait_def nth_list_update split: if_splits)
next
  case CTask
  then show ?thesis using once_task [OF assms(2,3)] assms(1) by simp
next
  case CResume
  then obtain t ref ws where w: "ct_woken c = (t, ref) # ws"
    "c' = c\<lparr>ct_woken := ws, ct_returned := ct_returned c @ [(t, ref, ar_resume (ct_objects c ! ref))]\<rparr>"
    using assms(1) by (auto split: list.splits)
  have "mset (handed c') = mset (handed c)" by (simp add: handed_def w)
  then have "distinct (handed c') \<longleftrightarrow> distinct (handed c)" "set (handed c') = set (handed c)"
    using mset_eq_imp_distinct_iff mset_eq_setD by blast+
  then show ?thesis using assms(3) w(2) by (simp add: once_def)
qed (rule once_fields [OF assms(3)]; use assms(1) in \<open>auto simp: loop_advance_def poll_results_def controller_reset_def Let_def
       split: option.splits sum.splits list.splits prod.splits if_splits simp del: foldR.simps\<close>)+

lemma run_once:
  assumes "\<And>S. finite S \<Longrightarrow> distinct (order S) \<and> set (order S) = S"
  shows "ctl_run order es c = Some c' \<Longrightarrow> env_run order es c \<Longrightarrow> ct_inv cap (put_count es) c \<Longrightarrow> once c \<Longrightarrow> once c'"
proof (induction es arbitrary: c)
  case (Cons e es)
  then obtain c1 where c1: "ctl_step order e c = Some c1" "ctl_run order es c1 = Some c'"
    by (auto split: option.splits)
  have inv: "ct_inv cap (put_count [e] + put_count es) c"
    using Cons.prems(3) put_count_Cons [of e es] by simp
  then have cl: "clients_ok c" by (rule ct_invE)
  have "ct_inv cap (put_count es) c1"
    using ctl_step_inv [OF inv _ assms c1(1)] Cons.prems(2) by simp
  then show ?case using Cons.IH [OF c1(2)] Cons.prems(2,4) c1(1) step_once [OF c1(1) cl] by simp
qed simp

lemma start_state_clients:
  assumes "start_scheduler devs s (controller_init n now) = Inr c"
  shows "numbered c" "once c" "ct_objects c = []"
  using assms
  by (auto simp: start_scheduler_def res numbered_def issued_def once_def handed_def controller_init_def
      counter_default_def counter_init_def)

section \<open>Properties\<close>

text \<open>A run on two ranks with 3 and 2 free blocks: one request from its arrival to its answer.\<close>

definition demo_devs :: "(nat \<times> int) list" where
  "demo_devs = [(0, 3), (1, 5), (1, 2)]"

definition demo_controller :: controller where
  "demo_controller = (controller_init 2 0)\<lparr>ct_loop := Some (demo_loop PCapRR)\<rparr>"

definition demo_batch :: "bool \<Rightarrow> batch_decode_result" where
  "demo_batch eos = \<lparr>dr_req_ids = [1], dr_token_ids = [0], dr_is_eos = [eos]\<rparr>"

definition demo_life :: "ctl_event list" where
  "demo_life =
     [CPut 20 10, CGet 99 0, CLoopGet, CLoopResume 5, CLoopResume 6, CDecode 1000 (demo_batch False),
      CDecode 1400 (demo_batch True), CPoll, CTask, CResume]"

lemma demo_start_scheduler:
  "start_scheduler demo_devs (dp_init 2 16 PCapRR []) (controller_init 2 0) = Inr demo_controller"
proof -
  have "map (\<lambda>(r, b). (int r, b)) (start_stats demo_devs) = [(0, 3), (1, 2)]"
    by (simp add: start_stats_def demo_devs_def d_get_or_def)
  then show ?thesis by (simp add: start_scheduler_def demo_start demo_controller_def)
qed

lemma demo_life_runs:
  "case ctl_run sorted_list_of_set demo_life demo_controller of
     None \<Rightarrow> False
   | Some c \<Rightarrow> in_flight_reqs c = {} \<and> map (\<lambda>(t, ref, _). (t, ref)) (ct_returned c) = [(99, 0)]"
  by code_simp


lemma demo_life_env: "env_run sorted_list_of_set demo_life demo_controller"
  by code_simp

lemma demo_life_result:
  obtains c where "ctl_run sorted_list_of_set demo_life demo_controller = Some c"
    "in_flight_reqs c = {}" "map (\<lambda>(t, ref, _). (t, ref)) (ct_returned c) = [(99, 0)]"
  using demo_life_runs by (auto split: option.splits)

lemma sorted_order: "finite S \<Longrightarrow> distinct (sorted_list_of_set S) \<and> set (sorted_list_of_set S) = S"
  for S :: "nat set"
  by simp

text \<open>
  C10: every request is accounted for, in the controller and in the scheduler alike. Along any
  run without a reset from the start of the scheduler, in which the workers answer only what
  they were given, no task fails; the requests that were put have the ids 1, 2, ... and one
  result each; a request is in flight, and in the table of results, exactly while its result
  is empty, so each is either in flight or answered with its own record; the requests in
  flight are those that wait in the scheduler or hold blocks of a rank (as long as the
  scheduler's loop lives); the ledger balances on every rank, and once nothing is in flight
  every block is free again.
\<close>

theorem controller_requests_accounted:
  assumes "start_scheduler devs s (controller_init (dp_size s) now) = Inr c" and "dp_ok s"
    and "seq_ranks s = Map.empty" and "seq_max_len s = Map.empty"
    and "\<And>S. finite S \<Longrightarrow> distinct (order S) \<and> set (order S) = S"
    and "put_count es < 1999999999" and "env_run order es c" and "ctl_run order es c = Some c'"
  shows "\<exists>dp dp'. ct_loop c = Some dp \<and> ct_loop c' = Some dp' \<and> ct_failed c' = [] \<and>
    dom (request_results c') = in_flight_reqs c' \<and> known dp' \<subseteq> in_flight_reqs c' \<and>
    (live (phase dp') \<longrightarrow> in_flight_reqs c' = known dp') \<and>
    length (ct_objects c') = put_count es \<and>
    (\<forall>i < put_count es. ar_req_id (ct_objects c' ! i) = Suc i \<and>
       (case ar_slo_stat (ct_objects c' ! i) of
          None \<Rightarrow> Suc i \<in> in_flight_reqs c' | Some slo \<Rightarrow> Suc i \<notin> in_flight_reqs c' \<and> sl_req_id slo = Suc i)) \<and>
    (\<forall>r < dp_size s. kv_cache_stats (sched dp') ! r + charged (sched dp') r
       = kv_cache_stats (sched dp) ! r) \<and>
    (in_flight_reqs c' = {} \<longrightarrow> kv_cache_stats (sched dp') = kv_cache_stats (sched dp))"
proof -
  obtain dp where dp: "ct_loop c = Some dp" and inv: "ct_inv (kv_cache_stats (sched dp)) (put_count es) c"
    using start_inv [OF assms(1-4,6)] by blast
  let ?cap = "kv_cache_stats (sched dp)"
  have "ct_inv ?cap 0 c'" by (rule ctl_run_inv [OF assms(5,8,7) inv])
  then obtain dp' where lp: "loop_part ?cap c' dp'"
    and tab: "dom (request_results c') = in_flight_reqs c'" and nf: "ct_failed c' = []" and cl: "clients_ok c'"
    by (rule ct_invE)
  note st = start_state_clients [OF assms(1)]
  have num: "numbered c'" "length (ct_objects c') = put_count es"
    using run_numbered [OF assms(5,8,7) inv st(1)] st(3) by simp_all
  have put: "ar_req_id (ct_objects c' ! i) = Suc i \<and>
      (case ar_slo_stat (ct_objects c' ! i) of
         None \<Rightarrow> Suc i \<in> in_flight_reqs c' | Some slo \<Rightarrow> Suc i \<notin> in_flight_reqs c' \<and> sl_req_id slo = Suc i)"
    if "i < put_count es" for i
  proof -
    have i: "i < length (ct_objects c')" using that num(2) by simp
    note o = open_in_flight [OF cl tab num(1) i]
    have "sl_req_id slo = Suc i" if "ar_slo_stat (ct_objects c' ! i) = Some slo" for slo
      using cl i that o(1) unfolding clients_ok_def by metis
    then show ?thesis using o by (auto split: option.split)
  qed
  have li: "ledger_inv ?cap (sched dp')" using lp by (simp add: loop_part_def loop_ok_def)
  have size: "dp_size (sched dp') = dp_size s"
    using li inv dp assms(1) loop_start_state
    by (auto simp: ct_inv_def loop_part_def loop_ok_def ledger_inv_def start_scheduler_def res)
  have restored: "kv_cache_stats (sched dp') = ?cap" if "in_flight_reqs c' = {}"
  proof (rule nth_equalityI)
    show "length (kv_cache_stats (sched dp')) = length ?cap"
      using li by (simp add: ledger_inv_def dp_ok_def)
    have "dom (seq_ranks (sched dp')) = {}" using that lp by (auto simp: loop_part_def known_def)
    then have "charged (sched dp') r = 0" for r by (simp add: charged_def)
    then show "kv_cache_stats (sched dp') ! r = ?cap ! r" if "r < length (kv_cache_stats (sched dp'))" for r
      using li that by (auto simp: ledger_inv_def dp_ok_def)
  qed
  show ?thesis
    using dp lp tab nf li size restored num(2) put by (auto simp: loop_part_def ledger_inv_def)
qed

lemma controller_requests_accounted_witness:
  "\<exists>c dp. ctl_run sorted_list_of_set demo_life demo_controller = Some c \<and> ct_loop c = Some dp \<and>
     ct_failed c = [] \<and> kv_cache_stats (sched dp) = [3, 2]"
proof -
  obtain c where c: "ctl_run sorted_list_of_set demo_life demo_controller = Some c"
    "in_flight_reqs c = {}" by (rule demo_life_result)
  have "put_count demo_life < 1999999999" by (simp add: demo_life_def)
  note t = controller_requests_accounted [OF _ demo_init_ok(1,3,4) sorted_order this demo_life_env c(1),
      of demo_devs 0]
  have "start_scheduler demo_devs (dp_init 2 16 PCapRR [])
      (controller_init (dp_size (dp_init 2 16 PCapRR [])) 0) = Inr demo_controller"
    using demo_start_scheduler by (simp add: dp_init_def)
  from t [OF this] show ?thesis using c by (auto simp: demo_controller_def demo_loop_def dp_init_def)
qed

text \<open>
  C18: nobody gets the answer of another request. Along such a run a result is empty exactly
  as long as its request is in the table under its own id, a filled result holds the latency
  record of its own request, every call of \<open>get\<close> that has returned has returned that record
  and not raised, and no result was returned twice.
\<close>

theorem controller_answers_own_request:
  assumes "start_scheduler devs s (controller_init (dp_size s) now) = Inr c" and "dp_ok s"
    and "seq_ranks s = Map.empty" and "seq_max_len s = Map.empty"
    and "\<And>S. finite S \<Longrightarrow> distinct (order S) \<and> set (order S) = S"
    and "put_count es < 1999999999" and "env_run order es c" and "ctl_run order es c = Some c'"
  shows "(\<forall>ref < length (ct_objects c').
      (case ar_slo_stat (ct_objects c' ! ref) of
         None \<Rightarrow> request_results c' (ar_req_id (ct_objects c' ! ref)) = Some ref
       | Some slo \<Rightarrow> sl_req_id slo = ar_req_id (ct_objects c' ! ref) \<and>
           request_results c' (ar_req_id (ct_objects c' ! ref)) \<noteq> Some ref)) \<and>
    (\<forall>(t, ref, r) \<in> set (ct_returned c'). ref < length (ct_objects c') \<and>
       (\<exists>slo. r = Inr slo \<and> sl_req_id slo = ar_req_id (ct_objects c' ! ref))) \<and>
    distinct (map (\<lambda>(t, ref, r). ref) (ct_returned c'))"
proof -
  obtain dp where inv: "ct_loop c = Some dp" "ct_inv (kv_cache_stats (sched dp)) (put_count es) c"
    using start_inv [OF assms(1-4,6)] by blast
  then have "ct_inv (kv_cache_stats (sched dp)) 0 c'" by (intro ctl_run_inv [OF assms(5,8,7)])
  then have cl: "clients_ok c'" by (rule ct_invE)
  note parts = cl [unfolded clients_ok_def]
  note tab = parts [THEN conjunct1] and full = parts [THEN conjunct2, THEN conjunct1]
    and own = parts [THEN conjunct2, THEN conjunct2, THEN conjunct1]
    and ret = parts [THEN conjunct2, THEN conjunct2, THEN conjunct2, THEN conjunct2]
  have "case ar_slo_stat (ct_objects c' ! ref) of
         None \<Rightarrow> request_results c' (ar_req_id (ct_objects c' ! ref)) = Some ref
       | Some slo \<Rightarrow> sl_req_id slo = ar_req_id (ct_objects c' ! ref) \<and>
           request_results c' (ar_req_id (ct_objects c' ! ref)) \<noteq> Some ref"
    if "ref < length (ct_objects c')" for ref
  proof (cases "ar_slo_stat (ct_objects c' ! ref)")
    case None
    then show ?thesis using full that by simp
  next
    case (Some slo)
    then have "request_results c' (ar_req_id (ct_objects c' ! ref)) \<noteq> Some ref"
      using tab by (metis option.distinct(1))
    moreover have "sl_req_id slo = ar_req_id (ct_objects c' ! ref)" using own that Some by blast
    ultimately show ?thesis using Some by simp
  qed
  moreover have "once c'" by (rule run_once [OF assms(5,8,7) inv(2) start_state_clients(2) [OF assms(1)]])
  then have "distinct (map (\<lambda>(t, ref, r). ref) (ct_returned c'))" by (simp add: once_def handed_def)
  ultimately show ?thesis using ret by blast
qed

lemma controller_answers_own_request_witness:
  "\<exists>c slo. ctl_run sorted_list_of_set demo_life demo_controller = Some c \<and>
     ct_returned c = [(99, 0, Inr slo)] \<and> sl_req_id slo = ar_req_id (ct_objects c ! 0)"
proof -
  obtain c where c: "ctl_run sorted_list_of_set demo_life demo_controller = Some c"
    "map (\<lambda>(t, ref, _). (t, ref)) (ct_returned c) = [(99, 0)]" by (rule demo_life_result)
  have "put_count demo_life < 1999999999" by (simp add: demo_life_def)
  note t = controller_answers_own_request [OF _ demo_init_ok(1,3,4) sorted_order this demo_life_env c(1),
      of demo_devs 0]
  have "start_scheduler demo_devs (dp_init 2 16 PCapRR [])
      (controller_init (dp_size (dp_init 2 16 PCapRR [])) 0) = Inr demo_controller"
    using demo_start_scheduler by (simp add: dp_init_def)
  from t [OF this] have "\<forall>(t, ref, r) \<in> set (ct_returned c).
      \<exists>slo. r = Inr slo \<and> sl_req_id slo = ar_req_id (ct_objects c ! ref)" by blast
  moreover obtain r where "ct_returned c = [(99, 0, r)]" using c(2) by (auto simp: map_eq_Cons_conv)
  ultimately show ?thesis using c(1) by auto
qed


section \<open>Two observations\<close>

text \<open>
  \<open>stuck ref t c\<close>: task \<open>t\<close> waits on a result that has left the table. \<open>put\<close> is called once,
  for a result in the table, and \<open>wait\<close> does not look at \<open>slo_stat\<close>: a client that calls
  \<open>get\<close> after its result was put waits for ever (and so does the second of two clients).
\<close>

definition stuck :: "nat \<Rightarrow> nat \<Rightarrow> controller \<Rightarrow> bool" where
  "stuck ref t c \<longleftrightarrow> ref < length (ct_objects c) \<and> t \<in> set (ar_waiters (ct_objects c ! ref)) \<and>
     (\<forall>q. request_results c q \<noteq> Some ref)"

lemma stuck_fields:
  "ct_objects c' = ct_objects c \<Longrightarrow> request_results c' = request_results c \<Longrightarrow>
   stuck ref t c \<Longrightarrow> stuck ref t c'"
  by (simp add: stuck_def)

lemma stuck_drop: "stuck ref t c \<Longrightarrow> stuck ref t (snd (drop_finished qs c))"
proof (induction qs arbitrary: c)
  case (Cons q qs)
  have same: "stuck ref t (c\<lparr>in_flight_reqs := F\<rparr>)" "stuck ref t (c\<lparr>in_flight_reqs := F, ct_loop := l\<rparr>)"
    for F l using Cons.prems by (simp_all add: stuck_def)
  show ?case
    using Cons.prems same Cons.IH [OF same(2)]
    by (simp add: Let_def split: option.split sum.split)
qed simp

lemma stuck_deliver: "stuck ref t c \<Longrightarrow> stuck ref t (snd (deliver_results rs c))"
proof (induction rs arbitrary: c)
  case (Cons r rs)
  show ?case
  proof (cases "request_results c (sl_req_id r)")
    case None
    then show ?thesis using Cons.prems by simp
  next
    case (Some ref')
    then have ne: "ref' \<noteq> ref" using Cons.prems by (auto simp: stuck_def)
    define c1 where "c1 = c\<lparr>ct_objects := (ct_objects c)[ref' := snd (ar_put r (ct_objects c ! ref'))],
        ct_woken := ct_woken c @ map (\<lambda>t. (t, ref')) (fst (ar_put r (ct_objects c ! ref'))),
        request_results := (request_results c)(sl_req_id r := None)\<rparr>"
    have "stuck ref t c1" using Cons.prems ne by (auto simp: stuck_def c1_def)
    moreover have "deliver_results (r # rs) c = deliver_results rs c1"
      using Some by (simp add: c1_def case_prod_beta)
    ultimately show ?thesis using Cons.IH by simp
  qed
qed simp

lemma stuck_step:
  assumes "stuck ref t c" and "ctl_step order e c = Some c'"
  shows "stuck ref t c'"
proof (cases e)
  case (CPut p out)
  then show ?thesis using assms
    by (auto simp: stuck_def put_single_request_def get_new_req_id_def res nth_append Let_def
        split: sum.splits prod.splits if_splits)
next
  case (CGet t' ref')
  then show ?thesis using assms
    by (cases "ref' = ref") (auto simp: stuck_def ar_wait_def split: if_splits)
next
  case CTask
  then obtain rs ts where ts: "ct_tasks c = rs # ts"
    using assms(2) by (auto simp: run_task_def split: list.splits)
  let ?c = "c\<lparr>ct_tasks := ts\<rparr>"
  have s: "stuck ref t ?c" using assms(1) by (simp add: stuck_def)
  obtain err c1 where d: "drop_finished (map sl_req_id rs) ?c = (err, c1)"
    by (cases "drop_finished (map sl_req_id rs) ?c")
  have "stuck ref t c1" using stuck_drop [OF s, of "map sl_req_id rs"] by (simp only: d snd_conv)
  then have "stuck ref t (snd (process_finished_results rs ?c))"
    using s stuck_deliver [of ref t c1 rs]
    by (simp only: process_finished_results_def d) (cases err; simp)
  then show ?thesis using assms(2) CTask ts
    by (auto simp: run_task_def stuck_def split: prod.splits option.splits)
qed (use assms in \<open>auto simp: loop_advance_def poll_results_def controller_reset_def Let_def
       split: option.splits sum.splits list.splits prod.splits if_splits
       intro: stuck_fields simp del: foldR.simps\<close>,
     use assms in \<open>simp add: stuck_def\<close>)

lemma get_after_put_never_returns:
  assumes "clients_ok c" and "ref < length (ct_objects c)" and "ar_slo_stat (ct_objects c ! ref) \<noteq> None"
    and "ctl_run order (CGet t ref # es) c = Some c'"
  shows "t \<in> set (ar_waiters (ct_objects c' ! ref))"
proof -
  obtain c1 where c1: "ctl_step order (CGet t ref) c = Some c1" "ctl_run order es c1 = Some c'"
    using assms(4) by (auto split: option.splits)
  have "request_results c q \<noteq> Some ref" for q
    using assms(1,3) unfolding clients_ok_def by metis
  then have "stuck ref t c1" using c1(1) assms(2) by (auto simp: stuck_def ar_wait_def split: if_splits)
  moreover have "stuck ref t x \<Longrightarrow> ctl_run order es x = Some c' \<Longrightarrow> stuck ref t c'" for x
  proof (induction es arbitrary: x)
    case (Cons e es)
    then obtain y where y: "ctl_step order e x = Some y" "ctl_run order es y = Some c'"
      by (auto split: option.splits)
    show ?case by (rule Cons.IH [OF stuck_step [OF Cons.prems(1) y(1)] y(2)])
  qed simp
  ultimately show ?thesis using c1(2) by (auto simp: stuck_def)
qed

text \<open>
  \<open>reset\<close> forgets the requests in flight, but not in the scheduler: their blocks stay charged,
  and a result that was already fetched ends its task with a KeyError before \<open>del_seq\<close> is
  reached, so that they are never given back.
\<close>

lemma reset_keeps_blocks_charged:
  assumes "rs \<noteq> []" and "ct_loop c = Some dp"
  shows "process_finished_results rs (controller_reset c) = (Some KeyError, controller_reset c) \<and>
    ct_loop (controller_reset c) = Some dp"
  using assms by (cases rs) (simp_all add: process_finished_results_def controller_reset_def)

end
