(* ===== verification/Deploy.thy ===== *)
theory Deploy
  imports Controller Engine
begin

text \<open>
  How the controller (\<open>disagmoe/frontend/controller.py\<close>) builds the cluster: the numbering of
  the devices (\<open>_create_engines\<close>), the ids of the point-to-point channels
  (\<open>get_pairwise_nccl_ids\<close>), the type, rank and tokenizer address of each worker and the
  arguments of \<open>init_core\<close> (\<open>init_engine\<close>), and the choice of the scheduler. Ray, the
  addresses of the hosts and the generator of channel ids are parameters.
\<close>

section \<open>Devices\<close>

text \<open>
  One worker per bundle of the placement group. \<open>ips\<close> are the addresses that the workers
  report, in order; \<open>dc\<close> counts the devices per address and \<open>ni\<close> numbers the addresses.
\<close>

fun device_slots ::
  "'ip list \<Rightarrow> ('ip, nat) dict \<Rightarrow> ('ip, nat) dict \<Rightarrow> (nat \<times> nat) list" where
  "device_slots [] dc ni = []"
| "device_slots (ip # ips) dc ni =
     (let cur = d_get_or dc ip 0;
          dc = AList.update ip (cur + 1) dc;
          ni = (if d_has ni ip then ni else AList.update ip (length ni) ni);
          node_id = d_get_or ni ip 0
      in (node_id, cur) # device_slots ips dc ni)"

definition create_engines :: "nat \<Rightarrow> 'ip list \<Rightarrow> nat list" where
  "create_engines n_gpu_per_node ips =
     map (\<lambda>(node_id, cur). node_id * n_gpu_per_node + cur) (device_slots ips [] [])"

definition slots_ok :: "('ip, nat) dict \<Rightarrow> bool" where
  "slots_ok ni \<longleftrightarrow> distinct (map fst ni) \<and> inj_on (\<lambda>ip. d_get_or ni ip 0) (fst ` set ni) \<and>
     (\<forall>ip \<in> fst ` set ni. d_get_or ni ip 0 < length ni)"

lemma slots_ok_add:
  assumes "slots_ok ni" and "\<not> d_has ni ip"
  shows "slots_ok (AList.update ip (length ni) ni)" and "length (AList.update ip (length ni) ni) = Suc (length ni)"
proof -
  have new: "ip \<notin> fst ` set ni" using assms(2) by (simp add: d_has_def)
  have app: "AList.update ip (length ni) ni = ni @ [(ip, length ni)]"
    using new by (rule update_fresh)
  then show "length (AList.update ip (length ni) ni) = Suc (length ni)" by simp
  have g: "d_get_or (ni @ [(ip, length ni)]) x 0 = (if x = ip then length ni else d_get_or ni x 0)" for x
    using d_get_or_update [of ip "length ni" ni x 0] by (simp add: app)
  have lt: "d_get_or ni x 0 < length ni" if "x \<in> fst ` set ni" for x
    using assms(1) that unfolding slots_ok_def by blast
  have "inj_on (\<lambda>x. d_get_or ni x 0) (fst ` set ni)" using assms(1) by (simp add: slots_ok_def)
  then have "inj_on (\<lambda>x. if x = ip then length ni else d_get_or ni x 0) (insert ip (fst ` set ni))"
    using new lt by (fastforce simp: inj_on_def)
  then have "inj_on (\<lambda>x. d_get_or (ni @ [(ip, length ni)]) x 0) (fst ` set (ni @ [(ip, length ni)]))"
    unfolding g by simp
  moreover have "d_get_or (ni @ [(ip, length ni)]) x 0 < Suc (length ni)"
    if "x \<in> fst ` set (ni @ [(ip, length ni)])" for x
    using assms(1) that unfolding g slots_ok_def by (auto simp: less_SucI)
  ultimately show "slots_ok (AList.update ip (length ni) ni)"
    using assms(1) new unfolding app slots_ok_def by simp
qed


lemma device_slots_spec:
  assumes "slots_ok ni"
  shows "distinct (device_slots ips dc ni) \<and> (\<forall>(v, c) \<in> set (device_slots ips dc ni).
    v < card (fst ` set ni \<union> set ips) \<and>
    (\<exists>ip \<in> set ips. d_get_or dc ip 0 \<le> c \<and> c < d_get_or dc ip 0 + count_list ips ip \<and>
       (if d_has ni ip then v = d_get_or ni ip 0 else length ni \<le> v)))"
  using assms
proof (induction ips arbitrary: dc ni)
  case (Cons ip ips)
  define cur where "cur = d_get_or dc ip 0"
  define dc' where "dc' = AList.update ip (cur + 1) dc"
  define ni' where "ni' = (if d_has ni ip then ni else AList.update ip (length ni) ni)"
  define v0 where "v0 = d_get_or ni' ip 0"
  have slots: "device_slots (ip # ips) dc ni = (v0, cur) # device_slots ips dc' ni'"
    by (simp add: Let_def cur_def dc'_def ni'_def v0_def)
  have ok': "slots_ok ni'" using Cons.prems slots_ok_add(1) [of ni ip] by (simp add: ni'_def)
  have keys: "fst ` set ni' = insert ip (fst ` set ni)"
    by (auto simp: ni'_def keys_update d_has_def)
  have dc: "d_get_or dc' x 0 = (if x = ip then cur + 1 else d_get_or dc x 0)" for x
    by (simp add: dc'_def d_get_or_update)
  have v0: "v0 < length ni'" using ok' keys by (simp add: slots_ok_def v0_def)
  have len: "length ni' = card (fst ` set ni')"
    using ok' by (metis slots_ok_def distinct_card length_map set_map)
  have old: "d_get_or ni' x 0 = d_get_or ni x 0" if "d_has ni x" for x
    using that by (auto simp: ni'_def d_get_or_update)
  have v0ni: "if d_has ni ip then v0 = d_get_or ni ip 0 else length ni \<le> v0"
    by (simp add: v0_def ni'_def d_get_or_update)
  have card: "fst ` set ni' \<union> set ips = fst ` set ni \<union> set (ip # ips)" using keys by auto
  have IH: "distinct (device_slots ips dc' ni')" "\<And>v c. (v, c) \<in> set (device_slots ips dc' ni') \<Longrightarrow>
      v < card (fst ` set ni \<union> set (ip # ips)) \<and>
      (\<exists>x \<in> set ips. d_get_or dc' x 0 \<le> c \<and> c < d_get_or dc' x 0 + count_list ips x \<and>
        (if d_has ni' x then v = d_get_or ni' x 0 else length ni' \<le> v))"
    using Cons.IH [OF ok', of dc'] unfolding card by blast+
  have new: "(v0, cur) \<notin> set (device_slots ips dc' ni')"
  proof
    assume "(v0, cur) \<in> set (device_slots ips dc' ni')"
    then obtain x where x: "d_get_or dc' x 0 \<le> cur"
        "if d_has ni' x then v0 = d_get_or ni' x 0 else length ni' \<le> v0" using IH(2) by blast
    then have "d_has ni' x" using v0 by (auto split: if_splits)
    then have "x = ip" using x(2) ok' keys unfolding slots_ok_def v0_def d_has_def
      by (auto dest: inj_onD)
    then show False using x(1) dc by simp
  qed
  have head: "v0 < card (fst ` set ni \<union> set (ip # ips))"
  proof -
    have "card (fst ` set ni') \<le> card (fst ` set ni \<union> set (ip # ips))"
      unfolding card [symmetric] by (intro card_mono) auto
    then show ?thesis using v0 len by linarith
  qed
  have tail: "\<exists>x \<in> set (ip # ips). d_get_or dc x 0 \<le> c \<and> c < d_get_or dc x 0 + count_list (ip # ips) x \<and>
      (if d_has ni x then v = d_get_or ni x 0 else length ni \<le> v)"
    if vc: "(v, c) \<in> set (device_slots ips dc' ni')" for v c
  proof -
    obtain x where x: "x \<in> set ips" "d_get_or dc' x 0 \<le> c" "c < d_get_or dc' x 0 + count_list ips x"
        "if d_has ni' x then v = d_get_or ni' x 0 else length ni' \<le> v" using IH(2) [OF vc] by blast
    have "if d_has ni x then v = d_get_or ni x 0 else length ni \<le> v"
    proof (cases "x = ip")
      case True
      then have "d_has ni' x" using keys by (simp add: d_has_def)
      then have "v = v0" using x(4) True by (simp add: v0_def)
      then show ?thesis using v0ni True by (simp only:)
    next
      case False
      then have "d_has ni' x = d_has ni x" using keys by (simp add: d_has_def)
      moreover have "length ni \<le> length ni'"
        using slots_ok_add(2) [OF Cons.prems, of ip] by (simp add: ni'_def)
      ultimately show ?thesis using x(4) old by (auto split: if_splits)
    qed
    then show ?thesis using x(1-3) dc by (intro bexI [of _ x]) (auto simp: cur_def split: if_splits)
  qed
  have first: "\<exists>x \<in> set (ip # ips). d_get_or dc x 0 \<le> cur \<and>
      cur < d_get_or dc x 0 + count_list (ip # ips) x \<and>
      (if d_has ni x then v0 = d_get_or ni x 0 else length ni \<le> v0)"
    using v0ni by (intro bexI [of _ ip]) (simp_all add: cur_def)
  have "v < card (fst ` set ni \<union> set (ip # ips)) \<and>
      (\<exists>x \<in> set (ip # ips). d_get_or dc x 0 \<le> c \<and> c < d_get_or dc x 0 + count_list (ip # ips) x \<and>
        (if d_has ni x then v = d_get_or ni x 0 else length ni \<le> v))"
    if "(v, c) \<in> set ((v0, cur) # device_slots ips dc' ni')" for v c
  proof (cases "(v, c) = (v0, cur)")
    case True
    then show ?thesis using head first by blast
  next
    case False
    then have vc: "(v, c) \<in> set (device_slots ips dc' ni')" using that by auto
    show ?thesis using IH(2) [OF vc] tail [OF vc] by blast
  qed
  moreover have "distinct ((v0, cur) # device_slots ips dc' ni')" using IH(1) new by simp
  ultimately show ?case unfolding slots by blast
qed simp

lemma create_engines_spec:
  assumes "\<And>ip. count_list ips ip \<le> n"
  shows "distinct (create_engines n ips) \<and> (\<forall>d \<in> set (create_engines n ips). d < card (set ips) * n)"
proof -
  have ok: "slots_ok []" by (simp add: slots_ok_def)
  note sp = device_slots_spec [OF ok, of ips "[]"]
  have lt: "c < n \<and> v < card (set ips)" if vc: "(v, c) \<in> set (device_slots ips [] [])" for v c
  proof -
    have "v < card (set ips)" and "\<exists>ip \<in> set ips. c < count_list ips ip"
      using sp vc by (fastforce simp: d_get_or_def)+
    then show ?thesis using assms le_trans less_le_trans by blast
  qed
  have "inj_on (\<lambda>(node_id, cur). node_id * n + cur) (set (device_slots ips [] []))"
  proof (rule inj_onI, clarify)
    fix v c v' c' assume h: "(v, c) \<in> set (device_slots ips [] [])"
      "(v', c') \<in> set (device_slots ips [] [])" "v * n + c = v' * n + c'"
    have "(v * n + c) div n = v" "(v' * n + c') div n = v'"
      using lt [OF h(1)] lt [OF h(2)] by simp_all
    then show "v = v' \<and> c = c'" using h(3) by simp
  qed
  then have "distinct (create_engines n ips)" using sp by (simp add: create_engines_def distinct_map)
  moreover have "v * n + c < card (set ips) * n" if "(v, c) \<in> set (device_slots ips [] [])" for v c
  proof -
    have "v * n + c < (v + 1) * n" using lt [OF that] by simp
    also have "\<dots> \<le> card (set ips) * n" using lt [OF that] by (intro mult_right_mono) auto
    finally show ?thesis .
  qed
  ultimately show ?thesis by (auto simp: create_engines_def)
qed


section \<open>Channel ids\<close>

text \<open>
  \<open>get_pairwise_nccl_ids\<close>: one fresh id per edge, filed under both ends. \<open>uid k\<close> is the
  \<open>k\<close>-th id that the generator gives.
\<close>

definition put_id :: "nat \<Rightarrow> nat \<Rightarrow> 'u \<Rightarrow> (nat, (nat, 'u) dict) dict \<Rightarrow>
    (nat, (nat, 'u) dict) dict result" where
  "put_id k1 k2 u d = bindR (d_get d k1) (\<lambda>m. Inr (AList.update k1 (AList.update k2 u m) d))"

definition id_at :: "(nat, (nat, 'u) dict) dict \<Rightarrow> nat \<Rightarrow> nat \<Rightarrow> 'u option" where
  "id_at d k1 k2 = (case map_of d k1 of None \<Rightarrow> None | Some m \<Rightarrow> map_of m k2)"

definition edge_list :: "model_placement \<Rightarrow> (nat \<times> nat) list" where
  "edge_list p = concat (map (\<lambda>(i, js). map (\<lambda>j. (i, j)) js) (pl_out_device_ids p))"

definition nccl_step :: "(nat \<Rightarrow> 'u) \<Rightarrow> nat \<times> nat \<times> nat \<Rightarrow>
    (nat, (nat, 'u) dict) dict \<times> (nat, (nat, 'u) dict) dict \<Rightarrow>
    ((nat, (nat, 'u) dict) dict \<times> (nat, (nat, 'u) dict) dict) result" where
  "nccl_step uid = (\<lambda>(k, i, j) (ins, outs).
     bindR (put_id j i (uid k) ins) (\<lambda>ins. bindR (put_id i j (uid k) outs) (\<lambda>outs. Inr (ins, outs))))"

definition get_pairwise_nccl_ids :: "(nat \<Rightarrow> 'u) \<Rightarrow> model_placement \<Rightarrow>
    ((nat, (nat, 'u) dict) dict \<times> (nat, (nat, 'u) dict) dict) result" where
  "get_pairwise_nccl_ids uid p =
     foldR (nccl_step uid) (zip [0..<length (edge_list p)] (edge_list p))
       (map (\<lambda>(i, _). (i, [])) (pl_in_device_ids p), map (\<lambda>(i, _). (i, [])) (pl_out_device_ids p))"

lemma put_id_spec:
  assumes "d_has d k1"
  shows "\<exists>d'. put_id k1 k2 u d = Inr d' \<and> fst ` set d' = fst ` set d \<and>
    (\<forall>a b. id_at d' a b = (if a = k1 \<and> b = k2 then Some u else id_at d a b))"
proof -
  obtain m where m: "map_of d k1 = Some m" using assms by (auto simp: d_has_iff)
  have k: "k1 \<in> fst ` set d" using assms by (simp add: d_has_def)
  show ?thesis
    using m k by (auto simp: put_id_def d_get_def id_at_def update_conv' keys_update)
qed

lemma nccl_loop:
  assumes "fst ` set es \<subseteq> fst ` set outs" and "snd ` set es \<subseteq> fst ` set ins" and "distinct es"
  shows "\<exists>ins' outs'. foldR (nccl_step uid) (zip [k..<k + length es] es) (ins, outs) = Inr (ins', outs') \<and>
    (\<forall>i j. id_at outs' i j = (case map_of (zip es [k..<k + length es]) (i, j) of
        Some n \<Rightarrow> Some (uid n) | None \<Rightarrow> id_at outs i j) \<and>
      id_at ins' j i = (case map_of (zip es [k..<k + length es]) (i, j) of
        Some n \<Rightarrow> Some (uid n) | None \<Rightarrow> id_at ins j i))"
  using assms
proof (induction es arbitrary: k ins outs)
  case (Cons e es)
  obtain i j where e: "e = (i, j)" by (cases e)
  have h: "d_has ins j" "d_has outs i" using Cons.prems(1,2) by (auto simp: d_has_def e)
  obtain ins1 where ins1: "put_id j i (uid k) ins = Inr ins1" "fst ` set ins1 = fst ` set ins"
      "\<And>a b. id_at ins1 a b = (if a = j \<and> b = i then Some (uid k) else id_at ins a b)"
    using put_id_spec [OF h(1)] by blast
  obtain outs1 where outs1: "put_id i j (uid k) outs = Inr outs1" "fst ` set outs1 = fst ` set outs"
      "\<And>a b. id_at outs1 a b = (if a = i \<and> b = j then Some (uid k) else id_at outs a b)"
    using put_id_spec [OF h(2)] by blast
  have up: "[k..<k + length (e # es)] = k # [Suc k..<Suc k + length es]"
    by (simp add: upt_rec)
  have pre: "fst ` set es \<subseteq> fst ` set outs1" "snd ` set es \<subseteq> fst ` set ins1" "distinct es"
    using Cons.prems ins1(2) outs1(2) by auto
  obtain ins' outs' where loop: "foldR (nccl_step uid) (zip [Suc k..<Suc k + length es] es) (ins1, outs1)
        = Inr (ins', outs')"
    and at: "\<And>a b. id_at outs' a b = (case map_of (zip es [Suc k..<Suc k + length es]) (a, b) of
        Some n \<Rightarrow> Some (uid n) | None \<Rightarrow> id_at outs1 a b) \<and>
      id_at ins' b a = (case map_of (zip es [Suc k..<Suc k + length es]) (a, b) of
        Some n \<Rightarrow> Some (uid n) | None \<Rightarrow> id_at ins1 b a)"
    using Cons.IH [OF pre, of "Suc k"] by blast
  have step: "foldR (nccl_step uid) (zip [k..<k + length (e # es)] (e # es)) (ins, outs) = Inr (ins', outs')"
    unfolding up using loop by (simp add: nccl_step_def e ins1(1) outs1(1))
  have "(i, j) \<notin> set es" using Cons.prems(3) e by simp
  then have none: "map_of (zip es [Suc k..<Suc k + length es]) (i, j) = None"
    by (metis length_map length_upt add_diff_cancel_left' map_of_zip_is_None)
  define z where "z = zip es [Suc k..<Suc k + length es]"
  have z1: "zip (e # es) [k..<k + length (e # es)] = ((i, j), k) # z"
    unfolding e [symmetric] up z_def by (rule zip_Cons_Cons)
  have "id_at outs' a b = (case map_of (((i, j), k) # z) (a, b) of
        Some n \<Rightarrow> Some (uid n) | None \<Rightarrow> id_at outs a b) \<and>
      id_at ins' b a = (case map_of (((i, j), k) # z) (a, b) of
        Some n \<Rightarrow> Some (uid n) | None \<Rightarrow> id_at ins b a)" for a b
    using at [of a b, folded z_def] none [folded z_def]
    by (cases "(a, b) = (i, j)") (auto simp: ins1(3) outs1(3) split: option.split)
  then have "\<forall>a b. id_at outs' a b = (case map_of (zip (e # es) [k..<k + length (e # es)]) (a, b) of
        Some n \<Rightarrow> Some (uid n) | None \<Rightarrow> id_at outs a b) \<and>
      id_at ins' b a = (case map_of (zip (e # es) [k..<k + length (e # es)]) (a, b) of
        Some n \<Rightarrow> Some (uid n) | None \<Rightarrow> id_at ins b a)"
    unfolding z1 by blast
  then show ?case using step by blast
qed simp

text \<open>What every solved placement satisfies.\<close>

definition edge_keys :: "model_placement \<Rightarrow> bool" where
  "edge_keys p \<longleftrightarrow> distinct (map fst (pl_in_device_ids p)) \<and> distinct (map fst (pl_out_device_ids p))"

lemma add_edge_keys: "edge_keys p \<Longrightarrow> edge_keys (add_edge s d p)"
  by (simp add: edge_keys_def add_edge_def Let_def distinct_update)

lemma add_all_keys: "edge_keys p \<Longrightarrow> edge_keys (add_all es p)"
  unfolding add_all_def by (induction es arbitrary: p) (auto simp: add_edge_keys)


lemma strategy_no_edges:
  assumes "strategy_solve st c n_node n_gpu = Inr p"
  shows "pl_in_device_ids p = [] \<and> pl_out_device_ids p = []"
proof (cases st)
  case (Single rep)
  then show ?thesis using assms by (simp add: strategy_solve_def single_never_solves)
qed (use assms in \<open>auto simp: strategy_solve_def colocate_solve_def interleave_solve_def
       pipeline_solve_def placement_new_def res Let_def case_prod_beta split: if_splits\<close>)

lemma solved_edges:
  assumes "solve_placement st c n_node n_gpu = Inr p"
  shows "edges_ok p \<and> edge_keys p"
proof -
  obtain p0 p1 p2 where s: "strategy_solve st c n_node n_gpu = Inr p0"
      "add_edges (mc_num_layers c) p0 = Inr p1"
      "update_expert_rank c (strategy_alloc st) p1 = Inr p2"
      "update_attn_dp_rank st c p2 = Inr p"
    using assms by (auto simp: solve_placement_def res)
  have e0: "edges_ok p0" "edge_keys p0"
    using strategy_no_edges [OF s(1)]
    by (simp_all add: edges_ok_def edge_keys_def in_of_def out_of_def d_get_or_def)
  obtain es where "p1 = add_all es p0"
    using add_edges_Inr_layers [OF s(2)] add_edges_eq [of "mc_num_layers c" p0] s(2) by auto
  then have "edges_ok p1" "edge_keys p1" using e0 add_all_ok add_all_keys by auto
  moreover have "pl_in_device_ids p = pl_in_device_ids p1 \<and> pl_out_device_ids p = pl_out_device_ids p1"
    using s(3,4) by (auto simp: update_expert_rank_def update_attn_dp_rank_def res
        split: option.splits if_splits)
  ultimately show ?thesis by (simp add: edges_ok_def edge_keys_def in_of_def out_of_def)
qed

lemma set_edge_list:
  assumes "edge_keys p"
  shows "(i, j) \<in> set (edge_list p) \<longleftrightarrow> j \<in> set (out_of p i)"
proof -
  have "(i, j) \<in> set (edge_list p) \<longleftrightarrow> (\<exists>js. (i, js) \<in> set (pl_out_device_ids p) \<and> j \<in> set js)"
    by (auto simp: edge_list_def)
  also have "\<dots> \<longleftrightarrow> j \<in> set (out_of p i)"
    using assms map_of_eq_Some_iff [of "pl_out_device_ids p" i]
    by (auto simp: edge_keys_def out_of_def d_get_or_def split: option.splits)
  finally show ?thesis .
qed

lemma edge_list_distinct:
  assumes "edge_keys p" and "edges_ok p"
  shows "distinct (edge_list p)"
proof -
  have each: "distinct js" if "(i, js) \<in> set (pl_out_device_ids p)" for i js
    using that assms map_of_eq_Some_iff [of "pl_out_device_ids p" i js]
    by (auto simp: edge_keys_def edges_ok_def out_of_def d_get_or_def dest!: spec [of _ i] split: option.splits)
  have "distinct (map fst d) \<Longrightarrow> \<forall>(i, js) \<in> set d. distinct js \<Longrightarrow>
      distinct (concat (map (\<lambda>(i, js). map (\<lambda>j. (i, j)) js) d))" for d :: "(nat \<times> nat list) list"
    by (induction d) (force simp: distinct_map inj_on_def)+
  then show ?thesis using each assms(1) unfolding edge_list_def edge_keys_def by blast
qed

lemma nccl_ids_spec:
  assumes "edges_ok p" and "edge_keys p"
  shows "\<exists>ins outs. get_pairwise_nccl_ids uid p = Inr (ins, outs) \<and>
    (\<forall>i j. id_at ins j i = id_at outs i j \<and>
      id_at outs i j = map_option uid (map_of (zip (edge_list p) [0..<length (edge_list p)]) (i, j)))"
proof -
  let ?es = "edge_list p"
  define ins0 where "ins0 = map (\<lambda>(i, _). (i, [] :: (nat, 'a) dict)) (pl_in_device_ids p)"
  define outs0 where "outs0 = map (\<lambda>(i, _). (i, [] :: (nat, 'a) dict)) (pl_out_device_ids p)"
  have k: "fst ` set ins0 = fst ` set (pl_in_device_ids p)" "fst ` set outs0 = fst ` set (pl_out_device_ids p)"
    by (force simp: ins0_def outs0_def image_iff)+
  have out: "fst ` set ?es \<subseteq> fst ` set outs0" by (force simp: k edge_list_def)
  have "j \<in> fst ` set (pl_in_device_ids p)" if "(i, j) \<in> set ?es" for i j
  proof -
    have "i \<in> set (in_of p j)" using that assms by (simp add: set_edge_list edges_ok_def)
    then have "map_of (pl_in_device_ids p) j \<noteq> None"
      by (cases "map_of (pl_in_device_ids p) j") (simp_all add: in_of_def d_get_or_def)
    then show ?thesis by (simp add: map_of_eq_None_iff)
  qed
  then have ins: "snd ` set ?es \<subseteq> fst ` set ins0" by (auto simp: k)
  have empty: "id_at ins0 a b = None" "id_at outs0 a b = None" for a b
  proof -
    have no: "map_of (map (\<lambda>(i, _). (i, [] :: (nat, 'a) dict)) d) x = Some m \<Longrightarrow> m = []"
      for d :: "(nat, nat list) dict" and x m
      by (induction d) (auto split: if_splits)
    show "id_at ins0 a b = None" "id_at outs0 a b = None"
      unfolding id_at_def ins0_def outs0_def by (auto split: option.split dest: no)
  qed
  let ?m = "map_of (zip ?es [0..<length ?es])"
  have c: "(case y of Some n \<Rightarrow> Some (uid n) | None \<Rightarrow> v) = map_option uid y"
    if "v = None" for y v using that by (cases y) simp_all
  obtain ins outs where loop: "foldR (nccl_step uid) (zip [0..<length ?es] ?es) (ins0, outs0) = Inr (ins, outs)"
    and at: "\<forall>i j. id_at outs i j = (case ?m (i, j) of Some n \<Rightarrow> Some (uid n) | None \<Rightarrow> id_at outs0 i j) \<and>
      id_at ins j i = (case ?m (i, j) of Some n \<Rightarrow> Some (uid n) | None \<Rightarrow> id_at ins0 j i)"
    using nccl_loop [OF out ins edge_list_distinct [OF assms(2,1)], of uid 0] by auto
  have "id_at ins j i = id_at outs i j \<and> id_at outs i j = map_option uid (?m (i, j))" for i j
    using at c [OF empty(1) [of j i], of "?m (i, j)"] c [OF empty(2) [of i j], of "?m (i, j)"] by metis
  with loop have "foldR (nccl_step uid) (zip [0..<length ?es] ?es) (ins0, outs0) = Inr (ins, outs) \<and>
    (\<forall>i j. id_at ins j i = id_at outs i j \<and> id_at outs i j = map_option uid (?m (i, j)))" by blast
  then show ?thesis by (auto simp: get_pairwise_nccl_ids_def ins0_def outs0_def)
qed


section \<open>The workers\<close>

definition worker_type :: "model_placement \<Rightarrow> nat \<Rightarrow> engine_type" where
  "worker_type p d =
     (if pl_is_hybrid p then HYBRID else if Placement.has_attn p d then ATTENTION else EXPERT)"

text \<open>
  The rank of a worker, and the address of the tokenizer socket it pulls from: a worker with
  attention takes the socket of its rank.
\<close>

definition worker_setup ::
  "model_placement \<Rightarrow> 'addr list \<Rightarrow> nat \<Rightarrow> (engine_type \<times> nat \<times> 'addr option) result" where
  "worker_setup p tokenizer_addrs d =
     (let ty = worker_type p d
      in bindR (placement_rank_at p d) (\<lambda>rank.
         if ty = HYBRID \<or> ty = ATTENTION
         then bindR (py_get tokenizer_addrs (int rank)) (\<lambda>a. Inr (ty, rank, Some a))
         else Inr (ty, rank, None)))"

text \<open>An override of the configuration applies to attributes that exist.\<close>

definition worker_engine_config ::
  "(string, 'v) dict \<Rightarrow> (nat, (string, 'v) dict) dict option \<Rightarrow> nat \<Rightarrow> (string, 'v) dict" where
  "worker_engine_config cfg per_device d =
     (case per_device of
        None \<Rightarrow> cfg
      | Some m \<Rightarrow>
          (case map_of m d of
             None \<Rightarrow> cfg
           | Some overrides \<Rightarrow>
               fold (\<lambda>(key, val) c. if d_has c key then AList.update key val c else c) overrides cfg))"

definition attn_worker_devices :: "model_placement \<Rightarrow> nat list \<Rightarrow> nat list" where
  "attn_worker_devices p devs = filter (\<lambda>d. 0 < length (attn_layer_ids_at p d)) devs"

record channel_info =
  ch_expert_ids :: "(nat \<times> nat) list"
  ch_attn_layer_ids :: "nat list"
  ch_attn_dp_rank :: nat

record 'u init_core_args =
  ic_world_size :: nat
  ic_layer_ids :: "nat list"
  ic_in_device_ids :: "nat list"
  ic_out_device_ids :: "nat list"
  ic_out_channel_infos :: "channel_info list"
  ic_inbound :: "(nat, 'u) dict"
  ic_outbound :: "(nat, 'u) dict"
  ic_expert_ranks :: "(nat \<times> nat \<times> nat) list"
  ic_expert_wise :: bool
  ic_local_num_experts :: nat
  ic_local_expert_ids :: "nat list"
  ic_out_group_ids :: "(nat, nat list) dict"
  ic_group_ids :: "nat list"
  ic_attn_dp_rank :: nat

definition channel_of :: "model_placement \<Rightarrow> nat \<Rightarrow> channel_info result" where
  "channel_of p j =
     bindR (attn_dp_rank_at p j) (\<lambda>r.
       Inr \<lparr>ch_expert_ids = expert_ids_at p j, ch_attn_layer_ids = attn_layer_ids_at p j,
            ch_attn_dp_rank = r\<rparr>)"

definition init_core_args ::
  "model_placement \<Rightarrow> nat \<Rightarrow> (nat, (nat, 'u) dict) dict \<Rightarrow> (nat, (nat, 'u) dict) dict \<Rightarrow> bool \<Rightarrow>
   nat \<Rightarrow> 'u init_core_args result" where
  "init_core_args p world ins outs expert_wise d =
     (let out = out_of p d
      in bindR (mapR (channel_of p) out) (\<lambda>chs.
         bindR (mapR (\<lambda>j. bindR (not_None AttributeError (pl_device_groups p)) (\<lambda>g.
                  Inr (j, d # d_get_or g j []))) out) (\<lambda>ogs.
         bindR (not_None AttributeError (pl_device_groups p)) (\<lambda>g.
         bindR (out_expert_ranks_at p d) (\<lambda>rks.
         bindR (attn_dp_rank_at p d) (\<lambda>r.
           Inr \<lparr>ic_world_size = world, ic_layer_ids = layer_ids_at p d,
                ic_in_device_ids = in_device_ids_at p d, ic_out_device_ids = out,
                ic_out_channel_infos = chs, ic_inbound = d_get_or ins d [],
                ic_outbound = d_get_or outs d [], ic_expert_ranks = rks,
                ic_expert_wise = expert_wise, ic_local_num_experts = local_num_experts_at p d,
                ic_local_expert_ids = unique_expert_ids_at p d,
                ic_out_group_ids = ogs, ic_group_ids = d_get_or g d [],
                ic_attn_dp_rank = r\<rparr>))))))"

text \<open>
  What the worker makes of it: \<open>setup_engine\<close> stores the type, the rank and the shape of the
  model, \<open>init_core\<close> the data-parallel rank and the layers, and passes the number of experts
  per rank to the dispatcher.
\<close>

definition setup_engine :: "engine_type \<Rightarrow> model_config \<Rightarrow> nat \<Rightarrow> engine_config \<Rightarrow> engine_config" where
  "setup_engine ty m rank c =
     c\<lparr>ec_type := ty, ec_rank_in_group := rank, ec_tp_size := mc_tp_size m, ec_top_k := mc_top_k m,
       ec_num_layers := mc_num_layers m, ec_hidden_size := mc_hidden_size m,
       ec_num_experts := mc_num_experts m\<rparr>"

definition init_core :: "'u init_core_args \<Rightarrow> engine_config \<Rightarrow> engine_config" where
  "init_core a c = c\<lparr>ec_attn_dp_rank := ic_attn_dp_rank a, ec_layer_ids := ic_layer_ids a\<rparr>"

definition experts_per_rank :: "model_config \<Rightarrow> 'u init_core_args \<Rightarrow> nat result" where
  "experts_per_rank m a =
     (if ic_local_num_experts a > 0 then Inr (ic_local_num_experts a) else num_experts_per_rank m)"

text \<open>One worker, from the placement to its configuration.\<close>

definition launch_worker ::
  "model_placement \<Rightarrow> model_config \<Rightarrow> engine_config \<Rightarrow> 'addr list \<Rightarrow> nat \<Rightarrow>
   (nat, (nat, 'u) dict) dict \<times> (nat, (nat, 'u) dict) dict \<Rightarrow> bool \<Rightarrow> nat \<Rightarrow>
   (engine_config \<times> 'addr option \<times> 'u init_core_args) result" where
  "launch_worker p m c addrs world = (\<lambda>(ins, outs) expert_wise d.
     bindR (worker_setup p addrs d) (\<lambda>(ty, rank, addr).
     bindR (init_core_args p world ins outs expert_wise d) (\<lambda>a.
       Inr (init_core a (setup_engine ty m rank c), addr, a))))"

text \<open>The scheduler: explicit weights ask for the weighted policy, otherwise \<open>max\<close> is the default.\<close>

definition choose_dp_scheduler ::
  "nat \<Rightarrow> int \<Rightarrow> (nat, real) dict option \<Rightarrow> string option \<Rightarrow> dp_sched result" where
  "choose_dp_scheduler n bs attn_dp_weights pol =
     (case attn_dp_weights of
        Some w \<Rightarrow> get_dp_scheduler n bs ''weighted''
                   (Some (map (\<lambda>i. d_get_or w i 1) [0..<n]))
      | None \<Rightarrow>
          get_dp_scheduler n bs
            (case pol of None \<Rightarrow> ''max'' | Some q \<Rightarrow> if q = [] then ''max'' else q) None)"

text \<open>The queueing delays, one list per worker, are split by the kind of the device.\<close>

definition fetch_queueing_delays ::
  "model_placement \<Rightarrow> nat list \<Rightarrow> 'r list \<Rightarrow> 'r list \<times> 'r list" where
  "fetch_queueing_delays p devs results =
     fold (\<lambda>(d, r) (attn, exps). if Placement.has_attn p d then (attn @ [r], exps) else (attn, exps @ [r]))
       (zip devs results) ([], [])"

lemma fetch_queueing_delays_filter:
  fixes results :: "'r list"
  shows "fetch_queueing_delays p devs results =
    (map snd (filter (\<lambda>(d, r). Placement.has_attn p d) (zip devs results)),
     map snd (filter (\<lambda>(d, r). \<not> Placement.has_attn p d) (zip devs results)))"
proof -
  have fold: "fold (\<lambda>(d, r) (attn, exps). if Placement.has_attn p d then (attn @ [r], exps) else (attn, exps @ [r]))
       zs (a, b) = (a @ map snd (filter (\<lambda>(d, r). Placement.has_attn p d) zs),
     b @ map snd (filter (\<lambda>(d, r). \<not> Placement.has_attn p d) zs))" for zs a b
    by (induction zs arbitrary: a b) auto
  show ?thesis unfolding fetch_queueing_delays_def fold by simp
qed


section \<open>The colocated placement\<close>

text \<open>Under the colocated strategy the rank of an expert is the device that holds it.\<close>

lemma colocate_ranks:
  assumes "solve_placement (Colocate alloc) c n_node n_gpu = Inr p"
    and "alloc = None \<Longrightarrow> mc_num_experts c = mc_ep_size c * k"
    and "(l, e) \<in> set (expert_ids_at p d)"
  shows "d < n_node * n_gpu \<and> (\<exists>rks. pl_expert_ranks p = Some rks \<and> map_of rks (l, e) = Some d)"
proof -
  obtain p0 p1 p2 where s: "strategy_solve (Colocate alloc) c n_node n_gpu = Inr p0"
    and ex: "pl_expert p = pl_expert p0" "pl_expert p1 = pl_expert p0"
    and rk: "update_expert_rank c alloc p1 = Inr p2" "pl_expert_ranks p = pl_expert_ranks p2"
    using solve_placement_parts [OF assms(1)] by (auto simp: strategy_alloc_def)
  obtain exs where cx: "colocate_experts c alloc (mc_num_layers c) (mc_num_experts c)
        (n_node * n_gpu) = Inr exs" and p0: "pl_expert p0 = exs"
    using s by (auto simp: strategy_solve_def colocate_solve_def res placement_new_def Let_def)
  have le: "(l, e) \<in> set (d_get_or exs d [])" using assms(3) by (simp add: expert_ids_at_def ex p0)
  show ?thesis
  proof (cases alloc)
    case (Some counts)
    have le': "l < mc_num_layers c" "alloc_start counts d \<le> e" "e < alloc_start counts (Suc d)"
        "d < length counts" and sum: "mc_num_experts c = (\<Sum>k \<leftarrow> counts. nat k)"
      using colocate_alloc_location [OF cx [unfolded Some], of l e d] le by auto
    have "alloc_start counts (Suc d) \<le> alloc_start counts (length counts)"
      by (rule alloc_start_mono) (use le'(4) in simp)
    then have e: "e < mc_num_experts c" using le'(3) sum by (simp add: alloc_start_def)
    obtain d' rks where w: "\<forall>x. (l, e) \<in> set (expert_ids_at p x) \<longleftrightarrow> x = d'" "d' < n_node * n_gpu"
        "pl_expert_ranks p = Some rks" "map_of rks (l, e) = Some d'"
      using colocate_alloc_where [OF assms(1) [unfolded Some] le'(1) e] by blast
    then have "d = d'" using assms(3) by simp
    then show ?thesis using w by blast
  next
    case None
    have m: "mc_num_experts c = mc_ep_size c * k" using assms(2) None by simp
    have pos: "0 < mc_num_experts c"
    proof (rule ccontr)
      assume "\<not> 0 < mc_num_experts c"
      then have "exs = map (\<lambda>i. (i, [])) [0..<n_node * n_gpu]"
        using cx None by (simp add: colocate_experts_def Let_def)
      then show False using le by (auto simp: d_get_or_def map_of_upt_map split: if_splits)
    qed
    note loc = colocate_location [OF cx [unfolded None] m pos, of l e d]
    have d: "l < mc_num_layers c" "e < mc_num_experts c" "d = e div k" using loc le by auto
    have "map_of exs d \<noteq> None" using le by (cases "map_of exs d") (auto simp: d_get_or_def)
    then have "d \<in> set (map fst exs)" by (simp add: map_of_eq_None_iff)
    then have "d < n_node * n_gpu" using loc by simp
    moreover have "\<exists>rks. pl_expert_ranks p2 = Some rks \<and> map_of rks (l, e) = Some d"
      using default_expert_rank [OF rk(1) [unfolded None] m d(1,2)] d(3) by simp
    ultimately show ?thesis by (simp add: rk(2))
  qed
qed

lemma colocate_rank_at:
  assumes "solve_placement (Colocate alloc) c n_node n_gpu = Inr p"
    and "alloc = None \<Longrightarrow> mc_num_experts c = mc_ep_size c * k"
    and "expert_ids_at p d \<noteq> []"
  shows "placement_rank_at p d = Inr d"
proof -
  obtain les where m: "map_of (pl_expert p) d = Some les" and les: "les \<noteq> []" "expert_ids_at p d = les"
    using assms(3) by (cases "map_of (pl_expert p) d") (auto simp: expert_ids_at_def d_get_or_def)
  note r = colocate_ranks [OF assms(1,2)]
  obtain rks where rks: "pl_expert_ranks p = Some rks"
    using r [of "fst (hd les)" "snd (hd les)" d] les by auto
  have "map_of rks le = Some d" if "le \<in> set les" for le
    using r [of "fst le" "snd le" d] les(2) that rks by auto
  then have "mapR (d_get rks) les = Inr (map (\<lambda>_. d) les)"
    by (intro mapR_all_Inr) (simp add: d_get_def)
  moreover have "set (map (\<lambda>_. d) les) = {d}" "map (\<lambda>_. d) les ! 0 = d"
    using les(1) by (cases les; auto)+
  moreover have "d_get (pl_expert p) d = Inr les" using m by (simp add: d_get_def)
  ultimately have "expert_rank_at p d = Inr d"
    using m rks by (simp add: expert_rank_at_def d_has_iff del: set_map)
  then show ?thesis using m by (simp add: placement_rank_at_def d_has_iff)
qed

lemma colocate_dp_rank:
  assumes "solve_placement (Colocate alloc) c n_node n_gpu = Inr p" and "d < n_node * n_gpu"
  shows "attn_dp_rank_at p d = Inr d \<and> pl_is_hybrid p"
proof -
  obtain p0 p1 p2 where s: "strategy_solve (Colocate alloc) c n_node n_gpu = Inr p0"
      "add_edges (mc_num_layers c) p0 = Inr p1"
      "update_expert_rank c alloc p1 = Inr p2"
      "update_attn_dp_rank (Colocate alloc) c p2 = Inr p"
    using assms(1) by (auto simp: solve_placement_def strategy_alloc_def res)
  have p0: "pl_attn p0 = map (\<lambda>i. (i, [0..<mc_num_layers c])) [0..<n_node * n_gpu]" "pl_is_hybrid p0"
    using s(1) by (auto simp: strategy_solve_def colocate_solve_def res placement_new_def Let_def)
  have p1: "pl_attn p1 = pl_attn p0" "pl_is_hybrid p1 = pl_is_hybrid p0"
    using add_edges_Inr_layers [OF s(2)] add_edges_eq [of "mc_num_layers c" p0] add_all_same s(2) by auto
  have p2: "pl_attn p2 = pl_attn p1" "pl_is_hybrid p2 = pl_is_hybrid p1"
    using s(3) by (auto simp: update_expert_rank_def res split: option.splits if_splits)
  have p: "pl_attn_dp_ranks p = Some (map (\<lambda>d. (d, d)) [0..<n_node * n_gpu])" "pl_is_hybrid p"
    using s(4) p0 p1 p2 by (auto simp: update_attn_dp_rank_def res comp_def)
  have "map_of (map (\<lambda>d. (d, d)) [0..<n_node * n_gpu]) d = Some d"
    using assms(2) map_of_upt_map [of "\<lambda>d. d" 0 "n_node * n_gpu" d] by simp
  then show ?thesis using p by (simp add: attn_dp_rank_at_def d_get_or_def)
qed


section \<open>Properties\<close>

text \<open>
  Every worker gets a device number of its own. If no host runs more than
  \<open>n_gpu_per_node\<close> workers, the numbers are pairwise different and smaller than
  \<open>n_gpu_per_node\<close> times the number of hosts, in whatever order the hosts come.
\<close>

theorem engines_distinct_devices:
  assumes "\<And>ip. count_list ips ip \<le> n_gpu_per_node"
  shows "distinct (create_engines n_gpu_per_node ips) \<and>
    (\<forall>d \<in> set (create_engines n_gpu_per_node ips). d < card (set ips) * n_gpu_per_node)"
  by (rule create_engines_spec [OF assms])

lemma engines_distinct_devices_witness:
  "create_engines 2 [''b'', ''a'', ''b'', ''c''] = [0, 2, 1, 4] \<and>
   distinct (create_engines 2 [''b'', ''a'', ''b'', ''c''])"
proof -
  have "count_list [''b'', ''a'', ''b'', ''c''] ip \<le> 2" for ip
    by (auto split: if_splits)
  from engines_distinct_devices [of "[''b'', ''a'', ''b'', ''c'']" 2, OF this] show ?thesis
    by (simp add: create_engines_def d_get_or_def d_has_def)
qed

text \<open>
  Both ends of a channel get the same id, and no two channels share one. On every placement
  that a strategy solves, the ids are given out without an error; the id under which \<open>j\<close>
  expects data from \<open>i\<close> is the id under which \<open>i\<close> sends to \<open>j\<close>; there is one exactly for the
  edges of the placement; and different edges have different ids if the generator never
  repeats one.
\<close>

theorem nccl_ids_pair_up:
  assumes "solve_placement st c n_node n_gpu = Inr p" and "inj uid"
  shows "\<exists>ins outs. get_pairwise_nccl_ids uid p = Inr (ins, outs) \<and>
    (\<forall>i j. id_at ins j i = id_at outs i j \<and> (id_at outs i j \<noteq> None \<longleftrightarrow> j \<in> set (out_of p i))) \<and>
    (\<forall>i j i' j' u. id_at outs i j = Some u \<longrightarrow> id_at outs i' j' = Some u \<longrightarrow> i = i' \<and> j = j')"
proof -
  have ok: "edges_ok p" "edge_keys p" using solved_edges [OF assms(1)] by auto
  let ?m = "map_of (zip (edge_list p) [0..<length (edge_list p)])"
  obtain ins outs where ids: "get_pairwise_nccl_ids uid p = Inr (ins, outs)"
    and at: "\<And>i j. id_at ins j i = id_at outs i j \<and> id_at outs i j = map_option uid (?m (i, j))"
    using nccl_ids_spec [OF ok] by blast
  note at2 = at [THEN conjunct2]
  have m: "?m x \<noteq> None \<longleftrightarrow> x \<in> set (edge_list p)" for x by (simp add: map_of_zip_is_None)
  have inj: "x = y" if "?m x = Some n" "?m y = Some n" for x y n
  proof -
    have "(x, n) \<in> set (zip (edge_list p) [0..<length (edge_list p)])"
      "(y, n) \<in> set (zip (edge_list p) [0..<length (edge_list p)])"
      using that by (auto dest: map_of_SomeD)
    then show ?thesis by (auto simp: in_set_zip)
  qed
  have "i = i' \<and> j = j'" if "id_at outs i j = Some u" "id_at outs i' j' = Some u" for i j i' j' u
    using that inj [of "(i, j)" _ "(i', j')"] assms(2) unfolding at2 by (auto dest: injD)
  moreover have "id_at outs i j \<noteq> None \<longleftrightarrow> j \<in> set (out_of p i)" for i j
    using m [of "(i, j)"] set_edge_list [OF ok(2), of i j] unfolding at2 by simp
  ultimately show ?thesis using ids at by blast
qed

lemma nccl_ids_pair_up_witness:
  "\<exists>p ins outs. solve_placement (Pipeline 1 1 True) demo_config 1 3 = Inr p \<and>
     get_pairwise_nccl_ids (\<lambda>k. k + 100) p = Inr (ins, outs) \<and> id_at ins 1 0 = id_at outs 0 1 \<and>
     id_at outs 0 1 \<noteq> None"
proof -
  have "case solve_placement (Pipeline 1 1 True) demo_config 1 3 of
      Inl e \<Rightarrow> False | Inr p \<Rightarrow> 1 \<in> set (out_of p 0)" by code_simp
  then obtain p where p: "solve_placement (Pipeline 1 1 True) demo_config 1 3 = Inr p"
      "1 \<in> set (out_of p 0)" by (auto split: sum.splits)
  have "inj (\<lambda>k :: nat. k + 100)" by (simp add: inj_def)
  from nccl_ids_pair_up [OF p(1) this] show ?thesis using p by auto
qed

text \<open>
  A request reaches the rank that the scheduler charged for it. Under the colocated
  placement the worker on device \<open>d\<close> that holds experts is set up as a hybrid worker of rank
  \<open>d\<close>, pulls from the \<open>d\<close>-th tokenizer socket, and stamps its tokens with the data-parallel
  rank \<open>d\<close>: the rank under which the scheduler keeps its ledger and the tokenizer its queues.
\<close>

theorem colocate_worker_at_its_rank:
  assumes "solve_placement (Colocate alloc) m n_node n_gpu = Inr p"
    and "alloc = None \<Longrightarrow> mc_num_experts m = mc_ep_size m * k"
    and "expert_ids_at p d \<noteq> []" and "d < length addrs"
    and "launch_worker p m c addrs world nids ew d = Inr (c', addr, a)"
  shows "ec_type c' = HYBRID \<and> ec_rank_in_group c' = d \<and> ec_attn_dp_rank c' = d \<and>
    addr = Some (addrs ! d) \<and> ec_layer_ids c' = layer_ids_at p d"
proof -
  obtain ins outs where ids: "nids = (ins, outs)" by (cases nids)
  have "(fst (hd (expert_ids_at p d)), snd (hd (expert_ids_at p d))) \<in> set (expert_ids_at p d)"
    using assms(3) by simp
  then have dev: "d < n_node * n_gpu" using colocate_ranks [OF assms(1,2)] by blast
  note dp = colocate_dp_rank [OF assms(1) dev]
  have "worker_setup p addrs d = Inr (HYBRID, d, Some (addrs ! d))"
    using colocate_rank_at [OF assms(1,2,3)] dp assms(4)
    by (simp add: worker_setup_def worker_type_def Let_def)
  then have l: "init_core_args p world ins outs ew d = Inr a" "c' = init_core a (setup_engine HYBRID m d c)"
      "addr = Some (addrs ! d)"
    using assms(5) by (auto simp: launch_worker_def ids res)
  have "ic_attn_dp_rank a = d" "ic_layer_ids a = layer_ids_at p d"
    using l(1) dp by (auto simp: init_core_args_def res Let_def)
  then show ?thesis using l by (simp add: init_core_def setup_engine_def)
qed

definition demo_worker :: engine_config where
  "demo_worker =
     \<lparr>ec_type = EXPERT, ec_rank_in_group = 0, ec_tp_size = 1, ec_top_k = 1, ec_num_layers = 2,
      ec_layer_ids = [], ec_hidden_size = 16, ec_num_experts = 4, ec_attn_dp_rank = 0,
      ec_graph_attn = False, ec_profile_gating = False, ec_max_attn_graph_bsz = 8, ec_max_batch_size_expert = 8,
      ec_expert_cls = CUTLASS, ec_l2g = [], ec_g2l = [], ec_layer_maps = []\<rparr>"

lemma demo_launch:
  "case solve_placement (Colocate None) demo_config 1 2 of
     Inl e \<Rightarrow> False
   | Inr p \<Rightarrow> expert_ids_at p 1 \<noteq> [] \<and>
       \<not> isl (launch_worker p demo_config demo_worker [5 :: nat, 6] 2
         ([] :: (nat, (nat, nat) dict) dict, []) False 1)"
  by code_simp

lemma colocate_worker_at_its_rank_witness:
  "\<exists>p c' a. solve_placement (Colocate None) demo_config 1 2 = Inr p \<and>
     launch_worker p demo_config demo_worker [5 :: nat, 6] 2
       ([] :: (nat, (nat, nat) dict) dict, []) False 1 = Inr (c', Some 6, a) \<and> ec_attn_dp_rank c' = 1"
proof -
  obtain p where p: "solve_placement (Colocate None) demo_config 1 2 = Inr p" "expert_ids_at p 1 \<noteq> []"
    and l: "\<not> isl (launch_worker p demo_config demo_worker [5 :: nat, 6] 2
         ([] :: (nat, (nat, nat) dict) dict, []) False 1)"
    using demo_launch by (auto split: sum.splits)
  obtain r where r: "launch_worker p demo_config demo_worker [5 :: nat, 6] 2
         ([] :: (nat, (nat, nat) dict) dict, []) False 1 = Inr r"
    using l by (metis isl_def sum.exhaust)
  obtain c' addr a where rr: "r = (c', addr, a)" by (cases r)
  have "mc_num_experts demo_config = mc_ep_size demo_config * 2"
    by (simp add: demo_config_def model_config_new_def)
  then have h: "None = None \<Longrightarrow> mc_num_experts demo_config = mc_ep_size demo_config * 2" by simp
  have "1 < length [5 :: nat, 6]" by simp
  from colocate_worker_at_its_rank [OF p(1) h p(2) this r [unfolded rr]]
  show ?thesis using p(1) r rr by auto
qed

section \<open>An observation\<close>

text \<open>
  Under the pipeline placement with several data-parallel groups the rank of an attention
  worker is its position in its tensor-parallel group, so all of them connect to the socket of
  rank 0 although their data-parallel ranks differ: requests that the scheduler sends to
  rank 1 are pulled by nobody, and those of rank 0 are spread over all workers.
\<close>

lemma pipeline_tokenizer_mismatch:
  "case solve_placement (Pipeline 1 1 True) (demo_config\<lparr>mc_dp_size := 2\<rparr>) 1 4 of
     Inl e \<Rightarrow> False
   | Inr p \<Rightarrow> map (\<lambda>d. worker_setup p [5 :: nat, 6] d) [0, 1]
         = [Inr (ATTENTION, 0, Some 5), Inr (ATTENTION, 0, Some 5)] \<and>
       map (attn_dp_rank_at p) [0, 1] = [Inr 0, Inr 1]"
  by code_simp

end
