(* ===== verification/Tensor.thy ===== *)
theory Tensor
  imports Prelude
begin

text \<open>
  Tensors as trees of axes, with the torch operations that the model code uses on them:
  shapes, \<open>narrow\<close> as a read and as the place a \<open>copy_\<close> writes, matrices and vectors as
  tensors of two and one axes, and blocks, the equal shares that the ranks of a tensor
  parallel group take of an axis.
\<close>

section \<open>Tensors\<close>

datatype 'a tensor = Elem 'a | Axis "'a tensor list"

text \<open>An axis takes the shape of its first entry for the axes below.\<close>

fun t_shape :: "'a tensor \<Rightarrow> nat list" where
  "t_shape (Elem x) = []"
| "t_shape (Axis []) = [0]"
| "t_shape (Axis (t # ts)) = Suc (length ts) # t_shape t"

definition size_at :: "'a tensor \<Rightarrow> nat \<Rightarrow> nat result" where
  "size_at t d = (if d < length (t_shape t) then Inr (t_shape t ! d) else Inl IndexError)"

text \<open>\<open>narrow\<close> is a view: a slice of one axis; out of range it raises.\<close>

fun narrow :: "nat \<Rightarrow> nat \<Rightarrow> nat \<Rightarrow> 'a tensor \<Rightarrow> 'a tensor result" where
  "narrow d s n (Elem x) = Inl IndexError"
| "narrow 0 s n (Axis ts) =
     (if s + n \<le> length ts then Inr (Axis (take n (drop s ts))) else Inl RuntimeError)"
| "narrow (Suc d) s n (Axis ts) = bindR (mapR (narrow d s n) ts) (\<lambda>us. Inr (Axis us))"

text \<open>Writing through such a view.\<close>

fun put_narrow :: "nat \<Rightarrow> nat \<Rightarrow> 'a tensor \<Rightarrow> 'a tensor \<Rightarrow> 'a tensor" where
  "put_narrow 0 s (Axis us) (Axis ts) = Axis (take s ts @ us @ drop (s + length us) ts)"
| "put_narrow (Suc d) s (Axis us) (Axis ts) = Axis (map2 (put_narrow d s) us ts)"
| "put_narrow d s u t = t"

definition with_shape :: "'a tensor \<Rightarrow> 'a tensor" where
  "with_shape w = (if t_shape w = [] then Axis [w] else w)"


section \<open>Vectors and matrices\<close>

definition vec :: "'a list \<Rightarrow> 'a tensor" where
  "vec xs = Axis (map Elem xs)"

definition mat :: "'a list list \<Rightarrow> 'a tensor" where
  "mat rows = Axis (map vec rows)"

definition rect :: "nat \<Rightarrow> 'a list list \<Rightarrow> bool" where
  "rect k rows \<longleftrightarrow> (\<forall>r \<in> set rows. length r = k)"

lemma t_shape_vec [simp]: "t_shape (vec xs) = [length xs]"
  by (cases xs) (simp_all add: vec_def)

lemma t_shape_mat [simp]: "rows \<noteq> [] \<Longrightarrow> rect k rows \<Longrightarrow> t_shape (mat rows) = [length rows, k]"
  by (cases rows) (simp_all add: mat_def rect_def)

lemma rect_nth: "rect k rows \<Longrightarrow> i < length rows \<Longrightarrow> length (rows ! i) = k"
  by (simp add: rect_def)

lemma rect_take [simp]: "rect k rows \<Longrightarrow> rect k (take n rows)"
  by (auto simp: rect_def dest: in_set_takeD)

lemma rect_drop [simp]: "rect k rows \<Longrightarrow> rect k (drop n rows)"
  by (auto simp: rect_def dest: in_set_dropD)

lemma rect_append [simp]: "rect k (xs @ ys) \<longleftrightarrow> rect k xs \<and> rect k ys"
  by (auto simp: rect_def)

lemma narrow_vec: "s + n \<le> length xs \<Longrightarrow> narrow 0 s n (vec xs) = Inr (vec (take n (drop s xs)))"
  by (simp add: vec_def take_map drop_map)

lemma narrow_mat: "s + n \<le> length rows \<Longrightarrow> narrow 0 s n (mat rows) = Inr (mat (take n (drop s rows)))"
  by (simp add: mat_def take_map drop_map)

lemma narrow_mat_cols:
  assumes "rect k rows" and "s + n \<le> k"
  shows "narrow (Suc 0) s n (mat rows) = Inr (mat (map (\<lambda>r. take n (drop s r)) rows))"
proof -
  have "mapR (narrow 0 s n) (map vec rows) = Inr (map (\<lambda>r. vec (take n (drop s r))) rows)"
    using assms by (induction rows) (simp_all add: rect_def narrow_vec)
  then show ?thesis by (simp add: mat_def comp_def)
qed

lemma put_narrow_mat:
  "put_narrow 0 s (mat us) (mat rows) = mat (take s rows @ us @ drop (s + length us) rows)"
  by (simp add: mat_def take_map drop_map)

section \<open>Blocks\<close>

text \<open>The share of rank \<open>r\<close> of an axis that is cut into shares of \<open>n\<close>.\<close>

definition block :: "nat \<Rightarrow> nat \<Rightarrow> 'a list \<Rightarrow> 'a list" where
  "block n r xs = take n (drop (r * n) xs)"

lemma block_fits: "r < m \<Longrightarrow> r * n + n \<le> m * (n :: nat)"
  using mult_le_mono1 [of "Suc r" m n] by simp

lemma length_block [simp]: "r < m \<Longrightarrow> length xs = m * n \<Longrightarrow> length (block n r xs) = n"
  using block_fits [of r m n] by (simp add: block_def)

lemma block_nth: "r < m \<Longrightarrow> length xs = m * n \<Longrightarrow> i < n \<Longrightarrow> block n r xs ! i = xs ! (r * n + i)"
  using block_fits [of r m n] by (simp add: block_def)

lemma block_map: "block n r (map f xs) = map f (block n r xs)"
  by (simp add: block_def take_map drop_map)

lemma block_map2: "block n r (map2 f xs ys) = map2 f (block n r xs) (block n r ys)"
  by (simp add: block_def take_map drop_map take_zip drop_zip)

lemma rect_block: "rect k rows \<Longrightarrow> rect k (block n r rows)"
  by (simp add: block_def)

lemma concat_blocks:
  assumes "length xs = m * n"
  shows "concat (map (\<lambda>r. block n r xs) [0..<m]) = xs"
  using assms
proof (induction m arbitrary: xs)
  case (Suc m)
  have "concat (map (\<lambda>r. block n r xs) [0..<Suc m]) =
      concat (map (\<lambda>r. block n r (take (m * n) xs)) [0..<m]) @ block n m xs"
    using block_fits [of _ m n]
    by (auto simp: block_def drop_take min_def intro!: arg_cong [where f = concat] map_cong)
      (metis add.commute le_diff_conv2 add_leD1 le_trans)
  also have "\<dots> = take (m * n) xs @ block n m xs"
    using Suc.prems by (subst Suc.IH) simp_all
  also have "\<dots> = xs" using Suc.prems by (simp add: block_def)
  finally show ?case .
qed simp


lemma block_of_block:
  assumes j: "j < m" 
  shows "block n j (block (m * n) r xs) = block n (r * m + j) xs"
proof -
  have "n \<le> m * n - j * n" using block_fits [OF j, of n] by linarith
  then have "take n (take (m * n - j * n) ys) = take n ys" for ys :: "'a list"
    by (simp only: take_take min_absorb1)
  then show ?thesis by (simp add: block_def drop_take add_mult_distrib mult.assoc add.commute)
qed

lemma block_append1: "j < m \<Longrightarrow> length xs = m * n \<Longrightarrow> block n j (xs @ ys) = block n j xs"
  using block_fits [of j m n] by (simp add: block_def)

lemma block_append2: "length xs = m * n \<Longrightarrow> block n (m + j) (xs @ ys) = block n j ys"
  by (simp add: block_def add_mult_distrib)

end
