(* ===== verification/Linear.thy ===== *)
theory Linear
  imports Tensor "HOL-Library.AList"
begin

text \<open>
  The model of \<open>disagmoe/models/linear.py\<close> and \<open>disagmoe/models/distributed.py\<close>: the linear
  layers that tensor parallelism splits over ranks, the loaders that cut a checkpoint into
  the shards of a rank, and the forward passes. A tensor is a tree of axes; the entries are
  abstract for the loaders and real numbers (without rounding) for the forward passes.

  The attributes that quantised parameters carry are fields of the parameter. Parameters: vLLM's
  \<open>divide\<close> (\<open>dv\<close>), the block sizes of the \<open>gguf\<close> package (\<open>ggml\<close>), uninitialised memory (\<open>emp\<close>) and
  the methods of vLLM's parameter classes (\<open>load_column_parallel_weight\<close> and its like).
\<close>

section \<open>The tensor parallel group\<close>

text \<open>
  The module variable \<open>_tp_model_config\<close> of \<open>models/distributed.py\<close>, None until it is set.
  \<open>all_reduce\<close> is torch's collective, seen from one rank.
\<close>

record tp_config =
  tc_rank :: nat
  tc_tp_size :: nat

definition get_tensor_model_parallel_rank :: "tp_config option \<Rightarrow> nat result" where
  "get_tensor_model_parallel_rank env = bindR (not_None AttributeError env) (\<lambda>c. Inr (tc_rank c))"

definition get_tensor_model_parallel_world_size :: "tp_config option \<Rightarrow> nat result" where
  "get_tensor_model_parallel_world_size env =
     bindR (not_None AttributeError env) (\<lambda>c. Inr (tc_tp_size c))"

definition tensor_model_parallel_all_reduce :: "tp_config option \<Rightarrow> ('t \<Rightarrow> 't) \<Rightarrow> 't \<Rightarrow> 't result" where
  "tensor_model_parallel_all_reduce env all_reduce t =
     bindR (get_tensor_model_parallel_world_size env) (\<lambda>n.
       Inr (if n = 1 then t else all_reduce t))"

text \<open>The first statement of \<open>tensor_model_parallel_all_gather\<close> is \<open>assert False\<close>.\<close>

definition tensor_model_parallel_all_gather :: "'t \<Rightarrow> 't result" where
  "tensor_model_parallel_all_gather t = bindR (assertR False) (\<lambda>_. Inr t)"

section \<open>Parameters and shards\<close>

record 'a param =
  p_data :: "'a tensor"
  p_output_dim :: "nat option"
  p_input_dim :: "nat option"
  p_packed_dim :: "nat option"
  p_pack_factor :: nat
  p_marlin_tile :: "nat option"
  p_metadata :: bool
  p_scalar_array :: bool
  p_bnb4 :: bool
  p_gguf :: bool
  p_gguf_type :: bool
  p_uninit :: "nat list option"
  p_weight_type :: "'a option"
  p_shard_types :: "(nat \<times> 'a) list"
  p_shards :: "(nat \<times> nat list) list"

definition copy_all :: "'a tensor \<Rightarrow> 'a param \<Rightarrow> 'a param result" where
  "copy_all w p = bindR (assertR (t_shape (p_data p) = t_shape w)) (\<lambda>_. Inr (p\<lparr>p_data := w\<rparr>))"

text \<open>\<open>param_data.narrow(dim, offset, size).copy_(w)\<close> behind the comparison of the shapes.\<close>

definition copy_shard :: "nat \<Rightarrow> nat \<Rightarrow> nat \<Rightarrow> 'a tensor \<Rightarrow> 'a param \<Rightarrow> 'a param result" where
  "copy_shard d off sz w p =
     bindR (narrow d off sz (p_data p)) (\<lambda>dst.
     bindR (assertR (t_shape dst = t_shape w)) (\<lambda>_.
       Inr (p\<lparr>p_data := put_narrow d off w (p_data p)\<rparr>)))"

definition adjust_marlin_shard :: "'a param \<Rightarrow> nat \<Rightarrow> nat \<Rightarrow> nat \<times> nat" where
  "adjust_marlin_shard p sz off =
     (case p_marlin_tile p of None \<Rightarrow> (sz, off) | Some t \<Rightarrow> (sz * t, off * t))"

text \<open>The adjustment for packed weights, shared by the loaders.\<close>

definition adjust_packed :: "'a param \<Rightarrow> nat \<Rightarrow> nat \<Rightarrow> nat \<Rightarrow> (nat \<times> nat) result" where
  "adjust_packed p d sz off =
     (if p_packed_dim p = Some d then
        (if p_pack_factor p = 0 then Inl ZeroDivisionError
         else Inr (adjust_marlin_shard p (sz div p_pack_factor p) (off div p_pack_factor p)))
      else Inr (sz, off))"

definition adjust_bitsandbytes_4bit_shard ::
  "'a param \<Rightarrow> nat \<Rightarrow> nat \<times> nat \<Rightarrow> (nat \<times> nat) result" where
  "adjust_bitsandbytes_4bit_shard p tot = (\<lambda>(orig_offset, orig_size).
     bindR (size_at (p_data p) 0) (\<lambda>q.
       if tot = 0 then Inl ZeroDivisionError
       else Inr (orig_size * q div tot, orig_offset * q div tot)))"

text \<open>One scale per logical matrix: entry \<open>i\<close> of the parameter, a scalar.\<close>

definition load_scalar :: "nat \<Rightarrow> 'a tensor \<Rightarrow> 'a param \<Rightarrow> 'a param result" where
  "load_scalar i w p =
     bindR (case w of
         Elem x \<Rightarrow> Inr w
       | Axis ts \<Rightarrow> bindR (assertR (length ts = 1)) (\<lambda>_. py_get ts 0)) (\<lambda>w.
       case p_data p of
         Elem x \<Rightarrow> Inl IndexError
       | Axis ts \<Rightarrow>
           bindR (py_get ts (int i)) (\<lambda>dst.
           bindR (assertR (t_shape dst = t_shape w)) (\<lambda>_. Inr (p\<lparr>p_data := Axis (ts[i := w])\<rparr>))))"

section \<open>The loaders\<close>

definition replicated_loader :: "'a tensor \<Rightarrow> 'a param \<Rightarrow> 'a param result" where
  "replicated_loader w p = copy_all (with_shape w) p"

definition column_loader :: "nat \<Rightarrow> 'a tensor \<Rightarrow> 'a param \<Rightarrow> 'a param result" where
  "column_loader tp_rank w p =
     bindR (case p_output_dim p of
         None \<Rightarrow> Inr w
       | Some d \<Rightarrow> bindR (size_at (p_data p) d) (\<lambda>sz. narrow d (tp_rank * sz) sz w)) (\<lambda>w.
       copy_all (with_shape w) p)"

definition row_loader :: "nat \<Rightarrow> 'a tensor \<Rightarrow> 'a param \<Rightarrow> 'a param result" where
  "row_loader tp_rank w p =
     bindR (case p_input_dim p of
         None \<Rightarrow> Inr w
       | Some d \<Rightarrow>
           if p_bnb4 p then Inr w
           else bindR (size_at (p_data p) d) (\<lambda>sz. narrow d (tp_rank * sz) sz w)) (\<lambda>w.
       copy_all (with_shape w) p)"

text \<open>
  The start of the loaders for the GGUF format: a parameter that holds the type of a weight
  takes the number, and a parameter whose memory is not yet there is given it. The row
  parallel layer gives it the share of a rank, unless the input axis is the first one.
\<close>

fun t_item :: "'a tensor \<Rightarrow> 'a result" where
  "t_item (Elem x) = Inr x"
| "t_item (Axis [t]) = t_item t"
| "t_item (Axis ts) = Inl RuntimeError"

definition gguf_weight_type :: "'a tensor \<Rightarrow> 'a param \<Rightarrow> 'a param result" where
  "gguf_weight_type w p =
     (if p_gguf_type p then bindR (t_item w) (\<lambda>x. Inr (p\<lparr>p_weight_type := Some x\<rparr>)) else Inr p)"

definition materialize :: "(nat list \<Rightarrow> 'a tensor) \<Rightarrow> nat list \<Rightarrow> 'a param \<Rightarrow> 'a param" where
  "materialize emp sh p =
     (if p_gguf p \<and> p_uninit p \<noteq> None then p\<lparr>p_data := emp sh, p_uninit := None\<rparr> else p)"

definition column_weight_loader ::
  "(nat list \<Rightarrow> 'a tensor) \<Rightarrow> nat \<Rightarrow> 'a tensor \<Rightarrow> 'a param \<Rightarrow> 'a param result" where
  "column_weight_loader emp tp_rank w p =
     bindR (gguf_weight_type w p) (\<lambda>p. column_loader tp_rank w (materialize emp (t_shape w) p))"

definition row_weight_loader ::
  "(nat list \<Rightarrow> 'a tensor) \<Rightarrow> nat \<Rightarrow> nat \<Rightarrow> 'a tensor \<Rightarrow> 'a param \<Rightarrow> 'a param result" where
  "row_weight_loader emp tp_size tp_rank w p =
     bindR (gguf_weight_type w p) (\<lambda>p.
     bindR (if p_gguf p \<and> p_uninit p \<noteq> None then
              (case p_input_dim p of
                 None \<Rightarrow> Inr (t_shape w)
               | Some d \<Rightarrow>
                   if d = 0 then Inr (t_shape w)
                   else bindR (size_at w d) (\<lambda>n.
                          if tp_size = 0 then Inl ZeroDivisionError
                          else Inr ((t_shape w)[d := n div tp_size])))
            else Inr []) (\<lambda>sh.
       row_loader tp_rank w (materialize emp sh p)))"

text \<open>
  For the fused layers the memory is as wide as the widest of the formats of the shards,
  \<open>types\<close>; a format of block size \<open>b\<close> and \<open>n\<close> bytes per block has \<open>ggml\<close> entry \<open>(b, n)\<close>.
\<close>

definition materialize_fused ::
  "('a \<Rightarrow> (nat \<times> nat) option) \<Rightarrow> (nat list \<Rightarrow> 'a tensor) \<Rightarrow> 'a list \<Rightarrow> 'a param \<Rightarrow> 'a param result" where
  "materialize_fused ggml emp types p =
     (case p_uninit p of
        None \<Rightarrow> Inr p
      | Some sh \<Rightarrow>
          if \<not> p_gguf p then Inr p
          else bindR (mapR (\<lambda>t. bindR (lookupR ggml t) (\<lambda>(b, n).
                 bindR (py_get sh 1) (\<lambda>m.
                 if b = 0 then Inl ZeroDivisionError else Inr (m div b * n)))) types) (\<lambda>row_size.
               bindR (py_get sh 0) (\<lambda>m.
               if row_size = [] then Inl ValueError
               else Inr (materialize emp [m, Max (set row_size)] p))))"

text \<open>Entry \<open>i\<close> of a parameter of types; the loaded weight holds one number.\<close>

definition load_shard_type :: "nat \<Rightarrow> 'a tensor \<Rightarrow> 'a param \<Rightarrow> 'a param result" where
  "load_shard_type i w p =
     (case p_data p of
        Elem x \<Rightarrow> Inl IndexError
      | Axis ts \<Rightarrow>
          bindR (py_get ts (int i)) (\<lambda>dst.
          if t_shape dst \<noteq> t_shape w then Inl RuntimeError
          else bindR (t_item w) (\<lambda>x.
                 Inr (p\<lparr>p_data := Axis (ts[i := w]), p_shard_types := AList.update i x (p_shard_types p)\<rparr>))))"

text \<open>
  A shard of a GGUF weight: its share is noted, and the memory, which may be wider than the
  shard, is cut to the width of the shard before it is written.
\<close>

definition copy_gguf_shard ::
  "nat \<Rightarrow> nat \<Rightarrow> nat \<Rightarrow> nat \<Rightarrow> nat \<Rightarrow> 'a tensor \<Rightarrow> 'a tensor \<Rightarrow> 'a param \<Rightarrow> 'a param result" where
  "copy_gguf_shard tp_size i d off sz w0 w p =
     bindR (size_at w0 d) (\<lambda>n.
     if tp_size = 0 then Inl ZeroDivisionError else
     let p = p\<lparr>p_shards := p_shards p @ [(i, (t_shape w0)[d := n div tp_size])]\<rparr> in
     bindR (not_None TypeError (p_input_dim p)) (\<lambda>e.
     bindR (size_at w0 e) (\<lambda>m.
     bindR (narrow e 0 m (p_data p)) (\<lambda>view.
     bindR (narrow d off sz view) (\<lambda>dst.
     bindR (assertR (t_shape dst = t_shape w)) (\<lambda>_.
       Inr (p\<lparr>p_data := put_narrow e 0 (put_narrow d off w view) (p_data p)\<rparr>)))))))"

text \<open>
  A parameter without an output dimension: metadata that is concatenated along the first axis,
  one scale per matrix, or a weight that is the same on every rank.
\<close>

definition load_undivided :: "nat \<Rightarrow> 'a tensor \<Rightarrow> 'a param \<Rightarrow> 'a param result" where
  "load_undivided i w p =
     (if p_metadata p then
        bindR (size_at w 0) (\<lambda>sz. copy_shard 0 (i * sz) sz w p)
      else if p_scalar_array p then load_scalar i w p
      else copy_all w p)"

definition merged_shard_loader ::
  "nat list \<Rightarrow> nat \<Rightarrow> nat \<Rightarrow> nat \<Rightarrow> 'a tensor \<Rightarrow> 'a param \<Rightarrow> 'a param result" where
  "merged_shard_loader sizes tp_size tp_rank i w p =
     bindR (assertR (i < length sizes)) (\<lambda>_.
     case p_output_dim p of
       None \<Rightarrow> load_undivided i w p
     | Some d \<Rightarrow>
         if tp_size = 0 then Inl ZeroDivisionError else
         bindR (adjust_packed p d (sizes ! i div tp_size) (sum_list (take i sizes) div tp_size))
           (\<lambda>(sz, off).
         bindR (if p_bnb4 p then bindR (size_at w d) (\<lambda>n. Inr (n, n * i)) else Inr (sz, off)) (\<lambda>(sz, off).
         bindR (if p_bnb4 p then Inr w else narrow d (tp_rank * sz) sz w) (\<lambda>shard.
           if p_gguf p then copy_gguf_shard tp_size i d off sz w shard p
           else copy_shard d off sz shard p))))"

definition merged_weight_loader ::
  "('a \<Rightarrow> (nat \<times> nat) option) \<Rightarrow> (nat list \<Rightarrow> 'a tensor) \<Rightarrow> 'a list \<Rightarrow> nat list \<Rightarrow> nat \<Rightarrow> nat \<Rightarrow> nat \<Rightarrow>
   'a tensor \<Rightarrow> 'a param \<Rightarrow> 'a param result" where
  "merged_weight_loader ggml emp types sizes tp_size tp_rank i w p =
     (if p_gguf_type p then load_shard_type i w p
      else bindR (materialize_fused ggml emp types p) (merged_shard_loader sizes tp_size tp_rank i w))"

fun shard_offsets :: "nat \<Rightarrow> nat \<Rightarrow> nat list \<Rightarrow> (nat \<times> nat \<times> nat) list" where
  "shard_offsets i off [] = []"
| "shard_offsets i off (sz # szs) = (i, off, sz) # shard_offsets (Suc i) (off + sz) szs"

definition merged_loader ::
  "nat list \<Rightarrow> nat \<Rightarrow> nat \<Rightarrow> 'a tensor \<Rightarrow> 'a param \<Rightarrow> 'a param result" where
  "merged_loader sizes tp_size tp_rank w p =
     (case p_output_dim p of
        None \<Rightarrow> if p_scalar_array p then load_scalar 0 w p else copy_all w p
      | Some d \<Rightarrow>
          foldR (\<lambda>(i, off, sz) p.
              bindR (adjust_packed p d sz off) (\<lambda>(sz, off).
              bindR (narrow d off sz w) (\<lambda>shard.
                merged_shard_loader sizes tp_size tp_rank i shard p)))
            (shard_offsets 0 0 sizes) p)"


section \<open>The layers\<close>

text \<open>
  \<open>rand\<close> stands for \<open>torch.randn\<close>: the values a fresh parameter has before a checkpoint is
  loaded.
\<close>

definition create_weights :: "(nat list \<Rightarrow> 'a tensor) \<Rightarrow> nat list \<Rightarrow> nat \<Rightarrow> 'a param" where
  "create_weights rand partitions inp =
     \<lparr>p_data = rand [sum_list partitions, inp], p_output_dim = Some 0, p_input_dim = Some 1,
      p_packed_dim = None, p_pack_factor = 0, p_marlin_tile = None, p_metadata = False,
      p_scalar_array = False, p_bnb4 = False, p_gguf = False, p_gguf_type = False,
      p_uninit = None, p_weight_type = None, p_shard_types = [], p_shards = []\<rparr>"

definition create_bias :: "(nat list \<Rightarrow> 'a tensor) \<Rightarrow> nat \<Rightarrow> 'a param" where
  "create_bias rand n =
     \<lparr>p_data = rand [n], p_output_dim = Some 0, p_input_dim = None,
      p_packed_dim = None, p_pack_factor = 0, p_marlin_tile = None, p_metadata = False,
      p_scalar_array = False, p_bnb4 = False, p_gguf = False, p_gguf_type = False,
      p_uninit = None, p_weight_type = None, p_shard_types = [], p_shards = []\<rparr>"

record 'a linear =
  l_input_size :: nat
  l_output_size :: nat
  l_skip_bias_add :: bool
  l_weight :: "'a param"
  l_bias :: "'a param option"

record 'a column_linear = "'a linear" +
  c_gather_output :: bool
  c_tp_size :: nat
  c_output_size_per_partition :: nat
  c_output_partition_sizes :: "nat list"

record 'a merged_linear = "'a column_linear" +
  m_output_sizes :: "nat list"

record 'a qkv_linear = "'a merged_linear" +
  q_head_size :: nat
  q_total_num_heads :: nat
  q_total_num_kv_heads :: nat
  q_num_heads :: nat
  q_num_kv_heads :: nat
  q_num_kv_head_replicas :: nat

record 'a row_linear = "'a linear" +
  r_input_is_parallel :: bool
  r_reduce_results :: bool
  r_tp_size :: nat
  r_tp_rank :: nat
  r_input_size_per_partition :: nat

definition replicated_init ::
  "(nat list \<Rightarrow> 'a tensor) \<Rightarrow> nat \<Rightarrow> nat \<Rightarrow> bool \<Rightarrow> bool \<Rightarrow> 'a linear" where
  "replicated_init rand inp out bias skip =
     \<lparr>l_input_size = inp, l_output_size = out, l_skip_bias_add = skip,
      l_weight = create_weights rand [out] inp,
      l_bias = (if bias then Some (create_bias rand out) else None)\<rparr>"

text \<open>
  \<open>output_sizes\<close> is the attribute that the subclasses set before they call this constructor;
  \<open>dv\<close> is vLLM's \<open>divide\<close>.
\<close>

definition column_init ::
  "(nat \<Rightarrow> nat \<Rightarrow> nat result) \<Rightarrow> (nat list \<Rightarrow> 'a tensor) \<Rightarrow> tp_config option \<Rightarrow> nat list option \<Rightarrow>
   nat \<Rightarrow> nat \<Rightarrow> bool \<Rightarrow> bool \<Rightarrow> bool \<Rightarrow> 'a column_linear result" where
  "column_init dv rand env output_sizes inp out bias gather skip =
     bindR (get_tensor_model_parallel_world_size env) (\<lambda>tp_size.
     bindR (dv inp tp_size) (\<lambda>_.
     bindR (dv out tp_size) (\<lambda>part.
     bindR (case output_sizes of None \<Rightarrow> Inr [part] | Some szs \<Rightarrow> mapR (\<lambda>sz. dv sz tp_size) szs)
       (\<lambda>parts.
     Inr \<lparr>l_input_size = inp, l_output_size = out, l_skip_bias_add = skip,
          l_weight = create_weights rand parts inp,
          l_bias = (if bias then Some (create_bias rand part) else None),
          c_gather_output = gather, c_tp_size = tp_size, c_output_size_per_partition = part,
          c_output_partition_sizes = parts\<rparr>))))"

definition merged_init ::
  "(nat \<Rightarrow> nat \<Rightarrow> nat result) \<Rightarrow> (nat list \<Rightarrow> 'a tensor) \<Rightarrow> tp_config option \<Rightarrow> nat \<Rightarrow> nat list \<Rightarrow>
   bool \<Rightarrow> bool \<Rightarrow> bool \<Rightarrow> 'a merged_linear result" where
  "merged_init dv rand env inp sizes bias gather skip =
     bindR (get_tensor_model_parallel_world_size env) (\<lambda>tp_size.
     bindR (if tp_size = 0 \<and> sizes \<noteq> [] then Inl ZeroDivisionError
            else assertR (\<forall>sz \<in> set sizes. sz mod tp_size = 0)) (\<lambda>_.
     bindR (column_init dv rand env (Some sizes) inp (sum_list sizes) bias gather skip) (\<lambda>c.
       Inr (column_linear.extend c (merged_linear.fields sizes)))))"

definition qkv_init ::
  "(nat \<Rightarrow> nat \<Rightarrow> nat result) \<Rightarrow> (nat list \<Rightarrow> 'a tensor) \<Rightarrow> tp_config option \<Rightarrow> nat \<Rightarrow> nat \<Rightarrow> nat \<Rightarrow>
   nat option \<Rightarrow> nat \<Rightarrow> bool \<Rightarrow> bool \<Rightarrow> 'a qkv_linear result" where
  "qkv_init dv rand env hidden hd_size H KV tp_size bias skip =
    (let KV = (case KV of None \<Rightarrow> H | Some n \<Rightarrow> n) in
     bindR (dv H tp_size) (\<lambda>nh.
     bindR (if KV \<le> tp_size then bindR (dv tp_size KV) (\<lambda>rep. Inr (1, rep))
            else bindR (dv KV tp_size) (\<lambda>nkv. Inr (nkv, 1))) (\<lambda>(nkv, rep).
     let szs = [nh * hd_size * tp_size, nkv * hd_size * tp_size, nkv * hd_size * tp_size] in
     bindR (column_init dv rand env (Some szs) hidden ((nh + 2 * nkv) * tp_size * hd_size)
              bias False skip) (\<lambda>c.
       Inr (merged_linear.extend (column_linear.extend c (merged_linear.fields szs))
              (qkv_linear.fields hd_size H KV nh nkv rep))))))"


section \<open>Loading the fused projection\<close>

definition get_shard_offset_mapping :: "('a, 'b) qkv_linear_scheme \<Rightarrow> string \<Rightarrow> nat option" where
  "get_shard_offset_mapping l = (\<lambda>_. None)
     (''q'' := Some 0,
      ''k'' := Some (q_num_heads l * q_head_size l),
      ''v'' := Some ((q_num_heads l + q_num_kv_heads l) * q_head_size l),
      ''total'' := Some ((q_num_heads l + 2 * q_num_kv_heads l) * q_head_size l))"

definition get_shard_size_mapping :: "('a, 'b) qkv_linear_scheme \<Rightarrow> string \<Rightarrow> nat option" where
  "get_shard_size_mapping l = (\<lambda>_. None)
     (''q'' := Some (q_num_heads l * q_head_size l),
      ''k'' := Some (q_num_kv_heads l * q_head_size l),
      ''v'' := Some (q_num_kv_heads l * q_head_size l))"

definition qkv_idx :: "string \<Rightarrow> nat" where
  "qkv_idx i = (if i = ''q'' then 0 else if i = ''k'' then 1 else 2)"

text \<open>The offset and size of a shard in the parameter of a rank.\<close>

definition qkv_shard :: "('a, 'b) qkv_linear_scheme \<Rightarrow> string \<Rightarrow> nat \<times> nat" where
  "qkv_shard l i =
     (if i = ''q'' then (0, q_num_heads l * q_head_size l)
      else if i = ''k'' then (q_num_heads l * q_head_size l, q_num_kv_heads l * q_head_size l)
      else ((q_num_heads l + q_num_kv_heads l) * q_head_size l, q_num_kv_heads l * q_head_size l))"

definition qkv_shard_loader ::
  "('a, 'b) qkv_linear_scheme \<Rightarrow> nat \<Rightarrow> nat \<Rightarrow> string \<Rightarrow> 'a tensor \<Rightarrow> 'a param \<Rightarrow> 'a param result" where
  "qkv_shard_loader l tp_size tp_rank i w p =
     bindR (assertR (i \<in> {''q'', ''k'', ''v''})) (\<lambda>_.
     case p_output_dim p of
       None \<Rightarrow> load_undivided (qkv_idx i) w p
     | Some d \<Rightarrow>
         bindR (adjust_packed p d (snd (qkv_shard l i)) (fst (qkv_shard l i))) (\<lambda>(sz, off).
         bindR (if p_bnb4 p
                then adjust_bitsandbytes_4bit_shard p
                       ((q_num_heads l + 2 * q_num_kv_heads l) * q_head_size l) (qkv_shard l i)
                else Inr (sz, off)) (\<lambda>(sz, off).
         bindR (if i = ''q'' then Inr tp_rank
                else if q_num_kv_head_replicas l = 0 then Inl ZeroDivisionError
                else Inr (tp_rank div q_num_kv_head_replicas l)) (\<lambda>shard_id.
         bindR (if p_bnb4 p then Inr w else narrow d (shard_id * sz) sz w) (\<lambda>shard.
           if p_gguf p then copy_gguf_shard tp_size (qkv_idx i) d off sz w shard p
           else copy_shard d off sz shard p)))))"

definition qkv_weight_loader ::
  "('a \<Rightarrow> (nat \<times> nat) option) \<Rightarrow> (nat list \<Rightarrow> 'a tensor) \<Rightarrow> 'a list \<Rightarrow> ('a, 'b) qkv_linear_scheme \<Rightarrow>
   nat \<Rightarrow> nat \<Rightarrow> string \<Rightarrow> 'a tensor \<Rightarrow> 'a param \<Rightarrow> 'a param result" where
  "qkv_weight_loader ggml emp types l tp_size tp_rank i w p =
     (if p_gguf_type p then
        bindR (if i \<in> {''q'', ''k'', ''v''} then Inr () else Inl KeyError) (\<lambda>_.
          load_shard_type (qkv_idx i) w p)
      else bindR (materialize_fused ggml emp types p) (qkv_shard_loader l tp_size tp_rank i w))"

text \<open>A checkpoint that holds the three projections in one tensor.\<close>

definition qkv_offsets :: "('a, 'b) qkv_linear_scheme \<Rightarrow> (string \<times> nat \<times> nat) list" where
  "qkv_offsets l =
     [(''q'', 0, q_total_num_heads l * q_head_size l),
      (''k'', q_total_num_heads l * q_head_size l, q_total_num_kv_heads l * q_head_size l),
      (''v'', (q_total_num_heads l + q_total_num_kv_heads l) * q_head_size l,
       q_total_num_kv_heads l * q_head_size l)]"

definition qkv_loader ::
  "('a, 'b) qkv_linear_scheme \<Rightarrow> nat \<Rightarrow> nat \<Rightarrow> 'a tensor \<Rightarrow> 'a param \<Rightarrow> 'a param result" where
  "qkv_loader l tp_size tp_rank w p =
     (case p_output_dim p of
        None \<Rightarrow> if p_scalar_array p then load_scalar 0 w p else copy_all w p
      | Some d \<Rightarrow>
          foldR (\<lambda>(i, off, sz) p.
              bindR (adjust_packed p d sz off) (\<lambda>(sz, off).
              bindR (narrow d off sz w) (\<lambda>shard. qkv_shard_loader l tp_size tp_rank i shard p)))
            (qkv_offsets l) p)"

section \<open>The loaders of the second version\<close>

text \<open>
  For a quantised layer the work is done by a method of vLLM's parameter class; the layer
  chooses the method and its arguments. A \<open>v2_call\<close> is one such call, with \<open>ext\<close> its effect on
  the parameter's state; \<open>adj\<close> is \<open>adjust_shard_indexes_for_packing\<close>, which takes and returns
  the size first.
\<close>

datatype param_class = PerTensorScale | RowvLLM | BasevLLM | PackedColumn | PackedvLLM | OtherClass

datatype ('i, 'a) v2_call =
    LoadColumnParallel "'a tensor"
  | LoadRowParallel "'a tensor"
  | LoadWhole "'i option" "'a tensor"
  | LoadShard 'i nat nat "nat option" "'a tensor"

definition v2_packed :: "param_class \<Rightarrow> nat option \<Rightarrow> nat \<Rightarrow> bool" where
  "v2_packed cls packed_dim output_dim \<longleftrightarrow>
     cls \<in> {PackedColumn, PackedvLLM} \<and> packed_dim = Some output_dim"

text \<open>A weight with no axis holds one number, so the assertion on \<open>numel\<close> holds.\<close>

definition column_loader_v2 :: "(('i, 'a) v2_call \<Rightarrow> 's \<Rightarrow> 's result) \<Rightarrow> 'a tensor \<Rightarrow> 's \<Rightarrow> 's result" where
  "column_loader_v2 ext w = ext (LoadColumnParallel (with_shape w))"

definition row_loader_v2 :: "(('i, 'a) v2_call \<Rightarrow> 's \<Rightarrow> 's result) \<Rightarrow> 'a tensor \<Rightarrow> 's \<Rightarrow> 's result" where
  "row_loader_v2 ext w = ext (LoadRowParallel (with_shape w))"

definition fused_v2 ::
  "(nat \<times> nat \<Rightarrow> nat \<times> nat) \<Rightarrow> param_class \<Rightarrow> nat option \<Rightarrow> nat \<Rightarrow>
   ('i \<Rightarrow> 'a tensor \<Rightarrow> 's \<Rightarrow> 's result) \<Rightarrow> ('i \<times> nat \<times> nat) list \<Rightarrow> 'a tensor \<Rightarrow> 's \<Rightarrow> 's result" where
  "fused_v2 adj cls packed_dim output_dim load_shard offsets w =
     foldR (\<lambda>(i, off, sz) s.
       let (sz, off) = (if v2_packed cls packed_dim output_dim then adj (sz, off) else (sz, off))
       in bindR (narrow output_dim off sz w) (\<lambda>shard. load_shard i shard s)) offsets"

definition merged_shard_v2 ::
  "((nat, 'a) v2_call \<Rightarrow> 's \<Rightarrow> 's result) \<Rightarrow> nat list \<Rightarrow> nat \<Rightarrow> nat \<Rightarrow> 'a tensor \<Rightarrow> 's \<Rightarrow> 's result" where
  "merged_shard_v2 ext sizes tp_size i w s =
     bindR (assertR (i < length sizes)) (\<lambda>_.
     if tp_size = 0 then Inl ZeroDivisionError
     else ext (LoadShard i (sum_list (take i sizes) div tp_size) (sizes ! i div tp_size) None w) s)"

definition merged_loader_v2 ::
  "((nat, 'a) v2_call \<Rightarrow> 's \<Rightarrow> 's result) \<Rightarrow> (nat \<times> nat \<Rightarrow> nat \<times> nat) \<Rightarrow> param_class \<Rightarrow>
   nat option \<Rightarrow> nat \<Rightarrow> nat list \<Rightarrow> nat \<Rightarrow> 'a tensor \<Rightarrow> 's \<Rightarrow> 's result" where
  "merged_loader_v2 ext adj cls packed_dim output_dim sizes tp_size w s =
     (case cls of
        PerTensorScale \<Rightarrow> ext (LoadWhole (Some 0) w) s
      | RowvLLM \<Rightarrow> ext (LoadWhole None w) s
      | BasevLLM \<Rightarrow> ext (LoadWhole None w) s
      | _ \<Rightarrow> fused_v2 adj cls packed_dim output_dim (merged_shard_v2 ext sizes tp_size)
               (shard_offsets 0 0 sizes) w s)"

text \<open>The shard of a whole scale is the integer 0, written here as the first name.\<close>

definition qkv_shard_v2 ::
  "((string, 'a) v2_call \<Rightarrow> 's \<Rightarrow> 's result) \<Rightarrow> ('c, 'b) qkv_linear_scheme \<Rightarrow> string \<Rightarrow>
   'a tensor \<Rightarrow> 's \<Rightarrow> 's result" where
  "qkv_shard_v2 ext l i w s =
     bindR (assertR (i \<in> {''q'', ''k'', ''v''})) (\<lambda>_.
     bindR (not_None TypeError (get_shard_offset_mapping l i)) (\<lambda>off.
     bindR (not_None TypeError (get_shard_size_mapping l i)) (\<lambda>sz.
       ext (LoadShard i off sz (Some (q_num_kv_head_replicas l)) w) s)))"

definition qkv_loader_v2 ::
  "((string, 'a) v2_call \<Rightarrow> 's \<Rightarrow> 's result) \<Rightarrow> (nat \<times> nat \<Rightarrow> nat \<times> nat) \<Rightarrow> param_class \<Rightarrow>
   nat option \<Rightarrow> nat \<Rightarrow> ('c, 'b) qkv_linear_scheme \<Rightarrow> 'a tensor \<Rightarrow> 's \<Rightarrow> 's result" where
  "qkv_loader_v2 ext adj cls packed_dim output_dim l w s =
     (case cls of
        PerTensorScale \<Rightarrow> ext (LoadWhole (Some ''q'') w) s
      | RowvLLM \<Rightarrow> ext (LoadWhole None w) s
      | BasevLLM \<Rightarrow> ext (LoadWhole None w) s
      | _ \<Rightarrow> fused_v2 adj cls packed_dim output_dim (qkv_shard_v2 ext l) (qkv_offsets l) w s)"


section \<open>The row parallel layer and the forward passes\<close>

definition row_init ::
  "(nat \<Rightarrow> nat \<Rightarrow> nat result) \<Rightarrow> (nat list \<Rightarrow> 'a tensor) \<Rightarrow> nat \<Rightarrow> nat \<Rightarrow> nat \<Rightarrow> nat \<Rightarrow>
   bool \<Rightarrow> bool \<Rightarrow> bool \<Rightarrow> bool \<Rightarrow> 'a row_linear result" where
  "row_init dv rand inp out tp_size tp_rank bias par skip red =
     bindR (dv inp tp_size) (\<lambda>part.
     if \<not> red \<and> bias \<and> \<not> skip then Inl ValueError
     else Inr \<lparr>l_input_size = inp, l_output_size = out, l_skip_bias_add = skip,
               l_weight = create_weights rand [out] part,
               l_bias = (if bias then Some (create_bias rand out) else None),
               r_input_is_parallel = par, r_reduce_results = red, r_tp_size = tp_size,
               r_tp_rank = tp_rank, r_input_size_per_partition = part\<rparr>)"

text \<open>
  A checkpoint loads the weight and, where the layer has one, the bias, each through the
  loader of the layer.
\<close>

definition load_layer ::
  "('a tensor \<Rightarrow> 'a param \<Rightarrow> 'a param result) \<Rightarrow> 'a tensor \<Rightarrow> 'a tensor option \<Rightarrow>
   ('a, 'b) linear_scheme \<Rightarrow> ('a, 'b) linear_scheme result" where
  "load_layer loader w b l =
     bindR (loader w (l_weight l)) (\<lambda>wp.
     bindR (case (l_bias l, b) of
         (Some p, Some b) \<Rightarrow> bindR (loader b p) (\<lambda>p. Inr (Some p))
       | (p, _) \<Rightarrow> Inr p) (\<lambda>bp.
       Inr (l\<lparr>l_weight := wp, l_bias := bp\<rparr>)))"

text \<open>\<open>lin\<close> is \<open>F.linear\<close> on the rows of the input.\<close>

definition apply_linear ::
  "('x \<Rightarrow> 'a tensor \<Rightarrow> 'a tensor option \<Rightarrow> 'y result) \<Rightarrow> ('a, 'b) linear_scheme \<Rightarrow> 'x \<Rightarrow>
   'a param option \<Rightarrow> 'y result" where
  "apply_linear lin l x bias = lin x (p_data (l_weight l)) (map_option p_data bias)"

definition out_bias :: "('a, 'b) linear_scheme \<Rightarrow> 'a param option" where
  "out_bias l = (if l_skip_bias_add l then l_bias l else None)"

definition replicated_forward ::
  "('x \<Rightarrow> 'a tensor \<Rightarrow> 'a tensor option \<Rightarrow> 'y result) \<Rightarrow> ('a, 'b) linear_scheme \<Rightarrow> 'x \<Rightarrow>
   ('y \<times> 'a param option) result" where
  "replicated_forward lin l x =
     bindR (apply_linear lin l x (if l_skip_bias_add l then None else l_bias l)) (\<lambda>y.
       Inr (y, out_bias l))"

definition column_forward ::
  "('x \<Rightarrow> 'a tensor \<Rightarrow> 'a tensor option \<Rightarrow> 'y result) \<Rightarrow> ('a, 'b) column_linear_scheme \<Rightarrow> 'x \<Rightarrow>
   ('y \<times> 'a param option) result" where
  "column_forward lin l x =
     bindR (apply_linear lin l x (if l_skip_bias_add l then None else l_bias l)) (\<lambda>y.
     bindR (if c_gather_output l then tensor_model_parallel_all_gather y else Inr y) (\<lambda>y.
       Inr (y, out_bias l)))"

text \<open>The part of the forward pass of a rank before the group adds up; \<open>sp\<close> is vLLM's split.\<close>

definition row_partial ::
  "('x \<Rightarrow> 'a tensor \<Rightarrow> 'a tensor option \<Rightarrow> 'y result) \<Rightarrow> (nat \<Rightarrow> 'x \<Rightarrow> 'x list) \<Rightarrow>
   tp_config option \<Rightarrow> ('a, 'b) row_linear_scheme \<Rightarrow> 'x \<Rightarrow> 'y result" where
  "row_partial lin sp env l x =
     bindR (if r_input_is_parallel l then Inr x
            else bindR (get_tensor_model_parallel_rank env) (\<lambda>r.
                   py_get (sp (r_tp_size l) x) (int r))) (\<lambda>x.
       apply_linear lin l x (if 0 < r_tp_rank l \<or> l_skip_bias_add l then None else l_bias l))"

definition row_forward ::
  "('x \<Rightarrow> 'a tensor \<Rightarrow> 'a tensor option \<Rightarrow> 'y result) \<Rightarrow> (nat \<Rightarrow> 'x \<Rightarrow> 'x list) \<Rightarrow> ('y \<Rightarrow> 'y) \<Rightarrow>
   tp_config option \<Rightarrow> ('a, 'b) row_linear_scheme \<Rightarrow> 'x \<Rightarrow> ('y \<times> 'a param option) result" where
  "row_forward lin sp all_reduce env l x =
     bindR (row_partial lin sp env l x) (\<lambda>y.
     bindR (if r_reduce_results l \<and> 1 < r_tp_size l
            then tensor_model_parallel_all_reduce env all_reduce y else Inr y) (\<lambda>y.
       Inr (y, out_bias l)))"

text \<open>
  The ranks of a group run the layer together: the collective gives each of them what \<open>coll\<close>
  makes of the partial results of all.
\<close>

definition row_group ::
  "('x \<Rightarrow> 'a tensor \<Rightarrow> 'a tensor option \<Rightarrow> 'y result) \<Rightarrow> (nat \<Rightarrow> 'x \<Rightarrow> 'x list) \<Rightarrow> ('y list \<Rightarrow> 'y) \<Rightarrow>
   (tp_config option \<times> ('a, 'b) row_linear_scheme) list \<Rightarrow> 'x list \<Rightarrow> 'y list result" where
  "row_group lin sp coll ranks xs =
     bindR (mapR (\<lambda>((env, l), x). row_partial lin sp env l x) (zip ranks xs)) (\<lambda>ps.
     mapR (\<lambda>((env, l), x). bindR (row_forward lin sp (\<lambda>_. coll ps) env l x) (\<lambda>r. Inr (fst r)))
       (zip ranks xs))"

section \<open>What the code relies on\<close>

definition divide_ok :: "(nat \<Rightarrow> nat \<Rightarrow> nat result) \<Rightarrow> bool" where
  "divide_ok dv \<longleftrightarrow>
     (\<forall>a b. 0 < b \<longrightarrow> dv a b = (if b dvd a then Inr (a div b) else Inl AssertionError))"

definition rand_ok :: "(nat list \<Rightarrow> 'a tensor) \<Rightarrow> bool" where
  "rand_ok rand \<longleftrightarrow>
     (\<forall>n. \<exists>xs. length xs = n \<and> rand [n] = vec xs) \<and>
     (\<forall>n k. \<exists>rows. length rows = n \<and> rect k rows \<and> rand [n, k] = mat rows)"

text \<open>\<open>F.linear\<close> over the reals, with the bias a vector or absent.\<close>

definition dot :: "real list \<Rightarrow> real list \<Rightarrow> real" where
  "dot x w = sum_list (map2 (*) x w)"

definition linear_ref :: "real list list \<Rightarrow> real list list \<Rightarrow> real list option \<Rightarrow> real list list" where
  "linear_ref X W b =
     map (\<lambda>x. case b of None \<Rightarrow> map (dot x) W | Some b \<Rightarrow> map2 (+) (map (dot x) W) b) X"

definition linear_ok ::
  "(real list list \<Rightarrow> real tensor \<Rightarrow> real tensor option \<Rightarrow> real list list result) \<Rightarrow> bool" where
  "linear_ok lin \<longleftrightarrow>
     (\<forall>X W k b. rect k X \<longrightarrow> rect k W \<longrightarrow> (case b of None \<Rightarrow> True | Some b \<Rightarrow> length b = length W) \<longrightarrow>
       lin X (mat W) (map_option vec b) = Inr (linear_ref X W b))"

definition add_mat :: "real list list \<Rightarrow> real list list \<Rightarrow> real list list" where
  "add_mat = map2 (map2 (+))"

definition reduce_ok :: "(real list list list \<Rightarrow> real list list) \<Rightarrow> bool" where
  "reduce_ok coll \<longleftrightarrow> (\<forall>p ps. coll (p # ps) = foldl add_mat p ps)"

end
