(* ===== verification/LinearProps.thy ===== *)
theory LinearProps
  imports Linear
begin

text \<open>
  What the tensor parallel layers compute: the shards that the loaders cut are blocks of the
  checkpoint, the outputs of a column parallel layer side by side are the output of the whole
  layer, the partial results of a row parallel layer add up to it, and a fused attention
  projection puts next to every query head the key and value head it attends with.
\<close>

section \<open>Fresh parameters and their loaders\<close>

lemma rand_matrix:
  assumes "rand_ok rand"
  obtains rows where "length rows = n" "rect k rows" "rand [n, k] = mat rows"
  using assms unfolding rand_ok_def by blast

lemma rand_vector:
  assumes "rand_ok rand"
  obtains xs where "length xs = n" "rand [n] = vec xs"
  using assms unfolding rand_ok_def by blast

lemma copy_all_vec:
  "p_data p = vec xs \<Longrightarrow> length ys = length xs \<Longrightarrow>
     copy_all (with_shape (vec ys)) p = Inr (p\<lparr>p_data := vec ys\<rparr>)"
  by (simp add: copy_all_def with_shape_def)

lemma copy_all_mat:
  assumes "p_data p = mat rows" and "rows \<noteq> []" and "rect k rows"
    and "length us = length rows" and "rect k us"
  shows "copy_all (with_shape (mat us)) p = Inr (p\<lparr>p_data := mat us\<rparr>)"
proof -
  have "us \<noteq> []" using assms by auto
  then show ?thesis using assms by (simp add: copy_all_def with_shape_def)
qed

text \<open>A parameter of a rank that is cut along the first axis receives the block of the rank.\<close>

lemma column_loads_block:
  assumes rand: "rand_ok rand" and W: "length W = tp * n" "rect k W" and n: "0 < n" and r: "r < tp"
    and p: "p = create_weights rand parts k" and parts: "sum_list parts = n"
  shows "column_loader r (mat W) p = Inr (p\<lparr>p_data := mat (block n r W)\<rparr>)"
proof -
  obtain rows where rows: "length rows = n" "rect k rows" "rand [n, k] = mat rows"
    using rand_matrix [OF rand] by blast
  have ne: "rows \<noteq> []" using rows n by auto
  have fits: "r * n + n \<le> length W" using block_fits [OF r, of n] W by simp
  have "narrow 0 (r * n) n (mat W) = Inr (mat (block n r W))"
    using narrow_mat [OF fits] by (simp add: block_def)
  moreover have "copy_all (with_shape (mat (block n r W))) p = Inr (p\<lparr>p_data := mat (block n r W)\<rparr>)"
    using rows ne W r p parts
    by (intro copy_all_mat [where rows = rows and k = k])
      (simp_all add: create_weights_def rect_block)
  ultimately show ?thesis
    using rows ne p parts by (simp add: column_loader_def create_weights_def size_at_def)
qed

lemma column_loads_bias:
  assumes rand: "rand_ok rand" and b: "length b = tp * n" and r: "r < tp"
    and p: "p = create_bias rand n"
  shows "column_loader r (vec b) p = Inr (p\<lparr>p_data := vec (block n r b)\<rparr>)"
proof -
  obtain xs where xs: "length xs = n" "rand [n] = vec xs"
    using rand_vector [OF rand] by blast
  have fits: "r * n + n \<le> length b" using block_fits [OF r, of n] b by simp
  have "narrow 0 (r * n) n (vec b) = Inr (vec (block n r b))"
    using narrow_vec [OF fits] by (simp add: block_def)
  moreover have "copy_all (with_shape (vec (block n r b))) p = Inr (p\<lparr>p_data := vec (block n r b)\<rparr>)"
    using xs b r p by (intro copy_all_vec [where xs = xs]) (simp_all add: create_bias_def)
  ultimately show ?thesis
    using xs p by (simp add: column_loader_def create_bias_def size_at_def)
qed

text \<open>A weight that is cut along the input axis: each row keeps its block.\<close>

lemma row_loads_block:
  assumes rand: "rand_ok rand" and W: "length W = m" "rect (tp * n) W" and m: "0 < m" and r: "r < tp"
    and p: "p = create_weights rand [m] n"
  shows "row_loader r (mat W) p = Inr (p\<lparr>p_data := mat (map (block n r) W)\<rparr>)"
proof -
  obtain rows where rows: "length rows = m" "rect n rows" "rand [m, n] = mat rows"
    using rand_matrix [OF rand] by blast
  have ne: "rows \<noteq> []" using rows m by auto
  have "narrow 1 (r * n) n (mat W) = Inr (mat (map (block n r) W))"
    using narrow_mat_cols [OF W(2) block_fits [OF r]] by (simp add: block_def [abs_def])
  moreover have "rect n (map (block n r) W)"
    using W r by (auto simp: rect_def)
  then have "copy_all (with_shape (mat (map (block n r) W))) p
      = Inr (p\<lparr>p_data := mat (map (block n r) W)\<rparr>)"
    using rows ne W p
    by (intro copy_all_mat [where rows = rows and k = n]) (simp_all add: create_weights_def)
  ultimately show ?thesis
    using rows ne p by (simp add: row_loader_def create_weights_def size_at_def)
qed

lemma row_loads_bias:
  assumes rand: "rand_ok rand" and "length b = m" and p: "p = create_bias rand m"
  shows "row_loader r (vec b) p = Inr (p\<lparr>p_data := vec b\<rparr>)"
proof -
  obtain xs where xs: "length xs = m" "rand [m] = vec xs"
    using rand_vector [OF rand] by blast
  then show ?thesis
    using assms(2) p copy_all_vec [of p xs b] by (simp add: row_loader_def create_bias_def)
qed

section \<open>The column parallel layer\<close>

text \<open>The weight and bias that a layer holds after loading.\<close>

lemma dvd_divide: "divide_ok dv \<Longrightarrow> 0 < m \<Longrightarrow> dv (m * n) m = Inr n"
  by (simp add: divide_ok_def)

lemma column_built:
  assumes dv: "divide_ok dv" and tp: "0 < tp" and k: "tp dvd k"
    and env: "env = Some \<lparr>tc_rank = r, tc_tp_size = tp\<rparr>"
  shows "column_init dv rand env None k (tp * n) bias gather skip =
     Inr \<lparr>l_input_size = k, l_output_size = tp * n, l_skip_bias_add = skip,
          l_weight = create_weights rand [n] k,
          l_bias = (if bias then Some (create_bias rand n) else None),
          c_gather_output = gather, c_tp_size = tp, c_output_size_per_partition = n,
          c_output_partition_sizes = [n]\<rparr>"
proof -
  have "dv k tp = Inr (k div tp)" using dv tp k by (simp add: divide_ok_def)
  then show ?thesis
    using dvd_divide [OF dv tp, of n] env
    by (simp add: column_init_def get_tensor_model_parallel_world_size_def)
qed

lemma linear_ref_block:
  "linear_ref X (block n r W) (map_option (block n r) b) = map (block n r) (linear_ref X W b)"
  by (cases b) (simp_all add: linear_ref_def block_map2 flip: block_map)

lemma linear_okD:
  "linear_ok lin \<Longrightarrow> rect k X \<Longrightarrow> rect k W \<Longrightarrow>
     (case b of None \<Rightarrow> True | Some b \<Rightarrow> length b = length W) \<Longrightarrow>
     lin X (mat W) (map_option vec b) = Inr (linear_ref X W b)"
  unfolding linear_ok_def by blast

definition column_rank ::
  "(nat \<Rightarrow> nat \<Rightarrow> nat result) \<Rightarrow> (nat list \<Rightarrow> real tensor) \<Rightarrow>
   (real list list \<Rightarrow> real tensor \<Rightarrow> real tensor option \<Rightarrow> real list list result) \<Rightarrow> nat \<Rightarrow> nat \<Rightarrow> nat \<Rightarrow>
   real list list \<Rightarrow> real list option \<Rightarrow> real list list \<Rightarrow> nat \<Rightarrow> real list list result" where
  "column_rank dv rand lin tp k out W b X r =
     bindR (column_init dv rand (Some \<lparr>tc_rank = r, tc_tp_size = tp\<rparr>) None k out (b \<noteq> None)
              False False) (\<lambda>l.
     bindR (load_layer (column_loader r) (mat W) (map_option vec b) l) (\<lambda>l.
     bindR (column_forward lin l X) (\<lambda>y. Inr (fst y))))"

lemma column_rank_output:
  assumes dv: "divide_ok dv" and rand: "rand_ok rand" and lin: "linear_ok lin"
    and n: "0 < n" and k: "tp dvd k"
    and W: "length W = tp * n" "rect k W" and X: "rect k X"
    and b: "case b of None \<Rightarrow> True | Some b \<Rightarrow> length b = tp * n" and r: "r < tp"
  shows "column_rank dv rand lin tp k (tp * n) W b X r = Inr (map (block n r) (linear_ref X W b))"
proof -
  have tp: "0 < tp" using r by simp
  note built = column_built [OF dv tp k refl, of rand r n]
  note wl = column_loads_block [OF rand W n r refl, of "[n]"]
  have bl: "column_loader r (vec b') (create_bias rand n)
      = Inr ((create_bias rand n)\<lparr>p_data := vec (block n r b')\<rparr>)" if "b = Some b'" for b'
    using column_loads_bias [OF rand _ r refl] that b by simp
  have "lin X (mat (block n r W)) (map_option vec (map_option (block n r) b)) =
      Inr (linear_ref X (block n r W) (map_option (block n r) b))"
    using W(1) b r by (intro linear_okD [OF lin X rect_block [OF W(2)]]) (auto split: option.splits)
  then have ap: "lin X (mat (block n r W)) (map_option (\<lambda>b. vec (block n r b)) b) =
      Inr (map (block n r) (linear_ref X W b))"
    by (simp add: linear_ref_block option.map_comp comp_def)
  show ?thesis
    using ap bl
    by (cases b)
      (simp_all add: column_rank_def built wl load_layer_def column_forward_def apply_linear_def)
qed


section \<open>The row parallel layer\<close>

definition split_ok :: "(nat \<Rightarrow> real list list \<Rightarrow> real list list list) \<Rightarrow> bool" where
  "split_ok sp \<longleftrightarrow>
     (\<forall>m n X. rect (m * n) X \<longrightarrow> sp m X = map (\<lambda>r. map (block n r) X) [0..<m])"

text \<open>The layer of a rank after loading, and the group on an input.\<close>

definition row_setup ::
  "(nat \<Rightarrow> nat \<Rightarrow> nat result) \<Rightarrow> (nat list \<Rightarrow> real tensor) \<Rightarrow> nat \<Rightarrow> nat \<Rightarrow> bool \<Rightarrow>
   real list list \<Rightarrow> real list option \<Rightarrow> nat \<Rightarrow> (tp_config option \<times> real row_linear) result" where
  "row_setup dv rand tp k par W b r =
     bindR (row_init dv rand k (length W) tp r (b \<noteq> None) par False True) (\<lambda>l.
     bindR (load_layer (row_loader r) (mat W) (map_option vec b) l) (\<lambda>l.
       Inr (Some \<lparr>tc_rank = r, tc_tp_size = tp\<rparr>, l)))"

definition tabulate :: "nat \<Rightarrow> nat \<Rightarrow> (nat \<Rightarrow> nat \<Rightarrow> real) \<Rightarrow> real list list" where
  "tabulate M N g = map (\<lambda>i. map (g i) [0..<N]) [0..<M]"

lemma tabulate_cong: "(\<And>i j. i < M \<Longrightarrow> j < N \<Longrightarrow> g i j = h i j) \<Longrightarrow> tabulate M N g = tabulate M N h"
  by (simp add: tabulate_def)

lemma map2_upt: "map2 f (map g [0..<m]) (map h [0..<m]) = map (\<lambda>i. f (g i) (h i)) [0..<m]"
  by (rule nth_equalityI) simp_all

lemma add_tabulate: "add_mat (tabulate M N g) (tabulate M N h) = tabulate M N (\<lambda>i j. g i j + h i j)"
  by (simp add: add_mat_def tabulate_def map2_upt)

lemma fold_tabulate:
  "foldl add_mat (tabulate M N g) (map (\<lambda>r. tabulate M N (f r)) rs) =
     tabulate M N (\<lambda>i j. g i j + sum_list (map (\<lambda>r. f r i j) rs))"
  by (induction rs arbitrary: g) (simp_all add: add_tabulate add.assoc)

definition bias_at :: "real list option \<Rightarrow> nat \<Rightarrow> real" where
  "bias_at b j = (case b of None \<Rightarrow> 0 | Some b \<Rightarrow> b ! j)"

lemma linear_ref_tabulate:
  assumes "case b of None \<Rightarrow> True | Some b \<Rightarrow> length b = length W"
  shows "linear_ref X W b = tabulate (length X) (length W) (\<lambda>i j. dot (X ! i) (W ! j) + bias_at b j)"
  using assms
  by (cases b)
    (auto simp: linear_ref_def tabulate_def bias_at_def intro!: nth_equalityI)

lemma dot_block: "dot (block n r x) (block n r w) = sum_list (block n r (map2 (*) x w))"
  by (simp add: dot_def block_map2)

lemma sum_concat: "sum_list (concat xss) = sum_list (map sum_list (xss :: real list list))"
  by (induction xss) simp_all

lemma dot_blocks:
  assumes "length x = tp * n" and "length w = tp * n"
  shows "sum_list (map (\<lambda>r. dot (block n r x) (block n r w)) [0..<tp]) = dot x w"
proof -
  have "sum_list (map (\<lambda>r. dot (block n r x) (block n r w)) [0..<tp]) =
      sum_list (concat (map (\<lambda>r. block n r (map2 (*) x w)) [0..<tp]))"
    by (simp add: dot_block sum_concat comp_def)
  also have "\<dots> = dot x w"
    using assms by (subst concat_blocks) (simp_all add: dot_def)
  finally show ?thesis .
qed

text \<open>The partial result of a rank: its share of each product, the bias on rank 0 only.\<close>

definition row_part :: "nat \<Rightarrow> real list list \<Rightarrow> real list list \<Rightarrow> real list option \<Rightarrow> nat \<Rightarrow> real list list" where
  "row_part n X W b r =
     linear_ref (map (block n r) X) (map (block n r) W) (if r = 0 then b else None)"

lemma row_parts_sum:
  assumes tp: "0 < tp" and W: "rect (tp * n) W" and X: "rect (tp * n) X"
    and b: "case b of None \<Rightarrow> True | Some b \<Rightarrow> length b = length W"
  shows "foldl add_mat (row_part n X W b 0) (map (row_part n X W b) [1..<tp]) = linear_ref X W b"
proof -
  define d where "d r i j = dot (block n r (X ! i)) (block n r (W ! j))" for r i j
  have head: "row_part n X W b 0 = tabulate (length X) (length W) (\<lambda>i j. d 0 i j + bias_at b j)"
    unfolding row_part_def
    using b by (subst linear_ref_tabulate) (auto simp: d_def intro!: tabulate_cong split: option.splits)
  have tail: "row_part n X W b r = tabulate (length X) (length W) (d r)" if "r \<in> set [1..<tp]" for r
    unfolding row_part_def
    using that by (subst linear_ref_tabulate) (auto simp: d_def bias_at_def intro!: tabulate_cong)
  have tails: "map (row_part n X W b) [1..<tp] =
      map (\<lambda>r. tabulate (length X) (length W) (d r)) [1..<tp]"
    by (rule map_cong [OF refl tail])
  have "foldl add_mat (row_part n X W b 0) (map (row_part n X W b) [1..<tp]) =
      tabulate (length X) (length W)
        (\<lambda>i j. d 0 i j + bias_at b j + sum_list (map (\<lambda>r. d r i j) [1..<tp]))"
    unfolding head tails by (rule fold_tabulate)
  also have "\<dots> = tabulate (length X) (length W) (\<lambda>i j. dot (X ! i) (W ! j) + bias_at b j)"
  proof (rule tabulate_cong)
    fix i j assume "i < length X" "j < length W"
    then have "sum_list (map (\<lambda>r. d r i j) [0..<tp]) = dot (X ! i) (W ! j)"
      unfolding d_def using rect_nth [OF X] rect_nth [OF W] by (intro dot_blocks) simp_all
    then show "d 0 i j + bias_at b j + sum_list (map (\<lambda>r. d r i j) [1..<tp]) =
        dot (X ! i) (W ! j) + bias_at b j"
      using tp by (simp add: upt_conv_Cons)
  qed
  also have "\<dots> = linear_ref X W b" using b by (simp add: linear_ref_tabulate)
  finally show ?thesis .
qed


lemma row_setup_eq:
  assumes dv: "divide_ok dv" and rand: "rand_ok rand" and tp: "0 < tp"
    and W: "W \<noteq> []" "rect (tp * n) W" and r: "r < tp"
    and b: "case b of None \<Rightarrow> True | Some b \<Rightarrow> length b = length W"
  shows "\<exists>l. row_setup dv rand tp (tp * n) par W b r = Inr (Some \<lparr>tc_rank = r, tc_tp_size = tp\<rparr>, l) \<and>
     r_input_is_parallel l = par \<and> r_reduce_results l \<and> r_tp_size l = tp \<and> r_tp_rank l = r \<and>
     \<not> l_skip_bias_add l \<and> p_data (l_weight l) = mat (map (block n r) W) \<and>
     map_option p_data (l_bias l) = map_option vec b"
proof -
  have m: "0 < length W" using W(1) by simp
  note wl = row_loads_block [OF rand refl W(2) m r refl]
  note dv = dvd_divide [OF dv tp, of n]
  show ?thesis
  proof (cases b)
    case None
    then show ?thesis using dv wl by (simp add: row_setup_def row_init_def load_layer_def)
  next
    case (Some b')
    then have "row_loader r (vec b') (create_bias rand (length W)) =
        Inr ((create_bias rand (length W))\<lparr>p_data := vec b'\<rparr>)"
      using row_loads_bias [OF rand _ refl] b by simp
    then show ?thesis using Some dv wl by (simp add: row_setup_def row_init_def load_layer_def)
  qed
qed

lemma row_partial_eq:
  assumes lin: "linear_ok lin" and sp: "split_ok sp"
    and W: "rect (tp * n) W" and X: "rect (tp * n) X" and r: "r < tp"
    and b: "case b of None \<Rightarrow> True | Some b \<Rightarrow> length b = length W"
    and l: "r_input_is_parallel l = par" "r_tp_size l = tp" "r_tp_rank l = r"
      "\<not> l_skip_bias_add l" "p_data (l_weight l) = mat (map (block n r) W)"
      "map_option p_data (l_bias l) = map_option vec b"
  shows "row_partial lin sp (Some \<lparr>tc_rank = r, tc_tp_size = tp\<rparr>) l
      (if par then map (block n r) X else X) = Inr (row_part n X W b r)"
proof -
  have split: "bindR (get_tensor_model_parallel_rank (Some \<lparr>tc_rank = r, tc_tp_size = tp\<rparr>)) (\<lambda>r.
      py_get (sp tp X) (int r)) = Inr (map (block n r) X)"
    using sp X r by (simp add: split_ok_def get_tensor_model_parallel_rank_def)
  have rects: "rect n (map (block n r) Z)" if "rect (tp * n) Z" for Z :: "real list list"
    using that r by (auto simp: rect_def)
  have "lin (map (block n r) X) (mat (map (block n r) W)) (map_option vec (if r = 0 then b else None))
      = Inr (row_part n X W b r)"
    unfolding row_part_def
    using b by (intro linear_okD [OF lin rects [OF X] rects [OF W]]) (simp split: option.splits)
  moreover have bi: "map_option p_data (if 0 < r \<or> l_skip_bias_add l then None else l_bias l)
      = map_option vec (if r = 0 then b else None)"
    using l(4,6) by simp
  ultimately show ?thesis
    by (cases par) (simp_all only: row_partial_def apply_linear_def l if_True if_False split bindR_simps)
qed


lemma mapR_upt:
  assumes "\<And>r. r < m \<Longrightarrow> f (g r) = Inr (h r)"
  shows "mapR f (map g [0..<m]) = Inr (map h [0..<m])"
proof -
  have "mapR f (map g rs) = Inr (map h rs)" if "set rs \<subseteq> {..<m}" for rs
    using that assms by (induction rs) simp_all
  then show ?thesis by (simp add: lessThan_atLeast0)
qed

lemma row_group_eq:
  assumes parts: "\<And>r. r < tp \<Longrightarrow> row_partial lin sp (Some \<lparr>tc_rank = r, tc_tp_size = tp\<rparr>) (ls r) (xs r) = Inr (P r)"
    and l: "\<And>r. r < tp \<Longrightarrow> r_reduce_results (ls r) \<and> r_tp_size (ls r) = tp"
    and all: "coll (map P [0..<tp]) = y" and one: "tp = 1 \<Longrightarrow> P 0 = y"
  shows "row_group lin sp coll (map (\<lambda>r. (Some \<lparr>tc_rank = r, tc_tp_size = tp\<rparr>, ls r)) [0..<tp])
      (map xs [0..<tp]) = Inr (replicate tp y)"
proof -
  let ?ranks = "map (\<lambda>r. (Some \<lparr>tc_rank = r, tc_tp_size = tp\<rparr>, ls r)) [0..<tp]"
  have z: "zip ?ranks (map xs [0..<tp]) =
      map (\<lambda>r. ((Some \<lparr>tc_rank = r, tc_tp_size = tp\<rparr>, ls r), xs r)) [0..<tp]"
    by (rule nth_equalityI) simp_all
  have ps: "mapR (\<lambda>((env, l), x). row_partial lin sp env l x) (zip ?ranks (map xs [0..<tp]))
      = Inr (map P [0..<tp])"
    unfolding z using parts by (intro mapR_upt) simp
  have step: "row_forward lin sp (\<lambda>_. y) (Some \<lparr>tc_rank = r, tc_tp_size = tp\<rparr>) (ls r) (xs r) =
      Inr (y, out_bias (ls r))" if r: "r < tp" for r
  proof -
    have "P r = y" if "\<not> Suc 0 < tp" using one r that by (cases tp) auto
    then show ?thesis
      using parts [OF r] l [OF r]
      by (simp add: row_forward_def tensor_model_parallel_all_reduce_def
          get_tensor_model_parallel_world_size_def)
  qed
  have "mapR (\<lambda>((env, l), x). bindR (row_forward lin sp (\<lambda>_. y) env l x) (\<lambda>r. Inr (fst r)))
      (zip ?ranks (map xs [0..<tp])) = Inr (map (\<lambda>_. y) [0..<tp])"
    unfolding z using step by (intro mapR_upt) simp
  then show ?thesis using ps all by (simp add: row_group_def map_replicate_const)
qed

section \<open>The fused attention projection\<close>

lemma qkv_shard_step:
  assumes p: "p_data p = mat rows" "rect k rows" "p_output_dim p = Some 0" "p_packed_dim p = None"
      "\<not> p_bnb4 p" "\<not> p_gguf p"
    and i: "i \<in> {''q'', ''k'', ''v''}" and sh: "qkv_shard l i = (off, sz)" and sz: "0 < sz"
    and fits: "off + sz \<le> length rows"
    and sid: "sid = (if i = ''q'' then r else r div q_num_kv_head_replicas l)"
    and rep: "0 < q_num_kv_head_replicas l"
    and U: "length U = m * sz" "rect k U" "sid < m"
  shows "qkv_shard_loader l tp r i (mat U) p =
     Inr (p\<lparr>p_data := mat (take off rows @ block sz sid U @ drop (off + sz) rows)\<rparr>)"
proof -
  have w: "narrow 0 (sid * sz) sz (mat U) = Inr (mat (block sz sid U))"
    using block_fits [OF U(3), of sz] U(1) by (simp add: narrow_mat block_def)
  have len: "length (block sz sid U) = sz" using U by simp
  have dst: "narrow 0 off sz (mat rows) = Inr (mat (take sz (drop off rows)))"
    using fits by (rule narrow_mat)
  have rects: "rect k (take sz (drop off rows))" "rect k (block sz sid U)"
    using p(2) rect_block [OF U(2)] by simp_all
  have ne: "take sz (drop off rows) \<noteq> []" "block sz sid U \<noteq> []"
    using fits sz len by auto
  have "t_shape (mat (take sz (drop off rows))) = [sz, k]" "t_shape (mat (block sz sid U)) = [sz, k]"
    using t_shape_mat [OF ne(1) rects(1)] t_shape_mat [OF ne(2) rects(2)] fits len by simp_all
  note shapes = this
  have shard: "(if i = ''q'' then Inr r
      else if q_num_kv_head_replicas l = 0 then Inl ZeroDivisionError
      else Inr (r div q_num_kv_head_replicas l)) = Inr sid"
    using rep sid by simp
  show ?thesis
    using i sh p w dst shapes len shard
    by (simp add: qkv_shard_loader_def adjust_packed_def copy_shard_def put_narrow_mat)
qed

text \<open>The rows of the weight of rank \<open>r\<close>: its block of each of the three projections.\<close>

lemma qkv_fused_load:
  assumes l: "q_head_size l = hs" "q_num_heads l = nh" "q_num_kv_heads l = nkv"
      "q_num_kv_head_replicas l = rep" "q_total_num_heads l = H" "q_total_num_kv_heads l = KV"
    and w: "l_weight l = create_weights rand [nh * hs, nkv * hs, nkv * hs] k"
    and rand: "rand_ok rand" and pos: "0 < hs" "0 < nh" "0 < nkv" "0 < rep"
    and Q: "length Q = H * hs" "rect k Q" "H = tp * nh" and r: "r < tp"
    and K: "length K = KV * hs" "rect k K" and V: "length V = KV * hs" "rect k V"
    and KV: "KV = m * nkv" "r div rep < m"
  shows "qkv_loader l tp r (mat (Q @ K @ V)) (l_weight l) = Inr ((l_weight l)\<lparr>p_data :=
     mat (block (nh * hs) r Q @ block (nkv * hs) (r div rep) K @ block (nkv * hs) (r div rep) V)\<rparr>)"
proof -
  obtain rows where rows: "length rows = (nh + 2 * nkv) * hs" "rect k rows"
      "rand [(nh + 2 * nkv) * hs, k] = mat rows"
    using rand_matrix [OF rand] by blast
  let ?a = "nh * hs" and ?b = "nkv * hs"
  have n: "?a + (?b + ?b) = (nh + 2 * nkv) * hs" by (simp add: algebra_simps)
  define A where "A = block ?a r Q"
  define B where "B = block ?b (r div rep) K"
  define C where "C = block ?b (r div rep) V"
  have lens: "length A = ?a" "length B = ?b" "length C = ?b"
    unfolding A_def B_def C_def using Q K V KV r by (simp_all add: mult.assoc)
  have rects: "rect k A" "rect k B" "rect k C"
    unfolding A_def B_def C_def using Q K V by (simp_all add: rect_block)
  define p where "p = l_weight l"
  have p: "p_data p = mat rows" "p_output_dim p = Some 0" "p_packed_dim p = None" "\<not> p_bnb4 p" "\<not> p_gguf p"
    using rows(3) w n by (simp_all add: p_def create_weights_def)
  define rows1 where "rows1 = A @ drop ?a rows"
  define rows2 where "rows2 = A @ B @ drop (?a + ?b) rows"
  have rects2: "rect k rows1" "rect k rows2"
    using rects rows(2) by (simp_all add: rows1_def rows2_def)
  have len2: "length rows1 = length rows" "length rows2 = length rows"
    using lens rows(1) n by (simp_all add: rows1_def rows2_def)
  have sh: "qkv_shard l ''q'' = (0, ?a)" "qkv_shard l ''k'' = (?a, ?b)" "qkv_shard l ''v'' = (?a + ?b, ?b)"
    using l by (simp_all add: qkv_shard_def add_mult_distrib)
  have 1: "qkv_shard_loader l tp r ''q'' (mat Q) p = Inr (p\<lparr>p_data := mat rows1\<rparr>)"
    using qkv_shard_step [OF p(1) rows(2) p(2-5) _ sh(1), of r r Q tp tp] pos rows(1) n l Q r
    by (simp add: rows1_def A_def mult.assoc)
  have 2: "qkv_shard_loader l tp r ''k'' (mat K) (p\<lparr>p_data := mat rows1\<rparr>) = Inr (p\<lparr>p_data := mat rows2\<rparr>)"
  proof -
    have "take ?a rows1 @ B @ drop (?a + ?b) rows1 = rows2"
      using lens by (simp add: rows1_def rows2_def add.commute)
    then show ?thesis
      using qkv_shard_step [of "p\<lparr>p_data := mat rows1\<rparr>" rows1 k "''k''" l ?a ?b "r div rep" r K m tp]
        p rects2 sh(2) pos rows(1) n l K KV len2
      by (simp add: B_def mult.assoc)
  qed
  have 3: "qkv_shard_loader l tp r ''v'' (mat V) (p\<lparr>p_data := mat rows2\<rparr>) =
      Inr (p\<lparr>p_data := mat (A @ B @ C)\<rparr>)"
  proof -
    have "take (?a + ?b) rows2 @ C @ drop (?a + ?b + ?b) rows2 = A @ B @ C"
      using lens rows(1) n by (simp add: rows2_def)
    then show ?thesis
      using qkv_shard_step [of "p\<lparr>p_data := mat rows2\<rparr>" rows2 k "''v''" l "?a + ?b" ?b "r div rep" r V m tp]
        p rects2 sh(3) pos rows(1) n l V KV len2
      by (simp add: C_def mult.assoc)
  qed
  have "narrow 0 0 (H * hs) (mat (Q @ K @ V)) = Inr (mat Q)"
    and "narrow 0 (H * hs) (KV * hs) (mat (Q @ K @ V)) = Inr (mat K)"
    and "narrow 0 ((H + KV) * hs) (KV * hs) (mat (Q @ K @ V)) = Inr (mat V)"
    using Q(1) K(1) V(1) by (simp_all add: narrow_mat add_mult_distrib)
  then show ?thesis
    using 1 2 3 p l
    by (simp add: qkv_loader_def qkv_offsets_def adjust_packed_def A_def B_def C_def flip: p_def)
qed

text \<open>The numbers of heads of a rank: what \<open>qkv_init\<close> leaves in the layer.\<close>

definition kv_heads :: "nat \<Rightarrow> nat \<Rightarrow> nat \<times> nat" where
  "kv_heads tp KV = (if KV \<le> tp then (1, tp div KV) else (KV div tp, 1))"

lemma kv_heads_cases:
  assumes "0 < tp" "0 < KV" and "if KV \<le> tp then KV dvd tp else tp dvd KV"
  obtains (replicated) rep where "kv_heads tp KV = (1, rep)" "tp = rep * KV" "0 < rep"
  | (partitioned) nkv where "kv_heads tp KV = (nkv, 1)" "KV = nkv * tp" "0 < nkv"
proof (cases "KV \<le> tp")
  case True
  then have "tp = tp div KV * KV" "0 < tp div KV" using assms by (auto elim!: dvdE)
  then show ?thesis using replicated [of "tp div KV"] True by (simp add: kv_heads_def)
next
  case False
  then have "KV = KV div tp * tp" "0 < KV div tp" using assms by (auto elim!: dvdE)
  then show ?thesis using partitioned [of "KV div tp"] False by (simp add: kv_heads_def)
qed

text \<open>
  Query head \<open>h\<close> of rank \<open>r\<close> is head \<open>r * nh + h\<close> of the model; the key head it attends with,
  counted in the blocks of the checkpoint, is the one next to it on the rank.
\<close>

lemma kv_head_local:
  assumes tp: "0 < tp" and KV: "0 < KV" "if KV \<le> tp then KV dvd tp else tp dvd KV"
    and H: "H = nh * tp" "KV dvd H" and nh: "0 < nh" and h: "h < nh"
    and kv: "kv_heads tp KV = (nkv, rep)"
  shows "h div (nh div nkv) < nkv"
    and "r div rep * nkv + h div (nh div nkv) = (r * nh + h) div (H div KV)"
proof -
  have "h div (nh div nkv) < nkv \<and> r div rep * nkv + h div (nh div nkv) = (r * nh + h) div (H div KV)"
    using tp KV
  proof (cases rule: kv_heads_cases)
    case (replicated rep')
    then have *: "nkv = 1" "rep = rep'" using kv by simp_all
    have "H div KV = nh * rep'" using H replicated KV(1) by (simp add: mult.assoc [symmetric])
    then have "(r * nh + h) div (H div KV) = ((r * nh + h) div nh) div rep'"
      by (simp add: div_mult2_eq)
    then show ?thesis using * h nh by simp
  next
    case (partitioned nkv')
    then have *: "nkv = nkv'" "rep = 1" using kv by simp_all
    obtain g where "H = KV * g" using H(2) by (elim dvdE)
    then have "nh * tp = nkv' * g * tp" using H partitioned by (simp add: mult_ac)
    then have g: "nh = nkv' * g" using tp by simp
    have pos: "0 < g" using g nh by auto
    have grp: "H div KV = g" "nh div nkv' = g"
      using \<open>H = KV * g\<close> KV(1) g partitioned by simp_all
    have "h div g < nkv'" using h g pos by (simp add: less_mult_imp_div_less mult.commute)
    moreover have "(r * nh + h) div g = r * nkv' + h div g"
      using g pos by (simp add: mult.assoc [symmetric])
    ultimately show ?thesis using * grp by simp
  qed
  then show "h div (nh div nkv) < nkv"
    and "r div rep * nkv + h div (nh div nkv) = (r * nh + h) div (H div KV)"
    by simp_all
qed

lemma qkv_built:
  assumes dv: "divide_ok dv" and tp: "0 < tp" and hid: "tp dvd hidden"
    and KV: "0 < KV" "if KV \<le> tp then KV dvd tp else tp dvd KV" and H: "H = nh * tp"
    and kv: "kv_heads tp KV = (nkv, rep)"
  shows "\<exists>l. qkv_init dv rand (Some \<lparr>tc_rank = r, tc_tp_size = tp\<rparr>) hidden hs H (Some KV) tp False False
       = Inr l \<and>
     q_head_size l = hs \<and> q_num_heads l = nh \<and> q_num_kv_heads l = nkv \<and>
     q_num_kv_head_replicas l = rep \<and> q_total_num_heads l = H \<and> q_total_num_kv_heads l = KV \<and>
     l_weight l = create_weights rand [nh * hs, nkv * hs, nkv * hs] hidden \<and>
     c_output_partition_sizes l = [nh * hs, nkv * hs, nkv * hs] \<and>
     l_input_size l = hidden \<and> l_bias l = None \<and> \<not> l_skip_bias_add l \<and> \<not> c_gather_output l"
proof -
  have heads: "(if KV \<le> tp then bindR (dv tp KV) (\<lambda>rep. Inr (1, rep))
      else bindR (dv KV tp) (\<lambda>nkv. Inr (nkv, 1))) = Inr (nkv, rep)"
    using dv tp KV kv by (auto simp: divide_ok_def kv_heads_def)
  have d: "dv (n * tp) tp = Inr n" for n
    using dvd_divide [OF dv tp, of n] by (simp add: mult.commute)
  have d2: "dv (n * tp * m) tp = Inr (n * m)" for n m
    using d [of "n * m"] by (simp add: mult_ac)
  have d3: "dv hidden tp = Inr (hidden div tp)" using dv tp hid by (simp add: divide_ok_def)
  show ?thesis
    using H d [of nh] heads
    by (simp add: qkv_init_def column_init_def get_tensor_model_parallel_world_size_def d d2 d3 Let_def
        column_linear.defs merged_linear.defs qkv_linear.defs)
qed

section \<open>Providers for the examples\<close>

definition demo_divide :: "nat \<Rightarrow> nat \<Rightarrow> nat result" where
  "demo_divide a b = (if 0 < b \<and> b dvd a then Inr (a div b) else Inl AssertionError)"

definition demo_rand :: "nat list \<Rightarrow> real tensor" where
  "demo_rand sh =
     (if length sh = 1 then vec (replicate (sh ! 0) 0) else mat (replicate (sh ! 0) (replicate (sh ! 1) 0)))"

definition unvec :: "real tensor \<Rightarrow> real list" where
  "unvec t = (case t of Axis ts \<Rightarrow> map (\<lambda>t. case t of Elem x \<Rightarrow> x | Axis _ \<Rightarrow> 0) ts | Elem x \<Rightarrow> [])"

definition unmat :: "real tensor \<Rightarrow> real list list" where
  "unmat t = (case t of Axis ts \<Rightarrow> map unvec ts | Elem x \<Rightarrow> [])"

definition demo_linear ::
  "real list list \<Rightarrow> real tensor \<Rightarrow> real tensor option \<Rightarrow> real list list result" where
  "demo_linear X w b = Inr (linear_ref X (unmat w) (map_option unvec b))"

definition demo_split :: "nat \<Rightarrow> real list list \<Rightarrow> real list list list" where
  "demo_split m X = map (\<lambda>r. map (\<lambda>x. block (length x div m) r x) X) [0..<m]"

definition demo_reduce :: "real list list list \<Rightarrow> real list list" where
  "demo_reduce ps = foldl add_mat (hd ps) (tl ps)"

lemma unvec_vec [simp]: "unvec (vec xs) = xs"
  by (simp add: unvec_def vec_def comp_def)

lemma unmat_mat [simp]: "unmat (mat rows) = rows"
  by (simp add: unmat_def mat_def comp_def)

lemma demo_divide_ok: "divide_ok demo_divide"
  by (simp add: divide_ok_def demo_divide_def)

lemma demo_rand_ok: "rand_ok demo_rand"
  unfolding rand_ok_def demo_rand_def
  by (auto simp: rect_def intro: exI [of _ "replicate _ 0"] exI [of _ "replicate _ (replicate _ 0)"])

lemma demo_linear_ok: "linear_ok demo_linear"
  by (simp add: linear_ok_def demo_linear_def option.map_comp comp_def option.map_ident)

lemma demo_split_ok: "split_ok demo_split"
  by (auto simp: split_ok_def demo_split_def rect_def)

lemma demo_reduce_ok: "reduce_ok demo_reduce"
  by (simp add: reduce_ok_def demo_reduce_def)

section \<open>Properties\<close>

text \<open>
  A column parallel layer computes the whole layer: after each rank of a tensor parallel
  group has loaded its shard of a checkpoint, the outputs of the ranks side by side are, for
  every input row, the output of the unsplit layer.
\<close>

theorem column_parallel_gather:
  assumes dv: "divide_ok dv" and rand: "rand_ok rand" and lin: "linear_ok lin"
    and n: "0 < n" and k: "tp dvd k"
    and W: "length W = tp * n" "rect k W" and X: "rect k X"
    and b: "case b of None \<Rightarrow> True | Some b \<Rightarrow> length b = tp * n"
  shows "\<exists>ys. mapR (column_rank dv rand lin tp k (tp * n) W b X) [0..<tp] = Inr ys \<and>
     map (\<lambda>i. concat (map (\<lambda>y. y ! i) ys)) [0..<length X] = linear_ref X W b"
proof -
  define ys where "ys = map (\<lambda>r. map (block n r) (linear_ref X W b)) [0..<tp]"
  have len: "length (linear_ref X W b) = length X" by (simp add: linear_ref_def)
  have width: "length (linear_ref X W b ! i) = tp * n" if "i < length X" for i
    using that b W by (cases b) (simp_all add: linear_ref_def)
  have "mapR (column_rank dv rand lin tp k (tp * n) W b X) [0..<tp] = Inr ys"
    unfolding ys_def using column_rank_output [OF dv rand lin n k W X b]
    by (intro mapR_all_Inr) simp
  moreover have "map (\<lambda>i. concat (map (\<lambda>y. y ! i) ys)) [0..<length X] = linear_ref X W b"
  proof (rule nth_equalityI)
    fix i assume "i < length (map (\<lambda>i. concat (map (\<lambda>y. y ! i) ys)) [0..<length X])"
    then have i: "i < length X" by simp
    then have "map (\<lambda>y. y ! i) ys = map (\<lambda>r. block n r (linear_ref X W b ! i)) [0..<tp]"
      by (simp add: ys_def len)
    then show "map (\<lambda>i. concat (map (\<lambda>y. y ! i) ys)) [0..<length X] ! i = linear_ref X W b ! i"
      using concat_blocks [OF width [OF i]] i by simp
  qed (simp add: len)
  ultimately show ?thesis by blast
qed

text \<open>
  A row parallel layer computes the whole layer: when the ranks of a group have loaded
  their shards and each has its share of the input, or the whole input and splits it, the
  reduction gives every rank the output of the unsplit layer, with the bias added once.
\<close>

theorem row_parallel_reduce:
  assumes dv: "divide_ok dv" and rand: "rand_ok rand" and lin: "linear_ok lin"
    and sp: "split_ok sp" and coll: "reduce_ok coll" and tp: "0 < tp"
    and W: "W \<noteq> []" "rect (tp * n) W" and X: "rect (tp * n) X"
    and b: "case b of None \<Rightarrow> True | Some b \<Rightarrow> length b = length W"
  shows "\<exists>ranks. mapR (row_setup dv rand tp (tp * n) par W b) [0..<tp] = Inr ranks \<and>
     row_group lin sp coll ranks (map (\<lambda>r. if par then map (block n r) X else X) [0..<tp]) =
       Inr (replicate tp (linear_ref X W b))"
proof -
  let ?env = "\<lambda>r. Some \<lparr>tc_rank = r, tc_tp_size = tp\<rparr>"
  obtain ls where ls: "\<And>r. r < tp \<Longrightarrow> row_setup dv rand tp (tp * n) par W b r = Inr (?env r, ls r) \<and>
     r_input_is_parallel (ls r) = par \<and> r_reduce_results (ls r) \<and> r_tp_size (ls r) = tp \<and>
     r_tp_rank (ls r) = r \<and> \<not> l_skip_bias_add (ls r) \<and>
     p_data (l_weight (ls r)) = mat (map (block n r) W) \<and>
     map_option p_data (l_bias (ls r)) = map_option vec b"
    using row_setup_eq [OF dv rand tp W _ b, of _ par] by metis
  have "mapR (row_setup dv rand tp (tp * n) par W b) [0..<tp] = Inr (map (\<lambda>r. (?env r, ls r)) [0..<tp])"
    using ls by (intro mapR_all_Inr) simp
  moreover have "row_group lin sp coll (map (\<lambda>r. (?env r, ls r)) [0..<tp])
      (map (\<lambda>r. if par then map (block n r) X else X) [0..<tp]) = Inr (replicate tp (linear_ref X W b))"
  proof (rule row_group_eq)
    show "row_partial lin sp (?env r) (ls r) (if par then map (block n r) X else X) =
        Inr (row_part n X W b r)" if "r < tp" for r
      using ls [OF that] by (intro row_partial_eq [OF lin sp W(2) X that b]) simp_all
    have "coll (map (row_part n X W b) [0..<tp]) =
        foldl add_mat (row_part n X W b 0) (map (row_part n X W b) [1..<tp])"
      using tp coll by (simp add: upt_conv_Cons reduce_ok_def)
    then show "coll (map (row_part n X W b) [0..<tp]) = linear_ref X W b"
      using row_parts_sum [OF tp W(2) X b] by simp
    show "row_part n X W b 0 = linear_ref X W b" if "tp = 1"
      using row_parts_sum [OF tp W(2) X b] that by simp
    show "r_reduce_results (ls r) \<and> r_tp_size (ls r) = tp" if "r < tp" for r
      using ls [OF that] by simp
  qed
  ultimately show ?thesis by blast
qed


text \<open>
  C29: a fused checkpoint of an attention projection puts on a rank the query heads of the rank
  and, for each of them, the key and value head that grouped-query attention pairs it with,
  at the place where the attention of the rank looks for it; a key head that several ranks
  need is on each of them.
\<close>

theorem qkv_loads_own_heads:
  assumes dv: "divide_ok dv" and rand: "rand_ok rand" and r: "r < tp" and hid: "tp dvd hidden"
    and heads: "0 < hs" "0 < H" "tp dvd H" "0 < KV" "KV dvd H"
      "if KV \<le> tp then KV dvd tp else tp dvd KV"
    and Q: "length Q = H * hs" "rect hidden Q" and K: "length K = KV * hs" "rect hidden K"
    and V: "length V = KV * hs" "rect hidden V"
  shows "\<exists>l rows. qkv_init dv rand (Some \<lparr>tc_rank = r, tc_tp_size = tp\<rparr>) hidden hs H (Some KV) tp
       False False = Inr l \<and>
     qkv_loader l tp r (mat (Q @ K @ V)) (l_weight l) = Inr ((l_weight l)\<lparr>p_data := mat rows\<rparr>) \<and>
     q_num_heads l = H div tp \<and> length rows = (q_num_heads l + 2 * q_num_kv_heads l) * hs \<and>
     (\<forall>h < q_num_heads l.
        let g = r * q_num_heads l + h; j = h div (q_num_heads l div q_num_kv_heads l)
        in block hs h rows = block hs g Q \<and>
           block hs (q_num_heads l + j) rows = block hs (g div (H div KV)) K \<and>
           block hs (q_num_heads l + q_num_kv_heads l + j) rows = block hs (g div (H div KV)) V)"
proof -
  have tp: "0 < tp" using r by simp
  define nh where "nh = H div tp"
  have H: "H = nh * tp" using heads(3) by (simp add: nh_def)
  then have nh: "0 < nh" using heads(2) by (cases nh) auto
  obtain nkv rep where kv: "kv_heads tp KV = (nkv, rep)" by fastforce
  obtain l where l: "qkv_init dv rand (Some \<lparr>tc_rank = r, tc_tp_size = tp\<rparr>) hidden hs H (Some KV) tp
        False False = Inr l" "q_head_size l = hs" "q_num_heads l = nh" "q_num_kv_heads l = nkv"
      "q_num_kv_head_replicas l = rep" "q_total_num_heads l = H" "q_total_num_kv_heads l = KV"
      "l_weight l = create_weights rand [nh * hs, nkv * hs, nkv * hs] hidden"
    using qkv_built [OF dv tp hid heads(4,6) H kv] by blast
  obtain m where m: "KV = m * nkv" "r div rep < m" "0 < nkv" "0 < rep"
    using tp heads(4,6)
  proof (cases rule: kv_heads_cases)
    case (replicated rep')
    then show ?thesis
      using that [of KV] kv r by (simp add: less_mult_imp_div_less mult.commute)
  next
    case (partitioned nkv')
    then show ?thesis using that [of tp] kv r by (auto simp: mult.commute)
  qed
  define A where "A = block (nh * hs) r Q"
  define B where "B = block (nkv * hs) (r div rep) K"
  define C where "C = block (nkv * hs) (r div rep) V"
  have lens: "length A = nh * hs" "length B = nkv * hs" "length C = nkv * hs"
    unfolding A_def B_def C_def
    using Q(1) K(1) V(1) H m r by (simp_all add: length_block [where m = m] length_block [where m = tp] mult_ac)
  have load: "qkv_loader l tp r (mat (Q @ K @ V)) (l_weight l) =
      Inr ((l_weight l)\<lparr>p_data := mat (A @ B @ C)\<rparr>)"
    unfolding A_def B_def C_def
    using H by (intro qkv_fused_load [OF l(2-8) rand heads(1) nh m(3,4) Q _ r K V m(1,2)])
      (simp add: mult.commute)
  have parts: "block hs h (A @ B @ C) = block hs (r * nh + h) Q \<and>
      block hs (nh + h div (nh div nkv)) (A @ B @ C) = block hs ((r * nh + h) div (H div KV)) K \<and>
      block hs (nh + nkv + h div (nh div nkv)) (A @ B @ C) = block hs ((r * nh + h) div (H div KV)) V"
    if h: "h < nh" for h
  proof -
    note kvh = kv_head_local [OF tp heads(4,6) H heads(5) nh h kv]
    have "block hs (nh + nkv + j) (A @ B @ C) = block hs j C" for j
      using block_append2 [OF lens(1), of "nkv + j" "B @ C"] block_append2 [OF lens(2), of j C]
      by (simp add: add.assoc)
    then show ?thesis
      using h kvh(1) lens
      by (simp add: block_append1 [where m = nh] block_append1 [where m = nkv] block_append2
          A_def B_def C_def block_of_block flip: kvh(2))
  qed
  have "length (A @ B @ C) = (q_num_heads l + 2 * q_num_kv_heads l) * hs"
    using lens l by (simp add: algebra_simps)
  then show ?thesis using l(1,3,4) load parts by (auto simp: Let_def nh_def)
qed


lemma column_parallel_gather_witness:
  "\<exists>ys. mapR (column_rank demo_divide demo_rand demo_linear 2 2 2 [[1, 2], [3, 4]] (Some [10, 20]) [[1, 1]])
        [0..<2] = Inr ys \<and>
     map (\<lambda>i. concat (map (\<lambda>y. y ! i) ys)) [0..<1] = [[13, 27]]"
proof -
  have v: "linear_ref [[1, 1]] [[1, 2], [3, 4]] (Some [10, 20]) = [[13, 27]]"
    by (simp add: linear_ref_def dot_def)
  show ?thesis
    using column_parallel_gather [where tp = 2 and n = 1 and k = 2 and W = "[[1, 2], [3, 4]]"
        and X = "[[1, 1]]" and b = "Some [10, 20]", OF demo_divide_ok demo_rand_ok demo_linear_ok] v
    by (simp add: rect_def)
qed

lemma row_parallel_reduce_witness:
  "\<exists>ranks. mapR (row_setup demo_divide demo_rand 2 2 False [[1, 2], [3, 4]] (Some [10, 20])) [0..<2] = Inr ranks \<and>
     row_group demo_linear demo_split demo_reduce ranks [[[1, 1]], [[1, 1]]] = Inr [[[13, 27]], [[13, 27]]]"
proof -
  have v: "linear_ref [[1, 1]] [[1, 2], [3, 4]] (Some [10, 20]) = [[13, 27]]"
    by (simp add: linear_ref_def dot_def)
  have two: "replicate 2 x = [x, x]" "[0..<2] = [0, 1]" for x :: "real list list"
    by (simp_all add: numeral_2_eq_2)
  show ?thesis
    using row_parallel_reduce [where tp = 2 and n = 1 and W = "[[1, 2], [3, 4]]" and par = False
        and X = "[[1, 1]]" and b = "Some [10, 20]",
        OF demo_divide_ok demo_rand_ok demo_linear_ok demo_split_ok demo_reduce_ok] v
    by (simp add: rect_def two)
qed

lemma qkv_loads_own_heads_witness:
  "\<exists>l rows. qkv_init demo_divide demo_rand (Some \<lparr>tc_rank = 1, tc_tp_size = 2\<rparr>) 2 1 4 (Some 2) 2 False False = Inr l \<and>
     qkv_loader l 2 1 (mat ([[0, 0], [0, 1], [0, 2], [0, 3]] @ [[1, 0], [1, 1]] @ [[2, 0], [2, 1]])) (l_weight l) =
       Inr ((l_weight l)\<lparr>p_data := mat rows\<rparr>) \<and> block 1 1 rows = [[0, 3]] \<and> q_num_heads l = 2"
proof -
  have v: "block 1 (Suc (Suc (Suc 0))) [[0, 0], [0, 1], [0, 2], [0, 3 :: real]] = [[0, 3]]"
    by (simp add: block_def)
  obtain l rows where *: "qkv_init demo_divide demo_rand (Some \<lparr>tc_rank = 1, tc_tp_size = 2\<rparr>) 2 1 4 (Some 2) 2 False False
        = Inr l"
      "qkv_loader l 2 1 (mat ([[0, 0], [0, 1], [0, 2], [0, 3]] @ [[1, 0], [1, 1]] @ [[2, 0], [2, 1]])) (l_weight l) =
        Inr ((l_weight l)\<lparr>p_data := mat rows\<rparr>)" "q_num_heads l = 2"
      "\<forall>h < q_num_heads l. block 1 h rows = block 1 (q_num_heads l + h) [[0, 0], [0, 1], [0, 2], [0, 3]]"
    using qkv_loads_own_heads [where r = 1 and tp = 2 and hidden = 2 and hs = 1 and H = 4 and KV = 2
        and Q = "[[0, 0], [0, 1], [0, 2], [0, 3]]" and K = "[[1, 0], [1, 1]]" and V = "[[2, 0], [2, 1]]",
        OF demo_divide_ok demo_rand_ok]
    by (auto simp: rect_def Let_def)
  have "block 1 1 rows = [[0, 3]]"
    using *(4) [rule_format, of 1] *(3) v by (simp add: numeral_2_eq_2)
  then show ?thesis using *(1-3) by blast
qed

end
