(* ===== verification/Experts.thy ===== *)
theory Experts
  imports LinearProps
begin

text \<open>
  The model of \<open>disagmoe/models/experts.py\<close> and of the layout rules of
  \<open>disagmoe/ops/quantization.py\<close>: the seven implementations of a rank's experts. A batch is a
  list of rows (real numbers, without rounding) sorted by expert; \<open>batch_sizes\<close> says how many
  rows each expert has, \<open>m_indices\<close> the expert of each row.

  The grouped GEMM runners of \<open>csrc/cuda_ops/grouped_gemm.cu\<close> are modelled down to the CUTLASS
  product of one problem. That product, the DeepGEMM and quantisation kernels and SiLU are
  parameters.
\<close>

type_synonym row = "real list"

datatype torch_dtype = BF16 | FP16 | FP32

section \<open>Quantisation\<close>

definition ceil_align :: "int \<Rightarrow> int \<Rightarrow> int" where
  "ceil_align x y = ceil_div x y * y"

text \<open>
  The shape of the scales of an activation of shape \<open>sh\<close>, after the transposition and the cut
  that the code applies to the buffer it allocates.
\<close>

definition output_scale_shape :: "int list \<Rightarrow> int \<Rightarrow> bool \<Rightarrow> bool \<Rightarrow> bool \<Rightarrow> int list result" where
  "output_scale_shape sh group_size column_major tma_aligned ue8m0 =
     (if ue8m0 then
        bindR (assertR (column_major \<and> tma_aligned)) (\<lambda>_.
          if length sh < 2 then Inl ValueError
          else let mn = sh ! (length sh - 2); k = last sh div 128
               in Inr (take (length sh - 2) sh @ [mn, ceil_align k 4 div 4]))
      else if sh = [] then Inl IndexError
      else if column_major \<and> tma_aligned then
        (if length sh < 2 then Inl IndexError
         else if group_size = 0 then Inl ZeroDivisionError
         else let mn = sh ! (length sh - 2);
                  buf = take (length sh - 2) sh @ [(mn + 3) div 4 * 4, last sh div group_size]
              in Inr (buf[0 := min (buf ! 0) mn]))
      else if group_size = 0 then Inl ZeroDivisionError
      else if column_major then
        (if length sh \<noteq> 2 then Inl RuntimeError else Inr [sh ! 0, last sh div group_size])
      else Inr (butlast sh @ [last sh div group_size]))"

text \<open>
  The quantisation of a batch of rows of width \<open>k\<close>: \<open>qop\<close> is the CUDA operation, row by row,
  with the quantised row and its scales as result.
\<close>

definition group_quant_fp8 ::
  "(nat \<Rightarrow> row \<Rightarrow> row \<times> row) \<Rightarrow> nat \<Rightarrow> nat \<Rightarrow> row list \<Rightarrow> (row \<times> row) list result" where
  "group_quant_fp8 qop k group_size X =
     (if group_size = 0 then Inl ZeroDivisionError
      else bindR (assertR (k mod group_size = 0)) (\<lambda>_. Inr (map (qop group_size) X)))"

definition group_size_of :: "nat \<Rightarrow> nat" where
  "group_size_of k = (if k mod 128 = 0 then 128 else 64)"

section \<open>The grouped GEMM runner\<close>

text \<open>
  One problem of the argument arrays on the device: its number of rows and the first row of its
  operands in the input and in the output, null until the setup kernel has run. The width and the
  depth are those of the weight. The FP8 runner also holds the scales of its weight and, from the
  setup on, the sizes.
\<close>

record gemm_problem =
  pb_rows :: nat
  pb_a :: "nat option"
  pb_c :: "nat option"

record 'w gemm_runner =
  gr_weight :: 'w
  gr_num_experts :: nat
  gr_n :: nat
  gr_max_tokens :: nat
  gr_scale :: "row list option"
  gr_sizes :: "nat list"
  gr_problems :: "gemm_problem list"

text \<open>
  The constructors; the problems that size the launch have the largest expected number of rows.
  The division by a number of experts that is zero ends the process; here it raises.
\<close>

definition gemm_runner_init ::
  "'w \<Rightarrow> nat \<Rightarrow> nat \<Rightarrow> nat \<Rightarrow> row list option \<Rightarrow> 'w gemm_runner result" where
  "gemm_runner_init w E n max_tokens scale =
     (if scale \<noteq> None \<and> (length (the scale) \<noteq> E \<or> \<not> list_all (\<lambda>s. length s = n) (the scale))
      then Inl RuntimeError
      else if E = 0 then Inl ZeroDivisionError
      else Inr \<lparr>gr_weight = w, gr_num_experts = E, gr_n = n, gr_max_tokens = max_tokens,
                gr_scale = scale, gr_sizes = [],
                gr_problems = replicate E \<lparr>pb_rows = max 1 (max_tokens div E), pb_a = None, pb_c = None\<rparr>\<rparr>)"

text \<open>
  The setup kernel: one thread walks over the experts and adds up the sizes. It checks no bound:
  an access outside a buffer has no defined result, here it raises.
\<close>

fun problems_from :: "nat \<Rightarrow> nat list \<Rightarrow> gemm_problem list" where
  "problems_from off [] = []"
| "problems_from off (M # Ms) = \<lparr>pb_rows = M, pb_a = Some off, pb_c = Some off\<rparr> # problems_from (off + M) Ms"

definition setup_meta :: "nat list \<Rightarrow> 'w gemm_runner \<Rightarrow> 'w gemm_runner result" where
  "setup_meta sizes r =
     (if length sizes < gr_num_experts r then Inl RuntimeError
      else Inr (r\<lparr>gr_sizes := sizes, gr_problems := problems_from 0 (take (gr_num_experts r) sizes)\<rparr>))"

text \<open>
  One problem of a launch: \<open>mm w e n\<close> is the CUTLASS product of some rows with matrix \<open>e\<close> of the
  weight, of \<open>n\<close> columns; it overwrites the rows of the output (alpha 1, beta 0).
\<close>

definition run_problem ::
  "('w \<Rightarrow> nat \<Rightarrow> nat \<Rightarrow> row list \<Rightarrow> row list) \<Rightarrow> 'w \<Rightarrow> nat \<Rightarrow> row list \<Rightarrow> nat \<times> gemm_problem \<Rightarrow>
   row list \<Rightarrow> row list result" where
  "run_problem mm w n X = (\<lambda>(e, p) C.
     (case (pb_a p, pb_c p) of
        (Some a, Some c) \<Rightarrow>
          (if length X < a + pb_rows p \<or> length C < c + pb_rows p then Inl RuntimeError
           else Inr (take c C @ mm w e n (take (pb_rows p) (drop a X)) @ drop (c + pb_rows p) C))
      | _ \<Rightarrow> Inl RuntimeError))"

text \<open>
  The scale kernel: thread \<open>idx\<close> of a grid of blocks of 256 that cover \<open>max_tokens\<close> rows looks up
  the expert of its row in the sizes and multiplies its element.
\<close>

fun scan_expert :: "nat \<Rightarrow> nat \<Rightarrow> nat \<Rightarrow> nat list \<Rightarrow> nat option" where
  "scan_expert t e off [] = None"
| "scan_expert t e off (M # Ms) = (if t < off + M then Some e else scan_expert t (Suc e) (off + M) Ms)"

definition apply_output_scale :: "nat \<Rightarrow> nat \<Rightarrow> nat list \<Rightarrow> row list \<Rightarrow> row list \<Rightarrow> row list" where
  "apply_output_scale n max_tokens sizes scale C =
     map (\<lambda>(t, y). map (\<lambda>(j, v).
         if t * n + j < (max_tokens * n + 255) div 256 * 256 then
           (case scan_expert t 0 0 sizes of None \<Rightarrow> v | Some e \<Rightarrow> v * scale ! e ! j)
         else v) (enumerate 0 y)) (enumerate 0 C)"

definition gemm_run ::
  "('w \<Rightarrow> nat \<Rightarrow> nat \<Rightarrow> row list \<Rightarrow> row list) \<Rightarrow> 'w gemm_runner \<Rightarrow> row list \<Rightarrow> row list \<Rightarrow>
   row list result" where
  "gemm_run mm r X C =
     bindR (foldR (run_problem mm (gr_weight r) (gr_n r) X) (enumerate 0 (gr_problems r)) C) (\<lambda>C.
       Inr (case gr_scale r of
              None \<Rightarrow> C
            | Some sc \<Rightarrow>
                apply_output_scale (gr_n r) (gr_max_tokens r) (take (gr_num_experts r) (gr_sizes r)) sc C))"

section \<open>Layers of experts\<close>

datatype expert_weights =
    Plain "row list list" "row list list"
  | Linears "real linear list" "real linear list"

record experts =
  ex_hidden_size :: nat
  ex_intermediate_size :: nat
  ex_num_experts :: nat
  ex_max_batch_size :: nat
  ex_weights :: expert_weights

text \<open>\<open>rand3\<close> stands for \<open>torch.randn\<close> with three axes.\<close>

definition experts_create_weights ::
  "(nat \<Rightarrow> nat \<Rightarrow> nat \<Rightarrow> row list list) \<Rightarrow> nat \<Rightarrow> nat \<Rightarrow> nat \<Rightarrow> expert_weights" where
  "experts_create_weights rand3 E H I = Plain (rand3 E H (I * 2)) (rand3 E I H)"

definition experts_init ::
  "(nat \<Rightarrow> nat \<Rightarrow> nat \<Rightarrow> row list list) \<Rightarrow> torch_dtype \<Rightarrow> nat \<Rightarrow> nat \<Rightarrow> nat \<Rightarrow> nat \<Rightarrow> nat \<Rightarrow> experts result" where
  "experts_init rand3 dtype H I E tp_size max_bs =
     bindR (assertR (tp_size = 1)) (\<lambda>_.
     bindR (assertR (dtype = BF16)) (\<lambda>_.
       Inr \<lparr>ex_hidden_size = H, ex_intermediate_size = I, ex_num_experts = E,
            ex_max_batch_size = max_bs, ex_weights = experts_create_weights rand3 E H I\<rparr>))"

text \<open>
  The two runners of a CUTLASS class, one per weight; \<open>load\<close> stands for the representation of the
  weight (bfloat16 or FP8). The scales of the FP8 class are ones.
\<close>

definition cutlass_runners ::
  "(row list list \<Rightarrow> 'w) \<Rightarrow> bool \<Rightarrow> experts \<Rightarrow> row list list \<Rightarrow> row list list \<Rightarrow>
   ('w gemm_runner \<times> 'w gemm_runner) result" where
  "cutlass_runners load fp8 ex w13 w2 =
     (let E = ex_num_experts ex; I = ex_intermediate_size ex; H = ex_hidden_size ex;
          ones = (\<lambda>n. if fp8 then Some (replicate E (replicate n 1)) else None)
      in bindR (gemm_runner_init (load w13) E (I * 2) (ex_max_batch_size ex) (ones (I * 2))) (\<lambda>r13.
         bindR (gemm_runner_init (load w2) E H (ex_max_batch_size ex) (ones H)) (\<lambda>r2. Inr (r13, r2))))"

text \<open>
  The other layouts transpose the weights, \<open>[E, N, K]\<close>, and make no check of the default type;
  the DeepGEMM classes need the package.
\<close>

definition deepgemm_create_weights ::
  "(nat \<Rightarrow> nat \<Rightarrow> nat \<Rightarrow> row list list) \<Rightarrow> nat \<Rightarrow> nat \<Rightarrow> nat \<Rightarrow> expert_weights" where
  "deepgemm_create_weights rand3 E H I = Plain (rand3 E (I * 2) H) (rand3 E H I)"

definition deepgemm_init ::
  "bool \<Rightarrow> (nat \<Rightarrow> nat \<Rightarrow> nat \<Rightarrow> row list list) \<Rightarrow> nat \<Rightarrow> nat \<Rightarrow> nat \<Rightarrow> nat \<Rightarrow> nat \<Rightarrow> experts result" where
  "deepgemm_init available rand3 H I E tp_size max_bs =
     bindR (assertR (tp_size = 1)) (\<lambda>_.
       if \<not> available then Inl ImportError
       else Inr \<lparr>ex_hidden_size = H, ex_intermediate_size = I, ex_num_experts = E,
                 ex_max_batch_size = max_bs, ex_weights = deepgemm_create_weights rand3 E H I\<rparr>)"

definition cutlass_fp8_init ::
  "(nat \<Rightarrow> nat \<Rightarrow> nat \<Rightarrow> row list list) \<Rightarrow> nat \<Rightarrow> nat \<Rightarrow> nat \<Rightarrow> nat \<Rightarrow> nat \<Rightarrow> experts result" where
  "cutlass_fp8_init rand3 H I E tp_size max_bs =
     bindR (assertR (tp_size = 1)) (\<lambda>_.
       Inr \<lparr>ex_hidden_size = H, ex_intermediate_size = I, ex_num_experts = E,
            ex_max_batch_size = max_bs, ex_weights = experts_create_weights rand3 E H I\<rparr>)"

text \<open>
  The serial class with a quantisation configuration creates one linear layer per expert and
  not the attribute \<open>w13_weight\<close> that the constructor it calls reads next. \<open>MAX_BATCH_SIZE\<close>
  is 256; the argument of the same name is not passed on.
\<close>

definition serial_create_weights ::
  "(nat list \<Rightarrow> real tensor) \<Rightarrow> (nat \<Rightarrow> nat \<Rightarrow> nat \<Rightarrow> row list list) \<Rightarrow> bool \<Rightarrow> nat \<Rightarrow> nat \<Rightarrow> nat \<Rightarrow>
   expert_weights" where
  "serial_create_weights rand rand3 quantised E H I =
     (if quantised then
        Linears (replicate E (replicated_init rand H (I * 2) False False))
                (replicate E (replicated_init rand I H False False))
      else experts_create_weights rand3 E H I)"

definition serial_init ::
  "(nat list \<Rightarrow> real tensor) \<Rightarrow> (nat \<Rightarrow> nat \<Rightarrow> nat \<Rightarrow> row list list) \<Rightarrow> torch_dtype \<Rightarrow> bool \<Rightarrow>
   nat \<Rightarrow> nat \<Rightarrow> nat \<Rightarrow> nat \<Rightarrow> nat \<Rightarrow> experts result" where
  "serial_init rand rand3 dtype quantised H I E tp_size max_bs =
     bindR (assertR (tp_size = 1)) (\<lambda>_.
     bindR (assertR (dtype = BF16)) (\<lambda>_.
     let w = serial_create_weights rand rand3 quantised E H I
     in case w of
          Linears _ _ \<Rightarrow> Inl AttributeError
        | Plain _ _ \<Rightarrow>
            Inr \<lparr>ex_hidden_size = H, ex_intermediate_size = I, ex_num_experts = E,
                 ex_max_batch_size = 256, ex_weights = w\<rparr>))"

section \<open>The forward passes\<close>

text \<open>\<open>act_fn(up[:, :I]) * up[:, I:]\<close> on one row.\<close>

definition gated :: "(real \<Rightarrow> real) \<Rightarrow> nat \<Rightarrow> row \<Rightarrow> row" where
  "gated silu I u = map2 (*) (map silu (take I u)) (drop I u)"

text \<open>\<open>x @ w\<close> for a row \<open>x\<close> and a matrix of \<open>n\<close> columns.\<close>

definition vecmat :: "nat \<Rightarrow> row \<Rightarrow> row list \<Rightarrow> row" where
  "vecmat n x w = map (\<lambda>j. dot x (map (\<lambda>r. r ! j) w)) [0..<n]"

definition matmul :: "nat \<Rightarrow> row list \<Rightarrow> row list \<Rightarrow> row list result" where
  "matmul n X w = (if rect (length w) X then Inr (map (\<lambda>x. vecmat n x w) X) else Inl RuntimeError)"

definition serial_calc ::
  "(row list \<Rightarrow> real tensor \<Rightarrow> real tensor option \<Rightarrow> row list result) \<Rightarrow> (real \<Rightarrow> real) \<Rightarrow>
   experts \<Rightarrow> nat \<Rightarrow> row list \<Rightarrow> row list result" where
  "serial_calc lin silu ex i X =
     (let I = ex_intermediate_size ex in
      case ex_weights ex of
        Linears ups downs \<Rightarrow>
          bindR (py_get ups (int i)) (\<lambda>l.
          bindR (replicated_forward lin l X) (\<lambda>(up, _).
          bindR (py_get downs (int i)) (\<lambda>l.
          bindR (replicated_forward lin l (map (gated silu I) up)) (\<lambda>(down, _). Inr down))))
      | Plain w13 w2 \<Rightarrow>
          bindR (py_get w13 (int i)) (\<lambda>w.
          bindR (matmul (I * 2) X w) (\<lambda>up.
          bindR (py_get w2 (int i)) (\<lambda>w.
            matmul (ex_hidden_size ex) (map (gated silu I) up) w))))"

definition serial_step ::
  "(row list \<Rightarrow> real tensor \<Rightarrow> real tensor option \<Rightarrow> row list result) \<Rightarrow> (real \<Rightarrow> real) \<Rightarrow>
   experts \<Rightarrow> row list \<Rightarrow> nat \<times> nat \<Rightarrow> nat \<times> row list list \<Rightarrow> (nat \<times> row list list) result" where
  "serial_step lin silu ex X = (\<lambda>(i, bs) (s, results).
     if bs = 0 then Inr (s, results)
     else bindR (serial_calc lin silu ex i (take bs (drop s X))) (\<lambda>y. Inr (s + bs, results @ [y])))"

text \<open>\<open>torch.cat\<close> of an empty list raises.\<close>

definition serial_forward ::
  "(row list \<Rightarrow> real tensor \<Rightarrow> real tensor option \<Rightarrow> row list result) \<Rightarrow> (real \<Rightarrow> real) \<Rightarrow>
   experts \<Rightarrow> row list \<Rightarrow> nat list \<Rightarrow> row list result" where
  "serial_forward lin silu ex X sizes =
     bindR (foldR (serial_step lin silu ex X) (enumerate 0 sizes) (0, [])) (\<lambda>(s, results).
       if results = [] then Inl RuntimeError else Inr (concat results))"

text \<open>
  The grouped pass: \<open>torch.empty\<close> hands out a buffer of any contents, and each product is a setup
  of its runner followed by a launch.
\<close>

definition torch_empty :: "(nat \<Rightarrow> nat \<Rightarrow> real) \<Rightarrow> nat \<Rightarrow> nat \<Rightarrow> row list" where
  "torch_empty junk m n = map (\<lambda>i. map (junk i) [0..<n]) [0..<m]"

definition cutlass_forward ::
  "('w \<Rightarrow> nat \<Rightarrow> nat \<Rightarrow> row list \<Rightarrow> row list) \<Rightarrow> (real \<Rightarrow> real) \<Rightarrow> (nat \<Rightarrow> nat \<Rightarrow> nat \<Rightarrow> real) \<Rightarrow>
   'w gemm_runner \<Rightarrow> 'w gemm_runner \<Rightarrow> experts \<Rightarrow> nat \<Rightarrow> row list \<Rightarrow> nat list \<Rightarrow> row list result" where
  "cutlass_forward mm silu junk r13 r2 ex bs X sizes =
     (let I = ex_intermediate_size ex in
      bindR (setup_meta sizes r13) (\<lambda>r.
      bindR (gemm_run mm r X (torch_empty (junk 0) bs (I * 2))) (\<lambda>cache_up.
      let up = map (gated silu I) cache_up in
      bindR (setup_meta sizes r2) (\<lambda>r.
        gemm_run mm r up (torch_empty (junk 1) bs (ex_hidden_size ex))))))"

text \<open>
  The FP8 variant quantises both activations and hands the runner the quantised rows only;
  the scales, \<open>_sf\<close> in the code, are not used.
\<close>

definition cutlass_fp8_forward ::
  "(nat \<Rightarrow> row \<Rightarrow> row \<times> row) \<Rightarrow> ('w \<Rightarrow> nat \<Rightarrow> nat \<Rightarrow> row list \<Rightarrow> row list) \<Rightarrow> (real \<Rightarrow> real) \<Rightarrow>
   (nat \<Rightarrow> nat \<Rightarrow> nat \<Rightarrow> real) \<Rightarrow> 'w gemm_runner \<Rightarrow> 'w gemm_runner \<Rightarrow> experts \<Rightarrow> nat \<Rightarrow> row list \<Rightarrow> nat list \<Rightarrow>
   row list result" where
  "cutlass_fp8_forward qop mm silu junk r13 r2 ex bs X sizes =
     (let H = ex_hidden_size ex; I = ex_intermediate_size ex in
      bindR (group_quant_fp8 qop H (group_size_of H) X) (\<lambda>Xq.
      bindR (setup_meta sizes r13) (\<lambda>r.
      bindR (gemm_run mm r (map fst Xq) (torch_empty (junk 0) bs (I * 2))) (\<lambda>cache_up.
      let up = map (gated silu I) cache_up in
      bindR (group_quant_fp8 qop I (group_size_of I) up) (\<lambda>upq.
      bindR (setup_meta sizes r2) (\<lambda>r.
        gemm_run mm r (map fst upq) (torch_empty (junk 1) bs H)))))))"

definition deepgemm_forward ::
  "('w \<Rightarrow> row list \<Rightarrow> int list \<Rightarrow> nat \<Rightarrow> nat \<Rightarrow> row list) \<Rightarrow> (real \<Rightarrow> real) \<Rightarrow> 'w \<Rightarrow> 'w \<Rightarrow>
   experts \<Rightarrow> nat \<Rightarrow> row list \<Rightarrow> int list \<Rightarrow> row list" where
  "deepgemm_forward gemm silu w13 w2 ex bs X m_indices =
     (let I = ex_intermediate_size ex;
          up = map (gated silu I) (gemm w13 X m_indices bs (I * 2))
      in gemm w2 up m_indices bs (ex_hidden_size ex))"

definition deepgemm_fp8_forward ::
  "(nat \<Rightarrow> row \<Rightarrow> row \<times> row) \<Rightarrow> ('w \<Rightarrow> (row \<times> row) list \<Rightarrow> int list \<Rightarrow> nat \<Rightarrow> nat \<Rightarrow> row list) \<Rightarrow>
   (real \<Rightarrow> real) \<Rightarrow> 'w \<Rightarrow> 'w \<Rightarrow> experts \<Rightarrow> nat \<Rightarrow> row list \<Rightarrow> int list \<Rightarrow> row list result" where
  "deepgemm_fp8_forward qop gemm silu w13 w2 ex bs X m_indices =
     (let H = ex_hidden_size ex; I = ex_intermediate_size ex in
      bindR (group_quant_fp8 qop H (group_size_of H) X) (\<lambda>Xq.
      let up = map (gated silu I) (gemm w13 Xq m_indices bs (I * 2)) in
      bindR (group_quant_fp8 qop I (group_size_of I) up) (\<lambda>upq.
        Inr (gemm w2 upq m_indices bs H))))"


section \<open>The masked variant\<close>

text \<open>
  Buffers of fixed size, one block of \<open>max_batch_size\<close> rows per expert, that a captured graph
  reads and writes. \<open>dst[:n].copy_(src)\<close> replaces the first rows; a source of one row is
  repeated, any other difference of length raises.
\<close>

definition copy_rows :: "nat \<Rightarrow> 'x list \<Rightarrow> 'x list \<Rightarrow> 'x list result" where
  "copy_rows n src dst =
     (let d = min n (length dst) in
      if length src = d then Inr (src @ drop d dst)
      else if length src = 1 then Inr (replicate d (hd src) @ drop d dst)
      else Inl RuntimeError)"

text \<open>The same behind an offset: \<open>dst[s : s + n].copy_(src)\<close>.\<close>

definition copy_rows_at :: "nat \<Rightarrow> nat \<Rightarrow> 'x list \<Rightarrow> 'x list \<Rightarrow> 'x list result" where
  "copy_rows_at s n src dst =
     bindR (copy_rows n src (drop s dst)) (\<lambda>rest. Inr (take s dst @ rest))"

record masked =
  mk_up_in :: "(row \<times> row) list list"
  mk_down_in :: "(row \<times> row) list list"
  mk_cache_up :: "row list list"
  mk_cache_down :: "row list list"
  mk_sizes :: "nat list"

text \<open>
  The graph: the masked kernel computes the first rows of each block, as many as the static
  sizes say, and leaves the other rows of its output buffer; SiLU works in place on the whole
  buffer; \<open>cast\<close> is \<open>per_token_cast_to_fp8\<close>.
\<close>

definition masked_internal ::
  "(row \<Rightarrow> row \<times> row) \<Rightarrow> ('w \<Rightarrow> (row \<times> row) list list \<Rightarrow> nat list \<Rightarrow> row list list \<Rightarrow> row list list) \<Rightarrow>
   (real \<Rightarrow> real) \<Rightarrow> 'w \<Rightarrow> 'w \<Rightarrow> nat \<Rightarrow> masked \<Rightarrow> masked" where
  "masked_internal cast gemm silu w13 w2 I m =
     (let up = gemm w13 (mk_up_in m) (mk_sizes m) (mk_cache_up m);
          up = map (map (\<lambda>u. map silu (take I u) @ drop I u)) up;
          res = map (map (\<lambda>u. map2 (*) (take I u) (drop I u))) up;
          down_in = map (map cast) res
      in m\<lparr>mk_cache_up := up, mk_down_in := down_in,
           mk_cache_down := gemm w2 down_in (mk_sizes m) (mk_cache_down m)\<rparr>)"

definition masked_scatter :: "nat \<Rightarrow> nat list \<Rightarrow> 'x list \<Rightarrow> 'x list list \<Rightarrow> (nat \<times> 'x list list) result" where
  "masked_scatter E sizes X buf =
     foldR (\<lambda>i (s, buf).
         bindR (py_get sizes (int i)) (\<lambda>n.
         if n = 0 then Inr (s, buf)
         else bindR (py_get buf (int i)) (\<lambda>rows.
              bindR (copy_rows n (take n (drop s X)) rows) (\<lambda>rows.
                Inr (s + n, buf[i := rows]))))) [0..<E] (0, buf)"

definition masked_gather ::
  "nat \<Rightarrow> nat list \<Rightarrow> 'x list list \<Rightarrow> 'x list \<Rightarrow> (nat \<times> 'x list) result" where
  "masked_gather E sizes cache out =
     foldR (\<lambda>i (s, out).
         bindR (py_get sizes (int i)) (\<lambda>n.
         if n = 0 then Inr (s, out)
         else bindR (py_get cache (int i)) (\<lambda>rows.
              bindR (copy_rows_at s n (take n rows) out) (\<lambda>out. Inr (s + n, out))))) [0..<E] (0, out)"

text \<open>\<open>fresh\<close> is the uninitialised output tensor of \<open>bs\<close> rows.\<close>

definition masked_forward ::
  "(row \<Rightarrow> row \<times> row) \<Rightarrow> ('w \<Rightarrow> (row \<times> row) list list \<Rightarrow> nat list \<Rightarrow> row list list \<Rightarrow> row list list) \<Rightarrow>
   (real \<Rightarrow> real) \<Rightarrow> 'w \<Rightarrow> 'w \<Rightarrow> experts \<Rightarrow> (nat \<Rightarrow> row list) \<Rightarrow> nat \<Rightarrow> row list \<Rightarrow> nat list \<Rightarrow> masked \<Rightarrow>
   (row list \<times> masked) result" where
  "masked_forward cast gemm silu w13 w2 ex fresh bs X sizes m =
     (let E = ex_num_experts ex in
      bindR (masked_scatter E sizes (map cast X) (mk_up_in m)) (\<lambda>(_, up_in).
      bindR (copy_rows E sizes (mk_sizes m)) (\<lambda>szs.
      let m = masked_internal cast gemm silu w13 w2 (ex_intermediate_size ex)
                (m\<lparr>mk_up_in := up_in, mk_sizes := szs\<rparr>)
      in bindR (masked_gather E sizes (mk_cache_down m) (fresh bs)) (\<lambda>(_, out). Inr (out, m)))))"

section \<open>Shared experts\<close>

record shared_expert =
  se_intermediate_size :: nat
  se_gate_up :: "real linear"
  se_down :: "real linear"

definition shared_expert_init :: "(nat list \<Rightarrow> real tensor) \<Rightarrow> nat \<Rightarrow> nat \<Rightarrow> shared_expert" where
  "shared_expert_init rand H I =
     \<lparr>se_intermediate_size = I, se_gate_up = replicated_init rand H (I * 2) False False,
      se_down = replicated_init rand I H False False\<rparr>"

definition shared_expert_forward ::
  "(row list \<Rightarrow> real tensor \<Rightarrow> real tensor option \<Rightarrow> row list result) \<Rightarrow> (real \<Rightarrow> real) \<Rightarrow>
   shared_expert \<Rightarrow> row list \<Rightarrow> row list result" where
  "shared_expert_forward lin silu se X =
     bindR (replicated_forward lin (se_gate_up se) X) (\<lambda>(gate_up, _).
     bindR (replicated_forward lin (se_down se) (map (gated silu (se_intermediate_size se)) gate_up))
       (\<lambda>(down, _). Inr down))"

section \<open>The reference\<close>

text \<open>The expert of each row, the rows of each expert, and what one expert makes of a row.\<close>

fun expert_from :: "nat \<Rightarrow> nat list \<Rightarrow> nat list" where
  "expert_from i [] = []"
| "expert_from i (n # ns) = replicate n i @ expert_from (Suc i) ns"

definition expert_row :: "(nat \<Rightarrow> 'a \<Rightarrow> row) \<Rightarrow> (nat \<Rightarrow> 'b \<Rightarrow> row) \<Rightarrow> (row \<Rightarrow> 'b) \<Rightarrow> (real \<Rightarrow> real) \<Rightarrow> nat \<Rightarrow>
   nat \<Rightarrow> 'a \<Rightarrow> row" where
  "expert_row up down c silu I e x = down e (c (gated silu I (up e x)))"

lemma length_expert_from [simp]: "length (expert_from i ns) = sum_list ns"
  by (induction i ns rule: expert_from.induct) simp_all

lemma map2_replicate: "map2 f (replicate n i) X = map (f i) (take n X)"
proof (induction n arbitrary: X)
  case (Suc n)
  then show ?case by (cases X) simp_all
qed simp

lemma map2_expert_from:
  "map2 f (expert_from i (n # ns)) X =
     map (f i) (take n X) @ map2 f (expert_from (Suc i) ns) (drop n X)"
  by (simp add: zip_append1 map2_replicate)

section \<open>The serial class\<close>

lemma serial_loop:
  assumes calc: "\<And>e Y. e < m \<Longrightarrow> set Y \<subseteq> set X \<Longrightarrow> serial_calc lin silu ex e Y = Inr (map (f e) Y)"
    and "i + length ns = m"
  shows "\<exists>rs. foldR (serial_step lin silu ex X) (enumerate i ns) (s, results) = Inr (s + sum_list ns, results @ rs) \<and>
     concat rs = map2 f (expert_from i ns) (drop s X) \<and> (rs = [] \<longleftrightarrow> sum_list ns = 0)"
  using assms(2)
proof (induction ns arbitrary: i s results)
  case (Cons n ns)
  let ?y = "map (f i) (take n (drop s X))"
  have "set (take n (drop s X)) \<subseteq> set X"
    by (meson order_trans set_drop_subset set_take_subset)
  then have c: "serial_calc lin silu ex i (take n (drop s X)) = Inr ?y"
    using calc [of i] Cons.prems by simp
  have step: "serial_step lin silu ex X (i, n) (s, results) =
      Inr (s + n, if n = 0 then results else results @ [?y])"
    using c by (simp add: serial_step_def)
  obtain rs where rs: "foldR (serial_step lin silu ex X) (enumerate (Suc i) ns)
        (s + n, if n = 0 then results else results @ [?y]) =
        Inr (s + n + sum_list ns, (if n = 0 then results else results @ [?y]) @ rs)"
      "concat rs = map2 f (expert_from (Suc i) ns) (drop (s + n) X)" "rs = [] \<longleftrightarrow> sum_list ns = 0"
    using Cons.IH [of "Suc i" "s + n" "if n = 0 then results else results @ [?y]"] Cons.prems by auto
  have "map2 f (expert_from i (n # ns)) (drop s X) = ?y @ concat rs"
    unfolding map2_expert_from rs(2) by (simp add: add.commute)
  then show ?case
    using step rs by (intro exI [of _ "if n = 0 then rs else ?y # rs"]) (auto simp: add.assoc)
qed simp

lemma serial_forward_rows:
  assumes calc: "\<And>e Y. e < length sizes \<Longrightarrow> set Y \<subseteq> set X \<Longrightarrow>
      serial_calc lin silu ex e Y = Inr (map (f e) Y)"
  shows "serial_forward lin silu ex X sizes =
     (if sum_list sizes = 0 then Inl RuntimeError else Inr (map2 f (expert_from 0 sizes) X))"
proof -
  obtain rs where "foldR (serial_step lin silu ex X) (enumerate 0 sizes) (0, []) =
        Inr (0 + sum_list sizes, [] @ rs)"
      "concat rs = map2 f (expert_from 0 sizes) (drop 0 X)" "rs = [] \<longleftrightarrow> sum_list sizes = 0"
    using serial_loop [where m = "length sizes" and i = 0 and ns = sizes and s = 0 and results = "[]",
        OF calc] by auto
  then show ?thesis by (auto simp: serial_forward_def)
qed


section \<open>The grouped kernels\<close>

lemma map2_map2:
  "length es = length X \<Longrightarrow> map2 k es (map g (map2 h es X)) = map2 (\<lambda>e x. k e (g (h e x))) es X"
  by (induction es X rule: list_induct2) simp_all

text \<open>What is relied on of CUTLASS: the product of a problem is the product of each of its rows.\<close>

definition gemm_ok ::
  "('w \<Rightarrow> nat \<Rightarrow> nat \<Rightarrow> 'x list \<Rightarrow> row list) \<Rightarrow> ('w \<Rightarrow> nat \<Rightarrow> nat \<Rightarrow> 'x \<Rightarrow> row) \<Rightarrow> bool" where
  "gemm_ok mm kr \<longleftrightarrow> (\<forall>w e n X. mm w e n X = map (kr w n e) X)"

text \<open>What a runner makes of one row: the product, and the scale of the expert if it has scales.\<close>

definition runner_row :: "('w \<Rightarrow> nat \<Rightarrow> nat \<Rightarrow> row \<Rightarrow> row) \<Rightarrow> 'w gemm_runner \<Rightarrow> nat \<Rightarrow> row \<Rightarrow> row" where
  "runner_row kr r e x =
     (let y = kr (gr_weight r) (gr_n r) e x in
      case gr_scale r of None \<Rightarrow> y | Some sc \<Rightarrow> map (\<lambda>(j, v). v * sc ! e ! j) (enumerate 0 y))"

text \<open>A runner of \<open>E\<close> matrices with \<open>n\<close> columns for up to \<open>mx\<close> rows.\<close>

definition runner_ok :: "('w \<Rightarrow> nat \<Rightarrow> nat \<Rightarrow> row \<Rightarrow> row) \<Rightarrow> nat \<Rightarrow> nat \<Rightarrow> 'w gemm_runner \<Rightarrow> bool" where
  "runner_ok kr E mx r \<longleftrightarrow> gr_num_experts r = E \<and> (gr_scale r \<noteq> None \<longrightarrow> gr_max_tokens r = mx \<and>
     (\<forall>e x. length (kr (gr_weight r) (gr_n r) e x) = gr_n r))"

lemma run_problems_rows:
  assumes mm: "gemm_ok mm kr" and "off + sum_list ns \<le> length X" and "off + sum_list ns \<le> length C"
  shows "foldR (run_problem mm w n X) (enumerate e (problems_from off ns)) C =
    Inr (take off C @ map2 (kr w n) (expert_from e ns) (drop off X) @ drop (off + sum_list ns) C)"
  using assms(2,3)
proof (induction ns arbitrary: off e C)
  case (Cons M ns)
  let ?y = "map (kr w n e) (take M (drop off X))"
  let ?C = "take off C @ ?y @ drop (off + M) C"
  have y: "length ?y = M" using Cons.prems(1) by simp
  have len: "length ?C = length C" using Cons.prems y by simp
  have step: "run_problem mm w n X (e, \<lparr>pb_rows = M, pb_a = Some off, pb_c = Some off\<rparr>) C = Inr ?C"
    using Cons.prems mm by (simp add: run_problem_def gemm_ok_def)
  have t: "take (off + M) ?C = take off C @ ?y" using Cons.prems(2) y by simp
  have d: "drop (off + M + sum_list ns) ?C = drop (off + M + sum_list ns) C"
    using Cons.prems(2) y by (simp add: ac_simps)
  have "foldR (run_problem mm w n X) (enumerate (Suc e) (problems_from (off + M) ns)) ?C =
      Inr (take (off + M) ?C @ map2 (kr w n) (expert_from (Suc e) ns) (drop (off + M) X) @
        drop (off + M + sum_list ns) ?C)"
    using Cons.prems len by (intro Cons.IH) simp_all
  then have rest: "foldR (run_problem mm w n X) (enumerate (Suc e) (problems_from (off + M) ns)) ?C =
      Inr (take off C @ ?y @ map2 (kr w n) (expert_from (Suc e) ns) (drop (off + M) X) @
        drop (off + M + sum_list ns) C)"
    unfolding t d by simp
  have "map2 (kr w n) (expert_from e (M # ns)) (drop off X) =
      ?y @ map2 (kr w n) (expert_from (Suc e) ns) (drop (off + M) X)"
    unfolding map2_expert_from by (simp add: add.commute)
  then show ?case using rest by (simp add: step add.assoc del: expert_from.simps)
qed simp

lemma scan_expert_from:
  "off \<le> t \<Longrightarrow> scan_expert t e off ns =
     (if t < off + sum_list ns then Some (expert_from e ns ! (t - off)) else None)"
proof (induction ns arbitrary: off e)
  case (Cons M ns)
  show ?case
  proof (cases "t < off + M")
    case False
    then have "\<not> t - off < M" using Cons.prems by linarith
    then show ?thesis using False Cons.IH [of "off + M" "Suc e"] Cons.prems
      by (simp add: nth_append)
  next
    case True
    then have "t - off < M" using Cons.prems by linarith
    then show ?thesis using True by (simp add: nth_append)
  qed
qed simp

lemma scale_rows:
  assumes "sum_list sizes \<le> length C" and "sum_list sizes \<le> mx"
    and "\<forall>t < sum_list sizes. length (C ! t) = n"
  shows "length (apply_output_scale n mx sizes sc C) = length C"
    and "t < sum_list sizes \<Longrightarrow> apply_output_scale n mx sizes sc C ! t =
      map (\<lambda>(j, v). v * sc ! (expert_from 0 sizes ! t) ! j) (enumerate 0 (C ! t))"
proof -
  show "length (apply_output_scale n mx sizes sc C) = length C"
    by (simp add: apply_output_scale_def)
  assume t: "t < sum_list sizes"
  then have len: "length (C ! t) = n" "t < length C" using assms by simp_all
  have cover: "t * n + j < (mx * n + 255) div 256 * 256" if "j < n" for j
  proof -
    have "Suc t * n \<le> mx * n" using t assms(2) by (intro mult_le_mono1) simp
    then have "t * n + j < mx * n" using that by simp
    also have "mx * n \<le> (mx * n + 255) div 256 * 256" by linarith
    finally show ?thesis .
  qed
  show "apply_output_scale n mx sizes sc C ! t =
      map (\<lambda>(j, v). v * sc ! (expert_from 0 sizes ! t) ! j) (enumerate 0 (C ! t))"
    by (rule nth_equalityI)
      (use len cover t in \<open>simp_all add: apply_output_scale_def nth_enumerate_eq scan_expert_from\<close>)
qed

text \<open>
  A setup and a launch on a batch that fits give each row what its own expert makes of it, from any
  contents of the output buffer; the rows behind the last expert are not touched.
\<close>

lemma grouped_gemm_rows:
  assumes mm: "gemm_ok mm kr" and r: "runner_ok kr E mx r" and s: "length sizes = E"
      "sum_list sizes \<le> length X" "sum_list sizes \<le> mx" and C: "length C = length X"
  shows "\<exists>r' out. setup_meta sizes r = Inr r' \<and> gemm_run mm r' X C = Inr out \<and>
    length out = length X \<and> take (sum_list sizes) out = map2 (runner_row kr r) (expert_from 0 sizes) X"
proof -
  let ?r = "r\<lparr>gr_sizes := sizes, gr_problems := problems_from 0 (take (gr_num_experts r) sizes)\<rparr>"
  let ?w = "gr_weight r" and ?n = "gr_n r" and ?T = "sum_list sizes"
  let ?Y = "map2 (kr ?w ?n) (expert_from 0 sizes) X @ drop ?T C"
  have E: "gr_num_experts r = E" using r by (simp add: runner_ok_def)
  have set: "setup_meta sizes r = Inr ?r" using E s by (simp add: setup_meta_def)
  have run: "foldR (run_problem mm ?w ?n X) (enumerate 0 (problems_from 0 sizes)) C = Inr ?Y"
    using run_problems_rows [OF mm, of 0 sizes X C ?w ?n 0] s C by simp
  have l1: "length (map2 (kr ?w ?n) (expert_from 0 sizes) X) = ?T" using s by simp
  have l: "length ?Y = length X" using s C by simp
  show ?thesis
  proof (cases "gr_scale r")
    case None
    then show ?thesis using set run l l1 E s
      by (simp add: gemm_run_def runner_row_def [abs_def])
  next
    case (Some sc)
    have w: "gr_max_tokens r = mx" "\<And>e x. length (kr ?w ?n e x) = ?n"
      using r Some by (simp_all add: runner_ok_def)
    have row: "?Y ! t = kr ?w ?n (expert_from 0 sizes ! t) (X ! t)" if "t < ?T" for t
      using that s l1 by (simp add: nth_append)
    have fit: "?T \<le> length ?Y" "\<forall>t < ?T. length (?Y ! t) = ?n"
      using s l row w by simp_all
    let ?out = "apply_output_scale ?n mx sizes sc ?Y"
    have "gemm_run mm ?r X C = Inr ?out"
      using run Some w E s by (simp add: gemm_run_def)
    moreover have "take ?T ?out = map2 (runner_row kr r) (expert_from 0 sizes) X"
    proof (rule nth_equalityI)
      show "length (take ?T ?out) = length (map2 (runner_row kr r) (expert_from 0 sizes) X)"
        using s l scale_rows(1) [OF fit(1) s(3) fit(2)] by simp
      fix t assume "t < length (take ?T ?out)"
      then have t: "t < ?T" by simp
      then show "take ?T ?out ! t = map2 (runner_row kr r) (expert_from 0 sizes) X ! t"
        using scale_rows(2) [OF fit(1) s(3) fit(2) t] row [OF t] s Some
        by (simp add: runner_row_def Let_def)
    qed
    ultimately show ?thesis using set l scale_rows(1) [OF fit(1) s(3) fit(2)] by auto
  qed
qed

lemma length_torch_empty [simp]: "length (torch_empty junk m n) = m"
  by (simp add: torch_empty_def)

lemma map2_take_right: "length es \<le> n \<Longrightarrow> map2 f es (take n X) = map2 f es X"
proof (induction es arbitrary: n X)
  case (Cons e es)
  then show ?case by (cases n; cases X) simp_all
qed simp

text \<open>The two products of a pass, with an element-wise function of rows between them.\<close>

lemma grouped_twice:
  assumes mm: "gemm_ok mm kr" and r: "runner_ok kr E mx r13" "runner_ok kr E mx r2"
    and s: "length sizes = E" "sum_list sizes \<le> length X" "sum_list sizes \<le> mx"
  shows "\<exists>r13' up r2' out. setup_meta sizes r13 = Inr r13' \<and>
    gemm_run mm r13' X (torch_empty j1 (length X) n1) = Inr up \<and> length up = length X \<and>
    setup_meta sizes r2 = Inr r2' \<and> gemm_run mm r2' (map h up) (torch_empty j2 (length X) n2) = Inr out \<and>
    length out = length X \<and> take (sum_list sizes) out =
      map2 (\<lambda>e x. runner_row kr r2 e (h (runner_row kr r13 e x))) (expert_from 0 sizes) X"
proof -
  let ?T = "sum_list sizes"
  obtain r13' up where up: "setup_meta sizes r13 = Inr r13'" "length up = length X"
      "gemm_run mm r13' X (torch_empty j1 (length X) n1) = Inr up"
      "take ?T up = map2 (runner_row kr r13) (expert_from 0 sizes) X"
    using grouped_gemm_rows [OF mm r(1) s, of "torch_empty j1 (length X) n1"] by auto
  obtain r2' out where out: "setup_meta sizes r2 = Inr r2'" "length out = length X"
      "gemm_run mm r2' (map h up) (torch_empty j2 (length X) n2) = Inr out"
      "take ?T out = map2 (runner_row kr r2) (expert_from 0 sizes) (map h up)"
    using grouped_gemm_rows [OF mm r(2) s(1) _ s(3), of "map h up" "torch_empty j2 (length X) n2"] up(2) s(2)
    by auto
  let ?X = "take ?T X"
  have "map2 (runner_row kr r2) (expert_from 0 sizes) (map h up) =
      map2 (runner_row kr r2) (expert_from 0 sizes) (take ?T (map h up))"
    by (simp add: map2_take_right)
  also have "take ?T (map h up) = map h (map2 (runner_row kr r13) (expert_from 0 sizes) ?X)"
    using up(4) by (simp add: take_map map2_take_right)
  also have "map2 (runner_row kr r2) (expert_from 0 sizes) (map h (map2 (runner_row kr r13) (expert_from 0 sizes) ?X)) =
      map2 (\<lambda>e x. runner_row kr r2 e (h (runner_row kr r13 e x))) (expert_from 0 sizes) ?X"
    by (rule map2_map2) (use s in simp)
  finally have "take ?T out = map2 (\<lambda>e x. runner_row kr r2 e (h (runner_row kr r13 e x))) (expert_from 0 sizes) X"
    using out(4) by (simp add: map2_take_right)
  then show ?thesis using up out by blast
qed

text \<open>
  What is relied on of DeepGEMM's contiguous kernels. They read one index per block of \<open>A\<close> rows,
  so the documentation asks for the segment of each expert to be aligned to the block; then
  every row is computed with the expert its index names. Nothing is said of other indices.
\<close>

definition aligned :: "nat \<Rightarrow> int list \<Rightarrow> bool" where
  "aligned A ms \<longleftrightarrow> A dvd length ms \<and> (\<forall>i < length ms. ms ! i = ms ! (i div A * A))"

definition contiguous_ok ::
  "nat \<Rightarrow> ('w \<Rightarrow> 'x list \<Rightarrow> int list \<Rightarrow> nat \<Rightarrow> nat \<Rightarrow> row list) \<Rightarrow> ('w \<Rightarrow> nat \<Rightarrow> nat \<Rightarrow> 'x \<Rightarrow> row) \<Rightarrow> nat \<Rightarrow> bool" where
  "contiguous_ok A gemm kr E \<longleftrightarrow>
     (\<forall>w X ms n. length ms = length X \<longrightarrow> aligned A ms \<longrightarrow> (\<forall>m \<in> set ms. 0 \<le> m \<and> m < int E) \<longrightarrow>
        gemm w X ms (length X) n = map2 (\<lambda>m. kr w n (nat m)) ms X)"

text \<open>The two layouts of a weight: \<open>[K, N]\<close> and, for the kernels that take it transposed, \<open>[N, K]\<close>.\<close>

definition cols :: "nat \<Rightarrow> row list \<Rightarrow> row list" where
  "cols n w = map (\<lambda>j. map (\<lambda>r. r ! j) w) [0..<n]"

lemma vecmat_cols: "vecmat n x w = map (dot x) (cols n w)"
  by (simp add: vecmat_def cols_def)

lemma length_vecmat [simp]: "length (vecmat n x w) = n"
  by (simp add: vecmat_def)

lemma length_gated: "length u = I * 2 \<Longrightarrow> length (gated silu I u) = I"
  by (simp add: gated_def)

lemma expert_from_bound: "e \<in> set (expert_from i ns) \<Longrightarrow> i \<le> e \<and> e < i + length ns"
  by (induction i ns rule: expert_from.induct) (auto split: if_splits)

lemma cutlass_forward_rows:
  assumes mm: "gemm_ok mm kr" and r: "runner_ok kr E mx r13" "runner_ok kr E mx r2"
    and s: "length sizes = E" "sum_list sizes \<le> length X" "sum_list sizes \<le> mx"
  shows "\<exists>out. cutlass_forward mm silu junk r13 r2 ex (length X) X sizes = Inr out \<and> length out = length X \<and>
    take (sum_list sizes) out = map2 (expert_row (runner_row kr r13) (runner_row kr r2) id silu
        (ex_intermediate_size ex)) (expert_from 0 sizes) X"
  using grouped_twice [OF assms, of "junk 0" "ex_intermediate_size ex * 2"
      "gated silu (ex_intermediate_size ex)" "junk 1" "ex_hidden_size ex"]
  by (auto simp: cutlass_forward_def expert_row_def [abs_def])

lemma cutlass_runners_ok:
  assumes "cutlass_runners load fp8 ex w13 w2 = Inr (r13, r2)"
  shows "gr_weight r13 = load w13 \<and> gr_weight r2 = load w2 \<and> gr_n r13 = ex_intermediate_size ex * 2 \<and>
    gr_n r2 = ex_hidden_size ex \<and> gr_num_experts r13 = ex_num_experts ex \<and>
    gr_num_experts r2 = ex_num_experts ex \<and> gr_max_tokens r13 = ex_max_batch_size ex \<and>
    gr_max_tokens r2 = ex_max_batch_size ex \<and> (gr_scale r13 = None \<longleftrightarrow> \<not> fp8) \<and> (gr_scale r2 = None \<longleftrightarrow> \<not> fp8)"
  using assms by (auto simp: cutlass_runners_def gemm_runner_init_def res Let_def split: if_splits)

lemma aligned_append: "aligned A xs \<Longrightarrow> aligned A ys \<Longrightarrow> aligned A (xs @ ys)"
proof -
  assume x: "aligned A xs" and y: "aligned A ys"
  obtain k where k: "length xs = A * k" using x by (auto simp: aligned_def)
  have "(xs @ ys) ! i = (xs @ ys) ! (i div A * A)" if i: "i < length (xs @ ys)" for i
  proof (cases "i < length xs")
    case True
    moreover have "i div A * A \<le> i" by simp
    ultimately have "i div A * A < length xs" by linarith
    then show ?thesis using x True by (simp add: aligned_def nth_append)
  next
    case False
    then obtain j where j: "i = A * k + j" using k by (metis le_Suc_ex not_less)
    have "A \<noteq> 0" using i y k j by (auto simp: aligned_def intro: gr0I)
    then have "i div A * A = A * k + j div A * A" by (simp add: j algebra_simps)
    then show ?thesis using y i j k by (simp add: aligned_def nth_append)
  qed
  then show "aligned A (xs @ ys)" using x y by (simp add: aligned_def)
qed

lemma aligned_replicate: "A dvd n \<Longrightarrow> aligned A (replicate n m)"
proof -
  assume "A dvd n"
  moreover have "i div A * A < n" if "i < n" for i
    using that by (metis div_times_less_eq_dividend le_less_trans)
  ultimately show ?thesis by (simp add: aligned_def)
qed

lemma aligned_expert_from: "\<forall>n \<in> set ns. A dvd n \<Longrightarrow> aligned A (map int (expert_from i ns))"
proof (induction i ns rule: expert_from.induct)
  case (2 i n ns)
  then show ?case by (simp add: aligned_append aligned_replicate)
qed (simp add: aligned_def)

lemma deepgemm_forward_rows:
  assumes dg: "contiguous_ok A gemm kr E" and ms: "length ms = length X" "\<forall>m \<in> set ms. 0 \<le> m \<and> m < int E"
    and al: "aligned A ms"
  shows "deepgemm_forward gemm silu w13 w2 ex (length X) X ms =
     map2 (\<lambda>m. expert_row (kr w13 (ex_intermediate_size ex * 2)) (kr w2 (ex_hidden_size ex)) id silu
        (ex_intermediate_size ex) (nat m)) ms X"
proof -
  have g: "gemm w Y ms (length X) n = map2 (\<lambda>m. kr w n (nat m)) ms Y" if "length Y = length X" for w Y n
    using dg ms al that unfolding contiguous_ok_def by (metis (no_types, lifting))
  show ?thesis
    using ms(1)
    by (simp add: deepgemm_forward_def Let_def g map2_map2 expert_row_def del: map_map)
qed

text \<open>The serial class on plain weights: every expert is a matrix product, SiLU, a matrix product.\<close>

definition plain_row :: "(real \<Rightarrow> real) \<Rightarrow> nat \<Rightarrow> nat \<Rightarrow> row list list \<Rightarrow> row list list \<Rightarrow> nat \<Rightarrow> row \<Rightarrow> row" where
  "plain_row silu H I w13 w2 e x = vecmat H (gated silu I (vecmat (I * 2) x (w13 ! e))) (w2 ! e)"

lemma serial_calc_plain:
  assumes "ex_weights ex = Plain w13 w2" and "e < length w13" and "e < length w2"
    and "length (w13 ! e) = ex_hidden_size ex" and "length (w2 ! e) = ex_intermediate_size ex"
    and "rect (ex_hidden_size ex) Y"
  shows "serial_calc lin silu ex e Y =
     Inr (map (plain_row silu (ex_hidden_size ex) (ex_intermediate_size ex) w13 w2 e) Y)"
proof -
  have "rect (ex_intermediate_size ex) (map (gated silu (ex_intermediate_size ex))
      (map (\<lambda>x. vecmat (ex_intermediate_size ex * 2) x (w13 ! e)) Y))"
    by (simp add: rect_def length_gated)
  then show ?thesis
    using assms by (simp add: serial_calc_def matmul_def plain_row_def comp_def Let_def)
qed

section \<open>The masked kernels\<close>

definition masked_ok ::
  "('w \<Rightarrow> (row \<times> row) list list \<Rightarrow> nat list \<Rightarrow> row list list \<Rightarrow> row list list) \<Rightarrow>
   ('w \<Rightarrow> nat \<Rightarrow> row \<times> row \<Rightarrow> row) \<Rightarrow> bool" where
  "masked_ok gemm kr \<longleftrightarrow>
     (\<forall>w inp sizes out. map length (gemm w inp sizes out) = map length out \<and>
        (\<forall>e < length out. \<forall>t < min (sizes ! e) (length (out ! e)). gemm w inp sizes out ! e ! t = kr w e (inp ! e ! t)))"

definition masked_wf :: "nat \<Rightarrow> nat \<Rightarrow> masked \<Rightarrow> bool" where
  "masked_wf E B m \<longleftrightarrow>
     length (mk_up_in m) = E \<and> rect B (mk_up_in m) \<and> length (mk_down_in m) = E \<and> rect B (mk_down_in m) \<and>
     length (mk_cache_up m) = E \<and> rect B (mk_cache_up m) \<and>
     length (mk_cache_down m) = E \<and> rect B (mk_cache_down m) \<and> length (mk_sizes m) = E"

definition seg :: "nat list \<Rightarrow> 'x list \<Rightarrow> nat \<Rightarrow> 'x list" where
  "seg ns X j = take (ns ! j) (drop (sum_list (take j ns)) X)"

lemma concat_segs:
  "concat (map (\<lambda>j. map (g (i + j)) (seg ns X j)) [0..<length ns]) = map2 g (expert_from i ns) X"
proof (induction ns arbitrary: i X)
  case (Cons n ns)
  have "concat (map (\<lambda>j. map (g (i + j)) (seg (n # ns) X j)) [0..<length (n # ns)]) =
      map (g i) (take n X) @ concat (map (\<lambda>j. map (g (Suc i + j)) (seg ns (drop n X) j)) [0..<length ns])"
    by (simp add: upt_conv_Cons map_Suc_upt [symmetric] comp_def seg_def add.commute del: upt_Suc)
  then show ?case using Cons.IH [of "Suc i" "drop n X"] by (simp add: map2_expert_from del: expert_from.simps)
qed simp

lemma seg_fits:
  assumes "j < length ns" and "sum_list ns \<le> length X"
  shows "sum_list (take j ns) + ns ! j \<le> length X" and "length (seg ns X j) = ns ! j"
proof -
  have "sum_list (take (Suc j) ns) \<le> sum_list ns"
    by (metis append_take_drop_id le_add1 sum_list_append)
  then show *: "sum_list (take j ns) + ns ! j \<le> length X"
    using assms by (simp add: take_Suc_conv_app_nth)
  show "length (seg ns X j) = ns ! j" using * by (simp add: seg_def)
qed


lemma copy_rows_fits:
  "length src = n \<Longrightarrow> n \<le> length dst \<Longrightarrow> copy_rows n src dst = Inr (src @ drop n dst)"
  by (simp add: copy_rows_def min_def)

lemma take_Suc_nth_sum: "j < length ns \<Longrightarrow> sum_list (take (Suc j) ns) = sum_list (take j ns) + (ns ! j :: nat)"
  by (simp add: take_Suc_conv_app_nth)

text \<open>Scatter: the block of expert \<open>j\<close> begins with the rows of expert \<open>j\<close>.\<close>

lemma masked_scatter_blocks:
  assumes E: "length sizes = E" and fits: "sum_list sizes \<le> length X" and B: "\<forall>j < E. sizes ! j \<le> B"
    and buf: "length buf = E" "rect B buf"
  shows "\<exists>buf'. masked_scatter E sizes X buf = Inr (sum_list sizes, buf') \<and> length buf' = E \<and> rect B buf' \<and>
     (\<forall>j < E. take (sizes ! j) (buf' ! j) = seg sizes X j)"
proof -
  define step where "step = (\<lambda>i (s, buf).
      bindR (py_get sizes (int i)) (\<lambda>n.
      if n = 0 then Inr (s, buf)
      else bindR (py_get buf (int i)) (\<lambda>rows.
           bindR (copy_rows n (take n (drop s X)) rows) (\<lambda>rows. Inr (s + n, buf[i := rows])))))"
  have "k \<le> E \<Longrightarrow> \<exists>buf'. foldR step [0..<k] (0, buf) = Inr (sum_list (take k sizes), buf') \<and>
      length buf' = E \<and> rect B buf' \<and> (\<forall>j < k. take (sizes ! j) (buf' ! j) = seg sizes X j)" for k
  proof (induction k)
    case 0
    then show ?case using buf by simp
  next
    case (Suc k)
    then obtain b where b: "foldR step [0..<k] (0, buf) = Inr (sum_list (take k sizes), b)"
        "length b = E" "rect B b" "\<forall>j < k. take (sizes ! j) (b ! j) = seg sizes X j"
      by auto
    have k: "k < length sizes" "k < E" using Suc.prems E by simp_all
    note sg = seg_fits [OF k(1) fits]
    have len: "length (b ! k) = B" using b k by (simp add: rect_nth)
    define b' where "b' = (if sizes ! k = 0 then b else b[k := seg sizes X k @ drop (sizes ! k) (b ! k)])"
    have "copy_rows (sizes ! k) (take (sizes ! k) (drop (sum_list (take k sizes)) X)) (b ! k) =
        Inr (seg sizes X k @ drop (sizes ! k) (b ! k))"
      using copy_rows_fits [OF sg(2), of "b ! k"] B k len by (simp add: seg_def)
    then have "step k (sum_list (take k sizes), b) = Inr (sum_list (take (Suc k) sizes), b')"
      using k b(2) by (simp add: step_def b'_def take_Suc_nth_sum)
    moreover have "length b' = E" "rect B b'"
      using b len sg B k by (auto simp: b'_def rect_def dest!: set_update_subset_insert [THEN subsetD])
    moreover have "take (sizes ! j) (b' ! j) = seg sizes X j" if "j < Suc k" for j
      using that b k sg(2) by (cases "j = k") (auto simp: b'_def seg_def)
    ultimately show ?case using b(1) by (simp add: foldR_append)
  qed
  from this [of E] show ?thesis using E by (simp add: masked_scatter_def step_def)
qed

text \<open>Gather: the outputs of the experts, one after the other.\<close>

lemma masked_gather_rows:
  assumes E: "length sizes = E" and bs: "sum_list sizes = length out"
    and cache: "length cache = E" "\<forall>j < E. sizes ! j \<le> length (cache ! j)"
  shows "masked_gather E sizes cache out =
     Inr (sum_list sizes, concat (map (\<lambda>j. take (sizes ! j) (cache ! j)) [0..<E]))"
proof -
  define step where "step = (\<lambda>i (s, out).
      bindR (py_get sizes (int i)) (\<lambda>n.
      if n = 0 then Inr (s, out)
      else bindR (py_get cache (int i)) (\<lambda>rows.
           bindR (copy_rows_at s n (take n rows) out) (\<lambda>out. Inr (s + n, out)))))"
  define finished where "finished k = concat (map (\<lambda>j. take (sizes ! j) (cache ! j)) [0..<k])" for k
  have len: "k \<le> E \<Longrightarrow> length (finished k) = sum_list (take k sizes)" for k
  proof (induction k)
    case (Suc k)
    then show ?case using cache E by (simp add: finished_def take_Suc_nth_sum)
  qed (simp add: finished_def)
  have "k \<le> E \<Longrightarrow> foldR step [0..<k] (0, out) =
      Inr (sum_list (take k sizes), finished k @ drop (sum_list (take k sizes)) out)" for k
  proof (induction k)
    case 0
    then show ?case by (simp add: finished_def)
  next
    case (Suc k)
    have k: "k < length sizes" "k < E" using Suc.prems E by simp_all
    let ?s = "sum_list (take k sizes)"
    have fits: "?s + sizes ! k \<le> length out" using seg_fits(1) [OF k(1), of out] bs by simp
    have src: "length (take (sizes ! k) (cache ! k)) = sizes ! k" using cache k by simp
    have "copy_rows_at ?s (sizes ! k) (take (sizes ! k) (cache ! k)) (finished k @ drop ?s out) =
        Inr (finished (Suc k) @ drop (?s + sizes ! k) out)"
      using copy_rows_fits [OF src, of "drop ?s out"] fits len [of k] Suc.prems
      by (simp add: copy_rows_at_def finished_def add.commute)
    then have "step k (?s, finished k @ drop ?s out) =
        Inr (sum_list (take (Suc k) sizes), finished (Suc k) @ drop (sum_list (take (Suc k) sizes)) out)"
      using k cache by (simp add: step_def take_Suc_nth_sum) (simp add: finished_def)
    then show ?case using Suc by (simp add: foldR_append)
  qed
  from this [of E] show ?thesis
    using E bs by (simp add: masked_gather_def step_def finished_def)
qed


lemma map_lengths_nth:
  assumes "map length xs = map length ys"
  shows "length xs = length ys" and "e < length ys \<Longrightarrow> length (xs ! e) = length (ys ! e)"
proof -
  show len: "length xs = length ys" by (rule map_eq_imp_length_eq [OF assms])
  show "length (xs ! e) = length (ys ! e)" if "e < length ys"
    using arg_cong [OF assms, of "\<lambda>ls. ls ! e"] that len by simp
qed

lemma rect_iff: "rect B xs \<longleftrightarrow> (\<forall>e < length xs. length (xs ! e) = B)"
  by (simp add: rect_def all_set_conv_all_nth)

lemma masked_okD:
  "masked_ok gemm kr \<Longrightarrow> e < length out \<Longrightarrow> t < sizes ! e \<Longrightarrow> t < length (out ! e) \<Longrightarrow>
     gemm w inp sizes out ! e ! t = kr w e (inp ! e ! t)"
  by (simp add: masked_ok_def)

text \<open>The graph: whatever the buffers held, the masked rows of the last one are the outputs.\<close>

lemma masked_internal_rows:
  assumes kr: "masked_ok gemm kr" and wf: "masked_wf E B m"
    and B: "\<forall>e < E. mk_sizes m ! e \<le> B" and wide: "\<And>e x. length (kr w13 e x) = I * 2"
  shows "masked_wf E B (masked_internal cast gemm silu w13 w2 I m)"
    and "e < E \<Longrightarrow> t < mk_sizes m ! e \<Longrightarrow>
      mk_cache_down (masked_internal cast gemm silu w13 w2 I m) ! e ! t =
        expert_row (kr w13) (kr w2) cast silu I e (mk_up_in m ! e ! t)"
proof -
  let ?up = "gemm w13 (mk_up_in m) (mk_sizes m) (mk_cache_up m)"
  let ?up' = "map (map (\<lambda>u. map silu (take I u) @ drop I u)) ?up"
  let ?down = "map (map cast) (map (map (\<lambda>u. map2 (*) (take I u) (drop I u))) ?up')"
  let ?out = "gemm w2 ?down (mk_sizes m) (mk_cache_down m)"
  have res: "masked_internal cast gemm silu w13 w2 I m =
      m\<lparr>mk_cache_up := ?up', mk_down_in := ?down, mk_cache_down := ?out\<rparr>"
    by (simp only: masked_internal_def Let_def)
  have len: "map length (gemm w inp szs out) = map length out" for w inp szs out
    using kr by (simp add: masked_ok_def)
  note up = map_lengths_nth [OF len [of w13 "mk_up_in m" "mk_sizes m" "mk_cache_up m"]]
  note out = map_lengths_nth [OF len [of w2 ?down "mk_sizes m" "mk_cache_down m"]]
  show "masked_wf E B (masked_internal cast gemm silu w13 w2 I m)"
    using wf up out unfolding res masked_wf_def rect_iff by simp
  assume e: "e < E" and t: "t < mk_sizes m ! e"
  have t': "t < B" using B e t by fastforce
  have lens: "length (mk_cache_up m) = E" "length (mk_cache_down m) = E"
      "length (mk_cache_up m ! e) = B" "length (mk_cache_down m ! e) = B"
    using wf e by (simp_all add: masked_wf_def rect_iff)
  have u: "?up ! e ! t = kr w13 e (mk_up_in m ! e ! t)"
    using lens e t t' by (intro masked_okD [OF kr]) simp_all
  have "?down ! e ! t = cast (gated silu I (kr w13 e (mk_up_in m ! e ! t)))"
    using u wide up lens e t' by (simp add: gated_def)
  moreover have "?out ! e ! t = kr w2 e (?down ! e ! t)"
    using lens e t t' by (intro masked_okD [OF kr]) simp_all
  ultimately show "mk_cache_down (masked_internal cast gemm silu w13 w2 I m) ! e ! t =
      expert_row (kr w13) (kr w2) cast silu I e (mk_up_in m ! e ! t)"
    by (simp add: res expert_row_def)
qed

section \<open>Where the implementations fail\<close>

text \<open>
  The quantised serial class cannot be built, a serial batch with no row raises, and the FP8
  CUTLASS class gives activations that differ by a factor the same output, because the factor
  is in the scales it drops.
\<close>

lemma serial_quantised_never_built:
  "serial_init rand rand3 BF16 True H I E 1 max_bs = Inl AttributeError"
  by (simp add: serial_init_def serial_create_weights_def)

lemma serial_no_rows:
  "serial_forward lin silu ex X (replicate E 0) = Inl RuntimeError"
proof -
  have "foldR (serial_step lin silu ex X) (enumerate i (replicate E 0)) (0, []) = Inr (0, [])" for i
    by (induction E arbitrary: i) (simp_all add: serial_step_def)
  then show ?thesis by (simp add: serial_forward_def)
qed

lemma cutlass_fp8_scale_lost:
  assumes "\<forall>x \<in> set X. fst (qop (group_size_of (ex_hidden_size ex)) (map ((*) c) x)) =
      fst (qop (group_size_of (ex_hidden_size ex)) x)"
  shows "cutlass_fp8_forward qop mm silu junk r13 r2 ex bs (map (map ((*) c)) X) sizes =
     cutlass_fp8_forward qop mm silu junk r13 r2 ex bs X sizes"
proof -
  have "map fst (map (qop (group_size_of (ex_hidden_size ex))) (map (map ((*) c)) X)) =
      map fst (map (qop (group_size_of (ex_hidden_size ex))) X)"
    using assms by simp
  then show ?thesis
    by (simp add: cutlass_fp8_forward_def group_quant_fp8_def Let_def assertR_def bindR_assoc del: map_map)
qed

section \<open>Kernels for the examples\<close>

definition demo_gemm :: "row list list \<Rightarrow> nat \<Rightarrow> nat \<Rightarrow> row list \<Rightarrow> row list" where
  "demo_gemm w e n X = map (\<lambda>x. vecmat n x (w ! e)) X"

definition demo_contiguous :: "row list list \<Rightarrow> row list \<Rightarrow> int list \<Rightarrow> nat \<Rightarrow> nat \<Rightarrow> row list" where
  "demo_contiguous w X ms bs n = map2 (\<lambda>m x. map (dot x) (w ! nat m)) ms X"

definition demo_kernel_row :: "bool \<Rightarrow> nat \<Rightarrow> row \<times> row \<Rightarrow> row" where
  "demo_kernel_row up e q = (if up then [sum_list (fst q), real e + 1] else [sum_list (fst q)])"

definition demo_masked :: "bool \<Rightarrow> (row \<times> row) list list \<Rightarrow> nat list \<Rightarrow> row list list \<Rightarrow> row list list" where
  "demo_masked w inp sizes out =
     map (\<lambda>e. map (\<lambda>t. if t < sizes ! e then demo_kernel_row w e (inp ! e ! t) else out ! e ! t)
       [0..<length (out ! e)]) [0..<length out]"

definition demo_experts :: experts where
  "demo_experts = \<lparr>ex_hidden_size = 1, ex_intermediate_size = 1, ex_num_experts = 2,
     ex_max_batch_size = 2, ex_weights = Plain [[[1, 2]], [[3, 4]]] [[[1]], [[2]]]\<rparr>"

definition demo_masked_state :: masked where
  "demo_masked_state =
     \<lparr>mk_up_in = [[([7], []), ([7], [])], [([7], []), ([7], [])]],
      mk_down_in = [[([7], []), ([7], [])], [([7], []), ([7], [])]],
      mk_cache_up = [[[7], [7]], [[7], [7]]], mk_cache_down = [[[7], [7]], [[7], [7]]], mk_sizes = [2, 2]\<rparr>"

lemma demo_gemm_ok: "gemm_ok demo_gemm (\<lambda>w n e x. vecmat n x (w ! e))"
  by (simp add: gemm_ok_def demo_gemm_def)

lemma demo_contiguous_ok: "contiguous_ok A demo_contiguous (\<lambda>w n e x. map (dot x) (w ! e)) E"
  by (simp add: contiguous_ok_def demo_contiguous_def)

lemma demo_masked_ok: "masked_ok demo_masked demo_kernel_row"
  unfolding masked_ok_def
proof (intro allI conjI impI)
  fix w inp sizes out
  show "map length (demo_masked w inp sizes out) = map length out"
    by (rule nth_equalityI) (simp_all add: demo_masked_def)
  fix e t assume "e < length out" "t < min (sizes ! e) (length (out ! e))"
  then show "demo_masked w inp sizes out ! e ! t = demo_kernel_row w e (inp ! e ! t)"
    by (simp add: demo_masked_def)
qed

section \<open>Properties\<close>

text \<open>
  C26: on a batch that is sorted by expert the serial loop and the grouped pass, with the runners
  built on the same weights and whatever the fresh buffers hold, give the same rows: each row goes
  through the two matrices of its own expert and nothing else. So does the contiguous pass (on
  transposed weights, with the expert of each row in \<open>m_indices\<close>) if the number of rows of every
  expert is a multiple of the block \<open>A\<close> that DeepGEMM asks the segments to be aligned to.
\<close>

theorem experts_match_reference:
  assumes w: "ex_weights ex = Plain w13 w2" "length w13 = E" "length w2 = E" "ex_num_experts ex = E"
    and H: "\<forall>e < E. length (w13 ! e) = ex_hidden_size ex" and I: "\<forall>e < E. length (w2 ! e) = ex_intermediate_size ex"
    and r: "cutlass_runners id False ex w13 w2 = Inr (r13, r2)"
    and mm: "gemm_ok mm (\<lambda>w n e x. vecmat n x (w ! e))"
    and dg: "contiguous_ok A dg (\<lambda>w n e x. map (dot x) (w ! e)) E"
    and b: "length sizes = E" "sum_list sizes = length X" "X \<noteq> []" "rect (ex_hidden_size ex) X"
  shows "serial_forward lin silu ex X sizes =
       Inr (map2 (plain_row silu (ex_hidden_size ex) (ex_intermediate_size ex) w13 w2) (expert_from 0 sizes) X) \<and>
     cutlass_forward mm silu junk r13 r2 ex (length X) X sizes =
       Inr (map2 (plain_row silu (ex_hidden_size ex) (ex_intermediate_size ex) w13 w2) (expert_from 0 sizes) X) \<and>
     ((\<forall>n \<in> set sizes. A dvd n) \<longrightarrow>
      deepgemm_forward dg silu (map (cols (ex_intermediate_size ex * 2)) w13) (map (cols (ex_hidden_size ex)) w2)
         ex (length X) X (map int (expert_from 0 sizes)) =
       map2 (plain_row silu (ex_hidden_size ex) (ex_intermediate_size ex) w13 w2) (expert_from 0 sizes) X)"
    (is "?serial \<and> ?grouped \<and> (?fits \<longrightarrow> ?contiguous)")
proof (intro conjI impI)
  show ?serial
  proof -
    have "serial_calc lin silu ex e Y = Inr (map (plain_row silu (ex_hidden_size ex) (ex_intermediate_size ex) w13 w2 e) Y)"
      if "e < length sizes" "set Y \<subseteq> set X" for e Y
      using that w H I b by (intro serial_calc_plain) (auto simp: rect_def)
    then show ?thesis using b by (subst serial_forward_rows) auto
  qed
  show ?grouped
  proof -
    have ro: "runner_ok (\<lambda>w n e x. vecmat n x (w ! e)) E (length X) r13"
      "runner_ok (\<lambda>w n e x. vecmat n x (w ! e)) E (length X) r2"
      using cutlass_runners_ok [OF r] w(4) by (simp_all add: runner_ok_def)
    show ?thesis
      using cutlass_forward_rows [OF mm ro b(1), of X silu junk ex] b(2) cutlass_runners_ok [OF r]
      by (auto simp: expert_row_def [abs_def] plain_row_def [abs_def] runner_row_def [abs_def])
  qed
  have bound: "e < E" if "e \<in> set (expert_from 0 sizes)" for e
    using expert_from_bound [OF that] b(1) by simp
  have "map2 (\<lambda>m. expert_row (\<lambda>e x. map (dot x) (map (cols (ex_intermediate_size ex * 2)) w13 ! e))
      (\<lambda>e x. map (dot x) (map (cols (ex_hidden_size ex)) w2 ! e)) id silu (ex_intermediate_size ex) (nat m))
      (map int (expert_from 0 sizes)) X =
    map2 (plain_row silu (ex_hidden_size ex) (ex_intermediate_size ex) w13 w2) (expert_from 0 sizes) X"
  proof (rule nth_equalityI)
    fix i assume "i < length (map2 (\<lambda>m. expert_row (\<lambda>e x. map (dot x) (map (cols (ex_intermediate_size ex * 2)) w13 ! e))
      (\<lambda>e x. map (dot x) (map (cols (ex_hidden_size ex)) w2 ! e)) id silu (ex_intermediate_size ex) (nat m))
      (map int (expert_from 0 sizes)) X)"
    then have i: "i < length X" "i < length (expert_from 0 sizes)" by simp_all
    then show "map2 (\<lambda>m. expert_row (\<lambda>e x. map (dot x) (map (cols (ex_intermediate_size ex * 2)) w13 ! e))
      (\<lambda>e x. map (dot x) (map (cols (ex_hidden_size ex)) w2 ! e)) id silu (ex_intermediate_size ex) (nat m))
      (map int (expert_from 0 sizes)) X ! i =
      map2 (plain_row silu (ex_hidden_size ex) (ex_intermediate_size ex) w13 w2) (expert_from 0 sizes) X ! i"
      using bound [of "expert_from 0 sizes ! i"] w
      by (simp add: expert_row_def plain_row_def vecmat_cols)
  qed simp
  moreover assume "\<forall>n \<in> set sizes. A dvd n"
  then have "aligned A (map int (expert_from 0 sizes))" by (rule aligned_expert_from)
  ultimately show ?contiguous
    using deepgemm_forward_rows [OF dg, of "map int (expert_from 0 sizes)" X silu
        "map (cols (ex_intermediate_size ex * 2)) w13" "map (cols (ex_hidden_size ex)) w2" ex] b(2) bound
    by simp
qed

text \<open>
  C35: the variant with fixed buffers does not let a row of an earlier batch through: from any
  contents of its buffers a batch that fits gives each row what its own expert makes of it,
  and the buffers keep their shape for the next batch.
\<close>

theorem masked_ignores_stale_rows:
  assumes kr: "masked_ok gemm kr" and wf: "masked_wf E B m" and E: "ex_num_experts ex = E"
    and b: "length sizes = E" "sum_list sizes = length X" "\<forall>e < E. sizes ! e \<le> B"
    and fresh: "length (fresh (length X)) = length X"
    and wide: "\<And>e x. length (kr w13 e x) = ex_intermediate_size ex * 2"
  shows "\<exists>m'. masked_forward cast gemm silu w13 w2 ex fresh (length X) X sizes m =
       Inr (map2 (expert_row (\<lambda>e x. kr w13 e (cast x)) (kr w2) cast silu (ex_intermediate_size ex))
              (expert_from 0 sizes) X, m') \<and> masked_wf E B m'"
proof -
  let ?f = "expert_row (kr w13) (kr w2) cast silu (ex_intermediate_size ex)"
  obtain up where up: "masked_scatter E sizes (map cast X) (mk_up_in m) = Inr (sum_list sizes, up)"
      "length up = E" "rect B up" "\<forall>j < E. take (sizes ! j) (up ! j) = seg sizes (map cast X) j"
    using masked_scatter_blocks [OF b(1) _ b(3), of "map cast X" "mk_up_in m"] wf b(2)
    by (auto simp: masked_wf_def)
  define m1 where "m1 = m\<lparr>mk_up_in := up, mk_sizes := sizes\<rparr>"
  have wf1: "masked_wf E B m1" using wf up b by (simp add: masked_wf_def m1_def)
  define m' where "m' = masked_internal cast gemm silu w13 w2 (ex_intermediate_size ex) m1"
  have B1: "\<forall>e < E. mk_sizes m1 ! e \<le> B" using b(3) by (simp add: m1_def)
  have wf': "masked_wf E B m'"
    unfolding m'_def by (rule masked_internal_rows(1) [OF kr wf1 B1 wide])
  have cache: "length (mk_cache_down m') = E" "\<forall>j < E. sizes ! j \<le> length (mk_cache_down m' ! j)"
    using wf' b(3) by (auto simp: masked_wf_def rect_nth)
  have rows: "take (sizes ! j) (mk_cache_down m' ! j) = map (?f j) (seg sizes (map cast X) j)" if j: "j < E" for j
  proof (rule nth_equalityI)
    have sg: "length (seg sizes (map cast X) j) = sizes ! j"
      using seg_fits(2) [of j sizes "map cast X"] j b by simp
    show "length (take (sizes ! j) (mk_cache_down m' ! j)) = length (map (?f j) (seg sizes (map cast X) j))"
      using cache(2) j sg by simp
    fix t assume "t < length (take (sizes ! j) (mk_cache_down m' ! j))"
    then have t: "t < sizes ! j" by simp
    then have "mk_cache_down m' ! j ! t = ?f j (up ! j ! t)"
      using masked_internal_rows(2) [OF kr wf1 B1 wide j, of t] by (simp add: m'_def m1_def)
    moreover have "up ! j ! t = seg sizes (map cast X) j ! t"
      using up(4) j t by (metis nth_take)
    ultimately show "take (sizes ! j) (mk_cache_down m' ! j) ! t = map (?f j) (seg sizes (map cast X) j) ! t"
      using t sg by simp
  qed
  have "concat (map (\<lambda>j. take (sizes ! j) (mk_cache_down m' ! j)) [0..<E]) =
      concat (map (\<lambda>j. map (?f (0 + j)) (seg sizes (map cast X) j)) [0..<length sizes])"
    using rows b(1) by (intro arg_cong [where f = concat] map_cong) simp_all
  also have "\<dots> = map2 ?f (expert_from 0 sizes) (map cast X)" by (rule concat_segs)
  also have "\<dots> = map2 (expert_row (\<lambda>e x. kr w13 e (cast x)) (kr w2) cast silu (ex_intermediate_size ex))
      (expert_from 0 sizes) X"
    by (simp add: zip_map2 comp_def case_prod_unfold expert_row_def)
  finally have out: "concat (map (\<lambda>j. take (sizes ! j) (mk_cache_down m' ! j)) [0..<E]) =
    map2 (expert_row (\<lambda>e x. kr w13 e (cast x)) (kr w2) cast silu (ex_intermediate_size ex)) (expert_from 0 sizes) X" .
  have "copy_rows E sizes (mk_sizes m) = Inr sizes"
    using copy_rows_fits [of sizes E "mk_sizes m"] b(1) wf by (simp add: masked_wf_def)
  moreover have "masked_gather E sizes (mk_cache_down m') (fresh (length X)) =
      Inr (sum_list sizes, concat (map (\<lambda>j. take (sizes ! j) (mk_cache_down m' ! j)) [0..<E]))"
    using b fresh cache by (intro masked_gather_rows) simp_all
  ultimately have "masked_forward cast gemm silu w13 w2 ex fresh (length X) X sizes m =
      Inr (concat (map (\<lambda>j. take (sizes ! j) (mk_cache_down m' ! j)) [0..<E]), m')"
    using up(1) E by (simp add: masked_forward_def Let_def flip: m1_def m'_def)
  then show ?thesis using out wf' by simp
qed


lemma experts_match_reference_witness:
  "\<exists>r13 r2. cutlass_runners id False demo_experts [[[1, 2]], [[3, 4]]] [[[1]], [[2]]] = Inr (r13, r2) \<and>
   serial_forward (\<lambda>_ _ _. Inr []) id demo_experts [[1], [1], [2], [2]] [2, 2] = Inr [[2], [2], [96], [96]] \<and>
   cutlass_forward demo_gemm id (\<lambda>_ _ _. 7) r13 r2 demo_experts 4 [[1], [1], [2], [2]] [2, 2] =
     Inr [[2], [2], [96], [96]] \<and>
   deepgemm_forward demo_contiguous id [[[1], [2]], [[3], [4]]] [[[1]], [[2]]] demo_experts 4
     [[1], [1], [2], [2]] [0, 0, 1, 1] = [[2], [2], [96], [96]]"
proof -
  have E: "\<forall>e < 2. e = 0 \<or> e = Suc 0" by auto
  have v: "map2 (plain_row id 1 1 [[[1, 2]], [[3, 4]]] [[[1]], [[2]]]) (expert_from 0 [2, 2]) [[1], [1], [2], [2]] =
      [[2], [2], [96], [96]]"
    by (simp add: plain_row_def vecmat_def dot_def gated_def upt_rec numeral_2_eq_2)
  obtain r13 r2 where r: "cutlass_runners id False demo_experts [[[1, 2]], [[3, 4]]] [[[1]], [[2]]] = Inr (r13, r2)"
    by (simp add: cutlass_runners_def gemm_runner_init_def demo_experts_def)
  have c: "map int (expert_from 0 [2, 2]) = [0, 0, 1, 1]"
    "map (cols 2) [[[1, 2]], [[3, 4]]] = [[[1], [2]], [[3], [4 :: real]]]"
    "map (cols 1) [[[1]], [[2]]] = [[[1]], [[2 :: real]]]"
    by (simp_all add: cols_def upt_rec numeral_2_eq_2)
  define X :: "row list" where "X = [[1], [1], [2], [2]]"
  have X: "length X = 4" "sum_list [2, 2] = length X" "X \<noteq> []" "rect (ex_hidden_size demo_experts) X"
    by (simp_all add: X_def rect_def demo_experts_def)
  have w: "ex_weights demo_experts = Plain [[[1, 2]], [[3, 4]]] [[[1]], [[2]]]"
    "ex_num_experts demo_experts = 2" "ex_intermediate_size demo_experts = 1" "ex_hidden_size demo_experts = 1"
    by (simp_all add: demo_experts_def)
  have h: "\<forall>e < 2. length ([[[1, 2]], [[3, 4 :: real]]] ! e) = ex_hidden_size demo_experts"
    "\<forall>e < 2. length ([[[1]], [[2 :: real]]] ! e) = ex_intermediate_size demo_experts"
    using E by (auto simp: w)
  have "\<forall>n \<in> set [2, 2]. 2 dvd (n :: nat)" by simp
  then show ?thesis
    using experts_match_reference [OF w(1) _ _ w(2) h r demo_gemm_ok demo_contiguous_ok [of 2] _ X(2-4),
        of "\<lambda>_ _ _. Inr []" id "\<lambda>_ _ _. 7"] r v c
    by (auto simp: w X(1) simp flip: X_def)
qed

lemma masked_ignores_stale_rows_witness:
  "\<exists>m'. masked_forward (\<lambda>x. (x, [1])) demo_masked id True False demo_experts (\<lambda>n. replicate n [0]) 2
      [[3], [5]] [0, 2] demo_masked_state = Inr ([[6], [10]], m') \<and> masked_wf 2 2 m'"
proof -
  have v: "map2 (expert_row (\<lambda>e x. demo_kernel_row True e (x, [1])) (demo_kernel_row False) (\<lambda>x. (x, [1])) id 1)
      (expert_from 0 [0, 2]) [[3], [5]] = [[6], [10]]"
    by (simp add: expert_row_def demo_kernel_row_def gated_def numeral_2_eq_2)
  have "masked_wf 2 2 demo_masked_state"
    by (simp add: masked_wf_def demo_masked_state_def rect_def)
  then show ?thesis
    using masked_ignores_stale_rows [where ex = demo_experts and E = 2 and B = 2 and sizes = "[0, 2]"
        and m = demo_masked_state and X = "[[3], [5]]" and cast = "\<lambda>x. (x, [1])" and silu = id
        and fresh = "\<lambda>n. replicate n [0]" and ?w13.0 = True and ?w2.0 = False, OF demo_masked_ok] v
    by (simp add: demo_experts_def demo_kernel_row_def numeral_2_eq_2 less_Suc_eq)
qed

end
