(* ===== verification/Attention.thy ===== *)
theory Attention
  imports Experts Router
begin

text \<open>
  The model of \<open>disagmoe/models/attention.py\<close>: the attention block of a rank, from the head
  counts its constructor derives to the experts it selects. Normalisation, rotary embedding,
  the attention kernel and the top-k kernels are parameters, collected in a record, that can
  raise: they check the shapes of what they are given. The category weights that the constructor
  can read from a CSV file are an argument.
\<close>

section \<open>The block\<close>

record attention =
  at_layer_id :: int
  at_head_dim :: nat
  at_total_num_heads :: nat
  at_num_heads :: nat
  at_total_num_kv_heads :: nat
  at_num_kv_heads :: nat
  at_num_experts :: nat
  at_top_k :: nat
  at_q_size :: nat
  at_kv_size :: nat
  at_qkv_proj :: "real qkv_linear"
  at_o_proj :: "real row_linear"
  at_gate :: "real linear"
  at_profile_driven_router :: "router option"
  at_weighted_router :: "row option"
  at_shared_experts :: "shared_expert list option"

text \<open>\<open>x % 0\<close> and \<open>0 ** -0.5\<close> raise.\<close>

definition check_heads :: "nat \<Rightarrow> nat \<Rightarrow> nat \<Rightarrow> nat \<Rightarrow> unit result" where
  "check_heads H KV tp_size head_dim =
     (if tp_size = 0 then Inl ZeroDivisionError else
      bindR (assertR (H mod tp_size = 0)) (\<lambda>_.
      bindR (if tp_size \<le> KV then assertR (KV mod tp_size = 0)
             else if KV = 0 then Inl ZeroDivisionError
             else assertR (tp_size mod KV = 0)) (\<lambda>_.
      if head_dim = 0 then Inl ZeroDivisionError else Inr ())))"

definition attention_init ::
  "(nat \<Rightarrow> nat \<Rightarrow> nat result) \<Rightarrow> (nat list \<Rightarrow> real tensor) \<Rightarrow> ('b list \<Rightarrow> profile option) \<Rightarrow> tp_config option \<Rightarrow>
   int \<Rightarrow> nat \<Rightarrow> nat \<Rightarrow> nat \<Rightarrow> nat \<Rightarrow> nat \<Rightarrow> nat \<Rightarrow> nat \<Rightarrow> nat \<Rightarrow> 'b list option \<Rightarrow> row option \<Rightarrow>
   nat \<Rightarrow> nat option \<Rightarrow> nat option \<Rightarrow> attention result" where
  "attention_init dv rand parse env layer_id hidden head_dim H KV E top_k tp_size tp_rank
     profile_bytes weighted num_shared shared_inter inter_size =
     bindR (check_heads H KV tp_size head_dim) (\<lambda>_.
     let num_heads = H div tp_size; num_kv_heads = max 1 (KV div tp_size) in
     bindR (qkv_init dv rand env hidden head_dim H (Some KV) tp_size False False) (\<lambda>qkv.
     bindR (row_init dv rand (H * head_dim) hidden tp_size tp_rank False True False True) (\<lambda>o_proj.
     bindR (case profile_bytes of
         None \<Rightarrow> Inr None
       | Some bs \<Rightarrow>
           if bs = [] then Inr None
           else bindR (router_init parse bs (int E) (int top_k) (Some layer_id)) (\<lambda>rt. Inr (Some rt)))
       (\<lambda>rt.
     let se_inter = (case shared_inter of Some n \<Rightarrow> n
                     | None \<Rightarrow> case inter_size of Some n \<Rightarrow> n | None \<Rightarrow> hidden)
     in Inr \<lparr>at_layer_id = layer_id, at_head_dim = head_dim, at_total_num_heads = H,
             at_num_heads = num_heads, at_total_num_kv_heads = KV, at_num_kv_heads = num_kv_heads,
             at_num_experts = E, at_top_k = top_k, at_q_size = num_heads * head_dim,
             at_kv_size = num_kv_heads * head_dim, at_qkv_proj = qkv, at_o_proj = o_proj,
             at_gate = replicated_init rand hidden E False False,
             at_profile_driven_router = rt, at_weighted_router = weighted,
             at_shared_experts =
               (if num_shared = 0 then None
                else Some (replicate num_shared (shared_expert_init rand hidden se_inter)))\<rparr>))))"

section \<open>The forward pass\<close>

record 'c attn_kernels =
  ak_pre_norm :: "row list \<Rightarrow> row list result"
  ak_pre_norm_add :: "row list \<Rightarrow> row list \<Rightarrow> (row list \<times> row list) result"
  ak_post_norm_add :: "row list \<Rightarrow> row list \<Rightarrow> (row list \<times> row list) result"
  ak_rope :: "int list \<Rightarrow> row list \<Rightarrow> row list \<Rightarrow> (row list \<times> row list) result"
  ak_attn :: "row list \<Rightarrow> row list \<Rightarrow> row list \<Rightarrow> 'c \<Rightarrow> (row list \<times> 'c) result"
  ak_silu :: "real \<Rightarrow> real"
  ak_rand_like :: "row list \<Rightarrow> row list"
  ak_fused_topk :: "row list \<Rightarrow> row list \<Rightarrow> nat \<Rightarrow> (row list \<times> int list list) result"
  ak_gumbel :: "nat \<Rightarrow> nat \<Rightarrow> row list"
  ak_log :: "real \<Rightarrow> real"
  ak_topk :: "row \<Rightarrow> nat \<Rightarrow> int list"
  ak_div :: "real \<Rightarrow> real \<Rightarrow> real"

text \<open>\<open>qkv.split([a, b, c], dim=-1)\<close>: the sizes must add up to the width.\<close>

definition split3 :: "nat \<Rightarrow> nat \<Rightarrow> nat \<Rightarrow> row list \<Rightarrow> (row list \<times> row list \<times> row list) result" where
  "split3 a b c X =
     (if rect (a + b + c) X
      then Inr (map (take a) X, map (\<lambda>x. take b (drop a x)) X, map (drop (a + b)) X)
      else Inl RuntimeError)"

definition torch_gather :: "row \<Rightarrow> int list \<Rightarrow> row result" where
  "torch_gather w es =
     mapR (\<lambda>e. if 0 \<le> e \<and> e < int (length w) then Inr (w ! nat e) else Inl RuntimeError) es"

text \<open>
  Sampling without replacement: the logarithms of the normalised weights, plus noise of the shape
  of the batch, and the indices of the largest values of each row.
\<close>

definition multinomial_no_replacement :: "'c attn_kernels \<Rightarrow> nat \<Rightarrow> row list \<Rightarrow> nat \<Rightarrow> int list list result" where
  "multinomial_no_replacement K num_classes probs num_samples =
     (let probs = map (\<lambda>p. map (\<lambda>x. ak_div K x (sum_list p)) p) probs in
      bindR (assertR (num_samples \<le> num_classes)) (\<lambda>_.
      let noisy = map2 (map2 (\<lambda>x g. ak_log K x + g)) probs (ak_gumbel K (length probs) num_classes)
      in Inr (map (\<lambda>r. ak_topk K r num_samples) noisy)))"

text \<open>The weights of the sample, renormalised over it.\<close>

definition random_routing_with_weights ::
  "'c attn_kernels \<Rightarrow> row \<Rightarrow> nat \<Rightarrow> nat \<Rightarrow> (row list \<times> int list list) result" where
  "random_routing_with_weights K weighted num_tokens top_k =
     (let weights = replicate num_tokens weighted in
      bindR (multinomial_no_replacement K (length weighted) weights top_k) (\<lambda>topk_ids.
      bindR (mapR (\<lambda>(w, es). torch_gather w es) (zip weights topk_ids)) (\<lambda>sampled.
        Inr (map (\<lambda>s. map (\<lambda>x. ak_div K x (sum_list s)) s) sampled, topk_ids))))"

definition add_shared ::
  "(row list \<Rightarrow> real tensor \<Rightarrow> real tensor option \<Rightarrow> row list result) \<Rightarrow> (real \<Rightarrow> real) \<Rightarrow>
   shared_expert list option \<Rightarrow> row list \<Rightarrow> row list result" where
  "add_shared lin silu shared out =
     (case shared of
        None \<Rightarrow> Inr out
      | Some es \<Rightarrow>
          bindR (foldR (\<lambda>se acc. bindR (shared_expert_forward lin silu se out) (\<lambda>y. Inr (add_mat acc y)))
                   es (map (map (\<lambda>_. 0)) out)) (\<lambda>s. Inr (add_mat out s)))"

definition select_experts ::
  "'c attn_kernels \<Rightarrow> attention \<Rightarrow> id_arg option \<Rightarrow> int list \<Rightarrow> row list \<Rightarrow> row list \<Rightarrow>
   (row list \<times> int list list) result" where
  "select_experts K a request_ids positions X logits =
     (case at_profile_driven_router a of
        Some rt \<Rightarrow>
          (case request_ids of
             None \<Rightarrow> Inl AssertionError
           | Some rids \<Rightarrow> route rt rids positions (at_layer_id a) (int (at_top_k a)))
      | None \<Rightarrow>
          (case at_weighted_router a of
             Some w \<Rightarrow> random_routing_with_weights K w (length logits) (at_top_k a)
           | None \<Rightarrow> ak_fused_topk K X (ak_rand_like K logits) (at_top_k a)))"

definition attention_forward ::
  "(row list \<Rightarrow> real tensor \<Rightarrow> real tensor option \<Rightarrow> row list result) \<Rightarrow> (nat \<Rightarrow> row list \<Rightarrow> row list list) \<Rightarrow>
   (row list \<Rightarrow> row list) \<Rightarrow> tp_config option \<Rightarrow> 'c attn_kernels \<Rightarrow> attention \<Rightarrow> int list \<Rightarrow> row list \<Rightarrow> 'c \<Rightarrow>
   row list option \<Rightarrow> id_arg option \<Rightarrow> ((row list \<times> row list \<times> int list list) \<times> 'c) result" where
  "attention_forward lin sp all_reduce env K a positions X kv_cache residual request_ids =
     bindR (case residual of
              None \<Rightarrow> bindR (ak_pre_norm K X) (\<lambda>Y. Inr (Y, X))
            | Some r \<Rightarrow> ak_pre_norm_add K X r) (\<lambda>(X, residual).
     bindR (column_forward lin (at_qkv_proj a) X) (\<lambda>(qkv, _).
     bindR (split3 (at_q_size a) (at_kv_size a) (at_kv_size a) qkv) (\<lambda>(q, k, v).
     bindR (ak_rope K positions q k) (\<lambda>(q, k).
     bindR (ak_attn K q k v kv_cache) (\<lambda>(attn_output, kv_cache).
     bindR (row_forward lin sp all_reduce env (at_o_proj a) attn_output) (\<lambda>(out, _).
     bindR (ak_post_norm_add K out residual) (\<lambda>(out, residual).
     bindR (add_shared lin (ak_silu K) (at_shared_experts a) out) (\<lambda>out.
     bindR (replicated_forward lin (at_gate a) out) (\<lambda>(logits, _).
     bindR (select_experts K a request_ids positions X logits) (\<lambda>(ws, es).
       Inr ((out, ws, es), kv_cache)))))))))))"

section \<open>Shapes\<close>

definition shaped :: "nat \<Rightarrow> nat \<Rightarrow> row list \<Rightarrow> bool" where
  "shaped n k X \<longleftrightarrow> length X = n \<and> rect k X"

text \<open>
  What is relied on of the kernels of a block for hidden states of width \<open>hidden\<close> and heads of
  width \<open>d\<close>, with the metadata of a batch of \<open>n\<close> tokens: on operands of the documented shapes
  they return, with the documented shapes. Of other operands nothing is said.
\<close>

definition norms_ok :: "nat \<Rightarrow> nat \<Rightarrow> 'c attn_kernels \<Rightarrow> bool" where
  "norms_ok hidden n K \<longleftrightarrow>
     (\<forall>X. shaped n hidden X \<longrightarrow> (\<exists>Y. ak_pre_norm K X = Inr Y \<and> shaped n hidden Y)) \<and>
     (\<forall>X R. shaped n hidden X \<longrightarrow> shaped n hidden R \<longrightarrow>
        (\<exists>Y R'. ak_pre_norm_add K X R = Inr (Y, R') \<and> shaped n hidden Y \<and> shaped n hidden R')) \<and>
     (\<forall>X R. shaped n hidden X \<longrightarrow> shaped n hidden R \<longrightarrow>
        (\<exists>Y R'. ak_post_norm_add K X R = Inr (Y, R') \<and> shaped n hidden Y \<and> shaped n hidden R'))"

definition heads_ok :: "nat \<Rightarrow> nat \<Rightarrow> 'c attn_kernels \<Rightarrow> bool" where
  "heads_ok d n K \<longleftrightarrow>
     (\<forall>ps h g Q R. length ps = n \<longrightarrow> shaped n (h * d) Q \<longrightarrow> shaped n (g * d) R \<longrightarrow>
        (\<exists>Q' R'. ak_rope K ps Q R = Inr (Q', R') \<and> shaped n (h * d) Q' \<and> shaped n (g * d) R')) \<and>
     (\<forall>h g Q R V c. shaped n (h * d) Q \<longrightarrow> shaped n (g * d) R \<longrightarrow> shaped n (g * d) V \<longrightarrow>
        (\<exists>Y c'. ak_attn K Q R V c = Inr (Y, c') \<and> shaped n (h * d) Y))"

definition topk_ok :: "nat \<Rightarrow> 'c attn_kernels \<Rightarrow> bool" where
  "topk_ok n K \<longleftrightarrow>
     (\<forall>k X. shaped n k X \<longrightarrow> shaped n k (ak_rand_like K X)) \<and>
     (\<forall>E m X L k. shaped n m X \<longrightarrow> shaped n E L \<longrightarrow> k \<le> E \<longrightarrow>
        (\<exists>ws es. ak_fused_topk K X L k = Inr (ws, es) \<and> shaped n k ws \<and> length es = n \<and>
           (\<forall>e \<in> set es. length e = k))) \<and>
     (\<forall>m c. shaped m c (ak_gumbel K m c)) \<and>
     (\<forall>r k. k \<le> length r \<longrightarrow> length (ak_topk K r k) = k \<and> distinct (ak_topk K r k) \<and>
        (\<forall>i \<in> set (ak_topk K r k). 0 \<le> i \<and> i < int (length r)))"

definition attn_kernels_ok :: "nat \<Rightarrow> nat \<Rightarrow> nat \<Rightarrow> 'c attn_kernels \<Rightarrow> bool" where
  "attn_kernels_ok hidden d n K \<longleftrightarrow> norms_ok hidden n K \<and> heads_ok d n K \<and> topk_ok n K"

text \<open>A parsed profile is a table: every row has a value in every expert column.\<close>

definition table_ok :: "profile \<Rightarrow> bool" where
  "table_ok pf \<longleftrightarrow> (\<forall>r \<in> set (pf_rows pf). length (pr_experts r) = length (expert_columns pf))"

lemma routing_data_width:
  assumes "load_profile E k layer_id pf = Inr rt" and "table_ok pf" and "es \<in> set (rt_routing_data rt)"
  shows "int (length es) = k"
proof -
  have "length (project_experts grp (experts_i32 r)) = length (pr_experts r)" for grp r
    by (simp add: project_experts_def experts_i32_def split: option.split)
  moreover have "set (layer_rows layer_id rows) \<subseteq> set rows" for rows
    by (auto simp: layer_rows_def split: option.splits)
  ultimately show ?thesis using assms
    by (fastforce simp: load_profile_def table_ok_def res Let_def split: if_splits)
qed

definition id_values :: "id_arg \<Rightarrow> int list" where
  "id_values ids = (case ids of PyList xs \<Rightarrow> xs | Tensor xs \<Rightarrow> xs)"

lemma route_shape:
  assumes "load_profile E (int k) layer_id pf = Inr rt" and "table_ok pf"
    and r: "route rt ids toks l (int k) = Inr (ws, es)" and "length (id_values ids) = length toks"
  shows "length ws = length toks \<and> rect k ws \<and> length es = length toks \<and> (\<forall>e \<in> set es. length e = k)"
proof -
  obtain rids idx where i: "ids_mod ids (rt_num_profiled_requests rt) = Inr rids"
      "mapR (\<lambda>(r, t). flat_index rt l r t) (zip rids toks) = Inr idx"
      "mapR (py_get (rt_routing_data rt)) idx = Inr es"
      "ws = map (\<lambda>_. replicate (nat (int k)) (rt_uniform_weight rt)) es"
    using r unfolding route_def by (auto simp: res simp del: nat_int split: if_splits)
  have "length rids = length toks"
    using i(1) assms(4) by (auto simp: ids_mod_def id_values_def split: id_arg.splits if_splits)
  then have n: "length es = length toks"
    using mapR_Inr_length [OF i(2)] mapR_Inr_length [OF i(3)] by simp
  have "length e = k" if "e \<in> set es" for e
  proof -
    obtain j where j: "j < length es" "es ! j = e" using \<open>e \<in> set es\<close> by (auto simp: in_set_conv_nth)
    then have "py_get (rt_routing_data rt) (idx ! j) = Inr e"
      using mapR_Inr_nth [OF i(3), of j] mapR_Inr_length [OF i(3)] by simp
    then have "e \<in> set (rt_routing_data rt)"
      by (auto simp: py_get_def py_pos_def Let_def split: option.splits if_splits)
    then show ?thesis using routing_data_width [OF assms(1,2)] by simp
  qed
  then show ?thesis using n by (auto simp: i(4) rect_def)
qed

lemma random_routing_shape:
  assumes K: "topk_ok n K" and k: "k \<le> length w"
  shows "\<exists>ws es. random_routing_with_weights K w m k = Inr (ws, es) \<and> shaped m k ws \<and> length es = m \<and>
    (\<forall>e \<in> set es. length e = k)"
proof -
  let ?p = "replicate m (map (\<lambda>x. ak_div K x (sum_list w)) w)"
  define noisy where "noisy = map2 (map2 (\<lambda>x g. ak_log K x + g)) ?p (ak_gumbel K m (length w))"
  have g: "shaped m (length w) (ak_gumbel K m (length w))" using K by (simp add: topk_ok_def)
  then have noisy: "shaped m (length w) noisy"
    by (auto simp: noisy_def shaped_def rect_def set_zip)
  define es where "es = map (\<lambda>r. ak_topk K r k) noisy"
  have es: "multinomial_no_replacement K (length w) (replicate m w) k = Inr es"
    using k by (simp add: multinomial_no_replacement_def assertR_def Let_def es_def noisy_def)
  have row: "length e = k \<and> (\<forall>i \<in> set e. 0 \<le> i \<and> i < int (length w))" if "e \<in> set es" for e
  proof -
    obtain r where r: "r \<in> set noisy" "e = ak_topk K r k" using \<open>e \<in> set es\<close> by (auto simp: es_def)
    then have "length r = length w" using noisy by (simp add: shaped_def rect_def)
    then show ?thesis using K k r(2) unfolding topk_ok_def by metis
  qed
  have "torch_gather w e = Inr (map (\<lambda>i. w ! nat i) e)" if "e \<in> set es" for e
    unfolding torch_gather_def by (rule mapR_all_Inr) (use row [OF that] in auto)
  moreover have "snd q \<in> set es \<and> fst q = w" if "q \<in> set (zip (replicate m w) es)" for q
    using that by (auto simp: set_zip)
  ultimately have "mapR (\<lambda>(w, es). torch_gather w es) (zip (replicate m w) es) =
      Inr (map (\<lambda>(w, e). map (\<lambda>i. w ! nat i) e) (zip (replicate m w) es))"
    by (intro mapR_all_Inr) fastforce
  moreover have "length es = m" using noisy by (simp add: es_def shaped_def)
  ultimately show ?thesis
    using es row by (auto simp: random_routing_with_weights_def Let_def shaped_def rect_def set_zip)
qed

lemma fresh_linear:
  assumes rand: "rand_ok rand" and lin: "linear_ok lin" and X: "rect k X"
  shows "\<exists>Y. lin X (p_data (create_weights rand parts k)) None = Inr Y \<and>
     length Y = length X \<and> rect (sum_list parts) Y"
proof -
  obtain rows where rows: "length rows = sum_list parts" "rect k rows" "rand [sum_list parts, k] = mat rows"
    using rand_matrix [OF rand] by blast
  have "lin X (mat rows) (map_option vec None) = Inr (linear_ref X rows None)"
    by (rule linear_okD [OF lin X rows(2)]) simp
  then show ?thesis using rows by (simp add: create_weights_def linear_ref_def rect_def)
qed

lemma replicated_shape:
  assumes rand: "rand_ok rand" and lin: "linear_ok lin" and X: "rect k X"
  shows "\<exists>Y. replicated_forward lin (replicated_init rand k n False False) X = Inr (Y, None) \<and>
     length Y = length X \<and> rect n Y"
  using fresh_linear [OF rand lin X, of "[n]"]
  by (auto simp: replicated_forward_def replicated_init_def apply_linear_def out_bias_def)

lemma rect_map2_add: "rect k X \<Longrightarrow> rect k Y \<Longrightarrow> length X = length Y \<Longrightarrow> rect k (add_mat X Y) \<and> length (add_mat X Y) = length X"
  by (auto simp: add_mat_def rect_def set_zip)

lemma shared_shape:
  assumes rand: "rand_ok rand" and lin: "linear_ok lin" and X: "rect k X"
  shows "\<exists>Y. shared_expert_forward lin silu (shared_expert_init rand k I) X = Inr Y \<and>
     length Y = length X \<and> rect k Y"
proof -
  obtain Y where Y: "replicated_forward lin (replicated_init rand k (I * 2) False False) X = Inr (Y, None)"
      "length Y = length X" "rect (I * 2) Y"
    using replicated_shape [OF rand lin X] by blast
  have "rect I (map (gated silu I) Y)"
    using Y(3) by (auto simp: rect_def length_gated)
  then obtain Z where "replicated_forward lin (replicated_init rand I k False False) (map (gated silu I) Y) = Inr (Z, None)"
      "length Z = length Y" "rect k Z"
    using replicated_shape [OF rand lin] by fastforce
  then show ?thesis using Y by (simp add: shared_expert_forward_def shared_expert_init_def)
qed

lemma add_shared_shape:
  assumes rand: "rand_ok rand" and lin: "linear_ok lin" and X: "rect k X"
    and es: "case shared of None \<Rightarrow> True | Some es \<Rightarrow> set es \<subseteq> {shared_expert_init rand k I}"
  shows "\<exists>Y. add_shared lin silu shared X = Inr Y \<and> length Y = length X \<and> rect k Y"
proof (cases shared)
  case None
  then show ?thesis using X by (simp add: add_shared_def)
next
  case (Some es)
  have "\<exists>Y. foldR (\<lambda>se acc. bindR (shared_expert_forward lin silu se X) (\<lambda>y. Inr (add_mat acc y))) es
      (map (map (\<lambda>_. 0)) X) = Inr Y \<and> (length Y = length X \<and> rect k Y)"
  proof (rule foldR_total)
    show "length (map (map (\<lambda>_. 0)) X) = length X \<and> rect k (map (map (\<lambda>_. 0 :: real)) X)"
      using X by (simp add: rect_def)
    fix se and acc :: "row list"
    assume "se \<in> set es" and acc: "length acc = length X \<and> rect k acc"
    then have "se = shared_expert_init rand k I" using es Some by auto
    then show "\<exists>acc'. bindR (shared_expert_forward lin silu se X) (\<lambda>y. Inr (add_mat acc y)) = Inr acc' \<and>
        (length acc' = length X \<and> rect k acc')"
      using shared_shape [OF rand lin X, of silu I] acc rect_map2_add by fastforce
  qed
  then show ?thesis using Some X rect_map2_add by (fastforce simp: add_shared_def)
qed


section \<open>What the constructor leaves\<close>

lemma check_heads_Inr:
  "check_heads H KV tp head_dim = Inr u \<longleftrightarrow>
     0 < tp \<and> tp dvd H \<and> 0 < KV \<and> (if KV \<le> tp then KV dvd tp else tp dvd KV) \<and> 0 < head_dim"
proof -
  have "(if tp \<le> KV then tp dvd KV else KV \<noteq> 0 \<and> KV dvd tp) \<longleftrightarrow>
      0 < KV \<and> (if KV \<le> tp then KV dvd tp else tp dvd KV)" if "0 < tp"
    using that by auto
  then show ?thesis
    by (auto simp: check_heads_def res dvd_eq_mod_eq_0 split: if_splits)
qed

lemma max_kv_heads: "0 < tp \<Longrightarrow> max 1 (KV div tp) = fst (kv_heads tp KV)"
  by (cases "KV < tp"; cases "KV = tp") (auto simp: kv_heads_def max_def div_greater_zero_iff Suc_le_eq)

lemma qkv_init_hidden:
  assumes "qkv_init dv rand (Some \<lparr>tc_rank = r, tc_tp_size = tp\<rparr>) hidden hs H KV tp bias skip = Inr l"
    and "divide_ok dv" and "0 < tp"
  shows "tp dvd hidden"
proof (rule ccontr)
  assume "\<not> tp dvd hidden"
  then have "dv hidden tp = Inl AssertionError" using assms by (simp add: divide_ok_def)
  then show False
    using assms(1)
    by (auto simp: qkv_init_def column_init_def get_tensor_model_parallel_world_size_def res Let_def)
qed

text \<open>The shapes that the constructor leaves: projections whose widths fit the splits.\<close>

lemma attention_init_shapes:
  assumes init: "attention_init dv rand parse (Some \<lparr>tc_rank = r, tc_tp_size = tp\<rparr>) layer_id hidden head_dim
      H KV E top_k tp r profile_bytes weighted num_shared shared_inter inter_size = Inr a"
    and dv: "divide_ok dv"
  shows "\<exists>I. l_weight (at_qkv_proj a) = create_weights rand [at_q_size a, at_kv_size a, at_kv_size a] hidden \<and>
     c_output_partition_sizes (at_qkv_proj a) = [at_q_size a, at_kv_size a, at_kv_size a] \<and>
     l_bias (at_qkv_proj a) = None \<and> \<not> l_skip_bias_add (at_qkv_proj a) \<and> \<not> c_gather_output (at_qkv_proj a) \<and>
     l_weight (at_o_proj a) = create_weights rand [hidden] (at_q_size a) \<and>
     l_bias (at_o_proj a) = None \<and> \<not> l_skip_bias_add (at_o_proj a) \<and> r_input_is_parallel (at_o_proj a) \<and>
     r_input_size_per_partition (at_o_proj a) = at_q_size a \<and>
     at_gate a = replicated_init rand hidden E False False \<and> at_top_k a = top_k \<and>
     at_layer_id a = layer_id \<and> at_weighted_router a = weighted \<and>
     (\<forall>rt. at_profile_driven_router a = Some rt \<longrightarrow>
        (\<exists>bs. profile_bytes = Some bs \<and> router_init parse bs (int E) (int top_k) (Some layer_id) = Inr rt)) \<and>
     at_q_size a = at_num_heads a * head_dim \<and> at_kv_size a = at_num_kv_heads a * head_dim \<and>
     (case at_shared_experts a of None \<Rightarrow> True | Some es \<Rightarrow> set es \<subseteq> {shared_expert_init rand hidden I})"
proof -
  let ?env = "Some \<lparr>tc_rank = r, tc_tp_size = tp\<rparr>"
  obtain u where "check_heads H KV tp head_dim = Inr u"
    using init by (auto simp: attention_init_def res)
  then have h: "0 < tp" "tp dvd H" "0 < KV" "if KV \<le> tp then KV dvd tp else tp dvd KV" "0 < head_dim"
    by (simp_all add: check_heads_Inr)
  define I where "I = (case shared_inter of Some n \<Rightarrow> n
      | None \<Rightarrow> case inter_size of Some n \<Rightarrow> n | None \<Rightarrow> hidden)"
  obtain qkv o_proj rt where q: "qkv_init dv rand ?env hidden head_dim H (Some KV) tp False False = Inr qkv"
      and o_proj: "row_init dv rand (H * head_dim) hidden tp r False True False True = Inr o_proj"
      and eq: "a = \<lparr>at_layer_id = layer_id, at_head_dim = head_dim,
             at_total_num_heads = H, at_num_heads = H div tp, at_total_num_kv_heads = KV,
             at_num_kv_heads = max 1 (KV div tp), at_num_experts = E, at_top_k = top_k,
             at_q_size = H div tp * head_dim, at_kv_size = max 1 (KV div tp) * head_dim,
             at_qkv_proj = qkv, at_o_proj = o_proj, at_gate = replicated_init rand hidden E False False,
             at_profile_driven_router = rt, at_weighted_router = weighted,
             at_shared_experts =
               (if num_shared = 0 then None
                else Some (replicate num_shared (shared_expert_init rand hidden I)))\<rparr>"
      and rt: "(case profile_bytes of None \<Rightarrow> Inr None
       | Some bs \<Rightarrow>
           if bs = [] then Inr None
           else bindR (router_init parse bs (int E) (int top_k) (Some layer_id)) (\<lambda>rt. Inr (Some rt))) = Inr rt"
    using init by (auto simp: attention_init_def res Let_def I_def)
  have rts: "\<exists>bs. profile_bytes = Some bs \<and> router_init parse bs (int E) (int top_k) (Some layer_id) = Inr t"
    if "rt = Some t" for t
    using rt that by (auto simp: res split: option.splits if_splits)
  have H: "H = H div tp * tp" using h(2) by simp
  obtain nkv rep where kv: "kv_heads tp KV = (nkv, rep)" by fastforce
  obtain l where l: "qkv_init dv rand ?env hidden head_dim H (Some KV) tp False False = Inr l"
      "l_weight l = create_weights rand [H div tp * head_dim, nkv * head_dim, nkv * head_dim] hidden"
      "c_output_partition_sizes l = [H div tp * head_dim, nkv * head_dim, nkv * head_dim]"
      "l_bias l = None" "\<not> l_skip_bias_add l" "\<not> c_gather_output l"
    using qkv_built [OF dv h(1) qkv_init_hidden [OF q dv h(1)] h(3,4) H kv] by blast
  have "max 1 (KV div tp) = nkv" using max_kv_heads [OF h(1)] kv by simp
  moreover have "l = qkv" using l(1) q by simp
  moreover have "dv (H * head_dim) tp = Inr (H div tp * head_dim)"
    using dv h(1,2) by (simp add: divide_ok_def div_mult_swap mult.commute)
  then have "o_proj = \<lparr>l_input_size = H * head_dim, l_output_size = hidden, l_skip_bias_add = False,
      l_weight = create_weights rand [hidden] (H div tp * head_dim), l_bias = None,
      r_input_is_parallel = True, r_reduce_results = True, r_tp_size = tp, r_tp_rank = r,
      r_input_size_per_partition = H div tp * head_dim\<rparr>"
    using o_proj by (simp add: row_init_def)
  ultimately show ?thesis using l eq rts by (intro exI [of _ I]) auto
qed


lemma row_forward_shape:
  assumes rand: "rand_ok rand" and lin: "linear_ok lin" and X: "rect k X"
    and l: "l_weight l = create_weights rand [n] k" "l_bias l = None" "\<not> l_skip_bias_add l"
      "r_input_is_parallel l"
    and ar: "\<And>k Y. rect k Y \<Longrightarrow> rect k (all_reduce Y) \<and> length (all_reduce Y) = length Y"
  shows "\<exists>Y. row_forward lin sp all_reduce (Some c) l X = Inr (Y, None) \<and> length Y = length X \<and> rect n Y"
proof -
  obtain Y where "lin X (p_data (create_weights rand [n] k)) None = Inr Y" "length Y = length X" "rect n Y"
    using fresh_linear [OF rand lin X, of "[n]"] by auto
  then show ?thesis
    using l ar [of n Y]
    by (simp add: row_forward_def row_partial_def apply_linear_def out_bias_def
        tensor_model_parallel_all_reduce_def get_tensor_model_parallel_world_size_def)
qed

lemma column_forward_shape:
  assumes rand: "rand_ok rand" and lin: "linear_ok lin" and X: "rect k X"
    and l: "l_weight l = create_weights rand parts k" "l_bias l = None" "\<not> l_skip_bias_add l"
      "\<not> c_gather_output l"
  shows "\<exists>Y. column_forward lin l X = Inr (Y, None) \<and> length Y = length X \<and> rect (sum_list parts) Y"
  using fresh_linear [OF rand lin X, of parts] l
  by (auto simp: column_forward_def apply_linear_def out_bias_def)

lemma split3_shape:
  assumes "rect (a + b + c) X"
  obtains Q R V where "split3 a b c X = Inr (Q, R, V)" "rect a Q" "rect b R" "rect c V"
    "length Q = length X" "length R = length X" "length V = length X"
proof -
  have "rect a (map (take a) X)" "rect b (map (\<lambda>x. take b (drop a x)) X)" "rect c (map (drop (a + b)) X)"
    using assms by (auto simp: rect_def)
  then show ?thesis using assms that by (simp add: split3_def)
qed

section \<open>Kernels for the example\<close>

definition demo_attn_kernels :: "unit attn_kernels" where
  "demo_attn_kernels =
     \<lparr>ak_pre_norm = Inr, ak_pre_norm_add = (\<lambda>X R. Inr (X, R)), ak_post_norm_add = (\<lambda>X R. Inr (X, R)),
      ak_rope = (\<lambda>ps Q R. if length ps = length Q then Inr (Q, R) else Inl RuntimeError),
      ak_attn = (\<lambda>Q _ _ c. Inr (Q, c)), ak_silu = (\<lambda>x. x), ak_rand_like = (\<lambda>X. X),
      ak_fused_topk = (\<lambda>X L k. Inr (map (\<lambda>_. replicate k 1) X, map (\<lambda>_. map int [0..<k]) X)),
      ak_gumbel = (\<lambda>m c. replicate m (replicate c 0)), ak_log = (\<lambda>x. x),
      ak_topk = (\<lambda>r k. map int [0..<k]), ak_div = (/)\<rparr>"

lemma demo_attn_kernels_ok: "attn_kernels_ok hidden d n demo_attn_kernels"
  by (auto simp: attn_kernels_ok_def norms_ok_def heads_ok_def topk_ok_def demo_attn_kernels_def
      shaped_def rect_def distinct_map)

definition demo_parse :: "nat list \<Rightarrow> profile option" where
  "demo_parse bs = (if bs = [] then None else Some small_profile)"

lemma demo_attention:
  "\<exists>a. attention_init demo_divide demo_rand demo_parse (Some \<lparr>tc_rank = 1, tc_tp_size = 2\<rparr>) 0 2 1 4 2 2 1 2 1
     (Some [1]) None 1 None (Some 5) = Inr a \<and>
     at_profile_driven_router a = Some (projr (load_profile 2 1 (Some 0) small_profile)) \<and>
     at_layer_id a = 0 \<and> at_top_k a = 1"
proof -
  have "\<not> isl (load_profile 2 1 (Some 0) small_profile)" by code_simp
  then have "load_profile 2 1 (Some 0) small_profile = Inr (projr (load_profile 2 1 (Some 0) small_profile))"
    by simp
  then have "router_init demo_parse [1] (int 2) (int 1) (Some 0) =
      Inr (projr (load_profile 2 1 (Some 0) small_profile))"
    by (simp add: router_init_def demo_parse_def)
  then show ?thesis
    by (simp add: attention_init_def check_heads_def qkv_init_def row_init_def column_init_def
      get_tensor_model_parallel_world_size_def demo_divide_def Let_def)
qed

lemma demo_table_ok: "demo_parse bs = Some pf \<Longrightarrow> table_ok pf"
  by (auto simp: demo_parse_def table_ok_def small_profile_def expert_columns_def starts_with_def
      split: if_splits)

lemma demo_route:
  "\<not> isl (route (projr (load_profile 2 1 (Some 0) small_profile)) (Tensor [2, 5]) [7, 9] 0 1)"
  by code_simp

section \<open>The choice of the experts\<close>

text \<open>Why the choice of the experts can raise, branch by branch.\<close>

definition routing_raises :: "attention \<Rightarrow> id_arg option \<Rightarrow> int list \<Rightarrow> py_error \<Rightarrow> bool" where
  "routing_raises a request_ids positions err \<longleftrightarrow>
     (case at_profile_driven_router a of
        Some rt \<Rightarrow>
          (case request_ids of None \<Rightarrow> err = AssertionError
           | Some rids \<Rightarrow> route rt rids positions (at_layer_id a) (int (at_top_k a)) = Inl err)
      | None \<Rightarrow> (case at_weighted_router a of
                   Some w \<Rightarrow> length w < at_top_k a \<and> err = AssertionError
                 | None \<Rightarrow> False))"

lemma select_experts_shape:
  assumes K: "topk_ok n K" and X: "shaped n m X" "shaped n E L" "at_top_k a \<le> E" "length positions = n"
    and rt: "\<And>rt. at_profile_driven_router a = Some rt \<Longrightarrow>
      \<exists>pf. load_profile (int E) (int (at_top_k a)) layer_id pf = Inr rt \<and> table_ok pf"
    and ids: "\<And>ids. request_ids = Some ids \<Longrightarrow> length (id_values ids) = n"
  shows "case select_experts K a request_ids positions X L of
      Inl err \<Rightarrow> routing_raises a request_ids positions err
    | Inr (ws, es) \<Rightarrow> shaped n (at_top_k a) ws \<and> length es = n \<and> (\<forall>e \<in> set es. length e = at_top_k a)"
proof (cases "at_profile_driven_router a")
  case (Some rt)
  obtain pf where pf: "load_profile (int E) (int (at_top_k a)) layer_id pf = Inr rt" "table_ok pf"
    using rt [OF Some] by blast
  have "shaped n (at_top_k a) ws \<and> length es = n \<and> (\<forall>e \<in> set es. length e = at_top_k a)"
    if "request_ids = Some i" "route rt i positions (at_layer_id a) (int (at_top_k a)) = Inr (ws, es)" for i ws es
    using route_shape [OF pf that(2)] ids [OF that(1)] X(4) by (simp add: shaped_def)
  then show ?thesis using Some
    by (auto simp: select_experts_def routing_raises_def split: option.split sum.split)
next
  case None
  show ?thesis
  proof (cases "at_weighted_router a")
    case w: (Some w)
    have "length L = n" using X(2) by (simp add: shaped_def)
    moreover have "random_routing_with_weights K w n (at_top_k a) = Inl AssertionError" if "length w < at_top_k a"
      using that by (simp add: random_routing_with_weights_def multinomial_no_replacement_def Let_def res)
    moreover have "\<exists>ws es. random_routing_with_weights K w n (at_top_k a) = Inr (ws, es) \<and>
        shaped n (at_top_k a) ws \<and> length es = n \<and> (\<forall>e \<in> set es. length e = at_top_k a)"
      if "at_top_k a \<le> length w"
      by (rule random_routing_shape [OF K that])
    ultimately show ?thesis using None w
      by (cases "length w < at_top_k a") (auto simp: select_experts_def routing_raises_def not_less)
  next
    case w: None
    have "shaped n E (ak_rand_like K L)" using K X(2) by (simp add: topk_ok_def)
    then obtain ws es where "ak_fused_topk K X (ak_rand_like K L) (at_top_k a) = Inr (ws, es)"
        "shaped n (at_top_k a) ws" "length es = n" "\<forall>e \<in> set es. length e = at_top_k a"
      using K X(1,3) unfolding topk_ok_def by blast
    then show ?thesis using None w by (simp add: select_experts_def)
  qed
qed

section \<open>Properties\<close>

text \<open>
  C31: an attention block that can be built, with or without a profile, category weights and
  shared experts, is well typed: the widths of its query, key and value parts add up to the rows
  of the projection on the rank, and the output projection takes a query row. A forward pass on
  hidden states of the model's width, with one position and, if any are given, one request id per
  token, and a residual of the same shape or none, returns one row of that width, one weight row
  and \<open>top_k\<close> experts for every token, unless the choice of the experts raises: a profile and no
  request ids, ids that the profile's table refuses, or fewer category weights than \<open>top_k\<close>.
\<close>

theorem attention_well_typed:
  assumes init: "attention_init dv rand parse (Some \<lparr>tc_rank = r, tc_tp_size = tp\<rparr>) layer_id hidden head_dim
      H KV E top_k tp r profile_bytes weighted num_shared shared_inter inter_size = Inr a"
    and dv: "divide_ok dv" and rand: "rand_ok rand" and lin: "linear_ok lin"
    and parse: "\<And>bs pf. parse bs = Some pf \<Longrightarrow> table_ok pf"
    and K: "attn_kernels_ok hidden head_dim (length X) K" and k: "top_k \<le> E"
    and ar: "\<And>k Y. rect k Y \<Longrightarrow> rect k (all_reduce Y) \<and> length (all_reduce Y) = length Y"
    and X: "rect hidden X" and pos: "length positions = length X"
    and res: "\<And>R. residual = Some R \<Longrightarrow> shaped (length X) hidden R"
    and ids: "\<And>ids. request_ids = Some ids \<Longrightarrow> length (id_values ids) = length X"
  shows "sum_list (c_output_partition_sizes (at_qkv_proj a)) = at_q_size a + 2 * at_kv_size a \<and>
     r_input_size_per_partition (at_o_proj a) = at_q_size a \<and>
     (case attention_forward lin sp all_reduce (Some \<lparr>tc_rank = r, tc_tp_size = tp\<rparr>) K a
          positions X cache residual request_ids of
        Inl err \<Rightarrow> routing_raises a request_ids positions err
      | Inr ((out, ws, es), cache') \<Rightarrow>
          shaped (length X) hidden out \<and> shaped (length X) top_k ws \<and>
          length es = length X \<and> (\<forall>e \<in> set es. length e = top_k))"
proof -
  let ?env = "Some \<lparr>tc_rank = r, tc_tp_size = tp\<rparr>" and ?n = "length X"
  let ?q = "at_q_size a" and ?kv = "at_kv_size a"
  obtain I where a: "l_weight (at_qkv_proj a) = create_weights rand [?q, ?kv, ?kv] hidden"
      "c_output_partition_sizes (at_qkv_proj a) = [?q, ?kv, ?kv]"
      "l_bias (at_qkv_proj a) = None" "\<not> l_skip_bias_add (at_qkv_proj a)" "\<not> c_gather_output (at_qkv_proj a)"
      "l_weight (at_o_proj a) = create_weights rand [hidden] ?q"
      "l_bias (at_o_proj a) = None" "\<not> l_skip_bias_add (at_o_proj a)" "r_input_is_parallel (at_o_proj a)"
      "r_input_size_per_partition (at_o_proj a) = ?q"
      "at_gate a = replicated_init rand hidden E False False" "at_top_k a = top_k"
      "case at_shared_experts a of None \<Rightarrow> True | Some es \<Rightarrow> set es \<subseteq> {shared_expert_init rand hidden I}"
      "?q = at_num_heads a * head_dim" "?kv = at_num_kv_heads a * head_dim"
      "\<forall>rt. at_profile_driven_router a = Some rt \<longrightarrow>
        (\<exists>bs. profile_bytes = Some bs \<and> router_init parse bs (int E) (int top_k) (Some layer_id) = Inr rt)"
    using attention_init_shapes [OF init dv] by blast
  have rt: "\<exists>pf. load_profile (int E) (int top_k) (Some layer_id) pf = Inr rt \<and> table_ok pf"
    if "at_profile_driven_router a = Some rt" for rt
    using a(16) that parse by (auto simp: router_init_def split: if_splits option.splits)
  have norms: "norms_ok hidden ?n K" and heads: "heads_ok head_dim ?n K" and tk: "topk_ok ?n K"
    using K by (simp_all add: attn_kernels_ok_def)
  have sX: "shaped ?n hidden X" using X by (simp add: shaped_def)
  obtain X1 R1 where normed: "(case residual of
              None \<Rightarrow> bindR (ak_pre_norm K X) (\<lambda>Y. Inr (Y, X))
            | Some r \<Rightarrow> ak_pre_norm_add K X r) = Inr (X1, R1)" "shaped ?n hidden X1" "shaped ?n hidden R1"
  proof (cases residual)
    case None
    obtain Y where "ak_pre_norm K X = Inr Y" "shaped ?n hidden Y" using norms sX by (auto simp: norms_ok_def)
    then show ?thesis using that [of Y X] None sX by simp
  next
    case (Some R)
    obtain Y R' where "ak_pre_norm_add K X R = Inr (Y, R')" "shaped ?n hidden Y" "shaped ?n hidden R'"
      using norms sX res [OF Some] unfolding norms_ok_def by blast
    then show ?thesis using that Some by simp
  qed
  then have X1: "rect hidden X1" "length X1 = ?n" by (simp_all add: shaped_def)
  obtain Y where Y: "column_forward lin (at_qkv_proj a) X1 = Inr (Y, None)" "length Y = length X1"
      "rect (?q + ?kv + ?kv) Y"
    using column_forward_shape [OF rand lin X1(1) a(1,3,4,5)] by (auto simp: add.assoc)
  obtain Q R V where sp: "split3 ?q ?kv ?kv Y = Inr (Q, R, V)" "rect ?q Q" "rect ?kv R" "rect ?kv V"
      "length Q = length Y" "length R = length Y" "length V = length Y"
    by (rule split3_shape [OF Y(3)])
  have QRV: "shaped ?n ?q Q" "shaped ?n ?kv R" "shaped ?n ?kv V"
    using sp Y X1 by (simp_all add: shaped_def)
  obtain Q' R' where rope: "ak_rope K positions Q R = Inr (Q', R')" "shaped ?n ?q Q'" "shaped ?n ?kv R'"
    using heads pos QRV unfolding heads_ok_def a(14,15) by blast
  obtain Z cache' where attn: "ak_attn K Q' R' V cache = Inr (Z, cache')" "shaped ?n ?q Z"
    using heads rope(2,3) QRV(3) unfolding heads_ok_def a(14,15) by blast
  obtain W where W: "row_forward lin sp all_reduce ?env (at_o_proj a) Z = Inr (W, None)"
      "length W = length Z" "rect hidden W"
    using row_forward_shape [OF rand lin conjunct2 [OF attn(2)[unfolded shaped_def]] a(6,7,8,9) ar] by blast
  then have "shaped ?n hidden W" using attn(2) by (simp add: shaped_def)
  then obtain W1 R2 where post: "ak_post_norm_add K W R1 = Inr (W1, R2)" "shaped ?n hidden W1"
    using norms normed(3) unfolding norms_ok_def by blast
  obtain out where out: "add_shared lin (ak_silu K) (at_shared_experts a) W1 = Inr out" "shaped ?n hidden out"
    using add_shared_shape [OF rand lin _ a(13)] post(2) by (fastforce simp: shaped_def)
  obtain L where L: "replicated_forward lin (at_gate a) out = Inr (L, None)" "shaped ?n E L"
    using replicated_shape [OF rand lin, of hidden out E] a(11) out(2) by (auto simp: shaped_def)
  have fwd: "attention_forward lin sp all_reduce ?env K a positions X cache residual request_ids =
      bindR (select_experts K a request_ids positions X1 L) (\<lambda>(ws, es). Inr ((out, ws, es), cache'))"
    by (simp only: attention_forward_def normed(1) prod.case bindR_simps Y(1) sp(1) rope(1) attn(1) W(1)
        post(1) out(1) L(1))
  have "case select_experts K a request_ids positions X1 L of
      Inl err \<Rightarrow> routing_raises a request_ids positions err
    | Inr (ws, es) \<Rightarrow> shaped ?n top_k ws \<and> length es = ?n \<and> (\<forall>e \<in> set es. length e = top_k)"
    using select_experts_shape [OF tk normed(2) L(2), of a positions "Some layer_id" request_ids] k pos rt ids
    unfolding a(12) by simp
  then have "case attention_forward lin sp all_reduce ?env K a positions X cache residual request_ids of
        Inl err \<Rightarrow> routing_raises a request_ids positions err
      | Inr ((out, ws, es), cache') \<Rightarrow>
          shaped ?n hidden out \<and> shaped ?n top_k ws \<and> length es = ?n \<and> (\<forall>e \<in> set es. length e = top_k)"
    unfolding fwd by (cases "select_experts K a request_ids positions X1 L") (use out(2) in auto)
  then show ?thesis using a(2,10) by simp
qed

lemma attention_well_typed_witness:
  "\<exists>a out ws es. attention_init demo_divide demo_rand demo_parse (Some \<lparr>tc_rank = 1, tc_tp_size = 2\<rparr>) 0 2 1 4 2 2 1 2 1
       (Some [1]) None 1 None (Some 5) = Inr a \<and>
     attention_forward demo_linear demo_split (\<lambda>Y. Y) (Some \<lparr>tc_rank = 1, tc_tp_size = 2\<rparr>) demo_attn_kernels a
       [7, 9] [[1, 2], [3, 4]] () None (Some (Tensor [2, 5])) = Inr ((out, ws, es), ()) \<and>
     shaped 2 2 out \<and> shaped 2 1 ws \<and> length es = 2"
proof -
  obtain a where a: "attention_init demo_divide demo_rand demo_parse (Some \<lparr>tc_rank = 1, tc_tp_size = 2\<rparr>) 0 2 1 4 2 2 1 2 1
       (Some [1]) None 1 None (Some 5) = Inr a"
      "at_profile_driven_router a = Some (projr (load_profile 2 1 (Some 0) small_profile))"
      "at_layer_id a = 0" "at_top_k a = 1"
    using demo_attention by blast
  have r: "\<not> routing_raises a (Some (Tensor [2, 5])) [7, 9] err" for err
    using demo_route a(2-4) by (auto simp: routing_raises_def)
  let ?X = "[[1, 2], [3, 4 :: real]]"
  have "case attention_forward demo_linear demo_split (\<lambda>Y. Y) (Some \<lparr>tc_rank = 1, tc_tp_size = 2\<rparr>)
      demo_attn_kernels a [7, 9] ?X () None (Some (Tensor [2, 5])) of
        Inl err \<Rightarrow> routing_raises a (Some (Tensor [2, 5])) [7, 9] err
      | Inr ((out, ws, es), cache') \<Rightarrow>
          shaped (length ?X) 2 out \<and> shaped (length ?X) 1 ws \<and>
          length es = length ?X \<and> (\<forall>e \<in> set es. length e = 1)"
    by (rule conjunct2 [OF conjunct2 [OF attention_well_typed
          [OF a(1) demo_divide_ok demo_rand_ok demo_linear_ok]]])
      (auto dest: demo_table_ok simp: demo_attn_kernels_ok rect_def id_values_def)
  then show ?thesis using a(1) r by (auto simp: numeral_2_eq_2 [symmetric] split: sum.splits)
qed

end
