(* ===== verification/ExpertExec.thy ===== *)
theory ExpertExec
  imports Executor Experts
begin

text \<open>
  The model of \<open>ExpertsExecutor\<close> of \<open>disagmoe/executor/executor.py\<close> and of
  \<open>CUDAGraphExpertsExecutor\<close> of \<open>disagmoe/executor/cuda_graph.py\<close>: construction of the
  operators, warm-up, the eager pass, and the pass through a captured graph with its static
  buffers and the fused copy kernel of \<open>csrc/cuda_ops/indices_copy_pad.cu\<close>. The operators are
  those of theory Experts; their kernels remain parameters.
\<close>

section \<open>Operators\<close>

text \<open>
  The kernels a worker's operators call: the CUTLASS product of one problem of a grouped runner,
  what the uninitialised buffers hold, the contiguous kernels driven by expert indices (for BF16
  and for quantised rows), the quantisation, SiLU and the quantised linear operator of the serial
  class. An operator holds its weights and, in the classes that build them, its two runners.
\<close>

record 'w expert_kernels =
  ek_gemm :: "'w \<Rightarrow> nat \<Rightarrow> nat \<Rightarrow> Experts.row list \<Rightarrow> Experts.row list"
  ek_junk :: "nat \<Rightarrow> nat \<Rightarrow> nat \<Rightarrow> real"
  ek_contiguous :: "'w \<Rightarrow> Experts.row list \<Rightarrow> int list \<Rightarrow> nat \<Rightarrow> nat \<Rightarrow> Experts.row list"
  ek_contiguous8 :: "'w \<Rightarrow> (Experts.row \<times> Experts.row) list \<Rightarrow> int list \<Rightarrow> nat \<Rightarrow> nat \<Rightarrow> Experts.row list"
  ek_quant :: "nat \<Rightarrow> Experts.row \<Rightarrow> Experts.row \<times> Experts.row"
  ek_silu :: "real \<Rightarrow> real"
  ek_linear :: "Experts.row list \<Rightarrow> real tensor \<Rightarrow> real tensor option \<Rightarrow> Experts.row list result"

record 'w expert_operator =
  eo_experts :: experts
  eo_w13 :: 'w
  eo_w2 :: 'w
  eo_runners :: "('w gemm_runner \<times> 'w gemm_runner) option"

text \<open>
  The constructor of the class that was chosen; \<open>load\<close> is the representation of the weights. The
  serial class builds the runners too, in the constructor that it inherits.
\<close>

definition build_operator ::
  "bool \<Rightarrow> (nat list \<Rightarrow> real tensor) \<Rightarrow> (nat \<Rightarrow> nat \<Rightarrow> nat \<Rightarrow> Experts.row list list) \<Rightarrow> torch_dtype \<Rightarrow>
   (Experts.row list list \<Rightarrow> 'w) \<Rightarrow> expert_cls \<Rightarrow> nat \<Rightarrow> nat \<Rightarrow> nat \<Rightarrow> nat \<Rightarrow> 'w expert_operator result" where
  "build_operator available rand rand3 dtype load cls H I E mx =
     bindR (case cls of
              Serial \<Rightarrow> serial_init rand rand3 dtype False H I E 1 mx
            | CUTLASS \<Rightarrow> experts_init rand3 dtype H I E 1 mx
            | CUTLASSFP8 \<Rightarrow> cutlass_fp8_init rand3 H I E 1 mx
            | DeepGemmBF16 \<Rightarrow> deepgemm_init available rand3 H I E 1 mx
            | DeepGemmFP8 \<Rightarrow> deepgemm_init available rand3 H I E 1 mx) (\<lambda>ex.
       case ex_weights ex of
         Plain w13 w2 \<Rightarrow>
           bindR (if cls \<in> {DeepGemmBF16, DeepGemmFP8} then Inr None
                  else map_sum id Some (cutlass_runners load (cls = CUTLASSFP8) ex w13 w2)) (\<lambda>rs.
             Inr \<lparr>eo_experts = ex, eo_w13 = load w13, eo_w2 = load w2, eo_runners = rs\<rparr>)
       | Linears _ _ \<Rightarrow> Inl AttributeError)"

record 'w experts_executor =
  xx_cls :: expert_cls
  xx_operators :: "'w expert_operator list"
  xx_mappings :: "nat list"
  xx_max_batch :: nat
  xx_enable_graph :: bool

text \<open>\<open>ExpertsExecutor.__init__\<close>, with the table of layers of its base class.\<close>

definition experts_executor_init ::
  "bool \<Rightarrow> (nat list \<Rightarrow> real tensor) \<Rightarrow> (nat \<Rightarrow> nat \<Rightarrow> nat \<Rightarrow> Experts.row list list) \<Rightarrow> torch_dtype \<Rightarrow>
   (Experts.row list list \<Rightarrow> 'w) \<Rightarrow> nat list \<Rightarrow> string option \<Rightarrow> bool \<Rightarrow> bool \<Rightarrow> bool \<Rightarrow>
   nat \<Rightarrow> nat \<Rightarrow> nat \<Rightarrow> nat \<Rightarrow> 'w experts_executor result" where
  "experts_executor_init available rand rand3 dtype load layer_ids quant grouped old_gpu graphs H I E mx =
     bindR (layer_mappings layer_ids) (\<lambda>maps.
     bindR (expert_quant_method quant) (\<lambda>q.
     let cls = get_expert_cls grouped old_gpu q in
     bindR (mapR (\<lambda>_. build_operator available rand rand3 dtype load cls H I E mx)
              [0..<length layer_ids]) (\<lambda>ops.
       Inr \<lparr>xx_cls = cls, xx_operators = ops, xx_mappings = maps, xx_max_batch = mx,
            xx_enable_graph = graphs\<rparr>)))"

section \<open>The eager pass\<close>

record expert_batch =
  eb_layer :: nat
  eb_data :: "Experts.row list"
  eb_num_tokens :: nat
  eb_sizes :: "nat list"
  eb_m_indices :: "int list"

definition operator_forward ::
  "'w expert_kernels \<Rightarrow> expert_cls \<Rightarrow> 'w expert_operator \<Rightarrow> nat \<Rightarrow> Experts.row list \<Rightarrow> nat list \<Rightarrow> int list \<Rightarrow>
   Experts.row list result" where
  "operator_forward K cls op n X sizes ms =
     (let ex = eo_experts op; w13 = eo_w13 op; w2 = eo_w2 op; silu = ek_silu K in
      case cls of
        Serial \<Rightarrow> serial_forward (ek_linear K) silu ex X sizes
      | CUTLASS \<Rightarrow>
          bindR (not_None AttributeError (eo_runners op)) (\<lambda>(r13, r2).
            cutlass_forward (ek_gemm K) silu (ek_junk K) r13 r2 ex n X sizes)
      | CUTLASSFP8 \<Rightarrow>
          bindR (not_None AttributeError (eo_runners op)) (\<lambda>(r13, r2).
            cutlass_fp8_forward (ek_quant K) (ek_gemm K) silu (ek_junk K) r13 r2 ex n X sizes)
      | DeepGemmBF16 \<Rightarrow> Inr (deepgemm_forward (ek_contiguous K) silu w13 w2 ex n X ms)
      | DeepGemmFP8 \<Rightarrow> deepgemm_fp8_forward (ek_quant K) (ek_contiguous8 K) silu w13 w2 ex n X ms)"

definition expert_execute_eager ::
  "'w expert_kernels \<Rightarrow> 'w experts_executor \<Rightarrow> expert_batch \<Rightarrow> Experts.row list result" where
  "expert_execute_eager K x b =
     bindR (py_get (xx_mappings x) (int (eb_layer b))) (\<lambda>vid.
       if xx_cls x = Serial then Inl ValueError
       else bindR (py_get (xx_operators x) (int vid)) (\<lambda>op.
         operator_forward K (xx_cls x) op (eb_num_tokens b) (eb_data b) (eb_sizes b) (eb_m_indices b)))"

section \<open>The dummy batch\<close>

text \<open>
  \<open>make_expert_dummy_inputs\<close>: the tokens are dealt out evenly and the remainder of the division
  is dropped, from the sizes and from the indices but not from the rows.
\<close>

definition make_expert_dummy_inputs ::
  "nat \<Rightarrow> nat \<Rightarrow> nat \<Rightarrow> (Experts.row list \<times> nat list \<times> int list) result" where
  "make_expert_dummy_inputs bs H E =
     (if E = 0 then Inl ZeroDivisionError
      else Inr (replicate bs (replicate H 0), replicate E (bs div E),
                concat (map (\<lambda>i. replicate (bs div E) (int i)) [0..<E])))"

section \<open>The captured graphs\<close>

text \<open>
  The state of the graph executor: the sizes, per size the layer captured at each list
  position and the layers whose outputs were appended, the three static inputs, and the output
  memory of each captured graph.
\<close>

record expert_graphs =
  eg_sizes :: "nat list"
  eg_graphs :: "nat \<Rightarrow> nat option list"
  eg_outputs :: "nat \<Rightarrow> nat list"
  eg_static_hiddens :: "Experts.row list"
  eg_static_sizes :: "nat list"
  eg_static_m :: "int list"
  eg_memory :: "nat \<times> nat \<Rightarrow> Experts.row list"

text \<open>The static inputs are uninitialised: their contents are arguments.\<close>

definition create_expert_buffers ::
  "torch_dtype \<Rightarrow> nat \<Rightarrow> nat \<Rightarrow> Experts.row list \<Rightarrow> nat list \<Rightarrow> int list \<Rightarrow> (nat \<times> nat \<Rightarrow> Experts.row list) \<Rightarrow>
   expert_graphs result" where
  "create_expert_buffers dtype mx num_layers hiddens sizes ms mem =
     bindR (assertR (dtype = BF16)) (\<lambda>_.
     bindR (expert_graph_batch_sizes mx) (\<lambda>szs.
       Inr \<lparr>eg_sizes = szs, eg_graphs = (\<lambda>_. replicate num_layers None), eg_outputs = (\<lambda>_. []),
            eg_static_hiddens = hiddens, eg_static_sizes = sizes, eg_static_m = ms, eg_memory = mem\<rparr>))"

text \<open>
  The fused kernel copies the rows in vectors of eight elements, so the last \<open>H mod 8\<close> elements
  of a row stay as they were; the indices are padded with zeros up to the bucket. It checks no
  bound: an access outside a buffer has no defined result, here it raises.
\<close>

definition copy_vec8 :: "'x list \<Rightarrow> 'x list \<Rightarrow> 'x list" where
  "copy_vec8 src dst = (let e = length src div 8 * 8 in take e src @ drop e dst)"

definition fused_copy_and_pad ::
  "Experts.row list \<Rightarrow> nat list \<Rightarrow> int list \<Rightarrow> nat \<Rightarrow> expert_graphs \<Rightarrow> expert_graphs result" where
  "fused_copy_and_pad X sizes ms padded g =
     (let T = length X in
      if length (eg_static_hiddens g) < T \<or> length (eg_static_sizes g) < length sizes \<or>
         length ms < min T padded \<or> length (eg_static_m g) < padded then Inl RuntimeError
      else Inr (g\<lparr>eg_static_hiddens := map2 copy_vec8 X (take T (eg_static_hiddens g)) @
                     drop T (eg_static_hiddens g),
                  eg_static_sizes := sizes @ drop (length sizes) (eg_static_sizes g),
                  eg_static_m := pad_copy padded 0 (take T ms) (eg_static_m g)\<rparr>))"

definition expert_graph_preprocess ::
  "expert_cls \<Rightarrow> Experts.row list \<Rightarrow> nat list \<Rightarrow> int list \<Rightarrow> nat \<Rightarrow> expert_graphs \<Rightarrow> expert_graphs result" where
  "expert_graph_preprocess cls X sizes ms bucket g =
     (if cls \<in> {CUTLASS, CUTLASSFP8} then
        bindR (Experts.copy_rows (length X) X (eg_static_hiddens g)) (\<lambda>hs.
        bindR (Experts.copy_rows (length (eg_static_sizes g)) sizes (eg_static_sizes g)) (\<lambda>szs.
          Inr (g\<lparr>eg_static_hiddens := hs, eg_static_sizes := szs\<rparr>)))
      else fused_copy_and_pad X sizes ms bucket g)"

text \<open>The batch a graph of \<open>n\<close> tokens is captured with: slices of the static inputs.\<close>

definition static_batch :: "nat \<Rightarrow> nat \<Rightarrow> expert_graphs \<Rightarrow> expert_batch" where
  "static_batch layer n g =
     \<lparr>eb_layer = layer, eb_data = take n (eg_static_hiddens g), eb_num_tokens = n,
      eb_sizes = eg_static_sizes g, eb_m_indices = take n (eg_static_m g)\<rparr>"

text \<open>
  Capturing one layer: two warm-up passes and the recorded one, which are the same call on the
  same inputs; recording executes nothing. The graphs of one size share a memory pool. Their
  outputs stay referenced from the list of static outputs, so the pool does not hand their memory
  out again: here each captured graph has an output memory of its own, and what the graphs do
  with the rest of the pool is not modelled.
\<close>

definition capture_expert_layer ::
  "'w expert_kernels \<Rightarrow> 'w experts_executor \<Rightarrow> nat \<Rightarrow> nat \<Rightarrow> expert_graphs \<Rightarrow> expert_graphs result" where
  "capture_expert_layer K x n layer g =
     bindR (py_get (eg_graphs g n) (int layer)) (\<lambda>_.
     bindR (expert_execute_eager K x (static_batch layer n g)) (\<lambda>_.
     bindR (py_set (eg_graphs g n) (int layer) (Some layer)) (\<lambda>gl.
       Inr (g\<lparr>eg_graphs := (eg_graphs g)(n := gl),
              eg_outputs := (eg_outputs g)(n := eg_outputs g n @ [layer])\<rparr>))))"

definition capture_expert_size ::
  "'w expert_kernels \<Rightarrow> 'w experts_executor \<Rightarrow> nat list \<Rightarrow> nat \<Rightarrow> nat \<Rightarrow> nat \<Rightarrow> expert_graphs \<Rightarrow>
   expert_graphs result" where
  "capture_expert_size K x layer_ids H E n g =
     bindR (make_expert_dummy_inputs n H E) (\<lambda>(X, sizes, ms).
     bindR (expert_graph_preprocess (xx_cls x) X sizes ms n g) (\<lambda>g.
       foldR (capture_expert_layer K x n) layer_ids g))"

definition capture_expert_graphs ::
  "'w expert_kernels \<Rightarrow> 'w experts_executor \<Rightarrow> nat list \<Rightarrow> nat \<Rightarrow> nat \<Rightarrow> expert_graphs \<Rightarrow>
   expert_graphs result" where
  "capture_expert_graphs K x layer_ids H E g =
     foldR (capture_expert_size K x layer_ids H E) (eg_sizes g) g"

text \<open>Replaying runs the recorded pass on what the static inputs hold now.\<close>

definition replay_expert_graph ::
  "'w expert_kernels \<Rightarrow> 'w experts_executor \<Rightarrow> nat \<Rightarrow> nat \<Rightarrow> expert_graphs \<Rightarrow> expert_graphs result" where
  "replay_expert_graph K x n layer g =
     bindR (py_get (eg_graphs g n) (int layer)) (\<lambda>gl.
     bindR (not_None RuntimeError gl) (\<lambda>captured.
     bindR (expert_execute_eager K x (static_batch captured n g)) (\<lambda>out.
       Inr (g\<lparr>eg_memory := (eg_memory g)((n, captured) := out)\<rparr>))))"

definition expert_graph_run ::
  "'w expert_kernels \<Rightarrow> 'w experts_executor \<Rightarrow> nat \<Rightarrow> Experts.row list \<Rightarrow> nat list \<Rightarrow> int list \<Rightarrow>
   expert_graphs \<Rightarrow> (Experts.row list \<times> expert_graphs) result" where
  "expert_graph_run K x layer X sizes ms g =
     bindR (get_bucket_by_num_tokens (eg_sizes g) (length X)) (\<lambda>bucket.
     bindR (expert_graph_preprocess (xx_cls x) X sizes ms bucket g) (\<lambda>g.
     bindR (replay_expert_graph K x bucket layer g) (\<lambda>g.
     bindR (py_get (eg_outputs g bucket) (int layer)) (\<lambda>out.
       Inr (take (length X) (eg_memory g (bucket, out)), g)))))"

section \<open>Execution\<close>

definition expert_execute ::
  "'w expert_kernels \<Rightarrow> 'w experts_executor \<Rightarrow> expert_batch \<Rightarrow> expert_graphs \<Rightarrow>
   (Experts.row list \<times> expert_graphs) result" where
  "expert_execute K x b g =
     bindR (assertR (eb_num_tokens b \<le> xx_max_batch x)) (\<lambda>_.
     bindR (py_get (xx_mappings x) (int (eb_layer b))) (\<lambda>vid.
       if xx_cls x \<noteq> Serial then
         (if xx_enable_graph x then expert_graph_run K x vid (eb_data b) (eb_sizes b) (eb_m_indices b) g
          else bindR (expert_execute_eager K x b) (\<lambda>out. Inr (out, g)))
       else bindR (py_get (xx_operators x) (int vid)) (\<lambda>op.
            bindR (operator_forward K Serial op (eb_num_tokens b) (eb_data b) (eb_sizes b) []) (\<lambda>out.
              Inr (out, g)))))"

text \<open>\<open>warmup\<close>: every layer runs the dummy batch twice.\<close>

definition expert_warmup ::
  "'w expert_kernels \<Rightarrow> 'w experts_executor \<Rightarrow> nat list \<Rightarrow> nat \<Rightarrow> nat \<Rightarrow> nat \<Rightarrow> expert_graphs \<Rightarrow>
   expert_graphs result" where
  "expert_warmup K x layer_ids H E bs g =
     bindR (make_expert_dummy_inputs bs H E) (\<lambda>(X, sizes, ms).
       foldR (\<lambda>layer. foldR (\<lambda>_ g.
           bindR (expert_execute K x \<lparr>eb_layer = layer, eb_data = X, eb_num_tokens = bs,
                    eb_sizes = sizes, eb_m_indices = ms\<rparr> g) (\<lambda>(_, g). Inr g)) [0..<2 :: nat])
         layer_ids g)"

text \<open>\<open>test_graph\<close> runs a dummy batch of every size through the graph of every layer.\<close>

definition test_expert_graphs ::
  "'w expert_kernels \<Rightarrow> 'w experts_executor \<Rightarrow> nat list \<Rightarrow> nat \<Rightarrow> nat \<Rightarrow> expert_graphs \<Rightarrow>
   expert_graphs result" where
  "test_expert_graphs K x layer_ids H E g =
     foldR (\<lambda>layer. foldR (\<lambda>n g.
         bindR (make_expert_dummy_inputs n H E) (\<lambda>(X, sizes, ms).
         bindR (expert_graph_run K x layer X sizes ms g) (\<lambda>(_, g). Inr g))) (eg_sizes g)) layer_ids g"

section \<open>What the operators compute\<close>

text \<open>
  What is relied on: CUTLASS computes the product of a problem row by row, with as many columns as
  the weight; DeepGEMM's contiguous kernels compute every row with the expert its index names when
  the indices are aligned to its block of \<open>A\<close> rows.
\<close>

definition expert_kernels_ok ::
  "nat \<Rightarrow> 'w expert_kernels \<Rightarrow> ('w \<Rightarrow> nat \<Rightarrow> nat \<Rightarrow> Experts.row \<Rightarrow> Experts.row) \<Rightarrow>
   ('w \<Rightarrow> nat \<Rightarrow> nat \<Rightarrow> Experts.row \<Rightarrow> Experts.row) \<Rightarrow>
   ('w \<Rightarrow> nat \<Rightarrow> nat \<Rightarrow> Experts.row \<times> Experts.row \<Rightarrow> Experts.row) \<Rightarrow> nat \<Rightarrow> bool" where
  "expert_kernels_ok A K kg kc k8 E \<longleftrightarrow>
     gemm_ok (ek_gemm K) kg \<and> (\<forall>w n e x. length (kg w n e x) = n) \<and>
     contiguous_ok A (ek_contiguous K) kc E \<and> contiguous_ok A (ek_contiguous8 K) k8 E"

text \<open>The row function of an operator of each class.\<close>

definition operator_row ::
  "'w expert_kernels \<Rightarrow> ('w \<Rightarrow> nat \<Rightarrow> nat \<Rightarrow> Experts.row \<Rightarrow> Experts.row) \<Rightarrow>
   ('w \<Rightarrow> nat \<Rightarrow> nat \<Rightarrow> Experts.row \<Rightarrow> Experts.row) \<Rightarrow>
   ('w \<Rightarrow> nat \<Rightarrow> nat \<Rightarrow> Experts.row \<times> Experts.row \<Rightarrow> Experts.row) \<Rightarrow>
   expert_cls \<Rightarrow> 'w expert_operator \<Rightarrow> nat \<Rightarrow> Experts.row \<Rightarrow> Experts.row" where
  "operator_row K kg kc k8 cls op =
     (let ex = eo_experts op; H = ex_hidden_size ex; I = ex_intermediate_size ex;
          q = ek_quant K; silu = ek_silu K; w13 = eo_w13 op; w2 = eo_w2 op;
          r13 = fst (the (eo_runners op)); r2 = snd (the (eo_runners op)) in
      case cls of
        CUTLASSFP8 \<Rightarrow> expert_row (\<lambda>e x. runner_row kg r13 e (fst (q (group_size_of H) x)))
                        (runner_row kg r2) (\<lambda>u. fst (q (group_size_of I) u)) silu I
      | DeepGemmBF16 \<Rightarrow> expert_row (kc w13 (I * 2)) (kc w2 H) id silu I
      | DeepGemmFP8 \<Rightarrow> expert_row (\<lambda>e x. k8 w13 (I * 2) e (q (group_size_of H) x)) (k8 w2 H)
                        (q (group_size_of I)) silu I
      | _ \<Rightarrow> expert_row (runner_row kg r13) (runner_row kg r2) id silu I)"

definition row_experts :: "expert_cls \<Rightarrow> nat list \<Rightarrow> int list \<Rightarrow> nat list" where
  "row_experts cls sizes ms = (if cls \<in> {CUTLASS, CUTLASSFP8} then expert_from 0 sizes else map nat ms)"

text \<open>A batch of \<open>n\<close> rows of which the first \<open>T\<close> are tokens.\<close>

definition fits_operator :: "expert_cls \<Rightarrow> nat \<Rightarrow> nat \<Rightarrow> nat \<Rightarrow> Experts.row list \<Rightarrow> nat list \<Rightarrow> int list \<Rightarrow> bool" where
  "fits_operator cls E T n X sizes ms \<longleftrightarrow> length X = n \<and> T \<le> n \<and>
     (cls \<in> {CUTLASS, CUTLASSFP8} \<longrightarrow> length sizes = E \<and> sum_list sizes = T) \<and>
     (cls \<in> {DeepGemmBF16, DeepGemmFP8} \<longrightarrow> length ms = n \<and> (\<forall>m \<in> set ms. 0 \<le> m \<and> m < int E))"

definition quantisable :: "expert_cls \<Rightarrow> experts \<Rightarrow> bool" where
  "quantisable cls ex \<longleftrightarrow> (cls \<in> {CUTLASSFP8, DeepGemmFP8} \<longrightarrow>
     ex_hidden_size ex mod group_size_of (ex_hidden_size ex) = 0 \<and>
     ex_intermediate_size ex mod group_size_of (ex_intermediate_size ex) = 0)"

definition runners_fit :: "expert_cls \<Rightarrow> nat \<Rightarrow> nat \<Rightarrow> 'w expert_operator \<Rightarrow> bool" where
  "runners_fit cls E mx op \<longleftrightarrow> (cls \<in> {CUTLASS, CUTLASSFP8} \<longrightarrow>
     (case eo_runners op of None \<Rightarrow> False
      | Some (r13, r2) \<Rightarrow> gr_num_experts r13 = E \<and> gr_max_tokens r13 = mx \<and>
          gr_num_experts r2 = E \<and> gr_max_tokens r2 = mx))"

lemma group_size_pos: "group_size_of k \<noteq> 0"
  by (simp add: group_size_of_def)

lemma map2_map_right: "map2 f es (map c X) = map2 (\<lambda>e x. f e (c x)) es X"
  by (simp add: zip_map2 comp_def case_prod_unfold)

lemma contiguous_twice:
  assumes g: "contiguous_ok A gemm kr E" and ms: "length ms = length X" "\<forall>m \<in> set ms. 0 \<le> m \<and> m < int E"
    and al: "aligned A ms"
  shows "gemm w2 (map h (gemm w13 X ms (length X) m)) ms (length X) n =
      map2 (\<lambda>i x. kr w2 n (nat i) (h (kr w13 m (nat i) x))) ms X"
proof -
  have k: "gemm w Y ms (length X) n = map2 (\<lambda>i. kr w n (nat i)) ms Y" if "length Y = length X" for w Y n
    using g ms al that unfolding contiguous_ok_def by (metis (no_types, lifting))
  show ?thesis using ms(1) by (simp add: k map2_map2 del: map_map)
qed

lemma map2_map_left: "map2 f (map c es) X = map2 (\<lambda>e x. f (c e) x) es X"
  by (simp add: zip_map1 comp_def case_prod_unfold)

lemma take_map2_right: "take T (map2 f es X) = map2 f (take T es) (take T X)"
  by (simp add: take_map take_zip)

text \<open>Whatever follows the tokens of a batch, their rows are the same.\<close>

lemma cutlass_operator_rows:
  assumes K: "expert_kernels_ok A K kg kc k8 E" and cls: "cls \<in> {CUTLASS, CUTLASSFP8}"
    and b: "fits_operator cls E T n X sizes ms" "T \<le> mx" and q: "quantisable cls (eo_experts op)"
    and r: "runners_fit cls E mx op"
  shows "\<exists>out. operator_forward K cls op n X sizes ms = Inr out \<and> length out = n \<and>
    take T out = map2 (operator_row K kg kc k8 cls op) (take T (row_experts cls sizes ms)) (take T X)"
proof -
  note kk = K [unfolded expert_kernels_ok_def]
  have s: "length sizes = E" "sum_list sizes \<le> length X" "sum_list sizes \<le> mx" and T: "sum_list sizes = T"
    and n: "length X = n"
    using b cls by (auto simp: fits_operator_def)
  let ?ex = "eo_experts op"
  let ?H = "ex_hidden_size ?ex" and ?I = "ex_intermediate_size ?ex"
  obtain r13 r2 where rs: "eo_runners op = Some (r13, r2)" and ro: "runner_ok kg E mx r13" "runner_ok kg E mx r2"
    using r cls kk by (auto simp: runners_fit_def runner_ok_def split: option.splits)
  note mm = kk [THEN conjunct1]
  show ?thesis
  proof (cases "cls = CUTLASS")
    case True
    obtain out where "cutlass_forward (ek_gemm K) (ek_silu K) (ek_junk K) r13 r2 ?ex (length X) X sizes = Inr out" "length out = length X"
        "take (sum_list sizes) out = map2 (expert_row (runner_row kg r13) (runner_row kg r2) id (ek_silu K) ?I)
          (expert_from 0 sizes) X"
      using cutlass_forward_rows [OF mm ro s, of "ek_silu K" "ek_junk K" ?ex] by blast
    then show ?thesis using n T
      by (simp add: True operator_forward_def rs operator_row_def row_experts_def Let_def map2_take_right)
  next
    case False
    then have c8: "cls = CUTLASSFP8" using cls by simp
    let ?c = "\<lambda>x. fst (ek_quant K (group_size_of ?H) x)"
    have l: "sum_list sizes \<le> length (map ?c X)" using s by simp
    obtain r13' up r2' out where f: "setup_meta sizes r13 = Inr r13'"
        "gemm_run (ek_gemm K) r13' (map ?c X) (torch_empty (ek_junk K 0) (length X) (?I * 2)) = Inr up"
        "length out = length X" "setup_meta sizes r2 = Inr r2'"
        "gemm_run (ek_gemm K) r2' (map (\<lambda>u. fst (ek_quant K (group_size_of ?I) (gated (ek_silu K) ?I u))) up)
          (torch_empty (ek_junk K 1) (length X) ?H) = Inr out"
        "take (sum_list sizes) out = map2 (\<lambda>e x. runner_row kg r2 e
          (fst (ek_quant K (group_size_of ?I) (gated (ek_silu K) ?I (runner_row kg r13 e x)))))
          (expert_from 0 sizes) (map ?c X)"
      using grouped_twice [OF mm ro s(1) l s(3), of "ek_junk K 0" "?I * 2"
          "\<lambda>u. fst (ek_quant K (group_size_of ?I) (gated (ek_silu K) ?I u))" "ek_junk K 1" ?H] by auto
    then have "cutlass_fp8_forward (ek_quant K) (ek_gemm K) (ek_silu K) (ek_junk K) r13 r2 ?ex (length X) X sizes = Inr out"
      using q c8 by (simp add: cutlass_fp8_forward_def Let_def quantisable_def group_quant_fp8_def
          group_size_pos comp_def)
    then show ?thesis using n T f(3,6)
      by (simp add: c8 operator_forward_def rs operator_row_def row_experts_def Let_def map2_take_right
          map2_map_right expert_row_def [abs_def])
  qed
qed

lemma operator_forward_rows:
  assumes K: "expert_kernels_ok A K kg kc k8 E" and cls: "cls \<noteq> Serial"
    and b: "fits_operator cls E T n X sizes ms" "T \<le> mx" and q: "quantisable cls (eo_experts op)"
    and r: "runners_fit cls E mx op"
  shows "\<exists>out. operator_forward K cls op n X sizes ms = Inr out \<and>
    ((cls \<in> {DeepGemmBF16, DeepGemmFP8} \<longrightarrow> aligned A ms) \<longrightarrow> length out = n \<and>
     take T out = map2 (operator_row K kg kc k8 cls op) (take T (row_experts cls sizes ms)) (take T X))"
proof (cases "cls \<in> {CUTLASS, CUTLASSFP8}")
  case True
  then show ?thesis using cutlass_operator_rows [OF K True b q r] by auto
next
  case False
  note kk = K [unfolded expert_kernels_ok_def]
  let ?H = "ex_hidden_size (eo_experts op)" and ?I = "ex_intermediate_size (eo_experts op)"
  show ?thesis
  proof (cases "cls = DeepGemmBF16")
    case True
    then have m: "length ms = length X" "\<forall>m \<in> set ms. 0 \<le> m \<and> m < int E" "length X = n"
      using b by (auto simp: fits_operator_def)
    show ?thesis
      using contiguous_twice [OF kk [THEN conjunct2, THEN conjunct2, THEN conjunct1] m(1,2), of "eo_w2 op"
          "gated (ek_silu K) ?I" "eo_w13 op"]
      by (simp add: True operator_forward_def deepgemm_forward_def operator_row_def
          row_experts_def expert_row_def [abs_def] Let_def m(1,3) take_map2_right take_map take_zip map2_map_left)
  next
    case nb: False
    then have c8: "cls = DeepGemmFP8" using cls False by (cases cls) simp_all
    let ?X = "map (ek_quant K (group_size_of ?H)) X"
    have m: "length ms = length ?X" "\<forall>m \<in> set ms. 0 \<le> m \<and> m < int E" "length X = n"
      using b c8 by (auto simp: fits_operator_def)
    show ?thesis
      using contiguous_twice [OF kk [THEN conjunct2, THEN conjunct2, THEN conjunct2] m(1,2), of "eo_w2 op"
          "\<lambda>u. ek_quant K (group_size_of ?I) (gated (ek_silu K) ?I u)" "eo_w13 op"] q
      by (simp add: c8 operator_forward_def deepgemm_fp8_forward_def operator_row_def
          row_experts_def expert_row_def [abs_def] Let_def m(1,3) take_map2_right take_map take_zip map2_map_left
          quantisable_def group_quant_fp8_def group_size_pos comp_def map2_map_right)
  qed
qed

section \<open>The static inputs\<close>

definition static_ok :: "nat \<Rightarrow> nat \<Rightarrow> nat \<Rightarrow> expert_graphs \<Rightarrow> bool" where
  "static_ok mx E H g \<longleftrightarrow> length (eg_static_hiddens g) = mx \<and> rect H (eg_static_hiddens g) \<and>
     length (eg_static_sizes g) = E \<and> length (eg_static_m g) = mx"

lemma copy_vec8_whole: "8 dvd length src \<Longrightarrow> length dst = length src \<Longrightarrow> copy_vec8 src dst = src"
  by (simp add: copy_vec8_def Let_def)

lemma copy_vec8_rows:
  assumes "8 dvd H" and "rect H X" and "rect H Y" and "length X \<le> length Y"
  shows "map2 copy_vec8 X (take (length X) Y) = X"
proof (rule nth_equalityI)
  show "length (map2 copy_vec8 X (take (length X) Y)) = length X" using assms(4) by simp
  fix i assume "i < length (map2 copy_vec8 X (take (length X) Y))"
  then have i: "i < length X" "i < length Y" using assms(4) by simp_all
  then have "length (X ! i) = H" "length (Y ! i) = H" using assms(2,3) by (simp_all add: rect_nth)
  then show "map2 copy_vec8 X (take (length X) Y) ! i = X ! i"
    using i assms(1) by (simp add: copy_vec8_whole)
qed

text \<open>
  After the copy the slice of the bucket is a batch that fits the operator, and its tokens have
  the rows and the experts of the batch that came in.
\<close>

lemma expert_preprocess_fits:
  assumes cls: "cls \<noteq> Serial" and st: "static_ok mx E H g" and X: "rect H X" "length X \<le> n" "n \<le> mx"
    and fit: "fits_operator cls E T (length X) X sizes ms" and sizes: "length sizes = E"
    and dg: "cls \<in> {DeepGemmBF16, DeepGemmFP8} \<Longrightarrow> 8 dvd H \<and> 0 < E"
  shows "\<exists>hs ss is. expert_graph_preprocess cls X sizes ms n g =
      Inr (g\<lparr>eg_static_hiddens := hs, eg_static_sizes := ss, eg_static_m := is\<rparr>) \<and>
    static_ok mx E H (g\<lparr>eg_static_hiddens := hs, eg_static_sizes := ss, eg_static_m := is\<rparr>) \<and>
    fits_operator cls E T n (take n hs) ss (take n is) \<and> take T hs = take T X \<and>
    take T (row_experts cls ss (take n is)) = take T (row_experts cls sizes ms) \<and>
    (cls \<in> {DeepGemmBF16, DeepGemmFP8} \<longrightarrow> aligned A ms \<longrightarrow> A dvd n \<longrightarrow> aligned A (take n is))"
proof (cases "cls \<in> {CUTLASS, CUTLASSFP8}")
  case True
  let ?hs = "X @ drop (length X) (eg_static_hiddens g)"
  have "Experts.copy_rows (length X) X (eg_static_hiddens g) = Inr ?hs"
    using st X by (intro copy_rows_fits) (simp_all add: static_ok_def)
  moreover have "Experts.copy_rows (length (eg_static_sizes g)) sizes (eg_static_sizes g) = Inr sizes"
    using copy_rows_fits [of sizes E "eg_static_sizes g"] st sizes by (simp add: static_ok_def)
  ultimately have "expert_graph_preprocess cls X sizes ms n g =
      Inr (g\<lparr>eg_static_hiddens := ?hs, eg_static_sizes := sizes, eg_static_m := eg_static_m g\<rparr>)"
    using True by (auto simp: expert_graph_preprocess_def)
  moreover have "rect H ?hs" using st X by (auto simp: static_ok_def rect_def dest: in_set_dropD)
  ultimately show ?thesis using st X fit sizes True cls
    by (intro exI [of _ ?hs] exI [of _ sizes] exI [of _ "eg_static_m g"])
      (auto simp: static_ok_def fits_operator_def row_experts_def)
next
  case False
  then have c: "cls \<in> {DeepGemmBF16, DeepGemmFP8}" using cls by (cases cls) simp_all
  then have ms: "length ms = length X" "\<forall>m \<in> set ms. 0 \<le> m \<and> m < int E" "T \<le> length X"
    using fit by (auto simp: fits_operator_def)
  let ?hs = "X @ drop (length X) (eg_static_hiddens g)"
  let ?is = "pad_copy n 0 ms (eg_static_m g)"
  have "map2 copy_vec8 X (take (length X) (eg_static_hiddens g)) = X"
    using dg [OF c] X st by (intro copy_vec8_rows [of H]) (simp_all add: static_ok_def)
  then have "expert_graph_preprocess cls X sizes ms n g =
      Inr (g\<lparr>eg_static_hiddens := ?hs, eg_static_sizes := sizes, eg_static_m := ?is\<rparr>)"
    using False X st ms sizes by (auto simp: expert_graph_preprocess_def fused_copy_and_pad_def static_ok_def Let_def)
  moreover have "rect H ?hs" using st X by (auto simp: static_ok_def rect_def dest: in_set_dropD)
  moreover have tk: "take n ?is = map (\<lambda>i. if i < length ms then ms ! i else 0) [0..<n]"
    by (simp add: pad_copy_def)
  moreover have "length ?is = mx" using st X by (simp add: pad_copy_def static_ok_def)
  moreover have "fits_operator cls E T n (take n ?hs) sizes (take n ?is)"
  proof -
    have "\<forall>m \<in> set (take n ?is). 0 \<le> m \<and> m < int E"
      unfolding tk using ms(2) dg [OF c] by auto
    moreover have "length (take n ?hs) = n" using st X by (simp add: static_ok_def)
    moreover have "length (take n ?is) = n" unfolding tk by simp
    moreover have "cls \<notin> {CUTLASS, CUTLASSFP8}" by (rule False)
    ultimately show ?thesis unfolding fits_operator_def using ms(3) X(2) by simp
  qed
  moreover have "take T (row_experts cls sizes (take n ?is)) = take T (row_experts cls sizes ms)"
  proof -
    have "take T (take n ?is) = take T ms"
      unfolding tk using ms X by (intro nth_equalityI) simp_all
    then have "map nat (take T (take n ?is)) = map nat (take T ms)" by (rule arg_cong)
    then show ?thesis using False by (simp only: row_experts_def if_False take_map)
  qed
  moreover have "aligned A (take n ?is)" if al: "aligned A ms" "A dvd n"
  proof -
    have "take n ?is = ms @ replicate (n - length ms) 0"
      unfolding tk using ms(1) X(2) by (intro nth_equalityI) (simp_all add: nth_append)
    moreover have "A dvd n - length ms" using al by (simp add: aligned_def dvd_diff_nat)
    ultimately show ?thesis using al(1) by (simp add: aligned_append aligned_replicate)
  qed
  ultimately show ?thesis using st sizes ms(3) X
    by (intro exI [of _ ?hs] exI [of _ sizes] exI [of _ ?is]) (simp add: static_ok_def)
qed

section \<open>Capture\<close>

definition executor_ok :: "nat \<Rightarrow> nat \<Rightarrow> nat \<Rightarrow> nat \<Rightarrow> 'w experts_executor \<Rightarrow> bool" where
  "executor_ok n E H mx x \<longleftrightarrow> xx_cls x \<noteq> Serial \<and> layer_mappings [0..<n] = Inr (xx_mappings x) \<and>
     length (xx_operators x) = n \<and> xx_max_batch x = mx \<and>
     (\<forall>op \<in> set (xx_operators x). quantisable (xx_cls x) (eo_experts op) \<and> runners_fit (xx_cls x) E mx op)"

lemma executor_layer:
  assumes "executor_ok n E H mx x" and "l < n"
  shows "py_get (xx_mappings x) (int l) = Inr l" and "py_get (xx_operators x) (int l) = Inr (xx_operators x ! l)"
proof -
  have "\<exists>m. layer_mappings [0..<n] = Inr m \<and> length m = Max (set [0..<n]) + 1 \<and>
      (\<forall>i < length [0..<n]. m ! ([0..<n] ! i) = i)"
    by (rule layer_mappings_inverse) (use assms(2) in simp_all)
  then have lm: "length (xx_mappings x) = Max (set [0..<n]) + 1" "xx_mappings x ! l = l"
    using assms by (auto simp: executor_ok_def)
  have "l \<le> Max (set [0..<n])" using assms(2) by (intro Max_ge) simp_all
  then show "py_get (xx_mappings x) (int l) = Inr l" using lm by simp
  show "py_get (xx_operators x) (int l) = Inr (xx_operators x ! l)"
    using assms by (simp add: executor_ok_def)
qed

lemma expert_eager_rows:
  assumes K: "expert_kernels_ok A K kg kc k8 E" and x: "executor_ok n E H mx x" and l: "l < n"
    and fit: "fits_operator (xx_cls x) E T m X sizes ms" "T \<le> mx"
  shows "\<exists>out. expert_execute_eager K x \<lparr>eb_layer = l, eb_data = X, eb_num_tokens = m, eb_sizes = sizes,
      eb_m_indices = ms\<rparr> = Inr out \<and>
    ((xx_cls x \<in> {DeepGemmBF16, DeepGemmFP8} \<longrightarrow> aligned A ms) \<longrightarrow> length out = m \<and>
     take T out = map2 (operator_row K kg kc k8 (xx_cls x) (xx_operators x ! l))
       (take T (row_experts (xx_cls x) sizes ms)) (take T X))"
proof -
  have q: "quantisable (xx_cls x) (eo_experts (xx_operators x ! l))" and c: "xx_cls x \<noteq> Serial"
    and r: "runners_fit (xx_cls x) E mx (xx_operators x ! l)"
    using x l by (simp_all add: executor_ok_def)
  show ?thesis using operator_forward_rows [OF K c fit q r] c
    by (simp add: expert_execute_eager_def executor_layer [OF x l])
qed

definition expert_captured :: "nat \<Rightarrow> nat \<Rightarrow> nat \<Rightarrow> nat \<Rightarrow> expert_graphs \<Rightarrow> bool" where
  "expert_captured n mx E H g \<longleftrightarrow> expert_graph_batch_sizes mx = Inr (eg_sizes g) \<and>
     (\<forall>s \<in> set (eg_sizes g). eg_graphs g s = map Some [0..<n] \<and> eg_outputs g s = [0..<n]) \<and>
     static_ok mx E H g"

definition graph_max_ok :: "nat \<Rightarrow> bool" where
  "graph_max_ok mx \<longleftrightarrow> 1 \<le> mx \<and> (mx \<le> 128 \<or> (\<exists>k. mx = 128 * 2 ^ k))"

lemma expert_sizes_bounded:
  assumes "graph_max_ok mx" and "expert_graph_batch_sizes mx = Inr sizes"
  shows "\<forall>s \<in> set sizes. s \<le> mx" and "distinct sizes"
proof -
  have s: "sizes = (if mx \<le> 128 then [mx] else double_upto mx 128)"
    using assms by (simp add: expert_graph_batch_sizes_def graph_max_ok_def split: if_splits)
  have *: "(\<forall>s \<in> set sizes. s \<le> mx) \<and> distinct sizes"
  proof (cases "mx \<le> 128")
    case False
    let ?d = "double_upto mx 128"
    obtain k where k: "mx = 128 * 2 ^ k" using assms(1) False by (auto simp: graph_max_ok_def)
    have d: "sorted_wrt (<) ?d" "mx \<le> last ?d" "last ?d < 2 * mx" "\<exists>j. last ?d = 128 * 2 ^ j"
      using double_upto_sizes [of 128 mx] False by auto
    then obtain j where j: "last ?d = 128 * 2 ^ j" by blast
    have "j < Suc k"
    proof (rule ccontr)
      assume "\<not> j < Suc k"
      then have "(2::nat) ^ Suc k \<le> 2 ^ j" by (intro power_increasing) simp_all
      then show False using d(3) j k by simp
    qed
    then have "(2::nat) ^ j \<le> 2 ^ k" by (intro power_increasing) simp_all
    then have "last ?d \<le> mx" using j k by simp
    then have "\<forall>s \<in> set ?d. s \<le> mx" using sorted_wrt_le_last [OF d(1)] by (meson le_trans)
    moreover have "distinct ?d" using d(1) strict_sorted_iff by blast
    ultimately show ?thesis using s False by simp
  qed (simp add: s)
  then show "\<forall>s \<in> set sizes. s \<le> mx" "distinct sizes" by blast+
qed

definition layers_captured :: "nat \<Rightarrow> nat \<Rightarrow> nat \<Rightarrow> expert_graphs \<Rightarrow> expert_graphs" where
  "layers_captured n s k g = g\<lparr>
     eg_graphs := (eg_graphs g)(s := map (\<lambda>i. if i < k then Some i else None) [0..<n]),
     eg_outputs := (eg_outputs g)(s := [0..<k])\<rparr>"

lemma capture_layers_loop:
  assumes K: "expert_kernels_ok A K kg kc k8 E" and x: "executor_ok n E H mx x"
    and fit: "fits_operator (xx_cls x) E T s (take s (eg_static_hiddens g)) (eg_static_sizes g) (take s (eg_static_m g))"
      "T \<le> mx"
    and fresh: "eg_graphs g s = replicate n None" "eg_outputs g s = []" and "k \<le> n"
  shows "foldR (capture_expert_layer K x s) [0..<k] g = Inr (layers_captured n s k g)"
  using \<open>k \<le> n\<close>
proof (induction k)
  case 0
  have "(eg_graphs g)(s := replicate n None) = eg_graphs g" "(eg_outputs g)(s := []) = eg_outputs g"
    using fresh by auto
  then show ?case by (simp add: layers_captured_def map_replicate_trivial)
next
  case (Suc k)
  let ?g = "layers_captured n s k g"
  have "static_batch k s ?g = \<lparr>eb_layer = k, eb_data = take s (eg_static_hiddens g), eb_num_tokens = s,
      eb_sizes = eg_static_sizes g, eb_m_indices = take s (eg_static_m g)\<rparr>"
    by (simp add: static_batch_def layers_captured_def)
  then obtain out where out: "expert_execute_eager K x (static_batch k s ?g) = Inr out"
    using expert_eager_rows [OF K x _ fit, of k] Suc.prems by auto
  have upd: "(map (\<lambda>i. if i < k then Some i else None) [0..<n])[k := Some k] =
      map (\<lambda>i. if i < Suc k then Some i else None) [0..<n]"
    using Suc.prems by (intro nth_equalityI) (simp_all add: nth_list_update less_Suc_eq)
  have "capture_expert_layer K x s k ?g = Inr (layers_captured n s (Suc k) g)"
    using Suc.prems by (simp add: capture_expert_layer_def out) (simp add: layers_captured_def upd)
  then show ?case using Suc by (simp add: foldR_append)
qed

lemma dummy_inputs_fit:
  assumes "0 < E" and "cls \<in> {DeepGemmBF16, DeepGemmFP8} \<Longrightarrow> E dvd s"
  shows "\<exists>X ss is T. make_expert_dummy_inputs s H E = Inr (X, ss, is) \<and> rect H X \<and> length X = s \<and>
    length ss = E \<and> fits_operator cls E T (length X) X ss is"
proof -
  let ?is = "concat (map (\<lambda>i. replicate (s div E) (int i)) [0..<E])"
  have "length ?is = E * (s div E)" by (simp add: length_concat comp_def sum_list_triv)
  moreover have "\<forall>m \<in> set ?is. 0 \<le> m \<and> m < int E" by auto
  moreover have "E * (s div E) \<le> s" by simp
  ultimately show ?thesis using assms
    by (intro exI [of _ "replicate s (replicate H 0)"] exI [of _ "replicate E (s div E)"] exI [of _ ?is]
        exI [of _ "E * (s div E)"])
      (auto simp: make_expert_dummy_inputs_def rect_def fits_operator_def sum_list_replicate)
qed

text \<open>One size: the dummy batch goes into the static inputs, then every layer is captured.\<close>

lemma capture_size_captures:
  assumes K: "expert_kernels_ok A K kg kc k8 E" and x: "executor_ok n E H mx x" and st: "static_ok mx E H g"
    and s: "s \<le> mx" "0 < E" "xx_cls x \<in> {DeepGemmBF16, DeepGemmFP8} \<Longrightarrow> E dvd s \<and> 8 dvd H"
    and fresh: "eg_graphs g s = replicate n None" "eg_outputs g s = []"
  shows "\<exists>g'. capture_expert_size K x [0..<n] H E s g = Inr g' \<and> static_ok mx E H g' \<and>
    eg_sizes g' = eg_sizes g \<and> eg_graphs g' = (eg_graphs g)(s := map Some [0..<n]) \<and>
    eg_outputs g' = (eg_outputs g)(s := [0..<n])"
proof -
  have cls: "xx_cls x \<noteq> Serial" using x by (simp add: executor_ok_def)
  obtain X ss "is" T where d: "make_expert_dummy_inputs s H E = Inr (X, ss, is)" "rect H X" "length X = s"
      "length ss = E" "fits_operator (xx_cls x) E T (length X) X ss is"
    using dummy_inputs_fit [OF s(2), of "xx_cls x" s H] s(3) by blast
  have le: "length X \<le> s" using d(3) by simp
  have T: "T \<le> mx" using d(3,5) s(1) by (simp add: fits_operator_def)
  have dg: "8 dvd H \<and> 0 < E" if "xx_cls x \<in> {DeepGemmBF16, DeepGemmFP8}" using s that by blast
  obtain hs ss' is' where p: "expert_graph_preprocess (xx_cls x) X ss is s g =
        Inr (g\<lparr>eg_static_hiddens := hs, eg_static_sizes := ss', eg_static_m := is'\<rparr>)"
      "static_ok mx E H (g\<lparr>eg_static_hiddens := hs, eg_static_sizes := ss', eg_static_m := is'\<rparr>)"
      "fits_operator (xx_cls x) E T s (take s hs) ss' (take s is')"
    using expert_preprocess_fits [OF cls st d(2) le s(1) d(5,4) dg] by blast
  let ?g = "g\<lparr>eg_static_hiddens := hs, eg_static_sizes := ss', eg_static_m := is'\<rparr>"
  have "foldR (capture_expert_layer K x s) [0..<n] ?g = Inr (layers_captured n s n ?g)"
    by (rule capture_layers_loop [OF K x _ T]) (use p(3) fresh in simp_all)
  then have cap: "capture_expert_size K x [0..<n] H E s g = Inr (layers_captured n s n ?g)"
    by (simp add: capture_expert_size_def d(1) p(1))
  have eq: "map (\<lambda>i. if i < n then Some i else None) [0..<n] = map Some [0..<n]"
    by (rule map_cong) simp_all
  have "layers_captured n s n ?g = ?g\<lparr>eg_graphs := (eg_graphs g)(s := map Some [0..<n]),
      eg_outputs := (eg_outputs g)(s := [0..<n])\<rparr>"
    unfolding layers_captured_def eq by simp
  with cap show ?thesis using p(2) by (simp add: static_ok_def)
qed

lemma capture_sizes_captures:
  assumes K: "expert_kernels_ok A K kg kc k8 E" and x: "executor_ok n E H mx x" and E: "0 < E"
    and "static_ok mx E H g" and "distinct ss"
    and "\<forall>s \<in> set ss. s \<le> mx \<and> (xx_cls x \<in> {DeepGemmBF16, DeepGemmFP8} \<longrightarrow> E dvd s \<and> 8 dvd H) \<and>
      eg_graphs g s = replicate n None \<and> eg_outputs g s = []"
  shows "\<exists>g'. foldR (capture_expert_size K x [0..<n] H E) ss g = Inr g' \<and> static_ok mx E H g' \<and>
    eg_sizes g' = eg_sizes g \<and>
    (\<forall>s. eg_graphs g' s = (if s \<in> set ss then map Some [0..<n] else eg_graphs g s)) \<and>
    (\<forall>s. eg_outputs g' s = (if s \<in> set ss then [0..<n] else eg_outputs g s))"
  using assms(4-)
proof (induction ss arbitrary: g)
  case (Cons s ss)
  obtain g1 where g1: "capture_expert_size K x [0..<n] H E s g = Inr g1" "static_ok mx E H g1"
      "eg_sizes g1 = eg_sizes g" "eg_graphs g1 = (eg_graphs g)(s := map Some [0..<n])"
      "eg_outputs g1 = (eg_outputs g)(s := [0..<n])"
    using capture_size_captures [OF K x Cons.prems(1) _ E, of s] Cons.prems(3) by auto
  have "\<forall>t \<in> set ss. t \<le> mx \<and> (xx_cls x \<in> {DeepGemmBF16, DeepGemmFP8} \<longrightarrow> E dvd t \<and> 8 dvd H) \<and>
      eg_graphs g1 t = replicate n None \<and> eg_outputs g1 t = []"
    using Cons.prems(2,3) g1(4,5) by auto
  from Cons.IH [OF g1(2) _ this] Cons.prems(2) obtain g' where
    "foldR (capture_expert_size K x [0..<n] H E) ss g1 = Inr g'" "static_ok mx E H g'"
    "eg_sizes g' = eg_sizes g1"
    "\<forall>s. eg_graphs g' s = (if s \<in> set ss then map Some [0..<n] else eg_graphs g1 s)"
    "\<forall>s. eg_outputs g' s = (if s \<in> set ss then [0..<n] else eg_outputs g1 s)" by auto
  then show ?case using g1 by (intro exI [of _ g']) simp
qed simp

text \<open>
  Where capturing succeeds: the sizes end at the maximum and, for DeepGEMM, split evenly among the
  experts and into blocks of \<open>A\<close> rows.
\<close>

definition capture_possible :: "expert_cls \<Rightarrow> nat \<Rightarrow> nat \<Rightarrow> nat \<Rightarrow> nat \<Rightarrow> bool" where
  "capture_possible cls A H E mx \<longleftrightarrow> graph_max_ok mx \<and> 0 < E \<and>
     (cls \<in> {DeepGemmBF16, DeepGemmFP8} \<longrightarrow> 8 dvd H \<and>
        (\<forall>ss. expert_graph_batch_sizes mx = Inr ss \<longrightarrow> (\<forall>s \<in> set ss. E dvd s \<and> A dvd s)))"

lemma capture_establishes:
  assumes K: "expert_kernels_ok A K kg kc k8 E" and x: "executor_ok n E H mx x"
    and ok: "capture_possible (xx_cls x) A H E mx"
    and st: "length hs = mx" "rect H hs" "length ss = E" "length is = mx"
  shows "\<exists>g0 g. create_expert_buffers BF16 mx n hs ss is mem = Inr g0 \<and>
    capture_expert_graphs K x [0..<n] H E g0 = Inr g \<and> expert_captured n mx E H g"
proof -
  obtain szs where szs: "expert_graph_batch_sizes mx = Inr szs"
    using ok by (auto simp: capture_possible_def graph_max_ok_def expert_graph_batch_sizes_def)
  define g0 where "g0 = \<lparr>eg_sizes = szs, eg_graphs = (\<lambda>_. replicate n None), eg_outputs = (\<lambda>_. []),
    eg_static_hiddens = hs, eg_static_sizes = ss, eg_static_m = is, eg_memory = mem\<rparr>"
  have c: "create_expert_buffers BF16 mx n hs ss is mem = Inr g0"
    by (simp add: create_expert_buffers_def szs g0_def)
  have b: "\<forall>s \<in> set szs. s \<le> mx" "distinct szs"
    using expert_sizes_bounded [OF _ szs] ok by (simp_all add: capture_possible_def)
  have s0: "static_ok mx E H g0" using st by (simp add: static_ok_def g0_def)
  have "\<forall>s \<in> set szs. s \<le> mx \<and> (xx_cls x \<in> {DeepGemmBF16, DeepGemmFP8} \<longrightarrow> E dvd s \<and> 8 dvd H) \<and>
      eg_graphs g0 s = replicate n None \<and> eg_outputs g0 s = []"
    using b(1) ok szs by (simp add: capture_possible_def g0_def)
  from capture_sizes_captures [OF K x _ s0 b(2) this] ok obtain g where
    "foldR (capture_expert_size K x [0..<n] H E) szs g0 = Inr g" "static_ok mx E H g" "eg_sizes g = szs"
    "\<forall>s. eg_graphs g s = (if s \<in> set szs then map Some [0..<n] else eg_graphs g0 s)"
    "\<forall>s. eg_outputs g s = (if s \<in> set szs then [0..<n] else eg_outputs g0 s)"
    by (auto simp: capture_possible_def g0_def)
  then have "capture_expert_graphs K x [0..<n] H E g0 = Inr g" "expert_captured n mx E H g"
    using szs by (simp_all add: capture_expert_graphs_def expert_captured_def g0_def)
  then show ?thesis using c by blast
qed

section \<open>The graph pass is the eager pass\<close>

definition expert_batch_ok :: "expert_cls \<Rightarrow> nat \<Rightarrow> nat \<Rightarrow> nat \<Rightarrow> nat \<Rightarrow> nat \<Rightarrow> expert_batch \<Rightarrow> bool" where
  "expert_batch_ok cls A n E H mx b \<longleftrightarrow> eb_layer b < n \<and> eb_num_tokens b = length (eb_data b) \<and>
     length (eb_data b) \<le> mx \<and> rect H (eb_data b) \<and> length (eb_sizes b) = E \<and>
     fits_operator cls E (length (eb_data b)) (length (eb_data b)) (eb_data b) (eb_sizes b) (eb_m_indices b) \<and>
     (cls \<in> {DeepGemmBF16, DeepGemmFP8} \<longrightarrow> aligned A (eb_m_indices b))"

text \<open>What the experts of a worker make of a batch.\<close>

definition expert_rows ::
  "'w expert_kernels \<Rightarrow> ('w \<Rightarrow> nat \<Rightarrow> nat \<Rightarrow> Experts.row \<Rightarrow> Experts.row) \<Rightarrow>
   ('w \<Rightarrow> nat \<Rightarrow> nat \<Rightarrow> Experts.row \<Rightarrow> Experts.row) \<Rightarrow>
   ('w \<Rightarrow> nat \<Rightarrow> nat \<Rightarrow> Experts.row \<times> Experts.row \<Rightarrow> Experts.row) \<Rightarrow>
   'w experts_executor \<Rightarrow> expert_batch \<Rightarrow> Experts.row list" where
  "expert_rows K kg kc k8 x b =
     map2 (operator_row K kg kc k8 (xx_cls x) (xx_operators x ! eb_layer b))
       (row_experts (xx_cls x) (eb_sizes b) (eb_m_indices b)) (eb_data b)"

lemma length_row_experts:
  "fits_operator cls E T T X sizes ms \<Longrightarrow> cls \<noteq> Serial \<Longrightarrow> length (row_experts cls sizes ms) = T"
  by (cases cls) (simp_all add: fits_operator_def row_experts_def)

lemma expert_eager_is_rows:
  assumes K: "expert_kernels_ok A K kg kc k8 E" and x: "executor_ok n E H mx x"
    and b: "expert_batch_ok (xx_cls x) A n E H mx b"
  shows "expert_execute_eager K x b = Inr (expert_rows K kg kc k8 x b)"
proof -
  let ?T = "length (eb_data b)"
  note bb = b [unfolded expert_batch_ok_def]
  have fit: "fits_operator (xx_cls x) E ?T ?T (eb_data b) (eb_sizes b) (eb_m_indices b)" using bb by blast
  have "xx_cls x \<noteq> Serial" using x by (simp add: executor_ok_def)
  then have le: "length (row_experts (xx_cls x) (eb_sizes b) (eb_m_indices b)) = ?T"
    by (rule length_row_experts [OF fit])
  have "b = \<lparr>eb_layer = eb_layer b, eb_data = eb_data b, eb_num_tokens = ?T, eb_sizes = eb_sizes b,
      eb_m_indices = eb_m_indices b\<rparr>" using bb by simp
  then obtain out where out: "expert_execute_eager K x b = Inr out" "length out = ?T"
      "take ?T out = map2 (operator_row K kg kc k8 (xx_cls x) (xx_operators x ! eb_layer b))
        (take ?T (row_experts (xx_cls x) (eb_sizes b) (eb_m_indices b))) (take ?T (eb_data b))"
    using expert_eager_rows [OF K x _ fit, of "eb_layer b"] bb by metis
  then show ?thesis using le by (simp add: expert_rows_def)
qed

lemma expert_bucket:
  assumes "graph_max_ok mx" and "expert_graph_batch_sizes mx = Inr sizes" and "T \<le> mx"
  shows "\<exists>s. get_bucket_by_num_tokens sizes T = Inr s \<and> T \<le> s \<and> s \<le> mx \<and> s \<in> set sizes"
proof -
  have mx: "1 \<le> mx" using assms(1) by (simp add: graph_max_ok_def)
  obtain s where s: "get_bucket_by_num_tokens sizes T = Inr s" "T \<le> s"
    using expert_buckets_cover [OF mx] assms(2,3) by auto
  then obtain ys where "filter (\<lambda>s. s \<ge> T) sizes = s # ys"
    by (auto simp: get_bucket_by_num_tokens_def split: list.splits)
  then have "s \<in> set (filter (\<lambda>s. s \<ge> T) sizes)" by (metis list.set_intros(1))
  then show ?thesis using s expert_sizes_bounded(1) [OF assms(1,2)] by auto
qed

lemma expert_graph_run_is_rows:
  assumes K: "expert_kernels_ok A K kg kc k8 E" and x: "executor_ok n E H mx x"
    and ok: "capture_possible (xx_cls x) A H E mx" and g: "expert_captured n mx E H g"
    and b: "expert_batch_ok (xx_cls x) A n E H mx b"
  shows "\<exists>g'. expert_graph_run K x (eb_layer b) (eb_data b) (eb_sizes b) (eb_m_indices b) g =
      Inr (expert_rows K kg kc k8 x b, g') \<and> expert_captured n mx E H g'"
proof -
  let ?T = "length (eb_data b)" and ?l = "eb_layer b"
  note bb = b [unfolded expert_batch_ok_def]
  have l: "?l < n" and T: "?T \<le> mx" and H: "rect H (eb_data b)" and sz: "length (eb_sizes b) = E"
    and fit: "fits_operator (xx_cls x) E ?T ?T (eb_data b) (eb_sizes b) (eb_m_indices b)" using bb by blast+
  have cls: "xx_cls x \<noteq> Serial" using x by (simp add: executor_ok_def)
  have sizes: "expert_graph_batch_sizes mx = Inr (eg_sizes g)" and st: "static_ok mx E H g"
    using g by (simp_all add: expert_captured_def)
  have mx: "graph_max_ok mx" using ok by (simp add: capture_possible_def)
  obtain s where s: "get_bucket_by_num_tokens (eg_sizes g) ?T = Inr s" "?T \<le> s" "s \<le> mx" "s \<in> set (eg_sizes g)"
    using expert_bucket [OF mx sizes T] by blast
  have gl: "eg_graphs g s = map Some [0..<n]" "eg_outputs g s = [0..<n]"
    using g s(4) by (simp_all add: expert_captured_def)
  have dg: "8 dvd H \<and> 0 < E" if "xx_cls x \<in> {DeepGemmBF16, DeepGemmFP8}"
    using ok that by (auto simp: capture_possible_def)
  obtain hs ss "is" where p: "expert_graph_preprocess (xx_cls x) (eb_data b) (eb_sizes b) (eb_m_indices b) s g =
        Inr (g\<lparr>eg_static_hiddens := hs, eg_static_sizes := ss, eg_static_m := is\<rparr>)"
      "static_ok mx E H (g\<lparr>eg_static_hiddens := hs, eg_static_sizes := ss, eg_static_m := is\<rparr>)"
      "fits_operator (xx_cls x) E ?T s (take s hs) ss (take s is)" "take ?T hs = take ?T (eb_data b)"
      "take ?T (row_experts (xx_cls x) ss (take s is)) =
        take ?T (row_experts (xx_cls x) (eb_sizes b) (eb_m_indices b))"
      "xx_cls x \<in> {DeepGemmBF16, DeepGemmFP8} \<longrightarrow> aligned A (eb_m_indices b) \<longrightarrow> A dvd s \<longrightarrow> aligned A (take s is)"
    using expert_preprocess_fits [OF cls st H s(2,3) fit sz dg] by blast
  have al: "xx_cls x \<in> {DeepGemmBF16, DeepGemmFP8} \<longrightarrow> aligned A (take s is)"
    using p(6) bb ok sizes s(4) by (auto simp: capture_possible_def)
  let ?g = "g\<lparr>eg_static_hiddens := hs, eg_static_sizes := ss, eg_static_m := is\<rparr>"
  obtain out where out: "expert_execute_eager K x (static_batch ?l s ?g) = Inr out"
      "take ?T out = map2 (operator_row K kg kc k8 (xx_cls x) (xx_operators x ! ?l))
        (take ?T (row_experts (xx_cls x) ss (take s is))) (take ?T (take s hs))"
    using expert_eager_rows [OF K x l p(3) T] al by (auto simp: static_batch_def)
  have "take ?T (take s hs) = eb_data b" using p(4) s(2) by simp
  moreover have "length (row_experts (xx_cls x) (eb_sizes b) (eb_m_indices b)) = ?T"
    by (rule length_row_experts [OF fit cls])
  ultimately have rows: "take ?T out = expert_rows K kg kc k8 x b"
    using out(2) p(5) by (simp add: expert_rows_def)
  let ?g' = "?g\<lparr>eg_memory := (eg_memory g)((s, ?l) := out)\<rparr>"
  have "replay_expert_graph K x s ?l ?g = Inr ?g'"
    using l out(1) by (simp add: replay_expert_graph_def gl)
  then have "expert_graph_run K x ?l (eb_data b) (eb_sizes b) (eb_m_indices b) g =
      Inr (expert_rows K kg kc k8 x b, ?g')"
    using l rows by (simp add: expert_graph_run_def s(1) p(1) gl)
  moreover have "expert_captured n mx E H ?g'"
    using g p(2) by (simp add: expert_captured_def static_ok_def)
  ultimately show ?thesis by blast
qed

text \<open>A worker executes the batches one after the other, with the graphs as its state.\<close>

fun expert_execute_all ::
  "'w expert_kernels \<Rightarrow> 'w experts_executor \<Rightarrow> expert_batch list \<Rightarrow> expert_graphs \<Rightarrow>
   (Experts.row list list \<times> expert_graphs) result" where
  "expert_execute_all K x [] g = Inr ([], g)"
| "expert_execute_all K x (b # bs) g =
     bindR (expert_execute K x b g) (\<lambda>(out, g).
     bindR (expert_execute_all K x bs g) (\<lambda>(outs, g). Inr (out # outs, g)))"

lemma expert_execute_captured:
  assumes K: "expert_kernels_ok A K kg kc k8 E" and x: "executor_ok n E H mx x" "xx_enable_graph x"
    and ok: "capture_possible (xx_cls x) A H E mx" and g: "expert_captured n mx E H g"
    and b: "expert_batch_ok (xx_cls x) A n E H mx b"
  shows "\<exists>g'. expert_execute K x b g = Inr (expert_rows K kg kc k8 x b, g') \<and> expert_captured n mx E H g'"
proof -
  have "eb_num_tokens b \<le> xx_max_batch x" "xx_cls x \<noteq> Serial" "eb_layer b < n"
    using b x by (simp_all add: expert_batch_ok_def executor_ok_def)
  then show ?thesis
    using expert_graph_run_is_rows [OF K x(1) ok g b] executor_layer(1) [OF x(1), of "eb_layer b"] x(2)
    by (simp add: expert_execute_def)
qed

lemma expert_execute_all_captured:
  assumes K: "expert_kernels_ok A K kg kc k8 E" and x: "executor_ok n E H mx x" "xx_enable_graph x"
    and ok: "capture_possible (xx_cls x) A H E mx" and "expert_captured n mx E H g"
    and "\<forall>b \<in> set bs. expert_batch_ok (xx_cls x) A n E H mx b"
  shows "\<exists>g'. expert_execute_all K x bs g = Inr (map (expert_rows K kg kc k8 x) bs, g') \<and>
    expert_captured n mx E H g'"
  using assms(5-)
proof (induction bs arbitrary: g)
  case (Cons b bs)
  then obtain g1 where g1: "expert_execute K x b g = Inr (expert_rows K kg kc k8 x b, g1)"
      "expert_captured n mx E H g1"
    using expert_execute_captured [OF K x ok, of g b] by auto
  then show ?case using Cons.IH [OF g1(2)] Cons.prems(2) by auto
qed simp

text \<open>
  C14: for a worker with the layers 0 to n - 1 and grouped experts, capturing the graphs succeeds
  from any contents of the static inputs, and then every sequence of batches run through the
  graphs gives the outputs of the eager operators, each row through the matrices of its own
  expert, whatever the batches before left in the buffers. It needs a maximum that the bucket
  sizes end at. With DeepGEMM it also needs rows in multiples of eight, sizes that split evenly
  among the experts, and what the kernel asks for: buckets and expert segments aligned to its
  block of \<open>A\<close> rows.
\<close>

theorem expert_graphs_refine_eager:
  assumes K: "expert_kernels_ok A K kg kc k8 E" and x: "executor_ok n E H mx x" "xx_enable_graph x"
    and ok: "capture_possible (xx_cls x) A H E mx"
    and st: "length hs = mx" "rect H hs" "length ss = E" "length is = mx"
    and bs: "\<forall>b \<in> set bs. expert_batch_ok (xx_cls x) A n E H mx b"
  shows "\<exists>g0 g outs g'. create_expert_buffers BF16 mx n hs ss is mem = Inr g0 \<and>
    capture_expert_graphs K x [0..<n] H E g0 = Inr g \<and>
    mapR (expert_execute_eager K x) bs = Inr outs \<and> expert_execute_all K x bs g = Inr (outs, g') \<and>
    outs = map (expert_rows K kg kc k8 x) bs"
proof -
  obtain g0 g where g: "create_expert_buffers BF16 mx n hs ss is mem = Inr g0"
      "capture_expert_graphs K x [0..<n] H E g0 = Inr g" "expert_captured n mx E H g"
    using capture_establishes [OF K x(1) ok st] by blast
  have "mapR (expert_execute_eager K x) bs = Inr (map (expert_rows K kg kc k8 x) bs)"
    using bs expert_eager_is_rows [OF K x(1)] by (intro mapR_all_Inr) blast
  then show ?thesis using g expert_execute_all_captured [OF K x ok g(3) bs] by blast
qed

section \<open>Construction, warm-up and what does not work\<close>

text \<open>The constructor gives such a worker.\<close>

lemma build_operator_dims:
  assumes "build_operator available rand rand3 dtype load cls H I E mx = Inr op"
  shows "ex_hidden_size (eo_experts op) = H \<and> ex_intermediate_size (eo_experts op) = I \<and>
    runners_fit cls E mx op"
proof -
  obtain ex where ex: "(case cls of
              Serial \<Rightarrow> serial_init rand rand3 dtype False H I E 1 mx
            | CUTLASS \<Rightarrow> experts_init rand3 dtype H I E 1 mx
            | CUTLASSFP8 \<Rightarrow> cutlass_fp8_init rand3 H I E 1 mx
            | DeepGemmBF16 \<Rightarrow> deepgemm_init available rand3 H I E 1 mx
            | DeepGemmFP8 \<Rightarrow> deepgemm_init available rand3 H I E 1 mx) = Inr ex"
    and op: "(case ex_weights ex of
         Plain w13 w2 \<Rightarrow>
           bindR (if cls \<in> {DeepGemmBF16, DeepGemmFP8} then Inr None
                  else map_sum id Some (cutlass_runners load (cls = CUTLASSFP8) ex w13 w2)) (\<lambda>rs.
             Inr \<lparr>eo_experts = ex, eo_w13 = load w13, eo_w2 = load w2, eo_runners = rs\<rparr>)
       | Linears _ _ \<Rightarrow> Inl AttributeError) = Inr op"
    using assms unfolding build_operator_def bindR_Inr_iff by blast
  have d: "ex_hidden_size ex = H \<and> ex_intermediate_size ex = I \<and>
      (cls \<in> {CUTLASS, CUTLASSFP8} \<longrightarrow> ex_num_experts ex = E \<and> ex_max_batch_size ex = mx)"
    using ex by (cases cls) (auto simp: res serial_init_def experts_init_def cutlass_fp8_init_def
        deepgemm_init_def Let_def serial_create_weights_def experts_create_weights_def split: if_splits)
  obtain w13 w2 rs where w: "(if cls \<in> {DeepGemmBF16, DeepGemmFP8} then Inr None
        else map_sum id Some (cutlass_runners load (cls = CUTLASSFP8) ex w13 w2)) = Inr rs"
      "op = \<lparr>eo_experts = ex, eo_w13 = load w13, eo_w2 = load w2, eo_runners = rs\<rparr>"
    using op by (cases "ex_weights ex") (auto simp: bindR_Inr_iff)
  have "runners_fit cls E mx op"
  proof (cases "cls \<in> {CUTLASS, CUTLASSFP8}")
    case True
    then have "cls \<notin> {DeepGemmBF16, DeepGemmFP8}" by auto
    then obtain r13 r2 where r: "cutlass_runners load (cls = CUTLASSFP8) ex w13 w2 = Inr (r13, r2)"
        "rs = Some (r13, r2)"
      using w(1) by (cases "cutlass_runners load (cls = CUTLASSFP8) ex w13 w2") auto
    show ?thesis using cutlass_runners_ok [OF r(1)] d True by (auto simp: runners_fit_def w(2) r(2))
  qed (simp add: runners_fit_def)
  then show ?thesis using d w(2) by simp
qed

lemma experts_executor_init_ok:
  assumes "experts_executor_init available rand rand3 dtype load [0..<n] quant grouped old_gpu graphs H I E mx = Inr x"
    and "grouped" and "64 dvd H" and "64 dvd I"
  shows "executor_ok n E H mx x \<and> xx_enable_graph x = graphs"
proof -
  obtain maps q ops where i: "layer_mappings [0..<n] = Inr maps" "expert_quant_method quant = Inr q"
      "mapR (\<lambda>_. build_operator available rand rand3 dtype load (get_expert_cls grouped old_gpu q) H I E mx)
        [0..<n] = Inr ops"
      "x = \<lparr>xx_cls = get_expert_cls grouped old_gpu q, xx_operators = ops, xx_mappings = maps,
        xx_max_batch = mx, xx_enable_graph = graphs\<rparr>"
    using assms(1) by (auto simp: experts_executor_init_def res Let_def)
  have l: "length ops = n" using mapR_Inr_length [OF i(3)] by simp
  have "quantisable c (eo_experts op) \<and> runners_fit (get_expert_cls grouped old_gpu q) E mx op"
    if op: "op \<in> set ops" for c op
  proof -
    obtain k where k: "k < n" "ops ! k = op" using op unfolding in_set_conv_nth l by blast
    have "build_operator available rand rand3 dtype load (get_expert_cls grouped old_gpu q) H I E mx = Inr (ops ! k)"
      using mapR_Inr_nth [OF i(3)] k(1) unfolding length_upt diff_zero by blast
    then have "build_operator available rand rand3 dtype load (get_expert_cls grouped old_gpu q) H I E mx = Inr op"
      by (simp only: k(2))
    from build_operator_dims [OF this] have d: "ex_hidden_size (eo_experts op) = H"
      "ex_intermediate_size (eo_experts op) = I" "runners_fit (get_expert_cls grouped old_gpu q) E mx op"
      by simp_all
    have "k mod group_size_of k = 0" if "64 dvd k" for k
      using that by (auto simp: group_size_of_def)
    then show ?thesis using assms(3,4) d(3) unfolding quantisable_def d(1,2) by blast
  qed
  moreover have "get_expert_cls grouped old_gpu q \<noteq> Serial"
    using assms(2) by (simp add: get_expert_cls_def)
  ultimately show ?thesis using i l by (simp add: executor_ok_def)
qed

text \<open>Without graphs the worker is warmed up: a dummy batch that splits evenly runs through every layer.\<close>

lemma dummy_batch_returns:
  assumes K: "expert_kernels_ok A K kg kc k8 E" and x: "executor_ok n E H mx x" and l: "l < n"
    and m: "0 < E" "E dvd m" "m \<le> mx"
  shows "\<exists>X ss is. make_expert_dummy_inputs m H E = Inr (X, ss, is) \<and>
    \<not> isl (expert_execute_eager K x \<lparr>eb_layer = l, eb_data = X, eb_num_tokens = m, eb_sizes = ss, eb_m_indices = is\<rparr>)"
proof -
  obtain X ss "is" T where d: "make_expert_dummy_inputs m H E = Inr (X, ss, is)" "length X = m"
      "fits_operator (xx_cls x) E T (length X) X ss is"
    using dummy_inputs_fit [OF m(1), of "xx_cls x" m H] m(2) by blast
  have T: "T \<le> mx" using d(2,3) m(3) by (simp add: fits_operator_def)
  show ?thesis using d(1) expert_eager_rows [OF K x l d(3)[unfolded d(2)] T] by auto
qed

lemma warmup_returns:
  assumes K: "expert_kernels_ok A K kg kc k8 E" and x: "executor_ok n E H mx x" "\<not> xx_enable_graph x"
    and E: "0 < E" and bs: "E dvd m" "m \<le> mx"
  shows "expert_warmup K x [0..<n] H E m g = Inr g"
proof -
  obtain X ss "is" where d: "make_expert_dummy_inputs m H E = Inr (X, ss, is)"
    using E by (simp add: make_expert_dummy_inputs_def)
  let ?b = "\<lambda>l. \<lparr>eb_layer = l, eb_data = X, eb_num_tokens = m, eb_sizes = ss, eb_m_indices = is\<rparr>"
  have once: "bindR (expert_execute K x (?b l) g) (\<lambda>(_, g). Inr g) = Inr g" if l: "l < n" for l g
  proof -
    obtain out where ok: "expert_execute_eager K x (?b l) = Inr out"
      using dummy_batch_returns [OF K x(1) l E bs] d
      by (cases "expert_execute_eager K x (?b l)") auto
    have "m \<le> xx_max_batch x" "xx_cls x \<noteq> Serial" using x bs by (simp_all add: executor_ok_def)
    then show ?thesis using x(2) l
      by (simp add: expert_execute_def executor_layer(1) [OF x(1)] ok)
  qed
  have "foldR (\<lambda>layer. foldR (\<lambda>_ g. bindR (expert_execute K x (?b layer) g) (\<lambda>(_, g). Inr g)) [0..<2 :: nat])
      ls g = Inr g" if "set ls \<subseteq> {..<n}" for ls
    using that
  proof (induction ls)
    case (Cons l ls)
    then have "bindR (expert_execute K x (?b l) g) (\<lambda>(_, g). Inr g) = Inr g" by (intro once) simp
    then have "foldR (\<lambda>_ g. bindR (expert_execute K x (?b l) g) (\<lambda>(_, g). Inr g)) [0..<2 :: nat] g = Inr g"
      by (simp add: upt_rec [of _ 2])
    then show ?case using Cons by simp
  qed simp
  from this [of "[0..<n]"] show ?thesis by (simp add: expert_warmup_def d atLeast0LessThan)
qed

text \<open>
  DeepGEMM graphs of a size that the experts do not divide: the dummy indices are shorter than
  the batch and the copy kernel reads behind their end.
\<close>

lemma capture_reads_past_indices:
  assumes "cls \<in> {DeepGemmBF16, DeepGemmFP8}" and "xx_cls x = cls" and "0 < E" and "\<not> E dvd s"
  shows "capture_expert_size K x layer_ids H E s g = Inl RuntimeError"
proof -
  have "E * (s div E) \<noteq> s" using assms(4) by (metis dvd_triv_left)
  moreover have "E * (s div E) \<le> s" by simp
  ultimately have lt: "E * (s div E) < s" by linarith
  have len: "length (concat (map (\<lambda>i. replicate (s div E) (int i)) [0..<E])) = E * (s div E)"
    by (simp add: length_concat comp_def sum_list_triv)
  show ?thesis using assms lt
    by (auto simp: capture_expert_size_def make_expert_dummy_inputs_def expert_graph_preprocess_def
        fused_copy_and_pad_def Let_def len)
qed

text \<open>
  The indices that a batch carries are not aligned to anything: two experts with one row each give
  two indices in one block.
\<close>

lemma deepgemm_batch_unaligned:
  assumes "md_exp_ids m = [0, 1]" "md_shape m = [2, h]" and "cls \<in> {DeepGemmBF16, DeepGemmFP8}" and "2 \<le> A"
  shows "prepare_bsz_and_indices cls 2 [0, 1] [0, 1] m = Inr (None, Some [0, 1]) \<and> \<not> aligned A [0, 1]"
proof -
  have "\<not> aligned A [0, 1]"
    using assms(4) by (auto simp: aligned_def dest!: spec [of _ 1])
  moreover have "num_tokens_c m = Inr 2" using assms(2) by (simp add: num_tokens_c_def vec_get_def)
  ultimately show ?thesis using assms(1,3)
    by (auto simp: prepare_bsz_and_indices_def get_token_expert_indices_def res numeral_2_eq_2
        vec_get_def cpp_assert_def)
qed

text \<open>The copy kernel leaves the last elements of a row that is not a multiple of eight long.\<close>

lemma fused_copy_drops_tail: "copy_vec8 [1, 2, 3, 4, 5, 6, 7, 8, 9] (replicate 9 0) = [1, 2, 3, 4, 5, 6, 7, 8, 0 :: int]"
  by code_simp

text \<open>An example: one layer, two experts, graphs up to four tokens; two batches.\<close>

definition demo_row :: "nat \<Rightarrow> nat \<Rightarrow> nat \<Rightarrow> Experts.row \<Rightarrow> Experts.row" where
  "demo_row w n e x = replicate n (hd x + real e)"

definition demo_expert_kernels :: "nat expert_kernels" where
  "demo_expert_kernels =
     \<lparr>ek_gemm = (\<lambda>w e n X. map (demo_row w n e) X), ek_junk = (\<lambda>_ _ _. 99),
      ek_contiguous = (\<lambda>w X ms bs n. map2 (\<lambda>m. demo_row w n (nat m)) ms X),
      ek_contiguous8 = (\<lambda>w X ms bs n. map2 (\<lambda>m x. demo_row w n (nat m) (fst x)) ms X),
      ek_quant = (\<lambda>_ x. (x, [])), ek_silu = (\<lambda>v. v), ek_linear = (\<lambda>_ _ _. Inr [])\<rparr>"

definition demo_runner :: "nat \<Rightarrow> nat gemm_runner" where
  "demo_runner n = \<lparr>gr_weight = 0, gr_num_experts = 2, gr_n = n, gr_max_tokens = 4, gr_scale = None,
     gr_sizes = [], gr_problems = replicate 2 \<lparr>pb_rows = 2, pb_a = None, pb_c = None\<rparr>\<rparr>"

definition demo_executor :: "nat experts_executor" where
  "demo_executor = \<lparr>xx_cls = CUTLASS,
     xx_operators = [\<lparr>eo_experts = \<lparr>ex_hidden_size = 1, ex_intermediate_size = 1, ex_num_experts = 2,
       ex_max_batch_size = 4, ex_weights = Plain [] []\<rparr>, eo_w13 = 0, eo_w2 = 0,
       eo_runners = Some (demo_runner 2, demo_runner 1)\<rparr>],
     xx_mappings = [0], xx_max_batch = 4, xx_enable_graph = True\<rparr>"

definition demo_batches :: "expert_batch list" where
  "demo_batches =
     [\<lparr>eb_layer = 0, eb_data = [[3], [5]], eb_num_tokens = 2, eb_sizes = [1, 1], eb_m_indices = []\<rparr>,
      \<lparr>eb_layer = 0, eb_data = [[7]], eb_num_tokens = 1, eb_sizes = [0, 1], eb_m_indices = []\<rparr>]"

lemma demo_kernels_ok:
  "expert_kernels_ok 2 demo_expert_kernels demo_row demo_row (\<lambda>w n e x. demo_row w n e (fst x)) 2"
  by (simp add: expert_kernels_ok_def demo_expert_kernels_def gemm_ok_def contiguous_ok_def demo_row_def)

theorem expert_graphs_refine_eager_witness:
  "\<exists>g0 g g'. create_expert_buffers BF16 4 1 (replicate 4 [42]) [9, 9] [7, 7, 7, 7] (\<lambda>_. []) = Inr g0 \<and>
     capture_expert_graphs demo_expert_kernels demo_executor [0..<1] 1 2 g0 = Inr g \<and>
     mapR (expert_execute_eager demo_expert_kernels demo_executor) demo_batches =
       Inr [[[9], [37]], [[65]]] \<and>
     expert_execute_all demo_expert_kernels demo_executor demo_batches g = Inr ([[[9], [37]], [[65]]], g')"
proof -
  have x: "executor_ok 1 2 1 4 demo_executor" "xx_enable_graph demo_executor"
    by (simp_all add: executor_ok_def demo_executor_def layer_mappings_def quantisable_def
        runners_fit_def demo_runner_def)
  have ok: "capture_possible (xx_cls demo_executor) 2 1 2 4"
    by (simp add: capture_possible_def graph_max_ok_def demo_executor_def)
  have st: "length (replicate 4 [42 :: real]) = 4" "rect 1 (replicate 4 [42 :: real])"
    "length [9, 9 :: nat] = 2" "length [7, 7, 7, 7 :: int] = 4" by (simp_all add: rect_def)
  have bs: "\<forall>b \<in> set demo_batches. expert_batch_ok (xx_cls demo_executor) 2 1 2 1 4 b"
    by (simp add: demo_batches_def expert_batch_ok_def fits_operator_def demo_executor_def rect_def)
  have rows: "map (expert_rows demo_expert_kernels demo_row demo_row (\<lambda>w n e x. demo_row w n e (fst x)) demo_executor)
      demo_batches = [[[9], [37]], [[65]]]"
    by (simp add: demo_batches_def expert_rows_def demo_executor_def row_experts_def operator_row_def
        expert_row_def demo_row_def gated_def demo_expert_kernels_def numeral_2_eq_2
        runner_row_def demo_runner_def)
  show ?thesis
    using expert_graphs_refine_eager [OF demo_kernels_ok x ok st bs, of "\<lambda>_. []"] rows by simp
qed

end
