(* ===== verification/Telemetry.thy ===== *)
theory Telemetry
  imports Dicts "HOL-Library.Char_ord"
begin

text \<open>
  The model of \<open>disagmoe/utils/advanced_logger.py\<close>, \<open>disagmoe/utils/metrics.py\<close>, the timer of
  \<open>disagmoe/utils/utils.py\<close> and the telemetry of \<open>disagmoe/frontend/engine.py\<close>: what a worker
  logs, the deferred reading of GPU timings, the traces drained from the transport, the running
  means, and the data that the controller collects or a dump writes. Times are exact reals;
  the clock, the GPU events and the traces of the C++ side are inputs.
\<close>

section \<open>Timers and running means\<close>

text \<open>A timer's entry is its start, in nanoseconds, and after the stop the cost in milliseconds.\<close>

type_synonym timers = "string \<Rightarrow> real option"

definition timer_start :: "string \<Rightarrow> real \<Rightarrow> timers \<Rightarrow> timers" where
  "timer_start name now_ns t = t(name \<mapsto> now_ns)"

definition timer_stop :: "string \<Rightarrow> real \<Rightarrow> timers \<Rightarrow> (real \<times> timers) result" where
  "timer_stop name now_ns t =
     bindR (lookupR t name) (\<lambda>start.
     let cost_ms = (now_ns - start) / 1000000 in Inr (cost_ms, t(name \<mapsto> cost_ms)))"

definition timer_get :: "string \<Rightarrow> timers \<Rightarrow> real option" where
  "timer_get name t = t name"

record metric =
  mt_fields :: "string \<Rightarrow> real"
  mt_counter :: nat

definition metric_init :: metric where
  "metric_init = \<lparr>mt_fields = (\<lambda>_. 0), mt_counter = 0\<rparr>"

definition metric_step :: "metric \<Rightarrow> metric" where
  "metric_step m = m\<lparr>mt_counter := mt_counter m + 1\<rparr>"

definition metric_update :: "string \<Rightarrow> real \<Rightarrow> metric \<Rightarrow> metric result" where
  "metric_update name v m =
     (if mt_counter m = 0 then Inl ZeroDivisionError
      else Inr (m\<lparr>mt_fields := (mt_fields m)(name :=
             (mt_fields m name * (real (mt_counter m) - 1) + v) / real (mt_counter m))\<rparr>))"

text \<open>When every step updates a field, the field is the mean of its values.\<close>

fun metric_run :: "string \<Rightarrow> real list \<Rightarrow> metric \<Rightarrow> metric result" where
  "metric_run name [] m = Inr m"
| "metric_run name (v # vs) m = bindR (metric_update name v (metric_step m)) (metric_run name vs)"

lemma metric_run_mean_from:
  "\<exists>m'. metric_run name vs m = Inr m' \<and> mt_counter m' = mt_counter m + length vs \<and>
     mt_fields m' name * real (mt_counter m') = mt_fields m name * real (mt_counter m) + sum_list vs"
proof (induction vs arbitrary: m)
  case (Cons v vs)
  let ?c = "real (mt_counter m) + 1"
  define m1 where "m1 = (metric_step m)\<lparr>mt_fields := (mt_fields m)(name :=
    (mt_fields m name * real (mt_counter m) + v) / ?c)\<rparr>"
  have up: "metric_update name v (metric_step m) = Inr m1"
    by (simp add: metric_update_def metric_step_def m1_def add.commute)
  have c: "mt_counter m1 = Suc (mt_counter m)" by (simp add: m1_def metric_step_def)
  have "mt_fields m1 name * real (mt_counter m1) = mt_fields m name * real (mt_counter m) + v"
    by (simp add: m1_def metric_step_def field_simps)
  then show ?case using Cons.IH [of m1] up c by auto
qed simp

lemma metric_run_mean:
  assumes "vs \<noteq> []"
  shows "\<exists>m. metric_run name vs metric_init = Inr m \<and> mt_fields m name = sum_list vs / real (length vs)"
proof -
  obtain m where m: "metric_run name vs metric_init = Inr m" "mt_counter m = length vs"
      "mt_fields m name * real (mt_counter m) = sum_list vs"
    using metric_run_mean_from [of name vs metric_init] by (auto simp: metric_init_def)
  then show ?thesis using assms by (auto simp: field_simps)
qed

text \<open>A step without an update counts as one: the value after it is no mean of the values seen.\<close>

lemma metric_skipped_step:
  "\<exists>m. metric_update name 4 (metric_step (metric_step metric_init)) = Inr m \<and> mt_fields m name = 2"
  by (simp add: metric_update_def metric_step_def metric_init_def)

section \<open>The values a log can hold\<close>

datatype json = JNull | JBool bool | JInt int | JNum real | JStr string | JList "json list"
  | JObj "(string \<times> json) list"

text \<open>A table is written by columns, one list per field.\<close>

definition json_columns :: "(string \<times> ('r \<Rightarrow> json)) list \<Rightarrow> 'r list \<Rightarrow> json" where
  "json_columns fs rows = JObj (map (\<lambda>(k, f). (k, JList (map f rows))) fs)"

text \<open>Formatting a number: \<open>f"{layer_id}_{expert_id}"\<close>.\<close>

definition digit :: "nat \<Rightarrow> char" where
  "digit d = char_of (48 + d)"

fun nat_str :: "nat \<Rightarrow> string" where
  "nat_str n = (if n < 10 then [digit n] else nat_str (n div 10) @ [digit (n mod 10)])"

declare nat_str.simps [simp del]

definition queue_key :: "nat \<Rightarrow> nat \<Rightarrow> string" where
  "queue_key layer expert = nat_str layer @ ''_'' @ nat_str expert"

section \<open>The logger\<close>

type_synonym moe_step = "nat \<times> real \<times> real"
type_synonym snapshot = "real \<times> int \<times> nat list"
type_synonym put = "nat \<times> real \<times> nat \<times> real"
type_synonym pool_put = "nat \<times> real"
type_synonym recv_completion = "int \<times> nat \<times> nat \<times> nat \<times> real \<times> real \<times> bool"
type_synonym send_stall = "real \<times> real \<times> nat \<times> nat \<times> nat"
type_synonym nixl_send = "int \<times> nat \<times> nat \<times> nat \<times> nat \<times> real \<times> real \<times> real \<times> real \<times> real \<times> real"
type_synonym nixl_recv = "int \<times> nat \<times> nat \<times> nat \<times> real \<times> real \<times> real \<times> real \<times> real"
type_synonym send_size = "int \<times> nat \<times> nat \<times> nat \<times> real \<times> nat"

record adv_logger =
  lg_enabled :: bool
  lg_device :: nat
  lg_sample_rate :: real
  lg_moe_steps :: "moe_step list"
  lg_queuing :: "(nat \<times> nat, (real \<times> real) list) dict"
  lg_snapshots :: "snapshot list"
  lg_puts :: "put list"
  lg_pool_puts :: "pool_put list"
  lg_recvs :: "recv_completion list"
  lg_stalls :: "send_stall list"
  lg_nixl_sends :: "nixl_send list"
  lg_nixl_recvs :: "nixl_recv list"
  lg_sends :: "send_size list"

text \<open>A disabled logger has no lists at all; every method returns before it would use one.\<close>

definition logger_init :: "bool \<Rightarrow> nat \<Rightarrow> real \<Rightarrow> adv_logger" where
  "logger_init enabled device rate =
     \<lparr>lg_enabled = enabled, lg_device = device, lg_sample_rate = rate, lg_moe_steps = [],
      lg_queuing = [], lg_snapshots = [], lg_puts = [], lg_pool_puts = [], lg_recvs = [],
      lg_stalls = [], lg_nixl_sends = [], lg_nixl_recvs = [], lg_sends = []\<rparr>"

text \<open>\<open>r\<close> is the value \<open>random.random()\<close> draws.\<close>

definition should_sample :: "real \<Rightarrow> adv_logger \<Rightarrow> bool" where
  "should_sample r lg \<longleftrightarrow> lg_enabled lg \<and> r < lg_sample_rate lg"

definition when_enabled :: "(adv_logger \<Rightarrow> adv_logger) \<Rightarrow> adv_logger \<Rightarrow> adv_logger" where
  "when_enabled f lg = (if \<not> lg_enabled lg then lg else f lg)"

definition log_moe_step :: "nat \<Rightarrow> real \<Rightarrow> real \<Rightarrow> adv_logger \<Rightarrow> adv_logger" where
  "log_moe_step bs ms now = when_enabled (\<lambda>lg. lg\<lparr>lg_moe_steps := lg_moe_steps lg @ [(bs, ms, now)]\<rparr>)"

text \<open>The delays are a \<open>defaultdict(list)\<close>.\<close>

definition log_queuing_delay :: "nat \<Rightarrow> nat \<Rightarrow> real \<Rightarrow> real \<Rightarrow> adv_logger \<Rightarrow> adv_logger" where
  "log_queuing_delay layer expert ms ts = when_enabled (\<lambda>lg. lg\<lparr>lg_queuing :=
     AList.update (layer, expert) (d_get_or (lg_queuing lg) (layer, expert) [] @ [(ms, ts)])
       (lg_queuing lg)\<rparr>)"

definition log_queue_snapshot :: "real \<Rightarrow> int \<Rightarrow> nat list \<Rightarrow> adv_logger \<Rightarrow> adv_logger" where
  "log_queue_snapshot ts layer depths =
     when_enabled (\<lambda>lg. lg\<lparr>lg_snapshots := lg_snapshots lg @ [(ts, layer, depths)]\<rparr>)"

text \<open>\<open>timestamp_s or time.time()\<close>: zero means now.\<close>

definition or_now :: "real \<Rightarrow> real \<Rightarrow> real" where
  "or_now ts now = (if ts = 0 then now else ts)"

definition log_dispatcher_put :: "nat \<Rightarrow> real \<Rightarrow> nat \<Rightarrow> real \<Rightarrow> real \<Rightarrow> adv_logger \<Rightarrow> adv_logger" where
  "log_dispatcher_put n ms layer ts now =
     when_enabled (\<lambda>lg. lg\<lparr>lg_puts := lg_puts lg @ [(n, ms, layer, or_now ts now)]\<rparr>)"

definition log_pool_put :: "nat \<Rightarrow> real \<Rightarrow> real \<Rightarrow> adv_logger \<Rightarrow> adv_logger" where
  "log_pool_put n ts now =
     when_enabled (\<lambda>lg. lg\<lparr>lg_pool_puts := lg_pool_puts lg @ [(n, or_now ts now)]\<rparr>)"

definition log_recv_completion :: "recv_completion \<Rightarrow> adv_logger \<Rightarrow> adv_logger" where
  "log_recv_completion r = when_enabled (\<lambda>lg. lg\<lparr>lg_recvs := lg_recvs lg @ [r]\<rparr>)"

definition log_pending_send_stall :: "send_stall \<Rightarrow> adv_logger \<Rightarrow> adv_logger" where
  "log_pending_send_stall r = when_enabled (\<lambda>lg. lg\<lparr>lg_stalls := lg_stalls lg @ [r]\<rparr>)"

definition log_nixl_send_trace :: "nixl_send \<Rightarrow> adv_logger \<Rightarrow> adv_logger" where
  "log_nixl_send_trace r = when_enabled (\<lambda>lg. lg\<lparr>lg_nixl_sends := lg_nixl_sends lg @ [r]\<rparr>)"

definition log_nixl_recv_trace :: "nixl_recv \<Rightarrow> adv_logger \<Rightarrow> adv_logger" where
  "log_nixl_recv_trace r = when_enabled (\<lambda>lg. lg\<lparr>lg_nixl_recvs := lg_nixl_recvs lg @ [r]\<rparr>)"

definition log_dispatcher_send :: "send_size \<Rightarrow> adv_logger \<Rightarrow> adv_logger" where
  "log_dispatcher_send r = when_enabled (\<lambda>lg. lg\<lparr>lg_sends := lg_sends lg @ [r]\<rparr>)"

definition logger_reset :: "adv_logger \<Rightarrow> adv_logger" where
  "logger_reset = when_enabled (\<lambda>lg. logger_init True (lg_device lg) (lg_sample_rate lg))"

section \<open>Reports\<close>

definition jnat :: "nat \<Rightarrow> json" where
  "jnat n = JInt (int n)"

text \<open>The fields of each table, in the order of the columns.\<close>

definition moe_fields :: "(string \<times> (moe_step \<Rightarrow> json)) list" where
  "moe_fields = [(''batch_sizes'', \<lambda>(b, m, t). jnat b), (''execution_times_ms'', \<lambda>(b, m, t). JNum m),
     (''timestamps_s'', \<lambda>(b, m, t). JNum t)]"

definition snapshot_fields :: "(string \<times> (snapshot \<Rightarrow> json)) list" where
  "snapshot_fields = [(''timestamps_s'', \<lambda>(t, l, d). JNum t), (''scheduled_layer_ids'', \<lambda>(t, l, d). JInt l),
     (''layer_depths'', \<lambda>(t, l, d). JList (map jnat d))]"

definition put_fields :: "(string \<times> (put \<Rightarrow> json)) list" where
  "put_fields = [(''num_tokens'', \<lambda>(n, m, l, t). jnat n), (''latencies_ms'', \<lambda>(n, m, l, t). JNum m),
     (''layer_ids'', \<lambda>(n, m, l, t). jnat l), (''timestamps_s'', \<lambda>(n, m, l, t). JNum t)]"

definition pool_put_fields :: "(string \<times> (pool_put \<Rightarrow> json)) list" where
  "pool_put_fields = [(''num_tokens'', \<lambda>(n, t). jnat n), (''timestamps_s'', \<lambda>(n, t). JNum t)]"

definition recv_fields :: "(string \<times> (recv_completion \<Rightarrow> json)) list" where
  "recv_fields = [(''peer_ids'', \<lambda>(p, l, n, b, t, u, x). JInt p), (''layer_ids'', \<lambda>(p, l, n, b, t, u, x). jnat l),
     (''num_tokens'', \<lambda>(p, l, n, b, t, u, x). jnat n), (''num_bytes'', \<lambda>(p, l, n, b, t, u, x). jnat b),
     (''posted_timestamps_s'', \<lambda>(p, l, n, b, t, u, x). JNum t),
     (''completed_timestamps_s'', \<lambda>(p, l, n, b, t, u, x). JNum u),
     (''is_local'', \<lambda>(p, l, n, b, t, u, x). JBool x)]"

definition stall_fields :: "(string \<times> (send_stall \<Rightarrow> json)) list" where
  "stall_fields = [(''start_timestamps_s'', \<lambda>(t, u, b, m, y). JNum t), (''end_timestamps_s'', \<lambda>(t, u, b, m, y). JNum u),
     (''pending_before'', \<lambda>(t, u, b, m, y). jnat b), (''max_pending'', \<lambda>(t, u, b, m, y). jnat m),
     (''yield_counts'', \<lambda>(t, u, b, m, y). jnat y)]"

definition nixl_send_fields :: "(string \<times> (nixl_send \<Rightarrow> json)) list" where
  "nixl_send_fields =
     [(''peer_ids'', \<lambda>(p, q, s, b, i, t, d1, d2, d3, d4, d5). JInt p),
      (''seqs'', \<lambda>(p, q, s, b, i, t, d1, d2, d3, d4, d5). jnat q),
      (''slot_ids'', \<lambda>(p, q, s, b, i, t, d1, d2, d3, d4, d5). jnat s),
      (''bytes'', \<lambda>(p, q, s, b, i, t, d1, d2, d3, d4, d5). jnat b),
      (''spin_iters'', \<lambda>(p, q, s, b, i, t, d1, d2, d3, d4, d5). jnat i),
      (''t_start_s'', \<lambda>(p, q, s, b, i, t, d1, d2, d3, d4, d5). JNum t),
      (''dt_d2d_sync_s'', \<lambda>(p, q, s, b, i, t, d1, d2, d3, d4, d5). JNum d1),
      (''dt_post_create_s'', \<lambda>(p, q, s, b, i, t, d1, d2, d3, d4, d5). JNum d2),
      (''dt_post_other_s'', \<lambda>(p, q, s, b, i, t, d1, d2, d3, d4, d5). JNum d3),
      (''dt_xfer_wait_s'', \<lambda>(p, q, s, b, i, t, d1, d2, d3, d4, d5). JNum d4),
      (''dt_total_s'', \<lambda>(p, q, s, b, i, t, d1, d2, d3, d4, d5). JNum d5)]"

definition nixl_recv_fields :: "(string \<times> (nixl_recv \<Rightarrow> json)) list" where
  "nixl_recv_fields =
     [(''peer_ids'', \<lambda>(p, q, s, b, t, d1, d2, d3, d4). JInt p),
      (''seqs'', \<lambda>(p, q, s, b, t, d1, d2, d3, d4). jnat q),
      (''slot_ids'', \<lambda>(p, q, s, b, t, d1, d2, d3, d4). jnat s),
      (''bytes'', \<lambda>(p, q, s, b, t, d1, d2, d3, d4). jnat b),
      (''t_start_s'', \<lambda>(p, q, s, b, t, d1, d2, d3, d4). JNum t),
      (''dt_meta_to_ready_s'', \<lambda>(p, q, s, b, t, d1, d2, d3, d4). JNum d1),
      (''dt_d2d_s'', \<lambda>(p, q, s, b, t, d1, d2, d3, d4). JNum d2),
      (''dt_to_credit_s'', \<lambda>(p, q, s, b, t, d1, d2, d3, d4). JNum d3),
      (''dt_total_s'', \<lambda>(p, q, s, b, t, d1, d2, d3, d4). JNum d4)]"

definition send_fields :: "(string \<times> (send_size \<Rightarrow> json)) list" where
  "send_fields = [(''peer_cids'', \<lambda>(p, l, n, b, t, x). JInt p), (''layer_ids'', \<lambda>(p, l, n, b, t, x). jnat l),
     (''num_tokens'', \<lambda>(p, l, n, b, t, x). jnat n), (''num_bytes'', \<lambda>(p, l, n, b, t, x). jnat b),
     (''ts_s'', \<lambda>(p, l, n, b, t, x). JNum t), (''transport'', \<lambda>(p, l, n, b, t, x). jnat x)]"

definition queue_entry :: "nat \<Rightarrow> nat \<Rightarrow> (real \<times> real) list \<Rightarrow> json" where
  "queue_entry layer expert entries =
     (let delays = map fst entries in
      JObj [(''layer_id'', jnat layer), (''expert_id'', jnat expert), (''delays_ms'', JList (map JNum delays)),
            (''timestamps_s'', JList (map (JNum \<circ> snd) entries)),
            (''mean_ms'', JNum (if delays = [] then 0 else sum_list delays / real (length delays))),
            (''count'', jnat (length delays))])"

text \<open>\<open>queuing_data[key] = ...\<close> for every key of the dictionary.\<close>

definition queuing_json :: "(nat \<times> nat, (real \<times> real) list) dict \<Rightarrow> json" where
  "queuing_json q = JObj (fold (\<lambda>((l, e), entries). AList.update (queue_key l e) (queue_entry l e entries)) q [])"

definition get_data :: "adv_logger \<Rightarrow> json option" where
  "get_data lg =
     (if \<not> lg_enabled lg then None
      else Some (JObj
        [(''device_id'', jnat (lg_device lg)),
         (''moe_steps'', json_columns moe_fields (lg_moe_steps lg)),
         (''queuing_delays'', queuing_json (lg_queuing lg)),
         (''queue_snapshots'', json_columns snapshot_fields (lg_snapshots lg)),
         (''dispatcher_puts'', json_columns put_fields (lg_puts lg)),
         (''pool_puts'', json_columns pool_put_fields (lg_pool_puts lg)),
         (''recv_completions'', json_columns recv_fields (lg_recvs lg)),
         (''pending_send_stalls'', json_columns stall_fields (lg_stalls lg)),
         (''nixl_send_traces'', json_columns nixl_send_fields (lg_nixl_sends lg)),
         (''nixl_recv_traces'', json_columns nixl_recv_fields (lg_nixl_recvs lg))]))"

definition path_join :: "string \<Rightarrow> string \<Rightarrow> string" where
  "path_join d x = (if d = '''' \<or> last d = CHR ''/'' then d @ x else d @ ''/'' @ x)"

text \<open>The directory and the files that \<open>dump\<close> writes, in the order it writes them.\<close>

definition logger_dump :: "string \<Rightarrow> string \<Rightarrow> adv_logger \<Rightarrow> (string \<times> (string \<times> json) list) option" where
  "logger_dump out_dir suffix lg =
     (if \<not> lg_enabled lg then None
      else let file = (\<lambda>name. name @ suffix @ ''.json'') in
      Some (path_join out_dir (''device_'' @ nat_str (lg_device lg)),
        [(file ''moe_steps'', json_columns moe_fields (lg_moe_steps lg)),
         (file ''queuing_delays'', queuing_json (lg_queuing lg)),
         (file ''queue_snapshots'', json_columns snapshot_fields (lg_snapshots lg)),
         (file ''dispatcher_puts'', json_columns put_fields (lg_puts lg)),
         (file ''pool_puts'', json_columns pool_put_fields (lg_pool_puts lg)),
         (file ''recv_completions'', json_columns recv_fields (lg_recvs lg)),
         (file ''pending_send_stalls'', json_columns stall_fields (lg_stalls lg)),
         (file ''nixl_send_traces'', json_columns nixl_send_fields (lg_nixl_sends lg)),
         (file ''nixl_recv_traces'', json_columns nixl_recv_fields (lg_nixl_recvs lg)),
         (file ''dispatcher_sends'', json_columns send_fields (lg_sends lg))]))"

section \<open>The engine's telemetry\<close>

record step_info =
  si_start_ms :: real
  si_end_ms :: real
  si_batch_size :: int
  si_layer_id :: int
  si_internal_layer_id :: int
  si_pool_snapshot :: "(nat, int) dict"

text \<open>
  A pair of CUDA events is an id here: whether its end was reached and the time between the two
  are asked of the GPU.
\<close>

record telemetry =
  te_logger :: adv_logger
  te_pending :: "(nat \<times> nat) list"
  te_steps :: "step_info list"
  te_step_start :: real
  te_snapshot :: "int list"
  te_metric :: metric
  te_timer :: timers

definition telemetry_init :: "adv_logger \<Rightarrow> real \<Rightarrow> telemetry" where
  "telemetry_init lg now = \<lparr>te_logger = lg, te_pending = [], te_steps = [], te_step_start = now,
     te_snapshot = [], te_metric = metric_init, te_timer = Map.empty\<rparr>"

text \<open>The part of \<open>execute_batch_expert\<close> that samples: the event pair is queued behind the launch.\<close>

definition sample_execution :: "real \<Rightarrow> nat \<Rightarrow> nat \<Rightarrow> telemetry \<Rightarrow> telemetry" where
  "sample_execution r num_tokens evt t =
     (if should_sample r (te_logger t) then t\<lparr>te_pending := te_pending t @ [(num_tokens, evt)]\<rparr> else t)"

fun drain_events ::
  "(nat \<Rightarrow> bool) \<Rightarrow> (nat \<Rightarrow> real) \<Rightarrow> real \<Rightarrow> (nat \<times> nat) list \<Rightarrow> adv_logger \<Rightarrow> (nat \<times> nat) list \<times> adv_logger" where
  "drain_events query elapsed now [] lg = ([], lg)"
| "drain_events query elapsed now ((bsz, evt) # ps) lg =
     (if \<not> query evt then ((bsz, evt) # ps, lg)
      else drain_events query elapsed now ps (log_moe_step bsz (elapsed evt) now lg))"

definition drain_moe_events :: "(nat \<Rightarrow> bool) \<Rightarrow> (nat \<Rightarrow> real) \<Rightarrow> real \<Rightarrow> telemetry \<Rightarrow> telemetry" where
  "drain_moe_events query elapsed now t =
     (let (ps, lg) = drain_events query elapsed now (te_pending t) (te_logger t)
      in t\<lparr>te_pending := ps, te_logger := lg\<rparr>)"

text \<open>
  What the C++ side hands out when it is drained: nothing where the pool, the dispatcher, the
  extension module or one of its functions is missing.
\<close>

record transport_stats =
  ts_recvs :: "recv_completion list option"
  ts_dispatcher :: "(send_stall list \<times> send_size list option) option"
  ts_nixl :: "(nixl_send list option \<times> nixl_recv list option) option"

definition log_all :: "('a \<Rightarrow> adv_logger \<Rightarrow> adv_logger) \<Rightarrow> 'a list option \<Rightarrow> adv_logger \<Rightarrow> adv_logger" where
  "log_all f xs lg = (case xs of None \<Rightarrow> lg | Some xs \<Rightarrow> fold f xs lg)"

definition drain_transport_stats :: "transport_stats \<Rightarrow> telemetry \<Rightarrow> telemetry" where
  "drain_transport_stats ts t =
     (let lg = te_logger t in
      if \<not> lg_enabled lg then t
      else let lg = log_all log_recv_completion (ts_recvs ts) lg;
               lg = (case ts_dispatcher ts of
                       None \<Rightarrow> lg
                     | Some (stalls, sends) \<Rightarrow>
                         log_all log_dispatcher_send sends (fold log_pending_send_stall stalls lg));
               lg = (case ts_nixl ts of
                       None \<Rightarrow> lg
                     | Some (sends, recvs) \<Rightarrow>
                         log_all log_nixl_recv_trace recvs (log_all log_nixl_send_trace sends lg))
           in t\<lparr>te_logger := lg\<rparr>)"

text \<open>A trace of the pool is taken along with the batch only when logging and GDR copies are on.\<close>

definition schedule_batch_with_optional_trace ::
  "bool \<Rightarrow> bool \<Rightarrow> ('s \<Rightarrow> 'b \<times> 's) \<Rightarrow> ('s \<Rightarrow> ('b \<times> nat list) \<times> 's) \<Rightarrow> 's \<Rightarrow> ('b \<times> nat list option) \<times> 's" where
  "schedule_batch_with_optional_trace enabled gdr schedule schedule_trace s =
     (if \<not> enabled \<or> \<not> gdr then (let (b, s) = schedule s in ((b, None), s))
      else (let ((b, snap), s) = schedule_trace s in ((b, Some snap), s)))"

record sched_meta =
  sm_layer :: nat
  sm_is_expert :: bool
  sm_num_tokens :: nat
  sm_exp_ids :: "nat list"

text \<open>
  What the loop logs of a scheduled batch. The iteration order of \<open>set(meta.exp_ids)\<close> decides
  only in which order new queues enter the dictionary; here it is increasing.
\<close>

definition log_schedule ::
  "nat \<Rightarrow> nat list option \<Rightarrow> sched_meta \<Rightarrow> real \<Rightarrow> real \<Rightarrow> real \<Rightarrow> telemetry \<Rightarrow> telemetry" where
  "log_schedule total_layers trace m r now schedule_ms t =
     (let lg = te_logger t;
          ts = (if lg_enabled lg then now else 0);
          lg = (case trace of
                  Some snap \<Rightarrow> if \<not> lg_enabled lg then lg else
                    log_queue_snapshot ts (int (sm_layer m) +
                      (if sm_is_expert m then int (length snap) - int total_layers else 0)) snap lg
                | None \<Rightarrow> lg);
          lg = (if should_sample r lg \<and> sm_is_expert m then
                  fold (\<lambda>e. log_queuing_delay (sm_layer m) e (schedule_ms / real (max 1 (sm_num_tokens m))) ts)
                    (sorted_list_of_set (set (sm_exp_ids m))) lg
                else lg)
      in t\<lparr>te_logger := lg\<rparr>)"

definition stats_pre_process :: "int list \<Rightarrow> real \<Rightarrow> telemetry \<Rightarrow> telemetry" where
  "stats_pre_process snapshot now_ms t = t\<lparr>te_snapshot := snapshot, te_step_start := now_ms\<rparr>"

definition record_empty_step :: "bool \<Rightarrow> nat list \<Rightarrow> real \<Rightarrow> telemetry \<Rightarrow> telemetry" where
  "record_empty_step enable_trace layer_ids now_ms t =
     (if \<not> enable_trace then t
      else t\<lparr>te_steps := te_steps t @ [\<lparr>si_start_ms = te_step_start t, si_end_ms = now_ms,
             si_batch_size = 0, si_layer_id = -1, si_internal_layer_id = -1,
             si_pool_snapshot = fold (\<lambda>x. AList.update x 0) layer_ids []\<rparr>]\<rparr>)"

definition metric_update_timed :: "string \<Rightarrow> real option \<Rightarrow> metric \<Rightarrow> metric result" where
  "metric_update_timed name v m = bindR (not_None TypeError v) (\<lambda>v. metric_update name v m)"

definition timer_sum :: "string \<Rightarrow> string \<Rightarrow> timers \<Rightarrow> real option" where
  "timer_sum a b t = (case (timer_get a t, timer_get b t) of (Some x, Some y) \<Rightarrow> Some (x + y) | _ \<Rightarrow> None)"

definition update_timed_metrics :: "timers \<Rightarrow> metric \<Rightarrow> metric result" where
  "update_timed_metrics tm m =
     bindR (metric_update_timed ''t_postprocess'' (timer_get ''postprocess'' tm) m) (\<lambda>m.
     bindR (metric_update_timed ''t_preprocess'' (timer_get ''preprocess'' tm) m) (\<lambda>m.
     bindR (metric_update_timed ''t_execute'' (timer_sum ''execute'' ''stream_sync'' tm) m)
       (metric_update_timed ''t_schedule'' (timer_get ''schedule'' tm))))"

definition stats_post_process ::
  "bool \<Rightarrow> nat \<Rightarrow> bool \<Rightarrow> nat list \<Rightarrow> nat \<Rightarrow> nat \<Rightarrow> bool \<Rightarrow> nat \<Rightarrow> real \<Rightarrow> telemetry \<Rightarrow> telemetry result" where
  "stats_post_process has_attn top_k enable_trace layer_ids rows layer is_expert expert_id now_ms t =
     bindR (metric_update ''t_step'' (now_ms - te_step_start t) (te_metric t)) (\<lambda>m.
     let factor = (if has_attn then top_k else 1) in
     if factor = 0 then Inl ZeroDivisionError
     else let real_bs = rows div factor;
              waiting = filter (\<lambda>(i, s). s > 0) (enumerate 0 (te_snapshot t));
              tokens = sum_list (map snd waiting);
              batches = length waiting in
     bindR (if \<not> enable_trace then Inr (te_steps t)
            else if layer_ids = [] then Inl ZeroDivisionError
            else let groups = length (te_snapshot t) div length layer_ids;
                     executed = (if \<not> is_expert then int layer
                                 else if groups > 1 then (int layer - 1) * int groups + int (expert_id mod groups)
                                 else int layer - 1)
                 in Inr (te_steps t @ [\<lparr>si_start_ms = te_step_start t, si_end_ms = now_ms,
                       si_batch_size = int real_bs, si_layer_id = executed, si_internal_layer_id = executed,
                       si_pool_snapshot = waiting\<rparr>])) (\<lambda>steps.
     bindR (if batches = 0 then Inr m
            else bindR (update_timed_metrics (te_timer t) m) (\<lambda>m.
                 bindR (metric_update ''effective_tokens'' (real real_bs) m) (\<lambda>m.
                 bindR (metric_update ''queueing_tokens'' (of_int tokens - real real_bs) m)
                   (metric_update ''queueing_batches'' (real batches - 1))))) (\<lambda>m.
       Inr (t\<lparr>te_metric := m, te_steps := steps\<rparr>))))"

text \<open>
  Collecting: after a synchronisation every event of the GPU has ended, so the pending timings
  are all drained, then the transport, then the data are taken.
\<close>

definition flush_logs :: "(nat \<Rightarrow> real) \<Rightarrow> real \<Rightarrow> transport_stats \<Rightarrow> telemetry \<Rightarrow> telemetry" where
  "flush_logs elapsed now ts t =
     drain_transport_stats ts
       (if te_pending t = [] then t else drain_moe_events (\<lambda>_. True) elapsed now t)"

definition get_advanced_log_data ::
  "(nat \<Rightarrow> real) \<Rightarrow> real \<Rightarrow> transport_stats \<Rightarrow> telemetry \<Rightarrow> json option \<times> telemetry" where
  "get_advanced_log_data elapsed now ts t =
     (let t = flush_logs elapsed now ts t in (get_data (te_logger t), t))"

definition dump_advanced_logs ::
  "string \<Rightarrow> string \<Rightarrow> (nat \<Rightarrow> real) \<Rightarrow> real \<Rightarrow> transport_stats \<Rightarrow> telemetry \<Rightarrow>
   (string \<times> (string \<times> json) list) option \<times> telemetry" where
  "dump_advanced_logs out_dir suffix elapsed now ts t =
     (let t = flush_logs elapsed now ts t in (logger_dump out_dir suffix (te_logger t), t))"

text \<open>\<open>Engine.reset\<close> clears the statistics; the logger and the pending timings stay.\<close>

definition reset_stats :: "telemetry \<Rightarrow> telemetry" where
  "reset_stats t = t\<lparr>te_metric := metric_init, te_timer := Map.empty, te_steps := []\<rparr>"

section \<open>Numbers and keys\<close>

lemma of_char_digit: "d < 10 \<Longrightarrow> of_char (digit d) = (48 + d :: nat)"
  by (simp add: digit_def)

lemma nat_str_digits: "c \<in> set (nat_str n) \<Longrightarrow> 48 \<le> (of_char c :: nat) \<and> (of_char c :: nat) < 58"
proof (induction n rule: nat_str.induct)
  case (1 n)
  show ?case
  proof (cases "n < 10")
    case True
    then show ?thesis using 1 by (subst (asm) (2) nat_str.simps) (simp add: of_char_digit)
  next
    case False
    then have "c \<in> set (nat_str (n div 10)) \<or> c = digit (n mod 10)"
      using 1 by (subst (asm) (2) nat_str.simps) auto
    then show ?thesis using 1 False by (auto simp: of_char_digit)
  qed
qed

lemma nat_str_inverse: "foldl (\<lambda>v c. v * 10 + (of_char c - 48)) 0 (nat_str n) = n"
proof (induction n rule: nat_str.induct)
  case (1 n)
  then show ?case by (cases "n < 10") (simp_all add: nat_str.simps [of n] of_char_digit)
qed

lemma nat_str_inj: "nat_str n = nat_str m \<Longrightarrow> n = m"
  by (metis nat_str_inverse)

text \<open>A key is split at its underscore: different queues have different keys.\<close>

lemma queue_key_inj: "queue_key l e = queue_key l' e' \<longleftrightarrow> l = l' \<and> e = e'"
proof
  assume eq: "queue_key l e = queue_key l' e'"
  have none: "CHR ''_'' \<notin> set (nat_str n)" for n
  proof
    assume "CHR ''_'' \<in> set (nat_str n)"
    from nat_str_digits [OF this] show False by simp
  qed
  have t: "takeWhile (\<lambda>c. c \<noteq> CHR ''_'') (queue_key l e) = nat_str l" for l e
    using none [of l] by (simp add: queue_key_def takeWhile_append)
  have d: "drop (Suc (length (nat_str l))) (queue_key l e) = nat_str e" for l e
    by (simp add: queue_key_def)
  have "nat_str l = nat_str l'" using t eq by metis
  moreover from this have "nat_str e = nat_str e'" using d eq by metis
  ultimately show "l = l' \<and> e = e'" using nat_str_inj by blast
qed simp

section \<open>Reading a report\<close>

definition json_field :: "json \<Rightarrow> string \<Rightarrow> json option" where
  "json_field j k = (case j of JObj fs \<Rightarrow> map_of fs k | _ \<Rightarrow> None)"

definition row_json :: "(string \<times> ('r \<Rightarrow> json)) list \<Rightarrow> 'r \<Rightarrow> json list" where
  "row_json fs r = map (\<lambda>(k, f). f r) fs"

text \<open>The rows of a table written by columns: its transpose.\<close>

definition json_rows :: "json \<Rightarrow> json list list" where
  "json_rows j =
     (case j of
        JObj cols \<Rightarrow>
          (let ls = map (\<lambda>(k, c). case c of JList l \<Rightarrow> l | _ \<Rightarrow> []) cols
           in map (\<lambda>i. map (\<lambda>l. l ! i) ls) [0..<length (hd ls)])
      | _ \<Rightarrow> [])"

lemma json_rows_columns:
  assumes "fs \<noteq> []"
  shows "json_rows (json_columns fs rows) = map (row_json fs) rows"
proof -
  have ls: "map (\<lambda>(k, c). case c of JList l \<Rightarrow> l | _ \<Rightarrow> []) (map (\<lambda>(k, f). (k, JList (map f rows))) fs) =
      map (\<lambda>(k, f). map f rows) fs" by auto
  have "length (hd (map (\<lambda>(k, f). map f rows) fs)) = length rows"
    using assms by (cases fs) auto
  then show ?thesis
    unfolding json_rows_def json_columns_def json.case Let_def ls
    by (intro nth_equalityI) (auto simp: row_json_def split: prod.splits)
qed

lemma queuing_json_field:
  assumes "distinct (map fst q)"
  shows "json_field (queuing_json q) (queue_key l e) = map_option (queue_entry l e) (map_of q (l, e))"
proof -
  have "map_of (fold (\<lambda>((l, e), entries). AList.update (queue_key l e) (queue_entry l e entries)) q acc)
      (queue_key l e) = (case map_of q (l, e) of None \<Rightarrow> map_of acc (queue_key l e)
        | Some x \<Rightarrow> Some (queue_entry l e x))" for acc
    using assms
  proof (induction q arbitrary: acc)
    case (Cons p q)
    obtain l' e' x where p: "p = ((l', e'), x)" by (metis prod.exhaust)
    have m: "map_of (AList.update (queue_key l' e') y acc) (queue_key l e) =
        (if l = l' \<and> e = e' then Some y else map_of acc (queue_key l e))" for y
      by (simp add: d_get_update queue_key_inj)
    have "l = l' \<Longrightarrow> e = e' \<Longrightarrow> map_of q (l, e) = None"
      using Cons.prems p by (metis distinct.simps(2) fst_conv list.simps(9) map_of_eq_None_iff set_map)
    then show ?case using Cons.IH [of "AList.update (queue_key l' e') (queue_entry l' e' x) acc"] Cons.prems
      by (auto simp: p m d_get_update queue_key_inj split: option.splits)
  qed simp
  from this [of "[]"] show ?thesis
    by (cases "map_of q (l, e)") (simp_all add: json_field_def queuing_json_def)
qed

section \<open>What a worker collects\<close>

text \<open>What happens to a worker's telemetry while it runs; \<open>elapsed\<close> are the times of the GPU.\<close>

datatype tele_event =
    Executed real nat nat
  | MoeDrained "nat \<Rightarrow> bool" real
  | TransportDrained transport_stats
  | BatchScheduled "nat list option" sched_meta real real real
  | PoolPut nat real real

definition tele_step :: "(nat \<Rightarrow> real) \<Rightarrow> nat \<Rightarrow> tele_event \<Rightarrow> telemetry \<Rightarrow> telemetry" where
  "tele_step elapsed total_layers ev t =
     (case ev of
        Executed r n e \<Rightarrow> sample_execution r n e t
      | MoeDrained query now \<Rightarrow> drain_moe_events query elapsed now t
      | TransportDrained ts \<Rightarrow> drain_transport_stats ts t
      | BatchScheduled trace m r now ms \<Rightarrow> log_schedule total_layers trace m r now ms t
      | PoolPut n ts now \<Rightarrow> t\<lparr>te_logger := log_pool_put n ts now (te_logger t)\<rparr>)"

text \<open>What each event should leave in the log.\<close>

fun ev_timings :: "real \<Rightarrow> tele_event \<Rightarrow> (nat \<times> nat) list" where
  "ev_timings rate (Executed r n e) = (if r < rate then [(n, e)] else [])"
| "ev_timings rate _ = []"

fun ev_recvs :: "tele_event \<Rightarrow> recv_completion list" where
  "ev_recvs (TransportDrained ts) = (case ts_recvs ts of None \<Rightarrow> [] | Some rs \<Rightarrow> rs)"
| "ev_recvs _ = []"

fun ev_stalls :: "tele_event \<Rightarrow> send_stall list" where
  "ev_stalls (TransportDrained ts) = (case ts_dispatcher ts of None \<Rightarrow> [] | Some (ss, _) \<Rightarrow> ss)"
| "ev_stalls _ = []"

fun ev_sends :: "tele_event \<Rightarrow> send_size list" where
  "ev_sends (TransportDrained ts) = (case ts_dispatcher ts of Some (_, Some ss) \<Rightarrow> ss | _ \<Rightarrow> [])"
| "ev_sends _ = []"

fun ev_nixl_sends :: "tele_event \<Rightarrow> nixl_send list" where
  "ev_nixl_sends (TransportDrained ts) = (case ts_nixl ts of Some (Some ss, _) \<Rightarrow> ss | _ \<Rightarrow> [])"
| "ev_nixl_sends _ = []"

fun ev_nixl_recvs :: "tele_event \<Rightarrow> nixl_recv list" where
  "ev_nixl_recvs (TransportDrained ts) = (case ts_nixl ts of Some (_, Some rs) \<Rightarrow> rs | _ \<Rightarrow> [])"
| "ev_nixl_recvs _ = []"

fun ev_snapshots :: "nat \<Rightarrow> tele_event \<Rightarrow> snapshot list" where
  "ev_snapshots nl (BatchScheduled (Some snap) m r now ms) =
     [(now, int (sm_layer m) + (if sm_is_expert m then int (length snap) - int nl else 0), snap)]"
| "ev_snapshots nl _ = []"

fun ev_pool_puts :: "tele_event \<Rightarrow> pool_put list" where
  "ev_pool_puts (PoolPut n ts now) = [(n, or_now ts now)]"
| "ev_pool_puts _ = []"

fun ev_delays :: "real \<Rightarrow> nat \<Rightarrow> nat \<Rightarrow> tele_event \<Rightarrow> (real \<times> real) list" where
  "ev_delays rate l e (BatchScheduled trace m r now ms) =
     (if r < rate \<and> sm_is_expert m \<and> sm_layer m = l \<and> e \<in> set (sm_exp_ids m)
      then [(ms / real (max 1 (sm_num_tokens m)), now)] else [])"
| "ev_delays rate l e _ = []"

lemma fold_collects:
  assumes "\<And>x s. P s \<Longrightarrow> P (f x s) \<and> proj (f x s) = proj s @ new x" and "P s"
  shows "P (fold f xs s) \<and> proj (fold f xs s) = proj s @ concat (map new xs)"
  using assms(2)
proof (induction xs arbitrary: s)
  case (Cons x xs)
  then show ?case using assms(1) [of s x] Cons.IH [of "f x s"] by simp
qed simp

lemmas log_defs = log_moe_step_def log_queuing_delay_def log_queue_snapshot_def log_dispatcher_put_def
  log_pool_put_def log_recv_completion_def log_pending_send_stall_def log_nixl_send_trace_def
  log_nixl_recv_trace_def log_dispatcher_send_def when_enabled_def

lemma fold_log:
  assumes "lg_enabled lg"
  shows "fold log_recv_completion rs lg = lg\<lparr>lg_recvs := lg_recvs lg @ rs\<rparr>"
    and "fold log_pending_send_stall ss lg = lg\<lparr>lg_stalls := lg_stalls lg @ ss\<rparr>"
    and "fold log_dispatcher_send ds lg = lg\<lparr>lg_sends := lg_sends lg @ ds\<rparr>"
    and "fold log_nixl_send_trace ns lg = lg\<lparr>lg_nixl_sends := lg_nixl_sends lg @ ns\<rparr>"
    and "fold log_nixl_recv_trace nr lg = lg\<lparr>lg_nixl_recvs := lg_nixl_recvs lg @ nr\<rparr>"
proof -
  show "fold log_recv_completion rs lg = lg\<lparr>lg_recvs := lg_recvs lg @ rs\<rparr>"
    using assms by (induction rs arbitrary: lg) (simp_all add: log_defs)
  show "fold log_pending_send_stall ss lg = lg\<lparr>lg_stalls := lg_stalls lg @ ss\<rparr>"
    using assms by (induction ss arbitrary: lg) (simp_all add: log_defs)
  show "fold log_dispatcher_send ds lg = lg\<lparr>lg_sends := lg_sends lg @ ds\<rparr>"
    using assms by (induction ds arbitrary: lg) (simp_all add: log_defs)
  show "fold log_nixl_send_trace ns lg = lg\<lparr>lg_nixl_sends := lg_nixl_sends lg @ ns\<rparr>"
    using assms by (induction ns arbitrary: lg) (simp_all add: log_defs)
  show "fold log_nixl_recv_trace nr lg = lg\<lparr>lg_nixl_recvs := lg_nixl_recvs lg @ nr\<rparr>"
    using assms by (induction nr arbitrary: lg) (simp_all add: log_defs)
qed

text \<open>Draining moves the finished prefix of the pending timings into the log.\<close>

lemma drain_events_log:
  assumes "lg_enabled lg" and "drain_events query elapsed now ps lg = (ps', lg')"
  shows "\<exists>done. ps = done @ ps' \<and> (\<forall>p \<in> set done. query (snd p)) \<and>
    lg' = lg\<lparr>lg_moe_steps := lg_moe_steps lg @ map (\<lambda>(b, e). (b, elapsed e, now)) done\<rparr> \<and>
    (ps' \<noteq> [] \<longrightarrow> \<not> query (snd (hd ps')))"
  using assms
proof (induction query elapsed now ps lg rule: drain_events.induct)
  case (2 query elapsed now bsz evt ps lg)
  show ?case
  proof (cases "query evt")
    case True
    let ?lg = "log_moe_step bsz (elapsed evt) now lg"
    have "lg_enabled ?lg" using "2.prems"(1) by (simp add: log_defs)
    moreover have "drain_events query elapsed now ps ?lg = (ps', lg')" using "2.prems"(2) True by simp
    ultimately obtain d where d: "ps = d @ ps'" "\<forall>p \<in> set d. query (snd p)"
        "lg' = ?lg\<lparr>lg_moe_steps := lg_moe_steps ?lg @ map (\<lambda>(b, e). (b, elapsed e, now)) d\<rparr>"
        "ps' \<noteq> [] \<longrightarrow> \<not> query (snd (hd ps'))"
      using "2.IH" True by blast
    then show ?thesis using True "2.prems"(1)
      by (intro exI [of _ "(bsz, evt) # d"]) (simp add: log_defs)
  next
    case False
    then show ?thesis using "2.prems" by auto
  qed
qed simp

definition queues_ok :: "(nat \<times> nat, (real \<times> real) list) dict \<Rightarrow> bool" where
  "queues_ok q \<longleftrightarrow> distinct (map fst q) \<and> (\<forall>k. map_of q k \<noteq> Some [])"

definition logger_ok :: "real \<Rightarrow> telemetry \<Rightarrow> bool" where
  "logger_ok rate t \<longleftrightarrow> lg_enabled (te_logger t) \<and> lg_sample_rate (te_logger t) = rate \<and>
     queues_ok (lg_queuing (te_logger t))"

lemma queues_ok_append:
  "queues_ok q \<Longrightarrow> queues_ok (AList.update k (d_get_or q k [] @ [x]) q)"
  by (simp add: queues_ok_def distinct_update d_get_update)

lemma fold_delays:
  assumes "lg_enabled lg" and "queues_ok (lg_queuing lg)" and "distinct es"
  shows "\<exists>q. fold (\<lambda>e. log_queuing_delay l e d ts) es lg = lg\<lparr>lg_queuing := q\<rparr> \<and> queues_ok q \<and>
    (\<forall>l' e'. d_get_or q (l', e') [] = d_get_or (lg_queuing lg) (l', e') [] @
       (if l' = l \<and> e' \<in> set es then [(d, ts)] else []))"
  using assms
proof (induction es arbitrary: lg)
  case Nil
  then show ?case by (intro exI [of _ "lg_queuing lg"]) simp
next
  case (Cons e es)
  define q1 where "q1 = AList.update (l, e) (d_get_or (lg_queuing lg) (l, e) [] @ [(d, ts)]) (lg_queuing lg)"
  have one: "log_queuing_delay l e d ts lg = lg\<lparr>lg_queuing := q1\<rparr>"
    using Cons.prems(1) by (simp add: log_defs q1_def)
  have "queues_ok q1" unfolding q1_def by (rule queues_ok_append [OF Cons.prems(2)])
  then obtain q where q: "fold (\<lambda>e. log_queuing_delay l e d ts) es (lg\<lparr>lg_queuing := q1\<rparr>) = lg\<lparr>lg_queuing := q\<rparr>"
      "queues_ok q" "\<forall>l' e'. d_get_or q (l', e') [] = d_get_or q1 (l', e') [] @
       (if l' = l \<and> e' \<in> set es then [(d, ts)] else [])"
    using Cons.IH [of "lg\<lparr>lg_queuing := q1\<rparr>"] Cons.prems by auto
  have "d_get_or q1 (l', e') [] = d_get_or (lg_queuing lg) (l', e') [] @
      (if l' = l \<and> e' = e then [(d, ts)] else [])" for l' e'
    by (simp add: q1_def d_get_or_update)
  then show ?case using q Cons.prems(3) by (intro exI [of _ q]) (auto simp: one)
qed

lemma log_schedule_logs:
  assumes "logger_ok rate t"
  shows "\<exists>q. log_schedule nl trace m r now ms t = t\<lparr>te_logger := (te_logger t)\<lparr>
      lg_snapshots := lg_snapshots (te_logger t) @ ev_snapshots nl (BatchScheduled trace m r now ms),
      lg_queuing := q\<rparr>\<rparr> \<and> queues_ok q \<and>
    (\<forall>l e. d_get_or q (l, e) [] = d_get_or (lg_queuing (te_logger t)) (l, e) [] @
       ev_delays rate l e (BatchScheduled trace m r now ms))"
proof -
  let ?lg = "te_logger t"
  note ok = assms [unfolded logger_ok_def]
  define lg1 where "lg1 = ?lg\<lparr>lg_snapshots := lg_snapshots ?lg @ ev_snapshots nl (BatchScheduled trace m r now ms)\<rparr>"
  have one: "(case trace of Some snap \<Rightarrow> if \<not> lg_enabled ?lg then ?lg else
        log_queue_snapshot now (int (sm_layer m) +
          (if sm_is_expert m then int (length snap) - int nl else 0)) snap ?lg | None \<Rightarrow> ?lg) = lg1"
    using ok by (cases trace) (simp_all add: log_defs lg1_def)
  have ok1: "lg_enabled lg1" "lg_sample_rate lg1 = rate" "queues_ok (lg_queuing lg1)"
    "lg_queuing lg1 = lg_queuing ?lg" using ok by (simp_all add: lg1_def)
  let ?es = "sorted_list_of_set (set (sm_exp_ids m))"
  let ?d = "ms / real (max 1 (sm_num_tokens m))"
  show ?thesis
  proof (cases "r < rate \<and> sm_is_expert m")
    case True
    obtain q where q: "fold (\<lambda>e. log_queuing_delay (sm_layer m) e ?d now) ?es lg1 = lg1\<lparr>lg_queuing := q\<rparr>"
        "queues_ok q" "\<forall>l' e'. d_get_or q (l', e') [] = d_get_or (lg_queuing lg1) (l', e') [] @
          (if l' = sm_layer m \<and> e' \<in> set ?es then [(?d, now)] else [])"
      using fold_delays [OF ok1(1,3), of ?es "sm_layer m" ?d now] by auto
    have "log_schedule nl trace m r now ms t = t\<lparr>te_logger := lg1\<lparr>lg_queuing := q\<rparr>\<rparr>"
      using True ok ok1 q(1) by (simp add: log_schedule_def one should_sample_def Let_def del: ev_snapshots.simps)
    then show ?thesis using q(2,3) ok1(4) True by (intro exI [of _ q]) (simp add: lg1_def)
  next
    case False
    then have "log_schedule nl trace m r now ms t = t\<lparr>te_logger := lg1\<rparr>"
      using ok ok1 by (auto simp: log_schedule_def one should_sample_def Let_def)
    then show ?thesis using False ok by (intro exI [of _ "lg_queuing ?lg"]) (auto simp: lg1_def)
  qed
qed

lemma drain_transport_logs:
  assumes "logger_ok rate t"
  shows "drain_transport_stats ts t = t\<lparr>te_logger := (te_logger t)\<lparr>
      lg_recvs := lg_recvs (te_logger t) @ ev_recvs (TransportDrained ts),
      lg_stalls := lg_stalls (te_logger t) @ ev_stalls (TransportDrained ts),
      lg_nixl_sends := lg_nixl_sends (te_logger t) @ ev_nixl_sends (TransportDrained ts),
      lg_nixl_recvs := lg_nixl_recvs (te_logger t) @ ev_nixl_recvs (TransportDrained ts),
      lg_sends := lg_sends (te_logger t) @ ev_sends (TransportDrained ts)\<rparr>\<rparr>"
  using assms
  by (simp add: drain_transport_stats_def logger_ok_def log_all_def fold_log Let_def split: option.split prod.split)

text \<open>Each projection of the log grows by what the events leave in it.\<close>

definition moe_timings :: "(nat \<Rightarrow> real) \<Rightarrow> telemetry \<Rightarrow> (nat \<times> real) list" where
  "moe_timings elapsed t = map (\<lambda>(b, m, _). (b, m)) (lg_moe_steps (te_logger t)) @
     map (\<lambda>(b, e). (b, elapsed e)) (te_pending t)"

lemma drain_moe_logs:
  assumes "logger_ok rate t"
  shows "\<exists>ms ps. drain_moe_events query elapsed now t =
      t\<lparr>te_pending := ps, te_logger := (te_logger t)\<lparr>lg_moe_steps := ms\<rparr>\<rparr> \<and>
    moe_timings elapsed (drain_moe_events query elapsed now t) = moe_timings elapsed t \<and>
    (ps \<noteq> [] \<longrightarrow> \<not> query (snd (hd ps)))"
proof -
  obtain ps lg where d: "drain_events query elapsed now (te_pending t) (te_logger t) = (ps, lg)" by fastforce
  from drain_events_log [OF _ d] assms obtain ds where ds: "te_pending t = ds @ ps"
      "lg = (te_logger t)\<lparr>lg_moe_steps := lg_moe_steps (te_logger t) @ map (\<lambda>(b, e). (b, elapsed e, now)) ds\<rparr>"
      "ps \<noteq> [] \<longrightarrow> \<not> query (snd (hd ps))"
    by (auto simp: logger_ok_def)
  have eq: "drain_moe_events query elapsed now t = t\<lparr>te_pending := ps, te_logger := lg\<rparr>"
    by (simp add: drain_moe_events_def d)
  have "moe_timings elapsed (t\<lparr>te_pending := ps, te_logger := lg\<rparr>) = moe_timings elapsed t"
    by (simp add: moe_timings_def ds comp_def case_prod_unfold)
  then show ?thesis using eq ds(2,3) by auto
qed

lemma tele_step_logs:
  assumes ok: "logger_ok rate t"
  shows "logger_ok rate (tele_step elapsed nl ev t) \<and>
    moe_timings elapsed (tele_step elapsed nl ev t) =
      moe_timings elapsed t @ map (\<lambda>(b, e). (b, elapsed e)) (ev_timings rate ev) \<and>
    lg_recvs (te_logger (tele_step elapsed nl ev t)) = lg_recvs (te_logger t) @ ev_recvs ev \<and>
    lg_stalls (te_logger (tele_step elapsed nl ev t)) = lg_stalls (te_logger t) @ ev_stalls ev \<and>
    lg_sends (te_logger (tele_step elapsed nl ev t)) = lg_sends (te_logger t) @ ev_sends ev \<and>
    lg_nixl_sends (te_logger (tele_step elapsed nl ev t)) = lg_nixl_sends (te_logger t) @ ev_nixl_sends ev \<and>
    lg_nixl_recvs (te_logger (tele_step elapsed nl ev t)) = lg_nixl_recvs (te_logger t) @ ev_nixl_recvs ev \<and>
    lg_snapshots (te_logger (tele_step elapsed nl ev t)) = lg_snapshots (te_logger t) @ ev_snapshots nl ev \<and>
    lg_pool_puts (te_logger (tele_step elapsed nl ev t)) = lg_pool_puts (te_logger t) @ ev_pool_puts ev \<and>
    (\<forall>l e. d_get_or (lg_queuing (te_logger (tele_step elapsed nl ev t))) (l, e) [] =
       d_get_or (lg_queuing (te_logger t)) (l, e) [] @ ev_delays rate l e ev)"
proof (cases ev)
  case (Executed r n e)
  then show ?thesis using ok
    by (simp add: tele_step_def sample_execution_def should_sample_def logger_ok_def moe_timings_def)
next
  case (MoeDrained query now)
  from drain_moe_logs [OF ok, of query elapsed now] obtain ms ps where
    "drain_moe_events query elapsed now t = t\<lparr>te_pending := ps, te_logger := (te_logger t)\<lparr>lg_moe_steps := ms\<rparr>\<rparr>"
    "moe_timings elapsed (drain_moe_events query elapsed now t) = moe_timings elapsed t" by blast
  then show ?thesis using ok by (simp add: MoeDrained tele_step_def logger_ok_def)
next
  case (TransportDrained ts)
  then show ?thesis using ok drain_transport_logs [OF ok, of ts]
    by (simp add: tele_step_def logger_ok_def moe_timings_def del: ev_recvs.simps ev_stalls.simps
        ev_sends.simps ev_nixl_sends.simps ev_nixl_recvs.simps)
next
  case (BatchScheduled trace m r now ms)
  from log_schedule_logs [OF ok, of nl trace m r now ms] obtain q where
    "log_schedule nl trace m r now ms t = t\<lparr>te_logger := (te_logger t)\<lparr>
      lg_snapshots := lg_snapshots (te_logger t) @ ev_snapshots nl (BatchScheduled trace m r now ms),
      lg_queuing := q\<rparr>\<rparr>" "queues_ok q"
    "\<forall>l e. d_get_or q (l, e) [] = d_get_or (lg_queuing (te_logger t)) (l, e) [] @
       ev_delays rate l e (BatchScheduled trace m r now ms)" by blast
  then show ?thesis using ok
    by (simp add: BatchScheduled tele_step_def logger_ok_def moe_timings_def
        del: ev_snapshots.simps(1) ev_delays.simps(1))
next
  case (PoolPut n ts now)
  then show ?thesis using ok by (simp add: tele_step_def logger_ok_def log_defs moe_timings_def)
qed

text \<open>After a whole run.\<close>

definition tele_run :: "(nat \<Rightarrow> real) \<Rightarrow> nat \<Rightarrow> tele_event list \<Rightarrow> telemetry \<Rightarrow> telemetry" where
  "tele_run elapsed nl evs t = fold (tele_step elapsed nl) evs t"

lemma tele_run_collects:
  assumes "\<And>ev t. logger_ok rate t \<Longrightarrow> proj (tele_step elapsed nl ev t) = proj t @ new ev" and "logger_ok rate t"
  shows "proj (tele_run elapsed nl evs t) = proj t @ concat (map new evs)"
  unfolding tele_run_def
  using fold_collects [where P = "logger_ok rate" and f = "tele_step elapsed nl" and proj = proj and new = new
      and xs = evs and s = t] assms tele_step_logs by blast

lemma tele_run_ok: "logger_ok rate t \<Longrightarrow> logger_ok rate (tele_run elapsed nl evs t)"
  unfolding tele_run_def by (induction evs arbitrary: t) (simp_all add: tele_step_logs)

lemma logger_ok_init: "logger_ok rate (telemetry_init (logger_init True dev rate) now)"
  by (simp add: logger_ok_def telemetry_init_def logger_init_def queues_ok_def)

lemma queue_field:
  assumes "queues_ok q"
  shows "json_field (queuing_json q) (queue_key l e) =
    (if d_get_or q (l, e) [] = [] then None else Some (queue_entry l e (d_get_or q (l, e) [])))"
  using assms queuing_json_field [of q l e]
  by (cases "map_of q (l, e)") (auto simp: queues_ok_def d_get_or_def)

lemma flush_logs_run:
  "flush_logs elapsed now ts t =
     tele_run elapsed nl [MoeDrained (\<lambda>_. True) now, TransportDrained ts] t"
  by (cases t) (auto simp: flush_logs_def tele_run_def tele_step_def drain_moe_events_def)

lemma flush_empties:
  assumes "logger_ok rate t"
  shows "te_pending (flush_logs elapsed now ts t) = []"
proof -
  let ?d = "drain_moe_events (\<lambda>_. True) elapsed now t"
  have "te_pending ?d = []"
    using drain_moe_logs [OF assms, of "\<lambda>_. True" elapsed now] by auto
  moreover have "logger_ok rate ?d"
    using tele_step_logs [OF assms, of elapsed 0 "MoeDrained (\<lambda>_. True) now"] by (simp add: tele_step_def)
  ultimately show ?thesis
    using drain_transport_logs [of rate ?d ts] drain_transport_logs [OF assms, of ts]
    by (simp add: flush_logs_def)
qed

definition report_rows :: "json \<Rightarrow> string \<Rightarrow> json list list option" where
  "report_rows data name = map_option json_rows (json_field data name)"

lemma fields_nonempty:
  "moe_fields \<noteq> []" "recv_fields \<noteq> []" "stall_fields \<noteq> []" "nixl_send_fields \<noteq> []"
  "nixl_recv_fields \<noteq> []" "snapshot_fields \<noteq> []" "pool_put_fields \<noteq> []"
  by (simp_all add: moe_fields_def recv_fields_def stall_fields_def nixl_send_fields_def
      nixl_recv_fields_def snapshot_fields_def pool_put_fields_def)

lemma get_data_sections:
  assumes "get_data lg = Some data"
  shows "report_rows data ''moe_steps'' = Some (map (row_json moe_fields) (lg_moe_steps lg))"
    and "report_rows data ''recv_completions'' = Some (map (row_json recv_fields) (lg_recvs lg))"
    and "report_rows data ''pending_send_stalls'' = Some (map (row_json stall_fields) (lg_stalls lg))"
    and "report_rows data ''nixl_send_traces'' = Some (map (row_json nixl_send_fields) (lg_nixl_sends lg))"
    and "report_rows data ''nixl_recv_traces'' = Some (map (row_json nixl_recv_fields) (lg_nixl_recvs lg))"
    and "report_rows data ''queue_snapshots'' = Some (map (row_json snapshot_fields) (lg_snapshots lg))"
    and "report_rows data ''pool_puts'' = Some (map (row_json pool_put_fields) (lg_pool_puts lg))"
    and "json_field data ''queuing_delays'' = Some (queuing_json (lg_queuing lg))"
  using assms
  by (auto simp: get_data_def json_field_def report_rows_def json_rows_columns fields_nonempty split: if_splits)

text \<open>
  C32: what the report for the controller holds. After any sequence of sampled launches, drains at
  any progress of the GPU, transport statistics, scheduled batches and admissions, it has exactly
  one row, in their order, for each sampled launch (with its GPU time, also when it is still in
  flight), receive completion, pending-send stall, NIXL send trace, NIXL receive trace, queue
  snapshot and admission, and for each queue the delays logged for it, under a key of its own.
  The message sizes of the dispatcher are drained into the logger, in order, but the report has no
  section for them.
\<close>

theorem telemetry_report_rows:
  "\<exists>data t'. get_advanced_log_data elapsed now ts
        (tele_run elapsed nl evs (telemetry_init (logger_init True dev rate) t0)) = (Some data, t') \<and>
    te_pending t' = [] \<and>
    map_option (map (take 2)) (report_rows data ''moe_steps'') =
      Some (map (\<lambda>(b, e). [jnat b, JNum (elapsed e)]) (concat (map (ev_timings rate) evs))) \<and>
    report_rows data ''recv_completions'' =
      Some (map (row_json recv_fields) (concat (map ev_recvs evs) @ ev_recvs (TransportDrained ts))) \<and>
    report_rows data ''pending_send_stalls'' =
      Some (map (row_json stall_fields) (concat (map ev_stalls evs) @ ev_stalls (TransportDrained ts))) \<and>
    report_rows data ''nixl_send_traces'' =
      Some (map (row_json nixl_send_fields) (concat (map ev_nixl_sends evs) @ ev_nixl_sends (TransportDrained ts))) \<and>
    report_rows data ''nixl_recv_traces'' =
      Some (map (row_json nixl_recv_fields) (concat (map ev_nixl_recvs evs) @ ev_nixl_recvs (TransportDrained ts))) \<and>
    report_rows data ''queue_snapshots'' = Some (map (row_json snapshot_fields) (concat (map (ev_snapshots nl) evs))) \<and>
    report_rows data ''pool_puts'' = Some (map (row_json pool_put_fields) (concat (map ev_pool_puts evs))) \<and>
    (\<forall>l e. (let ds = concat (map (ev_delays rate l e) evs) in
       Option.bind (json_field data ''queuing_delays'') (\<lambda>q. json_field q (queue_key l e)) =
         (if ds = [] then None else Some (queue_entry l e ds)))) \<and>
    lg_sends (te_logger t') = concat (map ev_sends evs) @ ev_sends (TransportDrained ts) \<and>
    json_field data ''dispatcher_sends'' = None"
proof -
  let ?t = "telemetry_init (logger_init True dev rate) t0"
  let ?evs = "evs @ [MoeDrained (\<lambda>_. True) now, TransportDrained ts]"
  define F where "F = tele_run elapsed nl ?evs ?t"
  have F: "flush_logs elapsed now ts (tele_run elapsed nl evs ?t) = F"
    unfolding F_def flush_logs_run [where nl = nl] by (simp add: tele_run_def)
  note ok0 = logger_ok_init [of rate dev t0]
  have ok: "logger_ok rate F" unfolding F_def by (rule tele_run_ok [OF ok0])
  have en: "lg_enabled (te_logger F)" using ok by (simp add: logger_ok_def)
  have pend: "te_pending F = []"
    using flush_empties [OF tele_run_ok [OF ok0]] F by metis
  note col = tele_run_collects [OF _ ok0, of _ elapsed nl _ ?evs]
  have "moe_timings elapsed F = moe_timings elapsed ?t @
      concat (map (\<lambda>ev. map (\<lambda>(b, e). (b, elapsed e)) (ev_timings rate ev)) ?evs)"
    unfolding F_def by (rule col) (simp add: tele_step_logs)
  then have moe: "moe_timings elapsed F = map (\<lambda>(b, e). (b, elapsed e)) (concat (map (ev_timings rate) evs))"
    by (simp add: map_concat comp_def moe_timings_def telemetry_init_def logger_init_def)
  have recvs: "lg_recvs (te_logger F) = concat (map ev_recvs ?evs)" unfolding F_def
    by (subst col [where new = ev_recvs and proj = "\<lambda>t. lg_recvs (te_logger t)"])
      (simp_all add: tele_step_logs telemetry_init_def logger_init_def)
  have stalls: "lg_stalls (te_logger F) = concat (map ev_stalls ?evs)" unfolding F_def
    by (subst col [where new = ev_stalls and proj = "\<lambda>t. lg_stalls (te_logger t)"])
      (simp_all add: tele_step_logs telemetry_init_def logger_init_def)
  have ns: "lg_nixl_sends (te_logger F) = concat (map ev_nixl_sends ?evs)" unfolding F_def
    by (subst col [where new = ev_nixl_sends and proj = "\<lambda>t. lg_nixl_sends (te_logger t)"])
      (simp_all add: tele_step_logs telemetry_init_def logger_init_def)
  have nr: "lg_nixl_recvs (te_logger F) = concat (map ev_nixl_recvs ?evs)" unfolding F_def
    by (subst col [where new = ev_nixl_recvs and proj = "\<lambda>t. lg_nixl_recvs (te_logger t)"])
      (simp_all add: tele_step_logs telemetry_init_def logger_init_def)
  have sn: "lg_snapshots (te_logger F) = concat (map (ev_snapshots nl) ?evs)" unfolding F_def
    by (subst col [where new = "ev_snapshots nl" and proj = "\<lambda>t. lg_snapshots (te_logger t)"])
      (simp_all add: tele_step_logs telemetry_init_def logger_init_def)
  have pp: "lg_pool_puts (te_logger F) = concat (map ev_pool_puts ?evs)" unfolding F_def
    by (subst col [where new = ev_pool_puts and proj = "\<lambda>t. lg_pool_puts (te_logger t)"])
      (simp_all add: tele_step_logs telemetry_init_def logger_init_def)
  have qd: "d_get_or (lg_queuing (te_logger F)) (l, e) [] = concat (map (ev_delays rate l e) ?evs)" for l e
  proof -
    have "d_get_or (lg_queuing (te_logger F)) (l, e) [] =
        d_get_or (lg_queuing (te_logger ?t)) (l, e) [] @ concat (map (ev_delays rate l e) ?evs)"
      unfolding F_def by (rule col) (simp add: tele_step_logs)
    then show ?thesis by (simp add: telemetry_init_def logger_init_def d_get_or_def)
  qed
  have sends: "lg_sends (te_logger F) = concat (map ev_sends ?evs)" unfolding F_def
    by (subst col [where new = ev_sends and proj = "\<lambda>t. lg_sends (te_logger t)"])
      (simp_all add: tele_step_logs telemetry_init_def logger_init_def)
  have q: "queues_ok (lg_queuing (te_logger F))" using ok by (simp add: logger_ok_def)
  have two: "map (take 2) (map (row_json moe_fields) ss) = map (\<lambda>(b, m). [jnat b, JNum m]) (map (\<lambda>(b, m, _). (b, m)) ss)" for ss
    by (auto simp: row_json_def moe_fields_def)
  obtain data where data: "get_data (te_logger F) = Some data" using en by (simp add: get_data_def)
  note sec = get_data_sections [OF data]
  have "map (\<lambda>(b, m, _). (b, m)) (lg_moe_steps (te_logger F)) =
      map (\<lambda>(b, e). (b, elapsed e)) (concat (map (ev_timings rate) evs))"
    using moe pend by (simp add: moe_timings_def)
  then have "map_option (map (take 2)) (report_rows data ''moe_steps'') =
      Some (map (\<lambda>(b, e). [jnat b, JNum (elapsed e)]) (concat (map (ev_timings rate) evs)))"
    unfolding sec option.map two by (simp add: case_prod_unfold comp_def)
  moreover have "get_advanced_log_data elapsed now ts (tele_run elapsed nl evs ?t) = (Some data, F)"
    by (simp add: get_advanced_log_data_def F data)
  moreover have "json_field data ''dispatcher_sends'' = None"
    using data by (auto simp: get_data_def json_field_def split: if_splits)
  ultimately show ?thesis
    using pend sec(2-) recvs stalls ns nr sn pp qd sends queue_field [OF q] by (simp add: Let_def del: ev_recvs.simps(1)
        ev_stalls.simps(1) ev_nixl_sends.simps(1) ev_nixl_recvs.simps(1) ev_sends.simps(1))
qed

text \<open>
  The message sizes of the dispatcher are logged and dumped, but the report for the controller
  has no section for them.
\<close>

lemma get_data_omits_sends:
  assumes "lg_enabled lg"
  shows "\<exists>data files out. get_data lg = Some data \<and> json_field data ''dispatcher_sends'' = None \<and>
    logger_dump dir '''' lg = Some (out, files) \<and>
    map_of files ''dispatcher_sends.json'' = Some (json_columns send_fields (lg_sends lg))"
  using assms by (simp add: get_data_def logger_dump_def json_field_def)

text \<open>A disabled logger keeps and reports nothing.\<close>

lemma disabled_logger:
  assumes "\<not> lg_enabled lg"
  shows "get_data lg = None" and "logger_dump dir suffix lg = None" and "logger_reset lg = lg"
    and "\<not> should_sample r lg" and "log_recv_completion x lg = lg"
  using assms by (simp_all add: get_data_def logger_dump_def logger_reset_def should_sample_def log_defs)

end
