(* ===== verification/ModelUtils.thy ===== *)
theory ModelUtils
  imports Utils Batches
begin

text \<open>
  The model of \<open>disagmoe/models/utils.py\<close>: packing the metadata of an attention batch into two
  int32 buffers and reading it back, the prefix sums and the naive block mapping of test and
  profiling batches, the dummy batches, and the broadcast of a pickled list. (The dummy inputs
  of the experts are in theory ExpertExec.)
\<close>

section \<open>Packing attention metadata\<close>

text \<open>
  The fields of \<open>FlashAttentionMetadata\<close> that the code sets or reads; of the block tables only
  the shape is read.
\<close>

record flash_meta =
  fa_num_prefills :: nat
  fa_num_prefill_tokens :: nat
  fa_num_decode_tokens :: nat
  fa_slot_mapping :: "int list option"
  fa_seq_lens :: "int list"
  fa_seq_lens_tensor :: "int list"
  fa_max_query_len :: int
  fa_max_prefill_seq_len :: int
  fa_max_decode_seq_len :: int
  fa_query_start_loc :: "int list option"
  fa_seq_start_loc :: "int list"
  fa_context_lens :: "int list"
  fa_tables_shape :: "nat list option"

text \<open>
  \<open>t[a : b] = xs\<close> on an int32 tensor: the slice is cut at the end of the tensor; a source of one
  element fills it, any other difference of length raises; the values keep their low 32 bits.
\<close>

definition slice_store :: "int list \<Rightarrow> nat \<Rightarrow> nat \<Rightarrow> int list \<Rightarrow> int list result" where
  "slice_store t a b xs =
     (let n = min b (length t) - a in
      if length xs = n then Inr (take a t @ map to_i32 xs @ drop (a + n) t)
      else if length xs = 1 then Inr (take a t @ replicate n (to_i32 (hd xs)) @ drop (a + n) t)
      else Inl RuntimeError)"

text \<open>\<open>t[i] = x\<close> for a Python integer, which has to fit.\<close>

definition item_store :: "int list \<Rightarrow> nat \<Rightarrow> int \<Rightarrow> int list result" where
  "item_store t i x =
     (if length t \<le> i then Inl IndexError else if fits_i32 x then Inr (t[i := x]) else Inl RuntimeError)"

definition slice :: "nat \<Rightarrow> nat \<Rightarrow> 'a list \<Rightarrow> 'a list" where
  "slice a b t = take (b - a) (drop a t)"

definition fa_num_seqs :: "flash_meta \<Rightarrow> nat" where
  "fa_num_seqs m = fa_num_prefills m + fa_num_decode_tokens m"

definition pack_flash_attn_meta ::
  "int list \<Rightarrow> int list \<times> int list \<Rightarrow> int \<Rightarrow> flash_meta \<Rightarrow> (int list \<times> int list \<times> int list) result" where
  "pack_flash_attn_meta buf locs layer m =
     (let n = fa_num_seqs m; off = 5 + n in
      bindR (item_store buf 0 layer) (\<lambda>buf.
      bindR (item_store buf 1 (int (fa_num_prefills m))) (\<lambda>buf.
      bindR (item_store buf 2 (int (fa_num_prefill_tokens m))) (\<lambda>buf.
      bindR (item_store buf 3 (int (fa_num_decode_tokens m))) (\<lambda>buf.
      bindR (not_None AttributeError (fa_tables_shape m)) (\<lambda>shape.
      bindR (py_get shape 1) (\<lambda>width.
      bindR (item_store buf 4 (int width)) (\<lambda>buf.
      bindR (assertR (length (fa_seq_lens_tensor m) = n)) (\<lambda>_.
      bindR (slice_store buf 5 off (fa_seq_lens_tensor m)) (\<lambda>buf.
      bindR (item_store buf off (fa_max_query_len m)) (\<lambda>buf.
      bindR (item_store buf (off + 1) (fa_max_prefill_seq_len m)) (\<lambda>buf.
      bindR (item_store buf (off + 2) (fa_max_decode_seq_len m)) (\<lambda>buf.
      bindR (assertR (length (fa_context_lens m) = n)) (\<lambda>_.
      bindR (slice_store buf (off + 3) (off + 3 + n) (fa_context_lens m)) (\<lambda>buf.
      bindR (if fa_num_prefills m = 0 then Inr (fst locs)
             else bindR (not_None TypeError (fa_query_start_loc m)) (\<lambda>q.
                    slice_store (fst locs) 0 (fa_num_prefills m + 1) q)) (\<lambda>loc0.
      bindR (slice_store (snd locs) 0 (n + 1) (fa_seq_start_loc m)) (\<lambda>loc1.
        Inr (buf, loc0, loc1))))))))))))))))))"

definition unpack_flash_attn_meta ::
  "int list \<Rightarrow> int list \<times> int list \<Rightarrow> (int \<times> int \<times> flash_meta) result" where
  "unpack_flash_attn_meta buf locs =
     bindR (py_get buf 0) (\<lambda>layer.
     bindR (py_get buf 1) (\<lambda>prefills.
     bindR (py_get buf 2) (\<lambda>prefill_tokens.
     bindR (py_get buf 3) (\<lambda>decode_tokens.
     bindR (py_get buf 4) (\<lambda>width.
     let n = nat (prefills + decode_tokens); lens = slice 5 (5 + n) buf; off = 5 + n in
     bindR (py_get buf (int off)) (\<lambda>max_q.
     bindR (py_get buf (int off + 1)) (\<lambda>max_prefill.
     bindR (py_get buf (int off + 2)) (\<lambda>max_decode.
       Inr (layer, width,
         \<lparr>fa_num_prefills = nat prefills, fa_num_prefill_tokens = nat prefill_tokens,
          fa_num_decode_tokens = nat decode_tokens, fa_slot_mapping = None, fa_seq_lens = lens,
          fa_seq_lens_tensor = lens, fa_max_query_len = max_q, fa_max_prefill_seq_len = max_prefill,
          fa_max_decode_seq_len = max_decode,
          fa_query_start_loc = (if prefills > 0 then Some (slice 0 (nat prefills + 1) (fst locs)) else None),
          fa_seq_start_loc = slice 0 (n + 1) (snd locs),
          fa_context_lens = slice (off + 3) (off + 3 + n) buf, fa_tables_shape = None\<rparr>)))))))))"

text \<open>Metadata whose parts fit together and into 32 bits.\<close>

definition flash_meta_ok :: "flash_meta \<Rightarrow> bool" where
  "flash_meta_ok m \<longleftrightarrow>
     fits_i32 (int (fa_num_prefills m)) \<and> fits_i32 (int (fa_num_prefill_tokens m)) \<and>
     fits_i32 (int (fa_num_decode_tokens m)) \<and> fits_i32 (fa_max_query_len m) \<and>
     fits_i32 (fa_max_prefill_seq_len m) \<and> fits_i32 (fa_max_decode_seq_len m) \<and>
     length (fa_seq_lens_tensor m) = fa_num_seqs m \<and> list_all fits_i32 (fa_seq_lens_tensor m) \<and>
     length (fa_context_lens m) = fa_num_seqs m \<and> list_all fits_i32 (fa_context_lens m) \<and>
     length (fa_seq_start_loc m) = fa_num_seqs m + 1 \<and> list_all fits_i32 (fa_seq_start_loc m) \<and>
     (fa_num_prefills m > 0 \<longrightarrow> (\<exists>q. fa_query_start_loc m = Some q \<and>
        length q = fa_num_prefills m + 1 \<and> list_all fits_i32 q))"

lemma map_to_i32_id: "list_all fits_i32 xs \<Longrightarrow> map to_i32 xs = xs"
  by (induction xs) (simp_all add: fits_i32_def to_i32_id)

lemma slice_store_append:
  "length A = a \<Longrightarrow> length X = n \<Longrightarrow> length xs = n \<Longrightarrow> list_all fits_i32 xs \<Longrightarrow>
     slice_store (A @ X @ B) a (a + n) xs = Inr (A @ xs @ B)"
  by (simp add: slice_store_def map_to_i32_id min_def)

lemma item_store_append:
  "length A = i \<Longrightarrow> fits_i32 v \<Longrightarrow> item_store (A @ x # B) i v = Inr (A @ v # B)"
  by (auto simp: item_store_def)

lemma buffer_split:
  assumes "8 + 2 * n \<le> length buf"
  shows "\<exists>a b c d e S x y z C R. buf = [a, b, c, d, e] @ S @ [x, y, z] @ C @ R \<and> length S = n \<and> length C = n"
proof -
  define h t where "h = take 5 buf" and "t = drop 5 buf"
  have "length h = 5" "3 + 2 * n \<le> length t" using assms by (simp_all add: h_def t_def)
  then obtain a b c d e where h: "h = [a, b, c, d, e]" by (auto simp: length_Suc_conv numeral_eq_Suc)
  define S u where "S = take n t" and "u = drop n t"
  have S: "length S = n" "3 + n \<le> length u" using \<open>3 + 2 * n \<le> length t\<close> by (simp_all add: S_def u_def)
  define k v where "k = take 3 u" and "v = drop 3 u"
  have "length k = 3" "n \<le> length v" using S(2) by (simp_all add: k_def v_def)
  then obtain x y z where k: "k = [x, y, z]" by (auto simp: length_Suc_conv numeral_eq_Suc)
  have "h @ t = buf" "S @ u = t" "k @ v = u"
    unfolding h_def t_def S_def u_def k_def v_def by (simp_all only: append_take_drop_id)
  then have "buf = h @ S @ k @ take n v @ drop n v" by simp
  then have "buf = [a, b, c, d, e] @ S @ [x, y, z] @ take n v @ drop n v" unfolding h k .
  moreover have "length (take n v) = n" using \<open>n \<le> length v\<close> by simp
  ultimately show ?thesis using S(1) by blast
qed

text \<open>The packed buffer, field by field.\<close>

lemma pack_layout:
  assumes m: "flash_meta_ok m" and s: "fa_tables_shape m = Some [rows, cols]" "fits_i32 (int cols)"
    and l: "fits_i32 layer" and b: "8 + 2 * fa_num_seqs m \<le> length buf"
    and q: "fa_num_prefills m + 1 \<le> length loc0" "fa_num_seqs m + 1 \<le> length loc1"
  shows "\<exists>R Q1 Q2. pack_flash_attn_meta buf (loc0, loc1) layer m =
    Inr ([layer, int (fa_num_prefills m), int (fa_num_prefill_tokens m), int (fa_num_decode_tokens m), int cols] @
         fa_seq_lens_tensor m @ [fa_max_query_len m, fa_max_prefill_seq_len m, fa_max_decode_seq_len m] @
         fa_context_lens m @ R,
       (if fa_num_prefills m = 0 then loc0 else the (fa_query_start_loc m) @ Q1),
       fa_seq_start_loc m @ Q2)"
proof -
  let ?n = "fa_num_seqs m" and ?p = "fa_num_prefills m"
  note mm = m [unfolded flash_meta_ok_def]
  obtain a b0 c d e S x y z C R where buf: "buf = [a, b0, c, d, e] @ S @ [x, y, z] @ C @ R"
      "length S = ?n" "length C = ?n" using buffer_split [OF b] by blast
  let ?H = "[layer, int ?p, int (fa_num_prefill_tokens m), int (fa_num_decode_tokens m), int cols]"
  let ?L = "fa_seq_lens_tensor m"
  have ln: "length ?L = ?n" "length (fa_context_lens m) = ?n" using mm by simp_all
  have s0: "item_store ([a, b0, c, d, e] @ X) 0 layer = Inr ([layer, b0, c, d, e] @ X)" for X
    using item_store_append [of "[]" 0 layer a "[b0, c, d, e] @ X"] l by simp
  have s1: "item_store ([layer, b0, c, d, e] @ X) 1 (int ?p) = Inr ([layer, int ?p, c, d, e] @ X)" for X
    using item_store_append [of "[layer]" 1 "int ?p" b0 "[c, d, e] @ X"] mm by simp
  have s2: "item_store ([layer, int ?p, c, d, e] @ X) 2 (int (fa_num_prefill_tokens m)) =
      Inr ([layer, int ?p, int (fa_num_prefill_tokens m), d, e] @ X)" for X
    using item_store_append [of "[layer, int ?p]" 2 "int (fa_num_prefill_tokens m)" c "[d, e] @ X"] mm by simp
  have s3: "item_store ([layer, int ?p, int (fa_num_prefill_tokens m), d, e] @ X) 3 (int (fa_num_decode_tokens m)) =
      Inr ([layer, int ?p, int (fa_num_prefill_tokens m), int (fa_num_decode_tokens m), e] @ X)" for X
    using item_store_append [of "[layer, int ?p, int (fa_num_prefill_tokens m)]" 3
        "int (fa_num_decode_tokens m)" d "[e] @ X"] mm by simp
  have s4: "item_store ([layer, int ?p, int (fa_num_prefill_tokens m), int (fa_num_decode_tokens m), e] @ X) 4 (int cols) =
      Inr (?H @ X)" for X
    using item_store_append [of "[layer, int ?p, int (fa_num_prefill_tokens m), int (fa_num_decode_tokens m)]" 4
        "int cols" e X] s(2) by simp
  have s5: "slice_store (?H @ S @ X) 5 (5 + ?n) ?L = Inr (?H @ ?L @ X)" for X
    by (rule slice_store_append) (use buf(2) mm in simp_all)
  have s6: "item_store (?H @ ?L @ [x, y, z] @ X) (5 + ?n) (fa_max_query_len m) =
      Inr (?H @ ?L @ [fa_max_query_len m, y, z] @ X)" for X
    using item_store_append [of "?H @ ?L" "5 + ?n" "fa_max_query_len m" x "[y, z] @ X"] mm ln by simp
  have s7: "item_store (?H @ ?L @ [fa_max_query_len m, y, z] @ X) (5 + ?n + 1) (fa_max_prefill_seq_len m) =
      Inr (?H @ ?L @ [fa_max_query_len m, fa_max_prefill_seq_len m, z] @ X)" for X
    using item_store_append [of "?H @ ?L @ [fa_max_query_len m]" "5 + ?n + 1" "fa_max_prefill_seq_len m" y "[z] @ X"]
      mm ln by simp
  have s8: "item_store (?H @ ?L @ [fa_max_query_len m, fa_max_prefill_seq_len m, z] @ X) (5 + ?n + 2)
        (fa_max_decode_seq_len m) =
      Inr (?H @ ?L @ [fa_max_query_len m, fa_max_prefill_seq_len m, fa_max_decode_seq_len m] @ X)" for X
    using item_store_append [of "?H @ ?L @ [fa_max_query_len m, fa_max_prefill_seq_len m]" "5 + ?n + 2"
        "fa_max_decode_seq_len m" z X] mm ln by simp
  let ?M = "?H @ ?L @ [fa_max_query_len m, fa_max_prefill_seq_len m, fa_max_decode_seq_len m]"
  have s9: "slice_store (?M @ C @ R) (5 + ?n + 3) (5 + ?n + 3 + ?n) (fa_context_lens m) =
      Inr (?M @ fa_context_lens m @ R)"
    by (rule slice_store_append) (use buf(3) mm ln in simp_all)
  have loc: "slice_store loc 0 (k + 1) xs = Inr (xs @ drop (k + 1) loc)"
    if "k + 1 \<le> length loc" "length xs = k + 1" "list_all fits_i32 xs" for loc k xs
    using slice_store_append [of "[]" 0 "take (k + 1) loc" "k + 1" xs "drop (k + 1) loc"] that by simp
  have l0: "(if ?p = 0 then Inr loc0 else bindR (not_None TypeError (fa_query_start_loc m)) (\<lambda>q.
      slice_store loc0 0 (?p + 1) q)) =
      Inr (if ?p = 0 then loc0 else the (fa_query_start_loc m) @ drop (?p + 1) loc0)"
    using mm loc [OF q(1)] by auto
  have l1: "slice_store loc1 0 (?n + 1) (fa_seq_start_loc m) = Inr (fa_seq_start_loc m @ drop (?n + 1) loc1)"
    by (rule loc [OF q(2)]) (use mm in simp_all)
  have w: "py_get [rows, cols] 1 = Inr cols" using py_get_nat [of 1 "[rows, cols]"] by simp
  have n4: "(1::nat) = 1" by simp
  show ?thesis
    unfolding pack_flash_attn_meta_def Let_def buf(1) s0 bindR_simps s1 s2 s3 s(1) not_None_simps w s4 s5
      ln simp_thms assertR_simps s6 s7 s8 fst_conv snd_conv l0 l1
    using s9 by auto
qed

lemma slice_append: "length A = a \<Longrightarrow> length X = n \<Longrightarrow> slice a (a + n) (A @ X @ B) = X"
  by (simp add: slice_def)

lemma py_get_append: "length A = i \<Longrightarrow> py_get (A @ x # B) (int i) = Inr x"
  by auto

text \<open>
  What is packed is read back. Any metadata whose parts fit together and into 32 bits goes
  through the two buffers, whatever these held before: the layer, the width of the block tables,
  the counts, the lengths and the offsets come back as they were; only the slot mapping and the
  tables are left behind, and the list of lengths is that of the tensor.
\<close>

theorem flash_meta_roundtrip:
  assumes m: "flash_meta_ok m" and s: "fa_tables_shape m = Some [rows, cols]" "fits_i32 (int cols)"
    and l: "fits_i32 layer" and b: "8 + 2 * fa_num_seqs m \<le> length buf"
    and q: "fa_num_prefills m + 1 \<le> length loc0" "fa_num_seqs m + 1 \<le> length loc1"
  shows "\<exists>buf' locs'. pack_flash_attn_meta buf (loc0, loc1) layer m = Inr (buf', locs') \<and>
    unpack_flash_attn_meta buf' locs' = Inr (layer, int cols,
      m\<lparr>fa_slot_mapping := None, fa_seq_lens := fa_seq_lens_tensor m, fa_tables_shape := None,
        fa_query_start_loc := (if fa_num_prefills m = 0 then None else fa_query_start_loc m)\<rparr>)"
proof -
  let ?n = "fa_num_seqs m" and ?p = "fa_num_prefills m" and ?L = "fa_seq_lens_tensor m"
  let ?H = "[layer, int ?p, int (fa_num_prefill_tokens m), int (fa_num_decode_tokens m), int cols]"
  let ?Q = "[fa_max_query_len m, fa_max_prefill_seq_len m, fa_max_decode_seq_len m]"
  note mm = m [unfolded flash_meta_ok_def]
  obtain R Q1 Q2 where p: "pack_flash_attn_meta buf (loc0, loc1) layer m =
      Inr (?H @ ?L @ ?Q @ fa_context_lens m @ R, (if ?p = 0 then loc0 else the (fa_query_start_loc m) @ Q1),
        fa_seq_start_loc m @ Q2)"
    using pack_layout [OF m s l b q] by blast
  let ?B = "?H @ ?L @ ?Q @ fa_context_lens m @ R"
  have ln: "length ?L = ?n" "length (fa_context_lens m) = ?n" using mm by simp_all
  have g: "py_get ?B 0 = Inr layer" "py_get ?B 1 = Inr (int ?p)" "py_get ?B 2 = Inr (int (fa_num_prefill_tokens m))"
    "py_get ?B 3 = Inr (int (fa_num_decode_tokens m))" "py_get ?B 4 = Inr (int cols)"
    using py_get_nat [of 0 ?B] py_get_nat [of 1 ?B] py_get_nat [of 2 ?B] py_get_nat [of 3 ?B] py_get_nat [of 4 ?B]
    by simp_all
  have n: "nat (int ?p + int (fa_num_decode_tokens m)) = ?n" by (simp add: fa_num_seqs_def flip: of_nat_add)
  have lens: "slice 5 (5 + ?n) ?B = ?L" using ln by (intro slice_append) simp_all
  have ctx: "slice (5 + ?n + 3) (5 + ?n + 3 + ?n) ?B = fa_context_lens m"
    using slice_append [of "?H @ ?L @ ?Q" "5 + ?n + 3" "fa_context_lens m" ?n R] ln by simp
  have q1: "py_get ?B (int (5 + ?n)) = Inr (fa_max_query_len m)"
    using py_get_append [of "?H @ ?L" "5 + ?n"] ln by simp
  have q2: "py_get ?B (int (5 + ?n) + 1) = Inr (fa_max_prefill_seq_len m)"
    using py_get_append [of "?H @ ?L @ [fa_max_query_len m]" "5 + ?n + 1"] ln by (simp add: algebra_simps)
  have q3: "py_get ?B (int (5 + ?n) + 2) = Inr (fa_max_decode_seq_len m)"
    using py_get_append [of "?H @ ?L @ [fa_max_query_len m, fa_max_prefill_seq_len m]" "5 + ?n + 2"] ln
    by (simp add: algebra_simps)
  have l1: "slice 0 (?n + 1) (fa_seq_start_loc m @ Q2) = fa_seq_start_loc m" using mm by (simp add: slice_def)
  have l0: "(if int ?p > 0 then Some (slice 0 (nat (int ?p) + 1) (if ?p = 0 then loc0 else the (fa_query_start_loc m) @ Q1))
      else None) = (if ?p = 0 then None else fa_query_start_loc m)"
    using mm by (auto simp: slice_def)
  have "unpack_flash_attn_meta ?B (if ?p = 0 then loc0 else the (fa_query_start_loc m) @ Q1, fa_seq_start_loc m @ Q2) =
      Inr (layer, int cols, m\<lparr>fa_slot_mapping := None, fa_seq_lens := ?L, fa_tables_shape := None,
        fa_query_start_loc := (if ?p = 0 then None else fa_query_start_loc m)\<rparr>)"
    unfolding unpack_flash_attn_meta_def Let_def g bindR_simps n lens ctx q1 q2 q3 fst_conv snd_conv l0 l1
    by simp
  then show ?thesis using p by blast
qed

text \<open>An example: one prefill and two decodes, buffers that hold other values.\<close>

definition demo_flash_meta :: flash_meta where
  "demo_flash_meta = \<lparr>fa_num_prefills = 1, fa_num_prefill_tokens = 1, fa_num_decode_tokens = 2,
     fa_slot_mapping = Some [16, 40, 55], fa_seq_lens = [1, 9, 8], fa_seq_lens_tensor = [1, 9, 8],
     fa_max_query_len = 1, fa_max_prefill_seq_len = 1, fa_max_decode_seq_len = 9,
     fa_query_start_loc = Some [0, 1], fa_seq_start_loc = [0, 1, 10, 18], fa_context_lens = [0, 8, 7],
     fa_tables_shape = Some [3, 2]\<rparr>"

theorem flash_meta_roundtrip_witness:
  "\<exists>buf' locs'. pack_flash_attn_meta (replicate 20 77) (replicate 5 66, replicate 5 55) 3 demo_flash_meta =
       Inr (buf', locs') \<and>
     unpack_flash_attn_meta buf' locs' =
       Inr (3, 2, demo_flash_meta\<lparr>fa_slot_mapping := None, fa_tables_shape := None\<rparr>)"
proof -
  have m: "flash_meta_ok demo_flash_meta" "fa_tables_shape demo_flash_meta = Some [3, 2]"
    "8 + 2 * fa_num_seqs demo_flash_meta \<le> length (replicate 20 77)"
    "fa_num_prefills demo_flash_meta + 1 \<le> length (replicate 5 66)"
    "fa_num_seqs demo_flash_meta + 1 \<le> length (replicate 5 55)"
    by (simp_all add: flash_meta_ok_def demo_flash_meta_def fa_num_seqs_def fits_i32_def)
  show ?thesis
    using flash_meta_roundtrip [OF m(1,2) _ _ m(3-5), of 3] by (simp add: fits_i32_def) (simp add: demo_flash_meta_def)
qed

section \<open>Batches for tests and profiling\<close>

definition make_seqlens :: "nat list \<Rightarrow> int list result" where
  "make_seqlens lens =
     (let s = fold (\<lambda>l s. s @ [last s + int l]) lens [0]
      in if list_all fits_i32 s then Inr s else Inl RuntimeError)"

datatype mapping_mode = Prefill | Decode | OtherMode

text \<open>
  \<open>make_naive_mapping\<close>: each sequence gets the next blocks, from block 4 on; a decode asks for the
  slot of its last token, a prefill for those of all its tokens. \<open>pad_sequence\<close> refuses an empty
  list.
\<close>

definition naive_step ::
  "nat \<Rightarrow> mapping_mode \<Rightarrow> nat \<Rightarrow> nat list list \<times> int list \<times> nat \<Rightarrow> (nat list list \<times> int list \<times> nat) result" where
  "naive_step bs mode l = (\<lambda>(table, slots, allocated).
     if bs = 0 then Inl ZeroDivisionError
     else let num_blocks = (l + bs) div bs; start = allocated; stop = num_blocks + allocated;
              table = table @ [[start..<stop]]
          in case mode of
               Prefill \<Rightarrow> Inr (table, slots @ map int [start * bs..<start * bs + l], stop)
             | Decode \<Rightarrow> Inr (table, slots @ [int (start * bs) + int l - 1], stop)
             | OtherMode \<Rightarrow> Inl AssertionError)"

definition pad_rows :: "nat list list \<Rightarrow> nat list list" where
  "pad_rows rows = (let w = Max (set (map length rows)) in map (\<lambda>r. r @ replicate (w - length r) 0) rows)"

definition make_naive_mapping ::
  "nat \<Rightarrow> nat list \<Rightarrow> mapping_mode \<Rightarrow> (nat list list \<times> int list) result" where
  "make_naive_mapping bs lens mode =
     bindR (foldR (naive_step bs mode) lens ([], [], 4)) (\<lambda>(table, slots, _).
       if table = [] then Inl RuntimeError else Inr (pad_rows table, slots))"

definition make_prefill_meta :: "nat \<Rightarrow> nat \<Rightarrow> flash_meta result" where
  "make_prefill_meta n bs =
     (let lens = replicate n 1 in
      bindR (make_seqlens lens) (\<lambda>loc.
      if lens = [] then Inl ValueError
      else bindR (make_naive_mapping bs lens Prefill) (\<lambda>(_, slots).
        Inr \<lparr>fa_num_prefills = n, fa_num_prefill_tokens = sum_list lens, fa_num_decode_tokens = 0,
             fa_slot_mapping = Some slots, fa_seq_lens = map int lens, fa_seq_lens_tensor = map int lens,
             fa_max_query_len = int (Max (set lens)), fa_max_prefill_seq_len = int (Max (set lens)),
             fa_max_decode_seq_len = 0, fa_query_start_loc = Some loc, fa_seq_start_loc = loc,
             fa_context_lens = replicate n 0, fa_tables_shape = Some [0]\<rparr>)))"

definition make_attention_dummy_batch :: "nat \<Rightarrow> nat \<Rightarrow> nat \<Rightarrow> int \<Rightarrow> attn_batch \<times> real list list" where
  "make_attention_dummy_batch prefill decode hidden_size seq_len =
     (let bs = prefill + decode in
      (\<lparr>ab_shape = [bs, hidden_size], ab_dtype = ''bf16'', ab_layer_id = 0, ab_req_ids = [0..<bs],
        ab_init_prefill_lens = replicate bs seq_len, ab_num_prefill_seqs = prefill,
        ab_num_prefill_tokens = prefill, ab_num_decode_tokens = decode, ab_req_indices = Some [0..<bs],
        ab_seq_lens = Some (replicate bs seq_len)\<rparr>,
       replicate bs (replicate hidden_size 0)))"

section \<open>Broadcasting a list\<close>

text \<open>
  \<open>broadcast_pyobj\<close>: what rank 0 sends, tensor by tensor, and what another rank makes of the
  tensors it receives; \<open>dumps\<close> and \<open>loads\<close> are pickle's. A tensor of the wrong size cannot be
  received.
\<close>

datatype bc_tensor = BcSize nat | BcBytes "nat list"

definition broadcast_send :: "('a list \<Rightarrow> nat list) \<Rightarrow> 'a list \<Rightarrow> bc_tensor list" where
  "broadcast_send dumps data =
     (if data = [] then [BcSize 0]
      else let serialized = dumps data in [BcSize (length serialized), BcBytes serialized])"

definition broadcast_recv :: "(nat list \<Rightarrow> 'a list) \<Rightarrow> bc_tensor list \<Rightarrow> 'a list result" where
  "broadcast_recv loads ts =
     (case ts of
        BcSize n_bytes # rest \<Rightarrow>
          if n_bytes = 0 then Inr []
          else (case rest of
                  BcBytes b # _ \<Rightarrow> if length b = n_bytes then Inr (loads b) else Inl RuntimeError
                | _ \<Rightarrow> Inl NoReturn)
      | _ \<Rightarrow> Inl NoReturn)"

lemma broadcast_roundtrip:
  assumes "\<And>d. loads (dumps d) = d" and "\<And>d. dumps d \<noteq> []"
  shows "broadcast_recv loads (broadcast_send dumps data) = Inr data"
  using assms by (simp add: broadcast_send_def broadcast_recv_def Let_def)

text \<open>
  The metadata of \<open>make_prefill_meta\<close> has a block table of one axis: it cannot be packed.
\<close>

lemma prefill_meta_not_packable:
  assumes "make_prefill_meta n bs = Inr m" and "5 \<le> length buf" and "fits_i32 layer" and "int n < 2 ^ 31"
  shows "pack_flash_attn_meta buf locs layer m = Inl IndexError"
proof -
  have m: "fa_num_prefills m = n" "fa_num_prefill_tokens m = n" "fa_num_decode_tokens m = 0"
    "fa_tables_shape m = Some [0]"
    using assms(1) by (auto simp: make_prefill_meta_def res Let_def sum_list_replicate split: if_splits)
  have "py_get [0 :: nat] 1 = Inl IndexError" by (simp add: py_get_def py_pos_def)
  then show ?thesis using assms(2-) m
    by (simp add: pack_flash_attn_meta_def Let_def item_store_def fits_i32_def)
qed

text \<open>
  The naive mapping for decodes: rows of different blocks, and the slot of a sequence is the
  place of its last token in its own row.
\<close>

lemma naive_decode_loop:
  assumes "0 < bs" and "\<forall>l \<in> set lens. 0 < l"
  shows "\<exists>rows slots al. foldR (naive_step bs Decode) lens ([], [], 4) = Inr (rows, slots, al) \<and>
    length rows = length lens \<and> length slots = length lens \<and> concat rows = [4..<al] \<and> 4 \<le> al \<and>
    (\<forall>i < length lens. (lens ! i - 1) div bs < length (rows ! i) \<and>
       slots ! i = int (rows ! i ! ((lens ! i - 1) div bs) * bs + (lens ! i - 1) mod bs))"
  using assms(2)
proof (induction lens rule: rev_induct)
  case (snoc l lens)
  then obtain rows slots al where IH: "foldR (naive_step bs Decode) lens ([], [], 4) = Inr (rows, slots, al)"
      "length rows = length lens" "length slots = length lens" "concat rows = [4..<al]" "4 \<le> al"
      "\<forall>i < length lens. (lens ! i - 1) div bs < length (rows ! i) \<and>
         slots ! i = int (rows ! i ! ((lens ! i - 1) div bs) * bs + (lens ! i - 1) mod bs)"
    by auto
  let ?nb = "(l + bs) div bs"
  let ?row = "[al..<?nb + al]" and ?slot = "int (al * bs) + int l - 1"
  have l: "0 < l" using snoc.prems by simp
  have lt: "(l - 1) div bs < ?nb"
  proof -
    have "(l - 1) div bs \<le> l div bs" by (rule div_le_mono) simp
    then show ?thesis using assms(1) by simp
  qed
  have "l - 1 = (l - 1) div bs * bs + (l - 1) mod bs" by simp
  then have "al * bs + (l - 1) = (al + (l - 1) div bs) * bs + (l - 1) mod bs"
    by (metis add.assoc add_mult_distrib)
  moreover have "?row ! ((l - 1) div bs) = al + (l - 1) div bs" using lt by simp
  moreover have "?slot = int (al * bs + (l - 1))" using l by (simp add: of_nat_diff)
  ultimately have slot: "?slot = int (?row ! ((l - 1) div bs) * bs + (l - 1) mod bs)" by metis
  have step: "naive_step bs Decode l (rows, slots, al) = Inr (rows @ [?row], slots @ [?slot], ?nb + al)"
    using assms(1) by (simp add: naive_step_def)
  have "concat (rows @ [?row]) = [4..<?nb + al]"
    using IH(4,5) upt_add_eq_append [of 4 al ?nb] by (simp add: add.commute)
  moreover have "(lens' ! i - 1) div bs < length ((rows @ [?row]) ! i) \<and> (slots @ [?slot]) ! i =
      int ((rows @ [?row]) ! i ! ((lens' ! i - 1) div bs) * bs + (lens' ! i - 1) mod bs)"
    if "i < length lens'" "lens' = lens @ [l]" for i lens'
    using that IH(2,3,6) slot lt by (cases "i < length lens") (simp_all add: nth_append)
  ultimately show ?case using IH(1-3,5) step
    by (intro exI [of _ "rows @ [?row]"] exI [of _ "slots @ [?slot]"] exI [of _ "?nb + al"])
      (simp add: foldR_append)
qed simp

lemma naive_decode_slots:
  assumes "0 < bs" and "\<forall>l \<in> set lens. 0 < l" and "lens \<noteq> []"
  shows "\<exists>rows slots. make_naive_mapping bs lens Decode = Inr (pad_rows rows, slots) \<and>
    distinct (concat rows) \<and> length slots = length lens \<and>
    (\<forall>i < length lens. slots ! i = int (rows ! i ! ((lens ! i - 1) div bs) * bs + (lens ! i - 1) mod bs))"
proof -
  obtain rows slots al where "foldR (naive_step bs Decode) lens ([], [], 4) = Inr (rows, slots, al)"
      "length rows = length lens" "length slots = length lens" "concat rows = [4..<al]"
      "\<forall>i < length lens. (lens ! i - 1) div bs < length (rows ! i) \<and>
         slots ! i = int (rows ! i ! ((lens ! i - 1) div bs) * bs + (lens ! i - 1) mod bs)"
    using naive_decode_loop [OF assms(1,2)] by blast
  then show ?thesis using assms(3) by (auto simp: make_naive_mapping_def)
qed

end
