(* ===== verification/Queueing.thy ===== *)
theory Queueing
  imports Dicts
begin

text \<open>
  The model of \<open>simulator/queueing.py\<close>: batches wait at the layers of a pipeline, in every step
  one layer is chosen and up to \<open>max_bs\<close> of its tokens are processed, which come back to the
  next layer after the inter-layer latency. The priority queue is Python's \<open>heapq\<close>, on a list
  ordered by time.
\<close>

section \<open>Requests and the priority queue\<close>

record q_request =
  qr_layer :: nat
  qr_time :: real
  qr_n_tokens :: nat
  qr_seq_lens :: "nat list"
  qr_req_ids :: "nat list"

definition q_less :: "q_request \<Rightarrow> q_request \<Rightarrow> bool" where
  "q_less a b \<longleftrightarrow> qr_time a < qr_time b"

text \<open>\<open>_siftdown\<close> and \<open>_siftup\<close> of \<open>heapq\<close>: a hole at \<open>pos\<close> moves until \<open>x\<close> fits into it.\<close>

function sift_down :: "q_request list \<Rightarrow> nat \<Rightarrow> q_request \<Rightarrow> q_request list" where
  "sift_down h pos x =
     (if 0 < pos \<and> q_less x (h ! ((pos - 1) div 2))
      then sift_down (h[pos := h ! ((pos - 1) div 2)]) ((pos - 1) div 2) x
      else h[pos := x])"
  by pat_completeness auto
termination by (relation "measure (\<lambda>(h, pos, x). pos)") auto

declare sift_down.simps [simp del]

function sift_up :: "q_request list \<Rightarrow> nat \<Rightarrow> q_request \<Rightarrow> q_request list" where
  "sift_up h pos x =
     (if 2 * pos + 1 < length h
      then let child = (if 2 * pos + 2 < length h \<and> \<not> q_less (h ! (2 * pos + 1)) (h ! (2 * pos + 2))
                        then 2 * pos + 2 else 2 * pos + 1)
           in sift_up (h[pos := h ! child]) child x
      else sift_down h pos x)"
  by pat_completeness auto
termination by (relation "measure (\<lambda>(h, pos, x). length h - pos)") (auto split: if_splits)

declare sift_up.simps [simp del]

definition pq_put :: "q_request \<Rightarrow> q_request list \<Rightarrow> q_request list" where
  "pq_put x h = sift_down (h @ [x]) (length h) x"

definition pq_get :: "q_request list \<Rightarrow> (q_request \<times> q_request list) option" where
  "pq_get h =
     (if h = [] then None
      else let l = last h; h = butlast h
           in if h = [] then Some (l, []) else Some (h ! 0, sift_up h 0 l))"

section \<open>Scheduling\<close>

type_synonym waiting_queue = "(nat, q_request) dict"

definition schedule_largest_batch :: "waiting_queue \<Rightarrow> nat" where
  "schedule_largest_batch w =
     snd (fold (\<lambda>(layer, r) (n, sel). if qr_n_tokens r > n then (qr_n_tokens r, layer) else (n, sel)) w (0, 0))"

definition schedule_fcfs :: "waiting_queue \<Rightarrow> nat" where
  "schedule_fcfs w =
     snd (fold (\<lambda>(layer, r) (t, sel). if qr_time r > t then (qr_time r, layer) else (t, sel)) w (0, 0))"

definition schedule_0 :: "waiting_queue \<Rightarrow> nat" where
  "schedule_0 w = fst (hd w)"

section \<open>The simulation\<close>

record q_config =
  qc_n_layers :: nat
  qc_output_len :: nat
  qc_max_bs :: nat
  qc_t_calc :: real
  qc_itl :: real

record q_state =
  qs_cur :: real
  qs_pending :: "q_request list"
  qs_waiting :: waiting_queue
  qs_records :: "(nat, real list) dict"

definition q_init :: "real list \<Rightarrow> q_state" where
  "q_init arrivals = \<lparr>qs_cur = 0,
     qs_pending = fold (\<lambda>(i, a). pq_put \<lparr>qr_layer = 0, qr_time = a * 1000, qr_n_tokens = 1,
       qr_seq_lens = [0], qr_req_ids = [i]\<rparr>) (enumerate 0 arrivals) [],
     qs_waiting = [], qs_records = []\<rparr>"

definition merge_request :: "q_request \<Rightarrow> waiting_queue \<Rightarrow> waiting_queue" where
  "merge_request r w =
     (case map_of w (qr_layer r) of
        None \<Rightarrow> AList.update (qr_layer r) r w
      | Some o' \<Rightarrow> AList.update (qr_layer r) (o'\<lparr>qr_n_tokens := qr_n_tokens o' + qr_n_tokens r,
          qr_seq_lens := qr_seq_lens o' @ qr_seq_lens r, qr_req_ids := qr_req_ids o' @ qr_req_ids r\<rparr>) w)"

text \<open>Admission: requests whose time has come leave the queue; \<open>fuel\<close> is the length of the queue.\<close>

fun admit :: "nat \<Rightarrow> real \<Rightarrow> q_request list \<Rightarrow> waiting_queue \<Rightarrow> q_request list \<times> waiting_queue" where
  "admit 0 cur h w = (h, w)"
| "admit (Suc fuel) cur h w =
     (case pq_get h of
        None \<Rightarrow> (h, w)
      | Some (r, h') \<Rightarrow>
          if qr_time r > cur then (pq_put r h', w)
          else admit fuel cur h' (merge_request r w))"

definition take_batch :: "q_config \<Rightarrow> real \<Rightarrow> nat \<Rightarrow> q_request \<Rightarrow> waiting_queue \<Rightarrow> q_request \<times> waiting_queue" where
  "take_batch c cur layer r w =
     (if qr_n_tokens r \<le> qc_max_bs c then (r, AList.delete layer w)
      else (\<lparr>qr_layer = layer, qr_time = cur, qr_n_tokens = qc_max_bs c,
             qr_seq_lens = take (qc_max_bs c) (qr_seq_lens r), qr_req_ids = take (qc_max_bs c) (qr_req_ids r)\<rparr>,
            AList.update layer (r\<lparr>qr_n_tokens := qr_n_tokens r - qc_max_bs c,
              qr_seq_lens := drop (qc_max_bs c) (qr_seq_lens r),
              qr_req_ids := drop (qc_max_bs c) (qr_req_ids r)\<rparr>) w))"

text \<open>The loop over the tokens of the batch: a record for each, a length that grows by one.\<close>

definition record_tokens ::
  "real \<Rightarrow> q_request \<Rightarrow> (nat, real list) dict \<Rightarrow> (nat, real list) dict result" where
  "record_tokens cur r records =
     foldR (\<lambda>i recs. bindR (py_get (qr_req_ids r) (int i)) (\<lambda>q.
         Inr (AList.update q (d_get_or recs q [] @ [cur]) recs))) [0..<length (qr_seq_lens r)] records"

text \<open>The finished lengths are deleted, the ids stay.\<close>

definition advance :: "q_config \<Rightarrow> q_request \<Rightarrow> q_request" where
  "advance c r =
     (let lens = map Suc (qr_seq_lens r); left = filter (\<lambda>l. l \<noteq> qc_output_len c) lens
      in r\<lparr>qr_layer := (qr_layer r + 1) mod qc_n_layers c, qr_seq_lens := left,
           qr_n_tokens := qr_n_tokens r - (length lens - length left),
           qr_time := qr_time r + qc_itl c\<rparr>)"

definition q_step :: "q_config \<Rightarrow> (waiting_queue \<Rightarrow> nat) \<Rightarrow> q_state \<Rightarrow> q_state result" where
  "q_step c schedule s =
     (let cur = qs_cur s + qc_t_calc c;
          (pending, w) = admit (length (qs_pending s)) cur (qs_pending s) (qs_waiting s) in
      if w = [] then Inr (s\<lparr>qs_cur := cur, qs_pending := pending, qs_waiting := w\<rparr>)
      else let layer = schedule w in
        bindR (d_get w layer) (\<lambda>r.
        let (b, w) = take_batch c cur layer r w in
        bindR (record_tokens cur b (qs_records s)) (\<lambda>records.
        let b = advance c b in
          Inr \<lparr>qs_cur = cur, qs_pending = (if qr_n_tokens b > 0 then pq_put b pending else pending),
               qs_waiting = w, qs_records = records\<rparr>)))"

definition q_done :: "q_state \<Rightarrow> bool" where
  "q_done s \<longleftrightarrow> qs_pending s = [] \<and> qs_waiting s = []"

fun q_run :: "nat \<Rightarrow> q_config \<Rightarrow> (waiting_queue \<Rightarrow> nat) \<Rightarrow> q_state \<Rightarrow> q_state result" where
  "q_run fuel c schedule s =
     (if q_done s then Inr s
      else case fuel of
             0 \<Rightarrow> Inl NoReturn
           | Suc fuel \<Rightarrow> bindR (q_step c schedule s) (q_run fuel c schedule))"

text \<open>The inter-token latencies, request by request.\<close>

definition q_latencies :: "q_state \<Rightarrow> real list" where
  "q_latencies s = concat (map (\<lambda>(_, ts). map (\<lambda>i. ts ! i - ts ! (i - 1)) [1..<length ts]) (qs_records s))"

definition q_mean_latency :: "q_state \<Rightarrow> real" where
  "q_mean_latency s = sum_list (q_latencies s) / real (length (q_latencies s))"

section \<open>The queue keeps its requests\<close>

lemma mset_hole: "i < length h \<Longrightarrow> p < length h \<Longrightarrow> i \<noteq> p \<Longrightarrow> mset (h[i := h ! p, p := x]) = mset (h[i := x])"
  using mset_swap [of p "h[i := x]" i] by (simp add: list_update_swap [of i p])

lemma mset_sift_down: "pos < length h \<Longrightarrow> mset (sift_down h pos x) = mset (h[pos := x])"
proof (induction h pos x rule: sift_down.induct)
  case (1 h pos x)
  show ?case
  proof (cases "0 < pos \<and> q_less x (h ! ((pos - 1) div 2))")
    case True
    then have "(pos - 1) div 2 < length h" "pos \<noteq> (pos - 1) div 2" using "1.prems" by linarith+
    then show ?thesis
      using True 1 mset_hole [of pos h "(pos - 1) div 2" x] by (simp add: sift_down.simps [of h pos x])
  next
    case False
    then have "sift_down h pos x = h[pos := x]" by (auto simp: sift_down.simps [of h pos x])
    then show ?thesis by simp
  qed
qed

lemma mset_sift_up: "pos < length h \<Longrightarrow> mset (sift_up h pos x) = mset (h[pos := x])"
proof (induction h pos x rule: sift_up.induct)
  case (1 h pos x)
  let ?c = "if 2 * pos + 2 < length h \<and> \<not> q_less (h ! (2 * pos + 1)) (h ! (2 * pos + 2))
    then 2 * pos + 2 else 2 * pos + 1"
  show ?case
  proof (cases "2 * pos + 1 < length h")
    case True
    then have c: "?c < length h" "pos \<noteq> ?c" by auto
    have "mset (sift_up (h[pos := h ! ?c]) ?c x) = mset (h[pos := h ! ?c, ?c := x])"
      using "1.IH" [OF True refl] c(1) by simp
    also have "\<dots> = mset (h[pos := x])" by (rule mset_hole [OF "1.prems" c])
    finally show ?thesis using True by (simp only: sift_up.simps [of h pos x] Let_def if_True)
  qed (use 1 in \<open>simp add: sift_up.simps [of h pos x] mset_sift_down\<close>)
qed

lemma mset_pq_put: "mset (pq_put x h) = add_mset x (mset h)"
  by (simp add: pq_put_def mset_sift_down)

lemma mset_pq_get: "pq_get h = Some (r, h') \<Longrightarrow> mset h = add_mset r (mset h')"
proof -
  assume a: "pq_get h = Some (r, h')"
  then have ne: "h \<noteq> []" by (auto simp: pq_get_def)
  then have h: "h = butlast h @ [last h]" by simp
  show ?thesis
  proof (cases "butlast h")
    case Nil
    then show ?thesis using a ne h by (auto simp: pq_get_def Let_def)
  next
    case (Cons y ys)
    then have "r = y" "h' = sift_up (butlast h) 0 (last h)" using a ne by (auto simp: pq_get_def Let_def)
    then have "mset h' = mset ((butlast h)[0 := last h])" using Cons by (simp add: mset_sift_up)
    moreover have "mset h = mset (butlast h) + {#last h#}" using arg_cong [OF h, of mset] by simp
    ultimately show ?thesis using Cons \<open>r = y\<close> by simp
  qed
qed

lemma pq_get_None: "pq_get h = None \<longleftrightarrow> h = []"
  by (simp add: pq_get_def Let_def)

section \<open>The invariant\<close>

definition q_ok :: "q_config \<Rightarrow> q_request \<Rightarrow> bool" where
  "q_ok c r \<longleftrightarrow> qr_n_tokens r = length (qr_seq_lens r) \<and> 0 < qr_n_tokens r \<and>
     length (qr_seq_lens r) \<le> length (qr_req_ids r) \<and> (\<forall>l \<in> set (qr_seq_lens r). l < qc_output_len c)"

definition q_work :: "q_config \<Rightarrow> q_request \<Rightarrow> nat" where
  "q_work c r = sum_list (map (\<lambda>l. qc_output_len c - l) (qr_seq_lens r))"

definition w_work :: "q_config \<Rightarrow> waiting_queue \<Rightarrow> nat" where
  "w_work c w = sum_list (map (q_work c \<circ> snd) w)"

definition p_work :: "q_config \<Rightarrow> q_request list \<Rightarrow> nat" where
  "p_work c h = sum_list (map (q_work c) h)"

definition n_records :: "(nat, real list) dict \<Rightarrow> nat" where
  "n_records d = sum_list (map (length \<circ> snd) d)"

definition w_ok :: "q_config \<Rightarrow> waiting_queue \<Rightarrow> bool" where
  "w_ok c w \<longleftrightarrow> distinct (map fst w) \<and> (\<forall>p \<in> set w. q_ok c (snd p))"

definition sched_ok :: "(waiting_queue \<Rightarrow> nat) \<Rightarrow> bool" where
  "sched_ok schedule \<longleftrightarrow> (\<forall>w. w \<noteq> [] \<longrightarrow> (\<forall>p \<in> set w. 0 < qr_n_tokens (snd p)) \<longrightarrow> schedule w \<in> fst ` set w)"

lemma p_work_mset: "mset h = mset h' \<Longrightarrow> p_work c h = p_work c h'"
  unfolding p_work_def by (metis mset_map sum_mset_sum_list)

lemma p_work_add: "mset h = add_mset r (mset h') \<Longrightarrow> p_work c h = q_work c r + p_work c h'"
  using p_work_mset [of h "r # h'" c] by (simp add: p_work_def)

lemma sum_update:
  "distinct (map fst w) \<Longrightarrow> sum_list (map (f \<circ> snd) (AList.update k v w)) + (case map_of w k of None \<Rightarrow> 0 | Some o' \<Rightarrow> f o')
     = sum_list (map (f \<circ> snd) w) + (f v :: nat)"
proof (induction w)
  case (Cons p w)
  show ?case
  proof (cases "fst p = k")
    case True
    then have "map_of w k = None" using Cons.prems by (auto simp: map_of_eq_None_iff)
    then show ?thesis using True by (cases p) simp
  next
    case False
    then show ?thesis using Cons by (cases p) (simp split: option.splits)
  qed
qed simp

lemma sum_delete:
  "distinct (map fst w) \<Longrightarrow> map_of w k = Some o' \<Longrightarrow>
     sum_list (map (f \<circ> snd) (AList.delete k w)) + (f o' :: nat) = sum_list (map (f \<circ> snd) w)"
proof (induction w)
  case (Cons p w)
  show ?case
  proof (cases "fst p = k")
    case True
    then have "AList.delete k w = w" using Cons.prems by (simp add: delete_id)
    then show ?thesis using True Cons.prems by (cases p) simp
  next
    case False
    then show ?thesis using Cons by (cases p) simp
  qed
qed simp

lemma set_update: "set (AList.update k v w) \<subseteq> insert (k, v) (set w)"
  by (induction w) auto

lemma update_ok:
  "w_ok c w \<Longrightarrow> q_ok c v \<Longrightarrow> w_ok c (AList.update k v w)"
  using set_update [of k v w] by (auto simp: w_ok_def distinct_update)

lemma delete_ok: "w_ok c w \<Longrightarrow> w_ok c (AList.delete k w)"
proof -
  have "set (AList.delete k w) \<subseteq> set w" by (auto simp: AList.delete_eq)
  then show "w_ok c w \<Longrightarrow> w_ok c (AList.delete k w)" by (auto simp: w_ok_def distinct_delete)
qed

lemma largest_batch_ok: "sched_ok schedule_largest_batch"
  unfolding sched_ok_def
proof (intro allI impI)
  fix w :: waiting_queue
  assume ne: "w \<noteq> []" and pos: "\<forall>p \<in> set w. 0 < qr_n_tokens (snd p)"
  let ?f = "\<lambda>(layer, r) (n, sel). if qr_n_tokens r > n then (qr_n_tokens r, layer) else (n, sel)"
  have "(let (n, sel) = fold ?f v (0, 0) in (v = [] \<and> n = 0) \<or> (0 < n \<and> sel \<in> fst ` set v))"
    if "\<forall>p \<in> set v. 0 < qr_n_tokens (snd p)" for v
    using that
  proof (induction v rule: rev_induct)
    case (snoc p v)
    then show ?case by (cases "fold ?f v (0, 0)") (auto split: prod.splits)
  qed simp
  from this [OF pos] show "schedule_largest_batch w \<in> fst ` set w"
    using ne by (auto simp: schedule_largest_batch_def split: prod.splits)
qed

lemma schedule_0_ok: "sched_ok schedule_0"
  by (auto simp: sched_ok_def schedule_0_def)

section \<open>One step\<close>

lemma merge_ok:
  assumes "w_ok c w" and "q_ok c r"
  shows "w_ok c (merge_request r w)" and "w_work c (merge_request r w) = w_work c w + q_work c r"
    and "merge_request r w \<noteq> []"
proof -
  have d: "distinct (map fst w)" using assms(1) by (simp add: w_ok_def)
  have ne: "AList.update k v w \<noteq> []" for k v
    using keys_update [of k v w] by auto
  show "w_ok c (merge_request r w)" "w_work c (merge_request r w) = w_work c w + q_work c r"
    "merge_request r w \<noteq> []"
  proof (atomize (full), cases "map_of w (qr_layer r)")
    case None
    then show "w_ok c (merge_request r w) \<and> w_work c (merge_request r w) = w_work c w + q_work c r \<and>
        merge_request r w \<noteq> []"
      using update_ok [OF assms] sum_update [OF d, of "q_work c" "qr_layer r" r] ne
      by (simp add: merge_request_def w_work_def)
  next
    case (Some o')
    let ?v = "o'\<lparr>qr_n_tokens := qr_n_tokens o' + qr_n_tokens r,
          qr_seq_lens := qr_seq_lens o' @ qr_seq_lens r, qr_req_ids := qr_req_ids o' @ qr_req_ids r\<rparr>"
    have "(qr_layer r, o') \<in> set w" using Some by (rule map_of_SomeD)
    then have "q_ok c o'" using assms(1) by (auto simp: w_ok_def)
    then have "q_ok c ?v" "q_work c ?v = q_work c o' + q_work c r"
      using assms(2) by (auto simp: q_ok_def q_work_def)
    then show "w_ok c (merge_request r w) \<and> w_work c (merge_request r w) = w_work c w + q_work c r \<and>
        merge_request r w \<noteq> []"
      using Some update_ok [OF assms(1)] sum_update [OF d, of "q_work c" "qr_layer r" ?v] ne
      by (simp add: merge_request_def w_work_def)
  qed
qed

text \<open>Admission loses nothing; when it leaves no one waiting, the queue is as it was.\<close>

lemma admit_keeps:
  assumes "admit fuel cur h w = (h', w')" and "\<forall>r \<in> set h. q_ok c r" and "w_ok c w" and "length h \<le> fuel"
  shows "(\<forall>r \<in> set h'. q_ok c r) \<and> w_ok c w' \<and> p_work c h' + w_work c w' = p_work c h + w_work c w \<and>
    (w' = [] \<longrightarrow> w = [] \<and> mset h' = mset h \<and> (h = [] \<or> (\<exists>r \<in> set h. cur < qr_time r)))"
  using assms
proof (induction fuel arbitrary: h w)
  case (Suc fuel)
  show ?case
  proof (cases "pq_get h")
    case None
    then have "h = []" by (simp add: pq_get_None)
    then show ?thesis using Suc.prems None by auto
  next
    case (Some p)
    obtain r h1 where p: "p = (r, h1)" by (cases p)
    have m: "mset h = add_mset r (mset h1)" using mset_pq_get Some p by blast
    then have s: "set h = insert r (set h1)" by (metis set_mset_add_mset_insert set_mset_mset)
    have r: "q_ok c r" using Suc.prems(2) s by blast
    show ?thesis
    proof (cases "cur < qr_time r")
      case True
      then have e: "h' = pq_put r h1" "w' = w" using Suc.prems(1) Some p by auto
      then have m': "mset h' = mset h" using m by (simp add: mset_pq_put)
      then have "set h' = set h" by (metis set_mset_mset)
      then show ?thesis using Suc.prems(2,3) e(2) m' p_work_mset [OF m'] True s by auto
    next
      case False
      then have rec: "admit fuel cur h1 (merge_request r w) = (h', w')" using Suc.prems(1) Some p by simp
      have "length h = Suc (length h1)" using arg_cong [OF m, of size] by simp
      then have fuel: "length h1 \<le> fuel" using Suc.prems(4) by simp
      note mg = merge_ok [OF Suc.prems(3) r]
      have "\<forall>r \<in> set h1. q_ok c r" using Suc.prems(2) s by blast
      from Suc.IH [OF rec this mg(1) fuel] show ?thesis
        using mg(2,3) p_work_add [OF m, of c] by auto
    qed
  qed
qed simp

lemma record_tokens_total:
  assumes "q_ok c r"
  shows "\<exists>recs'. record_tokens cur r recs = Inr recs' \<and>
    (distinct (map fst recs) \<longrightarrow> distinct (map fst recs') \<and> n_records recs' = n_records recs + length (qr_seq_lens r))"
proof -
  have "\<exists>recs'. foldR (\<lambda>i recs. bindR (py_get (qr_req_ids r) (int i)) (\<lambda>q.
         Inr (AList.update q (d_get_or recs q [] @ [cur]) recs))) [0..<k] recs = Inr recs' \<and>
      (distinct (map fst recs) \<longrightarrow> distinct (map fst recs') \<and> n_records recs' = n_records recs + k)"
    if "k \<le> length (qr_req_ids r)" for k
    using that
  proof (induction k)
    case (Suc k)
    then obtain recs1 where r1: "foldR (\<lambda>i recs. bindR (py_get (qr_req_ids r) (int i)) (\<lambda>q.
         Inr (AList.update q (d_get_or recs q [] @ [cur]) recs))) [0..<k] recs = Inr recs1"
        "distinct (map fst recs) \<longrightarrow> distinct (map fst recs1) \<and> n_records recs1 = n_records recs + k" by auto
    let ?q = "qr_req_ids r ! k"
    have "n_records (AList.update ?q (d_get_or recs1 ?q [] @ [cur]) recs1) = n_records recs1 + 1"
      if "distinct (map fst recs1)"
      using sum_update [OF that, of length ?q "d_get_or recs1 ?q [] @ [cur]"]
      by (simp add: n_records_def d_get_or_def split: option.splits)
    then show ?case using r1 Suc.prems by (simp add: foldR_append distinct_update)
  qed simp
  then show ?thesis using assms by (simp add: record_tokens_def q_ok_def)
qed

lemma advance_work:
  assumes "\<forall>l \<in> set (qr_seq_lens r). l < qc_output_len c" and "qr_n_tokens r = length (qr_seq_lens r)"
    and "length (qr_seq_lens r) \<le> length (qr_req_ids r)"
  shows "q_work c (advance c r) + length (qr_seq_lens r) = q_work c r"
    and "qr_n_tokens (advance c r) > 0 \<Longrightarrow> q_ok c (advance c r)"
    and "qr_n_tokens (advance c r) = 0 \<Longrightarrow> q_work c (advance c r) = 0"
proof -
  let ?O = "qc_output_len c"
  have w: "sum_list (map (\<lambda>l. ?O - l) (filter (\<lambda>l. l \<noteq> ?O) (map Suc ls))) + length ls = sum_list (map (\<lambda>l. ?O - l) ls)"
    if "\<forall>l \<in> set ls. l < ?O" for ls
    using that by (induction ls) auto
  show "q_work c (advance c r) + length (qr_seq_lens r) = q_work c r"
    using w [OF assms(1)] by (simp add: q_work_def advance_def Let_def)
  let ?left = "filter (\<lambda>l. l \<noteq> ?O) (map Suc (qr_seq_lens r))"
  have le: "length ?left \<le> length (qr_seq_lens r)"
    using length_filter_le [of "\<lambda>l. l \<noteq> ?O" "map Suc (qr_seq_lens r)"] by simp
  then have n: "qr_n_tokens (advance c r) = length ?left" using assms(2) by (simp add: advance_def Let_def)
  have b: "\<forall>l \<in> set ?left. l < ?O" using assms(1) by (auto simp: le_less Suc_le_eq)
  show "q_ok c (advance c r)" if "qr_n_tokens (advance c r) > 0"
  proof -
    have e: "qr_seq_lens (advance c r) = ?left" "qr_req_ids (advance c r) = qr_req_ids r"
      by (simp_all add: advance_def Let_def)
    show ?thesis using that b le_trans [OF le assms(3)] unfolding q_ok_def e n by blast
  qed
  show "q_work c (advance c r) = 0" if "qr_n_tokens (advance c r) = 0"
  proof -
    have "?left = []" using that unfolding n by (rule length_0_conv [THEN iffD1])
    moreover have "qr_seq_lens (advance c r) = ?left" by (simp add: advance_def Let_def)
    ultimately have "qr_seq_lens (advance c r) = []" by simp
    then show ?thesis by (simp add: q_work_def)
  qed
qed

lemma take_batch_parts:
  assumes w: "w_ok c w" and r: "map_of w layer = Some r" and mx: "0 < qc_max_bs c"
    and b: "take_batch c cur layer r w = (b, w')"
  shows "q_ok c b" and "w_ok c w'" and "q_work c b + w_work c w' = w_work c w"
proof -
  have d: "distinct (map fst w)" using w by (simp add: w_ok_def)
  have "(layer, r) \<in> set w" using r by (rule map_of_SomeD)
  then have ok: "q_ok c r" using w by (auto simp: w_ok_def)
  show "q_ok c b" "w_ok c w'" "q_work c b + w_work c w' = w_work c w"
  proof (atomize (full), cases "qr_n_tokens r \<le> qc_max_bs c")
    case True
    then have "b = r" "w' = AList.delete layer w" using b by (auto simp: take_batch_def)
    then show "q_ok c b \<and> w_ok c w' \<and> q_work c b + w_work c w' = w_work c w"
      using ok delete_ok [OF w] sum_delete [OF d r, of "q_work c"] by (simp add: w_work_def)
  next
    case False
    let ?m = "qc_max_bs c"
    let ?rest = "r\<lparr>qr_n_tokens := qr_n_tokens r - ?m, qr_seq_lens := drop ?m (qr_seq_lens r),
      qr_req_ids := drop ?m (qr_req_ids r)\<rparr>"
    have e: "qr_seq_lens b = take ?m (qr_seq_lens r)" "qr_n_tokens b = ?m" "qr_req_ids b = take ?m (qr_req_ids r)"
      "w' = AList.update layer ?rest w" using b False by (auto simp: take_batch_def)
    have "q_ok c b" using ok False mx e(1-3) by (auto simp: q_ok_def dest: in_set_takeD)
    moreover have "q_ok c ?rest" using ok False by (auto simp: q_ok_def dest: in_set_dropD)
    moreover have "q_work c b + q_work c ?rest = q_work c r"
      by (simp add: q_work_def e(1) take_map [symmetric] drop_map [symmetric] flip: sum_list_append)
    ultimately show "q_ok c b \<and> w_ok c w' \<and> q_work c b + w_work c w' = w_work c w"
      using update_ok [OF w] sum_update [OF d, of "q_work c" layer ?rest] r e(4) by (simp add: w_work_def)
  qed
qed

definition q_inv :: "q_config \<Rightarrow> nat \<Rightarrow> q_state \<Rightarrow> bool" where
  "q_inv c ntot s \<longleftrightarrow> (\<forall>r \<in> set (qs_pending s). q_ok c r) \<and> w_ok c (qs_waiting s) \<and>
     distinct (map fst (qs_records s)) \<and>
     n_records (qs_records s) + p_work c (qs_pending s) + w_work c (qs_waiting s) = ntot"

text \<open>
  A step loses no token: it serves at least one, or nobody waits and the clock moves towards
  the next request.
\<close>

lemma q_step_progress:
  assumes inv: "q_inv c N s" and sched: "sched_ok schedule" and mx: "0 < qc_max_bs c" and nd: "\<not> q_done s"
  shows "\<exists>s'. q_step c schedule s = Inr s' \<and> q_inv c N s' \<and>
    (n_records (qs_records s) < n_records (qs_records s') \<or>
     (n_records (qs_records s') = n_records (qs_records s) \<and> qs_waiting s' = [] \<and>
      mset (qs_pending s') = mset (qs_pending s) \<and>
      qs_cur s' = qs_cur s + qc_t_calc c \<and> (\<exists>r \<in> set (qs_pending s). qs_cur s' < qr_time r)))"
proof -
  define cur where "cur = qs_cur s + qc_t_calc c"
  obtain h w where ad: "admit (length (qs_pending s)) cur (qs_pending s) (qs_waiting s) = (h, w)" by fastforce
  from admit_keeps [OF ad, of c] inv have k: "\<forall>r \<in> set h. q_ok c r" "w_ok c w"
      "p_work c h + w_work c w = p_work c (qs_pending s) + w_work c (qs_waiting s)"
      "w = [] \<longrightarrow> qs_waiting s = [] \<and> mset h = mset (qs_pending s) \<and>
        (qs_pending s = [] \<or> (\<exists>r \<in> set (qs_pending s). cur < qr_time r))"
    by (auto simp: q_inv_def)
  show ?thesis
  proof (cases "w = []")
    case True
    then have "q_step c schedule s = Inr (s\<lparr>qs_cur := cur, qs_pending := h, qs_waiting := w\<rparr>)"
      using ad by (simp add: q_step_def Let_def cur_def)
    moreover have "qs_pending s \<noteq> []" using nd k(4) True by (auto simp: q_done_def)
    ultimately show ?thesis using k True inv by (auto simp: q_inv_def cur_def)
  next
    case False
    have pos: "\<forall>p \<in> set w. 0 < qr_n_tokens (snd p)" using k(2) by (auto simp: w_ok_def q_ok_def)
    define layer where "layer = schedule w"
    have "layer \<in> fst ` set w" using sched False pos by (simp add: sched_ok_def layer_def)
    then obtain r where r: "map_of w layer = Some r" by (metis map_of_eq_None_iff option.exhaust)
    obtain b w' where b: "take_batch c cur layer r w = (b, w')" by fastforce
    note tb = take_batch_parts [OF k(2) r mx b]
    obtain recs where recs: "record_tokens cur b (qs_records s) = Inr recs"
        "distinct (map fst recs)" "n_records recs = n_records (qs_records s) + length (qr_seq_lens b)"
      using record_tokens_total [OF tb(1)] inv by (fastforce simp: q_inv_def)
    define b' where "b' = advance c b"
    have bok: "\<forall>l \<in> set (qr_seq_lens b). l < qc_output_len c" "qr_n_tokens b = length (qr_seq_lens b)"
      "length (qr_seq_lens b) \<le> length (qr_req_ids b)" "0 < length (qr_seq_lens b)"
      using tb(1) by (auto simp: q_ok_def)
    note av = advance_work [OF bok(1-3), folded b'_def]
    define h' where "h' = (if qr_n_tokens b' > 0 then pq_put b' h else h)"
    have h': "(\<forall>r \<in> set h'. q_ok c r) \<and> p_work c h' = p_work c h + q_work c b'"
    proof (cases "qr_n_tokens b' > 0")
      case True
      then have m: "mset h' = add_mset b' (mset h)" by (simp add: h'_def mset_pq_put)
      then have "set h' = insert b' (set h)" by (metis set_mset_add_mset_insert set_mset_mset)
      then show ?thesis using k(1) av(2) True p_work_add [OF m, of c] by auto
    qed (use k(1) av(3) in \<open>simp add: h'_def\<close>)
    have "q_step c schedule s = Inr \<lparr>qs_cur = cur, qs_pending = h', qs_waiting = w', qs_records = recs\<rparr>"
      using ad False r b recs(1)
      by (simp add: q_step_def Let_def cur_def [symmetric] layer_def [symmetric] d_get_def
          b'_def [symmetric] h'_def)
    moreover have "q_inv c N \<lparr>qs_cur = cur, qs_pending = h', qs_waiting = w', qs_records = recs\<rparr>"
      using inv h' tb recs k(3) av(1) by (simp add: q_inv_def)
    ultimately show ?thesis using recs(3) bok(4) by auto
  qed
qed

section \<open>The simulation ends\<close>

definition q_distance :: "q_config \<Rightarrow> q_state \<Rightarrow> nat" where
  "q_distance c s = (if qs_pending s = [] then 0
     else nat \<lceil>(Max (qr_time ` set (qs_pending s)) - qs_cur s) / qc_t_calc c\<rceil>)"

lemma q_idle_closer:
  assumes t: "0 < qc_t_calc c" and m: "mset (qs_pending s') = mset (qs_pending s)"
    and cur: "qs_cur s' = qs_cur s + qc_t_calc c" and r: "r \<in> set (qs_pending s)" "qs_cur s' < qr_time r"
  shows "q_distance c s' < q_distance c s"
proof -
  have st: "set (qs_pending s') = set (qs_pending s)" using m by (metis set_mset_mset)
  let ?M = "Max (qr_time ` set (qs_pending s))"
  have "qr_time r \<le> ?M" using r(1) by (intro Max_ge) auto
  then have gt: "0 < (?M - qs_cur s') / qc_t_calc c" using r(2) t by simp
  have "(?M - qs_cur s) / qc_t_calc c = (?M - qs_cur s') / qc_t_calc c + 1"
    using t cur by (simp add: field_simps)
  then have "\<lceil>(?M - qs_cur s) / qc_t_calc c\<rceil> = \<lceil>(?M - qs_cur s') / qc_t_calc c\<rceil> + 1" by simp
  moreover have "0 < \<lceil>(?M - qs_cur s') / qc_t_calc c\<rceil>" using gt by simp
  moreover have "qs_pending s \<noteq> []" "qs_pending s' \<noteq> []" using r(1) st by auto
  ultimately show ?thesis using st by (simp add: q_distance_def)
qed

theorem queueing_completes:
  assumes inv: "q_inv c N s" and sched: "sched_ok schedule" and mx: "0 < qc_max_bs c" and t: "0 < qc_t_calc c"
  shows "\<exists>fuel s'. q_run fuel c schedule s = Inr s' \<and> q_done s' \<and> n_records (qs_records s') = N"
  using inv
proof (induction s rule: wf_induct_rule [OF wf_inv_image [OF wf_lex_prod [OF wf_less wf_less],
      of "\<lambda>s. (N - n_records (qs_records s), q_distance c s)"]])
  case (1 s)
  have le: "n_records (qs_records s) \<le> N" using "1.prems" by (simp add: q_inv_def)
  show ?case
  proof (cases "q_done s")
    case True
    then have "n_records (qs_records s) = N"
      using "1.prems" by (simp add: q_inv_def q_done_def p_work_def w_work_def)
    moreover have "q_run 0 c schedule s = Inr s" using True by simp
    ultimately show ?thesis using True by blast
  next
    case False
    obtain s1 where s1: "q_step c schedule s = Inr s1" "q_inv c N s1"
        "n_records (qs_records s) < n_records (qs_records s1) \<or>
         (n_records (qs_records s1) = n_records (qs_records s) \<and> qs_waiting s1 = [] \<and>
          mset (qs_pending s1) = mset (qs_pending s) \<and>
          qs_cur s1 = qs_cur s + qc_t_calc c \<and> (\<exists>r \<in> set (qs_pending s). qs_cur s1 < qr_time r))"
      using q_step_progress [OF "1.prems" sched mx False] by blast
    have "n_records (qs_records s1) \<le> N" using s1(2) by (simp add: q_inv_def)
    then have "(s1, s) \<in> inv_image ({(x, y). x < y} <*lex*> {(x, y). x < y})
        (\<lambda>s. (N - n_records (qs_records s), q_distance c s))"
      using s1(3) q_idle_closer [OF t, of s1 s] by auto
    from "1.IH" [OF this s1(2)] obtain fuel s' where
      "q_run fuel c schedule s1 = Inr s'" "q_done s'" "n_records (qs_records s') = N" by blast
    then have "q_run (Suc fuel) c schedule s = Inr s'" using s1(1) False by simp
    then show ?thesis using \<open>q_done s'\<close> \<open>n_records (qs_records s') = N\<close> by blast
  qed
qed

text \<open>From the arrivals on: one token of each request, \<open>output_len\<close> records in all for each.\<close>

lemma q_init_inv:
  assumes "0 < qc_output_len c"
  shows "q_inv c (length arrivals * qc_output_len c) (q_init arrivals)"
proof -
  let ?put = "\<lambda>(i, a). pq_put \<lparr>qr_layer = 0, qr_time = a * 1000, qr_n_tokens = 1,
       qr_seq_lens = [0], qr_req_ids = [i]\<rparr>"
  have "(\<forall>r \<in> set (fold ?put xs h). q_ok c r) \<and>
      p_work c (fold ?put xs h) = p_work c h + length xs * qc_output_len c"
    if "\<forall>r \<in> set h. q_ok c r" for xs h
    using that
  proof (induction xs arbitrary: h)
    case (Cons x xs)
    obtain i a where x: "x = (i, a)" by (cases x)
    let ?r = "\<lparr>qr_layer = 0, qr_time = a * 1000, qr_n_tokens = 1, qr_seq_lens = [0], qr_req_ids = [i]\<rparr>"
    have m: "mset (pq_put ?r h) = add_mset ?r (mset h)" by (rule mset_pq_put)
    then have "set (pq_put ?r h) = insert ?r (set h)" by (metis set_mset_add_mset_insert set_mset_mset)
    moreover have "q_ok c ?r" using assms by (simp add: q_ok_def)
    ultimately have "\<forall>r \<in> set (pq_put ?r h). q_ok c r" using Cons.prems by simp
    from Cons.IH [OF this] show ?case using p_work_add [OF m, of c] by (simp add: x q_work_def)
  qed simp
  from this [of "[]" "enumerate 0 arrivals"] show ?thesis
    by (simp add: q_inv_def q_init_def w_ok_def w_work_def n_records_def p_work_def)
qed

lemma queueing_serves_all:
  assumes "0 < qc_output_len c" and "0 < qc_max_bs c" and "0 < qc_t_calc c"
  shows "\<exists>fuel s'. q_run fuel c schedule_largest_batch (q_init arrivals) = Inr s' \<and> q_done s' \<and>
    n_records (qs_records s') = length arrivals * qc_output_len c"
  by (rule queueing_completes [OF q_init_inv [OF assms(1)] largest_batch_ok assms(2,3)])

section \<open>Where the simulator fails\<close>

text \<open>
  A finished length is deleted from its list but its id is not, so the ids shift against the
  lengths: here request 7 has finished, and the next token of request 8 is charged to it.
\<close>

lemma ids_shift:
  defines "c \<equiv> \<lparr>qc_n_layers = 4, qc_output_len = 2, qc_max_bs = 8, qc_t_calc = 1, qc_itl = 1\<rparr>"
  defines "b \<equiv> advance c \<lparr>qr_layer = 0, qr_time = 0, qr_n_tokens = 2, qr_seq_lens = [1, 0], qr_req_ids = [7, 8]\<rparr>"
  shows "qr_seq_lens b = [1]" and "record_tokens 5 b [] = Inr [(7, [5])]"
  by (simp_all add: c_def b_def advance_def record_tokens_def d_get_or_def py_get_def py_pos_def Let_def)

text \<open>\<open>schedule_fcfs\<close> takes the layer whose request came last.\<close>

lemma fcfs_takes_last:
  "schedule_fcfs [(0, \<lparr>qr_layer = 0, qr_time = 1, qr_n_tokens = 1, qr_seq_lens = [0], qr_req_ids = [0]\<rparr>),
                  (1, \<lparr>qr_layer = 1, qr_time = 9, qr_n_tokens = 1, qr_seq_lens = [0], qr_req_ids = [1]\<rparr>)] = 1"
  by (simp add: schedule_fcfs_def)

text \<open>
  A batch that is not split keeps the time at which it became ready, so its waiting time is
  lost: served at time 100 it is due again at time 6.
\<close>

lemma unsplit_batch_forgets_waiting:
  defines "c \<equiv> \<lparr>qc_n_layers = 4, qc_output_len = 2, qc_max_bs = 8, qc_t_calc = 1, qc_itl = 5\<rparr>"
  defines "r \<equiv> \<lparr>qr_layer = 0, qr_time = 1, qr_n_tokens = 1, qr_seq_lens = [0], qr_req_ids = [7]\<rparr>"
  shows "qr_time (advance c (fst (take_batch c 100 0 r [(0, r)]))) = 6"
  by (simp add: c_def r_def advance_def take_batch_def Let_def)

end
