(* ===== verification/GraphKernels.thy ===== *)
theory GraphKernels
  imports Prelude "HOL-Library.Multiset"
begin

text \<open>
  The Triton kernels of \<open>disagmoe/ops/cuda_graph.py\<close> that copy a decode batch into the static
  buffers of a CUDA graph, with the launches of \<open>benchmark/ops/cuda_graph_preprocess.py\<close>. A
  program is the list of the stores it makes: loads only read the batch, which no program
  writes, so a launch is described by its stores and may carry them out in any order. The two
  kernels are compared with the copies by slices (\<open>cuda_graph_preprocess_non_fused\<close>).
\<close>

section \<open>Memory and masked copies\<close>

text \<open>The seven tensors of a batch; the static buffers have the same seven.\<close>

datatype buf = Hidden | Positions | SlotMapping | BlockTable | SeqLens | ContextLens | SeqStartLoc

type_synonym 'v memory = "buf \<Rightarrow> nat \<Rightarrow> 'v"
type_synonym 'v store = "buf \<times> nat \<times> 'v"

definition apply_stores :: "'v store list \<Rightarrow> 'v memory \<Rightarrow> 'v memory" where
  "apply_stores = fold (\<lambda>(b, a, v) M. M(b := (M b)(a := v)))"

text \<open>\<open>tl.store(dst + .., tl.load(src + .., mask), mask)\<close> over a block of indices.\<close>

definition tl_copy ::
  "buf \<Rightarrow> ('i \<Rightarrow> nat) \<Rightarrow> ('i \<Rightarrow> nat) \<Rightarrow> ('i \<Rightarrow> bool) \<Rightarrow> 'i list \<Rightarrow> 'v memory \<Rightarrow> 'v store list" where
  "tl_copy b dst src m idx S = map (\<lambda>i. (b, dst i, S b (src i))) (filter m idx)"

definition tl_arange :: "nat \<Rightarrow> nat \<Rightarrow> nat list" where
  "tl_arange offset n = map (\<lambda>i. offset + i) [0..<n]"

definition cdiv :: "nat \<Rightarrow> nat \<Rightarrow> nat" where
  "cdiv n k = (n + k - 1) div k"

section \<open>The first kernel\<close>

record copy_args =
  ca_num_tokens :: nat
  ca_hidden_dim :: nat
  ca_max_num_blocks :: nat
  ca_static_input_stride :: nat
  ca_hidden_states_stride :: nat
  ca_static_table_stride_0 :: nat
  ca_static_table_stride_1 :: nat
  ca_table_stride_0 :: nat
  ca_table_stride_1 :: nat

text \<open>The tensors with one entry for each token.\<close>

definition token_bufs :: "buf list" where
  "token_bufs = [Positions, SlotMapping, SeqLens, ContextLens]"

definition preprocess_program ::
  "copy_args \<Rightarrow> nat \<Rightarrow> nat \<Rightarrow> 'v memory \<Rightarrow> nat \<times> nat \<Rightarrow> 'v store list" where
  "preprocess_program c TB HB S pid =
     (let (pid_token, pid_hidden) = pid; n = ca_num_tokens c;
          ts = tl_arange (pid_token * TB) TB; hs = tl_arange (pid_hidden * HB) HB in
      (if pid_hidden < cdiv (ca_hidden_dim c) HB then
         tl_copy Hidden (\<lambda>(t, h). t * ca_static_input_stride c + h) (\<lambda>(t, h). t * ca_hidden_states_stride c + h)
           (\<lambda>(t, h). t < n \<and> h < ca_hidden_dim c) (List.product ts hs) S
       else []) @
      (if pid_hidden = 0 then concat (map (\<lambda>b. tl_copy b id id (\<lambda>t. t < n) ts S) token_bufs) else []) @
      (if pid_hidden = 0 then tl_copy SeqStartLoc id id (\<lambda>t. t < n + 1) ts S else []) @
      (if pid_hidden < cdiv (ca_max_num_blocks c) HB then
         tl_copy BlockTable
           (\<lambda>(t, k). t * ca_static_table_stride_0 c + k * ca_static_table_stride_1 c)
           (\<lambda>(t, k). t * ca_table_stride_0 c + k * ca_table_stride_1 c)
           (\<lambda>(t, k). t < n \<and> k < ca_max_num_blocks c) (List.product ts hs) S
       else []))"

text \<open>The grid of the launch.\<close>

definition preprocess_grid :: "copy_args \<Rightarrow> nat \<Rightarrow> nat \<Rightarrow> (nat \<times> nat) list" where
  "preprocess_grid c TB HB =
     List.product [0..<cdiv (ca_num_tokens c) TB]
       [0..<max (cdiv (ca_hidden_dim c) HB) (cdiv (ca_max_num_blocks c) HB)]"

definition preprocess_launch :: "copy_args \<Rightarrow> nat \<Rightarrow> nat \<Rightarrow> 'v memory \<Rightarrow> 'v store list" where
  "preprocess_launch c TB HB S = concat (map (preprocess_program c TB HB S) (preprocess_grid c TB HB))"

section \<open>The second kernel\<close>

text \<open>A loop over an axis in steps of \<open>BLOCK\<close>: one masked copy for each step.\<close>

definition block_loop :: "nat \<Rightarrow> nat \<Rightarrow> (nat list \<Rightarrow> 'v store list) \<Rightarrow> 'v store list" where
  "block_loop n BLOCK body = concat (map (\<lambda>k. body (tl_arange (k * BLOCK) BLOCK)) [0..<cdiv n BLOCK])"

definition preprocess_opt_program ::
  "nat \<Rightarrow> nat \<Rightarrow> nat \<Rightarrow> nat \<Rightarrow> 'v memory \<Rightarrow> nat \<Rightarrow> 'v store list" where
  "preprocess_opt_program T H B BLOCK S pid =
     (if pid < T then
        block_loop H BLOCK (\<lambda>idx. tl_copy Hidden (\<lambda>i. pid * H + i) (\<lambda>i. pid * H + i) (\<lambda>i. i < H) idx S) @
        block_loop B BLOCK (\<lambda>idx. tl_copy BlockTable (\<lambda>i. pid * B + i) (\<lambda>i. pid * B + i) (\<lambda>i. i < B) idx S)
      else if pid = T then
        concat (map (\<lambda>b. block_loop T BLOCK (\<lambda>idx. tl_copy b id id (\<lambda>i. i < T) idx S)) token_bufs) @
        block_loop (T + 1) BLOCK (\<lambda>idx. tl_copy SeqStartLoc id id (\<lambda>i. i < T + 1) idx S)
      else [])"

definition preprocess_opt_launch :: "nat \<Rightarrow> nat \<Rightarrow> nat \<Rightarrow> nat \<Rightarrow> 'v memory \<Rightarrow> 'v store list" where
  "preprocess_opt_launch T H B BLOCK S = concat (map (preprocess_opt_program T H B BLOCK S) [0..<T + 1])"

section \<open>The copies by slices\<close>

definition non_fused_stores :: "copy_args \<Rightarrow> 'v memory \<Rightarrow> 'v store list" where
  "non_fused_stores c S =
     (let n = ca_num_tokens c in
      tl_copy Hidden (\<lambda>(t, h). t * ca_static_input_stride c + h) (\<lambda>(t, h). t * ca_hidden_states_stride c + h)
        (\<lambda>_. True) (List.product [0..<n] [0..<ca_hidden_dim c]) S @
      tl_copy Positions id id (\<lambda>_. True) [0..<n] S @
      tl_copy SlotMapping id id (\<lambda>_. True) [0..<n] S @
      tl_copy BlockTable
        (\<lambda>(t, k). t * ca_static_table_stride_0 c + k * ca_static_table_stride_1 c)
        (\<lambda>(t, k). t * ca_table_stride_0 c + k * ca_table_stride_1 c)
        (\<lambda>_. True) (List.product [0..<n] [0..<ca_max_num_blocks c]) S @
      tl_copy SeqLens id id (\<lambda>_. True) [0..<n] S @
      tl_copy ContextLens id id (\<lambda>_. True) [0..<n] S @
      tl_copy SeqStartLoc id id (\<lambda>_. True) [0..<n + 1] S)"

definition non_fused :: "copy_args \<Rightarrow> 'v memory \<Rightarrow> 'v memory \<Rightarrow> 'v memory" where
  "non_fused c S = apply_stores (non_fused_stores c S)"

section \<open>Stores in any order\<close>

text \<open>No two stores disagree on the value of an address.\<close>

definition consistent :: "'v store set \<Rightarrow> bool" where
  "consistent W \<longleftrightarrow> (\<forall>b a v v'. (b, a, v) \<in> W \<longrightarrow> (b, a, v') \<in> W \<longrightarrow> v = v')"

lemma apply_stores_at:
  assumes "consistent (set ws)"
  shows "apply_stores ws M b a =
    (if \<exists>v. (b, a, v) \<in> set ws then THE v. (b, a, v) \<in> set ws else M b a)"
  using assms
proof (induction ws rule: rev_induct)
  case (snoc w ws)
  obtain b' a' v' where w: "w = (b', a', v')" by (cases w)
  have c: "consistent (set ws)" using snoc.prems by (auto simp: consistent_def)
  show ?case
  proof (cases "b' = b \<and> a' = a")
    case True
    then have "(b, a, v') \<in> set (ws @ [w])" by (simp add: w)
    then have "(THE v. (b, a, v) \<in> set (ws @ [w])) = v'"
      using snoc.prems unfolding consistent_def by (intro the_equality) blast+
    then show ?thesis using True \<open>(b, a, v') \<in> set (ws @ [w])\<close> by (auto simp: apply_stores_def w)
  next
    case False
    then have "apply_stores (ws @ [w]) M b a = apply_stores ws M b a" by (auto simp: apply_stores_def w)
    then show ?thesis using False snoc.IH [OF c] by (auto simp: w)
  qed
qed (simp add: apply_stores_def)

lemma apply_stores_cong: "set ws = set ws' \<Longrightarrow> consistent (set ws') \<Longrightarrow> apply_stores ws M = apply_stores ws' M"
  by (intro ext) (simp add: apply_stores_at)

lemma in_tl_copy:
  "(b', a, v) \<in> set (tl_copy b dst src m idx S) \<longleftrightarrow>
     b' = b \<and> (\<exists>i \<in> set idx. m i \<and> a = dst i \<and> v = S b (src i))"
  by (auto simp: tl_copy_def)

lemma in_tl_copy_rows:
  "(b', a, v) \<in> set (tl_copy b (\<lambda>(t, h). d t h) (\<lambda>(t, h). e t h) (\<lambda>(t, h). m t h) (List.product ts hs) S) \<longleftrightarrow>
     b' = b \<and> (\<exists>t h. t \<in> set ts \<and> h \<in> set hs \<and> m t h \<and> a = d t h \<and> v = S b (e t h))"
  unfolding in_tl_copy by (simp add: Bex_def split_paired_Ex conj_assoc)

lemma in_tl_copy_all_rows:
  "(b', a, v) \<in> set (tl_copy b (\<lambda>(t, h). d t h) (\<lambda>(t, h). e t h) (\<lambda>_. True) (List.product ts hs) S) \<longleftrightarrow>
     b' = b \<and> (\<exists>t h. t \<in> set ts \<and> h \<in> set hs \<and> a = d t h \<and> v = S b (e t h))"
  unfolding in_tl_copy by (simp add: Bex_def split_paired_Ex conj_assoc)

lemma in_tl_arange: "i \<in> set (tl_arange off n) \<longleftrightarrow> off \<le> i \<and> i < off + n"
proof
  assume "off \<le> i \<and> i < off + n"
  then have "i = off + (i - off)" "i - off \<in> {0..<n}" by auto
  then show "i \<in> set (tl_arange off n)" unfolding tl_arange_def by (metis imageI set_map set_upt)
qed (auto simp: tl_arange_def)

lemma in_block: "0 < k \<Longrightarrow> i \<in> set (tl_arange (p * k) k) \<longleftrightarrow> p = i div k"
proof
  assume "0 < k" and "p = i div k"
  then show "i \<in> set (tl_arange (p * k) k)"
    using dividend_less_div_times [of k i] by (simp add: in_tl_arange add.commute)
next
  assume "0 < k" and "i \<in> set (tl_arange (p * k) k)"
  then have "i = (i - p * k) + p * k" "i - p * k < k" by (auto simp: in_tl_arange)
  then show "p = i div k" using \<open>0 < k\<close> by (metis div_less div_mult_self3 add.commute add_0 nat_neq_iff not_less0)
qed

lemma div_less_cdiv: "0 < k \<Longrightarrow> i < n \<Longrightarrow> i div k < cdiv n k"
proof -
  assume k: "0 < k" and i: "i < n"
  have "(i + k) div k \<le> (n + k - 1) div k" using i by (intro div_le_mono) simp
  then show ?thesis using k by (simp add: cdiv_def)
qed

lemma div_less_cdiv_last: "0 < k \<Longrightarrow> n div k < cdiv n k \<longleftrightarrow> \<not> k dvd n"
proof -
  assume k: "0 < k"
  obtain q r where n: "n = q * k + r" "r < k" using k by (metis div_mult_mod_eq mod_less_divisor)
  show ?thesis
  proof (cases r)
    case 0
    then have "n + k - 1 = (k - 1) + q * k" using k n by simp
    moreover have "((k - 1) + q * k) div k = q" using k by (subst div_mult_self1) auto
    ultimately have "cdiv n k = q" by (simp add: cdiv_def)
    then show ?thesis using k n 0 by simp
  next
    case (Suc r')
    then have "n + k - 1 = (q + 1) * k + r'" using n by simp
    then have "cdiv n k = q + 1" using k n Suc by (simp add: cdiv_def)
    moreover have "\<not> k dvd n" using n Suc k by (metis dvd_imp_mod_0 mod_less mod_mult_self3 nat.distinct(1))
    ultimately show ?thesis using n k by simp
  qed
qed


section \<open>The first kernel\<close>

text \<open>The stores of a program, tensor by tensor: each index belongs to the program of its block.\<close>

lemma in_preprocess_program:
  assumes "0 < TB" and "0 < HB"
  shows "(b, a, v) \<in> set (preprocess_program c TB HB S (pt, ph)) \<longleftrightarrow>
    (case b of
       Hidden \<Rightarrow> ph < cdiv (ca_hidden_dim c) HB \<and> (\<exists>t h. pt = t div TB \<and> ph = h div HB \<and> t < ca_num_tokens c \<and>
         h < ca_hidden_dim c \<and> a = t * ca_static_input_stride c + h \<and> v = S Hidden (t * ca_hidden_states_stride c + h))
     | BlockTable \<Rightarrow> ph < cdiv (ca_max_num_blocks c) HB \<and> (\<exists>t k. pt = t div TB \<and> ph = k div HB \<and>
         t < ca_num_tokens c \<and> k < ca_max_num_blocks c \<and>
         a = t * ca_static_table_stride_0 c + k * ca_static_table_stride_1 c \<and>
         v = S BlockTable (t * ca_table_stride_0 c + k * ca_table_stride_1 c))
     | SeqStartLoc \<Rightarrow> ph = 0 \<and> pt = a div TB \<and> a < ca_num_tokens c + 1 \<and> v = S SeqStartLoc a
     | _ \<Rightarrow> ph = 0 \<and> pt = a div TB \<and> a < ca_num_tokens c \<and> v = S b a)"
proof -
  have blk: "i \<in> set (tl_arange (pt * TB) TB) \<longleftrightarrow> pt = i div TB"
      "i \<in> set (tl_arange (ph * HB) HB) \<longleftrightarrow> ph = i div HB" for i
    using assms by (simp_all add: in_block)
  show ?thesis
    by (cases b; simp add: preprocess_program_def Let_def in_tl_copy_rows blk token_bufs_def)
      (auto simp: in_tl_copy blk)
qed

lemma in_preprocess_launch:
  "w \<in> set (preprocess_launch c TB HB S) \<longleftrightarrow>
     (\<exists>pt < cdiv (ca_num_tokens c) TB. \<exists>ph < max (cdiv (ca_hidden_dim c) HB) (cdiv (ca_max_num_blocks c) HB).
        w \<in> set (preprocess_program c TB HB S (pt, ph)))"
proof -
  have "w \<in> set (concat (map f (List.product [0..<m] [0..<k]))) \<longleftrightarrow> (\<exists>i<m. \<exists>j<k. w \<in> set (f (i, j)))" for f m k
    by fastforce
  then show ?thesis by (simp only: preprocess_launch_def preprocess_grid_def)
qed

definition row_major :: "copy_args \<Rightarrow> bool" where
  "row_major c \<longleftrightarrow> ca_hidden_dim c \<le> ca_static_input_stride c \<and>
     ca_max_num_blocks c \<le> ca_static_table_stride_0 c \<and> ca_static_table_stride_1 c = 1"

lemma in_non_fused:
  "(b, a, v) \<in> set (non_fused_stores c S) \<longleftrightarrow>
    (case b of
       Hidden \<Rightarrow> (\<exists>t h. t < ca_num_tokens c \<and>
         h < ca_hidden_dim c \<and> a = t * ca_static_input_stride c + h \<and> v = S Hidden (t * ca_hidden_states_stride c + h))
     | BlockTable \<Rightarrow> (\<exists>t k. t < ca_num_tokens c \<and> k < ca_max_num_blocks c \<and>
         a = t * ca_static_table_stride_0 c + k * ca_static_table_stride_1 c \<and>
         v = S BlockTable (t * ca_table_stride_0 c + k * ca_table_stride_1 c))
     | SeqStartLoc \<Rightarrow> a < ca_num_tokens c + 1 \<and> v = S SeqStartLoc a
     | _ \<Rightarrow> a < ca_num_tokens c \<and> v = S b a)"
proof -
  have lt: "i \<in> set [0..<n] \<longleftrightarrow> i < n" for i n :: nat by simp
  show ?thesis
    by (cases b; simp add: non_fused_stores_def Let_def in_tl_copy_all_rows)
      (auto simp: in_tl_copy)
qed

lemma row_unique:
  fixes t h :: nat
  assumes "t * s + h = t' * s + h'" and "h < s" and "h' < s"
  shows "t = t' \<and> h = h'"
proof -
  have "(t * s + h) div s = t" "(t' * s + h') div s = t'" using assms(2,3) by auto
  then have "t = t'" using assms(1) by metis
  then show ?thesis using assms(1) by simp
qed

lemma non_fused_consistent:
  assumes "row_major c"
  shows "consistent (set (non_fused_stores c S))"
  unfolding consistent_def
proof (intro allI impI)
  fix b a v v'
  assume 1: "(b, a, v) \<in> set (non_fused_stores c S)" and 2: "(b, a, v') \<in> set (non_fused_stores c S)"
  show "v = v'"
  proof (cases b)
    case Hidden
    obtain t h where h: "h < ca_hidden_dim c" "a = t * ca_static_input_stride c + h"
        "v = S Hidden (t * ca_hidden_states_stride c + h)"
      using 1 unfolding in_non_fused Hidden by auto
    obtain t' h' where h': "h' < ca_hidden_dim c" "a = t' * ca_static_input_stride c + h'"
        "v' = S Hidden (t' * ca_hidden_states_stride c + h')"
      using 2 unfolding in_non_fused Hidden by auto
    have "t = t' \<and> h = h'"
      using row_unique [of t "ca_static_input_stride c" h t' h'] h h' assms by (simp add: row_major_def)
    then show ?thesis using h h' by simp
  next
    case BlockTable
    obtain t k where k: "k < ca_max_num_blocks c"
        "a = t * ca_static_table_stride_0 c + k * ca_static_table_stride_1 c"
        "v = S BlockTable (t * ca_table_stride_0 c + k * ca_table_stride_1 c)"
      using 1 unfolding in_non_fused BlockTable by auto
    obtain t' k' where k': "k' < ca_max_num_blocks c"
        "a = t' * ca_static_table_stride_0 c + k' * ca_static_table_stride_1 c"
        "v' = S BlockTable (t' * ca_table_stride_0 c + k' * ca_table_stride_1 c)"
      using 2 unfolding in_non_fused BlockTable by auto
    have "t = t' \<and> k = k'"
      using row_unique [of t "ca_static_table_stride_0 c" k t' k'] k k' assms by (simp add: row_major_def)
    then show ?thesis using k k' by simp
  qed (use 1 2 in \<open>auto simp: in_non_fused\<close>)
qed

text \<open>
  Every entry has its program, but for the last entry of \<open>seq_start_loc\<close>: its block exists only
  when the tokens do not fill their last block.
\<close>

lemma preprocess_launch_stores:
  assumes TB: "0 < TB" and HB: "0 < HB" and n: "\<not> TB dvd ca_num_tokens c"
    and wd: "0 < ca_hidden_dim c \<or> 0 < ca_max_num_blocks c"
  shows "set (preprocess_launch c TB HB S) = set (non_fused_stores c S)"
proof (intro set_eqI)
  fix w :: "'a store"
  obtain b a v where w: "w = (b, a, v)" by (cases w)
  let ?gh = "max (cdiv (ca_hidden_dim c) HB) (cdiv (ca_max_num_blocks c) HB)"
  have tok: "t < ca_num_tokens c \<Longrightarrow> t div TB < cdiv (ca_num_tokens c) TB" for t
    using TB by (rule div_less_cdiv)
  have last: "t < Suc (ca_num_tokens c) \<Longrightarrow> t div TB < cdiv (ca_num_tokens c) TB" for t
    using tok div_less_cdiv_last [OF TB] n by (auto simp: less_Suc_eq)
  have hid: "h < ca_hidden_dim c \<Longrightarrow> h div HB < cdiv (ca_hidden_dim c) HB" for h
    using HB by (rule div_less_cdiv)
  have tab: "k < ca_max_num_blocks c \<Longrightarrow> k div HB < cdiv (ca_max_num_blocks c) HB" for k
    using HB by (rule div_less_cdiv)
  have gh: "0 < ?gh" using wd hid [of 0] tab [of 0] by auto
  note prog = in_preprocess_program [OF TB HB]
  show "w \<in> set (preprocess_launch c TB HB S) \<longleftrightarrow> w \<in> set (non_fused_stores c S)"
  proof (cases b)
    case Hidden
    then show ?thesis unfolding w in_preprocess_launch prog in_non_fused
      using tok hid by (fastforce simp: less_max_iff_disj)
  next
    case BlockTable
    then show ?thesis unfolding w in_preprocess_launch prog in_non_fused
      using tok tab by (fastforce simp: less_max_iff_disj)
  next
    case SeqStartLoc
    then show ?thesis unfolding w in_preprocess_launch prog in_non_fused using last gh by auto
  qed (unfold w in_preprocess_launch prog in_non_fused, use tok gh in auto)
qed

theorem preprocess_triton_copies:
  assumes "0 < TB" and "0 < HB" and "row_major c" and "\<not> TB dvd ca_num_tokens c"
    and "0 < ca_hidden_dim c \<or> 0 < ca_max_num_blocks c"
    and "mset ws = mset (preprocess_launch c TB HB S)"
  shows "apply_stores ws M = non_fused c S M"
proof -
  have "set ws = set (non_fused_stores c S)"
    using preprocess_launch_stores [OF assms(1,2,4,5)] mset_eq_setD [OF assms(6)] by simp
  then show ?thesis
    unfolding non_fused_def by (intro apply_stores_cong non_fused_consistent assms)
qed

text \<open>With full blocks no program writes the last entry of \<open>seq_start_loc\<close>: it keeps the end of an older batch.\<close>

lemma preprocess_forgets_last_start:
  assumes "0 < TB" and "0 < HB" and "TB dvd ca_num_tokens c" and "mset ws = mset (preprocess_launch c TB HB S)"
  shows "apply_stores ws M SeqStartLoc (ca_num_tokens c) = M SeqStartLoc (ca_num_tokens c)"
proof -
  have no: "(SeqStartLoc, ca_num_tokens c, v) \<notin> set ws" for v
    using mset_eq_setD [OF assms(4)] assms(3) div_less_cdiv_last [OF assms(1), of "ca_num_tokens c"]
    by (auto simp: in_preprocess_launch in_preprocess_program [OF assms(1,2)])
  have "apply_stores xs M b a = M b a" if "\<forall>v. (b, a, v) \<notin> set xs" for xs b a
    using that by (induction xs rule: rev_induct) (auto simp: apply_stores_def)
  then show ?thesis using no by blast
qed

section \<open>The second kernel\<close>

lemma in_block_loop:
  assumes "0 < BLOCK"
  shows "(b', a, v) \<in> set (block_loop n BLOCK (\<lambda>idx. tl_copy b dst src (\<lambda>i. i < n) idx S)) \<longleftrightarrow>
    b' = b \<and> (\<exists>i < n. a = dst i \<and> v = S b (src i))"
  using div_less_cdiv [OF assms] by (fastforce simp: block_loop_def in_tl_copy in_block [OF assms])

text \<open>Rows are addressed by the width of the batch, so the static buffers have to be as wide as the batch.\<close>

theorem preprocess_opt_copies:
  assumes "0 < BLOCK"
    and "mset ws = mset (preprocess_opt_launch T H B BLOCK S)"
  shows "apply_stores ws M = non_fused \<lparr>ca_num_tokens = T, ca_hidden_dim = H, ca_max_num_blocks = B,
    ca_static_input_stride = H, ca_hidden_states_stride = H, ca_static_table_stride_0 = B,
    ca_static_table_stride_1 = 1, ca_table_stride_0 = B, ca_table_stride_1 = 1\<rparr> S M"
proof -
  let ?c = "\<lparr>ca_num_tokens = T, ca_hidden_dim = H, ca_max_num_blocks = B,
    ca_static_input_stride = H, ca_hidden_states_stride = H, ca_static_table_stride_0 = B,
    ca_static_table_stride_1 = 1, ca_table_stride_0 = B, ca_table_stride_1 = 1\<rparr>"
  have "(b, a, v) \<in> set (preprocess_opt_launch T H B BLOCK S) \<longleftrightarrow> (b, a, v) \<in> set (non_fused_stores ?c S)" for b a v
    unfolding in_non_fused
    by (cases b) (auto simp: preprocess_opt_launch_def preprocess_opt_program_def token_bufs_def
        in_block_loop [OF assms(1)] in_block_loop [OF assms(1), where n = "Suc T"])
  then have "set (preprocess_opt_launch T H B BLOCK S) = set (non_fused_stores ?c S)" by auto
  then have "set ws = set (non_fused_stores ?c S)" using mset_eq_setD [OF assms(2)] by simp
  then show ?thesis
    unfolding non_fused_def by (intro apply_stores_cong non_fused_consistent) (simp_all add: row_major_def)
qed

text \<open>
  The benchmark's static block table is wider than the batches of its shorter configurations:
  with rows of two and a batch of width one, the block of the second token lands in the first row.
\<close>

lemma opt_ignores_static_width:
  "apply_stores (preprocess_opt_launch 2 1 1 4 (\<lambda>_ a. int a + 10)) (\<lambda>_ _. 0) BlockTable 1 = 11"
  "apply_stores (preprocess_opt_launch 2 1 1 4 (\<lambda>_ a. int a + 10)) (\<lambda>_ _. 0) BlockTable 2 = 0"
  by (simp_all add: apply_stores_def preprocess_opt_launch_def preprocess_opt_program_def block_loop_def
      tl_copy_def tl_arange_def cdiv_def token_bufs_def upt_rec)

end
