(* ===== verification/LogAnalysis.thy ===== *)
theory LogAnalysis
  imports Telemetry SimUtil "HOL-Library.List_Lexorder" "HOL-Library.Char_ord"
begin

text \<open>
  The analysis of the dumped logs (\<open>experiments/process_and_plot_advanced_logging.py\<close>): loading
  the files of the devices, time windows, distributions, means by batch size, the matrix of
  queuing delays, the pixels of the queue depth images, admission rates, the receive bandwidth of
  the nodes and the summaries. What the functions hand to matplotlib or format as text is their
  value here; floats are exact reals and \<open>nan\<close> is \<open>None\<close>. The columns of a table have the same
  length, as the logger writes them.
\<close>

section \<open>Reading JSON\<close>

text \<open>\<open>d.get(k, default)\<close> and \<open>d[k]\<close> on a value that was read from a file.\<close>

definition jget :: "string \<Rightarrow> json \<Rightarrow> json \<Rightarrow> json result" where
  "jget k dflt j = (case j of JObj fs \<Rightarrow> Inr (case map_of fs k of None \<Rightarrow> dflt | Some v \<Rightarrow> v) | _ \<Rightarrow> Inl AttributeError)"

definition jitem :: "string \<Rightarrow> json \<Rightarrow> json result" where
  "jitem k j = (case j of JObj fs \<Rightarrow> d_get fs k | _ \<Rightarrow> Inl TypeError)"

definition jlist :: "json \<Rightarrow> json list result" where
  "jlist j = (case j of JList xs \<Rightarrow> Inr xs | _ \<Rightarrow> Inl TypeError)"

definition jreal :: "json \<Rightarrow> real result" where
  "jreal j = (case j of JNum x \<Rightarrow> Inr x | JInt n \<Rightarrow> Inr (of_int n) | JBool b \<Rightarrow> Inr (of_bool b) | _ \<Rightarrow> Inl TypeError)"

text \<open>\<open>int(x)\<close> and \<open>bool(x)\<close>; a number in quotes does not occur in these files.\<close>

definition jint :: "json \<Rightarrow> int result" where
  "jint j = (case j of JNum x \<Rightarrow> Inr (if 0 \<le> x then \<lfloor>x\<rfloor> else \<lceil>x\<rceil>) | JInt n \<Rightarrow> Inr n
     | JBool b \<Rightarrow> Inr (of_bool b) | _ \<Rightarrow> Inl TypeError)"

definition jbool :: "json \<Rightarrow> bool" where
  "jbool j = (case j of JNull \<Rightarrow> False | JBool b \<Rightarrow> b | JInt n \<Rightarrow> n \<noteq> 0 | JNum x \<Rightarrow> x \<noteq> 0 | JStr s \<Rightarrow> s \<noteq> []
     | JList xs \<Rightarrow> xs \<noteq> [] | JObj fs \<Rightarrow> fs \<noteq> [])"

text \<open>A column of a table, empty where it is missing, with its numbers read.\<close>

definition jcolumn :: "(json \<Rightarrow> 'a result) \<Rightarrow> string \<Rightarrow> json \<Rightarrow> 'a list result" where
  "jcolumn f k table = bindR (bindR (jget k (JList []) table) jlist) (mapR f)"

section \<open>Loading\<close>

text \<open>A directory: the text of each file parsed, None where it is not JSON.\<close>

type_synonym log_dir = "(string, json option) dict"
type_synonym device_data = "(string, json) dict"

definition load_table :: "string \<Rightarrow> log_dir \<Rightarrow> json" where
  "load_table name files = (case map_of files (name @ ''.json'') of Some (Some j) \<Rightarrow> j | _ \<Rightarrow> JObj [])"

definition optional_tables :: "string list" where
  "optional_tables = [''queuing_delays'', ''queue_snapshots'', ''dispatcher_puts'', ''pool_puts'',
     ''recv_completions'', ''pending_send_stalls'']"

text \<open>Without \<open>moe_steps.json\<close> a device is skipped; a corrupt one is the only file that raises.\<close>

definition load_device :: "log_dir \<Rightarrow> device_data option result" where
  "load_device files =
     (case map_of files ''moe_steps.json'' of
        None \<Rightarrow> Inr None
      | Some None \<Rightarrow> Inl ValueError
      | Some (Some moe) \<Rightarrow>
          Inr (Some ((''moe_steps'', moe) # map (\<lambda>name. (name, load_table name files)) optional_tables)))"

text \<open>\<open>name.split("_")[1]\<close> of a name that has an underscore.\<close>

definition second_part :: "string \<Rightarrow> string" where
  "second_part name = takeWhile (\<lambda>c. c \<noteq> CHR ''_'') (tl (dropWhile (\<lambda>c. c \<noteq> CHR ''_'') name))"

definition load_device_data ::
  "(string \<Rightarrow> int option) \<Rightarrow> (string \<times> log_dir) list \<Rightarrow> (int, device_data) dict result" where
  "load_device_data p_int dirs =
     foldR (\<lambda>(name, files) acc.
         bindR (not_None ValueError (p_int (second_part name))) (\<lambda>dev_id.
         bindR (load_device files) (\<lambda>d.
         Inr (case d of None \<Rightarrow> acc | Some d \<Rightarrow> AList.update dev_id d acc))))
       (sort_key fst (filter (\<lambda>(name, _). take 7 name = ''device_'') dirs)) []"

text \<open>\<open>sorted(data.items())\<close>: the ids are distinct.\<close>

definition sorted_items :: "(int, device_data) dict \<Rightarrow> (int \<times> device_data) list" where
  "sorted_items data = sort_key fst data"

definition table_of :: "string \<Rightarrow> device_data \<Rightarrow> json" where
  "table_of name d = d_get_or d name (JObj [])"

section \<open>Distributions and windows\<close>

definition cdf :: "real list \<Rightarrow> real list \<times> real list" where
  "cdf xs = (sort xs, map (\<lambda>i. real i / real (length xs)) [1..<length xs + 1])"

definition windowed_moe_steps ::
  "device_data \<Rightarrow> real option \<Rightarrow> real option \<Rightarrow> (real list \<times> real list \<times> real list) result" where
  "windowed_moe_steps d t_lo t_hi =
     (let moe = table_of ''moe_steps'' d in
      bindR (jcolumn jreal ''batch_sizes'' moe) (\<lambda>bsz.
      bindR (jcolumn jreal ''execution_times_ms'' moe) (\<lambda>ms.
      bindR (jcolumn jreal ''timestamps_s'' moe) (\<lambda>ts.
      if bsz = [] \<or> ms = [] then Inr ([], [], [])
      else if ts = [] \<or> (t_lo = None \<and> t_hi = None) then Inr (bsz, ms, ts)
      else let t0 = Min (set ts);
               idx = filter (\<lambda>i. (case t_lo of None \<Rightarrow> True | Some lo \<Rightarrow> lo \<le> ts ! i - t0) \<and>
                                 (case t_hi of None \<Rightarrow> True | Some hi \<Rightarrow> ts ! i - t0 \<le> hi)) [0..<length ts]
        in bindR (mapR (\<lambda>i. py_get bsz (int i)) idx) (\<lambda>b.
           bindR (mapR (\<lambda>i. py_get ms (int i)) idx) (\<lambda>m. Inr (b, m, map (\<lambda>i. ts ! i) idx)))))))"

text \<open>\<open>groups[bsz].append(t)\<close> over the pairs, then means and deviations in the order of the keys.\<close>

definition group_values :: "(real \<times> real) list \<Rightarrow> (real, real list) dict" where
  "group_values = (\<lambda>kvs. fold (\<lambda>(k, v) g. AList.update k (d_get_or g k [] @ [v]) g) kvs [])"

definition np_mean :: "real list \<Rightarrow> real" where
  "np_mean xs = sum_list xs / real (length xs)"

definition np_std :: "real list \<Rightarrow> real" where
  "np_std xs = sqrt (np_mean (map (\<lambda>x. (x - np_mean xs)\<^sup>2) xs))"

definition group_means :: "(real, real list) dict \<Rightarrow> (real \<times> real \<times> real) list" where
  "group_means g = map (\<lambda>x. (x, np_mean (d_get_or g x []), np_std (d_get_or g x []))) (sort (map fst g))"

definition bsz_vs_time :: "device_data \<Rightarrow> real option \<Rightarrow> real option \<Rightarrow> (real \<times> real \<times> real) list option result" where
  "bsz_vs_time d t_lo t_hi =
     bindR (windowed_moe_steps d t_lo t_hi) (\<lambda>(bsz, ms, _).
       Inr (if bsz = [] \<or> ms = [] then None else Some (group_means (group_values (zip bsz ms)))))"

definition bsz_vs_time_avg :: "(int, device_data) dict \<Rightarrow> real option \<Rightarrow> real option \<Rightarrow> (real \<times> real \<times> real) list option result" where
  "bsz_vs_time_avg data t_lo t_hi =
     bindR (mapR (\<lambda>(_, d). windowed_moe_steps d t_lo t_hi) data) (\<lambda>ws.
       let g = group_values (concat (map (\<lambda>(bsz, ms, _). zip bsz ms) ws))
       in Inr (if g = [] then None else Some (group_means g)))"

text \<open>The curves of a plot: one for each device that has values.\<close>

definition gemm_time_cdf :: "(int, device_data) dict \<Rightarrow> real option \<Rightarrow> real option \<Rightarrow> (int \<times> real list \<times> real list) list result" where
  "gemm_time_cdf data t_lo t_hi =
     bindR (mapR (\<lambda>(i, d). bindR (windowed_moe_steps d t_lo t_hi) (\<lambda>(_, ms, _). Inr (i, ms))) (sorted_items data)) (\<lambda>xs.
       Inr (map (\<lambda>(i, v). (i, cdf v)) (filter (\<lambda>(_, v). v \<noteq> []) xs)))"

definition gemm_bsz_cdf :: "(int, device_data) dict \<Rightarrow> real option \<Rightarrow> real option \<Rightarrow> (int \<times> real list \<times> real list) list result" where
  "gemm_bsz_cdf data t_lo t_hi =
     bindR (mapR (\<lambda>(i, d). bindR (windowed_moe_steps d t_lo t_hi) (\<lambda>(bsz, _, _). Inr (i, bsz))) (sorted_items data)) (\<lambda>xs.
       Inr (map (\<lambda>(i, v). (i, cdf v)) (filter (\<lambda>(_, v). v \<noteq> []) xs)))"

definition dispatcher_latency_cdf :: "(int, device_data) dict \<Rightarrow> (int \<times> real list \<times> real list) list result" where
  "dispatcher_latency_cdf data =
     bindR (mapR (\<lambda>(i, d). bindR (jcolumn jreal ''latencies_ms'' (table_of ''dispatcher_puts'' d)) (\<lambda>v. Inr (i, v)))
         (sorted_items data)) (\<lambda>xs.
       Inr (map (\<lambda>(i, v). (i, cdf v)) (filter (\<lambda>(_, v). v \<noteq> []) xs)))"

definition dispatcher_bsz_vs_latency :: "(int, device_data) dict \<Rightarrow> (real \<times> real \<times> real) list option result" where
  "dispatcher_bsz_vs_latency data =
     bindR (mapR (\<lambda>(_, d). let dp = table_of ''dispatcher_puts'' d in
         bindR (jcolumn jreal ''num_tokens'' dp) (\<lambda>toks.
         bindR (jcolumn jreal ''latencies_ms'' dp) (\<lambda>lats. Inr (zip toks lats)))) data) (\<lambda>ws.
       let g = group_values (concat ws) in Inr (if g = [] then None else Some (group_means g)))"

section \<open>Queuing delays\<close>

text \<open>Sum and count for each pair of layer and expert, over all entries of all devices.\<close>

definition queue_step :: "json \<Rightarrow> (int \<times> int, real \<times> int) dict \<Rightarrow> (int \<times> int, real \<times> int) dict result" where
  "queue_step entry acc =
     bindR (bindR (jitem ''layer_id'' entry) jint) (\<lambda>lid.
     bindR (bindR (jitem ''expert_id'' entry) jint) (\<lambda>eid.
     bindR (bindR (jitem ''mean_ms'' entry) jreal) (\<lambda>mean.
     bindR (bindR (jitem ''count'' entry) jint) (\<lambda>n.
     if n = 0 then Inr acc
     else let (s, c) = d_get_or acc (lid, eid) (0, 0)
          in Inr (AList.update (lid, eid) (s + mean * of_int n, c + n) acc)))))"

definition jvalues :: "json \<Rightarrow> json list result" where
  "jvalues j = (case j of JObj fs \<Rightarrow> Inr (map snd fs) | _ \<Rightarrow> Inl AttributeError)"

definition queue_sums :: "(int, device_data) dict \<Rightarrow> (int \<times> int, real \<times> int) dict result" where
  "queue_sums data =
     foldR (\<lambda>(_, d) acc. bindR (d_get d ''queuing_delays'') (\<lambda>q. bindR (jvalues q) (\<lambda>es. foldR queue_step es acc))) data []"

text \<open>The matrix by experts and layers, None where a pair has no delay.\<close>

definition build_queue_matrix ::
  "(int, device_data) dict \<Rightarrow> (real option list list \<times> int list \<times> int list) option result" where
  "build_queue_matrix data =
     bindR (queue_sums data) (\<lambda>sc.
     if sc = [] then Inr None
     else let layer_ids = sorted_list_of_set (set (map (fst \<circ> fst) sc));
              expert_ids = sorted_list_of_set (set (map (snd \<circ> fst) sc));
              cell = (\<lambda>eid lid. case map_of sc (lid, eid) of
                        Some (s, c) \<Rightarrow> if 0 < c then Some (s / of_int c) else None
                      | None \<Rightarrow> None)
          in Inr (Some (map (\<lambda>eid. map (cell eid) layer_ids) expert_ids, layer_ids, expert_ids)))"

text \<open>\<open>np.nanmean\<close> of the rows of a rank's experts.\<close>

definition somes :: "'a option list \<Rightarrow> 'a list" where
  "somes xs = map the (filter (\<lambda>x. x \<noteq> None) xs)"

definition nanmean :: "real option list \<Rightarrow> real option" where
  "nanmean xs = (if somes xs = [] then None else Some (np_mean (somes xs)))"

definition rank_matrix :: "nat \<Rightarrow> real option list list \<times> int list \<times> int list \<Rightarrow> real option list list" where
  "rank_matrix per_rank m =
     (let (mat, layer_ids, expert_ids) = m;
          max_rank = Max (set expert_ids) div int per_rank + 1
      in map (\<lambda>rank. let rows = filter (\<lambda>i. int (rank * per_rank) \<le> expert_ids ! i \<and>
                          expert_ids ! i \<le> int (rank * per_rank + per_rank) - 1) [0..<length expert_ids]
           in map (\<lambda>li. nanmean (map (\<lambda>i. mat ! i ! li) rows)) [0..<length layer_ids]) [0..<nat max_rank])"

definition N_EXPERTS_PER_RANK :: nat where
  "N_EXPERTS_PER_RANK = 8"

section \<open>Queue depth images\<close>

text \<open>
  One image: for each of the snapshots in the window the depths of the attention and expert
  queues, interleaved row by row and scaled to the largest depth, and a mark (column, row) for
  the layer each step chose. No image for fewer than two snapshots of a window.
\<close>

definition depth_window ::
  "real list \<Rightarrow> real list list \<Rightarrow> int list option \<Rightarrow> real option \<Rightarrow> real option
     \<Rightarrow> (real list \<times> real list list \<times> int list option) option result" where
  "depth_window ts depths sched t_lo t_hi =
     (if t_lo = None \<and> t_hi = None then Inr (Some (ts, depths, sched))
      else let lo = (case t_lo of None \<Rightarrow> hd ts | Some t \<Rightarrow> t);
               hi = (case t_hi of None \<Rightarrow> last ts | Some t \<Rightarrow> t);
               idx = filter (\<lambda>i. lo \<le> ts ! i \<and> ts ! i \<le> hi) [0..<length ts] in
        bindR (mapR (\<lambda>i. py_get depths (int i)) idx) (\<lambda>ds.
        bindR (case sched of None \<Rightarrow> Inr None
               | Some ls \<Rightarrow> bindR (mapR (\<lambda>i. py_get ls (int i)) idx) (\<lambda>ls. Inr (Some ls))) (\<lambda>ls.
        Inr (if length idx < 2 then None else Some (map (\<lambda>i. ts ! i) idx, ds, ls)))))"

definition sched_row :: "nat \<Rightarrow> nat \<Rightarrow> int \<Rightarrow> int option" where
  "sched_row num_expert num_attn lid =
     (if lid = int num_expert then None
      else let row = (if int num_attn \<le> lid then (lid - int num_attn) * 2 + 1 else lid * 2)
           in if row < 0 \<or> 2 * int num_expert \<le> row then None else Some row)"

definition clip01 :: "real \<Rightarrow> real" where
  "clip01 x = max 0 (min x 1)"

definition scaled_rows :: "nat list \<Rightarrow> real list list \<Rightarrow> real list list" where
  "scaled_rows rows cols =
     (let vmax = Max (insert 1 (set (concat (map (\<lambda>i. map (\<lambda>col. col ! i) cols) rows))))
      in map (\<lambda>i. map (\<lambda>col. clip01 (col ! i / vmax)) cols) rows)"

definition render_rank_queue ::
  "real list \<Rightarrow> real list list \<Rightarrow> int list option \<Rightarrow> real option \<Rightarrow> real option
     \<Rightarrow> (real list list \<times> (nat \<times> int) list) option result" where
  "render_rank_queue ts depths sched t_lo t_hi =
     (if depths = [] then Inl ValueError
      else let len = Max (set (map length depths)); num_expert = (len - 1) div 2; num_attn = len - num_expert in
      bindR (depth_window ts depths sched t_lo t_hi) (\<lambda>w. case w of None \<Rightarrow> Inr None
      | Some (ts, cols, sched) \<Rightarrow>
          if len = 0 \<or> \<not> (\<forall>c \<in> set cols. \<forall>c' \<in> set cols. length c = length c') then Inl ValueError
          else if 0 < num_expert \<and> \<not> (\<forall>c \<in> set cols. length c = len) then Inl IndexError
          else if 0 < num_expert \<and> length cols \<noteq> length ts \<and> length cols \<noteq> 1 then Inl ValueError
          else let cols = (if length cols = 1 then replicate (length ts) (hd cols) else cols);
                   attn = scaled_rows [0..<num_expert] cols;
                   expert = scaled_rows [num_attn..<len] cols;
                   segs = (case sched of None \<Rightarrow> [] | Some ls \<Rightarrow>
                     concat (map (\<lambda>(i, lid). case sched_row num_expert num_attn lid of None \<Rightarrow> [] | Some row \<Rightarrow> [(i + 1, row)])
                       (enumerate 0 ls)))
            in Inr (Some (concat (map (\<lambda>i. [attn ! i, expert ! i]) [0..<num_expert]), segs))))"

text \<open>The three images of a rank: all steps, ten seconds and one second around the middle.\<close>

definition rank_queue_images ::
  "device_data \<Rightarrow> (real list list \<times> (nat \<times> int) list) option list result" where
  "rank_queue_images d =
     (let qs = table_of ''queue_snapshots'' d in
      bindR (jcolumn jreal ''timestamps_s'' qs) (\<lambda>ts.
      bindR (jcolumn (\<lambda>j. bindR (jlist j) (mapR jreal)) ''layer_depths'' qs) (\<lambda>depths.
      bindR (bindR (jget ''scheduled_layer_ids'' JNull qs)
               (\<lambda>j. if j = JNull then Inr None else bindR (jlist j) (\<lambda>xs. bindR (mapR jint xs) (\<lambda>ls. Inr (Some ls))))) (\<lambda>sched.
      if ts = [] \<or> depths = [] then Inr []
      else let t_mid = (hd ts + last ts) / 2 in
        mapR (\<lambda>(lo, hi). render_rank_queue ts depths sched lo hi)
          [(None, None), (Some (t_mid - 5), Some (t_mid + 5)), (Some (t_mid - 1 / 2), Some (t_mid + 1 / 2))]))))"

section \<open>Admissions\<close>

text \<open>\<open>np.arange(0, stop, step)\<close> and \<open>np.histogram\<close>: half-open bins, the last one closed.\<close>

definition np_arange0 :: "real \<Rightarrow> real \<Rightarrow> real list" where
  "np_arange0 stop step = map (\<lambda>k. real k * step) [0..<nat \<lceil>stop / step\<rceil>]"

definition np_histogram :: "real list \<Rightarrow> real list \<Rightarrow> nat list" where
  "np_histogram xs edges =
     map (\<lambda>k. length (filter (\<lambda>x. edges ! k \<le> x \<and>
            (if k + 2 = length edges then x \<le> edges ! (k + 1) else x < edges ! (k + 1))) xs)) [0..<length edges - 1]"

definition admission_bins :: "real \<Rightarrow> real list \<Rightarrow> (real list \<times> nat list) option" where
  "admission_bins width ts =
     (if length ts < 2 then None
      else let rel = map (\<lambda>t. t - hd ts) ts; edges = np_arange0 (last rel + width) width
           in Some (edges, np_histogram rel edges))"

definition admission_rate :: "device_data \<Rightarrow> (real list \<times> real list) option result" where
  "admission_rate d =
     bindR (jcolumn jreal ''timestamps_s'' (table_of ''pool_puts'' d)) (\<lambda>ts.
       Inr (case admission_bins (1 / 2) ts of None \<Rightarrow> None
            | Some (edges, counts) \<Rightarrow>
                Some (map (\<lambda>k. (edges ! k + edges ! (k + 1)) / 2) [0..<length edges - 1],
                      map (\<lambda>c. real c / (1 / 2)) counts)))"

section \<open>Receive bandwidth\<close>

record recv_event =
  re_device :: int
  re_node :: int
  re_peer :: int
  re_layer :: int
  re_tokens :: int
  re_bytes :: int
  re_start :: real
  re_end :: real
  re_local :: bool

fun zip7 :: "'a list \<Rightarrow> 'b list \<Rightarrow> 'c list \<Rightarrow> 'd list \<Rightarrow> 'e list \<Rightarrow> 'f list \<Rightarrow> 'g list
    \<Rightarrow> ('a \<times> 'b \<times> 'c \<times> 'd \<times> 'e \<times> 'f \<times> 'g) list" where
  "zip7 (a # as) (b # bs) (c # cs) (d # ds) (e # es) (f # fs) (g # gs) = (a, b, c, d, e, f, g) # zip7 as bs cs ds es fs gs"
| "zip7 _ _ _ _ _ _ _ = []"

text \<open>A transfer that ends when it starts or before is given a microsecond.\<close>

definition recv_event_of ::
  "int \<Rightarrow> int \<times> int \<times> int \<times> int \<times> real \<times> real \<times> bool \<Rightarrow> recv_event" where
  "recv_event_of dev r =
     (let (peer, layer, ntok, nbytes, ts0, ts1, local) = r; s = min ts0 ts1; e = max ts0 ts1 in
      \<lparr>re_device = dev, re_node = dev div 2, re_peer = peer, re_layer = layer, re_tokens = ntok, re_bytes = nbytes,
       re_start = s, re_end = (if e \<le> s then s + 1 / 10 ^ 6 else e), re_local = local\<rparr>)"

definition device_recvs :: "device_data \<Rightarrow> (int \<times> int \<times> int \<times> int \<times> real \<times> real \<times> bool) list result" where
  "device_recvs d =
     (let rc = table_of ''recv_completions'' d in
      bindR (jcolumn jint ''peer_ids'' rc) (\<lambda>peers.
      bindR (jcolumn jint ''layer_ids'' rc) (\<lambda>layers.
      bindR (jcolumn jint ''num_tokens'' rc) (\<lambda>toks.
      bindR (jcolumn jint ''num_bytes'' rc) (\<lambda>bytes.
      bindR (jcolumn jreal ''posted_timestamps_s'' rc) (\<lambda>posted.
      bindR (jcolumn jreal ''completed_timestamps_s'' rc) (\<lambda>completed.
      bindR (jcolumn (Inr \<circ> jbool) ''is_local'' rc) (\<lambda>local.
      Inr (zip7 peers layers toks bytes posted completed local)))))))))"

definition build_recv_events :: "bool \<Rightarrow> (int, device_data) dict \<Rightarrow> recv_event list result" where
  "build_recv_events include_local data =
     bindR (mapR (\<lambda>(dev, d). bindR (device_recvs d) (\<lambda>rs.
         Inr (map (recv_event_of dev) (filter (\<lambda>(_, _, _, _, _, _, local). include_local \<or> \<not> local) rs))))
       (sorted_items data)) (\<lambda>ess. Inr (concat ess))"

text \<open>The bytes of an event, spread over the bins by the share of its duration in each.\<close>

definition event_overlap :: "real \<Rightarrow> real \<Rightarrow> recv_event \<Rightarrow> nat \<Rightarrow> real" where
  "event_overlap t0 width e b =
     max 0 (min (re_end e) (t0 + real b * width + width) - max (re_start e) (t0 + real b * width))"

definition add_event :: "real \<Rightarrow> nat \<Rightarrow> real \<Rightarrow> recv_event \<Rightarrow> (int, real list) dict \<Rightarrow> (int, real list) dict" where
  "add_event t0 nbins width e bins =
     (let b0 = max 0 \<lfloor>(re_start e - t0) / width\<rfloor>; b1 = min (int nbins - 1) \<lfloor>(re_end e - t0) / width\<rfloor>;
          duration = re_end e - re_start e in
      fold (\<lambda>b bins. if event_overlap t0 width e b \<le> 0 then bins
          else let row = d_get_or bins (re_node e) (replicate nbins 0)
               in AList.update (re_node e)
                    (row[b := row ! b + of_int (re_bytes e) * (event_overlap t0 width e b / duration)]) bins)
        [nat b0..<nat (b1 + 1)] bins)"

definition node_bandwidth_series ::
  "real \<Rightarrow> (int, device_data) dict \<Rightarrow> (real list \<times> (int, real list) dict) option result" where
  "node_bandwidth_series width data =
     bindR (build_recv_events False data) (\<lambda>events.
     if events = [] then Inr None
     else let t0 = Min (set (map re_start events)); t1 = Max (set (map re_end events));
              nbins = nat (max 1 \<lceil>(t1 - t0) / width\<rceil>)
          in Inr (Some (map (\<lambda>b. (real b + 1 / 2) * width) [0..<nbins], fold (add_event t0 nbins width) events [])))"

section \<open>Summaries\<close>

text \<open>The figures of a line: mean, median, the percentiles and the maximum.\<close>

record figures =
  fg_count :: nat
  fg_mean :: real
  fg_p50 :: real
  fg_p95 :: real
  fg_p99 :: real
  fg_max :: real

definition figures_of :: "real list \<Rightarrow> figures" where
  "figures_of xs = \<lparr>fg_count = length xs, fg_mean = np_mean xs, fg_p50 = percentile xs (1 / 2),
     fg_p95 = percentile xs (95 / 100), fg_p99 = percentile xs (99 / 100), fg_max = Max (set xs)\<rparr>"

definition steps_of :: "device_data \<Rightarrow> (real list \<times> real list) result" where
  "steps_of d =
     bindR (d_get d ''moe_steps'') (\<lambda>moe.
     bindR (jcolumn jreal ''batch_sizes'' moe) (\<lambda>bsz.
     bindR (jcolumn jreal ''execution_times_ms'' moe) (\<lambda>ms. Inr (bsz, ms))))"

definition step_summary ::
  "(int, device_data) dict \<Rightarrow> ((int \<times> figures \<times> figures) list \<times> (figures \<times> figures) option) result" where
  "step_summary data =
     bindR (mapR (\<lambda>(i, d). bindR (steps_of d) (\<lambda>s. Inr (i, s))) (sorted_items data)) (\<lambda>rows.
       let bszs = concat (map (fst \<circ> snd) rows); mss = concat (map (snd \<circ> snd) rows)
       in Inr (map (\<lambda>(i, b, m). (i, figures_of b, figures_of m)) (filter (\<lambda>(_, b, _). b \<noteq> []) rows),
               if bszs = [] then None else Some (figures_of bszs, figures_of mss)))"

definition dispatcher_summary ::
  "(int, device_data) dict \<Rightarrow> ((int \<times> figures \<times> real \<times> nat) list \<times> (figures \<times> figures \<times> nat) option) result" where
  "dispatcher_summary data =
     bindR (mapR (\<lambda>(i, d). let dp = table_of ''dispatcher_puts'' d in
         bindR (jcolumn jreal ''latencies_ms'' dp) (\<lambda>lats.
         bindR (jcolumn jreal ''num_tokens'' dp) (\<lambda>toks.
         bindR (jcolumn jreal ''timestamps_s'' (table_of ''pool_puts'' d)) (\<lambda>puts.
         Inr (i, lats, toks, length puts))))) (sorted_items data)) (\<lambda>rows.
       let lats = concat (map (fst \<circ> snd) rows); toks = concat (map (fst \<circ> snd \<circ> snd) rows)
       in Inr (map (\<lambda>(i, l, t, n). (i, figures_of l, np_mean t, n)) (filter (\<lambda>(_, l, _, _). l \<noteq> []) rows),
               if lats = [] then None
               else Some (figures_of lats, figures_of toks, length (filter (\<lambda>l. 1 < l) lats))))"

text \<open>The points of the two scatter plots: times from the first one on.\<close>

definition dispatcher_points :: "device_data \<Rightarrow> (real list \<times> real list \<times> real list) option result" where
  "dispatcher_points d =
     (let dp = table_of ''dispatcher_puts'' d in
      bindR (jcolumn jreal ''timestamps_s'' dp) (\<lambda>ts.
      bindR (jcolumn jreal ''latencies_ms'' dp) (\<lambda>lats.
      bindR (jcolumn jreal ''num_tokens'' dp) (\<lambda>toks.
      Inr (if ts = [] then None else Some (map (\<lambda>t. t - hd ts) ts, lats, toks))))))"

definition stall_points :: "device_data \<Rightarrow> (real \<times> real) list option result" where
  "stall_points d =
     (let ps = table_of ''pending_send_stalls'' d in
      bindR (jcolumn jreal ''start_timestamps_s'' ps) (\<lambda>starts.
      bindR (jcolumn jreal ''end_timestamps_s'' ps) (\<lambda>ends.
      if starts = [] then Inr None
      else if length starts \<noteq> length ends then Inl ValueError
      else Inr (Some (map (\<lambda>(s, e). (s - Min (set starts), (e - s) * 1000)) (zip starts ends))))))"

definition stall_ms :: "device_data \<Rightarrow> real list result" where
  "stall_ms d =
     (let ps = table_of ''pending_send_stalls'' d in
      bindR (jcolumn jreal ''start_timestamps_s'' ps) (\<lambda>starts.
      bindR (jcolumn jreal ''end_timestamps_s'' ps) (\<lambda>ends.
      Inr (map (\<lambda>(s, e). (e - s) * 1000) (zip starts ends)))))"

text \<open>The means a rank's line adds: sends pending before, the limit, and yields.\<close>

definition stall_means :: "device_data \<Rightarrow> (real \<times> real \<times> real) result" where
  "stall_means d =
     (let ps = table_of ''pending_send_stalls'' d in
      bindR (jcolumn jreal ''pending_before'' ps) (\<lambda>before.
      bindR (jcolumn jreal ''max_pending'' ps) (\<lambda>limit.
      bindR (jcolumn jreal ''yield_counts'' ps) (\<lambda>yields.
      Inr (np_mean before, np_mean limit, np_mean yields)))))"

text \<open>
  Durations and rates of the transfers, the bandwidth of each node in GB/s, and the stalls of
  each rank; None when there is no transfer.
\<close>

definition recv_summary ::
  "(int, device_data) dict
     \<Rightarrow> (figures \<times> figures \<times> (int \<times> figures) list \<times> figures option
        \<times> (int \<times> figures \<times> real \<times> real \<times> real) list \<times> figures option) option result" where
  "recv_summary data =
     bindR (build_recv_events False data) (\<lambda>events.
     if events = [] then Inr None
     else bindR (node_bandwidth_series (1 / 2) data) (\<lambda>series.
     bindR (mapR (\<lambda>(i, d). bindR (stall_ms d) (\<lambda>ms. bindR (stall_means d) (\<lambda>means. Inr (i, ms, means))))
         (sorted_items data)) (\<lambda>stalls.
     let bins = (case series of None \<Rightarrow> [] | Some (_, bins) \<Rightarrow> bins);
         nodes = map (\<lambda>n. (n, map (\<lambda>x. x / (1 / 2) / 10 ^ 9) (d_get_or bins n []))) (sort (map fst bins));
         gbps = concat (map snd nodes); ms = concat (map (fst \<circ> snd) stalls)
     in Inr (Some (figures_of (map (\<lambda>e. (re_end e - re_start e) * 1000) events),
          figures_of (map (\<lambda>e. of_int (re_bytes e) / (re_end e - re_start e) / 10 ^ 9) events),
          map (\<lambda>(n, v). (n, figures_of v)) nodes, if gbps = [] then None else Some (figures_of gbps),
          map (\<lambda>(i, v, means). (i, figures_of v, means)) (filter (\<lambda>(_, v, _). v \<noteq> []) stalls),
          if ms = [] then None else Some (figures_of ms))))))"

text \<open>\<open>parse_global_running_requests\<close>; \<open>m\<close> is the match of the log pattern with a line.\<close>

definition parse_running_requests ::
  "(string \<Rightarrow> (real \<times> nat \<times> nat) option) \<Rightarrow> string list option \<Rightarrow> (real list \<times> nat list \<times> nat list) option" where
  "parse_running_requests m file =
     (case file of None \<Rightarrow> None
      | Some lines \<Rightarrow>
          let rows = somes (map m lines)
          in if rows = [] then None
             else Some (map (\<lambda>(t, _, _). t - fst (hd rows)) rows, map (fst \<circ> snd) rows, map (snd \<circ> snd) rows))"

text \<open>Which groups of plots the script makes beyond those it always makes.\<close>

definition any_values :: "string \<Rightarrow> string \<Rightarrow> (int, device_data) dict \<Rightarrow> bool result" where
  "any_values name column data =
     bindR (mapR (\<lambda>(_, d). jget column JNull (table_of name d)) data) (\<lambda>vs. Inr (\<exists>v \<in> set vs. jbool v))"

definition has_dispatcher :: "(int, device_data) dict \<Rightarrow> bool result" where
  "has_dispatcher = any_values ''dispatcher_puts'' ''latencies_ms''"

definition has_recv :: "(int, device_data) dict \<Rightarrow> bool result" where
  "has_recv data =
     bindR (any_values ''recv_completions'' ''num_bytes'' data) (\<lambda>recv.
     bindR (any_values ''pending_send_stalls'' ''start_timestamps_s'' data) (\<lambda>stalls. Inr (recv \<or> stalls)))"

end
