(* ===== verification/LogAnalysisProps.thy ===== *)
theory LogAnalysisProps
  imports LogAnalysis
begin

text \<open>
  What the analysis of the logs shows: the dumps of the loggers are read back, the bins of a
  node's bandwidth hold exactly the bytes it received, the matrix holds the mean of the logged
  delays, windows and histograms lose nothing, and the marks of the depth images stand on the
  layer that the engine logged.
\<close>

section \<open>Distributions and groups\<close>

lemma cdf_shape:
  assumes "xs \<noteq> []"
  shows "sorted (fst (cdf xs))" and "length (snd (cdf xs)) = length (fst (cdf xs))" and "last (snd (cdf xs)) = 1"
  using assms by (auto simp: cdf_def last_map Suc_le_eq)

text \<open>The height at a sample is at most the share of the samples up to it.\<close>

lemma cdf_height:
  assumes "i < length xs"
  shows "snd (cdf xs) ! i \<le> real (length (filter (\<lambda>x. x \<le> fst (cdf xs) ! i) xs)) / real (length xs)"
proof -
  let ?P = "\<lambda>x. x \<le> sort xs ! i"
  have "length (filter ?P xs) = size (filter_mset ?P (mset xs))" by (simp flip: mset_filter)
  also have "\<dots> = size (filter_mset ?P (mset (sort xs)))" by simp
  also have "\<dots> = length (filter ?P (sort xs))" by (metis mset_filter size_mset)
  also have "length (filter ?P (sort xs)) \<ge> length (take (Suc i) (sort xs))"
  proof -
    have "filter ?P (take (Suc i) (sort xs)) = take (Suc i) (sort xs)"
      using assms by (auto simp: filter_id_conv in_set_conv_nth intro!: sorted_nth_mono)
    then show ?thesis
      by (metis append_take_drop_id filter_append le_add1 length_append)
  qed
  finally have "Suc i \<le> length (filter ?P xs)" using assms by simp
  then show ?thesis using assms by (simp add: cdf_def divide_right_mono del: upt_Suc)
qed

lemma group_values_get: "d_get_or (group_values kvs) k [] = map snd (filter (\<lambda>p. fst p = k) kvs)"
proof -
  have "d_get_or (fold (\<lambda>(k, v) g. AList.update k (d_get_or g k [] @ [v]) g) kvs g) k [] =
      d_get_or g k [] @ map snd (filter (\<lambda>p. fst p = k) kvs)" for g
  proof (induction kvs arbitrary: g)
    case (Cons p kvs)
    then show ?case by (cases p) (auto simp: d_get_or_update)
  qed simp
  from this [of "[]"] show ?thesis by (simp add: group_values_def d_get_or_def)
qed

lemma group_values_keys: "fst ` set (group_values kvs) = fst ` set kvs \<and> distinct (map fst (group_values kvs))"
proof -
  have "fst ` set (fold (\<lambda>(k, v) g. AList.update k (d_get_or g k [] @ [v]) g) kvs g) = fst ` set g \<union> fst ` set kvs \<and>
      distinct (map fst (fold (\<lambda>(k, v) g. AList.update k (d_get_or g k [] @ [v]) g) kvs g))"
    if "distinct (map fst g)" for g
    using that
  proof (induction kvs arbitrary: g)
    case (Cons p kvs)
    obtain k v where p: "p = (k, v)" by (cases p)
    have "distinct (map fst (AList.update k (d_get_or g k [] @ [v]) g))" using Cons.prems by (rule distinct_update)
    from Cons.IH [OF this] show ?case by (auto simp: p keys_update)
  qed simp
  from this [of "[]"] show ?thesis by (simp add: group_values_def)
qed

text \<open>Every pair is in exactly one group, and the groups are listed once each, in order.\<close>

lemma group_means_shape:
  "sorted_wrt (<) (map fst (group_means (group_values kvs)))"
  "set (map fst (group_means (group_values kvs))) = fst ` set kvs"
  using group_values_keys [of kvs]
  by (simp_all add: group_means_def comp_def strict_sorted_iff)

section \<open>Receive bandwidth\<close>

text \<open>The point \<open>x\<close> moved into the interval of the event.\<close>

definition clamp :: "recv_event \<Rightarrow> real \<Rightarrow> real" where
  "clamp e x = max (re_start e) (min (re_end e) x)"

lemma event_overlap_clamp:
  assumes "re_start e \<le> re_end e" and "0 < w"
  shows "event_overlap t0 w e b = clamp e (t0 + real (Suc b) * w) - clamp e (t0 + real b * w)"
proof -
  have "t0 + real (Suc b) * w = t0 + real b * w + w" by (simp add: algebra_simps)
  then show ?thesis using assms by (auto simp: event_overlap_def clamp_def)
qed

lemma overlaps_telescope:
  assumes "re_start e \<le> re_end e" and "0 < w" and "m \<le> n"
  shows "(\<Sum>b \<leftarrow> [m..<n]. event_overlap t0 w e b) = clamp e (t0 + real n * w) - clamp e (t0 + real m * w)"
  using assms(3)
proof (induction n)
  case (Suc n)
  show ?case
  proof (cases "m = Suc n")
    case False
    then have "m \<le> n" using Suc.prems by simp
    then show ?thesis using Suc.IH by (simp add: event_overlap_clamp [OF assms(1,2)])
  qed simp
qed simp

text \<open>The bins the code visits cover the whole event.\<close>

lemma overlaps_cover:
  assumes w: "0 < w" and s: "t0 \<le> re_start e" and d: "re_start e < re_end e"
    and n: "(re_end e - t0) / w \<le> real n" and n0: "0 < n"
  defines "b0 \<equiv> nat (max 0 \<lfloor>(re_start e - t0) / w\<rfloor>)"
  defines "b1 \<equiv> nat (min (int n - 1) \<lfloor>(re_end e - t0) / w\<rfloor> + 1)"
  shows "(\<Sum>b \<leftarrow> [b0..<b1]. event_overlap t0 w e b) = re_end e - re_start e" and "b1 \<le> n"
proof -
  let ?s = "(re_start e - t0) / w" and ?e = "(re_end e - t0) / w"
  have s0: "0 \<le> ?s" using s w by simp
  have se: "?s < ?e" using d w by (simp add: divide_strict_right_mono)
  have b0: "real b0 = of_int \<lfloor>?s\<rfloor>" using s0 by (simp add: b0_def)
  then have "real b0 \<le> ?s" by simp
  then have lo: "t0 + real b0 * w \<le> re_start e" using w by (simp add: pos_le_divide_eq)
  have fl: "0 \<le> \<lfloor>?e\<rfloor>" using s0 se by simp
  have b1: "real b1 = of_int (min (int n - 1) \<lfloor>?e\<rfloor>) + 1" using fl n0 by (simp add: b1_def)
  have "?e \<le> real b1"
  proof (cases "int n - 1 \<le> \<lfloor>?e\<rfloor>")
    case True
    then show ?thesis using b1 n by (simp add: min_def)
  next
    case False
    then have "real b1 = of_int \<lfloor>?e\<rfloor> + 1" using b1 by (simp add: min_def)
    then show ?thesis using real_of_int_floor_add_one_gt [of ?e] by linarith
  qed
  then have hi: "re_end e \<le> t0 + real b1 * w" using w by (simp add: pos_divide_le_eq algebra_simps)
  show "b1 \<le> n" using fl n0 by (simp add: b1_def)
  have "t0 + real b0 * w < t0 + real b1 * w" using lo hi d by linarith
  then have le: "b0 \<le> b1" using w by simp
  have "clamp e (t0 + real b1 * w) = re_end e" "clamp e (t0 + real b0 * w) = re_start e"
    using lo hi d by (auto simp: clamp_def)
  then show "(\<Sum>b \<leftarrow> [b0..<b1]. event_overlap t0 w e b) = re_end e - re_start e"
    using overlaps_telescope [OF less_imp_le [OF d] w le, of t0] by simp
qed

text \<open>What a node received, and bins of the right length.\<close>

definition bins_ok :: "nat \<Rightarrow> (int, real list) dict \<Rightarrow> bool" where
  "bins_ok nbins bins \<longleftrightarrow> (\<forall>k row. map_of bins k = Some row \<longrightarrow> length row = nbins)"

definition node_total :: "(int, real list) dict \<Rightarrow> int \<Rightarrow> real" where
  "node_total bins k = sum_list (d_get_or bins k [])"

lemma sum_list_update_real: "i < length xs \<Longrightarrow> sum_list (xs[i := v]) = sum_list xs - xs ! i + (v :: real)"
proof (induction xs arbitrary: i)
  case (Cons x xs)
  then show ?case by (cases i) simp_all
qed simp

lemma add_to_bin:
  assumes ok: "bins_ok nbins bins" and b: "b < nbins"
    and new: "bins' = (let row = d_get_or bins k (replicate nbins 0) in AList.update k (row[b := row ! b + x]) bins)"
  shows "bins_ok nbins bins'" and "node_total bins' j = node_total bins j + (if j = k then x else 0)"
proof -
  define row where "row = d_get_or bins k (replicate nbins 0)"
  have len: "length row = nbins" using ok by (auto simp: row_def d_get_or_def bins_ok_def split: option.splits)
  have tot: "sum_list row = node_total bins k"
    by (simp add: row_def node_total_def d_get_or_def sum_list_replicate split: option.splits)
  have new: "bins' = AList.update k (row[b := row ! b + x]) bins" using new by (simp add: row_def Let_def)
  show "bins_ok nbins bins'" using ok len by (auto simp: new bins_ok_def d_get_update)
  show "node_total bins' j = node_total bins j + (if j = k then x else 0)"
    using len b tot by (simp add: new node_total_def d_get_or_update sum_list_update_real)
qed

lemma add_event_total:
  assumes ok: "bins_ok nbins bins" and w: "0 < w" and s: "t0 \<le> re_start e" and d: "re_start e < re_end e"
    and n: "(re_end e - t0) / w \<le> real nbins" and n0: "0 < nbins"
  shows "bins_ok nbins (add_event t0 nbins w e bins)"
    and "node_total (add_event t0 nbins w e bins) j =
      node_total bins j + (if j = re_node e then of_int (re_bytes e) else 0)"
proof -
  let ?x = "\<lambda>b. of_int (re_bytes e) * (event_overlap t0 w e b / (re_end e - re_start e))"
  let ?f = "\<lambda>b bins. if event_overlap t0 w e b \<le> 0 then bins
     else let row = d_get_or bins (re_node e) (replicate nbins 0)
          in AList.update (re_node e) (row[b := row ! b + ?x b]) bins"
  have fold: "bins_ok nbins (fold ?f bs bins) \<and>
      node_total (fold ?f bs bins) j = node_total bins j + (if j = re_node e then \<Sum>b \<leftarrow> bs. ?x b else 0)"
    if "bins_ok nbins bins" and "\<forall>b \<in> set bs. b < nbins" for bs bins
    using that
  proof (induction bs arbitrary: bins)
    case (Cons b bs)
    have "bins_ok nbins (?f b bins) \<and>
        node_total (?f b bins) j = node_total bins j + (if j = re_node e then ?x b else 0)"
    proof (cases "event_overlap t0 w e b \<le> 0")
      case True
      then have "event_overlap t0 w e b = 0" by (simp add: event_overlap_def)
      then show ?thesis using True Cons.prems by simp
    next
      case False
      then show ?thesis
        using add_to_bin(1) [OF Cons.prems(1) _ refl, where b = b and k = "re_node e" and x = "?x b"]
          add_to_bin(2) [OF Cons.prems(1) _ refl, where b = b and j = j and k = "re_node e" and x = "?x b"] Cons.prems(2) by simp
    qed
    moreover from this have "bins_ok nbins (?f b bins)" by blast
    ultimately show ?case using Cons.IH [of "?f b bins"] Cons.prems(2) by (simp del: if_split split: if_splits)
  qed simp
  let ?b0 = "nat (max 0 \<lfloor>(re_start e - t0) / w\<rfloor>)"
  let ?b1 = "nat (min (int nbins - 1) \<lfloor>(re_end e - t0) / w\<rfloor> + 1)"
  note cov = overlaps_cover [OF w s d n n0]
  have in_range: "\<forall>b \<in> set [?b0..<?b1]. b < nbins" using cov(2) by auto
  have "(\<Sum>b \<leftarrow> bs. ?x b) = of_int (re_bytes e) * ((\<Sum>b \<leftarrow> bs. event_overlap t0 w e b) / (re_end e - re_start e))" for bs
    by (induction bs) (simp_all add: algebra_simps add_divide_distrib)
  from this [of "[?b0..<?b1]"] have "(\<Sum>b \<leftarrow> [?b0..<?b1]. ?x b) = of_int (re_bytes e)" using cov(1) d by simp
  moreover have "add_event t0 nbins w e bins = fold ?f [?b0..<?b1] bins" by (simp add: add_event_def Let_def)
  ultimately show "bins_ok nbins (add_event t0 nbins w e bins)"
    and "node_total (add_event t0 nbins w e bins) j =
      node_total bins j + (if j = re_node e then of_int (re_bytes e) else 0)"
    using fold [OF ok in_range] by auto
qed

lemma add_events_total:
  assumes w: "0 < w" and n0: "0 < nbins"
    and ev: "\<forall>e \<in> set es. t0 \<le> re_start e \<and> re_start e < re_end e \<and> (re_end e - t0) / w \<le> real nbins"
    and ok: "bins_ok nbins bins"
  shows "node_total (fold (add_event t0 nbins w) es bins) j =
    node_total bins j + (\<Sum>e \<leftarrow> filter (\<lambda>e. re_node e = j) es. of_int (re_bytes e))"
  using ev ok
proof (induction es arbitrary: bins)
  case (Cons e es)
  then show ?case using add_event_total [OF Cons.prems(2) w, of t0 e] n0 by auto
qed simp

lemma add_events_ok:
  assumes w: "0 < w" and n0: "0 < nbins"
    and ev: "\<forall>e \<in> set es. t0 \<le> re_start e \<and> re_start e < re_end e \<and> (re_end e - t0) / w \<le> real nbins"
    and ok: "bins_ok nbins bins"
  shows "bins_ok nbins (fold (add_event t0 nbins w) es bins)"
  using ev ok
proof (induction es arbitrary: bins)
  case (Cons e es)
  then show ?case using add_event_total(1) [OF Cons.prems(2) w, of t0 e] n0 by auto
qed simp

section \<open>Reading back what was dumped\<close>

definition dumped :: "adv_logger \<Rightarrow> string \<times> log_dir" where
  "dumped lg =
     (case logger_dump [] [] lg of None \<Rightarrow> ([], [])
      | Some (dir, files) \<Rightarrow> (dir, map (\<lambda>(name, j). (name, Some j)) files))"

definition dumped_data :: "adv_logger \<Rightarrow> device_data" where
  "dumped_data lg =
     [(''moe_steps'', json_columns moe_fields (lg_moe_steps lg)),
      (''queuing_delays'', queuing_json (lg_queuing lg)),
      (''queue_snapshots'', json_columns snapshot_fields (lg_snapshots lg)),
      (''dispatcher_puts'', json_columns put_fields (lg_puts lg)),
      (''pool_puts'', json_columns pool_put_fields (lg_pool_puts lg)),
      (''recv_completions'', json_columns recv_fields (lg_recvs lg)),
      (''pending_send_stalls'', json_columns stall_fields (lg_stalls lg))]"

lemma load_dumped: "lg_enabled lg \<Longrightarrow> load_device (snd (dumped lg)) = Inr (Some (dumped_data lg))"
  by (simp add: load_device_def dumped_def logger_dump_def Let_def optional_tables_def load_table_def dumped_data_def)

lemma dumped_name: "lg_enabled lg \<Longrightarrow> fst (dumped lg) = ''device_'' @ nat_str (lg_device lg)"
  by (simp add: dumped_def logger_dump_def Let_def path_join_def)

lemma second_part_device: "second_part (''device_'' @ nat_str n) = nat_str n"
proof -
  have "\<forall>c \<in> set (nat_str n). c \<noteq> CHR ''_''" using nat_str_digits [of _ n] by force
  then have "takeWhile (\<lambda>c. c \<noteq> CHR ''_'') (nat_str n) = nat_str n" by (simp add: takeWhile_eq_all_conv)
  then show ?thesis by (simp add: second_part_def)
qed

text \<open>The directories of the loggers, in any order.\<close>

definition dumps_of :: "adv_logger list \<Rightarrow> (string \<times> log_dir) list \<Rightarrow> bool" where
  "dumps_of lgs dirs \<longleftrightarrow> distinct (map lg_device lgs) \<and> (\<forall>lg \<in> set lgs. lg_enabled lg \<and> queues_ok (lg_queuing lg)) \<and>
     mset dirs = mset (map dumped lgs)"

lemma load_device_data_dumps:
  assumes d: "dumps_of lgs dirs" and int_str: "\<forall>n. p_int (nat_str n) = Some (int n)"
  shows "\<exists>lgs'. mset lgs' = mset lgs \<and>
    load_device_data p_int dirs = Inr (map (\<lambda>lg. (int (lg_device lg), dumped_data lg)) lgs')"
proof -
  have en: "\<forall>lg \<in> set lgs. lg_enabled lg" using d by (simp add: dumps_of_def)
  have "filter (\<lambda>(name, _). take 7 name = ''device_'') dirs = dirs"
  proof (rule filter_True)
    have "set dirs = dumped ` set lgs" using d by (metis dumps_of_def mset_eq_setD set_map)
    then show "\<forall>p \<in> set dirs. case p of (name, _) \<Rightarrow> take 7 name = ''device_''"
      using en by (auto simp: split_def dumped_name)
  qed
  moreover have "mset (sort_key fst dirs) = mset (map dumped lgs)" using d by (simp add: dumps_of_def)
  ultimately obtain lgs' where l: "sort_key fst (filter (\<lambda>(name, _). take 7 name = ''device_'') dirs) = map dumped lgs'"
      "mset lgs' = mset lgs"
    using mset_map_split by metis
  have en': "\<forall>lg \<in> set lgs'. lg_enabled lg" using en mset_eq_setD [OF l(2)] by simp
  have "distinct (map lg_device lgs')"
    using d mset_eq_imp_distinct_iff [of "map lg_device lgs'" "map lg_device lgs"] l(2) by (simp add: dumps_of_def)
  then have dist: "distinct (map fst (map (\<lambda>lg. (int (lg_device lg), dumped_data lg)) lgs'))"
    by (simp add: distinct_map comp_def inj_on_def)
  let ?step = "\<lambda>(name, files) acc.
      bindR (not_None ValueError (p_int (second_part name))) (\<lambda>dev_id.
      bindR (load_device files) (\<lambda>d. Inr (case d of None \<Rightarrow> acc | Some d \<Rightarrow> AList.update dev_id d acc)))"
  have "foldR ?step (map dumped ls) acc = Inr (fold (\<lambda>(k, v). AList.update k v)
      (map (\<lambda>lg. (int (lg_device lg), dumped_data lg)) ls) acc)" if "\<forall>lg \<in> set ls. lg_enabled lg" for ls acc
    using that
  proof (induction ls arbitrary: acc)
    case (Cons lg ls)
    obtain name files where d: "dumped lg = (name, files)" by (cases "dumped lg")
    have "second_part name = nat_str (lg_device lg)" "load_device files = Inr (Some (dumped_data lg))"
      using dumped_name [of lg] load_dumped [of lg] Cons.prems d second_part_device [of "lg_device lg"] by simp_all
    then have "?step (dumped lg) acc = Inr (AList.update (int (lg_device lg)) (dumped_data lg) acc)"
      using int_str d by simp
    then show ?case using Cons by simp
  qed simp
  from this [OF en', of "[]"] have "load_device_data p_int dirs = Inr (map (\<lambda>lg. (int (lg_device lg), dumped_data lg)) lgs')"
    unfolding load_device_data_def l(1) by (subst (asm) fold_update_distinct) (use dist in simp_all)
  then show ?thesis using l(2) by blast
qed

section \<open>The matrix of queuing delays\<close>

lemma queuing_json_list:
  assumes "distinct (map fst q)"
  shows "queuing_json q = JObj (map (\<lambda>((l, e), es). (queue_key l e, queue_entry l e es)) q)"
proof -
  let ?g = "\<lambda>((l, e), es). (queue_key l e, queue_entry l e es)"
  have "map fst (map ?g q) = map (\<lambda>(l, e). queue_key l e) (map fst q)" by auto
  moreover have "inj_on (\<lambda>(l, e). queue_key l e) A" for A by (auto simp: inj_on_def queue_key_inj)
  ultimately have "distinct (map fst (map ?g q))" using assms by (simp only: distinct_map)
  moreover have "fold (\<lambda>((l, e), es). AList.update (queue_key l e) (queue_entry l e es)) q acc =
      fold (\<lambda>(k, v). AList.update k v) (map ?g q) acc" for acc
    by (induction q arbitrary: acc) (simp_all add: split_def)
  ultimately show ?thesis using fold_update_distinct [of "[]" "map ?g q"] by (simp add: queuing_json_def)
qed

text \<open>The delays logged for a queue, over all devices.\<close>

definition delays_of :: "adv_logger list \<Rightarrow> nat \<Rightarrow> nat \<Rightarrow> real list" where
  "delays_of lgs l e = concat (map (\<lambda>lg. map fst (d_get_or (lg_queuing lg) (l, e) [])) lgs)"

lemma queue_step_entry:
  "queue_step (queue_entry l e es) acc = Inr (if es = [] then acc
     else let (s, c) = d_get_or acc (int l, int e) (0, 0)
          in AList.update (int l, int e) (s + sum_list (map fst es), c + int (length es)) acc)"
  by (simp add: queue_step_def queue_entry_def Let_def jitem_def d_get_def jint_def jreal_def jnat_def split_def)

definition queue_add ::
  "(nat \<times> nat) \<times> (real \<times> real) list \<Rightarrow> (int \<times> int, real \<times> int) dict \<Rightarrow> (int \<times> int, real \<times> int) dict" where
  "queue_add x acc =
     (let ((l, e), es) = x; (s, c) = d_get_or acc (int l, int e) (0, 0)
      in if es = [] then acc else AList.update (int l, int e) (s + sum_list (map fst es), c + int (length es)) acc)"

lemma queue_step_add: "queue_step (case x of ((l, e), es) \<Rightarrow> queue_entry l e es) acc = Inr (queue_add x acc)"
  by (cases x) (auto simp: queue_step_entry queue_add_def Let_def split: prod.splits)

text \<open>What the sums hold: nothing for a pair without delays, else their sum and number.\<close>

lemma queue_add_fold:
  "map_of (fold queue_add xs []) k =
    (let ds = concat (map (\<lambda>x. map fst (snd x)) (filter (\<lambda>x. (int (fst (fst x)), int (snd (fst x))) = k) xs))
     in if ds = [] then None else Some (sum_list ds, int (length ds)))"
proof (induction xs rule: rev_induct)
  case (snoc x xs)
  obtain l e es where x: "x = ((l, e), es)" by (metis prod.exhaust)
  define pk where "pk = (\<lambda>xs. concat (map (\<lambda>x. map fst (snd x))
    (filter (\<lambda>x. (int (fst (fst x)), int (snd (fst x))) = k) (xs :: ((nat \<times> nat) \<times> (real \<times> real) list) list))))"
  have IH: "map_of (fold queue_add xs []) k = (if pk xs = [] then None else Some (sum_list (pk xs), int (length (pk xs))))"
    using snoc.IH by (simp only: pk_def Let_def)
  then have get: "d_get_or (fold queue_add xs []) k (0, 0) = (sum_list (pk xs), int (length (pk xs)))"
    by (simp add: d_get_or_def)
  have "map_of (fold queue_add (xs @ [x]) []) k =
      (if pk (xs @ [x]) = [] then None else Some (sum_list (pk (xs @ [x])), int (length (pk (xs @ [x])))))"
  proof (cases "(int l, int e) = k \<and> es \<noteq> []")
    case True
    have "queue_add x acc = AList.update k (fst (d_get_or acc k (0, 0)) + sum_list (map fst es),
        snd (d_get_or acc k (0, 0)) + int (length es)) acc" for acc
      using True by (auto simp: x queue_add_def Let_def split_def)
    moreover have "pk (xs @ [x]) = pk xs @ map fst es" using True by (simp add: x pk_def)
    ultimately show ?thesis using get True by (simp add: d_get_update)
  next
    case False
    then have "map_of (queue_add x acc) k = map_of acc k" for acc
      by (auto simp: x queue_add_def Let_def d_get_update split: prod.splits)
    moreover have "pk (xs @ [x]) = pk xs" using False by (auto simp: x pk_def)
    ultimately show ?thesis using IH by simp
  qed
  then show ?case by (simp only: pk_def Let_def)
qed simp

lemma queue_add_keys: "fst ` set (fold queue_add xs []) = {k. map_of (fold queue_add xs []) k \<noteq> None}"
  by (auto simp: map_of_eq_None_iff)

lemma foldR_map_pure: "(\<And>x acc. f (g x) acc = Inr (h x acc)) \<Longrightarrow> foldR f (map g xs) acc = Inr (fold h xs acc)"
  by (induction xs arbitrary: acc) simp_all

lemma queue_sums_dumps:
  assumes "\<forall>lg \<in> set lgs. distinct (map fst (lg_queuing lg))"
  shows "queue_sums (map (\<lambda>lg. (int (lg_device lg), dumped_data lg)) lgs) =
    Inr (fold queue_add (concat (map lg_queuing lgs)) [])"
proof -
  let ?f = "\<lambda>(_ :: int, d) acc. bindR (d_get d ''queuing_delays'') (\<lambda>q. bindR (jvalues q) (\<lambda>es. foldR queue_step es acc))"
  have "foldR ?f (map (\<lambda>lg. (int (lg_device lg), dumped_data lg)) ls) acc =
      Inr (fold queue_add (concat (map lg_queuing ls)) acc)"
    if "\<forall>lg \<in> set ls. distinct (map fst (lg_queuing lg))" for ls acc
    using that
  proof (induction ls arbitrary: acc)
    case (Cons lg ls)
    have q: "d_get (dumped_data lg) ''queuing_delays'' = Inr (queuing_json (lg_queuing lg))"
      by (simp add: d_get_def dumped_data_def)
    have "jvalues (queuing_json (lg_queuing lg)) =
        Inr (map (\<lambda>x. case x of ((l, e), es) \<Rightarrow> queue_entry l e es) (lg_queuing lg))"
      using Cons.prems by (simp add: queuing_json_list jvalues_def comp_def split_def)
    then have "?f (int (lg_device lg), dumped_data lg) acc = Inr (fold queue_add (lg_queuing lg) acc)"
      using foldR_map_pure [where f = queue_step and h = queue_add, OF queue_step_add] by (simp add: q)
    then show ?case using Cons by simp
  qed simp
  from this [OF assms] show ?thesis by (simp add: queue_sums_def)
qed

text \<open>In a queue's dictionary the delays of a pair are one entry.\<close>

lemma picked_delays:
  assumes "distinct (map fst q)"
  shows "concat (map (\<lambda>x. map fst (snd x)) (filter (\<lambda>x. fst x = (l, e)) q)) = map fst (d_get_or q (l, e) [])"
  using assms
proof (induction q)
  case (Cons p q)
  show ?case
  proof (cases "fst p = (l, e)")
    case True
    then have "filter (\<lambda>x. fst x = (l, e)) q = []"
      using Cons.prems by (auto simp: filter_empty_conv) (metis fst_conv image_eqI)
    then show ?thesis using True by (cases p) (simp add: d_get_or_def)
  next
    case False
    then show ?thesis using Cons by (cases p) (auto simp: d_get_or_def)
  qed
qed (simp add: d_get_or_def)

lemma queue_sums_delays:
  assumes "\<forall>lg \<in> set lgs. distinct (map fst (lg_queuing lg))"
  shows "map_of (fold queue_add (concat (map lg_queuing lgs)) []) (int l, int e) =
    (if delays_of lgs l e = [] then None else Some (sum_list (delays_of lgs l e), int (length (delays_of lgs l e))))"
proof -
  have "concat (map (\<lambda>x. map fst (snd x)) (filter (\<lambda>x. fst x = (l, e)) (concat (map lg_queuing lgs)))) = delays_of lgs l e"
    using assms
  proof (induction lgs)
    case (Cons lg lgs)
    then show ?case using picked_delays [of "lg_queuing lg" l e] by (simp add: delays_of_def)
  qed (simp add: delays_of_def)
  moreover have "(\<lambda>x. (int (fst (fst x)), int (snd (fst x))) = (int l, int e)) = (\<lambda>x :: (nat \<times> nat) \<times> (real \<times> real) list. fst x = (l, e))"
    by (auto simp: prod_eq_iff)
  ultimately show ?thesis
    using queue_add_fold [of "concat (map lg_queuing lgs)" "(int l, int e)"] by (simp only: Let_def)
qed

lemma queue_sums_nat:
  "k \<in> fst ` set (fold queue_add xs []) \<Longrightarrow> \<exists>l e. k = (int l, int e)"
  by (auto simp: queue_add_keys queue_add_fold Let_def split: if_splits)

text \<open>
  The matrix \<open>m\<close> of the logs: none when no delay was logged at all; else rows and columns are
  strictly ascending, every pair with a delay has its cell, and a cell is the mean of the delays
  of its pair, empty when there is none.
\<close>

definition shows_mean_delays ::
  "adv_logger list \<Rightarrow> (real option list list \<times> int list \<times> int list) option \<Rightarrow> bool" where
  "shows_mean_delays lgs m \<longleftrightarrow>
    (case m of
       None \<Rightarrow> \<forall>l e. delays_of lgs l e = []
     | Some (mat, layers, experts) \<Rightarrow>
         sorted_wrt (<) layers \<and> sorted_wrt (<) experts \<and>
         (\<forall>l e. delays_of lgs l e \<noteq> [] \<longrightarrow> int l \<in> set layers \<and> int e \<in> set experts) \<and>
         (\<forall>i < length experts. \<forall>j < length layers. \<exists>l e. layers ! j = int l \<and> experts ! i = int e \<and>
            mat ! i ! j = (if delays_of lgs l e = [] then None else Some (np_mean (delays_of lgs l e)))))"

text \<open>
  C40: the heat map of queuing delays shows what the workers measured. Whatever order the
  directories of the dumped loggers are listed in, they load without an error, and each cell of
  the matrix is the mean of all delays that any worker logged for that layer and expert, empty
  exactly when there is none; every pair with a delay has its row and column, in ascending order
  and once. There is no matrix exactly when no delay was logged at all.
\<close>

theorem heatmap_shows_mean_delays:
  assumes dumps: "dumps_of lgs dirs" and int_str: "\<forall>n. p_int (nat_str n) = Some (int n)"
  shows "\<exists>data m. load_device_data p_int dirs = Inr data \<and> build_queue_matrix data = Inr m \<and>
    shows_mean_delays lgs m"
proof -
  obtain lgs' where l: "mset lgs' = mset lgs"
      "load_device_data p_int dirs = Inr (map (\<lambda>lg. (int (lg_device lg), dumped_data lg)) lgs')"
    using load_device_data_dumps [OF dumps int_str] by blast
  have "\<forall>lg \<in> set lgs'. distinct (map fst (lg_queuing lg))"
    using dumps mset_eq_setD [OF l(1)] by (simp add: dumps_of_def queues_ok_def)
  note sums = queue_sums_dumps [OF this] and get = queue_sums_delays [OF this]
  define sc where "sc = fold queue_add (concat (map lg_queuing lgs')) []"
  have perm: "mset (delays_of lgs' x y) = mset (delays_of lgs x y)" for x y
  proof -
    have "mset (concat (map f xs)) = \<Sum>\<^sub># (image_mset (mset \<circ> f) (mset xs))" for f :: "adv_logger \<Rightarrow> real list" and xs
      by (induction xs) simp_all
    then show ?thesis using l(1) by (simp add: delays_of_def)
  qed
  then have same: "delays_of lgs' x y = [] \<longleftrightarrow> delays_of lgs x y = []"
      "np_mean (delays_of lgs' x y) = np_mean (delays_of lgs x y)" for x y
    by (metis mset_zero_iff) (metis np_mean_def perm size_mset sum_mset_sum_list)
  have nats: "\<exists>x y. k = (int x, int y)" if "k \<in> fst ` set sc" for k
    using queue_sums_nat that unfolding sc_def by blast
  have key: "(int x, int y) \<in> fst ` set sc \<longleftrightarrow> delays_of lgs x y \<noteq> []" for x y
    using get [of x y] same(1) [of x y] map_of_eq_None_iff [of sc "(int x, int y)"] by (auto simp: sc_def split: if_splits)
  let ?data = "map (\<lambda>lg. (int (lg_device lg), dumped_data lg)) lgs'"
  show ?thesis
  proof (cases "sc = []")
    case True
    then have "build_queue_matrix ?data = Inr None" using sums by (simp add: build_queue_matrix_def sc_def)
    moreover have "delays_of lgs x y = []" for x y using key [of x y] True by simp
    ultimately show ?thesis using l(2) by (auto simp: shows_mean_delays_def)
  next
    case False
    let ?ls = "sorted_list_of_set (set (map (fst \<circ> fst) sc))" and ?es = "sorted_list_of_set (set (map (snd \<circ> fst) sc))"
    let ?cell = "\<lambda>eid lid. case map_of sc (lid, eid) of
      Some (s, c) \<Rightarrow> if 0 < c then Some (s / of_int c) else None | None \<Rightarrow> None"
    have m: "build_queue_matrix ?data = Inr (Some (map (\<lambda>eid. map (?cell eid) ?ls) ?es, ?ls, ?es))"
      using sums False by (simp add: build_queue_matrix_def sc_def Let_def)
    have cell: "?cell (int y) (int x) = (if delays_of lgs x y = [] then None else Some (np_mean (delays_of lgs x y)))" for x y
    proof (cases "delays_of lgs' x y = []")
      case False
      then show ?thesis using get [of x y] same [of x y] by (simp add: sc_def np_mean_def)
    qed (use get [of x y] same [of x y] in \<open>simp add: sc_def\<close>)
    have ls: "\<exists>x. k = int x" if "k \<in> set ?ls" for k
    proof -
      have "k \<in> (\<lambda>p. fst (fst p)) ` set sc" using that by (simp add: image_image comp_def)
      then obtain p where "p \<in> set sc" "k = fst (fst p)" by (rule imageE) simp
      then show ?thesis using nats [of "fst p"] by auto
    qed
    have es: "\<exists>y. k = int y" if "k \<in> set ?es" for k
    proof -
      have "k \<in> (\<lambda>p. snd (fst p)) ` set sc" using that by (simp add: image_image comp_def)
      then obtain p where "p \<in> set sc" "k = snd (fst p)" by (rule imageE) simp
      then show ?thesis using nats [of "fst p"] by auto
    qed
    have "int x \<in> set ?ls \<and> int y \<in> set ?es" if "delays_of lgs x y \<noteq> []" for x y
      using that key [of x y] by force
    moreover have "\<exists>x y. ?ls ! j = int x \<and> ?es ! i = int y \<and>
        map (\<lambda>eid. map (?cell eid) ?ls) ?es ! i ! j =
          (if delays_of lgs x y = [] then None else Some (np_mean (delays_of lgs x y)))"
      if ij: "i < length ?es" "j < length ?ls" for i j
    proof -
      obtain x y where xy: "?ls ! j = int x" "?es ! i = int y"
        using ls [OF nth_mem [OF ij(2)]] es [OF nth_mem [OF ij(1)]] by blast
      then have "map (\<lambda>eid. map (?cell eid) ?ls) ?es ! i ! j =
          (if delays_of lgs x y = [] then None else Some (np_mean (delays_of lgs x y)))"
        using ij cell [of x y] by simp
      with xy show ?thesis by blast
    qed
    moreover have "sorted_wrt (<) ?ls" "sorted_wrt (<) ?es" by simp_all
    ultimately have "shows_mean_delays lgs (Some (map (\<lambda>eid. map (?cell eid) ?ls) ?es, ?ls, ?es))"
      unfolding shows_mean_delays_def option.case prod.case by blast
    then show ?thesis using l(2) m by blast
  qed
qed

text \<open>Two workers, each with delays of the queue of layer 3 and expert 7; \<open>int\<close> reads the digits.\<close>

definition int_of_digits :: "string \<Rightarrow> int option" where
  "int_of_digits s = Some (int (foldl (\<lambda>v c. v * 10 + (of_char c - 48)) 0 s))"

definition example_logs :: "adv_logger list" where
  "example_logs =
     [(logger_init True 10 1)\<lparr>lg_queuing := [((3, 7), [(1, 0), (2, 1)])],
        lg_recvs := [(1, 0, 4, 100, 0, 3, False), (2, 0, 4, 50, 1, 1, True)]\<rparr>,
      (logger_init True 9 1)\<lparr>lg_queuing := [((3, 7), [(6, 0)]), ((0, 7), [(5, 2)])]\<rparr>]"

lemma example_dumps: "dumps_of example_logs (map dumped example_logs)"
  by (simp add: dumps_of_def example_logs_def logger_init_def queues_ok_def)

lemma int_of_digits_nat_str: "\<forall>n. int_of_digits (nat_str n) = Some (int n)"
  by (simp add: int_of_digits_def nat_str_inverse)

lemma heatmap_shows_mean_delays_witness:
  "delays_of example_logs 3 7 = [1, 2, 6] \<and>
   (\<exists>data m. load_device_data int_of_digits (map dumped example_logs) = Inr data \<and>
      build_queue_matrix data = Inr m \<and> shows_mean_delays example_logs m)"
proof
  show "delays_of example_logs 3 7 = [1, 2, 6]"
    by (simp add: delays_of_def example_logs_def logger_init_def d_get_or_def)
  show "\<exists>data m. load_device_data int_of_digits (map dumped example_logs) = Inr data \<and>
      build_queue_matrix data = Inr m \<and> shows_mean_delays example_logs m"
    by (rule heatmap_shows_mean_delays [OF example_dumps int_of_digits_nat_str])
qed

section \<open>The bandwidth of dumped logs\<close>

lemma jcolumn_json:
  assumes "map_of fs k = Some g" and "\<And>r. r \<in> set rows \<Longrightarrow> f (g r) = Inr (h r)"
  shows "jcolumn f k (json_columns fs rows) = Inr (map h rows)"
proof -
  have "map_of (map (\<lambda>(k, f). (k, JList (map f rows))) fs) k = Some (JList (map g rows))"
    using assms(1) by (induction fs) auto
  moreover have "mapR f (map g rows) = Inr (map h rows)" using assms(2) by (induction rows) auto
  ultimately show ?thesis by (simp add: jcolumn_def jget_def json_columns_def jlist_def)
qed

lemma zip7_map: "zip7 (map a xs) (map b xs) (map c xs) (map d xs) (map e xs) (map f xs) (map g xs) =
    map (\<lambda>x. (a x, b x, c x, d x, e x, f x, g x)) xs"
  by (induction xs) simp_all

definition recv_row :: "recv_completion \<Rightarrow> int \<times> int \<times> int \<times> int \<times> real \<times> real \<times> bool" where
  "recv_row r = (let (p, l, n, b, t, u, x) = r in (p, int l, int n, int b, t, u, x))"

lemma device_recvs_dumped: "device_recvs (dumped_data lg) = Inr (map recv_row (lg_recvs lg))"
proof -
  let ?t = "json_columns recv_fields (lg_recvs lg)"
  have t: "table_of ''recv_completions'' (dumped_data lg) = ?t"
    by (simp add: table_of_def d_get_or_def dumped_data_def)
  have "jcolumn jint ''peer_ids'' ?t = Inr (map (\<lambda>(p, l, n, b, t, u, x). p) (lg_recvs lg))"
      "jcolumn jint ''layer_ids'' ?t = Inr (map (\<lambda>(p, l, n, b, t, u, x). int l) (lg_recvs lg))"
      "jcolumn jint ''num_tokens'' ?t = Inr (map (\<lambda>(p, l, n, b, t, u, x). int n) (lg_recvs lg))"
      "jcolumn jint ''num_bytes'' ?t = Inr (map (\<lambda>(p, l, n, b, t, u, x). int b) (lg_recvs lg))"
      "jcolumn jreal ''posted_timestamps_s'' ?t = Inr (map (\<lambda>(p, l, n, b, t, u, x). t) (lg_recvs lg))"
      "jcolumn jreal ''completed_timestamps_s'' ?t = Inr (map (\<lambda>(p, l, n, b, t, u, x). u) (lg_recvs lg))"
      "jcolumn (Inr \<circ> jbool) ''is_local'' ?t = Inr (map (\<lambda>(p, l, n, b, t, u, x). x) (lg_recvs lg))"
    by (rule jcolumn_json, simp add: recv_fields_def, auto simp: jint_def jreal_def jbool_def jnat_def)+
  then show ?thesis
    unfolding device_recvs_def Let_def t by (simp add: zip7_map recv_row_def split_def)
qed

text \<open>The transfers from other devices, and the bytes the devices of a node got by them.\<close>

definition remote_recvs :: "adv_logger \<Rightarrow> recv_completion list" where
  "remote_recvs lg = filter (\<lambda>(_, _, _, _, _, _, local). \<not> local) (lg_recvs lg)"

definition bytes_of :: "recv_completion \<Rightarrow> nat" where
  "bytes_of = (\<lambda>(_, _, _, b, _, _, _). b)"

definition received_bytes :: "adv_logger list \<Rightarrow> int \<Rightarrow> nat" where
  "received_bytes lgs node =
     (\<Sum>lg \<leftarrow> filter (\<lambda>lg. int (lg_device lg div 2) = node) lgs. \<Sum>r \<leftarrow> remote_recvs lg. bytes_of r)"

definition log_events :: "adv_logger \<Rightarrow> recv_event list" where
  "log_events lg = map (\<lambda>r. recv_event_of (int (lg_device lg)) (recv_row r)) (remote_recvs lg)"

lemma insort_key_map: "insort_key f (g x) (map g xs) = map g (insort_key (f \<circ> g) x xs)"
  by (induction xs) simp_all

lemma sort_key_map: "sort_key f (map g xs) = map g (sort_key (f \<circ> g) xs)"
  by (induction xs) (simp_all add: insort_key_map comp_def)

lemma build_recv_events_dumps:
  "build_recv_events False (map (\<lambda>lg. (int (lg_device lg), dumped_data lg)) lgs) =
     Inr (concat (map log_events (sort_key (\<lambda>lg. int (lg_device lg)) lgs)))"
proof -
  have s: "sorted_items (map (\<lambda>lg. (int (lg_device lg), dumped_data lg)) lgs) =
      map (\<lambda>lg. (int (lg_device lg), dumped_data lg)) (sort_key (\<lambda>lg. int (lg_device lg)) lgs)"
    by (simp add: sorted_items_def sort_key_map comp_def)
  have f: "map (recv_event_of (int (lg_device lg)))
      (filter (\<lambda>(_, _, _, _, _, _, local). \<not> local) (map recv_row (lg_recvs lg))) = log_events lg" for lg
    by (auto simp: log_events_def remote_recvs_def filter_map comp_def recv_row_def split_def Let_def)
  have "mapR (\<lambda>(dev, d). bindR (device_recvs d) (\<lambda>rs.
         Inr (map (recv_event_of dev) (filter (\<lambda>(_, _, _, _, _, _, local). \<not> local) rs))))
       (map (\<lambda>lg. (int (lg_device lg), dumped_data lg)) ls) = Inr (map log_events ls)" for ls
    by (induction ls) (simp_all add: device_recvs_dumped f)
  then show ?thesis unfolding build_recv_events_def s by simp
qed

lemma recv_event_of_times: "re_start (recv_event_of dev r) < re_end (recv_event_of dev r)"
  by (cases r) (auto simp: recv_event_of_def Let_def)

lemma log_events_bytes:
  "(\<Sum>e \<leftarrow> filter (\<lambda>e. re_node e = j) (log_events lg). real_of_int (re_bytes e)) =
     (if int (lg_device lg div 2) = j then real (\<Sum>r \<leftarrow> remote_recvs lg. bytes_of r) else 0)"
proof -
  have "re_node (recv_event_of (int d) (recv_row r)) = int (d div 2)"
      "re_bytes (recv_event_of (int d) (recv_row r)) = int (bytes_of r)" for d r
    by (auto simp: recv_event_of_def recv_row_def bytes_of_def Let_def zdiv_int split: prod.splits)
  note ev = this
  have "(\<Sum>e \<leftarrow> filter (\<lambda>e. re_node e = j) (map (\<lambda>r. recv_event_of (int d) (recv_row r)) rs). real_of_int (re_bytes e)) =
      (if int (d div 2) = j then real (\<Sum>r \<leftarrow> rs. bytes_of r) else 0)" for d rs
    by (induction rs) (auto simp: ev)
  then show ?thesis by (simp only: log_events_def)
qed

lemma received_bytes_events:
  "(\<Sum>e \<leftarrow> filter (\<lambda>e. re_node e = j) (concat (map log_events ls)). real_of_int (re_bytes e)) = real (received_bytes ls j)"
  by (induction ls) (auto simp: received_bytes_def log_events_bytes)

lemma received_bytes_perm: "mset ls = mset lgs \<Longrightarrow> received_bytes ls j = received_bytes lgs j"
proof -
  assume m: "mset ls = mset lgs"
  have "(\<Sum>lg \<leftarrow> xs. f lg) = (\<Sum>lg \<in># mset xs. f lg)" for f :: "adv_logger \<Rightarrow> nat" and xs
    by (simp flip: sum_mset_sum_list)
  then show ?thesis using m by (simp add: received_bytes_def)
qed

text \<open>
  C38: the bandwidth plot accounts for every byte. However the directories of the dumped loggers
  are listed, they load without an error, and the bins of a node add up to exactly the bytes
  that its devices received from other devices: no transfer is cut off at the ends of the time
  axis or counted in two bins. There is no plot exactly when nothing was received.
\<close>

theorem node_bandwidth_conserves_bytes:
  assumes dumps: "dumps_of lgs dirs" and int_str: "\<forall>n. p_int (nat_str n) = Some (int n)" and w: "0 < w"
  shows "\<exists>data s. load_device_data p_int dirs = Inr data \<and> node_bandwidth_series w data = Inr s \<and>
    (case s of
       None \<Rightarrow> \<forall>lg \<in> set lgs. remote_recvs lg = []
     | Some (centers, bins) \<Rightarrow> (\<exists>lg \<in> set lgs. remote_recvs lg \<noteq> []) \<and>
         (\<forall>node. sum_list (d_get_or bins node []) = real (received_bytes lgs node)) \<and>
         (\<forall>node row. map_of bins node = Some row \<longrightarrow> length row = length centers))"
proof -
  obtain lgs' where l: "mset lgs' = mset lgs"
      "load_device_data p_int dirs = Inr (map (\<lambda>lg. (int (lg_device lg), dumped_data lg)) lgs')"
    using load_device_data_dumps [OF dumps int_str] by blast
  let ?data = "map (\<lambda>lg. (int (lg_device lg), dumped_data lg)) lgs'"
  define ls where "ls = sort_key (\<lambda>lg. int (lg_device lg)) lgs'"
  have ls: "mset ls = mset lgs" using l(1) by (simp add: ls_def)
  define es where "es = concat (map log_events ls)"
  have evs: "build_recv_events False ?data = Inr es"
    using build_recv_events_dumps by (simp only: es_def ls_def)
  have none: "es = [] \<longleftrightarrow> (\<forall>lg \<in> set lgs. remote_recvs lg = [])"
    using mset_eq_setD [OF ls] by (simp add: es_def log_events_def)
  show ?thesis
  proof (cases "es = []")
    case True
    then have "node_bandwidth_series w ?data = Inr None" by (simp add: node_bandwidth_series_def evs)
    then show ?thesis using l(2) none True by (intro exI [of _ ?data] exI [of _ None]) simp
  next
    case False
    define t0 where "t0 = Min (set (map re_start es))"
    define t1 where "t1 = Max (set (map re_end es))"
    define nbins where "nbins = nat (max 1 \<lceil>(t1 - t0) / w\<rceil>)"
    let ?centers = "map (\<lambda>b. (real b + 1 / 2) * w) [0..<nbins]"
    let ?bins = "fold (add_event t0 nbins w) es []"
    have series: "node_bandwidth_series w ?data = Inr (Some (?centers, ?bins))"
      using False by (simp add: node_bandwidth_series_def evs t0_def t1_def nbins_def Let_def)
    have nb: "(t1 - t0) / w \<le> real nbins"
      unfolding nbins_def by (simp add: max_def)
    have ev: "\<forall>e \<in> set es. t0 \<le> re_start e \<and> re_start e < re_end e \<and> (re_end e - t0) / w \<le> real nbins"
    proof
      fix e
      assume e: "e \<in> set es"
      have "t0 \<le> re_start e" "re_end e \<le> t1" using e by (auto simp: t0_def t1_def)
      moreover have "re_start e < re_end e"
        using e by (auto simp: es_def log_events_def recv_event_of_times)
      moreover have "(re_end e - t0) / w \<le> (t1 - t0) / w"
        using w \<open>re_end e \<le> t1\<close> by (simp add: divide_right_mono)
      ultimately show "t0 \<le> re_start e \<and> re_start e < re_end e \<and> (re_end e - t0) / w \<le> real nbins"
        using nb by linarith
    qed
    have n0: "0 < nbins" by (simp add: nbins_def)
    note tot = add_events_total [OF w n0 ev]
    have "sum_list (d_get_or ?bins j []) = real (received_bytes lgs j)" for j
      using tot [of "[]" j] received_bytes_events [of j ls] received_bytes_perm [OF ls]
      by (simp add: bins_ok_def node_total_def es_def d_get_or_def)
    moreover have "\<exists>lg \<in> set lgs. remote_recvs lg \<noteq> []" using none False by simp
    moreover have "bins_ok nbins ?bins" by (rule add_events_ok [OF w n0 ev]) (simp add: bins_ok_def)
    then have "\<forall>node row. map_of ?bins node = Some row \<longrightarrow> length row = length ?centers" by (simp add: bins_ok_def)
    ultimately show ?thesis using l(2) series
      by (intro exI [of _ ?data] exI [of _ "Some (?centers, ?bins)"]) auto
  qed
qed

lemma node_bandwidth_conserves_bytes_witness:
  "received_bytes example_logs 5 = 100 \<and>
   (\<exists>data s. load_device_data int_of_digits (map dumped example_logs) = Inr data \<and>
    node_bandwidth_series (1 / 2) data = Inr s \<and>
    (case s of
       None \<Rightarrow> \<forall>lg \<in> set example_logs. remote_recvs lg = []
     | Some (centers, bins) \<Rightarrow> (\<exists>lg \<in> set example_logs. remote_recvs lg \<noteq> []) \<and>
         (\<forall>node. sum_list (d_get_or bins node []) = real (received_bytes example_logs node)) \<and>
         (\<forall>node row. map_of bins node = Some row \<longrightarrow> length row = length centers)))"
proof
  show "received_bytes example_logs 5 = 100"
    by (simp add: received_bytes_def example_logs_def logger_init_def remote_recvs_def bytes_of_def)
qed (rule node_bandwidth_conserves_bytes [OF example_dumps int_of_digits_nat_str], simp)

text \<open>
  Without a receive from another device the summary stops before the stalls: those of a worker
  that only sends are not reported, whatever they are.
\<close>

lemma stalls_need_receives:
  assumes "\<forall>lg \<in> set lgs. remote_recvs lg = []"
  shows "recv_summary (map (\<lambda>lg. (int (lg_device lg), dumped_data lg)) lgs) = Inr None"
proof -
  have "concat (map log_events (sort_key (\<lambda>lg. int (lg_device lg)) lgs)) = []"
    using assms by (simp add: log_events_def)
  then show ?thesis by (simp add: recv_summary_def build_recv_events_dumps)
qed

section \<open>Windows, admissions and marks\<close>

text \<open>On the log of a worker a window is the steps whose time since the first lies in it.\<close>

lemma windowed_moe_steps_dumped:
  assumes "lg_moe_steps lg \<noteq> []" and "t_lo \<noteq> None \<or> t_hi \<noteq> None"
  defines "t0 \<equiv> Min ((\<lambda>(b, m, t). t) ` set (lg_moe_steps lg))"
  defines "win \<equiv> filter (\<lambda>(b, m, t). (\<forall>lo. t_lo = Some lo \<longrightarrow> lo \<le> t - t0) \<and> (\<forall>hi. t_hi = Some hi \<longrightarrow> t - t0 \<le> hi))
    (lg_moe_steps lg)"
  shows "windowed_moe_steps (dumped_data lg) t_lo t_hi =
    Inr (map (\<lambda>(b, m, t). real b) win, map (\<lambda>(b, m, t). m) win, map (\<lambda>(b, m, t). t) win)"
proof -
  let ?rows = "lg_moe_steps lg" and ?t = "json_columns moe_fields (lg_moe_steps lg)"
  have t: "table_of ''moe_steps'' (dumped_data lg) = ?t"
    by (simp add: table_of_def d_get_or_def dumped_data_def)
  have cols: "jcolumn jreal ''batch_sizes'' ?t = Inr (map (\<lambda>(b, m, t). real b) ?rows)"
      "jcolumn jreal ''execution_times_ms'' ?t = Inr (map (\<lambda>(b, m, t). m) ?rows)"
      "jcolumn jreal ''timestamps_s'' ?t = Inr (map (\<lambda>(b, m, t). t) ?rows)"
    by (rule jcolumn_json, simp add: moe_fields_def, auto simp: jreal_def jnat_def)+
  let ?Q = "\<lambda>x. (case t_lo of None \<Rightarrow> True | Some lo \<Rightarrow> lo \<le> x - t0) \<and> (case t_hi of None \<Rightarrow> True | Some hi \<Rightarrow> x - t0 \<le> hi)"
  define idx where "idx = filter (\<lambda>i. ?Q (map (\<lambda>(b, m, t). t) ?rows ! i)) [0..<length ?rows]"
  have win: "win = map (\<lambda>i. ?rows ! i) idx"
  proof -
    have "filter P xs = map (\<lambda>i. xs ! i) (filter (\<lambda>i. P (xs ! i)) [0..<length xs])" for P and xs :: "moe_step list"
      by (induction xs rule: rev_induct) (auto simp: nth_append intro!: filter_cong map_cong)
    moreover have "filter (\<lambda>i. ?Q (map (\<lambda>(b, m, t). t) ?rows ! i)) [0..<length ?rows] =
        filter (\<lambda>i. case ?rows ! i of (b, m, t) \<Rightarrow>
          (\<forall>lo. t_lo = Some lo \<longrightarrow> lo \<le> t - t0) \<and> (\<forall>hi. t_hi = Some hi \<longrightarrow> t - t0 \<le> hi)) [0..<length ?rows]"
      by (rule filter_cong) (auto split: option.splits)
    ultimately show ?thesis by (simp add: win_def idx_def)
  qed
  have t0: "Min (set (map (\<lambda>(b, m, t). t) ?rows)) = t0" by (simp add: t0_def)
  have lt: "\<forall>i \<in> set idx. i < length ?rows" by (simp add: idx_def)
  have get: "mapR (\<lambda>i. py_get (map f ?rows) (int i)) idx = Inr (map f win)" for f :: "moe_step \<Rightarrow> real"
  proof -
    have "mapR (\<lambda>i. py_get (map f ?rows) (int i)) idx = Inr (map (\<lambda>i. f (?rows ! i)) idx)"
      using lt by (intro mapR_all_Inr) simp
    then show ?thesis by (simp add: win comp_def)
  qed
  have "map (\<lambda>i. map (\<lambda>(b, m, t). t) ?rows ! i) idx = map (\<lambda>(b, m, t). t) win" using lt by (simp add: win)
  moreover have "\<not> (t_lo = None \<and> t_hi = None)" using assms(2) by blast
  ultimately show ?thesis
    using assms(1) get
    unfolding windowed_moe_steps_def Let_def t cols bindR_simps t0 length_map idx_def [symmetric] by auto
qed

text \<open>The histogram of admissions counts each one once, when the clock moved at all.\<close>

lemma one_bin:
  fixes x w :: real
  assumes "0 < w" and "0 \<le> x" and "x \<le> real (Suc m) * w"
  shows "\<exists>!k. k \<in> set [0..<Suc m] \<and> real k * w \<le> x \<and> (if k = m then x \<le> real (k + 1) * w else x < real (k + 1) * w)"
proof
  let ?k = "min (nat \<lfloor>x / w\<rfloor>) m"
  have q: "0 \<le> x / w" "x / w \<le> real (Suc m)" using assms by (simp_all add: pos_divide_le_eq)
  have "real ?k \<le> x / w" using q by (simp add: min_def) linarith
  then have lo: "real ?k * w \<le> x" using assms(1) by (simp add: pos_le_divide_eq)
  have "x < real (?k + 1) * w" if "?k \<noteq> m"
  proof -
    have "real ?k = of_int \<lfloor>x / w\<rfloor>" using that q by (simp add: min_def split: if_splits)
    then have "x / w < real (?k + 1)" by linarith
    then show ?thesis using assms(1) by (simp add: pos_divide_less_eq)
  qed
  then show "?k \<in> set [0..<Suc m] \<and> real ?k * w \<le> x \<and> (if ?k = m then x \<le> real (?k + 1) * w else x < real (?k + 1) * w)"
    using lo assms(3) by (auto simp: add.commute)
next
  fix k
  assume k: "k \<in> set [0..<Suc m] \<and> real k * w \<le> x \<and> (if k = m then x \<le> real (k + 1) * w else x < real (k + 1) * w)"
  have lo: "real k \<le> x / w" using k assms(1) by (simp add: pos_le_divide_eq)
  show "k = min (nat \<lfloor>x / w\<rfloor>) m"
  proof (cases "k = m")
    case True
    have "int m \<le> \<lfloor>x / w\<rfloor>" using lo True by (simp add: le_floor_iff)
    then show ?thesis using True by (simp add: min_def nat_le_iff)
  next
    case False
    then have "x / w < real (k + 1)" using k assms(1) by (simp add: pos_divide_less_eq)
    then have "\<lfloor>x / w\<rfloor> = int k" using lo by (simp add: floor_eq_iff)
    then show ?thesis using k False by simp
  qed
qed

lemma sum_filter_swap: "(\<Sum>k \<leftarrow> ks. length (filter (P k) xs)) = (\<Sum>x \<leftarrow> xs. \<Sum>k \<leftarrow> ks. of_bool (P k x))"
proof (induction xs)
  case (Cons x xs)
  have "length (filter (P k) (x # xs)) = of_bool (P k x) + length (filter (P k) xs)" for k by simp
  then show ?case using Cons by (simp only: sum_list_addf list.map sum_list.Cons)
qed (induction ks; simp)

lemma admissions_all_counted:
  assumes s: "sorted ts" and n: "hd ts < last ts" and w: "0 < w"
    and bins: "admission_bins w ts = Some (edges, counts)"
  shows "sum_list counts = length ts"
proof -
  have ne: "ts \<noteq> []" "2 \<le> length ts" using bins by (auto simp: admission_bins_def split: if_splits)
  define L where "L = last ts - hd ts"
  define rel where "rel = map (\<lambda>t. t - hd ts) ts"
  have lastrel: "last rel = L" using ne by (simp add: rel_def L_def last_map)
  have L: "0 < L" using n by (simp add: L_def)
  define m where "m = nat \<lceil>L / w\<rceil> - 1"
  have c: "0 < \<lceil>L / w\<rceil>" using L w by simp
  have "\<lceil>(L + w) / w\<rceil> = \<lceil>L / w\<rceil> + 1" using w by (simp add: add_divide_distrib)
  then have sz: "nat \<lceil>(L + w) / w\<rceil> = Suc (Suc m)" using c unfolding m_def by linarith
  have edges: "edges = map (\<lambda>k. real k * w) [0..<Suc (Suc m)]" and counts: "counts = np_histogram rel edges"
    using bins lastrel ne unfolding admission_bins_def Let_def rel_def [symmetric] np_arange0_def
    by (auto simp: sz simp del: upt_Suc)
  have len: "length edges = Suc (Suc m)" by (simp add: edges)
  have edge: "k \<le> Suc m \<Longrightarrow> edges ! k = real k * w" for k by (simp add: edges del: upt_Suc)
  have "real (Suc m) = of_int \<lceil>L / w\<rceil>" using c by (simp add: m_def)
  then have top: "L \<le> real (Suc m) * w" using w by (metis ceiling_divide_upper)
  have range: "0 \<le> x \<and> x \<le> L" if x: "x \<in> set rel" for x
  proof -
    obtain t where t: "t \<in> set ts" "x = t - hd ts" using x by (auto simp: rel_def)
    have "ts = butlast ts @ [last ts]" using ne by simp
    then have "t \<le> last ts" using s t(1) by (metis in_set_conv_decomp list.set_intros(1) nle_le set_ConsD
        set_append sorted_append Un_iff empty_iff empty_set)
    moreover have "hd ts \<le> t" using s t(1) ne by (cases ts) auto
    ultimately show ?thesis using t by (simp add: L_def)
  qed
  let ?P = "\<lambda>k x. edges ! k \<le> x \<and> (if k + 2 = length edges then x \<le> edges ! (k + 1) else x < edges ! (k + 1))"
  have one: "(\<Sum>k \<leftarrow> [0..<Suc m]. of_bool (?P k x)) = (1 :: nat)" if x: "x \<in> set rel" for x
  proof -
    have top': "x \<le> real (Suc m) * w" using range [OF x] top by linarith
    define Q where "Q = (\<lambda>k. real k * w \<le> x \<and> (if k = m then x \<le> real (k + 1) * w else x < real (k + 1) * w))"
    define p where "p = (\<lambda>k. ?P k x)"
    have P: "p k \<longleftrightarrow> Q k" if "k \<in> set [0..<Suc m]" for k
      using that edge [of k] edge [of "k + 1"] by (auto simp: len Q_def p_def)
    have "\<exists>!k. k \<in> set [0..<Suc m] \<and> Q k" using one_bin [OF w _ top'] range [OF x] by (simp only: Q_def)
    then obtain k where "k \<in> set [0..<Suc m]" "Q k" "\<And>j. j \<in> set [0..<Suc m] \<Longrightarrow> Q j \<Longrightarrow> j = k" by blast
    then have k: "k \<in> set [0..<Suc m]" "p k" "\<And>j. j \<in> set [0..<Suc m] \<Longrightarrow> p j \<Longrightarrow> j = k"
      using P by blast+
    have "of_bool (p j) = (if j = k then 1 else (0 :: nat))" if "j \<in> set [0..<Suc m]" for j
      using k(2) k(3) [OF that] by (cases "p j") auto
    then have "map (\<lambda>j. of_bool (p j)) [0..<Suc m] = map (\<lambda>j. if j = k then 1 else (0 :: nat)) [0..<Suc m]"
      by (rule map_cong [OF refl])
    moreover have "sum_list (map (\<lambda>j. if j = k then 1 else (0 :: nat)) js) = (if k \<in> set js then 1 else 0)"
      if "distinct js" for js
      using that by (induction js) auto
    from this [of "[0..<Suc m]"] have "sum_list (map (\<lambda>j. if j = k then 1 else (0 :: nat)) [0..<Suc m]) = 1"
      using k(1) by simp
    ultimately have "(\<Sum>j \<leftarrow> [0..<Suc m]. of_bool (p j)) = (1 :: nat)" by metis
    then show ?thesis by (simp only: p_def)
  qed
  have "sum_list counts = (\<Sum>k \<leftarrow> [0..<Suc m]. length (filter (?P k) rel))"
    by (simp only: counts np_histogram_def len diff_Suc_1)
  also have "\<dots> = (\<Sum>x \<leftarrow> rel. \<Sum>k \<leftarrow> [0..<Suc m]. of_bool (?P k x))" by (rule sum_filter_swap)
  also have "\<dots> = (\<Sum>x \<leftarrow> rel. 1)" by (rule arg_cong [where f = sum_list], rule map_cong [OF refl one])
  also have "\<dots> = length ts" by (simp add: rel_def comp_def sum_list_triv)
  finally show ?thesis .
qed

text \<open>When all admissions fall on the first instant there is one edge and no bin: all are lost.\<close>

lemma burst_not_counted: "admission_bins (1 / 2) [7, 7, 7] = Some ([0], [])"
  by (simp add: admission_bins_def np_arange0_def np_histogram_def)

text \<open>
  The engine logs the layer it chose as an index into a snapshot of \<open>n\<close> attention queues, the
  sampler and \<open>n\<close> expert queues; the mark stands in the row of that queue.
\<close>

lemma marks_on_scheduled_layer:
  assumes "l < n" and "length snap = 2 * n + 1"
  shows "sched_row ((length snap - 1) div 2) (length snap - (length snap - 1) div 2) (int l) = Some (2 * int l)"
    and "sched_row ((length snap - 1) div 2) (length snap - (length snap - 1) div 2)
      (int l + (int (length snap) - int n)) = Some (2 * int l + 1)"
    and "sched_row ((length snap - 1) div 2) (length snap - (length snap - 1) div 2) (int n) = None"
  using assms by (simp_all add: sched_row_def Let_def)

end
