(* ===== verification/ItlPlot.thy ===== *)
theory ItlPlot
  imports Experiment Telemetry "HOL-Library.List_Lexorder" "HOL-Library.Char_ord"
begin

text \<open>
  The comparison of sampled token latencies (\<open>simulation/plot_itl_cdf.py\<close>): the CSV rows that the
  workers of the experiment write, the configuration and mode read back from a row, the samples
  of each configuration, the curves and bars that are drawn, the names of the files and the
  printed summary. A float that is not finite is \<open>None\<close>; \<open>int()\<close>, \<open>float()\<close> and the formats of
  floats are parameters; matplotlib is left out. No cell of these files is quoted.
\<close>

section \<open>The rows of a log\<close>

definition int_str :: "int \<Rightarrow> string" where
  "int_str n = (if n < 0 then ''-'' @ nat_str (nat (- n)) else nat_str (nat n))"

fun join_comma :: "string list \<Rightarrow> string" where
  "join_comma [] = []"
| "join_comma [x] = x"
| "join_comma (x # y # ys) = x @ '','' @ join_comma (y # ys)"

definition per_token_columns :: "string list" where
  "per_token_columns =
     [''mode'', ''worker'', ''pid'', ''ep_group_size'', ''global_request_max_batch_size'', ''attn_service_t'',
      ''n_gpu_per_host'', ''net_delay_intra_host'', ''net_delay_inter_host'', ''hidden_dim'', ''inter_node_bw_gbps'',
      ''bw_aware'', ''request_id'', ''token_index'', ''tid'', ''birth_time'', ''completion_time'', ''latency_ticks'',
      ''latency_ms'']"

definition bool_str :: "bool \<Rightarrow> string" where
  "bool_str b = (if b then ''True'' else ''False'')"

definition token_cells :: "(real \<Rightarrow> string) \<Rightarrow> string \<Rightarrow> string \<Rightarrow> nat \<Rightarrow> token_row \<Rightarrow> string list" where
  "token_cells float_str mode worker pid r =
     (let cfg = lr_cfg r in
      [mode, worker, nat_str pid, nat_str (xc_ep_group_size cfg), nat_str (xc_global_max cfg),
       float_str (xc_attn_service_t cfg), nat_str (xc_n_gpu_per_host cfg), float_str (xc_net_delay_intra cfg),
       float_str (xc_net_delay_inter cfg), int_str (xc_hidden_dim cfg), float_str (xc_inter_bw cfg),
       bool_str (xc_bw_aware cfg), nat_str (lr_request_id r), nat_str (lr_token_index r), nat_str (lr_tid r),
       float_str (lr_birth_time r), float_str (lr_completion_time r), float_str (lr_latency_ticks r),
       float_str (lr_latency_ms r)])"

text \<open>
  The text of a worker's file, line by line: the header that the initialiser writes, then a line
  per row.
\<close>

definition header_line :: string where
  "header_line = join_comma per_token_columns"

definition worker_file :: "(real \<Rightarrow> string) \<Rightarrow> string \<Rightarrow> string \<Rightarrow> nat \<Rightarrow> token_log \<Rightarrow> string list" where
  "worker_file float_str mode worker pid g =
     header_line # map (\<lambda>r. join_comma (token_cells float_str mode worker pid r)) (tl_rows g)"

definition stats_path :: "string \<Rightarrow> string \<Rightarrow> string" where
  "stats_path mode worker = ''per_token_stats_'' @ mode @ ''_'' @ worker @ ''.csv''"

section \<open>Reading rows\<close>

type_synonym csv_row = "(string, string) dict"

text \<open>\<open>csv.DictReader\<close>: the first line names the cells.\<close>

definition reader_rows :: "string list \<Rightarrow> csv_row list" where
  "reader_rows file = (case file of [] \<Rightarrow> [] | header # ls \<Rightarrow> map (\<lambda>l. zip (split_comma header) (split_comma l)) ls)"

definition iter_csv_rows :: "(string \<times> string list) list \<Rightarrow> csv_row list" where
  "iter_csv_rows files = concat (map (reader_rows \<circ> snd) (sort_key fst files))"

definition safe_int :: "(string \<Rightarrow> int option) \<Rightarrow> string option \<Rightarrow> int \<Rightarrow> int" where
  "safe_int p_int v dflt = (case v of None \<Rightarrow> dflt | Some s \<Rightarrow> (case p_int s of None \<Rightarrow> dflt | Some n \<Rightarrow> n))"

definition safe_float :: "(string \<Rightarrow> real option) \<Rightarrow> string option \<Rightarrow> real option" where
  "safe_float p_float v = Option.bind v p_float"

record config_key =
  ck_ep_group_size :: int
  ck_global_max :: int
  ck_attn_service_t :: real
  ck_n_gpu_per_host :: int
  ck_net_delay_intra :: "real option"
  ck_net_delay_inter :: "real option"
  ck_hidden_dim :: int
  ck_inter_bw :: real
  ck_bw_aware :: bool

text \<open>\<open>value or default\<close> on a cell: a missing and an empty one are both false.\<close>

definition or_default :: "string option \<Rightarrow> string \<Rightarrow> string" where
  "or_default v dflt = (case v of None \<Rightarrow> dflt | Some s \<Rightarrow> if s = [] then dflt else s)"

definition float_or_0 :: "real option \<Rightarrow> real" where
  "float_or_0 x = (case x of None \<Rightarrow> 0 | Some v \<Rightarrow> v)"

definition key_from_row ::
  "(string \<Rightarrow> int option) \<Rightarrow> (string \<Rightarrow> real option) \<Rightarrow> csv_row \<Rightarrow> string \<times> config_key" where
  "key_from_row p_int p_float row =
     (let get = map_of row;
          mode = strip (or_default (get ''mode'') []);
          mode = (if mode = [] then ''unknown'' else mode);
          intra = safe_float p_float (get ''net_delay_intra_host'');
          inter = safe_float p_float (get ''net_delay_inter_host'');
          net_delay = safe_float p_float (get ''net_delay'');
          both = (if \<not> (intra \<noteq> None \<and> inter \<noteq> None) \<and> net_delay \<noteq> None then (net_delay, net_delay) else (intra, inter));
          bw_aware_raw = strip (or_default (get ''bw_aware'') ''True'')
      in (mode, \<lparr>ck_ep_group_size = safe_int p_int (get ''ep_group_size'') 0,
            ck_global_max = safe_int p_int (get ''global_request_max_batch_size'') 0,
            ck_attn_service_t = float_or_0 (safe_float p_float (get ''attn_service_t'')),
            ck_n_gpu_per_host = safe_int p_int (get ''n_gpu_per_host'') 0,
            ck_net_delay_intra = fst both, ck_net_delay_inter = snd both,
            ck_hidden_dim = safe_int p_int (get ''hidden_dim'') 0,
            ck_inter_bw = float_or_0 (safe_float p_float (get ''inter_node_bw_gbps'')),
            ck_bw_aware = (bw_aware_raw \<notin> {''False'', ''false'', ''0'', []})\<rparr>))"

definition extract_latency :: "(string \<Rightarrow> real option) \<Rightarrow> string \<Rightarrow> csv_row \<Rightarrow> real option result" where
  "extract_latency p_float unit row =
     (if unit = ''ms'' then Inr (safe_float p_float (map_of row ''latency_ms''))
      else if unit = ''ticks'' then Inr (safe_float p_float (map_of row ''latency_ticks''))
      else Inl ValueError)"

section \<open>Collecting\<close>

record experiment_metrics =
  em_throughput :: "real option"
  em_tail_throughput :: "real option"
  em_token_latency_ms :: "real option"
  em_batch_size :: "real option"

definition metrics_of_row :: "(string \<Rightarrow> real option) \<Rightarrow> csv_row \<Rightarrow> experiment_metrics" where
  "metrics_of_row p_float row =
     (let f = (\<lambda>name. safe_float p_float (map_of row name)) in
      \<lparr>em_throughput = f ''avg_throughput_req_per_sec'', em_tail_throughput = f ''tail_throughput_req_per_sec'',
       em_token_latency_ms = f ''avg_token_latency_ms'', em_batch_size = f ''avg_per_expert_batch_size''\<rparr>)"

text \<open>\<open>file\<close> gives the lines of \<open>experiment_results_<mode>.txt\<close>, None where it does not exist.\<close>

definition load_experiment_results ::
  "(string \<Rightarrow> int option) \<Rightarrow> (string \<Rightarrow> real option) \<Rightarrow> (string \<Rightarrow> string list option)
     \<Rightarrow> (string, (config_key, experiment_metrics) dict) dict" where
  "load_experiment_results p_int p_float file =
     fold (\<lambda>mode results. case file mode of
         None \<Rightarrow> results
       | Some ls \<Rightarrow>
           let ms = fold (\<lambda>row. AList.update (snd (key_from_row p_int p_float row)) (metrics_of_row p_float row)) (reader_rows ls) []
           in if ms = [] then results else AList.update mode ms results) [''async'', ''sync'', ''tbo''] []"

type_synonym samples = "(config_key, (string, real list) dict) dict"

definition add_sample :: "string \<Rightarrow> config_key \<Rightarrow> real \<Rightarrow> samples \<Rightarrow> samples" where
  "add_sample mode key latency by_cfg =
     (let bucket = d_get_or by_cfg key []
      in AList.update key (AList.update mode (d_get_or bucket mode [] @ [latency]) bucket) by_cfg)"

text \<open>The loop over the rows: the samples, the rows read and the rows used.\<close>

definition collect_row ::
  "(string \<Rightarrow> int option) \<Rightarrow> (string \<Rightarrow> real option) \<Rightarrow> string option \<Rightarrow> string \<Rightarrow> csv_row
     \<Rightarrow> samples \<times> nat \<times> nat \<Rightarrow> (samples \<times> nat \<times> nat) result" where
  "collect_row p_int p_float only unit row st =
     (let (by_cfg, rows, used) = st; (mode, key) = key_from_row p_int p_float row in
      if only \<noteq> None \<and> only \<noteq> Some mode then Inr (by_cfg, rows + 1, used)
      else bindR (extract_latency p_float unit row) (\<lambda>l.
        Inr (case l of None \<Rightarrow> (by_cfg, rows + 1, used)
             | Some latency \<Rightarrow> (add_sample mode key latency by_cfg, rows + 1, used + 1))))"

definition collect ::
  "(string \<Rightarrow> int option) \<Rightarrow> (string \<Rightarrow> real option) \<Rightarrow> string option \<Rightarrow> string \<Rightarrow> csv_row list
     \<Rightarrow> (samples \<times> nat \<times> nat) result" where
  "collect p_int p_float only unit rows = foldR (collect_row p_int p_float only unit) rows ([], 0, 0)"

text \<open>The samples of a mode under a configuration.\<close>

definition mode_values :: "samples \<Rightarrow> config_key \<Rightarrow> string \<Rightarrow> real list" where
  "mode_values by_cfg key mode = d_get_or (d_get_or by_cfg key []) mode []"

section \<open>Curves and figures\<close>

definition empirical_cdf :: "real list \<Rightarrow> real list \<times> real list" where
  "empirical_cdf xs = (sort xs, map (\<lambda>i. (real i + 1) / real (length xs)) [0..<length xs])"

definition mean_or_nan :: "real list \<Rightarrow> real option" where
  "mean_or_nan xs = (if xs = [] then None else Some (sum_list xs / real (length xs)))"

definition p95 :: "real list \<Rightarrow> real option" where
  "p95 xs =
     (if xs = [] then None
      else let n = length xs; rank = \<lceil>95 / 100 * real n\<rceil>; idx = min (max (rank - 1) 0) (int n - 1)
           in Some (sort xs ! nat idx))"

text \<open>The order of the configurations: \<open>_sort_float\<close> puts an unknown delay last.\<close>

definition sort_float :: "real option \<Rightarrow> nat \<times> real" where
  "sort_float x = (case x of None \<Rightarrow> (1, 0) | Some v \<Rightarrow> (0, v))"

definition config_order ::
  "config_key \<Rightarrow> int \<times> int \<times> real \<times> int \<times> (nat \<times> real) \<times> (nat \<times> real) \<times> int \<times> real \<times> nat" where
  "config_order k =
     (ck_ep_group_size k, ck_global_max k, ck_attn_service_t k, ck_n_gpu_per_host k, sort_float (ck_net_delay_intra k),
      sort_float (ck_net_delay_inter k), ck_hidden_dim k, ck_inter_bw k, if ck_bw_aware k then 0 else 1)"

definition sorted_configs :: "samples \<Rightarrow> config_key list" where
  "sorted_configs by_cfg = sort_key config_order (map fst by_cfg)"

text \<open>The curves of a configuration; none when every mode has too few samples.\<close>

definition plot_series ::
  "samples \<Rightarrow> string option \<Rightarrow> nat \<Rightarrow> config_key \<Rightarrow> (string \<times> real list \<times> real list) list option" where
  "plot_series by_cfg only min_samples key =
     (case only of
        Some mode \<Rightarrow>
          let vs = mode_values by_cfg key (if mode = ''async'' then ''async'' else if mode = ''sync'' then ''sync'' else ''tbo'')
          in if length vs < min_samples then None else Some [(mode, empirical_cdf vs)]
      | None \<Rightarrow>
          let have = filter (\<lambda>mode. min_samples \<le> length (mode_values by_cfg key mode)) [''async'', ''sync'', ''tbo'']
          in if have = [] then None else Some (map (\<lambda>mode. (mode, empirical_cdf (mode_values by_cfg key mode))) have))"

text \<open>\<open>_fmt_float_for_filename\<close>; \<open>fmt_g\<close> is the format \<open>:g\<close>, which raises on None.\<close>

definition fmt_float_for_filename :: "(real \<Rightarrow> string) \<Rightarrow> real \<Rightarrow> string" where
  "fmt_float_for_filename fmt_g x =
     map (\<lambda>c. if c = CHR ''-'' then CHR ''m'' else if c = CHR ''.'' then CHR ''p'' else c) (fmt_g x)"

definition net_fname :: "(real \<Rightarrow> string) \<Rightarrow> config_key \<Rightarrow> string result" where
  "net_fname fmt_g k =
     (case (ck_net_delay_intra k, ck_net_delay_inter k) of
        (None, None) \<Rightarrow> Inr ''netunknown''
      | (Some a, Some b) \<Rightarrow>
          Inr (if a = b then ''net'' @ fmt_float_for_filename fmt_g a
               else ''neti'' @ fmt_float_for_filename fmt_g a @ ''_nete'' @ fmt_float_for_filename fmt_g b)
      | _ \<Rightarrow> Inl TypeError)"

definition cdf_filename :: "(real \<Rightarrow> string) \<Rightarrow> string option \<Rightarrow> samples \<Rightarrow> config_key \<Rightarrow> string result" where
  "cdf_filename fmt_g only by_cfg k =
     bindR (net_fname fmt_g k) (\<lambda>net.
     Inr (''itl_cdf_'' @ (case only of None \<Rightarrow> ''compare'' | Some mode \<Rightarrow> mode)
       @ ''_ep'' @ int_str (ck_ep_group_size k) @ ''_gb'' @ int_str (ck_global_max k)
       @ ''_attn'' @ fmt_float_for_filename fmt_g (ck_attn_service_t k) @ ''_ngph'' @ int_str (ck_n_gpu_per_host k)
       @ ''_'' @ net @ ''_hid'' @ int_str (ck_hidden_dim k)
       @ ''_bw'' @ int_str (if 0 \<le> ck_inter_bw k then \<lfloor>ck_inter_bw k\<rfloor> else \<lceil>ck_inter_bw k\<rceil>)
       @ ''_bwa'' @ (if ck_bw_aware k then ''1'' else ''0'')
       @ ''_na'' @ nat_str (length (mode_values by_cfg k ''async'')) @ ''_ns'' @ nat_str (length (mode_values by_cfg k ''sync''))
       @ ''_nt'' @ nat_str (length (mode_values by_cfg k ''tbo'')) @ ''.png''))"

text \<open>The files that are written, with their curves, and the number of configurations skipped.\<close>

definition plot_configs ::
  "(real \<Rightarrow> string) \<Rightarrow> samples \<Rightarrow> string option \<Rightarrow> nat
     \<Rightarrow> ((string \<times> (string \<times> real list \<times> real list) list) list \<times> nat) result" where
  "plot_configs fmt_g by_cfg only min_samples =
     foldR (\<lambda>key (files, skipped).
         case plot_series by_cfg only min_samples key of
           None \<Rightarrow> Inr (files, skipped + 1)
         | Some series \<Rightarrow> bindR (cdf_filename fmt_g only by_cfg key) (\<lambda>name. Inr (files @ [(name, series)], skipped)))
       (sorted_configs by_cfg) ([], 0)"

section \<open>Summaries\<close>

text \<open>The bars of a mode: throughput, mean and p95 of each configuration with enough samples.\<close>

definition summary_configs :: "samples \<Rightarrow> nat \<Rightarrow> config_key list" where
  "summary_configs by_cfg min_samples =
     filter (\<lambda>key. \<exists>mode \<in> {''async'', ''sync'', ''tbo''}. min_samples \<le> length (mode_values by_cfg key mode))
       (sorted_configs by_cfg)"

definition metrics_for ::
  "(string, (config_key, experiment_metrics) dict) dict \<Rightarrow> string \<Rightarrow> config_key \<Rightarrow> experiment_metrics option" where
  "metrics_for results mode key = map_of (d_get_or results mode []) key"

definition summary_bars ::
  "samples \<Rightarrow> (string, (config_key, experiment_metrics) dict) dict \<Rightarrow> nat \<Rightarrow> string
     \<Rightarrow> (real option \<times> real option \<times> real option) list" where
  "summary_bars by_cfg results min_samples mode =
     map (\<lambda>key. let vs = mode_values by_cfg key mode in
         (Option.bind (metrics_for results mode key) em_throughput,
          if min_samples \<le> length vs then mean_or_nan vs else None,
          if min_samples \<le> length vs then p95 vs else None)) (summary_configs by_cfg min_samples)"

text \<open>
  The printed table: its order leaves out the host size and the delays, and a line needs enough
  samples or a result of the experiment.
\<close>

record stats_line =
  sl_key :: config_key
  sl_mode :: string
  sl_throughput :: "real option"
  sl_tail :: "real option"
  sl_avg_itl :: "real option"
  sl_p95_itl :: "real option"
  sl_batch :: "real option"
  sl_samples :: nat

definition table_order :: "config_key \<Rightarrow> int \<times> int \<times> real \<times> int \<times> real \<times> nat" where
  "table_order k = (ck_ep_group_size k, ck_global_max k, ck_attn_service_t k, ck_hidden_dim k, ck_inter_bw k,
     if ck_bw_aware k then 0 else 1)"

definition stats_lines ::
  "samples \<Rightarrow> (string, (config_key, experiment_metrics) dict) dict \<Rightarrow> nat \<Rightarrow> stats_line list" where
  "stats_lines by_cfg results min_samples =
     concat (map (\<lambda>key. concat (map (\<lambda>mode.
         let vs = mode_values by_cfg key mode; m = metrics_for results mode key; ok = min_samples \<le> length vs in
         if \<not> ok \<and> m = None then []
         else [\<lparr>sl_key = key, sl_mode = mode, sl_throughput = Option.bind m em_throughput,
                sl_tail = Option.bind m em_tail_throughput, sl_avg_itl = (if ok then mean_or_nan vs else None),
                sl_p95_itl = (if ok then p95 vs else None), sl_batch = Option.bind m em_batch_size,
                sl_samples = length vs\<rparr>]) [''async'', ''sync'', ''tbo'']))
       (sort_key table_order (map fst by_cfg)))"

text \<open>The averages of a mode over all configurations of its results.\<close>

definition finite_values :: "('m \<Rightarrow> real option) \<Rightarrow> 'm list \<Rightarrow> real list" where
  "finite_values f ms = map (the \<circ> f) (filter (\<lambda>m. f m \<noteq> None) ms)"

definition mode_averages ::
  "(string, (config_key, experiment_metrics) dict) dict \<Rightarrow> string
     \<Rightarrow> (real option \<times> real option \<times> real option \<times> real option) option" where
  "mode_averages results mode =
     (let ms = map snd (d_get_or results mode []) in
      if ms = [] then None
      else Some (mean_or_nan (finite_values em_throughput ms), mean_or_nan (finite_values em_tail_throughput ms),
        mean_or_nan (finite_values em_token_latency_ms ms), mean_or_nan (finite_values em_batch_size ms)))"

end
