(* ===== verification/ItlPlotProps.thy ===== *)
theory ItlPlotProps
  imports ItlPlot
begin

text \<open>
  What the comparison of latencies shows: the rows of the workers' files are read back, each
  sample under the configuration and mode of its run and under no other, the curve is the
  distribution of the samples, and p95 is the nearest-rank percentile.
\<close>

section \<open>Figures\<close>

lemma empirical_cdf_shape:
  assumes "xs \<noteq> []"
  shows "sorted (fst (empirical_cdf xs))" and "mset (fst (empirical_cdf xs)) = mset xs"
    and "length (snd (empirical_cdf xs)) = length xs" and "last (snd (empirical_cdf xs)) = 1"
  using assms by (simp_all add: empirical_cdf_def last_map of_nat_diff Suc_le_eq)

lemma sorted_le_count:
  assumes "i < length xs"
  shows "i < length (filter (\<lambda>x. x \<le> sort xs ! i) xs)"
proof -
  let ?P = "\<lambda>x. x \<le> sort xs ! i"
  have "length (filter ?P xs) = length (filter ?P (sort xs))"
    by (metis mset_filter mset_sort size_mset)
  moreover have "filter ?P (take (Suc i) (sort xs)) = take (Suc i) (sort xs)"
    using assms by (auto simp: filter_id_conv in_set_conv_nth intro!: sorted_nth_mono)
  then have "Suc i \<le> length (filter ?P (sort xs))"
    using assms by (metis Suc_leI append_take_drop_id filter_append le_add1 length_append length_sort length_take min.absorb2)
  ultimately show ?thesis by simp
qed

text \<open>p95 is a sample, and at least 95 in 100 samples are at most as large.\<close>

lemma p95_sample:
  assumes "xs \<noteq> []"
  shows "\<exists>v. p95 xs = Some v \<and> v \<in> set xs \<and> 95 / 100 * real (length xs) \<le> real (length (filter (\<lambda>x. x \<le> v) xs))"
proof -
  define r where "r = \<lceil>95 / 100 * real (length xs)\<rceil>"
  have n: "0 < real (length xs)" using assms by simp
  have r1: "1 \<le> r" using n by (simp add: r_def)
  have rn: "r \<le> int (length xs)" unfolding r_def by (simp add: ceiling_le_iff)
  define i where "i = nat (r - 1)"
  have i: "i < length xs" "real_of_int r = real i + 1" using r1 rn by (simp_all add: i_def)
  have "p95 xs = Some (sort xs ! i)" using assms r1 rn unfolding p95_def Let_def r_def [symmetric] by (simp add: i_def)
  moreover have "sort xs ! i \<in> set xs" using i(1) nth_mem [of i "sort xs"] by simp
  moreover have "real i + 1 \<le> real (length (filter (\<lambda>x. x \<le> sort xs ! i) xs))"
    using sorted_le_count [OF i(1)] by linarith
  then have "95 / 100 * real (length xs) \<le> real (length (filter (\<lambda>x. x \<le> sort xs ! i) xs))"
    using i(2) le_of_int_ceiling [of "95 / 100 * real (length xs)"] unfolding r_def by linarith
  ultimately show ?thesis by blast
qed

section \<open>Lines and rows\<close>

lemma split_comma_plain: "CHR '','' \<notin> set x \<Longrightarrow> split_comma x = [x]"
  by (induction x) auto

lemma split_comma_append: "CHR '','' \<notin> set x \<Longrightarrow> split_comma (x @ '','' @ y) = x # split_comma y"
proof (induction x)
  case (Cons c x)
  then show ?case by (cases "split_comma y") auto
qed simp

lemma split_join: "xs \<noteq> [] \<Longrightarrow> \<forall>x \<in> set xs. CHR '','' \<notin> set x \<Longrightarrow> split_comma (join_comma xs) = xs"
proof (induction xs rule: join_comma.induct)
  case (3 x y ys)
  then show ?case using split_comma_append [of x "join_comma (y # ys)"] by simp
qed (simp_all add: split_comma_plain)

lemma nat_str_plain: "CHR '','' \<notin> set (nat_str n)"
  using nat_str_digits [of _ n] by force

lemma int_str_plain: "CHR '','' \<notin> set (int_str n)"
  using nat_str_plain by (simp add: int_str_def)

lemma int_str_nat: "int_str (int n) = nat_str n"
  by (simp add: int_str_def)

text \<open>The configuration as the plot sees it.\<close>

definition key_of :: "exp_config \<Rightarrow> config_key" where
  "key_of c = \<lparr>ck_ep_group_size = int (xc_ep_group_size c), ck_global_max = int (xc_global_max c),
     ck_attn_service_t = xc_attn_service_t c, ck_n_gpu_per_host = int (xc_n_gpu_per_host c),
     ck_net_delay_intra = Some (xc_net_delay_intra c), ck_net_delay_inter = Some (xc_net_delay_inter c),
     ck_hidden_dim = xc_hidden_dim c, ck_inter_bw = xc_inter_bw c, ck_bw_aware = xc_bw_aware c\<rparr>"

lemma key_of_inj: "key_of c = key_of d \<longleftrightarrow> c = d"
  by (cases c; cases d) (auto simp: key_of_def)

text \<open>The numbers of a row that are written as floats; they have to be read back, without a comma.\<close>

definition row_floats :: "token_row \<Rightarrow> real list" where
  "row_floats r = (let c = lr_cfg r in
     [xc_attn_service_t c, xc_net_delay_intra c, xc_net_delay_inter c, xc_inter_bw c, lr_birth_time r,
      lr_completion_time r, lr_latency_ticks r, lr_latency_ms r])"

definition floats_ok :: "(real \<Rightarrow> string) \<Rightarrow> (string \<Rightarrow> real option) \<Rightarrow> token_row \<Rightarrow> bool" where
  "floats_ok float_str p_float r \<longleftrightarrow>
     (\<forall>x \<in> set (row_floats r). p_float (float_str x) = Some x \<and> CHR '','' \<notin> set (float_str x))"

definition plain_name :: "string \<Rightarrow> bool" where
  "plain_name s \<longleftrightarrow> s \<noteq> [] \<and> strip s = s \<and> CHR '','' \<notin> set s"

definition row_dict :: "(real \<Rightarrow> string) \<Rightarrow> string \<Rightarrow> string \<Rightarrow> nat \<Rightarrow> token_row \<Rightarrow> csv_row" where
  "row_dict float_str mode worker pid r = zip per_token_columns (token_cells float_str mode worker pid r)"

lemma reader_rows_worker_file:
  assumes "plain_name mode" and "plain_name worker" and "\<forall>r \<in> set (tl_rows g). floats_ok float_str p_float r"
  shows "reader_rows (worker_file float_str mode worker pid g) = map (row_dict float_str mode worker pid) (tl_rows g)"
proof -
  have cols: "split_comma (join_comma per_token_columns) = per_token_columns"
    by (rule split_join) (simp_all add: per_token_columns_def)
  have "split_comma (join_comma (token_cells float_str mode worker pid r)) = token_cells float_str mode worker pid r"
    if "r \<in> set (tl_rows g)" for r
  proof (rule split_join)
    have "floats_ok float_str p_float r" using assms(3) that by blast
    then show "\<forall>x \<in> set (token_cells float_str mode worker pid r). CHR '','' \<notin> set x"
      using assms(1,2)
      by (auto simp: token_cells_def Let_def floats_ok_def row_floats_def plain_name_def nat_str_plain int_str_plain
          bool_str_def)
  qed (simp add: token_cells_def Let_def)
  then show ?thesis by (simp add: reader_rows_def worker_file_def header_line_def cols row_dict_def)
qed

lemma key_from_row_dict:
  assumes mode: "plain_name mode" and ints: "\<forall>n. p_int (int_str n) = Some n" and fl: "floats_ok float_str p_float r"
  shows "key_from_row p_int p_float (row_dict float_str mode worker pid r) = (mode, key_of (lr_cfg r))"
proof -
  let ?d = "row_dict float_str mode worker pid r" and ?c = "lr_cfg r"
  have nats: "p_int (nat_str n) = Some (int n)" for n using ints by (metis int_str_nat)
  have cells: "map_of ?d ''mode'' = Some mode" "map_of ?d ''attn_service_t'' = Some (float_str (xc_attn_service_t ?c))"
      "map_of ?d ''net_delay_intra_host'' = Some (float_str (xc_net_delay_intra ?c))"
      "map_of ?d ''net_delay_inter_host'' = Some (float_str (xc_net_delay_inter ?c))"
      "map_of ?d ''inter_node_bw_gbps'' = Some (float_str (xc_inter_bw ?c))"
      "map_of ?d ''bw_aware'' = Some (bool_str (xc_bw_aware ?c))"
      "map_of ?d ''ep_group_size'' = Some (nat_str (xc_ep_group_size ?c))"
      "map_of ?d ''global_request_max_batch_size'' = Some (nat_str (xc_global_max ?c))"
      "map_of ?d ''n_gpu_per_host'' = Some (nat_str (xc_n_gpu_per_host ?c))"
      "map_of ?d ''hidden_dim'' = Some (int_str (xc_hidden_dim ?c))"
    by (simp_all add: row_dict_def per_token_columns_def token_cells_def Let_def)
  have fs: "p_float (float_str x) = Some x" if "x \<in> set (row_floats r)" for x
    using fl that by (simp add: floats_ok_def)
  have "strip (bool_str b) \<notin> {''False'', ''false'', ''0'', []} \<longleftrightarrow> b" "bool_str b \<noteq> []" for b
    by (cases b; simp add: bool_str_def strip_def is_space_def)+
  then show ?thesis
    using mode
    by (simp add: key_from_row_def Let_def cells safe_float_def safe_int_def float_or_0_def or_default_def
        nats ints fs row_floats_def key_of_def plain_name_def)
qed

lemma extract_latency_dict:
  assumes "floats_ok float_str p_float r"
  shows "extract_latency p_float ''ms'' (row_dict float_str mode worker pid r) = Inr (Some (lr_latency_ms r))"
  using assms
  by (simp add: extract_latency_def row_dict_def per_token_columns_def token_cells_def Let_def safe_float_def
      floats_ok_def row_floats_def)

section \<open>The samples of a configuration\<close>

lemma mode_values_add:
  "mode_values (add_sample m k l by_cfg) key mode = mode_values by_cfg key mode @ (if key = k \<and> mode = m then [l] else [])"
  by (simp add: mode_values_def add_sample_def Let_def d_get_or_update)

lemma mode_values_fold:
  "mode_values (fold (\<lambda>(m, k, l). add_sample m k l) xs by_cfg) key mode =
     mode_values by_cfg key mode @ map (\<lambda>(m, k, l). l) (filter (\<lambda>(m, k, l). m = mode \<and> k = key) xs)"
  by (induction xs arbitrary: by_cfg) (auto simp: mode_values_add split: if_splits)

lemma collect_dicts:
  assumes "\<forall>x \<in> set xs. key_from_row p_int p_float (d x) = (m x, k x) \<and> extract_latency p_float unit (d x) = Inr (Some (l x))"
  shows "collect p_int p_float None unit (map d xs) =
    Inr (fold (\<lambda>(m, k, l). add_sample m k l) (map (\<lambda>x. (m x, k x, l x)) xs) [], length xs, length xs)"
proof -
  have "foldR (collect_row p_int p_float None unit) (map d ys) (s, i, j) =
      Inr (fold (\<lambda>(m, k, l). add_sample m k l) (map (\<lambda>x. (m x, k x, l x)) ys) s, i + length ys, j + length ys)"
    if "\<forall>x \<in> set ys. key_from_row p_int p_float (d x) = (m x, k x) \<and> extract_latency p_float unit (d x) = Inr (Some (l x))"
    for ys s i j
    using that by (induction ys arbitrary: s i j) (simp_all add: collect_row_def)
  from this [OF assms, of "[]" 0 0] show ?thesis by (simp add: collect_def)
qed

text \<open>A worker of a run: its mode, its name and process id, and the log it kept.\<close>

type_synonym worker_log = "string \<times> string \<times> nat \<times> token_log"

definition log_rows :: "worker_log list \<Rightarrow> (string \<times> token_row) list" where
  "log_rows logs = concat (map (\<lambda>(mode, worker, pid, g). map (\<lambda>r. (mode, r)) (tl_rows g)) logs)"

definition log_file :: "(real \<Rightarrow> string) \<Rightarrow> worker_log \<Rightarrow> string \<times> string list" where
  "log_file float_str = (\<lambda>(mode, worker, pid, g). (stats_path mode worker, worker_file float_str mode worker pid g))"

text \<open>The latencies that the workers of a mode sampled under a configuration.\<close>

definition sampled :: "worker_log list \<Rightarrow> exp_config \<Rightarrow> string \<Rightarrow> real list" where
  "sampled logs cfg mode =
     map (\<lambda>(m, r). lr_latency_ms r) (filter (\<lambda>(m, r). m = mode \<and> lr_cfg r = cfg) (log_rows logs))"

lemma iter_log_files:
  assumes "\<forall>(mode, worker, pid, g) \<in> set logs. plain_name mode \<and> plain_name worker \<and>
      (\<forall>r \<in> set (tl_rows g). floats_ok float_str p_float r)"
  shows "\<exists>ds. concat (map (reader_rows \<circ> snd) (map (log_file float_str) logs)) = map snd ds \<and>
    map fst ds = log_rows logs \<and>
    (\<forall>((mode, r), d) \<in> set ds. plain_name mode \<and> floats_ok float_str p_float r \<and>
       (\<exists>worker pid. d = row_dict float_str mode worker pid r))"
  using assms
proof (induction logs)
  case (Cons x logs)
  obtain mode worker pid g where x: "x = (mode, worker, pid, g)" by (metis prod.exhaust)
  have h: "plain_name mode" "plain_name worker" "\<forall>r \<in> set (tl_rows g). floats_ok float_str p_float r"
    using Cons.prems by (simp_all add: x)
  have p: "\<forall>(mode, worker, pid, g) \<in> set logs. plain_name mode \<and> plain_name worker \<and>
      (\<forall>r \<in> set (tl_rows g). floats_ok float_str p_float r)"
    using Cons.prems by simp
  obtain ds where ds: "concat (map (reader_rows \<circ> snd) (map (log_file float_str) logs)) = map snd ds"
      "map fst ds = log_rows logs" "\<forall>((mode, r), d) \<in> set ds. plain_name mode \<and> floats_ok float_str p_float r \<and>
       (\<exists>worker pid. d = row_dict float_str mode worker pid r)"
    using Cons.IH [OF p] by blast
  let ?new = "map (\<lambda>r. ((mode, r), row_dict float_str mode worker pid r)) (tl_rows g)"
  have "concat (map (reader_rows \<circ> snd) (map (log_file float_str) (x # logs))) = map snd (?new @ ds)"
    using reader_rows_worker_file [OF h] ds(1) by (simp add: x log_file_def comp_def)
  moreover have "map fst (?new @ ds) = log_rows (x # logs)" using ds(2) by (simp add: x log_rows_def comp_def)
  moreover have "\<forall>((mode, r), d) \<in> set (?new @ ds). plain_name mode \<and> floats_ok float_str p_float r \<and>
       (\<exists>worker pid. d = row_dict float_str mode worker pid r)"
    using ds(3) h by auto
  ultimately show ?case by blast
qed (simp add: log_rows_def)

text \<open>
  C39: what the simulators sampled is what is plotted. The files of the workers, listed in any
  order, are read without an error and every row is used; under each configuration and mode of
  the plot are exactly the latencies that workers of that mode logged for that configuration, so
  no sample is lost, duplicated or shown under another configuration, and different
  configurations have different keys.
\<close>

theorem itl_samples_roundtrip:
  assumes files: "mset files = mset (map (log_file float_str) logs)"
    and names: "\<forall>(mode, worker, pid, g) \<in> set logs. plain_name mode \<and> plain_name worker \<and>
      (\<forall>r \<in> set (tl_rows g). floats_ok float_str p_float r)"
    and ints: "\<forall>n. p_int (int_str n) = Some n"
  shows "\<exists>by_cfg. collect p_int p_float None ''ms'' (iter_csv_rows files) =
      Inr (by_cfg, length (log_rows logs), length (log_rows logs)) \<and>
    (\<forall>cfg mode. mset (mode_values by_cfg (key_of cfg) mode) = mset (sampled logs cfg mode)) \<and>
    (\<forall>c d. key_of c = key_of d \<longleftrightarrow> c = d)"
proof -
  obtain logs' where l: "sort_key fst files = map (log_file float_str) logs'" "mset logs' = mset logs"
    using mset_map_split [of "sort_key fst files" "log_file float_str" logs] files by auto
  have "\<forall>(mode, worker, pid, g) \<in> set logs'. plain_name mode \<and> plain_name worker \<and>
      (\<forall>r \<in> set (tl_rows g). floats_ok float_str p_float r)"
    using names mset_eq_setD [OF l(2)] by simp
  from iter_log_files [OF this] obtain ds where ds: "iter_csv_rows files = map snd ds" "map fst ds = log_rows logs'"
      "\<forall>((mode, r), d) \<in> set ds. plain_name mode \<and> floats_ok float_str p_float r \<and>
       (\<exists>worker pid. d = row_dict float_str mode worker pid r)"
    by (auto simp: iter_csv_rows_def l(1))
  let ?m = "\<lambda>((mode, r), d). mode" and ?k = "\<lambda>((mode, r), d). key_of (lr_cfg r)" and ?l = "\<lambda>((mode, r), d). lr_latency_ms r"
  have "\<forall>x \<in> set ds. key_from_row p_int p_float (snd x) = (?m x, ?k x) \<and> extract_latency p_float ''ms'' (snd x) = Inr (Some (?l x))"
    using ds(3) key_from_row_dict [OF _ ints] extract_latency_dict by fastforce
  note col = collect_dicts [OF this]
  define by_cfg where "by_cfg = fold (\<lambda>(m, k, l). add_sample m k l) (map (\<lambda>x. (?m x, ?k x, ?l x)) ds) []"
  have perm: "mset (log_rows logs') = mset (log_rows logs)"
  proof -
    have "mset (concat (map f xs)) = \<Sum>\<^sub># (image_mset (mset \<circ> f) (mset xs))" for f :: "worker_log \<Rightarrow> (string \<times> token_row) list" and xs
      by (induction xs) simp_all
    then show ?thesis using l(2) by (simp add: log_rows_def)
  qed
  have len: "length ds = length (log_rows logs)"
    using ds(2) perm by (metis length_map size_mset)
  have "mode_values by_cfg (key_of cfg) mode = sampled logs' cfg mode" for cfg mode
  proof -
    have "map (\<lambda>(m, k, l). l) (filter (\<lambda>(m, k, l). m = mode \<and> k = key_of cfg) (map (\<lambda>x. (?m x, ?k x, ?l x)) ds)) =
        map (\<lambda>(m, r). lr_latency_ms r) (filter (\<lambda>(m, r). m = mode \<and> lr_cfg r = cfg) (map fst ds))"
      by (induction ds) (auto simp: key_of_inj)
    then show ?thesis
      by (simp add: by_cfg_def mode_values_fold sampled_def ds(2)) (simp add: mode_values_def d_get_or_def)
  qed
  moreover have "mset (sampled logs' cfg mode) = mset (sampled logs cfg mode)" for cfg mode
    using perm by (simp add: sampled_def)
  ultimately show ?thesis using col ds(1) len by (auto simp: by_cfg_def key_of_inj)
qed

text \<open>A worker with two tokens of two configurations, and formats that read back.\<close>

definition read_digits :: "string \<Rightarrow> int" where
  "read_digits s = int (foldl (\<lambda>v c. v * 10 + (of_char c - 48)) 0 s)"

definition read_int :: "string \<Rightarrow> int option" where
  "read_int s = (case s of [] \<Rightarrow> None | c # cs \<Rightarrow> Some (if c = CHR ''-'' then - read_digits cs else read_digits s))"

lemma nat_str_nonempty: "nat_str n \<noteq> []"
  by (subst nat_str.simps) simp

lemma read_int_str: "\<forall>n. read_int (int_str n) = Some n"
proof
  fix n
  show "read_int (int_str n) = Some n"
  proof (cases "n < 0")
    case True
    then show ?thesis by (simp add: read_int_def int_str_def read_digits_def nat_str_inverse)
  next
    case False
    obtain c cs where c: "nat_str (nat n) = c # cs" using nat_str_nonempty by (cases "nat_str (nat n)") auto
    then have "c \<noteq> CHR ''-''" using nat_str_digits [of c "nat n"] by force
    then show ?thesis using False c nat_str_inverse [of "nat n"] by (simp add: read_int_def int_str_def read_digits_def)
  qed
qed

definition example_config :: "nat \<Rightarrow> exp_config" where
  "example_config ep = \<lparr>xc_ep_group_size = ep, xc_attn_service_t = 1, xc_n_gpu_per_host = 8, xc_net_delay_intra = 1,
     xc_net_delay_inter = 2, xc_global_max = 64, xc_hidden_dim = 2880, xc_inter_bw = 2, xc_bw_aware = True\<rparr>"

definition example_token :: "nat \<Rightarrow> real \<Rightarrow> token_row" where
  "example_token ep ms = \<lparr>lr_cfg = example_config ep, lr_request_id = 3, lr_token_index = 0, lr_tid = 9,
     lr_birth_time = 1, lr_completion_time = 2, lr_latency_ticks = 1, lr_latency_ms = ms\<rparr>"

definition example_worker :: worker_log where
  "example_worker = (''sync'', ''PoolWorker-1'', 41,
     \<lparr>tl_open = True, tl_draws = None, tl_rate = 1, tl_rows = [example_token 8 1, example_token 16 2, example_token 8 2]\<rparr>)"

definition example_float_str :: "real \<Rightarrow> string" where
  "example_float_str x = (if x = 1 then ''1.0'' else ''2.0'')"

definition example_read_float :: "string \<Rightarrow> real option" where
  "example_read_float s = (if s = ''1.0'' then Some 1 else if s = ''2.0'' then Some 2 else None)"

lemma example_worker_ok:
  "\<forall>(mode, worker, pid, g) \<in> set [example_worker]. plain_name mode \<and> plain_name worker \<and>
     (\<forall>r \<in> set (tl_rows g). floats_ok example_float_str example_read_float r)"
  by (simp add: example_worker_def plain_name_def strip_def is_space_def example_token_def example_config_def floats_ok_def
      row_floats_def example_float_str_def example_read_float_def)

lemma itl_samples_roundtrip_witness:
  "sampled [example_worker] (example_config 8) ''sync'' = [1, 2] \<and>
   (\<exists>by_cfg. collect read_int example_read_float None ''ms'' (iter_csv_rows [log_file example_float_str example_worker]) =
      Inr (by_cfg, length (log_rows [example_worker]), length (log_rows [example_worker])) \<and>
    (\<forall>cfg mode. mset (mode_values by_cfg (key_of cfg) mode) = mset (sampled [example_worker] cfg mode)) \<and>
    (\<forall>c d. key_of c = key_of d \<longleftrightarrow> c = d))"
proof
  show "sampled [example_worker] (example_config 8) ''sync'' = [1, 2]"
    by (simp add: sampled_def log_rows_def example_worker_def example_token_def example_config_def)
qed (rule itl_samples_roundtrip [OF _ example_worker_ok read_int_str], simp)

section \<open>Where the script fails\<close>

text \<open>
  A row with one of the two delays alone is kept, but the name of its picture cannot be formed:
  the other delay is None, which has no number format.
\<close>

lemma one_sided_delay_raises:
  assumes "ck_net_delay_intra k = None \<longleftrightarrow> ck_net_delay_inter k \<noteq> None"
  shows "cdf_filename fmt_g only by_cfg k = Inl TypeError"
  using assms by (auto simp: cdf_filename_def net_fname_def split: option.splits)

text \<open>
  The name cuts the bandwidth to an integer: configurations that differ only behind the point
  and have as many samples share a file, and the later picture replaces the earlier.
\<close>

lemma bandwidths_share_file:
  assumes "\<forall>mode. length (mode_values by_cfg k mode) = length (mode_values by_cfg (k\<lparr>ck_inter_bw := b\<rparr>) mode)"
    and "0 \<le> ck_inter_bw k" and "0 \<le> b" and "\<lfloor>ck_inter_bw k\<rfloor> = \<lfloor>b\<rfloor>"
  shows "cdf_filename fmt_g only by_cfg (k\<lparr>ck_inter_bw := b\<rparr>) = cdf_filename fmt_g only by_cfg k"
  using assms by (simp add: cdf_filename_def net_fname_def)

end
