(* ===== verification/Spec2Isabelle.thy ===== *)
theory Spec2Isabelle
  imports MemPool DPSched Placement Detok BlockManager Metadata Executor Engine Router
    SimAsyncLive SimRouter ExperimentProps Deploy Attention ExpertExec Telemetry ModelUtils Queueing GraphKernels LogAnalysisProps ItlPlotProps
begin

text \<open>
  StreamInfer serves mixture-of-experts models with attention and experts on separate devices.
  This is the root of its verification library; it models the Python code under
  \<open>src/disagmoe\<close> and \<open>src/simulation\<close>, and the C++ code that the Python code cannot be
  understood without.

  The program. A controller (\<open>frontend/controller.py\<close>) places the model on devices
  (\<open>config.py\<close>, \<open>utils/placement.py\<close>), starts one engine per device, admits requests through a
  data-parallel scheduler (\<open>scheduler/dpscheduler.py\<close>) and waits for their latency records.
  A tokenizer sends each request to the attention engine of its rank; the engine
  (\<open>frontend/engine.py\<close>) keeps its sequences in a block manager (\<open>block_manager/\<close>,
  \<open>csrc/engine/block_manager.cpp\<close>), runs its layers through executors and CUDA graphs
  (\<open>executor/\<close>, \<open>models/\<close>), and hands tokens on, sorted by expert or by attention rank
  (\<open>ops/memory.py\<close>, \<open>csrc/include/metadata.hpp\<close>). A sampler ends sequences; the detokenizer
  (\<open>frontend/tokenizer.py\<close>) turns its stream into latency records. Three simulators
  (\<open>simulation/sim_async.py\<close>, \<open>sim_sync.py\<close>, \<open>sim_tbo.py\<close>) estimate the same pipeline on a
  recorded routing profile (\<open>models/gate.py\<close>).

  Theories and sources.
  \<^item> \<open>Prelude\<close>, \<open>Dicts\<close>, \<open>Pools\<close>, \<open>Tensor\<close>: errors as values, Python indexing and dictionaries, the
    contract of a free list (a locale, interpreted by the pools), tensors as trees of axes.
  \<^item> \<open>Utils\<close> (\<open>utils/utils.py\<close>): counters, prefix sums, powers of two.
  \<^item> \<open>Placement\<close>: model configurations, edges, ranks, the placement strategies.
  \<^item> \<open>DPSched\<close>: block ledger, policies and waiting loop, cut into steps at its awaits.
  \<^item> \<open>Detok\<close>: tokenizer and detokenizer.
  \<^item> \<open>Controller\<close>: requests, result objects, polling and completion tasks, composed with the scheduler,
    the tokenizer and the detokenizer as one event system; \<open>Deploy\<close>: how the cluster is built.
  \<^item> \<open>MemPool\<close>, \<open>KVBlocks\<close>, \<open>BlockManager\<close>: request slots, token and page allocators, the block tables
    in C++ and the managers above them.
  \<^item> \<open>Batches\<close>, \<open>Metadata\<close>: batch metadata, sorting and merging, and the row mappings.
  \<^item> \<open>Executor\<close>, \<open>Sampler\<close>, \<open>Engine\<close>: graphs and buckets, end of sequences, one engine step, the
    overlapped loop.
  \<^item> \<open>Linear\<close>, \<open>LinearProps\<close>, \<open>Experts\<close>, \<open>Attention\<close>: the tensor-parallel layers and their checkpoint
    loaders, the seven expert implementations with the grouped GEMM runners of
    \<open>csrc/cuda_ops/grouped_gemm.cu\<close>, the attention block. \<open>Router\<close>: the routing profile.
  \<^item> \<open>SimUtil\<close>, \<open>SimSched\<close>, \<open>SimAsync\<close> with \<open>SimAsyncCore\<close>, \<open>SimAsyncInv\<close>, \<open>SimAsyncSafe\<close>, \<open>SimAsyncLive\<close>;
    \<open>SimSync\<close> with \<open>SimSyncRun\<close>, \<open>SimSyncProps\<close>; \<open>SimTbo\<close> with \<open>SimTboProps\<close>: the simulators.
    Their router is a field of the configuration that may raise; \<open>SimRouter\<close> puts the in-repo
    \<open>ProfileDrivenRouter\<close> of theory \<open>Router\<close> there.
  \<^item> \<open>SimLimit\<close>, \<open>SimClock\<close>, \<open>SimReport\<close> with \<open>SimReportProps\<close>: the early stop, the clock and the
    reports of the simulators; \<open>Experiment\<close> with \<open>ExperimentProps\<close> (\<open>simulation/experiment.py\<close>): the
    grid of configurations, its delay models and the runs it makes.
  \<^item> \<open>ExpertExec\<close>: the executor of the expert layers, its CUDA graphs and their fused copy;
    \<open>GraphKernels\<close> (\<open>ops/cuda_graph.py\<close>): the Triton kernels that copy a batch into graph buffers.
  \<^item> \<open>ModelUtils\<close> (\<open>models/utils.py\<close>): packed attention metadata, dummy batches, broadcast.
  \<^item> \<open>Telemetry\<close> (\<open>utils/advanced_logger.py\<close>, \<open>utils/metrics.py\<close>, the logging of the engine): what a
    worker records and reports; \<open>LogAnalysis\<close> with \<open>LogAnalysisProps\<close>
    (\<open>experiments/process_and_plot_advanced_logging.py\<close>): the figures computed from the dumps.
  \<^item> \<open>ItlPlot\<close> with \<open>ItlPlotProps\<close> (\<open>simulation/plot_itl_cdf.py\<close> and the log lines of the
    experiment): the comparison of sampled latencies. \<open>Queueing\<close> (\<open>simulator/queueing.py\<close>): the
    pipeline queueing simulator.

  What is shown. Pools and block managers: conservation, no location handed out twice, the
  parallel page kernel refines the sequential loop, reset and release. Scheduler and
  controller: the ledger balances, requests leave in order, no wake-up is lost, every request
  is accounted for and every client gets the record of its own request, once. Placement and
  deployment: experts and edges are complete, engines get distinct devices and the tokenizer of
  their rank, channel ids pair up. Engine: padded graphs refine eager execution, the overlapped
  loop dispatches the same batches, routing permutes and restores rows, on the eager and on the
  graph path. Models: sharded layers
  compute the unsharded layer, checkpoints land where grouped-query attention looks, the expert
  implementations agree with one reference (the contiguous DeepGEMM pass on the aligned segments
  that its kernel asks for), the attention block is well typed and raises for its routing only.
  Simulators: an execution of the asynchronous one raises nothing but what its router raises, it
  is deadlock free and ends; the synchronous and overlapped runs complete or end with the exception
  of the router; their times are related to each other; an early stop reports a prefix of the full
  run and every figure of a report is in its range. The in-repo router refuses the Python list of
  request ids that all three simulators pass, so with it each of them raises at the first routed
  token, and so does every run of the experiment grid; the queueing simulator serves every token of every request. Reports: a worker's report holds one
  row per event, the dumps are read back, the bandwidth plot accounts for every received byte, the
  delay matrix holds the mean of the logged delays, and each sampled latency is plotted under its
  own configuration. The lemmas under a heading
  like "Where the implementations fail" show where the code does not do what it means to.

  Conventions. Every operation that can raise returns \<open>py_error + 'a\<close>. Coroutines and processes
  are cut at their awaits into events of an executable step function, so that a lemma on all
  event lists covers every interleaving; time is not part of the asynchronous simulator's
  events, so its lemmas hold for all delays. Floats are reals. Loops that the text does not
  bound run on fuel, and \<open>NoReturn\<close> is the value of a loop that used it up: a simulated worker has
  as much fuel as it holds tokens, the synchronous runs as much as there are passes left, and
  the termination lemmas show that it suffices. The controller's lemma bounds the number of
  requests by the range of its 32-bit counter.

  Parameters. Code outside the repository is an argument, with what the code relies on as a
  named hypothesis that an example instance satisfies: torch kernels and collectives, vLLM's
  \<open>divide\<close> and parameter classes, the \<open>gguf\<close> sizes, attention and GEMM kernels, quantisation
  operations, the Parquet and CSV readers, Ray's actors and addresses, channel ids, network
  delays, and the order in which Python iterates a set.

  Not modelled. Sockets, Ray start-up, CUDA streams, events, graphs' memory and GDR copies are
  modelled by the values they move only. Left out: the C++ transport and its schedulers, NVTX
  ranges, text logs and profiler traces, the Triton kernels of \<open>ops/memory.py\<close> and of the
  attention block, its permutation helper that nothing calls, benchmark and interference drivers,
  the scripts that parse text logs, and drawing with matplotlib.
\<close>

end
